(* ===== verification/Prelude.thy ===== *)
theory Prelude
  imports Main "HOL-Library.Word" "HOL-Library.AList" "HOL-Library.List_Lexorder"
begin

unbundle bit_operations_syntax

text \<open>
  Shared ground of the development: the names of the machine integers, the result type of
  operations that may abort, the standard containers the source uses (a \<open>HashMap\<close> and a
  \<open>HashSet\<close> as lists in the iteration order, a \<open>BTreeMap\<close> as a sorted association
  list) and the lemmas about them that the components share.
\<close>

section \<open>Integers and results\<close>

type_synonym u8 = "8 word"
type_synonym u16 = "16 word"
type_synonym u32 = "32 word"
type_synonym u64 = "64 word"
type_synonym u128 = "128 word"
type_synonym i64 = "64 word"
type_synonym bytes = "8 word list"

text \<open>
  A Rust function returning \<open>Result\<close> may return a value, return an error, or abort the
  process (an index or a slice out of range; the release profile sets \<open>panic = "abort"\<close>).
\<close>

datatype ('e, 'a) res = Panic | Err 'e | Ok 'a

primrec bind_res :: "('e, 'a) res \<Rightarrow> ('a \<Rightarrow> ('e, 'b) res) \<Rightarrow> ('e, 'b) res" where
  "bind_res Panic f = Panic"
| "bind_res (Err e) f = Err e"
| "bind_res (Ok x) f = f x"

primrec ok_or :: "'a option \<Rightarrow> 'e \<Rightarrow> ('e, 'a) res" where
  "ok_or None e = Err e"
| "ok_or (Some x) e = Ok x"

lemma bind_res_eq_Ok [simp]: "bind_res m f = Ok y \<longleftrightarrow> (\<exists>x. m = Ok x \<and> f x = Ok y)"
  by (cases m) auto

lemma bind_res_eq_Err: "bind_res m f = Err e \<longleftrightarrow> m = Err e \<or> (\<exists>x. m = Ok x \<and> f x = Err e)"
  by (cases m) auto

lemma bind_res_assoc: "bind_res (bind_res m f) g = bind_res m (\<lambda>x. bind_res (f x) g)"
  by (cases m) auto

lemma ok_or_eq_Ok [simp]: "ok_or m e = Ok y \<longleftrightarrow> m = Some y"
  by (cases m) auto

lemma ok_or_eq_Panic [simp]: "ok_or m e \<noteq> Panic"
  by (cases m) auto

lemma sum_list_bound: "(\<And>x. x \<in> set xs \<Longrightarrow> f x \<le> (m :: nat)) \<Longrightarrow> sum_list (map f xs) \<le> length xs * m"
  by (induction xs) (force, simp add: add_mono)

text \<open>Bounds of the machine words, as numbers.\<close>

lemma unat_bounds:
  "unat (a :: u8) < 256" "unat (b :: u16) < 65536" "unat (c :: u32) < 4294967296"
  "unat (d :: u64) < 18446744073709551616"
  using unsigned_less [of a] unsigned_less [of b] unsigned_less [of c] unsigned_less [of d]
  by simp_all

named_theorems codec_simps "decoding what was encoded, field by field"
named_theorems enc_length "lengths of encodings"

section \<open>Hash maps as association lists\<close>

text \<open>
  The standard library's \<open>HashMap\<close> is an association list with distinct keys; the
  list order stands for the map's (unspecified) iteration order. \<open>AList.update\<close> is
  \<open>insert\<close> and \<open>map_of\<close> is \<open>get\<close>; nothing in the development rests on where a
  new key is placed beyond the fact that some order exists.
\<close>

type_synonym ('k, 'v) hmap = "('k \<times> 'v) list"

abbreviation hm_keys :: "('k, 'v) hmap \<Rightarrow> 'k list" where
  "hm_keys m \<equiv> map fst m"

abbreviation hm_ok :: "('k, 'v) hmap \<Rightarrow> bool" where
  "hm_ok m \<equiv> distinct (map fst m)"

definition get_or :: "'v \<Rightarrow> ('k, 'v) hmap \<Rightarrow> 'k \<Rightarrow> 'v" where
  "get_or d m k = (case map_of m k of None \<Rightarrow> d | Some v \<Rightarrow> v)"

text \<open>\<open>*m.entry(k).or_insert(d) = f(old)\<close>: update the value at a key, inserting the
  default first when the key is absent.\<close>

definition entry_upd :: "'v \<Rightarrow> ('v \<Rightarrow> 'v) \<Rightarrow> 'k \<Rightarrow> ('k, 'v) hmap \<Rightarrow> ('k, 'v) hmap" where
  "entry_upd d f k m = AList.update k (f (get_or d m k)) m"

lemma map_of_update_alist [simp]:
  "map_of (AList.update k v m) k' = (if k' = k then Some v else map_of m k')"
  by (simp add: AList.update_conv')

lemma get_or_Nil [simp]: "get_or d [] k = d"
  by (simp add: get_or_def)

lemma get_or_update [simp]:
  "get_or d (AList.update k v m) k' = (if k' = k then v else get_or d m k')"
  by (simp add: get_or_def)

lemma get_or_entry_upd [simp]:
  "get_or d (entry_upd d f k m) k' = (if k' = k then f (get_or d m k) else get_or d m k')"
  by (simp add: entry_upd_def)

lemma map_of_entry_upd [simp]:
  "map_of (entry_upd d f k m) k' = (if k' = k then Some (f (get_or d m k)) else map_of m k')"
  by (simp add: entry_upd_def)

lemma hm_ok_entry_upd [simp]: "hm_ok m \<Longrightarrow> hm_ok (entry_upd d f k m)"
  by (simp add: entry_upd_def distinct_update)

lemma hm_ok_update [simp]: "hm_ok m \<Longrightarrow> hm_ok (AList.update k v m)"
  by (rule distinct_update)

lemma keys_entry_upd [simp]: "fst ` set (entry_upd d f k m) = insert k (fst ` set m)"
  by (simp add: entry_upd_def dom_update)

lemma update_new: "k \<notin> fst ` set m \<Longrightarrow> AList.update k v m = m @ [(k, v)]"
  by (induction m) auto

lemma fold_update_append:
  "distinct (map fst es) \<Longrightarrow> fst ` set es \<inter> fst ` set m = {} \<Longrightarrow>
   fold (\<lambda>(k, v) m. AList.update k v m) es m = m @ es"
proof (induction es arbitrary: m)
  case (Cons e es)
  obtain k v where e: "e = (k, v)" by force
  from Cons.prems e have k: "k \<notin> fst ` set m" and d: "distinct (map fst es)"
    and i: "fst ` set es \<inter> fst ` set (m @ [(k, v)]) = {}" by auto
  from Cons.IH [OF d i] k e show ?case by (simp add: update_new)
qed simp

lemma fold_update_id: "hm_ok m \<Longrightarrow> fold (\<lambda>(k, v) m. AList.update k v m) m [] = m"
  using fold_update_append [of m "[]"] by simp

lemma get_or_map_of: "hm_ok m \<Longrightarrow> (k, v) \<in> set m \<Longrightarrow> get_or d m k = v"
  by (simp add: get_or_def)

lemma get_or_notin: "k \<notin> fst ` set m \<Longrightarrow> get_or d m k = d"
  by (simp add: get_or_def map_of_eq_None_iff [THEN iffD2])

lemma map_of_update_filter: "map_of (filter (\<lambda>(k, v). P k) m) k = (if P k then map_of m k else None)"
  by (induction m) auto

text \<open>A loop over one map that updates the entry of another at each key.\<close>

lemma get_or_fold_entry:
  "hm_ok es \<Longrightarrow>
   get_or d (fold (\<lambda>(k, v) m. entry_upd d (f v) k m) es m) k' =
     (case map_of es k' of None \<Rightarrow> get_or d m k' | Some v \<Rightarrow> f v (get_or d m k'))"
proof (induction es arbitrary: m)
  case (Cons e es)
  obtain k v where e: "e = (k, v)" by force
  from Cons.prems e have d: "hm_ok es" and k: "k \<notin> fst ` set es" by auto
  from k have n: "map_of es k = None" by (simp add: map_of_eq_None_iff)
  show ?case by (simp add: Cons.IH [OF d] e n split: option.splits)
qed simp

lemma hm_ok_fold_entry [simp]:
  "hm_ok m \<Longrightarrow> hm_ok (fold (\<lambda>(k, v) m. entry_upd d (f v) k m) es m)"
  by (induction es arbitrary: m) auto

lemma keys_fold_entry [simp]:
  "fst ` set (fold (\<lambda>(k, v) m. entry_upd d (f v) k m) es m) = fst ` set m \<union> fst ` set es"
  by (induction es arbitrary: m) (simp_all add: case_prod_beta)

section \<open>Hash sets as lists without repetition\<close>

definition hs_insert :: "'a \<Rightarrow> 'a list \<Rightarrow> 'a list" where
  "hs_insert x xs = (if x \<in> set xs then xs else xs @ [x])"

definition hs_extend :: "'a list \<Rightarrow> 'a list \<Rightarrow> 'a list" where
  "hs_extend ys xs = fold hs_insert ys xs"

definition hs_remove :: "'a \<Rightarrow> 'a list \<Rightarrow> 'a list" where
  "hs_remove x xs = removeAll x xs"

lemma set_hs_remove [simp]: "set (hs_remove x xs) = set xs - {x}"
  by (simp add: hs_remove_def)

lemma distinct_hs_remove [simp]: "distinct xs \<Longrightarrow> distinct (hs_remove x xs)"
  by (simp add: hs_remove_def distinct_removeAll)

lemma set_hs_insert [simp]: "set (hs_insert x xs) = insert x (set xs)"
  by (auto simp: hs_insert_def)

lemma distinct_hs_insert [simp]: "distinct xs \<Longrightarrow> distinct (hs_insert x xs)"
  by (simp add: hs_insert_def)

lemma set_hs_extend [simp]: "set (hs_extend ys xs) = set xs \<union> set ys"
  unfolding hs_extend_def by (induction ys arbitrary: xs) auto

lemma distinct_hs_extend [simp]: "distinct xs \<Longrightarrow> distinct (hs_extend ys xs)"
  unfolding hs_extend_def by (induction ys arbitrary: xs) auto

lemma hs_extend_append:
  "distinct ys \<Longrightarrow> set ys \<inter> set xs = {} \<Longrightarrow> hs_extend ys xs = xs @ ys"
  unfolding hs_extend_def
proof (induction ys arbitrary: xs)
  case (Cons y ys)
  then have "fold hs_insert ys (xs @ [y]) = (xs @ [y]) @ ys" by (intro Cons.IH) auto
  moreover from Cons.prems have "hs_insert y xs = xs @ [y]" by (simp add: hs_insert_def)
  ultimately show ?case by simp
qed simp

lemma hs_extend_Nil: "distinct ys \<Longrightarrow> hs_extend ys [] = ys"
  by (simp add: hs_extend_append)

section \<open>Ordered maps as sorted association lists\<close>

text \<open>The standard library's \<open>BTreeMap\<close>: an association list with strictly increasing
  keys, which is the order its iterators follow.\<close>

type_synonym ('k, 'v) bmap = "('k \<times> 'v) list"

definition bm_ok :: "('k::linorder, 'v) bmap \<Rightarrow> bool" where
  "bm_ok m \<longleftrightarrow> sorted_wrt (<) (map fst m)"

fun bm_insert :: "'k::linorder \<Rightarrow> 'v \<Rightarrow> ('k, 'v) bmap \<Rightarrow> ('k, 'v) bmap" where
  "bm_insert k v [] = [(k, v)]"
| "bm_insert k v ((k', v') # m) =
     (if k < k' then (k, v) # (k', v') # m
      else if k = k' then (k, v) # m
      else (k', v') # bm_insert k v m)"

lemma bm_ok_Nil [simp]: "bm_ok []"
  by (simp add: bm_ok_def)

lemma keys_bm_insert [simp]: "fst ` set (bm_insert k v m) = insert k (fst ` set m)"
  by (induction k v m rule: bm_insert.induct) auto

lemma bm_ok_insert [simp]: "bm_ok m \<Longrightarrow> bm_ok (bm_insert k v m)"
  unfolding bm_ok_def
proof (induction k v m rule: bm_insert.induct)
  case (2 k v k' v' m)
  then show ?case
    using keys_bm_insert [of k v m] by (auto simp: image_iff dest: less_trans)
qed simp

lemma bm_lookup_insert [simp]:
  "map_of (bm_insert k v m) k' = (if k' = k then Some v else map_of m k')"
  by (induction k v m rule: bm_insert.induct) auto

lemma set_bm_insert: "set (bm_insert k v m) \<subseteq> insert (k, v) (set m)"
  by (induction k v m rule: bm_insert.induct) auto

lemma bm_ok_distinct: "bm_ok m \<Longrightarrow> distinct (map fst m)"
  unfolding bm_ok_def by (simp add: strict_sorted_iff)

section \<open>Formatting\<close>

text \<open>\<open>{}\<close> and \<open>{:X}\<close> of the standard library on unsigned integers.\<close>

definition digit_char :: "nat \<Rightarrow> char" where
  "digit_char d = char_of (if d < 10 then 48 + d else 55 + d)"

fun fmt_base :: "nat \<Rightarrow> nat \<Rightarrow> string" where
  "fmt_base b n = (if n < b \<or> b < 2 then [digit_char n] else fmt_base b (n div b) @ [digit_char (n mod b)])"

declare fmt_base.simps [simp del]

abbreviation dec :: "nat \<Rightarrow> string" where "dec n \<equiv> fmt_base 10 n"
abbreviation hex :: "nat \<Rightarrow> string" where "hex n \<equiv> fmt_base 16 n"

text \<open>Reading decimal numbers.\<close>

definition is_dec_digit :: "char \<Rightarrow> bool" where
  "is_dec_digit c \<longleftrightarrow> (let n = of_char c :: nat in 48 \<le> n \<and> n \<le> 57)"

definition dec_value :: "string \<Rightarrow> nat" where
  "dec_value s = foldl (\<lambda>n c. n * 10 + (of_char c - 48)) 0 s"

lemma of_char_digit: "d < 10 \<Longrightarrow> (of_char (digit_char d) :: nat) = 48 + d"
  by (simp add: digit_char_def)

lemma dec_value_append: "dec_value (s @ t) = foldl (\<lambda>n c. n * 10 + (of_char c - 48)) (dec_value s) t"
  by (simp add: dec_value_def)

lemma dec_digits: "list_all is_dec_digit (dec n)"
proof (induction n rule: less_induct)
  case (less n)
  have d: "is_dec_digit (digit_char (n mod 10))" by (simp add: is_dec_digit_def of_char_digit)
  show ?case
  proof (cases "n < 10")
    case True then show ?thesis using d by (simp add: fmt_base.simps [of 10 n])
  next
    case False
    then have "n div 10 < n" by simp
    from less.IH [OF this] False d show ?thesis by (simp add: fmt_base.simps [of 10 n])
  qed
qed

lemma dec_value_dec: "dec_value (dec n) = n"
proof (induction n rule: less_induct)
  case (less n)
  show ?case
  proof (cases "n < 10")
    case True then show ?thesis by (simp add: fmt_base.simps [of 10 n] dec_value_def of_char_digit)
  next
    case False
    then have "n div 10 < n" by simp
    from less.IH [OF this] False show ?thesis
      by (simp add: fmt_base.simps [of 10 n] dec_value_append of_char_digit)
  qed
qed

lemma dec_not_Nil: "dec n \<noteq> []"
  by (subst fmt_base.simps) simp

lemma dec_value_zeros: "dec_value (replicate k CHR ''0'' @ s) = dec_value s"
  by (induction k) (simp_all add: dec_value_def)

end
