(* ===== verification/Bytes.thy ===== *)
theory Bytes
  imports Prelude
begin

text \<open>
  Little-endian encodings of the fixed-width integers (\<open>to_le_bytes\<close> and
  \<open>from_le_bytes\<close>), readers that take a prefix of a byte slice and return the rest,
  and the interface of a codec: an encoder and a reader such that the reader gives back
  every valid value that was encoded, whatever follows it. A reader models the source's
  pattern of a length check \<open>offset + n > data.len()\<close> followed by a read and an advance
  of the offset; the remaining slice is \<open>data[offset..]\<close>.
\<close>

section \<open>Little-endian numbers\<close>

primrec nat_le :: "nat \<Rightarrow> nat \<Rightarrow> bytes" where
  "nat_le 0 v = []"
| "nat_le (Suc n) v = of_nat v # nat_le n (v div 256)"

primrec le_nat :: "bytes \<Rightarrow> nat" where
  "le_nat [] = 0"
| "le_nat (b # bs) = unat b + 256 * le_nat bs"

lemma length_nat_le [simp]: "length (nat_le n v) = n"
  by (induction n arbitrary: v) auto

lemma le_nat_nat_le [simp]: "le_nat (nat_le n v) = v mod 256 ^ n"
proof (induction n arbitrary: v)
  case (Suc n)
  have "unat (of_nat v :: u8) = v mod 256" by (simp add: unat_of_nat)
  then show ?case using Suc by (simp add: mod_mult2_eq)
qed simp

lemma le_nat_less: "le_nat bs < 256 ^ length bs"
proof (induction bs)
  case (Cons b bs)
  have "unat b < 256" by (rule unat_bounds)
  then have "unat b + 256 * le_nat bs < 256 * (le_nat bs + 1)" by simp
  also have "\<dots> \<le> 256 * 256 ^ length bs" using Cons by (intro mult_le_mono2) simp
  finally show ?case by simp
qed simp

lemma nat_le_le_nat [simp]: "nat_le (length bs) (le_nat bs) = bs"
proof (induction bs)
  case (Cons b bs)
  have b: "unat b < 256" by (rule unat_bounds)
  have "of_nat (unat b + 256 * le_nat bs) = (of_nat (unat b) :: u8) + of_nat 256 * of_nat (le_nat bs)"
    by simp
  also have "(of_nat 256 :: u8) = 0" by simp
  finally have "of_nat (unat b + 256 * le_nat bs) = b" by simp
  with Cons b show ?case by simp
qed simp

lemma nat_le_inj: "nat_le n v = nat_le n w \<Longrightarrow> v < 256 ^ n \<Longrightarrow> w < 256 ^ n \<Longrightarrow> v = w"
  by (metis le_nat_nat_le mod_less)

definition u16_le :: "u16 \<Rightarrow> bytes" where "u16_le w = nat_le 2 (unat w)"
definition u32_le :: "u32 \<Rightarrow> bytes" where "u32_le w = nat_le 4 (unat w)"
definition u64_le :: "u64 \<Rightarrow> bytes" where "u64_le w = nat_le 8 (unat w)"

definition le_u16 :: "bytes \<Rightarrow> u16" where "le_u16 bs = of_nat (le_nat bs)"
definition le_u32 :: "bytes \<Rightarrow> u32" where "le_u32 bs = of_nat (le_nat bs)"
definition le_u64 :: "bytes \<Rightarrow> u64" where "le_u64 bs = of_nat (le_nat bs)"

lemma length_u_le [simp, enc_length]:
  "length (u16_le a) = 2" "length (u32_le b) = 4" "length (u64_le c) = 8"
  by (simp_all add: u16_le_def u32_le_def u64_le_def)

lemma le_u_le [simp]:
  "le_u16 (u16_le a) = a" "le_u32 (u32_le b) = b" "le_u64 (u64_le c) = c"
  using unat_bounds(2) [of a] unat_bounds(3) [of b] unat_bounds(4) [of c]
  by (simp_all add: u16_le_def u32_le_def u64_le_def le_u16_def le_u32_def le_u64_def)

lemma u_le_le_u:
  "length bs = 2 \<Longrightarrow> u16_le (le_u16 bs) = bs"
  "length bs = 4 \<Longrightarrow> u32_le (le_u32 bs) = bs"
  "length bs = 8 \<Longrightarrow> u64_le (le_u64 bs) = bs"
  using le_nat_less [of bs] nat_le_le_nat [of bs]
  by (simp_all add: u16_le_def u32_le_def u64_le_def le_u16_def le_u32_def le_u64_def
      unat_of_nat)

text \<open>\<open>(n as u32).to_le_bytes()\<close> for a \<open>usize\<close>: lengths beyond 32 bits are cut off.\<close>

definition len_le :: "nat \<Rightarrow> bytes" where "len_le n = u32_le (of_nat n)"

lemma length_len_le [simp, enc_length]: "length (len_le n) = 4"
  by (simp add: len_le_def)

lemma unat_of_nat_u32: "n < 2 ^ 32 \<Longrightarrow> unat (of_nat n :: u32) = n"
  by (simp add: unat_of_nat)

lemma unat_of_nat_u64: "n < 2 ^ 64 \<Longrightarrow> unat (of_nat n :: u64) = n"
  by (simp add: unat_of_nat)

section \<open>Reading at fixed offsets\<close>

abbreviation u16_at :: "nat \<Rightarrow> bytes \<Rightarrow> u16" where "u16_at i bs \<equiv> le_u16 (take 2 (drop i bs))"
abbreviation u32_at :: "nat \<Rightarrow> bytes \<Rightarrow> u32" where "u32_at i bs \<equiv> le_u32 (take 4 (drop i bs))"
abbreviation u64_at :: "nat \<Rightarrow> bytes \<Rightarrow> u64" where "u64_at i bs \<equiv> le_u64 (take 8 (drop i bs))"

lemma le_u_append [simp]:
  "length xs = 2 \<Longrightarrow> le_u16 (take 2 (xs @ ys)) = le_u16 xs"
  "length xs = 4 \<Longrightarrow> le_u32 (take 4 (xs @ ys)) = le_u32 xs"
  "length xs = 8 \<Longrightarrow> le_u64 (take 8 (xs @ ys)) = le_u64 xs"
  by simp_all

lemma length_concat_u64: "length (concat (map u64_le ws)) = 8 * length ws"
  by (induction ws) simp_all

section \<open>The helpers of \<open>src/utils/mod.rs\<close>\<close>

definition read_u16_le :: "bytes \<Rightarrow> u16 option" where
  "read_u16_le bs = (if length bs < 2 then None else Some (le_u16 (take 2 bs)))"

definition read_u32_le :: "bytes \<Rightarrow> u32 option" where
  "read_u32_le bs = (if length bs < 4 then None else Some (le_u32 (take 4 bs)))"

definition read_u64_le :: "bytes \<Rightarrow> u64 option" where
  "read_u64_le bs = (if length bs < 8 then None else Some (le_u64 (take 8 bs)))"

text \<open>The writers return the buffer after the call; on \<open>None\<close> the buffer is untouched.\<close>

definition write_u16_le :: "bytes \<Rightarrow> u16 \<Rightarrow> bytes option" where
  "write_u16_le bs v = (if length bs < 2 then None else Some (u16_le v @ drop 2 bs))"

definition write_u32_le :: "bytes \<Rightarrow> u32 \<Rightarrow> bytes option" where
  "write_u32_le bs v = (if length bs < 4 then None else Some (u32_le v @ drop 4 bs))"

definition write_u64_le :: "bytes \<Rightarrow> u64 \<Rightarrow> bytes option" where
  "write_u64_le bs v = (if length bs < 8 then None else Some (u64_le v @ drop 8 bs))"

lemma write_read_le:
  "write_u16_le bs a = Some bs2 \<Longrightarrow> length bs2 = length bs \<and> read_u16_le bs2 = Some a"
  "write_u32_le bs b = Some bs4 \<Longrightarrow> length bs4 = length bs \<and> read_u32_le bs4 = Some b"
  "write_u64_le bs c = Some bs8 \<Longrightarrow> length bs8 = length bs \<and> read_u64_le bs8 = Some c"
  by (auto simp: write_u16_le_def write_u32_le_def write_u64_le_def
      read_u16_le_def read_u32_le_def read_u64_le_def split: if_splits)

section \<open>Readers\<close>

definition read_n :: "nat \<Rightarrow> bytes \<Rightarrow> (bytes \<times> bytes) option" where
  "read_n n bs = (if length bs < n then None else Some (take n bs, drop n bs))"

definition read_u8 :: "bytes \<Rightarrow> (u8 \<times> bytes) option" where
  "read_u8 bs = (case bs of [] \<Rightarrow> None | b # rest \<Rightarrow> Some (b, rest))"

definition read_u16 :: "bytes \<Rightarrow> (u16 \<times> bytes) option" where
  "read_u16 bs = map_option (\<lambda>(x, rest). (le_u16 x, rest)) (read_n 2 bs)"

definition read_u32 :: "bytes \<Rightarrow> (u32 \<times> bytes) option" where
  "read_u32 bs = map_option (\<lambda>(x, rest). (le_u32 x, rest)) (read_n 4 bs)"

definition read_u64 :: "bytes \<Rightarrow> (u64 \<times> bytes) option" where
  "read_u64 bs = map_option (\<lambda>(x, rest). (le_u64 x, rest)) (read_n 8 bs)"

definition read_len :: "bytes \<Rightarrow> (nat \<times> bytes) option" where
  "read_len bs = map_option (\<lambda>(x, rest). (unat x, rest)) (read_u32 bs)"

text \<open>A length-prefixed byte string: a \<open>u32\<close> length, then that many bytes.\<close>

definition read_blob :: "bytes \<Rightarrow> (bytes \<times> bytes) option" where
  "read_blob bs = Option.bind (read_len bs) (\<lambda>(n, rest). read_n n rest)"

definition blob_le :: "bytes \<Rightarrow> bytes" where
  "blob_le b = len_le (length b) @ b"

text \<open>\<open>for _ in 0..n\<close> around a reader, folding what is read into a state.\<close>

fun read_loop :: "(bytes \<Rightarrow> ('a \<times> bytes) option) \<Rightarrow> ('a \<Rightarrow> 's \<Rightarrow> 's) \<Rightarrow>
    nat \<Rightarrow> bytes \<Rightarrow> 's \<Rightarrow> ('s \<times> bytes) option" where
  "read_loop rd f 0 bs s = Some (s, bs)"
| "read_loop rd f (Suc n) bs s =
     (case rd bs of None \<Rightarrow> None | Some (x, rest) \<Rightarrow> read_loop rd f n rest (f x s))"

lemma read_n_append [codec_simps]: "length a = n \<Longrightarrow> read_n n (a @ rest) = Some (a, rest)"
  by (simp add: read_n_def)

lemma read_u8_Cons [codec_simps]: "read_u8 (b # rest) = Some (b, rest)"
  by (simp add: read_u8_def)

lemma read_u_append [codec_simps]:
  "read_u16 (u16_le a @ rest) = Some (a, rest)"
  "read_u32 (u32_le b @ rest) = Some (b, rest)"
  "read_u64 (u64_le c @ rest) = Some (c, rest)"
  by (simp_all add: read_u16_def read_u32_def read_u64_def read_n_append)

lemma read_len_append [codec_simps]: "n < 2 ^ 32 \<Longrightarrow> read_len (len_le n @ rest) = Some (n, rest)"
  unfolding read_len_def len_le_def read_u_append by (simp only: option.map prod.case unat_of_nat_u32)

lemma read_blob_append [codec_simps]:
  "length b < 2 ^ 32 \<Longrightarrow> read_blob (blob_le b @ rest) = Some (b, rest)"
  by (simp add: read_blob_def blob_le_def codec_simps)

lemma length_blob_le [simp, enc_length]: "length (blob_le b) = 4 + length b"
  by (simp add: blob_le_def)

text \<open>A reader that succeeds has consumed a prefix.\<close>

lemma read_n_Some: "read_n n bs = Some (x, rest) \<Longrightarrow> bs = x @ rest \<and> length x = n"
  by (auto simp: read_n_def split: if_splits)

lemma read_u32_shrinks: "read_u32 bs = Some (x, rest) \<Longrightarrow> length bs = 4 + length rest"
  by (auto simp: read_u32_def dest: read_n_Some)

lemma read_len_shrinks: "read_len bs = Some (x, rest) \<Longrightarrow> length bs = 4 + length rest"
  by (auto simp: read_len_def dest: read_u32_shrinks)

lemma read_blob_shrinks: "read_blob bs = Some (x, rest) \<Longrightarrow> length bs = 4 + length x + length rest"
  by (auto simp: read_blob_def bind_eq_Some_conv dest!: read_len_shrinks read_n_Some)

lemma read_loop_map:
  assumes "\<And>x rest. x \<in> set xs \<Longrightarrow> rd (enc x @ rest) = Some (g x, rest)"
  shows "read_loop rd f (length xs) (concat (map enc xs) @ rest) s = Some (fold (\<lambda>x. f (g x)) xs s, rest)"
  using assms by (induction xs arbitrary: s) auto

section \<open>Strings\<close>

text \<open>
  A \<open>String\<close> is its UTF-8 bytes; \<open>String::from_utf8\<close> accepts exactly the well-formed
  sequences: no overlong forms, no surrogates, nothing beyond U+10FFFF.
\<close>

definition utf8_cont :: "u8 \<Rightarrow> bool" where
  "utf8_cont b \<longleftrightarrow> 0x80 \<le> b \<and> b \<le> 0xBF"

definition utf8_second :: "u8 \<Rightarrow> u8 \<Rightarrow> bool" where
  "utf8_second b c \<longleftrightarrow>
     (if b = 0xE0 then 0xA0 else if b = 0xF0 then 0x90 else 0x80) \<le> c \<and>
     c \<le> (if b = 0xED then 0x9F else if b = 0xF4 then 0x8F else 0xBF)"

fun utf8_valid :: "bytes \<Rightarrow> bool" where
  "utf8_valid [] \<longleftrightarrow> True"
| "utf8_valid (b # bs) \<longleftrightarrow>
     (if b < 0x80 then utf8_valid bs
      else if 0xC2 \<le> b \<and> b \<le> 0xDF then
        (case bs of c # r \<Rightarrow> utf8_cont c \<and> utf8_valid r | _ \<Rightarrow> False)
      else if 0xE0 \<le> b \<and> b \<le> 0xEF then
        (case bs of c # d # r \<Rightarrow> utf8_second b c \<and> utf8_cont d \<and> utf8_valid r | _ \<Rightarrow> False)
      else if 0xF0 \<le> b \<and> b \<le> 0xF4 then
        (case bs of c # d # e # r \<Rightarrow> utf8_second b c \<and> utf8_cont d \<and> utf8_cont e \<and> utf8_valid r
         | _ \<Rightarrow> False)
      else False)"

text \<open>A length-prefixed string.\<close>

definition read_string :: "bytes \<Rightarrow> (bytes \<times> bytes) option" where
  "read_string bs =
     Option.bind (read_blob bs) (\<lambda>(s, rest). if utf8_valid s then Some (s, rest) else None)"

definition string_ok :: "bytes \<Rightarrow> bool" where
  "string_ok s \<longleftrightarrow> length s < 2 ^ 32 \<and> utf8_valid s"

lemma read_string_append [codec_simps]: "string_ok s \<Longrightarrow> read_string (blob_le s @ rest) = Some (s, rest)"
  by (simp add: read_string_def string_ok_def codec_simps)

lemma read_string_shrinks: "read_string bs = Some (x, rest) \<Longrightarrow> length bs = 4 + length x + length rest"
  by (auto simp: read_string_def bind_eq_Some_conv dest!: read_blob_shrinks split: if_splits)

section \<open>The interface of a codec\<close>

locale codec =
  fixes enc :: "'a \<Rightarrow> bytes"
    and rd :: "bytes \<Rightarrow> ('a \<times> bytes) option"
    and ok :: "'a \<Rightarrow> bool"
  assumes rd_enc: "ok x \<Longrightarrow> rd (enc x @ rest) = Some (x, rest)"
begin

lemma enc_inj: "ok x \<Longrightarrow> ok y \<Longrightarrow> enc x = enc y \<Longrightarrow> x = y"
  by (metis rd_enc option.inject prod.inject)

text \<open>No encoding is a proper prefix of another: streams of encodings are unambiguous.\<close>

lemma enc_prefix_free: "ok x \<Longrightarrow> ok y \<Longrightarrow> enc x @ r = enc y @ s \<Longrightarrow> x = y \<and> r = s"
  by (metis rd_enc option.inject prod.inject)

lemma read_loop_concat:
  "\<forall>x\<in>set xs. ok x \<Longrightarrow>
   read_loop rd f (length xs) (concat (map enc xs) @ rest) s = Some (fold f xs s, rest)"
  by (induction xs arbitrary: s) (auto simp: rd_enc)

end

interpretation u16c: codec u16_le read_u16 "\<lambda>_. True"
  by unfold_locales (simp add: codec_simps)

interpretation u32c: codec u32_le read_u32 "\<lambda>_. True"
  by unfold_locales (simp add: codec_simps)

interpretation u64c: codec u64_le read_u64 "\<lambda>_. True"
  by unfold_locales (simp add: codec_simps)

interpretation stringc: codec blob_le read_string string_ok
  by unfold_locales (rule read_string_append)

interpretation blobc: codec blob_le read_blob "\<lambda>b. length b < 2 ^ 32"
  by unfold_locales (rule read_blob_append)

end
