(* ===== verification/Crc32.thy ===== *)
theory Crc32
  imports Bytes
begin

text \<open>
  The checksum of \<open>src/utils/mod.rs\<close>: the compile-time table, the table-driven
  \<open>crc32\<close>, and its wrappers for integers. The reference is the bitwise division by the
  reflected polynomial \<open>0xEDB88320\<close>; the one-bit step is linear over exclusive or and
  injective, which gives the equivalence with the table and what the checksum detects.
\<close>

section \<open>The code\<close>

definition crc_poly :: u32 where "crc_poly = 0xEDB88320"

text \<open>The body of the inner loop of \<open>compute_crc32_table\<close>.\<close>

definition crc_bit :: "u32 \<Rightarrow> u32" where
  "crc_bit crc = (if crc AND 1 \<noteq> 0 then drop_bit 1 crc XOR crc_poly else drop_bit 1 crc)"

definition compute_crc32_table :: "u32 list" where
  "compute_crc32_table = map (\<lambda>i. (crc_bit ^^ 8) (of_nat i)) [0..<256]"

definition crc32_byte :: "u8 \<Rightarrow> u32 \<Rightarrow> u32" where
  "crc32_byte byte crc =
     drop_bit 8 crc XOR compute_crc32_table ! unat ((crc XOR ucast byte) AND 0xFF)"

definition crc32 :: "bytes \<Rightarrow> u32" where
  "crc32 data = fold crc32_byte data 0xFFFFFFFF XOR 0xFFFFFFFF"

definition crc32_u16 :: "u16 \<Rightarrow> u32" where "crc32_u16 v = crc32 (u16_le v)"
definition crc32_u32 :: "u32 \<Rightarrow> u32" where "crc32_u32 v = crc32 (u32_le v)"
definition crc32_u64 :: "u64 \<Rightarrow> u32" where "crc32_u64 v = crc32 (u64_le v)"

section \<open>The bit step is linear and injective\<close>

lemma xor_eq_0_word: "x XOR y = 0 \<longleftrightarrow> x = y" for x y :: "'a::len word"
proof
  assume "x XOR y = 0"
  then have "(x XOR y) XOR y = y" by simp
  then show "x = y" by (simp add: xor.assoc)
qed simp

lemma xor_cancel [simp]:
  "x XOR z = y XOR z \<longleftrightarrow> x = y" "z XOR x = z XOR y \<longleftrightarrow> x = y"
  for x y z :: "'a::len word"
proof -
  have "x XOR z = y XOR z \<longleftrightarrow> (x XOR z) XOR (y XOR z) = 0" by (simp only: xor_eq_0_word)
  also have "(x XOR z) XOR (y XOR z) = x XOR y" by (rule bit_eqI) (auto simp: bit_xor_iff)
  finally show r: "x XOR z = y XOR z \<longleftrightarrow> x = y" by (simp only: xor_eq_0_word)
  show "z XOR x = z XOR y \<longleftrightarrow> x = y" using r by (simp only: xor.commute)
qed

lemma and_255: "x AND 0xFF = take_bit 8 x" for x :: u32
  by (simp add: take_bit_eq_mask mask_numeral)

lemma crc_bit_alt: "crc_bit x = drop_bit 1 x XOR (if odd x then crc_poly else 0)"
  by (simp add: crc_bit_def and_one_eq odd_iff_mod_2_eq_one)

lemma crc_bit_xor: "crc_bit (x XOR y) = crc_bit x XOR crc_bit y"
  by (simp add: crc_bit_alt drop_bit_xor even_xor_iff ac_simps)

lemma crc_bits_xor: "(crc_bit ^^ n) (x XOR y) = (crc_bit ^^ n) x XOR (crc_bit ^^ n) y"
  by (induction n) (auto simp: crc_bit_xor)

lemma crc_bit_0: "crc_bit 0 = 0"
  by (simp add: crc_bit_alt)

lemma crc_bit_eq_0: "crc_bit z = 0 \<Longrightarrow> z = 0"
proof (cases "odd z")
  case True
  moreover assume "crc_bit z = 0"
  ultimately have "drop_bit 1 z = crc_poly"
    by (simp add: crc_bit_alt xor_eq_0_word)
  then have "bit (drop_bit 1 z) 31 = bit crc_poly 31" by simp
  then have "bit z 32" by (simp add: bit_drop_bit_eq crc_poly_def)
  then show ?thesis using bit_imp_le_length [of z 32] by simp
next
  case False
  moreover assume "crc_bit z = 0"
  ultimately have d: "drop_bit 1 z = 0" and e: "even z" by (simp_all add: crc_bit_alt)
  have "bit z n = False" for n
  proof (cases n)
    case 0 with e show ?thesis by (simp add: bit_0)
  next
    case (Suc m)
    have "bit (drop_bit 1 z) m = False" using d by simp
    then show ?thesis by (simp add: Suc bit_drop_bit_eq)
  qed
  then show ?thesis by (intro bit_eqI) simp
qed

lemma crc_bit_inj: "crc_bit x = crc_bit y \<Longrightarrow> x = y"
  using crc_bit_eq_0 [of "x XOR y"] by (simp add: crc_bit_xor xor_eq_0_word)

lemma crc_bits_inj: "(crc_bit ^^ n) x = (crc_bit ^^ n) y \<Longrightarrow> x = y"
  by (induction n) (auto dest: crc_bit_inj)

text \<open>On a word whose low \<open>n\<close> bits are clear, \<open>n\<close> steps are a shift.\<close>

lemma crc_bits_shift: "(\<And>i. i < n \<Longrightarrow> \<not> bit x i) \<Longrightarrow> (crc_bit ^^ n) x = drop_bit n x"
proof (induction n arbitrary: x)
  case (Suc n)
  from Suc.prems [of 0] have "even x" by (simp add: bit_0)
  then have "crc_bit x = drop_bit 1 x" by (simp add: crc_bit_alt)
  moreover have "(crc_bit ^^ n) (drop_bit 1 x) = drop_bit n (drop_bit 1 x)"
    using Suc.prems by (intro Suc.IH) (simp add: bit_drop_bit_eq)
  ultimately show ?case by (simp add: funpow_swap1 drop_bit_drop_bit)
qed simp

section \<open>The table-driven step is the bitwise division\<close>

definition crc_ref_byte :: "u8 \<Rightarrow> u32 \<Rightarrow> u32" where
  "crc_ref_byte byte crc = (crc_bit ^^ 8) (crc XOR ucast byte)"

lemma split_low_byte: "x = push_bit 8 (drop_bit 8 x) XOR take_bit 8 x" for x :: u32
  by (rule bit_eqI) (auto simp: bit_simps)

lemma low_byte_unat: "unat (x AND 0xFF) < 256" for x :: u32
proof -
  have "unat (x AND 0xFF) = take_bit 8 (unat x)" by (simp add: and_255 unsigned_take_bit_eq)
  then show ?thesis using take_bit_nat_less_exp [of 8 "unat x"] by simp
qed

lemma table_nth: "i < 256 \<Longrightarrow> compute_crc32_table ! i = (crc_bit ^^ 8) (of_nat i)"
  by (simp add: compute_crc32_table_def)

lemma crc32_byte_ref: "crc32_byte byte crc = crc_ref_byte byte crc"
proof -
  let ?x = "crc XOR ucast byte :: u32"
  have t: "compute_crc32_table ! unat (?x AND 0xFF) = (crc_bit ^^ 8) (take_bit 8 ?x)"
    using low_byte_unat [of ?x] by (simp add: table_nth and_255)
  have "(crc_bit ^^ 8) (push_bit 8 (drop_bit 8 ?x)) = drop_bit 8 (push_bit 8 (drop_bit 8 ?x))"
    by (rule crc_bits_shift) (simp only: bit_push_bit_iff, simp)
  also have "\<dots> = drop_bit 8 crc"
    by (rule bit_eqI) (auto simp: bit_simps dest: bit_imp_le_length)
  finally have "(crc_bit ^^ 8) ?x = drop_bit 8 crc XOR (crc_bit ^^ 8) (take_bit 8 ?x)"
    by (subst split_low_byte [of ?x]) (simp only: crc_bits_xor)
  then show ?thesis by (simp add: crc32_byte_def crc_ref_byte_def t)
qed

section \<open>What the checksum detects\<close>

lemma fold_crc_ref: "fold crc32_byte data c = fold crc_ref_byte data c"
  by (induction data arbitrary: c) (simp_all add: crc32_byte_ref)

lemma fold_crc_inj: "fold crc_ref_byte data c = fold crc_ref_byte data c' \<Longrightarrow> c = c'"
proof (induction data arbitrary: c c')
  case (Cons b data)
  then have "crc_ref_byte b c = crc_ref_byte b c'" by simp
  then have "c XOR ucast b = c' XOR ucast b" unfolding crc_ref_byte_def by (rule crc_bits_inj)
  then show ?case by simp
qed simp

lemma ucast_add_shift:
  "of_nat (unat b + 256 * m) = ucast b XOR (of_nat (256 * m) :: u32)" for b :: u8
proof -
  have p: "(of_nat (256 * m) :: u32) = push_bit 8 (of_nat m)"
    by (simp add: push_bit_eq_mult mult.commute)
  have "(ucast b :: u32) + push_bit 8 (of_nat m) = ucast b OR push_bit 8 (of_nat m)"
    by (rule disjunctive_add) (auto simp: bit_simps dest: bit_imp_le_length)
  also have "\<dots> = ucast b XOR push_bit 8 (of_nat m)"
    by (rule bit_eqI) (auto simp: bit_simps dest: bit_imp_le_length)
  finally show ?thesis by (simp add: p [symmetric])
qed

text \<open>Up to four bytes are absorbed as one little-endian word.\<close>

lemma fold_crc_window:
  "length w \<le> 4 \<Longrightarrow>
   fold crc_ref_byte w c = (crc_bit ^^ (8 * length w)) (c XOR of_nat (le_nat w))"
proof (induction w arbitrary: c)
  case (Cons b w)
  let ?m = "le_nat w"
  have m: "?m < 2 ^ 24"
  proof -
    have "?m < 256 ^ length w" by (rule le_nat_less)
    also have "\<dots> \<le> 256 ^ 3" using Cons.prems by (intro power_increasing) auto
    finally show ?thesis by simp
  qed
  have p: "(of_nat (256 * ?m) :: u32) = push_bit 8 (of_nat ?m)"
    by (simp add: push_bit_eq_mult mult.commute)
  have "(crc_bit ^^ 8) (of_nat (256 * ?m)) = drop_bit 8 (of_nat (256 * ?m) :: u32)"
    unfolding p by (rule crc_bits_shift) (simp add: bit_push_bit_iff)
  also have "\<dots> = of_nat ?m"
  proof (rule unsigned_word_eqI)
    show "unat (drop_bit 8 (of_nat (256 * ?m)) :: u32) = unat (of_nat ?m :: u32)"
      unfolding unsigned_drop_bit_eq
      using m by (simp add: unat_of_nat drop_bit_eq_div take_bit_eq_mod del: of_nat_mult)
  qed
  finally have s: "(crc_bit ^^ 8) (of_nat (256 * ?m)) = (of_nat ?m :: u32)" .
  have "fold crc_ref_byte (b # w) c =
      (crc_bit ^^ (8 * length w)) ((crc_bit ^^ 8) (c XOR ucast b) XOR of_nat ?m)"
    using Cons.IH [of "crc_ref_byte b c"] Cons.prems by (simp add: crc_ref_byte_def [of b])
  also have "(crc_bit ^^ 8) (c XOR ucast b) XOR of_nat ?m =
      (crc_bit ^^ 8) (c XOR (ucast b XOR of_nat (256 * ?m)))"
    by (simp only: crc_bits_xor s xor.assoc [symmetric])
  also have "ucast b XOR of_nat (256 * ?m) = (of_nat (le_nat (b # w)) :: u32)"
    by (simp only: ucast_add_shift le_nat.simps)
  finally show ?case by (simp add: funpow_add [unfolded o_def, THEN fun_cong, symmetric] add.commute)
qed simp

lemma crc32_window_inj:
  assumes len: "length w = length w'" "length w \<le> 4"
    and eq: "crc32 (xs @ w @ ys) = crc32 (xs @ w' @ ys)"
  shows "w = w'"
proof -
  let ?c = "fold crc_ref_byte xs 0xFFFFFFFF"
  from eq have "fold crc_ref_byte (xs @ w @ ys) 0xFFFFFFFF = fold crc_ref_byte (xs @ w' @ ys) 0xFFFFFFFF"
    by (simp only: crc32_def fold_crc_ref xor_cancel)
  then have "fold crc_ref_byte ys (fold crc_ref_byte w ?c) = fold crc_ref_byte ys (fold crc_ref_byte w' ?c)"
    by simp
  then have "fold crc_ref_byte w ?c = fold crc_ref_byte w' ?c" by (rule fold_crc_inj)
  then have "(crc_bit ^^ (8 * length w)) (?c XOR of_nat (le_nat w)) =
      (crc_bit ^^ (8 * length w)) (?c XOR of_nat (le_nat w'))"
    using fold_crc_window [of w ?c] fold_crc_window [of w' ?c] len by (simp only:)
  then have "?c XOR of_nat (le_nat w) = ?c XOR of_nat (le_nat w')" by (rule crc_bits_inj)
  then have o: "(of_nat (le_nat w) :: u32) = of_nat (le_nat w')" by simp
  have b: "le_nat v < 2 ^ 32" if "length v \<le> 4" for v
  proof -
    have "le_nat v < 256 ^ length v" by (rule le_nat_less)
    also have "\<dots> \<le> 256 ^ 4" using that by (intro power_increasing) auto
    finally show ?thesis by simp
  qed
  have "le_nat w = unat (of_nat (le_nat w) :: u32)"
    by (rule unat_of_nat_u32 [OF b [OF len(2)], symmetric])
  also have "\<dots> = unat (of_nat (le_nat w') :: u32)" by (rule arg_cong [OF o])
  also have "\<dots> = le_nat w'"
    by (rule unat_of_nat_u32 [OF b [OF len(2) [unfolded len(1)]]])
  finally have e: "le_nat w = le_nat w'" .
  have "w = nat_le (length w) (le_nat w)" by (rule nat_le_le_nat [symmetric])
  also have "\<dots> = nat_le (length w') (le_nat w')" by (simp only: len(1) e)
  also have "\<dots> = w'" by (rule nat_le_le_nat)
  finally show ?thesis .
qed

section \<open>Properties\<close>

text \<open>
  C39: the table-driven checksum is the bitwise division. Every byte string has the checksum
  obtained by shifting its bits one by one through the register, and two strings of the same
  length that differ only inside four consecutive bytes have different checksums.
\<close>

theorem crc32_table_correct:
  "crc32 data = fold crc_ref_byte data 0xFFFFFFFF XOR 0xFFFFFFFF \<and>
   (length w = length w' \<and> length w \<le> 4 \<and> w \<noteq> w' \<longrightarrow>
     crc32 (xs @ w @ ys) \<noteq> crc32 (xs @ w' @ ys))"
  using crc32_window_inj [of w w' xs ys] by (auto simp: crc32_def fold_crc_ref)

theorem crc32_table_correct_witness:
  "crc32 [1, 2, 3, 4] = fold crc_ref_byte [1, 2, 3, 4] 0xFFFFFFFF XOR 0xFFFFFFFF \<and>
   crc32 ([1] @ [2, 3] @ [4]) \<noteq> crc32 ([1] @ [3, 2] @ [4])"
proof -
  note t = crc32_table_correct [of "[1, 2, 3, 4]" "[2, 3]" "[3, 2]" "[1]" "[4]"]
  have "length [2, 3 :: u8] = length [3, 2 :: u8] \<and> length [2, 3 :: u8] \<le> 4 \<and> [2, 3 :: u8] \<noteq> [3, 2]"
    by simp
  with t show ?thesis by blast
qed

end
