(* ===== verification/Hlc.thy ===== *)
theory Hlc
  imports Bytes
begin

text \<open>
  The hybrid logical clock of \<open>src/utils/mod.rs\<close>: a \<open>u64\<close> whose upper 48 bits are a
  physical time and whose lower 16 bits are a logical counter, its \<open>tick\<close> and
  \<open>update\<close>, and the generator with its two atomics read and written by one thread.
  The system clock is an argument \<open>now\<close>: the nanoseconds since the epoch as a \<open>u64\<close>.
\<close>

section \<open>The timestamp\<close>

datatype HLC = HLC (hlc_raw: u64)

text \<open>\<open>derive(PartialOrd, Ord)\<close> on the newtype compares the raw word.\<close>

instantiation HLC :: linorder
begin

definition less_eq_HLC :: "HLC \<Rightarrow> HLC \<Rightarrow> bool" where
  "less_eq_HLC a b \<longleftrightarrow> hlc_raw a \<le> hlc_raw b"

definition less_HLC :: "HLC \<Rightarrow> HLC \<Rightarrow> bool" where
  "less_HLC a b \<longleftrightarrow> hlc_raw a < hlc_raw b"

instance
  by standard (auto simp: less_eq_HLC_def less_HLC_def HLC.expand)

end

definition hlc_from_raw :: "u64 \<Rightarrow> HLC" where "hlc_from_raw raw = HLC raw"

definition hlc_to_raw :: "HLC \<Rightarrow> u64" where "hlc_to_raw h = hlc_raw h"

definition hlc_physical_ns :: "HLC \<Rightarrow> u64" where
  "hlc_physical_ns h = drop_bit 16 (hlc_raw h)"

definition hlc_logical :: "HLC \<Rightarrow> u16" where
  "hlc_logical h = ucast (hlc_raw h AND 0xFFFF)"

definition hlc_from_parts :: "u64 \<Rightarrow> u16 \<Rightarrow> HLC" where
  "hlc_from_parts physical_ns logical = HLC (push_bit 16 physical_ns OR ucast logical)"

definition phys_mask :: u64 where "phys_mask = push_bit 48 1 - 1"

definition hlc_now :: "u64 \<Rightarrow> HLC" where
  "hlc_now now = hlc_from_parts (now AND phys_mask) 0"

definition hlc_tick :: "u64 \<Rightarrow> HLC \<Rightarrow> HLC" where
  "hlc_tick now self =
     (let current_phys = hlc_physical_ns (hlc_now now); my_phys = hlc_physical_ns self
      in if current_phys > my_phys then hlc_from_parts current_phys 0
         else if current_phys = my_phys then hlc_from_parts my_phys (hlc_logical self + 1)
         else hlc_from_parts my_phys (hlc_logical self + 1))"

definition hlc_update :: "u64 \<Rightarrow> HLC \<Rightarrow> HLC \<Rightarrow> HLC" where
  "hlc_update now self received =
     (let current = hlc_now now;
          current_phys = hlc_physical_ns current;
          recv_phys = hlc_physical_ns received;
          my_phys = hlc_physical_ns self;
          max_phys = max (max current_phys my_phys) recv_phys;
          new_logic =
            (if max_phys = current_phys
             then max (max (hlc_logical current) (hlc_logical self)) (hlc_logical received) + 1
             else if max_phys = my_phys
             then max (hlc_logical self) (hlc_logical received) + 1
             else hlc_logical received + 1)
      in hlc_from_parts max_phys new_logic)"

section \<open>The parts of a timestamp\<close>

lemma word_less_unat: "a < b \<longleftrightarrow> unat a < unat b" for a b :: "'a::len word"
  by (simp add: word_less_nat_alt)

lemma and_ffff: "x AND 0xFFFF = take_bit 16 x" for x :: u64
  by (simp add: take_bit_eq_mask mask_numeral)

lemma and_phys_mask: "x AND phys_mask = take_bit 48 x"
  by (simp add: take_bit_eq_mask phys_mask_def mask_eq_exp_minus_1 push_bit_eq_mult)

lemma unat_physical: "unat (hlc_physical_ns h) = unat (hlc_raw h) div 65536"
  unfolding hlc_physical_ns_def unsigned_drop_bit_eq
  using unat_bounds(4) [of "hlc_raw h"] by (simp add: drop_bit_eq_div take_bit_eq_mod)

lemma unat_logical: "unat (hlc_logical h) = unat (hlc_raw h) mod 65536"
  unfolding hlc_logical_def and_ffff unsigned_ucast_eq unsigned_take_bit_eq
  by (simp add: take_bit_eq_mod)

lemma unat_raw: "unat (hlc_raw h) = unat (hlc_physical_ns h) * 65536 + unat (hlc_logical h)"
  by (simp add: unat_physical unat_logical)

lemma physical_bound: "unat (hlc_physical_ns h) < 2 ^ 48"
proof -
  have "unat (hlc_raw h) < 18446744073709551616" by (rule unat_bounds)
  then show ?thesis by (simp add: unat_physical less_mult_imp_div_less)
qed

lemma from_parts_raw: "unat (hlc_raw (hlc_from_parts p l)) = unat p mod 2 ^ 48 * 65536 + unat l"
proof -
  have "push_bit 16 p OR ucast l = push_bit 16 p + (ucast l :: u64)"
    by (rule disjunctive_add [symmetric]) (auto simp: bit_simps dest: bit_imp_le_length)
  moreover have a: "unat (push_bit 16 p) = unat p mod 2 ^ 48 * 65536"
    unfolding unsigned_push_bit_eq
    by (simp add: take_bit_eq_mod push_bit_eq_mult mult_mod_left)
  moreover have b: "unat (ucast l :: u64) = unat l"
    using unat_bounds(2) [of l] by (simp add: unsigned_ucast_eq take_bit_eq_mod)
  moreover have "unat (push_bit 16 p + (ucast l :: u64)) = unat (push_bit 16 p) + unat (ucast l :: u64)"
  proof (subst unat_add_lem [symmetric])
    have "unat p mod 2 ^ 48 \<le> 2 ^ 48 - 1" by simp
    then have "unat p mod 2 ^ 48 * 65536 \<le> (2 ^ 48 - 1) * 65536" by (rule mult_le_mono1)
    then show "unat (push_bit 16 p) + unat (ucast l :: u64) < 2 ^ LENGTH(64)"
      using unat_bounds(2) [of l] unfolding a b by simp
  qed
  ultimately show ?thesis by (simp add: hlc_from_parts_def)
qed

lemma physical_from_parts: "unat (hlc_physical_ns (hlc_from_parts p l)) = unat p mod 2 ^ 48"
  using unat_bounds(2) [of l] by (simp add: unat_physical from_parts_raw)

lemma logical_from_parts [simp]: "hlc_logical (hlc_from_parts p l) = l"
  using unat_bounds(2) [of l] by (simp add: word_unat_eq_iff unat_logical from_parts_raw)

lemma physical_from_parts_id [simp]: "unat p < 2 ^ 48 \<Longrightarrow> hlc_physical_ns (hlc_from_parts p l) = p"
  by (simp add: word_unat_eq_iff physical_from_parts)

lemma physical_of_physical [simp]: "hlc_physical_ns (hlc_from_parts (hlc_physical_ns h) l) = hlc_physical_ns h"
  using physical_bound [of h] by simp

lemma from_parts_parts: "hlc_from_parts (hlc_physical_ns h) (hlc_logical h) = h"
  using physical_bound [of h]
  by (simp add: HLC.expand word_unat_eq_iff from_parts_raw unat_raw [of h, symmetric])

text \<open>Timestamps are ordered by physical time first, logical counter second.\<close>

lemma lex_less: "l < c \<Longrightarrow> m < c \<Longrightarrow> a * c + l < b * c + m \<longleftrightarrow> a < b \<or> a = b \<and> l < m"
  for a b c l m :: nat
proof -
  assume l: "l < c" and m: "m < c"
  have "a * c + l < b * c + m" if "a < b"
  proof -
    from that have "Suc a * c \<le> b * c" by (intro mult_le_mono1) simp
    with l show ?thesis by simp
  qed
  moreover have "b * c + m \<le> a * c + l" if "b < a"
  proof -
    from that have "Suc b * c \<le> a * c" by (intro mult_le_mono1) simp
    with m show ?thesis by simp
  qed
  ultimately show ?thesis by (cases a b rule: linorder_cases) auto
qed

lemma hlc_less_iff:
  "a < b \<longleftrightarrow> hlc_physical_ns a < hlc_physical_ns b \<or>
     hlc_physical_ns a = hlc_physical_ns b \<and> hlc_logical a < hlc_logical b"
  unfolding less_HLC_def word_less_unat unat_raw lex_less [OF unat_bounds(2) unat_bounds(2)]
  by (simp only: word_unat_eq_iff)

lemma physical_now: "unat (hlc_physical_ns (hlc_now t)) = unat t mod 2 ^ 48"
  unfolding hlc_now_def physical_from_parts and_phys_mask unsigned_take_bit_eq
  by (simp add: take_bit_eq_mod)

lemma logical_now [simp]: "hlc_logical (hlc_now t) = 0"
  by (simp add: hlc_now_def)

lemma succ16: "x < x + 1 \<longleftrightarrow> x \<noteq> 0xFFFF" for x :: u16
proof (cases "x = 0xFFFF")
  case False
  then have "unat x \<noteq> 65535" by (auto simp: word_unat_eq_iff)
  with unat_bounds(2) [of x] have "unat x < 65535" by simp
  then have "unat (x + 1) = Suc (unat x)" by (simp add: unat_word_ariths)
  with False show ?thesis by (simp add: word_less_unat)
qed simp

section \<open>What the clock promises\<close>

lemma tick_step: "h < hlc_tick now h \<longleftrightarrow>
    hlc_physical_ns h < hlc_physical_ns (hlc_now now) \<or> hlc_logical h \<noteq> 0xFFFF"
  by (auto simp: hlc_tick_def Let_def hlc_less_iff succ16)

lemma update_step:
  assumes "hlc_logical self \<noteq> 0xFFFF" "hlc_logical received \<noteq> 0xFFFF"
  shows "self < hlc_update now self received \<and> received < hlc_update now self received"
proof -
  let ?m = "max (max (hlc_physical_ns (hlc_now now)) (hlc_physical_ns self)) (hlc_physical_ns received)"
  have m: "unat ?m < 2 ^ 48"
    using physical_bound by (simp add: max_def)
  have mx: "max a b \<noteq> 0xFFFF" if "a \<noteq> 0xFFFF" "b \<noteq> 0xFFFF" for a b :: u16
    using that by (simp add: max_def)
  have s: "x \<le> y \<Longrightarrow> y \<noteq> 0xFFFF \<Longrightarrow> x < y + 1" for x y :: u16
    using succ16 [of y] by simp
  show ?thesis
    unfolding hlc_update_def Let_def hlc_less_iff physical_from_parts_id [OF m] logical_from_parts
    using assms by (auto intro!: s mx simp: max_def split: if_splits)
qed

section \<open>The generator\<close>

record HLCGenerator =
  last_phys :: u64
  last_logic :: u64

definition hlc_generator_new :: HLCGenerator where
  "hlc_generator_new = \<lparr>last_phys = 0, last_logic = 0\<rparr>"

definition hlc_generate :: "u64 \<Rightarrow> HLCGenerator \<Rightarrow> HLCGenerator \<times> HLC" where
  "hlc_generate now g =
     (let current_phys = hlc_physical_ns (hlc_now now)
      in if current_phys > last_phys g
         then (g\<lparr>last_phys := current_phys, last_logic := 0\<rparr>, hlc_from_parts current_phys 0)
         else
           let new_logic = last_logic g + 1; g1 = g\<lparr>last_logic := new_logic\<rparr>
           in if new_logic > 0xFFFF
              then let new_phys = current_phys + 1
                   in (g1\<lparr>last_phys := new_phys, last_logic := 0\<rparr>, hlc_from_parts new_phys 0)
              else (g1, hlc_from_parts current_phys (ucast new_logic)))"

text \<open>Calls of one thread at a list of clock readings.\<close>

fun hlc_generate_run :: "u64 list \<Rightarrow> HLCGenerator \<Rightarrow> HLC list" where
  "hlc_generate_run [] g = []"
| "hlc_generate_run (t # ts) g =
     (let (g', h) = hlc_generate t g in h # hlc_generate_run ts g')"

definition gen_last :: "HLCGenerator \<Rightarrow> HLC" where
  "gen_last g = hlc_from_parts (last_phys g) (ucast (last_logic g))"

lemma generate_step:
  assumes "last_phys g \<le> hlc_physical_ns (hlc_now t)" "unat (last_logic g) < 65535"
  shows "gen_last g < snd (hlc_generate t g)"
    and "gen_last (fst (hlc_generate t g)) = snd (hlc_generate t g)"
    and "unat (last_logic (fst (hlc_generate t g))) \<le> Suc (unat (last_logic g))"
    and "last_phys (fst (hlc_generate t g)) = hlc_physical_ns (hlc_now t)"
proof -
  let ?c = "hlc_physical_ns (hlc_now t)"
  have u: "unat (last_logic g + 1) = Suc (unat (last_logic g))"
    using assms(2) by (simp add: unat_word_ariths)
  then have n: "\<not> last_logic g + 1 > 0xFFFF"
    using assms(2) by (simp add: word_less_unat)
  have uc: "unat (ucast (x :: u64) :: u16) = unat x" if "unat x \<le> 65535" for x
    using that by (simp add: unsigned_ucast_eq take_bit_eq_mod)
  have lt: "ucast (last_logic g) < (ucast (last_logic g + 1) :: u16)"
    using assms(2) u by (simp add: word_less_unat uc)
  have lp: "unat (last_phys g) < 2 ^ 48"
    using assms(1) physical_bound [of "hlc_now t"] by (simp add: word_le_nat_alt)
  show "gen_last g < snd (hlc_generate t g)"
    using assms(1) n lt lp by (auto simp: gen_last_def hlc_generate_def Let_def hlc_less_iff)
  show "gen_last (fst (hlc_generate t g)) = snd (hlc_generate t g)"
    using assms(1) n by (auto simp: gen_last_def hlc_generate_def Let_def)
  show "unat (last_logic (fst (hlc_generate t g))) \<le> Suc (unat (last_logic g))"
    using n u by (auto simp: hlc_generate_def Let_def)
  show "last_phys (fst (hlc_generate t g)) = ?c"
    using assms(1) n by (auto simp: hlc_generate_def Let_def)
qed

lemma generate_run_mono:
  assumes "sorted_wrt (\<le>) (map (\<lambda>t. hlc_physical_ns (hlc_now t)) ts)"
    and "\<forall>t\<in>set ts. last_phys g \<le> hlc_physical_ns (hlc_now t)"
    and "unat (last_logic g) + length ts \<le> 65535"
  shows "sorted_wrt (<) (gen_last g # hlc_generate_run ts g)"
  using assms
proof (induction ts arbitrary: g)
  case (Cons t ts)
  let ?g = "fst (hlc_generate t g)"
  have h: "last_phys g \<le> hlc_physical_ns (hlc_now t)" "unat (last_logic g) < 65535"
    using Cons.prems by auto
  note st = generate_step [OF h]
  have "sorted_wrt (<) (gen_last ?g # hlc_generate_run ts ?g)"
    using Cons.prems st(3,4) by (intro Cons.IH) auto
  then show ?case
    using st(1,2) by (auto simp: case_prod_beta Let_def dest: less_trans)
qed simp

section \<open>Properties\<close>

text \<open>
  Ticking a clock gives a strictly later timestamp exactly when the physical clock has
  advanced past it or its logical counter is not saturated: at \<open>0xFFFF\<close> the wrapping
  increment sends the counter to 0 and the new timestamp is not later.
\<close>

theorem hlc_tick_strict:
  "h < hlc_tick now h \<longleftrightarrow>
     hlc_physical_ns h < hlc_physical_ns (hlc_now now) \<or> hlc_logical h \<noteq> 0xFFFF"
  by (rule tick_step)

theorem hlc_tick_strict_witness: "HLC 5 < hlc_tick 0 (HLC 5)"
  using hlc_tick_strict [of "HLC 5" 0] by (simp add: hlc_logical_def)

text \<open>
  A clock updated with a received timestamp is later than both its own timestamp and the
  received one, whatever the system clock says, as long as neither logical counter is
  saturated.
\<close>

theorem hlc_update_dominates:
  assumes "hlc_logical self \<noteq> 0xFFFF" "hlc_logical received \<noteq> 0xFFFF"
  shows "self < hlc_update now self received \<and> received < hlc_update now self received"
  using assms by (rule update_step)

theorem hlc_update_dominates_witness:
  "HLC 0x50003 < hlc_update 7 (HLC 0x50003) (HLC 0x90001) \<and>
   HLC 0x90001 < hlc_update 7 (HLC 0x50003) (HLC 0x90001)"
  by (rule hlc_update_dominates) (simp_all add: hlc_logical_def)

text \<open>
  The 48 bits kept of a nanosecond clock repeat after \<open>2 ^ 48\<close> nanoseconds (about 78
  hours): a timestamp taken a whole period later is the same timestamp.
\<close>

theorem hlc_now_wraps: "hlc_now (t + 2 ^ 48) = hlc_now t"
proof -
  have "take_bit 48 (t + 2 ^ 48) = take_bit 48 (t :: u64)"
    unfolding word_unat_eq_iff unsigned_take_bit_eq
    by (simp add: take_bit_eq_mod unat_word_ariths mod_mod_cancel)
  then show ?thesis by (simp only: hlc_now_def and_phys_mask)
qed

text \<open>A clock reading keeps its order as long as its upper bits, which a timestamp drops, do not change.\<close>

lemma physical_period_mono:
  assumes "a \<le> b" "unat a div 2 ^ 48 = unat b div 2 ^ 48"
  shows "hlc_physical_ns (hlc_now a) \<le> hlc_physical_ns (hlc_now b)"
proof -
  have "unat a mod 2 ^ 48 = unat a - unat b div 2 ^ 48 * 2 ^ 48" by (metis assms(2) minus_div_mult_eq_mod)
  moreover have "unat b mod 2 ^ 48 = unat b - unat b div 2 ^ 48 * 2 ^ 48" by (metis minus_div_mult_eq_mod)
  ultimately have "unat a mod 2 ^ 48 \<le> unat b mod 2 ^ 48" using assms(1) by (metis diff_le_mono word_le_nat_alt)
  then show ?thesis by (simp only: word_le_nat_alt physical_now)
qed

text \<open>
  When the readings of the clock never go back and lie in one period of the 48 bits a timestamp keeps of them
  (about 78 hours), one thread calling the generator up to 65535 times gets strictly increasing timestamps.
\<close>

theorem hlc_generator_increasing:
  assumes "sorted_wrt (\<le>) ts" "\<forall>t\<in>set ts. unat t div 2 ^ 48 = period" "length ts \<le> 65535"
  shows "sorted_wrt (<) (hlc_generate_run ts hlc_generator_new)"
proof -
  have "sorted_wrt (\<lambda>a b. hlc_physical_ns (hlc_now a) \<le> hlc_physical_ns (hlc_now b)) ts"
    using assms(1) by (rule sorted_wrt_mono_rel [rotated]) (use assms(2) physical_period_mono in auto)
  then show ?thesis
    using generate_run_mono [of ts hlc_generator_new] assms(3) by (auto simp: hlc_generator_new_def sorted_wrt_map)
qed

text \<open>At the end of a period the timestamps go back, although the clock does not.\<close>

lemma hlc_generator_wraps:
  "\<not> sorted_wrt (<) (hlc_generate_run [2 ^ 48 - 1, 2 ^ 48] hlc_generator_new)"
  by code_simp

theorem hlc_generator_increasing_witness:
  "sorted_wrt (<) (hlc_generate_run [5, 5, 9] hlc_generator_new)"
  by (rule hlc_generator_increasing [of _ 0]) (simp_all add: word_le_nat_alt)

text \<open>
  When the system clock reads less than the generator's last physical time, the generator
  goes back with it: the timestamp it returns is smaller than every timestamp of the last
  physical time, including those it has already returned.
\<close>

theorem hlc_generator_follows_clock_back:
  assumes "hlc_physical_ns (hlc_now now) < last_phys g" "last_phys g < 2 ^ 48"
    and "last_logic g < 0xFFFF"
  shows "snd (hlc_generate now g) < hlc_from_parts (last_phys g) l"
proof -
  have l: "unat (last_phys g) < 2 ^ 48" using assms(2) by (simp add: word_less_unat)
  have "unat (last_logic g) < 65535" using assms(3) by (simp add: word_less_unat)
  then have "\<not> last_logic g + 1 > 0xFFFF" by (simp add: word_less_unat unat_word_ariths)
  moreover have "\<not> hlc_physical_ns (hlc_now now) > last_phys g" using assms(1) by (simp add: not_less)
  ultimately have "snd (hlc_generate now g) =
      hlc_from_parts (hlc_physical_ns (hlc_now now)) (ucast (last_logic g + 1))"
    by (simp only: hlc_generate_def Let_def if_False snd_conv)
  then show ?thesis using assms(1) l by (simp add: hlc_less_iff)
qed

theorem hlc_generator_follows_clock_back_witness:
  "snd (hlc_generate 100 \<lparr>last_phys = 500, last_logic = 3\<rparr>) < hlc_from_parts 500 0"
  using hlc_generator_follows_clock_back
    [of 100 "\<lparr>last_phys = 500, last_logic = 3\<rparr>" 0]
  by (simp add: word_less_unat physical_now)

end
