(* ===== verification/Varint.thy ===== *)
theory Varint
  imports Bytes
begin

text \<open>
  Variable-length integers of \<open>src/utils/mod.rs\<close>: seven bits per byte with a
  continuation bit, the decoder with its limit of ten bytes, and the zigzag mapping of
  signed to unsigned integers. A write or read outside the buffer aborts (\<open>Panic\<close>).
\<close>

section \<open>The code\<close>

definition VARINT_MAX_BYTES :: nat where "VARINT_MAX_BYTES = 10"

text \<open>The \<open>while v >= 0x80\<close> loop of \<open>encode_varint\<close>, with the write after it.\<close>

function encode_varint_loop :: "u64 \<Rightarrow> nat \<Rightarrow> bytes \<Rightarrow> (unit, bytes \<times> nat) res" where
  "encode_varint_loop v i buf =
     (if i \<ge> length buf then Panic
      else if v \<ge> 0x80
      then encode_varint_loop (drop_bit 7 v) (i + 1) (buf[i := ucast v OR 0x80])
      else Ok (buf[i := ucast v], i + 1))"
  by pat_completeness auto
termination
  by (relation "measure (\<lambda>(v, i, buf). length buf - i)") auto

definition encode_varint :: "u64 \<Rightarrow> bytes \<Rightarrow> (unit, bytes \<times> nat) res" where
  "encode_varint v buf = encode_varint_loop v 0 buf"

definition encode_varint_fixed :: "u64 \<Rightarrow> (unit, bytes) res" where
  "encode_varint_fixed v =
     bind_res (encode_varint v (replicate VARINT_MAX_BYTES 0)) (\<lambda>(buf, len).
       Ok (take len buf @ replicate (VARINT_MAX_BYTES - len) 0))"

text \<open>The loop of \<open>decode_varint\<close> over at most ten bytes.\<close>

fun decode_varint_loop :: "bytes \<Rightarrow> nat \<Rightarrow> u64 \<Rightarrow> nat \<Rightarrow> (u64 \<times> nat) option" where
  "decode_varint_loop [] i result shift = None"
| "decode_varint_loop (byte # buf) i result shift =
     (let result' = result OR push_bit shift (ucast (byte AND 0x7F))
      in if byte AND 0x80 = 0 then Some (result', i + 1)
         else if shift + 7 \<ge> 70 then None
         else decode_varint_loop buf (i + 1) result' (shift + 7))"

definition decode_varint :: "bytes \<Rightarrow> (u64 \<times> nat) option" where
  "decode_varint buf = decode_varint_loop (take VARINT_MAX_BYTES buf) 0 0 0"

definition encode_zigzag :: "i64 \<Rightarrow> u64" where
  "encode_zigzag v = push_bit 1 v XOR signed_drop_bit 63 v"

definition decode_zigzag :: "u64 \<Rightarrow> i64" where
  "decode_zigzag v = drop_bit 1 v XOR - (v AND 1)"

definition encode_zigzag_varint :: "i64 \<Rightarrow> bytes \<Rightarrow> (unit, bytes \<times> nat) res" where
  "encode_zigzag_varint v buf = encode_varint (encode_zigzag v) buf"

definition decode_zigzag_varint :: "bytes \<Rightarrow> (i64 \<times> nat) option" where
  "decode_zigzag_varint buf = map_option (\<lambda>(v, len). (decode_zigzag v, len)) (decode_varint buf)"

declare encode_varint_loop.simps [simp del]

section \<open>The bytes of a variable-length integer\<close>

function varint_bytes :: "u64 \<Rightarrow> bytes" where
  "varint_bytes v =
     (if v \<ge> 0x80 then (ucast v OR 0x80) # varint_bytes (drop_bit 7 v) else [ucast v])"
  by pat_completeness auto

lemma unat_drop_bit_7: "unat (drop_bit 7 v) = unat v div 128" for v :: u64
  unfolding unsigned_drop_bit_eq
  using unat_bounds(4) [of v] by (simp add: drop_bit_eq_div take_bit_eq_mod)

lemma ge_128: "v \<ge> 0x80 \<longleftrightarrow> unat v \<ge> 128" for v :: u64
  by (simp add: word_le_nat_alt)

termination varint_bytes
  by (relation "measure unat", simp, simp only: in_measure unat_drop_bit_7 ge_128; simp)

declare varint_bytes.simps [simp del]

lemma varint_bytes_nonempty [simp]: "varint_bytes v \<noteq> []"
  by (subst varint_bytes.simps) simp

lemma length_varint_bytes: "unat v < 128 ^ Suc k \<Longrightarrow> length (varint_bytes v) \<le> Suc k"
proof (induction k arbitrary: v)
  case 0
  then show ?case by (subst varint_bytes.simps) (simp add: ge_128)
next
  case (Suc k)
  show ?case
  proof (cases "v \<ge> 0x80")
    case True
    have "unat (drop_bit 7 v) < 128 ^ Suc k"
      using Suc.prems by (simp only: unat_drop_bit_7) (simp add: less_mult_imp_div_less)
    then have "length (varint_bytes (drop_bit 7 v)) \<le> Suc k" by (rule Suc.IH)
    then show ?thesis using True by (subst varint_bytes.simps) simp
  next
    case False
    then show ?thesis by (subst varint_bytes.simps) simp
  qed
qed

lemma length_varint_bytes_10: "length (varint_bytes v) \<le> 10"
  using length_varint_bytes [of v 9] unat_bounds(4) [of v] by simp

lemma encode_loop_bytes:
  "i + length (varint_bytes v) \<le> length buf \<Longrightarrow>
   encode_varint_loop v i buf =
     Ok (take i buf @ varint_bytes v @ drop (i + length (varint_bytes v)) buf,
         i + length (varint_bytes v))"
proof (induction v arbitrary: i buf rule: varint_bytes.induct)
  case (1 v)
  have i: "i < length buf" using "1.prems" by (cases "varint_bytes v") auto
  have t: "take (Suc i) (buf[i := x]) = take i buf @ [x]" for x
    using i by (simp add: take_Suc_conv_app_nth)
  show ?case
  proof (cases "v \<ge> 0x80")
    case True
    then have v: "varint_bytes v = (ucast v OR 0x80) # varint_bytes (drop_bit 7 v)"
      by (subst varint_bytes.simps) simp
    show ?thesis
      using "1.IH" [OF True, of "Suc i" "buf[i := ucast v OR 0x80]"] "1.prems" i True
      by (subst encode_varint_loop.simps) (simp add: v t)
  next
    case False
    then have v: "varint_bytes v = [ucast v]" by (subst varint_bytes.simps) simp
    show ?thesis using i False
      by (subst encode_varint_loop.simps) (simp add: v upd_conv_take_nth_drop)
  qed
qed

lemma encode_varint_bytes:
  "10 \<le> length buf \<Longrightarrow>
   encode_varint v buf = Ok (varint_bytes v @ drop (length (varint_bytes v)) buf, length (varint_bytes v))"
  using encode_loop_bytes [of 0 v buf] length_varint_bytes_10 [of v] by (simp add: encode_varint_def)

section \<open>Decoding what was encoded\<close>

lemma bit_128: "bit (0x80 :: u8) n \<longleftrightarrow> n = 7"
proof -
  have e: "(0x80 :: u8) = push_bit 7 1" by (simp add: push_bit_eq_mult)
  show ?thesis unfolding e by (simp only: bit_push_bit_iff bit_1_iff) auto
qed

lemma bit_127: "bit (0x7F :: u8) n \<longleftrightarrow> n < 7"
proof -
  have m: "(0x7F :: u8) = mask 7" by (simp add: mask_numeral)
  show ?thesis unfolding m by (simp only: bit_mask_iff) auto
qed

lemmas byte_bits = bit_128 bit_127 bit_and_iff bit_or_iff bit_take_bit_iff bit_unsigned_iff

lemma cont_byte:
  fixes v :: u64
  shows "ucast ((ucast v OR 0x80 :: u8) AND 0x7F) = take_bit 7 v"
    and "(ucast v OR 0x80 :: u8) AND 0x80 \<noteq> 0"
proof -
  show "ucast ((ucast v OR 0x80 :: u8) AND 0x7F) = take_bit 7 v"
    by (rule bit_eqI) (auto simp only: byte_bits, auto)
  have "bit ((ucast v OR 0x80 :: u8) AND 0x80) 7"
    by (simp only: byte_bits) simp
  then show "(ucast v OR 0x80 :: u8) AND 0x80 \<noteq> 0" by auto
qed

lemma last_byte:
  fixes v :: u64
  assumes "\<not> v \<ge> 0x80"
  shows "ucast ((ucast v :: u8) AND 0x7F) = v" and "(ucast v :: u8) AND 0x80 = 0"
proof -
  have t: "take_bit 7 v = v"
    unfolding word_unat_eq_iff unsigned_take_bit_eq using assms by (simp add: ge_128 take_bit_eq_mod)
  have n: "bit v n \<Longrightarrow> n < 7" for n
    by (subst (asm) t [symmetric]) (simp add: bit_take_bit_iff)
  show "ucast ((ucast v :: u8) AND 0x7F) = v"
    by (rule bit_eqI) (auto simp only: byte_bits dest: n, auto dest: n)
  show "(ucast v :: u8) AND 0x80 = 0"
    by (rule bit_eqI) (auto simp only: byte_bits dest: n, auto dest: n)
qed

lemma split_7: "push_bit s (take_bit 7 v) OR push_bit (s + 7) (drop_bit 7 v) = push_bit s v"
  for v :: u64
proof (rule bit_eqI)
  fix n
  have "7 + (n - (s + 7)) = n - s" if "7 + s \<le> n" using that by simp
  then show "bit (push_bit s (take_bit 7 v) OR push_bit (s + 7) (drop_bit 7 v)) n = bit (push_bit s v) n"
    by (cases "7 + s \<le> n") (auto simp: bit_simps)
qed

lemma decode_loop_bytes:
  "7 * length (varint_bytes v) + shift \<le> 70 \<Longrightarrow>
   decode_varint_loop (varint_bytes v @ rest) i result shift =
     Some (result OR push_bit shift v, i + length (varint_bytes v))"
proof (induction v arbitrary: i result shift rule: varint_bytes.induct)
  case (1 v)
  show ?case
  proof (cases "v \<ge> 0x80")
    case True
    then have v: "varint_bytes v = (ucast v OR 0x80) # varint_bytes (drop_bit 7 v)"
      by (subst varint_bytes.simps) simp
    have l: "length (varint_bytes (drop_bit 7 v)) > 0" by simp
    have p: "7 * length (varint_bytes (drop_bit 7 v)) + (shift + 7) \<le> 70"
      using "1.prems" by (simp add: v)
    then have s: "\<not> shift + 7 \<ge> 70" using l by linarith
    show ?thesis
      unfolding v append_Cons decode_varint_loop.simps Let_def cont_byte(1)
      using cont_byte(2) [of v] s "1.IH" [OF True p, of "i + 1" "result OR push_bit shift (take_bit 7 v)"]
      by (simp add: or.assoc split_7)
  next
    case False
    then have v: "varint_bytes v = [ucast v]" by (subst varint_bytes.simps) simp
    show ?thesis by (simp add: v last_byte [OF False])
  qed
qed

lemma decode_bytes: "decode_varint (varint_bytes v @ rest) = Some (v, length (varint_bytes v))"
  using length_varint_bytes_10 [of v]
    decode_loop_bytes [of v 0 "take (10 - length (varint_bytes v)) rest" 0 0]
  by (simp add: decode_varint_def VARINT_MAX_BYTES_def)

text \<open>The interface of a codec, for the varint read from the front of a slice.\<close>

definition read_varint :: "bytes \<Rightarrow> (u64 \<times> bytes) option" where
  "read_varint bs = map_option (\<lambda>(v, n). (v, drop n bs)) (decode_varint bs)"

interpretation varintc: codec varint_bytes read_varint "\<lambda>_. True"
  by unfold_locales (simp add: read_varint_def decode_bytes)

section \<open>Zigzag\<close>

lemma sign_fill: "signed_drop_bit 63 v = (if bit v 63 then - 1 else 0)" for v :: i64
proof (rule bit_eqI)
  fix n
  have "min (63 + n) 63 = (63 :: nat)" by simp
  then show "bit (signed_drop_bit 63 v) n = bit (if bit v 63 then - 1 else 0 :: i64) n"
    by (cases n) (auto simp: bit_simps dest: bit_imp_le_length)
qed

lemma and_1_neg: "- (u AND 1) = (if bit u 0 then - 1 else 0)" for u :: u64
  by (simp add: and_one_eq bit_0 mod_2_eq_odd)

lemma bit_encode_zigzag:
  "bit (encode_zigzag v) n \<longleftrightarrow> n < 64 \<and> (0 < n \<and> bit v (n - 1)) \<noteq> bit v 63"
proof (cases "n < 64")
  case True
  then show ?thesis
    unfolding encode_zigzag_def sign_fill bit_xor_iff bit_push_bit_iff
    by (auto simp: Suc_le_eq)
qed (auto dest: bit_imp_le_length)

lemma bit_decode_zigzag:
  "bit (decode_zigzag u) n \<longleftrightarrow> n < 64 \<and> bit u (Suc n) \<noteq> bit u 0"
proof (cases "n < 64")
  case True
  then show ?thesis
    unfolding decode_zigzag_def and_1_neg bit_xor_iff bit_drop_bit_eq by auto
qed (auto dest: bit_imp_le_length)

lemma decode_encode_zigzag: "decode_zigzag (encode_zigzag v) = v"
proof (rule bit_eqI)
  fix n assume "possible_bit TYPE(64 word) n"
  then have "n < 64" by simp
  then consider "Suc n < 64" | "n = 63" by linarith
  then show "bit (decode_zigzag (encode_zigzag v)) n = bit v n"
    by cases (auto simp: bit_decode_zigzag bit_encode_zigzag)
qed

lemma encode_decode_zigzag: "encode_zigzag (decode_zigzag u) = u"
proof (rule bit_eqI)
  fix n assume "possible_bit TYPE(64 word) n"
  moreover have "\<not> bit u 64" using bit_imp_le_length [of u 64] by auto
  ultimately show "bit (encode_zigzag (decode_zigzag u)) n = bit u n"
    by (cases n) (auto simp: bit_decode_zigzag bit_encode_zigzag)
qed

section \<open>Properties\<close>

text \<open>
  Encoding any \<open>u64\<close> into a buffer of at least ten bytes succeeds, writes at most ten
  bytes, leaves the rest of the buffer as it was, and decoding the buffer gives back the value
  and the number of bytes written.
\<close>

theorem varint_roundtrip:
  assumes "length buf \<ge> VARINT_MAX_BYTES"
  shows "\<exists>buf' n. encode_varint v buf = Ok (buf', n) \<and> n \<le> VARINT_MAX_BYTES \<and>
           length buf' = length buf \<and> drop n buf' = drop n buf \<and>
           decode_varint buf' = Some (v, n)"
  using assms length_varint_bytes_10 [of v]
  by (auto simp: VARINT_MAX_BYTES_def encode_varint_bytes decode_bytes)

theorem varint_roundtrip_witness:
  "\<exists>buf' n. encode_varint 300 (replicate 12 7) = Ok (buf', n) \<and> n \<le> VARINT_MAX_BYTES \<and>
     length buf' = length (replicate 12 (7 :: u8)) \<and>
     drop n buf' = drop n (replicate 12 7) \<and> decode_varint buf' = Some (300, n)"
  by (rule varint_roundtrip) (simp add: VARINT_MAX_BYTES_def)

text \<open>
  Zigzag is a bijection between signed and unsigned 64-bit integers.
\<close>

theorem zigzag_bijection:
  "decode_zigzag (encode_zigzag v) = v \<and> encode_zigzag (decode_zigzag u) = u"
  by (simp add: decode_encode_zigzag encode_decode_zigzag)

text \<open>
  The decoder's overflow check counts bytes only: a tenth byte whose bits do not fit in 64
  bits is accepted and those bits are dropped, so the ten-byte string for \<open>2 ^ 64\<close> decodes
  to 0.
\<close>

theorem varint_overflow_accepted:
  "decode_varint (replicate 9 0x80 @ [0x02]) = Some (0, 10)"
  by code_simp

end
