(* ===== verification/Bitpack.thy ===== *)
theory Bitpack
  imports Bytes
begin

text \<open>
  The bit-packed blocks of \<open>src/utils/mod.rs\<close>: up to 128 numbers stored as differences from
  their minimum, each in the number of bits the largest difference needs, behind a 16-byte
  header written as the C struct lies in memory on a little-endian machine. The four bytes
  of padding at the end of the struct have no defined contents and are the parameter
  \<open>pad\<close>. Buffers passed by mutable reference are returned next to the result.
\<close>

section \<open>The code\<close>

definition BITPACK_BLOCK_SIZE :: nat where "BITPACK_BLOCK_SIZE = 128"

record BitPackBlockHeader =
  bp_base :: u64
  bp_bits :: u8
  bp_count :: u8
  bp_reserved :: u16

definition BP_SIZE :: nat where "BP_SIZE = 16"

definition bp_data_size :: "u8 \<Rightarrow> u8 \<Rightarrow> nat" where
  "bp_data_size bits count = (let total_bits = unat bits * unat count in (total_bits + 7) div 8)"

definition bp_total_size :: "BitPackBlockHeader \<Rightarrow> nat" where
  "bp_total_size h = BP_SIZE + bp_data_size (bp_bits h) (bp_count h)"

definition bp_header_bytes :: "bytes \<Rightarrow> BitPackBlockHeader \<Rightarrow> bytes" where
  "bp_header_bytes pad h =
     u64_le (bp_base h) @ [bp_bits h, bp_count h] @ u16_le (bp_reserved h) @ pad"

definition bp_read_header :: "bytes \<Rightarrow> BitPackBlockHeader" where
  "bp_read_header buf =
     \<lparr>bp_base = le_u64 (take 8 buf), bp_bits = buf ! 8, bp_count = buf ! 9,
      bp_reserved = le_u16 (take 2 (drop 10 buf))\<rparr>"

definition leading_zeros :: "u64 \<Rightarrow> nat" where
  "leading_zeros w = length (takeWhile (\<lambda>i. \<not> bit w i) (rev [0..<64]))"

text \<open>\<open>data_buf[byte_idx] |= 1u8 << bit_idx\<close>, when the byte exists.\<close>

definition or_bit :: "nat \<Rightarrow> bytes \<Rightarrow> bytes" where
  "or_bit k data =
     (let byte_idx = k div 8; bit_idx = k mod 8
      in if byte_idx < length data then data[byte_idx := data ! byte_idx OR push_bit bit_idx 1] else data)"

definition pack_value :: "nat \<Rightarrow> u64 \<Rightarrow> nat \<Rightarrow> bytes \<Rightarrow> bytes" where
  "pack_value bits_needed delta bit_offset data =
     fold (\<lambda>bit_pos data. if drop_bit bit_pos delta AND 1 \<noteq> 0 then or_bit (bit_offset + bit_pos) data else data)
       [0..<bits_needed] data"

fun pack_values :: "nat \<Rightarrow> u64 \<Rightarrow> u64 list \<Rightarrow> nat \<Rightarrow> bytes \<Rightarrow> bytes" where
  "pack_values bits_needed base [] bit_offset data = data"
| "pack_values bits_needed base (v # values) bit_offset data =
     pack_values bits_needed base values (bit_offset + bits_needed)
       (pack_value bits_needed (v - base) bit_offset data)"

definition bitpack_encode :: "bytes \<Rightarrow> u64 list \<Rightarrow> bytes \<Rightarrow> bytes \<times> nat option" where
  "bitpack_encode pad values buf =
     (if values = [] \<or> length values > BITPACK_BLOCK_SIZE then (buf, None)
      else if length buf < BP_SIZE then (buf, None)
      else
        let base = Min (set values);
            max_val = Max (set values);
            max_delta = max_val - base;
            bits_needed = (if max_delta = 0 then 1 else 64 - of_nat (leading_zeros max_delta)) :: u8;
            count = of_nat (length values) :: u8;
            header = \<lparr>bp_base = base, bp_bits = bits_needed, bp_count = count, bp_reserved = 0\<rparr>;
            buf1 = bp_header_bytes pad header @ drop BP_SIZE buf;
            data_size = bp_data_size bits_needed count;
            total_size = BP_SIZE + data_size
        in if length buf < total_size then (buf1, None)
           else (take BP_SIZE buf1 @ pack_values (unat bits_needed) base values 0 (replicate data_size 0) @
                 drop total_size buf1, Some total_size))"

definition unpack_value :: "nat \<Rightarrow> nat \<Rightarrow> bytes \<Rightarrow> u64" where
  "unpack_value bits bit_offset data =
     fold (\<lambda>bit_pos v.
        let byte_idx = (bit_offset + bit_pos) div 8; bit_idx = (bit_offset + bit_pos) mod 8
        in if byte_idx < length data \<and> drop_bit bit_idx (data ! byte_idx) AND 1 \<noteq> 0
           then v OR push_bit bit_pos 1 else v) [0..<bits] 0"

definition bitpack_decode :: "bytes \<Rightarrow> u64 list \<Rightarrow> u64 list \<times> nat option" where
  "bitpack_decode buf output =
     (if length buf < BP_SIZE then (output, None)
      else
        let header = bp_read_header buf in
        if bp_bits header = 0 \<or> bp_bits header > 64 then (output, None)
        else if unat (bp_count header) > length output then (output, None)
        else
          let data_size = bp_data_size (bp_bits header) (bp_count header); total_size = BP_SIZE + data_size
          in if length buf < total_size then (output, None)
          else
            let data_buf = drop BP_SIZE buf; bits = unat (bp_bits header);
                mask' = (if bits = 64 then - 1 else push_bit bits 1 - 1);
                n = unat (bp_count header)
            in (map (\<lambda>i. bp_base header + (unpack_value bits (i * bits) data_buf AND mask')) [0..<n] @ drop n output,
                Some n))"

fun deltas :: "u64 \<Rightarrow> u64 list \<Rightarrow> u64 list" where
  "deltas prev [] = []"
| "deltas prev (v # vs) = (v - prev) # deltas v vs"

definition bitpack_encode_deltas :: "bytes \<Rightarrow> u64 list \<Rightarrow> bytes \<Rightarrow> bytes \<times> nat option" where
  "bitpack_encode_deltas pad values buf =
     (case values of [] \<Rightarrow> (buf, None) | v # vs \<Rightarrow> bitpack_encode pad (v # deltas v vs) buf)"

text \<open>\<open>for i in 1..count { output[i] += output[i - 1] }\<close>.\<close>

fun prefix_sums :: "u64 \<Rightarrow> u64 list \<Rightarrow> u64 list" where
  "prefix_sums prev [] = []"
| "prefix_sums prev (d # ds) = (d + prev) # prefix_sums (d + prev) ds"

definition bitpack_decode_deltas :: "bytes \<Rightarrow> u64 list \<Rightarrow> u64 list \<times> nat option" where
  "bitpack_decode_deltas buf output =
     (case bitpack_decode buf output of
        (output', None) \<Rightarrow> (output', None)
      | (output', Some count) \<Rightarrow> (prefix_sums 0 (take count output') @ drop count output', Some count))"

section \<open>Bits of a buffer\<close>

definition buf_bit :: "bytes \<Rightarrow> nat \<Rightarrow> bool" where
  "buf_bit data k \<longleftrightarrow> k div 8 < length data \<and> bit (data ! (k div 8)) (k mod 8)"

lemma and_one_bit: "drop_bit n w AND 1 \<noteq> 0 \<longleftrightarrow> bit w n" for w :: "'a::len word"
  by (simp add: and_one_eq bit_iff_odd_drop_bit odd_iff_mod_2_eq_one)

lemma length_or_bit [simp]: "length (or_bit k data) = length data"
  by (simp add: or_bit_def Let_def)

lemma buf_bit_or [simp]:
  assumes "k < 8 * length data"
  shows "buf_bit (or_bit k data) j \<longleftrightarrow> j = k \<or> buf_bit data j"
proof -
  have k: "k div 8 < length data" using assms by linarith
  have e: "j = k \<longleftrightarrow> j div 8 = k div 8 \<and> j mod 8 = k mod 8"
    by (metis div_mult_mod_eq)
  show ?thesis
  proof (cases "j div 8 = k div 8")
    case True
    have "k mod 8 < 8" by simp
    then show ?thesis using k True e
      by (auto simp: or_bit_def buf_bit_def Let_def bit_simps)
  next
    case False
    then show ?thesis using k by (auto simp: or_bit_def buf_bit_def Let_def e)
  qed
qed

lemma length_pack_value [simp]: "length (pack_value n d off data) = length data"
proof -
  have "length (fold (\<lambda>p data. if P p then or_bit (off + p) data else data) ps data) = length data" for P ps
    by (induction ps arbitrary: data) auto
  then show ?thesis by (simp add: pack_value_def)
qed

lemma buf_bit_pack_value:
  assumes "off + n \<le> 8 * length data"
  shows "buf_bit (pack_value n d off data) j \<longleftrightarrow> buf_bit data j \<or> (off \<le> j \<and> j < off + n \<and> bit d (j - off))"
  using assms
proof (induction n)
  case (Suc n)
  let ?pv = "pack_value n d off data"
  have "pack_value (Suc n) d off data = (if bit d n then or_bit (off + n) ?pv else ?pv)"
    by (simp only: pack_value_def upt_Suc_append [OF le0] fold_append and_one_bit) simp
  moreover have "buf_bit ?pv j \<longleftrightarrow> buf_bit data j \<or> (off \<le> j \<and> j < off + n \<and> bit d (j - off))"
    using Suc by simp
  ultimately show ?case using Suc.prems by (auto simp: less_Suc_eq)
qed (auto simp: pack_value_def)

lemma length_pack_values [simp]: "length (pack_values n b vs off data) = length data"
  by (induction vs arbitrary: off data) simp_all

lemma buf_bit_pack_values:
  assumes "off + n * length vs \<le> 8 * length data"
  shows "buf_bit (pack_values n b vs off data) j \<longleftrightarrow> buf_bit data j \<or>
    (\<exists>i<length vs. off + i * n \<le> j \<and> j < off + i * n + n \<and> bit (vs ! i - b) (j - (off + i * n)))"
  using assms
proof (induction vs arbitrary: off data)
  case (Cons v vs)
  have "off + n \<le> 8 * length data" using Cons.prems by simp
  note pv = buf_bit_pack_value [OF this, of "v - b"]
  have "off + n + n * length vs \<le> 8 * length (pack_value n (v - b) off data)" using Cons.prems by simp
  note IH = Cons.IH [OF this]
  have s: "off + Suc i * n = off + n + i * n" for i by simp
  have "(\<exists>i<length (v # vs). off + i * n \<le> j \<and> j < off + i * n + n \<and> bit ((v # vs) ! i - b) (j - (off + i * n))) \<longleftrightarrow>
      (off \<le> j \<and> j < off + n \<and> bit (v - b) (j - off)) \<or>
      (\<exists>i<length vs. off + n + i * n \<le> j \<and> j < off + n + i * n + n \<and> bit (vs ! i - b) (j - (off + n + i * n)))"
    unfolding length_Cons Ex_less_Suc2 by (simp only: s nth_Cons_0 nth_Cons_Suc mult_0 add_0_right)
  then show ?case unfolding pack_values.simps IH pv by blast
qed simp

lemma bit_unpack_value: "bit (unpack_value n off data) q \<longleftrightarrow> q < n \<and> q < 64 \<and> buf_bit data (off + q)"
proof (induction n)
  case (Suc n)
  have "unpack_value (Suc n) off data =
      (if buf_bit data (off + n) then unpack_value n off data OR push_bit n 1 else unpack_value n off data)"
    by (simp only: unpack_value_def upt_Suc_append [OF le0] fold_append and_one_bit buf_bit_def Let_def) simp
  then show ?case using Suc by (auto simp: bit_simps less_Suc_eq)
qed (simp add: unpack_value_def)

section \<open>Width\<close>

lemma leading_zeros_bits:
  assumes "w \<noteq> 0"
  shows "leading_zeros w < 64" "bit w q \<Longrightarrow> q < 64 - leading_zeros w"
proof -
  obtain k where k: "bit w k" using assms by (metis bit_eqI bit_0_eq bot_apply bot_bool_def)
  then have k64: "k < 64" using bit_imp_le_length [of w k] by simp
  have len: "length (rev [0..<64 :: nat]) = 64" by simp
  have bound: "leading_zeros w \<le> 63 - q" if "bit w q" for q
  proof (rule ccontr)
    assume "\<not> leading_zeros w \<le> 63 - q"
    then have l: "63 - q < leading_zeros w" by simp
    have q: "q < 64" using that bit_imp_le_length [of w q] by simp
    have "takeWhile (\<lambda>i. \<not> bit w i) (rev [0..<64]) ! (63 - q) = rev [0..<64] ! (63 - q)"
      using l by (intro takeWhile_nth) (simp add: leading_zeros_def)
    also have "\<dots> = q" using q by (simp add: rev_nth)
    finally have "q \<in> set (takeWhile (\<lambda>i. \<not> bit w i) (rev [0..<64]))"
      using l nth_mem [of "63 - q" "takeWhile (\<lambda>i. \<not> bit w i) (rev [0..<64])"] by (simp add: leading_zeros_def)
    then show False using that by (auto dest: set_takeWhileD)
  qed
  show "leading_zeros w < 64" using bound [OF k] by simp
  show "bit w q \<Longrightarrow> q < 64 - leading_zeros w"
    using bound [of q] bit_imp_le_length [of w q] by simp
qed

text \<open>The number of bits stored per value.\<close>

definition needed_bits :: "u64 \<Rightarrow> nat" where
  "needed_bits m = (if m = 0 then 1 else 64 - leading_zeros m)"

lemma needed_bits_range: "0 < needed_bits m" "needed_bits m \<le> 64"
  using leading_zeros_bits(1) [of m] by (auto simp: needed_bits_def)

lemma needed_bits_u8:
  "unat ((if m = 0 then 1 else 64 - of_nat (leading_zeros m)) :: u8) = needed_bits m"
proof (cases "m = 0")
  case False
  have l: "leading_zeros m < 64" using leading_zeros_bits(1) [OF False] .
  then have "unat (of_nat (leading_zeros m) :: u8) = leading_zeros m" by (simp add: unat_of_nat)
  moreover from this l have "of_nat (leading_zeros m) \<le> (64 :: u8)" by (simp add: word_le_nat_alt)
  ultimately show ?thesis using False by (simp add: unat_sub needed_bits_def)
qed (simp add: needed_bits_def)

lemma less_needed_bits: "unat m < 2 ^ needed_bits m"
proof (cases "m = 0")
  case False
  have "take_bit (64 - leading_zeros m) m = m"
    using leading_zeros_bits(2) [OF False] by (intro bit_eqI) (auto simp: bit_simps)
  then have "unat m = take_bit (64 - leading_zeros m) (unat m)" by (metis unsigned_take_bit_eq)
  then show ?thesis using False take_bit_nat_less_exp [of "64 - leading_zeros m" "unat m"]
    by (simp add: needed_bits_def)
qed (simp add: needed_bits_def)

lemma bit_needed:
  assumes "w \<le> m" "bit w q"
  shows "q < needed_bits m"
proof -
  have "bit (unat w) q" using assms(2) by (simp add: bit_unsigned_iff)
  then have "2 ^ q \<le> unat w" by (intro leI notI) (simp add: bit_iff_odd)
  also have "\<dots> \<le> unat m" using assms(1) by (simp add: word_le_nat_alt)
  also have "\<dots> < 2 ^ needed_bits m" by (rule less_needed_bits)
  finally show ?thesis by (simp add: power_strict_increasing_iff)
qed

section \<open>Reading back a block\<close>

lemma buf_bit_append: "j < 8 * length a \<Longrightarrow> buf_bit (a @ b) j \<longleftrightarrow> buf_bit a j"
proof -
  assume "j < 8 * length a"
  then have "j div 8 < length a" by linarith
  then show ?thesis by (simp add: buf_bit_def nth_append)
qed

lemma unpack_packed:
  assumes "i < length vs" "n * length vs \<le> 8 * size'" "n \<le> 64" "\<And>q. bit (vs ! i - b) q \<Longrightarrow> q < n"
  shows "unpack_value n (i * n) (pack_values n b vs 0 (replicate size' 0) @ rest) = vs ! i - b"
proof (rule bit_eqI)
  fix q
  have zero: "\<not> buf_bit (replicate size' 0) j" for j by (simp add: buf_bit_def)
  have "Suc i * n \<le> length vs * n" using assms(1) by (intro mult_le_mono1) simp
  then have room: "q < n \<Longrightarrow> i * n + q < 8 * size'" using assms(2) by (simp add: mult.commute)
  have cell: "i' = i" if "i' * n \<le> i * n + q" "i * n + q < i' * n + n" "q < n" for i'
  proof -
    have "i' * n < Suc i * n" "i * n < Suc i' * n" using that by simp_all
    then have "i' < Suc i" "i < Suc i'" by (auto simp only: mult_less_cancel2)
    then show ?thesis by simp
  qed
  have "bit (unpack_value n (i * n) (pack_values n b vs 0 (replicate size' 0) @ rest)) q \<longleftrightarrow>
      q < n \<and> q < 64 \<and> buf_bit (pack_values n b vs 0 (replicate size' 0)) (i * n + q)"
    using room by (auto simp: bit_unpack_value buf_bit_append)
  also have "\<dots> \<longleftrightarrow> q < n \<and> q < 64 \<and> bit (vs ! i - b) q"
  proof -
    have "buf_bit (pack_values n b vs 0 (replicate size' 0)) (i * n + q) \<longleftrightarrow>
        (\<exists>i'<length vs. i' * n \<le> i * n + q \<and> i * n + q < i' * n + n \<and> bit (vs ! i' - b) (i * n + q - i' * n))"
      using assms(2) by (simp add: buf_bit_pack_values zero)
    also have "\<dots> \<longleftrightarrow> bit (vs ! i - b) q" if "q < n"
    proof
      assume "\<exists>i'<length vs. i' * n \<le> i * n + q \<and> i * n + q < i' * n + n \<and> bit (vs ! i' - b) (i * n + q - i' * n)"
      then obtain i' where i': "i' * n \<le> i * n + q" "i * n + q < i' * n + n" "bit (vs ! i' - b) (i * n + q - i' * n)"
        by blast
      from cell [OF i'(1,2) that] i'(3) show "bit (vs ! i - b) q" by simp
    qed (use assms(1) that in \<open>auto intro!: exI [of _ i]\<close>)
    finally show ?thesis by blast
  qed
  also have "\<dots> \<longleftrightarrow> bit (vs ! i - b) q" using assms(3,4) by force
  finally show "bit (unpack_value n (i * n) (pack_values n b vs 0 (replicate size' 0) @ rest)) q \<longleftrightarrow> bit (vs ! i - b) q" .
qed

lemma mask_small: "(\<And>q. bit w q \<Longrightarrow> q < n) \<Longrightarrow> w AND (if n = 64 then - 1 else push_bit n 1 - 1) = w" for w :: u64
proof -
  assume b: "\<And>q. bit w q \<Longrightarrow> q < n"
  have "w AND (push_bit n 1 - 1) = take_bit n w" by (simp add: take_bit_eq_mask mask_eq_exp_minus_1 push_bit_eq_mult)
  also have "\<dots> = w" by (rule bit_eqI) (use b in \<open>auto simp: bit_simps\<close>)
  finally show ?thesis by simp
qed

lemma header_read:
  assumes "length pad = 4"
  shows "length (bp_header_bytes pad h) = BP_SIZE" "bp_read_header (bp_header_bytes pad h @ rest) = h"
  using assms by (simp_all add: bp_header_bytes_def bp_read_header_def BP_SIZE_def nth_append)

lemma encode_decode:
  assumes vs: "vs \<noteq> []" "length vs \<le> 128" and pad: "length pad = 4"
    and room: "16 + 8 * length vs \<le> length buf" and out: "length vs \<le> length output"
  shows "\<exists>buf' n. bitpack_encode pad vs buf = (buf', Some n) \<and> n \<le> 16 + 8 * length vs \<and> length buf' = length buf \<and>
    bitpack_decode buf' output = (vs @ drop (length vs) output, Some (length vs))"
proof -
  let ?base = "Min (set vs)"
  define m where "m = Max (set vs) - ?base"
  define b where "b = ((if m = 0 then 1 else 64 - of_nat (leading_zeros m)) :: u8)"
  define c where "c = (of_nat (length vs) :: u8)"
  have bn: "unat b = needed_bits m" unfolding b_def by (rule needed_bits_u8)
  have cn: "unat c = length vs" using vs(2) by (simp add: c_def unat_of_nat)
  define h where "h = \<lparr>bp_base = ?base, bp_bits = b, bp_count = c, bp_reserved = 0\<rparr>"
  define size' where "size' = bp_data_size b c"
  have sz: "size' = (needed_bits m * length vs + 7) div 8" by (simp add: size'_def bp_data_size_def bn cn)
  have fits: "needed_bits m * length vs \<le> 8 * size'" unfolding sz by linarith
  have "needed_bits m * length vs \<le> 64 * length vs" using needed_bits_range by (intro mult_le_mono1)
  then have size_le: "size' \<le> 8 * length vs" unfolding sz by linarith
  define packed where "packed = pack_values (needed_bits m) ?base vs 0 (replicate size' 0)"
  define tail where "tail = drop (16 + size') (bp_header_bytes pad h @ drop 16 buf)"
  define buf' where "buf' = bp_header_bytes pad h @ packed @ tail"
  have lh: "length (bp_header_bytes pad h) = 16" using header_read(1) [OF pad] by (simp add: BP_SIZE_def)
  have lp: "length packed = size'" by (simp add: packed_def)
  have enc: "bitpack_encode pad vs buf = (buf', Some (16 + size'))"
    unfolding bitpack_encode_def m_def [symmetric] Let_def b_def [symmetric] c_def [symmetric] h_def [symmetric]
      size'_def [symmetric] bn packed_def [symmetric] buf'_def tail_def
    using vs room size_le lh by (simp add: BITPACK_BLOCK_SIZE_def BP_SIZE_def)
  have delta: "bit (vs ! i - ?base) q \<Longrightarrow> q < needed_bits m" if "i < length vs" for i q
  proof (rule bit_needed)
    have i: "?base \<le> vs ! i" "vs ! i \<le> Max (set vs)" using that by simp_all
    then have "?base \<le> Max (set vs)" by (rule order_trans)
    with i show "vs ! i - ?base \<le> m" by (simp add: m_def word_le_nat_alt unat_sub)
  qed
  have un: "unpack_value (needed_bits m) (i * needed_bits m) (packed @ tail) = vs ! i - ?base" if "i < length vs" for i
    unfolding packed_def using that fits needed_bits_range(2) delta [OF that] by (rule unpack_packed)
  have val: "?base + (unpack_value (needed_bits m) (i * needed_bits m) (packed @ tail) AND
      (if needed_bits m = 64 then - 1 else push_bit (needed_bits m) 1 - 1)) = vs ! i" if "i < length vs" for i
  proof -
    have "(vs ! i - ?base) AND (if needed_bits m = 64 then - 1 else push_bit (needed_bits m) 1 - 1) = vs ! i - ?base"
      by (rule mask_small) (rule delta [OF that])
    then show ?thesis unfolding un [OF that] by simp
  qed
  have dec: "bitpack_decode buf' output =
      (map (\<lambda>i. ?base + (unpack_value (needed_bits m) (i * needed_bits m) (packed @ tail) AND
        (if needed_bits m = 64 then - 1 else push_bit (needed_bits m) 1 - 1))) [0..<length vs] @
       drop (length vs) output, Some (length vs))"
  proof -
    have hd: "bp_read_header buf' = h" unfolding buf'_def by (rule header_read(2) [OF pad])
    have f: "bp_bits h = b" "bp_count h = c" "bp_base h = ?base" by (simp_all add: h_def)
    have bb: "\<not> (b = 0 \<or> b > 64)" using needed_bits_range [of m] bn by (auto simp: word_less_nat_alt)
    have d: "drop BP_SIZE buf' = packed @ tail" "\<not> length buf' < BP_SIZE" "\<not> length buf' < BP_SIZE + size'"
      using lh lp by (simp_all add: buf'_def BP_SIZE_def)
    show ?thesis
      unfolding bitpack_decode_def Let_def hd f if_not_P [OF bb] cn bn size'_def [symmetric] d(1) if_not_P [OF d(2)]
        if_not_P [OF d(3)]
      using out by simp
  qed
  have "map (\<lambda>i. ?base + (unpack_value (needed_bits m) (i * needed_bits m) (packed @ tail) AND
        (if needed_bits m = 64 then - 1 else push_bit (needed_bits m) 1 - 1))) [0..<length vs] = vs"
    by (rule nth_equalityI) (simp_all only: length_map length_upt nth_map nth_upt val minus_nat.diff_0 add_0)
  moreover have "length buf' = length buf"
    using lh lp room size_le by (simp add: buf'_def tail_def)
  ultimately show ?thesis using enc dec size_le by auto
qed

lemma prefix_sums_deltas: "prefix_sums p (deltas p vs) = vs"
  by (induction vs arbitrary: p) simp_all

lemma length_deltas [simp]: "length (deltas p vs) = length vs"
  by (induction vs arbitrary: p) simp_all

section \<open>Properties\<close>

text \<open>
  C40: a block of 1 to 128 numbers is read back exactly, takes no more than its header and
  eight bytes a number, and leaves the rest of the output untouched. Numbers stored as differences
  are read back too, sorted or not: the differences and the sums wrap alike.
\<close>

theorem bitpack_roundtrip:
  assumes "vs \<noteq> []" "length vs \<le> 128" "length pad = 4" "16 + 8 * length vs \<le> length buf"
    "length vs \<le> length output"
  shows "(\<exists>buf' n. bitpack_encode pad vs buf = (buf', Some n) \<and> n \<le> 16 + 8 * length vs \<and>
      length buf' = length buf \<and> bitpack_decode buf' output = (vs @ drop (length vs) output, Some (length vs))) \<and>
    (\<exists>buf' n. bitpack_encode_deltas pad vs buf = (buf', Some n) \<and>
      bitpack_decode_deltas buf' output = (vs @ drop (length vs) output, Some (length vs)))"
proof
  show "\<exists>buf' n. bitpack_encode pad vs buf = (buf', Some n) \<and> n \<le> 16 + 8 * length vs \<and>
      length buf' = length buf \<and> bitpack_decode buf' output = (vs @ drop (length vs) output, Some (length vs))"
    using assms by (rule encode_decode)
  have d: "deltas 0 vs \<noteq> []" "length (deltas 0 vs) \<le> 128" "16 + 8 * length (deltas 0 vs) \<le> length buf"
    "length (deltas 0 vs) \<le> length output"
    using assms by (cases vs; simp)+
  obtain buf' n where e: "bitpack_encode pad (deltas 0 vs) buf = (buf', Some n)"
    "bitpack_decode buf' output = (deltas 0 vs @ drop (length vs) output, Some (length vs))"
    using encode_decode [OF d(1,2) assms(3) d(3,4)] by auto
  have "bitpack_encode_deltas pad vs buf = bitpack_encode pad (deltas 0 vs) buf"
    using assms(1) by (cases vs) (simp_all add: bitpack_encode_deltas_def)
  with e show "\<exists>buf' n. bitpack_encode_deltas pad vs buf = (buf', Some n) \<and>
      bitpack_decode_deltas buf' output = (vs @ drop (length vs) output, Some (length vs))"
    by (simp add: bitpack_decode_deltas_def prefix_sums_deltas)
qed

theorem bitpack_roundtrip_witness:
  "\<exists>buf' n. bitpack_encode_deltas [0, 0, 0, 0] [500, 3, 40] (replicate 64 0) = (buf', Some n) \<and>
     bitpack_decode_deltas buf' [0, 0, 0, 9] = ([500, 3, 40, 9], Some 3)"
  using bitpack_roundtrip [of "[500, 3, 40]" "[0, 0, 0, 0]" "replicate 64 0" "[0, 0, 0, 9]"] by (simp add: numeral_eq_Suc)

end
