(* ===== verification/Join_Spec.thy ===== *)
theory Join_Spec
  imports Prelude
begin

text \<open>
  The contract of the replicated data types: a state is observed through a view, merging two
  states joins their views in a semilattice, and therefore replicas that have merged the same
  contributions have the same view, whatever the order, the grouping and the repetitions of
  the merges were.
\<close>

section \<open>Joins of views\<close>

locale join_semilattice =
  fixes vsup :: "'v \<Rightarrow> 'v \<Rightarrow> 'v"
    and vok :: "'v \<Rightarrow> bool"
  assumes vok_sup: "vok a \<Longrightarrow> vok b \<Longrightarrow> vok (vsup a b)"
    and sup_assoc: "vok a \<Longrightarrow> vok b \<Longrightarrow> vok c \<Longrightarrow> vsup (vsup a b) c = vsup a (vsup b c)"
    and sup_comm: "vok a \<Longrightarrow> vok b \<Longrightarrow> vsup a b = vsup b a"
    and sup_idem: "vok a \<Longrightarrow> vsup a a = a"
begin

lemma sup_left_absorb: "vok a \<Longrightarrow> vok b \<Longrightarrow> vsup a (vsup a b) = vsup a b"
  by (simp add: sup_assoc [symmetric] sup_idem)

lemma sup_right_absorb: "vok a \<Longrightarrow> vok b \<Longrightarrow> vsup b (vsup a b) = vsup a b"
  using sup_left_absorb [of b a] by (simp add: sup_comm [of a b])

text \<open>\<open>vsup x z = z\<close> says that \<open>z\<close> already includes \<open>x\<close>.\<close>

lemma includes_trans:
  "vok a \<Longrightarrow> vok b \<Longrightarrow> vok c \<Longrightarrow> vsup a b = b \<Longrightarrow> vsup b c = c \<Longrightarrow> vsup a c = c"
  by (metis sup_assoc)

lemma includes_antisym: "vok a \<Longrightarrow> vok b \<Longrightarrow> vsup a b = b \<Longrightarrow> vsup b a = a \<Longrightarrow> a = b"
  by (metis sup_comm)

lemma includes_sup: "vok a \<Longrightarrow> vok b \<Longrightarrow> vok c \<Longrightarrow> vsup a c = c \<Longrightarrow> vsup b c = c \<Longrightarrow> vsup (vsup a b) c = c"
  by (simp add: sup_assoc)

end

section \<open>State-based replicated types\<close>

text \<open>A state obtained by merging exactly the contributions in a set, in any shape.\<close>

inductive merged :: "('s \<Rightarrow> 's \<Rightarrow> 's) \<Rightarrow> 's set \<Rightarrow> 's \<Rightarrow> bool" for join where
  own: "merged join {s} s"
| merge: "merged join A a \<Longrightarrow> merged join B b \<Longrightarrow> merged join (A \<union> B) (join a b)"

lemma merged_fold:
  "merged join A a \<Longrightarrow> merged join (A \<union> set xs) (fold (\<lambda>s t. join t s) xs a)"
proof (induction xs arbitrary: A a)
  case (Cons x xs)
  have "merged join (A \<union> {x}) (join a x)" by (intro merged.intros Cons.prems)
  then have "merged join (A \<union> {x} \<union> set xs) (fold (\<lambda>s t. join t s) xs (join a x))"
    by (rule Cons.IH)
  then show ?case by simp
qed simp

locale state_crdt = join_semilattice vsup vok
  for vsup :: "'v \<Rightarrow> 'v \<Rightarrow> 'v" and vok :: "'v \<Rightarrow> bool" +
  fixes join :: "'s \<Rightarrow> 's \<Rightarrow> 's"
    and view :: "'s \<Rightarrow> 'v"
    and valid :: "'s \<Rightarrow> bool"
  assumes valid_join: "valid a \<Longrightarrow> valid b \<Longrightarrow> valid (join a b)"
    and valid_view: "valid a \<Longrightarrow> vok (view a)"
    and view_join: "valid a \<Longrightarrow> valid b \<Longrightarrow> view (join a b) = vsup (view a) (view b)"
begin

lemma merged_valid: "merged join A s \<Longrightarrow> \<forall>x\<in>A. valid x \<Longrightarrow> valid s"
  by (induction rule: merged.induct) (auto intro: valid_join)

text \<open>A merged state includes every contribution, and nothing more than they force.\<close>

lemma merged_includes:
  "merged join A s \<Longrightarrow> \<forall>x\<in>A. valid x \<Longrightarrow> x \<in> A \<Longrightarrow> vsup (view x) (view s) = view s"
proof (induction rule: merged.induct)
  case (own s)
  then show ?case by (simp add: sup_idem valid_view)
next
  case (merge A a B b)
  have va: "valid a" and vb: "valid b"
    using merge.hyps merge.prems by (auto intro: merged_valid)
  have vx: "valid x" using merge.prems by blast
  note ok = valid_view [OF va] valid_view [OF vb] valid_view [OF vx]
  have vs: "view (join a b) = vsup (view a) (view b)" by (rule view_join [OF va vb])
  from merge.prems consider "x \<in> A" | "x \<in> B" by auto
  then show ?case
  proof cases
    case 1
    then have "vsup (view x) (view a) = view a" using merge.IH(1) merge.prems(1) by blast
    then show ?thesis unfolding vs
      by (rule includes_trans [OF ok(3,1) vok_sup [OF ok(1,2)]]) (rule sup_left_absorb [OF ok(1,2)])
  next
    case 2
    then have "vsup (view x) (view b) = view b" using merge.IH(2) merge.prems(1) by blast
    then show ?thesis unfolding vs
      by (rule includes_trans [OF ok(3,2) vok_sup [OF ok(1,2)]]) (rule sup_right_absorb [OF ok(1,2)])
  qed
qed

lemma merged_least:
  "merged join A s \<Longrightarrow> \<forall>x\<in>A. valid x \<Longrightarrow> vok u \<Longrightarrow> (\<And>x. x \<in> A \<Longrightarrow> vsup (view x) u = u) \<Longrightarrow>
   vsup (view s) u = u"
proof (induction rule: merged.induct)
  case (merge A a B b)
  have va: "valid a" and vb: "valid b"
    using merge.hyps merge.prems(1) by (auto intro: merged_valid)
  have "vsup (view a) u = u" by (rule merge.IH(1)) (use merge.prems in blast)+
  moreover have "vsup (view b) u = u" by (rule merge.IH(2)) (use merge.prems in blast)+
  ultimately show ?case
    unfolding view_join [OF va vb]
    by (rule includes_sup [OF valid_view [OF va] valid_view [OF vb] merge.prems(2)])
qed simp

text \<open>Strong eventual consistency.\<close>

lemma merged_converge:
  assumes s: "merged join A s" and t: "merged join A t" and v: "\<forall>x\<in>A. valid x"
  shows "view s = view t"
proof (rule includes_antisym)
  show os: "vok (view s)" and ot: "vok (view t)"
    using merged_valid [OF s v] merged_valid [OF t v] by (auto intro: valid_view)
  show "vsup (view s) (view t) = view t"
    by (rule merged_least [OF s v ot merged_includes [OF t v]])
  show "vsup (view t) (view s) = view s"
    by (rule merged_least [OF t v os merged_includes [OF s v]])
qed

end

section \<open>Semilattices the views are made of\<close>

text \<open>Maximum in a linear order, pointwise on functions; union of sets; products.\<close>

interpretation max_fun: join_semilattice "\<lambda>f g x. max (f x) (g x :: 'v::linorder)" "\<lambda>_. True"
  by unfold_locales (auto simp: fun_eq_iff ac_simps)

interpretation union_fun: join_semilattice "\<lambda>f g x. f x \<union> (g x :: 'v set)" "\<lambda>_. True"
  by unfold_locales auto

text \<open>Of two stamped entries the one with the larger stamp, the first on a tie.\<close>

definition stamp_max :: "('a \<Rightarrow> 'k::linorder) \<Rightarrow> 'a \<Rightarrow> 'a \<Rightarrow> 'a" where
  "stamp_max stamp a b = (if stamp b > stamp a then b else a)"

text \<open>Under a log that says what was written at each stamp, equal stamps are equal entries.\<close>

definition logged :: "('a \<Rightarrow> 'k) \<Rightarrow> ('k \<Rightarrow> 'a) \<Rightarrow> 'a \<Rightarrow> bool" where
  "logged stamp log a \<longleftrightarrow> a = log (stamp a)"

interpretation stamp: join_semilattice "stamp_max stamp" "logged stamp log"
  for stamp :: "'a \<Rightarrow> 'k::linorder" and log :: "'k \<Rightarrow> 'a"
proof unfold_locales
  show "stamp_max stamp a b = stamp_max stamp b a"
    if "logged stamp log a" "logged stamp log b" for a b
  proof (cases "stamp a" "stamp b" rule: linorder_cases)
    case equal
    with that have "a = b" by (metis logged_def)
    then show ?thesis by simp
  qed (auto simp: stamp_max_def dest: less_not_sym)
qed (auto simp: stamp_max_def logged_def)

end
