(* ===== verification/Counters.thy ===== *)
theory Counters
  imports Bytes Join_Spec
begin

text \<open>
  Actors, dots and the two counters of \<open>src/crdt/mod.rs\<close>: the grow-only counter
  \<open>GCounter\<close> (a count per actor, merged by maximum) and \<open>PNCounter\<close> (two of them), with
  their byte formats. Sums and increments wrap, as in the release build.
\<close>

section \<open>Actors and dots\<close>

definition ACTOR_ID_SIZE :: nat where "ACTOR_ID_SIZE = 16"

datatype ActorId = ActorId (actor_bytes: bytes)

definition actor_ok :: "ActorId \<Rightarrow> bool" where
  "actor_ok a \<longleftrightarrow> length (actor_bytes a) = ACTOR_ID_SIZE"

text \<open>The derived order compares the byte arrays lexicographically.\<close>

instantiation ActorId :: linorder
begin

definition less_eq_ActorId :: "ActorId \<Rightarrow> ActorId \<Rightarrow> bool" where
  "less_eq_ActorId a b \<longleftrightarrow> actor_bytes a \<le> actor_bytes b"

definition less_ActorId :: "ActorId \<Rightarrow> ActorId \<Rightarrow> bool" where
  "less_ActorId a b \<longleftrightarrow> actor_bytes a < actor_bytes b"

instance
  by standard (auto simp: less_eq_ActorId_def less_ActorId_def ActorId.expand)

end

text \<open>An actor followed by a \<open>u64\<close>, the entry all the formats share.\<close>

definition actor_u64_le :: "ActorId \<times> u64 \<Rightarrow> bytes" where
  "actor_u64_le e = actor_bytes (fst e) @ u64_le (snd e)"

definition read_actor_u64 :: "bytes \<Rightarrow> ((ActorId \<times> u64) \<times> bytes) option" where
  "read_actor_u64 bs =
     Option.bind (read_n ACTOR_ID_SIZE bs) (\<lambda>(a, rest).
     map_option (\<lambda>(c, rest'). ((ActorId a, c), rest')) (read_u64 rest))"

lemma read_actor_u64_append [codec_simps]:
  "actor_ok (fst e) \<Longrightarrow> read_actor_u64 (actor_u64_le e @ rest) = Some (e, rest)"
  by (simp add: read_actor_u64_def actor_u64_le_def actor_ok_def codec_simps)

interpretation entryc: codec actor_u64_le read_actor_u64 "\<lambda>e. actor_ok (fst e)"
  by unfold_locales (rule read_actor_u64_append)

section \<open>GCounter\<close>

record GCounter =
  gc_counts :: "(ActorId, u64) hmap"

definition gcounter_new :: GCounter where
  "gcounter_new = \<lparr>gc_counts = []\<rparr>"

definition gcounter_inc :: "ActorId \<Rightarrow> u64 \<Rightarrow> GCounter \<Rightarrow> GCounter" where
  "gcounter_inc actor delta c = c\<lparr>gc_counts := entry_upd 0 (\<lambda>v. v + delta) actor (gc_counts c)\<rparr>"

definition gcounter_value :: "GCounter \<Rightarrow> u64" where
  "gcounter_value c = sum_list (map snd (gc_counts c))"

definition gcounter_get :: "GCounter \<Rightarrow> ActorId \<Rightarrow> u64" where
  "gcounter_get c actor = get_or 0 (gc_counts c) actor"

definition gcounter_merge :: "GCounter \<Rightarrow> GCounter \<Rightarrow> GCounter" where
  "gcounter_merge self other =
     self\<lparr>gc_counts := fold (\<lambda>(actor, count) m. entry_upd 0 (\<lambda>v. max v count) actor m)
                          (gc_counts other) (gc_counts self)\<rparr>"

definition gcounter_to_bytes :: "GCounter \<Rightarrow> bytes" where
  "gcounter_to_bytes c =
     len_le (length (gc_counts c)) @ concat (map actor_u64_le (gc_counts c))"

definition gcounter_from_bytes :: "bytes \<Rightarrow> GCounter option" where
  "gcounter_from_bytes data =
     Option.bind (read_len data) (\<lambda>(count, rest).
     map_option (\<lambda>(counts, _). \<lparr>gc_counts = counts\<rparr>)
       (read_loop read_actor_u64 (\<lambda>(a, c) m. AList.update a c m) count rest []))"

subsection \<open>Invariant and view\<close>

definition gcounter_ok :: "GCounter \<Rightarrow> bool" where
  "gcounter_ok c \<longleftrightarrow> hm_ok (gc_counts c)"

text \<open>What a counter needs for its bytes to determine it: 16-byte actors and a 32-bit length.\<close>

definition gcounter_storable :: "GCounter \<Rightarrow> bool" where
  "gcounter_storable c \<longleftrightarrow> gcounter_ok c \<and> length (gc_counts c) < 2 ^ 32 \<and>
     (\<forall>e\<in>set (gc_counts c). actor_ok (fst e))"

lemma gcounter_ok_new [simp]: "gcounter_ok gcounter_new"
  by (simp add: gcounter_ok_def gcounter_new_def)

lemma gcounter_ok_inc [simp]: "gcounter_ok c \<Longrightarrow> gcounter_ok (gcounter_inc a d c)"
  by (simp add: gcounter_ok_def gcounter_inc_def)

lemma gcounter_ok_merge [simp]: "gcounter_ok a \<Longrightarrow> gcounter_ok (gcounter_merge a b)"
  by (simp add: gcounter_ok_def gcounter_merge_def)

lemma gcounter_get_inc [simp]:
  "gcounter_get (gcounter_inc a d c) x = (if x = a then gcounter_get c a + d else gcounter_get c x)"
  by (simp add: gcounter_get_def gcounter_inc_def)

lemma gcounter_get_merge [simp]:
  "gcounter_ok b \<Longrightarrow> gcounter_get (gcounter_merge a b) x = max (gcounter_get a x) (gcounter_get b x)"
  unfolding gcounter_ok_def gcounter_get_def gcounter_merge_def
  by (simp add: get_or_fold_entry [where f = "\<lambda>c v. max v c"] split: option.splits)
    (simp add: get_or_def)

interpretation gcounter: state_crdt "\<lambda>f g x. max (f x) (g x :: u64)" "\<lambda>_. True"
  gcounter_merge gcounter_get gcounter_ok
  by unfold_locales (auto simp: fun_eq_iff)

text \<open>The value is a function of the view.\<close>

lemma gcounter_value_sum:
  assumes "gcounter_ok c" "finite K" "fst ` set (gc_counts c) \<subseteq> K"
  shows "gcounter_value c = (\<Sum>a\<in>K. gcounter_get c a)"
proof -
  let ?m = "gc_counts c"
  have d: "distinct ?m" "hm_ok ?m" "inj_on fst (set ?m)"
    using assms(1) by (auto simp: gcounter_ok_def distinct_map)
  have "gcounter_value c = (\<Sum>e\<in>set ?m. snd e)"
    using d by (simp add: gcounter_value_def sum_list_distinct_conv_sum_set)
  also have "\<dots> = (\<Sum>e\<in>set ?m. gcounter_get c (fst e))"
    using d(2) by (intro sum.cong) (auto simp: gcounter_get_def intro!: get_or_map_of [symmetric])
  also have "\<dots> = (\<Sum>a\<in>fst ` set ?m. gcounter_get c a)"
    using d(3) by (simp add: sum.reindex)
  also have "\<dots> = (\<Sum>a\<in>K. gcounter_get c a)"
    using assms(2,3) by (intro sum.mono_neutral_left) (auto simp: gcounter_get_def get_or_notin)
  finally show ?thesis .
qed

lemma gcounter_value_view:
  assumes "gcounter_ok c" "gcounter_ok d" "gcounter_get c = gcounter_get d"
  shows "gcounter_value c = gcounter_value d"
  using gcounter_value_sum [OF assms(1), of "fst ` set (gc_counts c) \<union> fst ` set (gc_counts d)"]
    gcounter_value_sum [OF assms(2), of "fst ` set (gc_counts c) \<union> fst ` set (gc_counts d)"]
    assms(3) by simp

lemma gcounter_value_inc:
  assumes "gcounter_ok c"
  shows "gcounter_value (gcounter_inc a d c) = gcounter_value c + d"
proof -
  let ?K = "insert a (fst ` set (gc_counts c))"
  have f: "finite ?K" by simp
  have "gcounter_value (gcounter_inc a d c) = (\<Sum>x\<in>?K. gcounter_get (gcounter_inc a d c) x)"
    by (rule gcounter_value_sum [OF gcounter_ok_inc [OF assms] f]) (simp add: gcounter_inc_def)
  also have "\<dots> = gcounter_get c a + d + (\<Sum>x\<in>?K - {a}. gcounter_get c x)"
    using f by (subst sum.remove [of _ a]) (auto intro!: sum.cong)
  also have "\<dots> = (\<Sum>x\<in>?K. gcounter_get c x) + d"
    using f by (subst (2) sum.remove [of _ a]) (auto simp: add_ac)
  also have "\<dots> = gcounter_value c + d"
    by (simp only: gcounter_value_sum [OF assms f subset_insertI])
  finally show ?thesis .
qed

subsection \<open>Bytes\<close>

lemma gcounter_read:
  "gcounter_storable c \<Longrightarrow> gcounter_from_bytes (gcounter_to_bytes c @ rest) = Some c"
proof -
  assume c: "gcounter_storable c"
  then have "read_loop read_actor_u64 (\<lambda>(a, c) m. AList.update a c m) (length (gc_counts c))
      (concat (map actor_u64_le (gc_counts c)) @ rest) [] = Some (gc_counts c, rest)"
    by (subst entryc.read_loop_concat)
      (auto simp: gcounter_storable_def gcounter_ok_def fold_update_id)
  with c show ?thesis
    by (simp add: gcounter_from_bytes_def gcounter_to_bytes_def gcounter_storable_def codec_simps)
qed

lemma length_concat_entries: "\<forall>e\<in>set es. actor_ok (fst e) \<Longrightarrow>
    length (concat (map actor_u64_le es)) = 24 * length es"
  by (induction es) (auto simp: actor_u64_le_def actor_ok_def ACTOR_ID_SIZE_def)

lemma gcounter_bytes_length:
  "gcounter_storable c \<Longrightarrow> length (gcounter_to_bytes c) = 4 + 24 * length (gc_counts c)"
  by (simp add: gcounter_to_bytes_def gcounter_storable_def length_concat_entries)

section \<open>PNCounter\<close>

record PNCounter =
  pn_p :: GCounter
  pn_n :: GCounter

definition pncounter_new :: PNCounter where
  "pncounter_new = \<lparr>pn_p = gcounter_new, pn_n = gcounter_new\<rparr>"

definition pncounter_inc :: "ActorId \<Rightarrow> u64 \<Rightarrow> PNCounter \<Rightarrow> PNCounter" where
  "pncounter_inc actor delta c = c\<lparr>pn_p := gcounter_inc actor delta (pn_p c)\<rparr>"

definition pncounter_dec :: "ActorId \<Rightarrow> u64 \<Rightarrow> PNCounter \<Rightarrow> PNCounter" where
  "pncounter_dec actor delta c = c\<lparr>pn_n := gcounter_inc actor delta (pn_n c)\<rparr>"

definition pncounter_value :: "PNCounter \<Rightarrow> i64" where
  "pncounter_value c = gcounter_value (pn_p c) - gcounter_value (pn_n c)"

definition pncounter_merge :: "PNCounter \<Rightarrow> PNCounter \<Rightarrow> PNCounter" where
  "pncounter_merge self other =
     \<lparr>pn_p = gcounter_merge (pn_p self) (pn_p other), pn_n = gcounter_merge (pn_n self) (pn_n other)\<rparr>"

definition pncounter_to_bytes :: "PNCounter \<Rightarrow> bytes" where
  "pncounter_to_bytes c =
     (let p_bytes = gcounter_to_bytes (pn_p c); n_bytes = gcounter_to_bytes (pn_n c)
      in len_le (length p_bytes) @ p_bytes @ len_le (length n_bytes) @ n_bytes)"

text \<open>\<open>Err ()\<close> is the source's \<open>None\<close>; the two slices by an unchecked length abort.\<close>

definition pncounter_from_bytes :: "bytes \<Rightarrow> (unit, PNCounter) res" where
  "pncounter_from_bytes data =
     (if length data < 8 then Err ()
      else
        let p_len = unat (le_u32 (take 4 data))
        in if 4 + p_len > length data then Panic
        else
          let p_bytes = take p_len (drop 4 data); n_offset = 4 + p_len
          in if n_offset + 4 > length data then Err ()
          else
            let n_len = unat (le_u32 (take 4 (drop n_offset data)))
            in if n_offset + 4 + n_len > length data then Panic
            else
              let n_bytes = take n_len (drop (n_offset + 4) data)
              in bind_res (ok_or (gcounter_from_bytes p_bytes) ()) (\<lambda>p.
                 bind_res (ok_or (gcounter_from_bytes n_bytes) ()) (\<lambda>n.
                   Ok \<lparr>pn_p = p, pn_n = n\<rparr>)))"

definition pncounter_ok :: "PNCounter \<Rightarrow> bool" where
  "pncounter_ok c \<longleftrightarrow> gcounter_ok (pn_p c) \<and> gcounter_ok (pn_n c)"

definition pncounter_storable :: "PNCounter \<Rightarrow> bool" where
  "pncounter_storable c \<longleftrightarrow> gcounter_storable (pn_p c) \<and> gcounter_storable (pn_n c) \<and>
     length (gcounter_to_bytes (pn_p c)) < 2 ^ 32 \<and> length (gcounter_to_bytes (pn_n c)) < 2 ^ 32"

text \<open>The view: positive and negative counts of every actor.\<close>

definition pncounter_view :: "PNCounter \<Rightarrow> ActorId \<times> bool \<Rightarrow> u64" where
  "pncounter_view c = (\<lambda>(a, pos). if pos then gcounter_get (pn_p c) a else gcounter_get (pn_n c) a)"

interpretation pncounter: state_crdt "\<lambda>f g x. max (f x) (g x :: u64)" "\<lambda>_. True"
  pncounter_merge pncounter_view pncounter_ok
  by unfold_locales (auto simp: fun_eq_iff pncounter_ok_def pncounter_merge_def pncounter_view_def)

lemma pncounter_value_view:
  assumes "pncounter_ok c" "pncounter_ok d" "pncounter_view c = pncounter_view d"
  shows "pncounter_value c = pncounter_value d"
proof -
  have "gcounter_get (pn_p c) = gcounter_get (pn_p d)" "gcounter_get (pn_n c) = gcounter_get (pn_n d)"
    using fun_cong [OF assms(3), of "(_, True)"] fun_cong [OF assms(3), of "(_, False)"]
    by (simp_all add: pncounter_view_def fun_eq_iff)
  with assms(1,2) show ?thesis
    by (simp add: pncounter_value_def pncounter_ok_def
        gcounter_value_view [of "pn_p c" "pn_p d"] gcounter_value_view [of "pn_n c" "pn_n d"])
qed

lemma pncounter_read:
  assumes "pncounter_storable c"
  shows "pncounter_from_bytes (pncounter_to_bytes c @ rest) = Ok c"
proof -
  let ?p = "gcounter_to_bytes (pn_p c)" and ?n = "gcounter_to_bytes (pn_n c)"
  let ?d = "pncounter_to_bytes c @ rest"
  have d: "?d = len_le (length ?p) @ ?p @ len_le (length ?n) @ ?n @ rest"
    by (simp add: pncounter_to_bytes_def Let_def)
  have st: "gcounter_storable (pn_p c)" "gcounter_storable (pn_n c)"
    "length ?p < 2 ^ 32" "length ?n < 2 ^ 32"
    using assms by (simp_all add: pncounter_storable_def)
  have pl: "unat (le_u32 (take 4 ?d)) = length ?p"
    using st(3) by (simp add: d len_le_def unat_of_nat_u32)
  have nl: "unat (le_u32 (take 4 (drop (4 + length ?p) ?d))) = length ?n"
    using st(4) by (simp add: d len_le_def unat_of_nat_u32)
  have pb: "take (length ?p) (drop 4 ?d) = ?p" by (simp add: d)
  have nb: "take (length ?n) (drop (4 + length ?p + 4) ?d) = ?n" by (simp add: d)
  have len: "length ?d = 8 + length ?p + length ?n + length rest" by (simp add: d)
  show ?thesis
    unfolding pncounter_from_bytes_def Let_def pl nl pb nb len
    using gcounter_read [OF st(1), of "[]"] gcounter_read [OF st(2), of "[]"] by simp
qed

section \<open>Properties\<close>

text \<open>
  An increment adds its amount to the actor's count and to the total (modulo
  \<open>2 ^ 64\<close>), leaves every other actor's count alone, and keeps the keys distinct.
\<close>

theorem gcounter_increment:
  assumes "gcounter_ok c"
  shows "gcounter_value (gcounter_inc a delta c) = gcounter_value c + delta \<and>
         gcounter_get (gcounter_inc a delta c) a = gcounter_get c a + delta \<and>
         (\<forall>b. b \<noteq> a \<longrightarrow> gcounter_get (gcounter_inc a delta c) b = gcounter_get c b) \<and>
         gcounter_ok (gcounter_inc a delta c)"
  using assms by (simp add: gcounter_value_inc)

theorem gcounter_increment_witness:
  "gcounter_value (gcounter_inc (ActorId [1]) 5 (gcounter_inc (ActorId [2]) 7 gcounter_new)) =
     gcounter_value (gcounter_inc (ActorId [2]) 7 gcounter_new) + 5"
  using gcounter_increment [of "gcounter_inc (ActorId [2]) 7 gcounter_new" "ActorId [1]" 5]
  by simp

text \<open>
  Replicas of a positive-negative counter that have merged the same states, in any
  order, grouping and repetition, agree on the count of every actor and on the value.
\<close>

theorem pncounter_converges:
  assumes "merged pncounter_merge A s" "merged pncounter_merge A t" "\<forall>x\<in>A. pncounter_ok x"
  shows "pncounter_view s = pncounter_view t \<and> pncounter_value s = pncounter_value t"
proof -
  have "pncounter_view s = pncounter_view t" by (rule pncounter.merged_converge [OF assms])
  then show ?thesis
    using pncounter_value_view pncounter.merged_valid assms by blast
qed

theorem pncounter_converges_witness:
  "let a = pncounter_inc (ActorId [1]) 5 pncounter_new; b = pncounter_dec (ActorId [2]) 3 pncounter_new
   in pncounter_value (pncounter_merge a b) = pncounter_value (pncounter_merge (pncounter_merge b a) b)"
proof -
  let ?a = "pncounter_inc (ActorId [1]) 5 pncounter_new"
  let ?b = "pncounter_dec (ActorId [2]) 3 pncounter_new"
  have 1: "merged pncounter_merge ({?a} \<union> {?b}) (pncounter_merge ?a ?b)"
    by (intro merged.intros)
  have 2: "merged pncounter_merge ({?b} \<union> {?a} \<union> {?b}) (pncounter_merge (pncounter_merge ?b ?a) ?b)"
    by (intro merged.intros)
  have e: "{?b} \<union> {?a} \<union> {?b} = {?a} \<union> {?b}" by auto
  have 3: "\<forall>x\<in>{?a} \<union> {?b}. pncounter_ok x"
    by (simp add: pncounter_ok_def pncounter_inc_def pncounter_dec_def pncounter_new_def)
  show ?thesis using pncounter_converges [OF 1 2 [unfolded e] 3] by (simp add: Let_def)
qed

text \<open>
  A positive-negative counter written to bytes reads back as itself, whatever follows
  it in the buffer.
\<close>

theorem pncounter_roundtrip:
  assumes "pncounter_storable c"
  shows "pncounter_from_bytes (pncounter_to_bytes c @ rest) = Ok c"
  using assms by (rule pncounter_read)

theorem pncounter_roundtrip_witness:
  "let c = pncounter_inc (ActorId (replicate 16 9)) 5 pncounter_new
   in pncounter_from_bytes (pncounter_to_bytes c @ [1, 2]) = Ok c"
  unfolding Let_def
  by (rule pncounter_roundtrip)
    (simp add: pncounter_storable_def gcounter_storable_def gcounter_ok_def pncounter_inc_def
      pncounter_new_def gcounter_new_def gcounter_inc_def entry_upd_def actor_ok_def
      ACTOR_ID_SIZE_def gcounter_to_bytes_def actor_u64_le_def)

text \<open>
  Decoding a counter slices its input by a length it has not checked: a payload of at
  least eight bytes whose first length field exceeds what follows aborts the process, where
  the other decoders report an error.
\<close>

theorem pncounter_decode_aborts:
  assumes "8 \<le> length data" "length data < 4 + unat (le_u32 (take 4 data))"
  shows "pncounter_from_bytes data = Panic"
  using assms by (simp add: pncounter_from_bytes_def Let_def)

theorem pncounter_decode_aborts_witness:
  "pncounter_from_bytes [255, 0, 0, 0, 0, 0, 0, 0] = Panic"
  by (rule pncounter_decode_aborts) (simp_all add: le_u32_def)

end
