(* ===== verification/Registers.thy ===== *)
theory Registers
  imports Counters Hlc "HOL-Library.Product_Lexorder"
begin

text \<open>
  The last-writer-wins types of \<open>src/crdt/mod.rs\<close>: \<open>LWWReg\<close>, a value stamped with a
  timestamp and an actor, and \<open>FlagSet\<close>, a stamped bit mask with its byte format, and the
  error type the decoders return (\<open>src/crdt/wal.rs\<close>).
\<close>

datatype CrdtError =
    Io string
  | InvalidMagic
  | CrcMismatch
  | PayloadTooLarge
  | InvalidKeyKind u8
  | InvalidOperation u8
  | CorruptRecord
  | EndOfFile
  | AlignmentError
  | InvalidPayload

definition actor_zero :: ActorId where
  "actor_zero = ActorId (replicate ACTOR_ID_SIZE 0)"

lemma actor_ok_zero [simp]: "actor_ok actor_zero"
  by (simp add: actor_ok_def actor_zero_def)

section \<open>LWWReg\<close>

datatype 'v LWWReg = LWWReg (lww_hlc: HLC) (lww_actor: ActorId) (lww_value: 'v)

definition lww_default :: "'v \<Rightarrow> 'v LWWReg" where
  "lww_default d = LWWReg (hlc_from_raw 0) actor_zero d"

definition lww_update :: "HLC \<Rightarrow> ActorId \<Rightarrow> 'v \<Rightarrow> 'v LWWReg \<Rightarrow> 'v LWWReg" where
  "lww_update hlc actor v self =
     (if hlc \<ge> lww_hlc self \<or> (hlc = lww_hlc self \<and> actor > lww_actor self)
      then LWWReg hlc actor v else self)"

definition lww_merge :: "'v LWWReg \<Rightarrow> 'v LWWReg \<Rightarrow> 'v LWWReg" where
  "lww_merge self other =
     (if lww_hlc other > lww_hlc self \<or>
         (lww_hlc other = lww_hlc self \<and> lww_actor other > lww_actor self)
      then LWWReg (lww_hlc other) (lww_actor other) (lww_value other) else self)"

text \<open>The stamp orders by timestamp, then by actor; merging keeps the larger stamp.\<close>

definition lww_stamp :: "'v LWWReg \<Rightarrow> HLC \<times> ActorId" where
  "lww_stamp r = (lww_hlc r, lww_actor r)"

lemma lww_merge_stamp: "lww_merge = stamp_max lww_stamp"
  by (auto simp: fun_eq_iff lww_merge_def stamp_max_def lww_stamp_def less_prod_def LWWReg.expand)

interpretation lww: state_crdt "stamp_max lww_stamp" "logged lww_stamp log"
  lww_merge id "logged lww_stamp log"
  for log :: "HLC \<times> ActorId \<Rightarrow> 'v LWWReg"
proof unfold_locales
  show "logged lww_stamp log a \<Longrightarrow> logged lww_stamp log b \<Longrightarrow> logged lww_stamp log (lww_merge a b)"
    for a b :: "'v LWWReg"
    by (simp add: lww_merge_stamp stamp.vok_sup)
qed (simp_all add: lww_merge_stamp)

lemma merged_stamp_max:
  "merged (stamp_max st) A s \<Longrightarrow> s \<in> A \<and> (\<forall>x\<in>A. st x \<le> st s)"
proof (induction rule: merged.induct)
  case (merge A a B b)
  then show ?case
    by (auto simp: stamp_max_def not_less dest: order_trans less_imp_le)
qed simp

lemma merged_stamp_unique:
  assumes "merged (stamp_max st) A s" "merged (stamp_max st) A t"
    and "\<forall>x\<in>A. \<forall>y\<in>A. st x = st y \<longrightarrow> x = y"
  shows "s = t"
  using merged_stamp_max [OF assms(1)] merged_stamp_max [OF assms(2)] assms(3)
  by (meson order_antisym)

section \<open>FlagSet\<close>

record FlagSet =
  fs_flags :: u64
  fs_timestamp :: HLC
  fs_actor :: ActorId

definition flagset_new :: FlagSet where
  "flagset_new = \<lparr>fs_flags = 0, fs_timestamp = hlc_from_raw 0, fs_actor = actor_zero\<rparr>"

definition flagset_with_flags :: "u64 \<Rightarrow> HLC \<Rightarrow> ActorId \<Rightarrow> FlagSet" where
  "flagset_with_flags flags ts actor = \<lparr>fs_flags = flags, fs_timestamp = ts, fs_actor = actor\<rparr>"

definition flagset_set_bits :: "u64 \<Rightarrow> FlagSet \<Rightarrow> FlagSet" where
  "flagset_set_bits m f = f\<lparr>fs_flags := fs_flags f OR m\<rparr>"

definition flagset_clear_bits :: "u64 \<Rightarrow> FlagSet \<Rightarrow> FlagSet" where
  "flagset_clear_bits m f = f\<lparr>fs_flags := fs_flags f AND NOT m\<rparr>"

definition flagset_set :: "u64 \<Rightarrow> HLC \<Rightarrow> ActorId \<Rightarrow> FlagSet \<Rightarrow> FlagSet" where
  "flagset_set flags ts actor f =
     (if ts > fs_timestamp f \<or> (ts = fs_timestamp f \<and> actor > fs_actor f)
      then \<lparr>fs_flags = flags, fs_timestamp = ts, fs_actor = actor\<rparr> else f)"

definition flagset_is_set :: "FlagSet \<Rightarrow> u8 \<Rightarrow> bool" where
  "flagset_is_set f b = (if b \<ge> 64 then False else fs_flags f AND push_bit (unat b) 1 \<noteq> 0)"

definition flagset_merge :: "FlagSet \<Rightarrow> FlagSet \<Rightarrow> FlagSet" where
  "flagset_merge self other =
     (if fs_timestamp other > fs_timestamp self \<or>
         (fs_timestamp other = fs_timestamp self \<and> fs_actor other > fs_actor self)
      then \<lparr>fs_flags = fs_flags other, fs_timestamp = fs_timestamp other, fs_actor = fs_actor other\<rparr>
      else self)"

definition flagset_to_bytes :: "FlagSet \<Rightarrow> bytes" where
  "flagset_to_bytes f =
     u64_le (fs_flags f) @ u64_le (hlc_to_raw (fs_timestamp f)) @
     u32_le (ucast (hlc_logical (fs_timestamp f))) @ actor_bytes (fs_actor f)"

definition flagset_from_bytes :: "bytes \<Rightarrow> (CrdtError, FlagSet) res" where
  "flagset_from_bytes data =
     (if length data < 8 + 8 + 4 + 16 then Err InvalidPayload
      else
        let flags = le_u64 (take 8 data);
            phys = le_u64 (take 8 (drop 8 data));
            logical = le_u32 (take 4 (drop 16 data));
            actor = ActorId (take 16 (drop 20 data))
        in Ok \<lparr>fs_flags = flags, fs_timestamp = hlc_from_parts phys (ucast logical), fs_actor = actor\<rparr>)"

definition flagset_stamp :: "FlagSet \<Rightarrow> HLC \<times> ActorId" where
  "flagset_stamp f = (fs_timestamp f, fs_actor f)"

lemma flagset_merge_stamp: "flagset_merge = stamp_max flagset_stamp"
  by (auto simp: fun_eq_iff flagset_merge_def stamp_max_def flagset_stamp_def less_prod_def)

interpretation flagset: state_crdt "stamp_max flagset_stamp" "logged flagset_stamp log"
  flagset_merge id "logged flagset_stamp log"
  for log :: "HLC \<times> ActorId \<Rightarrow> FlagSet"
proof unfold_locales
  show "logged flagset_stamp log a \<Longrightarrow> logged flagset_stamp log b \<Longrightarrow>
      logged flagset_stamp log (flagset_merge a b)" for a b
    by (simp add: flagset_merge_stamp stamp.vok_sup)
qed (simp_all add: flagset_merge_stamp)

lemma flagset_is_set_bit: "flagset_is_set f b \<longleftrightarrow> bit (fs_flags f) (unat b)"
proof (cases "b \<ge> 64")
  case True
  then have "64 \<le> unat b" by (simp add: word_le_nat_alt)
  then show ?thesis using True by (auto simp: flagset_is_set_def dest: bit_imp_le_length)
next
  case False
  then show ?thesis
    by (simp add: flagset_is_set_def bit_iff_and_push_bit_not_eq_0)
qed

text \<open>What reading back does to a timestamp written as its raw word and its logical counter.\<close>

definition reread_hlc :: "HLC \<Rightarrow> HLC" where
  "reread_hlc h = hlc_from_parts (hlc_to_raw h) (hlc_logical h)"

lemma ucast_u16_u32 [simp]: "ucast (ucast l :: u32) = (l :: u16)"
  by (rule bit_eqI) (auto simp: bit_simps)

lemma flagset_read:
  "actor_ok (fs_actor f) \<Longrightarrow>
   flagset_from_bytes (flagset_to_bytes f @ rest) = Ok (f\<lparr>fs_timestamp := reread_hlc (fs_timestamp f)\<rparr>)"
  by (simp add: flagset_from_bytes_def flagset_to_bytes_def actor_ok_def ACTOR_ID_SIZE_def
      reread_hlc_def)

lemma reread_fixed_nat:
  fixes n :: nat
  shows "n mod 2 ^ 48 * 65536 + n mod 65536 = n \<longleftrightarrow> n = n mod 65536 * 0x0001000100010001"
    (is "?L \<longleftrightarrow> ?R" is "_ = n \<longleftrightarrow> n = ?l * _")
proof -
  have l: "?l < 65536" by simp
  have n: "n = n div 65536 * 65536 + ?l" by simp
  have "?L \<longleftrightarrow> n mod 2 ^ 48 * 65536 + ?l = n div 65536 * 65536 + ?l" by (simp only: n [symmetric])
  also have "\<dots> \<longleftrightarrow> n mod 2 ^ 48 = n div 65536" by (simp only: add_right_cancel mult_cancel2) simp
  also have "\<dots> \<longleftrightarrow> ?R"
  proof
    assume e: "n mod 2 ^ 48 = n div 65536"
    let ?q = "n div 65536"
    have q: "?q = ?q mod 2 ^ 32 * 65536 + ?l"
    proof -
      have "n mod 2 ^ 48 = (n div 65536) mod 2 ^ 32 * 65536 + ?l"
        using mod_mult2_eq [of n 65536 "2 ^ 32"] by simp
      with e show ?thesis by simp
    qed
    let ?r = "?q mod 2 ^ 32"
    have r: "?r = ?r mod 65536 * 65536 + ?l"
    proof -
      have "?r = (?r * 65536 + ?l) mod 2 ^ 32" by (subst (1) q) (rule refl)
      also have "\<dots> = (?r * 65536 + ?l) div 65536 mod 65536 * 65536 + (?r * 65536 + ?l) mod 65536"
        using mod_mult2_eq [of "?r * 65536 + ?l" 65536 65536] by simp
      finally show ?thesis using l by simp
    qed
    have "?r mod 65536 = ?l" by (subst (1) r) (use l in simp)
    with r have "?r = ?l * 65536 + ?l" by simp
    with q have "?q = (?l * 65536 + ?l) * 65536 + ?l" by simp
    with n have "n = ((?l * 65536 + ?l) * 65536 + ?l) * 65536 + ?l" by simp
    then show ?R by simp
  next
    assume ?R
    then have e: "n = ((?l * 65536 + ?l) * 65536 + ?l) * 65536 + ?l" by simp
    define l m where "l = ?l" and "m = (?l * 65536 + ?l) * 65536 + ?l"
    have b: "l < 65536" using l by (simp add: l_def)
    have "m < 2 ^ 48" using b by (simp add: m_def l_def)
    moreover have "n = m + l * 2 ^ 48" using e by (simp add: l_def m_def)
    ultimately have "n mod 2 ^ 48 = m" by (simp only: mod_mult_self1 mod_less)
    moreover have "n = l + m * 65536" using e by (simp add: l_def m_def)
    then have "n div 65536 = m" using b by (simp only: div_mult_self1)
    ultimately show "n mod 2 ^ 48 = n div 65536" by simp
  qed
  finally show ?thesis .
qed

lemma reread_fixed:
  "reread_hlc h = h \<longleftrightarrow> hlc_raw h = ucast (hlc_logical h) * 0x0001000100010001"
proof -
  let ?n = "unat (hlc_raw h)"
  have "reread_hlc h = h \<longleftrightarrow> unat (hlc_raw (reread_hlc h)) = ?n"
    by (metis HLC.expand word_unat_eq_iff)
  also have "\<dots> \<longleftrightarrow> ?n mod 2 ^ 48 * 65536 + ?n mod 65536 = ?n"
    by (simp only: reread_hlc_def from_parts_raw hlc_to_raw_def unat_logical)
  also have "\<dots> \<longleftrightarrow> ?n = ?n mod 65536 * 0x0001000100010001" by (rule reread_fixed_nat)
  also have "\<dots> \<longleftrightarrow> hlc_raw h = ucast (hlc_logical h) * 0x0001000100010001"
  proof -
    have u: "unat (ucast (hlc_logical h) :: u64) = ?n mod 65536"
      using unat_bounds(2) [of "hlc_logical h"]
      by (simp add: unsigned_ucast_eq take_bit_eq_mod unat_logical)
    have "?n mod 65536 * 0x0001000100010001 \<le> 65535 * 0x0001000100010001"
      by (rule mult_le_mono1) simp
    then have "unat (ucast (hlc_logical h) * 0x0001000100010001 :: u64) = ?n mod 65536 * 0x0001000100010001"
      by (simp add: unat_word_ariths u)
    then show ?thesis by (simp only: word_unat_eq_iff)
  qed
  finally show ?thesis .
qed

section \<open>Properties\<close>

text \<open>
  The last writer wins. If no two writes carry the same timestamp and actor, every
  replica that has merged the same set of registers holds the one with the largest stamp.
\<close>

theorem lww_last_writer_wins:
  assumes "merged lww_merge A s" "merged lww_merge A t"
    and "\<forall>x\<in>A. \<forall>y\<in>A. lww_stamp x = lww_stamp y \<longrightarrow> x = y"
  shows "s = t \<and> s \<in> A \<and> (\<forall>x\<in>A. lww_stamp x \<le> lww_stamp s)"
  using merged_stamp_unique [OF assms(1,2) [unfolded lww_merge_stamp] assms(3)]
    merged_stamp_max [OF assms(1) [unfolded lww_merge_stamp]] by simp

theorem lww_last_writer_wins_witness:
  "let a = LWWReg (HLC 5) (ActorId [1]) ''x''; b = LWWReg (HLC 5) (ActorId [2]) ''y''
   in lww_merge a b = lww_merge (lww_merge b a) b"
proof -
  let ?a = "LWWReg (HLC 5) (ActorId [1]) ''x''" and ?b = "LWWReg (HLC 5) (ActorId [2]) ''y''"
  have 1: "merged lww_merge ({?a} \<union> {?b}) (lww_merge ?a ?b)" by (intro merged.intros)
  have 2: "merged lww_merge ({?b} \<union> {?a} \<union> {?b}) (lww_merge (lww_merge ?b ?a) ?b)"
    by (intro merged.intros)
  have e: "{?b} \<union> {?a} \<union> {?b} = {?a} \<union> {?b}" by auto
  have 3: "\<forall>x\<in>{?a} \<union> {?b}. \<forall>y\<in>{?a} \<union> {?b}. lww_stamp x = lww_stamp y \<longrightarrow> x = y"
    by (simp add: lww_stamp_def)
  show ?thesis using lww_last_writer_wins [OF 1 2 [unfolded e] 3] by (simp add: Let_def)
qed

text \<open>
  A local update ignores its actor: it takes effect exactly when its timestamp is not
  older, so of two updates at one timestamp the one applied last stays, even when a merge of
  the same two writes would keep the other.
\<close>

theorem lww_update_ignores_actor:
  "lww_update hlc actor v r = (if lww_hlc r \<le> hlc then LWWReg hlc actor v else r) \<and>
   (a < b \<longrightarrow> lww_update hlc a v (LWWReg hlc b w) = LWWReg hlc a v \<and>
      lww_merge (LWWReg hlc b w) (LWWReg hlc a v) = LWWReg hlc b w)"
  by (auto simp: lww_update_def lww_merge_def)

theorem lww_update_ignores_actor_witness:
  "lww_update (HLC 5) (ActorId [1]) (7 :: nat) (LWWReg (HLC 5) (ActorId [2]) 8) = LWWReg (HLC 5) (ActorId [1]) 7 \<and>
   lww_merge (LWWReg (HLC 5) (ActorId [2]) 8) (LWWReg (HLC 5) (ActorId [1]) (7 :: nat)) =
     LWWReg (HLC 5) (ActorId [2]) 8"
proof -
  have "ActorId [1] < ActorId [2]" by (simp add: less_ActorId_def)
  with lww_update_ignores_actor [of "HLC 5" "ActorId [1]" "7 :: nat" undefined "ActorId [1]" "ActorId [2]" 8]
  show ?thesis by blast
qed

text \<open>
  Setting and clearing a mask changes exactly the bits of the mask, and a bit index of 64
  or more is never set.
\<close>

theorem flagset_bits:
  "flagset_is_set (flagset_set_bits m f) b = (flagset_is_set f b \<or> bit m (unat b)) \<and>
   flagset_is_set (flagset_clear_bits m f) b = (flagset_is_set f b \<and> \<not> bit m (unat b)) \<and>
   (64 \<le> b \<longrightarrow> \<not> flagset_is_set f b)"
  by (auto simp: flagset_is_set_bit flagset_set_bits_def flagset_clear_bits_def bit_simps
      word_le_nat_alt dest: bit_imp_le_length)

theorem flagset_bits_witness:
  "flagset_is_set (flagset_set_bits 4 flagset_new) 2 \<and> \<not> flagset_is_set flagset_new 70"
  using flagset_bits [of 4 flagset_new 2] flagset_bits [of 4 flagset_new 70] by simp

text \<open>
  A flag set is written with its raw timestamp in the field that is read back as the
  physical time, so reading gives back the flags and the actor but a different timestamp,
  unless the four 16-bit groups of the raw timestamp are all equal.
\<close>

theorem flagset_roundtrip_distorts_time:
  assumes "actor_ok (fs_actor f)"
  shows "flagset_from_bytes (flagset_to_bytes f @ rest) =
           Ok (f\<lparr>fs_timestamp := reread_hlc (fs_timestamp f)\<rparr>) \<and>
         (reread_hlc (fs_timestamp f) = fs_timestamp f \<longleftrightarrow>
           hlc_raw (fs_timestamp f) = ucast (hlc_logical (fs_timestamp f)) * 0x0001000100010001)"
  using flagset_read [OF assms] reread_fixed by blast

theorem flagset_roundtrip_distorts_time_witness:
  "flagset_from_bytes (flagset_to_bytes (flagset_with_flags 9 (HLC 0x10000) actor_zero) @ []) \<noteq>
     Ok (flagset_with_flags 9 (HLC 0x10000) actor_zero)"
proof -
  let ?f = "flagset_with_flags 9 (HLC 0x10000) actor_zero"
  have "actor_ok (fs_actor ?f)" by (simp add: flagset_with_flags_def)
  from flagset_roundtrip_distorts_time [OF this, of "[]"]
  have "flagset_from_bytes (flagset_to_bytes ?f @ []) =
      Ok (?f\<lparr>fs_timestamp := reread_hlc (fs_timestamp ?f)\<rparr>)"
    and n: "reread_hlc (fs_timestamp ?f) \<noteq> fs_timestamp ?f"
    by (simp_all add: flagset_with_flags_def hlc_logical_def)
  moreover have "?f\<lparr>fs_timestamp := x\<rparr> = ?f \<longleftrightarrow> x = fs_timestamp ?f" for x
    by (simp add: flagset_with_flags_def)
  ultimately show ?thesis by simp
qed

end
