(* ===== verification/Or_Set.thy ===== *)
theory Or_Set
  imports Registers
begin

text \<open>
  The observed-remove set of \<open>src/crdt/mod.rs\<close>: every addition tags the element with a
  fresh dot (an actor and its counter), a removal records the dots it has seen as tombstones,
  and an element is present while it has a dot without tombstone. The byte format is shared by
  the sets of byte strings here and the sets of symbols of \<open>src/crdt/snapshot.rs\<close>, so the
  encoder and the decoder take the codec of the elements as an argument.
\<close>

section \<open>The code\<close>

text \<open>A \<open>Dot\<close> is the struct of an \<open>actor\<close> and a \<open>counter\<close>.\<close>

type_synonym Dot = "ActorId \<times> u64"

record 'a ORSet =
  os_elements :: "('a, Dot list) hmap"
  os_tombstones :: "('a, Dot list) hmap"
  os_counters :: "(ActorId, u64) hmap"

definition orset_new :: "'a ORSet" where
  "orset_new = \<lparr>os_elements = [], os_tombstones = [], os_counters = []\<rparr>"

definition orset_new_dot :: "ActorId \<Rightarrow> 'a ORSet \<Rightarrow> 'a ORSet \<times> Dot" where
  "orset_new_dot actor s =
     (s\<lparr>os_counters := entry_upd 0 (\<lambda>c. c + 1) actor (os_counters s)\<rparr>,
      (actor, get_or 0 (os_counters s) actor))"

definition orset_add :: "ActorId \<Rightarrow> 'a \<Rightarrow> 'a ORSet \<Rightarrow> 'a ORSet" where
  "orset_add actor e s =
     (let (s', dot) = orset_new_dot actor s
      in s'\<lparr>os_elements := entry_upd [] (hs_insert dot) e (os_elements s')\<rparr>)"

definition orset_remove :: "ActorId \<Rightarrow> 'a \<Rightarrow> 'a ORSet \<Rightarrow> 'a ORSet" where
  "orset_remove actor e s =
     (case map_of (os_elements s) e of
        None \<Rightarrow> s
      | Some dots \<Rightarrow>
          fold (\<lambda>dot s. s\<lparr>os_tombstones := entry_upd [] (hs_insert dot) e (os_tombstones s)\<rparr>) dots s)"

definition orset_live :: "'a ORSet \<Rightarrow> 'a \<Rightarrow> Dot list \<Rightarrow> bool" where
  "orset_live s e dots \<longleftrightarrow>
     list_ex (\<lambda>dot. case map_of (os_tombstones s) e of
                      Some t \<Rightarrow> dot \<notin> set t | None \<Rightarrow> True) dots"

definition orset_contains :: "'a ORSet \<Rightarrow> 'a \<Rightarrow> bool" where
  "orset_contains s e =
     (case map_of (os_elements s) e of Some dots \<Rightarrow> orset_live s e dots | None \<Rightarrow> False)"

definition orset_iter :: "'a ORSet \<Rightarrow> 'a list" where
  "orset_iter s = map fst (filter (\<lambda>(e, dots). orset_live s e dots) (os_elements s))"

definition orset_is_empty :: "'a ORSet \<Rightarrow> bool" where
  "orset_is_empty s \<longleftrightarrow> orset_iter s = []"

definition orset_len :: "'a ORSet \<Rightarrow> nat" where
  "orset_len s = length (orset_iter s)"

definition orset_merge :: "'a ORSet \<Rightarrow> 'a ORSet \<Rightarrow> 'a ORSet" where
  "orset_merge self other =
     \<lparr>os_elements = fold (\<lambda>(e, dots) m. entry_upd [] (hs_extend dots) e m)
                      (os_elements other) (os_elements self),
      os_tombstones = fold (\<lambda>(e, dots) m. entry_upd [] (hs_extend dots) e m)
                      (os_tombstones other) (os_tombstones self),
      os_counters = fold (\<lambda>(actor, counter) m. entry_upd 0 (\<lambda>v. max v counter) actor m)
                      (os_counters other) (os_counters self)\<rparr>"

definition orset_clear :: "'a ORSet \<Rightarrow> 'a ORSet" where
  "orset_clear s = s\<lparr>os_elements := [], os_tombstones := []\<rparr>"

definition orset_add_dot :: "ActorId \<Rightarrow> 'a \<Rightarrow> u64 \<Rightarrow> 'a ORSet \<Rightarrow> 'a ORSet" where
  "orset_add_dot actor e counter s =
     s\<lparr>os_elements := entry_upd [] (hs_insert (actor, counter)) e (os_elements s),
       os_counters := entry_upd 0 (\<lambda>v. max v (counter + 1)) actor (os_counters s)\<rparr>"

definition orset_remove_dot :: "ActorId \<Rightarrow> 'a \<Rightarrow> u64 \<Rightarrow> 'a ORSet \<Rightarrow> 'a ORSet" where
  "orset_remove_dot actor e counter s =
     s\<lparr>os_tombstones := entry_upd [] (hs_insert (actor, counter)) e (os_tombstones s),
       os_counters := entry_upd 0 (\<lambda>v. max v (counter + 1)) actor (os_counters s)\<rparr>"

definition dots_le :: "Dot list \<Rightarrow> bytes" where
  "dots_le dots = len_le (length dots) @ concat (map actor_u64_le dots)"

definition orset_entry_le :: "('a \<Rightarrow> bytes) \<Rightarrow> 'a ORSet \<Rightarrow> 'a \<Rightarrow> bytes" where
  "orset_entry_le enc s e =
     enc e @ dots_le (get_or [] (os_elements s) e) @ dots_le (get_or [] (os_tombstones s) e)"

text \<open>\<open>to_bytes\<close> visits the union of the keys of both maps, in some order.\<close>

definition orset_all_keys :: "'a ORSet \<Rightarrow> 'a list" where
  "orset_all_keys s = hs_extend (hm_keys (os_tombstones s)) (hs_extend (hm_keys (os_elements s)) [])"

definition orset_to_bytes :: "bytes ORSet \<Rightarrow> bytes" where
  "orset_to_bytes s =
     (let all_keys = orset_all_keys s
      in len_le (length all_keys) @ concat (map (orset_entry_le blob_le s) all_keys))"

text \<open>The loop over \<open>elem_count\<close> elements, each with its two loops over dots.\<close>

fun orset_read :: "(bytes \<Rightarrow> ('a \<times> bytes) option) \<Rightarrow> nat \<Rightarrow> bytes \<Rightarrow> 'a ORSet \<Rightarrow>
    ('a ORSet \<times> bytes) option" where
  "orset_read rd 0 data s = Some (s, data)"
| "orset_read rd (Suc n) data s =
     Option.bind (rd data) (\<lambda>(e, r1).
     Option.bind (read_len r1) (\<lambda>(add_count, r2).
     Option.bind (read_loop read_actor_u64 (\<lambda>(a, c). orset_add_dot a e c) add_count r2 s) (\<lambda>(s1, r3).
     Option.bind (read_len r3) (\<lambda>(rem_count, r4).
     Option.bind (read_loop read_actor_u64 (\<lambda>(a, c). orset_remove_dot a e c) rem_count r4 s1) (\<lambda>(s2, r5).
       orset_read rd n r5 s2)))))"

definition orset_from_bytes :: "bytes \<Rightarrow> (CrdtError, bytes ORSet) res" where
  "orset_from_bytes data =
     ok_or (Option.bind (read_len data) (\<lambda>(elem_count, rest).
            map_option fst (orset_read read_blob elem_count rest orset_new))) InvalidPayload"

section \<open>View and invariant\<close>

definition os_E :: "'a ORSet \<Rightarrow> 'a \<Rightarrow> Dot set" where
  "os_E s e = set (get_or [] (os_elements s) e)"

definition os_T :: "'a ORSet \<Rightarrow> 'a \<Rightarrow> Dot set" where
  "os_T s e = set (get_or [] (os_tombstones s) e)"

definition os_C :: "'a ORSet \<Rightarrow> ActorId \<Rightarrow> u64" where
  "os_C s a = get_or 0 (os_counters s) a"

definition orset_ok :: "'a ORSet \<Rightarrow> bool" where
  "orset_ok s \<longleftrightarrow> hm_ok (os_elements s) \<and> hm_ok (os_tombstones s) \<and> hm_ok (os_counters s)"

text \<open>Every dot in use was handed out: its counter is below its actor's next one.\<close>

definition orset_fresh :: "'a ORSet \<Rightarrow> bool" where
  "orset_fresh s \<longleftrightarrow> (\<forall>e a n. (a, n) \<in> os_E s e \<union> os_T s e \<longrightarrow> n < os_C s a)"

lemma orset_live_iff: "orset_live s e dots \<longleftrightarrow> (\<exists>d\<in>set dots. d \<notin> os_T s e)"
  by (cases "map_of (os_tombstones s) e") (simp_all add: orset_live_def list_ex_iff os_T_def get_or_def)

lemma orset_contains_iff: "orset_contains s e \<longleftrightarrow> (\<exists>d\<in>os_E s e. d \<notin> os_T s e)"
  by (auto simp: orset_contains_def orset_live_iff os_E_def get_or_def split: option.splits)

lemma set_orset_iter:
  assumes "orset_ok s"
  shows "set (orset_iter s) = {e. orset_contains s e}"
proof (rule set_eqI)
  fix e
  have "hm_ok (os_elements s)" using assms by (simp add: orset_ok_def)
  then have "(e, dots) \<in> set (os_elements s) \<longleftrightarrow> map_of (os_elements s) e = Some dots" for dots
    by simp
  then have "e \<in> set (orset_iter s) \<longleftrightarrow>
      (\<exists>dots. map_of (os_elements s) e = Some dots \<and> orset_live s e dots)"
    by (auto simp: orset_iter_def image_iff Bex_def)
  then show "e \<in> set (orset_iter s) \<longleftrightarrow> e \<in> {e. orset_contains s e}"
    by (cases "map_of (os_elements s) e") (simp_all add: orset_contains_def)
qed

named_theorems orset_view

lemma view_new [orset_view, simp]: "os_E orset_new e = {}" "os_T orset_new e = {}" "os_C orset_new a = 0"
  by (simp_all add: os_E_def os_T_def os_C_def orset_new_def)

lemma view_add [orset_view, simp]:
  "os_E (orset_add a e s) x = (if x = e then insert (a, os_C s a) (os_E s e) else os_E s x)"
  "os_T (orset_add a e s) x = os_T s x"
  "os_C (orset_add a e s) b = (if b = a then os_C s a + 1 else os_C s b)"
  by (simp_all add: os_E_def os_T_def os_C_def orset_add_def orset_new_dot_def)

lemma remove_fold:
  fixes s :: "'a ORSet" and e :: 'a
  defines "F \<equiv> fold (\<lambda>dot s. s\<lparr>os_tombstones := entry_upd [] (hs_insert dot) e (os_tombstones s)\<rparr>)"
  shows "os_elements (F dots s) = os_elements s" "os_counters (F dots s) = os_counters s"
    "hm_ok (os_tombstones s) \<Longrightarrow> hm_ok (os_tombstones (F dots s))"
    "os_T (F dots s) x = (if x = e then os_T s e \<union> set dots else os_T s x)"
  unfolding F_def by (induction dots arbitrary: s) (auto simp: os_T_def)

lemma view_remove [orset_view, simp]:
  "os_E (orset_remove a e s) x = os_E s x"
  "os_T (orset_remove a e s) x = (if x = e then os_T s e \<union> os_E s e else os_T s x)"
  "os_C (orset_remove a e s) b = os_C s b"
  by (simp_all add: orset_remove_def os_E_def os_C_def remove_fold split: option.splits)
    (auto simp: os_E_def get_or_def)

lemma get_or_fold_extend:
  "hm_ok es \<Longrightarrow> set (get_or [] (fold (\<lambda>(e, dots) m. entry_upd [] (hs_extend dots) e m) es m) x) =
     set (get_or [] m x) \<union> set (get_or [] es x)"
  by (cases "map_of es x") (simp_all add: get_or_fold_entry [where f = hs_extend] get_or_def [of _ es])

lemma view_merge [orset_view, simp]:
  assumes "orset_ok b"
  shows "os_E (orset_merge a b) x = os_E a x \<union> os_E b x"
    and "os_T (orset_merge a b) x = os_T a x \<union> os_T b x"
    and "os_C (orset_merge a b) y = max (os_C a y) (os_C b y)"
  using assms
  by (simp_all add: os_E_def os_T_def os_C_def orset_merge_def orset_ok_def get_or_fold_extend
      get_or_fold_entry [where f = "\<lambda>c v. max v c"] split: option.splits)
    (auto simp: get_or_def)

lemma view_add_dot [orset_view, simp]:
  "os_E (orset_add_dot a e n s) x = (if x = e then insert (a, n) (os_E s e) else os_E s x)"
  "os_T (orset_add_dot a e n s) x = os_T s x"
  by (simp_all add: os_E_def os_T_def orset_add_dot_def)

lemma view_remove_dot [orset_view, simp]:
  "os_E (orset_remove_dot a e n s) x = os_E s x"
  "os_T (orset_remove_dot a e n s) x = (if x = e then insert (a, n) (os_T s e) else os_T s x)"
  by (simp_all add: os_E_def os_T_def orset_remove_dot_def)

lemma orset_ok_ops [simp]:
  "orset_ok orset_new"
  "orset_ok s \<Longrightarrow> orset_ok (orset_add a e s)"
  "orset_ok s \<Longrightarrow> orset_ok (orset_remove a e s)"
  "orset_ok s \<Longrightarrow> orset_ok (orset_merge s t)"
  "orset_ok s \<Longrightarrow> orset_ok (orset_clear s)"
  by (auto simp: orset_ok_def orset_new_def orset_add_def orset_new_dot_def orset_merge_def
      orset_clear_def orset_remove_def remove_fold split: option.splits)

definition orset_view_of :: "'a ORSet \<Rightarrow> ('a \<Rightarrow> Dot set) \<times> ('a \<Rightarrow> Dot set) \<times> (ActorId \<Rightarrow> u64)" where
  "orset_view_of s = (os_E s, os_T s, os_C s)"

interpretation orset: state_crdt
  "\<lambda>(e, t, c) (e', t', c'). (\<lambda>x. e x \<union> e' x, \<lambda>x. t x \<union> t' x, \<lambda>a. max (c a) (c' a))" "\<lambda>_. True"
  orset_merge orset_view_of orset_ok
  by unfold_locales (auto simp: orset_view_of_def fun_eq_iff ac_simps)

lemma contains_view: "orset_view_of s = orset_view_of t \<Longrightarrow> orset_contains s = orset_contains t"
  by (simp add: orset_view_of_def orset_contains_iff fun_eq_iff)

section \<open>Freshness of dots\<close>

lemma orset_fresh_new [simp]: "orset_fresh orset_new"
  by (simp add: orset_fresh_def)

lemma succ64: "x < x + 1 \<longleftrightarrow> x \<noteq> - 1" for x :: u64
proof (cases "x = - 1")
  case False
  then have "unat x \<noteq> unat (- 1 :: u64)" by (simp add: word_unat_eq_iff)
  moreover have "unat (- 1 :: u64) = 18446744073709551615" by (simp add: unsigned_minus_1_eq_mask mask_eq_exp_minus_1)
  ultimately have "unat x < 18446744073709551615" using unat_bounds(4) [of x] by simp
  then have "unat (x + 1) = Suc (unat x)" by (simp add: unat_word_ariths)
  with False show ?thesis by (simp add: word_less_unat)
qed simp

lemma orset_fresh_add:
  assumes "orset_fresh s" "os_C s a \<noteq> - 1"
  shows "orset_fresh (orset_add a e s)"
proof -
  have c: "os_C s a < os_C s a + 1" using assms(2) by (simp add: succ64)
  have "n < os_C s a + 1" if "n < os_C s a" for n using that c by (rule less_trans)
  with assms(1) c show ?thesis by (auto simp: orset_fresh_def split: if_splits)
qed

lemma orset_fresh_remove: "orset_fresh s \<Longrightarrow> orset_fresh (orset_remove a e s)"
  by (auto simp: orset_fresh_def split: if_splits)

lemma orset_fresh_merge: "orset_ok t \<Longrightarrow> orset_fresh s \<Longrightarrow> orset_fresh t \<Longrightarrow> orset_fresh (orset_merge s t)"
  by (auto simp: orset_fresh_def less_max_iff_disj)

lemma orset_fresh_clear: "orset_fresh (orset_clear s)"
  by (simp add: orset_fresh_def orset_clear_def os_E_def os_T_def)

section \<open>Bytes\<close>

definition dots_ok :: "Dot list \<Rightarrow> bool" where
  "dots_ok dots \<longleftrightarrow> length dots < 2 ^ 32 \<and> (\<forall>d\<in>set dots. actor_ok (fst d))"

definition apply_entry :: "'a ORSet \<Rightarrow> 'a \<Rightarrow> 'a ORSet \<Rightarrow> 'a ORSet" where
  "apply_entry s e acc =
     fold (\<lambda>(a, c). orset_remove_dot a e c) (get_or [] (os_tombstones s) e)
       (fold (\<lambda>(a, c). orset_add_dot a e c) (get_or [] (os_elements s) e) acc)"

lemma read_dots:
  assumes "dots_ok dots"
  shows "Option.bind (read_len (dots_le dots @ rest))
    (\<lambda>(n, r). Option.bind (read_loop read_actor_u64 f n r s) g) = g (fold f dots s, rest)"
  using assms by (simp add: dots_le_def dots_ok_def codec_simps entryc.read_loop_concat)

lemma orset_read_entries:
  assumes "codec enc rd ok"
    and "\<forall>e\<in>set ks. ok e \<and> dots_ok (get_or [] (os_elements s) e) \<and> dots_ok (get_or [] (os_tombstones s) e)"
  shows "orset_read rd (length ks) (concat (map (orset_entry_le enc s) ks) @ rest) acc =
    Some (fold (apply_entry s) ks acc, rest)"
  using assms(2)
proof (induction ks arbitrary: acc)
  case (Cons e ks)
  have rd: "rd (enc e @ r) = Some (e, r)" for r
    using Cons.prems codec.rd_enc [OF assms(1)] by simp
  have d: "dots_ok (get_or [] (os_elements s) e)" "dots_ok (get_or [] (os_tombstones s) e)"
    using Cons.prems by simp_all
  show ?case
    by (simp add: orset_entry_le_def [of enc s e] rd read_dots [OF d(1)] read_dots [OF d(2)] Cons.IH Cons.prems
        apply_entry_def [of s e])
qed simp

lemma fold_add_dots:
  "os_E (fold (\<lambda>(a, c). orset_add_dot a e c) dots s) x = (if x = e then os_E s e \<union> set dots else os_E s x)"
  "os_T (fold (\<lambda>(a, c). orset_add_dot a e c) dots s) x = os_T s x"
  by (induction dots arbitrary: s) auto

lemma fold_remove_dots:
  "os_T (fold (\<lambda>(a, c). orset_remove_dot a e c) dots s) x = (if x = e then os_T s e \<union> set dots else os_T s x)"
  "os_E (fold (\<lambda>(a, c). orset_remove_dot a e c) dots s) x = os_E s x"
  by (induction dots arbitrary: s) auto

lemma view_apply_entries:
  "os_E (fold (apply_entry s) ks acc) x = (if x \<in> set ks then os_E s x \<union> os_E acc x else os_E acc x)"
  "os_T (fold (apply_entry s) ks acc) x = (if x \<in> set ks then os_T s x \<union> os_T acc x else os_T acc x)"
  by (induction ks arbitrary: acc)
    (auto simp: apply_entry_def fold_add_dots fold_remove_dots os_E_def [of s] os_T_def [of s])

lemma set_all_keys: "set (orset_all_keys s) = fst ` set (os_elements s) \<union> fst ` set (os_tombstones s)"
  by (simp add: orset_all_keys_def)

lemma E_notin: "x \<notin> set (orset_all_keys s) \<Longrightarrow> os_E s x = {} \<and> os_T s x = {}"
  by (simp add: set_all_keys os_E_def os_T_def get_or_notin)

definition orset_storable :: "bytes ORSet \<Rightarrow> bool" where
  "orset_storable s \<longleftrightarrow> length (orset_all_keys s) < 2 ^ 32 \<and>
     (\<forall>e\<in>set (orset_all_keys s). length e < 2 ^ 32 \<and>
        dots_ok (get_or [] (os_elements s) e) \<and> dots_ok (get_or [] (os_tombstones s) e))"

text \<open>The set as it comes back: the same dots and tombstones, counters just above them.\<close>

definition orset_reread :: "'a ORSet \<Rightarrow> 'a ORSet" where
  "orset_reread s = fold (apply_entry s) (orset_all_keys s) orset_new"

lemma view_reread [simp]: "os_E (orset_reread s) = os_E s" "os_T (orset_reread s) = os_T s"
  using E_notin [of _ s] by (auto simp: fun_eq_iff view_apply_entries orset_reread_def)

lemma orset_read_back:
  assumes "orset_storable s"
  shows "orset_from_bytes (orset_to_bytes s @ rest) = Ok (orset_reread s)"
proof -
  have r: "orset_read read_blob (length (orset_all_keys s))
      (concat (map (orset_entry_le blob_le s) (orset_all_keys s)) @ rest) orset_new =
      Some (orset_reread s, rest)"
    unfolding orset_reread_def
    by (rule orset_read_entries [OF blobc.codec_axioms]) (use assms in \<open>simp add: orset_storable_def\<close>)
  show ?thesis
    using assms by (simp add: orset_from_bytes_def orset_to_bytes_def Let_def codec_simps r orset_storable_def)
qed

section \<open>Properties\<close>

text \<open>
  Adding makes an element present and changes no other; removing makes it absent and
  changes no other; both keep the dots fresh, as long as the actor's counter is not exhausted.
\<close>

theorem orset_add_remove:
  assumes "orset_fresh s" "os_C s a \<noteq> - 1"
  shows "orset_contains (orset_add a e s) x = (x = e \<or> orset_contains s x) \<and>
         orset_contains (orset_remove b e s) x = (x \<noteq> e \<and> orset_contains s x) \<and>
         orset_fresh (orset_add a e s) \<and> orset_fresh (orset_remove b e s)"
proof -
  have "(a, os_C s a) \<notin> os_T s e" using assms(1) by (auto simp: orset_fresh_def)
  then show ?thesis
    using orset_fresh_add [OF assms] orset_fresh_remove [OF assms(1)]
    by (auto simp: orset_contains_iff)
qed

theorem orset_add_remove_witness:
  "\<not> orset_contains (orset_remove actor_zero ''a'' (orset_add actor_zero ''a'' orset_new)) ''a''"
  using orset_add_remove [of "orset_add actor_zero ''a'' orset_new" actor_zero "''a''" "''a''" actor_zero]
    orset_add_remove [of orset_new actor_zero "''a''" "''a''" actor_zero] by simp

text \<open>
  C33: an addition wins over a removal that has not seen it, for replicas whose counters are
  above their dots (as the operations keep them until a counter wraps). If a replica \<open>t\<close> knows no dot of
  the actor that \<open>s\<close> does not, then after \<open>t\<close> removes the element and merges \<open>s\<close> with the
  element added (in either direction), the element is present.
\<close>

theorem orset_add_wins:
  assumes "orset_ok s" "orset_ok t" "orset_fresh s" "orset_fresh t" "os_C t a \<le> os_C s a"
  shows "orset_contains (orset_merge (orset_remove b e t) (orset_add a e s)) e \<and>
         orset_contains (orset_merge (orset_add a e s) (orset_remove b e t)) e"
proof -
  have "(a, os_C s a) \<notin> os_E t e \<union> os_T t e"
    using assms(4,5) by (auto simp: orset_fresh_def dest: leD)
  moreover have "(a, os_C s a) \<notin> os_T s e" using assms(3) by (auto simp: orset_fresh_def)
  ultimately show ?thesis using assms(1,2) by (auto simp: orset_contains_iff)
qed

theorem orset_add_wins_witness:
  "orset_contains (orset_merge (orset_remove actor_zero ''a'' orset_new) (orset_add actor_zero ''a'' orset_new)) ''a''"
  using orset_add_wins [of orset_new orset_new actor_zero actor_zero "''a''"] by simp

text \<open>
  C32: replicas of a set that have merged the same states, in any order, grouping and
  repetition, hold the same dots and tombstones of every element and the same counter of every
  actor, and so contain the same elements.
\<close>

theorem orset_converges:
  assumes "merged orset_merge A s" "merged orset_merge A t" "\<forall>x\<in>A. orset_ok x"
  shows "os_E s = os_E t \<and> os_T s = os_T t \<and> os_C s = os_C t \<and>
    orset_contains s = orset_contains t \<and> set (orset_iter s) = set (orset_iter t)"
proof -
  note view = orset.merged_converge [OF assms]
  then have "orset_contains s = orset_contains t" by (rule contains_view)
  then show ?thesis
    using view orset.merged_valid [OF assms(1,3)] orset.merged_valid [OF assms(2,3)]
    by (simp add: set_orset_iter orset_view_of_def)
qed

theorem orset_converges_witness:
  "let a = orset_add actor_zero ''a'' orset_new; b = orset_remove actor_zero ''a'' a
   in orset_contains (orset_merge a b) = orset_contains (orset_merge b a)"
proof -
  let ?a = "orset_add actor_zero ''a'' orset_new"
  let ?b = "orset_remove actor_zero ''a'' ?a"
  have 1: "merged orset_merge ({?a} \<union> {?b}) (orset_merge ?a ?b)" by (intro merged.intros)
  have 2: "merged orset_merge ({?b} \<union> {?a}) (orset_merge ?b ?a)" by (intro merged.intros)
  have e: "{?b} \<union> {?a} = {?a} \<union> {?b}" by auto
  show ?thesis using orset_converges [OF 1 2 [unfolded e]] by (simp add: Let_def)
qed

text \<open>
  A set of byte strings read back from its bytes has the same dots, the same tombstones
  and so the same elements, whatever follows it in the buffer.
\<close>

theorem orset_roundtrip:
  assumes "orset_storable s"
  shows "\<exists>s'. orset_from_bytes (orset_to_bytes s @ rest) = Ok s' \<and> os_E s' = os_E s \<and>
           os_T s' = os_T s \<and> orset_contains s' = orset_contains s"
  using orset_read_back [OF assms, of rest] by (auto simp: orset_contains_iff fun_eq_iff)

theorem orset_roundtrip_witness:
  "\<exists>s'. orset_from_bytes (orset_to_bytes (orset_add actor_zero [1, 2] orset_new) @ []) = Ok s' \<and>
     os_E s' = os_E (orset_add actor_zero [1, 2] orset_new) \<and>
     os_T s' = os_T (orset_add actor_zero [1, 2] orset_new) \<and>
     orset_contains s' = orset_contains (orset_add actor_zero [1, 2] orset_new)"
  by (rule orset_roundtrip)
    (simp add: orset_storable_def orset_all_keys_def orset_add_def orset_new_dot_def orset_new_def
      entry_upd_def hs_insert_def hs_extend_def dots_ok_def get_or_def)

end
