(* ===== verification/Mv_Reg.thy ===== *)
theory Mv_Reg
  imports Or_Set
begin

text \<open>
  The multi-value register of \<open>src/crdt/mod.rs\<close>: values with the dots of the writes they
  come from, kept while no other value's dots dominate them, and a clock of the counters
  handed out. The values are written with \<open>serde_json\<close>, which is a parameter of the byte format:
  \<open>ser\<close> for \<open>to_vec\<close> and \<open>de\<close> for \<open>from_slice\<close>.
\<close>

section \<open>The code\<close>

text \<open>An \<open>MVDot\<close> is the struct of an \<open>actor\<close> and a \<open>counter\<close>.\<close>

type_synonym MVDot = "ActorId \<times> u64"

datatype 'v MVReg = MVReg (mv_values: "(MVDot list \<times> 'v) list") (mv_clock: "(u128 \<times> u64) list")

definition dot_counters :: "MVDot list \<Rightarrow> (ActorId, u64) hmap" where
  "dot_counters dots = fold (\<lambda>(actor, counter) acc. entry_upd 0 (\<lambda>e. max e counter) actor acc) dots []"

definition dots_causally_le :: "MVDot list \<Rightarrow> MVDot list \<Rightarrow> bool" where
  "dots_causally_le dots_a dots_b =
     (let b_counters = dot_counters dots_b; a_counters = dot_counters dots_a
      in if list_ex (\<lambda>(actor, a_val). a_val > get_or 0 b_counters actor) a_counters then False
         else
           let has_strictly_less =
                 list_ex (\<lambda>(actor, a_val). a_val < get_or 0 b_counters actor) a_counters;
               has_strictly_less' =
                 (if \<not> has_strictly_less
                  then list_ex (\<lambda>(actor, b_val). get_or 0 a_counters actor < b_val) b_counters
                  else has_strictly_less)
           in has_strictly_less' \<or> (a_counters = [] \<and> b_counters \<noteq> []))"

definition dots_causally_lt :: "MVDot list \<Rightarrow> MVDot list \<Rightarrow> bool" where
  "dots_causally_lt dots_a dots_b \<longleftrightarrow>
     dots_causally_le dots_a dots_b \<and> \<not> dots_causally_le dots_b dots_a"

definition mvreg_new :: "'v MVReg" where
  "mvreg_new = MVReg [] []"

definition actor_key :: "ActorId \<Rightarrow> u128" where
  "actor_key a = of_nat (le_nat (actor_bytes a))"

definition mvreg_set :: "ActorId \<Rightarrow> 'v \<Rightarrow> 'v MVReg \<Rightarrow> 'v MVReg" where
  "mvreg_set actor v r =
     (let clock = entry_upd 0 (\<lambda>c. c + 1) (actor_key actor) (mv_clock r);
          new_dots = [(actor, get_or 0 clock (actor_key actor))];
          vals = filter (\<lambda>(dots, _). \<not> dots_causally_le dots new_dots) (mv_values r);
          all_dominated = list_all (\<lambda>(dots, _). dots_causally_le dots new_dots) vals;
          vals' = (if all_dominated then [] else vals)
      in MVReg (vals' @ [(new_dots, v)]) clock)"

definition mvreg_values :: "'v MVReg \<Rightarrow> 'v list" where
  "mvreg_values r = map snd (mv_values r)"

definition mvreg_len :: "'v MVReg \<Rightarrow> nat" where
  "mvreg_len r = length (mv_values r)"

definition mvreg_value :: "'v MVReg \<Rightarrow> 'v option" where
  "mvreg_value r = (case mv_values r of [(_, v)] \<Rightarrow> Some v | _ \<Rightarrow> None)"

definition mv_merge_step ::
    "MVDot list \<times> 'v \<Rightarrow> (MVDot list \<times> 'v) list \<Rightarrow> (MVDot list \<times> 'v) list" where
  "mv_merge_step other all_values =
     (let (other_dots, other_val) = other
      in if list_ex (\<lambda>(dots, _). dots_causally_le other_dots dots \<and> \<not> dots_causally_le dots other_dots)
              all_values
         then all_values
         else filter (\<lambda>(dots, _). \<not> dots_causally_le dots other_dots) all_values @
              [(other_dots, other_val)])"

definition mvreg_merge :: "'v MVReg \<Rightarrow> 'v MVReg \<Rightarrow> 'v MVReg" where
  "mvreg_merge self other =
     MVReg (fold mv_merge_step (mv_values other) (mv_values self))
       (fold (\<lambda>(actor, counter) m. entry_upd 0 (\<lambda>e. max e counter) actor m) (mv_clock other) (mv_clock self))"

definition u128_le :: "u128 \<Rightarrow> bytes" where
  "u128_le w = nat_le 16 (unat w)"

definition clock_entry_le :: "u128 \<times> u64 \<Rightarrow> bytes" where
  "clock_entry_le e = u128_le (fst e) @ u64_le (snd e)"

definition mv_entry_le :: "('v \<Rightarrow> bytes option) \<Rightarrow> MVDot list \<times> 'v \<Rightarrow> bytes" where
  "mv_entry_le ser e =
     dots_le (fst e) @ blob_le (case ser (snd e) of Some b \<Rightarrow> b | None \<Rightarrow> [])"

definition mvreg_to_bytes :: "('v \<Rightarrow> bytes option) \<Rightarrow> 'v MVReg \<Rightarrow> bytes" where
  "mvreg_to_bytes ser r =
     len_le (length (mv_values r)) @ concat (map (mv_entry_le ser) (mv_values r)) @
     len_le (length (mv_clock r)) @ concat (map clock_entry_le (mv_clock r))"

definition read_mv_entry ::
    "(bytes \<Rightarrow> 'v option) \<Rightarrow> bytes \<Rightarrow> ((MVDot list \<times> 'v) \<times> bytes) option" where
  "read_mv_entry de bs =
     Option.bind (read_len bs) (\<lambda>(dot_count, r1).
     Option.bind (read_loop read_actor_u64 (\<lambda>d ds. ds @ [d]) dot_count r1 []) (\<lambda>(dots, r2).
     Option.bind (read_blob r2) (\<lambda>(value_bytes, r3).
     map_option (\<lambda>v. ((dots, v), r3)) (de value_bytes))))"

definition read_clock_entry :: "bytes \<Rightarrow> ((u128 \<times> u64) \<times> bytes) option" where
  "read_clock_entry bs =
     Option.bind (read_n 16 bs) (\<lambda>(k, r1).
     map_option (\<lambda>(c, r2). ((of_nat (le_nat k), c), r2)) (read_u64 r1))"

definition mvreg_from_bytes :: "(bytes \<Rightarrow> 'v option) \<Rightarrow> bytes \<Rightarrow> (CrdtError, 'v MVReg) res" where
  "mvreg_from_bytes de data =
     ok_or (Option.bind (read_len data) (\<lambda>(value_count, r0).
            Option.bind (read_loop (read_mv_entry de) (\<lambda>x xs. xs @ [x]) value_count r0 []) (\<lambda>(vals, r1).
            Option.bind (read_len r1) (\<lambda>(clock_count, r2).
            map_option (\<lambda>(clock, _). MVReg vals clock)
              (read_loop read_clock_entry (\<lambda>(k, c) m. AList.update k c m) clock_count r2 [])))))
       InvalidPayload"

section \<open>The causal order\<close>

text \<open>The largest counter the dots hold for an actor.\<close>

definition vclock :: "MVDot list \<Rightarrow> ActorId \<Rightarrow> u64" where
  "vclock dots a = get_or 0 (dot_counters dots) a"

lemma dot_counters_ok [simp]: "hm_ok (dot_counters dots)"
proof -
  have "hm_ok m \<Longrightarrow> hm_ok (fold (\<lambda>(actor, counter) acc. entry_upd 0 (\<lambda>e. max e counter) actor acc) dots m)"
    for m :: "(ActorId, u64) hmap"
    by (induction dots arbitrary: m) auto
  from this [of "[]"] show ?thesis by (simp add: dot_counters_def)
qed

lemma keys_dot_counters: "fst ` set (dot_counters dots) = fst ` set dots"
proof -
  have "fst ` set (fold (\<lambda>(actor, counter) acc. entry_upd 0 (\<lambda>e. max e counter) actor acc) dots m) =
      fst ` set m \<union> fst ` set dots" for m :: "(ActorId, u64) hmap"
    by (induction dots arbitrary: m) (simp_all add: case_prod_beta)
  then show ?thesis by (simp add: dot_counters_def)
qed

lemma dot_counters_Nil [simp]: "dot_counters dots = [] \<longleftrightarrow> dots = []"
proof -
  have "dot_counters dots = [] \<longleftrightarrow> fst ` set (dot_counters dots) = {}" by simp
  then show ?thesis by (simp only: keys_dot_counters) simp
qed

lemma vclock_in: "(x, c) \<in> set (dot_counters dots) \<Longrightarrow> vclock dots x = c"
  unfolding vclock_def by (rule get_or_map_of) simp

lemma ex_counters:
  assumes "\<And>a. \<not> P a 0"
  shows "list_ex (\<lambda>(a, c). P a c) (dot_counters dots) \<longleftrightarrow> (\<exists>a. P a (vclock dots a))"
proof
  assume "\<exists>a. P a (vclock dots a)"
  then obtain a where a: "P a (vclock dots a)" ..
  then have "vclock dots a \<noteq> 0" using assms by metis
  then obtain c where "map_of (dot_counters dots) a = Some c" "vclock dots a = c"
    by (auto simp: vclock_def get_or_def split: option.splits)
  with a show "list_ex (\<lambda>(a, c). P a c) (dot_counters dots)"
    by (auto simp: list_ex_iff dest!: map_of_SomeD)
qed (auto simp: list_ex_iff dest: vclock_in)

definition vless :: "MVDot list \<Rightarrow> MVDot list \<Rightarrow> bool" where
  "vless a b \<longleftrightarrow> (\<forall>x. vclock a x \<le> vclock b x) \<and> (\<exists>x. vclock a x < vclock b x)"

lemma list_ex_less:
  "list_ex (\<lambda>(x, c). c < get_or 0 m x) (dot_counters dots) \<Longrightarrow> \<exists>x. vclock dots x < get_or 0 m x"
  by (auto simp: list_ex_iff dest: vclock_in)

lemma dots_causally_le_iff:
  "dots_causally_le a b \<longleftrightarrow> vless a b \<or> (a = [] \<and> b \<noteq> [])"
proof -
  have gt: "list_ex (\<lambda>(x, c). c > get_or 0 (dot_counters b) x) (dot_counters a) \<longleftrightarrow>
      (\<exists>x. vclock a x > vclock b x)"
    using ex_counters [of "\<lambda>x c. c > get_or 0 (dot_counters b) x" a] by (simp add: vclock_def)
  have lt: "list_ex (\<lambda>(x, c). get_or 0 (dot_counters a) x < c) (dot_counters b) \<longleftrightarrow>
      (\<exists>x. vclock a x < vclock b x)"
    using ex_counters [of "\<lambda>x c. get_or 0 (dot_counters a) x < c" b] by (simp add: vclock_def)
  have lt': "list_ex (\<lambda>(x, c). c < get_or 0 (dot_counters b) x) (dot_counters a) \<Longrightarrow>
      \<exists>x. vclock a x < vclock b x"
    using list_ex_less [of "dot_counters b" a] by (simp add: vclock_def)
  have e: "a = [] \<Longrightarrow> \<not> (\<exists>x. vclock b x < vclock a x)"
    by (simp add: vclock_def dot_counters_def)
  have nl: "(\<forall>x. vclock a x \<le> vclock b x) \<longleftrightarrow> \<not> (\<exists>x. vclock b x < vclock a x)"
    by (simp add: not_less)
  show ?thesis
    unfolding dots_causally_le_def Let_def gt lt dot_counters_Nil vless_def nl
    using lt' e by argo
qed

lemma causal_irrefl [simp]: "\<not> dots_causally_le a a"
  by (simp add: dots_causally_le_iff vless_def)

lemma vless_nonempty: "vless a b \<Longrightarrow> b \<noteq> []"
  by (auto simp: vless_def vclock_def dot_counters_def)

lemma vless_trans: "vless a b \<Longrightarrow> vless b c \<Longrightarrow> vless a c"
  unfolding vless_def by (blast intro: order_trans less_le_trans)

lemma causal_trans: "dots_causally_le a b \<Longrightarrow> dots_causally_le b c \<Longrightarrow> dots_causally_le a c"
  unfolding dots_causally_le_iff by (blast dest: vless_nonempty intro: vless_trans)

lemma causal_asym: "dots_causally_le a b \<Longrightarrow> \<not> dots_causally_le b a"
  using causal_trans causal_irrefl by blast

section \<open>Maximal elements\<close>

definition maximal :: "(MVDot list \<times> 'v) set \<Rightarrow> (MVDot list \<times> 'v) set" where
  "maximal A = {x \<in> A. \<not> (\<exists>y\<in>A. dots_causally_le (fst x) (fst y))}"

lemma maximal_subset: "maximal A \<subseteq> A"
  by (auto simp: maximal_def)

lemma in_maximal: "x \<in> maximal A \<longleftrightarrow> x \<in> A \<and> \<not> (\<exists>y\<in>A. dots_causally_le (fst x) (fst y))"
  by (simp add: maximal_def)

lemma in_maximal_Un:
  "x \<in> maximal (A \<union> B) \<longleftrightarrow> (x \<in> A \<or> x \<in> B) \<and>
     \<not> (\<exists>y\<in>A. dots_causally_le (fst x) (fst y)) \<and> \<not> (\<exists>y\<in>B. dots_causally_le (fst x) (fst y))"
  by (auto simp: maximal_def)

lemma antichainD: "maximal S = S \<Longrightarrow> x \<in> S \<Longrightarrow> y \<in> S \<Longrightarrow> \<not> dots_causally_le (fst x) (fst y)"
  using in_maximal [of x S] by blast

lemma maximal_above:
  assumes "finite A" "x \<in> A"
  shows "\<exists>y\<in>maximal A. x = y \<or> dots_causally_le (fst x) (fst y)"
  using assms
proof (induction "card {y \<in> A. dots_causally_le (fst x) (fst y)}" arbitrary: x rule: less_induct)
  case less
  show ?case
  proof (cases "x \<in> maximal A")
    case False
    then obtain y where y: "y \<in> A" "dots_causally_le (fst x) (fst y)"
      using less.prems by (auto simp: maximal_def)
    have "{z \<in> A. dots_causally_le (fst y) (fst z)} \<subset> {z \<in> A. dots_causally_le (fst x) (fst z)}"
      using y causal_trans by force
    then have "card {z \<in> A. dots_causally_le (fst y) (fst z)} < card {z \<in> A. dots_causally_le (fst x) (fst z)}"
      using less.prems(1) by (intro psubset_card_mono) simp_all
    from less.hyps [OF this less.prems(1) y(1)] y(2) show ?thesis
      by (blast intro: causal_trans)
  qed blast
qed

lemma maximal_absorb:
  assumes "finite A"
  shows "maximal (maximal A \<union> B) = maximal (A \<union> B)"
proof -
  have iff: "(\<exists>y\<in>maximal A. dots_causally_le (fst x) (fst y)) \<longleftrightarrow> (\<exists>y\<in>A. dots_causally_le (fst x) (fst y))"
    for x :: "MVDot list \<times> 'a"
  proof
    assume "\<exists>y\<in>A. dots_causally_le (fst x) (fst y)"
    then obtain y where y: "y \<in> A" "dots_causally_le (fst x) (fst y)" ..
    from maximal_above [OF assms y(1)] obtain z where "z \<in> maximal A" "y = z \<or> dots_causally_le (fst y) (fst z)"
      by blast
    with y(2) show "\<exists>y\<in>maximal A. dots_causally_le (fst x) (fst y)"
      by (blast intro: causal_trans)
  qed (use maximal_subset [of A] in blast)
  show ?thesis
  proof (rule set_eqI)
    fix x
    show "x \<in> maximal (maximal A \<union> B) \<longleftrightarrow> x \<in> maximal (A \<union> B)"
      unfolding in_maximal_Un iff unfolding in_maximal by blast
  qed
qed

lemma maximal_single [simp]: "maximal {x} = {x}"
  by (auto simp: maximal_def)

lemma maximal_idem [simp]: "maximal (maximal A) = maximal A"
  by (auto simp: maximal_def)

text \<open>One step of the merge loop keeps the maximal ones of the values seen so far.\<close>

lemma set_mv_merge_step:
  assumes "maximal (set vs) = set vs"
  shows "set (mv_merge_step x vs) = maximal (insert x (set vs))"
proof -
  obtain d v where x: "x = (d, v)" by force
  have "dots_causally_le d e \<and> \<not> dots_causally_le e d \<longleftrightarrow> dots_causally_le d e" for e
    using causal_asym by blast
  note lt = this
  show ?thesis
  proof (cases "\<exists>y\<in>set vs. dots_causally_le d (fst y)")
    case True
    then have "set (mv_merge_step x vs) = set vs"
      by (auto simp: mv_merge_step_def x lt list_ex_iff)
    moreover obtain y where y: "y \<in> set vs" "dots_causally_le d (fst y)" using True by blast
    have "\<not> dots_causally_le (fst z) d" if "z \<in> set vs" for z
      using antichainD [OF assms that y(1)] causal_trans y(2) by blast
    then have "maximal (insert x (set vs)) = set vs"
      using assms y x by (auto simp: maximal_def)
    ultimately show ?thesis by simp
  next
    case False
    then have "mv_merge_step x vs = filter (\<lambda>(e, _). \<not> dots_causally_le e d) vs @ [x]"
      by (auto simp: mv_merge_step_def x lt list_ex_iff)
    moreover have "maximal (insert x (set vs)) = insert x {y \<in> set vs. \<not> dots_causally_le (fst y) d}"
      using False assms x by (auto simp: maximal_def)
    ultimately show ?thesis by (auto simp: case_prod_beta)
  qed
qed

lemma set_fold_merge:
  "maximal (set vs) = set vs \<Longrightarrow> set (fold mv_merge_step xs vs) = maximal (set vs \<union> set xs)"
proof (induction xs arbitrary: vs)
  case (Cons x xs)
  note s = set_mv_merge_step [OF Cons.prems]
  have "maximal (set (mv_merge_step x vs)) = set (mv_merge_step x vs)" by (simp add: s)
  from Cons.IH [OF this] show ?case
    by (simp add: s maximal_absorb)
qed simp

section \<open>View\<close>

definition mv_view :: "'v MVReg \<Rightarrow> (MVDot list \<times> 'v) set \<times> (u128 \<Rightarrow> u64)" where
  "mv_view r = (set (mv_values r), get_or 0 (mv_clock r))"

definition mvreg_ok :: "'v MVReg \<Rightarrow> bool" where
  "mvreg_ok r \<longleftrightarrow> maximal (set (mv_values r)) = set (mv_values r) \<and> hm_ok (mv_clock r)"

definition mv_sup ::
    "(MVDot list \<times> 'v) set \<times> (u128 \<Rightarrow> u64) \<Rightarrow> (MVDot list \<times> 'v) set \<times> (u128 \<Rightarrow> u64) \<Rightarrow>
     (MVDot list \<times> 'v) set \<times> (u128 \<Rightarrow> u64)" where
  "mv_sup a b = (maximal (fst a \<union> fst b), \<lambda>k. max (snd a k) (snd b k))"

lemma mvreg_view_merge:
  "mvreg_ok a \<Longrightarrow> mvreg_ok b \<Longrightarrow> mv_view (mvreg_merge a b) = mv_sup (mv_view a) (mv_view b)"
  by (simp add: mv_view_def mvreg_merge_def mv_sup_def mvreg_ok_def set_fold_merge fun_eq_iff
      get_or_fold_entry [where f = "\<lambda>c e. max e c"] split: option.splits)
    (simp add: get_or_def)

interpretation mvreg: state_crdt mv_sup "\<lambda>v. finite (fst v) \<and> maximal (fst v) = fst v"
  mvreg_merge mv_view mvreg_ok
proof unfold_locales
  fix a b c :: "(MVDot list \<times> 'v) set \<times> (u128 \<Rightarrow> u64)"
  assume f: "finite (fst a) \<and> maximal (fst a) = fst a" "finite (fst b) \<and> maximal (fst b) = fst b"
    "finite (fst c) \<and> maximal (fst c) = fst c"
  then show "mv_sup (mv_sup a b) c = mv_sup a (mv_sup b c)"
    using maximal_absorb [of "fst a \<union> fst b" "fst c"] maximal_absorb [of "fst b \<union> fst c" "fst a"]
    by (simp add: mv_sup_def ac_simps)
next
  fix a b :: "(MVDot list \<times> 'v) set \<times> (u128 \<Rightarrow> u64)"
  assume "finite (fst a) \<and> maximal (fst a) = fst a" "finite (fst b) \<and> maximal (fst b) = fst b"
  then show "finite (fst (mv_sup a b)) \<and> maximal (fst (mv_sup a b)) = fst (mv_sup a b)"
    by (auto simp: mv_sup_def intro: finite_subset [OF maximal_subset])
next
  fix a b :: "'v MVReg"
  assume "mvreg_ok a" "mvreg_ok b"
  then show "mvreg_ok (mvreg_merge a b)"
    by (auto simp: mvreg_ok_def mvreg_merge_def set_fold_merge)
next
  fix a b :: "'v MVReg"
  assume "mvreg_ok a" "mvreg_ok b"
  then show "mv_view (mvreg_merge a b) = mv_sup (mv_view a) (mv_view b)" by (rule mvreg_view_merge)
qed (auto simp: mv_sup_def mv_view_def mvreg_ok_def ac_simps)

section \<open>Local writes\<close>

text \<open>The clock covers every dot a value carries.\<close>

definition mvreg_fresh :: "'v MVReg \<Rightarrow> bool" where
  "mvreg_fresh r \<longleftrightarrow>
     (\<forall>(dots, v)\<in>set (mv_values r). \<forall>a. vclock dots a \<le> get_or 0 (mv_clock r) (actor_key a))"

lemma vclock_single [simp]: "vclock [(a, n)] x = (if x = a then n else 0)"
  by (simp add: vclock_def dot_counters_def)

lemma all_filter_not:
  "list_all (\<lambda>(d, _). P d) (filter (\<lambda>(d, _). \<not> P d) xs) \<Longrightarrow> filter (\<lambda>(d, _). \<not> P d) xs = []"
  by (induction xs) auto

lemma mvreg_set_eq:
  "mvreg_set a v r =
     MVReg (filter (\<lambda>(dots, _). \<not> dots_causally_le dots [(a, get_or 0 (mv_clock r) (actor_key a) + 1)])
              (mv_values r) @ [([(a, get_or 0 (mv_clock r) (actor_key a) + 1)], v)])
       (entry_upd 0 (\<lambda>c. c + 1) (actor_key a) (mv_clock r))"
  using all_filter_not [of "\<lambda>d. dots_causally_le d [(a, get_or 0 (mv_clock r) (actor_key a) + 1)]" "mv_values r"]
  by (cases "list_all (\<lambda>(d, _). dots_causally_le d [(a, get_or 0 (mv_clock r) (actor_key a) + 1)])
        (filter (\<lambda>(d, _). \<not> dots_causally_le d [(a, get_or 0 (mv_clock r) (actor_key a) + 1)]) (mv_values r))")
    (simp_all add: mvreg_set_def Let_def)

lemma le_single:
  assumes "\<forall>x. vclock d x \<le> c x" "c a \<noteq> - 1"
  shows "dots_causally_le d [(a, c a + 1)] \<longleftrightarrow> (\<forall>x. x \<noteq> a \<longrightarrow> vclock d x = 0)"
    and "\<not> dots_causally_le [(a, c a + 1)] d"
proof -
  have s: "c a < c a + 1" using assms(2) by (simp add: succ64)
  then have lt: "vclock d a < c a + 1" using assms(1) by (meson le_less_trans)
  then have "vless d [(a, c a + 1)] \<longleftrightarrow> (\<forall>x. x \<noteq> a \<longrightarrow> vclock d x = 0)"
    by (auto simp: vless_def less_imp_le)
  moreover have "d = [] \<Longrightarrow> vclock d x = 0" for x by (simp add: vclock_def dot_counters_def)
  ultimately show "dots_causally_le d [(a, c a + 1)] \<longleftrightarrow> (\<forall>x. x \<noteq> a \<longrightarrow> vclock d x = 0)"
    by (auto simp: dots_causally_le_iff)
  have "\<not> c a + 1 \<le> vclock d a" using lt by (simp add: not_le)
  then show "\<not> dots_causally_le [(a, c a + 1)] d"
    by (auto simp: dots_causally_le_iff vless_def)
qed

lemma merge_self:
  "\<forall>x\<in>set xs \<union> set vs. \<forall>y\<in>set xs \<union> set vs. \<not> dots_causally_le (fst x) (fst y) \<Longrightarrow>
   fold mv_merge_step xs vs = vs @ xs"
proof (induction xs arbitrary: vs)
  case (Cons x xs)
  obtain d v where x: "x = (d, v)" by force
  have "\<not> dots_causally_le d (fst y) \<and> \<not> dots_causally_le (fst y) d" if "y \<in> set vs" for y
    using Cons.prems that by (simp add: x)
  then have "mv_merge_step x vs = vs @ [x]"
    by (auto simp: mv_merge_step_def list_ex_iff x intro!: filter_True)
  moreover have "fold mv_merge_step xs (vs @ [x]) = (vs @ [x]) @ xs"
    by (rule Cons.IH) (use Cons.prems in simp)
  ultimately show ?case by simp
qed simp

lemma mvreg_self_merge: "mvreg_ok r \<Longrightarrow> mv_values (mvreg_merge r r) = mv_values r @ mv_values r"
  using antichainD [of "set (mv_values r)"] by (simp add: mvreg_merge_def mvreg_ok_def merge_self)

section \<open>Bytes\<close>

definition mvreg_storable :: "('v \<Rightarrow> bytes option) \<Rightarrow> 'v MVReg \<Rightarrow> bool" where
  "mvreg_storable ser r \<longleftrightarrow> hm_ok (mv_clock r) \<and> length (mv_values r) < 2 ^ 32 \<and> length (mv_clock r) < 2 ^ 32 \<and>
     (\<forall>(dots, v)\<in>set (mv_values r). dots_ok dots \<and>
        (case ser v of Some b \<Rightarrow> length b < 2 ^ 32 | None \<Rightarrow> False))"

lemma read_clock_append: "read_clock_entry (clock_entry_le e @ rest) = Some (e, rest)"
proof -
  have "unat (fst e) < 2 ^ 128" using unsigned_less [of "fst e"] by simp
  then show ?thesis
    by (simp add: read_clock_entry_def clock_entry_le_def u128_le_def codec_simps)
qed

interpretation clockc: codec clock_entry_le read_clock_entry "\<lambda>_. True"
  by unfold_locales (rule read_clock_append)

lemma fold_snoc [simp]: "fold (\<lambda>x xs. xs @ [x]) ys xs = xs @ ys"
  by (induction ys arbitrary: xs) auto

lemma mvreg_read_back:
  assumes "mvreg_storable ser r" and de: "\<And>v b. ser v = Some b \<Longrightarrow> de b = Some v"
  shows "mvreg_from_bytes de (mvreg_to_bytes ser r @ rest) = Ok r"
proof -
  have ok: "hm_ok (mv_clock r)" "length (mv_values r) < 2 ^ 32" "length (mv_clock r) < 2 ^ 32"
    using assms(1) by (simp_all add: mvreg_storable_def)
  have "read_mv_entry de (mv_entry_le ser e @ s) = Some (id e, s)" if e: "e \<in> set (mv_values r)" for e s
  proof -
    obtain b where b: "dots_ok (fst e)" "ser (snd e) = Some b" "length b < 2 ^ 32"
      using assms(1) e by (auto simp: mvreg_storable_def split: option.splits)
    show ?thesis
      by (simp add: read_mv_entry_def mv_entry_le_def read_dots [OF b(1)] b(2) read_blob_append [OF b(3)] de [OF b(2)])
  qed
  from read_loop_map [where g = id and f = "\<lambda>x xs. xs @ [x]", OF this]
  have "read_loop (read_mv_entry de) (\<lambda>x xs. xs @ [x]) (length (mv_values r))
      (concat (map (mv_entry_le ser) (mv_values r)) @ s) [] = Some (mv_values r, s)" for s
    by simp
  then show ?thesis
    using fold_update_id [OF ok(1)] ok clockc.read_loop_concat [of "mv_clock r" "\<lambda>(k, c) m. AList.update k c m"]
    by (simp add: mvreg_from_bytes_def mvreg_to_bytes_def codec_simps)
qed

section \<open>Properties\<close>

text \<open>
  The causal comparison of two dot lists is the strict order of the vectors of largest
  counters (with no dots below any dots); it is irreflexive and transitive.
\<close>

theorem mvreg_causal_order:
  "dots_causally_le a b = ((\<forall>x. vclock a x \<le> vclock b x) \<and> (\<exists>x. vclock a x < vclock b x) \<or> a = [] \<and> b \<noteq> []) \<and>
   \<not> dots_causally_le a a \<and>
   (dots_causally_le a b \<longrightarrow> dots_causally_le b c \<longrightarrow> dots_causally_le a c) \<and>
   dots_causally_lt a b = dots_causally_le a b"
  using causal_trans [of a b c] causal_asym [of a b]
  by (auto simp: dots_causally_le_iff [of a b] vless_def dots_causally_lt_def)

theorem mvreg_causal_order_witness:
  "dots_causally_le [(ActorId [1], 1)] [(ActorId [1], 2), (ActorId [2], 1)] \<and>
   dots_causally_le [] [(ActorId [1], 2), (ActorId [2], 1)]"
proof -
  have 1: "dots_causally_le [] [(ActorId [1], 1)]" "dots_causally_le [(ActorId [1], 1)] [(ActorId [1], 2), (ActorId [2], 1)]"
    by code_simp+
  show ?thesis using mvreg_causal_order [of "[]" "[(ActorId [1], 1)]" "[(ActorId [1], 2), (ActorId [2], 1)]"] 1
    by blast
qed

text \<open>
  A local write adds its value and drops exactly the values that carry no dot of another
  actor: an actor overwrites its own values and never those it has merged from others. The
  values stay mutually undominated.
\<close>

theorem mvreg_set_values:
  assumes "mvreg_ok r" "mvreg_fresh r" "get_or 0 (mv_clock r) (actor_key a) \<noteq> - 1"
  shows "mv_values (mvreg_set a v r) =
           filter (\<lambda>(dots, _). \<exists>x. x \<noteq> a \<and> vclock dots x \<noteq> 0) (mv_values r) @
           [([(a, get_or 0 (mv_clock r) (actor_key a) + 1)], v)] \<and>
         mvreg_ok (mvreg_set a v r)"
proof -
  let ?c = "\<lambda>x. get_or 0 (mv_clock r) (actor_key x)"
  let ?n = "[(a, ?c a + 1)]"
  have f: "\<forall>x. vclock (fst e) x \<le> ?c x" if "e \<in> set (mv_values r)" for e
    using that assms(2) by (auto simp: mvreg_fresh_def)
  note L = le_single [OF f assms(3)]
  have v: "mv_values (mvreg_set a v r) =
      filter (\<lambda>(dots, _). \<exists>x. x \<noteq> a \<and> vclock dots x \<noteq> 0) (mv_values r) @ [(?n, v)]"
    using L(1) by (auto simp: mvreg_set_eq intro!: filter_cong)
  have "maximal (set (mv_values (mvreg_set a v r))) = set (mv_values (mvreg_set a v r))"
    using L(2) antichainD [of "set (mv_values r)"] assms(1)
    by (auto simp: mvreg_set_eq maximal_def mvreg_ok_def)
  with v assms(1) show ?thesis by (simp add: mvreg_ok_def) (simp add: mvreg_set_eq)
qed

theorem mvreg_set_values_witness:
  "mvreg_values (mvreg_set (ActorId [2]) (9 :: nat) (mvreg_set (ActorId [1]) 8 mvreg_new)) = [8, 9]"
proof -
  let ?r = "mvreg_set (ActorId [1]) (8 :: nat) mvreg_new"
  have r: "?r = MVReg [([(ActorId [1], 1)], 8)] [(1, 1)]"
    by (simp add: mvreg_set_eq mvreg_new_def entry_upd_def actor_key_def)
  have "mvreg_ok ?r" "mvreg_fresh ?r" "get_or 0 (mv_clock ?r) (actor_key (ActorId [2])) \<noteq> - 1"
    unfolding r by (auto simp: mvreg_ok_def mvreg_fresh_def maximal_def get_or_def actor_key_def)
  from mvreg_set_values [OF this, of 9] show ?thesis
    by (auto simp: mvreg_values_def r)
qed

text \<open>A merged register holds the maximal values of all contributions.\<close>

lemma merged_maximal:
  "merged mvreg_merge A s \<Longrightarrow> \<forall>x\<in>A. mvreg_ok x \<Longrightarrow>
     finite A \<and> set (mv_values s) = maximal (\<Union>x\<in>A. set (mv_values x))"
proof (induction rule: merged.induct)
  case (own s)
  then show ?case by (simp add: mvreg_ok_def)
next
  case (merge A a B b)
  let ?U = "\<lambda>A. \<Union>x\<in>A. set (mv_values x)"
  have ok: "mvreg_ok a" "mvreg_ok b"
    using merge.hyps merge.prems by (auto intro: mvreg.merged_valid)
  have IH: "finite A" "finite B" "set (mv_values a) = maximal (?U A)" "set (mv_values b) = maximal (?U B)"
    using merge by auto
  then have fin: "finite (?U A)" "finite (?U B)" by auto
  have "set (mv_values (mvreg_merge a b)) = maximal (set (mv_values a) \<union> set (mv_values b))"
    using mvreg_view_merge [OF ok] by (simp add: mv_view_def mv_sup_def)
  also have "\<dots> = maximal (?U A \<union> maximal (?U B))" unfolding IH by (rule maximal_absorb [OF fin(1)])
  also have "\<dots> = maximal (?U A \<union> ?U B)" using maximal_absorb [OF fin(2), of "?U A"] by (simp add: Un_commute)
  finally show ?case using IH(1,2) by (simp add: Un_commute)
qed

text \<open>
  C34: registers that have merged the same writes, in any order, grouping and repetition, hold
  the same set of values, namely those of all the writes that no other write causally dominates,
  and the same clock.
\<close>

theorem mvreg_converges:
  assumes "merged mvreg_merge A s" "merged mvreg_merge A t" "\<forall>x\<in>A. mvreg_ok x"
  shows "set (mv_values s) = maximal (\<Union>x\<in>A. set (mv_values x)) \<and> set (mv_values t) = set (mv_values s) \<and>
         get_or 0 (mv_clock s) = get_or 0 (mv_clock t) \<and> set (mvreg_values s) = set (mvreg_values t)"
  using mvreg.merged_converge [OF assms] merged_maximal [OF assms(1,3)] by (auto simp: mv_view_def mvreg_values_def)

theorem mvreg_converges_witness:
  "let a = mvreg_set (ActorId [1]) (8 :: nat) mvreg_new; b = mvreg_set (ActorId [2]) 9 mvreg_new
   in set (mvreg_values (mvreg_merge a b)) = set (mvreg_values (mvreg_merge b a))"
proof -
  let ?a = "mvreg_set (ActorId [1]) (8 :: nat) mvreg_new" and ?b = "mvreg_set (ActorId [2]) 9 mvreg_new"
  have 1: "merged mvreg_merge ({?a} \<union> {?b}) (mvreg_merge ?a ?b)" by (intro merged.intros)
  have 2: "merged mvreg_merge ({?b} \<union> {?a}) (mvreg_merge ?b ?a)" by (intro merged.intros)
  have e: "{?b} \<union> {?a} = {?a} \<union> {?b}" by auto
  have ok: "\<forall>x\<in>{?a} \<union> {?b}. mvreg_ok x"
    by (simp add: mvreg_set_eq mvreg_new_def mvreg_ok_def entry_upd_def)
  show ?thesis using mvreg_converges [OF 1 2 [unfolded e] ok] by (simp add: Let_def)
qed

text \<open>
  Merging a register with a copy of itself doubles every value: equal dots are not below
  each other, so the copies are taken for concurrent writes.
\<close>

theorem mvreg_merge_duplicates:
  assumes "mvreg_ok r"
  shows "mv_values (mvreg_merge r r) = mv_values r @ mv_values r \<and>
         mvreg_len (mvreg_merge r r) = 2 * mvreg_len r \<and> mvreg_value (mvreg_merge r r) = None"
proof -
  have "mv_values (mvreg_merge r r) = mv_values r @ mv_values r"
    using assms by (rule mvreg_self_merge)
  moreover have "(case xs @ xs of [(_, v)] \<Rightarrow> Some v | _ \<Rightarrow> None) = None" for xs :: "(MVDot list \<times> 'a) list"
    by (cases xs) (auto split: list.splits)
  ultimately show ?thesis by (simp add: mvreg_len_def mvreg_value_def)
qed

theorem mvreg_merge_duplicates_witness:
  "let r = mvreg_set actor_zero (8 :: nat) mvreg_new
   in mvreg_value r = Some 8 \<and> mvreg_value (mvreg_merge r r) = None"
proof -
  let ?r = "mvreg_set actor_zero (8 :: nat) mvreg_new"
  have "mvreg_ok ?r" by (simp add: mvreg_set_eq mvreg_new_def mvreg_ok_def entry_upd_def)
  from mvreg_merge_duplicates [OF this] show ?thesis
    by (simp add: Let_def) (simp add: mvreg_set_eq mvreg_new_def mvreg_value_def)
qed

text \<open>
  When the serialiser of the values can be undone, a register is read back exactly as it
  was written.
\<close>

theorem mvreg_roundtrip:
  assumes "mvreg_storable ser r" "\<And>v b. ser v = Some b \<Longrightarrow> de b = Some v"
  shows "mvreg_from_bytes de (mvreg_to_bytes ser r @ rest) = Ok r"
  using assms by (rule mvreg_read_back)

theorem mvreg_roundtrip_witness:
  "mvreg_from_bytes Some (mvreg_to_bytes Some (MVReg [([(actor_zero, 3)], [7, 8])] [(0, 3)]) @ []) =
     Ok (MVReg [([(actor_zero, 3)], [7, 8])] [(0, 3)])"
  by (rule mvreg_roundtrip) (simp_all add: mvreg_storable_def dots_ok_def)

end
