(* ===== verification/Or_Map.thy ===== *)
theory Or_Map
  imports Registers
begin

text \<open>
  The map of \<open>src/crdt/mod.rs\<close>: a last-writer-wins register per key and a set of removed
  keys that hides them. A key is the string's UTF-8 bytes. The byte format is that of
  \<open>ORMap<String, Vec<u8>>\<close>.
\<close>

section \<open>The code\<close>

datatype ('k, 'v) ORMap =
  ORMap (om_entries: "('k \<times> 'v LWWReg) list") (om_removed: "'k list")

definition ormap_new :: "('k, 'v) ORMap" where
  "ormap_new = ORMap [] []"

text \<open>\<open>V::default()\<close> is an argument, and \<open>LWWReg::default()\<close> is the register over it.\<close>

definition ormap_get_or_create :: "'v \<Rightarrow> 'k \<Rightarrow> ('k, 'v) ORMap \<Rightarrow> ('k, 'v) ORMap \<times> 'v LWWReg" where
  "ormap_get_or_create dv key m =
     (let es = entry_upd (lww_default dv) id key (om_entries m)
      in (ORMap es (hs_remove key (om_removed m)), get_or (lww_default dv) es key))"

definition ormap_put :: "'v \<Rightarrow> HLC \<Rightarrow> ActorId \<Rightarrow> 'k \<Rightarrow> 'v \<Rightarrow> ('k, 'v) ORMap \<Rightarrow> ('k, 'v) ORMap" where
  "ormap_put dv hlc actor key v m =
     ORMap (entry_upd (lww_default dv) (lww_update hlc actor v) key (om_entries m))
           (hs_remove key (om_removed m))"

definition ormap_remove :: "'k \<Rightarrow> ('k, 'v) ORMap \<Rightarrow> ('k, 'v) ORMap" where
  "ormap_remove key m = ORMap (om_entries m) (hs_insert key (om_removed m))"

definition ormap_get :: "('k, 'v) ORMap \<Rightarrow> 'k \<Rightarrow> 'v option" where
  "ormap_get m key =
     (if key \<in> set (om_removed m) then None else map_option lww_value (map_of (om_entries m) key))"

definition ormap_contains_key :: "('k, 'v) ORMap \<Rightarrow> 'k \<Rightarrow> bool" where
  "ormap_contains_key m key \<longleftrightarrow> key \<notin> set (om_removed m) \<and> map_of (om_entries m) key \<noteq> None"

definition ormap_iter :: "('k, 'v) ORMap \<Rightarrow> ('k \<times> 'v) list" where
  "ormap_iter m =
     map (\<lambda>(k, r). (k, lww_value r)) (filter (\<lambda>(k, r). k \<notin> set (om_removed m)) (om_entries m))"

definition ormap_merge :: "'v \<Rightarrow> ('k, 'v) ORMap \<Rightarrow> ('k, 'v) ORMap \<Rightarrow> ('k, 'v) ORMap" where
  "ormap_merge dv self other =
     (let entries = fold (\<lambda>(key, reg) es.
                        if key \<notin> set (om_removed self)
                        then entry_upd (lww_default dv) (\<lambda>e. lww_merge e reg) key es else es)
                      (om_entries other) (om_entries self);
          removed = fold (\<lambda>key rm. if key \<notin> fst ` set entries then hs_insert key rm else rm)
                      (om_removed other) (om_removed self)
      in ORMap entries removed)"

definition ormap_len :: "('k, 'v) ORMap \<Rightarrow> nat" where
  "ormap_len m = length (ormap_iter m)"

definition ormap_is_empty :: "('k, 'v) ORMap \<Rightarrow> bool" where
  "ormap_is_empty m \<longleftrightarrow> ormap_iter m = []"

definition ormap_clear :: "('k, 'v) ORMap \<Rightarrow> ('k, 'v) ORMap" where
  "ormap_clear m = ORMap [] []"

text \<open>A stamped value: the raw timestamp, the logical counter again as a \<open>u32\<close>, the actor.\<close>

definition stamp_le :: "HLC \<Rightarrow> ActorId \<Rightarrow> bytes" where
  "stamp_le hlc actor = u64_le (hlc_to_raw hlc) @ u32_le (ucast (hlc_logical hlc)) @ actor_bytes actor"

definition read_stamp :: "bytes \<Rightarrow> ((HLC \<times> ActorId) \<times> bytes) option" where
  "read_stamp bs =
     Option.bind (read_u64 bs) (\<lambda>(phys, r1).
     Option.bind (read_u32 r1) (\<lambda>(logical, r2).
     map_option (\<lambda>(a, r3). ((hlc_from_parts phys (ucast logical), ActorId a), r3))
       (read_n ACTOR_ID_SIZE r2)))"

definition ormap_entry_le :: "bytes \<times> bytes LWWReg \<Rightarrow> bytes" where
  "ormap_entry_le e =
     blob_le (fst e) @ stamp_le (lww_hlc (snd e)) (lww_actor (snd e)) @ blob_le (lww_value (snd e))"

definition ormap_to_bytes :: "(bytes, bytes) ORMap \<Rightarrow> bytes" where
  "ormap_to_bytes m =
     len_le (length (om_entries m)) @ concat (map ormap_entry_le (om_entries m)) @
     len_le (length (om_removed m)) @ concat (map blob_le (om_removed m))"

definition read_ormap_entry :: "bytes \<Rightarrow> ((bytes \<times> HLC \<times> ActorId \<times> bytes) \<times> bytes) option" where
  "read_ormap_entry bs =
     Option.bind (read_string bs) (\<lambda>(key, r1).
     Option.bind (read_stamp r1) (\<lambda>((hlc, actor), r2).
     map_option (\<lambda>(v, r3). ((key, hlc, actor, v), r3)) (read_blob r2)))"

definition ormap_from_bytes :: "bytes \<Rightarrow> (CrdtError, (bytes, bytes) ORMap) res" where
  "ormap_from_bytes data =
     ok_or (Option.bind (read_len data) (\<lambda>(entry_count, r0).
            Option.bind (read_loop read_ormap_entry (\<lambda>(k, hlc, actor, v). ormap_put [] hlc actor k v)
                           entry_count r0 ormap_new) (\<lambda>(m, r1).
            Option.bind (read_len r1) (\<lambda>(rem_count, r2).
            map_option fst (read_loop read_string ormap_remove rem_count r2 m))))) InvalidPayload"

section \<open>Lookup laws\<close>

definition ormap_ok :: "('k, 'v) ORMap \<Rightarrow> bool" where
  "ormap_ok m \<longleftrightarrow> hm_ok (om_entries m) \<and> distinct (om_removed m)"

lemma om_removed_put [simp]: "set (om_removed (ormap_put d h a k v m)) = set (om_removed m) - {k}"
  by (simp add: ormap_put_def)

lemma ormap_get_put [simp]:
  "ormap_get (ormap_put d h a k v m) x =
     (if x = k then Some (lww_value (lww_update h a v (get_or (lww_default d) (om_entries m) k)))
      else ormap_get m x)"
  by (simp add: ormap_get_def ormap_put_def)

lemma ormap_get_remove [simp]: "ormap_get (ormap_remove k m) x = (if x = k then None else ormap_get m x)"
  by (simp add: ormap_get_def ormap_remove_def)

lemma ormap_contains_get: "ormap_contains_key m k \<longleftrightarrow> ormap_get m k \<noteq> None"
  by (simp add: ormap_contains_key_def ormap_get_def)

lemma map_of_iter:
  fixes m :: "('a, 'b) ORMap"
  shows "map_of (ormap_iter m) k = ormap_get m k"
proof -
  have "map_of (map (\<lambda>(k, r). (k, lww_value r)) es) k = map_option lww_value (map_of es k)"
    for es :: "('a \<times> 'b LWWReg) list"
    by (induction es) auto
  then show ?thesis by (simp add: ormap_iter_def ormap_get_def map_of_update_filter)
qed

lemma fold_guarded_filter:
  "fold (\<lambda>(k, v) m. if P k then f k v m else m) es m = fold (\<lambda>(k, v). f k v) (filter (\<lambda>(k, v). P k) es) m"
  by (induction es arbitrary: m) auto

lemma merged_entries:
  assumes "hm_ok (om_entries b)"
  shows "map_of (om_entries (ormap_merge d a b)) x =
    (if x \<in> set (om_removed a) then map_of (om_entries a) x
     else case map_of (om_entries b) x of
       None \<Rightarrow> map_of (om_entries a) x
     | Some r \<Rightarrow> Some (lww_merge (get_or (lww_default d) (om_entries a) x) r))"
proof -
  let ?P = "\<lambda>k. k \<notin> set (om_removed a)"
  have "map_of (fold (\<lambda>(k, v) m. entry_upd (lww_default d) (\<lambda>e. lww_merge e v) k m) es m) x =
      (case map_of es x of None \<Rightarrow> map_of m x
       | Some r \<Rightarrow> Some (lww_merge (get_or (lww_default d) m x) r))" if "hm_ok es" for es m
    using that
  proof (induction es arbitrary: m)
    case (Cons e es)
    obtain k v where e: "e = (k, v)" by force
    then have "map_of es k = None" "hm_ok es" using Cons.prems by (auto simp: map_of_eq_None_iff)
    with e show ?case by (simp add: Cons.IH split: option.splits)
  qed simp
  note F = this
  have "hm_ok (filter (\<lambda>(k, v). ?P k) (om_entries b))"
    using assms by (rule distinct_map_filter)
  from F [OF this, of "om_entries a"] show ?thesis
    by (simp add: ormap_merge_def Let_def fold_guarded_filter map_of_update_filter)
qed

lemma merged_removed:
  "set (om_removed (ormap_merge d a b)) =
     set (om_removed a) \<union> {k \<in> set (om_removed b). map_of (om_entries (ormap_merge d a b)) k = None}"
proof -
  have "set (fold (\<lambda>key rm. if key \<notin> K then hs_insert key rm else rm) ks rm) = set rm \<union> (set ks - K)"
    for K :: "'a set" and ks rm
    by (induction ks arbitrary: rm) auto
  then show ?thesis by (auto simp: ormap_merge_def Let_def map_of_eq_None_iff)
qed

lemma get_merge:
  "hm_ok (om_entries b) \<Longrightarrow>
   ormap_get (ormap_merge d a b) k =
    (if k \<in> set (om_removed a) then None
     else case map_of (om_entries b) k of
       Some r \<Rightarrow> Some (lww_value (lww_merge (get_or (lww_default d) (om_entries a) k) r))
     | None \<Rightarrow> map_option lww_value (map_of (om_entries a) k))"
  by (auto simp: ormap_get_def merged_removed merged_entries split: option.splits)

section \<open>Bytes\<close>

definition ormap_storable :: "(bytes, bytes) ORMap \<Rightarrow> bool" where
  "ormap_storable m \<longleftrightarrow> ormap_ok m \<and> length (om_entries m) < 2 ^ 32 \<and> length (om_removed m) < 2 ^ 32 \<and>
     (\<forall>(k, r)\<in>set (om_entries m). string_ok k \<and> actor_ok (lww_actor r) \<and> length (lww_value r) < 2 ^ 32) \<and>
     (\<forall>k\<in>set (om_removed m). string_ok k)"

text \<open>A register as it comes back: the value and the actor, but a re-read timestamp.\<close>

definition reread_reg :: "'v LWWReg \<Rightarrow> 'v LWWReg" where
  "reread_reg r = LWWReg (reread_hlc (lww_hlc r)) (lww_actor r) (lww_value r)"

lemma read_stamp_append [codec_simps]:
  "actor_ok a \<Longrightarrow> read_stamp (stamp_le h a @ rest) = Some ((reread_hlc h, a), rest)"
  by (simp add: read_stamp_def stamp_le_def codec_simps actor_ok_def reread_hlc_def)

lemma lww_update_default [simp]: "lww_update h a v (lww_default d) = LWWReg h a v"
  by (simp add: lww_update_def lww_default_def hlc_from_raw_def less_eq_HLC_def)

lemma fold_put_new:
  "distinct (map fst es) \<Longrightarrow> fst ` set es \<inter> fst ` set m = {} \<Longrightarrow>
   fold (\<lambda>e. (\<lambda>(k, hlc, actor, v). ormap_put d hlc actor k v)
        (fst e, reread_hlc (lww_hlc (snd e)), lww_actor (snd e), lww_value (snd e))) es (ORMap m []) =
   ORMap (m @ map (map_prod id reread_reg) es) []"
proof (induction es arbitrary: m)
  case (Cons e es)
  obtain k r where e: "e = (k, r)" by force
  from Cons.prems e have k: "k \<notin> fst ` set m" and d: "distinct (map fst es)"
    and i: "fst ` set es \<inter> fst ` set (m @ [(k, reread_reg r)]) = {}" by auto
  show ?case using Cons.IH [OF d i] e k
    by (simp add: ormap_put_def entry_upd_def get_or_notin update_new reread_reg_def hs_remove_def)
qed simp

lemma fold_remove_new: "fold ormap_remove ks (ORMap m rm) = ORMap m (hs_extend ks rm)"
  unfolding hs_extend_def by (induction ks arbitrary: rm) (simp_all add: ormap_remove_def)

lemma ormap_read_back:
  assumes "ormap_storable m"
  shows "ormap_from_bytes (ormap_to_bytes m @ rest) =
    Ok (ORMap (map (map_prod id reread_reg) (om_entries m)) (om_removed m))"
proof -
  have ok: "ormap_ok m" "length (om_entries m) < 2 ^ 32" "length (om_removed m) < 2 ^ 32"
    using assms by (simp_all add: ormap_storable_def)
  let ?g = "\<lambda>e. (fst e, reread_hlc (lww_hlc (snd e)), lww_actor (snd e), lww_value (snd e))"
  have "read_ormap_entry (ormap_entry_le e @ r) = Some (?g e, r)" if "e \<in> set (om_entries m)" for e r
    using that assms by (auto simp: read_ormap_entry_def ormap_entry_le_def ormap_storable_def codec_simps)
  note E = read_loop_map [of "om_entries m" read_ormap_entry ormap_entry_le ?g, OF this]
  have R: "\<forall>k\<in>set (om_removed m). string_ok k" using assms by (simp add: ormap_storable_def)
  have "ormap_from_bytes (ormap_to_bytes m @ rest) =
      Ok (fold ormap_remove (om_removed m) (ORMap (map (map_prod id reread_reg) (om_entries m)) []))"
    using ok fold_put_new [of "om_entries m" "[]" "[]"]
    by (simp add: ormap_from_bytes_def ormap_to_bytes_def codec_simps E stringc.read_loop_concat [OF R]
        ormap_new_def ormap_ok_def)
  then show ?thesis using ok(1) by (simp add: fold_remove_new hs_extend_Nil ormap_ok_def)
qed

section \<open>Properties\<close>

text \<open>
  Putting a key makes it visible, with the new value exactly when the timestamp is not
  older than the one stored; removing hides it; other keys are not affected. Iteration shows
  exactly what lookups find.
\<close>

theorem ormap_put_remove:
  "ormap_get (ormap_put d hlc a k v m) x =
     (if x = k then Some (if lww_hlc (get_or (lww_default d) (om_entries m) k) \<le> hlc then v
                          else lww_value (get_or (lww_default d) (om_entries m) k))
      else ormap_get m x) \<and>
   ormap_get (ormap_remove k m) x = (if x = k then None else ormap_get m x) \<and>
   map_of (ormap_iter m) x = ormap_get m x \<and>
   ormap_contains_key m x = (ormap_get m x \<noteq> None)"
  by (auto simp: map_of_iter ormap_contains_get lww_update_def)

text \<open>
  What a merge keeps. The own removals always win, even over later writes of the other
  replica; a key not removed here takes the later of both registers, and the other replica's
  removal counts only for keys neither replica stores.
\<close>

theorem ormap_merge_get:
  assumes "ormap_ok b"
  shows "ormap_get (ormap_merge d a b) k =
    (if k \<in> set (om_removed a) then None
     else case map_of (om_entries b) k of
       Some r \<Rightarrow> Some (lww_value (lww_merge (get_or (lww_default d) (om_entries a) k) r))
     | None \<Rightarrow> map_option lww_value (map_of (om_entries a) k))"
  using assms by (simp add: ormap_ok_def get_merge)

theorem ormap_merge_get_witness:
  "ormap_get (ormap_merge 0 (ORMap [(1 :: nat, LWWReg (HLC 3) actor_zero (7 :: nat))] [])
       (ORMap [(1, LWWReg (HLC 5) actor_zero 8)] [1])) 1 = Some 8"
proof -
  have "ormap_ok (ORMap [(1 :: nat, LWWReg (HLC 5) actor_zero (8 :: nat))] [1])"
    by (simp add: ormap_ok_def)
  from ormap_merge_get [OF this, of 0 "ORMap [(1, LWWReg (HLC 3) actor_zero 7)] []" 1]
  show ?thesis by (simp add: get_or_def lww_merge_def less_HLC_def)
qed

text \<open>
  Merging is not commutative. After one of two equal replicas removes a key, merging them
  one way keeps the key removed and the other way keeps it visible.
\<close>

theorem ormap_merge_order_matters:
  assumes "ormap_ok m" "ormap_get m k = Some v"
  shows "ormap_get (ormap_merge d (ormap_remove k m) m) k = None \<and>
         ormap_get (ormap_merge d m (ormap_remove k m)) k = Some v"
proof -
  have ok: "hm_ok (om_entries m)" "hm_ok (om_entries (ormap_remove k m))"
    using assms(1) by (simp_all add: ormap_ok_def ormap_remove_def)
  obtain r where r: "map_of (om_entries m) k = Some r" "lww_value r = v" "k \<notin> set (om_removed m)"
    using assms(2) by (auto simp: ormap_get_def split: if_splits)
  have "lww_merge r r = r" by (simp add: lww_merge_def)
  then show ?thesis using r by (simp add: get_merge [OF ok(1)] get_merge [OF ok(2)]) (simp add: ormap_remove_def get_or_def)
qed

theorem ormap_merge_order_matters_witness:
  "let m = ormap_put 0 (HLC 1) actor_zero (1 :: nat) (5 :: nat) ormap_new
   in ormap_get (ormap_merge 0 (ormap_remove 1 m) m) 1 \<noteq> ormap_get (ormap_merge 0 m (ormap_remove 1 m)) 1"
proof -
  let ?m = "ormap_put 0 (HLC 1) actor_zero (1 :: nat) (5 :: nat) ormap_new"
  have "ormap_ok ?m" by (simp add: ormap_ok_def ormap_put_def ormap_new_def entry_upd_def hs_remove_def)
  moreover have "ormap_get ?m 1 = Some 5" by (simp add: ormap_new_def)
  ultimately show ?thesis using ormap_merge_order_matters [of ?m 1 5 0] by (simp add: Let_def)
qed

text \<open>
  Reading back a written map gives the same keys, values, actors and removed keys, with
  every timestamp replaced by what its raw word reads as in the place of a physical time.
\<close>

theorem ormap_roundtrip:
  assumes "ormap_storable m"
  shows "ormap_from_bytes (ormap_to_bytes m @ rest) =
    Ok (ORMap (map (map_prod id reread_reg) (om_entries m)) (om_removed m))"
  by (rule ormap_read_back [OF assms])

theorem ormap_roundtrip_witness:
  "ormap_from_bytes (ormap_to_bytes (ORMap [([0x61], LWWReg (HLC 0x10000) actor_zero [7])] [[0x62]]) @ []) =
     Ok (ORMap [([0x61], LWWReg (reread_hlc (HLC 0x10000)) actor_zero [7])] [[0x62]])"
  using ormap_roundtrip [of "ORMap [([0x61], LWWReg (HLC 0x10000) actor_zero [7])] [[0x62]]" "[]"]
  by (simp add: ormap_storable_def ormap_ok_def string_ok_def reread_reg_def)

end
