(* ===== verification/Crdt_State.thy ===== *)
theory Crdt_State
  imports Mv_Reg Or_Map
begin

text \<open>
  The sum of the replicated types (\<open>CrdtState\<close> of \<open>src/crdt/mod.rs\<close>, with its tag
  \<open>CrdtKind\<close> of \<open>src/store/mod.rs\<close>), nested through the values of a map: creation by kind,
  the join of two states, and the payload format of the log, the snapshot and the federation
  (\<open>to_bytes\<close> and \<open>deserialize_payload\<close>). The serialiser of register values is the
  parameter \<open>ser\<close>/\<open>de\<close> of \<open>Mv_Reg\<close>.
\<close>

section \<open>The code\<close>

datatype CrdtKind = GCOUNTER | PNCOUNTER | LWW_REG | ORSET | ORMAP | MVREG | FLAGSET

definition kind_from_u8 :: "u8 \<Rightarrow> CrdtKind option" where
  "kind_from_u8 v =
     (if v = 1 then Some GCOUNTER else if v = 2 then Some PNCOUNTER
      else if v = 3 then Some LWW_REG else if v = 4 then Some ORSET
      else if v = 5 then Some ORMAP else if v = 6 then Some MVREG
      else if v = 7 then Some FLAGSET else None)"

primrec kind_to_u8 :: "CrdtKind \<Rightarrow> u8" where
  "kind_to_u8 GCOUNTER = 1"
| "kind_to_u8 PNCOUNTER = 2"
| "kind_to_u8 LWW_REG = 3"
| "kind_to_u8 ORSET = 4"
| "kind_to_u8 ORMAP = 5"
| "kind_to_u8 MVREG = 6"
| "kind_to_u8 FLAGSET = 7"

definition kind_is_counter :: "CrdtKind \<Rightarrow> bool" where
  "kind_is_counter k \<longleftrightarrow> k = GCOUNTER \<or> k = PNCOUNTER"

definition kind_is_lww :: "CrdtKind \<Rightarrow> bool" where
  "kind_is_lww k \<longleftrightarrow> k = LWW_REG \<or> k = FLAGSET"

definition kind_is_collection :: "CrdtKind \<Rightarrow> bool" where
  "kind_is_collection k \<longleftrightarrow> k = ORSET \<or> k = ORMAP \<or> k = MVREG"

datatype CrdtState =
    CGCounter GCounter
  | CPNCounter PNCounter
  | CLWWReg "bytes LWWReg"
  | CORSet "bytes ORSet"
  | CORMap "(bytes, CrdtState) ORMap"
  | CMVReg "bytes MVReg"
  | CFlagSet FlagSet

definition cs_default :: CrdtState where
  "cs_default = CGCounter gcounter_new"

fun cs_new :: "CrdtKind \<Rightarrow> CrdtState" where
  "cs_new GCOUNTER = CGCounter gcounter_new"
| "cs_new PNCOUNTER = CPNCounter pncounter_new"
| "cs_new LWW_REG = CLWWReg (lww_default [])"
| "cs_new ORSET = CORSet orset_new"
| "cs_new ORMAP = CORMap ormap_new"
| "cs_new MVREG = CMVReg mvreg_new"
| "cs_new FLAGSET = CFlagSet flagset_new"

fun cs_kind :: "CrdtState \<Rightarrow> CrdtKind" where
  "cs_kind (CGCounter _) = GCOUNTER"
| "cs_kind (CPNCounter _) = PNCOUNTER"
| "cs_kind (CLWWReg _) = LWW_REG"
| "cs_kind (CORSet _) = ORSET"
| "cs_kind (CORMap _) = ORMAP"
| "cs_kind (CMVReg _) = MVREG"
| "cs_kind (CFlagSet _) = FLAGSET"

text \<open>\<open>join\<close> changes \<open>self\<close> and says whether the kinds agreed.\<close>

fun cs_join :: "CrdtState \<Rightarrow> CrdtState \<Rightarrow> CrdtState \<times> bool" where
  "cs_join (CGCounter a) (CGCounter b) = (CGCounter (gcounter_merge a b), True)"
| "cs_join (CPNCounter a) (CPNCounter b) = (CPNCounter (pncounter_merge a b), True)"
| "cs_join (CLWWReg a) (CLWWReg b) = (CLWWReg (lww_merge a b), True)"
| "cs_join (CORSet a) (CORSet b) = (CORSet (orset_merge a b), True)"
| "cs_join (CORMap a) (CORMap b) = (CORMap (ormap_merge cs_default a b), True)"
| "cs_join (CMVReg a) (CMVReg b) = (CMVReg (mvreg_merge a b), True)"
| "cs_join (CFlagSet a) (CFlagSet b) = (CFlagSet (flagset_merge a b), True)"
| "cs_join a b = (a, False)"

section \<open>Serialisation\<close>

lemma size_nested: "(k, r) \<in> set (om_entries m) \<Longrightarrow> size (lww_value r) < size (CORMap m)"
proof -
  assume "(k, r) \<in> set (om_entries m)"
  moreover obtain es rm where m: "m = ORMap es rm" by (cases m)
  ultimately have "(k, r) \<in> set es" by simp
  moreover obtain h a v where r: "r = LWWReg h a v" by (cases r)
  ultimately have "size v < size_list (size_prod (\<lambda>_. 0) (size_LWWReg size)) es"
    by (induction es) auto
  then show ?thesis by (simp add: m r)
qed

function (sequential) cs_to_bytes :: "(bytes \<Rightarrow> bytes option) \<Rightarrow> CrdtState \<Rightarrow> bytes" where
  "cs_to_bytes ser (CGCounter c) = gcounter_to_bytes c"
| "cs_to_bytes ser (CPNCounter c) = pncounter_to_bytes c"
| "cs_to_bytes ser (CLWWReg r) =
     u64_le (hlc_physical_ns (lww_hlc r)) @ u32_le (ucast (hlc_logical (lww_hlc r))) @
     actor_bytes (lww_actor r) @ blob_le (lww_value r)"
| "cs_to_bytes ser (CORSet s) = orset_to_bytes s"
| "cs_to_bytes ser (CORMap m) =
     (let visible = filter (\<lambda>(k, r). k \<notin> set (om_removed m)) (om_entries m)
      in len_le (length visible) @
         concat (map (\<lambda>(k, r).
           if k \<in> set (om_removed m) then []
           else blob_le k @ [kind_to_u8 (cs_kind (lww_value r))] @ stamp_le (lww_hlc r) (lww_actor r) @
                blob_le (cs_to_bytes ser (lww_value r))) (om_entries m)) @
         len_le (length (om_removed m)) @ concat (map blob_le (om_removed m)))"
| "cs_to_bytes ser (CMVReg r) = mvreg_to_bytes ser r"
| "cs_to_bytes ser (CFlagSet f) = flagset_to_bytes f"
  by pat_completeness auto

termination
  by (relation "measure (size \<circ> snd)") (auto intro: size_nested simp del: CrdtState.size)

text \<open>What the loop of \<open>deserialize_payload\<close> reads of a map entry before it recurses.\<close>

definition read_nested_head ::
    "bytes \<Rightarrow> ((bytes \<times> CrdtKind \<times> HLC \<times> ActorId \<times> bytes) \<times> bytes) option" where
  "read_nested_head bs =
     Option.bind (read_string bs) (\<lambda>(key, r1).
     Option.bind (read_u8 r1) (\<lambda>(kind_byte, r2).
     Option.bind (kind_from_u8 kind_byte) (\<lambda>kind.
     Option.bind (read_stamp r2) (\<lambda>((hlc, actor), r3).
     map_option (\<lambda>(state, r4). ((key, kind, hlc, actor, state), r4)) (read_blob r3)))))"

lemma read_stamp_shrinks: "read_stamp bs = Some (x, rest) \<Longrightarrow> length rest \<le> length bs"
  by (auto simp: read_stamp_def bind_eq_Some_conv read_u64_def read_u32_def dest!: read_n_Some)

lemma read_u8_shrinks: "read_u8 bs = Some (x, rest) \<Longrightarrow> length bs = Suc (length rest)"
  by (cases bs) (auto simp: read_u8_def)

lemma read_nested_head_shrinks:
  "read_nested_head bs = Some ((k, knd, h, a, st), rest) \<Longrightarrow> length st < length bs \<and> length rest < length bs"
  by (auto simp: read_nested_head_def bind_eq_Some_conv dest!: read_u8_shrinks
      dest!: read_string_shrinks read_stamp_shrinks read_blob_shrinks)

definition read_lww_payload :: "bytes \<Rightarrow> (CrdtError, CrdtState) res" where
  "read_lww_payload data =
     (if length data < 8 + 4 + ACTOR_ID_SIZE + 4 then Err InvalidPayload
      else
        let phys = le_u64 (take 8 data);
            logical = le_u32 (take 4 (drop 8 data));
            hlc = hlc_from_parts phys (ucast logical);
            actor = ActorId (take ACTOR_ID_SIZE (drop 12 data));
            value_len = unat (le_u32 (take 4 (drop (12 + ACTOR_ID_SIZE) data)))
        in if 12 + ACTOR_ID_SIZE + 4 + value_len > length data then Err InvalidPayload
           else Ok (CLWWReg (LWWReg hlc actor (take value_len (drop (12 + ACTOR_ID_SIZE + 4) data)))))"

text \<open>
  Malformed counters are not errors: \<open>if let Some(parsed)\<close> leaves the fresh state. The
  second function is the loop over the entries of a map.
\<close>

function deserialize_payload :: "(bytes \<Rightarrow> bytes option) \<Rightarrow> CrdtKind \<Rightarrow> bytes \<Rightarrow> (CrdtError, CrdtState) res"
  and deserialize_entries :: "(bytes \<Rightarrow> bytes option) \<Rightarrow> nat \<Rightarrow> bytes \<Rightarrow> (bytes, CrdtState LWWReg) hmap \<Rightarrow>
    (CrdtError, (bytes, CrdtState LWWReg) hmap \<times> bytes) res" where
  "deserialize_payload de kind data =
     (case kind of
        GCOUNTER \<Rightarrow> Ok (case gcounter_from_bytes data of Some c \<Rightarrow> CGCounter c | None \<Rightarrow> cs_new kind)
      | PNCOUNTER \<Rightarrow> (case pncounter_from_bytes data of
            Panic \<Rightarrow> Panic | Err _ \<Rightarrow> Ok (cs_new kind) | Ok c \<Rightarrow> Ok (CPNCounter c))
      | LWW_REG \<Rightarrow> read_lww_payload data
      | ORSET \<Rightarrow> bind_res (orset_from_bytes data) (\<lambda>s. Ok (CORSet s))
      | ORMAP \<Rightarrow>
          (case read_len data of
             None \<Rightarrow> Err InvalidPayload
           | Some (entry_count, r0) \<Rightarrow>
               bind_res (deserialize_entries de entry_count r0 []) (\<lambda>(entries, r1).
               bind_res (ok_or (Option.bind (read_len r1) (\<lambda>(rem_count, r2).
                   read_loop read_string hs_insert rem_count r2 [])) InvalidPayload) (\<lambda>(removed, _).
                 Ok (CORMap (ORMap entries removed)))))
      | MVREG \<Rightarrow> bind_res (mvreg_from_bytes de data) (\<lambda>r. Ok (CMVReg r))
      | FLAGSET \<Rightarrow> bind_res (flagset_from_bytes data) (\<lambda>f. Ok (CFlagSet f)))"
| "deserialize_entries de n data entries =
     (case n of
        0 \<Rightarrow> Ok (entries, data)
      | Suc n' \<Rightarrow>
          (case read_nested_head data of
             None \<Rightarrow> Err InvalidPayload
           | Some ((key, kind, hlc, actor, state), rest) \<Rightarrow>
               (case deserialize_payload de kind state of
                  Panic \<Rightarrow> Panic
                | Err e \<Rightarrow> Err e
                | Ok nested \<Rightarrow>
                    deserialize_entries de n' rest (AList.update key (LWWReg hlc actor nested) entries))))"
  by pat_completeness auto

termination
  by (relation "measure (\<lambda>x. case x of Inl (de, kind, data) \<Rightarrow> length data
                               | Inr (de, n, data, entries) \<Rightarrow> length data)")
    (auto dest: read_len_shrinks read_nested_head_shrinks)

declare deserialize_payload.simps [simp del] deserialize_entries.simps [simp del]

lemmas deserialize_simps = deserialize_payload.simps deserialize_entries.simps

section \<open>What survives serialisation\<close>

function (sequential) cs_storable :: "(bytes \<Rightarrow> bytes option) \<Rightarrow> CrdtState \<Rightarrow> bool" where
  "cs_storable ser (CGCounter c) \<longleftrightarrow> gcounter_storable c"
| "cs_storable ser (CPNCounter c) \<longleftrightarrow> pncounter_storable c"
| "cs_storable ser (CLWWReg r) \<longleftrightarrow> actor_ok (lww_actor r) \<and> length (lww_value r) < 2 ^ 32"
| "cs_storable ser (CORSet s) \<longleftrightarrow> orset_storable s"
| "cs_storable ser (CORMap m) \<longleftrightarrow>
     hm_ok (om_entries m) \<and> distinct (om_removed m) \<and> length (om_entries m) < 2 ^ 32 \<and>
     length (om_removed m) < 2 ^ 32 \<and> (\<forall>k\<in>set (om_removed m). string_ok k) \<and>
     (\<forall>(k, r)\<in>set (om_entries m).
        string_ok k \<and> actor_ok (lww_actor r) \<and> length (cs_to_bytes ser (lww_value r)) < 2 ^ 32 \<and>
        cs_storable ser (lww_value r))"
| "cs_storable ser (CMVReg r) \<longleftrightarrow> mvreg_storable ser r"
| "cs_storable ser (CFlagSet f) \<longleftrightarrow> actor_ok (fs_actor f)"
  by pat_completeness auto

termination
  by (relation "measure (size \<circ> snd)") (auto intro: size_nested simp del: CrdtState.size)

text \<open>The state that comes back: visible entries of maps, and re-read timestamps in maps and flags.\<close>

function (sequential) cs_reread :: "CrdtState \<Rightarrow> CrdtState" where
  "cs_reread (CORMap m) = CORMap (ORMap
     (map (\<lambda>(k, r). (k, LWWReg (reread_hlc (lww_hlc r)) (lww_actor r) (cs_reread (lww_value r))))
        (filter (\<lambda>(k, r). k \<notin> set (om_removed m)) (om_entries m))) (om_removed m))"
| "cs_reread (CORSet s) = CORSet (orset_reread s)"
| "cs_reread (CFlagSet f) = CFlagSet (f\<lparr>fs_timestamp := reread_hlc (fs_timestamp f)\<rparr>)"
| "cs_reread s = s"
  by pat_completeness auto

termination
  by (relation "measure size") (auto intro: size_nested simp del: CrdtState.size)

definition nested_le :: "(bytes \<Rightarrow> bytes option) \<Rightarrow> bytes \<times> CrdtState LWWReg \<Rightarrow> bytes" where
  "nested_le ser e =
     blob_le (fst e) @ [kind_to_u8 (cs_kind (lww_value (snd e)))] @
     stamp_le (lww_hlc (snd e)) (lww_actor (snd e)) @ blob_le (cs_to_bytes ser (lww_value (snd e)))"

lemma kind_from_to [simp]: "kind_from_u8 (kind_to_u8 k) = Some k"
  by (cases k) (simp_all add: kind_from_u8_def)

lemma read_nested_append [codec_simps]:
  "string_ok k \<Longrightarrow> actor_ok (lww_actor r) \<Longrightarrow> length (cs_to_bytes ser (lww_value r)) < 2 ^ 32 \<Longrightarrow>
   read_nested_head (nested_le ser (k, r) @ rest) =
     Some ((k, cs_kind (lww_value r), reread_hlc (lww_hlc r), lww_actor r, cs_to_bytes ser (lww_value r)), rest)"
  by (simp add: read_nested_head_def nested_le_def codec_simps)

lemma deserialize_entries_append:
  assumes "\<forall>(k, r)\<in>set es. string_ok k \<and> actor_ok (lww_actor r) \<and>
      length (cs_to_bytes ser (lww_value r)) < 2 ^ 32 \<and>
      deserialize_payload de (cs_kind (lww_value r)) (cs_to_bytes ser (lww_value r)) = Ok (g (lww_value r))"
  shows "deserialize_entries de (length es) (concat (map (nested_le ser) es) @ rest) acc =
    Ok (fold (\<lambda>(k, v) m. AList.update k v m)
      (map (\<lambda>(k, r). (k, LWWReg (reread_hlc (lww_hlc r)) (lww_actor r) (g (lww_value r)))) es) acc, rest)"
  using assms
proof (induction es arbitrary: acc)
  case Nil
  show ?case by (simp add: deserialize_entries.simps)
next
  case (Cons e es)
  obtain k r where e: "e = (k, r)" by force
  have p: "string_ok k" "actor_ok (lww_actor r)" "length (cs_to_bytes ser (lww_value r)) < 2 ^ 32"
    "deserialize_payload de (cs_kind (lww_value r)) (cs_to_bytes ser (lww_value r)) = Ok (g (lww_value r))"
    using Cons.prems by (simp_all add: e)
  have "\<forall>(k, r)\<in>set es. string_ok k \<and> actor_ok (lww_actor r) \<and>
      length (cs_to_bytes ser (lww_value r)) < 2 ^ 32 \<and>
      deserialize_payload de (cs_kind (lww_value r)) (cs_to_bytes ser (lww_value r)) = Ok (g (lww_value r))"
    using Cons.prems by simp
  note IH = Cons.IH [OF this]
  show ?case
    by (subst deserialize_entries.simps) (simp add: e read_nested_append [OF p(1-3)] p(4) IH)
qed

lemma concat_skip:
  "concat (map (\<lambda>(k, r). if P k then [] else f k r) es) =
     concat (map (\<lambda>(k, r). f k r) (filter (\<lambda>(k, r). \<not> P k) es))"
  by (induction es) auto

lemma ormap_state_bytes:
  "cs_to_bytes ser (CORMap m) =
     (let visible = filter (\<lambda>(k, r). k \<notin> set (om_removed m)) (om_entries m)
      in len_le (length visible) @ concat (map (nested_le ser) visible) @
         len_le (length (om_removed m)) @ concat (map blob_le (om_removed m)))"
  by (simp add: concat_skip Let_def) (simp add: nested_le_def [abs_def] case_prod_beta')

lemma lww_payload_read:
  assumes "actor_ok (lww_actor r)" "length (lww_value r) < 2 ^ 32"
  shows "read_lww_payload (cs_to_bytes ser (CLWWReg r)) = Ok (CLWWReg r)"
proof -
  have "unat (of_nat (length (lww_value r)) :: u32) = length (lww_value r)"
    using assms(2) by (rule unat_of_nat_u32)
  then show ?thesis using assms(1)
    by (simp add: read_lww_payload_def blob_le_def len_le_def actor_ok_def ACTOR_ID_SIZE_def
        from_parts_parts Let_def)
qed

lemma nested_map_read:
  assumes st: "cs_storable ser (CORMap m)"
    and nested: "\<And>k r. (k, r) \<in> set (om_entries m) \<Longrightarrow>
      deserialize_payload de (cs_kind (lww_value r)) (cs_to_bytes ser (lww_value r)) = Ok (cs_reread (lww_value r))"
  shows "deserialize_payload de ORMAP (cs_to_bytes ser (CORMap m)) = Ok (cs_reread (CORMap m))"
proof -
  let ?vis = "filter (\<lambda>(k, r). k \<notin> set (om_removed m)) (om_entries m)"
  let ?es = "map (\<lambda>(k, r). (k, LWWReg (reread_hlc (lww_hlc r)) (lww_actor r) (cs_reread (lww_value r)))) ?vis"
  have vis: "length ?vis < 2 ^ 32"
    by (rule le_less_trans [OF length_filter_le]) (use st in simp)
  have keys: "map fst ?es = map fst ?vis" by (simp add: case_prod_beta')
  have d: "hm_ok ?es" unfolding keys using st by (simp add: distinct_map_filter)
  have "\<forall>(k, r)\<in>set ?vis. string_ok k \<and> actor_ok (lww_actor r) \<and>
      length (cs_to_bytes ser (lww_value r)) < 2 ^ 32 \<and>
      deserialize_payload de (cs_kind (lww_value r)) (cs_to_bytes ser (lww_value r)) = Ok (cs_reread (lww_value r))"
    using st nested by auto
  note E = deserialize_entries_append [OF this, of _ "[]", unfolded fold_update_id [OF d]]
  have k: "\<forall>k\<in>set (om_removed m). string_ok k" and dr: "distinct (om_removed m)"
    and rl: "length (om_removed m) < 2 ^ 32" using st by simp_all
  have R: "read_loop read_string hs_insert (length (om_removed m)) (concat (map blob_le (om_removed m))) [] =
      Some (om_removed m, [])"
    using stringc.read_loop_concat [OF k, of hs_insert "[]" "[]"] hs_extend_Nil [OF dr]
    by (simp add: hs_extend_def)
  show ?thesis
    by (subst deserialize_payload.simps)
      (simp add: ormap_state_bytes Let_def read_len_append [OF vis] read_len_append [OF rl] E R
        del: cs_to_bytes.simps)
qed

lemma payload_read_back:
  assumes de: "\<And>v b. ser v = Some b \<Longrightarrow> de b = Some v"
  shows "cs_storable ser s \<Longrightarrow> deserialize_payload de (cs_kind s) (cs_to_bytes ser s) = Ok (cs_reread s)"
proof (induction "size s" arbitrary: s rule: less_induct)
  case less
  show ?case
  proof (cases s)
    case (CORMap m)
    have "deserialize_payload de (cs_kind (lww_value r)) (cs_to_bytes ser (lww_value r)) = Ok (cs_reread (lww_value r))"
      if "(k, r) \<in> set (om_entries m)" for k r
      using that less size_nested [OF that] by (auto simp: CORMap)
    from nested_map_read [OF less.prems [unfolded CORMap] this] show ?thesis
      by (simp add: CORMap del: cs_to_bytes.simps)
  qed (use less.prems gcounter_read [of _ "[]"] pncounter_read [of _ "[]"] orset_read_back [of _ "[]"]
         mvreg_read_back [OF _ de, where rest = "[]"] flagset_read [of _ "[]"] lww_payload_read
       in \<open>simp_all add: deserialize_payload.simps\<close>)
qed

section \<open>Properties\<close>

lemma cs_join_kind:
  "cs_kind (fst (cs_join a b)) = cs_kind a" "snd (cs_join a b) \<longleftrightarrow> cs_kind a = cs_kind b"
  "cs_kind a \<noteq> cs_kind b \<Longrightarrow> fst (cs_join a b) = a"
  by (cases a; cases b; simp)+

lemma cs_kind_new [simp]: "cs_kind (cs_new k) = k"
  by (cases k) simp_all

text \<open>
  A join succeeds exactly when the kinds agree, keeps the kind, and leaves the state
  alone otherwise; the tags of kinds are read back, and a fresh state has the kind asked for.
\<close>

theorem crdt_join_kinds:
  "cs_kind (fst (cs_join a b)) = cs_kind a \<and>
   snd (cs_join a b) = (cs_kind a = cs_kind b) \<and>
   (cs_kind a \<noteq> cs_kind b \<longrightarrow> fst (cs_join a b) = a) \<and>
   kind_from_u8 (kind_to_u8 k) = Some k \<and> cs_kind (cs_new k) = k"
  using cs_join_kind [of a b] by simp

theorem crdt_join_kinds_witness:
  "fst (cs_join (cs_new LWW_REG) (cs_new ORSET)) = cs_new LWW_REG"
  using crdt_join_kinds [of "cs_new LWW_REG" "cs_new ORSET" GCOUNTER] by simp

text \<open>
  C9: a state of any kind, nested maps included, whose parts fit their length fields, is read back from its bytes as
  \<open>cs_reread\<close> of it: counters, last-writer and multi-value registers exactly; sets with the same dots and
  tombstones, and counters that are recomputed from the dots; maps with their removed keys and those entries that are not
  removed, each re-read; timestamps inside maps and of flags with the raw time in place of the physical one. The
  serialiser of the values is undone by its parser.
\<close>

theorem crdt_payload_roundtrip:
  assumes "cs_storable ser s" "\<And>v b. ser v = Some b \<Longrightarrow> de b = Some v"
  shows "deserialize_payload de (cs_kind s) (cs_to_bytes ser s) = Ok (cs_reread s)"
  using assms by (intro payload_read_back)

theorem crdt_payload_roundtrip_witness:
  "let m = CORMap (ORMap [([0x61], LWWReg (HLC 0) actor_zero (CLWWReg (LWWReg (HLC 9) actor_zero [5])))] [])
   in deserialize_payload Some ORMAP (cs_to_bytes Some m) = Ok m"
proof -
  let ?m = "CORMap (ORMap [([0x61], LWWReg (HLC 0) actor_zero (CLWWReg (LWWReg (HLC 9) actor_zero [5])))] [])"
  have a: "length (actor_bytes actor_zero) = 16" by (simp add: actor_zero_def ACTOR_ID_SIZE_def)
  have s: "cs_storable Some ?m" by (simp add: string_ok_def a)
  have "reread_hlc (HLC 0) = HLC 0" by (simp add: reread_fixed hlc_logical_def)
  then have "cs_reread ?m = ?m" by simp
  with crdt_payload_roundtrip [of Some ?m Some, OF s] show ?thesis by (simp add: Let_def)
qed

lemma deserialize_kind:
  assumes "deserialize_payload de kind data = Ok s"
  shows "cs_kind s = kind"
  using assms
  by (cases kind)
    (auto simp: deserialize_payload.simps read_lww_payload_def Let_def split: res.splits option.splits if_splits)

text \<open>
  Decoding yields a state of the kind asked for or fails, but never fails for a grow-only
  counter: a payload that is cut short is taken for the empty counter, and so is a positive-
  negative counter's payload of fewer than eight bytes.
\<close>

theorem crdt_counter_payload_unchecked:
  "(deserialize_payload de kind data = Ok s \<longrightarrow> cs_kind s = kind) \<and>
   (deserialize_payload de GCOUNTER data \<noteq> Err e \<and> deserialize_payload de PNCOUNTER data \<noteq> Err e) \<and>
   (gcounter_from_bytes data = None \<longrightarrow> deserialize_payload de GCOUNTER data = Ok (CGCounter gcounter_new)) \<and>
   (length data < 8 \<longrightarrow> deserialize_payload de PNCOUNTER data = Ok (CPNCounter pncounter_new))"
  using deserialize_kind [of de kind data s]
  by (auto simp: deserialize_payload.simps pncounter_from_bytes_def split: res.splits)

theorem crdt_counter_payload_unchecked_witness:
  "deserialize_payload Some GCOUNTER [7, 0, 0, 0, 1, 2, 3] = Ok (CGCounter gcounter_new)"
proof -
  have "gcounter_from_bytes [7, 0, 0, 0, 1, 2, 3] = None" by code_simp
  with crdt_counter_payload_unchecked [of Some GCOUNTER "[7, 0, 0, 0, 1, 2, 3]"] show ?thesis by blast
qed

end
