(* ===== verification/Wal.thy ===== *)
theory Wal
  imports Crc32 Crdt_State
begin

text \<open>
  The write-ahead log of \<open>src/crdt/wal.rs\<close>: its record header, keys and records with
  their serialised form, the append-only writer, the validating iterator, random access and
  the utilities over whole files. A file is its bytes and an open handle is the bytes not yet
  read; the only I/O error is reading past the end. Offsets are natural numbers (a file is far
  below 2^64 bytes). The text of an \<open>Io\<close> error is cut down to its fixed part.
\<close>

section \<open>Constants\<close>

definition WAL_MAGIC :: u32 where "WAL_MAGIC = 0x4D455441"
definition WAL_VERSION :: u16 where "WAL_VERSION = 1"
definition RECORD_HEADER_SIZE :: nat where "RECORD_HEADER_SIZE = 50"
definition RECORD_ALIGNMENT :: nat where "RECORD_ALIGNMENT = 16"
definition MAX_PAYLOAD_SIZE :: nat where "MAX_PAYLOAD_SIZE = 16 * 1024 * 1024"
definition KEY_KIND_NODE :: u8 where "KEY_KIND_NODE = 1"
definition KEY_KIND_ATOM :: u8 where "KEY_KIND_ATOM = 2"
definition OP_UPSERT :: u8 where "OP_UPSERT = 1"
definition OP_REMOVE :: u8 where "OP_REMOVE = 2"
definition OP_MERGE_STATE :: u8 where "OP_MERGE_STATE = 3"
definition OP_TOMBSTONE :: u8 where "OP_TOMBSTONE = 4"

lemmas wal_constants = WAL_MAGIC_def WAL_VERSION_def RECORD_HEADER_SIZE_def RECORD_ALIGNMENT_def
  MAX_PAYLOAD_SIZE_def KEY_KIND_NODE_def KEY_KIND_ATOM_def OP_UPSERT_def OP_TOMBSTONE_def

section \<open>Record header\<close>

record RecordHeader =
  rh_magic :: u32
  rh_hlc_phys_ns :: u64
  rh_actor_id :: bytes
  rh_hlc_logical :: u32
  rh_payload_len :: u32
  rh_payload_crc32 :: u32
  rh_ver :: u16
  rh_flags :: u16
  rh_field_id :: u16
  rh_key_kind :: u8
  rh_crdt_kind :: u8
  rh_op :: u8
  rh_reserved :: u8

definition header_new :: "HLC \<Rightarrow> bytes \<Rightarrow> u8 \<Rightarrow> CrdtKind \<Rightarrow> u16 \<Rightarrow> u8 \<Rightarrow> bytes \<Rightarrow> RecordHeader" where
  "header_new hlc actor_id key_kind crdt_kind field_id op payload =
     \<lparr>rh_magic = WAL_MAGIC, rh_hlc_phys_ns = hlc_physical_ns hlc, rh_actor_id = actor_id,
      rh_hlc_logical = ucast (hlc_logical hlc), rh_payload_len = of_nat (length payload),
      rh_payload_crc32 = crc32 payload, rh_ver = WAL_VERSION, rh_flags = 0, rh_field_id = field_id,
      rh_key_kind = key_kind, rh_crdt_kind = kind_to_u8 crdt_kind, rh_op = op, rh_reserved = 0\<rparr>"

definition header_hlc :: "RecordHeader \<Rightarrow> HLC" where
  "header_hlc h = hlc_from_parts (rh_hlc_phys_ns h) (ucast (rh_hlc_logical h))"

definition header_crdt_kind :: "RecordHeader \<Rightarrow> CrdtKind option" where
  "header_crdt_kind h = kind_from_u8 (rh_crdt_kind h)"

definition header_validate_magic :: "RecordHeader \<Rightarrow> bool" where
  "header_validate_magic h \<longleftrightarrow> rh_magic h = WAL_MAGIC \<and> rh_ver h = WAL_VERSION"

definition header_validate_crc :: "RecordHeader \<Rightarrow> bytes \<Rightarrow> bool" where
  "header_validate_crc h payload \<longleftrightarrow> rh_payload_crc32 h = crc32 payload"

definition header_is_valid :: "RecordHeader \<Rightarrow> bool" where
  "header_is_valid h \<longleftrightarrow>
     header_validate_magic h \<and> rh_payload_len h \<le> of_nat MAX_PAYLOAD_SIZE \<and>
     (rh_key_kind h = KEY_KIND_NODE \<or> rh_key_kind h = KEY_KIND_ATOM) \<and>
     rh_op h \<ge> OP_UPSERT \<and> rh_op h \<le> OP_TOMBSTONE"

definition header_key_size :: "RecordHeader \<Rightarrow> nat option" where
  "header_key_size h =
     (if rh_key_kind h = KEY_KIND_NODE then Some 8
      else if rh_key_kind h = KEY_KIND_ATOM then Some 32 else None)"

text \<open>\<open>& !(RECORD_ALIGNMENT - 1)\<close> clears the low four bits.\<close>

definition header_total_size :: "RecordHeader \<Rightarrow> nat" where
  "header_total_size h =
     (let key_size = (case header_key_size h of Some n \<Rightarrow> n | None \<Rightarrow> 0);
          base_size = RECORD_HEADER_SIZE + key_size + unat (rh_payload_len h)
      in (base_size + RECORD_ALIGNMENT - 1) div RECORD_ALIGNMENT * RECORD_ALIGNMENT)"

definition header_write :: "RecordHeader \<Rightarrow> bytes" where
  "header_write h =
     u32_le (rh_magic h) @ u16_le (rh_ver h) @ u16_le (rh_flags h) @ u64_le (rh_hlc_phys_ns h) @
     u32_le (rh_hlc_logical h) @ rh_actor_id h @ [rh_key_kind h, rh_crdt_kind h] @
     u16_le (rh_field_id h) @ [rh_op h, rh_reserved h] @ u32_le (rh_payload_len h) @
     u32_le (rh_payload_crc32 h)"

text \<open>The slice is at least as long as the header; each read is at its fixed offset.\<close>

definition header_from_bytes :: "bytes \<Rightarrow> RecordHeader option" where
  "header_from_bytes buf =
     (if length buf < RECORD_HEADER_SIZE then None
      else Some
       \<lparr>rh_magic = le_u32 (take 4 buf), rh_hlc_phys_ns = le_u64 (take 8 (drop 8 buf)),
        rh_actor_id = take ACTOR_ID_SIZE (drop 20 buf), rh_hlc_logical = le_u32 (take 4 (drop 16 buf)),
        rh_payload_len = le_u32 (take 4 (drop 42 buf)), rh_payload_crc32 = le_u32 (take 4 (drop 46 buf)),
        rh_ver = le_u16 (take 2 (drop 4 buf)), rh_flags = le_u16 (take 2 (drop 6 buf)),
        rh_field_id = le_u16 (take 2 (drop 38 buf)), rh_key_kind = buf ! 36, rh_crdt_kind = buf ! 37,
        rh_op = buf ! 40, rh_reserved = buf ! 41\<rparr>)"

section \<open>Keys and records\<close>

datatype WalKey = NodeKey u64 | AtomKey bytes

primrec walkey_kind :: "WalKey \<Rightarrow> u8" where
  "walkey_kind (NodeKey _) = KEY_KIND_NODE"
| "walkey_kind (AtomKey _) = KEY_KIND_ATOM"

primrec walkey_size :: "WalKey \<Rightarrow> nat" where
  "walkey_size (NodeKey _) = 8"
| "walkey_size (AtomKey _) = 32"

primrec walkey_write :: "WalKey \<Rightarrow> bytes" where
  "walkey_write (NodeKey n) = u64_le n"
| "walkey_write (AtomKey a) = a"

definition walkey_from_bytes :: "u8 \<Rightarrow> bytes \<Rightarrow> WalKey option" where
  "walkey_from_bytes key_kind buf =
     (if key_kind = KEY_KIND_NODE then
        if length buf < 8 then None else Some (NodeKey (le_u64 (take 8 buf)))
      else if key_kind = KEY_KIND_ATOM then
        if length buf < 32 then None else Some (AtomKey (take 32 buf))
      else None)"

record WalRecord =
  wr_header :: RecordHeader
  wr_key :: WalKey
  wr_payload :: bytes

definition wal_record_new ::
    "HLC \<Rightarrow> bytes \<Rightarrow> WalKey \<Rightarrow> CrdtKind \<Rightarrow> u16 \<Rightarrow> u8 \<Rightarrow> bytes \<Rightarrow> WalRecord" where
  "wal_record_new hlc actor_id key crdt_kind field_id op payload =
     \<lparr>wr_header = header_new hlc actor_id (walkey_kind key) crdt_kind field_id op payload,
      wr_key = key, wr_payload = payload\<rparr>"

definition record_size :: "WalRecord \<Rightarrow> nat" where
  "record_size r = header_total_size (wr_header r)"

text \<open>
  \<open>serialize\<close> appends to an empty buffer. When the header announces less than the record holds,
  the padding \<open>total_size - current_size\<close> wraps to almost 2^64 zero bytes, which aborts.
\<close>

definition wal_serialize :: "WalRecord \<Rightarrow> (CrdtError, bytes) res" where
  "wal_serialize r =
     (let total_size = record_size r;
          buf = header_write (wr_header r) @ walkey_write (wr_key r) @ wr_payload r;
          current_size = length buf
      in if current_size > total_size then Panic
         else Ok (buf @ replicate (total_size - current_size) 0))"

section \<open>Writer\<close>

record WalWriter =
  ww_file :: bytes
  ww_current_offset :: nat

definition writer_create :: "bytes \<Rightarrow> WalWriter" where
  "writer_create file = \<lparr>ww_file = file, ww_current_offset = length file\<rparr>"

definition writer_append :: "WalRecord \<Rightarrow> WalWriter \<Rightarrow> (CrdtError, WalWriter \<times> nat) res" where
  "writer_append r w =
     (if length (wr_payload r) > MAX_PAYLOAD_SIZE then Err PayloadTooLarge
      else bind_res (wal_serialize r) (\<lambda>buf.
        Ok (\<lparr>ww_file = ww_file w @ buf, ww_current_offset = ww_current_offset w + length buf\<rparr>,
            ww_current_offset w)))"

text \<open>\<open>set_len\<close> cuts the file or extends it with zeros.\<close>

definition writer_truncate :: "nat \<Rightarrow> WalWriter \<Rightarrow> WalWriter" where
  "writer_truncate offset w =
     \<lparr>ww_file = take offset (ww_file w) @ replicate (offset - length (ww_file w)) 0,
      ww_current_offset = offset\<rparr>"

section \<open>Iterator\<close>

record WalIterator =
  wi_rest :: bytes
  wi_offset :: nat
  wi_file_size :: nat
  wi_records_read :: nat
  wi_bytes_read :: nat

definition wal_iter :: "bytes \<Rightarrow> WalIterator" where
  "wal_iter file =
     \<lparr>wi_rest = file, wi_offset = 0, wi_file_size = length file, wi_records_read = 0, wi_bytes_read = 0\<rparr>"

text \<open>\<open>read_exact\<close>: all the bytes asked for, or the end of the file and an error.\<close>

definition read_exact :: "nat \<Rightarrow> WalIterator \<Rightarrow> WalIterator \<times> bytes option" where
  "read_exact n it =
     (if n \<le> length (wi_rest it) then (it\<lparr>wi_rest := drop n (wi_rest it)\<rparr>, Some (take n (wi_rest it)))
      else (it\<lparr>wi_rest := []\<rparr>, None))"

text \<open>The header checks \<open>next_record\<close> and \<open>read_at\<close> share: parse, magic, validity, key size.\<close>

definition check_header :: "bytes \<Rightarrow> CrdtError + RecordHeader \<times> nat" where
  "check_header buf =
     (case header_from_bytes buf of
        None \<Rightarrow> Inl CorruptRecord
      | Some header \<Rightarrow>
          if \<not> header_validate_magic header then Inl InvalidMagic
          else if \<not> header_is_valid header then Inl CorruptRecord
          else (case header_key_size header of
                  None \<Rightarrow> Inl (InvalidKeyKind (rh_key_kind header))
                | Some n \<Rightarrow> Inr (header, n)))"

definition next_record :: "WalIterator \<Rightarrow> WalIterator \<times> (CrdtError + WalRecord option)" where
  "next_record it =
     (if wi_offset it + RECORD_HEADER_SIZE > wi_file_size it then (it, Inr None)
      else case read_exact RECORD_HEADER_SIZE it of
        (it1, None) \<Rightarrow> (it1, Inl EndOfFile)
      | (it1, Some header_buf) \<Rightarrow>
      case check_header header_buf of
        Inl e \<Rightarrow> (it1, Inl e)
      | Inr (header, key_size) \<Rightarrow>
      case read_exact key_size it1 of
        (it2, None) \<Rightarrow> (it2, Inl (Io ''Failed to read key''))
      | (it2, Some key_buf) \<Rightarrow>
      case walkey_from_bytes (rh_key_kind header) key_buf of
        None \<Rightarrow> (it2, Inl (InvalidKeyKind (rh_key_kind header)))
      | Some key \<Rightarrow>
      case read_exact (unat (rh_payload_len header)) it2 of
        (it3, None) \<Rightarrow> (it3, Inl (Io ''Failed to read payload''))
      | (it3, Some payload) \<Rightarrow>
      if \<not> header_validate_crc header payload then (it3, Inl CrcMismatch)
      else
      let total_size = header_total_size header;
          data_size = RECORD_HEADER_SIZE + key_size + unat (rh_payload_len header);
          padding = total_size - data_size
      in case (if padding > 0 then read_exact padding it3 else (it3, Some [])) of
        (it4, None) \<Rightarrow> (it4, Inl (Io ''Failed to read padding''))
      | (it4, Some _) \<Rightarrow>
          (it4\<lparr>wi_offset := wi_offset it4 + total_size,
               wi_records_read := wi_records_read it4 + 1,
               wi_bytes_read := wi_bytes_read it4 + total_size\<rparr>,
           Inr (Some \<lparr>wr_header = header, wr_key = key, wr_payload = payload\<rparr>)))"

definition iter_has_more :: "WalIterator \<Rightarrow> bool" where
  "iter_has_more it \<longleftrightarrow> wi_offset it + RECORD_HEADER_SIZE \<le> wi_file_size it"

text \<open>
  The loops over a log: \<open>step\<close> folds the state before the record, the state after it and the
  record; the loop ends with the error met, if any. Each record moves the offset forward, so
  it ends.
\<close>

lemma read_exact_offset:
  "read_exact n it = (it', x) \<Longrightarrow> wi_offset it' = wi_offset it \<and> wi_file_size it' = wi_file_size it"
  by (auto simp: read_exact_def split: if_splits)

lemma next_record_offset:
  assumes "next_record it = (it', Inr (Some r))"
  shows "wi_offset it' = wi_offset it + header_total_size (wr_header r) \<and>
    wi_file_size it' = wi_file_size it \<and> wi_offset it + RECORD_HEADER_SIZE \<le> wi_file_size it"
  using assms unfolding next_record_def
  by (auto simp: Let_def not_less split: if_splits prod.splits option.splits sum.splits
      dest!: read_exact_offset)

lemma total_size_pos: "0 < header_total_size h"
  by (simp add: header_total_size_def Let_def RECORD_HEADER_SIZE_def RECORD_ALIGNMENT_def)

lemma next_record_advances:
  assumes "next_record it = (it', Inr (Some r))"
  shows "wi_file_size it' - wi_offset it' < wi_file_size it - wi_offset it"
  using next_record_offset [OF assms] total_size_pos [of "wr_header r"]
  by (auto simp: RECORD_HEADER_SIZE_def)

function wal_loop :: "(WalIterator \<Rightarrow> WalIterator \<Rightarrow> WalRecord \<Rightarrow> 's \<Rightarrow> 's) \<Rightarrow> WalIterator \<Rightarrow> 's \<Rightarrow>
    's \<times> WalIterator \<times> CrdtError option" where
  "wal_loop step it s =
     (case next_record it of
        (it', Inl e) \<Rightarrow> (s, it', Some e)
      | (it', Inr None) \<Rightarrow> (s, it', None)
      | (it', Inr (Some r)) \<Rightarrow> wal_loop step it' (step it it' r s))"
  by pat_completeness auto

termination
  by (relation "measure (\<lambda>(step, it, s). wi_file_size it - wi_offset it)")
    (auto dest: next_record_advances [OF sym] next_record_advances)

declare wal_loop.simps [simp del]

definition scan_step ::
    "(WalRecord \<Rightarrow> bool) \<Rightarrow> WalRecord \<Rightarrow> (nat \<times> WalRecord) list \<times> nat \<Rightarrow> (nat \<times> WalRecord) list \<times> nat" where
  "scan_step predicate r s =
     (let (results, current_offset) = s
      in (if predicate r then results @ [(current_offset, r)] else results, current_offset + record_size r))"

definition wal_scan :: "(WalRecord \<Rightarrow> bool) \<Rightarrow> bytes \<Rightarrow> CrdtError + (nat \<times> WalRecord) list" where
  "wal_scan predicate file =
     (case wal_loop (\<lambda>_ _. scan_step predicate) (wal_iter file) ([], 0) of
        (_, _, Some e) \<Rightarrow> Inl e
      | ((results, _), _, None) \<Rightarrow> Inr results)"

text \<open>Random access: a fresh handle, the checks of the iterator, no check of the padding.\<close>

definition wal_read_at :: "bytes \<Rightarrow> nat \<Rightarrow> CrdtError + WalRecord" where
  "wal_read_at file offset =
     (if offset + RECORD_HEADER_SIZE > length file then Inl EndOfFile
      else case read_n RECORD_HEADER_SIZE (drop offset file) of
        None \<Rightarrow> Inl (Io ''Failed to read header'')
      | Some (header_buf, r1) \<Rightarrow>
      case check_header header_buf of
        Inl e \<Rightarrow> Inl e
      | Inr (header, key_size) \<Rightarrow>
      case read_n key_size r1 of
        None \<Rightarrow> Inl (Io ''failed to fill whole buffer'')
      | Some (key_buf, r2) \<Rightarrow>
      case walkey_from_bytes (rh_key_kind header) key_buf of
        None \<Rightarrow> Inl (InvalidKeyKind (rh_key_kind header))
      | Some key \<Rightarrow>
      case read_n (unat (rh_payload_len header)) r2 of
        None \<Rightarrow> Inl (Io ''failed to fill whole buffer'')
      | Some (payload, _) \<Rightarrow>
      if \<not> header_validate_crc header payload then Inl CrcMismatch
      else Inr \<lparr>wr_header = header, wr_key = key, wr_payload = payload\<rparr>)"

definition validate_wal :: "bytes \<Rightarrow> CrdtError + nat \<times> nat \<times> nat" where
  "validate_wal file =
     (case wal_loop (\<lambda>it _ r (valid_records, total_bytes, _).
              (valid_records + 1, total_bytes + record_size r, wi_offset it)) (wal_iter file) (0, 0, 0) of
        (_, _, Some e) \<Rightarrow> Inl (Io ''WAL validation failed'')
      | (s, _, None) \<Rightarrow> Inr s)"

text \<open>
  The copy appends to whatever the destination holds; the result is the destination's bytes
  and the counts, or the first error of the writer or of the iterator.
\<close>

definition compact_step ::
    "WalRecord \<Rightarrow> WalWriter \<times> nat \<times> nat \<times> (CrdtError, nat \<times> nat) res option \<Rightarrow>
     WalWriter \<times> nat \<times> nat \<times> (CrdtError, nat \<times> nat) res option" where
  "compact_step r s =
     (let (writer, copied, copied_bytes, failed) = s
      in if failed \<noteq> None then s
         else case writer_append r writer of
             Ok (writer', _) \<Rightarrow> (writer', copied + 1, copied_bytes + record_size r, None)
           | Err e \<Rightarrow> (writer, copied, copied_bytes, Some (Err e))
           | Panic \<Rightarrow> (writer, copied, copied_bytes, Some Panic))"

definition compact_wal :: "bytes \<Rightarrow> bytes \<Rightarrow> bytes \<times> (CrdtError, nat \<times> nat) res" where
  "compact_wal source dest =
     (case wal_loop (\<lambda>_ _. compact_step) (wal_iter source) (writer_create dest, 0, 0, None) of
        ((writer, copied, copied_bytes, Some e), _, _) \<Rightarrow> (ww_file writer, e)
      | ((writer, copied, copied_bytes, None), _, Some e) \<Rightarrow> (ww_file writer, Err e)
      | ((writer, copied, copied_bytes, None), _, None) \<Rightarrow> (ww_file writer, Ok (copied, copied_bytes)))"

definition recover_wal_tail :: "bytes \<Rightarrow> nat" where
  "recover_wal_tail file = fst (wal_loop (\<lambda>_ it' _ _. wi_offset it') (wal_iter file) 0)"

section \<open>Well-formed records\<close>

definition walkey_ok :: "WalKey \<Rightarrow> bool" where
  "walkey_ok k \<longleftrightarrow> (case k of NodeKey _ \<Rightarrow> True | AtomKey a \<Rightarrow> length a = 32)"

definition record_frame_ok :: "WalRecord \<Rightarrow> bool" where
  "record_frame_ok r \<longleftrightarrow>
     header_is_valid (wr_header r) \<and> length (rh_actor_id (wr_header r)) = ACTOR_ID_SIZE \<and>
     rh_key_kind (wr_header r) = walkey_kind (wr_key r) \<and> walkey_ok (wr_key r) \<and>
     unat (rh_payload_len (wr_header r)) = length (wr_payload r)"

definition wal_record_ok :: "WalRecord \<Rightarrow> bool" where
  "wal_record_ok r \<longleftrightarrow> record_frame_ok r \<and> header_validate_crc (wr_header r) (wr_payload r)"

definition record_data :: "WalRecord \<Rightarrow> nat" where
  "record_data r = RECORD_HEADER_SIZE + walkey_size (wr_key r) + length (wr_payload r)"

definition wal_bytes :: "WalRecord \<Rightarrow> bytes" where
  "wal_bytes r = header_write (wr_header r) @ walkey_write (wr_key r) @ wr_payload r @
     replicate (record_size r - record_data r) 0"

lemma header_length [simp]:
  "length (rh_actor_id h) = ACTOR_ID_SIZE \<Longrightarrow> length (header_write h) = RECORD_HEADER_SIZE"
  by (simp add: header_write_def RECORD_HEADER_SIZE_def ACTOR_ID_SIZE_def)

lemma walkey_length [simp]: "walkey_ok k \<Longrightarrow> length (walkey_write k) = walkey_size k"
  by (cases k) (simp_all add: walkey_ok_def)

lemma header_read_back:
  assumes "length (rh_actor_id h) = ACTOR_ID_SIZE"
  shows "header_from_bytes (header_write h @ rest) = Some h"
proof -
  have "length (rh_actor_id h) = 16" using assms by (simp add: ACTOR_ID_SIZE_def)
  then show ?thesis
    by (simp add: header_from_bytes_def header_write_def RECORD_HEADER_SIZE_def ACTOR_ID_SIZE_def nth_append)
qed

lemma walkey_read_back: "walkey_ok k \<Longrightarrow> walkey_from_bytes (walkey_kind k) (walkey_write k) = Some k"
  by (cases k) (simp_all add: walkey_from_bytes_def walkey_ok_def KEY_KIND_NODE_def KEY_KIND_ATOM_def)

lemma header_key_size_key: "rh_key_kind h = walkey_kind k \<Longrightarrow> header_key_size h = Some (walkey_size k)"
  by (cases k) (simp_all add: header_key_size_def KEY_KIND_NODE_def KEY_KIND_ATOM_def)

lemma frame_check:
  assumes "record_frame_ok r"
  shows "check_header (header_write (wr_header r)) = Inr (wr_header r, walkey_size (wr_key r))"
  using assms header_read_back [of "wr_header r" "[]"] header_key_size_key [of "wr_header r" "wr_key r"]
  by (cases "wr_key r") (auto simp: check_header_def record_frame_ok_def header_is_valid_def)

lemma frame_size:
  assumes "record_frame_ok r"
  shows "record_data r \<le> record_size r" "record_size r < record_data r + 16" "16 dvd record_size r"
    "length (wal_bytes r) = record_size r"
    "RECORD_HEADER_SIZE + walkey_size (wr_key r) + unat (rh_payload_len (wr_header r)) = record_data r"
proof -
  have s: "record_size r = (record_data r + 15) div 16 * 16"
    using assms header_key_size_key [of "wr_header r" "wr_key r"]
    by (simp add: record_size_def header_total_size_def record_frame_ok_def record_data_def
        RECORD_ALIGNMENT_def)
  show d: "record_data r \<le> record_size r" unfolding s by linarith
  show "record_size r < record_data r + 16" unfolding s by linarith
  show "16 dvd record_size r" unfolding s by simp
  show "length (wal_bytes r) = record_size r"
    using d assms by (simp add: wal_bytes_def record_frame_ok_def record_data_def)
  show "RECORD_HEADER_SIZE + walkey_size (wr_key r) + unat (rh_payload_len (wr_header r)) = record_data r"
    using assms by (simp add: record_frame_ok_def record_data_def)
qed

lemma serialize_ok:
  assumes "record_frame_ok r"
  shows "wal_serialize r = Ok (wal_bytes r)"
  using frame_size [OF assms] assms
  by (simp add: wal_serialize_def wal_bytes_def record_data_def record_frame_ok_def Let_def)

lemma record_size_ge: "record_frame_ok r \<Longrightarrow> RECORD_HEADER_SIZE \<le> record_size r"
  using frame_size(1) [of r] by (simp add: record_data_def)

lemma record_new_ok:
  assumes "length actor = ACTOR_ID_SIZE" "walkey_ok key" "length payload \<le> MAX_PAYLOAD_SIZE"
    "op \<in> {OP_UPSERT, OP_REMOVE, OP_MERGE_STATE, OP_TOMBSTONE}"
  shows "wal_record_ok (wal_record_new hlc actor key kind field op payload)"
proof -
  have l: "unat (of_nat (length payload) :: u32) = length payload"
    using assms(3) by (intro unat_of_nat_u32) (simp add: MAX_PAYLOAD_SIZE_def)
  then have "(of_nat (length payload) :: u32) \<le> of_nat MAX_PAYLOAD_SIZE"
    using assms(3) by (simp add: word_le_nat_alt MAX_PAYLOAD_SIZE_def)
  moreover have "walkey_kind key = KEY_KIND_NODE \<or> walkey_kind key = KEY_KIND_ATOM" by (cases key) auto
  moreover have "OP_UPSERT \<le> op \<and> op \<le> OP_TOMBSTONE"
    using assms(4) by (auto simp: OP_UPSERT_def OP_REMOVE_def OP_MERGE_STATE_def OP_TOMBSTONE_def)
  ultimately show ?thesis using assms l
    by (simp add: wal_record_ok_def record_frame_ok_def header_is_valid_def header_validate_magic_def
        header_validate_crc_def wal_record_new_def header_new_def)
qed

section \<open>Reading what was written\<close>

definition it_ok :: "WalIterator \<Rightarrow> bool" where
  "it_ok it \<longleftrightarrow> wi_offset it + length (wi_rest it) = wi_file_size it"

text \<open>The iterator after a record.\<close>

definition advance :: "WalRecord \<Rightarrow> WalIterator \<Rightarrow> WalIterator" where
  "advance r it =
     it\<lparr>wi_rest := drop (record_size r) (wi_rest it), wi_offset := wi_offset it + record_size r,
        wi_records_read := wi_records_read it + 1, wi_bytes_read := wi_bytes_read it + record_size r\<rparr>"

lemma read_exact_append [simp]:
  "wi_rest it = a @ b \<Longrightarrow> length a = n \<Longrightarrow> read_exact n it = (it\<lparr>wi_rest := b\<rparr>, Some a)"
  by (simp add: read_exact_def)

lemma it_ok_iter [simp]: "it_ok (wal_iter file)" "wi_rest (wal_iter file) = file" "wi_offset (wal_iter file) = 0"
  by (simp_all add: it_ok_def wal_iter_def)

lemma it_ok_advance: "it_ok it \<Longrightarrow> record_size r \<le> length (wi_rest it) \<Longrightarrow> it_ok (advance r it)"
  by (simp add: it_ok_def advance_def)

lemma next_frame:
  assumes r: "record_frame_ok r" and it: "it_ok it" and rest: "wi_rest it = wal_bytes r @ rest"
  shows "header_validate_crc (wr_header r) (wr_payload r) \<Longrightarrow> next_record it = (advance r it, Inr (Some r))"
    and "\<not> header_validate_crc (wr_header r) (wr_payload r) \<Longrightarrow> \<exists>it'. next_record it = (it', Inl CrcMismatch)"
proof -
  let ?h = "header_write (wr_header r)" and ?k = "walkey_write (wr_key r)"
  let ?pad = "replicate (record_size r - record_data r) (0 :: u8)"
  have w: "wi_rest it = ?h @ ?k @ wr_payload r @ ?pad @ rest" using rest by (simp add: wal_bytes_def)
  have fr: "length (rh_actor_id (wr_header r)) = ACTOR_ID_SIZE" "rh_key_kind (wr_header r) = walkey_kind (wr_key r)"
    "walkey_ok (wr_key r)" "unat (rh_payload_len (wr_header r)) = length (wr_payload r)"
    using r by (simp_all add: record_frame_ok_def)
  note len = header_length [OF fr(1)] walkey_length [OF fr(3)]
  have big: "\<not> wi_offset it + RECORD_HEADER_SIZE > wi_file_size it"
    using it w len by (simp add: it_ok_def)
  have pad: "(if 0 < record_size r - record_data r
      then read_exact (record_size r - record_data r) (it\<lparr>wi_rest := ?pad @ rest\<rparr>)
      else (it\<lparr>wi_rest := ?pad @ rest\<rparr>, Some [])) = (it\<lparr>wi_rest := rest\<rparr>, Some ?pad)"
    by simp
  have adv: "drop (record_size r) (wi_rest it) = rest"
    using frame_size(4) [OF r] rest by simp
  note key = walkey_read_back [OF fr(3), folded fr(2)]
  show "next_record it = (advance r it, Inr (Some r))" if "header_validate_crc (wr_header r) (wr_payload r)"
    unfolding next_record_def if_not_P [OF big] read_exact_append [OF w len(1)] prod.case option.case
      frame_check [OF r] sum.case
    using that pad frame_size(5) [OF r]
    by (simp add: len key fr(4) Let_def advance_def adv record_size_def [symmetric])
  show "\<exists>it'. next_record it = (it', Inl CrcMismatch)" if "\<not> header_validate_crc (wr_header r) (wr_payload r)"
    unfolding next_record_def if_not_P [OF big] read_exact_append [OF w len(1)] prod.case option.case
      frame_check [OF r] sum.case
    using that by (simp add: len key fr(4))
qed

text \<open>A record cut short, in the header, the key, the payload or the padding, is never returned.\<close>

lemma next_torn:
  assumes r: "record_frame_ok r" and it: "it_ok it"
    and rest: "wi_rest it = take n (wal_bytes r)" and n: "n < record_size r"
  shows "n < RECORD_HEADER_SIZE \<Longrightarrow> next_record it = (it, Inr None)"
    and "RECORD_HEADER_SIZE \<le> n \<Longrightarrow> \<exists>it' e. next_record it = (it', Inl e)"
proof -
  have len: "length (wi_rest it) = n" using n frame_size(4) [OF r] by (simp add: rest)
  show "next_record it = (it, Inr None)" if "n < RECORD_HEADER_SIZE"
    using that it len by (simp add: next_record_def it_ok_def)
  assume h: "RECORD_HEADER_SIZE \<le> n"
  have fr: "length (rh_actor_id (wr_header r)) = ACTOR_ID_SIZE" using r by (simp add: record_frame_ok_def)
  have big: "\<not> wi_offset it + RECORD_HEADER_SIZE > wi_file_size it"
    using it len h by (simp add: it_ok_def)
  have w: "wi_rest it = header_write (wr_header r) @ drop RECORD_HEADER_SIZE (take n (wal_bytes r))"
    using h header_length [OF fr] unfolding rest by (simp add: wal_bytes_def)
  let ?d = "drop RECORD_HEADER_SIZE (take n (wal_bytes r))"
  have pl: "unat (rh_payload_len (wr_header r)) = length (wr_payload r)" using r by (simp add: record_frame_ok_def)
  have dl: "length ?d + RECORD_HEADER_SIZE < record_size r"
    using len n h frame_size(4) [OF r] by simp
  have rd: "record_data r = RECORD_HEADER_SIZE + walkey_size (wr_key r) + length (wr_payload r)"
    by (simp add: record_data_def)
  show "\<exists>it' e. next_record it = (it', Inl e)"
    unfolding next_record_def if_not_P [OF big] read_exact_append [OF w header_length [OF fr]] prod.case option.case
      frame_check [OF r] sum.case
    using dl frame_size(1) [OF r]
    by (auto simp: read_exact_def Let_def pl rd record_size_def [symmetric] split: option.splits)
qed

lemma loop_records:
  assumes "\<forall>r\<in>set rs. wal_record_ok r" "it_ok it" "wi_rest it = concat (map wal_bytes rs) @ tail"
  shows "\<exists>it'. it_ok it' \<and> wi_rest it' = tail \<and> wi_offset it' = wi_offset it + length (concat (map wal_bytes rs)) \<and>
    wal_loop step it s = wal_loop step it' (snd (fold (\<lambda>r (it, s). (advance r it, step it (advance r it) r s)) rs (it, s)))"
  using assms
proof (induction rs arbitrary: it s)
  case (Cons r rs)
  have r: "record_frame_ok r" "header_validate_crc (wr_header r) (wr_payload r)"
    using Cons.prems(1) by (simp_all add: wal_record_ok_def)
  have w: "wi_rest it = wal_bytes r @ (concat (map wal_bytes rs) @ tail)" using Cons.prems(3) by simp
  note nx = next_frame(1) [OF r(1) Cons.prems(2) w r(2)]
  have ok: "it_ok (advance r it)"
    using Cons.prems(2) w frame_size(4) [OF r(1)] by (intro it_ok_advance) simp_all
  have rest: "wi_rest (advance r it) = concat (map wal_bytes rs) @ tail"
    using w frame_size(4) [OF r(1)] by (simp add: advance_def)
  have off: "wi_offset (advance r it) = wi_offset it + length (wal_bytes r)"
    using frame_size(4) [OF r(1)] by (simp add: advance_def)
  have loop: "wal_loop step it s = wal_loop step (advance r it) (step it (advance r it) r s)"
    by (subst wal_loop.simps) (simp add: nx)
  obtain it' where "it_ok it'" "wi_rest it' = tail"
    "wi_offset it' = wi_offset (advance r it) + length (concat (map wal_bytes rs))"
    "wal_loop step (advance r it) (step it (advance r it) r s) = wal_loop step it'
       (snd (fold (\<lambda>r (it, s). (advance r it, step it (advance r it) r s)) rs (advance r it, step it (advance r it) r s)))"
    using Cons.IH [OF _ ok rest, of "step it (advance r it) r s"] Cons.prems(1) by auto
  then show ?case using off loop by auto
qed auto

text \<open>The loop ends at an empty or short tail, and with an error at a longer piece of a record.\<close>

lemma loop_end:
  assumes "it_ok it" "length (wi_rest it) < RECORD_HEADER_SIZE"
  shows "wal_loop step it s = (s, it, None)"
  using assms by (subst wal_loop.simps) (simp add: next_record_def it_ok_def)

lemma loop_torn:
  assumes "record_frame_ok r" "it_ok it" "wi_rest it = take n (wal_bytes r)" "n < record_size r"
  shows "\<exists>it' e. wal_loop step it s = (s, it', e) \<and> (e = None \<longleftrightarrow> n < RECORD_HEADER_SIZE)"
proof (cases "n < RECORD_HEADER_SIZE")
  case True
  then show ?thesis using next_torn(1) [OF assms] by (subst wal_loop.simps) simp
next
  case False
  then obtain it' e where "next_record it = (it', Inl e)" using next_torn(2) [OF assms] by auto
  then show ?thesis using False by (subst wal_loop.simps) simp
qed

lemma loop_crc:
  assumes "record_frame_ok r" "it_ok it" "wi_rest it = wal_bytes r @ rest"
    "\<not> header_validate_crc (wr_header r) (wr_payload r)"
  shows "\<exists>it'. wal_loop step it s = (s, it', Some CrcMismatch)"
  using next_frame(2) [OF assms] by (subst wal_loop.simps) auto

text \<open>The states of the loops at the end of a list of records.\<close>

lemma fold_stateless:
  "snd (fold (\<lambda>r (it, s). (f r it, g r s)) rs (it, s)) = fold g rs s"
  by (induction rs arbitrary: it s) auto

lemma fold_recover:
  "\<forall>r\<in>set rs. wal_record_ok r \<Longrightarrow>
   snd (fold (\<lambda>r (it, s). (advance r it, wi_offset (advance r it))) rs (it, wi_offset it)) =
     wi_offset it + length (concat (map wal_bytes rs))"
proof (induction rs arbitrary: it)
  case (Cons r rs)
  have "wi_offset (advance r it) = wi_offset it + length (wal_bytes r)"
    using Cons.prems frame_size(4) [of r] by (simp add: advance_def wal_record_ok_def)
  then show ?case using Cons.IH [of "advance r it"] Cons.prems by simp
qed simp

lemma scan_step_pair:
  "scan_step P r (results, off) = (if P r then results @ [(off, r)] else results, off + record_size r)"
  by (simp add: scan_step_def)

lemma fold_scan:
  "fold (scan_step P) rs (xs, off) =
   (xs @ filter (\<lambda>(o', r). P r) (zip (map (\<lambda>i. off + sum_list (map record_size (take i rs))) [0..<length rs]) rs),
    off + sum_list (map record_size rs))"
proof (induction rs arbitrary: xs off)
  case (Cons r rs)
  have "map (\<lambda>i. off + sum_list (map record_size (take i (r # rs)))) [0..<length (r # rs)] =
      off # map (\<lambda>i. (off + record_size r) + sum_list (map record_size (take i rs))) [0..<length rs]"
    by (simp add: upt_conv_Cons map_Suc_upt [symmetric] add.assoc del: upt_Suc)
  then show ?case by (simp add: Cons.IH scan_step_pair add.assoc del: upt_Suc)
qed simp

text \<open>A loop whose step does not look at the iterator.\<close>

lemma loop_records_stateless:
  assumes "\<forall>r\<in>set rs. wal_record_ok r"
  shows "\<exists>it'. it_ok it' \<and> wi_rest it' = tail \<and>
    wal_loop (\<lambda>_ _. g) (wal_iter (concat (map wal_bytes rs) @ tail)) s = wal_loop (\<lambda>_ _. g) it' (fold g rs s)"
  using loop_records [OF assms, of "wal_iter (concat (map wal_bytes rs) @ tail)" tail "\<lambda>_ _. g" s]
  by (auto simp: fold_stateless)

lemma length_concat_bytes:
  "\<forall>r\<in>set rs. wal_record_ok r \<Longrightarrow> length (concat (map wal_bytes rs)) = sum_list (map record_size rs)"
  by (induction rs) (simp_all add: wal_record_ok_def frame_size(4))

text \<open>Random access at the start of a record.\<close>

lemma read_at_frame:
  assumes r: "record_frame_ok r"
  shows "wal_read_at (pre @ wal_bytes r @ post) (length pre) =
    (if header_validate_crc (wr_header r) (wr_payload r) then Inr r else Inl CrcMismatch)"
proof -
  have fr: "length (rh_actor_id (wr_header r)) = ACTOR_ID_SIZE" "rh_key_kind (wr_header r) = walkey_kind (wr_key r)"
    "walkey_ok (wr_key r)" "unat (rh_payload_len (wr_header r)) = length (wr_payload r)"
    using r by (simp_all add: record_frame_ok_def)
  have w: "wal_bytes r @ post = header_write (wr_header r) @ walkey_write (wr_key r) @ wr_payload r @
      (replicate (record_size r - record_data r) 0 @ post)"
    by (simp add: wal_bytes_def)
  have big: "\<not> length pre + RECORD_HEADER_SIZE > length (pre @ wal_bytes r @ post)"
    unfolding w using fr by simp
  have d: "drop (length pre) (pre @ wal_bytes r @ post) = wal_bytes r @ post" by simp
  show ?thesis
    unfolding wal_read_at_def if_not_P [OF big] d w
    by (simp add: read_n_append frame_check [OF r] fr(1,3,4) walkey_read_back [OF fr(3), folded fr(2)])
qed

text \<open>Appending a list of records.\<close>

primrec writer_append_all :: "WalRecord list \<Rightarrow> WalWriter \<Rightarrow> (CrdtError, WalWriter) res" where
  "writer_append_all [] w = Ok w"
| "writer_append_all (r # rs) w = bind_res (writer_append r w) (\<lambda>(w', _). writer_append_all rs w')"

lemma append_ok:
  assumes "wal_record_ok r"
  shows "writer_append r w =
    Ok (\<lparr>ww_file = ww_file w @ wal_bytes r, ww_current_offset = ww_current_offset w + length (wal_bytes r)\<rparr>,
        ww_current_offset w)"
proof -
  have f: "record_frame_ok r" using assms by (simp add: wal_record_ok_def)
  have "unat (rh_payload_len (wr_header r)) \<le> unat (of_nat MAX_PAYLOAD_SIZE :: u32)"
    using f by (simp add: record_frame_ok_def header_is_valid_def word_le_nat_alt)
  then have "length (wr_payload r) \<le> MAX_PAYLOAD_SIZE"
    using f by (simp add: record_frame_ok_def MAX_PAYLOAD_SIZE_def)
  then show ?thesis by (simp add: writer_append_def serialize_ok [OF f])
qed

lemma append_all_ok:
  "\<forall>r\<in>set rs. wal_record_ok r \<Longrightarrow>
   writer_append_all rs w =
    Ok \<lparr>ww_file = ww_file w @ concat (map wal_bytes rs),
        ww_current_offset = ww_current_offset w + length (concat (map wal_bytes rs))\<rparr>"
  by (induction rs arbitrary: w) (simp_all add: append_ok)

lemma fold_compact:
  "\<forall>r\<in>set rs. wal_record_ok r \<Longrightarrow>
   fold compact_step rs (w, n, b, None) =
    (\<lparr>ww_file = ww_file w @ concat (map wal_bytes rs),
      ww_current_offset = ww_current_offset w + length (concat (map wal_bytes rs))\<rparr>,
     n + length rs, b + length (concat (map wal_bytes rs)), None)"
proof (induction rs arbitrary: w n b)
  case (Cons r rs)
  then have "record_size r = length (wal_bytes r)" by (simp add: wal_record_ok_def frame_size(4))
  with Cons show ?case by (simp add: append_ok compact_step_def)
qed simp

section \<open>Properties\<close>

text \<open>
  A record built from valid parts serialises to its 50-byte header, its key and payload
  and less than 16 bytes of padding to a multiple of 16, and is read back from wherever it
  stands in a file.
\<close>

theorem wal_record_layout:
  assumes "length actor = ACTOR_ID_SIZE" "walkey_ok key" "length payload \<le> MAX_PAYLOAD_SIZE"
    "op \<in> {OP_UPSERT, OP_REMOVE, OP_MERGE_STATE, OP_TOMBSTONE}"
  shows "\<exists>buf. wal_serialize (wal_record_new hlc actor key kind field op payload) = Ok buf \<and>
    16 dvd length buf \<and> 50 + walkey_size key + length payload \<le> length buf \<and>
    length buf < 66 + walkey_size key + length payload \<and>
    wal_read_at (pre @ buf @ post) (length pre) = Inr (wal_record_new hlc actor key kind field op payload)"
proof -
  let ?r = "wal_record_new hlc actor key kind field op payload"
  have ok: "wal_record_ok ?r" by (rule record_new_ok [OF assms])
  then have f: "record_frame_ok ?r" by (simp add: wal_record_ok_def)
  have d: "record_data ?r = 50 + walkey_size key + length payload"
    by (simp add: record_data_def wal_record_new_def RECORD_HEADER_SIZE_def)
  have "16 dvd length (wal_bytes ?r)" "50 + walkey_size key + length payload \<le> length (wal_bytes ?r)"
    "length (wal_bytes ?r) < 66 + walkey_size key + length payload"
    using frame_size(1-4) [OF f] by (simp_all add: d)
  moreover have "wal_read_at (pre @ wal_bytes ?r @ post) (length pre) = Inr ?r"
    using ok by (simp add: read_at_frame [OF f] wal_record_ok_def)
  ultimately show ?thesis using serialize_ok [OF f] by blast
qed

theorem wal_record_layout_witness:
  "\<exists>buf. wal_serialize (wal_record_new (HLC 7) (replicate 16 1) (NodeKey 3) GCOUNTER 2 OP_UPSERT [9]) = Ok buf \<and>
    16 dvd length buf \<and> 50 + walkey_size (NodeKey 3) + length [9 :: u8] \<le> length buf \<and>
    length buf < 66 + walkey_size (NodeKey 3) + length [9 :: u8] \<and>
    wal_read_at ([] @ buf @ []) (length ([] :: bytes)) =
      Inr (wal_record_new (HLC 7) (replicate 16 1) (NodeKey 3) GCOUNTER 2 OP_UPSERT [9])"
  by (rule wal_record_layout) (simp_all add: ACTOR_ID_SIZE_def walkey_ok_def MAX_PAYLOAD_SIZE_def)

lemma sample_record_ok: "wal_record_ok (wal_record_new (HLC 7) (replicate 16 1) (NodeKey 3) GCOUNTER 2 OP_UPSERT [9])"
  by (rule record_new_ok) (simp_all add: ACTOR_ID_SIZE_def walkey_ok_def MAX_PAYLOAD_SIZE_def)

text \<open>
  C1: what the writer appends is what the reader finds. Appending well-formed records to an
  empty log succeeds, a scan of the file returns exactly those that satisfy the predicate, in
  order, and reading at each offset the scan reports returns that record.
\<close>

theorem wal_append_scan:
  assumes "\<forall>r\<in>set rs. wal_record_ok r"
  shows "\<exists>w xs. writer_append_all rs (writer_create []) = Ok w \<and> ww_current_offset w = length (ww_file w) \<and>
    wal_scan P (ww_file w) = Inr xs \<and> map snd xs = filter P rs \<and>
    (\<forall>(off, r)\<in>set xs. wal_read_at (ww_file w) off = Inr r)"
proof -
  let ?f = "concat (map wal_bytes rs)"
  let ?offs = "map (\<lambda>i. sum_list (map record_size (take i rs))) [0..<length rs]"
  let ?xs = "filter (\<lambda>(o', r). P r) (zip ?offs rs)"
  have w: "writer_append_all rs (writer_create []) = Ok \<lparr>ww_file = ?f, ww_current_offset = length ?f\<rparr>"
    using append_all_ok [OF assms, of "writer_create []"] by (simp add: writer_create_def)
  obtain it' where it': "it_ok it'" "wi_rest it' = []"
    "wal_loop (\<lambda>_ _. scan_step P) (wal_iter ?f) ([], 0) =
     wal_loop (\<lambda>_ _. scan_step P) it' (?xs, sum_list (map record_size rs))"
    using loop_records_stateless [OF assms, of "[]" "scan_step P" "([], 0)"] by (auto simp: fold_scan)
  have e: "length (wi_rest it') < RECORD_HEADER_SIZE" by (simp add: it'(2) RECORD_HEADER_SIZE_def)
  have s: "wal_scan P ?f = Inr ?xs"
    by (simp add: wal_scan_def it'(3) loop_end [OF it'(1) e])
  have m: "map snd ?xs = filter P rs"
  proof -
    have "length zs = length rs \<Longrightarrow> map snd (filter (\<lambda>(o', r). P r) (zip zs rs)) = filter P rs" for zs :: "nat list"
      by (induction zs rs rule: list_induct2) auto
    then show ?thesis by simp
  qed
  have "wal_read_at ?f off = Inr r" if x: "(off, r) \<in> set ?xs" for off r
  proof -
    obtain i where i: "i < length rs" "r = rs ! i" "off = sum_list (map record_size (take i rs))"
      using x by (auto simp: set_zip)
    have "rs = take i rs @ r # drop (Suc i) rs" using i by (simp add: id_take_nth_drop)
    then have f: "?f = concat (map wal_bytes (take i rs)) @ wal_bytes r @ concat (map wal_bytes (drop (Suc i) rs))"
      by (metis concat.simps(2) concat_append list.simps(9) map_append)
    have "off = length (concat (map wal_bytes (take i rs)))"
      using assms i by (subst length_concat_bytes) (auto dest: in_set_takeD)
    moreover have "wal_record_ok r" using assms i by simp
    ultimately show ?thesis
      using read_at_frame [of r "concat (map wal_bytes (take i rs))"]
      unfolding f by (simp add: wal_record_ok_def)
  qed
  then show ?thesis using w s m by auto
qed

theorem wal_append_scan_witness:
  "let r = wal_record_new (HLC 7) (replicate 16 1) (NodeKey 3) GCOUNTER 2 OP_UPSERT [9]
   in \<exists>w xs. writer_append_all [r, r] (writer_create []) = Ok w \<and>
        ww_current_offset w = length (ww_file w) \<and>
        wal_scan (\<lambda>_. True) (ww_file w) = Inr xs \<and> map snd xs = [r, r] \<and>
        (\<forall>(off, r)\<in>set xs. wal_read_at (ww_file w) off = Inr r)"
proof -
  let ?r = "wal_record_new (HLC 7) (replicate 16 1) (NodeKey 3) GCOUNTER 2 OP_UPSERT [9]"
  have ok: "\<forall>r\<in>set [?r, ?r]. wal_record_ok r" using sample_record_ok by simp
  show ?thesis using wal_append_scan [OF ok, of "\<lambda>_. True"] by (simp only: Let_def filter.simps if_True)
qed

text \<open>
  C5: a crash in the middle of an append. When a log of well-formed records ends in a strict
  prefix of another record, the recovery offset is the end of the last whole record, and
  truncating there and appending again gives a log that is read back in full.
\<close>

theorem wal_torn_write_recovered:
  assumes "\<forall>r\<in>set rs. wal_record_ok r" "wal_record_ok torn" "n < record_size torn" "wal_record_ok r'"
  shows "let file = concat (map wal_bytes rs) @ take n (wal_bytes torn);
             w = writer_truncate (recover_wal_tail file) (writer_create file)
         in recover_wal_tail file = length (concat (map wal_bytes rs)) \<and>
            writer_append_all [r'] w = writer_append_all (rs @ [r']) (writer_create [])"
proof -
  let ?p = "concat (map wal_bytes rs)"
  let ?f = "?p @ take n (wal_bytes torn)"
  have t: "record_frame_ok torn" using assms(2) by (simp add: wal_record_ok_def)
  obtain it' where it': "it_ok it'" "wi_rest it' = take n (wal_bytes torn)"
    "wal_loop (\<lambda>_ it' _ _. wi_offset it') (wal_iter ?f) 0 = wal_loop (\<lambda>_ it' _ _. wi_offset it') it' (length ?p)"
    using loop_records [OF assms(1), of "wal_iter ?f" "take n (wal_bytes torn)" "\<lambda>_ it' _ _. wi_offset it'" 0]
      fold_recover [OF assms(1), of "wal_iter ?f"] by auto
  have rec: "recover_wal_tail ?f = length ?p"
    using loop_torn [OF t it'(1,2) assms(3), of "\<lambda>_ it' _ _. wi_offset it'" "length ?p"] it'(3)
    by (auto simp: recover_wal_tail_def)
  have "writer_truncate (length ?p) (writer_create ?f) = \<lparr>ww_file = ?p, ww_current_offset = length ?p\<rparr>"
    by (simp add: writer_truncate_def writer_create_def)
  then show ?thesis
    using append_all_ok [of "rs @ [r']" "writer_create []"] assms(1,4) rec
    by (simp add: Let_def append_ok writer_create_def)
qed

theorem wal_torn_write_recovered_witness:
  "let r = wal_record_new (HLC 7) (replicate 16 1) (NodeKey 3) GCOUNTER 2 OP_UPSERT [9]
   in recover_wal_tail (wal_bytes r @ take 60 (wal_bytes r)) = length (wal_bytes r)"
proof -
  let ?r = "wal_record_new (HLC 7) (replicate 16 1) (NodeKey 3) GCOUNTER 2 OP_UPSERT [9]"
  have ok: "wal_record_ok ?r" by (rule sample_record_ok)
  have "60 < record_size ?r"
    by (simp add: record_size_def header_total_size_def Let_def wal_record_new_def header_new_def
        header_key_size_def RECORD_HEADER_SIZE_def RECORD_ALIGNMENT_def)
  from wal_torn_write_recovered [of "[?r]" ?r 60 ?r, OF _ ok this ok] ok show ?thesis
    by (simp add: Let_def)
qed

text \<open>
  C6: corruption is detected. When at most four consecutive bytes of a record's payload are
  changed, a scan of the log fails with a checksum error, so does reading the record at its
  offset, and recovery keeps exactly the records before it.
\<close>

theorem wal_corruption_detected:
  assumes "\<forall>r\<in>set rs. wal_record_ok r" "wal_record_ok r" "wr_payload r = xs @ w @ ys"
    "length w' = length w" "length w \<le> 4" "w' \<noteq> w"
  shows "let start = length (concat (map wal_bytes rs));
             file = concat (map wal_bytes rs) @ wal_bytes (r\<lparr>wr_payload := xs @ w' @ ys\<rparr>) @ rest
         in wal_scan P file = Inl CrcMismatch \<and> wal_read_at file start = Inl CrcMismatch \<and>
            recover_wal_tail file = start"
proof -
  let ?p = "concat (map wal_bytes rs)" and ?r = "r\<lparr>wr_payload := xs @ w' @ ys\<rparr>"
  let ?f = "?p @ wal_bytes ?r @ rest"
  have frame: "record_frame_ok ?r" using assms(2-4) by (simp add: wal_record_ok_def record_frame_ok_def)
  have crc: "\<not> header_validate_crc (wr_header ?r) (wr_payload ?r)"
    using assms(2-6) crc32_window_inj [of w w' xs ys]
    by (auto simp: wal_record_ok_def header_validate_crc_def)
  have loop: "\<exists>it''. wal_loop step (wal_iter ?f) s = (snd (fold (\<lambda>r (it, s). (advance r it, step it (advance r it) r s))
      rs (wal_iter ?f, s)), it'', Some CrcMismatch)" for step :: "WalIterator \<Rightarrow> WalIterator \<Rightarrow> WalRecord \<Rightarrow> 's \<Rightarrow> 's" and s
  proof -
    obtain it' where "it_ok it'" "wi_rest it' = wal_bytes ?r @ rest" and
      l: "wal_loop step (wal_iter ?f) s = wal_loop step it' (snd (fold (\<lambda>r (it, s). (advance r it, step it (advance r it) r s))
        rs (wal_iter ?f, s)))"
      using loop_records [OF assms(1), of "wal_iter ?f" "wal_bytes ?r @ rest" step s] by auto
    then show ?thesis unfolding l by (intro loop_crc [OF frame _ _ crc])
  qed
  have "wal_scan P ?f = Inl CrcMismatch"
    using loop [of "\<lambda>_ _. scan_step P" "([], 0)"]
    by (auto simp: wal_scan_def split: prod.splits)
  moreover have "wal_read_at ?f (length ?p) = Inl CrcMismatch"
    using crc by (simp add: read_at_frame [OF frame])
  moreover have "recover_wal_tail ?f = length ?p"
    using loop [of "\<lambda>_ it' _ _. wi_offset it'" 0] fold_recover [OF assms(1), of "wal_iter ?f"]
    by (auto simp: recover_wal_tail_def)
  ultimately show ?thesis by (simp add: Let_def)
qed

theorem wal_corruption_detected_witness:
  "let r = wal_record_new (HLC 7) (replicate 16 1) (NodeKey 3) GCOUNTER 2 OP_UPSERT [9]
   in recover_wal_tail (wal_bytes r @ wal_bytes (r\<lparr>wr_payload := [8]\<rparr>)) = length (wal_bytes r)"
proof -
  let ?r = "wal_record_new (HLC 7) (replicate 16 1) (NodeKey 3) GCOUNTER 2 OP_UPSERT [9]"
  have ok: "wal_record_ok ?r" by (rule sample_record_ok)
  have p: "wr_payload ?r = [] @ [9] @ []" by (simp add: wal_record_new_def)
  from wal_corruption_detected [of "[?r]" ?r "[]" "[9]" "[]" "[8]", OF _ ok p, of "[]" "\<lambda>_. True"] ok
  show ?thesis by (simp add: Let_def)
qed

text \<open>
  Compaction appends a whole log to the destination byte for byte; but it does not drop a
  damaged tail: when the log ends in a piece of a record at least as long as a header, the
  records before it have been copied and the result is an error.
\<close>

theorem wal_compact_copies_or_fails:
  assumes "\<forall>r\<in>set rs. wal_record_ok r" "wal_record_ok torn" "n < record_size torn"
  shows "let file = concat (map wal_bytes rs); (dest', result) = compact_wal (file @ take n (wal_bytes torn)) dest
         in dest' = dest @ file \<and>
            (if n < RECORD_HEADER_SIZE then result = Ok (length rs, length file) else \<exists>e. result = Err e)"
proof -
  let ?p = "concat (map wal_bytes rs)" and ?t = "take n (wal_bytes torn)"
  let ?s = "(\<lparr>ww_file = dest @ ?p, ww_current_offset = length dest + length ?p\<rparr>, length rs, length ?p,
      None :: (CrdtError, nat \<times> nat) res option)"
  have t: "record_frame_ok torn" using assms(2) by (simp add: wal_record_ok_def)
  have f: "fold compact_step rs (writer_create dest, 0, 0, None) = ?s"
    using fold_compact [OF assms(1), of "writer_create dest" 0 0] by (simp add: writer_create_def)
  obtain it' where it': "it_ok it'" "wi_rest it' = ?t"
    "wal_loop (\<lambda>_ _. compact_step) (wal_iter (?p @ ?t)) (writer_create dest, 0, 0, None) =
      wal_loop (\<lambda>_ _. compact_step) it' ?s"
    using loop_records_stateless [OF assms(1), of ?t compact_step "(writer_create dest, 0, 0, None)"]
    unfolding f by blast
  obtain it'' e where e: "wal_loop (\<lambda>_ _. compact_step) it' ?s = (?s, it'', e)" "e = None \<longleftrightarrow> n < RECORD_HEADER_SIZE"
    using loop_torn [OF t it'(1,2) assms(3), of "\<lambda>_ _. compact_step" ?s] by blast
  show ?thesis
    unfolding Let_def compact_wal_def it'(3) e(1) using e(2) by (cases e) simp_all
qed

theorem wal_compact_copies_or_fails_witness:
  "let r = wal_record_new (HLC 7) (replicate 16 1) (NodeKey 3) GCOUNTER 2 OP_UPSERT [9]
   in \<exists>e. snd (compact_wal (wal_bytes r @ take 60 (wal_bytes r)) []) = Err e"
proof -
  let ?r = "wal_record_new (HLC 7) (replicate 16 1) (NodeKey 3) GCOUNTER 2 OP_UPSERT [9]"
  have ok: "wal_record_ok ?r" by (rule sample_record_ok)
  have "60 < record_size ?r"
    by (simp add: record_size_def header_total_size_def Let_def wal_record_new_def header_new_def
        header_key_size_def RECORD_HEADER_SIZE_def RECORD_ALIGNMENT_def)
  from wal_compact_copies_or_fails [of "[?r]" ?r 60 "[]", OF _ ok this] ok show ?thesis
    by (auto simp: Let_def RECORD_HEADER_SIZE_def split: prod.splits)
qed

end
