(* ===== verification/Meta_Store.thy ===== *)
theory Meta_Store
  imports Wal "HOL-Library.Multiset"
begin

text \<open>
  The metadata store of \<open>src/crdt/mod.rs\<close>: a replicated state per (node, field) and per
  (atom, field), its merge, the export and import of single fields the federation uses, and
  the compaction of log records into a store (\<open>CompactionScheduler\<close>). Both tables are ordered maps
  of ordered maps, so the operations on one table are defined once for any key.
\<close>

section \<open>One table\<close>

type_synonym fields = "(u16, CrdtState) bmap"

definition tbl_fields :: "('k::linorder, fields) bmap \<Rightarrow> 'k \<Rightarrow> fields" where
  "tbl_fields t k = (case map_of t k of Some fs \<Rightarrow> fs | None \<Rightarrow> [])"

text \<open>\<open>entry(k).or_default().entry(field).or_insert_with(|| CrdtState::new(kind))\<close>.\<close>

definition tbl_get_crdt ::
    "'k::linorder \<Rightarrow> u16 \<Rightarrow> CrdtKind \<Rightarrow> ('k, fields) bmap \<Rightarrow> ('k, fields) bmap \<times> CrdtState" where
  "tbl_get_crdt k field kind t =
     (let fs = tbl_fields t k;
          st = (case map_of fs field of Some st \<Rightarrow> st | None \<Rightarrow> cs_new kind)
      in (bm_insert k (bm_insert field st fs) t, st))"

text \<open>Writing through the reference \<open>get_node_crdt\<close> returned.\<close>

definition tbl_set_crdt :: "'k::linorder \<Rightarrow> u16 \<Rightarrow> CrdtState \<Rightarrow> ('k, fields) bmap \<Rightarrow> ('k, fields) bmap" where
  "tbl_set_crdt k field st t = bm_insert k (bm_insert field st (tbl_fields t k)) t"

text \<open>The body of the inner loop of \<open>merge\<close>: a vacant entry gets a clone, then both are joined.\<close>

definition field_merge :: "u16 \<Rightarrow> CrdtState \<Rightarrow> fields \<Rightarrow> fields" where
  "field_merge field state m =
     (let cur = (case map_of m field of Some c \<Rightarrow> c | None \<Rightarrow> state)
      in bm_insert field (fst (cs_join cur state)) m)"

definition fields_merge :: "fields \<Rightarrow> fields \<Rightarrow> fields" where
  "fields_merge self other = fold (\<lambda>(field, state). field_merge field state) other self"

definition tbl_merge :: "('k::linorder, fields) bmap \<Rightarrow> ('k, fields) bmap \<Rightarrow> ('k, fields) bmap" where
  "tbl_merge self other =
     fold (\<lambda>(k, fs) t. bm_insert k (fields_merge (tbl_fields t k) fs) t) other self"

definition tbl_export ::
    "(bytes \<Rightarrow> bytes option) \<Rightarrow> ('k::linorder, fields) bmap \<Rightarrow> ('k \<times> u16 \<times> CrdtKind \<times> bytes) list" where
  "tbl_export ser t =
     concat (map (\<lambda>(k, fs). map (\<lambda>(field, st). (k, field, cs_kind st, cs_to_bytes ser st)) fs) t)"

definition tbl_import ::
    "(bytes \<Rightarrow> bytes option) \<Rightarrow> 'k::linorder \<Rightarrow> u16 \<Rightarrow> CrdtKind \<Rightarrow> bytes \<Rightarrow> ('k, fields) bmap \<Rightarrow>
     ('k, fields) bmap \<times> (CrdtError, bool) res" where
  "tbl_import de k field kind state_bytes t =
     (case deserialize_payload de kind state_bytes of
        Panic \<Rightarrow> (t, Panic)
      | Err e \<Rightarrow> (t, Err e)
      | Ok remote_state \<Rightarrow>
          let (t', local_crdt) = tbl_get_crdt k field kind t;
              (joined, same_kind) = cs_join local_crdt remote_state
          in (tbl_set_crdt k field joined t', Ok same_kind))"

section \<open>The store\<close>

record MetaStore =
  ms_actor_id :: ActorId
  ms_hlc :: HLC
  ms_nodes :: "(u64, fields) bmap"
  ms_atoms :: "(bytes, fields) bmap"

definition meta_new :: "u64 \<Rightarrow> ActorId \<Rightarrow> MetaStore" where
  "meta_new now actor_id =
     \<lparr>ms_actor_id = actor_id, ms_hlc = hlc_now now, ms_nodes = [], ms_atoms = []\<rparr>"

definition meta_tick :: "u64 \<Rightarrow> MetaStore \<Rightarrow> MetaStore" where
  "meta_tick now s = s\<lparr>ms_hlc := hlc_tick now (ms_hlc s)\<rparr>"

definition meta_get_node_crdt :: "u64 \<Rightarrow> u16 \<Rightarrow> CrdtKind \<Rightarrow> MetaStore \<Rightarrow> MetaStore \<times> CrdtState" where
  "meta_get_node_crdt node field kind s =
     (let (t, st) = tbl_get_crdt node field kind (ms_nodes s) in (s\<lparr>ms_nodes := t\<rparr>, st))"

definition meta_get_atom_crdt :: "bytes \<Rightarrow> u16 \<Rightarrow> CrdtKind \<Rightarrow> MetaStore \<Rightarrow> MetaStore \<times> CrdtState" where
  "meta_get_atom_crdt atom field kind s =
     (let (t, st) = tbl_get_crdt atom field kind (ms_atoms s) in (s\<lparr>ms_atoms := t\<rparr>, st))"

text \<open>\<open>apply_wal_record\<close> checks the header and reports success, and changes nothing.\<close>

definition meta_apply_wal_record :: "RecordHeader \<Rightarrow> bytes \<Rightarrow> MetaStore \<Rightarrow> MetaStore \<times> bool" where
  "meta_apply_wal_record header payload s =
     (if \<not> header_is_valid header then (s, False)
      else case header_crdt_kind header of
        None \<Rightarrow> (s, False)
      | Some _ \<Rightarrow>
          if rh_key_kind header = KEY_KIND_NODE then (s, True)
          else if rh_key_kind header = KEY_KIND_ATOM then (s, True)
          else (s, False))"

definition meta_merge :: "MetaStore \<Rightarrow> MetaStore \<Rightarrow> MetaStore" where
  "meta_merge self other =
     self\<lparr>ms_nodes := tbl_merge (ms_nodes self) (ms_nodes other),
          ms_atoms := tbl_merge (ms_atoms self) (ms_atoms other)\<rparr>"

definition meta_export_node_fields ::
    "(bytes \<Rightarrow> bytes option) \<Rightarrow> MetaStore \<Rightarrow> (u64 \<times> u16 \<times> CrdtKind \<times> bytes) list" where
  "meta_export_node_fields ser s = tbl_export ser (ms_nodes s)"

definition meta_export_atom_fields ::
    "(bytes \<Rightarrow> bytes option) \<Rightarrow> MetaStore \<Rightarrow> (bytes \<times> u16 \<times> CrdtKind \<times> bytes) list" where
  "meta_export_atom_fields ser s = tbl_export ser (ms_atoms s)"

definition meta_import_node_field ::
    "(bytes \<Rightarrow> bytes option) \<Rightarrow> u64 \<Rightarrow> u16 \<Rightarrow> CrdtKind \<Rightarrow> bytes \<Rightarrow> MetaStore \<Rightarrow>
     MetaStore \<times> (CrdtError, bool) res" where
  "meta_import_node_field de node field kind state_bytes s =
     (let (t, r) = tbl_import de node field kind state_bytes (ms_nodes s) in (s\<lparr>ms_nodes := t\<rparr>, r))"

definition meta_import_atom_field ::
    "(bytes \<Rightarrow> bytes option) \<Rightarrow> bytes \<Rightarrow> u16 \<Rightarrow> CrdtKind \<Rightarrow> bytes \<Rightarrow> MetaStore \<Rightarrow>
     MetaStore \<times> (CrdtError, bool) res" where
  "meta_import_atom_field de atom field kind state_bytes s =
     (let (t, r) = tbl_import de atom field kind state_bytes (ms_atoms s) in (s\<lparr>ms_atoms := t\<rparr>, r))"

definition meta_has_node :: "MetaStore \<Rightarrow> u64 \<Rightarrow> bool" where
  "meta_has_node s node \<longleftrightarrow> map_of (ms_nodes s) node \<noteq> None"

definition meta_has_atom :: "MetaStore \<Rightarrow> bytes \<Rightarrow> bool" where
  "meta_has_atom s atom \<longleftrightarrow> map_of (ms_atoms s) atom \<noteq> None"

section \<open>Compaction\<close>

record CompactionConfig =
  cc_wal_size_threshold_pct :: u8
  cc_max_wal_files :: u32
  cc_max_wal_age_hours :: u32
  cc_tombstone_retention_hours :: u32

definition compaction_default :: CompactionConfig where
  "compaction_default =
     \<lparr>cc_wal_size_threshold_pct = 25, cc_max_wal_files = 8, cc_max_wal_age_hours = 24,
      cc_tombstone_retention_hours = 168\<rparr>"

definition should_compact :: "CompactionConfig \<Rightarrow> 'p list \<Rightarrow> u64 \<Rightarrow> u64 \<Rightarrow> bool" where
  "should_compact config wal_files snapshot_size wal_total_size \<longleftrightarrow>
     (if (of_nat (length wal_files) :: u32) > cc_max_wal_files config then True
      else if snapshot_size > 0 then
        wal_total_size > snapshot_size * ucast (cc_wal_size_threshold_pct config) div 100
      else wal_files \<noteq> [])"

text \<open>
  \<open>mtime\<close> is the modification time of a file in seconds, when the file system gives one, and
  \<open>now\<close> the current time. \<open>min_by_key\<close> returns the first least element.
\<close>

definition wals_too_old :: "CompactionConfig \<Rightarrow> ('p \<Rightarrow> u64 option) \<Rightarrow> u64 \<Rightarrow> 'p list \<Rightarrow> bool" where
  "wals_too_old config mtime now wal_files =
     (if wal_files = [] then False
      else
        let max_age = ucast (cc_max_wal_age_hours config) * 3600 :: u64;
            key = (\<lambda>p. case mtime p of Some t \<Rightarrow> t | None \<Rightarrow> - 1);
            oldest = fold (\<lambda>p best. if key p < key best then p else best) (tl wal_files) (hd wal_files);
            file_age = (case mtime oldest of Some t \<Rightarrow> (if t \<le> now then now - t else 0) | None \<Rightarrow> 0)
        in file_age > max_age)"

definition compact_record ::
    "(bytes \<Rightarrow> bytes option) \<Rightarrow> WalRecord \<Rightarrow> MetaStore \<Rightarrow> (CrdtError, MetaStore) res" where
  "compact_record de r store =
     (let field_id = rh_field_id (wr_header r)
      in bind_res (ok_or (header_crdt_kind (wr_header r)) InvalidPayload) (\<lambda>kind.
         case wr_key r of
           NodeKey node \<Rightarrow>
             (let (t, existing) = tbl_get_crdt node field_id kind (ms_nodes store)
              in bind_res (deserialize_payload de kind (wr_payload r)) (\<lambda>new_state.
                   Ok (store\<lparr>ms_nodes := tbl_set_crdt node field_id (fst (cs_join existing new_state)) t\<rparr>)))
         | AtomKey atom \<Rightarrow>
             (let (t, existing) = tbl_get_crdt atom field_id kind (ms_atoms store)
              in bind_res (deserialize_payload de kind (wr_payload r)) (\<lambda>new_state.
                   Ok (store\<lparr>ms_atoms := tbl_set_crdt atom field_id (fst (cs_join existing new_state)) t\<rparr>)))))"

primrec compact_loop ::
    "(bytes \<Rightarrow> bytes option) \<Rightarrow> WalRecord list \<Rightarrow> MetaStore \<Rightarrow> (CrdtError, MetaStore) res" where
  "compact_loop de [] store = Ok store"
| "compact_loop de (r # rs) store = bind_res (compact_record de r store) (compact_loop de rs)"

definition wal_stamp :: "WalRecord \<Rightarrow> u64 \<times> u32" where
  "wal_stamp r = (rh_hlc_phys_ns (wr_header r), rh_hlc_logical (wr_header r))"

text \<open>\<open>sort_by_key\<close> is stable, and so is \<open>sort_key\<close>.\<close>

definition compact_records ::
    "(bytes \<Rightarrow> bytes option) \<Rightarrow> u64 \<Rightarrow> WalRecord list \<Rightarrow> MetaStore option \<Rightarrow> ActorId \<Rightarrow>
     (CrdtError, MetaStore) res" where
  "compact_records de now wal_records current_snapshot actor_id =
     (let store = (case current_snapshot of Some s \<Rightarrow> s | None \<Rightarrow> meta_new now actor_id);
          sorted_records = sort_key wal_stamp wal_records
      in compact_loop de sorted_records store)"

section \<open>Fields\<close>

text \<open>The field of a key, if any; the tables are sorted at both levels.\<close>

definition tbl_field :: "('k::linorder, fields) bmap \<Rightarrow> 'k \<Rightarrow> u16 \<Rightarrow> CrdtState option" where
  "tbl_field t k field = map_of (tbl_fields t k) field"

definition tbl_ok :: "('k::linorder, fields) bmap \<Rightarrow> bool" where
  "tbl_ok t \<longleftrightarrow> bm_ok t \<and> (\<forall>(k, fs)\<in>set t. bm_ok fs)"

definition meta_ok :: "MetaStore \<Rightarrow> bool" where
  "meta_ok s \<longleftrightarrow> tbl_ok (ms_nodes s) \<and> tbl_ok (ms_atoms s)"

lemma tbl_fields_ok: "tbl_ok t \<Longrightarrow> bm_ok (tbl_fields t k)"
  by (auto simp: tbl_fields_def tbl_ok_def split: option.splits dest: map_of_SomeD)

lemma tbl_ok_insert: "tbl_ok t \<Longrightarrow> bm_ok fs \<Longrightarrow> tbl_ok (bm_insert k fs t)"
  using set_bm_insert [of k fs t] by (auto simp: tbl_ok_def)

lemma fields_insert [simp]:
  "tbl_fields (bm_insert k fs t) k' = (if k' = k then fs else tbl_fields t k')"
  by (simp add: tbl_fields_def)

lemma tbl_field_set [simp]:
  "tbl_field (tbl_set_crdt k f st t) k' f' = (if k' = k \<and> f' = f then Some st else tbl_field t k' f')"
  by (simp add: tbl_field_def tbl_set_crdt_def)

lemma tbl_get_crdt_eq:
  "tbl_get_crdt k f kind t =
     (let st = (case tbl_field t k f of Some st \<Rightarrow> st | None \<Rightarrow> cs_new kind) in (tbl_set_crdt k f st t, st))"
  by (simp add: tbl_get_crdt_def tbl_set_crdt_def tbl_field_def Let_def)

lemma tbl_ok_set: "tbl_ok t \<Longrightarrow> tbl_ok (tbl_set_crdt k f st t)"
  by (simp add: tbl_set_crdt_def tbl_ok_insert tbl_fields_ok)

text \<open>Joining into a field, which is created when it is missing.\<close>

definition join_or :: "CrdtState \<Rightarrow> CrdtState option \<Rightarrow> CrdtState \<Rightarrow> CrdtState" where
  "join_or dflt cur st = fst (cs_join (case cur of Some c \<Rightarrow> c | None \<Rightarrow> dflt) st)"

lemma field_merge_lookup:
  "map_of (field_merge g st a) f = (if f = g then Some (join_or st (map_of a g) st) else map_of a f)"
  by (simp add: field_merge_def Let_def join_or_def)

lemma fields_merge_lookup:
  "distinct (map fst b) \<Longrightarrow>
   map_of (fields_merge a b) f =
     (case map_of b f of None \<Rightarrow> map_of a f | Some st \<Rightarrow> Some (join_or st (map_of a f) st))"
  unfolding fields_merge_def
proof (induction b arbitrary: a)
  case (Cons e b)
  obtain g st where e: "e = (g, st)" by force
  have "map_of b g = None" "distinct (map fst b)"
    using Cons.prems by (auto simp: e map_of_eq_None_iff)
  then show ?case by (simp add: e Cons.IH field_merge_lookup split: option.splits)
qed simp

lemma bm_ok_fields_merge: "bm_ok a \<Longrightarrow> bm_ok (fields_merge a b)"
  unfolding fields_merge_def by (induction b arbitrary: a) (auto simp: field_merge_def Let_def)

lemma tbl_merge_fields:
  "distinct (map fst b) \<Longrightarrow>
   tbl_fields (tbl_merge a b) k =
     (case map_of b k of None \<Rightarrow> tbl_fields a k | Some fs \<Rightarrow> fields_merge (tbl_fields a k) fs)"
  unfolding tbl_merge_def
proof (induction b arbitrary: a)
  case (Cons e b)
  obtain g fs where e: "e = (g, fs)" by force
  have "map_of b g = None" "distinct (map fst b)"
    using Cons.prems by (auto simp: e map_of_eq_None_iff)
  then show ?case by (simp add: e Cons.IH split: option.splits)
qed simp

lemma tbl_merge_field:
  assumes "tbl_ok b"
  shows "tbl_field (tbl_merge a b) k f =
    (case tbl_field b k f of None \<Rightarrow> tbl_field a k f | Some st \<Rightarrow> Some (join_or st (tbl_field a k f) st))"
proof -
  have d: "distinct (map fst b)" using assms by (simp add: tbl_ok_def bm_ok_distinct)
  have "distinct (map fst (tbl_fields b k))" using tbl_fields_ok [OF assms] by (rule bm_ok_distinct)
  then show ?thesis
    by (auto simp: tbl_field_def tbl_merge_fields [OF d] tbl_fields_def [of b] fields_merge_lookup
        split: option.splits)
qed

lemma tbl_ok_merge: "tbl_ok a \<Longrightarrow> tbl_ok (tbl_merge a b)"
  unfolding tbl_merge_def
  by (induction b arbitrary: a) (auto intro!: tbl_ok_insert bm_ok_fields_merge tbl_fields_ok)

lemma tbl_import_Ok:
  "deserialize_payload de kind bs = Ok st \<Longrightarrow>
   tbl_import de k f kind bs t =
     (tbl_set_crdt k f (join_or (cs_new kind) (tbl_field t k f) st) (fst (tbl_get_crdt k f kind t)),
      Ok (snd (cs_join (snd (tbl_get_crdt k f kind t)) st)))"
  by (simp add: tbl_import_def tbl_get_crdt_eq Let_def join_or_def case_prod_beta)

section \<open>Exchange of fields\<close>

text \<open>Importing a list of exported fields, one after another.\<close>

primrec tbl_import_all ::
    "(bytes \<Rightarrow> bytes option) \<Rightarrow> ('k::linorder \<times> u16 \<times> CrdtKind \<times> bytes) list \<Rightarrow> ('k, fields) bmap \<Rightarrow>
     ('k, fields) bmap" where
  "tbl_import_all de [] t = t"
| "tbl_import_all de (e # es) t =
     (case e of (k, field, kind, bs) \<Rightarrow> tbl_import_all de es (fst (tbl_import de k field kind bs t)))"

lemma tbl_field_import:
  assumes "deserialize_payload de kind bs = Ok st"
  shows "tbl_field (fst (tbl_import de k f kind bs t)) k' f' =
    (if k' = k \<and> f' = f then Some (join_or (cs_new kind) (tbl_field t k f) st) else tbl_field t k' f')"
  by (simp add: tbl_import_Ok [OF assms] tbl_get_crdt_eq Let_def)

text \<open>The fields of a table as one list.\<close>

definition tbl_entries :: "('k::linorder, fields) bmap \<Rightarrow> (('k \<times> u16) \<times> CrdtState) list" where
  "tbl_entries t = concat (map (\<lambda>(k, fs). map (\<lambda>(f, st). ((k, f), st)) fs) t)"

lemma tbl_entries_Cons: "tbl_entries ((k, fs) # t) = map (\<lambda>(f, st). ((k, f), st)) fs @ tbl_entries t"
  by (simp add: tbl_entries_def)

lemma export_entries: "tbl_export ser t = map (\<lambda>((k, f), st). (k, f, cs_kind st, cs_to_bytes ser st)) (tbl_entries t)"
  by (simp add: tbl_export_def tbl_entries_def map_concat comp_def case_prod_beta')

lemma map_of_entries:
  assumes "distinct (map fst t)"
  shows "map_of (tbl_entries t) (k, f) = tbl_field t k f"
proof -
  have m: "map_of (map (\<lambda>(f, st). ((k', f), st)) fs) (k, f) = (if k' = k then map_of fs f else None)" for k' and fs :: fields
    by (induction fs) auto
  show ?thesis using assms
  proof (induction t)
    case (Cons e t)
    obtain k' fs where e: "e = (k', fs)" by force
    have "k' = k \<Longrightarrow> map_of t k = None" using Cons.prems by (auto simp: e map_of_eq_None_iff)
    then show ?case using Cons
      by (auto simp: tbl_entries_def e m tbl_field_def tbl_fields_def map_add_def split: option.splits)
  qed (simp add: tbl_entries_def tbl_field_def tbl_fields_def)
qed

lemma entries_distinct:
  assumes "tbl_ok t"
  shows "distinct (map fst (tbl_entries t))"
proof -
  have d: "distinct (map fst fs)" if "(k, fs) \<in> set t" for k fs
    using assms that by (auto simp: tbl_ok_def intro: bm_ok_distinct)
  have "distinct (map fst t)" using assms by (simp add: tbl_ok_def bm_ok_distinct)
  with d show ?thesis
  proof (induction t)
    case (Cons e t)
    obtain k fs where e: "e = (k, fs)" by force
    have "map fst (map (\<lambda>(f, st). ((k, f), st)) fs) = map (Pair k) (map fst fs)" by auto
    then have "distinct (map fst (map (\<lambda>(f, st). ((k, f), st)) fs))"
      using Cons.prems(1) [of k fs] by (simp only: e) (simp add: distinct_map inj_on_def del: map_map)
    moreover have "(k, f) \<notin> fst ` set (tbl_entries t)" for f
      using Cons.prems(2) by (force simp: e tbl_entries_def)
    then have "fst ` set (map (\<lambda>(f, st). ((k, f), st)) fs) \<inter> fst ` set (tbl_entries t) = {}"
      by force
    moreover have "distinct (map fst (tbl_entries t))" using Cons by (auto simp: e)
    ultimately show ?case unfolding e tbl_entries_Cons map_append distinct_append set_map by blast
  qed (simp add: tbl_entries_def)
qed

lemma import_entries:
  assumes "distinct (map fst es)"
    and "\<forall>((k, f), st)\<in>set es. deserialize_payload de (cs_kind st) (cs_to_bytes ser st) = Ok (g st)"
  shows "tbl_field (tbl_import_all de (map (\<lambda>((k, f), st). (k, f, cs_kind st, cs_to_bytes ser st)) es) t) k f =
    (case map_of es (k, f) of None \<Rightarrow> tbl_field t k f
     | Some st \<Rightarrow> Some (join_or (cs_new (cs_kind st)) (tbl_field t k f) (g st)))"
  using assms
proof (induction es arbitrary: t)
  case (Cons e es)
  obtain k' f' st where e: "e = ((k', f'), st)" by (metis surj_pair)
  have "map_of es (k', f') = None" using Cons.prems(1) by (simp add: e map_of_eq_None_iff)
  moreover have "deserialize_payload de (cs_kind st) (cs_to_bytes ser st) = Ok (g st)"
    using Cons.prems(2) by (simp add: e)
  ultimately show ?case
    using Cons.IH Cons.prems by (auto simp: e tbl_field_import split: option.splits)
qed simp

section \<open>Compacting counters\<close>

text \<open>What a store counts for an actor in a field of a node.\<close>

definition field_count :: "MetaStore \<Rightarrow> u64 \<Rightarrow> u16 \<Rightarrow> ActorId \<Rightarrow> u64" where
  "field_count s n f a =
     (case tbl_field (ms_nodes s) n f of Some (CGCounter c) \<Rightarrow> gcounter_get c a | _ \<Rightarrow> 0)"

text \<open>A log record that carries a grow-only counter for a field of a node.\<close>

definition counter_record :: "WalRecord \<Rightarrow> bool" where
  "counter_record r \<longleftrightarrow> header_crdt_kind (wr_header r) = Some GCOUNTER \<and> (\<exists>n. wr_key r = NodeKey n) \<and>
     (\<exists>c. gcounter_from_bytes (wr_payload r) = Some c)"

definition record_count :: "WalRecord \<Rightarrow> ActorId \<Rightarrow> u64" where
  "record_count r a = (case gcounter_from_bytes (wr_payload r) of Some c \<Rightarrow> gcounter_get c a | None \<Rightarrow> 0)"

definition counters_only :: "MetaStore \<Rightarrow> bool" where
  "counters_only s \<longleftrightarrow> (\<forall>n f st. tbl_field (ms_nodes s) n f = Some st \<longrightarrow> (\<exists>c. st = CGCounter c))"

lemma gcounter_from_bytes_ok: "gcounter_from_bytes data = Some c \<Longrightarrow> gcounter_ok c"
proof -
  have "read_loop read_actor_u64 (\<lambda>(a, c) m. AList.update a c m) n bs m = Some (m', r) \<Longrightarrow> hm_ok m \<Longrightarrow> hm_ok m'"
    for n bs m m' r
    by (induction n arbitrary: bs m) (auto split: option.splits)
  then show "gcounter_from_bytes data = Some c \<Longrightarrow> gcounter_ok c"
    by (fastforce simp: gcounter_from_bytes_def bind_eq_Some_conv gcounter_ok_def)
qed

lemma compact_counter_record:
  assumes "counter_record r" "counters_only s"
  shows "\<exists>s'. compact_record de r s = Ok s' \<and> counters_only s' \<and>
    (\<forall>n f a. field_count s' n f a =
       (if wr_key r = NodeKey n \<and> rh_field_id (wr_header r) = f
        then max (field_count s n f a) (record_count r a) else field_count s n f a))"
proof -
  obtain n c where r: "header_crdt_kind (wr_header r) = Some GCOUNTER" "wr_key r = NodeKey n"
    "gcounter_from_bytes (wr_payload r) = Some c"
    using assms(1) by (auto simp: counter_record_def)
  let ?f = "rh_field_id (wr_header r)"
  obtain d where d: "(case tbl_field (ms_nodes s) n ?f of Some st \<Rightarrow> st | None \<Rightarrow> cs_new GCOUNTER) = CGCounter d"
    "\<And>a. gcounter_get d a = field_count s n ?f a"
  proof (cases "tbl_field (ms_nodes s) n ?f")
    case None
    then show ?thesis by (intro that [of gcounter_new]) (simp_all add: field_count_def gcounter_get_def gcounter_new_def)
  next
    case (Some st)
    then obtain d where "st = CGCounter d" using assms(2) unfolding counters_only_def by blast
    with Some show ?thesis by (intro that [of d]) (simp_all add: field_count_def)
  qed
  let ?t = "tbl_set_crdt n ?f (CGCounter (gcounter_merge d c)) (tbl_set_crdt n ?f (CGCounter d) (ms_nodes s))"
  have "compact_record de r s = Ok (s\<lparr>ms_nodes := ?t\<rparr>)"
    using r by (simp add: compact_record_def tbl_get_crdt_eq Let_def d(1) deserialize_payload.simps)
  moreover have "counters_only (s\<lparr>ms_nodes := ?t\<rparr>)"
    using assms(2) by (auto simp: counters_only_def)
  moreover have "field_count (s\<lparr>ms_nodes := ?t\<rparr>) m g a =
      (if wr_key r = NodeKey m \<and> ?f = g then max (field_count s m g a) (record_count r a) else field_count s m g a)"
    for m g a
    using d(2) gcounter_from_bytes_ok [OF r(3)] r by (auto simp: field_count_def record_count_def)
  ultimately show ?thesis by blast
qed

lemma compact_counter_loop:
  assumes "\<forall>r\<in>set rs. counter_record r" "counters_only s"
  shows "\<exists>s'. compact_loop de rs s = Ok s' \<and> (\<forall>n f a. field_count s' n f a =
    Max (insert (field_count s n f a)
      (set (map (\<lambda>r. record_count r a) (filter (\<lambda>r. wr_key r = NodeKey n \<and> rh_field_id (wr_header r) = f) rs)))))"
  using assms
proof (induction rs arbitrary: s)
  case (Cons r rs)
  obtain s1 where s1: "compact_record de r s = Ok s1" "counters_only s1"
    "\<And>n f a. field_count s1 n f a = (if wr_key r = NodeKey n \<and> rh_field_id (wr_header r) = f
        then max (field_count s n f a) (record_count r a) else field_count s n f a)"
    using compact_counter_record [of r s de] Cons.prems by auto
  obtain s' where s': "compact_loop de rs s1 = Ok s'" "\<And>n f a. field_count s' n f a =
    Max (insert (field_count s1 n f a)
      (set (map (\<lambda>r. record_count r a) (filter (\<lambda>r. wr_key r = NodeKey n \<and> rh_field_id (wr_header r) = f) rs))))"
    using Cons.IH [OF _ s1(2)] Cons.prems(1) by auto
  have mx: "Max (insert (max x y) A) = Max (insert x (insert y A))" if "finite A" for x y :: u64 and A
    using that by (cases "A = {}") (simp_all add: max.assoc)
  show ?case
    by (intro exI [of _ s']) (simp add: s1(1) s'(1) s'(2) s1(3) mx)
qed simp

section \<open>Properties\<close>

text \<open>
  Importing a field joins what the payload decodes to into that field, created from the
  kind when it is missing, and changes no other field; a payload that does not decode leaves
  the store as it was.
\<close>

theorem meta_import_joins:
  "case deserialize_payload de kind bs of
     Panic \<Rightarrow> meta_import_node_field de n f kind bs s = (s, Panic)
   | Err e \<Rightarrow> meta_import_node_field de n f kind bs s = (s, Err e)
   | Ok st \<Rightarrow>
       let (s', result) = meta_import_node_field de n f kind bs s; old = tbl_field (ms_nodes s) n f
       in tbl_field (ms_nodes s') n' f' =
            (if n' = n \<and> f' = f then Some (join_or (cs_new kind) old st) else tbl_field (ms_nodes s) n' f') \<and>
          ms_atoms s' = ms_atoms s \<and>
          result = Ok (case old of Some c \<Rightarrow> cs_kind c = kind | None \<Rightarrow> True)"
proof (cases "deserialize_payload de kind bs")
  case (Ok st)
  then have "cs_kind st = kind" by (rule deserialize_kind)
  then show ?thesis using Ok
    by (auto simp: meta_import_node_field_def tbl_import_Ok [OF Ok] tbl_get_crdt_eq Let_def cs_join_kind(2)
        split: option.splits)
qed (simp_all add: meta_import_node_field_def tbl_import_def)

text \<open>
  C12: a merge of two stores keeps them sorted, and every field of the result is the join of
  the two stores' fields, with a field only the other store has joined into a clone of itself.
\<close>

theorem meta_merge_fields:
  assumes "meta_ok a" "meta_ok b"
  shows "meta_ok (meta_merge a b) \<and>
    tbl_field (ms_nodes (meta_merge a b)) n f =
      (case tbl_field (ms_nodes b) n f of None \<Rightarrow> tbl_field (ms_nodes a) n f
       | Some st \<Rightarrow> Some (join_or st (tbl_field (ms_nodes a) n f) st)) \<and>
    tbl_field (ms_atoms (meta_merge a b)) x f =
      (case tbl_field (ms_atoms b) x f of None \<Rightarrow> tbl_field (ms_atoms a) x f
       | Some st \<Rightarrow> Some (join_or st (tbl_field (ms_atoms a) x f) st))"
  using assms by (simp add: meta_ok_def meta_merge_def tbl_merge_field tbl_ok_merge)

theorem meta_merge_fields_witness:
  "let a = meta_new 0 actor_zero; b = fst (meta_get_node_crdt 1 2 FLAGSET a)
   in tbl_field (ms_nodes (meta_merge a b)) 1 2 = Some (CFlagSet flagset_new)"
proof -
  let ?a = "meta_new 0 actor_zero" and ?b = "fst (meta_get_node_crdt 1 2 FLAGSET (meta_new 0 actor_zero))"
  have "meta_ok ?a" by (simp add: meta_ok_def tbl_ok_def meta_new_def)
  moreover have "meta_ok ?b"
    by (simp add: meta_ok_def tbl_ok_def bm_ok_def meta_new_def meta_get_node_crdt_def tbl_get_crdt_def
        tbl_fields_def Let_def)
  ultimately show ?thesis using meta_merge_fields [of ?a ?b 1 2]
    by (simp add: meta_new_def meta_get_node_crdt_def tbl_get_crdt_def tbl_fields_def tbl_field_def
        join_or_def flagset_merge_def Let_def)
qed

text \<open>
  Merging into a store that lacks a multi-value register doubles its values: the vacant
  entry receives a clone, which is then joined with the original.
\<close>

theorem meta_merge_doubles_mvreg:
  assumes "meta_ok a" "meta_ok b" "tbl_field (ms_nodes a) n f = None"
    "tbl_field (ms_nodes b) n f = Some (CMVReg r)" "mvreg_ok r"
  shows "\<exists>r'. tbl_field (ms_nodes (meta_merge a b)) n f = Some (CMVReg r') \<and>
    mvreg_values r' = mvreg_values r @ mvreg_values r"
proof -
  have "mv_values (mvreg_merge r r) = mv_values r @ mv_values r" using assms(5) by (rule mvreg_self_merge)
  then show ?thesis using assms
    by (simp add: meta_ok_def meta_merge_def tbl_merge_field join_or_def mvreg_values_def)
qed

theorem meta_merge_doubles_mvreg_witness:
  "let a = meta_new 0 actor_zero; b = a\<lparr>ms_nodes := [(1, [(2, CMVReg (mvreg_set actor_zero [7] mvreg_new))])]\<rparr>
   in \<exists>r'. tbl_field (ms_nodes (meta_merge a b)) 1 2 = Some (CMVReg r') \<and> mvreg_values r' = [[7], [7]]"
proof -
  let ?r = "mvreg_set actor_zero [7 :: u8] mvreg_new"
  let ?a = "meta_new 0 actor_zero"
  let ?b = "?a\<lparr>ms_nodes := [(1, [(2, CMVReg ?r)])]\<rparr>"
  have "mvreg_values ?r = [[7]]" "mvreg_ok ?r"
    by (simp_all add: mvreg_values_def mvreg_ok_def mvreg_set_eq mvreg_new_def entry_upd_def)
  moreover have "meta_ok ?a" "meta_ok ?b" "tbl_field (ms_nodes ?a) 1 2 = None"
    "tbl_field (ms_nodes ?b) 1 2 = Some (CMVReg ?r)"
    by (simp_all add: meta_ok_def tbl_ok_def bm_ok_def meta_new_def tbl_field_def tbl_fields_def)
  ultimately show ?thesis using meta_merge_doubles_mvreg [of ?a ?b 1 2 ?r] by (simp add: Let_def)
qed

text \<open>
  C11: a log of counter records of node fields compacts, into a fresh store, to the largest count of every actor in
  every field, whatever the order, the timestamps and the repetitions of the records are.
\<close>

theorem compact_counters:
  assumes "\<forall>r\<in>set rs. counter_record r"
  shows "\<exists>s. compact_records de now rs None actor = Ok s \<and> (\<forall>n f a. field_count s n f a =
    Max (insert 0 (set (map (\<lambda>r. record_count r a)
      (filter (\<lambda>r. wr_key r = NodeKey n \<and> rh_field_id (wr_header r) = f) rs)))))"
proof -
  have "counters_only (meta_new now actor)"
    by (simp add: counters_only_def meta_new_def tbl_field_def tbl_fields_def)
  moreover have "field_count (meta_new now actor) n f a = 0" for n f a
    by (simp add: field_count_def meta_new_def tbl_field_def tbl_fields_def)
  ultimately show ?thesis
    using compact_counter_loop [of "sort_key wal_stamp rs" "meta_new now actor" de] assms
    by (simp add: compact_records_def)
qed

theorem compact_counters_witness:
  "let c = gcounter_inc actor_zero 5 gcounter_new;
       r = wal_record_new (HLC 7) (replicate 16 1) (NodeKey 3) GCOUNTER 2 OP_UPSERT (gcounter_to_bytes c)
   in \<exists>s. compact_records Some 0 [r, r] None actor_zero = Ok s \<and> field_count s 3 2 actor_zero = 5"
proof -
  let ?c = "gcounter_inc actor_zero 5 gcounter_new"
  let ?r = "wal_record_new (HLC 7) (replicate 16 1) (NodeKey 3) GCOUNTER 2 OP_UPSERT (gcounter_to_bytes ?c)"
  have "gcounter_storable ?c"
    by (simp add: gcounter_storable_def gcounter_ok_def gcounter_inc_def gcounter_new_def entry_upd_def)
  from gcounter_read [OF this, of "[]"] have g: "gcounter_from_bytes (wr_payload ?r) = Some ?c"
    by (simp add: wal_record_new_def)
  have "\<forall>r\<in>set [?r, ?r]. counter_record r"
    using g by (simp add: counter_record_def wal_record_new_def header_new_def header_crdt_kind_def kind_from_u8_def)
  from compact_counters [OF this, of Some 0 actor_zero] obtain s where
    s: "compact_records Some 0 [?r, ?r] None actor_zero = Ok s" "\<And>n f a. field_count s n f a =
    Max (insert 0 (set (map (\<lambda>r. record_count r a)
      (filter (\<lambda>r. wr_key r = NodeKey n \<and> rh_field_id (wr_header r) = f) [?r, ?r]))))"
    by blast
  have "record_count ?r actor_zero = 5"
    using g by (simp add: record_count_def) (simp add: gcounter_new_def gcounter_get_def)
  moreover have "wr_key ?r = NodeKey 3" "rh_field_id (wr_header ?r) = 2"
    by (simp_all add: wal_record_new_def header_new_def)
  ultimately show ?thesis using s(1) s(2) [of 3 2 actor_zero] by (auto simp: Let_def)
qed

text \<open>
  Compaction depends on the log only through its timestamps: two logs with the same
  records, no two of which share a timestamp, compact to the same result.
\<close>

theorem compact_order_irrelevant:
  assumes "mset rs = mset rs'" "inj_on wal_stamp (set rs)"
  shows "compact_records de now rs snapshot actor = compact_records de now rs' snapshot actor"
proof -
  have "sort_key wal_stamp rs = sort_key wal_stamp rs'"
    by (rule sort_key_inj_key_eq) (use assms in simp_all)
  then show ?thesis by (simp add: compact_records_def)
qed

theorem compact_order_irrelevant_witness:
  "let r = \<lambda>t. wal_record_new (HLC t) (replicate 16 1) (NodeKey 3) LWW_REG 2 OP_UPSERT [1]
   in compact_records Some 0 [r 0x10000, r 0x20000] None actor_zero =
      compact_records Some 0 [r 0x20000, r 0x10000] None actor_zero"
proof -
  let ?r = "\<lambda>t. wal_record_new (HLC t) (replicate 16 1) (NodeKey 3) LWW_REG 2 OP_UPSERT [1]"
  have "inj_on wal_stamp (set [?r 0x10000, ?r 0x20000])"
    by (simp add: inj_on_def wal_stamp_def wal_record_new_def header_new_def hlc_physical_ns_def)
  from compact_order_irrelevant [OF _ this, of "[?r 0x20000, ?r 0x10000]" Some 0 None actor_zero]
  show ?thesis by (simp add: Let_def add_mset_commute)
qed

text \<open>
  C10: a replica that imports every node field another one exports ends with the join of its own
  field (an empty one of the kind where it has none) and what the other's field reads back as, \<open>cs_reread\<close> of it;
  node fields the other does not have stay as they are. The exported states fit their length fields.
\<close>

theorem meta_exchange:
  assumes "tbl_ok (ms_nodes s)" "\<And>v b. ser v = Some b \<Longrightarrow> de b = Some v"
    and "\<forall>n f st. tbl_field (ms_nodes s) n f = Some st \<longrightarrow> cs_storable ser st"
  shows "tbl_field (tbl_import_all de (meta_export_node_fields ser s) t) n f =
    (case tbl_field (ms_nodes s) n f of None \<Rightarrow> tbl_field t n f
     | Some st \<Rightarrow> Some (join_or (cs_new (cs_kind st)) (tbl_field t n f) (cs_reread st)))"
proof -
  let ?es = "tbl_entries (ms_nodes s)"
  have d: "distinct (map fst (ms_nodes s))" using assms(1) by (simp add: tbl_ok_def bm_ok_distinct)
  have de: "distinct (map fst ?es)" using assms(1) by (rule entries_distinct)
  have "\<forall>((k, f), st)\<in>set ?es. deserialize_payload de (cs_kind st) (cs_to_bytes ser st) = Ok (cs_reread st)"
  proof clarify
    fix k f st assume "((k, f), st) \<in> set ?es"
    then have "tbl_field (ms_nodes s) k f = Some st" using map_of_entries [OF d, of k f] de by simp
    then show "deserialize_payload de (cs_kind st) (cs_to_bytes ser st) = Ok (cs_reread st)"
      using assms(2,3) by (intro payload_read_back) blast+
  qed
  from import_entries [OF de this, of t n f] show ?thesis
    by (simp add: meta_export_node_fields_def export_entries map_of_entries [OF d])
qed

theorem meta_exchange_witness:
  "let s = (meta_new 0 actor_zero)\<lparr>ms_nodes := [(1, [(2, CGCounter (gcounter_inc actor_zero 5 gcounter_new))])]\<rparr>
   in tbl_field (tbl_import_all Some (meta_export_node_fields Some s) []) 1 2 =
        Some (CGCounter (gcounter_merge gcounter_new (gcounter_inc actor_zero 5 gcounter_new)))"
proof -
  let ?s = "(meta_new 0 actor_zero)\<lparr>ms_nodes := [(1, [(2, CGCounter (gcounter_inc actor_zero 5 gcounter_new))])]\<rparr>"
  have 1: "tbl_ok (ms_nodes ?s)" by (simp add: tbl_ok_def bm_ok_def)
  have 2: "\<forall>n f st. tbl_field (ms_nodes ?s) n f = Some st \<longrightarrow> cs_storable Some st"
    by (simp add: tbl_field_def tbl_fields_def gcounter_storable_def gcounter_ok_def gcounter_inc_def
        gcounter_new_def entry_upd_def)
  show ?thesis using meta_exchange [OF 1 _ 2, of Some "[]" 1 2]
    by (simp add: Let_def tbl_field_def tbl_fields_def join_or_def)
qed

end
