(* ===== verification/Snapshot.thy ===== *)
theory Snapshot
  imports Wal "HOL-Library.Multiset"
begin

text \<open>
  The snapshot file of \<open>src/crdt/snapshot.rs\<close>: a header, an index sorted by node number
  and a data block per node with the serialised states of its fields; the builder that writes it
  and the reader that finds a node by binary search. Offsets are \<open>u64\<close> and wrap; a slice
  whose start lies behind its end, and an allocation of more than \<open>isize::MAX\<close> bytes, abort.
\<close>

section \<open>Header\<close>

definition SNAPSHOT_MAGIC :: u32 where "SNAPSHOT_MAGIC = 0x4D534E31"
definition SNAPSHOT_VERSION :: u16 where "SNAPSHOT_VERSION = 1"
definition SNAPSHOT_HEADER_SIZE :: nat where "SNAPSHOT_HEADER_SIZE = 36"
definition INDEX_ENTRY_SIZE :: nat where "INDEX_ENTRY_SIZE = 24"
definition FIELD_RECORD_HEADER_SIZE :: nat where "FIELD_RECORD_HEADER_SIZE = 8"

record SnapshotHeader =
  sh_magic :: u32
  sh_ver :: u16
  sh_flags :: u16
  sh_entry_count :: u64
  sh_off_index :: u64
  sh_off_data :: u64
  sh_crc32 :: u32

definition snap_crc32_update :: "u32 \<Rightarrow> bytes \<Rightarrow> u32" where
  "snap_crc32_update crc data = fold (\<lambda>byte crc. drop_bit 8 crc XOR crc32 [byte]) data crc"

definition snap_header_fields :: "SnapshotHeader \<Rightarrow> bytes list" where
  "snap_header_fields h =
     [u32_le (sh_magic h), u16_le (sh_ver h), u16_le (sh_flags h), u64_le (sh_entry_count h),
      u64_le (sh_off_index h), u64_le (sh_off_data h)]"

definition snap_calculate_crc :: "SnapshotHeader \<Rightarrow> u32" where
  "snap_calculate_crc h =
     fold (\<lambda>field crc. snap_crc32_update crc field) (snap_header_fields h) 0xFFFFFFFF XOR 0xFFFFFFFF"

definition snap_header_new :: "u64 \<Rightarrow> u64 \<Rightarrow> u64 \<Rightarrow> SnapshotHeader" where
  "snap_header_new entry_count index_offset data_offset =
     (let header = \<lparr>sh_magic = SNAPSHOT_MAGIC, sh_ver = SNAPSHOT_VERSION, sh_flags = 0,
        sh_entry_count = entry_count, sh_off_index = index_offset, sh_off_data = data_offset, sh_crc32 = 0\<rparr>
      in header\<lparr>sh_crc32 := snap_calculate_crc header\<rparr>)"

definition snap_validate_magic :: "SnapshotHeader \<Rightarrow> bool" where
  "snap_validate_magic h \<longleftrightarrow> sh_magic h = SNAPSHOT_MAGIC \<and> sh_ver h = SNAPSHOT_VERSION"

definition snap_validate_crc :: "SnapshotHeader \<Rightarrow> bool" where
  "snap_validate_crc h \<longleftrightarrow> sh_crc32 h = snap_calculate_crc h"

definition snap_header_is_valid :: "SnapshotHeader \<Rightarrow> bool" where
  "snap_header_is_valid h \<longleftrightarrow> snap_validate_magic h \<and> snap_validate_crc h"

definition snap_header_to_bytes :: "SnapshotHeader \<Rightarrow> bytes" where
  "snap_header_to_bytes h = concat (snap_header_fields h) @ u32_le (sh_crc32 h)"

definition snap_header_from_bytes :: "bytes \<Rightarrow> SnapshotHeader option" where
  "snap_header_from_bytes buf =
     (if length buf < SNAPSHOT_HEADER_SIZE then None
      else Some
       \<lparr>sh_magic = le_u32 (take 4 buf), sh_ver = le_u16 (take 2 (drop 4 buf)),
        sh_flags = le_u16 (take 2 (drop 6 buf)), sh_entry_count = le_u64 (take 8 (drop 8 buf)),
        sh_off_index = le_u64 (take 8 (drop 16 buf)), sh_off_data = le_u64 (take 8 (drop 24 buf)),
        sh_crc32 = le_u32 (take 4 (drop 32 buf))\<rparr>)"

section \<open>Index entries and fields\<close>

record IndexEntry =
  ie_node_num :: u64
  ie_data_off :: u64
  ie_data_len :: u32
  ie_data_crc32 :: u32

definition index_entry_to_bytes :: "IndexEntry \<Rightarrow> bytes" where
  "index_entry_to_bytes e =
     u64_le (ie_node_num e) @ u64_le (ie_data_off e) @ u32_le (ie_data_len e) @ u32_le (ie_data_crc32 e)"

definition index_entry_from_bytes :: "bytes \<Rightarrow> IndexEntry option" where
  "index_entry_from_bytes buf =
     (if length buf < INDEX_ENTRY_SIZE then None
      else Some \<lparr>ie_node_num = le_u64 (take 8 buf), ie_data_off = le_u64 (take 8 (drop 8 buf)),
        ie_data_len = le_u32 (take 4 (drop 16 buf)), ie_data_crc32 = le_u32 (take 4 (drop 20 buf))\<rparr>)"

record FieldRecordHeader =
  frh_field_id :: u16
  frh_crdt_kind :: u8
  frh_reserved :: u8
  frh_state_len :: u32

definition field_header_new :: "u16 \<Rightarrow> u8 \<Rightarrow> u32 \<Rightarrow> FieldRecordHeader" where
  "field_header_new field_id crdt_kind state_len =
     \<lparr>frh_field_id = field_id, frh_crdt_kind = crdt_kind, frh_reserved = 0, frh_state_len = state_len\<rparr>"

definition field_header_to_bytes :: "FieldRecordHeader \<Rightarrow> bytes" where
  "field_header_to_bytes h =
     u16_le (frh_field_id h) @ [frh_crdt_kind h, frh_reserved h] @ u32_le (frh_state_len h)"

definition field_header_from_bytes :: "bytes \<Rightarrow> FieldRecordHeader option" where
  "field_header_from_bytes buf =
     (if length buf < FIELD_RECORD_HEADER_SIZE then None
      else Some (field_header_new (le_u16 (take 2 buf)) (buf ! 2) (le_u32 (take 4 (drop 4 buf)))))"

record FieldState =
  fld_field_id :: u16
  fld_crdt_kind :: CrdtKind
  fld_state :: bytes

definition field_serialize :: "FieldState \<Rightarrow> bytes" where
  "field_serialize f =
     field_header_to_bytes (field_header_new (fld_field_id f) (kind_to_u8 (fld_crdt_kind f))
       (of_nat (length (fld_state f)))) @ fld_state f"

section \<open>States of fields\<close>

definition serialize_gcounter :: "GCounter \<Rightarrow> bytes" where
  "serialize_gcounter c = len_le (length (gc_counts c)) @ concat (map actor_u64_le (gc_counts c))"

text \<open>The reader increments: an actor that occurs twice is added up.\<close>

definition deserialize_gcounter :: "bytes \<Rightarrow> GCounter option" where
  "deserialize_gcounter data =
     Option.bind (read_len data) (\<lambda>(count, rest).
     map_option fst (read_loop read_actor_u64 (\<lambda>(a, v). gcounter_inc a v) count rest gcounter_new))"

definition serialize_pncounter :: "PNCounter \<Rightarrow> bytes" where
  "serialize_pncounter c =
     (let p_bytes = gcounter_to_bytes (pn_p c); n_bytes = gcounter_to_bytes (pn_n c)
      in len_le (length p_bytes) @ p_bytes @ len_le (length n_bytes) @ n_bytes)"

definition deserialize_pncounter :: "bytes \<Rightarrow> PNCounter option" where
  "deserialize_pncounter data =
     (if length data < 8 then None
      else Option.bind (read_blob data) (\<lambda>(p_data, r1).
           Option.bind (read_blob r1) (\<lambda>(n_data, _).
           Option.bind (deserialize_gcounter p_data) (\<lambda>p.
           map_option (\<lambda>n. \<lparr>pn_p = p, pn_n = n\<rparr>) (deserialize_gcounter n_data)))))"

definition serialize_lwwreg :: "bytes LWWReg \<Rightarrow> bytes" where
  "serialize_lwwreg r =
     u64_le (hlc_physical_ns (lww_hlc r)) @ u32_le (ucast (hlc_logical (lww_hlc r))) @
     actor_bytes (lww_actor r) @ blob_le (lww_value r)"

definition deserialize_lwwreg :: "bytes \<Rightarrow> bytes LWWReg option" where
  "deserialize_lwwreg data =
     (if length data < 8 + 4 + 16 + 4 then None
      else
        let hlc_phys = le_u64 (take 8 data);
            logical = ucast (le_u32 (take 4 (drop 8 data)));
            actor = ActorId (take ACTOR_ID_SIZE (drop 12 data));
            value_len = unat (le_u32 (take 4 (drop 28 data)))
        in if 32 + value_len > length data then None
           else Some (LWWReg (hlc_from_parts hlc_phys logical) actor (take value_len (drop 32 data))))"

text \<open>Only elements with additions are written; a symbol is its \<open>u32\<close> number.\<close>

definition serialize_orset :: "u32 ORSet \<Rightarrow> bytes" where
  "serialize_orset s =
     len_le (length (os_elements s)) @
     concat (map (\<lambda>(e, add_dots). u32_le e @ dots_le add_dots @ dots_le (get_or [] (os_tombstones s) e))
       (os_elements s))"

definition deserialize_orset :: "bytes \<Rightarrow> u32 ORSet option" where
  "deserialize_orset data =
     Option.bind (read_len data) (\<lambda>(elem_count, rest).
     map_option fst (orset_read read_u32 elem_count rest orset_new))"

definition field_from_gcounter :: "u16 \<Rightarrow> GCounter \<Rightarrow> FieldState" where
  "field_from_gcounter field_id c =
     \<lparr>fld_field_id = field_id, fld_crdt_kind = GCOUNTER, fld_state = serialize_gcounter c\<rparr>"

definition field_from_pncounter :: "u16 \<Rightarrow> PNCounter \<Rightarrow> FieldState" where
  "field_from_pncounter field_id c =
     \<lparr>fld_field_id = field_id, fld_crdt_kind = PNCOUNTER, fld_state = serialize_pncounter c\<rparr>"

definition field_from_lwwreg :: "u16 \<Rightarrow> bytes LWWReg \<Rightarrow> FieldState" where
  "field_from_lwwreg field_id r =
     \<lparr>fld_field_id = field_id, fld_crdt_kind = LWW_REG, fld_state = serialize_lwwreg r\<rparr>"

definition field_from_orset :: "u16 \<Rightarrow> u32 ORSet \<Rightarrow> FieldState" where
  "field_from_orset field_id s =
     \<lparr>fld_field_id = field_id, fld_crdt_kind = ORSET, fld_state = serialize_orset s\<rparr>"

section \<open>Nodes\<close>

record NodeState =
  ns_node_num :: u64
  ns_fields :: "(u16, FieldState) hmap"

definition node_new :: "u64 \<Rightarrow> NodeState" where
  "node_new node_num = \<lparr>ns_node_num = node_num, ns_fields = []\<rparr>"

definition node_add_field :: "FieldState \<Rightarrow> NodeState \<Rightarrow> NodeState" where
  "node_add_field f n = n\<lparr>ns_fields := AList.update (fld_field_id f) f (ns_fields n)\<rparr>"

definition node_serialize :: "NodeState \<Rightarrow> bytes" where
  "node_serialize n =
     len_le (length (ns_fields n)) @ concat (map (\<lambda>(_, f). field_serialize f) (ns_fields n))"

definition read_field :: "bytes \<Rightarrow> (FieldState \<times> bytes) option" where
  "read_field data =
     Option.bind (read_n FIELD_RECORD_HEADER_SIZE data) (\<lambda>(hb, r1).
     Option.bind (field_header_from_bytes hb) (\<lambda>header.
     Option.bind (read_n (unat (frh_state_len header)) r1) (\<lambda>(state_bytes, r2).
     map_option (\<lambda>kind. (\<lparr>fld_field_id = frh_field_id header, fld_crdt_kind = kind, fld_state = state_bytes\<rparr>, r2))
       (kind_from_u8 (frh_crdt_kind header)))))"

definition node_deserialize :: "u64 \<Rightarrow> bytes \<Rightarrow> NodeState option" where
  "node_deserialize node_num data =
     Option.bind (read_len data) (\<lambda>(field_count, rest).
     map_option fst (read_loop read_field node_add_field field_count rest (node_new node_num)))"

section \<open>Builder\<close>

type_synonym SnapshotBuilder = "(u64, NodeState) hmap"

definition builder_add_node :: "u64 \<Rightarrow> FieldState list \<Rightarrow> SnapshotBuilder \<Rightarrow> SnapshotBuilder" where
  "builder_add_node node_num fs b =
     entry_upd (node_new node_num) (fold node_add_field fs) node_num b"

fun build_index :: "u64 \<Rightarrow> (u64 \<times> bytes) list \<Rightarrow> IndexEntry list" where
  "build_index current_data_offset [] = []"
| "build_index current_data_offset ((node_num, data) # blocks) =
     (let data_len = of_nat (length data) :: u32
      in \<lparr>ie_node_num = node_num, ie_data_off = current_data_offset, ie_data_len = data_len,
          ie_data_crc32 = crc32 data\<rparr> # build_index (current_data_offset + ucast data_len) blocks)"

definition builder_build :: "SnapshotBuilder \<Rightarrow> bytes" where
  "builder_build b =
     (let entry_count = of_nat (length b) :: u64;
          index_size = length b * INDEX_ENTRY_SIZE;
          index_offset = of_nat SNAPSHOT_HEADER_SIZE;
          data_offset = index_offset + of_nat index_size;
          nodes = sort_key fst b;
          data_blocks = map (\<lambda>(node_num, n). (node_num, node_serialize n)) nodes
      in snap_header_to_bytes (snap_header_new entry_count index_offset data_offset) @
         concat (map index_entry_to_bytes (build_index 0 data_blocks)) @
         concat (map snd data_blocks))"

section \<open>Reader\<close>

record SnapshotReader =
  sr_data :: bytes
  sr_header :: SnapshotHeader
  sr_index :: "IndexEntry list"

definition read_index_entry :: "bytes \<Rightarrow> (IndexEntry \<times> bytes) option" where
  "read_index_entry data =
     Option.bind (read_n INDEX_ENTRY_SIZE data) (\<lambda>(b, rest).
       map_option (\<lambda>e. (e, rest)) (index_entry_from_bytes b))"

text \<open>
  The product \<open>entry_count * SIZE\<close> wraps; \<open>Vec::with_capacity\<close> aborts when the 24-byte entries
  need more than \<open>isize::MAX\<close> bytes; an entry outside the index slice aborts.
\<close>

definition reader_from_bytes :: "bytes \<Rightarrow> (CrdtError, SnapshotReader) res" where
  "reader_from_bytes data =
     (if length data < SNAPSHOT_HEADER_SIZE then Err CorruptRecord
      else bind_res (ok_or (snap_header_from_bytes (take SNAPSHOT_HEADER_SIZE data)) CorruptRecord) (\<lambda>header.
      if \<not> snap_header_is_valid header then Err InvalidMagic
      else
      let index_start = unat (sh_off_index header); index_end = unat (sh_off_data header)
      in if index_end < index_start \<or> index_end > length data then Err CorruptRecord
      else
      let index_data = take (index_end - index_start) (drop index_start data);
          expected_index_size = sh_entry_count header * of_nat INDEX_ENTRY_SIZE
      in if length index_data \<noteq> unat expected_index_size then Err CorruptRecord
      else if unat (sh_entry_count header) * 24 > 2 ^ 63 - 1 then Panic
      else case read_loop read_index_entry (\<lambda>e es. es @ [e]) (unat (sh_entry_count header)) index_data [] of
        None \<Rightarrow> Panic
      | Some (index, _) \<Rightarrow>
          if list_ex (\<lambda>i. ie_node_num (index ! i) < ie_node_num (index ! (i - 1))) [1..<length index]
          then Err CorruptRecord
          else Ok \<lparr>sr_data = data, sr_header = header, sr_index = index\<rparr>))"

text \<open>The block of an index entry: range check, slice, checksum, decoding.\<close>

definition entry_state :: "bytes \<Rightarrow> u64 \<Rightarrow> IndexEntry \<Rightarrow> (CrdtError, NodeState) res" where
  "entry_state data data_offset entry =
     (let abs_offset = data_offset + ie_data_off entry;
          end_offset = abs_offset + ucast (ie_data_len entry)
      in if unat end_offset > length data then Err CorruptRecord
      else if unat abs_offset > unat end_offset then Panic
      else
      let node_data = take (unat end_offset - unat abs_offset) (drop (unat abs_offset) data)
      in if crc32 node_data \<noteq> ie_data_crc32 entry then Err CrcMismatch
      else ok_or (node_deserialize (ie_node_num entry) node_data) CorruptRecord)"

text \<open>\<open>binary_search_by_key\<close> on a slice: halving the range \<open>lo..hi\<close>.\<close>

function bsearch :: "u64 \<Rightarrow> u64 list \<Rightarrow> nat \<Rightarrow> nat \<Rightarrow> nat option" where
  "bsearch key xs lo hi =
     (if lo < hi then
        let mid = lo + (hi - lo) div 2
        in if xs ! mid = key then Some mid
           else if xs ! mid < key then bsearch key xs (mid + 1) hi
           else bsearch key xs lo mid
      else None)"
  by pat_completeness auto

termination
  by (relation "measure (\<lambda>(key, xs, lo, hi). hi - lo)") auto

declare bsearch.simps [simp del]

text \<open>\<open>None\<close> of the source is \<open>Err ()\<close>.\<close>

definition reader_get_node :: "SnapshotReader \<Rightarrow> u64 \<Rightarrow> (unit, NodeState) res" where
  "reader_get_node r node_num =
     (case bsearch node_num (map ie_node_num (sr_index r)) 0 (length (sr_index r)) of
        None \<Rightarrow> Err ()
      | Some idx \<Rightarrow>
          (case entry_state (sr_data r) (sh_off_data (sr_header r)) (sr_index r ! idx) of
             Panic \<Rightarrow> Panic | Err _ \<Rightarrow> Err () | Ok n \<Rightarrow> Ok n))"

definition reader_iter_nodes :: "SnapshotReader \<Rightarrow> (CrdtError, NodeState) res list" where
  "reader_iter_nodes r = map (entry_state (sr_data r) (sh_off_data (sr_header r))) (sr_index r)"

primrec validate_entries :: "bytes \<Rightarrow> u64 \<Rightarrow> IndexEntry list \<Rightarrow> (CrdtError, unit) res" where
  "validate_entries data off [] = Ok ()"
| "validate_entries data off (e # es) = bind_res (entry_state data off e) (\<lambda>_. validate_entries data off es)"

definition reader_validate :: "SnapshotReader \<Rightarrow> (CrdtError, unit) res" where
  "reader_validate r = validate_entries (sr_data r) (sh_off_data (sr_header r)) (sr_index r)"

section \<open>Reading headers, entries and fields back\<close>

lemma snap_header_length [simp]: "length (snap_header_to_bytes h) = SNAPSHOT_HEADER_SIZE"
  by (simp add: snap_header_to_bytes_def snap_header_fields_def SNAPSHOT_HEADER_SIZE_def)

lemma snap_header_read_back: "snap_header_from_bytes (snap_header_to_bytes h) = Some h"
  by (simp add: snap_header_from_bytes_def snap_header_to_bytes_def snap_header_fields_def SNAPSHOT_HEADER_SIZE_def)

lemma snap_header_new_valid: "snap_header_is_valid (snap_header_new n i d)"
  by (simp add: snap_header_is_valid_def snap_validate_magic_def snap_validate_crc_def snap_header_new_def Let_def
      snap_calculate_crc_def snap_header_fields_def)

lemma index_entry_length [simp]: "length (index_entry_to_bytes e) = INDEX_ENTRY_SIZE"
  by (simp add: index_entry_to_bytes_def INDEX_ENTRY_SIZE_def)

interpretation indexc: codec index_entry_to_bytes read_index_entry "\<lambda>_. True"
proof unfold_locales
  have "index_entry_from_bytes (index_entry_to_bytes e) = Some e" for e
    by (simp add: index_entry_from_bytes_def index_entry_to_bytes_def INDEX_ENTRY_SIZE_def)
  then show "read_index_entry (index_entry_to_bytes e @ rest) = Some (e, rest)" for e rest
    by (simp add: read_index_entry_def codec_simps)
qed

definition field_ok :: "FieldState \<Rightarrow> bool" where
  "field_ok f \<longleftrightarrow> length (fld_state f) < 2 ^ 32"

interpretation fieldc: codec field_serialize read_field field_ok
proof unfold_locales
  fix f rest
  assume "field_ok f"
  then have l: "unat (of_nat (length (fld_state f)) :: u32) = length (fld_state f)"
    unfolding field_ok_def by (rule unat_of_nat_u32)
  have h: "field_header_from_bytes (field_header_to_bytes (field_header_new a k n)) = Some (field_header_new a k n)"
    "length (field_header_to_bytes (field_header_new a k n)) = FIELD_RECORD_HEADER_SIZE" for a k n
    by (simp_all add: field_header_from_bytes_def field_header_to_bytes_def field_header_new_def
        FIELD_RECORD_HEADER_SIZE_def nth_append)
  show "read_field (field_serialize f @ rest) = Some (f, rest)"
    by (simp add: read_field_def field_serialize_def read_n_append h)
      (simp add: field_header_new_def l read_n_append)
qed

definition node_ok :: "NodeState \<Rightarrow> bool" where
  "node_ok n \<longleftrightarrow> hm_ok (ns_fields n) \<and> length (ns_fields n) < 2 ^ 32 \<and>
     (\<forall>(k, f)\<in>set (ns_fields n). k = fld_field_id f \<and> field_ok f)"

lemma fold_add_fields:
  "distinct (map fst es) \<Longrightarrow> fst ` set es \<inter> fst ` set m = {} \<Longrightarrow> \<forall>(k, f)\<in>set es. k = fld_field_id f \<Longrightarrow>
   fold node_add_field (map snd es) \<lparr>ns_node_num = n, ns_fields = m\<rparr> = \<lparr>ns_node_num = n, ns_fields = m @ es\<rparr>"
proof (induction es arbitrary: m)
  case (Cons e es)
  obtain k f where e: "e = (k, f)" by force
  have k: "k = fld_field_id f" "k \<notin> fst ` set m" using Cons.prems by (auto simp: e)
  have i: "distinct (map fst es)" "fst ` set es \<inter> fst ` set (m @ [e]) = {}" "\<forall>(k, f)\<in>set es. k = fld_field_id f"
    using Cons.prems by (auto simp: e)
  show ?case using Cons.IH [OF i] k by (simp add: e node_add_field_def update_new)
qed simp

lemma node_read_back:
  assumes "node_ok n"
  shows "node_deserialize (ns_node_num n) (node_serialize n) = Some n"
proof -
  let ?fs = "map snd (ns_fields n)"
  have ok: "\<forall>f\<in>set ?fs. field_ok f" using assms by (auto simp: node_ok_def)
  have l: "length (ns_fields n) < 2 ^ 32" using assms by (simp add: node_ok_def)
  have c: "concat (map (\<lambda>(_, f). field_serialize f) (ns_fields n)) = concat (map field_serialize ?fs)"
    by (simp add: comp_def case_prod_beta')
  have "fold node_add_field ?fs (node_new (ns_node_num n)) = n"
  proof -
    have "\<forall>(k, f)\<in>set (ns_fields n). k = fld_field_id f" "distinct (map fst (ns_fields n))"
      using assms by (auto simp: node_ok_def)
    then show ?thesis
      using fold_add_fields [of "ns_fields n" "[]" "ns_node_num n"] by (simp add: node_new_def)
  qed
  with fieldc.read_loop_concat [OF ok, of node_add_field "[]" "node_new (ns_node_num n)"] show ?thesis
    unfolding node_deserialize_def node_serialize_def c read_len_append [OF l] by simp
qed

section \<open>Binary search\<close>

lemma bsearch_step:
  assumes "lo < hi"
  obtains m where "lo \<le> m" "m < hi" "m = lo + (hi - lo) div 2"
    "bsearch key xs lo hi = (if xs ! m = key then Some m
       else if xs ! m < key then bsearch key xs (m + 1) hi else bsearch key xs lo m)"
  using assms by (intro that [of "lo + (hi - lo) div 2"]) (auto simp: bsearch.simps [of key xs lo hi] Let_def)

lemma bsearch_sound: "bsearch key xs lo hi = Some i \<Longrightarrow> lo \<le> i \<and> i < hi \<and> xs ! i = key"
proof (induction "hi - lo" arbitrary: lo hi rule: less_induct)
  case less
  have lh: "lo < hi" using less.prems by (auto simp: bsearch.simps [of key xs lo hi] split: if_splits)
  then obtain m where m: "lo \<le> m" "m < hi"
    "bsearch key xs lo hi = (if xs ! m = key then Some m
       else if xs ! m < key then bsearch key xs (m + 1) hi else bsearch key xs lo m)"
    by (rule bsearch_step) blast
  show ?case
  proof (cases "xs ! m = key")
    case True
    then show ?thesis using m less.prems by simp
  next
    case False
    then consider "bsearch key xs (m + 1) hi = Some i" | "bsearch key xs lo m = Some i"
      using less.prems unfolding m(3) if_not_P [OF False] by (cases "xs ! m < key") simp_all
    then show ?thesis
    proof cases
      case 1
      with less.hyps [of hi "m + 1"] m(1,2) have "m + 1 \<le> i \<and> i < hi \<and> xs ! i = key" by simp
      then show ?thesis using m(1) by simp
    next
      case 2
      with less.hyps [of m lo] m(1,2) have "lo \<le> i \<and> i < m \<and> xs ! i = key" by simp
      then show ?thesis using m(2) by simp
    qed
  qed
qed

lemma bsearch_complete:
  assumes "sorted_wrt (<) xs"
  shows "hi \<le> length xs \<Longrightarrow> lo \<le> j \<Longrightarrow> j < hi \<Longrightarrow> bsearch (xs ! j) xs lo hi = Some j"
proof (induction "hi - lo" arbitrary: lo hi rule: less_induct)
  case less
  have mono: "a < b \<Longrightarrow> b < length xs \<Longrightarrow> xs ! a < xs ! b" for a b
    using assms by (simp add: sorted_wrt_nth_less)
  have lh: "lo < hi" using less.prems by simp
  then obtain m where m: "lo \<le> m" "m < hi"
    "bsearch (xs ! j) xs lo hi = (if xs ! m = xs ! j then Some m
       else if xs ! m < xs ! j then bsearch (xs ! j) xs (m + 1) hi else bsearch (xs ! j) xs lo m)"
    by (rule bsearch_step) blast
  consider "m = j" | "m < j" | "j < m" by linarith
  then show ?case
  proof cases
    case 2
    then have "xs ! m < xs ! j" using less.prems by (intro mono) simp_all
    then show ?thesis using m 2 less.prems less.hyps [of hi "m + 1"] by simp
  next
    case 3
    then have "xs ! j < xs ! m" using m less.prems by (intro mono) simp_all
    then show ?thesis using m 3 less.prems less.hyps [of m lo] by auto
  qed (use m in simp)
qed

lemma bsearch_lookup:
  assumes "sorted_wrt (<) xs"
  shows "bsearch key xs 0 (length xs) = None \<longleftrightarrow> key \<notin> set xs"
    and "i < length xs \<Longrightarrow> bsearch (xs ! i) xs 0 (length xs) = Some i"
proof -
  show i: "i < length xs \<Longrightarrow> bsearch (xs ! i) xs 0 (length xs) = Some i" for i
    using bsearch_complete [OF assms, of "length xs" 0 i] by simp
  show "bsearch key xs 0 (length xs) = None \<longleftrightarrow> key \<notin> set xs"
    using i bsearch_sound [of key xs 0 "length xs"]
    by (cases "bsearch key xs 0 (length xs)") (fastforce simp: in_set_conv_nth)+
qed

section \<open>Reading a built snapshot\<close>

definition blocks_size :: "(u64 \<times> bytes) list \<Rightarrow> nat" where
  "blocks_size blocks = sum_list (map (length \<circ> snd) blocks)"

lemma length_build_index [simp]: "length (build_index off blocks) = length blocks"
  by (induction off blocks rule: build_index.induct) (simp_all add: Let_def)

lemma build_index_nodes [simp]: "map ie_node_num (build_index off blocks) = map fst blocks"
  by (induction off blocks rule: build_index.induct) (simp_all add: Let_def)

lemma ucast_len: "n < 2 ^ 32 \<Longrightarrow> ucast (of_nat n :: u32) = (of_nat n :: u64)"
  by (simp add: word_unat_eq_iff unsigned_ucast_eq unat_of_nat take_bit_eq_mod)

lemma nth_build_index:
  assumes "\<forall>b\<in>set blocks. length (snd b) < 2 ^ 32" "i < length blocks"
  shows "build_index off blocks ! i =
    \<lparr>ie_node_num = fst (blocks ! i), ie_data_off = off + of_nat (blocks_size (take i blocks)),
     ie_data_len = of_nat (length (snd (blocks ! i))), ie_data_crc32 = crc32 (snd (blocks ! i))\<rparr>"
  using assms
proof (induction off blocks arbitrary: i rule: build_index.induct)
  case (2 off n data blocks)
  show ?case
  proof (cases i)
    case 0
    then show ?thesis by (simp add: Let_def blocks_size_def)
  next
    case (Suc j)
    have l: "length data < 2 ^ 32" using 2(2) by simp
    have "build_index (off + ucast (of_nat (length data) :: u32)) blocks ! j =
      \<lparr>ie_node_num = fst (blocks ! j),
       ie_data_off = off + ucast (of_nat (length data) :: u32) + of_nat (blocks_size (take j blocks)),
       ie_data_len = of_nat (length (snd (blocks ! j))), ie_data_crc32 = crc32 (snd (blocks ! j))\<rparr>"
      using 2(1) [OF refl, of j] 2(2,3) Suc by simp
    then show ?thesis by (simp add: Suc Let_def blocks_size_def ucast_len [OF l] add.assoc)
  qed
qed simp

lemma length_concat_blocks: "length (concat (map snd blocks)) = blocks_size blocks"
  by (simp add: blocks_size_def length_concat comp_def)

text \<open>
  The \<open>i\<close>-th index entry over data blocks of the lengths it was built for, in a file smaller
  than 2^63 bytes.
\<close>

lemma block_range:
  fixes blocks blocks' :: "(u64 \<times> bytes) list"
  assumes "i < length blocks" "length pre + blocks_size blocks < 2 ^ 63" "\<forall>b\<in>set blocks. length (snd b) < 2 ^ 32"
    and same: "map (length \<circ> snd) blocks' = map (length \<circ> snd) blocks"
  shows "entry_state (pre @ concat (map snd blocks')) (of_nat (length pre)) (build_index 0 blocks ! i) =
    (if crc32 (snd (blocks' ! i)) \<noteq> crc32 (snd (blocks ! i)) then Err CrcMismatch
     else ok_or (node_deserialize (fst (blocks ! i)) (snd (blocks' ! i))) CorruptRecord)"
proof -
  let ?b = "snd (blocks' ! i)" and ?o = "blocks_size (take i blocks)"
  have i': "i < length blocks'" using assms(1) same by (metis length_map)
  have bl: "length ?b = length (snd (blocks ! i))"
    using arg_cong [OF same, of "\<lambda>xs. xs ! i"] assms(1) i' by simp
  have o': "blocks_size (take i blocks') = ?o"
    using same unfolding blocks_size_def take_map [symmetric] by (simp only:)
  have split: "blocks' = take i blocks' @ blocks' ! i # drop (Suc i) blocks'"
    using i' by (rule id_take_nth_drop)
  have "blocks_size blocks = blocks_size blocks'" using same by (simp add: blocks_size_def)
  also have "\<dots> = blocks_size (take i blocks' @ blocks' ! i # drop (Suc i) blocks')"
    by (simp only: split [symmetric])
  also have "\<dots> = ?o + (length ?b + blocks_size (drop (Suc i) blocks'))"
    using o' by (simp add: blocks_size_def)
  finally have sz: "blocks_size blocks = ?o + (length ?b + blocks_size (drop (Suc i) blocks'))" .
  have cat: "concat (map snd blocks') = concat (map snd (take i blocks')) @ ?b @ concat (map snd (drop (Suc i) blocks'))"
    by (subst split) simp
  have lb: "length ?b < 2 ^ 32" using assms(1,3) bl by simp
  have a: "unat (of_nat (length pre) + of_nat ?o :: u64) = length pre + ?o"
    unfolding of_nat_add [symmetric] by (rule unat_of_nat_u64) (use assms(2) sz in simp)
  have e: "unat (of_nat (length pre) + of_nat ?o + of_nat (length ?b) :: u64) = length pre + ?o + length ?b"
    unfolding of_nat_add [symmetric] by (rule unat_of_nat_u64) (use assms(2) sz in simp)
  have lc: "length (concat (map snd (take i blocks'))) = ?o" by (simp only: length_concat_blocks o')
  have d: "take (length ?b) (drop ?o (concat (map snd blocks'))) = ?b"
    unfolding cat using lc by simp
  have n: "\<not> length pre + ?o + length ?b > length (pre @ concat (map snd blocks'))"
    unfolding cat using lc by simp
  show ?thesis
    unfolding entry_state_def nth_build_index [OF assms(3,1)] Let_def bl [symmetric]
    using n by (simp add: ucast_len [OF lb] a e d)
qed

definition builder_ok :: "SnapshotBuilder \<Rightarrow> bool" where
  "builder_ok b \<longleftrightarrow> hm_ok b \<and> (\<forall>(k, n)\<in>set b. ns_node_num n = k \<and> node_ok n \<and> length (node_serialize n) < 2 ^ 32) \<and>
     SNAPSHOT_HEADER_SIZE + length b * INDEX_ENTRY_SIZE + sum_list (map (length \<circ> node_serialize \<circ> snd) b) < 2 ^ 62"

definition builder_blocks :: "SnapshotBuilder \<Rightarrow> (u64 \<times> bytes) list" where
  "builder_blocks b = map (\<lambda>(k, n). (k, node_serialize n)) (sort_key fst b)"

lemma builder_blocks_size: "blocks_size (builder_blocks b) = sum_list (map (length \<circ> node_serialize \<circ> snd) b)"
proof -
  have "mset (map (length \<circ> node_serialize \<circ> snd) (sort_key fst b)) = mset (map (length \<circ> node_serialize \<circ> snd) b)"
    by (simp only: mset_map mset_sort)
  then have "sum_list (map (length \<circ> node_serialize \<circ> snd) (sort_key fst b)) = sum_list (map (length \<circ> node_serialize \<circ> snd) b)"
    by (metis sum_mset_sum_list)
  then show ?thesis by (simp add: blocks_size_def builder_blocks_def comp_def case_prod_beta')
qed

text \<open>The pieces of a built file.\<close>

definition built_pre :: "SnapshotBuilder \<Rightarrow> bytes" where
  "built_pre b = snap_header_to_bytes (snap_header_new (of_nat (length b)) 36 (of_nat (36 + length b * 24))) @
     concat (map index_entry_to_bytes (build_index 0 (builder_blocks b)))"

lemma length_built_index:
  "length (concat (map index_entry_to_bytes (build_index 0 (builder_blocks b)))) = length b * 24"
  by (simp add: length_concat comp_def sum_list_triv INDEX_ENTRY_SIZE_def builder_blocks_def)

lemma build_pieces: "builder_build b = built_pre b @ concat (map snd (builder_blocks b))"
  "length (built_pre b) = 36 + length b * 24"
  using length_built_index [of b]
  by (simp_all add: builder_build_def built_pre_def Let_def SNAPSHOT_HEADER_SIZE_def INDEX_ENTRY_SIZE_def builder_blocks_def)

lemma built_reader:
  assumes "builder_ok b"
  shows "reader_from_bytes (built_pre b @ tail) =
    Ok \<lparr>sr_data = built_pre b @ tail,
        sr_header = snap_header_new (of_nat (length b)) 36 (of_nat (36 + length b * 24)),
        sr_index = build_index 0 (builder_blocks b)\<rparr>"
proof -
  define h where "h = snap_header_new (of_nat (length b)) 36 (of_nat (36 + length b * 24))"
  define f where "f = built_pre b @ tail"
  let ?idx = "build_index 0 (builder_blocks b)"
  let ?ib = "concat (map index_entry_to_bytes ?idx)"
  have sz: "36 + length b * 24 < 2 ^ 62"
    using assms by (simp add: builder_ok_def SNAPSHOT_HEADER_SIZE_def INDEX_ENTRY_SIZE_def)
  have pieces: "f = snap_header_to_bytes h @ ?ib @ tail"
    by (simp add: built_pre_def h_def f_def)
  have hb: "take SNAPSHOT_HEADER_SIZE f = snap_header_to_bytes h"
    unfolding pieces by simp
  have u: "unat (sh_off_index h) = 36" "unat (sh_off_data h) = 36 + length b * 24"
    "unat (sh_entry_count h) = length b" "unat (sh_entry_count h * of_nat INDEX_ENTRY_SIZE) = length b * 24"
  proof -
    show "unat (sh_off_index h) = 36" by (simp add: h_def snap_header_new_def Let_def)
    show "unat (sh_off_data h) = 36 + length b * 24"
      using sz unat_of_nat_u64 [of "36 + length b * 24"] by (simp add: h_def snap_header_new_def Let_def)
    show c: "unat (sh_entry_count h) = length b"
      using sz unat_of_nat_u64 [of "length b"] by (simp add: h_def snap_header_new_def Let_def)
    have "sh_entry_count h * of_nat INDEX_ENTRY_SIZE = of_nat (length b * 24)"
      by (simp add: h_def snap_header_new_def Let_def INDEX_ENTRY_SIZE_def)
    then show "unat (sh_entry_count h * of_nat INDEX_ENTRY_SIZE) = length b * 24"
      using sz unat_of_nat_u64 [of "length b * 24"] by simp
  qed
  have len: "length f \<ge> 36 + length b * 24" by (simp add: f_def build_pieces)
  have ib: "take (length b * 24) (drop 36 f) = ?ib"
    unfolding pieces using length_built_index [of b] by (simp add: SNAPSHOT_HEADER_SIZE_def)
  have lidx: "length ?idx = length b" by (simp add: builder_blocks_def)
  have rd: "read_loop read_index_entry (\<lambda>e es. es @ [e]) (length b) ?ib [] = Some (?idx, [])"
    using indexc.read_loop_concat [of ?idx "\<lambda>e es. es @ [e]" "[]" "[]"] lidx by simp
  have "sorted (map ie_node_num ?idx)"
    by (simp add: builder_blocks_def comp_def case_prod_beta')
  then have mono: "ie_node_num (?idx ! (i - 1)) \<le> ie_node_num (?idx ! i)" if "i < length ?idx" for i
    using that sorted_nth_mono [of "map ie_node_num ?idx" "i - 1" i] by (simp del: build_index_nodes)
  have srt: "\<not> list_ex (\<lambda>i. ie_node_num (?idx ! i) < ie_node_num (?idx ! (i - 1))) [1..<length ?idx]"
  proof
    assume "list_ex (\<lambda>i. ie_node_num (?idx ! i) < ie_node_num (?idx ! (i - 1))) [1..<length ?idx]"
    then obtain i where "i < length ?idx" "ie_node_num (?idx ! i) < ie_node_num (?idx ! (i - 1))"
      unfolding list_ex_iff set_upt by auto
    with mono [of i] show False by (simp only: leD)
  qed
  have valid: "snap_header_is_valid h" by (simp add: h_def snap_header_new_valid)
  show ?thesis
    unfolding h_def [symmetric] f_def [symmetric] reader_from_bytes_def hb snap_header_read_back
    using len sz srt
    by (simp add: SNAPSHOT_HEADER_SIZE_def valid u ib length_built_index rd Let_def)
qed

lemma built_entry:
  fixes blocks' :: "(u64 \<times> bytes) list"
  assumes "builder_ok b" "i < length b"
    "map (length \<circ> snd) blocks' = map (length \<circ> snd) (builder_blocks b)"
  shows "entry_state (built_pre b @ concat (map snd blocks')) (of_nat (36 + length b * 24))
      (build_index 0 (builder_blocks b) ! i) =
    (if crc32 (snd (blocks' ! i)) \<noteq> crc32 (snd (builder_blocks b ! i)) then Err CrcMismatch
     else ok_or (node_deserialize (fst (builder_blocks b ! i)) (snd (blocks' ! i))) CorruptRecord)"
proof -
  have "length (built_pre b) + blocks_size (builder_blocks b) < 2 ^ 63"
    using assms(1) by (simp add: build_pieces builder_blocks_size builder_ok_def SNAPSHOT_HEADER_SIZE_def INDEX_ENTRY_SIZE_def)
  moreover have "\<forall>x\<in>set (builder_blocks b). length (snd x) < 2 ^ 32"
    using assms(1) by (auto simp: builder_ok_def builder_blocks_def)
  ultimately show ?thesis
    using block_range [of i "builder_blocks b" "built_pre b" blocks'] assms(2,3)
    by (simp add: build_pieces builder_blocks_def)
qed

lemma built_nodes:
  assumes "builder_ok b"
  shows "sorted_wrt (<) (map fst (builder_blocks b))" "distinct (map fst b)"
proof -
  show d: "distinct (map fst b)" using assms by (simp add: builder_ok_def)
  have "map fst (builder_blocks b) = map fst (sort_key fst b)" by (simp add: builder_blocks_def case_prod_beta')
  moreover have "distinct (map fst (sort_key fst b))"
  proof -
    have "mset (map fst (sort_key fst b)) = mset (map fst b)" by (simp only: mset_map mset_sort)
    then show ?thesis using d by (metis mset_eq_imp_distinct_iff)
  qed
  ultimately show "sorted_wrt (<) (map fst (builder_blocks b))"
    by (simp add: strict_sorted_iff)
qed

lemma built_block:
  assumes "builder_ok b" "map_of b n = Some st"
  obtains i where "i < length b" "sort_key fst b ! i = (n, st)" "builder_blocks b ! i = (n, node_serialize st)"
    "node_deserialize n (node_serialize st) = Some st"
proof -
  have "(n, st) \<in> set (sort_key fst b)" using assms(2) by (simp add: map_of_SomeD)
  then obtain i where i: "i < length b" "sort_key fst b ! i = (n, st)" by (auto simp: in_set_conv_nth simp del: set_sort)
  have "(n, st) \<in> set b" using assms(2) by (simp add: map_of_SomeD)
  then have "ns_node_num st = n" "node_ok st" using assms(1) by (auto simp: builder_ok_def)
  then have "node_deserialize n (node_serialize st) = Some st" using node_read_back by blast
  with i show thesis by (intro that [of i]) (simp_all add: builder_blocks_def)
qed

text \<open>Looking up a node of a built file, whose data blocks may have been tampered with.\<close>

lemma built_get_node:
  fixes blocks' :: "(u64 \<times> bytes) list"
  assumes b: "builder_ok b" and len: "map (length \<circ> snd) blocks' = map (length \<circ> snd) (builder_blocks b)"
    and r: "reader_from_bytes (built_pre b @ concat (map snd blocks')) = Ok r"
  shows "n \<notin> fst ` set b \<Longrightarrow> reader_get_node r n = Err ()"
    and "i < length b \<Longrightarrow> n = fst (builder_blocks b ! i) \<Longrightarrow> reader_get_node r n =
      (if crc32 (snd (blocks' ! i)) \<noteq> crc32 (snd (builder_blocks b ! i)) then Err ()
       else ok_or (node_deserialize n (snd (blocks' ! i))) ())"
proof -
  let ?h = "snap_header_new (of_nat (length b)) 36 (of_nat (36 + length b * 24))"
  have r': "r = \<lparr>sr_data = built_pre b @ concat (map snd blocks'), sr_header = ?h, sr_index = build_index 0 (builder_blocks b)\<rparr>"
    using r built_reader [OF b, of "concat (map snd blocks')"] by simp
  have off: "sh_off_data ?h = of_nat (36 + length b * 24)" by (simp add: snap_header_new_def Let_def)
  note srt = built_nodes(1) [OF b]
  have l: "length (builder_blocks b) = length b" by (simp add: builder_blocks_def)
  have keys: "set (map fst (builder_blocks b)) = fst ` set b" by (force simp: builder_blocks_def image_iff)
  show "reader_get_node r n = Err ()" if "n \<notin> fst ` set b"
    using bsearch_lookup(1) [OF srt, of n] that keys by (simp add: reader_get_node_def r')
  show "reader_get_node r n =
      (if crc32 (snd (blocks' ! i)) \<noteq> crc32 (snd (builder_blocks b ! i)) then Err ()
       else ok_or (node_deserialize n (snd (blocks' ! i))) ())"
    if "i < length b" "n = fst (builder_blocks b ! i)"
  proof -
    have "bsearch n (map fst (builder_blocks b)) 0 (length (builder_blocks b)) = Some i"
      using bsearch_lookup(2) [OF srt, of i] that l by simp
    then show ?thesis
      using built_entry [OF b that(1) len] that(2)
      by (cases "node_deserialize n (snd (blocks' ! i))") (simp_all add: reader_get_node_def r' off del: of_nat_add)
  qed
qed

lemma validate_all: "\<forall>e\<in>set es. \<exists>n. entry_state data off e = Ok n \<Longrightarrow> validate_entries data off es = Ok ()"
  by (induction es) auto

lemma validate_damaged:
  assumes "i < length es" "entry_state data off (es ! i) = Err e" "\<And>j. j < i \<Longrightarrow> \<exists>n. entry_state data off (es ! j) = Ok n"
  shows "validate_entries data off es = Err e"
  using assms
proof (induction es arbitrary: i)
  case (Cons x es)
  show ?case
  proof (cases i)
    case (Suc k)
    have "validate_entries data off es = Err e"
      by (rule Cons.IH [of k]) (use Cons.prems Suc in \<open>force+\<close>)
    moreover obtain n where "entry_state data off x = Ok n" using Cons.prems(3) [of 0] Suc by auto
    ultimately show ?thesis by simp
  qed (use Cons.prems in simp)
qed simp

section \<open>The header checksum\<close>

lemma snap_crc32_update_shift:
  "snap_crc32_update c data = drop_bit (8 * length data) c XOR snap_crc32_update 0 data"
proof (induction data arbitrary: c)
  case (Cons b data)
  have u: "snap_crc32_update c (b # data) = snap_crc32_update (drop_bit 8 c XOR crc32 [b]) data" for c
    by (simp add: snap_crc32_update_def)
  have "snap_crc32_update c (b # data) = drop_bit (8 * length data) (drop_bit 8 c XOR crc32 [b]) XOR snap_crc32_update 0 data"
    unfolding u by (rule Cons.IH)
  also have "\<dots> = drop_bit (8 * length (b # data)) c XOR (drop_bit (8 * length data) (crc32 [b]) XOR snap_crc32_update 0 data)"
    by (simp add: drop_bit_xor xor.assoc add.commute)
  also have "drop_bit (8 * length data) (crc32 [b]) XOR snap_crc32_update 0 data = snap_crc32_update 0 (b # data)"
    using Cons.IH [of "crc32 [b]"] by (simp add: u)
  finally show ?case .
qed (simp add: snap_crc32_update_def)

lemma snap_crc32_update_forgets: "4 \<le> length data \<Longrightarrow> snap_crc32_update c data = snap_crc32_update 0 data"
proof -
  assume "4 \<le> length data"
  then have "drop_bit (8 * length data) c = 0"
    by (intro bit_eqI) (auto simp: bit_simps dest: bit_imp_le_length)
  then show ?thesis using snap_crc32_update_shift [of c data] by simp
qed

lemma nat_le_add: "nat_le (m + n) v = nat_le m v @ nat_le n (v div 256 ^ m)"
  by (induction m arbitrary: v) (simp_all add: div_mult2_eq)

lemma u64_le_high: "u64_le w = nat_le 4 (unat w) @ nat_le 4 (unat w div 2 ^ 32)"
  using nat_le_add [of 4 4 "unat w"] by (simp add: u64_le_def)

lemma snap_crc_last:
  "snap_calculate_crc h = snap_crc32_update 0 (nat_le 4 (unat (sh_off_data h) div 2 ^ 32)) XOR 0xFFFFFFFF"
proof -
  have "snap_crc32_update c (u64_le w) = snap_crc32_update 0 (nat_le 4 (unat w div 2 ^ 32))" for c w
  proof -
    have "snap_crc32_update c (u64_le w) =
        snap_crc32_update (snap_crc32_update c (nat_le 4 (unat w))) (nat_le 4 (unat w div 2 ^ 32))"
      by (simp add: u64_le_high snap_crc32_update_def)
    also have "\<dots> = snap_crc32_update 0 (nat_le 4 (unat w div 2 ^ 32))"
      by (rule snap_crc32_update_forgets) simp
    finally show ?thesis .
  qed
  then show ?thesis by (simp add: snap_calculate_crc_def snap_header_fields_def)
qed

section \<open>Field states read back\<close>

lemma fold_inc_new:
  "distinct (map fst es) \<Longrightarrow> fst ` set es \<inter> fst ` set m = {} \<Longrightarrow>
   fold (\<lambda>(a, v). gcounter_inc a v) es \<lparr>gc_counts = m\<rparr> = \<lparr>gc_counts = m @ es\<rparr>"
proof (induction es arbitrary: m)
  case (Cons e es)
  obtain a v where e: "e = (a, v)" by force
  have a: "a \<notin> fst ` set m" and i: "distinct (map fst es)" "fst ` set es \<inter> fst ` set (m @ [e]) = {}"
    using Cons.prems by (auto simp: e)
  show ?case using Cons.IH [OF i] a by (simp add: e gcounter_inc_def entry_upd_def get_or_notin update_new)
qed simp

lemma gcounter_field_read:
  assumes "gcounter_storable c"
  shows "deserialize_gcounter (serialize_gcounter c) = Some c"
proof -
  have ok: "\<forall>e\<in>set (gc_counts c). actor_ok (fst e)" and l: "length (gc_counts c) < 2 ^ 32"
    and d: "distinct (map fst (gc_counts c))"
    using assms by (simp_all add: gcounter_storable_def gcounter_ok_def)
  have "fold (\<lambda>(a, v). gcounter_inc a v) (gc_counts c) gcounter_new = c"
    using fold_inc_new [of "gc_counts c" "[]"] d by (simp add: gcounter_new_def)
  with entryc.read_loop_concat [OF ok, of "\<lambda>(a, v). gcounter_inc a v" "[]" gcounter_new] show ?thesis
    unfolding deserialize_gcounter_def serialize_gcounter_def read_len_append [OF l] by simp
qed

lemma pncounter_field_read:
  assumes "pncounter_storable c"
  shows "deserialize_pncounter (serialize_pncounter c) = Some c"
proof -
  have s: "serialize_pncounter c = blob_le (serialize_gcounter (pn_p c)) @ blob_le (serialize_gcounter (pn_n c))"
    by (simp add: serialize_pncounter_def blob_le_def Let_def serialize_gcounter_def gcounter_to_bytes_def)
  have l: "length (serialize_gcounter (pn_p c)) < 2 ^ 32" "length (serialize_gcounter (pn_n c)) < 2 ^ 32"
    and ok: "gcounter_storable (pn_p c)" "gcounter_storable (pn_n c)"
    using assms by (simp_all add: pncounter_storable_def serialize_gcounter_def gcounter_to_bytes_def)
  show ?thesis
    unfolding deserialize_pncounter_def s
    using read_blob_append [OF l(2), of "[]"]
    by (simp add: read_blob_append [OF l(1)] gcounter_field_read [OF ok(1)] gcounter_field_read [OF ok(2)])
qed

lemma lwwreg_field_read:
  assumes "actor_ok (lww_actor r)" "length (lww_value r) < 2 ^ 32"
  shows "deserialize_lwwreg (serialize_lwwreg r) = Some r"
proof -
  have "unat (of_nat (length (lww_value r)) :: u32) = length (lww_value r)"
    using assms(2) by (rule unat_of_nat_u32)
  then show ?thesis using assms(1)
    by (simp add: deserialize_lwwreg_def serialize_lwwreg_def blob_le_def len_le_def actor_ok_def
        ACTOR_ID_SIZE_def from_parts_parts Let_def)
qed

definition symset_storable :: "u32 ORSet \<Rightarrow> bool" where
  "symset_storable s \<longleftrightarrow> hm_ok (os_elements s) \<and> length (os_elements s) < 2 ^ 32 \<and>
     (\<forall>e\<in>fst ` set (os_elements s). dots_ok (get_or [] (os_elements s) e) \<and> dots_ok (get_or [] (os_tombstones s) e))"

lemma orset_field_read:
  assumes "symset_storable s"
  shows "\<exists>s'. deserialize_orset (serialize_orset s) = Some s' \<and> orset_contains s' = orset_contains s"
proof -
  let ?ks = "map fst (os_elements s)" and ?s = "fold (apply_entry s) (map fst (os_elements s)) orset_new"
  have d: "hm_ok (os_elements s)" and l: "length (os_elements s) < 2 ^ 32"
    using assms by (simp_all add: symset_storable_def)
  have "map (\<lambda>(e, add_dots). u32_le e @ dots_le add_dots @ dots_le (get_or [] (os_tombstones s) e)) (os_elements s) =
      map (orset_entry_le u32_le s) ?ks"
    using d by (auto simp: orset_entry_le_def get_or_map_of)
  note eq = this
  have ser: "serialize_orset s = len_le (length ?ks) @ concat (map (orset_entry_le u32_le s) ?ks) @ []"
    by (simp only: serialize_orset_def eq length_map append_Nil2)
  have "orset_read read_u32 (length ?ks) (concat (map (orset_entry_le u32_le s) ?ks) @ []) orset_new = Some (?s, [])"
    by (rule orset_read_entries [OF u32c.codec_axioms]) (use assms in \<open>simp add: symset_storable_def\<close>)
  then have "deserialize_orset (serialize_orset s) = Some ?s"
    unfolding deserialize_orset_def ser using l by (simp add: read_len_append)
  moreover have "orset_contains ?s x = orset_contains s x" for x
    by (auto simp: orset_contains_iff view_apply_entries os_E_def [of s] get_or_notin)
  ultimately show ?thesis by (auto simp: fun_eq_iff)
qed

section \<open>Properties\<close>

text \<open>
  C7: a snapshot is a faithful map. Reading a file the builder wrote succeeds, looking up a
  node number gives exactly the node that was added, or nothing, iteration visits all nodes in
  increasing order, and validation accepts the file.
\<close>

theorem snapshot_build_lookup:
  assumes "builder_ok b"
  shows "\<exists>r. reader_from_bytes (builder_build b) = Ok r \<and>
    (\<forall>n. reader_get_node r n = (case map_of b n of Some st \<Rightarrow> Ok st | None \<Rightarrow> Err ())) \<and>
    reader_iter_nodes r = map (Ok \<circ> snd) (sort_key fst b) \<and> reader_validate r = Ok ()"
proof -
  define h where "h = snap_header_new (of_nat (length b)) 36 (of_nat (36 + length b * 24))"
  obtain r where r: "reader_from_bytes (builder_build b) = Ok r"
    "r = \<lparr>sr_data = builder_build b, sr_header = h, sr_index = build_index 0 (builder_blocks b)\<rparr>"
    using built_reader [OF assms, of "concat (map snd (builder_blocks b))"] by (simp add: build_pieces(1) h_def)
  have off: "sh_off_data h = of_nat (36 + length b * 24)" by (simp add: h_def snap_header_new_def Let_def)
  note get = built_get_node [OF assms refl r(1) [unfolded build_pieces(1)]]
  have lookup: "reader_get_node r n = (case map_of b n of Some st \<Rightarrow> Ok st | None \<Rightarrow> Err ())" for n
  proof (cases "map_of b n")
    case None
    then have "n \<notin> fst ` set b" by (rule map_of_eq_None_iff [THEN iffD1])
    then show ?thesis unfolding None option.case by (rule get(1))
  next
    case (Some st)
    from built_block [OF assms this] obtain i where "i < length b" "builder_blocks b ! i = (n, node_serialize st)"
      "node_deserialize n (node_serialize st) = Some st" by metis
    then show ?thesis using get(2) [of i n] Some by simp
  qed
  have e: "entry_state (builder_build b) (sh_off_data h) (build_index 0 (builder_blocks b) ! i) = Ok (snd (sort_key fst b ! i))"
    if i: "i < length b" for i
  proof -
    obtain n st where nst: "sort_key fst b ! i = (n, st)" by force
    have "(n, st) \<in> set (sort_key fst b)" using i nst nth_mem [of i "sort_key fst b"] by simp
    then have "map_of b n = Some st" using assms by (simp add: builder_ok_def)
    then have "node_deserialize n (node_serialize st) = Some st" using built_block [OF assms] by metis
    then show ?thesis
      using built_entry [OF assms i refl] nst i
      by (simp add: build_pieces(1) off builder_blocks_def del: of_nat_add)
  qed
  have "reader_iter_nodes r = map (Ok \<circ> snd) (sort_key fst b)"
    by (rule nth_equalityI) (simp_all add: reader_iter_nodes_def r(2) builder_blocks_def e [unfolded builder_blocks_def])
  moreover have "\<forall>x\<in>set (build_index 0 (builder_blocks b)). \<exists>n. entry_state (builder_build b) (sh_off_data h) x = Ok n"
    using e by (auto simp: in_set_conv_nth builder_blocks_def)
  then have "reader_validate r = Ok ()" by (simp add: reader_validate_def r(2) validate_all)
  ultimately show ?thesis using r(1) lookup by blast
qed

lemma sample_builder_ok: "builder_ok (builder_add_node 7 [field_from_gcounter 2 gcounter_new] [])"
  by (simp add: builder_ok_def builder_add_node_def entry_upd_def node_new_def node_add_field_def node_ok_def
      field_from_gcounter_def field_ok_def serialize_gcounter_def gcounter_new_def node_serialize_def
      field_serialize_def field_header_to_bytes_def field_header_new_def SNAPSHOT_HEADER_SIZE_def INDEX_ENTRY_SIZE_def)

theorem snapshot_build_lookup_witness:
  "let b = builder_add_node 7 [field_from_gcounter 2 gcounter_new] []
   in \<exists>r st. reader_from_bytes (builder_build b) = Ok r \<and> reader_get_node r 7 = Ok st \<and>
        reader_get_node r 8 = Err ()"
proof -
  let ?b = "builder_add_node 7 [field_from_gcounter 2 gcounter_new] []"
  obtain r where r: "reader_from_bytes (builder_build ?b) = Ok r"
    "\<And>n. reader_get_node r n = (case map_of ?b n of Some st \<Rightarrow> Ok st | None \<Rightarrow> Err ())"
    using snapshot_build_lookup [OF sample_builder_ok] by blast
  show ?thesis using r(1) by (simp add: Let_def r(2)) (simp add: builder_add_node_def entry_upd_def)
qed

text \<open>
  C8: damage to the data of one node is found and stays local. When at most four consecutive
  bytes of a node's block are changed, the snapshot still opens, the lookup of that node fails, every
  other lookup gives what was stored, and validation reports the checksum.
\<close>

theorem snapshot_damage_detected:
  assumes "builder_ok b" "map_of b n = Some st" "node_serialize st = xs @ w @ ys"
    "length w' = length w" "length w \<le> 4" "w' \<noteq> w"
  shows "\<exists>r. reader_from_bytes (built_pre b @ concat (map
      (\<lambda>(k, data). if k = n then xs @ w' @ ys else data) (builder_blocks b))) = Ok r \<and>
    (\<forall>m. reader_get_node r m = (case map_of b m of
       Some st \<Rightarrow> if m = n then Err () else Ok st | None \<Rightarrow> Err ())) \<and>
    reader_validate r = Err CrcMismatch"
proof -
  let ?g = "\<lambda>(k, data). if k = n then xs @ w' @ ys else data"
  let ?bs = "map (\<lambda>x. (fst x, ?g x)) (builder_blocks b)"
  have cat: "concat (map snd ?bs) = concat (map ?g (builder_blocks b))" by (simp add: comp_def)
  obtain i where i: "i < length b" "builder_blocks b ! i = (n, node_serialize st)"
    using built_block [OF assms(1,2)] by metis
  have data: "d = node_serialize st" if d: "(n, d) \<in> set (builder_blocks b)" for d
  proof -
    obtain st' where "(n, st') \<in> set b" "d = node_serialize st'" using d by (auto simp: builder_blocks_def)
    moreover from this have "map_of b n = Some st'" using assms(1) by (simp add: builder_ok_def)
    ultimately show ?thesis using assms(2) by simp
  qed
  have len: "map (length \<circ> snd) ?bs = map (length \<circ> snd) (builder_blocks b)"
    by (auto simp: assms(3,4) dest!: data)
  obtain r where r: "reader_from_bytes (built_pre b @ concat (map snd ?bs)) = Ok r"
    using built_reader [OF assms(1)] by blast
  note get = built_get_node [OF assms(1) len r]
  have "reader_get_node r m = (case map_of b m of Some st \<Rightarrow> if m = n then Err () else Ok st | None \<Rightarrow> Err ())" for m
  proof (cases "map_of b m")
    case None
    then have "m \<notin> fst ` set b" by (rule map_of_eq_None_iff [THEN iffD1])
    then show ?thesis unfolding None option.case by (rule get(1))
  next
    case (Some st')
    from built_block [OF assms(1) this] obtain j where j: "j < length b" "builder_blocks b ! j = (m, node_serialize st')"
      "node_deserialize m (node_serialize st') = Some st'" by metis
    have l: "length (builder_blocks b) = length b" by (simp add: builder_blocks_def)
    show ?thesis
    proof (cases "m = n")
      case True
      then have "st' = st" using Some assms(2) by simp
      then have "crc32 (snd (?bs ! j)) \<noteq> crc32 (snd (builder_blocks b ! j))"
        using j l True assms(3-6) crc32_window_inj [of w w' xs ys] by auto
      then show ?thesis using get(2) [OF j(1)] j(2) Some True by simp
    next
      case False
      then show ?thesis using get(2) [OF j(1)] j l Some by simp
    qed
  qed
  moreover have "reader_validate r = Err CrcMismatch"
  proof -
    let ?h = "snap_header_new (of_nat (length b)) 36 (of_nat (36 + length b * 24))"
    have r': "r = \<lparr>sr_data = built_pre b @ concat (map snd ?bs), sr_header = ?h, sr_index = build_index 0 (builder_blocks b)\<rparr>"
      using r built_reader [OF assms(1), of "concat (map snd ?bs)"] by simp
    have off: "sh_off_data ?h = of_nat (36 + length b * 24)" by (simp add: snap_header_new_def Let_def)
    have l: "length (builder_blocks b) = length b" by (simp add: builder_blocks_def)
    have d: "distinct (map fst (builder_blocks b))" using built_nodes(1) [OF assms(1)] by (simp add: strict_sorted_iff)
    have other: "fst (builder_blocks b ! j) \<noteq> n" if "j < i" for j
      using nth_eq_iff_index_eq [OF d, of j i] that i l by auto
    note entry = built_entry [OF assms(1) _ len]
    have "crc32 (snd (?bs ! i)) \<noteq> crc32 (snd (builder_blocks b ! i))"
      using i l assms(3-6) crc32_window_inj [of w w' xs ys] by auto
    then have bad: "entry_state (sr_data r) (sh_off_data (sr_header r)) (sr_index r ! i) = Err CrcMismatch"
      using entry [OF i(1)] by (simp add: r' off del: of_nat_add)
    have good: "\<exists>x. entry_state (sr_data r) (sh_off_data (sr_header r)) (sr_index r ! j) = Ok x" if "j < i" for j
    proof -
      have j: "j < length b" using that i(1) by simp
      then obtain m st' where m: "builder_blocks b ! j = (m, node_serialize st')" "(m, st') \<in> set (sort_key fst b)"
        using nth_mem [of j "sort_key fst b"] by (cases "sort_key fst b ! j") (auto simp: builder_blocks_def)
      then have "map_of b m = Some st'" using assms(1) by (simp add: builder_ok_def)
      then have "node_deserialize m (node_serialize st') = Some st'" using built_block [OF assms(1)] by metis
      moreover have "?bs ! j = builder_blocks b ! j" using other [OF that] m(1) j l by simp
      ultimately show ?thesis using entry [OF j] m(1) by (simp add: r' off del: of_nat_add)
    qed
    show ?thesis
      unfolding reader_validate_def by (rule validate_damaged [OF _ bad good]) (use i(1) l in \<open>simp add: r'\<close>)
  qed
  ultimately show ?thesis using r unfolding cat by blast
qed

theorem snapshot_damage_detected_witness:
  "let b = builder_add_node 7 [field_from_gcounter 2 gcounter_new] []
   in \<exists>r. reader_from_bytes (built_pre b @ concat (map
        (\<lambda>(k, data). if k = 7 then [1, 0, 0, 0, 2, 0, 1, 0, 5, 0, 0, 0, 0, 0, 0, 0] else data) (builder_blocks b))) = Ok r \<and>
      reader_get_node r 7 = Err ()"
proof -
  let ?b = "builder_add_node 7 [field_from_gcounter 2 gcounter_new] []"
  let ?st = "node_add_field (field_from_gcounter 2 gcounter_new) (node_new 7)"
  have m: "map_of ?b 7 = Some ?st" by (simp add: builder_add_node_def entry_upd_def)
  have s: "node_serialize ?st = [1, 0, 0, 0, 2, 0, 1, 0] @ [4] @ [0, 0, 0, 0, 0, 0, 0]" by code_simp
  from snapshot_damage_detected [OF sample_builder_ok m s, of "[5]"] m show ?thesis
    by (auto simp: Let_def)
qed

text \<open>
  The checksum of the header sees only the upper half of the data offset: the checksum
  step keeps 32 bits and moves the earlier ones out. Changing the number of entries, the flags
  or the index offset of a valid header leaves it valid.
\<close>

theorem snapshot_header_crc_blind:
  "(unat (sh_off_data h) div 2 ^ 32 = unat (sh_off_data h') div 2 ^ 32 \<longrightarrow>
      snap_calculate_crc h = snap_calculate_crc h') \<and>
   snap_header_is_valid (h\<lparr>sh_entry_count := n, sh_flags := f, sh_off_index := i\<rparr>) = snap_header_is_valid h"
  by (simp add: snap_header_is_valid_def snap_validate_magic_def snap_validate_crc_def snap_crc_last)

theorem snapshot_header_crc_blind_witness:
  "snap_calculate_crc (snap_header_new 1 36 60) = snap_calculate_crc (snap_header_new 999 0 61)"
  using snapshot_header_crc_blind [of "snap_header_new 1 36 60" "snap_header_new 999 0 61" 0 0 0]
  by (simp add: snap_header_new_def Let_def)

text \<open>
  A crafted header aborts the reader: when the wrapped size of the announced index equals
  the room between the two offsets but the entries need more than \<open>isize::MAX\<close> bytes, the
  allocation of the index panics before any entry is read.
\<close>

theorem snapshot_reader_aborts:
  assumes "snap_header_is_valid h" "sh_off_index h \<le> sh_off_data h"
    "unat (sh_off_data h) \<le> SNAPSHOT_HEADER_SIZE + length rest"
    "sh_entry_count h * of_nat INDEX_ENTRY_SIZE = sh_off_data h - sh_off_index h"
    "2 ^ 63 \<le> unat (sh_entry_count h) * INDEX_ENTRY_SIZE"
  shows "reader_from_bytes (snap_header_to_bytes h @ rest) = Panic"
proof -
  have "unat (sh_off_data h - sh_off_index h) = unat (sh_off_data h) - unat (sh_off_index h)"
    using assms(2) by (rule unat_sub)
  then show ?thesis
    using assms by (simp add: reader_from_bytes_def snap_header_read_back word_le_nat_alt Let_def INDEX_ENTRY_SIZE_def)
qed

theorem snapshot_reader_aborts_witness:
  "reader_from_bytes (snap_header_to_bytes (snap_header_new 0x2000000000000000 36 36) @ []) = Panic"
proof -
  have "snap_header_is_valid (snap_header_new 0x2000000000000000 36 36)" by (rule snap_header_new_valid)
  moreover have "sh_off_index (snap_header_new 0x2000000000000000 36 36) = 36"
    "sh_off_data (snap_header_new 0x2000000000000000 36 36) = 36"
    "sh_entry_count (snap_header_new 0x2000000000000000 36 36) = 0x2000000000000000"
    by (simp_all add: snap_header_new_def Let_def)
  ultimately show ?thesis
    using snapshot_reader_aborts [of "snap_header_new 0x2000000000000000 36 36" "[]"]
    by (simp add: SNAPSHOT_HEADER_SIZE_def INDEX_ENTRY_SIZE_def)
qed

text \<open>
  The states of fields are read back as they were written: the two counters and the
  register exactly, a set of symbols with the same elements.
\<close>

theorem snapshot_fields_roundtrip:
  "(gcounter_storable g \<longrightarrow> deserialize_gcounter (fld_state (field_from_gcounter i g)) = Some g) \<and>
   (pncounter_storable p \<longrightarrow> deserialize_pncounter (fld_state (field_from_pncounter i p)) = Some p) \<and>
   (actor_ok (lww_actor r) \<and> length (lww_value r) < 2 ^ 32 \<longrightarrow>
      deserialize_lwwreg (fld_state (field_from_lwwreg i r)) = Some r) \<and>
   (symset_storable s \<longrightarrow> (\<exists>s'. deserialize_orset (fld_state (field_from_orset i s)) = Some s' \<and>
      orset_contains s' = orset_contains s))"
  using gcounter_field_read pncounter_field_read lwwreg_field_read orset_field_read
  by (simp add: field_from_gcounter_def field_from_pncounter_def field_from_lwwreg_def field_from_orset_def)

theorem snapshot_fields_roundtrip_witness:
  "deserialize_gcounter (fld_state (field_from_gcounter 3 gcounter_new)) = Some gcounter_new"
  using snapshot_fields_roundtrip [of gcounter_new 3 pncounter_new "lww_default []" orset_new]
  by (simp add: gcounter_storable_def gcounter_ok_def gcounter_new_def)

end
