(* ===== verification/Store_Types.thy ===== *)
theory Store_Types
  imports Prelude
begin

text \<open>
  The shared vocabulary of \<open>src/store/mod.rs\<close> and \<open>src/prelude.rs\<close>: the code enumerations
  with the numbers that stand for them in files, their classifications, and the constraints of
  a query. Each \<open>from_\<close> conversion is the table of the source's match; each pair of
  conversions is shown inverse to one another, so an unknown number is never decoded.
\<close>

type_synonym AtomId = bytes
type_synonym SymId = u32
type_synonym RefId = u32
type_synonym NodeNum = u64
type_synonym TrustLevel = u16
type_synonym DomainMask = u64

section \<open>Enumerations\<close>

subsection \<open>\<open>AtomType\<close>\<close>

datatype AtomType =
    DEFINITION | FACT | RULE | PROCEDURE | OBSERVATION | HYPOTHESIS | EXAMPLE | COUNTEREXAMPLE
  | DATASET | MEASUREMENT | DECISION | CONFLICT | MAP

primrec atom_type_to_u32 :: "AtomType \<Rightarrow> u32" where
    "atom_type_to_u32 DEFINITION = 1"
  | "atom_type_to_u32 FACT = 2"
  | "atom_type_to_u32 RULE = 3"
  | "atom_type_to_u32 PROCEDURE = 4"
  | "atom_type_to_u32 OBSERVATION = 5"
  | "atom_type_to_u32 HYPOTHESIS = 6"
  | "atom_type_to_u32 EXAMPLE = 7"
  | "atom_type_to_u32 COUNTEREXAMPLE = 8"
  | "atom_type_to_u32 DATASET = 9"
  | "atom_type_to_u32 MEASUREMENT = 10"
  | "atom_type_to_u32 DECISION = 11"
  | "atom_type_to_u32 CONFLICT = 12"
  | "atom_type_to_u32 MAP = 13"

definition atom_type_from_u32 :: "u32 \<Rightarrow> AtomType option" where
  "atom_type_from_u32 = map_of
     [(1, DEFINITION), (2, FACT), (3, RULE), (4, PROCEDURE), (5, OBSERVATION), (6, HYPOTHESIS),
      (7, EXAMPLE), (8, COUNTEREXAMPLE), (9, DATASET), (10, MEASUREMENT), (11, DECISION),
      (12, CONFLICT), (13, MAP)]"

definition atom_type_can_have_evidence :: "AtomType \<Rightarrow> bool" where
  "atom_type_can_have_evidence x \<longleftrightarrow> x \<in> {FACT, HYPOTHESIS, RULE, DECISION, CONFLICT}"

definition atom_type_is_structural :: "AtomType \<Rightarrow> bool" where
  "atom_type_is_structural x \<longleftrightarrow> x \<in> {DEFINITION, RULE, PROCEDURE}"

lemma atom_type_code_roundtrip [simp]: "atom_type_from_u32 (atom_type_to_u32 x) = Some x"
  by (cases x) (simp_all add: atom_type_from_u32_def)

lemma atom_type_code_only: "atom_type_from_u32 v = Some x \<Longrightarrow> atom_type_to_u32 x = v"
  by (auto simp: atom_type_from_u32_def split: if_splits)

subsection \<open>\<open>EdgeType\<close>\<close>

datatype EdgeType =
    DEFINES | REFINES | GENERALIZES | IMPLIES | SUPPORTS | CONTRADICTS | SAME_AS | NEAR_DUP
  | DERIVED_FROM | DEPENDS_ON | CAUSES | ENABLES | PREVENTS | STEP_OF | INPUT_OF | OUTPUT_OF
  | MAPS_TO | IMPORTED_FROM | GATEWAY_TO | SUPERSEDES | TOMBSTONE_LINK

primrec edge_type_to_u32 :: "EdgeType \<Rightarrow> u32" where
    "edge_type_to_u32 DEFINES = 1"
  | "edge_type_to_u32 REFINES = 2"
  | "edge_type_to_u32 GENERALIZES = 3"
  | "edge_type_to_u32 IMPLIES = 4"
  | "edge_type_to_u32 SUPPORTS = 5"
  | "edge_type_to_u32 CONTRADICTS = 6"
  | "edge_type_to_u32 SAME_AS = 7"
  | "edge_type_to_u32 NEAR_DUP = 8"
  | "edge_type_to_u32 DERIVED_FROM = 9"
  | "edge_type_to_u32 DEPENDS_ON = 10"
  | "edge_type_to_u32 CAUSES = 11"
  | "edge_type_to_u32 ENABLES = 12"
  | "edge_type_to_u32 PREVENTS = 13"
  | "edge_type_to_u32 STEP_OF = 14"
  | "edge_type_to_u32 INPUT_OF = 15"
  | "edge_type_to_u32 OUTPUT_OF = 16"
  | "edge_type_to_u32 MAPS_TO = 17"
  | "edge_type_to_u32 IMPORTED_FROM = 18"
  | "edge_type_to_u32 GATEWAY_TO = 19"
  | "edge_type_to_u32 SUPERSEDES = 20"
  | "edge_type_to_u32 TOMBSTONE_LINK = 21"

definition edge_type_from_u32 :: "u32 \<Rightarrow> EdgeType option" where
  "edge_type_from_u32 = map_of
     [(1, DEFINES), (2, REFINES), (3, GENERALIZES), (4, IMPLIES), (5, SUPPORTS), (6, CONTRADICTS),
      (7, SAME_AS), (8, NEAR_DUP), (9, DERIVED_FROM), (10, DEPENDS_ON), (11, CAUSES),
      (12, ENABLES), (13, PREVENTS), (14, STEP_OF), (15, INPUT_OF), (16, OUTPUT_OF),
      (17, MAPS_TO), (18, IMPORTED_FROM), (19, GATEWAY_TO), (20, SUPERSEDES), (21, TOMBSTONE_LINK)]"

definition edge_type_is_causal :: "EdgeType \<Rightarrow> bool" where
  "edge_type_is_causal x \<longleftrightarrow> x \<in> {CAUSES, ENABLES, PREVENTS}"

definition edge_type_is_federation :: "EdgeType \<Rightarrow> bool" where
  "edge_type_is_federation x \<longleftrightarrow> x \<in> {MAPS_TO, IMPORTED_FROM, GATEWAY_TO}"

definition edge_type_is_conflict :: "EdgeType \<Rightarrow> bool" where
  "edge_type_is_conflict x \<longleftrightarrow> x \<in> {CONTRADICTS}"

definition edge_type_is_structural :: "EdgeType \<Rightarrow> bool" where
  "edge_type_is_structural x \<longleftrightarrow> x \<in> {DEFINES, REFINES, GENERALIZES, STEP_OF, INPUT_OF, OUTPUT_OF}"

lemma edge_type_code_roundtrip [simp]: "edge_type_from_u32 (edge_type_to_u32 x) = Some x"
  by (cases x) (simp_all add: edge_type_from_u32_def)

lemma edge_type_code_only: "edge_type_from_u32 v = Some x \<Longrightarrow> edge_type_to_u32 x = v"
  by (auto simp: edge_type_from_u32_def split: if_splits)

subsection \<open>\<open>ObjTag\<close>\<close>

datatype ObjTag =
    NULL | BOOL | I64 | U64 | F64 | BYTES | SYM | REF | NODENUM

primrec obj_tag_to_u8 :: "ObjTag \<Rightarrow> u8" where
    "obj_tag_to_u8 NULL = 0"
  | "obj_tag_to_u8 BOOL = 1"
  | "obj_tag_to_u8 I64 = 2"
  | "obj_tag_to_u8 U64 = 3"
  | "obj_tag_to_u8 F64 = 4"
  | "obj_tag_to_u8 BYTES = 5"
  | "obj_tag_to_u8 SYM = 6"
  | "obj_tag_to_u8 REF = 7"
  | "obj_tag_to_u8 NODENUM = 8"

definition obj_tag_from_u8 :: "u8 \<Rightarrow> ObjTag option" where
  "obj_tag_from_u8 = map_of
     [(0, NULL), (1, BOOL), (2, I64), (3, U64), (4, F64), (5, BYTES), (6, SYM), (7, REF),
      (8, NODENUM)]"

definition obj_tag_is_numeric :: "ObjTag \<Rightarrow> bool" where
  "obj_tag_is_numeric x \<longleftrightarrow> x \<in> {I64, U64, F64}"

definition obj_tag_is_reference :: "ObjTag \<Rightarrow> bool" where
  "obj_tag_is_reference x \<longleftrightarrow> x \<in> {REF, NODENUM}"

lemma obj_tag_code_roundtrip [simp]: "obj_tag_from_u8 (obj_tag_to_u8 x) = Some x"
  by (cases x) (simp_all add: obj_tag_from_u8_def)

lemma obj_tag_code_only: "obj_tag_from_u8 v = Some x \<Longrightarrow> obj_tag_to_u8 x = v"
  by (auto simp: obj_tag_from_u8_def split: if_splits)

subsection \<open>\<open>SectionKind\<close>\<close>

datatype SectionKind =
    SYMBOLS | REFS | CLAIMS | INVARIANTS | EDGES | EVIDENCE | META

primrec section_kind_to_u32 :: "SectionKind \<Rightarrow> u32" where
    "section_kind_to_u32 SYMBOLS = 1"
  | "section_kind_to_u32 REFS = 2"
  | "section_kind_to_u32 CLAIMS = 3"
  | "section_kind_to_u32 INVARIANTS = 4"
  | "section_kind_to_u32 EDGES = 5"
  | "section_kind_to_u32 EVIDENCE = 6"
  | "section_kind_to_u32 META = 7"

definition section_kind_from_u32 :: "u32 \<Rightarrow> SectionKind option" where
  "section_kind_from_u32 = map_of
     [(1, SYMBOLS), (2, REFS), (3, CLAIMS), (4, INVARIANTS), (5, EDGES), (6, EVIDENCE),
      (7, META)]"

definition section_kind_is_required :: "SectionKind \<Rightarrow> bool" where
  "section_kind_is_required x \<longleftrightarrow> x \<in> {CLAIMS}"

definition section_kind_can_contain_refs :: "SectionKind \<Rightarrow> bool" where
  "section_kind_can_contain_refs x \<longleftrightarrow> x \<in> {REFS, EDGES, EVIDENCE}"

lemma section_kind_code_roundtrip [simp]: "section_kind_from_u32 (section_kind_to_u32 x) = Some x"
  by (cases x) (simp_all add: section_kind_from_u32_def)

lemma section_kind_code_only: "section_kind_from_u32 v = Some x \<Longrightarrow> section_kind_to_u32 x = v"
  by (auto simp: section_kind_from_u32_def split: if_splits)

subsection \<open>\<open>InvariantResult\<close>\<close>

datatype InvariantResult =
    PASS | FAIL_SOFT | FAIL_HARD | NEED_BRANCH

primrec inv_result_to_u8 :: "InvariantResult \<Rightarrow> u8" where
    "inv_result_to_u8 PASS = 0"
  | "inv_result_to_u8 FAIL_SOFT = 1"
  | "inv_result_to_u8 FAIL_HARD = 2"
  | "inv_result_to_u8 NEED_BRANCH = 3"

definition inv_result_from_u8 :: "u8 \<Rightarrow> InvariantResult option" where
  "inv_result_from_u8 = map_of
     [(0, PASS), (1, FAIL_SOFT), (2, FAIL_HARD), (3, NEED_BRANCH)]"

definition inv_result_allows_proceed :: "InvariantResult \<Rightarrow> bool" where
  "inv_result_allows_proceed x \<longleftrightarrow> x \<in> {PASS, FAIL_SOFT}"

definition inv_result_is_failure :: "InvariantResult \<Rightarrow> bool" where
  "inv_result_is_failure x \<longleftrightarrow> x \<in> {FAIL_SOFT, FAIL_HARD}"

lemma inv_result_code_roundtrip [simp]: "inv_result_from_u8 (inv_result_to_u8 x) = Some x"
  by (cases x) (simp_all add: inv_result_from_u8_def)

lemma inv_result_code_only: "inv_result_from_u8 v = Some x \<Longrightarrow> inv_result_to_u8 x = v"
  by (auto simp: inv_result_from_u8_def split: if_splits)

subsection \<open>\<open>ReasonCode\<close>\<close>

datatype ReasonCode =
    TIME_INVALID | TRUST_TOO_LOW | DOMAIN_MISMATCH | SCHEMA_MISMATCH | SOURCE_DENIED | CONFLICT_FOUND
  | MISSING_EVIDENCE | VERSION_INCOMPATIBLE | CORRUPT_SECTION | BUDGET_EXCEEDED

primrec reason_code_to_u16 :: "ReasonCode \<Rightarrow> u16" where
    "reason_code_to_u16 TIME_INVALID = 1"
  | "reason_code_to_u16 TRUST_TOO_LOW = 2"
  | "reason_code_to_u16 DOMAIN_MISMATCH = 3"
  | "reason_code_to_u16 SCHEMA_MISMATCH = 4"
  | "reason_code_to_u16 SOURCE_DENIED = 5"
  | "reason_code_to_u16 CONFLICT_FOUND = 6"
  | "reason_code_to_u16 MISSING_EVIDENCE = 7"
  | "reason_code_to_u16 VERSION_INCOMPATIBLE = 8"
  | "reason_code_to_u16 CORRUPT_SECTION = 9"
  | "reason_code_to_u16 BUDGET_EXCEEDED = 10"

definition reason_code_from_u16 :: "u16 \<Rightarrow> ReasonCode option" where
  "reason_code_from_u16 = map_of
     [(1, TIME_INVALID), (2, TRUST_TOO_LOW), (3, DOMAIN_MISMATCH), (4, SCHEMA_MISMATCH),
      (5, SOURCE_DENIED), (6, CONFLICT_FOUND), (7, MISSING_EVIDENCE), (8, VERSION_INCOMPATIBLE),
      (9, CORRUPT_SECTION), (10, BUDGET_EXCEEDED)]"

definition reason_code_is_recoverable :: "ReasonCode \<Rightarrow> bool" where
  "reason_code_is_recoverable x \<longleftrightarrow> x \<in> {MISSING_EVIDENCE, BUDGET_EXCEEDED}"

definition reason_code_is_corruption :: "ReasonCode \<Rightarrow> bool" where
  "reason_code_is_corruption x \<longleftrightarrow> x \<in> {CORRUPT_SECTION}"

lemma reason_code_code_roundtrip [simp]: "reason_code_from_u16 (reason_code_to_u16 x) = Some x"
  by (cases x) (simp_all add: reason_code_from_u16_def)

lemma reason_code_code_only: "reason_code_from_u16 v = Some x \<Longrightarrow> reason_code_to_u16 x = v"
  by (auto simp: reason_code_from_u16_def split: if_splits)

subsection \<open>\<open>Intent\<close>\<close>

datatype Intent =
    LOOKUP | DEFINE | EXPLAIN | COMPARE | DERIVE | VERIFY | PLAN

primrec intent_to_u8 :: "Intent \<Rightarrow> u8" where
    "intent_to_u8 LOOKUP = 1"
  | "intent_to_u8 DEFINE = 2"
  | "intent_to_u8 EXPLAIN = 3"
  | "intent_to_u8 COMPARE = 4"
  | "intent_to_u8 DERIVE = 5"
  | "intent_to_u8 VERIFY = 6"
  | "intent_to_u8 PLAN = 7"

definition intent_from_u8 :: "u8 \<Rightarrow> Intent option" where
  "intent_from_u8 = map_of
     [(1, LOOKUP), (2, DEFINE), (3, EXPLAIN), (4, COMPARE), (5, DERIVE), (6, VERIFY),
      (7, PLAN)]"

definition intent_needs_causal_chain :: "Intent \<Rightarrow> bool" where
  "intent_needs_causal_chain x \<longleftrightarrow> x \<in> {EXPLAIN, DERIVE}"

definition intent_needs_evidence :: "Intent \<Rightarrow> bool" where
  "intent_needs_evidence x \<longleftrightarrow> x \<in> {VERIFY, DERIVE}"

lemma intent_code_roundtrip [simp]: "intent_from_u8 (intent_to_u8 x) = Some x"
  by (cases x) (simp_all add: intent_from_u8_def)

lemma intent_code_only: "intent_from_u8 v = Some x \<Longrightarrow> intent_to_u8 x = v"
  by (auto simp: intent_from_u8_def split: if_splits)

subsection \<open>\<open>GapKind\<close>\<close>

datatype GapKind =
    NEED_DEFINITION | NEED_FACT | NEED_CAUSAL_CHAIN | NEED_PROCEDURE | NEED_CONSTRAINTS
  | NEED_COUNTEREXAMPLE | NEED_COMPARISON_AXIS | NEED_EVIDENCE

primrec gap_kind_to_u8 :: "GapKind \<Rightarrow> u8" where
    "gap_kind_to_u8 NEED_DEFINITION = 1"
  | "gap_kind_to_u8 NEED_FACT = 2"
  | "gap_kind_to_u8 NEED_CAUSAL_CHAIN = 3"
  | "gap_kind_to_u8 NEED_PROCEDURE = 4"
  | "gap_kind_to_u8 NEED_CONSTRAINTS = 5"
  | "gap_kind_to_u8 NEED_COUNTEREXAMPLE = 6"
  | "gap_kind_to_u8 NEED_COMPARISON_AXIS = 7"
  | "gap_kind_to_u8 NEED_EVIDENCE = 8"

definition gap_kind_from_u8 :: "u8 \<Rightarrow> GapKind option" where
  "gap_kind_from_u8 = map_of
     [(1, NEED_DEFINITION), (2, NEED_FACT), (3, NEED_CAUSAL_CHAIN), (4, NEED_PROCEDURE),
      (5, NEED_CONSTRAINTS), (6, NEED_COUNTEREXAMPLE), (7, NEED_COMPARISON_AXIS), (8, NEED_EVIDENCE)]"

definition gap_kind_needs_graph_walk :: "GapKind \<Rightarrow> bool" where
  "gap_kind_needs_graph_walk x \<longleftrightarrow> x \<in> {NEED_CAUSAL_CHAIN, NEED_COUNTEREXAMPLE}"

definition gap_kind_needs_definition :: "GapKind \<Rightarrow> bool" where
  "gap_kind_needs_definition x \<longleftrightarrow> x \<in> {NEED_DEFINITION, NEED_CONSTRAINTS}"

lemma gap_kind_code_roundtrip [simp]: "gap_kind_from_u8 (gap_kind_to_u8 x) = Some x"
  by (cases x) (simp_all add: gap_kind_from_u8_def)

lemma gap_kind_code_only: "gap_kind_from_u8 v = Some x \<Longrightarrow> gap_kind_to_u8 x = v"
  by (auto simp: gap_kind_from_u8_def split: if_splits)


text \<open>The size of a value of fixed size; integers are varints and bytes are a pointer.\<close>

definition obj_tag_fixed_size :: "ObjTag \<Rightarrow> nat option" where
  "obj_tag_fixed_size t = (case t of NULL \<Rightarrow> Some 0 | BOOL \<Rightarrow> Some 1 | F64 \<Rightarrow> Some 8
     | SYM \<Rightarrow> Some 4 | REF \<Rightarrow> Some 4 | NODENUM \<Rightarrow> Some 8 | _ \<Rightarrow> None)"

primrec inv_result_display :: "InvariantResult \<Rightarrow> string" where
    "inv_result_display PASS = ''PASS''"
  | "inv_result_display FAIL_SOFT = ''FAIL_SOFT''"
  | "inv_result_display FAIL_HARD = ''FAIL_HARD''"
  | "inv_result_display NEED_BRANCH = ''NEED_BRANCH''"

section \<open>Time ranges and query constraints\<close>

record TimeRange =
  tr_from_ns :: u64
  tr_to_ns :: u64

definition time_range_contains :: "TimeRange \<Rightarrow> u64 \<Rightarrow> bool" where
  "time_range_contains r t \<longleftrightarrow> t \<ge> tr_from_ns r \<and> t < tr_to_ns r"

definition time_range_overlaps :: "TimeRange \<Rightarrow> TimeRange \<Rightarrow> bool" where
  "time_range_overlaps r s \<longleftrightarrow> tr_from_ns r < tr_to_ns s \<and> tr_from_ns s < tr_to_ns r"

definition time_range_default :: TimeRange where
  "time_range_default = \<lparr>tr_from_ns = 0, tr_to_ns = - 1\<rparr>"

text \<open>A common point of two ranges is what \<open>overlaps\<close> decides.\<close>

lemma time_range_overlaps_iff:
  "time_range_overlaps r s \<and> tr_from_ns r < tr_to_ns r \<and> tr_from_ns s < tr_to_ns s \<longleftrightarrow>
   (\<exists>t. time_range_contains r t \<and> time_range_contains s t)"
proof
  assume *: "time_range_overlaps r s \<and> tr_from_ns r < tr_to_ns r \<and> tr_from_ns s < tr_to_ns s"
  let ?t = "max (tr_from_ns r) (tr_from_ns s)"
  from * have "time_range_contains r ?t \<and> time_range_contains s ?t"
    by (auto simp: time_range_overlaps_def time_range_contains_def)
  then show "\<exists>t. time_range_contains r t \<and> time_range_contains s t" ..
next
  assume "\<exists>t. time_range_contains r t \<and> time_range_contains s t"
  then show "time_range_overlaps r s \<and> tr_from_ns r < tr_to_ns r \<and> tr_from_ns s < tr_to_ns s"
    by (auto simp: time_range_overlaps_def time_range_contains_def intro: le_less_trans)
qed

record QueryConstraints =
  qcs_time_range :: "TimeRange option"
  qcs_trust_min :: "TrustLevel option"
  qcs_domain_mask :: "DomainMask option"
  qcs_atom_types :: "AtomType list option"
  qcs_max_results :: "u32 option"

definition qcs_default :: QueryConstraints where
  "qcs_default = \<lparr>qcs_time_range = None, qcs_trust_min = None, qcs_domain_mask = None,
     qcs_atom_types = None, qcs_max_results = None\<rparr>"

definition qcs_matches_time :: "QueryConstraints \<Rightarrow> u64 \<Rightarrow> u64 \<Rightarrow> bool" where
  "qcs_matches_time c from_ns to_ns = (case qcs_time_range c of
     Some r \<Rightarrow> tr_from_ns r < to_ns \<and> from_ns < tr_to_ns r | None \<Rightarrow> True)"

definition qcs_matches_trust :: "QueryConstraints \<Rightarrow> TrustLevel \<Rightarrow> bool" where
  "qcs_matches_trust c t = (case qcs_trust_min c of None \<Rightarrow> True | Some m \<Rightarrow> t \<ge> m)"

definition qcs_matches_domain :: "QueryConstraints \<Rightarrow> DomainMask \<Rightarrow> bool" where
  "qcs_matches_domain c d = (case qcs_domain_mask c of None \<Rightarrow> True | Some m \<Rightarrow> d AND m \<noteq> 0)"

definition qcs_matches_atom_type :: "QueryConstraints \<Rightarrow> AtomType \<Rightarrow> bool" where
  "qcs_matches_atom_type c t = (case qcs_atom_types c of None \<Rightarrow> True | Some ts \<Rightarrow> t \<in> set ts)"

end
