(* ===== verification/Vm_Code.thy ===== *)
theory Vm_Code
  imports Store_Types
begin

text \<open>
  The code of the invariant machine (\<open>src/vm/interpreter.rs\<close>): errors, opcodes, the 16-byte
  instructions and their fields, constants and the constant pool, the bytecode builder with its
  labels, and the five built-in programs. The constructors \<open>AND_OP\<close> and \<open>NOT_OP\<close> are the
  opcodes \<open>AND\<close> and \<open>NOT\<close>. A 64-bit float is its bit pattern.
\<close>

section \<open>Errors\<close>

datatype VmError =
    InvalidOpcode u16
  | RegisterOutOfBounds u16
  | ConstIndexOutOfBounds u32
  | DivisionByZero
  | StepLimitExceeded u32
  | PcOutOfBounds nat
  | JumpTargetOutOfBounds u32
  | InvalidInstruction
  | ValidationFailed string
  | ContextNotAvailable
  | ClaimNotAvailable
  | SourceDenied

section \<open>Opcodes\<close>

datatype Opcode =
    LD_ATOM_META | LD_CLAIM | LD_QC | LD_CTX | LD_IMM | EQ | LT | LE | GT | GE | IN_RANGE
  | HAS_BIT | IS_TAG | CHK_TIME | CHK_TRUST | CHK_DOMAIN | CHK_SOURCE | CTX_PROBE
  | RAISE_CONFLICT | AND_OP | NOT_OP | JZ | JMP | RET | JNZ | CALL

primrec opcode_to_u16 :: "Opcode \<Rightarrow> u16" where
    "opcode_to_u16 LD_ATOM_META = 1"
  | "opcode_to_u16 LD_CLAIM = 2"
  | "opcode_to_u16 LD_QC = 3"
  | "opcode_to_u16 LD_CTX = 4"
  | "opcode_to_u16 LD_IMM = 5"
  | "opcode_to_u16 EQ = 10"
  | "opcode_to_u16 LT = 11"
  | "opcode_to_u16 LE = 12"
  | "opcode_to_u16 GT = 13"
  | "opcode_to_u16 GE = 14"
  | "opcode_to_u16 IN_RANGE = 15"
  | "opcode_to_u16 HAS_BIT = 16"
  | "opcode_to_u16 IS_TAG = 17"
  | "opcode_to_u16 CHK_TIME = 20"
  | "opcode_to_u16 CHK_TRUST = 21"
  | "opcode_to_u16 CHK_DOMAIN = 22"
  | "opcode_to_u16 CHK_SOURCE = 23"
  | "opcode_to_u16 CTX_PROBE = 24"
  | "opcode_to_u16 RAISE_CONFLICT = 25"
  | "opcode_to_u16 AND_OP = 26"
  | "opcode_to_u16 NOT_OP = 27"
  | "opcode_to_u16 JZ = 30"
  | "opcode_to_u16 JMP = 31"
  | "opcode_to_u16 RET = 32"
  | "opcode_to_u16 JNZ = 33"
  | "opcode_to_u16 CALL = 34"

definition opcode_from_u16 :: "u16 \<Rightarrow> Opcode option" where
  "opcode_from_u16 = map_of
     [(1, LD_ATOM_META), (2, LD_CLAIM), (3, LD_QC), (4, LD_CTX), (5, LD_IMM), (10, EQ),
      (11, LT), (12, LE), (13, GT), (14, GE), (15, IN_RANGE), (16, HAS_BIT), (17, IS_TAG),
      (20, CHK_TIME), (21, CHK_TRUST), (22, CHK_DOMAIN), (23, CHK_SOURCE), (24, CTX_PROBE),
      (25, RAISE_CONFLICT), (26, AND_OP), (27, NOT_OP), (30, JZ), (31, JMP), (32, RET),
      (33, JNZ), (34, CALL)]"

definition opcode_is_load :: "Opcode \<Rightarrow> bool" where
  "opcode_is_load x \<longleftrightarrow> x \<in> {LD_ATOM_META, LD_CLAIM, LD_QC, LD_CTX, LD_IMM}"

definition opcode_is_comparison :: "Opcode \<Rightarrow> bool" where
  "opcode_is_comparison x \<longleftrightarrow> x \<in> {EQ, LT, LE, GT, GE, IN_RANGE, HAS_BIT, IS_TAG}"

definition opcode_is_check :: "Opcode \<Rightarrow> bool" where
  "opcode_is_check x \<longleftrightarrow> x \<in> {CHK_TIME, CHK_TRUST, CHK_DOMAIN, CHK_SOURCE, CTX_PROBE, RAISE_CONFLICT}"

definition opcode_is_control_flow :: "Opcode \<Rightarrow> bool" where
  "opcode_is_control_flow x \<longleftrightarrow> x \<in> {JZ, JMP, RET, JNZ, CALL}"

definition opcode_category_name :: "Opcode \<Rightarrow> string" where
  "opcode_category_name x =
     (if opcode_is_load x then ''LOAD'' else if opcode_is_comparison x then ''CMP''
      else if opcode_is_check x then ''CHK'' else if opcode_is_control_flow x then ''CTRL'' else ''UNK'')"

primrec opcode_display :: "Opcode \<Rightarrow> string" where
    "opcode_display LD_ATOM_META = ''LD_ATOM_META''"
  | "opcode_display LD_CLAIM = ''LD_CLAIM''"
  | "opcode_display LD_QC = ''LD_QC''"
  | "opcode_display LD_CTX = ''LD_CTX''"
  | "opcode_display LD_IMM = ''LD_IMM''"
  | "opcode_display EQ = ''EQ''"
  | "opcode_display LT = ''LT''"
  | "opcode_display LE = ''LE''"
  | "opcode_display GT = ''GT''"
  | "opcode_display GE = ''GE''"
  | "opcode_display IN_RANGE = ''IN_RANGE''"
  | "opcode_display HAS_BIT = ''HAS_BIT''"
  | "opcode_display IS_TAG = ''IS_TAG''"
  | "opcode_display CHK_TIME = ''CHK_TIME''"
  | "opcode_display CHK_TRUST = ''CHK_TRUST''"
  | "opcode_display CHK_DOMAIN = ''CHK_DOMAIN''"
  | "opcode_display CHK_SOURCE = ''CHK_SOURCE''"
  | "opcode_display CTX_PROBE = ''CTX_PROBE''"
  | "opcode_display RAISE_CONFLICT = ''RAISE_CONFLICT''"
  | "opcode_display AND_OP = ''AND''"
  | "opcode_display NOT_OP = ''NOT''"
  | "opcode_display JZ = ''JZ''"
  | "opcode_display JMP = ''JMP''"
  | "opcode_display RET = ''RET''"
  | "opcode_display JNZ = ''JNZ''"
  | "opcode_display CALL = ''CALL''"

lemma opcode_code_roundtrip [simp]: "opcode_from_u16 (opcode_to_u16 x) = Some x"
  by (cases x) (simp_all add: opcode_from_u16_def)

lemma opcode_code_only: "opcode_from_u16 v = Some x \<Longrightarrow> opcode_to_u16 x = v"
  by (auto simp: opcode_from_u16_def split: if_splits)

section \<open>Instructions\<close>

record Instruction =
  in_op :: u16
  in_a :: u16
  in_b :: u32
  in_imm :: u64

definition instr_new :: "Opcode \<Rightarrow> u16 \<Rightarrow> u32 \<Rightarrow> u64 \<Rightarrow> Instruction" where
  "instr_new op a b imm = \<lparr>in_op = opcode_to_u16 op, in_a = a, in_b = b, in_imm = imm\<rparr>"

definition instr_load :: "Opcode \<Rightarrow> u16 \<Rightarrow> u32 \<Rightarrow> Instruction" where
  "instr_load op dest_reg field = instr_new op dest_reg field 0"

definition instr_cmp :: "Opcode \<Rightarrow> u16 \<Rightarrow> u16 \<Rightarrow> Instruction" where
  "instr_cmp op left_reg right_reg = instr_new op left_reg (ucast right_reg) 0"

definition instr_jump :: "Opcode \<Rightarrow> u16 \<Rightarrow> u32 \<Rightarrow> Instruction" where
  "instr_jump op condition_reg target = instr_new op condition_reg target 0"

definition instr_imm_op :: "Opcode \<Rightarrow> u16 \<Rightarrow> u64 \<Rightarrow> Instruction" where
  "instr_imm_op op dest_reg imm = instr_new op dest_reg 0 imm"

definition instr_load_imm64 :: "Opcode \<Rightarrow> u16 \<Rightarrow> u64 \<Rightarrow> Instruction" where
  "instr_load_imm64 op dest_reg imm = instr_imm_op op dest_reg imm"

definition instr_range :: "Opcode \<Rightarrow> u16 \<Rightarrow> u64 \<Rightarrow> u32 \<Rightarrow> Instruction" where
  "instr_range op reg low high = instr_new op reg high low"

definition instr_opcode :: "Instruction \<Rightarrow> Opcode option" where
  "instr_opcode i = opcode_from_u16 (in_op i)"

definition reg_a :: "Instruction \<Rightarrow> u16" where "reg_a i = in_a i AND 0xF"
definition reg_b :: "Instruction \<Rightarrow> u16" where "reg_b i = ucast (in_b i AND 0xF)"
definition const_index :: "Instruction \<Rightarrow> u32" where "const_index i = in_b i"
definition jump_target :: "Instruction \<Rightarrow> u32" where "jump_target i = in_b i"
definition imm_u64 :: "Instruction \<Rightarrow> u64" where "imm_u64 i = in_imm i"
definition imm_low :: "Instruction \<Rightarrow> u32" where "imm_low i = ucast (in_imm i)"
definition imm_high :: "Instruction \<Rightarrow> u32" where "imm_high i = ucast (drop_bit 32 (in_imm i))"

lemmas instr_defs = instr_new_def instr_load_def instr_cmp_def instr_jump_def instr_imm_op_def
  instr_load_imm64_def instr_range_def

lemma instr_opcode_new [simp]:
  "instr_opcode \<lparr>in_op = opcode_to_u16 op, in_a = a, in_b = b, in_imm = imm\<rparr> = Some op"
  by (simp add: instr_opcode_def)

section \<open>Constants\<close>

datatype ConstValue =
    Const_Sym u32 | Const_U64 u64 | Const_I64 i64 | Const_F64 u64 | Const_Bytes bytes
  | Const_RefId u32 | Const_Tag u8

definition const_as_u64 :: "ConstValue \<Rightarrow> u64 option" where
  "const_as_u64 c = (case c of
       Const_U64 v \<Rightarrow> Some v
     | Const_Sym v \<Rightarrow> Some (ucast v)
     | Const_RefId v \<Rightarrow> Some (ucast v)
     | Const_Tag v \<Rightarrow> Some (ucast v)
     | Const_I64 v \<Rightarrow> if sint v \<ge> 0 then Some v else None
     | _ \<Rightarrow> None)"

definition const_as_i64 :: "ConstValue \<Rightarrow> i64 option" where
  "const_as_i64 c = (case c of
       Const_I64 v \<Rightarrow> Some v
     | Const_U64 v \<Rightarrow> if v \<le> 0x7FFFFFFFFFFFFFFF then Some v else None
     | Const_Sym v \<Rightarrow> Some (ucast v)
     | Const_RefId v \<Rightarrow> Some (ucast v)
     | Const_Tag v \<Rightarrow> Some (ucast v)
     | _ \<Rightarrow> None)"

definition const_as_bytes :: "ConstValue \<Rightarrow> bytes option" where
  "const_as_bytes c = (case c of Const_Bytes b \<Rightarrow> Some b | _ \<Rightarrow> None)"

definition const_as_tag :: "ConstValue \<Rightarrow> u8 option" where
  "const_as_tag c = (case c of Const_Tag v \<Rightarrow> Some v | _ \<Rightarrow> None)"

text \<open>The pool builder is the list of its constants; \<open>add\<close> returns the index.\<close>

type_synonym ConstPoolBuilder = "ConstValue list"

definition pool_add :: "ConstValue \<Rightarrow> ConstPoolBuilder \<Rightarrow> ConstPoolBuilder \<times> u32" where
  "pool_add v p = (p @ [v], of_nat (length p))"

definition pool_add_u64 :: "u64 \<Rightarrow> ConstPoolBuilder \<Rightarrow> ConstPoolBuilder \<times> u32" where
  "pool_add_u64 v = pool_add (Const_U64 v)"

section \<open>Bytecode builder\<close>

record BytecodeBuilder =
  bb_instructions :: "Instruction list"
  bb_const_pool :: ConstPoolBuilder
  bb_labels :: "(string, nat) hmap"
  bb_fixups :: "(nat \<times> string) list"

definition bb_new :: BytecodeBuilder where
  "bb_new = \<lparr>bb_instructions = [], bb_const_pool = [], bb_labels = [], bb_fixups = []\<rparr>"

definition bb_label :: "string \<Rightarrow> BytecodeBuilder \<Rightarrow> BytecodeBuilder" where
  "bb_label nm bb = bb\<lparr>bb_labels := AList.update nm (length (bb_instructions bb)) (bb_labels bb)\<rparr>"

definition bb_emit :: "Instruction \<Rightarrow> BytecodeBuilder \<Rightarrow> BytecodeBuilder" where
  "bb_emit i bb = bb\<lparr>bb_instructions := bb_instructions bb @ [i]\<rparr>"

definition bb_emit_load :: "Opcode \<Rightarrow> u16 \<Rightarrow> u32 \<Rightarrow> BytecodeBuilder \<Rightarrow> BytecodeBuilder" where
  "bb_emit_load op dest field = bb_emit (instr_load op dest field)"

definition bb_emit_cmp :: "Opcode \<Rightarrow> u16 \<Rightarrow> u16 \<Rightarrow> BytecodeBuilder \<Rightarrow> BytecodeBuilder" where
  "bb_emit_cmp op left right = bb_emit (instr_cmp op left right)"

definition bb_emit_jump :: "Opcode \<Rightarrow> u16 \<Rightarrow> string \<Rightarrow> BytecodeBuilder \<Rightarrow> BytecodeBuilder" where
  "bb_emit_jump op cond label bb =
     (let pos = length (bb_instructions bb); bb = bb_emit (instr_jump op cond 0) bb
      in bb\<lparr>bb_fixups := bb_fixups bb @ [(pos, label)]\<rparr>)"

definition bb_emit_ret :: "InvariantResult \<Rightarrow> BytecodeBuilder \<Rightarrow> BytecodeBuilder" where
  "bb_emit_ret result = bb_emit (instr_new RET (ucast (inv_result_to_u8 result)) 0 0)"

definition bb_emit_check :: "Opcode \<Rightarrow> u16 \<Rightarrow> u64 \<Rightarrow> BytecodeBuilder \<Rightarrow> BytecodeBuilder" where
  "bb_emit_check op reg imm = bb_emit (instr_imm_op op reg imm)"

definition bb_emit_range :: "Opcode \<Rightarrow> u16 \<Rightarrow> u64 \<Rightarrow> u32 \<Rightarrow> BytecodeBuilder \<Rightarrow> BytecodeBuilder" where
  "bb_emit_range op reg low high = bb_emit (instr_range op reg low high)"

definition bb_add_const :: "ConstValue \<Rightarrow> BytecodeBuilder \<Rightarrow> BytecodeBuilder \<times> u32" where
  "bb_add_const v bb = (let (p, idx) = pool_add v (bb_const_pool bb) in (bb\<lparr>bb_const_pool := p\<rparr>, idx))"

definition bb_add_source :: "u32 \<Rightarrow> BytecodeBuilder \<Rightarrow> BytecodeBuilder \<times> u32" where
  "bb_add_source source_id = bb_add_const (Const_U64 (ucast source_id))"

primrec apply_fixups :: "(string, nat) hmap \<Rightarrow> (nat \<times> string) list \<Rightarrow> Instruction list \<Rightarrow>
    string + Instruction list" where
  "apply_fixups labels [] is = Inr is"
| "apply_fixups labels (f # fs) is =
     (case map_of labels (snd f) of
        None \<Rightarrow> Inl (''Unresolved label: '' @ snd f)
      | Some target \<Rightarrow> apply_fixups labels fs (is[fst f := (is ! fst f)\<lparr>in_b := of_nat target\<rparr>]))"

definition bb_build :: "BytecodeBuilder \<Rightarrow> string + Instruction list" where
  "bb_build bb = apply_fixups (bb_labels bb) (bb_fixups bb) (bb_instructions bb)"

definition bb_build_with_pool :: "BytecodeBuilder \<Rightarrow> string + Instruction list \<times> ConstValue list" where
  "bb_build_with_pool bb =
     (case apply_fixups (bb_labels bb) (bb_fixups bb) (bb_instructions bb) of
        Inl e \<Rightarrow> Inl e
      | Inr is \<Rightarrow> Inr (is, bb_const_pool bb))"

text \<open>\<open>build_with_pool().unwrap_or((Vec::new(), Vec::new()))\<close>.\<close>

definition build_or_empty :: "BytecodeBuilder \<Rightarrow> Instruction list \<times> ConstValue list" where
  "build_or_empty bb = (case bb_build_with_pool bb of Inl _ \<Rightarrow> ([], []) | Inr p \<Rightarrow> p)"

section \<open>Built-in programs\<close>

definition build_basic_invariant_program :: "Instruction list \<times> ConstValue list" where
  "build_basic_invariant_program =
     (let bb = bb_new;
          bb = bb_emit (instr_new CHK_TIME 0 0 0) bb;
          bb = bb_emit (instr_new CHK_TRUST 0 0 0) bb;
          bb = bb_emit (instr_new CHK_DOMAIN 0 0 0) bb;
          bb = bb_emit_ret PASS bb
      in build_or_empty bb)"

definition build_conflict_probe_program :: "Instruction list \<times> ConstValue list" where
  "build_conflict_probe_program =
     (let bb = bb_new;
          bb = bb_emit_load LD_CTX 1 0 bb;
          bb = bb_emit (instr_new CTX_PROBE 1 0 0) bb;
          bb = bb_emit_ret PASS bb
      in build_or_empty bb)"

definition build_full_validation_program :: "u8 \<Rightarrow> Instruction list \<times> ConstValue list" where
  "build_full_validation_program expected_tag =
     (let bb = bb_new;
          (bb, tag_const) = bb_add_const (Const_Tag expected_tag) bb;
          bb = bb_emit (instr_new CHK_TIME 0 0 0) bb;
          bb = bb_emit (instr_new CHK_TRUST 0 0 0) bb;
          bb = bb_emit (instr_new CHK_DOMAIN 0 0 0) bb;
          bb = bb_emit (instr_new CHK_SOURCE 0 tag_const 0) bb;
          bb = bb_emit (instr_new LD_CLAIM 1 1 0) bb;
          bb = bb\<lparr>bb_instructions := butlast (bb_instructions bb) @
                  [(last (bb_instructions bb))\<lparr>in_b := 1 OR push_bit 16 2\<rparr>]\<rparr>;
          bb = bb_emit (instr_imm_op IS_TAG 1 (ucast expected_tag)) bb;
          bb = bb_emit_jump JZ 1 ''fail'' bb;
          bb = bb_emit_ret PASS bb;
          bb = bb_label ''fail'' bb;
          bb = bb_emit (instr_new RET (ucast (inv_result_to_u8 FAIL_HARD)) 0 0) bb
      in build_or_empty bb)"

definition build_time_range_program :: "Instruction list \<times> ConstValue list" where
  "build_time_range_program =
     (let bb = bb_new;
          bb = bb_emit_load LD_ATOM_META 1 0 bb;
          bb = bb_emit_load LD_QC 2 1 bb;
          bb = bb_emit_cmp LT 1 2 bb;
          bb = bb_emit_jump JZ 1 ''fail'' bb;
          bb = bb_emit_load LD_ATOM_META 1 1 bb;
          bb = bb_emit_load LD_QC 2 0 bb;
          bb = bb_emit_cmp GT 1 2 bb;
          bb = bb_emit_jump JZ 1 ''fail'' bb;
          bb = bb_emit_ret PASS bb;
          bb = bb_label ''fail'' bb;
          bb = bb_emit (instr_new RET (ucast (inv_result_to_u8 FAIL_HARD)) 0 0) bb
      in build_or_empty bb)"

definition build_trust_threshold_program :: "Instruction list \<times> ConstValue list" where
  "build_trust_threshold_program =
     (let bb = bb_new;
          bb = bb_emit_load LD_ATOM_META 1 3 bb;
          bb = bb_emit_load LD_QC 2 2 bb;
          bb = bb_emit_cmp GE 1 2 bb;
          bb = bb_emit_jump JZ 1 ''fail'' bb;
          bb = bb_emit_ret PASS bb;
          bb = bb_label ''fail'' bb;
          bb = bb_emit (instr_new RET (ucast (inv_result_to_u8 FAIL_HARD)) 0 0) bb
      in build_or_empty bb)"

lemmas bb_defs = bb_new_def bb_label_def bb_emit_def bb_emit_load_def bb_emit_cmp_def bb_emit_jump_def
  bb_emit_ret_def bb_emit_check_def bb_emit_range_def bb_add_const_def pool_add_def bb_build_def
  bb_build_with_pool_def build_or_empty_def

text \<open>The programs, with their labels resolved.\<close>

lemma basic_program:
  "build_basic_invariant_program =
     ([instr_new CHK_TIME 0 0 0, instr_new CHK_TRUST 0 0 0, instr_new CHK_DOMAIN 0 0 0, instr_new RET 0 0 0], [])"
  by (simp add: build_basic_invariant_program_def bb_defs Let_def)

lemma conflict_probe_program:
  "build_conflict_probe_program =
     ([instr_new LD_CTX 1 0 0, instr_new CTX_PROBE 1 0 0, instr_new RET 0 0 0], [])"
  by (simp add: build_conflict_probe_program_def bb_defs instr_load_def Let_def)

lemma full_validation_program:
  "build_full_validation_program t =
     ([instr_new CHK_TIME 0 0 0, instr_new CHK_TRUST 0 0 0, instr_new CHK_DOMAIN 0 0 0,
       instr_new CHK_SOURCE 0 0 0, instr_new LD_CLAIM 1 0x20001 0, instr_new IS_TAG 1 0 (ucast t),
       instr_new JZ 1 8 0, instr_new RET 0 0 0, instr_new RET 2 0 0], [Const_Tag t])"
  by (simp add: build_full_validation_program_def bb_defs instr_defs Let_def)

lemma time_range_program:
  "build_time_range_program =
     ([instr_new LD_ATOM_META 1 0 0, instr_new LD_QC 2 1 0, instr_new LT 1 2 0, instr_new JZ 1 9 0,
       instr_new LD_ATOM_META 1 1 0, instr_new LD_QC 2 0 0, instr_new GT 1 2 0, instr_new JZ 1 9 0,
       instr_new RET 0 0 0, instr_new RET 2 0 0], [])"
  by (simp add: build_time_range_program_def bb_defs instr_defs Let_def)

lemma trust_threshold_program:
  "build_trust_threshold_program =
     ([instr_new LD_ATOM_META 1 3 0, instr_new LD_QC 2 2 0, instr_new GE 1 2 0, instr_new JZ 1 5 0,
       instr_new RET 0 0 0, instr_new RET 2 0 0], [])"
  by (simp add: build_trust_threshold_program_def bb_defs instr_defs Let_def)

text \<open>In general a program builds when every label is defined, and then each fixup, at its own
  position, jumps to the label and no other instruction is changed.\<close>

lemma apply_fixups_resolves:
  assumes "distinct (map fst fs)" "\<forall>f\<in>set fs. fst f < length is \<and> map_of labels (snd f) \<noteq> None"
  shows "\<exists>js. apply_fixups labels fs is = Inr js \<and> length js = length is \<and>
     (\<forall>k<length is. js ! k = (case map_of fs k of None \<Rightarrow> is ! k
        | Some l \<Rightarrow> (is ! k)\<lparr>in_b := of_nat (the (map_of labels l))\<rparr>))"
  using assms
proof (induction fs arbitrary: "is")
  case (Cons f fs)
  obtain p l where f: "f = (p, l)" by force
  from Cons.prems f have "map_of labels l \<noteq> None" by simp
  then obtain t where t: "map_of labels l = Some t" by blast
  from Cons.prems f have p: "p < length is" and nf: "map_of fs p = None"
    by (simp_all add: map_of_eq_None_iff)
  let ?is = "is[p := (is ! p)\<lparr>in_b := of_nat t\<rparr>]"
  from Cons.prems f obtain js where js: "apply_fixups labels fs ?is = Inr js" "length js = length is"
    "\<forall>k<length is. js ! k = (case map_of fs k of None \<Rightarrow> ?is ! k
        | Some l \<Rightarrow> (?is ! k)\<lparr>in_b := of_nat (the (map_of labels l))\<rparr>)"
    using Cons.IH [of ?is] by auto
  have "js ! k = (case map_of (f # fs) k of None \<Rightarrow> is ! k
        | Some l \<Rightarrow> (is ! k)\<lparr>in_b := of_nat (the (map_of labels l))\<rparr>)" if "k < length is" for k
    using js(3) that f t p nf by (cases "k = p") (auto split: option.splits)
  with js f t show ?case by simp
qed simp

lemma apply_fixups_unresolved:
  "f \<in> set fs \<Longrightarrow> map_of labels (snd f) = None \<Longrightarrow> \<exists>e. apply_fixups labels fs is = Inl e"
  by (induction fs arbitrary: "is") (auto split: option.splits)

definition bb_ok :: "BytecodeBuilder \<Rightarrow> bool" where
  "bb_ok bb \<longleftrightarrow> distinct (map fst (bb_fixups bb)) \<and>
     (\<forall>f\<in>set (bb_fixups bb). fst f < length (bb_instructions bb)) \<and>
     (\<forall>l\<in>set (bb_labels bb). snd l \<le> length (bb_instructions bb))"

lemma set_update_alist: "x \<in> set (AList.update k v m) \<Longrightarrow> x = (k, v) \<or> x \<in> set m"
  by (induction m) (auto split: if_splits)

lemma bb_ok_new [simp]: "bb_ok bb_new"
  by (simp add: bb_ok_def bb_new_def)

lemma bb_ok_emit [simp]: "bb_ok bb \<Longrightarrow> bb_ok (bb_emit i bb)"
  by (auto simp: bb_ok_def bb_emit_def less_SucI le_SucI)

lemma bb_ok_label [simp]: "bb_ok bb \<Longrightarrow> bb_ok (bb_label nm bb)"
  by (auto simp: bb_ok_def bb_label_def dest: set_update_alist)

lemma bb_ok_emit_jump [simp]: "bb_ok bb \<Longrightarrow> bb_ok (bb_emit_jump op cond nm bb)"
  by (auto simp: bb_ok_def bb_emit_jump_def bb_emit_def Let_def less_SucI le_SucI)

theorem build_resolves_labels:
  assumes "bb_ok bb"
  shows "(\<exists>js. bb_build bb = Inr js) \<longleftrightarrow> (\<forall>f\<in>set (bb_fixups bb). map_of (bb_labels bb) (snd f) \<noteq> None)"
    and "bb_build bb = Inr js \<Longrightarrow> length js = length (bb_instructions bb) \<and>
      (\<forall>k<length js. js ! k = (case map_of (bb_fixups bb) k of None \<Rightarrow> bb_instructions bb ! k
        | Some l \<Rightarrow> (bb_instructions bb ! k)\<lparr>in_b := of_nat (the (map_of (bb_labels bb) l))\<rparr>))"
proof -
  have r: "\<exists>js. bb_build bb = Inr js \<and> length js = length (bb_instructions bb) \<and>
      (\<forall>k<length js. js ! k = (case map_of (bb_fixups bb) k of None \<Rightarrow> bb_instructions bb ! k
        | Some l \<Rightarrow> (bb_instructions bb ! k)\<lparr>in_b := of_nat (the (map_of (bb_labels bb) l))\<rparr>))"
    if "\<forall>f\<in>set (bb_fixups bb). map_of (bb_labels bb) (snd f) \<noteq> None"
    using apply_fixups_resolves [of "bb_fixups bb" "bb_instructions bb" "bb_labels bb"] assms that
    by (auto simp: bb_build_def bb_ok_def)
  then show i: "(\<exists>js. bb_build bb = Inr js) \<longleftrightarrow> (\<forall>f\<in>set (bb_fixups bb). map_of (bb_labels bb) (snd f) \<noteq> None)"
    using apply_fixups_unresolved [of _ "bb_fixups bb" "bb_labels bb" "bb_instructions bb"]
    by (metis Inl_Inr_False bb_build_def)
  show "length js = length (bb_instructions bb) \<and>
      (\<forall>k<length js. js ! k = (case map_of (bb_fixups bb) k of None \<Rightarrow> bb_instructions bb ! k
        | Some l \<Rightarrow> (bb_instructions bb ! k)\<lparr>in_b := of_nat (the (map_of (bb_labels bb) l))\<rparr>))"
    if "bb_build bb = Inr js"
    using r i that by (metis Inr_inject)
qed

end
