(* ===== verification/Atom_Body.thy ===== *)
theory Atom_Body
  imports Store_Types Crc32
begin

text \<open>
  The record formats of the content-addressed store (\<open>src/cas/mod.rs\<close>): the 64-byte header of
  a record, the 48-byte header of an atom body, the 32-byte section descriptors, the checks on
  the sections of a body, the hexadecimal form of an atom id, and the view of a record. The
  headers are \<open>repr(C)\<close> structures without padding that the code copies from and to memory;
  on the little-endian targets of the program that is the concatenation of their fields. An
  offset of type \<open>usize\<close> that is computed from stored values is a 64-bit word here, because
  the additions wrap in a release build.
\<close>

section \<open>Slices and checked sums\<close>

text \<open>\<open>bytes.get(a..b)\<close>.\<close>

definition get_range :: "bytes \<Rightarrow> nat \<Rightarrow> nat \<Rightarrow> bytes option" where
  "get_range bs a b = (if a \<le> b \<and> b \<le> length bs then Some (take (b - a) (drop a bs)) else None)"

text \<open>\<open>a.checked_add(b)\<close> on 64-bit words.\<close>

definition checked_add :: "u64 \<Rightarrow> u64 \<Rightarrow> u64 option" where
  "checked_add a b = (if unat a + unat b < 2 ^ 64 then Some (a + b) else None)"

lemma checked_add_Some: "checked_add a b = Some c \<Longrightarrow> unat c = unat a + unat b"
  by (auto simp: checked_add_def unat_word_ariths split: if_splits)

section \<open>Errors\<close>

datatype CasError =
    BufferTooSmall nat nat
  | InvalidMagic u32 u32
  | CrcMismatch u32 u32
  | InvalidSectionBounds u64 u64 u64
  | InvalidAtomType u32
  | InvalidSectionKind u32
  | SectionNotFound u32
  | CasIo string
  | AlignmentError nat nat
  | CanonicalExtractionFailed string

section \<open>Record header\<close>

definition RECORD_MAGIC :: u32 where "RECORD_MAGIC = 0x534B4631"
definition ATOM_MAGIC :: u32 where "ATOM_MAGIC = 0x41544F4D"
definition RECORD_FORMAT_VERSION :: u16 where "RECORD_FORMAT_VERSION = 0x0101"
definition ATOM_BODY_VERSION :: u16 where "ATOM_BODY_VERSION = 0x0001"
definition CAS_HEADER_SIZE :: nat where "CAS_HEADER_SIZE = 64"
definition CAS_CRC_OFFSET :: nat where "CAS_CRC_OFFSET = 56"
definition ATOM_HEADER_SIZE :: nat where "ATOM_HEADER_SIZE = 48"
definition SECTION_DESC_SIZE :: nat where "SECTION_DESC_SIZE = 32"

lemmas cas_constants = RECORD_MAGIC_def ATOM_MAGIC_def RECORD_FORMAT_VERSION_def
  ATOM_BODY_VERSION_def CAS_HEADER_SIZE_def CAS_CRC_OFFSET_def ATOM_HEADER_SIZE_def
  SECTION_DESC_SIZE_def

record CasRecordHeader =
  ch_magic :: u32
  ch_format_ver :: u16
  ch_flags :: u16
  ch_seg_id :: u32
  ch_reserved :: u32
  ch_atom_id :: AtomId
  ch_body_len :: u64
  ch_header_crc32 :: u32
  ch_reserved2 :: u32

text \<open>The structure in memory, and its first 56 bytes, which the checksum covers.\<close>

definition cas_header_memory :: "CasRecordHeader \<Rightarrow> bytes" where
  "cas_header_memory h =
     u32_le (ch_magic h) @ u16_le (ch_format_ver h) @ u16_le (ch_flags h) @ u32_le (ch_seg_id h) @
     u32_le (ch_reserved h) @ ch_atom_id h @ u64_le (ch_body_len h) @
     u32_le (ch_header_crc32 h) @ u32_le (ch_reserved2 h)"

definition cas_calculate_crc :: "CasRecordHeader \<Rightarrow> u32" where
  "cas_calculate_crc h = crc32 (take CAS_CRC_OFFSET (cas_header_memory h))"

definition cas_header_new :: "AtomId \<Rightarrow> u64 \<Rightarrow> u32 \<Rightarrow> u16 \<Rightarrow> CasRecordHeader" where
  "cas_header_new atom_id body_len seg_id flags =
     (let header = \<lparr>ch_magic = RECORD_MAGIC, ch_format_ver = RECORD_FORMAT_VERSION, ch_flags = flags,
            ch_seg_id = seg_id, ch_reserved = 0, ch_atom_id = atom_id, ch_body_len = body_len,
            ch_header_crc32 = 0, ch_reserved2 = 0\<rparr>
      in header\<lparr>ch_header_crc32 := cas_calculate_crc header\<rparr>)"

definition cas_validate_crc :: "CasRecordHeader \<Rightarrow> bool" where
  "cas_validate_crc h \<longleftrightarrow> ch_header_crc32 h = cas_calculate_crc h"

definition cas_validate_magic :: "CasRecordHeader \<Rightarrow> bool" where
  "cas_validate_magic h \<longleftrightarrow> ch_magic h = RECORD_MAGIC \<and> ch_format_ver h = RECORD_FORMAT_VERSION"

definition cas_header_is_valid :: "CasRecordHeader \<Rightarrow> bool" where
  "cas_header_is_valid h \<longleftrightarrow> cas_validate_magic h \<and> cas_validate_crc h"

definition cas_is_deleted :: "CasRecordHeader \<Rightarrow> bool" where
  "cas_is_deleted h \<longleftrightarrow> ch_flags h AND 0x0001 \<noteq> 0"

definition cas_is_tombstone :: "CasRecordHeader \<Rightarrow> bool" where
  "cas_is_tombstone h \<longleftrightarrow> ch_flags h AND 0x0002 \<noteq> 0"

definition cas_is_compressed :: "CasRecordHeader \<Rightarrow> bool" where
  "cas_is_compressed h \<longleftrightarrow> ch_flags h AND 0x0004 \<noteq> 0"

definition cas_header_read :: "bytes \<Rightarrow> CasRecordHeader" where
  "cas_header_read bs =
     \<lparr>ch_magic = u32_at 0 bs, ch_format_ver = u16_at 4 bs, ch_flags = u16_at 6 bs,
      ch_seg_id = u32_at 8 bs, ch_reserved = u32_at 12 bs, ch_atom_id = take 32 (drop 16 bs),
      ch_body_len = u64_at 48 bs, ch_header_crc32 = u32_at 56 bs, ch_reserved2 = u32_at 60 bs\<rparr>"

definition cas_header_from_bytes_unaligned :: "bytes \<Rightarrow> CasError + CasRecordHeader" where
  "cas_header_from_bytes_unaligned bs =
     (if length bs < CAS_HEADER_SIZE then Inl (BufferTooSmall CAS_HEADER_SIZE (length bs))
      else let header = cas_header_read bs in
        if \<not> cas_validate_magic header then Inl (InvalidMagic RECORD_MAGIC (ch_magic header))
        else if \<not> cas_validate_crc header then
          Inl (CrcMismatch (ch_header_crc32 header) (cas_calculate_crc header))
        else Inr header)"

definition cas_header_from_bytes :: "bytes \<Rightarrow> CasError + CasRecordHeader" where
  "cas_header_from_bytes bs =
     (if length bs < CAS_HEADER_SIZE then Inl (BufferTooSmall CAS_HEADER_SIZE (length bs))
      else cas_header_from_bytes_unaligned bs)"

text \<open>The buffer after the call.\<close>

definition cas_header_write_to_bytes :: "CasRecordHeader \<Rightarrow> bytes \<Rightarrow> CasError + bytes" where
  "cas_header_write_to_bytes h bs =
     (if length bs < CAS_HEADER_SIZE then Inl (BufferTooSmall CAS_HEADER_SIZE (length bs))
      else Inr (cas_header_memory h @ drop CAS_HEADER_SIZE bs))"

section \<open>Atom body header\<close>

record AtomBodyHeader =
  ab_body_magic :: u32
  ab_body_ver :: u16
  ab_body_flags :: u16
  ab_created_at_unix_ns :: u64
  ab_valid_from_unix_ns :: u64
  ab_valid_to_unix_ns :: u64
  ab_atom_type :: u32
  ab_section_count :: u32
  ab_section_table_off :: u64

definition atom_header_new :: "AtomType \<Rightarrow> u32 \<Rightarrow> u64 \<Rightarrow> u64 \<Rightarrow> u64 \<Rightarrow> AtomBodyHeader" where
  "atom_header_new atom_type section_count created_at valid_from valid_to =
     \<lparr>ab_body_magic = ATOM_MAGIC, ab_body_ver = ATOM_BODY_VERSION, ab_body_flags = 0,
      ab_created_at_unix_ns = created_at, ab_valid_from_unix_ns = valid_from,
      ab_valid_to_unix_ns = valid_to, ab_atom_type = atom_type_to_u32 atom_type,
      ab_section_count = section_count, ab_section_table_off = of_nat ATOM_HEADER_SIZE\<rparr>"

definition atom_validate_magic :: "AtomBodyHeader \<Rightarrow> bool" where
  "atom_validate_magic h \<longleftrightarrow> ab_body_magic h = ATOM_MAGIC \<and> ab_body_ver h = ATOM_BODY_VERSION"

definition atom_header_is_valid :: "AtomBodyHeader \<Rightarrow> bool" where
  "atom_header_is_valid h \<longleftrightarrow> atom_validate_magic h \<and> ab_section_count h \<le> 256"

definition atom_header_atom_type :: "AtomBodyHeader \<Rightarrow> AtomType option" where
  "atom_header_atom_type h = atom_type_from_u32 (ab_atom_type h)"

definition atom_is_valid_now :: "AtomBodyHeader \<Rightarrow> u64 \<Rightarrow> bool" where
  "atom_is_valid_now h now_unix_ns \<longleftrightarrow> now_unix_ns \<ge> ab_valid_from_unix_ns h \<and>
     (ab_valid_to_unix_ns h = 0 \<or> now_unix_ns < ab_valid_to_unix_ns h)"

definition atom_is_compressed :: "AtomBodyHeader \<Rightarrow> bool" where
  "atom_is_compressed h \<longleftrightarrow> ab_body_flags h AND 0x0001 \<noteq> 0"

definition atom_header_memory :: "AtomBodyHeader \<Rightarrow> bytes" where
  "atom_header_memory h =
     u32_le (ab_body_magic h) @ u16_le (ab_body_ver h) @ u16_le (ab_body_flags h) @
     u64_le (ab_created_at_unix_ns h) @ u64_le (ab_valid_from_unix_ns h) @
     u64_le (ab_valid_to_unix_ns h) @ u32_le (ab_atom_type h) @ u32_le (ab_section_count h) @
     u64_le (ab_section_table_off h)"

definition atom_header_read :: "bytes \<Rightarrow> AtomBodyHeader" where
  "atom_header_read bs =
     \<lparr>ab_body_magic = u32_at 0 bs, ab_body_ver = u16_at 4 bs, ab_body_flags = u16_at 6 bs,
      ab_created_at_unix_ns = u64_at 8 bs, ab_valid_from_unix_ns = u64_at 16 bs,
      ab_valid_to_unix_ns = u64_at 24 bs, ab_atom_type = u32_at 32 bs,
      ab_section_count = u32_at 36 bs, ab_section_table_off = u64_at 40 bs\<rparr>"

definition atom_header_from_bytes_unaligned :: "bytes \<Rightarrow> CasError + AtomBodyHeader" where
  "atom_header_from_bytes_unaligned bs =
     (if length bs < ATOM_HEADER_SIZE then Inl (BufferTooSmall ATOM_HEADER_SIZE (length bs))
      else let header = atom_header_read bs in
        if \<not> atom_validate_magic header then Inl (InvalidMagic ATOM_MAGIC (ab_body_magic header))
        else Inr header)"

definition atom_header_from_bytes :: "bytes \<Rightarrow> CasError + AtomBodyHeader" where
  "atom_header_from_bytes bs =
     (if length bs < ATOM_HEADER_SIZE then Inl (BufferTooSmall ATOM_HEADER_SIZE (length bs))
      else atom_header_from_bytes_unaligned bs)"

section \<open>Section descriptors\<close>

record SectionDesc =
  sd_section_kind :: u32
  sd_section_flags :: u32
  sd_off :: u64
  sd_len :: u64
  sd_crc32 :: u32
  sd_reserved :: u32

definition section_desc_with_crc :: "SectionKind \<Rightarrow> u64 \<Rightarrow> u64 \<Rightarrow> u32 \<Rightarrow> SectionDesc" where
  "section_desc_with_crc kind off len crc =
     \<lparr>sd_section_kind = section_kind_to_u32 kind, sd_section_flags = 0, sd_off = off, sd_len = len,
      sd_crc32 = crc, sd_reserved = 0\<rparr>"

definition section_desc_new :: "SectionKind \<Rightarrow> u64 \<Rightarrow> u64 \<Rightarrow> bytes \<Rightarrow> SectionDesc" where
  "section_desc_new kind off len data =
     \<lparr>sd_section_kind = section_kind_to_u32 kind, sd_section_flags = 0, sd_off = off, sd_len = len,
      sd_crc32 = crc32 data, sd_reserved = 0\<rparr>"

definition section_desc_kind :: "SectionDesc \<Rightarrow> SectionKind option" where
  "section_desc_kind d = section_kind_from_u32 (sd_section_kind d)"

definition section_desc_is_valid :: "SectionDesc \<Rightarrow> bool" where
  "section_desc_is_valid d \<longleftrightarrow> section_desc_kind d \<noteq> None \<and> sd_len d \<le> 1024 * 1024 * 1024"

definition section_desc_validate_crc :: "SectionDesc \<Rightarrow> bytes \<Rightarrow> bool" where
  "section_desc_validate_crc d data \<longleftrightarrow>
     (if of_nat (length data) \<noteq> sd_len d then False else sd_crc32 d = crc32 data)"

definition section_desc_is_compressed :: "SectionDesc \<Rightarrow> bool" where
  "section_desc_is_compressed d \<longleftrightarrow> sd_section_flags d AND 0x00000001 \<noteq> 0"

definition section_desc_is_encrypted :: "SectionDesc \<Rightarrow> bool" where
  "section_desc_is_encrypted d \<longleftrightarrow> sd_section_flags d AND 0x00000002 \<noteq> 0"

definition section_desc_memory :: "SectionDesc \<Rightarrow> bytes" where
  "section_desc_memory d =
     u32_le (sd_section_kind d) @ u32_le (sd_section_flags d) @ u64_le (sd_off d) @
     u64_le (sd_len d) @ u32_le (sd_crc32 d) @ u32_le (sd_reserved d)"

definition section_desc_read :: "bytes \<Rightarrow> SectionDesc" where
  "section_desc_read bs =
     \<lparr>sd_section_kind = u32_at 0 bs, sd_section_flags = u32_at 4 bs, sd_off = u64_at 8 bs,
      sd_len = u64_at 16 bs, sd_crc32 = u32_at 24 bs, sd_reserved = u32_at 28 bs\<rparr>"

definition section_desc_from_bytes_unaligned :: "bytes \<Rightarrow> CasError + SectionDesc" where
  "section_desc_from_bytes_unaligned bs =
     (if length bs < SECTION_DESC_SIZE then Inl (BufferTooSmall SECTION_DESC_SIZE (length bs))
      else Inr (section_desc_read bs))"

definition section_desc_from_bytes :: "bytes \<Rightarrow> CasError + SectionDesc" where
  "section_desc_from_bytes bs =
     (if length bs < SECTION_DESC_SIZE then Inl (BufferTooSmall SECTION_DESC_SIZE (length bs))
      else section_desc_from_bytes_unaligned bs)"

section \<open>Sections of a body\<close>

definition validate_section_bounds :: "u64 \<Rightarrow> u64 \<Rightarrow> u64 \<Rightarrow> CasError + unit" where
  "validate_section_bounds section_offset section_len body_size =
     (case checked_add section_offset section_len of
        None \<Rightarrow> Inl (InvalidSectionBounds section_offset section_len body_size)
      | Some end \<Rightarrow>
          if end > body_size then Inl (InvalidSectionBounds section_offset section_len body_size)
          else Inr ())"

definition section_table_entry_offset :: "u64 \<Rightarrow> u32 \<Rightarrow> u64" where
  "section_table_entry_offset base_offset index = base_offset + ucast index * of_nat SECTION_DESC_SIZE"

definition get_section_data :: "bytes \<Rightarrow> SectionDesc \<Rightarrow> CasError + bytes" where
  "get_section_data body d =
     (case validate_section_bounds (sd_off d) (sd_len d) (of_nat (length body)) of
        Inl e \<Rightarrow> Inl e
      | Inr _ \<Rightarrow>
          (case get_range body (unat (sd_off d)) (unat (sd_off d + sd_len d)) of
             None \<Rightarrow> Inl (InvalidSectionBounds (sd_off d) (sd_len d) (of_nat (length body)))
           | Some data \<Rightarrow> Inr data))"

primrec validate_sections :: "bytes \<Rightarrow> SectionDesc list \<Rightarrow> CasError + unit" where
  "validate_sections body [] = Inr ()"
| "validate_sections body (d # ds) =
     (if \<not> section_desc_is_valid d then Inl (InvalidSectionKind (sd_section_kind d))
      else case get_section_data body d of
        Inl e \<Rightarrow> Inl e
      | Inr data \<Rightarrow>
          if \<not> section_desc_validate_crc d data then Inl (CrcMismatch (sd_crc32 d) (crc32 data))
          else validate_sections body ds)"

definition find_section :: "SectionDesc list \<Rightarrow> SectionKind \<Rightarrow> SectionDesc option" where
  "find_section ds kind = find (\<lambda>d. section_desc_kind d = Some kind) ds"

section \<open>Hexadecimal atom ids\<close>

definition hex_chars :: bytes where
  "hex_chars = [48, 49, 50, 51, 52, 53, 54, 55, 56, 57, 97, 98, 99, 100, 101, 102]"

definition hex_encode :: "bytes \<Rightarrow> bytes" where
  "hex_encode atom_id =
     concat (map (\<lambda>byte. [hex_chars ! unat (drop_bit 4 byte), hex_chars ! unat (byte AND 0x0F)]) atom_id)"

definition hex_char_to_u8 :: "u8 \<Rightarrow> CasError + u8" where
  "hex_char_to_u8 c =
     (if 48 \<le> c \<and> c \<le> 57 then Inr (c - 48)
      else if 97 \<le> c \<and> c \<le> 102 then Inr (c - 97 + 10)
      else if 65 \<le> c \<and> c \<le> 70 then Inr (c - 65 + 10)
      else Inl (CasIo (''invalid hex char: '' @ [char_of (unat c)])))"

text \<open>\<open>str::trim\<close> is the standard library's: on a UTF-8 string it strips the white space
  characters of Unicode at both ends, which here are the byte sequences that encode them.\<close>

definition white_space :: "bytes list" where
  "white_space = map (\<lambda>c. [c]) [9, 10, 11, 12, 13, 32] @
     [[0xC2, 0x85], [0xC2, 0xA0], [0xE1, 0x9A, 0x80]] @
     map (\<lambda>c. [0xE2, 0x80, c]) [0x80, 0x81, 0x82, 0x83, 0x84, 0x85, 0x86, 0x87, 0x88, 0x89, 0x8A,
       0xA8, 0xA9, 0xAF] @
     [[0xE2, 0x81, 0x9F], [0xE3, 0x80, 0x80]]"

function trim_start :: "bytes \<Rightarrow> bytes" where
  "trim_start s =
     (case find (\<lambda>w. take (length w) s = w) white_space of
        None \<Rightarrow> s
      | Some w \<Rightarrow> trim_start (drop (length w) s))"
  by pat_completeness auto

lemma white_space_length: "w \<in> set white_space \<Longrightarrow> 0 < length w"
  by (auto simp: white_space_def)

termination trim_start
proof (relation "measure length")
  fix s w assume *: "find (\<lambda>w. take (length w) s = w) white_space = Some w"
  then have "w \<in> set white_space" and t: "take (length w) s = w"
    by (auto simp: find_Some_iff)
  then have "0 < length w" by (intro white_space_length)
  moreover from t have "length w \<le> length s" by (metis length_take min.cobounded1)
  ultimately show "(drop (length w) s, s) \<in> measure length"
    by (simp only: in_measure length_drop)
qed simp

declare trim_start.simps [simp del]

function trim_end :: "bytes \<Rightarrow> bytes" where
  "trim_end s =
     (case find (\<lambda>w. length w \<le> length s \<and> drop (length s - length w) s = w) white_space of
        None \<Rightarrow> s
      | Some w \<Rightarrow> trim_end (take (length s - length w) s))"
  by pat_completeness auto

termination trim_end
proof (relation "measure length")
  fix s w
  assume "find (\<lambda>w. length w \<le> length s \<and> drop (length s - length w) s = w) white_space = Some w"
  then have "w \<in> set white_space" and t: "length w \<le> length s"
    by (auto simp: find_Some_iff)
  then have "0 < length w" by (intro white_space_length)
  with t show "(take (length s - length w) s, s) \<in> measure length"
    by (simp only: in_measure length_take)
qed simp

declare trim_end.simps [simp del]

definition str_trim :: "bytes \<Rightarrow> bytes" where
  "str_trim s = trim_end (trim_start s)"

primrec hex_pairs :: "nat \<Rightarrow> bytes \<Rightarrow> CasError + bytes" where
  "hex_pairs 0 chars = Inr []"
| "hex_pairs (Suc n) chars =
     (case hex_char_to_u8 (chars ! 0) of
        Inl e \<Rightarrow> Inl e
      | Inr high \<Rightarrow>
          (case hex_char_to_u8 (chars ! 1) of
             Inl e \<Rightarrow> Inl e
           | Inr low \<Rightarrow>
               (case hex_pairs n (drop 2 chars) of
                  Inl e \<Rightarrow> Inl e
                | Inr rest \<Rightarrow> Inr ((push_bit 4 high OR low) # rest))))"

definition hex_decode :: "bytes \<Rightarrow> CasError + AtomId" where
  "hex_decode s =
     (let t = str_trim s in
      if length t \<noteq> 64 then Inl (BufferTooSmall 64 (length t)) else hex_pairs 32 t)"

section \<open>Record views\<close>

record RecordView =
  rv_header :: CasRecordHeader
  rv_body :: bytes

definition record_view_new :: "bytes \<Rightarrow> bytes \<Rightarrow> CasError + RecordView" where
  "record_view_new header_bytes body =
     (case cas_header_from_bytes header_bytes of
        Inl e \<Rightarrow> Inl e
      | Inr header \<Rightarrow>
          if of_nat (length body) \<noteq> ch_body_len header
          then Inl (BufferTooSmall (unat (ch_body_len header)) (length body))
          else Inr \<lparr>rv_header = header, rv_body = body\<rparr>)"

definition record_view_body_header :: "RecordView \<Rightarrow> CasError + AtomBodyHeader" where
  "record_view_body_header v = atom_header_from_bytes (rv_body v)"

definition table_entries :: "nat \<Rightarrow> bytes \<Rightarrow> SectionDesc list" where
  "table_entries n table = map (\<lambda>i. section_desc_read (take SECTION_DESC_SIZE (drop (i * SECTION_DESC_SIZE) table))) [0..<n]"

definition record_view_sections :: "RecordView \<Rightarrow> CasError + SectionDesc list" where
  "record_view_sections v =
     (case record_view_body_header v of
        Inl e \<Rightarrow> Inl e
      | Inr h \<Rightarrow>
          (let table_start = ab_section_table_off h;
               table_end = table_start + ucast (ab_section_count h) * of_nat SECTION_DESC_SIZE
           in case get_range (rv_body v) (unat table_start) (unat table_end) of
                None \<Rightarrow> Inl (BufferTooSmall (unat table_end) (length (rv_body v)))
              | Some table \<Rightarrow> Inr (table_entries (unat (ab_section_count h)) table)))"

definition record_view_get_section :: "RecordView \<Rightarrow> SectionKind \<Rightarrow> CasError + bytes" where
  "record_view_get_section v kind =
     (case record_view_sections v of
        Inl e \<Rightarrow> Inl e
      | Inr ds \<Rightarrow>
          (case find_section ds kind of
             None \<Rightarrow> Inl (SectionNotFound (section_kind_to_u32 kind))
           | Some d \<Rightarrow> get_section_data (rv_body v) d))"

lemma length_memory [simp, enc_length]:
  "length (cas_header_memory h) = 32 + length (ch_atom_id h)"
  "length (atom_header_memory a) = 48"
  "length (section_desc_memory d) = 32"
  by (simp_all add: cas_header_memory_def atom_header_memory_def section_desc_memory_def)

lemma cas_header_read_memory [codec_simps]:
  "length (ch_atom_id h) = 32 \<Longrightarrow> cas_header_read (cas_header_memory h @ rest) = h"
  by (simp add: cas_header_read_def cas_header_memory_def)

lemma atom_header_read_memory [codec_simps]: "atom_header_read (atom_header_memory a @ rest) = a"
  by (simp add: atom_header_read_def atom_header_memory_def)

lemma section_desc_read_memory [codec_simps]: "section_desc_read (section_desc_memory d @ rest) = d"
  by (simp add: section_desc_read_def section_desc_memory_def)

lemma cas_header_memory_read:
  assumes "64 \<le> length bs"
  shows "cas_header_memory (cas_header_read bs) = take 64 bs"
proof -
  have c: "take n (drop i bs) @ take m (drop (i + n) bs) = take (n + m) (drop i bs)" for n m i
    by (metis take_add drop_drop add.commute)
  have "take 4 (drop 0 bs) @ take 2 (drop 4 bs) @ take 2 (drop 6 bs) @ take 4 (drop 8 bs) @
    take 4 (drop 12 bs) @ take 32 (drop 16 bs) @ take 8 (drop 48 bs) @ take 4 (drop 56 bs) @
    take 4 (drop 60 bs) = take 64 bs"
    using c [of 4 56 4] c [of 8 48 8] c [of 32 16 16] c [of 4 12 48] c [of 4 8 52] c [of 2 6 56] c [of 2 4 58] c [of 4 0 60]
    by simp
  with assms show ?thesis
    by (simp add: cas_header_memory_def cas_header_read_def u_le_le_u)
qed

lemma cas_calculate_crc_bytes:
  "64 \<le> length bs \<Longrightarrow> cas_calculate_crc (cas_header_read bs) = crc32 (take 56 bs)"
  by (simp add: cas_calculate_crc_def CAS_CRC_OFFSET_def cas_header_memory_read min_def)

lemma cas_calculate_crc_stored [simp]:
  "length (ch_atom_id h) = 32 \<Longrightarrow> cas_calculate_crc (h\<lparr>ch_header_crc32 := c\<rparr>) = cas_calculate_crc h"
  by (simp add: cas_calculate_crc_def cas_header_memory_def CAS_CRC_OFFSET_def)

lemma cas_header_new_valid:
  "length atom_id = 32 \<Longrightarrow> cas_header_is_valid (cas_header_new atom_id body_len seg_id flags)"
  by (simp add: cas_header_new_def Let_def cas_header_is_valid_def cas_validate_magic_def
      cas_validate_crc_def cas_calculate_crc_def cas_header_memory_def CAS_CRC_OFFSET_def)

lemma cas_header_from_bytes_iff:
  "cas_header_from_bytes bs = Inr h \<longleftrightarrow>
     64 \<le> length bs \<and> h = cas_header_read bs \<and> cas_header_is_valid h"
  by (auto simp: cas_header_from_bytes_def cas_header_from_bytes_unaligned_def CAS_HEADER_SIZE_def
      cas_header_is_valid_def Let_def)

theorem cas_header_roundtrip:
  assumes "length atom_id = 32" "64 \<le> length buf"
  shows "\<exists>buf'. cas_header_write_to_bytes (cas_header_new atom_id body_len seg_id flags) buf = Inr buf' \<and>
     length buf' = length buf \<and> drop 64 buf' = drop 64 buf \<and>
     cas_header_from_bytes buf' = Inr (cas_header_new atom_id body_len seg_id flags)"
proof -
  let ?h = "cas_header_new atom_id body_len seg_id flags"
  from assms have l: "length (ch_atom_id ?h) = 32" by (simp add: cas_header_new_def Let_def)
  have "cas_header_write_to_bytes ?h buf = Inr (cas_header_memory ?h @ drop 64 buf)"
    using assms by (simp add: cas_header_write_to_bytes_def CAS_HEADER_SIZE_def)
  moreover have "cas_header_from_bytes (cas_header_memory ?h @ drop 64 buf) = Inr ?h"
    using assms l by (simp add: cas_header_from_bytes_iff codec_simps cas_header_new_valid)
  ultimately show ?thesis using assms l by simp
qed

text \<open>
  A change of at most four consecutive bytes of the part of a record header its checksum
  covers is always rejected.
\<close>

theorem cas_header_damage_detected:
  assumes "cas_header_from_bytes (xs @ w @ ys) = Inr h"
    and "length w' = length w" "length w \<le> 4" "w' \<noteq> w" "length xs + length w \<le> 56"
  shows "\<exists>e. cas_header_from_bytes (xs @ w' @ ys) = Inl e"
proof (rule ccontr)
  assume "\<nexists>e. cas_header_from_bytes (xs @ w' @ ys) = Inl e"
  then obtain h' where h': "cas_header_from_bytes (xs @ w' @ ys) = Inr h'"
    by (cases "cas_header_from_bytes (xs @ w' @ ys)") auto
  let ?n = "56 - length xs - length w"
  have c: "ch_header_crc32 (cas_header_read (xs @ v @ ys)) = u32_at ?n ys" if "length v = length w" for v
    using that assms(5) by (simp add: cas_header_read_def)
  have t: "take 56 (xs @ v @ ys) = xs @ v @ take ?n ys" if "length v = length w" for v
    using that assms(5) by simp
  from assms(1) h' have "crc32 (take 56 (xs @ w @ ys)) = u32_at ?n ys"
      "crc32 (take 56 (xs @ w' @ ys)) = u32_at ?n ys"
    by (auto simp only: cas_header_from_bytes_iff cas_header_is_valid_def cas_validate_crc_def
        cas_calculate_crc_bytes c assms(2))
  then have "crc32 (xs @ w @ take ?n ys) = crc32 (xs @ w' @ take ?n ys)"
    by (simp only: t assms(2))
  with assms(2,3) have "w = w'" by (intro crc32_window_inj) simp_all
  with assms(4) show False by simp
qed

theorem cas_header_damage_detected_witness:
  "let m = cas_header_memory (cas_header_new (replicate 32 1) 0 3 0)
   in \<exists>e. cas_header_from_bytes (take 8 m @ [4, 0, 0, 0] @ drop 12 m) = Inl e"
proof -
  let ?h = "cas_header_new (replicate 32 1) 0 3 0"
  let ?m = "cas_header_memory ?h"
  have l: "length ?m = 64" by (simp add: cas_header_new_def Let_def)
  have "take 4 (drop 8 ?m) = u32_le (ch_seg_id ?h)"
    by (simp add: cas_header_memory_def cas_header_new_def Let_def)
  moreover have "ch_seg_id ?h = 3" by (simp add: cas_header_new_def Let_def)
  moreover have "u32_le 3 \<noteq> [4, 0, 0, 0]" by code_simp
  ultimately have w: "[4, 0, 0, 0] \<noteq> take 4 (drop 8 ?m)" by metis
  have "take n m @ take k (drop n m) @ drop (n + k) m = m" for n k and m :: bytes
    by (metis append_take_drop_id drop_drop add.commute)
  from this [of 8 ?m 4] have "take 8 ?m @ take 4 (drop 8 ?m) @ drop 12 ?m = ?m" by simp
  moreover have "cas_header_from_bytes ?m = Inr ?h"
    using l cas_header_new_valid [of "replicate 32 1" 0 3 0] cas_header_read_memory [of ?h "[]"]
    by (simp add: cas_header_from_bytes_iff cas_header_new_def Let_def)
  ultimately have "cas_header_from_bytes (take 8 ?m @ take 4 (drop 8 ?m) @ drop 12 ?m) = Inr ?h" by simp
  from cas_header_damage_detected [OF this _ _ w] l show ?thesis by (simp add: Let_def)
qed

section \<open>Sections\<close>

lemma validate_section_bounds_iff:
  "validate_section_bounds off len body = Inr () \<longleftrightarrow> unat off + unat len \<le> unat body"
proof -
  have "unat body < 2 ^ 64" using unsigned_less [of body] by simp
  moreover have "unat (off + len) = unat off + unat len" if "unat off + unat len < 2 ^ 64"
    using that by (simp add: unat_word_ariths)
  ultimately show ?thesis
    by (auto simp: validate_section_bounds_def checked_add_def word_le_nat_alt not_le word_less_nat_alt)
qed

lemma get_section_data_iff:
  assumes "length body < 2 ^ 64"
  shows "get_section_data body d = Inr data \<longleftrightarrow>
     unat (sd_off d) + unat (sd_len d) \<le> length body \<and>
     data = take (unat (sd_len d)) (drop (unat (sd_off d)) body)"
proof (cases "validate_section_bounds (sd_off d) (sd_len d) (of_nat (length body))")
  case (Inl e)
  with assms have "\<not> unat (sd_off d) + unat (sd_len d) \<le> length body"
    using validate_section_bounds_iff [of "sd_off d" "sd_len d" "of_nat (length body)"]
    by (simp add: unat_of_nat_u64)
  with Inl show ?thesis by (simp add: get_section_data_def)
next
  case (Inr u)
  with assms have *: "unat (sd_off d) + unat (sd_len d) \<le> length body"
    using validate_section_bounds_iff [of "sd_off d" "sd_len d" "of_nat (length body)"]
    by (simp add: unat_of_nat_u64)
  with assms have "unat (sd_off d + sd_len d) = unat (sd_off d) + unat (sd_len d)"
    by (simp add: unat_word_ariths)
  with Inr * show ?thesis by (auto simp: get_section_data_def get_range_def)
qed

theorem validate_sections_iff:
  assumes "length body < 2 ^ 64"
  shows "validate_sections body ds = Inr () \<longleftrightarrow>
     (\<forall>d\<in>set ds. section_desc_kind d \<noteq> None \<and> sd_len d \<le> 0x40000000 \<and>
        unat (sd_off d) + unat (sd_len d) \<le> length body \<and>
        sd_crc32 d = crc32 (take (unat (sd_len d)) (drop (unat (sd_off d)) body)))"
proof (induction ds)
  case (Cons d ds)
  show ?case
  proof (cases "get_section_data body d")
    case (Inl e)
    then have "\<not> unat (sd_off d) + unat (sd_len d) \<le> length body"
      using get_section_data_iff [OF assms, of d] by auto
    with Inl show ?thesis by simp
  next
    case (Inr data)
    then have *: "unat (sd_off d) + unat (sd_len d) \<le> length body"
       "data = take (unat (sd_len d)) (drop (unat (sd_off d)) body)"
      using get_section_data_iff [OF assms, of d] by auto
    then have "length data = unat (sd_len d)" by simp
    then have "of_nat (length data) = sd_len d" by simp
    with Inr * Cons.IH show ?thesis
      by (auto simp: section_desc_is_valid_def section_desc_validate_crc_def)
  qed
qed simp


section \<open>Reading what was laid out\<close>

lemma unat_ucast_32_64 [simp]: "unat (ucast x :: u64) = unat x" for x :: u32
  using unat_bounds(3) [of x] by (simp add: unsigned_ucast_eq take_bit_nat_eq_self)

lemma table_entries_memory [codec_simps]:
  "table_entries (length ds) (concat (map section_desc_memory ds)) = ds"
proof (rule nth_equalityI)
  fix i assume "i < length (table_entries (length ds) (concat (map section_desc_memory ds)))"
  then have i: "i < length ds" by (simp add: table_entries_def)
  have l: "length (concat (map section_desc_memory (take i ds))) = i * 32"
    using i by (simp add: length_concat comp_def sum_list_triv)
  have "ds = take i ds @ ds ! i # drop (Suc i) ds" using i by (rule id_take_nth_drop)
  then have "concat (map section_desc_memory ds) = concat (map section_desc_memory (take i ds)) @
      section_desc_memory (ds ! i) @ concat (map section_desc_memory (drop (Suc i) ds))"
    by (metis concat.simps(2) concat_append list.simps(9) map_append)
  then have "drop (i * 32) (concat (map section_desc_memory ds)) =
      section_desc_memory (ds ! i) @ concat (map section_desc_memory (drop (Suc i) ds))"
    using l by simp
  then show "table_entries (length ds) (concat (map section_desc_memory ds)) ! i = ds ! i"
    using i section_desc_read_memory [of "ds ! i" "[]"] by (simp add: table_entries_def SECTION_DESC_SIZE_def)
qed (simp add: table_entries_def)

definition body_layout :: "AtomBodyHeader \<Rightarrow> SectionDesc list \<Rightarrow> bytes \<Rightarrow> bytes" where
  "body_layout h ds payload = atom_header_memory h @ concat (map section_desc_memory ds) @ payload"

lemma length_body_layout [simp]: "length (body_layout h ds payload) = 48 + 32 * length ds + length payload"
proof -
  have "length (concat (map section_desc_memory ds)) = 32 * length ds"
    by (simp add: length_concat comp_def sum_list_triv)
  then show ?thesis by (simp add: body_layout_def)
qed

lemma drop_body_layout: "drop (48 + 32 * length ds) (body_layout h ds payload) = payload"
proof -
  have "length (concat (map section_desc_memory ds)) = 32 * length ds"
    by (simp add: length_concat comp_def sum_list_triv)
  then show ?thesis by (simp add: body_layout_def)
qed

lemma atom_header_of_layout:
  "atom_validate_magic h \<Longrightarrow> atom_header_from_bytes (body_layout h ds payload) = Inr h"
  by (simp add: atom_header_from_bytes_def atom_header_from_bytes_unaligned_def ATOM_HEADER_SIZE_def
      body_layout_def codec_simps)

lemma record_sections_of_layout:
  assumes "atom_validate_magic h" "ab_section_table_off h = 48" "length ds < 2 ^ 32"
    and "ab_section_count h = of_nat (length ds)" "rv_body v = body_layout h ds payload"
  shows "record_view_sections v = Inr ds"
proof -
  let ?e = "48 + ucast (of_nat (length ds) :: u32) * of_nat SECTION_DESC_SIZE :: u64"
  have n: "unat (of_nat (length ds) :: u32) = length ds" using assms(3) by (rule unat_of_nat_u32)
  have "unat ?e = 48 + length ds * 32"
    using assms(3) n by (simp add: unat_word_ariths SECTION_DESC_SIZE_def)
  moreover have "length (concat (map section_desc_memory ds)) = length ds * 32"
    by (simp add: length_concat comp_def sum_list_triv)
  ultimately have "get_range (body_layout h ds payload) 48 (unat ?e) = Some (concat (map section_desc_memory ds))"
    by (simp add: get_range_def body_layout_def)
  then show ?thesis
    using assms n by (simp add: record_view_sections_def record_view_body_header_def
        atom_header_of_layout Let_def table_entries_memory)
qed

lemma hex_char_decodes:
  "x < 16 \<Longrightarrow> hex_char_to_u8 (hex_chars ! unat x) = Inr x" for x :: u8
proof -
  assume "x < 16"
  then have "unat x \<in> set [0..<16]" by (simp add: word_less_nat_alt)
  moreover have "\<forall>n\<in>set [0..<16]. hex_char_to_u8 (hex_chars ! n) = Inr (of_nat n)" by code_simp
  ultimately show "hex_char_to_u8 (hex_chars ! unat x) = Inr x" by fastforce
qed

lemma hex_byte_digits:
  "drop_bit 4 b < 16" "b AND 0x0F < 16" "push_bit 4 (drop_bit 4 b) OR (b AND 0x0F) = b" for b :: u8
proof -
  have "drop_bit 4 (unat b) < unat (16 :: u8)"
    using unat_bounds(1) [of b] by (simp add: drop_bit_eq_div)
  then show "drop_bit 4 b < 16" by (simp only: word_less_nat_alt unat_drop_bit_eq)
  have "b AND 0x0F = take_bit 4 b" by (simp add: take_bit_eq_mask mask_numeral)
  then show "b AND 0x0F < 16" by (simp add: word_less_nat_alt unsigned_take_bit_eq take_bit_nat_def)
  show "push_bit 4 (drop_bit 4 b) OR (b AND 0x0F) = b"
    unfolding \<open>b AND 0x0F = take_bit 4 b\<close> by (rule bit_eqI) (auto simp: bit_simps)
qed

lemma hex_pairs_encode: "hex_pairs (length bs) (hex_encode bs @ rest) = Inr bs"
  by (induction bs) (simp_all add: hex_encode_def hex_char_decodes hex_byte_digits)

lemma hex_chars_plain: "c \<in> set (hex_encode bs) \<Longrightarrow> c \<in> set hex_chars"
proof -
  have "hex_chars ! unat (x :: u8) \<in> set hex_chars" if "x < 16" for x
    using that by (intro nth_mem) (simp add: hex_chars_def word_less_nat_alt)
  then show "c \<in> set (hex_encode bs) \<Longrightarrow> c \<in> set hex_chars"
    by (auto simp: hex_encode_def hex_byte_digits)
qed

lemma trim_plain:
  assumes "set s \<subseteq> set hex_chars"
  shows "str_trim s = s"
proof -
  have w: "\<forall>w\<in>set white_space. w \<noteq> [] \<and> set w \<inter> set hex_chars = {}"
    by (simp add: white_space_def hex_chars_def)
  have "\<not> take (length w) s = w" if "w \<in> set white_space" for w
    using w that assms by (metis in_set_takeD inf.absorb_iff2 order.trans set_empty set_take_subset inf.orderE)
  then have "find (\<lambda>w. take (length w) s = w) white_space = None" by (auto simp: find_None_iff)
  then have t: "trim_start s = s" by (subst trim_start.simps) simp
  have "\<not> (length w \<le> length s \<and> drop (length s - length w) s = w)" if "w \<in> set white_space" for w
    using w that assms by (metis inf.absorb_iff2 order.trans set_empty set_drop_subset inf.orderE)
  then have "find (\<lambda>w. length w \<le> length s \<and> drop (length s - length w) s = w) white_space = None"
    by (auto simp: find_None_iff)
  then have "trim_end s = s" by (subst trim_end.simps) simp
  with t show ?thesis by (simp add: str_trim_def)
qed

theorem hex_roundtrip: "length atom_id = 32 \<Longrightarrow> hex_decode (hex_encode atom_id) = Inr atom_id"
proof -
  assume l: "length atom_id = 32"
  have "length (hex_encode bs) = 2 * length bs" for bs by (induction bs) (simp_all add: hex_encode_def)
  with l have "length (hex_encode atom_id) = 64" by simp
  moreover have "str_trim (hex_encode atom_id) = hex_encode atom_id"
    using hex_chars_plain by (intro trim_plain) auto
  ultimately show "hex_decode (hex_encode atom_id) = Inr atom_id"
    using hex_pairs_encode [of atom_id "[]"] l by (simp add: hex_decode_def)
qed

text \<open>
  Reading a section of a record whose section table was validated returns exactly the bytes
  its descriptor names, and they have the checksum the descriptor carries.
\<close>

theorem record_view_get_section_data:
  assumes "length atom_id = 32" "length body < 2 ^ 64" "length ds < 2 ^ 32"
    and body: "body = body_layout (atom_header_new ty (of_nat (length ds)) created vfrom vto) ds payload"
    and valid: "validate_sections body ds = Inr ()" and d: "find_section ds kind = Some d"
  shows "\<exists>v data. record_view_new (cas_header_memory (cas_header_new atom_id (of_nat (length body)) seg_id flags)) body = Inr v \<and>
     record_view_get_section v kind = Inr data \<and> section_desc_kind d = Some kind \<and>
     data = take (unat (sd_len d)) (drop (unat (sd_off d)) body) \<and> crc32 data = sd_crc32 d"
proof -
  let ?h = "cas_header_new atom_id (of_nat (length body)) seg_id flags"
  let ?v = "\<lparr>rv_header = ?h, rv_body = body\<rparr>"
  let ?data = "take (unat (sd_len d)) (drop (unat (sd_off d)) body)"
  have "length (ch_atom_id ?h) = 32" using assms(1) by (simp add: cas_header_new_def Let_def)
  moreover from this have "cas_header_read (cas_header_memory ?h) = ?h"
    using cas_header_read_memory [of ?h "[]"] by simp
  ultimately have "cas_header_from_bytes (cas_header_memory ?h) = Inr ?h"
    using assms(1) by (simp add: cas_header_from_bytes_iff cas_header_new_valid)
  moreover have "ch_body_len ?h = of_nat (length body)" by (simp add: cas_header_new_def Let_def)
  ultimately have "record_view_new (cas_header_memory ?h) body = Inr ?v"
    by (simp add: record_view_new_def)
  moreover have "record_view_sections ?v = Inr ds"
    using assms(3) by (intro record_sections_of_layout [where payload = payload])
      (simp_all add: body atom_header_new_def atom_validate_magic_def ATOM_HEADER_SIZE_def)
  moreover from d have "d \<in> set ds" "section_desc_kind d = Some kind"
    by (auto simp: find_section_def find_Some_iff)
  moreover from this valid have "get_section_data body d = Inr ?data" "sd_crc32 d = crc32 ?data"
    by (auto simp: validate_sections_iff [OF assms(2)] get_section_data_iff [OF assms(2)])
  ultimately show ?thesis
    using d by (auto simp: record_view_get_section_def)
qed

theorem record_view_get_section_data_witness:
  "let ds = [section_desc_new META 80 2 [5, 6]]; body = body_layout (atom_header_new FACT 1 0 0 0) ds [5, 6]
   in \<exists>v. record_view_new (cas_header_memory (cas_header_new (replicate 32 1) 82 3 0)) body = Inr v \<and>
     record_view_get_section v META = Inr [5, 6]"
proof -
  let ?d = "section_desc_new META 80 2 [5, 6]"
  let ?body = "body_layout (atom_header_new FACT 1 0 0 0) [?d] [5, 6]"
  have p: "take 2 (drop 80 ?body) = [5, 6]"
    using drop_body_layout [of "[?d]"] by simp
  then have "validate_sections ?body [?d] = Inr ()"
    by (subst validate_sections_iff) (simp_all add: section_desc_new_def section_desc_kind_def section_kind_from_u32_def)
  moreover have "find_section [?d] META = Some ?d"
    by (simp add: find_section_def section_desc_new_def section_desc_kind_def section_kind_from_u32_def)
  ultimately show ?thesis
    using p record_view_get_section_data [of "replicate 32 1" ?body "[?d]" FACT 0 0 0 "[5, 6]" META ?d 3 0]
    by (auto simp: Let_def section_desc_new_def)
qed

end
