(* ===== verification/Vm_Views.thy ===== *)
theory Vm_Views
  imports Store_Types Atom_Body
begin

text \<open>
  What a program of the invariant machine can see (\<open>src/vm/interpreter.rs\<close>): the view of an
  atom and its claims, the view of a context with its conflict probes, the query constraints,
  the index of conflicting claims, and the execution context.
\<close>

section \<open>Claims and atoms\<close>

record ClaimData =
  cd_subj :: u64
  cd_pred :: u64
  cd_obj_tag :: u8
  cd_obj_val :: u64
  cd_qualifiers_mask :: u32

record AtomView =
  av_atom_id :: AtomId
  av_atom_type :: AtomType
  av_meta :: bytes
  av_claims :: "ClaimData list"
  av_valid_from_ns :: u64
  av_valid_to_ns :: u64
  av_trust_level :: TrustLevel
  av_domain_mask :: DomainMask
  av_source_id :: u32

text \<open>\<open>slice.get(i).copied().map(|v| v as u64)\<close>.\<close>

definition byte_field :: "bytes \<Rightarrow> u32 \<Rightarrow> u64 option" where
  "byte_field bs i = (if unat i < length bs then Some (ucast (bs ! unat i)) else None)"

definition u64_field :: "bytes \<Rightarrow> u32 \<Rightarrow> u64 option" where
  "u64_field bs offset = (if unat offset + 8 \<le> length bs then Some (u64_at (unat offset) bs) else None)"

definition av_get_meta :: "AtomView \<Rightarrow> u32 \<Rightarrow> u64 option" where
  "av_get_meta v tag = byte_field (av_meta v) tag"

definition av_get_meta_u64 :: "AtomView \<Rightarrow> u32 \<Rightarrow> u64 option" where
  "av_get_meta_u64 v offset = u64_field (av_meta v) offset"

definition av_get_claim :: "AtomView \<Rightarrow> u32 \<Rightarrow> ClaimData option" where
  "av_get_claim v index =
     (if unat index < length (av_claims v) then Some (av_claims v ! unat index) else None)"

definition av_claim_count :: "AtomView \<Rightarrow> u32" where
  "av_claim_count v = of_nat (length (av_claims v))"

definition av_is_valid_at :: "AtomView \<Rightarrow> u64 \<Rightarrow> bool" where
  "av_is_valid_at v time_ns \<longleftrightarrow> time_ns \<ge> av_valid_from_ns v \<and> time_ns \<le> av_valid_to_ns v"

definition av_domain_matches :: "AtomView \<Rightarrow> DomainMask \<Rightarrow> bool" where
  "av_domain_matches v required \<longleftrightarrow> required = 0 \<or> av_domain_mask v AND required \<noteq> 0"

definition av_trust_meets :: "AtomView \<Rightarrow> TrustLevel \<Rightarrow> bool" where
  "av_trust_meets v min_trust \<longleftrightarrow> av_trust_level v \<ge> min_trust"

section \<open>Contexts\<close>

record ConflictProbe =
  pr_pattern_hash :: u64
  pr_conflict_count :: u32
  pr_max_trust :: TrustLevel
  pr_flags :: u32

record CtxView =
  cv_ctx_id :: u32
  cv_policy_data :: bytes
  cv_conflict_probes :: "ConflictProbe list"
  cv_active_branches :: u64

definition cv_get_policy_field :: "CtxView \<Rightarrow> u32 \<Rightarrow> u64 option" where
  "cv_get_policy_field v field = byte_field (cv_policy_data v) field"

definition cv_get_policy_u64 :: "CtxView \<Rightarrow> u32 \<Rightarrow> u64 option" where
  "cv_get_policy_u64 v offset = u64_field (cv_policy_data v) offset"

definition cv_probe_conflict :: "CtxView \<Rightarrow> u64 \<Rightarrow> ConflictProbe option" where
  "cv_probe_conflict v pattern_hash = find (\<lambda>p. pr_pattern_hash p = pattern_hash) (cv_conflict_probes v)"

definition cv_has_conflicts :: "CtxView \<Rightarrow> bool" where
  "cv_has_conflicts v \<longleftrightarrow> list_ex (\<lambda>p. pr_conflict_count p > 0) (cv_conflict_probes v)"

definition cv_total_conflicts :: "CtxView \<Rightarrow> u32" where
  "cv_total_conflicts v = sum_list (map pr_conflict_count (cv_conflict_probes v))"

section \<open>Query constraints\<close>

record QueryConstraintsView =
  qv_time_from_ns :: u64
  qv_time_to_ns :: u64
  qv_trust_min :: TrustLevel
  qv_domain_mask :: DomainMask
  qv_allowed_atom_types :: u64
  qv_max_results :: u32

definition qv_allows_atom_type :: "QueryConstraintsView \<Rightarrow> AtomType \<Rightarrow> bool" where
  "qv_allows_atom_type q ty \<longleftrightarrow>
     qv_allowed_atom_types q AND push_bit (unat (atom_type_to_u32 ty - 1)) 1 \<noteq> 0"

definition qv_time_overlaps :: "QueryConstraintsView \<Rightarrow> u64 \<Rightarrow> u64 \<Rightarrow> bool" where
  "qv_time_overlaps q valid_from valid_to \<longleftrightarrow>
     qv_time_from_ns q < valid_to \<and> valid_from < qv_time_to_ns q"

section \<open>Conflict index\<close>

datatype ConflictSeverity = Soft | Hard

record ConflictInfo =
  ci_atom_ids :: "AtomId list"
  ci_claim_signatures :: "u64 list"
  ci_severity :: ConflictSeverity
  ci_pattern_hash :: u64

type_synonym CtxIndex = "(u64, ConflictInfo) hmap"

definition push_new :: "'a \<Rightarrow> 'a list \<Rightarrow> 'a list" where
  "push_new x xs = (if x \<in> set xs then xs else xs @ [x])"

definition ix_insert_conflict ::
    "u64 \<Rightarrow> u64 option \<Rightarrow> AtomId \<Rightarrow> ConflictSeverity \<Rightarrow> CtxIndex \<Rightarrow> CtxIndex" where
  "ix_insert_conflict pattern_hash claim_signature atom_id severity ix =
     entry_upd \<lparr>ci_atom_ids = [], ci_claim_signatures = [], ci_severity = severity,
         ci_pattern_hash = pattern_hash\<rparr>
       (\<lambda>e. e\<lparr>ci_atom_ids := push_new atom_id (ci_atom_ids e),
              ci_claim_signatures := (case claim_signature of
                 Some s \<Rightarrow> push_new s (ci_claim_signatures e) | None \<Rightarrow> ci_claim_signatures e),
              ci_severity := (if severity = Hard then Hard else ci_severity e)\<rparr>)
       pattern_hash ix"

definition ix_add_conflict :: "u64 \<Rightarrow> AtomId \<Rightarrow> ConflictSeverity \<Rightarrow> CtxIndex \<Rightarrow> CtxIndex" where
  "ix_add_conflict pattern_hash atom_id severity = ix_insert_conflict pattern_hash None atom_id severity"

definition claim_pattern_hash :: "ClaimData \<Rightarrow> u64" where
  "claim_pattern_hash c = cd_subj c XOR push_bit 32 (cd_pred c)"

definition mix_claim_signature :: "u64 \<Rightarrow> u64 \<Rightarrow> u64" where
  "mix_claim_signature acc v =
     word_rotl 27 (acc XOR (v + 0x9E3779B97F4A7C15)) * 0x94D049BB133111EB"

definition claim_signature :: "ClaimData \<Rightarrow> u64" where
  "claim_signature c =
     (let h = 0xD6E8FEB86659FD93;
          h = mix_claim_signature h (cd_subj c);
          h = mix_claim_signature h (cd_pred c);
          h = mix_claim_signature h (ucast (cd_obj_tag c));
          h = mix_claim_signature h (cd_obj_val c)
      in mix_claim_signature h (ucast (cd_qualifiers_mask c)))"

definition ix_add_claim_index :: "ClaimData \<Rightarrow> AtomId \<Rightarrow> ConflictSeverity \<Rightarrow> CtxIndex \<Rightarrow> CtxIndex" where
  "ix_add_claim_index c atom_id severity =
     ix_insert_conflict (claim_pattern_hash c) (Some (claim_signature c)) atom_id severity"

definition ix_index_claim :: "ClaimData \<Rightarrow> AtomId \<Rightarrow> CtxIndex \<Rightarrow> CtxIndex" where
  "ix_index_claim c atom_id = ix_add_claim_index c atom_id Soft"

definition ix_has_conflict :: "CtxIndex \<Rightarrow> u64 \<Rightarrow> bool" where
  "ix_has_conflict ix pattern_hash \<longleftrightarrow> map_of ix pattern_hash \<noteq> None"

definition ix_get_conflict :: "CtxIndex \<Rightarrow> u64 \<Rightarrow> ConflictInfo option" where
  "ix_get_conflict ix pattern_hash = map_of ix pattern_hash"

definition ix_probe_conflict :: "CtxIndex \<Rightarrow> ClaimData \<Rightarrow> ConflictInfo option" where
  "ix_probe_conflict ix c =
     (case map_of ix (claim_pattern_hash c) of
        None \<Rightarrow> None
      | Some info \<Rightarrow>
          if ci_claim_signatures info = [] then Some info
          else if claim_signature c \<in> set (ci_claim_signatures info) then None
          else Some info)"

section \<open>Execution context\<close>

record ExecutionContext =
  ec_atom_ref :: bytes
  ec_claim_ref :: "bytes option"
  ec_ctx_index :: CtxIndex
  ec_source_allowlist :: "u32 list option"

definition ec_is_source_allowed :: "ExecutionContext \<Rightarrow> u32 \<Rightarrow> bool" where
  "ec_is_source_allowed ec source_id =
     (case ec_source_allowlist ec of Some list \<Rightarrow> source_id \<in> set list | None \<Rightarrow> True)"

definition ec_has_conflict :: "ExecutionContext \<Rightarrow> u64 \<Rightarrow> bool" where
  "ec_has_conflict ec pattern_hash = ix_has_conflict (ec_ctx_index ec) pattern_hash"

definition ec_conflict_severity :: "ExecutionContext \<Rightarrow> u64 \<Rightarrow> ConflictSeverity option" where
  "ec_conflict_severity ec pattern_hash =
     map_option ci_severity (ix_get_conflict (ec_ctx_index ec) pattern_hash)"

section \<open>What the conflict index decides\<close>

lemma mult_odd_inj: "x * 0x94D049BB133111EB = y * 0x94D049BB133111EB \<Longrightarrow> x = y" for x y :: u64
proof -
  have one: "0x94D049BB133111EB * 0x319642b2d24d8ec3 = (1 :: u64)"
    by (subst word_uint_eq_iff) simp
  assume "x * 0x94D049BB133111EB = y * 0x94D049BB133111EB"
  then have "x * (0x94D049BB133111EB * 0x319642b2d24d8ec3) = y * (0x94D049BB133111EB * 0x319642b2d24d8ec3)"
    by (simp only: mult.assoc [symmetric])
  then show "x = y" unfolding one by simp
qed

lemma mix_inj:
  "mix_claim_signature a v = mix_claim_signature b v \<longleftrightarrow> a = b"
  "mix_claim_signature a v = mix_claim_signature a w \<longleftrightarrow> v = w"
proof -
  have r: "word_rotl 27 x = word_rotl 27 y \<Longrightarrow> x = y" for x y :: u64
    by (metis word_rot_lr)
  have m: "mix_claim_signature a v = mix_claim_signature b w \<longleftrightarrow>
      a XOR (v + 0x9E3779B97F4A7C15) = b XOR (w + 0x9E3779B97F4A7C15)" for a b v w
    unfolding mix_claim_signature_def by (auto dest!: mult_odd_inj r)
  show "mix_claim_signature a v = mix_claim_signature b v \<longleftrightarrow> a = b"
    and "mix_claim_signature a v = mix_claim_signature a w \<longleftrightarrow> v = w"
    unfolding m by simp_all
qed

lemma unat_ucast_8_64 [simp]: "unat (ucast x :: u64) = unat x" for x :: u8
  using unat_bounds(1) [of x] by (simp add: unsigned_ucast_eq take_bit_nat_eq_self)

lemma ucast_inj_64: "ucast x = (ucast y :: u64) \<longleftrightarrow> x = y" "ucast p = (ucast q :: u64) \<longleftrightarrow> p = q"
  for x y :: u8 and p q :: u32
  by (metis unat_ucast_8_64 word_unat_eq_iff) (metis unat_ucast_32_64 word_unat_eq_iff)

text \<open>Two claims that differ in one field have different signatures.\<close>

lemma claim_signature_separates:
  assumes "claim_signature c = claim_signature d"
    and "cd_subj c = cd_subj d" "cd_pred c = cd_pred d" "cd_qualifiers_mask c = cd_qualifiers_mask d"
    and "cd_obj_tag c = cd_obj_tag d \<or> cd_obj_val c = cd_obj_val d"
  shows "c = d"
  using assms by (cases c; cases d) (auto simp: claim_signature_def mix_inj ucast_inj_64)

definition index_all :: "(ClaimData \<times> AtomId) list \<Rightarrow> CtxIndex" where
  "index_all cs = fold (\<lambda>(c, a). ix_index_claim c a) cs []"

lemma ix_index_claim_lookup:
  "map_of (ix_index_claim c a ix) h =
     (if h = claim_pattern_hash c
      then Some (let e = get_or \<lparr>ci_atom_ids = [], ci_claim_signatures = [], ci_severity = Soft, ci_pattern_hash = h\<rparr> ix h
        in e\<lparr>ci_atom_ids := push_new a (ci_atom_ids e),
             ci_claim_signatures := push_new (claim_signature c) (ci_claim_signatures e),
             ci_severity := ci_severity e\<rparr>)
      else map_of ix h)"
  by (simp add: ix_index_claim_def ix_add_claim_index_def ix_insert_conflict_def Let_def)

lemma set_push_new [simp]: "set (push_new x xs) = insert x (set xs)" "push_new x xs \<noteq> []"
  by (auto simp: push_new_def)

lemma index_all_lookup:
  "(case map_of (index_all cs) h of
      None \<Rightarrow> \<nexists>c a. (c, a) \<in> set cs \<and> claim_pattern_hash c = h
    | Some info \<Rightarrow> set (ci_claim_signatures info) = {s. \<exists>c a. (c, a) \<in> set cs \<and> claim_pattern_hash c = h \<and> claim_signature c = s} \<and>
        set (ci_atom_ids info) = {a. \<exists>c. (c, a) \<in> set cs \<and> claim_pattern_hash c = h} \<and>
        ci_claim_signatures info \<noteq> [] \<and> (\<exists>c a. (c, a) \<in> set cs \<and> claim_pattern_hash c = h))"
proof (induction cs rule: rev_induct)
  case (snoc ca cs)
  obtain c a where ca: "ca = (c, a)" by force
  have i: "index_all (cs @ [(c, a)]) = ix_index_claim c a (index_all cs)" by (simp add: index_all_def)
  show ?case
    using snoc unfolding ca i ix_index_claim_lookup get_or_def
    by (cases "map_of (index_all cs) h") (auto simp: Let_def, blast+)
qed (simp add: index_all_def)

text \<open>
  C37: Probing an index of claims reports a conflict exactly when claims with the same pattern are
  indexed and none of them has the same signature, and then names all their atoms.
\<close>

theorem ctx_probe_finds_conflicts:
  "map_option (\<lambda>info. set (ci_atom_ids info)) (ix_probe_conflict (index_all cs) c) =
     (if (\<exists>d a. (d, a) \<in> set cs \<and> claim_pattern_hash d = claim_pattern_hash c) \<and>
         (\<nexists>d a. (d, a) \<in> set cs \<and> claim_pattern_hash d = claim_pattern_hash c \<and>
            claim_signature d = claim_signature c)
      then Some {a. \<exists>d. (d, a) \<in> set cs \<and> claim_pattern_hash d = claim_pattern_hash c}
      else None)"
  using index_all_lookup [of cs "claim_pattern_hash c"]
  by (cases "map_of (index_all cs) (claim_pattern_hash c)") (auto simp: ix_probe_conflict_def)

end
