(* ===== verification/Vm.thy ===== *)
theory Vm
  imports Vm_Code Vm_Views
begin

text \<open>
  The validator and the interpreter of invariant programs (\<open>src/vm/interpreter.rs\<close>). A
  function on \<open>&mut self\<close> returns the state after the call beside its result, also when it
  fails. The main loop is a partial function: its step counter is a \<open>u32\<close> that wraps, so with
  the largest budget the loop need not end, and \<open>None\<close> is the loop that does not. Messages of
  the trace are written out with the standard library's decimal and hexadecimal formats.
\<close>

section \<open>Formatting\<close>

text \<open>\<open>{:04}\<close>.\<close>

definition dec4 :: "nat \<Rightarrow> string" where
  "dec4 n = replicate (4 - length (dec n)) CHR ''0'' @ dec n"

section \<open>Machine state of a virtual machine run\<close>

record VmState =
  vs_registers :: "u64 list"
  vs_pc :: nat
  vs_const_pool :: "ConstValue list"
  vs_result :: InvariantResult
  vs_reason :: ReasonCode
  vs_halted :: bool
  vs_step_count :: u32
  vs_max_steps :: u32
  vs_last_error :: "VmError option"
  vs_trace_enabled :: bool
  vs_trace_log :: "string list"

definition vs_new :: "ConstValue list \<Rightarrow> u32 \<Rightarrow> VmState" where
  "vs_new const_pool max_steps =
     \<lparr>vs_registers = replicate 16 0, vs_pc = 0, vs_const_pool = const_pool, vs_result = PASS,
      vs_reason = TIME_INVALID, vs_halted = False, vs_step_count = 0, vs_max_steps = max_steps,
      vs_last_error = None, vs_trace_enabled = False, vs_trace_log = []\<rparr>"

definition vs_with_tracing :: "ConstValue list \<Rightarrow> u32 \<Rightarrow> VmState" where
  "vs_with_tracing const_pool max_steps = (vs_new const_pool max_steps)\<lparr>vs_trace_enabled := True\<rparr>"

definition vs_get_reg :: "VmState \<Rightarrow> u16 \<Rightarrow> u64" where
  "vs_get_reg s index = (if index = 0 then 0 else vs_registers s ! unat (index AND 0xF))"

definition vs_set_reg :: "u16 \<Rightarrow> u64 \<Rightarrow> VmState \<Rightarrow> VmState" where
  "vs_set_reg index v s =
     (if index \<noteq> 0 then s\<lparr>vs_registers := (vs_registers s)[unat (index AND 0xF) := v]\<rparr> else s)"

definition vs_get_const :: "VmState \<Rightarrow> u32 \<Rightarrow> ConstValue option" where
  "vs_get_const s index =
     (if unat index < length (vs_const_pool s) then Some (vs_const_pool s ! unat index) else None)"

definition vs_get_const_u64 :: "VmState \<Rightarrow> u32 \<Rightarrow> u64 option" where
  "vs_get_const_u64 s index = Option.bind (vs_get_const s index) const_as_u64"

definition vs_check_budget :: "VmState \<Rightarrow> bool" where
  "vs_check_budget s \<longleftrightarrow> vs_step_count s < vs_max_steps s"

definition vs_tick :: "VmState \<Rightarrow> VmState \<times> bool" where
  "vs_tick s = (let s = s\<lparr>vs_step_count := vs_step_count s + 1\<rparr> in (s, vs_check_budget s))"

definition vs_set_result :: "InvariantResult \<Rightarrow> ReasonCode \<Rightarrow> VmState \<Rightarrow> VmState" where
  "vs_set_result result reason s = s\<lparr>vs_result := result, vs_reason := reason\<rparr>"

definition vs_set_error :: "VmError \<Rightarrow> VmState \<Rightarrow> VmState" where
  "vs_set_error error s = s\<lparr>vs_last_error := Some error, vs_halted := True\<rparr>"

definition vs_trace :: "string \<Rightarrow> VmState \<Rightarrow> VmState" where
  "vs_trace msg s = (if vs_trace_enabled s then s\<lparr>vs_trace_log := vs_trace_log s @ [msg]\<rparr> else s)"

definition vs_reset :: "VmState \<Rightarrow> VmState" where
  "vs_reset s = s\<lparr>vs_registers := replicate 16 0, vs_pc := 0, vs_result := PASS,
     vs_reason := TIME_INVALID, vs_halted := False, vs_step_count := 0, vs_last_error := None,
     vs_trace_log := []\<rparr>"

definition vs_default :: VmState where
  "vs_default = vs_new [] 100000"

section \<open>Validation\<close>

text \<open>The first pass fails on an unknown opcode and collects the positions of \<open>RET\<close>.\<close>

primrec ret_pass :: "nat \<Rightarrow> Instruction list \<Rightarrow> string + nat list" where
  "ret_pass i [] = Inr []"
| "ret_pass i (x # xs) =
     (case instr_opcode x of
        None \<Rightarrow> Inl ''Invalid opcode''
      | Some opcode \<Rightarrow>
          (case ret_pass (Suc i) xs of
             Inl e \<Rightarrow> Inl e
           | Inr rets \<Rightarrow> Inr (if opcode = RET then i # rets else rets)))"

text \<open>One instruction of the second pass, for a program of \<open>n\<close> instructions, on the table of
  reachable positions.\<close>

definition reach_step :: "nat \<Rightarrow> nat \<Rightarrow> Instruction \<Rightarrow> bool list \<Rightarrow> string + bool list" where
  "reach_step n i x reachable =
     (case instr_opcode x of
        None \<Rightarrow> Inl ''Invalid opcode''
      | Some opcode \<Rightarrow>
          if \<not> reachable ! i then Inr reachable
          else if (opcode = JZ \<or> opcode = JMP) \<and> unat (jump_target x) \<ge> n
          then Inl ''Jump target out of bounds''
          else
            (let reachable = (if opcode = JZ \<or> opcode = JMP
                              then reachable[unat (jump_target x) := True] else reachable)
             in Inr (if opcode \<noteq> RET \<and> opcode \<noteq> JMP \<and> i + 1 < n
                     then reachable[i + 1 := True] else reachable)))"

primrec reach_pass :: "nat \<Rightarrow> nat \<Rightarrow> Instruction list \<Rightarrow> bool list \<Rightarrow> string + bool list" where
  "reach_pass n i [] reachable = Inr reachable"
| "reach_pass n i (x # xs) reachable =
     (case reach_step n i x reachable of
        Inl e \<Rightarrow> Inl e
      | Inr reachable \<Rightarrow> reach_pass n (Suc i) xs reachable)"

definition validate :: "Instruction list \<Rightarrow> nat \<Rightarrow> u32 \<Rightarrow> string + unit" where
  "validate instructions const_pool_size max_steps =
     (if instructions = [] then Inl ''Empty bytecode''
      else case ret_pass 0 instructions of
        Inl e \<Rightarrow> Inl e
      | Inr ret_positions \<Rightarrow>
          if ret_positions = [] then Inl ''No RET instruction''
          else
            (let n = length instructions in
             case reach_pass n 0 instructions ((replicate n False)[0 := True]) of
               Inl e \<Rightarrow> Inl e
             | Inr reachable \<Rightarrow>
                 (let last_ret = last ret_positions in
                  if last_ret < n - 1 \<and> list_ex (\<lambda>b. b) (drop (last_ret + 1) reachable)
                  then Inl ''Reachable code after final RET''
                  else if n * 3 > unat max_steps then Inl ''Bytecode too large for step budget''
                  else Inr ())))"

datatype ValidationResult = Valid | Warning string | ValError string

definition validate_instruction :: "Instruction \<Rightarrow> u16 \<Rightarrow> nat \<Rightarrow> ValidationResult" where
  "validate_instruction i max_reg const_pool_size =
     (case instr_opcode i of
        None \<Rightarrow> ValError ''Invalid opcode''
      | Some opcode \<Rightarrow>
          if reg_a i > max_reg then ValError ''Register A out of bounds''
          else if opcode_is_comparison opcode \<and> reg_b i > max_reg
          then ValError ''Register B out of bounds''
          else Valid)"

section \<open>Interpreter\<close>

datatype ControlFlow = Continue | Halt | Jump u32

record VmInterpreter =
  vm_registers :: "u64 list"
  vm_pc :: nat
  vm_const_pool :: "ConstValue list"
  vm_atom_view :: AtomView
  vm_claim_view :: "ClaimData option"
  vm_ctx_view :: CtxView
  vm_qc_view :: QueryConstraintsView
  vm_exec_ctx :: ExecutionContext
  vm_max_steps :: u32
  vm_step_count :: u32
  vm_result :: InvariantResult
  vm_reason :: ReasonCode
  vm_halted :: bool
  vm_trace_enabled :: bool
  vm_trace_log :: "string list"

definition vm_new :: "ConstValue list \<Rightarrow> AtomView \<Rightarrow> CtxView \<Rightarrow> QueryConstraintsView \<Rightarrow>
    ExecutionContext \<Rightarrow> u32 \<Rightarrow> VmInterpreter" where
  "vm_new const_pool atom_view ctx_view qc_view exec_ctx max_steps =
     \<lparr>vm_registers = replicate 16 0, vm_pc = 0, vm_const_pool = const_pool,
      vm_atom_view = atom_view, vm_claim_view = None, vm_ctx_view = ctx_view, vm_qc_view = qc_view,
      vm_exec_ctx = exec_ctx, vm_max_steps = max_steps, vm_step_count = 0, vm_result = PASS,
      vm_reason = TIME_INVALID, vm_halted = False, vm_trace_enabled = False, vm_trace_log = []\<rparr>"

definition vm_with_tracing :: "VmInterpreter \<Rightarrow> VmInterpreter" where
  "vm_with_tracing s = s\<lparr>vm_trace_enabled := True\<rparr>"

definition vm_set_claim_view :: "ClaimData \<Rightarrow> VmInterpreter \<Rightarrow> VmInterpreter" where
  "vm_set_claim_view claim s = s\<lparr>vm_claim_view := Some claim\<rparr>"

definition vm_get_reg :: "VmInterpreter \<Rightarrow> u16 \<Rightarrow> u64" where
  "vm_get_reg s index = (if index = 0 then 0 else vm_registers s ! unat (index AND 0xF))"

definition vm_set_reg :: "u16 \<Rightarrow> u64 \<Rightarrow> VmInterpreter \<Rightarrow> VmInterpreter" where
  "vm_set_reg index v s =
     (if index \<noteq> 0 then s\<lparr>vm_registers := (vm_registers s)[unat (index AND 0xF) := v]\<rparr> else s)"

definition vm_get_const :: "VmInterpreter \<Rightarrow> u32 \<Rightarrow> ConstValue option" where
  "vm_get_const s index =
     (if unat index < length (vm_const_pool s) then Some (vm_const_pool s ! unat index) else None)"

definition vm_trace :: "string \<Rightarrow> VmInterpreter \<Rightarrow> VmInterpreter" where
  "vm_trace msg s = (if vm_trace_enabled s then s\<lparr>vm_trace_log := vm_trace_log s @ [msg]\<rparr> else s)"

definition vm_tick :: "VmInterpreter \<Rightarrow> VmInterpreter \<times> bool" where
  "vm_tick s =
     (let s = s\<lparr>vm_step_count := vm_step_count s + 1\<rparr> in
      if vm_step_count s > vm_max_steps s
      then (s\<lparr>vm_result := FAIL_HARD, vm_reason := BUDGET_EXCEEDED, vm_halted := True\<rparr>, False)
      else (s, True))"

subsection \<open>Operands\<close>

definition meta_operand :: "AtomView \<Rightarrow> u32 \<Rightarrow> u64" where
  "meta_operand v field =
     (if field = 0 then av_valid_from_ns v
      else if field = 1 then av_valid_to_ns v
      else if field = 2 then ucast (atom_type_to_u32 (av_atom_type v))
      else if field = 3 then ucast (av_trust_level v)
      else if field = 4 then av_domain_mask v
      else if field = 5 then ucast (av_source_id v)
      else case av_get_meta v (field - 10) of None \<Rightarrow> 0 | Some x \<Rightarrow> x)"

definition claim_operand :: "VmInterpreter \<Rightarrow> u32 \<Rightarrow> u64" where
  "claim_operand s b =
     (let claim_idx = b AND 0xFFFF;
          claim = (if claim_idx = 0 then vm_claim_view s
                   else av_get_claim (vm_atom_view s) (claim_idx - 1))
      in case claim of
           None \<Rightarrow> 0
         | Some c \<Rightarrow>
             (let field = drop_bit 16 b in
              if field = 0 then cd_subj c
              else if field = 1 then cd_pred c
              else if field = 2 then ucast (cd_obj_tag c)
              else if field = 3 then cd_obj_val c
              else if field = 4 then ucast (cd_qualifiers_mask c)
              else 0))"

definition qc_operand :: "QueryConstraintsView \<Rightarrow> u32 \<Rightarrow> u64" where
  "qc_operand q field =
     (if field = 0 then qv_time_from_ns q
      else if field = 1 then qv_time_to_ns q
      else if field = 2 then ucast (qv_trust_min q)
      else if field = 3 then qv_domain_mask q
      else if field = 4 then qv_allowed_atom_types q
      else if field = 5 then ucast (qv_max_results q)
      else 0)"

definition ctx_operand :: "CtxView \<Rightarrow> u32 \<Rightarrow> u64" where
  "ctx_operand v field =
     (if field = 0 then ucast (cv_ctx_id v)
      else if field = 1 then cv_active_branches v
      else if field = 2 then ucast (cv_total_conflicts v)
      else case cv_get_policy_field v (field - 10) of None \<Rightarrow> 0 | Some x \<Rightarrow> x)"

definition source_allowed :: "VmInterpreter \<Rightarrow> u32 \<Rightarrow> bool" where
  "source_allowed s allowlist_idx =
     (let source_id = av_source_id (vm_atom_view s) in
      case ec_source_allowlist (vm_exec_ctx s) of
        Some ctx_allowlist \<Rightarrow> source_id \<in> set ctx_allowlist
      | None \<Rightarrow>
          (case vm_get_const s allowlist_idx of
             None \<Rightarrow> True
           | Some const_val \<Rightarrow>
               (case const_as_u64 const_val of
                  None \<Rightarrow> True
                | Some const_source \<Rightarrow> source_id = ucast const_source)))"

subsection \<open>Instructions\<close>

abbreviation ret_flow :: "ControlFlow \<Rightarrow> VmInterpreter \<Rightarrow> VmInterpreter \<times> (VmError + ControlFlow)" where
  "ret_flow f s \<equiv> (s, Inr f)"

text \<open>Write a register and trace it: the common end of the loads.\<close>

definition load_into :: "string \<Rightarrow> u16 \<Rightarrow> u64 \<Rightarrow> VmInterpreter \<Rightarrow> VmInterpreter" where
  "load_into opname dest v s =
     vm_trace (''  '' @ opname @ '' r'' @ dec (unat dest) @ '' = '' @ dec (unat v)) (vm_set_reg dest v s)"

text \<open>The register comparisons, and the conjunction of two registers: \<open>reg[a]\<close> becomes the
  result of an operation on \<open>reg[a]\<close> and \<open>reg[b]\<close>.\<close>

definition binary_op ::
    "string \<Rightarrow> string \<Rightarrow> (u64 \<Rightarrow> u64 \<Rightarrow> u64) \<Rightarrow> Instruction \<Rightarrow> VmInterpreter \<Rightarrow> VmInterpreter" where
  "binary_op opname symbol f i s =
     (let left = vm_get_reg s (reg_a i); right = vm_get_reg s (reg_b i); result = f left right
      in vm_trace (''  '' @ opname @ '' r'' @ dec (unat (reg_a i)) @ '' = '' @ dec (unat left) @ '' '' @ symbol @
           '' '' @ dec (unat right) @ '' -> '' @ dec (unat result)) (vm_set_reg (reg_a i) result s))"

abbreviation bool_u64 :: "bool \<Rightarrow> u64" where "bool_u64 b \<equiv> of_bool b"

definition vm_fail :: "InvariantResult \<Rightarrow> ReasonCode \<Rightarrow> VmInterpreter \<Rightarrow> VmInterpreter" where
  "vm_fail result reason s = s\<lparr>vm_result := result, vm_reason := reason\<rparr>"

definition execute_instruction :: "Instruction \<Rightarrow> VmInterpreter \<Rightarrow> VmInterpreter \<times> (VmError + ControlFlow)" where
  "execute_instruction i s =
     (case instr_opcode i of
        None \<Rightarrow> (vm_fail FAIL_HARD CORRUPT_SECTION s, Inl (InvalidOpcode (in_op i)))
      | Some opcode \<Rightarrow>
         (case opcode of
            LD_ATOM_META \<Rightarrow>
              ret_flow Continue (load_into ''LD_ATOM_META'' (reg_a i) (meta_operand (vm_atom_view s) (const_index i)) s)
          | LD_CLAIM \<Rightarrow>
              ret_flow Continue (load_into ''LD_CLAIM'' (reg_a i) (claim_operand s (in_b i)) s)
          | LD_QC \<Rightarrow>
              ret_flow Continue (load_into ''LD_QC'' (reg_a i) (qc_operand (vm_qc_view s) (const_index i)) s)
          | LD_CTX \<Rightarrow>
              ret_flow Continue (load_into ''LD_CTX'' (reg_a i) (ctx_operand (vm_ctx_view s) (const_index i)) s)
          | LD_IMM \<Rightarrow> ret_flow Continue (load_into ''LD_IMM'' (reg_a i) (imm_u64 i) s)
          | EQ \<Rightarrow> ret_flow Continue (binary_op ''EQ'' ''=='' (\<lambda>l r. bool_u64 (l = r)) i s)
          | LT \<Rightarrow> ret_flow Continue (binary_op ''LT'' ''<'' (\<lambda>l r. bool_u64 (l < r)) i s)
          | LE \<Rightarrow> ret_flow Continue (binary_op ''LE'' ''<='' (\<lambda>l r. bool_u64 (l \<le> r)) i s)
          | GT \<Rightarrow> ret_flow Continue (binary_op ''GT'' ''>'' (\<lambda>l r. bool_u64 (l > r)) i s)
          | GE \<Rightarrow> ret_flow Continue (binary_op ''GE'' ''>='' (\<lambda>l r. bool_u64 (l \<ge> r)) i s)
          | IN_RANGE \<Rightarrow>
              (let v = vm_get_reg s (reg_a i); low = ucast (imm_low i); high = ucast (imm_high i);
                   result = bool_u64 (v \<ge> low \<and> v \<le> high)
               in ret_flow Continue
                    (vm_trace (''  IN_RANGE r'' @ dec (unat (reg_a i)) @ '' = '' @ dec (unat v) @ '' in ['' @
                       dec (unat (low :: u64)) @ '', '' @ dec (unat (high :: u64)) @ ''] -> '' @ dec (unat result))
                      (vm_set_reg (reg_a i) result s)))
          | HAS_BIT \<Rightarrow>
              (let v = vm_get_reg s (reg_a i); bt = imm_u64 i;
                   result = bool_u64 (v AND push_bit (unat (bt AND 63)) 1 \<noteq> 0)
               in ret_flow Continue
                    (vm_trace (''  HAS_BIT r'' @ dec (unat (reg_a i)) @ '' bit '' @ dec (unat bt) @ '' -> '' @
                       dec (unat result)) (vm_set_reg (reg_a i) result s)))
          | IS_TAG \<Rightarrow>
              (let v = vm_get_reg s (reg_a i); expected_tag = (ucast (imm_u64 i) :: u8);
                   result = bool_u64 (v = ucast expected_tag)
               in ret_flow Continue
                    (vm_trace (''  IS_TAG r'' @ dec (unat (reg_a i)) @ '' == '' @ dec (unat expected_tag) @ '' -> '' @
                       dec (unat result)) (vm_set_reg (reg_a i) result s)))
          | CHK_TIME \<Rightarrow>
              (let av = vm_atom_view s; qv = vm_qc_view s in
               if \<not> (av_valid_from_ns av < qv_time_to_ns qv \<and> qv_time_from_ns qv < av_valid_to_ns av)
               then ret_flow Halt (vm_trace ''  CHK_TIME FAILED - no overlap'' (vm_fail FAIL_HARD TIME_INVALID s))
               else ret_flow Continue (vm_trace ''  CHK_TIME OK'' s))
          | CHK_TRUST \<Rightarrow>
              (let atom_trust = av_trust_level (vm_atom_view s); min_trust = qv_trust_min (vm_qc_view s) in
               if atom_trust < min_trust
               then ret_flow Halt (vm_trace (''  CHK_TRUST FAILED - '' @ dec (unat atom_trust) @ '' < '' @
                      dec (unat min_trust)) (vm_fail FAIL_HARD TRUST_TOO_LOW s))
               else ret_flow Continue (vm_trace (''  CHK_TRUST OK - '' @ dec (unat atom_trust) @ '' >= '' @
                      dec (unat min_trust)) s))
          | CHK_DOMAIN \<Rightarrow>
              (let atom_domain = av_domain_mask (vm_atom_view s); required_domain = qv_domain_mask (vm_qc_view s) in
               if required_domain \<noteq> 0 \<and> atom_domain AND required_domain = 0
               then ret_flow Halt (vm_trace (''  CHK_DOMAIN FAILED - '' @ hex (unat atom_domain) @ '' & '' @
                      hex (unat required_domain) @ '' = 0'') (vm_fail FAIL_HARD DOMAIN_MISMATCH s))
               else ret_flow Continue (vm_trace (''  CHK_DOMAIN OK - '' @ hex (unat atom_domain) @ '' & '' @
                      hex (unat required_domain) @ '' != 0'') s))
          | CHK_SOURCE \<Rightarrow>
              (let source_id = av_source_id (vm_atom_view s) in
               if \<not> source_allowed s (const_index i)
               then ret_flow Halt (vm_trace (''  CHK_SOURCE FAILED - source '' @ dec (unat source_id) @ '' denied'')
                      (vm_fail FAIL_HARD SOURCE_DENIED s))
               else ret_flow Continue
                      (vm_trace (''  CHK_SOURCE OK - source '' @ dec (unat source_id) @ '' allowed'') s))
          | CTX_PROBE \<Rightarrow>
              (let pattern_hash = vm_get_reg s (reg_a i);
                   ok = ret_flow Continue
                     (vm_trace (''  CTX_PROBE OK - no conflict for hash '' @ hex (unat pattern_hash)) s)
               in if ec_has_conflict (vm_exec_ctx s) pattern_hash then
                    (case ec_conflict_severity (vm_exec_ctx s) pattern_hash of
                       Some Hard \<Rightarrow> ret_flow Halt
                         (vm_trace (''  CTX_PROBE HARD CONFLICT - hash '' @ hex (unat pattern_hash))
                           (vm_fail FAIL_HARD CONFLICT_FOUND s))
                     | Some Soft \<Rightarrow> ret_flow Halt
                         (vm_trace (''  CTX_PROBE SOFT CONFLICT - hash '' @ hex (unat pattern_hash))
                           (vm_fail NEED_BRANCH CONFLICT_FOUND s))
                     | None \<Rightarrow> ok)
                  else ok)
          | RAISE_CONFLICT \<Rightarrow>
              (if imm_u64 i = 0
               then ret_flow Halt (vm_trace ''  RAISE_CONFLICT HARD'' (vm_fail FAIL_HARD CONFLICT_FOUND s))
               else ret_flow Halt (vm_trace ''  RAISE_CONFLICT SOFT'' (vm_fail NEED_BRANCH CONFLICT_FOUND s)))
          | JZ \<Rightarrow>
              (let cond = vm_get_reg s (reg_a i); target = jump_target i in
               if cond = 0
               then ret_flow (Jump target) (vm_trace (''  JZ r'' @ dec (unat (reg_a i)) @ '' = 0 -> jump to '' @
                      dec (unat target)) s)
               else ret_flow Continue (vm_trace (''  JZ r'' @ dec (unat (reg_a i)) @ '' = '' @ dec (unat cond) @
                      '' -> continue'') s))
          | JMP \<Rightarrow>
              ret_flow (Jump (jump_target i)) (vm_trace (''  JMP -> '' @ dec (unat (jump_target i))) s)
          | RET \<Rightarrow>
              (let s = (case inv_result_from_u8 (ucast (in_a i)) of
                   Some result \<Rightarrow> s\<lparr>vm_result := result\<rparr> | None \<Rightarrow> s)
               in ret_flow Halt (vm_trace (''  RET '' @ inv_result_display (vm_result s)) s))
          | AND_OP \<Rightarrow> ret_flow Continue (binary_op ''AND'' ''&'' (\<lambda>l r. l AND r) i s)
          | NOT_OP \<Rightarrow>
              (let v = vm_get_reg s (reg_a i); result = NOT v
               in ret_flow Continue
                    (vm_trace (''  NOT r'' @ dec (unat (reg_a i)) @ '' = ~'' @ dec (unat v) @ '' -> '' @
                       dec (unat result)) (vm_set_reg (reg_a i) result s)))
          | JNZ \<Rightarrow>
              (let cond = vm_get_reg s (reg_a i); target = jump_target i in
               if cond \<noteq> 0
               then ret_flow (Jump target) (vm_trace (''  JNZ r'' @ dec (unat (reg_a i)) @ '' = '' @ dec (unat cond) @
                      '' -> jump to '' @ dec (unat target)) s)
               else ret_flow Continue (vm_trace (''  JNZ r'' @ dec (unat (reg_a i)) @ '' = '' @ dec (unat cond) @
                      '' -> continue'') s))
          | CALL \<Rightarrow>
              (let return_pc = of_nat (vm_pc s); target = jump_target i
               in ret_flow (Jump target)
                    (vm_trace (''  CALL r'' @ dec (unat (reg_a i)) @ '' = '' @ dec (unat return_pc) @
                       '' -> jump to '' @ dec (unat target)) (vm_set_reg (reg_a i) return_pc s)))))"

subsection \<open>Execution\<close>

definition fetch_message :: "nat \<Rightarrow> Instruction \<Rightarrow> string" where
  "fetch_message current_pc i =
     ''['' @ dec4 current_pc @ ''] '' @
     (case instr_opcode i of Some op \<Rightarrow> opcode_display op | None \<Rightarrow> ''???('' @ dec (unat (in_op i)) @ '')'') @
     '' r'' @ dec (unat (reg_a i)) @ '' b='' @ dec (unat (in_b i)) @ '' imm='' @ dec (unat (in_imm i))"

text \<open>The body of the loop, after a successful tick.\<close>

definition vm_step :: "Instruction list \<Rightarrow> VmInterpreter \<Rightarrow> VmInterpreter \<times> VmError option" where
  "vm_step is s =
     (let i = is ! vm_pc s; current_pc = vm_pc s;
          s = s\<lparr>vm_pc := vm_pc s + 1\<rparr>;
          s = vm_trace (fetch_message current_pc i) s
      in case execute_instruction i s of
           (s, Inl e) \<Rightarrow> (s, Some e)
         | (s, Inr Continue) \<Rightarrow> (s, None)
         | (s, Inr Halt) \<Rightarrow> (s\<lparr>vm_halted := True\<rparr>, None)
         | (s, Inr (Jump target)) \<Rightarrow>
             if unat target \<ge> length is then (s, Some (JumpTargetOutOfBounds target))
             else (s\<lparr>vm_pc := unat target\<rparr>, None))"

partial_function (option) vm_loop :: "Instruction list \<Rightarrow> VmInterpreter \<Rightarrow> (VmInterpreter \<times> VmError option) option" where
  "vm_loop is s =
     (if \<not> vm_halted s \<and> vm_pc s < length is then
        (let (s, ticked) = vm_tick s in
         if \<not> ticked then Some (s, None)
         else
           (let (s, failed) = vm_step is s in
            if failed \<noteq> None then Some (s, failed) else vm_loop is s))
      else Some (s, None))"

definition vm_finish :: "VmInterpreter \<Rightarrow> VmInterpreter \<times> (VmError + InvariantResult)" where
  "vm_finish s =
     (let s = (if vm_step_count s > vm_max_steps s \<and> vm_result s \<noteq> FAIL_HARD
               then s\<lparr>vm_result := FAIL_HARD, vm_reason := BUDGET_EXCEEDED\<rparr> else s)
      in (s, Inr (vm_result s)))"

definition vm_execute :: "Instruction list \<Rightarrow> VmInterpreter \<Rightarrow> (VmInterpreter \<times> (VmError + InvariantResult)) option" where
  "vm_execute is s =
     (case validate is (length (vm_const_pool s)) (vm_max_steps s) of
        Inl e \<Rightarrow> Some (s, Inl (ValidationFailed e))
      | Inr _ \<Rightarrow>
          (case vm_loop is s of
             None \<Rightarrow> None
           | Some (s, Some e) \<Rightarrow> Some (s, Inl e)
           | Some (s, None) \<Rightarrow> Some (vm_finish s)))"

definition execute_static :: "Instruction list \<Rightarrow> ConstValue list \<Rightarrow> AtomView \<Rightarrow> CtxView \<Rightarrow>
    QueryConstraintsView \<Rightarrow> u32 \<Rightarrow> (VmError + InvariantResult) option" where
  "execute_static is const_pool atom_view ctx_view qc_view max_steps =
     (let exec_ctx = \<lparr>ec_atom_ref = [], ec_claim_ref = None, ec_ctx_index = [], ec_source_allowlist = None\<rparr>
      in map_option snd (vm_execute is (vm_new const_pool atom_view ctx_view qc_view exec_ctx max_steps)))"

end
