(* ===== verification/Vm_Run.thy ===== *)
theory Vm_Run
  imports Vm
begin

text \<open>
  Runs of the invariant machine: what an instruction leaves alone, the induction rule for runs
  that end, the typing of the state, and termination. The budget bounds every run, except that
  with the largest budget the wrapping step counter never exceeds it.
\<close>

section \<open>Frames\<close>

lemma vm_trace_simps [simp]:
  "vm_registers (vm_trace m s) = vm_registers s" "vm_pc (vm_trace m s) = vm_pc s"
  "vm_const_pool (vm_trace m s) = vm_const_pool s" "vm_atom_view (vm_trace m s) = vm_atom_view s"
  "vm_claim_view (vm_trace m s) = vm_claim_view s" "vm_ctx_view (vm_trace m s) = vm_ctx_view s"
  "vm_qc_view (vm_trace m s) = vm_qc_view s" "vm_exec_ctx (vm_trace m s) = vm_exec_ctx s"
  "vm_max_steps (vm_trace m s) = vm_max_steps s" "vm_step_count (vm_trace m s) = vm_step_count s"
  "vm_result (vm_trace m s) = vm_result s" "vm_reason (vm_trace m s) = vm_reason s"
  "vm_halted (vm_trace m s) = vm_halted s" "vm_trace_enabled (vm_trace m s) = vm_trace_enabled s"
  by (simp_all add: vm_trace_def)

text \<open>What no instruction changes: the views and the settings of the machine.\<close>

definition vm_env :: "VmInterpreter \<Rightarrow> VmInterpreter" where
  "vm_env s = s\<lparr>vm_registers := [], vm_pc := 0, vm_step_count := 0, vm_result := PASS,
     vm_reason := TIME_INVALID, vm_halted := False, vm_trace_log := []\<rparr>"

definition regs_ok :: "VmInterpreter \<Rightarrow> bool" where
  "regs_ok s \<longleftrightarrow> length (vm_registers s) = 16 \<and> vm_registers s ! 0 = 0"

text \<open>The part of the state an instruction leaves alone.\<close>

definition vm_frame :: "VmInterpreter \<Rightarrow> VmInterpreter \<Rightarrow> bool" where
  "vm_frame s t \<longleftrightarrow> vm_env t = vm_env s \<and> vm_pc t = vm_pc s \<and> vm_step_count t = vm_step_count s \<and>
     vm_halted t = vm_halted s \<and> (regs_ok s \<longrightarrow> regs_ok t)"

lemma vm_frame_refl [simp]: "vm_frame s s"
  by (simp add: vm_frame_def)

lemma vm_frame_trans: "vm_frame s t \<Longrightarrow> vm_frame t u \<Longrightarrow> vm_frame s u"
  by (auto simp: vm_frame_def)

lemma vm_frame_trace [simp]: "vm_frame s (vm_trace m t) \<longleftrightarrow> vm_frame s t"
  by (auto simp: vm_frame_def vm_env_def vm_trace_def regs_ok_def)

lemma vm_frame_fail [simp]: "vm_frame s (vm_fail r c t) \<longleftrightarrow> vm_frame s t"
  by (auto simp: vm_frame_def vm_env_def vm_fail_def regs_ok_def)

lemma vm_frame_result [simp]: "vm_frame s (t\<lparr>vm_result := r\<rparr>) \<longleftrightarrow> vm_frame s t"
  by (auto simp: vm_frame_def vm_env_def regs_ok_def)

lemma and_15: "x AND 0xF = x AND 0xF AND 0xF" for x :: u16
  by (simp add: and.assoc)

lemma vm_frame_set_reg [simp]: "vm_frame s (vm_set_reg (reg_a i) v s)"
proof (cases "reg_a i = 0")
  case False
  have "reg_a i AND 0xF = reg_a i" by (simp add: reg_a_def and.assoc)
  with False have "unat (reg_a i AND 0xF) \<noteq> 0" by (simp add: unat_eq_0)
  then show ?thesis by (simp add: vm_set_reg_def vm_frame_def vm_env_def regs_ok_def)
qed (simp add: vm_set_reg_def)

lemma vm_frame_load [simp]: "vm_frame s (load_into nm (reg_a i) v s)"
  by (simp add: load_into_def)

lemma vm_frame_binary [simp]: "vm_frame s (binary_op nm y f i s)"
  by (simp add: binary_op_def Let_def)

lemma execute_instruction_frame: "execute_instruction i s = (t, r) \<Longrightarrow> vm_frame s t"
proof (cases "instr_opcode i")
  case (Some op)
  moreover assume "execute_instruction i s = (t, r)"
  ultimately show ?thesis
    by (cases op) (auto simp: execute_instruction_def Let_def split: if_splits option.splits ConflictSeverity.splits)
qed (auto simp: execute_instruction_def)

lemma execute_instruction_flow:
  assumes "instr_opcode i = Some op"
  obtains f where "snd (execute_instruction i s) = Inr f"
    "f = Continue \<Longrightarrow> op \<notin> {RET, JMP, CALL, RAISE_CONFLICT}"
    "\<And>t. f = Jump t \<Longrightarrow> op \<in> {JZ, JMP, JNZ, CALL} \<and> t = jump_target i"
proof -
  have "\<exists>f. snd (execute_instruction i s) = Inr f \<and> (f = Continue \<longrightarrow> op \<notin> {RET, JMP, CALL, RAISE_CONFLICT}) \<and>
    (\<forall>t. f = Jump t \<longrightarrow> op \<in> {JZ, JMP, JNZ, CALL} \<and> t = jump_target i)"
    using assms
    by (cases op) (auto simp: execute_instruction_def Let_def split: option.splits ConflictSeverity.splits)
  then show ?thesis using that by blast
qed

section \<open>One iteration of the loop\<close>

text \<open>The state an iteration starts to execute in: ticked, past the instruction, traced.\<close>

definition vm_enter :: "Instruction list \<Rightarrow> VmInterpreter \<Rightarrow> VmInterpreter" where
  "vm_enter is s = vm_trace (fetch_message (vm_pc s) (is ! vm_pc s)) (s\<lparr>vm_pc := vm_pc s + 1\<rparr>)"

lemma vm_enter_simps [simp]:
  "vm_pc (vm_enter is s) = vm_pc s + 1" "vm_step_count (vm_enter is s) = vm_step_count s"
  "vm_halted (vm_enter is s) = vm_halted s" "regs_ok (vm_enter is s) = regs_ok s"
  "vm_env (vm_enter is s) = vm_env s" "vm_result (vm_enter is s) = vm_result s"
  "vm_reason (vm_enter is s) = vm_reason s" "vm_max_steps (vm_enter is s) = vm_max_steps s"
  by (auto simp: vm_enter_def regs_ok_def vm_env_def vm_trace_def)

lemma vm_step_alt:
  "vm_step is s =
     (case execute_instruction (is ! vm_pc s) (vm_enter is s) of
        (t, Inl e) \<Rightarrow> (t, Some e)
      | (t, Inr Continue) \<Rightarrow> (t, None)
      | (t, Inr Halt) \<Rightarrow> (t\<lparr>vm_halted := True\<rparr>, None)
      | (t, Inr (Jump target)) \<Rightarrow>
          if unat target \<ge> length is then (t, Some (JumpTargetOutOfBounds target))
          else (t\<lparr>vm_pc := unat target\<rparr>, None))"
  by (simp add: vm_step_def vm_enter_def Let_def)

lemma vm_env_sel [simp]:
  "vm_const_pool (vm_env s) = vm_const_pool s" "vm_atom_view (vm_env s) = vm_atom_view s"
  "vm_claim_view (vm_env s) = vm_claim_view s" "vm_ctx_view (vm_env s) = vm_ctx_view s"
  "vm_qc_view (vm_env s) = vm_qc_view s" "vm_exec_ctx (vm_env s) = vm_exec_ctx s"
  "vm_max_steps (vm_env s) = vm_max_steps s" "vm_trace_enabled (vm_env s) = vm_trace_enabled s"
  by (simp_all add: vm_env_def)

lemma vm_env_max: "vm_env t = vm_env s \<Longrightarrow> vm_max_steps t = vm_max_steps s"
  by (metis vm_env_sel(7))

lemma vm_env_updates [simp]:
  "vm_env (s\<lparr>vm_pc := p\<rparr>) = vm_env s" "vm_env (s\<lparr>vm_halted := b\<rparr>) = vm_env s"
  "vm_env (s\<lparr>vm_step_count := n\<rparr>) = vm_env s" "vm_env (s\<lparr>vm_result := r\<rparr>) = vm_env s"
  "vm_env (s\<lparr>vm_reason := c\<rparr>) = vm_env s"
  by (simp_all add: vm_env_def)

lemma regs_ok_updates [simp]:
  "regs_ok (s\<lparr>vm_pc := p\<rparr>) = regs_ok s" "regs_ok (s\<lparr>vm_halted := b\<rparr>) = regs_ok s"
  "regs_ok (s\<lparr>vm_step_count := n\<rparr>) = regs_ok s" "regs_ok (s\<lparr>vm_result := r\<rparr>) = regs_ok s"
  "regs_ok (s\<lparr>vm_reason := c\<rparr>) = regs_ok s"
  by (simp_all add: regs_ok_def)

lemma vm_step_frame:
  assumes "vm_step is s = (t, r)"
  shows "vm_env t = vm_env s \<and> vm_step_count t = vm_step_count s \<and> (regs_ok s \<longrightarrow> regs_ok t) \<and>
    (vm_pc s < length is \<longrightarrow> vm_pc t \<le> length is)"
proof -
  obtain u f where x: "execute_instruction (is ! vm_pc s) (vm_enter is s) = (u, f)" by force
  have "vm_frame (vm_enter is s) u" using x by (rule execute_instruction_frame)
  with assms x show ?thesis
    by (auto simp: vm_step_alt vm_frame_def split: sum.splits ControlFlow.splits if_splits)
qed

lemma vm_tick_frame:
  "vm_tick s = (t, b) \<Longrightarrow> vm_env t = vm_env s \<and> vm_pc t = vm_pc s \<and> (regs_ok s \<longrightarrow> regs_ok t) \<and>
    vm_step_count t = vm_step_count s + 1 \<and> (b \<longleftrightarrow> vm_step_count s + 1 \<le> vm_max_steps s) \<and>
    (b \<longrightarrow> vm_halted t = vm_halted s)"
  by (auto simp: vm_tick_def Let_def not_less split: if_splits)

lemma vm_tick_ok: "vm_step_count s + 1 \<le> vm_max_steps s \<Longrightarrow>
    vm_tick s = (s\<lparr>vm_step_count := vm_step_count s + 1\<rparr>, True)"
  by (simp add: vm_tick_def Let_def not_less [symmetric])

section \<open>Registers and settings\<close>

text \<open>Induction over a run of the loop that ends.\<close>

abbreviation running :: "Instruction list \<Rightarrow> VmInterpreter \<Rightarrow> bool" where
  "running is s \<equiv> \<not> vm_halted s \<and> vm_pc s < length is"

lemma vm_loop_induct [consumes 1, case_names ended budget failed iterate]:
  assumes "vm_loop is s = Some y"
    and e: "\<And>s. \<not> running is s \<Longrightarrow> P s (s, None)"
    and b: "\<And>s u. running is s \<Longrightarrow> vm_tick s = (u, False) \<Longrightarrow> P s (u, None)"
    and f: "\<And>s u v e. running is s \<Longrightarrow> vm_tick s = (u, True) \<Longrightarrow> vm_step is u = (v, Some e) \<Longrightarrow> P s (v, Some e)"
    and i: "\<And>s u v y. running is s \<Longrightarrow> vm_tick s = (u, True) \<Longrightarrow> vm_step is u = (v, None) \<Longrightarrow> P v y \<Longrightarrow> P s y"
  shows "P s y"
proof -
  have "is = is \<longrightarrow> P s y"
  proof (rule vm_loop.raw_induct [where P = "\<lambda>is' s y. is' = is \<longrightarrow> P s y", OF _ assms(1)], goal_cases)
    case (1 loop is' s y)
    show ?case
    proof
      assume is': "is' = is"
      obtain u k where u: "vm_tick s = (u, k)" by force
      obtain v fl where v: "vm_step is u = (v, fl)" by force
      from 1(2) is' u v show "P s y"
        by (cases "running is s"; cases k; cases fl) (auto intro: e b f i 1(1) [rule_format] split: if_splits)
    qed
  qed
  then show ?thesis by simp
qed

lemma vm_loop_invariant:
  "vm_loop is s = Some y \<Longrightarrow> vm_pc s \<le> length is \<longrightarrow>
   vm_env (fst y) = vm_env s \<and> (regs_ok s \<longrightarrow> regs_ok (fst y)) \<and> vm_pc (fst y) \<le> length is"
proof (induction rule: vm_loop_induct)
  case (iterate s u v y)
  then show ?case
    using vm_tick_frame [of s u True] vm_step_frame [of "is" u v None] by simp
qed (use vm_tick_frame vm_step_frame in \<open>fastforce+\<close>)

lemma vm_execute_cases:
  assumes "vm_execute is s = Some (t, r)"
  obtains e where "validate is (length (vm_const_pool s)) (vm_max_steps s) = Inl e" "t = s" "r = Inl (ValidationFailed e)"
  | e where "vm_loop is s = Some (t, Some e)" "r = Inl e"
  | u where "vm_loop is s = Some (u, None)" "(t, r) = vm_finish u"
  using assms by (fastforce simp: vm_execute_def split: sum.splits option.splits)

lemma vm_finish_frame: "(t, r) = vm_finish s \<Longrightarrow> vm_env t = vm_env s \<and> regs_ok t = regs_ok s \<and> vm_pc t = vm_pc s \<and>
   vm_step_count t = vm_step_count s \<and> r = Inr (vm_result t)"
  by (auto simp: vm_finish_def Let_def split: if_splits)

section \<open>Termination\<close>

lemma vm_loop_terminates:
  assumes "vm_max_steps s \<noteq> - 1" "vm_step_count s \<le> vm_max_steps s"
  shows "\<exists>t e. vm_loop is s = Some (t, e) \<and> unat (vm_step_count t) \<le> unat (vm_max_steps s) + 1"
  using assms
proof (induction "unat (vm_max_steps s) - unat (vm_step_count s)" arbitrary: s rule: less_induct)
  case less
  show ?case
  proof (cases "\<not> vm_halted s \<and> vm_pc s < length is")
    case True
    obtain u b where u: "vm_tick s = (u, b)" by force
    obtain v f where v: "vm_step is u = (v, f)" by force
    note fu = vm_tick_frame [OF u] and fv = vm_step_frame [OF v]
    have m: "vm_max_steps v = vm_max_steps s" using fu fv by (metis vm_env_max)
    have "vm_step_count s \<noteq> - 1" using less.prems by (metis word_order.extremum_uniqueI)
    then have c: "unat (vm_step_count s + 1) = unat (vm_step_count s) + 1"
      by (metis Suc_eq_plus1 add.commute add_eq_0_iff unatSuc)
    show ?thesis
    proof (cases "b \<and> f = None")
      case run: True
      then have le: "vm_step_count s + 1 \<le> vm_max_steps s" using fu by simp
      then have "unat (vm_step_count s) + 1 \<le> unat (vm_max_steps s)" by (simp add: word_le_nat_alt c)
      then have "\<exists>t e. vm_loop is v = Some (t, e) \<and> unat (vm_step_count t) \<le> unat (vm_max_steps v) + 1"
        using fu fv m c le less.prems by (intro less.hyps) simp_all
      with run True u v m show ?thesis by (subst vm_loop.simps) simp
    next
      case False
      have "unat (vm_step_count u) \<le> unat (vm_max_steps s) + 1" "vm_step_count v = vm_step_count u"
        using fu fv c less.prems by (simp_all add: word_le_nat_alt)
      with False True u v show ?thesis by (subst vm_loop.simps) auto
    qed
  next
    case False
    then have "vm_loop is s = Some (s, None)" by (subst vm_loop.simps) auto
    then show ?thesis using less.prems by (simp add: word_le_nat_alt)
  qed
qed

lemma max_u32: "(0xFFFFFFFF :: u32) = - 1"
  by (simp add: word_eq_iff_unsigned unsigned_minus_1_eq_mask mask_eq_exp_minus_1)

lemma vm_execute_ends:
  assumes "m \<noteq> 0xFFFFFFFF"
  shows "\<exists>t r. vm_execute is (vm_new const_pool av cv qv ec m) = Some (t, r) \<and>
    unat (vm_step_count t) \<le> unat m + 1"
proof -
  let ?s = "vm_new const_pool av cv qv ec m"
  have m: "vm_max_steps ?s = m" "vm_step_count ?s = 0" by (simp_all add: vm_new_def)
  show ?thesis
  proof (cases "validate is (length (vm_const_pool ?s)) (vm_max_steps ?s)")
    case (Inl e)
    then show ?thesis by (simp add: vm_execute_def m)
  next
    case (Inr x)
    have "\<exists>t e. vm_loop is ?s = Some (t, e) \<and> unat (vm_step_count t) \<le> unat (vm_max_steps ?s) + 1"
      by (rule vm_loop_terminates) (use assms max_u32 in \<open>simp_all add: m\<close>)
    then obtain t e where "vm_loop is ?s = Some (t, e)" "unat (vm_step_count t) \<le> unat m + 1"
      by (auto simp: m)
    with Inr show ?thesis
      by (cases e) (auto simp: vm_execute_def m vm_finish_def Let_def)
  qed
qed

text \<open>With the largest budget the counter wraps before it exceeds it.\<close>

definition jump_to_self :: "Instruction list" where
  "jump_to_self = [instr_new JMP 0 0 0, instr_new RET 0 0 0]"

text \<open>
  C25: Every run ends when the step budget is not the largest 32-bit number, after at most one
  step more than the budget.
\<close>

theorem vm_terminates:
  assumes "m \<noteq> 0xFFFFFFFF"
  shows "\<exists>t r. vm_execute is (vm_new const_pool av cv qv ec m) = Some (t, r) \<and>
    unat (vm_step_count t) \<le> unat m + 1"
  using assms by (rule vm_execute_ends)

theorem vm_terminates_witness:
  "\<forall>av cv qv ec. \<exists>t r. vm_execute jump_to_self (vm_new [] av cv qv ec 5) = Some (t, r) \<and> unat (vm_step_count t) \<le> 6"
  using vm_terminates [of 5 jump_to_self "[]"] by simp

text \<open>
  C35: A run keeps the machine well-formed: sixteen registers of which register 0 reads as zero,
  a program counter within the program, and the constants, the views, the context and the budget
  as they were.
\<close>

theorem vm_state_typed:
  assumes "vm_execute is (vm_new const_pool av cv qv ec m) = Some (t, r)"
  shows "length (vm_registers t) = 16 \<and> vm_get_reg t k = (if k AND 0xF = 0 then 0 else vm_registers t ! unat (k AND 0xF)) \<and>
    vm_pc t \<le> length is \<and> vm_const_pool t = const_pool \<and> vm_atom_view t = av \<and> vm_claim_view t = None \<and>
    vm_ctx_view t = cv \<and> vm_qc_view t = qv \<and> vm_exec_ctx t = ec \<and> vm_max_steps t = m"
proof -
  let ?s = "vm_new const_pool av cv qv ec m"
  have s: "regs_ok ?s" "vm_pc ?s \<le> length is" by (simp_all add: vm_new_def regs_ok_def)
  have "vm_env t = vm_env ?s \<and> regs_ok t \<and> vm_pc t \<le> length is"
    using assms by (rule vm_execute_cases) (use s in \<open>auto dest!: vm_loop_invariant vm_finish_frame\<close>)
  moreover from this have "vm_const_pool t = const_pool" "vm_atom_view t = av" "vm_claim_view t = None"
    "vm_ctx_view t = cv" "vm_qc_view t = qv" "vm_exec_ctx t = ec" "vm_max_steps t = m"
    using vm_env_sel [of t] vm_env_sel [of ?s] by (simp_all add: vm_new_def)
  ultimately show ?thesis
    by (auto simp: regs_ok_def vm_get_reg_def)
qed

theorem vm_state_typed_witness:
  "\<forall>av cv qv ec. \<exists>t r. vm_execute jump_to_self (vm_new [] av cv qv ec 5) = Some (t, r) \<and> length (vm_registers t) = 16"
proof (intro allI)
  fix av cv qv ec
  obtain t r where "vm_execute jump_to_self (vm_new [] av cv qv ec 5) = Some (t, r)"
    using vm_execute_ends [of 5 jump_to_self "[]" av cv qv ec] by auto
  with vm_state_typed [OF this]
  show "\<exists>t r. vm_execute jump_to_self (vm_new [] av cv qv ec 5) = Some (t, r) \<and> length (vm_registers t) = 16"
    by blast
qed

lemma jump_to_self_run:
  "execute_instruction (jump_to_self ! 0) s = (vm_trace (''  JMP -> '' @ dec 0) s, Inr (Jump 0))"
  by (simp add: execute_instruction_def jump_to_self_def instr_new_def instr_opcode_def jump_target_def opcode_from_u16_def)

lemma jump_to_self_step:
  "vm_step jump_to_self u = (v, f) \<Longrightarrow> vm_pc u = 0 \<Longrightarrow>
   f = None \<and> vm_pc v = 0 \<and> vm_halted v = vm_halted u \<and> vm_env v = vm_env u"
  using vm_step_frame [of jump_to_self u v f]
  by (auto simp: vm_step_alt jump_to_self_run) (auto simp: jump_to_self_def)

lemma jump_to_self_loops:
  "vm_loop is s = Some y \<Longrightarrow> is = jump_to_self \<longrightarrow>
   \<not> vm_halted s \<longrightarrow> vm_pc s = 0 \<longrightarrow> vm_max_steps s = - 1 \<longrightarrow> False"
proof (induction rule: vm_loop_induct)
  case (ended s)
  then show ?case by (auto simp: jump_to_self_def)
next
  case (budget s u)
  then show ?case by (auto dest: vm_tick_frame)
next
  case (failed s u v e)
  then show ?case by (auto dest!: vm_tick_frame jump_to_self_step)
next
  case (iterate s u v y)
  then show ?case
    using vm_tick_frame [of s u True] jump_to_self_step [of u v None]
      vm_env_max [of v s] by auto
qed

theorem vm_max_budget_diverges:
  "vm_execute jump_to_self (vm_new const_pool av cv qv ec 0xFFFFFFFF) = None"
  unfolding max_u32
proof -
  let ?s = "vm_new const_pool av cv qv ec (- 1)"
  have "\<not> vm_halted ?s" "vm_pc ?s = 0" "vm_max_steps ?s = - 1" by (simp_all add: vm_new_def)
  then have "vm_loop jump_to_self ?s = None"
    using jump_to_self_loops [of jump_to_self ?s] by (cases "vm_loop jump_to_self ?s") auto
  moreover have "validate jump_to_self n (- 1) = Inr ()" for n
    by (simp add: validate_def jump_to_self_def instr_new_def instr_opcode_def opcode_from_u16_def
        reach_step_def jump_target_def max_u32 [symmetric])
  ultimately show "vm_execute jump_to_self ?s = None" by (simp add: vm_execute_def vm_new_def)
qed

end
