(* ===== verification/Vm_Forward.thy ===== *)
theory Vm_Forward
  imports Vm_Run
begin

text \<open>
  What the validator is good for. A validated program that jumps forward only, by \<open>JZ\<close> and
  \<open>JMP\<close>, runs without errors, stays in the positions the validator marked, halts at a check or
  a \<open>RET\<close>, and uses at most one step for each of its instructions. Outside that fragment the
  validator is blind: it follows neither \<open>JNZ\<close> nor \<open>CALL\<close>, and it does not look again at a
  position that is only marked after its single pass has gone by.
\<close>

section \<open>Forward programs\<close>

definition instr_forward :: "nat \<Rightarrow> Instruction \<Rightarrow> bool" where
  "instr_forward k i =
     (case instr_opcode i of
        Some JZ \<Rightarrow> k < unat (jump_target i)
      | Some JMP \<Rightarrow> k < unat (jump_target i)
      | Some JNZ \<Rightarrow> False
      | Some CALL \<Rightarrow> False
      | _ \<Rightarrow> True)"

definition forward_only :: "Instruction list \<Rightarrow> bool" where
  "forward_only is \<longleftrightarrow> (\<forall>k<length is. instr_forward k (is ! k))"

text \<open>The table of reachable positions is closed at a position: where control can go from
  there is in bounds and marked.\<close>

definition closed_at :: "Instruction list \<Rightarrow> bool list \<Rightarrow> nat \<Rightarrow> bool" where
  "closed_at is R j \<longleftrightarrow> (\<exists>op. instr_opcode (is ! j) = Some op \<and>
     (op \<in> {JZ, JMP} \<longrightarrow> unat (jump_target (is ! j)) < length is \<and> R ! unat (jump_target (is ! j))) \<and>
     (op \<notin> {RET, JMP} \<longrightarrow> j + 1 < length is \<longrightarrow> R ! (j + 1)))"

lemma reach_step_forward:
  assumes "reach_step (length is) i (is ! i) R = Inr R'" "i < length is" "length R = length is"
    and "instr_forward i (is ! i)"
  shows "length R' = length is \<and> (\<forall>j\<le>i. R' ! j = R ! j) \<and> (\<forall>j. R ! j \<longrightarrow> R' ! j) \<and>
    (R ! i \<longrightarrow> closed_at is R' i)"
  using assms
  by (auto simp: reach_step_def closed_at_def instr_forward_def nth_list_update Let_def not_le
      split: option.splits if_splits Opcode.splits)

lemma closed_at_mono: "closed_at is R j \<Longrightarrow> (\<forall>k. R ! k \<longrightarrow> R' ! k) \<Longrightarrow> closed_at is R' j"
  by (fastforce simp: closed_at_def)

lemma reach_pass_forward:
  assumes "reach_pass (length is) i (drop i is) R = Inr R'" "length R = length is" "forward_only is" "i \<le> length is"
  shows "length R' = length is \<and> (\<forall>j<i. R' ! j = R ! j) \<and> (\<forall>j. R ! j \<longrightarrow> R' ! j) \<and>
    (\<forall>j<length is. i \<le> j \<longrightarrow> R' ! j \<longrightarrow> closed_at is R' j)"
  using assms
proof (induction "length is - i" arbitrary: i R)
  case (Suc d)
  then have i: "i < length is" by simp
  then have dr: "drop i is = is ! i # drop (Suc i) is" by (simp add: Cons_nth_drop_Suc)
  with Suc.prems(1) obtain R1 where R1: "reach_step (length is) i (is ! i) R = Inr R1"
    and R': "reach_pass (length is) (Suc i) (drop (Suc i) is) R1 = Inr R'"
    by (auto split: sum.splits)
  from Suc.prems(3) i have "instr_forward i (is ! i)" by (simp add: forward_only_def)
  note f1 = reach_step_forward [OF R1 i Suc.prems(2) this]
  have f2: "length R' = length is \<and> (\<forall>j<Suc i. R' ! j = R1 ! j) \<and> (\<forall>j. R1 ! j \<longrightarrow> R' ! j) \<and>
    (\<forall>j<length is. Suc i \<le> j \<longrightarrow> R' ! j \<longrightarrow> closed_at is R' j)"
    using Suc.hyps(2) i f1 Suc.prems(3) by (intro Suc.hyps(1) R') auto
  have "closed_at is R' i" if "R' ! i"
  proof -
    have "R1 ! i = R ! i" "R' ! i = R1 ! i" using f1 f2 by auto
    with that f1 have "closed_at is R1 i" by simp
    with f2 show ?thesis by (blast intro: closed_at_mono)
  qed
  then have "closed_at is R' j" if "j < length is" "i \<le> j" "R' ! j" for j
    using that f2 by (cases "i = j") auto
  with f1 f2 show ?case by auto
next
  case 0
  then show ?case by auto
qed

lemma ret_pass_spec:
  "ret_pass i xs = Inr rets \<Longrightarrow>
   (\<forall>x\<in>set xs. instr_opcode x \<noteq> None) \<and> (\<forall>k. k \<in> set rets \<longleftrightarrow> (\<exists>j<length xs. k = i + j \<and> instr_opcode (xs ! j) = Some RET))"
proof (induction xs arbitrary: i rets)
  case (Cons x xs)
  then obtain op rs where o: "instr_opcode x = Some op" and r: "ret_pass (Suc i) xs = Inr rs"
    and e: "rets = (if op = RET then i # rs else rs)"
    by (auto split: option.splits sum.splits)
  have ex: "(\<exists>j<length (x # xs). k = i + j \<and> instr_opcode ((x # xs) ! j) = Some RET) \<longleftrightarrow>
      (k = i \<and> op = RET) \<or> (\<exists>j<length xs. k = Suc i + j \<and> instr_opcode (xs ! j) = Some RET)" for k
    using o by (auto simp: less_Suc_eq_0_disj)
  from Cons.IH [OF r] o show ?case unfolding ex by (auto simp: e)
qed simp

text \<open>What the validator establishes for a program that only jumps forward.\<close>

lemma validate_forward:
  assumes "validate is p m = Inr ()" "forward_only is"
  obtains R last_ret where "R ! 0" "is \<noteq> []" "last_ret < length is" "3 * length is \<le> unat m"
    "instr_opcode (is ! last_ret) = Some RET"
    "\<And>j. j < length is \<Longrightarrow> R ! j \<Longrightarrow> j \<le> last_ret \<and> closed_at is R j"
proof -
  let ?R0 = "(replicate (length is) False)[0 := True]"
  from assms(1) obtain rets R where ne: "is \<noteq> []" and rets: "ret_pass 0 is = Inr rets" "rets \<noteq> []"
    and R: "reach_pass (length is) 0 is ?R0 = Inr R"
    and last: "\<not> (last rets < length is - 1 \<and> list_ex (\<lambda>b. b) (drop (last rets + 1) R))"
    and m: "length is * 3 \<le> unat m"
    by (auto simp: validate_def Let_def not_less split: sum.splits if_splits)
  have f: "length R = length is \<and> (\<forall>j. ?R0 ! j \<longrightarrow> R ! j) \<and> (\<forall>j<length is. R ! j \<longrightarrow> closed_at is R j)"
    using reach_pass_forward [of "is" 0 ?R0 R] R assms(2) by simp
  have "last rets \<in> set rets" using rets(2) by simp
  then have l: "last rets < length is" "instr_opcode (is ! last rets) = Some RET"
    using ret_pass_spec [OF rets(1)] by auto
  have "j \<le> last rets" if "j < length is" "R ! j" for j
  proof (rule ccontr)
    assume "\<not> j \<le> last rets"
    then have "R ! j = drop (last rets + 1) R ! (j - (last rets + 1))" "j - (last rets + 1) < length (drop (last rets + 1) R)"
      using that f by auto
    with that \<open>\<not> j \<le> last rets\<close> have "last rets < length is - 1" "list_ex (\<lambda>b. b) (drop (last rets + 1) R)"
      by (auto simp: list_ex_length)
    with last show False by simp
  qed
  moreover have "R ! 0" using f ne by (auto simp: nth_list_update)
  ultimately show ?thesis using that [of R "last rets"] ne l f m by (simp add: mult.commute)
qed

lemma vm_step_forward:
  assumes "closed_at is R (vm_pc s)" "instr_forward (vm_pc s) (is ! vm_pc s)" "vm_step is s = (t, r)"
    "vm_pc s \<le> last_ret" "last_ret < length is" "instr_opcode (is ! last_ret) = Some RET" "\<not> vm_halted s"
  shows "r = None \<and> (vm_halted t \<or> vm_pc s < vm_pc t \<and> vm_pc t < length is \<and> R ! vm_pc t)"
proof -
  let ?i = "is ! vm_pc s"
  from assms(1) obtain op where op: "instr_opcode ?i = Some op"
    "op \<in> {JZ, JMP} \<longrightarrow> unat (jump_target ?i) < length is \<and> R ! unat (jump_target ?i)"
    "op \<notin> {RET, JMP} \<longrightarrow> vm_pc s + 1 < length is \<longrightarrow> R ! (vm_pc s + 1)"
    by (auto simp: closed_at_def)
  obtain u g where x: "execute_instruction ?i (vm_enter is s) = (u, g)" by force
  obtain f where f: "g = Inr f" "f = Continue \<Longrightarrow> op \<notin> {RET, JMP, CALL, RAISE_CONFLICT}"
    "\<And>t. f = Jump t \<Longrightarrow> op \<in> {JZ, JMP, JNZ, CALL} \<and> t = jump_target ?i"
    using execute_instruction_flow [OF op(1), of "vm_enter is s"] x by (metis snd_conv)
  have fr: "vm_pc u = vm_pc s + 1" "vm_halted u = vm_halted s"
    using execute_instruction_frame [OF x] by (simp_all add: vm_frame_def)
  show ?thesis
  proof (cases f)
    case Continue
    with f op(1) assms(6) have "vm_pc s \<noteq> last_ret" by auto
    with assms(4,5) have "vm_pc s + 1 < length is" by simp
    with op(3) f(2) Continue assms(3) x f(1) fr show ?thesis by (simp add: vm_step_alt)
  next
    case Halt
    with assms(3) x f(1) show ?thesis by (auto simp: vm_step_alt)
  next
    case (Jump target)
    with f(3) assms(2) op have "op \<in> {JZ, JMP}" "target = jump_target ?i" "vm_pc s < unat target"
      by (auto simp: instr_forward_def)
    with op(2) assms(3) x f(1) Jump show ?thesis by (auto simp: vm_step_alt split: if_splits)
  qed
qed

lemma vm_loop_forward:
  assumes R: "\<And>j. j < length is \<Longrightarrow> R ! j \<Longrightarrow> j \<le> last_ret \<and> closed_at is R j"
    and ret: "last_ret < length is" "instr_opcode (is ! last_ret) = Some RET"
    and fwd: "forward_only is" and m: "length is \<le> unat (vm_max_steps s)"
    and s: "\<not> vm_halted s" "vm_pc s < length is" "R ! vm_pc s" "unat (vm_step_count s) \<le> vm_pc s"
  shows "\<exists>t. vm_loop is s = Some (t, None) \<and> vm_halted t \<and> unat (vm_step_count t) \<le> length is"
  using m s
proof (induction "length is - vm_pc s" arbitrary: s rule: less_induct)
  case less
  let ?u = "s\<lparr>vm_step_count := vm_step_count s + 1\<rparr>"
  have c: "unat (vm_step_count s + 1) = unat (vm_step_count s) + 1"
    using less.prems unat_bounds(3) [of "vm_max_steps s"] by (simp add: unat_word_ariths)
  then have u: "vm_tick s = (?u, True)"
    using less.prems by (intro vm_tick_ok) (simp add: word_le_nat_alt)
  obtain v f where v: "vm_step is ?u = (v, f)" by force
  have "f = None \<and> (vm_halted v \<or> vm_pc ?u < vm_pc v \<and> vm_pc v < length is \<and> R ! vm_pc v)"
    using less.prems R ret fwd by (intro vm_step_forward [OF _ _ v]) (auto simp: forward_only_def)
  then have f: "f = None" "vm_halted v \<or> vm_pc s < vm_pc v \<and> vm_pc v < length is \<and> R ! vm_pc v" by simp_all
  have fv: "vm_env v = vm_env s" "vm_step_count v = vm_step_count s + 1"
    using vm_step_frame [OF v] by simp_all
  have l: "vm_loop is s = vm_loop is v"
    using less.prems u v f(1) by (subst vm_loop.simps) simp
  show ?case
  proof (cases "vm_halted v")
    case True
    then have "vm_loop is v = Some (v, None)" by (subst vm_loop.simps) simp
    with True fv c less.prems l show ?thesis by simp
  next
    case False
    then have "\<exists>t. vm_loop is v = Some (t, None) \<and> vm_halted t \<and> unat (vm_step_count t) \<le> length is"
      using f(2) fv c less.prems vm_env_max [OF fv(1)] by (intro less.hyps) auto
    with l show ?thesis by simp
  qed
qed

text \<open>
  C3: A program the validator accepts, whose jumps all go forward and that uses neither JNZ nor CALL,
  runs to its end without an error: it halts on a RET or on a failed check, after at most as many
  steps as it has instructions.
\<close>

theorem vm_forward_sound:
  assumes "validate is (length const_pool) m = Inr ()" "forward_only is"
  shows "\<exists>t. vm_execute is (vm_new const_pool av cv qv ec m) = Some (t, Inr (vm_result t)) \<and>
    vm_halted t \<and> unat (vm_step_count t) \<le> length is"
proof -
  let ?s = "vm_new const_pool av cv qv ec m"
  obtain R last_ret where v: "R ! 0" "is \<noteq> []" "last_ret < length is" "3 * length is \<le> unat m"
    "instr_opcode (is ! last_ret) = Some RET"
    "\<And>j. j < length is \<Longrightarrow> R ! j \<Longrightarrow> j \<le> last_ret \<and> closed_at is R j"
    using validate_forward [OF assms] by blast
  have s: "vm_max_steps ?s = m" "\<not> vm_halted ?s" "vm_pc ?s = 0" "vm_step_count ?s = 0" "vm_const_pool ?s = const_pool"
    by (simp_all add: vm_new_def)
  have "\<exists>t. vm_loop is ?s = Some (t, None) \<and> vm_halted t \<and> unat (vm_step_count t) \<le> length is"
    using v s assms(2) by (intro vm_loop_forward [where R = R and last_ret = last_ret]) auto
  then obtain t where t: "vm_loop is ?s = Some (t, None)" "vm_halted t" "unat (vm_step_count t) \<le> length is"
    by blast
  have "vm_env t = vm_env ?s" using vm_loop_invariant [OF t(1)] by (simp add: s)
  then have "vm_max_steps t = m" using vm_env_max [of t ?s] s(1) by simp
  then have "vm_finish t = (t, Inr (vm_result t))"
    using t(3) v(4) by (simp add: vm_finish_def word_less_nat_alt)
  with t assms(1) show ?thesis by (simp add: vm_execute_def s)
qed

theorem vm_forward_sound_witness:
  "\<forall>av cv qv ec. \<exists>t. vm_execute [instr_new LD_IMM 1 0 5, instr_new JZ 1 3 0, instr_new RET 0 0 0, instr_new RET 2 0 0]
     (vm_new [] av cv qv ec 10000) = Some (t, Inr (vm_result t)) \<and> vm_halted t \<and> unat (vm_step_count t) \<le> 4"
proof -
  let ?is = "[instr_new LD_IMM 1 0 5, instr_new JZ 1 3 0, instr_new RET 0 0 0, instr_new RET 2 0 0]"
  have "validate ?is (length []) 10000 = Inr ()" by code_simp
  moreover have "forward_only ?is" by code_simp
  ultimately show ?thesis using vm_forward_sound [of ?is "[]" 10000] by (simp add: numeral_eq_Suc)
qed

end
