(* ===== verification/Vm_Programs.thy ===== *)
theory Vm_Programs
  imports Vm_Forward
begin

text \<open>
  Runs evaluated: programs the validator lets through although they leave its fragment, the
  decisions of the five built-in programs, and the transparency of tracing.
\<close>

section \<open>Evaluating runs\<close>

lemma vm_run_step:
  "\<not> vm_halted s \<Longrightarrow> vm_pc s < length is \<Longrightarrow> vm_step_count s + 1 \<le> vm_max_steps s \<Longrightarrow>
   vm_loop is s =
     (if snd (vm_step is (s\<lparr>vm_step_count := vm_step_count s + 1\<rparr>)) = None
      then vm_loop is (fst (vm_step is (s\<lparr>vm_step_count := vm_step_count s + 1\<rparr>)))
      else Some (vm_step is (s\<lparr>vm_step_count := vm_step_count s + 1\<rparr>)))"
  by (subst vm_loop.simps) (simp add: vm_tick_ok split: prod.splits)

lemma vm_run_end: "vm_halted s \<or> vm_pc s \<ge> length is \<Longrightarrow> vm_loop is s = Some (s, None)"
  by (subst vm_loop.simps) auto

lemma instr_new_sel [simp]:
  "instr_opcode (instr_new op a b imm) = Some op" "in_op (instr_new op a b imm) = opcode_to_u16 op"
  "in_a (instr_new op a b imm) = a" "in_b (instr_new op a b imm) = b" "in_imm (instr_new op a b imm) = imm"
  "reg_a (instr_new op a b imm) = a AND 0xF" "reg_b (instr_new op a b imm) = ucast (b AND 0xF)"
  "const_index (instr_new op a b imm) = b" "jump_target (instr_new op a b imm) = b"
  "imm_u64 (instr_new op a b imm) = imm" "imm_low (instr_new op a b imm) = ucast imm"
  "imm_high (instr_new op a b imm) = ucast (drop_bit 32 imm)"
  by (simp_all add: instr_new_def reg_a_def reg_b_def const_index_def jump_target_def imm_u64_def imm_low_def imm_high_def)

lemmas exec_instr =
  execute_instruction_def [of "instr_new LD_ATOM_META a b imm" for a b imm, simplified]
  execute_instruction_def [of "instr_new LD_CLAIM a b imm" for a b imm, simplified]
  execute_instruction_def [of "instr_new LD_QC a b imm" for a b imm, simplified]
  execute_instruction_def [of "instr_new LD_CTX a b imm" for a b imm, simplified]
  execute_instruction_def [of "instr_new LD_IMM a b imm" for a b imm, simplified]
  execute_instruction_def [of "instr_new EQ a b imm" for a b imm, simplified]
  execute_instruction_def [of "instr_new LT a b imm" for a b imm, simplified]
  execute_instruction_def [of "instr_new LE a b imm" for a b imm, simplified]
  execute_instruction_def [of "instr_new GT a b imm" for a b imm, simplified]
  execute_instruction_def [of "instr_new GE a b imm" for a b imm, simplified]
  execute_instruction_def [of "instr_new IN_RANGE a b imm" for a b imm, simplified]
  execute_instruction_def [of "instr_new HAS_BIT a b imm" for a b imm, simplified]
  execute_instruction_def [of "instr_new IS_TAG a b imm" for a b imm, simplified]
  execute_instruction_def [of "instr_new CHK_TIME a b imm" for a b imm, simplified]
  execute_instruction_def [of "instr_new CHK_TRUST a b imm" for a b imm, simplified]
  execute_instruction_def [of "instr_new CHK_DOMAIN a b imm" for a b imm, simplified]
  execute_instruction_def [of "instr_new CHK_SOURCE a b imm" for a b imm, simplified]
  execute_instruction_def [of "instr_new CTX_PROBE a b imm" for a b imm, simplified]
  execute_instruction_def [of "instr_new RAISE_CONFLICT a b imm" for a b imm, simplified]
  execute_instruction_def [of "instr_new AND_OP a b imm" for a b imm, simplified]
  execute_instruction_def [of "instr_new NOT_OP a b imm" for a b imm, simplified]
  execute_instruction_def [of "instr_new JZ a b imm" for a b imm, simplified]
  execute_instruction_def [of "instr_new JMP a b imm" for a b imm, simplified]
  execute_instruction_def [of "instr_new RET a b imm" for a b imm, simplified]
  execute_instruction_def [of "instr_new JNZ a b imm" for a b imm, simplified]
  execute_instruction_def [of "instr_new CALL a b imm" for a b imm, simplified]

lemma vm_trace_off [simp]: "\<not> vm_trace_enabled s \<Longrightarrow> vm_trace m s = s"
  by (simp add: vm_trace_def)

lemmas vm_eval = vm_run_step vm_run_end vm_step_def exec_instr load_into_def binary_op_def
  vm_set_reg_def vm_get_reg_def vm_fail_def vm_new_def vm_finish_def Let_def

lemmas validate_eval = validate_def reach_step_def Let_def

definition fall_through :: "Instruction list" where
  "fall_through = [instr_new LD_IMM 1 0 1, instr_new JNZ 1 3 0, instr_new RET 2 0 0, instr_new LD_IMM 2 0 0]"

definition stray_jump :: "Instruction list" where
  "stray_jump = [instr_new JMP 0 2 0, instr_new JMP 0 99 0, instr_new JMP 0 1 0, instr_new RET 0 0 0]"

lemma vm_execute_new:
  "validate is (length cp) m = Inr () \<Longrightarrow>
   vm_execute is (vm_new cp av cv qv ec m) =
     (case vm_loop is (vm_new cp av cv qv ec m) of
        None \<Rightarrow> None | Some (s, Some e) \<Rightarrow> Some (s, Inl e) | Some (s, None) \<Rightarrow> Some (vm_finish s))"
  by (simp add: vm_execute_def vm_new_def)


text \<open>
  The validator accepts programs that leave the code behind its back: one falls off the end
  after a JNZ, which counts as a pass, the other reaches a jump out of bounds through a backward jump.
\<close>

theorem validator_misses:
  "validate fall_through n 10000 = Inr () \<and>
   map_option snd (vm_execute fall_through (vm_new cp av cv qv ec 10000)) = Some (Inr PASS) \<and>
   validate stray_jump n 10000 = Inr () \<and>
   map_option snd (vm_execute stray_jump (vm_new cp av cv qv ec 10000)) = Some (Inl (JumpTargetOutOfBounds 99))"
proof -
  have v: "validate fall_through n 10000 = Inr ()" "validate stray_jump n 10000 = Inr ()" for n
    by (simp_all add: validate_eval fall_through_def stray_jump_def)
  have "map_option snd (vm_execute fall_through (vm_new cp av cv qv ec 10000)) = Some (Inr PASS)"
    unfolding vm_execute_new [OF v(1)] unfolding fall_through_def by (simp add: vm_eval)
  moreover have "map_option snd (vm_execute stray_jump (vm_new cp av cv qv ec 10000)) = Some (Inl (JumpTargetOutOfBounds 99))"
    unfolding vm_execute_new [OF v(2)] unfolding stray_jump_def by (simp add: vm_eval)
  ultimately show ?thesis by (simp add: v)
qed

section \<open>The built-in programs\<close>

definition run_program :: "Instruction list \<times> ConstValue list \<Rightarrow> AtomView \<Rightarrow> CtxView \<Rightarrow> QueryConstraintsView \<Rightarrow>
    ExecutionContext \<Rightarrow> u32 \<Rightarrow> ((VmError + InvariantResult) \<times> ReasonCode) option" where
  "run_program p av cv qv ec m =
     map_option (\<lambda>(t, r). (r, vm_reason t)) (vm_execute (fst p) (vm_new (snd p) av cv qv ec m))"

lemma run_program_new:
  "validate is (length cp) m = Inr () \<Longrightarrow> run_program (is, cp) av cv qv ec m =
     map_option (\<lambda>(t, r). (r, vm_reason t)) (case vm_loop is (vm_new cp av cv qv ec m) of
        None \<Rightarrow> None | Some (s, Some e) \<Rightarrow> Some (s, Inl e) | Some (s, None) \<Rightarrow> Some (vm_finish s))"
  by (simp add: run_program_def vm_execute_new)

lemma budget_30: "30 \<le> m \<Longrightarrow> 1 \<le> m \<and> 2 \<le> m \<and> 3 \<le> m \<and> 4 \<le> m \<and> 5 \<le> m \<and> 6 \<le> m \<and> 7 \<le> m \<and> 8 \<le> m \<and> 9 \<le> m \<and> 10 \<le> m \<and>
    \<not> m < 1 \<and> \<not> m < 2 \<and> \<not> m < 3 \<and> \<not> m < 4 \<and> \<not> m < 5 \<and> \<not> m < 6 \<and> \<not> m < 7 \<and> \<not> m < 8 \<and> \<not> m < 9 \<and> \<not> m < 10"
  for m :: u32
  by (simp add: word_le_nat_alt word_less_nat_alt)

definition time_ok :: "AtomView \<Rightarrow> QueryConstraintsView \<Rightarrow> bool" where
  "time_ok av qv \<longleftrightarrow> av_valid_from_ns av < qv_time_to_ns qv \<and> qv_time_from_ns qv < av_valid_to_ns av"

lemma ucast_16_64_mono [simp]: "ucast x \<le> (ucast y :: u64) \<longleftrightarrow> x \<le> y" for x y :: u16
proof -
  have "unat (ucast z :: u64) = unat z" for z :: u16
    using unat_bounds(2) [of z] by (simp add: unsigned_ucast_eq take_bit_nat_eq_self)
  then show ?thesis by (simp add: word_le_nat_alt)
qed

lemma time_range_program_runs:
  assumes m: "30 \<le> m"
  shows "run_program build_time_range_program av cv qv ec m =
     Some (Inr (if time_ok av qv then PASS else FAIL_HARD), TIME_INVALID)"
proof -
  have v: "validate (fst build_time_range_program) (length (snd build_time_range_program)) m = Inr ()"
    using m by (simp add: time_range_program validate_eval word_le_nat_alt)
  note b = budget_30 [OF m]
  show ?thesis
    unfolding time_range_program run_program_new [OF v [unfolded time_range_program fst_conv snd_conv]]
    by (cases "av_valid_from_ns av < qv_time_to_ns qv"; cases "qv_time_from_ns qv < av_valid_to_ns av")
      (simp_all add: vm_eval b time_ok_def meta_operand_def qc_operand_def inv_result_from_u8_def)
qed

lemma trust_threshold_program_runs:
  assumes m: "30 \<le> m"
  shows "run_program build_trust_threshold_program av cv qv ec m =
     Some (Inr (if qv_trust_min qv \<le> av_trust_level av then PASS else FAIL_HARD), TIME_INVALID)"
proof -
  have v: "validate (fst build_trust_threshold_program) (length (snd build_trust_threshold_program)) m = Inr ()"
    using m by (simp add: trust_threshold_program validate_eval word_le_nat_alt)
  note b = budget_30 [OF m]
  show ?thesis
    unfolding trust_threshold_program run_program_new [OF v [unfolded trust_threshold_program fst_conv snd_conv]]
    by (cases "qv_trust_min qv \<le> av_trust_level av")
      (simp_all add: vm_eval b meta_operand_def qc_operand_def inv_result_from_u8_def)
qed

text \<open>The first of the checks that fails, in the order of the code.\<close>

definition first_failure :: "AtomView \<Rightarrow> QueryConstraintsView \<Rightarrow> ReasonCode option" where
  "first_failure av qv =
     (if \<not> time_ok av qv then Some TIME_INVALID
      else if \<not> av_trust_meets av (qv_trust_min qv) then Some TRUST_TOO_LOW
      else if \<not> av_domain_matches av (qv_domain_mask qv) then Some DOMAIN_MISMATCH
      else None)"

lemma checks_as_coded:
  "av_trust_meets av t \<longleftrightarrow> \<not> av_trust_level av < t"
  "av_domain_matches av d \<longleftrightarrow> \<not> (d \<noteq> 0 \<and> av_domain_mask av AND d = 0)"
  by (auto simp: av_trust_meets_def av_domain_matches_def)

lemma basic_program_runs:
  assumes m: "30 \<le> m"
  shows "run_program build_basic_invariant_program av cv qv ec m =
     Some (case first_failure av qv of Some r \<Rightarrow> (Inr FAIL_HARD, r) | None \<Rightarrow> (Inr PASS, TIME_INVALID))"
proof -
  have v: "validate (fst build_basic_invariant_program) (length (snd build_basic_invariant_program)) m = Inr ()"
    using m by (simp add: basic_program validate_eval word_le_nat_alt)
  note b = budget_30 [OF m]
  show ?thesis
    unfolding basic_program run_program_new [OF v [unfolded basic_program fst_conv snd_conv]]
    by (cases "av_valid_from_ns av < qv_time_to_ns qv"; cases "qv_time_from_ns qv < av_valid_to_ns av";
        cases "av_trust_level av < qv_trust_min qv"; cases "qv_domain_mask qv = 0";
        cases "av_domain_mask av AND qv_domain_mask qv = 0")
      (simp_all add: vm_eval b first_failure_def time_ok_def checks_as_coded inv_result_from_u8_def)
qed

lemma conflict_probe_program_runs:
  assumes m: "30 \<le> m"
  shows "run_program build_conflict_probe_program av cv qv ec m =
     Some (case ix_get_conflict (ec_ctx_index ec) (ucast (cv_ctx_id cv)) of
       None \<Rightarrow> (Inr PASS, TIME_INVALID)
     | Some info \<Rightarrow> (Inr (if ci_severity info = Hard then FAIL_HARD else NEED_BRANCH), CONFLICT_FOUND))"
proof -
  have v: "validate (fst build_conflict_probe_program) (length (snd build_conflict_probe_program)) m = Inr ()"
    using m by (simp add: conflict_probe_program validate_eval word_le_nat_alt)
  note b = budget_30 [OF m]
  show ?thesis
    unfolding conflict_probe_program run_program_new [OF v [unfolded conflict_probe_program fst_conv snd_conv]]
    by (cases "ix_get_conflict (ec_ctx_index ec) (ucast (cv_ctx_id cv))")
      (auto simp: vm_eval b ctx_operand_def ec_has_conflict_def ec_conflict_severity_def ix_has_conflict_def
        ix_get_conflict_def inv_result_from_u8_def split: ConflictSeverity.splits)
qed

definition source_check :: "AtomView \<Rightarrow> ExecutionContext \<Rightarrow> u8 \<Rightarrow> bool" where
  "source_check av ec tag = (case ec_source_allowlist ec of
     Some list \<Rightarrow> av_source_id av \<in> set list | None \<Rightarrow> av_source_id av = ucast tag)"

definition first_claim_tag :: "AtomView \<Rightarrow> u8" where
  "first_claim_tag av = (case av_claims av of [] \<Rightarrow> 0 | c # _ \<Rightarrow> cd_obj_tag c)"

lemma ucast_8_64_32: "ucast (ucast (x :: u8) :: u64) = (ucast x :: u32)"
  by (rule bit_word_eqI) (auto simp: bit_simps dest: bit_imp_le_length)

lemma ucast_8_64_8 [simp]: "ucast (ucast (x :: u8) :: u64) = x"
  by (rule bit_word_eqI) (auto simp: bit_simps dest: bit_imp_le_length)

lemma full_validation_program_runs:
  assumes m: "30 \<le> m"
  shows "run_program (build_full_validation_program tag) av cv qv ec m =
     Some (case first_failure av qv of
         Some r \<Rightarrow> (Inr FAIL_HARD, r)
       | None \<Rightarrow>
           if \<not> source_check av ec tag then (Inr FAIL_HARD, SOURCE_DENIED)
           else (Inr (if first_claim_tag av = tag then PASS else FAIL_HARD), TIME_INVALID))"
proof -
  have v: "validate (fst (build_full_validation_program tag)) (length (snd (build_full_validation_program tag))) m = Inr ()"
    using m by (simp add: full_validation_program validate_eval word_le_nat_alt)
  note b = budget_30 [OF m]
  have src: "source_allowed s 0 = source_check av ec tag"
    if "vm_atom_view s = av" "vm_exec_ctx s = ec" "vm_const_pool s = [Const_Tag tag]" for s
    using that by (simp add: source_allowed_def source_check_def vm_get_const_def const_as_u64_def ucast_8_64_32
        split: option.splits)
  have claim: "claim_operand s 0x20001 = ucast (first_claim_tag av)" if "vm_atom_view s = av" for s
    using that by (simp add: claim_operand_def first_claim_tag_def av_get_claim_def nth_Cons' split: list.splits)
  show ?thesis
    unfolding full_validation_program run_program_new [OF v [unfolded full_validation_program fst_conv snd_conv]]
    by (cases "av_valid_from_ns av < qv_time_to_ns qv"; cases "qv_time_from_ns qv < av_valid_to_ns av";
        cases "av_trust_level av < qv_trust_min qv"; cases "qv_domain_mask qv = 0";
        cases "av_domain_mask av AND qv_domain_mask qv = 0";
        cases "source_check av ec tag"; cases "first_claim_tag av = tag")
      (simp_all add: vm_eval b first_failure_def time_ok_def checks_as_coded inv_result_from_u8_def src claim ucast_inj_64)
qed

text \<open>
  C26: What the five built-in programs decide within a budget of at least 30 steps, for every atom, context and
  constraints: the basic
  one names the first failing check, the conflict probe looks the context id up, the full one adds
  the source and the tag of the first claim; a failed comparison reports TIME_INVALID whatever it compared.
\<close>

theorem builtin_programs_decide:
  assumes "30 \<le> m"
  shows "run_program build_basic_invariant_program av cv qv ec m =
       Some (case first_failure av qv of Some r \<Rightarrow> (Inr FAIL_HARD, r) | None \<Rightarrow> (Inr PASS, TIME_INVALID)) \<and>
     run_program build_time_range_program av cv qv ec m =
       Some (Inr (if time_ok av qv then PASS else FAIL_HARD), TIME_INVALID) \<and>
     run_program build_trust_threshold_program av cv qv ec m =
       Some (Inr (if qv_trust_min qv \<le> av_trust_level av then PASS else FAIL_HARD), TIME_INVALID) \<and>
     run_program build_conflict_probe_program av cv qv ec m =
       Some (case ix_get_conflict (ec_ctx_index ec) (ucast (cv_ctx_id cv)) of
           None \<Rightarrow> (Inr PASS, TIME_INVALID)
         | Some info \<Rightarrow> (Inr (if ci_severity info = Hard then FAIL_HARD else NEED_BRANCH), CONFLICT_FOUND)) \<and>
     run_program (build_full_validation_program tag) av cv qv ec m =
       Some (case first_failure av qv of
           Some r \<Rightarrow> (Inr FAIL_HARD, r)
         | None \<Rightarrow>
             if \<not> source_check av ec tag then (Inr FAIL_HARD, SOURCE_DENIED)
             else (Inr (if first_claim_tag av = tag then PASS else FAIL_HARD), TIME_INVALID))"
  using assms by (simp only: basic_program_runs time_range_program_runs trust_threshold_program_runs
      conflict_probe_program_runs full_validation_program_runs)

theorem builtin_programs_decide_witness:
  "\<forall>av cv qv ec. \<exists>r. run_program build_basic_invariant_program av cv qv ec 30 = Some r"
  using builtin_programs_decide [of 30] by simp

section \<open>Tracing\<close>

definition untraced :: "VmInterpreter \<Rightarrow> VmInterpreter" where
  "untraced s = s\<lparr>vm_trace_enabled := False, vm_trace_log := []\<rparr>"

lemma vm_get_const_untraced [simp]: "vm_get_const (untraced s) k = vm_get_const s k"
  by (simp add: untraced_def vm_get_const_def)

lemma untraced_simps [simp]:
  "vm_registers (untraced s) = vm_registers s" "vm_pc (untraced s) = vm_pc s"
  "vm_const_pool (untraced s) = vm_const_pool s" "vm_atom_view (untraced s) = vm_atom_view s"
  "vm_claim_view (untraced s) = vm_claim_view s" "vm_ctx_view (untraced s) = vm_ctx_view s"
  "vm_qc_view (untraced s) = vm_qc_view s" "vm_exec_ctx (untraced s) = vm_exec_ctx s"
  "vm_max_steps (untraced s) = vm_max_steps s" "vm_step_count (untraced s) = vm_step_count s"
  "vm_result (untraced s) = vm_result s" "vm_reason (untraced s) = vm_reason s"
  "vm_halted (untraced s) = vm_halted s" "\<not> vm_trace_enabled (untraced s)"
  "untraced (vm_trace m s) = untraced s" "vm_get_reg (untraced s) r = vm_get_reg s r"
  "vm_set_reg r v (untraced s) = untraced (vm_set_reg r v s)"
  "vm_fail res c (untraced s) = untraced (vm_fail res c s)"
  "claim_operand (untraced s) b = claim_operand s b"
  by (simp_all add: untraced_def vm_trace_def vm_get_reg_def vm_set_reg_def vm_fail_def claim_operand_def Let_def)

lemma source_allowed_untraced [simp]: "source_allowed (untraced s) k = source_allowed s k"
  by (cases "ec_source_allowlist (vm_exec_ctx s)"; cases "vm_get_const s k") (simp_all add: source_allowed_def Let_def)

lemma load_into_untraced [simp]: "load_into nm r v (untraced s) = untraced (load_into nm r v s)"
  by (simp add: load_into_def)

lemma binary_op_untraced [simp]: "binary_op nm y f i (untraced s) = untraced (binary_op nm y f i s)"
  by (simp add: binary_op_def Let_def)

lemma untraced_result [simp]: "(untraced s)\<lparr>vm_result := r\<rparr> = untraced (s\<lparr>vm_result := r\<rparr>)"
  "(untraced s)\<lparr>vm_halted := b\<rparr> = untraced (s\<lparr>vm_halted := b\<rparr>)"
  "(untraced s)\<lparr>vm_pc := p\<rparr> = untraced (s\<lparr>vm_pc := p\<rparr>)"
  "(untraced s)\<lparr>vm_step_count := n\<rparr> = untraced (s\<lparr>vm_step_count := n\<rparr>)"
  "(untraced s)\<lparr>vm_result := r, vm_reason := c\<rparr> = untraced (s\<lparr>vm_result := r, vm_reason := c\<rparr>)"
  "(untraced s)\<lparr>vm_step_count := n, vm_result := r, vm_reason := c, vm_halted := b\<rparr> =
    untraced (s\<lparr>vm_step_count := n, vm_result := r, vm_reason := c, vm_halted := b\<rparr>)"
  by (simp_all add: untraced_def)

lemma execute_instruction_untraced:
  "execute_instruction i (untraced s) = (let (t, r) = execute_instruction i s in (untraced t, r))"
proof (cases "instr_opcode i")
  case (Some op)
  then show ?thesis
    by (cases op) (auto simp: execute_instruction_def Let_def split: option.splits ConflictSeverity.splits)
qed (simp add: execute_instruction_def)

lemma vm_enter_untraced: "vm_enter is (untraced s) = untraced (vm_enter is s)"
  by (simp add: vm_enter_def)

lemma vm_step_untraced: "vm_step is s = (t, r) \<Longrightarrow> vm_step is (untraced s) = (untraced t, r)"
  by (auto simp: vm_step_alt vm_enter_untraced execute_instruction_untraced
      split: prod.splits sum.splits ControlFlow.splits if_splits)

lemma vm_tick_untraced: "vm_tick s = (t, b) \<Longrightarrow> vm_tick (untraced s) = (untraced t, b)"
  unfolding untraced_def by (auto simp: vm_tick_def Let_def split: if_splits)

lemma vm_loop_untraced:
  "vm_loop is s = Some y \<Longrightarrow> vm_loop is (untraced s) = Some (untraced (fst y), snd y)"
proof (induction rule: vm_loop_induct)
  case (ended s)
  then show ?case by (auto simp: vm_run_end not_less)
next
  case (budget s u)
  then show ?case by (subst vm_loop.simps) (simp add: vm_tick_untraced [OF budget(2)])
next
  case (failed s u v e)
  then show ?case
    by (subst vm_loop.simps) (simp add: vm_tick_untraced [OF failed(2)] vm_step_untraced [OF failed(3)])
next
  case (iterate s u v y)
  then show ?case
    by (subst vm_loop.simps) (simp add: vm_tick_untraced [OF iterate(2)] vm_step_untraced [OF iterate(3)])
qed

text \<open>
  Tracing changes nothing but the trace: a traced run ends in the same result and, up to
  its trace, in the same state as an untraced one.
\<close>

theorem tracing_is_transparent:
  assumes "m \<noteq> 0xFFFFFFFF"
  shows "\<exists>t r. vm_execute is (vm_with_tracing (vm_new cp av cv qv ec m)) = Some (t, r) \<and>
    vm_execute is (vm_new cp av cv qv ec m) = Some (untraced t, r)"
proof -
  let ?t = "vm_with_tracing (vm_new cp av cv qv ec m)"
  have u: "untraced ?t = vm_new cp av cv qv ec m" "vm_const_pool ?t = cp" "vm_max_steps ?t = m" "vm_step_count ?t = 0"
    by (simp_all add: untraced_def vm_with_tracing_def vm_new_def)
  have c: "vm_const_pool (vm_new cp av cv qv ec m) = cp" "vm_max_steps (vm_new cp av cv qv ec m) = m"
    by (simp_all add: vm_new_def)
  show ?thesis
  proof (cases "validate is (length cp) m")
    case (Inl e)
    then show ?thesis by (simp add: vm_execute_def u c)
  next
    case (Inr x)
    have "\<exists>t e. vm_loop is ?t = Some (t, e) \<and> unat (vm_step_count t) \<le> unat (vm_max_steps ?t) + 1"
      by (rule vm_loop_terminates) (use assms max_u32 u in simp_all)
    then obtain t e where t: "vm_loop is ?t = Some (t, e)" by blast
    have f: "vm_finish (untraced t) = (untraced (fst (vm_finish t)), snd (vm_finish t))" for t
      unfolding untraced_def by (simp add: vm_finish_def Let_def)
    from vm_loop_untraced [OF t] have "vm_loop is (vm_new cp av cv qv ec m) = Some (untraced t, e)" by (simp add: u)
    with Inr have "vm_execute is (vm_new cp av cv qv ec m) =
        Some (case e of None \<Rightarrow> (untraced (fst (vm_finish t)), snd (vm_finish t)) | Some x \<Rightarrow> (untraced t, Inl x))"
      by (simp add: vm_execute_def c f split: option.splits)
    moreover from t Inr have "vm_execute is ?t =
        Some (case e of None \<Rightarrow> (fst (vm_finish t), snd (vm_finish t)) | Some x \<Rightarrow> (t, Inl x))"
      by (simp add: vm_execute_def u split: option.splits)
    ultimately show ?thesis by (cases e; cases "vm_finish t") simp_all
  qed
qed

theorem tracing_is_transparent_witness:
  "\<forall>av cv qv ec. \<exists>t r. vm_execute jump_to_self (vm_new [] av cv qv ec 5) = Some (untraced t, r)"
  using tracing_is_transparent [of 5 jump_to_self "[]"] by fastforce

end
