(* ===== verification/Invariants.thy ===== *)
theory Invariants
  imports Atom_Body
begin

text \<open>
  The INVARIANTS section of an atom (\<open>src/cas/invariants.rs\<close>): its 32-byte header, the
  constant pool, the bytecode of 16-byte instructions, and the conversions between a section
  and its bytes. What \<open>to_bytes\<close> writes, \<open>from_bytes\<close> reads back, and instructions emitted one
  by one are decoded in order.
\<close>

section \<open>Header\<close>

definition INVARIANTS_MAGIC :: u32 where "INVARIANTS_MAGIC = 0x494E5631"
definition INVARIANTS_HEADER_SIZE :: nat where "INVARIANTS_HEADER_SIZE = 32"
definition INSTRUCTION_SIZE :: nat where "INSTRUCTION_SIZE = 16"
definition INV_CONST_POOL_ALIGNMENT :: nat where "INV_CONST_POOL_ALIGNMENT = 16"

lemmas inv_constants = INVARIANTS_MAGIC_def INVARIANTS_HEADER_SIZE_def INSTRUCTION_SIZE_def
  INV_CONST_POOL_ALIGNMENT_def

record InvariantsHeader =
  ih_magic :: u32
  ih_inv_count :: u32
  ih_const_pool_count :: u32
  ih_reserved :: u32
  ih_off_const_pool :: u64
  ih_off_code :: u64

definition inv_header_new :: "u32 \<Rightarrow> u32 \<Rightarrow> u64 \<Rightarrow> u64 \<Rightarrow> InvariantsHeader" where
  "inv_header_new inv_count const_pool_count off_const_pool off_code =
     \<lparr>ih_magic = INVARIANTS_MAGIC, ih_inv_count = inv_count, ih_const_pool_count = const_pool_count,
      ih_reserved = 0, ih_off_const_pool = off_const_pool, ih_off_code = off_code\<rparr>"

definition inv_header_to_bytes :: "InvariantsHeader \<Rightarrow> bytes" where
  "inv_header_to_bytes h =
     u32_le (ih_magic h) @ u32_le (ih_inv_count h) @ u32_le (ih_const_pool_count h) @
     u32_le (ih_reserved h) @ u64_le (ih_off_const_pool h) @ u64_le (ih_off_code h)"

definition inv_header_from_bytes :: "bytes \<Rightarrow> InvariantsHeader option" where
  "inv_header_from_bytes bs =
     (if length bs < INVARIANTS_HEADER_SIZE then None
      else Some
       \<lparr>ih_magic = u32_at 0 bs, ih_inv_count = u32_at 4 bs, ih_const_pool_count = u32_at 8 bs,
        ih_reserved = u32_at 12 bs, ih_off_const_pool = u64_at 16 bs, ih_off_code = u64_at 24 bs\<rparr>)"

section \<open>Constant pool\<close>

datatype ConstPoolKind = CK_SYM | CK_U64 | CK_I64 | CK_F64 | CK_BYTES | CK_REFID | CK_TAG

primrec const_kind_to_u8 :: "ConstPoolKind \<Rightarrow> u8" where
    "const_kind_to_u8 CK_SYM = 0"
  | "const_kind_to_u8 CK_U64 = 1"
  | "const_kind_to_u8 CK_I64 = 2"
  | "const_kind_to_u8 CK_F64 = 3"
  | "const_kind_to_u8 CK_BYTES = 4"
  | "const_kind_to_u8 CK_REFID = 5"
  | "const_kind_to_u8 CK_TAG = 6"

definition const_kind_from_u8 :: "u8 \<Rightarrow> ConstPoolKind option" where
  "const_kind_from_u8 = map_of
     [(0, CK_SYM), (1, CK_U64), (2, CK_I64), (3, CK_F64), (4, CK_BYTES), (5, CK_REFID), (6, CK_TAG)]"

primrec const_kind_fixed_size :: "ConstPoolKind \<Rightarrow> nat option" where
    "const_kind_fixed_size CK_SYM = None"
  | "const_kind_fixed_size CK_U64 = Some 8"
  | "const_kind_fixed_size CK_I64 = Some 8"
  | "const_kind_fixed_size CK_F64 = Some 8"
  | "const_kind_fixed_size CK_BYTES = None"
  | "const_kind_fixed_size CK_REFID = Some 32"
  | "const_kind_fixed_size CK_TAG = Some 4"

definition const_kind_is_variable_length :: "ConstPoolKind \<Rightarrow> bool" where
  "const_kind_is_variable_length k \<longleftrightarrow> k \<in> {CK_SYM, CK_BYTES}"

record ConstPoolEntry =
  cp_kind :: ConstPoolKind
  cp_data :: bytes

definition entry_serialized_size :: "ConstPoolEntry \<Rightarrow> nat" where
  "entry_serialized_size e = 1 + 4 + length (cp_data e)"

definition entry_to_bytes :: "ConstPoolEntry \<Rightarrow> bytes" where
  "entry_to_bytes e = const_kind_to_u8 (cp_kind e) # len_le (length (cp_data e)) @ cp_data e"

text \<open>The result carries the number of bytes consumed.\<close>

definition entry_from_bytes :: "bytes \<Rightarrow> CasError + ConstPoolEntry \<times> nat" where
  "entry_from_bytes bs =
     (if length bs < 5 then Inl (BufferTooSmall 5 (length bs))
      else case const_kind_from_u8 (bs ! 0) of
        None \<Rightarrow> Inl (CasIo ''invalid const pool kind'')
      | Some kind \<Rightarrow>
          (let len = u32_at 1 bs; total = 5 + unat len in
           if length bs < total then Inl (BufferTooSmall total (length bs))
           else Inr (\<lparr>cp_kind = kind, cp_data = take (total - 5) (drop 5 bs)\<rparr>, total)))"

section \<open>The section\<close>

record InvariantsSection =
  is_const_pool :: "ConstPoolEntry list"
  is_code :: bytes
  is_inv_count :: u32

definition inv_new :: InvariantsSection where
  "inv_new = \<lparr>is_const_pool = [], is_code = [], is_inv_count = 0\<rparr>"

definition inv_add_const :: "ConstPoolKind \<Rightarrow> bytes \<Rightarrow> InvariantsSection \<Rightarrow> InvariantsSection \<times> u32" where
  "inv_add_const kind data s =
     (s\<lparr>is_const_pool := is_const_pool s @ [\<lparr>cp_kind = kind, cp_data = data\<rparr>]\<rparr>,
      of_nat (length (is_const_pool s)))"

definition inv_add_const_sym :: "u32 \<Rightarrow> InvariantsSection \<Rightarrow> InvariantsSection \<times> u32" where
  "inv_add_const_sym sym_id = inv_add_const CK_SYM (u32_le sym_id)"

definition inv_add_const_u64 :: "u64 \<Rightarrow> InvariantsSection \<Rightarrow> InvariantsSection \<times> u32" where
  "inv_add_const_u64 v = inv_add_const CK_U64 (u64_le v)"

definition inv_add_const_i64 :: "i64 \<Rightarrow> InvariantsSection \<Rightarrow> InvariantsSection \<times> u32" where
  "inv_add_const_i64 v = inv_add_const CK_I64 (u64_le v)"

text \<open>A float is its 64-bit pattern; its \<open>to_le_bytes\<close> are those of the pattern.\<close>

definition inv_add_const_f64 :: "u64 \<Rightarrow> InvariantsSection \<Rightarrow> InvariantsSection \<times> u32" where
  "inv_add_const_f64 v_bits = inv_add_const CK_F64 (u64_le v_bits)"

definition inv_get_const :: "InvariantsSection \<Rightarrow> u32 \<Rightarrow> ConstPoolEntry option" where
  "inv_get_const s idx =
     (if unat idx < length (is_const_pool s) then Some (is_const_pool s ! unat idx) else None)"

definition inv_emit_instruction :: "u16 \<Rightarrow> u16 \<Rightarrow> u32 \<Rightarrow> u64 \<Rightarrow> InvariantsSection \<Rightarrow> InvariantsSection" where
  "inv_emit_instruction op a b imm s =
     s\<lparr>is_code := is_code s @ u16_le op @ u16_le a @ u32_le b @ u64_le imm\<rparr>"

definition inv_to_bytes :: "InvariantsSection \<Rightarrow> bytes" where
  "inv_to_bytes s =
     (let header_size = INVARIANTS_HEADER_SIZE;
          const_pool_size = sum_list (map entry_serialized_size (is_const_pool s));
          after_const = header_size + const_pool_size;
          padding = (if after_const mod INV_CONST_POOL_ALIGNMENT \<noteq> 0
                     then INV_CONST_POOL_ALIGNMENT - after_const mod INV_CONST_POOL_ALIGNMENT else 0);
          off_const_pool = of_nat header_size;
          off_code = of_nat (header_size + const_pool_size + padding);
          header = inv_header_new (is_inv_count s) (of_nat (length (is_const_pool s)))
                     off_const_pool off_code
      in inv_header_to_bytes header @ concat (map entry_to_bytes (is_const_pool s)) @
         replicate padding 0 @ is_code s)"

primrec read_pool :: "nat \<Rightarrow> nat \<Rightarrow> bytes \<Rightarrow> CasError + ConstPoolEntry list" where
  "read_pool 0 offset bs = Inr []"
| "read_pool (Suc n) offset bs =
     (if offset \<ge> length bs then Inl (BufferTooSmall (length bs + 1) (length bs))
      else case entry_from_bytes (drop offset bs) of
        Inl e \<Rightarrow> Inl e
      | Inr (entry, consumed) \<Rightarrow>
          (case read_pool n (offset + consumed) bs of
             Inl e \<Rightarrow> Inl e
           | Inr rest \<Rightarrow> Inr (entry # rest)))"

definition inv_from_bytes :: "bytes \<Rightarrow> CasError + InvariantsSection" where
  "inv_from_bytes bs =
     (if length bs < INVARIANTS_HEADER_SIZE then Inl (BufferTooSmall INVARIANTS_HEADER_SIZE (length bs))
      else case inv_header_from_bytes bs of
        None \<Rightarrow> Inl (BufferTooSmall INVARIANTS_HEADER_SIZE (length bs))
      | Some header \<Rightarrow>
          if ih_magic header \<noteq> INVARIANTS_MAGIC
          then Inl (InvalidMagic INVARIANTS_MAGIC (ih_magic header))
          else case read_pool (unat (ih_const_pool_count header)) (unat (ih_off_const_pool header)) bs of
            Inl e \<Rightarrow> Inl e
          | Inr pool \<Rightarrow>
              if unat (ih_off_code header) > length bs
              then Inl (InvalidSectionBounds (ih_off_code header) 0 (of_nat (length bs)))
              else Inr \<lparr>is_const_pool = pool, is_code = drop (unat (ih_off_code header)) bs,
                        is_inv_count = ih_inv_count header\<rparr>)"

definition compute_invariants_crc :: "bytes \<Rightarrow> u32" where
  "compute_invariants_crc data = crc32 data"

section \<open>Instructions in bytes\<close>

record RawInstruction =
  ri_op :: u16
  ri_a :: u16
  ri_b :: u32
  ri_imm :: u64

definition raw_to_bytes :: "RawInstruction \<Rightarrow> bytes" where
  "raw_to_bytes i = u16_le (ri_op i) @ u16_le (ri_a i) @ u32_le (ri_b i) @ u64_le (ri_imm i)"

definition raw_from_bytes :: "bytes \<Rightarrow> CasError + RawInstruction" where
  "raw_from_bytes bs =
     (if length bs < INSTRUCTION_SIZE then Inl (BufferTooSmall INSTRUCTION_SIZE (length bs))
      else Inr \<lparr>ri_op = u16_at 0 bs, ri_a = u16_at 2 bs, ri_b = u32_at 4 bs, ri_imm = u64_at 8 bs\<rparr>)"

text \<open>\<open>code.as_chunks::<16>().0\<close>: the complete chunks.\<close>

definition chunks16 :: "bytes \<Rightarrow> bytes list" where
  "chunks16 code = map (\<lambda>i. take 16 (drop (16 * i) code)) [0..<length code div 16]"

primrec read_instructions :: "bytes list \<Rightarrow> CasError + RawInstruction list" where
  "read_instructions [] = Inr []"
| "read_instructions (c # cs) =
     (case raw_from_bytes c of
        Inl e \<Rightarrow> Inl e
      | Inr i \<Rightarrow> (case read_instructions cs of Inl e \<Rightarrow> Inl e | Inr rest \<Rightarrow> Inr (i # rest)))"

definition decode_instructions :: "bytes \<Rightarrow> CasError + RawInstruction list" where
  "decode_instructions code =
     (if length code mod INSTRUCTION_SIZE \<noteq> 0 then Inl (AlignmentError INSTRUCTION_SIZE (length code))
      else read_instructions (chunks16 code))"

section \<open>Round trips\<close>

lemma const_kind_code_roundtrip [simp]: "const_kind_from_u8 (const_kind_to_u8 k) = Some k"
  by (cases k) (simp_all add: const_kind_from_u8_def)

lemma length_inv_header [simp, enc_length]: "length (inv_header_to_bytes h) = 32"
  by (simp add: inv_header_to_bytes_def)

lemma inv_header_from_to [codec_simps]: "inv_header_from_bytes (inv_header_to_bytes h @ rest) = Some h"
  by (simp add: inv_header_from_bytes_def inv_header_to_bytes_def INVARIANTS_HEADER_SIZE_def)

lemma length_entry_to_bytes [simp, enc_length]: "length (entry_to_bytes e) = entry_serialized_size e"
  by (simp add: entry_to_bytes_def entry_serialized_size_def)

lemma entry_from_to [codec_simps]:
  "length (cp_data e) < 2 ^ 32 \<Longrightarrow>
   entry_from_bytes (entry_to_bytes e @ rest) = Inr (e, entry_serialized_size e)"
  by (simp add: entry_from_bytes_def entry_to_bytes_def entry_serialized_size_def Let_def
      len_le_def unat_of_nat)

lemma read_pool_concat:
  "\<forall>e\<in>set es. length (cp_data e) < 2 ^ 32 \<Longrightarrow>
   read_pool (length es) (length pre) (pre @ concat (map entry_to_bytes es) @ rest) = Inr es"
proof (induction es arbitrary: pre)
  case (Cons e es)
  have "read_pool (length es) (length (pre @ entry_to_bytes e))
      ((pre @ entry_to_bytes e) @ concat (map entry_to_bytes es) @ rest) = Inr es"
    using Cons.prems by (intro Cons.IH) simp
  moreover have "0 < entry_serialized_size e" by (simp add: entry_serialized_size_def)
  ultimately show ?case using Cons.prems by (simp add: codec_simps)
qed simp

definition inv_storable :: "InvariantsSection \<Rightarrow> bool" where
  "inv_storable s \<longleftrightarrow> length (is_const_pool s) < 2 ^ 32 \<and>
     (\<forall>e\<in>set (is_const_pool s). length (cp_data e) < 2 ^ 32) \<and> length (inv_to_bytes s) < 2 ^ 64"

lemma length_pool: "length (concat (map entry_to_bytes es)) = sum_list (map entry_serialized_size es)"
  by (simp add: length_concat comp_def)

lemma inv_section_reads_back:
  assumes "inv_storable s"
  shows "inv_from_bytes (inv_to_bytes s) = Inr s \<and>
     (length (inv_to_bytes s) - length (is_code s)) mod 16 = 0"
proof -
  define size where "size = sum_list (map entry_serialized_size (is_const_pool s))"
  define pad where "pad = (if (32 + size) mod 16 \<noteq> 0 then 16 - (32 + size) mod 16 else 0)"
  define h where "h = inv_header_new (is_inv_count s) (of_nat (length (is_const_pool s))) (of_nat 32)
    (of_nat (32 + size + pad))"
  let ?pool = "concat (map entry_to_bytes (is_const_pool s))"
  have b: "inv_to_bytes s = inv_header_to_bytes h @ ?pool @ replicate pad 0 @ is_code s"
    by (simp add: inv_to_bytes_def Let_def h_def pad_def size_def inv_constants)
  have len: "length (inv_to_bytes s) = 32 + size + pad + length (is_code s)"
    by (simp add: b length_pool size_def)
  have n: "unat (ih_const_pool_count h) = length (is_const_pool s)" "unat (ih_off_const_pool h) = 32"
      "ih_magic h = INVARIANTS_MAGIC" "ih_inv_count h = is_inv_count s"
    using assms by (simp_all add: h_def inv_header_new_def inv_storable_def unat_of_nat)
  have c: "unat (ih_off_code h) = 32 + size + pad"
    unfolding h_def inv_header_new_def InvariantsHeader.simps
    by (rule unat_of_nat_u64) (use assms len in \<open>simp add: inv_storable_def\<close>)
  have "read_pool (length (is_const_pool s)) 32 (inv_to_bytes s) = Inr (is_const_pool s)"
    using read_pool_concat [of "is_const_pool s" "inv_header_to_bytes h"] assms
    by (simp add: b inv_storable_def)
  moreover have "drop (32 + size + pad) (inv_to_bytes s) = is_code s"
    by (simp add: b length_pool size_def)
  moreover have "inv_header_from_bytes (inv_to_bytes s) = Some h" by (simp add: b codec_simps)
  ultimately have "inv_from_bytes (inv_to_bytes s) = Inr s"
    by (simp add: inv_from_bytes_def n c len INVARIANTS_HEADER_SIZE_def)
  moreover have "(32 + size + pad) mod 16 = 0" unfolding pad_def by presburger
  ultimately show ?thesis by (simp add: len)
qed

text \<open>
  An INVARIANTS section is read back as written, with its code aligned to 16 bytes.
\<close>

theorem inv_section_roundtrip:
  assumes "inv_storable s"
  shows "inv_from_bytes (inv_to_bytes s) = Inr s \<and>
     (length (inv_to_bytes s) - length (is_code s)) mod 16 = 0"
  using assms by (rule inv_section_reads_back)

theorem inv_section_roundtrip_witness:
  "let s = inv_emit_instruction 42 0 0 0 (fst (inv_add_const_sym 7 inv_new)) in inv_from_bytes (inv_to_bytes s) = Inr s"
proof -
  let ?s = "inv_emit_instruction 42 0 0 0 (fst (inv_add_const_sym 7 inv_new))"
  have "inv_storable ?s" 
    by (simp add: inv_storable_def inv_to_bytes_def Let_def inv_emit_instruction_def inv_add_const_sym_def inv_add_const_def inv_new_def
       INV_CONST_POOL_ALIGNMENT_def INVARIANTS_HEADER_SIZE_def entry_serialized_size_def inv_header_to_bytes_def entry_to_bytes_def)
  then show ?thesis using inv_section_roundtrip by (simp add: Let_def)
qed

lemma length_raw [simp, enc_length]: "length (raw_to_bytes i) = 16"
  by (simp add: raw_to_bytes_def)

lemma raw_from_to [codec_simps]: "raw_from_bytes (raw_to_bytes i) = Inr i"
  by (simp add: raw_from_bytes_def raw_to_bytes_def INSTRUCTION_SIZE_def)

lemma chunks16_Nil [simp]: "chunks16 [] = []"
  by (simp add: chunks16_def)

lemma chunks16_append [simp]: "length c = 16 \<Longrightarrow> chunks16 (c @ cs) = c # chunks16 cs"
proof -
  assume c: "length c = 16"
  then have "length (c @ cs) div 16 = Suc (length cs div 16)" by simp
  then show ?thesis
    using c by (simp only: chunks16_def upt_conv_Cons [OF zero_less_Suc] map_Suc_upt [symmetric]) simp
qed

lemma chunks16_raw [simp]: "chunks16 (concat (map raw_to_bytes is)) = map raw_to_bytes is"
  by (induction "is") simp_all

lemma read_instructions_raw [simp]: "read_instructions (map raw_to_bytes is) = Inr is"
  by (induction "is") (simp_all add: codec_simps)

lemma length_concat_raw [simp]: "length (concat (map raw_to_bytes is)) = 16 * length is"
  by (induction "is") simp_all

lemma emit_raw:
  "is_code (inv_emit_instruction (ri_op i) (ri_a i) (ri_b i) (ri_imm i) s) = is_code s @ raw_to_bytes i"
  by (simp add: inv_emit_instruction_def raw_to_bytes_def)

theorem emit_decode:
  "decode_instructions (is_code (fold (\<lambda>i. inv_emit_instruction (ri_op i) (ri_a i) (ri_b i) (ri_imm i)) is inv_new)) =
   Inr is"
proof -
  have "is_code (fold (\<lambda>i. inv_emit_instruction (ri_op i) (ri_a i) (ri_b i) (ri_imm i)) is s) =
      is_code s @ concat (map raw_to_bytes is)" for s
    by (induction "is" arbitrary: s) (simp_all add: emit_raw)
  then show ?thesis by (simp add: inv_new_def decode_instructions_def INSTRUCTION_SIZE_def)
qed

end
