(* ===== verification/Claims.thy ===== *)
theory Claims
  imports Atom_Body
begin

text \<open>
  The CLAIMS section of an atom (\<open>src/cas/claims.rs\<close>): claim records with typed object values,
  and the two formats of the section, the current one with the magic \<open>CLM2\<close> and the older one
  with 16-bit indices. A float is its bit pattern.
\<close>

section \<open>Claim records\<close>

definition CLAIMS_V2_MAGIC :: bytes where "CLAIMS_V2_MAGIC = [0x43, 0x4C, 0x4D, 0x32]"
definition CLAIMS_V1_RECORD_PREFIX :: nat where "CLAIMS_V1_RECORD_PREFIX = 5"
definition CLAIMS_V2_RECORD_PREFIX :: nat where "CLAIMS_V2_RECORD_PREFIX = 13"
definition MAX_CLAIMS_PER_SECTION :: nat where "MAX_CLAIMS_PER_SECTION = 1000000"

lemmas claims_constants = CLAIMS_V2_MAGIC_def CLAIMS_V1_RECORD_PREFIX_def CLAIMS_V2_RECORD_PREFIX_def
  MAX_CLAIMS_PER_SECTION_def

record ClaimRecord =
  cr_subject_local :: u64
  cr_predicate_local :: u32
  cr_object_tag :: ObjTag
  cr_object_value :: bytes

definition claim_new :: "u64 \<Rightarrow> u32 \<Rightarrow> ObjTag \<Rightarrow> bytes \<Rightarrow> ClaimRecord" where
  "claim_new subj pred tag val =
     \<lparr>cr_subject_local = subj, cr_predicate_local = pred, cr_object_tag = tag, cr_object_value = val\<rparr>"

definition claim_new_null :: "u64 \<Rightarrow> u32 \<Rightarrow> ClaimRecord" where
  "claim_new_null subj pred = claim_new subj pred NULL []"

definition claim_new_bool :: "u64 \<Rightarrow> u32 \<Rightarrow> bool \<Rightarrow> ClaimRecord" where
  "claim_new_bool subj pred v = claim_new subj pred BOOL [if v then 1 else 0]"

definition claim_new_i64 :: "u64 \<Rightarrow> u32 \<Rightarrow> i64 \<Rightarrow> ClaimRecord" where
  "claim_new_i64 subj pred v = claim_new subj pred I64 (u64_le v)"

definition claim_new_u64 :: "u64 \<Rightarrow> u32 \<Rightarrow> u64 \<Rightarrow> ClaimRecord" where
  "claim_new_u64 subj pred v = claim_new subj pred U64 (u64_le v)"

definition claim_new_f64 :: "u64 \<Rightarrow> u32 \<Rightarrow> u64 \<Rightarrow> ClaimRecord" where
  "claim_new_f64 subj pred v_bits = claim_new subj pred F64 (u64_le v_bits)"

definition claim_new_bytes :: "u64 \<Rightarrow> u32 \<Rightarrow> bytes \<Rightarrow> ClaimRecord" where
  "claim_new_bytes subj pred v = claim_new subj pred BYTES (len_le (length v) @ v)"

definition claim_new_sym :: "u64 \<Rightarrow> u32 \<Rightarrow> u32 \<Rightarrow> ClaimRecord" where
  "claim_new_sym subj pred sym_id = claim_new subj pred SYM (u32_le sym_id)"

definition claim_new_ref :: "u64 \<Rightarrow> u32 \<Rightarrow> AtomId \<Rightarrow> ClaimRecord" where
  "claim_new_ref subj pred atom_id = claim_new subj pred REF atom_id"

definition claim_new_nodenum :: "u64 \<Rightarrow> u32 \<Rightarrow> u64 \<Rightarrow> ClaimRecord" where
  "claim_new_nodenum subj pred node_num = claim_new subj pred NODENUM (u64_le node_num)"

definition claim_from_scalar :: "u64 \<Rightarrow> u32 \<Rightarrow> ObjTag \<Rightarrow> u64 \<Rightarrow> CasError + ClaimRecord" where
  "claim_from_scalar subj pred tag v =
     (case tag of
        NULL \<Rightarrow> Inr (claim_new_null subj pred)
      | BOOL \<Rightarrow> if v \<le> 1 then Inr (claim_new_bool subj pred (v \<noteq> 0))
          else Inl (CanonicalExtractionFailed ''BOOL object must be 0 or 1'')
      | I64 \<Rightarrow> Inr (claim_new_i64 subj pred v)
      | U64 \<Rightarrow> Inr (claim_new_u64 subj pred v)
      | F64 \<Rightarrow> Inr (claim_new_f64 subj pred v)
      | SYM \<Rightarrow> if unat v < 2 ^ 32 then Inr (claim_new_sym subj pred (ucast v))
          else Inl (CanonicalExtractionFailed ''SYM object exceeds u32'')
      | NODENUM \<Rightarrow> Inr (claim_new_nodenum subj pred v)
      | BYTES \<Rightarrow> Inl (CanonicalExtractionFailed ''BYTES object cannot be represented by scalar object_value'')
      | REF \<Rightarrow> Inl (CanonicalExtractionFailed ''REF object cannot be represented by scalar object_value''))"

definition claim_as_bool :: "ClaimRecord \<Rightarrow> bool option" where
  "claim_as_bool c =
     (if cr_object_tag c = BOOL \<and> cr_object_value c \<noteq> [] then Some (cr_object_value c ! 0 \<noteq> 0) else None)"

definition claim_as_word :: "ObjTag \<Rightarrow> ClaimRecord \<Rightarrow> u64 option" where
  "claim_as_word tag c =
     (if cr_object_tag c = tag \<and> length (cr_object_value c) = 8 then Some (le_u64 (cr_object_value c)) else None)"

definition claim_as_i64 :: "ClaimRecord \<Rightarrow> i64 option" where "claim_as_i64 = claim_as_word I64"
definition claim_as_u64 :: "ClaimRecord \<Rightarrow> u64 option" where "claim_as_u64 = claim_as_word U64"
definition claim_as_f64 :: "ClaimRecord \<Rightarrow> u64 option" where "claim_as_f64 = claim_as_word F64"
definition claim_as_nodenum :: "ClaimRecord \<Rightarrow> u64 option" where "claim_as_nodenum = claim_as_word NODENUM"

definition claim_as_bytes :: "ClaimRecord \<Rightarrow> bytes option" where
  "claim_as_bytes c =
     (if cr_object_tag c = BYTES \<and> length (cr_object_value c) \<ge> 4 then
        (let len = unat (u32_at 0 (cr_object_value c)) in
         if length (cr_object_value c) \<ge> 4 + len then Some (take len (drop 4 (cr_object_value c))) else None)
      else None)"

definition claim_as_sym :: "ClaimRecord \<Rightarrow> u32 option" where
  "claim_as_sym c =
     (if cr_object_tag c = SYM \<and> length (cr_object_value c) = 4 then Some (le_u32 (cr_object_value c)) else None)"

definition claim_as_ref :: "ClaimRecord \<Rightarrow> AtomId option" where
  "claim_as_ref c =
     (if cr_object_tag c = REF \<and> length (cr_object_value c) = 32 then Some (cr_object_value c) else None)"

definition claim_to_bytes :: "ClaimRecord \<Rightarrow> bytes" where
  "claim_to_bytes c =
     u64_le (cr_subject_local c) @ u32_le (cr_predicate_local c) @ [obj_tag_to_u8 (cr_object_tag c)] @
     cr_object_value c"

definition claim_from_bytes :: "bytes \<Rightarrow> CasError + ClaimRecord" where
  "claim_from_bytes bs =
     (if length bs < CLAIMS_V2_RECORD_PREFIX then Inl (BufferTooSmall CLAIMS_V2_RECORD_PREFIX (length bs))
      else case obj_tag_from_u8 (bs ! 12) of
        None \<Rightarrow> Inl (InvalidSectionKind (ucast (bs ! 12)))
      | Some tag \<Rightarrow> Inr (claim_new (u64_at 0 bs) (u32_at 8 bs) tag (drop CLAIMS_V2_RECORD_PREFIX bs)))"

section \<open>The section\<close>

type_synonym ClaimsSection = "ClaimRecord list"

definition claims_find_by_subject :: "ClaimsSection \<Rightarrow> u64 \<Rightarrow> ClaimRecord list" where
  "claims_find_by_subject s subj = filter (\<lambda>c. cr_subject_local c = subj) s"

definition claims_find_by_predicate :: "ClaimsSection \<Rightarrow> u32 \<Rightarrow> ClaimRecord list" where
  "claims_find_by_predicate s pred = filter (\<lambda>c. cr_predicate_local c = pred) s"

definition claims_serialized_size :: "ClaimsSection \<Rightarrow> nat" where
  "claims_serialized_size s =
     fold (\<lambda>c size. size + CLAIMS_V2_RECORD_PREFIX + length (cr_object_value c)) s 8"

definition claims_to_bytes :: "ClaimsSection \<Rightarrow> bytes" where
  "claims_to_bytes s = CLAIMS_V2_MAGIC @ len_le (length s) @ concat (map claim_to_bytes s)"

definition object_value_len :: "ObjTag \<Rightarrow> nat \<Rightarrow> bytes \<Rightarrow> CasError + nat" where
  "object_value_len tag start bs =
     (case tag of
        NULL \<Rightarrow> Inr 0
      | BOOL \<Rightarrow> Inr 1
      | I64 \<Rightarrow> Inr 8
      | U64 \<Rightarrow> Inr 8
      | F64 \<Rightarrow> Inr 8
      | BYTES \<Rightarrow> if start + 4 > length bs then Inl (BufferTooSmall (start + 4) (length bs))
          else Inr (4 + unat (u32_at start bs))
      | SYM \<Rightarrow> Inr 4
      | REF \<Rightarrow> Inr 32
      | NODENUM \<Rightarrow> Inr 8)"

text \<open>One turn of the reading loop: the record at an offset, and the offset after it.\<close>

definition read_claim :: "bool \<Rightarrow> nat \<Rightarrow> bytes \<Rightarrow> CasError + ClaimRecord \<times> nat" where
  "read_claim is_v2 offset bs =
     (let prefix_len = (if is_v2 then CLAIMS_V2_RECORD_PREFIX else CLAIMS_V1_RECORD_PREFIX) in
      if offset \<ge> length bs then Inl (BufferTooSmall (offset + prefix_len) (length bs))
      else if offset + prefix_len > length bs then Inl (BufferTooSmall (offset + prefix_len) (length bs))
      else
        (let (subject_local, predicate_local, object_tag_byte) =
               (if is_v2 then (u64_at offset bs, u32_at (offset + 8) bs, bs ! (offset + 12))
                else (ucast (u16_at offset bs), ucast (u16_at (offset + 2) bs), bs ! (offset + 4)))
         in case obj_tag_from_u8 object_tag_byte of
              None \<Rightarrow> Inl (InvalidSectionKind (ucast object_tag_byte))
            | Some tag \<Rightarrow>
                (let start = offset + prefix_len in
                 case object_value_len tag start bs of
                   Inl e \<Rightarrow> Inl e
                 | Inr len \<Rightarrow>
                     if start + len > length bs then Inl (BufferTooSmall (start + len) (length bs))
                     else Inr (claim_new subject_local predicate_local tag (take len (drop start bs)),
                               start + len))))"

primrec read_claims :: "bool \<Rightarrow> nat \<Rightarrow> nat \<Rightarrow> bytes \<Rightarrow> CasError + ClaimRecord list" where
  "read_claims is_v2 0 offset bs = Inr []"
| "read_claims is_v2 (Suc n) offset bs =
     (case read_claim is_v2 offset bs of
        Inl e \<Rightarrow> Inl e
      | Inr (c, offset) \<Rightarrow>
          (case read_claims is_v2 n offset bs of Inl e \<Rightarrow> Inl e | Inr cs \<Rightarrow> Inr (c # cs)))"

definition claims_from_bytes :: "bytes \<Rightarrow> CasError + ClaimsSection" where
  "claims_from_bytes bs =
     (if length bs < 4 then Inl (BufferTooSmall 4 (length bs))
      else
        (let is_v2 = (take 4 bs = CLAIMS_V2_MAGIC); count_offset = (if is_v2 then 4 else 0) in
         if length bs < count_offset + 4 then Inl (BufferTooSmall (count_offset + 4) (length bs))
         else
           (let claim_count = unat (u32_at count_offset bs) in
            if claim_count > MAX_CLAIMS_PER_SECTION
            then Inl (CanonicalExtractionFailed
              (''claim count '' @ dec claim_count @ '' exceeds '' @ dec MAX_CLAIMS_PER_SECTION))
            else read_claims is_v2 claim_count (count_offset + 4) bs)))"

definition claims_crc32 :: "ClaimsSection \<Rightarrow> u32" where
  "claims_crc32 s = crc32 (claims_to_bytes s)"

section \<open>Well-formed claims\<close>

text \<open>The object value has the length its tag announces.\<close>

definition claim_ok :: "ClaimRecord \<Rightarrow> bool" where
  "claim_ok c \<longleftrightarrow>
     (case cr_object_tag c of
        BYTES \<Rightarrow> length (cr_object_value c) \<ge> 4 \<and>
          length (cr_object_value c) = 4 + unat (u32_at 0 (cr_object_value c))
      | tag \<Rightarrow> object_value_len tag 0 [] = Inr (length (cr_object_value c)))"

definition claims_storable :: "ClaimsSection \<Rightarrow> bool" where
  "claims_storable s \<longleftrightarrow> list_all claim_ok s \<and> length s \<le> MAX_CLAIMS_PER_SECTION"

lemma claim_constructors_ok:
  "claim_ok (claim_new_null s p)" "claim_ok (claim_new_bool s p b)" "claim_ok (claim_new_i64 s p v)"
  "claim_ok (claim_new_u64 s p v)" "claim_ok (claim_new_f64 s p v)" "claim_ok (claim_new_sym s p y)"
  "claim_ok (claim_new_nodenum s p v)" "length a = 32 \<Longrightarrow> claim_ok (claim_new_ref s p a)"
  "length d < 2 ^ 32 \<Longrightarrow> claim_ok (claim_new_bytes s p d)"
  by (simp_all add: claim_ok_def claim_new_def claim_new_null_def claim_new_bool_def claim_new_i64_def
      claim_new_u64_def claim_new_f64_def claim_new_sym_def claim_new_nodenum_def claim_new_ref_def
      claim_new_bytes_def object_value_len_def len_le_def unat_of_nat_u32)

lemma claim_from_scalar_ok: "claim_from_scalar s p tag v = Inr c \<Longrightarrow> claim_ok c"
  by (cases tag) (auto simp: claim_from_scalar_def claim_constructors_ok split: if_splits)

lemma length_claim_to_bytes [simp, enc_length]:
  "length (claim_to_bytes c) = 13 + length (cr_object_value c)"
  by (simp add: claim_to_bytes_def)

lemma claims_serialized_size_bytes: "length (claims_to_bytes s) = claims_serialized_size s"
proof -
  have "fold (\<lambda>c size. size + CLAIMS_V2_RECORD_PREFIX + length (cr_object_value c)) s n =
      n + length (concat (map claim_to_bytes s))" for n
    by (induction s arbitrary: n) (simp_all add: CLAIMS_V2_RECORD_PREFIX_def)
  then show ?thesis by (simp add: claims_serialized_size_def claims_to_bytes_def CLAIMS_V2_MAGIC_def)
qed

section \<open>Round trip and truncation\<close>

lemma object_value_len_ok:
  assumes "claim_ok c" "length pre = start"
  shows "object_value_len (cr_object_tag c) start (pre @ cr_object_value c @ rest) = Inr (length (cr_object_value c))"
  using assms by (cases "cr_object_tag c") (auto simp: claim_ok_def object_value_len_def)

lemma read_claim_to_bytes:
  assumes "claim_ok c"
  shows "read_claim True (length pre) (pre @ claim_to_bytes c @ rest) =
    Inr (c, length pre + length (claim_to_bytes c))"
proof -
  let ?head = "u64_le (cr_subject_local c) @ u32_le (cr_predicate_local c) @ [obj_tag_to_u8 (cr_object_tag c)]"
  define bs where "bs = pre @ claim_to_bytes c @ rest"
  have b: "bs = (pre @ ?head) @ cr_object_value c @ rest" by (simp add: bs_def claim_to_bytes_def)
  have v: "object_value_len (cr_object_tag c) (length pre + 13) bs = Inr (length (cr_object_value c))"
    unfolding b using assms by (rule object_value_len_ok) simp
  have f: "u64_at (length pre) bs = cr_subject_local c" "u32_at (length pre + 8) bs = cr_predicate_local c"
      "bs ! (length pre + 12) = obj_tag_to_u8 (cr_object_tag c)"
      "take (length (cr_object_value c)) (drop (length pre + 13) bs) = cr_object_value c"
      "length pre + 13 + length (cr_object_value c) \<le> length bs"
    unfolding b by (simp_all add: nth_append)
  then have "read_claim True (length pre) bs =
      Inr (claim_new (cr_subject_local c) (cr_predicate_local c) (cr_object_tag c) (cr_object_value c),
        length pre + 13 + length (cr_object_value c))"
    by (simp add: read_claim_def CLAIMS_V2_RECORD_PREFIX_def Let_def v)
  then show ?thesis by (simp add: bs_def claim_new_def add.assoc)
qed

lemma read_claims_concat:
  "list_all claim_ok cs \<Longrightarrow>
   read_claims True (length cs) (length pre) (pre @ concat (map claim_to_bytes cs) @ rest) = Inr cs"
proof (induction cs arbitrary: pre)
  case (Cons c cs)
  have "read_claims True (length cs) (length (pre @ claim_to_bytes c))
      ((pre @ claim_to_bytes c) @ concat (map claim_to_bytes cs) @ rest) = Inr cs"
    using Cons.prems by (intro Cons.IH) simp
  moreover have "read_claim True (length pre) (pre @ claim_to_bytes c @ concat (map claim_to_bytes cs) @ rest) =
      Inr (c, length pre + length (claim_to_bytes c))"
    using Cons.prems by (intro read_claim_to_bytes) simp
  ultimately show ?case by simp
qed simp

text \<open>A read that succeeds is inside its input, and does not depend on what follows it.\<close>

lemma read_claim_extends:
  "read_claim v2 offset bs = Inr (c, n) \<Longrightarrow> n \<le> length bs \<and> read_claim v2 offset (bs @ rest) = Inr (c, n)"
  by (cases v2)
    (auto simp: read_claim_def Let_def object_value_len_def nth_append claims_constants
      split: if_splits option.splits sum.splits ObjTag.splits)

lemma read_claims_extends:
  "read_claims v2 k offset bs = Inr cs \<Longrightarrow> read_claims v2 k offset (bs @ rest) = Inr cs"
proof (induction k arbitrary: offset cs)
  case (Suc k)
  then obtain c n cs' where c: "read_claim v2 offset bs = Inr (c, n)"
    and r: "read_claims v2 k n bs = Inr cs'" and cs: "cs = c # cs'"
    by (auto split: sum.splits)
  from read_claim_extends [OF c, of rest] Suc.IH [OF r] cs show ?case by simp
qed simp

text \<open>The end of the last record read.\<close>

lemma read_claims_length:
  "read_claims True k offset bs = Inr cs \<Longrightarrow> offset \<le> length bs \<Longrightarrow>
   offset + length (concat (map claim_to_bytes cs)) \<le> length bs"
proof (induction k arbitrary: offset cs)
  case (Suc k)
  then obtain c n cs' where c: "read_claim True offset bs = Inr (c, n)"
    and r: "read_claims True k n bs = Inr cs'" and cs: "cs = c # cs'"
    by (auto split: sum.splits)
  from c have "n = offset + length (claim_to_bytes c)"
    by (auto simp: read_claim_def Let_def claim_new_def CLAIMS_V2_RECORD_PREFIX_def split: if_splits option.splits sum.splits)
  with read_claim_extends [OF c] Suc.IH [OF r] cs show ?case by simp
qed simp

lemma claims_from_bytes_v2:
  "n \<le> MAX_CLAIMS_PER_SECTION \<Longrightarrow>
   claims_from_bytes (CLAIMS_V2_MAGIC @ len_le n @ body) = read_claims True n 8 (CLAIMS_V2_MAGIC @ len_le n @ body)"
  by (simp add: claims_from_bytes_def claims_constants len_le_def unat_of_nat_u32)

text \<open>
  C38: Stored claims are read back, whatever follows them, and every strict prefix of them is
  rejected.
\<close>

theorem claims_roundtrip_torn:
  assumes "claims_storable s"
  shows "claims_from_bytes (claims_to_bytes s @ rest) = Inr s \<and>
    (n < length (claims_to_bytes s) \<longrightarrow> (\<exists>e. claims_from_bytes (take n (claims_to_bytes s)) = Inl e))"
proof
  have ok: "list_all claim_ok s" "length s \<le> MAX_CLAIMS_PER_SECTION"
    using assms by (simp_all add: claims_storable_def)
  let ?pre = "CLAIMS_V2_MAGIC @ len_le (length s)"
  have l: "length ?pre = 8" by (simp add: CLAIMS_V2_MAGIC_def)
  show "claims_from_bytes (claims_to_bytes s @ rest) = Inr s"
    using read_claims_concat [OF ok(1), of ?pre rest] ok(2) l
    by (simp add: claims_to_bytes_def claims_from_bytes_v2)
  show "n < length (claims_to_bytes s) \<longrightarrow> (\<exists>e. claims_from_bytes (take n (claims_to_bytes s)) = Inl e)"
  proof (intro impI, rule ccontr)
    assume n: "n < length (claims_to_bytes s)" and "\<nexists>e. claims_from_bytes (take n (claims_to_bytes s)) = Inl e"
    then obtain cs where cs: "claims_from_bytes (take n (claims_to_bytes s)) = Inr cs"
      by (cases "claims_from_bytes (take n (claims_to_bytes s))") auto
    then have n8: "8 \<le> n"
      using n by (auto simp: claims_from_bytes_def claims_to_bytes_def claims_constants Let_def not_less min_def
          split: if_splits)
    let ?body = "take (n - 8) (concat (map claim_to_bytes s))"
    have t: "take n (claims_to_bytes s) = ?pre @ ?body"
      using n8 l by (simp add: claims_to_bytes_def)
    have r: "read_claims True (length s) 8 (?pre @ ?body) = Inr cs"
      using cs ok(2) unfolding t by (simp add: claims_from_bytes_v2)
    then have "read_claims True (length s) 8 ((?pre @ ?body) @ drop (n - 8) (concat (map claim_to_bytes s))) = Inr cs"
      by (rule read_claims_extends)
    then have "cs = s" using read_claims_concat [OF ok(1), of ?pre "[]"] l by simp
    moreover have "length (?pre @ ?body) = n" using n n8 l by (simp add: claims_to_bytes_def)
    ultimately have "8 + length (concat (map claim_to_bytes s)) \<le> n"
      using read_claims_length [OF r] n8 by (simp only:)
    with n l show False by (simp add: claims_to_bytes_def)
  qed
qed

theorem claims_roundtrip_torn_witness:
  "let s = [claim_new_u64 7 2 42, claim_new_bytes 1 1 [3, 4]]
   in claims_from_bytes (claims_to_bytes s @ [9]) = Inr s \<and> (\<exists>e. claims_from_bytes (take 20 (claims_to_bytes s)) = Inl e)"
proof -
  let ?s = "[claim_new_u64 7 2 42, claim_new_bytes 1 1 [3, 4]]"
  have s: "claims_storable ?s" by (simp add: claims_storable_def claim_constructors_ok MAX_CLAIMS_PER_SECTION_def)
  have "20 < length (claims_to_bytes ?s)"
    by (simp add: claims_to_bytes_def claim_to_bytes_def CLAIMS_V2_MAGIC_def claim_new_u64_def claim_new_def)
  with claims_roundtrip_torn [OF s, of "[9]" 20] show ?thesis by (simp add: Let_def)
qed

end
