(* ===== verification/Vm_Abi.thy ===== *)
theory Vm_Abi
  imports Vm_Programs Invariants Claims
begin

text \<open>
  The entry point of the invariant machine (\<open>src/vm/abi.rs\<close>): it finds the INVARIANTS section of
  an atom body, decodes its constant pool and code, extracts claims and metadata from their
  sections, and runs the program. \<open>None\<close> as the result of an evaluation would be a run that does
  not end; it is shown not to happen.
\<close>

section \<open>Results\<close>

datatype AbiResult = Pass | FailSoft u16 | FailHard u16 | NeedBranch u32

primrec abi_to_result_code :: "AbiResult \<Rightarrow> u8" where
    "abi_to_result_code Pass = 0"
  | "abi_to_result_code (FailSoft _) = 1"
  | "abi_to_result_code (FailHard _) = 2"
  | "abi_to_result_code (NeedBranch _) = 3"

definition abi_from_result_code :: "u8 \<Rightarrow> u16 \<Rightarrow> AbiResult" where
  "abi_from_result_code code reason =
     (if code = 0 then Pass
      else if code = 1 then FailSoft reason
      else if code = 2 then FailHard reason
      else if code = 3 then NeedBranch (ucast reason)
      else FailHard (reason_code_to_u16 CORRUPT_SECTION))"

definition abi_allows_proceed :: "AbiResult \<Rightarrow> bool" where
  "abi_allows_proceed r \<longleftrightarrow> r = Pass"

definition vm_result_to_abi :: "InvariantResult \<Rightarrow> ReasonCode \<Rightarrow> AbiResult" where
  "vm_result_to_abi r reason =
     (case r of
        PASS \<Rightarrow> Pass
      | FAIL_SOFT \<Rightarrow> FailSoft (reason_code_to_u16 reason)
      | FAIL_HARD \<Rightarrow> FailHard (reason_code_to_u16 reason)
      | NEED_BRANCH \<Rightarrow> NeedBranch 0)"

definition store_result_to_abi_result :: "InvariantResult \<Rightarrow> AbiResult" where
  "store_result_to_abi_result r =
     (case r of PASS \<Rightarrow> Pass | FAIL_SOFT \<Rightarrow> FailSoft 0 | FAIL_HARD \<Rightarrow> FailHard 0 | NEED_BRANCH \<Rightarrow> NeedBranch 0)"

abbreviation corrupt :: AbiResult where
  "corrupt \<equiv> FailHard (reason_code_to_u16 CORRUPT_SECTION)"

section \<open>Sections\<close>

text \<open>The loop over the descriptors; an overflowing bound ends the search, a bound beyond the
  body continues it.\<close>

fun find_invariants :: "bytes \<Rightarrow> SectionDesc list \<Rightarrow> bytes option" where
  "find_invariants body [] = None"
| "find_invariants body (d # ds) =
     (if sd_section_kind d = section_kind_to_u32 INVARIANTS then
        (case checked_add (sd_off d) (sd_len d) of
           None \<Rightarrow> None
         | Some end \<Rightarrow>
             if unat end \<le> length body
             then Some (take (unat end - unat (sd_off d)) (drop (unat (sd_off d)) body))
             else find_invariants body ds)
      else find_invariants body ds)"

text \<open>The section table, when it is inside the body. The multiplication by 32 of a 32-bit count
  does not overflow 64 bits.\<close>

definition section_table :: "bytes \<Rightarrow> AtomBodyHeader \<Rightarrow> SectionDesc list option" where
  "section_table body h =
     (let section_count = unat (ab_section_count h); table_start = unat (ab_section_table_off h);
          table_size = section_count * SECTION_DESC_SIZE
      in if table_start + table_size \<ge> 2 ^ 64 then None
         else if table_start + table_size > length body then None
         else Some (table_entries section_count (drop table_start body)))"

definition find_invariants_section :: "bytes \<Rightarrow> bytes option" where
  "find_invariants_section body =
     (if length body < ATOM_HEADER_SIZE then None
      else case atom_header_from_bytes body of
        Inl _ \<Rightarrow> None
      | Inr h \<Rightarrow>
          if \<not> atom_validate_magic h then None
          else Option.bind (section_table body h) (find_invariants body))"

fun extract_section :: "bytes \<Rightarrow> SectionKind \<Rightarrow> SectionDesc list \<Rightarrow> bytes option" where
  "extract_section body kind [] = None"
| "extract_section body kind (d # ds) =
     (if sd_section_kind d = section_kind_to_u32 kind then
        (case checked_add (sd_off d) (sd_len d) of
           None \<Rightarrow> None
         | Some e \<Rightarrow>
             (let start = unat (sd_off d); end = min (unat e) (length body) in
              if start < end then Some (take (end - start) (drop start body)) else Some []))
      else extract_section body kind ds)"

definition extract_section_bytes :: "bytes \<Rightarrow> AtomBodyHeader \<Rightarrow> SectionKind \<Rightarrow> bytes option" where
  "extract_section_bytes body h kind = Option.bind (section_table body h) (extract_section body kind)"

section \<open>Constants, code, claims and metadata\<close>

definition convert_const :: "ConstPoolEntry \<Rightarrow> ConstValue" where
  "convert_const e =
     (let data = cp_data e;
          u32_or_0 = (if length data \<ge> 4 then u32_at 0 data else 0);
          u64_or_0 = (if length data \<ge> 8 then u64_at 0 data else 0)
      in case cp_kind e of
           CK_SYM \<Rightarrow> Const_Sym u32_or_0
         | CK_U64 \<Rightarrow> Const_U64 u64_or_0
         | CK_I64 \<Rightarrow> Const_I64 u64_or_0
         | CK_F64 \<Rightarrow> Const_F64 u64_or_0
         | CK_BYTES \<Rightarrow> Const_Bytes (take 32 data @ replicate (32 - length data) 0)
         | CK_REFID \<Rightarrow> Const_RefId u32_or_0
         | CK_TAG \<Rightarrow> Const_Tag (ucast u32_or_0))"

definition convert_const_pool :: "InvariantsSection \<Rightarrow> ConstValue list" where
  "convert_const_pool s = map convert_const (is_const_pool s)"

primrec parse_chunks :: "bytes list \<Rightarrow> Instruction list option" where
  "parse_chunks [] = Some []"
| "parse_chunks (c # cs) =
     (case opcode_from_u16 (u16_at 0 c) of
        None \<Rightarrow> None
      | Some opcode \<Rightarrow>
          map_option (\<lambda>is. instr_new opcode (u16_at 2 c) (u32_at 4 c) (u64_at 8 c) # is) (parse_chunks cs))"

definition parse_raw_instructions :: "bytes \<Rightarrow> Instruction list option" where
  "parse_raw_instructions code =
     (if length code mod 16 \<noteq> 0 then None
      else if code = [] then Some []
      else parse_chunks (chunks16 code))"

text \<open>The length of an object, of which \<open>rest\<close> is what follows the tag.\<close>

definition claim_obj_len :: "ObjTag \<Rightarrow> bytes \<Rightarrow> nat option" where
  "claim_obj_len tag rest =
     (case tag of
        NULL \<Rightarrow> Some 0
      | BOOL \<Rightarrow> Some 1
      | I64 \<Rightarrow> Some 8 | U64 \<Rightarrow> Some 8 | F64 \<Rightarrow> Some 8 | NODENUM \<Rightarrow> Some 8
      | SYM \<Rightarrow> Some 4
      | REF \<Rightarrow> Some 32
      | BYTES \<Rightarrow> if length rest < 4 then None else Some (4 + unat (u32_at 0 rest)))"

function parse_cas_claims :: "bytes \<Rightarrow> ClaimData list" where
  "parse_cas_claims bs =
     (if length bs < 5 then []
      else case obj_tag_from_u8 (bs ! 4) of
        None \<Rightarrow> []
      | Some tag \<Rightarrow>
          (let rest = drop 5 bs in
           case claim_obj_len tag rest of
             None \<Rightarrow> []
           | Some obj_len \<Rightarrow>
               if length rest < obj_len then []
               else
                 (let val_len = min obj_len 8 in
                  \<lparr>cd_subj = ucast (u16_at 0 bs), cd_pred = ucast (u16_at 2 bs), cd_obj_tag = bs ! 4,
                   cd_obj_val = (if val_len > 0
                     then le_u64 (take val_len rest @ replicate (8 - val_len) 0) else 0),
                   cd_qualifiers_mask = 0\<rparr> # parse_cas_claims (drop obj_len rest))))"
  by pat_completeness auto
termination by (relation "measure length") auto

declare parse_cas_claims.simps [simp del]

definition parse_flat_claims :: "bytes \<Rightarrow> ClaimData list" where
  "parse_flat_claims bs =
     map (\<lambda>i. let c = drop (i * 25) bs in
        \<lparr>cd_subj = u64_at 0 c, cd_pred = u64_at 8 c, cd_obj_tag = c ! 16, cd_obj_val = u64_at 17 c,
         cd_qualifiers_mask = 0\<rparr>) [0..<length bs div 25]"

text \<open>No claim in the first format leaves the offset at 0, so the second one is tried.\<close>

definition parse_claims_bytes :: "bytes \<Rightarrow> ClaimData list" where
  "parse_claims_bytes bs =
     (if length bs < 5 then []
      else let claims = parse_cas_claims bs in
        if claims = [] \<and> length bs \<ge> 25 then parse_flat_claims bs else claims)"

definition parse_meta_bytes :: "bytes \<Rightarrow> TrustLevel \<times> DomainMask \<times> u32" where
  "parse_meta_bytes bs =
     (let trust = ucast (min (u64_at 0 bs) 0xFFFF) in
      if length bs \<ge> 16 then
        (trust, u64_at 8 bs, if length bs \<ge> 20 then u32_at 16 bs else 0)
      else if length bs \<ge> 8 then (trust, 0xFFFF, 0)
      else (5000, 0xFFFF, 0))"

section \<open>Domain masks\<close>

definition trailing_zeros :: "u64 \<Rightarrow> nat" where
  "trailing_zeros m = length (takeWhile (\<lambda>i. \<not> bit m i) [0..<64])"

lemma trailing_zeros_bit:
  assumes "m \<noteq> 0"
  shows "bit m (trailing_zeros m)" "trailing_zeros m < 64" "i < trailing_zeros m \<Longrightarrow> \<not> bit m i"
proof -
  from assms obtain k where k: "k < 64" "bit m k"
    using bit_word_eqI [of m 0] by auto
  have "length (takeWhile (\<lambda>i. \<not> bit m i) [0..<64]) < length [0..<64]"
  proof (rule ccontr)
    assume "\<not> ?thesis"
    then have "takeWhile (\<lambda>i. \<not> bit m i) [0..<64] = [0..<64]"
      using length_takeWhile_le [of "\<lambda>i. \<not> bit m i" "[0..<64]"]
      by (metis takeWhile_eq_take take_all_iff not_less)
    then have "\<forall>i\<in>set [0..<64]. \<not> bit m i" by (metis takeWhile_eq_all_conv)
    with k show False by simp
  qed
  then show l: "trailing_zeros m < 64" by (simp add: trailing_zeros_def)
  then have "\<not> \<not> bit m ([0..<64] ! trailing_zeros m)"
    unfolding trailing_zeros_def by (intro nth_length_takeWhile) simp
  with l show "bit m (trailing_zeros m)" by simp
  show "\<not> bit m i" if i: "i < trailing_zeros m"
  proof -
    have "takeWhile (\<lambda>i. \<not> bit m i) [0..<64] ! i \<in> set (takeWhile (\<lambda>i. \<not> bit m i) [0..<64])"
      using i by (intro nth_mem) (simp add: trailing_zeros_def)
    then have "\<not> bit m (takeWhile (\<lambda>i. \<not> bit m i) [0..<64] ! i)" by (rule set_takeWhileD [THEN conjunct2])
    moreover have "takeWhile (\<lambda>i. \<not> bit m i) [0..<64] ! i = i"
      using i l by (simp add: trailing_zeros_def takeWhile_nth)
    ultimately show ?thesis by simp
  qed
qed

lemma clear_bit_less: "m \<noteq> 0 \<Longrightarrow> unat (m AND NOT (push_bit (trailing_zeros m) 1)) < unat m"
proof -
  assume m: "m \<noteq> 0"
  have "\<not> bit (m AND NOT (push_bit (trailing_zeros m) 1)) (trailing_zeros m)"
    by (simp add: bit_simps)
  with trailing_zeros_bit(1) [OF m] have "m AND NOT (push_bit (trailing_zeros m) 1) \<noteq> m" by metis
  moreover have "m AND NOT (push_bit (trailing_zeros m) 1) \<le> m" by (rule word_and_le2)
  ultimately show ?thesis by (simp add: word_less_nat_alt word_le_nat_alt word_unat_eq_iff)
qed

function mask_tags :: "u64 \<Rightarrow> u32 list" where
  "mask_tags m =
     (if m = 0 then []
      else let b = trailing_zeros m in of_nat b # mask_tags (m AND NOT (push_bit b 1)))"
  by pat_completeness auto
termination by (relation "measure unat") (use clear_bit_less in auto)

declare mask_tags.simps [simp del]

definition domain_mask_to_tags :: "DomainMask \<Rightarrow> u32 list" where
  "domain_mask_to_tags m = mask_tags m"

definition tags_to_domain_mask :: "u32 list \<Rightarrow> DomainMask" where
  "tags_to_domain_mask tags = fold (\<lambda>tag mask. mask OR push_bit (unat (tag AND 63)) 1) tags 0"

section \<open>Evaluation\<close>

definition build_conflict_probes :: "CtxIndex \<Rightarrow> ConflictProbe list" where
  "build_conflict_probes ix =
     map (\<lambda>(_, info). \<lparr>pr_pattern_hash = ci_pattern_hash info,
        pr_conflict_count = of_nat (length (ci_atom_ids info)), pr_max_trust = 5000,
        pr_flags = (case ci_severity info of Hard \<Rightarrow> 1 | Soft \<Rightarrow> 0)\<rparr>) ix"

definition abi_claims :: "bytes \<Rightarrow> AtomBodyHeader \<Rightarrow> ClaimData list" where
  "abi_claims body h =
     parse_claims_bytes (case extract_section_bytes body h CLAIMS of None \<Rightarrow> [] | Some b \<Rightarrow> b)"

definition abi_meta :: "bytes \<Rightarrow> AtomBodyHeader \<Rightarrow> TrustLevel \<times> DomainMask \<times> u32" where
  "abi_meta body h =
     (case extract_section_bytes body h META of None \<Rightarrow> (5000, 0xFFFF, 0) | Some b \<Rightarrow> parse_meta_bytes b)"

definition abi_qc_view :: "u64 \<Rightarrow> u64 \<Rightarrow> u16 \<Rightarrow> u32 list \<Rightarrow> QueryConstraintsView" where
  "abi_qc_view query_time_from query_time_to trust_min domain_tags =
     \<lparr>qv_time_from_ns = query_time_from, qv_time_to_ns = query_time_to, qv_trust_min = trust_min,
      qv_domain_mask = tags_to_domain_mask domain_tags, qv_allowed_atom_types = - 1, qv_max_results = 100\<rparr>"

definition abi_atom_view :: "bytes \<Rightarrow> AtomBodyHeader \<Rightarrow> AtomView" where
  "abi_atom_view body h =
     (let (trust_level, body_domain, source_id) = abi_meta body h in
      \<lparr>av_atom_id = replicate 32 0,
       av_atom_type = (case atom_header_atom_type h of None \<Rightarrow> FACT | Some t \<Rightarrow> t),
       av_meta = [], av_claims = abi_claims body h, av_valid_from_ns = ab_valid_from_unix_ns h,
       av_valid_to_ns = (if ab_valid_to_unix_ns h = 0 then - 1 else ab_valid_to_unix_ns h),
       av_trust_level = trust_level, av_domain_mask = body_domain, av_source_id = 0\<rparr>)"

definition abi_ctx_view :: "CtxIndex \<Rightarrow> CtxView" where
  "abi_ctx_view ix =
     \<lparr>cv_ctx_id = 0, cv_policy_data = [], cv_conflict_probes = build_conflict_probes ix,
      cv_active_branches = of_nat (length ix)\<rparr>"

definition abi_exec_ctx :: "bytes \<Rightarrow> CtxIndex \<Rightarrow> ExecutionContext" where
  "abi_exec_ctx body ix =
     \<lparr>ec_atom_ref = body, ec_claim_ref = None, ec_ctx_index = ix, ec_source_allowlist = None\<rparr>"

definition abi_vm :: "bytes \<Rightarrow> AtomBodyHeader \<Rightarrow> nat option \<Rightarrow> CtxIndex \<Rightarrow> QueryConstraintsView \<Rightarrow>
    ConstValue list \<Rightarrow> VmInterpreter" where
  "abi_vm body h claim_idx ix qv const_pool =
     (let vm = vm_new const_pool (abi_atom_view body h) (abi_ctx_view ix) qv (abi_exec_ctx body ix) 10000
      in case claim_idx of
           Some idx \<Rightarrow> if idx < length (abi_claims body h)
             then vm_set_claim_view (abi_claims body h ! idx) vm else vm
         | None \<Rightarrow> vm)"

definition eval_invariants :: "bytes \<Rightarrow> nat option \<Rightarrow> CtxIndex \<Rightarrow> u64 \<Rightarrow> u64 \<Rightarrow> u16 \<Rightarrow> u32 list \<Rightarrow>
    AbiResult option" where
  "eval_invariants body claim_idx ix query_time_from query_time_to trust_min domain_tags =
     (case find_invariants_section body of
        None \<Rightarrow> Some Pass
      | Some inv_bytes \<Rightarrow>
          (case inv_from_bytes inv_bytes of
             Inl _ \<Rightarrow> Some corrupt
           | Inr section \<Rightarrow>
               if is_code section = [] then Some Pass
               else case parse_raw_instructions (is_code section) of
                 None \<Rightarrow> Some corrupt
               | Some instructions \<Rightarrow>
                   if instructions = [] then Some Pass
                   else case atom_header_from_bytes body of
                     Inl _ \<Rightarrow> Some corrupt
                   | Inr h \<Rightarrow>
                       (let qv = abi_qc_view query_time_from query_time_to trust_min domain_tags;
                            vm = abi_vm body h claim_idx ix qv (convert_const_pool section)
                        in case vm_execute instructions vm of
                             None \<Rightarrow> None
                           | Some (_, Inl _) \<Rightarrow> Some corrupt
                           | Some (vm, Inr r) \<Rightarrow> Some (vm_result_to_abi r (vm_reason vm)))))"

definition eval_invariants_for_atom :: "bytes \<Rightarrow> nat option \<Rightarrow> CtxIndex \<Rightarrow> QueryConstraints \<Rightarrow> AbiResult option" where
  "eval_invariants_for_atom body claim_idx ix c =
     (let (tf, tt) = (case qcs_time_range c of Some r \<Rightarrow> (tr_from_ns r, tr_to_ns r) | None \<Rightarrow> (0, - 1));
          tm = (case qcs_trust_min c of Some t \<Rightarrow> t | None \<Rightarrow> 0);
          dt = (case qcs_domain_mask c of Some m \<Rightarrow> domain_mask_to_tags m | None \<Rightarrow> [])
      in eval_invariants body claim_idx ix tf tt tm dt)"

section \<open>What an evaluation does\<close>

lemma abi_vm_sel [simp]:
  "vm_max_steps (abi_vm body h k ix qv cp) = 10000" "vm_step_count (abi_vm body h k ix qv cp) = 0"
  "vm_const_pool (abi_vm body h k ix qv cp) = cp"
  by (simp_all add: abi_vm_def vm_new_def vm_set_claim_view_def Let_def split: option.splits)

lemma vm_execute_terminates:
  assumes "vm_max_steps s \<noteq> - 1" "vm_step_count s = 0"
  shows "\<exists>t r. vm_execute is s = Some (t, r)"
proof (cases "validate is (length (vm_const_pool s)) (vm_max_steps s)")
  case (Inr x)
  from vm_loop_terminates [of s "is"] assms obtain t e where "vm_loop is s = Some (t, e)" by auto
  with Inr show ?thesis by (cases e; cases "vm_finish t") (simp_all add: vm_execute_def)
qed (simp add: vm_execute_def)

lemma ten_thousand: "(10000 :: u32) \<noteq> - 1"
  unfolding max_u32 [symmetric] by simp

text \<open>
  C27: The evaluation of the invariants of an atom always ends, for any bytes.
\<close>

theorem eval_invariants_total:
  "\<exists>r. eval_invariants body k ix tf tt tm tags = Some r"
proof -
  have "\<exists>t r. vm_execute is (abi_vm body h k ix qv cp) = Some (t, r)" for "is" h qv cp
    by (rule vm_execute_terminates) (simp_all add: ten_thousand)
  then show ?thesis
    by (simp add: eval_invariants_def Let_def split: option.splits sum.splits) (metis option.distinct(1))
qed

text \<open>The instructions a section holds.\<close>

definition code_bytes :: "Instruction list \<Rightarrow> bytes" where
  "code_bytes is = concat (map (\<lambda>i. raw_to_bytes \<lparr>ri_op = in_op i, ri_a = in_a i, ri_b = in_b i, ri_imm = in_imm i\<rparr>) is)"

lemma parse_chunk:
  "instr_opcode i = Some op \<Longrightarrow>
   parse_chunks (raw_to_bytes \<lparr>ri_op = in_op i, ri_a = in_a i, ri_b = in_b i, ri_imm = in_imm i\<rparr> # cs) =
     map_option ((#) i) (parse_chunks cs)"
proof -
  assume "instr_opcode i = Some op"
  then have "opcode_from_u16 (in_op i) = Some op" "opcode_to_u16 op = in_op i"
    by (simp_all add: instr_opcode_def opcode_code_only)
  then show ?thesis by (cases i) (simp add: raw_to_bytes_def instr_new_def)
qed

lemma raw_not_Nil [simp]: "raw_to_bytes i \<noteq> []"
  using length_raw [of i] by (metis list.size(3) zero_neq_numeral)

lemma parse_code_bytes:
  "(\<forall>i\<in>set is. instr_opcode i \<noteq> None) \<Longrightarrow> parse_raw_instructions (code_bytes is) = Some is"
proof -
  let ?raw = "\<lambda>i. \<lparr>ri_op = in_op i, ri_a = in_a i, ri_b = in_b i, ri_imm = in_imm i\<rparr>"
  have c: "code_bytes is = concat (map raw_to_bytes (map ?raw is))" by (simp add: code_bytes_def comp_def)
  have "parse_chunks (map raw_to_bytes (map ?raw is)) = Some is" if "\<forall>i\<in>set is. instr_opcode i \<noteq> None"
    using that by (induction "is") (auto simp: parse_chunk simp del: parse_chunks.simps(2))
  then show "(\<forall>i\<in>set is. instr_opcode i \<noteq> None) \<Longrightarrow> parse_raw_instructions (code_bytes is) = Some is"
    unfolding parse_raw_instructions_def c chunks16_raw length_concat_raw by (cases "is") simp_all
qed

lemma code_bytes_Nil [simp]: "code_bytes is = [] \<longleftrightarrow> is = []"
  by (cases "is") (simp_all add: code_bytes_def)

lemma eval_runs_program:
  assumes "find_invariants_section body = Some (inv_to_bytes sec)" "inv_storable sec"
    and "is_code sec = code_bytes is" "is \<noteq> []" "\<forall>i\<in>set is. instr_opcode i \<noteq> None"
    and "atom_header_from_bytes body = Inr h"
  shows "eval_invariants body k ix tf tt tm tags =
    (case vm_execute is (abi_vm body h k ix (abi_qc_view tf tt tm tags) (convert_const_pool sec)) of
       None \<Rightarrow> None
     | Some (_, Inl _) \<Rightarrow> Some corrupt
     | Some (vm, Inr r) \<Rightarrow> Some (vm_result_to_abi r (vm_reason vm)))"
  using assms inv_section_reads_back [OF assms(2)]
  by (simp add: eval_invariants_def parse_code_bytes Let_def)

text \<open>Locating the section in a body that was laid out.\<close>

lemma section_table_of_layout:
  assumes "ab_section_table_off h = 48" "length ds < 2 ^ 32" "ab_section_count h = of_nat (length ds)"
  shows "section_table (body_layout h ds payload) h = Some ds"
proof -
  have "unat (ab_section_count h) = length ds" using assms by (simp add: unat_of_nat_u32)
  moreover have l: "length (concat (map section_desc_memory ds)) = length ds * 32"
    by (simp add: length_concat comp_def sum_list_triv)
  moreover have "table_entries (length ds) (concat (map section_desc_memory ds) @ payload) =
      table_entries (length ds) (concat (map section_desc_memory ds))"
    using l by (auto simp: table_entries_def SECTION_DESC_SIZE_def)
  ultimately show ?thesis
    using assms by (simp add: section_table_def Let_def body_layout_def SECTION_DESC_SIZE_def table_entries_memory)
qed

lemma find_invariants_first:
  assumes "find_section ds INVARIANTS = Some d" "get_section_data body d = Inr data" "length body < 2 ^ 64"
  shows "find_invariants body ds = Some data"
  using assms(1)
proof (induction ds)
  case (Cons c ds)
  have k: "section_desc_kind c = Some INVARIANTS \<longleftrightarrow> sd_section_kind c = section_kind_to_u32 INVARIANTS"
    using section_kind_code_roundtrip [of INVARIANTS]
    by (auto simp: section_desc_kind_def dest: section_kind_code_only)
  show ?case
  proof (cases "section_desc_kind c = Some INVARIANTS")
    case True
    with Cons.prems have "c = d" by (simp add: find_section_def)
    moreover from assms(2,3) have b: "unat (sd_off d) + unat (sd_len d) \<le> length body"
      and "data = take (unat (sd_len d)) (drop (unat (sd_off d)) body)"
      by (simp_all add: get_section_data_iff)
    moreover from b assms(3) have "checked_add (sd_off d) (sd_len d) = Some (sd_off d + sd_len d)"
        "unat (sd_off d + sd_len d) = unat (sd_off d) + unat (sd_len d)"
      by (simp_all add: checked_add_def unat_word_ariths)
    ultimately show ?thesis using True k by simp
  next
    case False
    with Cons k show ?thesis by (simp add: find_section_def)
  qed
qed (simp add: find_section_def)

lemma find_invariants_section_of_layout:
  assumes "body = body_layout h ds payload" "atom_validate_magic h" "ab_section_table_off h = 48"
    and "length ds < 2 ^ 32" "ab_section_count h = of_nat (length ds)" "length body < 2 ^ 64"
    and "find_section ds INVARIANTS = Some d" "get_section_data body d = Inr data"
  shows "find_invariants_section body = Some data"
  using assms find_invariants_first [OF assms(7,8,6)] section_table_of_layout [OF assms(3,4,5), of payload]
  by (simp add: find_invariants_section_def atom_header_of_layout)
    (simp add: body_layout_def ATOM_HEADER_SIZE_def)

lemma abi_vm_no_claim: "abi_vm body h None ix qv cp =
    vm_new cp (abi_atom_view body h) (abi_ctx_view ix) qv (abi_exec_ctx body ix) 10000"
  by (simp add: abi_vm_def Let_def)

text \<open>
  C24: An atom body that carries the basic program passes exactly when time, trust and domain
  match, and fails hard with the reason of the first check that does not.
\<close>

theorem eval_basic_program:
  assumes body: "body = body_layout (atom_header_new ty (of_nat (length ds)) created vfrom vto) ds payload"
    and "length ds < 2 ^ 32" "length body < 2 ^ 64"
    and "find_section ds INVARIANTS = Some d" "get_section_data body d = Inr (inv_to_bytes sec)"
    and "inv_storable sec" "is_code sec = code_bytes (fst build_basic_invariant_program)" "is_const_pool sec = []"
  shows "eval_invariants body None ix tf tt tm tags =
    Some (case first_failure (abi_atom_view body (atom_header_new ty (of_nat (length ds)) created vfrom vto))
              (abi_qc_view tf tt tm tags) of
        None \<Rightarrow> Pass | Some reason \<Rightarrow> FailHard (reason_code_to_u16 reason))"
proof -
  let ?h = "atom_header_new ty (of_nat (length ds)) created vfrom vto"
  let ?av = "abi_atom_view body ?h" and ?qv = "abi_qc_view tf tt tm tags"
  have h: "atom_validate_magic ?h" "ab_section_table_off ?h = 48" "ab_section_count ?h = of_nat (length ds)"
    by (simp_all add: atom_header_new_def atom_validate_magic_def ATOM_HEADER_SIZE_def)
  have f: "find_invariants_section body = Some (inv_to_bytes sec)"
    using find_invariants_section_of_layout [OF body h(1,2) assms(2) h(3) assms(3,4,5)] .
  have o: "\<forall>i\<in>set (fst build_basic_invariant_program). instr_opcode i \<noteq> None" "fst build_basic_invariant_program \<noteq> []"
    by (simp_all add: basic_program)
  have c: "convert_const_pool sec = snd build_basic_invariant_program"
    using assms(8) by (simp add: convert_const_pool_def basic_program)
  have e: "eval_invariants body None ix tf tt tm tags =
    (case vm_execute (fst build_basic_invariant_program) (abi_vm body ?h None ix ?qv (convert_const_pool sec)) of
       None \<Rightarrow> None
     | Some (_, Inl _) \<Rightarrow> Some corrupt
     | Some (vm, Inr r) \<Rightarrow> Some (vm_result_to_abi r (vm_reason vm)))"
    by (rule eval_runs_program [OF f assms(6,7) o(2,1)]) (simp add: body atom_header_of_layout h)
  have "run_program build_basic_invariant_program ?av (abi_ctx_view ix) ?qv (abi_exec_ctx body ix) 10000 =
     Some (case first_failure ?av ?qv of Some r \<Rightarrow> (Inr FAIL_HARD, r) | None \<Rightarrow> (Inr PASS, TIME_INVALID))"
    by (rule basic_program_runs) simp
  then show ?thesis
    unfolding e c abi_vm_no_claim run_program_def
    by (auto simp: vm_result_to_abi_def split: option.splits prod.splits)
qed

theorem eval_basic_program_witness:
  "let sec = \<lparr>is_const_pool = [], is_code = code_bytes (fst build_basic_invariant_program), is_inv_count = 1\<rparr>;
       payload = inv_to_bytes sec;
       body = body_layout (atom_header_new FACT 1 0 1 9) [section_desc_new INVARIANTS 80 (of_nat (length payload)) payload] payload
   in eval_invariants body None [] 3 4 0 [] = Some Pass"
proof -
  let ?sec = "\<lparr>is_const_pool = [], is_code = code_bytes (fst build_basic_invariant_program), is_inv_count = 1\<rparr>"
  let ?p = "inv_to_bytes ?sec"
  let ?d = "section_desc_new INVARIANTS 80 (of_nat (length ?p)) ?p"
  let ?h = "atom_header_new FACT 1 0 1 9"
  let ?body = "body_layout ?h [?d] ?p"
  have p: "length ?p = 32 + 16 * length (fst build_basic_invariant_program)"
    by (simp add: Let_def inv_to_bytes_def INV_CONST_POOL_ALIGNMENT_def INVARIANTS_HEADER_SIZE_def inv_header_to_bytes_def code_bytes_def basic_program length_concat)
  then have c: "inv_storable ?sec" by (simp add: inv_storable_def basic_program)
  have g: "get_section_data ?body ?d = Inr ?p"
    using p drop_body_layout [of "[?d]"] by (subst get_section_data_iff) (simp_all add: section_desc_new_def basic_program)
  have "find_section [?d] INVARIANTS = Some ?d"
    by (simp add: find_section_def section_desc_new_def section_desc_kind_def section_kind_from_u32_def)
  moreover have "first_failure (abi_atom_view ?body ?h) (abi_qc_view 3 4 0 []) = None"
    by (simp add: first_failure_def time_ok_def checks_as_coded abi_atom_view_def abi_qc_view_def atom_header_new_def
        tags_to_domain_mask_def split: prod.splits)
  ultimately show ?thesis using eval_basic_program [of ?body FACT "[?d]" 0 1 9 ?p ?d ?sec "[]" 3 4 0 "[]"] p c g
    by (simp add: Let_def basic_program)
qed

text \<open>An INVARIANTS section that reaches beyond the body is passed over, and the atom passes.\<close>

lemma find_invariants_out_of_bounds:
  "(\<And>d. d \<in> set ds \<Longrightarrow> section_desc_kind d = Some INVARIANTS \<Longrightarrow>
      length body < unat (sd_off d) + unat (sd_len d)) \<Longrightarrow> find_invariants body ds = None"
proof (induction ds)
  case (Cons d ds)
  have "find_invariants body ds = None" using Cons.prems by (intro Cons.IH) simp
  moreover have "section_desc_kind d = Some INVARIANTS" if "sd_section_kind d = section_kind_to_u32 INVARIANTS"
    using that section_kind_code_roundtrip [of INVARIANTS] by (simp add: section_desc_kind_def)
  moreover have "\<not> unat e \<le> length body"
    if "sd_section_kind d = section_kind_to_u32 INVARIANTS" "checked_add (sd_off d) (sd_len d) = Some e" for e
    using Cons.prems [of d] that calculation(2) checked_add_Some [OF that(2)] by simp
  ultimately show ?case by (auto split: option.splits)
qed simp

text \<open>
  C36: When every INVARIANTS section of a body lies (partly) outside of it, the evaluation passes.
\<close>

theorem eval_fails_open:
  assumes "body = body_layout (atom_header_new ty (of_nat (length ds)) created vfrom vto) ds payload"
    and "length ds < 2 ^ 32"
    and "\<And>d. d \<in> set ds \<Longrightarrow> section_desc_kind d = Some INVARIANTS \<Longrightarrow>
      length body < unat (sd_off d) + unat (sd_len d)"
  shows "eval_invariants body k ix tf tt tm tags = Some Pass"
proof -
  let ?h = "atom_header_new ty (of_nat (length ds)) created vfrom vto"
  have h: "atom_validate_magic ?h" "ab_section_table_off ?h = 48" "ab_section_count ?h = of_nat (length ds)"
    by (simp_all add: atom_header_new_def atom_validate_magic_def ATOM_HEADER_SIZE_def)
  have "find_invariants body ds = None" using assms(3) by (rule find_invariants_out_of_bounds)
  then have "find_invariants_section body = None"
    using section_table_of_layout [OF h(2) assms(2) h(3), of payload] h(1)
    by (simp add: find_invariants_section_def assms(1) atom_header_of_layout)
  then show ?thesis by (simp add: eval_invariants_def)
qed

theorem eval_fails_open_witness:
  "eval_invariants (body_layout (atom_header_new FACT 1 0 1 9) [section_desc_new INVARIANTS 80 100 []] [])
     None [] 3 4 0 [] = Some Pass"
  by (rule eval_fails_open [where ds = "[section_desc_new INVARIANTS 80 100 []]"])
    (simp_all add: section_desc_new_def)

text \<open>Code that is not a sequence of instructions, and code the validator or the machine rejects,
  fails hard.\<close>

theorem eval_fails_closed:
  assumes "find_invariants_section body = Some (inv_to_bytes sec)" "inv_storable sec" "is_code sec \<noteq> []"
    and "length (is_code sec) mod 16 \<noteq> 0 \<or>
      (\<exists>is. is_code sec = code_bytes is \<and> (\<forall>i\<in>set is. instr_opcode i \<noteq> None) \<and>
         (\<exists>e. validate is (length (is_const_pool sec)) 10000 = Inl e))"
  shows "eval_invariants body k ix tf tt tm tags = Some corrupt"
  using assms(4)
proof
  assume "length (is_code sec) mod 16 \<noteq> 0"
  then have "parse_raw_instructions (is_code sec) = None" by (simp add: parse_raw_instructions_def)
  with assms(1,3) inv_section_reads_back [OF assms(2)] show ?thesis by (simp add: eval_invariants_def)
next
  assume "\<exists>is. is_code sec = code_bytes is \<and> (\<forall>i\<in>set is. instr_opcode i \<noteq> None) \<and>
         (\<exists>e. validate is (length (is_const_pool sec)) 10000 = Inl e)"
  then obtain "is" e where c: "is_code sec = code_bytes is" "\<forall>i\<in>set is. instr_opcode i \<noteq> None"
    and v: "validate is (length (is_const_pool sec)) 10000 = Inl e" by blast
  from c(1) assms(3) have ne: "is \<noteq> []" by auto
  from v have "vm_execute is (abi_vm body h k ix qv (convert_const_pool sec)) = Some (vm, Inl (ValidationFailed e)) \<longleftrightarrow>
      vm = abi_vm body h k ix qv (convert_const_pool sec)" for h qv vm
    by (auto simp: vm_execute_def convert_const_pool_def)
  then have x: "vm_execute is (abi_vm body h k ix qv (convert_const_pool sec)) =
      Some (abi_vm body h k ix qv (convert_const_pool sec), Inl (ValidationFailed e))" for h qv
    by blast
  show ?thesis
    using assms(1) inv_section_reads_back [OF assms(2)] c ne x
    by (simp add: eval_invariants_def parse_code_bytes Let_def split: sum.splits)
qed

text \<open>
  The claims the machine sees are not the claims that were stored: the parser takes the magic
  and the count of the section for a claim.
\<close>

theorem abi_misreads_claims:
  "\<exists>cs. parse_claims_bytes (claims_to_bytes [c]) =
     \<lparr>cd_subj = 0x4C43, cd_pred = 0x324D, cd_obj_tag = 1, cd_obj_val = 0, cd_qualifiers_mask = 0\<rparr> # cs"
proof -
  have m: "claims_to_bytes [c] = [0x43, 0x4C, 0x4D, 0x32, 1, 0, 0, 0] @ claim_to_bytes c"
  proof -
    have "len_le 1 = [1, 0, 0, 0]" by code_simp
    then show ?thesis by (simp add: claims_to_bytes_def CLAIMS_V2_MAGIC_def)
  qed
  define t where "t = claim_to_bytes c"
  define bs where "bs = [0x43, 0x4C, 0x4D, 0x32, 1, 0, 0, 0] @ t"
  have f: "\<not> length bs < 5" "bs ! 4 = 1" "u16_at 0 bs = 0x4C43" "u16_at 2 bs = 0x324D" "drop 5 bs = 0 # 0 # 0 # t"
    by (simp_all add: bs_def le_u16_def)
  have "obj_tag_from_u8 1 = Some BOOL" by (simp add: obj_tag_from_u8_def)
  moreover have "le_u64 (take 1 (0 # 0 # 0 # t) @ replicate 7 0) = 0"
  proof -
    have "le_u64 ([0] @ replicate 7 0) = 0" by code_simp
    then show ?thesis by simp
  qed
  ultimately have "parse_cas_claims bs =
     \<lparr>cd_subj = 0x4C43, cd_pred = 0x324D, cd_obj_tag = 1, cd_obj_val = 0, cd_qualifiers_mask = 0\<rparr> #
     parse_cas_claims (0 # 0 # t)"
    using f by (subst parse_cas_claims.simps) (simp add: claim_obj_len_def Let_def)
  then show ?thesis unfolding m t_def [symmetric] bs_def [symmetric] parse_claims_bytes_def
    using f(1) by simp
qed

section \<open>Domain masks and result codes\<close>

lemma unat_and_63: "n < 64 \<Longrightarrow> unat ((of_nat n :: u32) AND 63) = n"
proof -
  assume n: "n < 64"
  have "(of_nat n :: u32) AND 63 = take_bit 6 (of_nat n)" by (simp add: take_bit_eq_mask mask_numeral)
  then have "unat ((of_nat n :: u32) AND 63) = take_bit 6 (unat (of_nat n :: u32))"
    by (simp add: unsigned_take_bit_eq)
  also have "\<dots> = n" using n by (simp add: unat_of_nat take_bit_nat_def)
  finally show ?thesis .
qed

lemma tags_fold_or: "fold (\<lambda>tag m. m OR push_bit (unat (tag AND 63)) 1) tags (m :: u64) = m OR tags_to_domain_mask tags"
proof (induction tags arbitrary: m)
  case (Cons t tags)
  have "tags_to_domain_mask (t # tags) = push_bit (unat (t AND 63)) 1 OR tags_to_domain_mask tags"
    using Cons.IH [of "push_bit (unat (t AND 63)) 1"] by (simp add: tags_to_domain_mask_def)
  with Cons.IH [of "m OR push_bit (unat (t AND 63)) 1"] show ?case by (simp add: or.assoc)
qed (simp add: tags_to_domain_mask_def)

lemma tags_to_domain_mask_Cons:
  "tags_to_domain_mask (t # tags) = push_bit (unat (t AND 63)) 1 OR tags_to_domain_mask tags"
  using tags_fold_or [of tags "push_bit (unat (t AND 63)) 1"] by (simp add: tags_to_domain_mask_def)

theorem domain_tags_roundtrip: "tags_to_domain_mask (domain_mask_to_tags m) = m"
  unfolding domain_mask_to_tags_def
proof (induction m rule: mask_tags.induct)
  case (1 m)
  show ?case
  proof (cases "m = 0")
    case True
    then show ?thesis by (simp add: mask_tags.simps tags_to_domain_mask_def)
  next
    case False
    let ?b = "trailing_zeros m"
    have b: "bit m ?b" "?b < 64" using trailing_zeros_bit [OF False] by simp_all
    have "tags_to_domain_mask (mask_tags m) = push_bit ?b 1 OR (m AND NOT (push_bit ?b 1))"
      using 1 False b(2) by (subst mask_tags.simps) (simp add: Let_def tags_to_domain_mask_Cons unat_and_63)
    also have "\<dots> = m"
      by (rule bit_word_eqI) (use b in \<open>auto simp: bit_simps\<close>)
    finally show ?thesis .
  qed
qed

lemma result_code_roundtrip:
  "abi_from_result_code (abi_to_result_code r) reason =
     (case r of Pass \<Rightarrow> Pass | FailSoft _ \<Rightarrow> FailSoft reason | FailHard _ \<Rightarrow> FailHard reason
      | NeedBranch _ \<Rightarrow> NeedBranch (ucast reason))"
  by (cases r) (simp_all add: abi_from_result_code_def)

end
