(* ===== verification/Graph_Format.thy ===== *)
theory Graph_Format
  imports Store_Types Crc32 "HOL-Library.Product_Lexorder"
begin

text \<open>
  The records and files of the graph store (\<open>src/graph/store.rs\<close>): edge attributes, edge list
  entries, the manifest, delta headers, the compressed sparse rows of one edge type and the delta
  layers. The attributes, the entries and the delta header are \<open>repr(C)\<close> structures without padding
  that the code copies from and to memory; on the little-endian targets of the program that is the
  concatenation of their fields. Files are a map from a directory and a file name to bytes; the
  directory exists and the file system reports no errors but missing files and early ends.
\<close>

type_synonym TimeBucket = u32

section \<open>Results and files\<close>

text \<open>The kinds of \<open>io::Error\<close> the graph store gives or passes on.\<close>

datatype GraphIo = IoNotFound | IoPermissionDenied | IoInvalidData | IoUnexpectedEof

type_synonym 'a run = "(GraphIo, 'a) res"
type_synonym files = "(string \<times> string, bytes) hmap"

abbreviation fs_exists :: "files \<Rightarrow> string \<Rightarrow> string \<Rightarrow> bool" where
  "fs_exists fs dir f \<equiv> map_of fs (dir, f) \<noteq> None"

abbreviation fs_write :: "string \<Rightarrow> string \<Rightarrow> bytes \<Rightarrow> files \<Rightarrow> files" where
  "fs_write dir f bs fs \<equiv> AList.update (dir, f) bs fs"

abbreviation fs_remove :: "string \<Rightarrow> string \<Rightarrow> files \<Rightarrow> files" where
  "fs_remove dir f fs \<equiv> AList.delete (dir, f) fs"

section \<open>Constants\<close>

definition GRAPH_MAGIC :: u32 where "GRAPH_MAGIC = 0x47524D31"
definition GRAPH_VERSION :: u16 where "GRAPH_VERSION = 0x0101"
definition MAX_INLINE_DELTAS :: nat where "MAX_INLINE_DELTAS = 14"
definition MAX_DELTA_LAYERS :: nat where "MAX_DELTA_LAYERS = 8"
definition DELTA_MAGIC :: u32 where "DELTA_MAGIC = 0x44454C54"
definition FLAG_DELETED :: u16 where "FLAG_DELETED = 0x0001"
definition FLAG_COMPACTED :: u16 where "FLAG_COMPACTED = 0x0002"
definition FLAG_READONLY :: u16 where "FLAG_READONLY = 0x0004"
definition EDGE_ATTR_SIZE :: nat where "EDGE_ATTR_SIZE = 16"
definition EDGE_ENTRY_SIZE :: nat where "EDGE_ENTRY_SIZE = 32"
definition MANIFEST_SIZE :: nat where "MANIFEST_SIZE = 96"
definition DELTA_HEADER_SIZE :: nat where "DELTA_HEADER_SIZE = 32"
definition MANIFEST_FILE :: string where "MANIFEST_FILE = ''graph.manifest''"

lemmas graph_constants = GRAPH_MAGIC_def GRAPH_VERSION_def MAX_INLINE_DELTAS_def DELTA_MAGIC_def
  EDGE_ATTR_SIZE_def EDGE_ENTRY_SIZE_def MANIFEST_SIZE_def DELTA_HEADER_SIZE_def

definition edges_file :: "EdgeType \<Rightarrow> string \<Rightarrow> string" where
  "edges_file edge_type suffix = ''edges_'' @ dec (unat (edge_type_to_u32 edge_type)) @ suffix"

definition delta_file :: "u32 \<Rightarrow> string" where
  "delta_file i = ''delta_'' @ dec (unat i) @ ''.edges''"

section \<open>Edge attributes\<close>

record EdgeAttr =
  ea_confidence_q :: u16
  ea_flags :: u16
  ea_valid_from_bucket :: u32
  ea_valid_to_bucket :: u32
  ea_reserved :: u32

definition edge_attr_with_flags :: "TrustLevel \<Rightarrow> TimeBucket \<Rightarrow> TimeBucket \<Rightarrow> u16 \<Rightarrow> EdgeAttr" where
  "edge_attr_with_flags confidence valid_from valid_to flags =
     \<lparr>ea_confidence_q = confidence, ea_flags = flags, ea_valid_from_bucket = valid_from,
      ea_valid_to_bucket = valid_to, ea_reserved = 0\<rparr>"

definition edge_attr_new :: "TrustLevel \<Rightarrow> TimeBucket \<Rightarrow> TimeBucket \<Rightarrow> EdgeAttr" where
  "edge_attr_new confidence valid_from valid_to = edge_attr_with_flags confidence valid_from valid_to 0"

definition edge_attr_is_deleted :: "EdgeAttr \<Rightarrow> bool" where
  "edge_attr_is_deleted a \<longleftrightarrow> ea_flags a AND FLAG_DELETED \<noteq> 0"

definition edge_attr_is_valid_at :: "EdgeAttr \<Rightarrow> TimeBucket \<Rightarrow> bool" where
  "edge_attr_is_valid_at a bucket \<longleftrightarrow> bucket \<ge> ea_valid_from_bucket a \<and>
     (ea_valid_to_bucket a = 0 \<or> bucket < ea_valid_to_bucket a)"

definition edge_attr_mark_deleted :: "EdgeAttr \<Rightarrow> EdgeAttr" where
  "edge_attr_mark_deleted a = a\<lparr>ea_flags := ea_flags a OR FLAG_DELETED\<rparr>"

definition edge_attr_memory :: "EdgeAttr \<Rightarrow> bytes" where
  "edge_attr_memory a = u16_le (ea_confidence_q a) @ u16_le (ea_flags a) @ u32_le (ea_valid_from_bucket a) @
     u32_le (ea_valid_to_bucket a) @ u32_le (ea_reserved a)"

definition edge_attr_read :: "bytes \<Rightarrow> EdgeAttr" where
  "edge_attr_read bs =
     \<lparr>ea_confidence_q = u16_at 0 bs, ea_flags = u16_at 2 bs, ea_valid_from_bucket = u32_at 4 bs,
      ea_valid_to_bucket = u32_at 8 bs, ea_reserved = u32_at 12 bs\<rparr>"

definition edge_attr_from_bytes :: "bytes \<Rightarrow> EdgeAttr option" where
  "edge_attr_from_bytes bs = (if length bs < EDGE_ATTR_SIZE then None else Some (edge_attr_read bs))"

text \<open>The result and the buffer after the call.\<close>

definition edge_attr_write_to_bytes :: "EdgeAttr \<Rightarrow> bytes \<Rightarrow> bool \<times> bytes" where
  "edge_attr_write_to_bytes a bs =
     (if length bs < EDGE_ATTR_SIZE then (False, bs) else (True, edge_attr_memory a @ drop EDGE_ATTR_SIZE bs))"

section \<open>Edge list entries\<close>

record EdgeListEntry =
  ee_src_node :: u64
  ee_dst_node :: u64
  ee_edge_type :: u32
  ee_confidence_q :: u16
  ee_flags :: u16
  ee_valid_from_bucket :: u32
  ee_valid_to_bucket :: u32

definition edge_entry_with_flags ::
    "NodeNum \<Rightarrow> NodeNum \<Rightarrow> EdgeType \<Rightarrow> TrustLevel \<Rightarrow> TimeBucket \<Rightarrow> TimeBucket \<Rightarrow> u16 \<Rightarrow> EdgeListEntry" where
  "edge_entry_with_flags src_node dst_node edge_type confidence valid_from valid_to flags =
     \<lparr>ee_src_node = src_node, ee_dst_node = dst_node, ee_edge_type = edge_type_to_u32 edge_type,
      ee_confidence_q = confidence, ee_flags = flags, ee_valid_from_bucket = valid_from,
      ee_valid_to_bucket = valid_to\<rparr>"

definition edge_entry_new ::
    "NodeNum \<Rightarrow> NodeNum \<Rightarrow> EdgeType \<Rightarrow> TrustLevel \<Rightarrow> TimeBucket \<Rightarrow> TimeBucket \<Rightarrow> EdgeListEntry" where
  "edge_entry_new src_node dst_node edge_type confidence valid_from valid_to =
     edge_entry_with_flags src_node dst_node edge_type confidence valid_from valid_to 0"

definition edge_entry_type :: "EdgeListEntry \<Rightarrow> EdgeType option" where
  "edge_entry_type e = edge_type_from_u32 (ee_edge_type e)"

definition edge_entry_is_deleted :: "EdgeListEntry \<Rightarrow> bool" where
  "edge_entry_is_deleted e \<longleftrightarrow> ee_flags e AND FLAG_DELETED \<noteq> 0"

definition edge_entry_is_valid_at :: "EdgeListEntry \<Rightarrow> TimeBucket \<Rightarrow> bool" where
  "edge_entry_is_valid_at e bucket \<longleftrightarrow> bucket \<ge> ee_valid_from_bucket e \<and>
     (ee_valid_to_bucket e = 0 \<or> bucket < ee_valid_to_bucket e)"

definition edge_entry_tombstone :: "NodeNum \<Rightarrow> NodeNum \<Rightarrow> EdgeType \<Rightarrow> EdgeListEntry" where
  "edge_entry_tombstone src_node dst_node edge_type =
     (let entry = edge_entry_new src_node dst_node edge_type 0 0 0
      in entry\<lparr>ee_flags := ee_flags entry OR FLAG_DELETED\<rparr>)"

text \<open>The order of entries; \<open>sort\<close> of the standard library is stable.\<close>

definition edge_entry_key :: "EdgeListEntry \<Rightarrow> u32 \<times> u64 \<times> u64" where
  "edge_entry_key e = (ee_edge_type e, ee_src_node e, ee_dst_node e)"

definition sort_entries :: "EdgeListEntry list \<Rightarrow> EdgeListEntry list" where
  "sort_entries es = sort_key edge_entry_key es"

definition edge_entry_memory :: "EdgeListEntry \<Rightarrow> bytes" where
  "edge_entry_memory e = u64_le (ee_src_node e) @ u64_le (ee_dst_node e) @ u32_le (ee_edge_type e) @
     u16_le (ee_confidence_q e) @ u16_le (ee_flags e) @ u32_le (ee_valid_from_bucket e) @
     u32_le (ee_valid_to_bucket e)"

definition edge_entry_read :: "bytes \<Rightarrow> EdgeListEntry" where
  "edge_entry_read bs =
     \<lparr>ee_src_node = u64_at 0 bs, ee_dst_node = u64_at 8 bs, ee_edge_type = u32_at 16 bs,
      ee_confidence_q = u16_at 20 bs, ee_flags = u16_at 22 bs, ee_valid_from_bucket = u32_at 24 bs,
      ee_valid_to_bucket = u32_at 28 bs\<rparr>"

definition edge_entry_from_bytes :: "bytes \<Rightarrow> EdgeListEntry option" where
  "edge_entry_from_bytes bs = (if length bs < EDGE_ENTRY_SIZE then None else Some (edge_entry_read bs))"

definition edge_entry_write_to_bytes :: "EdgeListEntry \<Rightarrow> bytes \<Rightarrow> bool \<times> bytes" where
  "edge_entry_write_to_bytes e bs =
     (if length bs < EDGE_ENTRY_SIZE then (False, bs) else (True, edge_entry_memory e @ drop EDGE_ENTRY_SIZE bs))"

section \<open>Manifest\<close>

record GraphManifest =
  gm_magic :: u32
  gm_ver :: u16
  gm_flags :: u16
  gm_base_gen :: u32
  gm_node_count :: u64
  gm_edge_type_mask :: u64
  gm_delta_count :: u32
  gm_reserved1 :: u32
  gm_delta_ids :: "u32 list"

definition manifest_new :: "u64 \<Rightarrow> GraphManifest" where
  "manifest_new node_count =
     \<lparr>gm_magic = GRAPH_MAGIC, gm_ver = GRAPH_VERSION, gm_flags = FLAG_COMPACTED, gm_base_gen = 0,
      gm_node_count = node_count, gm_edge_type_mask = 0, gm_delta_count = 0, gm_reserved1 = 0,
      gm_delta_ids = replicate MAX_INLINE_DELTAS 0\<rparr>"

definition manifest_validate_magic :: "GraphManifest \<Rightarrow> bool" where
  "manifest_validate_magic m \<longleftrightarrow> gm_magic m = GRAPH_MAGIC \<and> gm_ver m = GRAPH_VERSION"

definition manifest_has_edge_type :: "EdgeType \<Rightarrow> GraphManifest \<Rightarrow> bool" where
  "manifest_has_edge_type edge_type m =
     (let b = edge_type_to_u32 edge_type - 1 in
      if b \<ge> 64 then False else gm_edge_type_mask m AND push_bit (unat b) 1 \<noteq> 0)"

definition manifest_mark_edge_type :: "EdgeType \<Rightarrow> GraphManifest \<Rightarrow> GraphManifest" where
  "manifest_mark_edge_type edge_type m =
     (let b = edge_type_to_u32 edge_type - 1 in
      if b < 64 then m\<lparr>gm_edge_type_mask := gm_edge_type_mask m OR push_bit (unat b) 1\<rparr> else m)"

definition manifest_add_delta :: "u32 \<Rightarrow> GraphManifest \<Rightarrow> GraphManifest \<times> bool" where
  "manifest_add_delta delta_id m =
     (if unat (gm_delta_count m) \<ge> MAX_INLINE_DELTAS then (m, False)
      else (m\<lparr>gm_delta_ids := (gm_delta_ids m)[unat (gm_delta_count m) := delta_id],
              gm_delta_count := gm_delta_count m + 1,
              gm_flags := gm_flags m AND NOT FLAG_COMPACTED\<rparr>, True))"

definition manifest_is_compacted :: "GraphManifest \<Rightarrow> bool" where
  "manifest_is_compacted m \<longleftrightarrow> gm_flags m AND FLAG_COMPACTED \<noteq> 0"

definition manifest_mark_compacted :: "GraphManifest \<Rightarrow> GraphManifest" where
  "manifest_mark_compacted m =
     m\<lparr>gm_flags := gm_flags m OR FLAG_COMPACTED, gm_delta_count := 0,
       gm_delta_ids := replicate MAX_INLINE_DELTAS 0\<rparr>"

definition manifest_is_readonly :: "GraphManifest \<Rightarrow> bool" where
  "manifest_is_readonly m \<longleftrightarrow> gm_flags m AND FLAG_READONLY \<noteq> 0"

definition manifest_mark_readonly :: "GraphManifest \<Rightarrow> GraphManifest" where
  "manifest_mark_readonly m = m\<lparr>gm_flags := gm_flags m OR FLAG_READONLY\<rparr>"

definition manifest_from_bytes :: "bytes \<Rightarrow> GraphManifest option" where
  "manifest_from_bytes bs =
     (if length bs < MANIFEST_SIZE then None
      else
        (let m = \<lparr>gm_magic = u32_at 0 bs, gm_ver = u16_at 4 bs, gm_flags = u16_at 6 bs,
               gm_base_gen = u32_at 8 bs, gm_node_count = u64_at 16 bs, gm_edge_type_mask = u64_at 24 bs,
               gm_delta_count = u32_at 32 bs, gm_reserved1 = u32_at 36 bs,
               gm_delta_ids = map (\<lambda>i. u32_at (40 + i * 4) bs) [0..<MAX_INLINE_DELTAS]\<rparr>
         in if \<not> manifest_validate_magic m \<or> unat (gm_delta_count m) > MAX_INLINE_DELTAS then None
            else Some m))"

text \<open>The 96 bytes of a manifest: four bytes of padding follow the generation.\<close>

definition manifest_memory :: "GraphManifest \<Rightarrow> bytes" where
  "manifest_memory m =
     u32_le (gm_magic m) @ u16_le (gm_ver m) @ u16_le (gm_flags m) @ u32_le (gm_base_gen m) @
     [0, 0, 0, 0] @ u64_le (gm_node_count m) @ u64_le (gm_edge_type_mask m) @
     u32_le (gm_delta_count m) @ u32_le (gm_reserved1 m) @ concat (map u32_le (gm_delta_ids m))"

definition manifest_write_to_bytes :: "GraphManifest \<Rightarrow> bytes \<Rightarrow> bool \<times> bytes" where
  "manifest_write_to_bytes m bs =
     (if length bs < MANIFEST_SIZE then (False, bs) else (True, manifest_memory m @ drop MANIFEST_SIZE bs))"

definition manifest_read_from_file :: "string \<Rightarrow> string \<Rightarrow> files \<Rightarrow> GraphManifest run" where
  "manifest_read_from_file dir f fs =
     (case map_of fs (dir, f) of
        None \<Rightarrow> Err IoNotFound
      | Some bs \<Rightarrow>
          if length bs < MANIFEST_SIZE then Err IoUnexpectedEof
          else ok_or (manifest_from_bytes (take MANIFEST_SIZE bs)) IoInvalidData)"

definition manifest_write_to_file :: "string \<Rightarrow> string \<Rightarrow> GraphManifest \<Rightarrow> files \<Rightarrow> files" where
  "manifest_write_to_file dir f m fs =
     fs_write dir f (snd (manifest_write_to_bytes m (replicate MANIFEST_SIZE 0))) fs"

section \<open>Delta header\<close>

record DeltaHeader =
  dh_magic :: u32
  dh_ver :: u16
  dh_flags :: u16
  dh_delta_id :: u32
  dh_base_gen :: u32
  dh_edge_count :: u32
  dh_reserved1 :: u32
  dh_crc32 :: u32
  dh_reserved2 :: u32

definition delta_header_new :: "u32 \<Rightarrow> u32 \<Rightarrow> u32 \<Rightarrow> DeltaHeader" where
  "delta_header_new delta_id base_gen edge_count =
     \<lparr>dh_magic = DELTA_MAGIC, dh_ver = GRAPH_VERSION, dh_flags = 0, dh_delta_id = delta_id,
      dh_base_gen = base_gen, dh_edge_count = edge_count, dh_reserved1 = 0, dh_crc32 = 0, dh_reserved2 = 0\<rparr>"

definition delta_header_memory :: "DeltaHeader \<Rightarrow> bytes" where
  "delta_header_memory h = u32_le (dh_magic h) @ u16_le (dh_ver h) @ u16_le (dh_flags h) @
     u32_le (dh_delta_id h) @ u32_le (dh_base_gen h) @ u32_le (dh_edge_count h) @ u32_le (dh_reserved1 h) @
     u32_le (dh_crc32 h) @ u32_le (dh_reserved2 h)"

definition delta_header_read :: "bytes \<Rightarrow> DeltaHeader" where
  "delta_header_read bs =
     \<lparr>dh_magic = u32_at 0 bs, dh_ver = u16_at 4 bs, dh_flags = u16_at 6 bs, dh_delta_id = u32_at 8 bs,
      dh_base_gen = u32_at 12 bs, dh_edge_count = u32_at 16 bs, dh_reserved1 = u32_at 20 bs,
      dh_crc32 = u32_at 24 bs, dh_reserved2 = u32_at 28 bs\<rparr>"

definition delta_header_validate_magic :: "DeltaHeader \<Rightarrow> bool" where
  "delta_header_validate_magic h \<longleftrightarrow> dh_magic h = DELTA_MAGIC \<and> dh_ver h = GRAPH_VERSION"

definition delta_header_compute_crc :: "DeltaHeader \<Rightarrow> u32" where
  "delta_header_compute_crc h = crc32 (take 24 (delta_header_memory h))"

definition delta_header_validate_crc :: "DeltaHeader \<Rightarrow> bool" where
  "delta_header_validate_crc h \<longleftrightarrow> dh_crc32 h = delta_header_compute_crc h"

definition delta_header_from_bytes :: "bytes \<Rightarrow> DeltaHeader option" where
  "delta_header_from_bytes bs =
     (if length bs < DELTA_HEADER_SIZE then None
      else let header = delta_header_read bs in
        if \<not> delta_header_validate_magic header \<or> \<not> delta_header_validate_crc header then None
        else Some header)"

text \<open>The header after the call, the result and the buffer.\<close>

definition delta_header_write_to_bytes :: "DeltaHeader \<Rightarrow> bytes \<Rightarrow> DeltaHeader \<times> bool \<times> bytes" where
  "delta_header_write_to_bytes h bs =
     (if length bs < DELTA_HEADER_SIZE then (h, False, bs)
      else let h = h\<lparr>dh_crc32 := delta_header_compute_crc h\<rparr>
           in (h, True, delta_header_memory h @ drop DELTA_HEADER_SIZE bs))"

section \<open>Compressed sparse rows\<close>

record CsrView =
  cv_node_count :: u64
  cv_offsets :: "u64 list"
  cv_targets_data :: bytes
  cv_attrs :: "EdgeAttr list"

definition csr_view_new_unchecked :: "u64 \<Rightarrow> u64 list \<Rightarrow> bytes \<Rightarrow> EdgeAttr list \<Rightarrow> CsrView option" where
  "csr_view_new_unchecked node_count offsets targets_data attrs =
     (if length offsets \<noteq> unat (node_count + 1) then None
      else Some \<lparr>cv_node_count = node_count, cv_offsets = offsets, cv_targets_data = targets_data,
                 cv_attrs = attrs\<rparr>)"

definition csr_view_edge_count :: "CsrView \<Rightarrow> u64 run" where
  "csr_view_edge_count v =
     (if cv_node_count v = 0 then Ok 0
      else if unat (cv_node_count v) < length (cv_offsets v) then Ok (cv_offsets v ! unat (cv_node_count v))
      else Panic)"

definition neighbor_range :: "CsrView \<Rightarrow> NodeNum \<Rightarrow> (nat \<times> nat) option run" where
  "neighbor_range v src_node =
     (if src_node \<ge> cv_node_count v then Ok None
      else if unat src_node < length (cv_offsets v) \<and> unat (src_node + 1) < length (cv_offsets v) then
        Ok (Some (unat (cv_offsets v ! unat src_node * 8), unat (cv_offsets v ! unat (src_node + 1) * 8)))
      else Panic)"

text \<open>\<open>&xs[start..end.min(xs.len())]\<close> when \<open>start\<close> is inside, and the empty slice otherwise.\<close>

definition clipped_slice :: "nat \<Rightarrow> nat \<Rightarrow> 'a list \<Rightarrow> 'a list run" where
  "clipped_slice start end xs =
     (if start < length xs then
        let end = min end (length xs) in if start \<le> end then Ok (take (end - start) (drop start xs)) else Panic
      else Ok [])"

definition neighbor_range_data :: "CsrView \<Rightarrow> NodeNum \<Rightarrow> (bytes \<times> EdgeAttr list) option run" where
  "neighbor_range_data v src_node =
     bind_res (neighbor_range v src_node) (\<lambda>r.
       case r of
         None \<Rightarrow> Ok None
       | Some (start, end) \<Rightarrow>
           bind_res (clipped_slice start end (cv_targets_data v)) (\<lambda>targets_slice.
           bind_res (clipped_slice start end (cv_attrs v)) (\<lambda>attrs_slice.
             Ok (Some (targets_slice, attrs_slice)))))"

text \<open>The items of a \<open>NeighborIter\<close>; once \<open>next\<close> has returned \<open>None\<close> it keeps doing so.\<close>

function neighbor_iter :: "bytes \<Rightarrow> EdgeAttr list \<Rightarrow> NodeNum \<Rightarrow> (NodeNum \<times> EdgeAttr) list" where
  "neighbor_iter targets_data attrs prev_node =
     (if length targets_data < 8 then []
      else
        (let dst_node = prev_node + u64_at 0 targets_data in
         case attrs of
           [] \<Rightarrow> []
         | attr # attrs \<Rightarrow> (dst_node, attr) # neighbor_iter (drop 8 targets_data) attrs dst_node))"
  by pat_completeness auto
termination by (relation "measure (\<lambda>(t, _, _). length t)") auto

declare neighbor_iter.simps [simp del]

record CsrLayer =
  cl_offsets :: "u64 list"
  cl_targets :: bytes
  cl_attrs :: "EdgeAttr list"
  cl_node_count :: u64
  cl_edge_count :: u64

definition csr_layer_new :: "u64 \<Rightarrow> CsrLayer" where
  "csr_layer_new node_count =
     \<lparr>cl_offsets = replicate (unat node_count + 1) 0, cl_targets = [], cl_attrs = [],
      cl_node_count = node_count, cl_edge_count = 0\<rparr>"

definition count_edges :: "u64 \<Rightarrow> EdgeListEntry list \<Rightarrow> nat list" where
  "count_edges node_count edge_list =
     fold (\<lambda>entry counts.
             if ee_src_node entry < node_count
             then counts[unat (ee_src_node entry) := counts ! unat (ee_src_node entry) + 1] else counts)
       edge_list (replicate (unat node_count) 0)"

primrec prefix_offsets :: "u64 \<Rightarrow> nat list \<Rightarrow> u64 list" where
  "prefix_offsets offset [] = [offset]"
| "prefix_offsets offset (count # counts) = offset # prefix_offsets (offset + of_nat count) counts"

text \<open>The loop that appends targets and attributes; its state holds them, the position and the
  last target of every source.\<close>

record CsrFill =
  cf_targets :: bytes
  cf_attrs :: "EdgeAttr list"
  cf_current_pos :: "nat list"
  cf_prev_dst :: "u64 list"

definition csr_fill_step :: "u64 \<Rightarrow> u64 list \<Rightarrow> EdgeListEntry \<Rightarrow> CsrFill \<Rightarrow> CsrFill" where
  "csr_fill_step node_count offsets entry s =
     (let src = unat (ee_src_node entry) in
      if ee_src_node entry < node_count then
        (let base_offset = unat (offsets ! src);
             idx = base_offset + cf_current_pos s ! src;
             delta = (if idx = base_offset then ee_dst_node entry
                      else ee_dst_node entry - cf_prev_dst s ! src)
         in s\<lparr>cf_prev_dst := (cf_prev_dst s)[src := ee_dst_node entry],
              cf_targets := cf_targets s @ u64_le delta,
              cf_attrs := cf_attrs s @ [edge_attr_with_flags (ee_confidence_q entry)
                            (ee_valid_from_bucket entry) (ee_valid_to_bucket entry) (ee_flags entry)],
              cf_current_pos := (cf_current_pos s)[src := cf_current_pos s ! src + 1]\<rparr>)
      else s)"

definition csr_from_edge_list :: "EdgeListEntry list \<Rightarrow> u64 \<Rightarrow> CsrLayer" where
  "csr_from_edge_list edge_list node_count =
     (let offsets = prefix_offsets 0 (count_edges node_count edge_list);
          s = fold (csr_fill_step node_count offsets) edge_list
                \<lparr>cf_targets = [], cf_attrs = [], cf_current_pos = replicate (unat node_count) 0,
                 cf_prev_dst = replicate (unat node_count) 0\<rparr>
      in \<lparr>cl_offsets = offsets, cl_targets = cf_targets s, cl_attrs = cf_attrs s,
          cl_node_count = node_count, cl_edge_count = of_nat (length (cf_attrs s))\<rparr>)"

definition csr_view :: "CsrLayer \<Rightarrow> CsrView option" where
  "csr_view l = csr_view_new_unchecked (cl_node_count l) (cl_offsets l) (cl_targets l) (cl_attrs l)"

definition csr_write_to_files :: "string \<Rightarrow> EdgeType \<Rightarrow> CsrLayer \<Rightarrow> files \<Rightarrow> files" where
  "csr_write_to_files dir edge_type l fs =
     (let fs = fs_write dir (edges_file edge_type ''.offsets'') (concat (map u64_le (cl_offsets l))) fs;
          fs = fs_write dir (edges_file edge_type ''.targets'') (cl_targets l) fs
      in fs_write dir (edges_file edge_type ''.attrs'')
           (concat (map (\<lambda>a. snd (edge_attr_write_to_bytes a (replicate EDGE_ATTR_SIZE 0))) (cl_attrs l))) fs)"

definition csr_load_from_files :: "string \<Rightarrow> EdgeType \<Rightarrow> u64 \<Rightarrow> files \<Rightarrow> CsrLayer option" where
  "csr_load_from_files dir edge_type node_count fs =
     (case (map_of fs (dir, edges_file edge_type ''.offsets''), map_of fs (dir, edges_file edge_type ''.targets''),
            map_of fs (dir, edges_file edge_type ''.attrs'')) of
        (Some offsets_data, Some targets, Some attrs_data) \<Rightarrow>
          (let attrs = map (\<lambda>i. edge_attr_read (take EDGE_ATTR_SIZE (drop (i * EDGE_ATTR_SIZE) attrs_data)))
                         [0..<length attrs_data div EDGE_ATTR_SIZE]
           in Some \<lparr>cl_offsets = map (\<lambda>i. u64_at (i * 8) offsets_data) [0..<length offsets_data div 8],
                    cl_targets = targets, cl_attrs = attrs, cl_node_count = node_count,
                    cl_edge_count = of_nat (length attrs)\<rparr>)
      | _ \<Rightarrow> None)"

section \<open>Delta layers\<close>

record DeltaLayer =
  dl_id :: u32
  dl_base_gen :: u32
  dl_edges :: "EdgeListEntry list"
  dl_sorted :: bool

definition delta_new :: "u32 \<Rightarrow> u32 \<Rightarrow> DeltaLayer" where
  "delta_new i base_gen = \<lparr>dl_id = i, dl_base_gen = base_gen, dl_edges = [], dl_sorted = False\<rparr>"

definition delta_add :: "EdgeListEntry \<Rightarrow> DeltaLayer \<Rightarrow> DeltaLayer" where
  "delta_add entry d = d\<lparr>dl_edges := dl_edges d @ [entry], dl_sorted := False\<rparr>"

definition delta_sort :: "DeltaLayer \<Rightarrow> DeltaLayer" where
  "delta_sort d = (if dl_sorted d then d else d\<lparr>dl_edges := sort_entries (dl_edges d), dl_sorted := True\<rparr>)"

definition delta_write_to_file :: "string \<Rightarrow> string \<Rightarrow> DeltaLayer \<Rightarrow> files \<Rightarrow> files" where
  "delta_write_to_file dir f d fs =
     (let header = delta_header_new (dl_id d) (dl_base_gen d) (of_nat (length (dl_edges d)));
          header_buf = snd (snd (delta_header_write_to_bytes header (replicate DELTA_HEADER_SIZE 0)))
      in fs_write dir f
           (header_buf @
            concat (map (\<lambda>e. snd (edge_entry_write_to_bytes e (replicate EDGE_ENTRY_SIZE 0))) (dl_edges d))) fs)"

primrec read_edge_entries :: "nat \<Rightarrow> bytes \<Rightarrow> EdgeListEntry list run" where
  "read_edge_entries 0 bs = Ok []"
| "read_edge_entries (Suc n) bs =
     (if length bs < EDGE_ENTRY_SIZE then Err IoUnexpectedEof
      else bind_res (read_edge_entries n (drop EDGE_ENTRY_SIZE bs)) (\<lambda>es.
        Ok (case edge_entry_from_bytes (take EDGE_ENTRY_SIZE bs) of None \<Rightarrow> es | Some e \<Rightarrow> e # es)))"

definition delta_load_from_file :: "string \<Rightarrow> string \<Rightarrow> files \<Rightarrow> DeltaLayer run" where
  "delta_load_from_file dir f fs =
     (case map_of fs (dir, f) of
        None \<Rightarrow> Err IoNotFound
      | Some bs \<Rightarrow>
          if length bs < DELTA_HEADER_SIZE then Err IoUnexpectedEof
          else
            bind_res (ok_or (delta_header_from_bytes (take DELTA_HEADER_SIZE bs)) IoInvalidData) (\<lambda>header.
            bind_res (read_edge_entries (unat (dh_edge_count header)) (drop DELTA_HEADER_SIZE bs)) (\<lambda>edges.
              Ok \<lparr>dl_id = dh_delta_id header, dl_base_gen = dh_base_gen header, dl_edges = edges,
                  dl_sorted = False\<rparr>)))"

end
