(* ===== verification/Graph_Store.thy ===== *)
theory Graph_Store
  imports Graph_Format
begin

text \<open>
  The graph store of \<open>src/graph/store.rs\<close>: base layers of compressed rows per edge type, delta
  layers of entries in the order they were added, a reverse index, the queries over them,
  compaction, and saving to and loading from files. Node counts are below \<open>2 ^ 60\<close> (a larger count
  cannot be allocated). The memory maps of \<open>load\<close> are kept for later use only and have no
  counterpart; \<open>sort_unstable_by_key\<close> is modelled by a stable sort.
\<close>

section \<open>Loops that may abort\<close>

primrec fold_run :: "('a \<Rightarrow> 's \<Rightarrow> 's run) \<Rightarrow> 'a list \<Rightarrow> 's \<Rightarrow> 's run" where
  "fold_run f [] s = Ok s"
| "fold_run f (x # xs) s = bind_res (f x s) (fold_run f xs)"

text \<open>\<open>0..n\<close> over node numbers.\<close>

definition node_range :: "u64 \<Rightarrow> NodeNum list" where
  "node_range n = map of_nat [0..<unat n]"

section \<open>State\<close>

type_synonym Incoming = "(NodeNum \<times> TrustLevel) list"

record GraphStore =
  gs_manifest :: GraphManifest
  gs_base_path :: string
  gs_base_layers :: "(EdgeType, CsrLayer) hmap"
  gs_delta_layers :: "DeltaLayer list"
  gs_reverse_index :: "(EdgeType, (NodeNum, Incoming) hmap) hmap"
  gs_next_delta_id :: u32

definition graph_with_path :: "string \<Rightarrow> u64 \<Rightarrow> GraphStore" where
  "graph_with_path base_path node_count =
     \<lparr>gs_manifest = manifest_new node_count, gs_base_path = base_path, gs_base_layers = [],
      gs_delta_layers = [], gs_reverse_index = [], gs_next_delta_id = 1\<rparr>"

definition graph_new :: "u64 \<Rightarrow> GraphStore" where
  "graph_new node_count = graph_with_path '''' node_count"

section \<open>Reverse index\<close>

primrec update_confidence :: "NodeNum \<Rightarrow> TrustLevel \<Rightarrow> Incoming \<Rightarrow> Incoming" where
  "update_confidence src c [] = []"
| "update_confidence src c (x # xs) = (if fst x = src then (src, c) # xs else x # update_confidence src c xs)"

definition reverse_entry :: "EdgeListEntry \<Rightarrow> (NodeNum, Incoming) hmap \<Rightarrow> (NodeNum, Incoming) hmap" where
  "reverse_entry entry by_type =
     (let incoming = get_or [] by_type (ee_dst_node entry) in
      if edge_entry_is_deleted entry then
        (let incoming = filter (\<lambda>(src, _). src \<noteq> ee_src_node entry) incoming in
         if incoming = [] then AList.delete (ee_dst_node entry) by_type
         else AList.update (ee_dst_node entry) incoming by_type)
      else if ee_src_node entry \<in> fst ` set incoming then
        AList.update (ee_dst_node entry)
          (update_confidence (ee_src_node entry) (ee_confidence_q entry) incoming) by_type
      else AList.update (ee_dst_node entry)
        (sort_key fst (incoming @ [(ee_src_node entry, ee_confidence_q entry)])) by_type)"

definition apply_reverse_entry :: "EdgeListEntry \<Rightarrow> GraphStore \<Rightarrow> GraphStore" where
  "apply_reverse_entry entry s =
     (case edge_entry_type entry of
        None \<Rightarrow> s
      | Some edge_type \<Rightarrow>
          s\<lparr>gs_reverse_index := entry_upd [] (reverse_entry entry) edge_type (gs_reverse_index s)\<rparr>)"

text \<open>The live edges of a base layer, read row by row, as both the reverse index and the compaction
  read them.\<close>

definition layer_edges :: "u64 \<Rightarrow> CsrLayer \<Rightarrow> (NodeNum \<times> NodeNum \<times> EdgeAttr) list run" where
  "layer_edges node_count layer =
     (case csr_view layer of
        None \<Rightarrow> Ok []
      | Some view \<Rightarrow>
          fold_run (\<lambda>src edges.
              bind_res (neighbor_range_data view src) (\<lambda>r.
                Ok (case r of
                      None \<Rightarrow> edges
                    | Some (targets, attrs) \<Rightarrow>
                        edges @ map (\<lambda>(dst, attr). (src, dst, attr))
                          (filter (\<lambda>(dst, attr). \<not> edge_attr_is_deleted attr) (neighbor_iter targets attrs 0)))))
            (node_range node_count) [])"

definition push_reverse :: "EdgeType \<Rightarrow> NodeNum \<times> NodeNum \<times> EdgeAttr \<Rightarrow>
    (EdgeType, (NodeNum, Incoming) hmap) hmap \<Rightarrow> (EdgeType, (NodeNum, Incoming) hmap) hmap" where
  "push_reverse edge_type = (\<lambda>(src, dst, attr).
     entry_upd [] (entry_upd [] (\<lambda>incoming. incoming @ [(src, ea_confidence_q attr)]) dst) edge_type)"

definition rebuild_reverse_index :: "GraphStore \<Rightarrow> GraphStore run" where
  "rebuild_reverse_index s =
     bind_res
       (fold_run (\<lambda>(edge_type, layer) index.
            bind_res (layer_edges (gm_node_count (gs_manifest s)) layer) (\<lambda>edges.
              Ok (fold (push_reverse edge_type) edges index)))
          (gs_base_layers s) [])
       (\<lambda>index.
          let index = map (\<lambda>(t, by_type). (t, map (\<lambda>(dst, incoming). (dst, sort_key fst incoming)) by_type)) index
          in Ok (fold apply_reverse_entry (concat (map dl_edges (gs_delta_layers s)))
                  (s\<lparr>gs_reverse_index := index\<rparr>)))"

section \<open>Builder\<close>

record GraphBuilder =
  gb_node_count :: u64
  gb_edges_by_type :: "(u32, EdgeListEntry list) hmap"

definition builder_new :: "u64 \<Rightarrow> GraphBuilder" where
  "builder_new node_count = \<lparr>gb_node_count = node_count, gb_edges_by_type = []\<rparr>"

definition builder_add_edge :: "EdgeListEntry \<Rightarrow> GraphBuilder \<Rightarrow> GraphBuilder" where
  "builder_add_edge entry b =
     b\<lparr>gb_edges_by_type := entry_upd [] (\<lambda>es. es @ [entry]) (ee_edge_type entry) (gb_edges_by_type b)\<rparr>"

definition builder_add_edges :: "EdgeListEntry list \<Rightarrow> GraphBuilder \<Rightarrow> GraphBuilder" where
  "builder_add_edges entries b = fold builder_add_edge entries b"

definition builder_edge_count :: "GraphBuilder \<Rightarrow> nat" where
  "builder_edge_count b = sum_list (map (\<lambda>(_, es). length es) (gb_edges_by_type b))"

primrec unique_edges :: "(u64 \<times> u64) option \<Rightarrow> EdgeListEntry list \<Rightarrow> EdgeListEntry list" where
  "unique_edges prev_key [] = []"
| "unique_edges prev_key (entry # es) =
     (let key = (ee_src_node entry, ee_dst_node entry) in
      if Some key = prev_key then unique_edges prev_key es else entry # unique_edges (Some key) es)"

definition build_layer :: "u64 \<Rightarrow> u32 \<times> EdgeListEntry list \<Rightarrow> GraphStore \<Rightarrow> GraphStore" where
  "build_layer node_count = (\<lambda>(edge_type_u32, edges) s.
     case edge_type_from_u32 edge_type_u32 of
       None \<Rightarrow> s
     | Some edge_type \<Rightarrow>
         s\<lparr>gs_base_layers := AList.update edge_type
               (csr_from_edge_list (unique_edges None (sort_entries edges)) node_count) (gs_base_layers s),
           gs_manifest := manifest_mark_edge_type edge_type (gs_manifest s)\<rparr>)"

definition builder_build :: "GraphBuilder \<Rightarrow> GraphStore run" where
  "builder_build b =
     bind_res (rebuild_reverse_index
                 (fold (build_layer (gb_node_count b)) (gb_edges_by_type b) (graph_new (gb_node_count b))))
       (\<lambda>s. Ok (s\<lparr>gs_manifest := manifest_mark_compacted (gs_manifest s)\<rparr>))"

section \<open>Saving\<close>

definition validate_inline_delta_capacity :: "GraphStore \<Rightarrow> unit run" where
  "validate_inline_delta_capacity s =
     (if length (gs_delta_layers s) > MAX_INLINE_DELTAS then Err IoInvalidData else Ok ())"

text \<open>The manifest that is written: its list of deltas is that of the layers in memory.\<close>

definition synced_manifest :: "GraphStore \<Rightarrow> GraphManifest" where
  "synced_manifest s =
     (let m = (gs_manifest s)\<lparr>gm_delta_count := 0, gm_delta_ids := replicate MAX_INLINE_DELTAS 0\<rparr>;
          m = fold (\<lambda>delta m.
                m\<lparr>gm_delta_ids := (gm_delta_ids m)[unat (gm_delta_count m) := dl_id delta],
                  gm_delta_count := gm_delta_count m + 1\<rparr>) (gs_delta_layers s) m
      in if gs_delta_layers s = [] then m\<lparr>gm_flags := gm_flags m OR FLAG_COMPACTED\<rparr>
         else m\<lparr>gm_flags := gm_flags m AND NOT FLAG_COMPACTED\<rparr>)"

definition save_manifest :: "GraphStore \<Rightarrow> files \<Rightarrow> files run" where
  "save_manifest s fs =
     (if gs_base_path s = [] then Err IoNotFound
      else bind_res (validate_inline_delta_capacity s) (\<lambda>_.
        Ok (manifest_write_to_file (gs_base_path s) MANIFEST_FILE (synced_manifest s) fs)))"

definition save_base_layers :: "GraphStore \<Rightarrow> files \<Rightarrow> files run" where
  "save_base_layers s fs =
     (if gs_base_path s = [] then Err IoNotFound
      else Ok (fold (\<lambda>(t, layer). csr_write_to_files (gs_base_path s) t layer) (gs_base_layers s) fs))"

definition save_delta_layers :: "GraphStore \<Rightarrow> files \<Rightarrow> files run" where
  "save_delta_layers s fs =
     (if gs_base_path s = [] then Err IoNotFound
      else bind_res (validate_inline_delta_capacity s) (\<lambda>_.
        Ok (fold (\<lambda>delta. delta_write_to_file (gs_base_path s) (delta_file (dl_id delta)) delta)
              (gs_delta_layers s) fs)))"

definition graph_save :: "GraphStore \<Rightarrow> files \<Rightarrow> files run" where
  "graph_save s fs =
     (if gs_base_path s = [] then Err IoNotFound
      else bind_res (validate_inline_delta_capacity s) (\<lambda>_.
           bind_res (save_base_layers s fs) (\<lambda>fs.
           bind_res (save_delta_layers s fs) (\<lambda>fs. save_manifest s fs))))"

section \<open>Loading\<close>

definition load_base_layer :: "files \<Rightarrow> nat \<Rightarrow> GraphStore \<Rightarrow> GraphStore" where
  "load_base_layer fs k s =
     (if gm_edge_type_mask (gs_manifest s) AND push_bit (k - 1) 1 \<noteq> 0 then
        (case edge_type_from_u32 (of_nat k) of
           None \<Rightarrow> s
         | Some t \<Rightarrow>
             (case csr_load_from_files (gs_base_path s) t (gm_node_count (gs_manifest s)) fs of
                None \<Rightarrow> s
              | Some layer \<Rightarrow> s\<lparr>gs_base_layers := AList.update t layer (gs_base_layers s)\<rparr>))
      else s)"

definition load_delta_layer :: "files \<Rightarrow> nat \<Rightarrow> GraphStore \<Rightarrow> GraphStore run" where
  "load_delta_layer fs i s =
     (let delta_id = gm_delta_ids (gs_manifest s) ! i in
      if delta_id = 0 then Ok s
      else if fs_exists fs (gs_base_path s) (delta_file delta_id) then
        bind_res (delta_load_from_file (gs_base_path s) (delta_file delta_id) fs) (\<lambda>delta.
          let s = s\<lparr>gs_delta_layers := gs_delta_layers s @ [delta]\<rparr>
          in Ok (if delta_id \<ge> gs_next_delta_id s then s\<lparr>gs_next_delta_id := delta_id + 1\<rparr> else s))
      else Ok s)"

definition graph_load :: "string \<Rightarrow> files \<Rightarrow> GraphStore run" where
  "graph_load base_path fs =
     bind_res (manifest_read_from_file base_path MANIFEST_FILE fs) (\<lambda>manifest.
       let s = (graph_with_path base_path 0)\<lparr>gs_manifest := manifest\<rparr>;
           s = fold (load_base_layer fs) [1..<65] s
       in bind_res (fold_run (load_delta_layer fs) [0..<unat (gm_delta_count manifest)] s) rebuild_reverse_index)"

definition open_or_create :: "string \<Rightarrow> u64 \<Rightarrow> files \<Rightarrow> GraphStore run" where
  "open_or_create base_path node_count fs =
     (if fs_exists fs base_path MANIFEST_FILE then graph_load base_path fs
      else Ok (graph_with_path base_path node_count))"

section \<open>Compaction\<close>

text \<open>Grouping by edge type, in the order of the sorted entries.\<close>

definition group_by_type :: "EdgeListEntry list \<Rightarrow> (u32, EdgeListEntry list) hmap" where
  "group_by_type es = fold (\<lambda>e. entry_upd [] (\<lambda>xs. xs @ [e]) (ee_edge_type e)) es []"

definition latest_step :: "EdgeListEntry \<Rightarrow> (u64 \<times> u64, bool) hmap \<times> EdgeListEntry list \<Rightarrow>
    (u64 \<times> u64, bool) hmap \<times> EdgeListEntry list" where
  "latest_step entry = (\<lambda>(seen, unique).
     (let key = (ee_src_node entry, ee_dst_node entry);
          first = (map_of seen key = None)
      in (AList.update key (edge_entry_is_deleted entry) seen,
          if first \<and> \<not> edge_entry_is_deleted entry then unique @ [entry] else unique)))"

definition latest_edges :: "EdgeListEntry list \<Rightarrow> EdgeListEntry list" where
  "latest_edges edges = sort_entries (snd (fold latest_step (rev edges) ([], [])))"

definition compact_group :: "u64 \<Rightarrow> u32 \<times> EdgeListEntry list \<Rightarrow> (EdgeType, CsrLayer) hmap \<Rightarrow>
    (EdgeType, CsrLayer) hmap" where
  "compact_group node_count = (\<lambda>(edge_type_u32, edges) layers.
     case edge_type_from_u32 edge_type_u32 of
       None \<Rightarrow> layers
     | Some t \<Rightarrow>
         (let unique = latest_edges edges in
          if unique = [] then layers else AList.update t (csr_from_edge_list unique node_count) layers))"

definition base_entries :: "GraphStore \<Rightarrow> EdgeListEntry list run" where
  "base_entries s =
     fold_run (\<lambda>(edge_type, layer) all_edges.
         bind_res (layer_edges (gm_node_count (gs_manifest s)) layer) (\<lambda>edges.
           Ok (all_edges @ map (\<lambda>(src, dst, attr). edge_entry_with_flags src dst edge_type (ea_confidence_q attr)
                 (ea_valid_from_bucket attr) (ea_valid_to_bucket attr) (ea_flags attr)) edges)))
       (gs_base_layers s) []"

definition compacted_layers :: "u64 \<Rightarrow> EdgeListEntry list \<Rightarrow> (EdgeType, CsrLayer) hmap" where
  "compacted_layers node_count all_edges =
     fold (compact_group node_count) (group_by_type (sort_entries all_edges)) []"

text \<open>The store and the files after the call, and its result: a failure to save the manifest comes
  after the layers have been exchanged.\<close>

definition graph_compact :: "GraphStore \<Rightarrow> files \<Rightarrow> (GraphStore \<times> files \<times> (GraphIo + unit)) run" where
  "graph_compact s fs =
     (if gs_delta_layers s = [] then Ok (s, fs, Inr ())
      else
        bind_res (base_entries s) (\<lambda>base.
          let new_layers = compacted_layers (gm_node_count (gs_manifest s))
                (base @ concat (map dl_edges (gs_delta_layers s)));
              fs = fold (\<lambda>(t, layer). csr_write_to_files (gs_base_path s) t layer) new_layers fs;
              fs = fold (\<lambda>delta. fs_remove (gs_base_path s) (delta_file (dl_id delta))) (gs_delta_layers s) fs
          in bind_res (rebuild_reverse_index (s\<lparr>gs_base_layers := new_layers, gs_delta_layers := []\<rparr>)) (\<lambda>s.
               let m = manifest_mark_compacted (gs_manifest s);
                   s = s\<lparr>gs_manifest := m\<lparr>gm_base_gen := gm_base_gen m + 1\<rparr>\<rparr>
               in case save_manifest s fs of
                    Panic \<Rightarrow> Panic
                  | Err e \<Rightarrow> Ok (s, fs, Inl e)
                  | Ok fs \<Rightarrow> Ok (s, fs, Inr ()))))"

section \<open>Updates\<close>

definition add_node :: "NodeNum \<Rightarrow> GraphStore \<Rightarrow> GraphStore" where
  "add_node node_num s =
     (if node_num \<ge> gm_node_count (gs_manifest s)
      then s\<lparr>gs_manifest := (gs_manifest s)\<lparr>gm_node_count := node_num + 1\<rparr>\<rparr> else s)"

definition add_to_last_delta :: "EdgeListEntry \<Rightarrow> GraphStore \<Rightarrow> GraphStore" where
  "add_to_last_delta entry s =
     s\<lparr>gs_delta_layers := (gs_delta_layers s)[length (gs_delta_layers s) - 1 := delta_add entry (last (gs_delta_layers s))]\<rparr>"

definition add_to_new_delta :: "EdgeListEntry \<Rightarrow> GraphStore \<Rightarrow> GraphStore" where
  "add_to_new_delta entry s =
     s\<lparr>gs_delta_layers := gs_delta_layers s @
          [delta_add entry (delta_new (gs_next_delta_id s) (gm_base_gen (gs_manifest s)))],
       gs_next_delta_id := gs_next_delta_id s + 1\<rparr>"

text \<open>The part of \<open>add_edge\<close> before the compaction trigger.\<close>

definition append_edge :: "NodeNum \<Rightarrow> NodeNum \<Rightarrow> EdgeType \<Rightarrow> TrustLevel \<Rightarrow> GraphStore \<Rightarrow> GraphStore" where
  "append_edge src_node dst_node edge_type confidence s =
     (let max_node = max src_node dst_node;
          s = (if max_node \<ge> gm_node_count (gs_manifest s)
               then s\<lparr>gs_manifest := (gs_manifest s)\<lparr>gm_node_count := max_node + 1\<rparr>\<rparr> else s);
          s = s\<lparr>gs_manifest := manifest_mark_edge_type edge_type (gs_manifest s)\<rparr>;
          entry = edge_entry_new src_node dst_node edge_type confidence 0 0;
          s = (if gs_delta_layers s = [] \<or> length (dl_edges (last (gs_delta_layers s))) > 100000
               then add_to_new_delta entry s else add_to_last_delta entry s)
      in apply_reverse_entry entry s)"

definition add_edge :: "NodeNum \<Rightarrow> NodeNum \<Rightarrow> EdgeType \<Rightarrow> TrustLevel \<Rightarrow> GraphStore \<Rightarrow> files \<Rightarrow>
    (GraphStore \<times> files) run" where
  "add_edge src_node dst_node edge_type confidence s fs =
     (let s = append_edge src_node dst_node edge_type confidence s in
      if length (gs_delta_layers s) > MAX_DELTA_LAYERS
      then bind_res (graph_compact s fs) (\<lambda>(s, fs, _). Ok (s, fs))
      else Ok (s, fs))"

definition delete_edge :: "NodeNum \<Rightarrow> NodeNum \<Rightarrow> EdgeType \<Rightarrow> GraphStore \<Rightarrow> GraphStore run" where
  "delete_edge src_node dst_node edge_type s =
     (if manifest_is_readonly (gs_manifest s) then Err IoPermissionDenied
      else
        (let entry = edge_entry_tombstone src_node dst_node edge_type;
             s = (if gs_delta_layers s = [] then add_to_new_delta entry s else add_to_last_delta entry s)
         in Ok (apply_reverse_entry entry s)))"

definition set_readonly :: "bool \<Rightarrow> GraphStore \<Rightarrow> GraphStore" where
  "set_readonly readonly s =
     (if readonly then s\<lparr>gs_manifest := manifest_mark_readonly (gs_manifest s)\<rparr>
      else s\<lparr>gs_manifest := (gs_manifest s)\<lparr>gm_flags := gm_flags (gs_manifest s) AND NOT FLAG_READONLY\<rparr>\<rparr>)"

section \<open>Queries\<close>

text \<open>The rest of an iterator after it has been advanced to the next item that satisfies \<open>P\<close>.\<close>

definition next_where :: "('a \<Rightarrow> bool) \<Rightarrow> 'a list \<Rightarrow> 'a option \<times> 'a list" where
  "next_where P xs = (case dropWhile (\<lambda>x. \<not> P x) xs of [] \<Rightarrow> (None, []) | x # xs \<Rightarrow> (Some x, xs))"

record MergedNeighborIter =
  mi_base_iter :: "(NodeNum \<times> EdgeAttr) list option"
  mi_delta_iters :: "EdgeListEntry list list"
  mi_edge_type :: EdgeType
  mi_time_bucket :: TimeBucket
  mi_src_node :: NodeNum

definition entry_matches :: "MergedNeighborIter \<Rightarrow> EdgeListEntry \<Rightarrow> bool" where
  "entry_matches m entry \<longleftrightarrow> ee_src_node entry = mi_src_node m \<and>
     edge_entry_type entry = Some (mi_edge_type m) \<and> \<not> edge_entry_is_deleted entry \<and>
     edge_entry_is_valid_at entry (mi_time_bucket m)"

primrec advance_deltas :: "(EdgeListEntry \<Rightarrow> bool) \<Rightarrow> EdgeListEntry list list \<Rightarrow> (NodeNum \<times> TrustLevel) option \<Rightarrow>
    (NodeNum \<times> TrustLevel) option \<times> EdgeListEntry list list" where
  "advance_deltas P [] best = (best, [])"
| "advance_deltas P (delta_iter # delta_iters) best =
     (case next_where P delta_iter of
        (item, delta_iter) \<Rightarrow>
          (let best = (case item of
                 None \<Rightarrow> best
               | Some entry \<Rightarrow>
                   (case best of
                      None \<Rightarrow> Some (ee_dst_node entry, ee_confidence_q entry)
                    | Some (dst, _) \<Rightarrow>
                        if ee_dst_node entry < dst then Some (ee_dst_node entry, ee_confidence_q entry) else best))
           in case advance_deltas P delta_iters best of (best, delta_iters) \<Rightarrow> (best, delta_iter # delta_iters)))"

definition merged_advance :: "MergedNeighborIter \<Rightarrow> (NodeNum \<times> TrustLevel) option \<times> MergedNeighborIter" where
  "merged_advance m =
     (case (case mi_base_iter m of
              None \<Rightarrow> (None, None)
            | Some iter \<Rightarrow>
                (case next_where (\<lambda>(dst, attr). \<not> edge_attr_is_deleted attr \<and>
                        edge_attr_is_valid_at attr (mi_time_bucket m)) iter of
                   (item, iter) \<Rightarrow> (map_option (\<lambda>(dst, attr). (dst, ea_confidence_q attr)) item, Some iter))) of
        (best, base_iter) \<Rightarrow>
          (case advance_deltas (entry_matches m) (mi_delta_iters m) best of
             (best, delta_iters) \<Rightarrow> (best, m\<lparr>mi_base_iter := base_iter, mi_delta_iters := delta_iters\<rparr>)))"

definition items_left :: "MergedNeighborIter \<Rightarrow> nat" where
  "items_left m = (case mi_base_iter m of None \<Rightarrow> 0 | Some xs \<Rightarrow> length xs) +
     sum_list (map length (mi_delta_iters m))"

lemma next_where_length:
  "next_where P xs = (item, ys) \<Longrightarrow> length ys + (if item = None then 0 else 1) \<le> length xs"
  using length_dropWhile_le [of "\<lambda>x. \<not> P x" xs]
  by (auto simp: next_where_def split: list.splits)

lemma advance_deltas_length:
  "advance_deltas P its best = (best', its') \<Longrightarrow>
   sum_list (map length its') + (if best = None \<and> best' \<noteq> None then 1 else 0) \<le> sum_list (map length its)"
proof (induction its arbitrary: best best' its')
  case (Cons it its)
  obtain item it' where n: "next_where P it = (item, it')" by (cases "next_where P it")
  define b where "b = (case item of None \<Rightarrow> best
    | Some entry \<Rightarrow> (case best of None \<Rightarrow> Some (ee_dst_node entry, ee_confidence_q entry)
      | Some (dst, _) \<Rightarrow>
          if ee_dst_node entry < dst then Some (ee_dst_node entry, ee_confidence_q entry) else best))"
  obtain c its1 where a: "advance_deltas P its b = (c, its1)" by (cases "advance_deltas P its b")
  have e: "best' = c" "its' = it' # its1" using Cons.prems by (simp_all add: n a b_def [symmetric])
  have "b = None \<longleftrightarrow> item = None \<and> best = None" by (auto simp: b_def split: option.splits)
  with Cons.IH [OF a] next_where_length [OF n] show ?case
    by (cases "item = None"; cases "best = None") (auto simp: e)
qed auto

lemma merged_advance_left: "merged_advance m = (Some x, m') \<Longrightarrow> items_left m' < items_left m"
proof (cases "mi_base_iter m")
  case None
  assume "merged_advance m = (Some x, m')"
  with None show ?thesis
    using advance_deltas_length [of "entry_matches m" "mi_delta_iters m" None]
    by (fastforce simp: merged_advance_def items_left_def split: prod.splits)
next
  case (Some xs)
  let ?P = "\<lambda>(dst, attr). \<not> edge_attr_is_deleted attr \<and> edge_attr_is_valid_at attr (mi_time_bucket m)"
  obtain item ys where n: "next_where ?P xs = (item, ys)" by (cases "next_where ?P xs")
  assume "merged_advance m = (Some x, m')"
  then obtain its' where a: "advance_deltas (entry_matches m) (mi_delta_iters m)
        (map_option (\<lambda>(dst, attr). (dst, ea_confidence_q attr)) item) = (Some x, its')"
    and m': "m' = m\<lparr>mi_base_iter := Some ys, mi_delta_iters := its'\<rparr>"
    using Some n by (auto simp: merged_advance_def split: prod.splits)
  show ?thesis
    using next_where_length [OF n] advance_deltas_length [OF a] Some m'
    by (cases item) (auto simp: items_left_def)
qed

text \<open>The items of the merged iterator.\<close>

function merged_items :: "MergedNeighborIter \<Rightarrow> (NodeNum \<times> TrustLevel) list" where
  "merged_items m = (case merged_advance m of (None, _) \<Rightarrow> [] | (Some x, m) \<Rightarrow> x # merged_items m)"
  by pat_completeness auto
termination by (relation "measure items_left") (auto dest: merged_advance_left [OF sym])

declare merged_items.simps [simp del]

definition neighbors :: "NodeNum \<Rightarrow> EdgeType \<Rightarrow> GraphStore \<Rightarrow> (NodeNum \<times> TrustLevel) list run" where
  "neighbors src_node edge_type s =
     bind_res
       (case Option.bind (map_of (gs_base_layers s) edge_type) csr_view of
          None \<Rightarrow> Ok None
        | Some view \<Rightarrow> bind_res (neighbor_range_data view src_node) (\<lambda>r.
            Ok (map_option (\<lambda>(targets, attrs). neighbor_iter targets attrs 0) r)))
       (\<lambda>base_iter. Ok (merged_items
          \<lparr>mi_base_iter = base_iter,
           mi_delta_iters = filter (\<lambda>es. es \<noteq> []) (map dl_edges (gs_delta_layers s)),
           mi_edge_type = edge_type, mi_time_bucket = 0, mi_src_node = src_node\<rparr>))"

definition is_edge :: "NodeNum \<Rightarrow> NodeNum \<Rightarrow> EdgeType \<Rightarrow> EdgeListEntry \<Rightarrow> bool" where
  "is_edge src_node dst_node edge_type entry \<longleftrightarrow> ee_src_node entry = src_node \<and>
     ee_dst_node entry = dst_node \<and> edge_entry_type entry = Some edge_type"

definition base_has_edge :: "NodeNum \<Rightarrow> NodeNum \<Rightarrow> EdgeType \<Rightarrow> GraphStore \<Rightarrow> bool run" where
  "base_has_edge src_node dst_node edge_type s =
     (case Option.bind (map_of (gs_base_layers s) edge_type) csr_view of
        None \<Rightarrow> Ok False
      | Some view \<Rightarrow> bind_res (neighbor_range_data view src_node) (\<lambda>r.
          Ok (case r of
                None \<Rightarrow> False
              | Some (targets, attrs) \<Rightarrow>
                  list_ex (\<lambda>(dst, attr). dst = dst_node \<and> \<not> edge_attr_is_deleted attr)
                    (neighbor_iter targets attrs 0))))"

definition has_edge :: "NodeNum \<Rightarrow> NodeNum \<Rightarrow> EdgeType \<Rightarrow> GraphStore \<Rightarrow> bool run" where
  "has_edge src_node dst_node edge_type s =
     (case List.find (is_edge src_node dst_node edge_type)
             (concat (map (\<lambda>delta. rev (dl_edges delta)) (rev (gs_delta_layers s)))) of
        Some entry \<Rightarrow> Ok (\<not> edge_entry_is_deleted entry)
      | None \<Rightarrow> base_has_edge src_node dst_node edge_type s)"

definition in_neighbors :: "NodeNum \<Rightarrow> EdgeType \<Rightarrow> GraphStore \<Rightarrow> (NodeNum \<times> TrustLevel) list" where
  "in_neighbors dst_node edge_type s =
     get_or [] (get_or [] (gs_reverse_index s) edge_type) dst_node"

definition graph_edge_count :: "GraphStore \<Rightarrow> u64" where
  "graph_edge_count s = sum_list (map (\<lambda>(_, l). cl_edge_count l) (gs_base_layers s)) +
     sum_list (map (\<lambda>d. of_nat (length (dl_edges d))) (gs_delta_layers s))"

definition graph_view :: "EdgeType \<Rightarrow> GraphStore \<Rightarrow> CsrView option" where
  "graph_view edge_type s = Option.bind (map_of (gs_base_layers s) edge_type) csr_view"

section \<open>Paths\<close>

type_synonym Search = "bool list \<times> (NodeNum \<times> nat) list"

text \<open>The loops over the neighbours of \<open>current\<close>, which is at \<open>depth\<close>: the flag says that the
  destination was found and the search returns.\<close>

fun visit_neighbors :: "NodeNum \<Rightarrow> nat \<Rightarrow> (NodeNum \<times> TrustLevel) list \<Rightarrow> Search \<Rightarrow> (bool \<times> Search) run" where
  "visit_neighbors dst_node depth [] st = Ok (False, st)"
| "visit_neighbors dst_node depth ((neighbor, _) # ns) (visited, queue) =
     (if neighbor = dst_node then Ok (True, (visited, queue))
      else if unat neighbor \<ge> length visited then Panic
      else if visited ! unat neighbor then visit_neighbors dst_node depth ns (visited, queue)
      else visit_neighbors dst_node depth ns
             (visited[unat neighbor := True], queue @ [(neighbor, depth + 1)]))"

primrec visit_types :: "GraphStore \<Rightarrow> NodeNum \<Rightarrow> NodeNum \<Rightarrow> nat \<Rightarrow> EdgeType list \<Rightarrow> Search \<Rightarrow> (bool \<times> Search) run" where
  "visit_types s dst_node current depth [] st = Ok (False, st)"
| "visit_types s dst_node current depth (t # ts) st =
     bind_res (neighbors current t s) (\<lambda>ns.
     bind_res (visit_neighbors dst_node depth ns st) (\<lambda>(found, st).
       if found then Ok (True, st) else visit_types s dst_node current depth ts st))"

definition search_left :: "Search \<Rightarrow> nat" where
  "search_left st = 2 * length (filter Not (fst st)) + length (snd st)"

lemma unvisited_update:
  "i < length v \<Longrightarrow> \<not> v ! i \<Longrightarrow> length (filter Not (v[i := True])) + 1 = length (filter Not v)"
proof -
  assume a: "i < length v" "\<not> v ! i"
  then have "v = take i v @ False # drop (Suc i) v" by (metis id_take_nth_drop)
  then have "length (filter Not v) = length (filter Not (take i v @ False # drop (Suc i) v))" by (rule arg_cong)
  with a show ?thesis by (simp add: upd_conv_take_nth_drop)
qed

lemma visit_neighbors_left:
  "visit_neighbors dst d ns st = Ok (b, st') \<Longrightarrow> search_left st' \<le> search_left st"
proof (induction dst d ns st rule: visit_neighbors.induct)
  case (2 dst d n c ns v q)
  then show ?case
    using unvisited_update [of "unat n" v]
    by (fastforce simp: search_left_def not_le split: if_splits)
qed auto

lemma visit_types_left:
  "visit_types s dst cur d ts st = Ok (b, st') \<Longrightarrow> search_left st' \<le> search_left st"
proof (induction ts arbitrary: st)
  case (Cons t ts)
  from Cons.prems obtain ns found st1 where
    "visit_neighbors dst d ns st = Ok (found, st1)"
    "(if found then Ok (True, st1) else visit_types s dst cur d ts st1) = Ok (b, st')"
    by auto
  with Cons.IH [of st1] visit_neighbors_left [of dst d ns st found st1] show ?case
    by (cases found) auto
qed auto

function search :: "GraphStore \<Rightarrow> NodeNum \<Rightarrow> EdgeType list \<Rightarrow> nat \<Rightarrow> Search \<Rightarrow> bool run" where
  "search s dst_node edge_types max_depth (visited, queue) =
     (case queue of
        [] \<Rightarrow> Ok False
      | (current, depth) # queue \<Rightarrow>
          if depth \<ge> max_depth then search s dst_node edge_types max_depth (visited, queue)
          else
            (case visit_types s dst_node current depth edge_types (visited, queue) of
               Panic \<Rightarrow> Panic
             | Err e \<Rightarrow> Err e
             | Ok (found, st) \<Rightarrow> if found then Ok True else search s dst_node edge_types max_depth st))"
  by pat_completeness auto
termination
  by (relation "measure (\<lambda>(_, _, _, _, st). search_left st)")
    (auto simp: search_left_def dest!: visit_types_left)

declare search.simps [simp del]

definition path_exists :: "NodeNum \<Rightarrow> NodeNum \<Rightarrow> EdgeType list \<Rightarrow> u8 \<Rightarrow> GraphStore \<Rightarrow> bool run" where
  "path_exists src_node dst_node edge_types max_depth s =
     (if src_node = dst_node then Ok True
      else if max_depth = 0 then Ok False
      else
        (let visited = replicate (unat (gm_node_count (gs_manifest s))) False in
         if unat src_node \<ge> length visited then Panic
         else search s dst_node edge_types (unat max_depth)
                (visited[unat src_node := True], [(src_node, 0)])))"

end
