(* ===== verification/Graph_Queries.thy ===== *)
theory Graph_Queries
  imports Graph_Store
begin

text \<open>
  What the queries of the graph store answer (\<open>src/graph/store.rs\<close>). \<open>has_edge\<close> follows the newest entry of
  an edge; the iterator behind \<open>neighbors\<close> is shown to be a merge that drops the heads it does not return;
  the stores that are built by adding and deleting (\<open>grown\<close>) keep a reverse index that agrees with
  \<open>has_edge\<close>.
\<close>

section \<open>Entries, newest first\<close>

definition newest_first :: "GraphStore \<Rightarrow> EdgeListEntry list" where
  "newest_first s = concat (map (\<lambda>delta. rev (dl_edges delta)) (rev (gs_delta_layers s)))"

lemma has_edge_newest:
  "has_edge x y u s = (case List.find (is_edge x y u) (newest_first s) of
     Some e \<Rightarrow> Ok (\<not> edge_entry_is_deleted e) | None \<Rightarrow> base_has_edge x y u s)"
  by (simp add: has_edge_def newest_first_def)

lemma graph_with_path_simps [simp]:
  "newest_first (graph_with_path p n) = []" "gs_base_layers (graph_with_path p n) = []"
  "gs_delta_layers (graph_with_path p n) = []"
  by (simp_all add: newest_first_def graph_with_path_def)

lemma newest_first_add [simp]:
  "gs_delta_layers s \<noteq> [] \<Longrightarrow> newest_first (add_to_last_delta e s) = e # newest_first s"
  "newest_first (add_to_new_delta e s) = e # newest_first s"
proof -
  assume "gs_delta_layers s \<noteq> []"
  then obtain ds d where "gs_delta_layers s = ds @ [d]" by (metis rev_exhaust)
  then show "newest_first (add_to_last_delta e s) = e # newest_first s"
    by (simp add: newest_first_def add_to_last_delta_def delta_add_def)
qed (simp add: newest_first_def add_to_new_delta_def delta_add_def delta_new_def)

lemma apply_reverse_entry_simps [simp]:
  "gs_delta_layers (apply_reverse_entry e s) = gs_delta_layers s"
  "gs_base_layers (apply_reverse_entry e s) = gs_base_layers s"
  "gs_manifest (apply_reverse_entry e s) = gs_manifest s"
  "gs_base_path (apply_reverse_entry e s) = gs_base_path s"
  "gs_next_delta_id (apply_reverse_entry e s) = gs_next_delta_id s"
  by (simp_all add: apply_reverse_entry_def split: option.splits)

lemma newest_first_reverse [simp]: "newest_first (apply_reverse_entry e s) = newest_first s"
  by (simp add: newest_first_def)

lemma add_delta_simps [simp]:
  "gs_base_layers (add_to_last_delta e s) = gs_base_layers s"
  "gs_base_layers (add_to_new_delta e s) = gs_base_layers s"
  "gs_reverse_index (add_to_last_delta e s) = gs_reverse_index s"
  "gs_reverse_index (add_to_new_delta e s) = gs_reverse_index s"
  "gs_manifest (add_to_last_delta e s) = gs_manifest s"
  "gs_manifest (add_to_new_delta e s) = gs_manifest s"
  by (simp_all add: add_to_last_delta_def add_to_new_delta_def)

lemma base_has_edge_cong:
  "gs_base_layers s = gs_base_layers s' \<Longrightarrow> base_has_edge x y u s = base_has_edge x y u s'"
  by (simp add: base_has_edge_def)

lemma append_edge_simps [simp]:
  "newest_first (append_edge a b t c s) = edge_entry_new a b t c 0 0 # newest_first s"
  "gs_base_layers (append_edge a b t c s) = gs_base_layers s"
  "length (gs_delta_layers (append_edge a b t c s)) \<le> length (gs_delta_layers s) + 1"
  by (auto simp: append_edge_def Let_def)
     (auto simp: newest_first_def add_to_last_delta_def add_to_new_delta_def)

lemma new_entry_sel [simp]:
  "\<not> edge_entry_is_deleted (edge_entry_new a b t c f g)" "edge_entry_is_deleted (edge_entry_tombstone a b t)"
  "is_edge x y u (edge_entry_new a b t c f g) \<longleftrightarrow> x = a \<and> y = b \<and> u = t"
  "is_edge x y u (edge_entry_tombstone a b t) \<longleftrightarrow> x = a \<and> y = b \<and> u = t"
  by (auto simp: edge_entry_is_deleted_def edge_entry_tombstone_def edge_entry_new_def
      edge_entry_with_flags_def FLAG_DELETED_def is_edge_def edge_entry_type_def)

lemma has_edge_prepend:
  "newest_first s' = e # newest_first s \<Longrightarrow> gs_base_layers s' = gs_base_layers s \<Longrightarrow>
   has_edge x y u s' = (if is_edge x y u e then Ok (\<not> edge_entry_is_deleted e) else has_edge x y u s)"
  by (simp add: has_edge_newest base_has_edge_def split: option.splits)

text \<open>
  C28: below the compaction threshold an added edge is found and a deleted one is not, and no other edge
  changes.
\<close>

theorem graph_last_write_wins:
  assumes "length (gs_delta_layers s) < MAX_DELTA_LAYERS" "\<not> manifest_is_readonly (gs_manifest s)"
  shows "\<exists>s1 s2. add_edge a b t c s fs = Ok (s1, fs) \<and> delete_edge a b t s = Ok s2 \<and>
     has_edge x y u s1 = (if (x, y, u) = (a, b, t) then Ok True else has_edge x y u s) \<and>
     has_edge x y u s2 = (if (x, y, u) = (a, b, t) then Ok False else has_edge x y u s)"
proof -
  let ?s1 = "append_edge a b t c s"
  have 1: "add_edge a b t c s fs = Ok (?s1, fs)"
    using assms(1) append_edge_simps(3) [of a b t c s] by (simp add: add_edge_def Let_def)
  have 2: "has_edge x y u ?s1 = (if (x, y, u) = (a, b, t) then Ok True else has_edge x y u s)"
    by (subst has_edge_prepend [of _ "edge_entry_new a b t c 0 0" s]) simp_all
  obtain s2 where 3: "delete_edge a b t s = Ok s2" "newest_first s2 = edge_entry_tombstone a b t # newest_first s"
      "gs_base_layers s2 = gs_base_layers s"
    using assms(2) by (auto simp: delete_edge_def Let_def)
  have "has_edge x y u s2 = (if (x, y, u) = (a, b, t) then Ok False else has_edge x y u s)"
    by (subst has_edge_prepend [OF 3(2,3)]) simp
  with 1 2 3(1) show ?thesis by blast
qed

lemma graph_last_write_wins_witness:
  "\<exists>s1 s2. add_edge 1 2 SUPPORTS 9 (graph_with_path [] 4) [] = Ok (s1, []) \<and>
     delete_edge 1 2 SUPPORTS (graph_with_path [] 4) = Ok s2 \<and> has_edge 1 2 SUPPORTS s1 = Ok True \<and>
     has_edge 2 1 SUPPORTS s1 = Ok False \<and> has_edge 1 2 SUPPORTS s2 = Ok False"
proof -
  let ?s = "graph_with_path [] 4"
  have h: "length (gs_delta_layers ?s) < MAX_DELTA_LAYERS" "\<not> manifest_is_readonly (gs_manifest ?s)"
    by (simp_all add: MAX_DELTA_LAYERS_def graph_with_path_def manifest_new_def manifest_is_readonly_def
        FLAG_COMPACTED_def FLAG_READONLY_def)
  have "has_edge 2 1 SUPPORTS ?s = Ok False" by (simp add: has_edge_newest base_has_edge_def)
  moreover obtain s1 s2 where "add_edge 1 2 SUPPORTS 9 ?s [] = Ok (s1, [])" "delete_edge 1 2 SUPPORTS ?s = Ok s2"
    "has_edge 2 1 SUPPORTS s1 = has_edge 2 1 SUPPORTS ?s"
    using graph_last_write_wins [OF h, where a = 1 and b = 2 and t = SUPPORTS and c = 9 and fs = "[]" and
        x = 2 and y = 1 and u = SUPPORTS] by auto
  ultimately show ?thesis
    using graph_last_write_wins [OF h, where a = 1 and b = 2 and t = SUPPORTS and c = 9 and fs = "[]" and
        x = 1 and y = 2 and u = SUPPORTS] by auto
qed

section \<open>The merged iterator\<close>

text \<open>What the iterator does, on the live neighbours of each source: every step takes the head of
  every source and returns the least one, so the other heads are lost.\<close>

primrec pick_least :: "(NodeNum \<times> TrustLevel) option \<Rightarrow> (NodeNum \<times> TrustLevel) list list \<Rightarrow>
    (NodeNum \<times> TrustLevel) option" where
  "pick_least best [] = best"
| "pick_least best (xs # xss) = pick_least
     (case xs of [] \<Rightarrow> best
      | x # _ \<Rightarrow> (case best of None \<Rightarrow> Some x | Some y \<Rightarrow> if fst x < fst y then Some x else best)) xss"

lemma pick_least_None [simp]: "pick_least best xss = None \<longleftrightarrow> best = None \<and> (\<forall>xs\<in>set xss. xs = [])"
  by (induction xss arbitrary: best) (auto split: list.splits option.splits)

lemma sum_tl: "(\<exists>xs\<in>set xss. xs \<noteq> []) \<Longrightarrow> sum_list (map (\<lambda>xs. length (tl xs)) xss) < sum_list (map length xss)"
proof (induction xss)
  case (Cons xs xss)
  have le: "sum_list (map (\<lambda>xs. length (tl xs)) xss) \<le> sum_list (map length xss)"
    by (intro sum_list_mono) simp
  show ?case
  proof (cases "xs = []")
    case True with Cons show ?thesis by simp
  next
    case False
    then have "length (tl xs) < length xs" by simp
    with le show ?thesis by simp
  qed
qed simp

function lossy_merge :: "(NodeNum \<times> TrustLevel) list list \<Rightarrow> (NodeNum \<times> TrustLevel) list" where
  "lossy_merge xss = (case pick_least None xss of None \<Rightarrow> [] | Some x \<Rightarrow> x # lossy_merge (map tl xss))"
  by pat_completeness auto
termination
proof (relation "measure (\<lambda>xss. sum_list (map length xss))")
  fix xss :: "(NodeNum \<times> TrustLevel) list list" and x
  assume "pick_least None xss = Some x"
  then have "\<not> (\<forall>xs\<in>set xss. xs = [])" using pick_least_None [of None xss] by auto
  then show "(map tl xss, xss) \<in> measure (\<lambda>xss. sum_list (map length xss))"
    using sum_tl [of xss] by (simp add: comp_def)
qed simp

declare lossy_merge.simps [simp del]

definition entry_target :: "EdgeListEntry \<Rightarrow> NodeNum \<times> TrustLevel" where
  "entry_target e = (ee_dst_node e, ee_confidence_q e)"

lemma next_where_filter:
  "next_where P xs = (item, ys) \<Longrightarrow> filter P xs = (case item of None \<Rightarrow> [] | Some x \<Rightarrow> x # filter P ys) \<and>
    (item = None \<longrightarrow> ys = [])"
proof -
  have d: "filter P (dropWhile (\<lambda>x. \<not> P x) xs) = filter P xs" by (induction xs) auto
  assume "next_where P xs = (item, ys)"
  then show ?thesis
    using d hd_dropWhile [of "\<lambda>x. \<not> P x" xs]
    by (cases "dropWhile (\<lambda>x. \<not> P x) xs") (auto simp: next_where_def)
qed

definition delta_lists :: "(EdgeListEntry \<Rightarrow> bool) \<Rightarrow> EdgeListEntry list list \<Rightarrow> (NodeNum \<times> TrustLevel) list list" where
  "delta_lists P its = map (\<lambda>es. map entry_target (filter P es)) its"

lemma advance_deltas_pick:
  "advance_deltas P its best = (best', its') \<Longrightarrow>
   best' = pick_least best (delta_lists P its) \<and> delta_lists P its' = map tl (delta_lists P its)"
proof (induction its arbitrary: best best' its')
  case (Cons it its)
  obtain item it' where n: "next_where P it = (item, it')" by (cases "next_where P it")
  note f = next_where_filter [OF n]
  show ?case
    using Cons.prems f Cons.IH
    by (cases item) (fastforce simp: n delta_lists_def entry_target_def split: prod.splits option.splits)+
qed (simp add: delta_lists_def)

definition base_list :: "TimeBucket \<Rightarrow> (NodeNum \<times> EdgeAttr) list option \<Rightarrow> (NodeNum \<times> TrustLevel) list" where
  "base_list bucket b = (case b of None \<Rightarrow> [] | Some xs \<Rightarrow>
     map (\<lambda>(dst, attr). (dst, ea_confidence_q attr))
       (filter (\<lambda>(dst, attr). \<not> edge_attr_is_deleted attr \<and> edge_attr_is_valid_at attr bucket) xs))"

definition source_lists :: "MergedNeighborIter \<Rightarrow> (NodeNum \<times> TrustLevel) list list" where
  "source_lists m = base_list (mi_time_bucket m) (mi_base_iter m) # delta_lists (entry_matches m) (mi_delta_iters m)"

lemma entry_matches_update [simp]:
  "entry_matches (m\<lparr>mi_base_iter := b, mi_delta_iters := d\<rparr>) = entry_matches m"
  by (rule ext) (simp add: entry_matches_def)

lemma merged_advance_pick:
  "merged_advance m = (x, m') \<Longrightarrow> x = pick_least None (source_lists m) \<and> source_lists m' = map tl (source_lists m)"
proof (cases "mi_base_iter m")
  case None
  assume "merged_advance m = (x, m')"
  with None obtain its' where "advance_deltas (entry_matches m) (mi_delta_iters m) None = (x, its')"
      "m' = m\<lparr>mi_base_iter := None, mi_delta_iters := its'\<rparr>"
    by (auto simp: merged_advance_def split: prod.splits)
  with advance_deltas_pick [OF this(1)] None show ?thesis by (simp add: source_lists_def base_list_def)
next
  case (Some xs)
  let ?P = "\<lambda>(dst, attr). \<not> edge_attr_is_deleted attr \<and> edge_attr_is_valid_at attr (mi_time_bucket m)"
  let ?f = "\<lambda>(dst, attr). (dst, ea_confidence_q attr)"
  obtain item ys where n: "next_where ?P xs = (item, ys)" by (cases "next_where ?P xs")
  assume "merged_advance m = (x, m')"
  then obtain its' where a: "advance_deltas (entry_matches m) (mi_delta_iters m) (map_option ?f item) = (x, its')"
    and m': "m' = m\<lparr>mi_base_iter := Some ys, mi_delta_iters := its'\<rparr>"
    using Some n by (auto simp: merged_advance_def split: prod.splits)
  show ?thesis
    using next_where_filter [OF n] advance_deltas_pick [OF a] Some m'
    by (cases item) (auto simp: source_lists_def base_list_def)
qed

lemma merged_items_lossy: "merged_items m = lossy_merge (source_lists m)"
proof (induction m rule: merged_items.induct)
  case (1 m)
  obtain x m' where a: "merged_advance m = (x, m')" by (cases "merged_advance m")
  note p = merged_advance_pick [OF a]
  have i: "merged_items m' = lossy_merge (map tl (source_lists m))" if "x = Some y" for y
    using 1 [OF a [symmetric] that] p by simp
  show ?case
  proof (cases x)
    case None
    with p show ?thesis
      by (subst merged_items.simps, subst lossy_merge.simps) (simp add: a del: pick_least_None)
  next
    case (Some y)
    then have "pick_least None (source_lists m) = Some y" using p by simp
    with i [OF Some] Some show ?thesis
      by (subst merged_items.simps, subst lossy_merge.simps) (simp add: a)
  qed
qed

lemma pick_least_filter: "pick_least best (filter (\<lambda>xs. xs \<noteq> []) xss) = pick_least best xss"
  by (induction xss arbitrary: best) auto

lemma lossy_merge_cong_filter:
  "filter (\<lambda>xs. xs \<noteq> []) xss = filter (\<lambda>xs. xs \<noteq> []) yss \<Longrightarrow> lossy_merge xss = lossy_merge yss"
proof (induction xss arbitrary: yss rule: lossy_merge.induct)
  case (1 xss)
  have p: "pick_least None xss = pick_least None yss"
    using 1(2) pick_least_filter [of None xss] pick_least_filter [of None yss] by simp
  have f: "filter (\<lambda>xs. xs \<noteq> []) (map tl zss) = filter (\<lambda>xs. xs \<noteq> []) (map tl (filter (\<lambda>xs. xs \<noteq> []) zss))"
    for zss :: "(NodeNum \<times> TrustLevel) list list"
    by (induction zss) auto
  have "filter (\<lambda>xs. xs \<noteq> []) (map tl xss) = filter (\<lambda>xs. xs \<noteq> []) (map tl yss)"
    using f [of xss] f [of yss] 1(2) by simp
  then show ?case
    using 1(1) p
    by (subst lossy_merge.simps, subst (2) lossy_merge.simps) (auto simp del: pick_least_None split: option.splits)
qed

lemma length_lossy_merge: "length (lossy_merge xss) = foldr max (map length xss) 0"
proof (induction xss rule: lossy_merge.induct)
  case (1 xss)
  have t: "foldr max (map length xss) 0 = Suc (foldr max (map length (map tl xss)) 0)" if "\<exists>xs\<in>set xss. xs \<noteq> []"
    for xss :: "(NodeNum \<times> TrustLevel) list list"
    using that
  proof (induction xss)
    case (Cons xs xss)
    show ?case
    proof (cases "\<exists>xs\<in>set xss. xs \<noteq> []")
      case True with Cons.IH show ?thesis by (cases xs) auto
    next
      case False
      then have "foldr max (map length xss) 0 = 0" "foldr max (map length (map tl xss)) 0 = 0"
        by (induction xss) auto
      with Cons.prems False show ?thesis by (cases xs) auto
    qed
  qed simp
  have z: "foldr max (map length xss) 0 = 0" if "\<forall>xs\<in>set xss. xs = []"
    for xss :: "(NodeNum \<times> TrustLevel) list list"
    using that by (induction xss) auto
  show ?case
  proof (cases "pick_least None xss")
    case None
    then have "foldr max (map length xss) 0 = 0" using z [of xss] by simp
    with None show ?thesis by (subst lossy_merge.simps) (simp del: pick_least_None)
  next
    case (Some x)
    then have "\<exists>xs\<in>set xss. xs \<noteq> []" using pick_least_None [of None xss] by auto
    with 1 [OF Some] t [of xss] show ?thesis by (subst lossy_merge.simps) (simp add: Some)
  qed
qed

definition base_iter :: "NodeNum \<Rightarrow> EdgeType \<Rightarrow> GraphStore \<Rightarrow> (NodeNum \<times> EdgeAttr) list option run" where
  "base_iter src t s =
     (case Option.bind (map_of (gs_base_layers s) t) csr_view of
        None \<Rightarrow> Ok None
      | Some view \<Rightarrow> bind_res (neighbor_range_data view src) (\<lambda>r.
          Ok (map_option (\<lambda>(targets, attrs). neighbor_iter targets attrs 0) r)))"

text \<open>The entries that make an edge of a type from a source visible.\<close>

definition visible :: "NodeNum \<Rightarrow> EdgeType \<Rightarrow> EdgeListEntry \<Rightarrow> bool" where
  "visible src t e \<longleftrightarrow> ee_src_node e = src \<and> edge_entry_type e = Some t \<and> \<not> edge_entry_is_deleted e \<and>
     edge_entry_is_valid_at e 0"

lemma visible_new [simp]:
  "visible x u (edge_entry_new a b t c 0 0) \<longleftrightarrow> x = a \<and> u = t" "\<not> visible x u (edge_entry_tombstone a b t)"
  by (auto simp: visible_def edge_entry_new_def edge_entry_with_flags_def edge_entry_type_def
      edge_entry_is_deleted_def edge_entry_is_valid_at_def edge_entry_tombstone_def FLAG_DELETED_def)

lemma entry_target_new [simp]: "entry_target (edge_entry_new a b t c f g) = (b, c)"
  by (simp add: entry_target_def edge_entry_new_def edge_entry_with_flags_def)

lemma neighbors_lossy:
  "neighbors src t s = bind_res (base_iter src t s) (\<lambda>b.
     Ok (lossy_merge (base_list 0 b # delta_lists (visible src t) (map dl_edges (gs_delta_layers s)))))"
proof -
  have v: "entry_matches \<lparr>mi_base_iter = b, mi_delta_iters = d, mi_edge_type = t, mi_time_bucket = 0, mi_src_node = src\<rparr> =
      visible src t" for b d
    by (rule ext) (simp add: entry_matches_def visible_def)
  have "filter (\<lambda>xs. xs \<noteq> []) (delta_lists P (filter (\<lambda>es. es \<noteq> []) its)) = filter (\<lambda>xs. xs \<noteq> []) (delta_lists P its)"
    for P its by (induction its) (auto simp: delta_lists_def)
  then have "lossy_merge (xs # delta_lists P (filter (\<lambda>es. es \<noteq> []) its)) = lossy_merge (xs # delta_lists P its)"
    for xs P its by (intro lossy_merge_cong_filter) simp
  then show ?thesis
    unfolding neighbors_def base_iter_def by (simp add: merged_items_lossy source_lists_def v)
qed

text \<open>
  What \<open>neighbors\<close> returns has the length of its longest source, so that as soon as two sources have
  live edges of the node some of them are missing.
\<close>

lemma lossy_merge_single: "lossy_merge [xs] = xs"
proof (induction xs)
  case (Cons x xs)
  then show ?case by (subst lossy_merge.simps) simp
qed (simp add: lossy_merge.simps)

lemma neighbors_single_delta:
  assumes "gs_base_layers s = []" "gs_delta_layers s = [d]"
  shows "neighbors x t s = Ok (map entry_target (filter (visible x t) (dl_edges d)))"
proof -
  have "lossy_merge [[], xs] = lossy_merge [xs]" for xs by (rule lossy_merge_cong_filter) simp
  then show ?thesis
    using assms by (simp add: neighbors_lossy base_iter_def base_list_def delta_lists_def lossy_merge_single)
qed

text \<open>
  What \<open>neighbors\<close> returns has the length of its longest source, so that as soon as two sources have live
  edges of the node some of them are missing.
\<close>

theorem neighbors_drops_edges:
  assumes "base_iter src t s = Ok b"
  shows "\<exists>ns. neighbors src t s = Ok ns \<and>
     length ns = foldr max (length (base_list 0 b) #
       map (\<lambda>d. length (filter (visible src t) (dl_edges d))) (gs_delta_layers s)) 0"
  using assms by (simp add: neighbors_lossy length_lossy_merge delta_lists_def comp_def)

lemma neighbors_drops_edges_witness:
  "\<exists>s ns. has_edge 1 2 SUPPORTS s = Ok True \<and> has_edge 1 3 SUPPORTS s = Ok True \<and>
     neighbors 1 SUPPORTS s = Ok ns \<and> length ns = 1"
proof -
  let ?e = "\<lambda>y. edge_entry_new 1 y SUPPORTS 9 0 0"
  let ?s = "add_to_new_delta (?e 3) (add_to_new_delta (?e 2) (graph_with_path [] 4))"
  have "base_iter 1 SUPPORTS ?s = Ok None" by (simp add: base_iter_def)
  moreover have "map dl_edges (gs_delta_layers ?s) = [[?e 2], [?e 3]]"
    by (simp add: add_to_new_delta_def delta_add_def delta_new_def)
  ultimately obtain ns where "neighbors 1 SUPPORTS ?s = Ok ns" "length ns = 1"
    using neighbors_drops_edges [of 1 SUPPORTS ?s None] by (auto simp: base_list_def)
  moreover have "has_edge 1 2 SUPPORTS ?s = Ok True" "has_edge 1 3 SUPPORTS ?s = Ok True"
    by (simp_all add: has_edge_newest)
  ultimately show ?thesis by blast
qed

text \<open>
  Deleting an edge never changes what \<open>neighbors\<close> returns: a tombstone is skipped like any other entry
  and hides nothing.
\<close>

lemma neighbors_skip:
  assumes "\<not> visible src t e"
  shows "gs_delta_layers s \<noteq> [] \<Longrightarrow> neighbors src t (add_to_last_delta e s) = neighbors src t s"
    and "neighbors src t (add_to_new_delta e s) = neighbors src t s"
proof -
  assume "gs_delta_layers s \<noteq> []"
  then obtain ds d where "gs_delta_layers s = ds @ [d]" by (metis rev_exhaust)
  then show "neighbors src t (add_to_last_delta e s) = neighbors src t s"
    using assms by (simp add: neighbors_lossy base_iter_def add_to_last_delta_def delta_add_def delta_lists_def)
next
  have "lossy_merge (xs # xss @ [[]]) = lossy_merge (xs # xss)" for xs xss
    by (rule lossy_merge_cong_filter) simp
  then show "neighbors src t (add_to_new_delta e s) = neighbors src t s"
    using assms by (simp add: neighbors_lossy base_iter_def add_to_new_delta_def delta_add_def delta_new_def delta_lists_def)
qed

lemma neighbors_reverse [simp]: "neighbors src t (apply_reverse_entry e s) = neighbors src t s"
  by (simp add: neighbors_lossy base_iter_def)

section \<open>The reverse index\<close>

text \<open>What an entry does to the incoming edges of its target.\<close>

definition incoming_step :: "EdgeListEntry \<Rightarrow> Incoming \<Rightarrow> Incoming" where
  "incoming_step e incoming =
     (if edge_entry_is_deleted e then filter (\<lambda>(src, _). src \<noteq> ee_src_node e) incoming
      else if ee_src_node e \<in> fst ` set incoming
      then update_confidence (ee_src_node e) (ee_confidence_q e) incoming
      else sort_key fst (incoming @ [(ee_src_node e, ee_confidence_q e)]))"

lemma get_or_delete [simp]: "get_or d (AList.delete k m) k' = (if k' = k then d else get_or d m k')"
  by (simp add: get_or_def delete_conv')

lemma in_neighbors_apply:
  "in_neighbors b t (apply_reverse_entry e s) =
     (if edge_entry_type e = Some t \<and> ee_dst_node e = b then incoming_step e (in_neighbors b t s)
      else in_neighbors b t s)"
  by (auto simp: in_neighbors_def apply_reverse_entry_def reverse_entry_def incoming_step_def Let_def
      split: option.splits)

lemma map_of_update_confidence:
  "a \<in> fst ` set xs \<Longrightarrow> map_of (update_confidence a c xs) = (map_of xs)(a \<mapsto> c)"
proof (induction xs)
  case (Cons x xs)
  then show ?case by (cases "fst x = a") (auto simp: fun_upd_twist)
qed simp

lemma keys_update_confidence [simp]: "map fst (update_confidence a c xs) = map fst xs"
  by (induction xs) auto

lemma map_of_filter_neq: "map_of (filter (\<lambda>(k, _). k \<noteq> a) xs) = (map_of xs)(a := None)"
  by (induction xs) auto

definition incoming_ok :: "Incoming \<Rightarrow> bool" where
  "incoming_ok incoming \<longleftrightarrow> sorted_wrt (<) (map fst incoming)"

lemma sorted_incoming:
  assumes "distinct (map fst xs)"
  shows "sorted_wrt (<) (map fst (sort_key fst xs))" "map_of (sort_key fst xs) = map_of xs"
proof -
  have d: "distinct (map fst (sort_key fst xs))" using assms by (simp add: distinct_map)
  then show "sorted_wrt (<) (map fst (sort_key fst xs))" by (simp add: strict_sorted_iff)
  show "map_of (sort_key fst xs) = map_of xs" using d assms by (simp add: map_of_inject_set)
qed

lemma map_of_snoc_new: "a \<notin> fst ` set xs \<Longrightarrow> map_of (xs @ [(a, c)]) = (map_of xs)(a \<mapsto> c)"
  by (induction xs) (auto simp: fun_upd_twist)

lemma incoming_step_spec:
  assumes "incoming_ok incoming"
  shows "incoming_ok (incoming_step e incoming)"
    and "map_of (incoming_step e incoming) = (map_of incoming)
      (ee_src_node e := if edge_entry_is_deleted e then None else Some (ee_confidence_q e))"
proof -
  have d: "distinct (map fst incoming)" using assms by (simp add: incoming_ok_def strict_sorted_iff)
  have s: "distinct (map fst (incoming @ [(a, c)]))" if "a \<notin> fst ` set incoming" for a c
    using d that by auto
  have f: "sorted_wrt (<) (map fst (filter P incoming))" for P
    using assms by (simp add: incoming_ok_def sorted_wrt_map sorted_wrt_filter)
  show "incoming_ok (incoming_step e incoming)"
    using assms f sorted_incoming(1) [OF s] by (simp add: incoming_ok_def incoming_step_def)
  show "map_of (incoming_step e incoming) = (map_of incoming)
      (ee_src_node e := if edge_entry_is_deleted e then None else Some (ee_confidence_q e))"
    using sorted_incoming(2) [OF s]
    by (simp add: incoming_step_def map_of_filter_neq map_of_update_confidence map_of_snoc_new del: map_of_append)
qed

text \<open>The stores that are built by adding and deleting edges and nodes, without a compaction and without
  overflow of the node count.\<close>

inductive grown :: "GraphStore \<Rightarrow> bool" where
  created: "grown (graph_with_path path n)"
| edge_added: "\<lbrakk>grown s; max a b < - 1; length (gs_delta_layers s) < MAX_DELTA_LAYERS; add_edge a b t c s fs = Ok (s', fs')\<rbrakk> \<Longrightarrow> grown s'"
| edge_deleted: "\<lbrakk>grown s; delete_edge a b t s = Ok s'\<rbrakk> \<Longrightarrow> grown s'"
| node_added: "\<lbrakk>grown s; n < - 1\<rbrakk> \<Longrightarrow> grown (add_node n s)"
| readonly_set: "grown s \<Longrightarrow> grown (set_readonly r s)"

text \<open>The confidence that the newest entry of an edge gives it.\<close>

definition newest_confidence :: "NodeNum \<Rightarrow> NodeNum \<Rightarrow> EdgeType \<Rightarrow> GraphStore \<Rightarrow> TrustLevel option" where
  "newest_confidence a b t s = (case List.find (is_edge a b t) (newest_first s) of
     Some e \<Rightarrow> if edge_entry_is_deleted e then None else Some (ee_confidence_q e) | None \<Rightarrow> None)"

definition reverse_ok :: "GraphStore \<Rightarrow> bool" where
  "reverse_ok s \<longleftrightarrow> gs_base_layers s = [] \<and>
     (\<forall>b t. incoming_ok (in_neighbors b t s) \<and> map_of (in_neighbors b t s) = (\<lambda>a. newest_confidence a b t s))"

lemma reverse_ok_prepend:
  assumes "reverse_ok s" "newest_first s0 = e # newest_first s" "gs_base_layers s0 = gs_base_layers s"
    "gs_reverse_index s0 = gs_reverse_index s"
  shows "reverse_ok (apply_reverse_entry e s0)"
proof -
  have i: "in_neighbors b t s0 = in_neighbors b t s" for b t by (simp add: in_neighbors_def assms(4))
  have n: "newest_confidence a b t (apply_reverse_entry e s0) =
      (if is_edge a b t e then if edge_entry_is_deleted e then None else Some (ee_confidence_q e)
       else newest_confidence a b t s)" for a b t
    by (simp add: newest_confidence_def assms(2))
  have ok: "incoming_ok (in_neighbors b t s)" "map_of (in_neighbors b t s) a = newest_confidence a b t s" for a b t
    using assms(1) by (simp_all add: reverse_ok_def)
  have "map_of (in_neighbors b t (apply_reverse_entry e s0)) a = newest_confidence a b t (apply_reverse_entry e s0)"
    for a b t
    by (simp add: in_neighbors_apply i n ok incoming_step_spec(2) is_edge_def)
  moreover have "incoming_ok (in_neighbors b t (apply_reverse_entry e s0))" for b t
    by (simp add: in_neighbors_apply i ok incoming_step_spec(1))
  ultimately show ?thesis
    using assms(1,3) by (auto simp: reverse_ok_def)
qed

lemma reverse_ok_cong:
  "gs_base_layers s' = gs_base_layers s \<Longrightarrow> gs_delta_layers s' = gs_delta_layers s \<Longrightarrow>
   gs_reverse_index s' = gs_reverse_index s \<Longrightarrow> reverse_ok s' = reverse_ok s"
  by (simp add: reverse_ok_def in_neighbors_def newest_confidence_def newest_first_def)

text \<open>\<open>append_edge\<close> up to the choice of the layer.\<close>

definition touched :: "NodeNum \<Rightarrow> NodeNum \<Rightarrow> EdgeType \<Rightarrow> GraphStore \<Rightarrow> GraphStore" where
  "touched a b t s =
     (let s = (if max a b \<ge> gm_node_count (gs_manifest s)
               then s\<lparr>gs_manifest := (gs_manifest s)\<lparr>gm_node_count := max a b + 1\<rparr>\<rparr> else s)
      in s\<lparr>gs_manifest := manifest_mark_edge_type t (gs_manifest s)\<rparr>)"

lemma touched_simps [simp]:
  "gs_delta_layers (touched a b t s) = gs_delta_layers s" "gs_base_layers (touched a b t s) = gs_base_layers s"
  "gs_reverse_index (touched a b t s) = gs_reverse_index s" "newest_first (touched a b t s) = newest_first s"
  "gs_next_delta_id (touched a b t s) = gs_next_delta_id s"
  by (simp_all add: touched_def newest_first_def Let_def)

lemma append_edge_touched:
  "append_edge a b t c s = apply_reverse_entry (edge_entry_new a b t c 0 0)
     (if gs_delta_layers s = [] \<or> length (dl_edges (last (gs_delta_layers s))) > 100000
      then add_to_new_delta (edge_entry_new a b t c 0 0) (touched a b t s)
      else add_to_last_delta (edge_entry_new a b t c 0 0) (touched a b t s))"
  by (simp add: append_edge_def touched_def Let_def)

lemma append_edge_reverse_ok: "reverse_ok s \<Longrightarrow> reverse_ok (append_edge a b t c s)"
  unfolding append_edge_touched by (rule reverse_ok_prepend [of s]) auto

lemma grown_reverse_ok: "grown s \<Longrightarrow> reverse_ok s"
proof (induction rule: grown.induct)
  case (created path n)
  show ?case
    by (simp add: reverse_ok_def graph_with_path_def in_neighbors_def newest_confidence_def newest_first_def
        incoming_ok_def)
next
  case (edge_added s a b t c fs s' fs')
  then have "s' = append_edge a b t c s"
    using append_edge_simps(3) [of a b t c s] by (simp add: add_edge_def Let_def)
  with edge_added.IH show ?case by (simp add: append_edge_reverse_ok)
next
  case (edge_deleted s a b t s')
  then have "s' = apply_reverse_entry (edge_entry_tombstone a b t)
      (if gs_delta_layers s = [] then add_to_new_delta (edge_entry_tombstone a b t) s
       else add_to_last_delta (edge_entry_tombstone a b t) s)"
    by (auto simp: delete_edge_def Let_def split: if_splits)
  with edge_deleted.IH show ?case by (auto intro: reverse_ok_prepend)
next
  case (node_added s n)
  then show ?case by (subst reverse_ok_cong [of _ s]) (simp_all add: add_node_def)
next
  case (readonly_set s r)
  then show ?case by (subst reverse_ok_cong [of _ s]) (simp_all add: set_readonly_def)
qed

text \<open>
  C22: in a store that was only grown the incoming edges of every node are sorted, name exactly the sources from
  which \<open>has_edge\<close> finds an edge, and carry the confidence of the newest entry.
\<close>

theorem reverse_index_agrees:
  assumes "grown s"
  shows "sorted_wrt (<) (map fst (in_neighbors b t s)) \<and>
     (\<forall>a. has_edge a b t s = Ok (a \<in> fst ` set (in_neighbors b t s))) \<and>
     (\<forall>a. map_of (in_neighbors b t s) a = newest_confidence a b t s)"
proof -
  note ok = grown_reverse_ok [OF assms, unfolded reverse_ok_def]
  have "has_edge a b t s = Ok (newest_confidence a b t s \<noteq> None)" for a
    using ok by (auto simp: has_edge_newest newest_confidence_def base_has_edge_def split: option.splits)
  moreover have "newest_confidence a b t s \<noteq> None \<longleftrightarrow> a \<in> fst ` set (in_neighbors b t s)" for a
    using ok map_of_eq_None_iff [of "in_neighbors b t s" a] by auto
  ultimately show ?thesis using ok by (auto simp: incoming_ok_def)
qed

lemma in_neighbors_append_edge:
  "in_neighbors y u (append_edge a b t c s) =
     (if u = t \<and> y = b then incoming_step (edge_entry_new a b t c 0 0) (in_neighbors y u s) else in_neighbors y u s)"
proof -
  have "in_neighbors y u (add_to_new_delta e (touched a b t s)) = in_neighbors y u s"
    "in_neighbors y u (add_to_last_delta e (touched a b t s)) = in_neighbors y u s" for e
    by (simp_all add: in_neighbors_def)
  moreover have "ee_dst_node (edge_entry_new a b t c 0 0) = b"
    "edge_entry_type (edge_entry_new a b t c 0 0) = Some t"
    by (simp_all add: edge_entry_new_def edge_entry_with_flags_def edge_entry_type_def)
  ultimately show ?thesis unfolding append_edge_touched by (auto simp: in_neighbors_apply simp del: new_entry_sel)
qed

lemma grown_append_edge:
  "grown s \<Longrightarrow> max a b < - 1 \<Longrightarrow> length (gs_delta_layers s) < MAX_DELTA_LAYERS \<Longrightarrow> grown (append_edge a b t c s)"
  using edge_added [of s a b t c "[]" "append_edge a b t c s" "[]"] append_edge_simps(3) [of a b t c s]
  by (simp add: add_edge_def Let_def)

lemma grown_example:
  "max a b < - 1 \<Longrightarrow> grown (append_edge a b t c (graph_with_path p n))"
  "max a b < - 1 \<Longrightarrow> max x y < - 1 \<Longrightarrow> grown (append_edge x y u d (append_edge a b t c (graph_with_path p n)))"
proof -
  assume "max a b < - 1"
  then show g: "grown (append_edge a b t c (graph_with_path p n))"
    by (intro grown_append_edge created) (simp_all add: MAX_DELTA_LAYERS_def)
  assume "max x y < - 1"
  then show "grown (append_edge x y u d (append_edge a b t c (graph_with_path p n)))"
    by (intro grown_append_edge g) (simp_all add: append_edge_touched add_to_new_delta_def MAX_DELTA_LAYERS_def)
qed

lemmas grown_example_simps = word_less_nat_alt unsigned_minus_1_eq_mask mask_eq_exp_minus_1

lemma reverse_index_agrees_witness:
  "grown (append_edge 1 2 SUPPORTS 9 (append_edge 5 2 SUPPORTS 7 (graph_with_path [] 4))) \<and>
   in_neighbors 2 SUPPORTS (append_edge 1 2 SUPPORTS 9 (append_edge 5 2 SUPPORTS 7 (graph_with_path [] 4))) = [(1, 9), (5, 7)] \<and>
   has_edge 1 2 SUPPORTS (append_edge 1 2 SUPPORTS 9 (append_edge 5 2 SUPPORTS 7 (graph_with_path [] 4))) = Ok True"
proof -
  let ?s = "append_edge 1 2 SUPPORTS 9 (append_edge 5 2 SUPPORTS 7 (graph_with_path [] 4))"
  have g: "grown ?s"
    by (intro grown_example) (simp_all add: grown_example_simps)
  have "in_neighbors 2 SUPPORTS ?s = [(1, 9), (5, 7)]"
    by (simp add: in_neighbors_append_edge incoming_step_def)
       (simp add: in_neighbors_def graph_with_path_def edge_entry_new_def edge_entry_with_flags_def word_le_nat_alt)
  then show ?thesis using g reverse_index_agrees [OF g, of 2 SUPPORTS] by simp
qed

section \<open>Deletion\<close>

text \<open>
  Deleting an edge never changes what \<open>neighbors\<close> returns: a tombstone is skipped like any other entry and
  hides nothing.
\<close>

theorem delete_keeps_neighbors:
  assumes "delete_edge a b t s = Ok s'"
  shows "has_edge a b t s' = Ok False \<and> neighbors x u s' = neighbors x u s"
proof -
  let ?e = "edge_entry_tombstone a b t"
  have v: "\<not> visible x u ?e" by simp
  have s': "s' = apply_reverse_entry ?e (if gs_delta_layers s = [] then add_to_new_delta ?e s else add_to_last_delta ?e s)"
    using assms by (auto simp: delete_edge_def Let_def split: if_splits)
  then have "newest_first s' = ?e # newest_first s" by simp
  then have "has_edge a b t s' = Ok False" by (simp add: has_edge_newest)
  with s' neighbors_skip [OF v, of s] show ?thesis by simp
qed

lemma delete_keeps_neighbors_witness:
  "\<exists>s s'. delete_edge 1 2 SUPPORTS s = Ok s' \<and> has_edge 1 2 SUPPORTS s' = Ok False \<and>
     neighbors 1 SUPPORTS s' = Ok [(2, 9)]"
proof -
  let ?s = "append_edge 1 2 SUPPORTS 9 (graph_with_path [] 4)"
  have l: "gs_delta_layers ?s = [\<lparr>dl_id = 1, dl_base_gen = 0, dl_edges = [edge_entry_new 1 2 SUPPORTS 9 0 0],
      dl_sorted = False\<rparr>]"
    by (simp add: append_edge_touched add_to_new_delta_def graph_with_path_def touched_def Let_def
        delta_add_def delta_new_def manifest_new_def manifest_mark_edge_type_def)
  then have n: "neighbors 1 SUPPORTS ?s = Ok [(2, 9)]"
    by (subst neighbors_single_delta [OF _ l])
       simp_all
  have "\<not> manifest_is_readonly (gs_manifest ?s)"
    by (simp add: append_edge_touched touched_def Let_def graph_with_path_def manifest_new_def manifest_is_readonly_def
        manifest_mark_edge_type_def FLAG_COMPACTED_def FLAG_READONLY_def)
  then obtain s' where "delete_edge 1 2 SUPPORTS ?s = Ok s'" by (auto simp: delete_edge_def Let_def)
  with delete_keeps_neighbors [OF this, where x = 1 and u = SUPPORTS] n show ?thesis by auto
qed

end
