(* ===== verification/Graph_Paths.thy ===== *)
theory Graph_Paths
  imports Graph_Queries
begin

text \<open>
  The breadth-first search of \<open>path_exists\<close> (\<open>src/graph/store.rs\<close>) decides reachability within the given
  number of steps, along the edges that \<open>neighbors\<close> returns. The invariant of the search records the depth
  at which each node was queued.
\<close>

section \<open>Paths\<close>

definition marked :: "bool list \<Rightarrow> NodeNum set" where
  "marked v = {x. unat x < length v \<and> v ! unat x}"

lemma marked_update: "unat x < length v \<Longrightarrow> marked (v[unat x := True]) = insert x (marked v)"
  by (auto simp: marked_def nth_list_update word_unat_eq_iff)

text \<open>What the loops over neighbours \<open>ys\<close> of a node at depth \<open>d\<close> do to a search: all of them are
  visited, and those that were not are queued at depth \<open>d + 1\<close>.\<close>

definition visited_all :: "nat \<Rightarrow> NodeNum set \<Rightarrow> Search \<Rightarrow> Search \<Rightarrow> bool" where
  "visited_all d ys = (\<lambda>(v, q) (v', q'). length v' = length v \<and> marked v' = marked v \<union> ys \<and>
     (\<exists>new. q' = q @ new \<and> fst ` set new = ys - marked v \<and> snd ` set new \<subseteq> {d + 1}))"

lemma visited_all_refl: "visited_all d {} st st"
  by (auto simp: visited_all_def)

lemma visited_all_trans:
  "visited_all d ys st st' \<Longrightarrow> visited_all d zs st' st'' \<Longrightarrow> visited_all d (ys \<union> zs) st st''"
proof -
  assume a: "visited_all d ys st st'" "visited_all d zs st' st''"
  obtain v q v' q' v'' q'' where st: "st = (v, q)" "st' = (v', q')" "st'' = (v'', q'')" by (metis surj_pair)
  obtain new new' where "q' = q @ new" "fst ` set new = ys - marked v" "snd ` set new \<subseteq> {d + 1}"
      "q'' = q' @ new'" "fst ` set new' = zs - marked v'" "snd ` set new' \<subseteq> {d + 1}"
    and m: "marked v' = marked v \<union> ys" "marked v'' = marked v' \<union> zs" "length v'' = length v" "length v' = length v"
    using a by (auto simp: visited_all_def st)
  then have "q'' = q @ (new @ new')" "fst ` set (new @ new') = ys \<union> zs - marked v"
    "snd ` set (new @ new') \<subseteq> {d + 1}" by (auto simp: image_Un)
  with m show ?thesis by (auto simp: visited_all_def st intro!: exI [of _ "new @ new'"])
qed

lemma visit_neighbors_spec:
  "(\<forall>y\<in>fst ` set ns. unat y < length (fst st)) \<Longrightarrow>
   \<exists>b st'. visit_neighbors dst d ns st = Ok (b, st') \<and> (b \<longleftrightarrow> dst \<in> fst ` set ns) \<and>
     (\<not> b \<longrightarrow> visited_all d (fst ` set ns) st st')"
proof (induction dst d ns st rule: visit_neighbors.induct)
  case (1 dst d st)
  show ?case by (rule exI [of _ False]) (simp add: visited_all_refl)
next
  case (2 dst d y c ns v q)
  show ?case
  proof (cases "y = dst")
    case True
    then show ?thesis by (intro exI [of _ True]) simp
  next
    case False
    have in_range: "unat y < length v" using 2(3) by simp
    show ?thesis
    proof (cases "v ! unat y")
      case True
      obtain b st' where r: "visit_neighbors dst d ns (v, q) = Ok (b, st')" "b \<longleftrightarrow> dst \<in> fst ` set ns"
        "\<not> b \<longrightarrow> visited_all d (fst ` set ns) (v, q) st'"
        using 2(1) [OF False _ True] 2(3) in_range by auto
      have "visited_all d {y} (v, q) (v, q)" using True in_range by (auto simp: visited_all_def marked_def)
      with r True False in_range visited_all_trans [of d "{y}" "(v, q)" "(v, q)"] show ?thesis by auto
    next
      case nv: False
      let ?st = "(v[unat y := True], q @ [(y, d + 1)])"
      obtain b st' where r: "visit_neighbors dst d ns ?st = Ok (b, st')" "b \<longleftrightarrow> dst \<in> fst ` set ns"
        "\<not> b \<longrightarrow> visited_all d (fst ` set ns) ?st st'"
        using 2(2) [OF False _ nv] 2(3) in_range by auto
      have "visited_all d {y} (v, q) ?st"
        using nv in_range by (simp add: visited_all_def marked_update) (auto simp: marked_def)
      with r nv False in_range visited_all_trans [of d "{y}" "(v, q)" ?st] show ?thesis by auto
    qed
  qed
qed

text \<open>One step of the search, along an edge that \<open>neighbors\<close> returns for one of the types.\<close>

definition path_step :: "EdgeType list \<Rightarrow> GraphStore \<Rightarrow> (NodeNum \<times> NodeNum) set" where
  "path_step ts s = {(x, y). \<exists>t\<in>set ts. \<exists>ns. neighbors x t s = Ok ns \<and> y \<in> fst ` set ns}"

definition navigable :: "GraphStore \<Rightarrow> bool" where
  "navigable s \<longleftrightarrow> (\<forall>x t. \<exists>ns. neighbors x t s = Ok ns \<and> (\<forall>y\<in>fst ` set ns. y < gm_node_count (gs_manifest s)))"

lemma visit_types_spec:
  assumes "navigable s" "unat (gm_node_count (gs_manifest s)) \<le> length (fst st)"
  shows "\<exists>b st'. visit_types s dst x d ts st = Ok (b, st') \<and> (b \<longleftrightarrow> (x, dst) \<in> path_step ts s) \<and>
     (\<not> b \<longrightarrow> visited_all d (path_step ts s `` {x}) st st')"
  using assms(2)
proof (induction ts arbitrary: st)
  case Nil
  show ?case by (rule exI [of _ False]) (simp add: path_step_def visited_all_refl)
next
  case (Cons t ts)
  obtain ns where ns: "neighbors x t s = Ok ns" "\<forall>y\<in>fst ` set ns. y < gm_node_count (gs_manifest s)"
    using assms(1) unfolding navigable_def by blast
  have "\<forall>y\<in>fst ` set ns. unat y < length (fst st)"
    using ns(2) Cons.prems by (auto simp: word_less_nat_alt intro: less_le_trans)
  from visit_neighbors_spec [OF this, of dst d] obtain b st' where
    r: "visit_neighbors dst d ns st = Ok (b, st')" "b \<longleftrightarrow> dst \<in> fst ` set ns"
      "\<not> b \<longrightarrow> visited_all d (fst ` set ns) st st'" by blast
  have i: "path_step (t # ts) s `` {x} = fst ` set ns \<union> path_step ts s `` {x}"
    using ns(1) by (auto simp: path_step_def)
  then have m: "(x, dst) \<in> path_step (t # ts) s \<longleftrightarrow> dst \<in> fst ` set ns \<or> (x, dst) \<in> path_step ts s" by blast
  show ?case
  proof (cases b)
    case True
    with r m show ?thesis by (intro exI [of _ True]) (simp add: ns(1))
  next
    case False
    with r(3) have v: "visited_all d (fst ` set ns) st st'" by simp
    then have "length (fst st') = length (fst st)" by (auto simp: visited_all_def split: prod.splits)
    with Cons obtain b' st'' where "visit_types s dst x d ts st' = Ok (b', st'')"
        "b' \<longleftrightarrow> (x, dst) \<in> path_step ts s" "\<not> b' \<longrightarrow> visited_all d (path_step ts s `` {x}) st' st''"
      by metis
    with False r m visited_all_trans [OF v] i show ?thesis by (auto simp: ns(1))
  qed
qed

text \<open>The invariant of the search. \<open>D x\<close> is the depth at which \<open>x\<close> was queued.\<close>

definition search_ok :: "(NodeNum \<times> NodeNum) set \<Rightarrow> NodeNum \<Rightarrow> NodeNum \<Rightarrow> nat \<Rightarrow> (NodeNum \<Rightarrow> nat) \<Rightarrow> Search \<Rightarrow> bool" where
  "search_ok E src dst max_depth D = (\<lambda>(v, q).
     src \<in> marked v \<and> D src = 0 \<and>
     (\<forall>e\<in>set q. fst e \<in> marked v \<and> D (fst e) = snd e) \<and> sorted (map snd q) \<and>
     (q \<noteq> [] \<longrightarrow> (\<forall>y\<in>marked v. D y \<le> snd (hd q) + 1)) \<and>
     (\<forall>x\<in>marked v. (src, x) \<in> E ^^ D x) \<and>
     (\<forall>x\<in>marked v - fst ` set q. D x < max_depth \<longrightarrow>
        dst \<notin> E `` {x} \<and> (\<forall>y\<in>E `` {x}. y \<in> marked v \<and> D y \<le> D x + 1)))"

lemma search_ok_done:
  assumes ok: "search_ok E src dst k D (v, [])" and "src \<noteq> dst" "j \<le> k"
  shows "(src, dst) \<notin> E ^^ j"
proof
  assume path: "(src, dst) \<in> E ^^ j"
  have reach: "x \<in> marked v \<and> D x \<le> i" if "(src, x) \<in> E ^^ i" "i \<le> k" for i x
    using that
  proof (induction i arbitrary: x)
    case 0
    with ok show ?case by (simp add: search_ok_def)
  next
    case (Suc i)
    then obtain y where y: "(src, y) \<in> E ^^ i" "(y, x) \<in> E" by auto
    with Suc have "y \<in> marked v" "D y \<le> i" by auto
    with ok y(2) Suc.prems(2) show ?case by (force simp: search_ok_def)
  qed
  obtain i y where i: "j = Suc i" "(src, y) \<in> E ^^ i" "(y, dst) \<in> E"
    using path \<open>src \<noteq> dst\<close> by (cases j) auto
  with reach [of y i] \<open>j \<le> k\<close> have "y \<in> marked v" "D y < k" by auto
  with ok i(3) show False by (auto simp: search_ok_def)
qed

lemma search_okI:
  assumes "src \<in> marked v" "D src = 0" "\<forall>e\<in>set q. fst e \<in> marked v \<and> D (fst e) = snd e" "sorted (map snd q)"
    and "\<And>y. q \<noteq> [] \<Longrightarrow> y \<in> marked v \<Longrightarrow> D y \<le> snd (hd q) + 1"
    and "\<forall>x\<in>marked v. (src, x) \<in> E ^^ D x"
    and "\<And>x. x \<in> marked v - fst ` set q \<Longrightarrow> D x < k \<Longrightarrow>
        dst \<notin> E `` {x} \<and> (\<forall>y\<in>E `` {x}. y \<in> marked v \<and> D y \<le> D x + 1)"
  shows "search_ok E src dst k D (v, q)"
  unfolding search_ok_def prod.case using assms by (intro conjI ballI impI) auto

lemma search_ok_Cons:
  "search_ok E src dst k D (v, (x, d) # q) \<longleftrightarrow>
     (src \<in> marked v \<and> D src = 0) \<and> (x \<in> marked v \<and> D x = d) \<and> (\<forall>e\<in>set q. fst e \<in> marked v \<and> D (fst e) = snd e) \<and>
     (\<forall>e\<in>set q. d \<le> snd e) \<and> sorted (map snd q) \<and> (\<forall>y\<in>marked v. D y \<le> d + 1) \<and>
     (\<forall>x\<in>marked v. (src, x) \<in> E ^^ D x) \<and>
     (\<forall>y\<in>marked v - fst ` set ((x, d) # q). D y < k \<longrightarrow>
        dst \<notin> E `` {y} \<and> (\<forall>z\<in>E `` {y}. z \<in> marked v \<and> D z \<le> D y + 1))"
  unfolding search_ok_def prod.case by (simp only: list.simps set_simps ball_simps prod.case fst_conv snd_conv
      image_insert sorted_simps list.sel simp_thms conj_assoc) auto

lemma search_ok_skip:
  assumes "search_ok E src dst k D (v, (x, d) # q)" "k \<le> d"
  shows "search_ok E src dst k D (v, q)"
proof -
  have ok: "src \<in> marked v" "D src = 0" "\<forall>e\<in>set q. fst e \<in> marked v \<and> D (fst e) = snd e" "D x = d"
    "sorted (map snd q)" "\<forall>e\<in>set q. d \<le> snd e" "\<forall>y\<in>marked v. D y \<le> d + 1"
    "\<forall>x\<in>marked v. (src, x) \<in> E ^^ D x"
    "\<forall>y\<in>marked v - fst ` set ((x, d) # q). D y < k \<longrightarrow>
        dst \<notin> E `` {y} \<and> (\<forall>z\<in>E `` {y}. z \<in> marked v \<and> D z \<le> D y + 1)"
    by - (use assms(1) [unfolded search_ok_Cons] in blast)+
  have h: "D y \<le> snd (hd q) + 1" if "q \<noteq> []" "y \<in> marked v" for y
  proof -
    have "d \<le> snd (hd q)" "D y \<le> d + 1" using ok(6,7) that by auto
    then show ?thesis by simp
  qed
  have c: "dst \<notin> E `` {y} \<and> (\<forall>z\<in>E `` {y}. z \<in> marked v \<and> D z \<le> D y + 1)"
    if "y \<in> marked v - fst ` set q" "D y < k" for y
  proof -
    have "y \<noteq> x" using that(2) ok(4) assms(2) by auto
    then have "y \<in> marked v - fst ` set ((x, d) # q)" using that(1) by simp
    from ok(9) [rule_format, OF this that(2)] show ?thesis .
  qed
  show ?thesis by (rule search_okI [OF ok(1-3,5) h ok(8) c])
qed

lemma search_ok_step:
  assumes ok: "search_ok E src dst k D (v, (x, d) # q)" and "visited_all d (E `` {x}) (v, q) (v', q')"
    and "(x, dst) \<notin> E"
  shows "\<exists>D'. search_ok E src dst k D' (v', q')"
proof -
  obtain new where new: "q' = q @ new" "fst ` set new = E `` {x} - marked v" "snd ` set new \<subseteq> {d + 1}"
    and m: "marked v' = marked v \<union> E `` {x}"
    using assms(2) by (auto simp: visited_all_def)
  define D' where "D' y = (if y \<in> marked v then D y else d + 1)" for y
  have x: "x \<in> marked v" "D x = d" and qs: "\<forall>e\<in>set q. fst e \<in> marked v \<and> D (fst e) = snd e" "\<forall>e\<in>set q. d \<le> snd e" "sorted (map snd q)"
    and les: "\<forall>y\<in>marked v. D y \<le> d + 1"
    and root: "src \<in> marked v" "D src = 0"
    and paths: "\<forall>x\<in>marked v. (src, x) \<in> E ^^ D x"
    and closed: "\<forall>y\<in>marked v - fst ` set ((x, d) # q). D y < k \<longrightarrow>
        dst \<notin> E `` {y} \<and> (\<forall>z\<in>E `` {y}. z \<in> marked v \<and> D z \<le> D y + 1)"
    by - (use ok [unfolded search_ok_Cons] in blast)+
  have path: "(src, x) \<in> E ^^ d" using paths x by blast
  have le: "D y \<le> d + 1" if "y \<in> marked v" for y using les that by blast
  have q: "y \<in> marked v \<and> D y = e \<and> d \<le> e" if "(y, e) \<in> set q" for y e
    using qs(1,2) that by fastforce
  have q': "y \<in> marked v' \<and> D' y = e \<and> d \<le> e \<and> e \<le> d + 1" if "(y, e) \<in> set q'" for y e
  proof (cases "(y, e) \<in> set q")
    case True
    with q [OF True] le [of y] m show ?thesis by (auto simp: D'_def)
  next
    case False
    with that new have "(y, e) \<in> set new" by auto
    with new(2,3) have "y \<in> E `` {x} - marked v" "e = d + 1" by force+
    with m show ?thesis by (simp add: D'_def)
  qed
  have new_snd: "map snd new = replicate (length new) (d + 1)"
    using new(3) by (intro replicate_eqI) auto
  have "e \<le> d + 1" if "(y, e) \<in> set q" for y e using q [OF that] le [of y] by auto
  then have s: "sorted (map snd q')"
    using qs(3) unfolding new(1) map_append new_snd sorted_append by auto
  have e: "\<forall>y\<in>marked v'. (src, y) \<in> E ^^ D' y"
  proof
    fix y assume "y \<in> marked v'"
    then consider "y \<in> marked v" | "y \<notin> marked v" "(x, y) \<in> E" using m by auto
    then show "(src, y) \<in> E ^^ D' y"
      using paths path by cases (auto simp: D'_def)
  qed
  have h: "D' y \<le> snd (hd q') + 1" if "y \<in> marked v'" "q' \<noteq> []" for y
  proof -
    have "hd q' \<in> set q'" using that by simp
    with q' have "d \<le> snd (hd q')" by (cases "hd q'") auto
    moreover have "D' y \<le> d + 1" using le by (simp add: D'_def)
    ultimately show ?thesis by simp
  qed
  have c: "dst \<notin> E `` {y} \<and> (\<forall>z\<in>E `` {y}. z \<in> marked v' \<and> D' z \<le> D' y + 1)"
    if y: "y \<in> marked v' - fst ` set q'" "D' y < k" for y
  proof (cases "y = x")
    case True
    with x m le assms(3) show ?thesis by (auto simp: D'_def)
  next
    case False
    have "y \<in> marked v" using y new m by auto
    with False y new have "y \<in> marked v - fst ` set ((x, d) # q)" "D y < k" by (auto simp: D'_def)
    from closed [rule_format, OF this] have "dst \<notin> E `` {y}"
      "z \<in> E `` {y} \<Longrightarrow> z \<in> marked v \<and> D z \<le> D y + 1" for z by blast+
    with \<open>y \<in> marked v\<close> m show ?thesis by (simp add: D'_def)
  qed
  have r: "src \<in> marked v'" "D' src = 0" using root m by (auto simp: D'_def)
  have i: "\<forall>e\<in>set q'. fst e \<in> marked v' \<and> D' (fst e) = snd e" using q' by (metis prod.collapse)
  have "search_ok E src dst k D' (v', q')" by (rule search_okI [OF r i s h e c])
  then show ?thesis by blast
qed

lemma search_reachable:
  assumes nav: "navigable s" and ne: "src \<noteq> dst"
  shows "search_ok (path_step ts s) src dst k D st \<Longrightarrow> unat (gm_node_count (gs_manifest s)) \<le> length (fst st) \<Longrightarrow>
    search s dst ts k st = Ok (\<exists>j\<le>k. (src, dst) \<in> path_step ts s ^^ j)"
  using nav ne
proof (induction s dst ts k st arbitrary: D rule: search.induct)
  case (1 s dst ts k v q)
  show ?case
  proof (cases q)
    case Nil
    then show ?thesis
      using search_ok_done [OF 1(3) [unfolded Nil] 1(6)] by (subst search.simps) auto
  next
    case (Cons e q1)
    then obtain x d where q: "q = (x, d) # q1" by (cases e) simp
    note ok = 1(3) [unfolded q]
    show ?thesis
    proof (cases "k \<le> d")
      case True
      with 1(1) [OF q refl True search_ok_skip [OF ok True]] 1(4,5,6) show ?thesis
        by (subst search.simps) (simp add: q)
    next
      case False
      obtain b st where r: "visit_types s dst x d ts (v, q1) = Ok (b, st)" "b \<longleftrightarrow> (x, dst) \<in> path_step ts s"
          "\<not> b \<longrightarrow> visited_all d (path_step ts s `` {x}) (v, q1) st"
        using visit_types_spec [OF 1(5), of "(v, q1)" dst x d ts] 1(4) by auto
      show ?thesis
      proof (cases b)
        case True
        have "(src, x) \<in> path_step ts s ^^ d" using ok by (auto simp: search_ok_def)
        with True r(2) have "(src, dst) \<in> path_step ts s ^^ Suc d" by auto
        with False have "\<exists>j\<le>k. (src, dst) \<in> path_step ts s ^^ j" by (intro exI [of _ "Suc d"]) simp
        with True r(1) False show ?thesis by (subst search.simps) (simp add: q)
      next
        case nb: False
        obtain v' q' where st: "st = (v', q')" by (cases st)
        have va: "visited_all d (path_step ts s `` {x}) (v, q1) (v', q')" using r(3) nb st by simp
        then have l: "length v' = length v" by (simp add: visited_all_def)
        obtain D' where "search_ok (path_step ts s) src dst k D' (v', q')"
          using search_ok_step [OF ok va] r(2) nb by auto
        then show ?thesis
          using 1(2) [OF q refl False r(1) refl nb, of D'] 1(4,5,6) r(1) nb False l
          by (subst search.simps) (simp add: q st)
      qed
    qed
  qed
qed

lemma path_exists_navigable:
  assumes "navigable s" "src < gm_node_count (gs_manifest s)"
  shows "path_exists src dst ts d s = Ok (\<exists>j\<le>unat d. (src, dst) \<in> path_step ts s ^^ j)"
proof (cases "src = dst")
  case True
  then show ?thesis by (auto simp: path_exists_def intro!: exI [of _ 0])
next
  case False
  let ?n = "unat (gm_node_count (gs_manifest s))"
  let ?v = "(replicate ?n False)[unat src := True]"
  have r: "unat src < ?n" using assms(2) by (simp add: word_less_nat_alt)
  have "marked (replicate ?n False) = {}" by (auto simp: marked_def)
  then have m: "marked ?v = {src}" using r by (simp add: marked_update)
  have "search_ok (path_step ts s) src dst (unat d) (\<lambda>_. 0) (?v, [(src, 0)])"
    by (simp add: search_ok_def m)
  from search_reachable [OF assms(1) False this] r False show ?thesis
    by (auto simp: path_exists_def Let_def)
qed

section \<open>Edges stay in range\<close>

definition in_range :: "GraphStore \<Rightarrow> bool" where
  "in_range s \<longleftrightarrow> gs_base_layers s = [] \<and>
     (\<forall>e\<in>set (newest_first s). edge_entry_is_deleted e \<or>
        (ee_src_node e < gm_node_count (gs_manifest s) \<and> ee_dst_node e < gm_node_count (gs_manifest s)))"

lemma lossy_merge_subset: "set (lossy_merge xss) \<subseteq> \<Union> (set ` set xss)"
proof (induction xss rule: lossy_merge.induct)
  case (1 xss)
  have in_set_tlD: "x \<in> set (tl xs) \<Longrightarrow> x \<in> set xs" for x :: "NodeNum \<times> TrustLevel" and xs
    by (cases xs) auto
  have p: "pick_least best xss = Some x \<Longrightarrow> best = Some x \<or> x \<in> \<Union> (set ` set xss)" for best x
  proof (induction xss arbitrary: best)
    case (Cons xs xss)
    from Cons.IH [OF Cons.prems [unfolded pick_least.simps]] show ?case
      by (auto split: list.splits option.splits if_splits)
  qed simp
  show ?case
  proof (cases "pick_least None xss")
    case None
    then show ?thesis by (subst lossy_merge.simps) (simp del: pick_least_None)
  next
    case (Some x)
    have "\<Union> (set ` set (map tl xss)) \<subseteq> \<Union> (set ` set xss)" by (auto dest: in_set_tlD)
    with 1 [OF Some] p [OF Some] show ?thesis by (subst lossy_merge.simps) (auto simp: Some)
  qed
qed

lemma in_range_navigable: "in_range s \<Longrightarrow> navigable s"
proof -
  assume r: "in_range s"
  have "\<exists>ns. neighbors x t s = Ok ns \<and> (\<forall>y\<in>fst ` set ns. y < gm_node_count (gs_manifest s))" for x t
  proof -
    let ?xss = "base_list 0 None # delta_lists (visible x t) (map dl_edges (gs_delta_layers s))"
    have n: "neighbors x t s = Ok (lossy_merge ?xss)"
      using r by (simp add: neighbors_lossy base_iter_def in_range_def)
    have "fst y < gm_node_count (gs_manifest s)" if y: "y \<in> \<Union> (set ` set ?xss)" for y
    proof -
      obtain d e where e: "d \<in> set (gs_delta_layers s)" "e \<in> set (dl_edges d)" "visible x t e" "y = entry_target e"
        using y by (auto simp: base_list_def delta_lists_def)
      then have "e \<in> set (newest_first s)" by (auto simp: newest_first_def)
      with r e(3,4) show ?thesis by (auto simp: in_range_def visible_def entry_target_def)
    qed
    with lossy_merge_subset [of ?xss] n show ?thesis by blast
  qed
  then show ?thesis by (simp add: navigable_def)
qed

lemma u64_succ:
  fixes a n :: u64
  assumes "a < - 1"
  shows "a < a + 1" "\<not> n \<le> a \<Longrightarrow> a + 1 \<le> n"
proof -
  have "unat a < unat (- 1 :: u64)" using assms by (simp add: word_less_nat_alt)
  then have "unat a + 1 < 2 ^ 64" by (simp add: unsigned_minus_1_eq_mask mask_eq_exp_minus_1)
  then have "unat (a + 1) = unat a + 1" by (simp add: unat_word_ariths)
  then show "a < a + 1" "\<not> n \<le> a \<Longrightarrow> a + 1 \<le> n" by (auto simp: word_less_nat_alt word_le_nat_alt)
qed

lemma in_range_mono:
  "in_range s \<Longrightarrow> gs_base_layers s' = gs_base_layers s \<Longrightarrow> newest_first s' = newest_first s \<Longrightarrow>
   gm_node_count (gs_manifest s) \<le> gm_node_count (gs_manifest s') \<Longrightarrow> in_range s'"
  by (auto simp: in_range_def dest: less_le_trans)

lemma in_range_prepend:
  assumes "in_range s" "gs_base_layers s' = gs_base_layers s" "newest_first s' = e # newest_first s"
    "gm_node_count (gs_manifest s) \<le> gm_node_count (gs_manifest s')"
    "edge_entry_is_deleted e \<or> (ee_src_node e < gm_node_count (gs_manifest s') \<and> ee_dst_node e < gm_node_count (gs_manifest s'))"
  shows "in_range s'"
  using assms by (auto simp: in_range_def dest: less_le_trans)

lemma append_edge_node_count:
  assumes "max a b < - 1"
  shows "gm_node_count (gs_manifest s) \<le> gm_node_count (gs_manifest (append_edge a b t c s))"
    "max a b < gm_node_count (gs_manifest (append_edge a b t c s))"
proof -
  have "gm_node_count (gs_manifest (append_edge a b t c s)) =
      (if max a b \<ge> gm_node_count (gs_manifest s) then max a b + 1 else gm_node_count (gs_manifest s))"
    by (simp add: append_edge_touched touched_def Let_def manifest_mark_edge_type_def)
  with u64_succ [OF assms] show "gm_node_count (gs_manifest s) \<le> gm_node_count (gs_manifest (append_edge a b t c s))"
    "max a b < gm_node_count (gs_manifest (append_edge a b t c s))"
    by (auto simp del: max.bounded_iff max_less_iff_conj)
qed

lemma grown_in_range: "grown s \<Longrightarrow> in_range s"
proof (induction rule: grown.induct)
  case (created path n)
  show ?case by (simp add: in_range_def graph_with_path_def newest_first_def)
next
  case (edge_added s a b t c fs s' fs')
  then have s': "s' = append_edge a b t c s"
    using append_edge_simps(3) [of a b t c s] by (simp add: add_edge_def Let_def)
  have "ee_src_node (edge_entry_new a b t c 0 0) = a" "ee_dst_node (edge_entry_new a b t c 0 0) = b"
    by (simp_all add: edge_entry_new_def edge_entry_with_flags_def)
  with append_edge_node_count [OF edge_added.hyps(2), where s = s and t = t and c = c]
  show ?case unfolding s' by (intro in_range_prepend [OF edge_added.IH]) auto
next
  case (edge_deleted s a b t s')
  then have s': "s' = apply_reverse_entry (edge_entry_tombstone a b t)
      (if gs_delta_layers s = [] then add_to_new_delta (edge_entry_tombstone a b t) s
       else add_to_last_delta (edge_entry_tombstone a b t) s)"
    by (auto simp: delete_edge_def Let_def split: if_splits)
  show ?case unfolding s'
    by (rule in_range_prepend [OF edge_deleted.IH, where e = "edge_entry_tombstone a b t"]) auto
next
  case (node_added s n)
  have "gm_node_count (gs_manifest s) \<le> gm_node_count (gs_manifest (add_node n s))"
    using u64_succ(1) [OF node_added.hyps(2)] by (auto simp: add_node_def)
  then show ?case by (intro in_range_mono [OF node_added.IH]) (simp_all add: add_node_def newest_first_def)
next
  case (readonly_set s r)
  show ?case
    by (rule in_range_mono [OF readonly_set.IH])
      (simp_all add: set_readonly_def manifest_mark_readonly_def newest_first_def)
qed

text \<open>
  C4: in a store that was only grown \<open>path_exists\<close> decides whether the destination is reachable in at most the
  given number of steps along edges that \<open>neighbors\<close> returns; it panics for a source beyond the node count.
\<close>

theorem path_exists_reachable:
  assumes "grown s"
  shows "path_exists src dst ts d s =
     (if src = dst then Ok True else if d = 0 then Ok False
      else if src \<ge> gm_node_count (gs_manifest s) then Panic
      else Ok (\<exists>j\<le>unat d. (src, dst) \<in> path_step ts s ^^ j))"
proof (cases "src < gm_node_count (gs_manifest s)")
  case True
  have "d = 0 \<Longrightarrow> (\<exists>j\<le>unat d. (src, dst) \<in> path_step ts s ^^ j) \<longleftrightarrow> src = dst" by simp
  with path_exists_navigable [OF in_range_navigable [OF grown_in_range [OF assms]] True] True show ?thesis
    by (auto simp: path_exists_def)
next
  case False
  then show ?thesis by (auto simp: path_exists_def word_le_nat_alt not_less)
qed

lemma chain_layers: "gs_delta_layers (append_edge 2 3 SUPPORTS 7 (append_edge 1 2 SUPPORTS 9 (graph_with_path [] 4))) =
    [\<lparr>dl_id = 1, dl_base_gen = 0, dl_edges = [edge_entry_new 1 2 SUPPORTS 9 0 0, edge_entry_new 2 3 SUPPORTS 7 0 0],
      dl_sorted = False\<rparr>]"
  by (simp add: append_edge_touched add_to_new_delta_def add_to_last_delta_def graph_with_path_def touched_def Let_def
      delta_add_def delta_new_def manifest_new_def manifest_mark_edge_type_def)

lemma path_exists_reachable_witness:
  "grown (append_edge 2 3 SUPPORTS 7 (append_edge 1 2 SUPPORTS 9 (graph_with_path [] 4))) \<and>
   path_exists 1 3 [SUPPORTS] 2 (append_edge 2 3 SUPPORTS 7 (append_edge 1 2 SUPPORTS 9 (graph_with_path [] 4))) = Ok True"
proof -
  let ?s0 = "graph_with_path [] 4"
  let ?s1 = "append_edge 1 2 SUPPORTS 9 ?s0"
  let ?s = "append_edge 2 3 SUPPORTS 7 ?s1"
  have g: "grown ?s"
    by (intro grown_example) (simp_all add: grown_example_simps)
  have n: "neighbors x SUPPORTS ?s = Ok (map entry_target (filter (visible x SUPPORTS)
      [edge_entry_new 1 2 SUPPORTS 9 0 0, edge_entry_new 2 3 SUPPORTS 7 0 0]))" for x
    by (subst neighbors_single_delta [OF _ chain_layers]) (simp_all add: graph_with_path_def)
  have "(1, 2) \<in> path_step [SUPPORTS] ?s" "(2, 3) \<in> path_step [SUPPORTS] ?s"
    using n [of 1] n [of 2]
    by (simp_all add: path_step_def)
  then have "(1, 3) \<in> path_step [SUPPORTS] ?s ^^ 2" by (auto simp: numeral_2_eq_2)
  then have p: "\<exists>j\<le>unat (2 :: u8). (1, 3) \<in> path_step [SUPPORTS] ?s ^^ j" by (intro exI [of _ 2]) simp
  have "(1 :: NodeNum) < gm_node_count (gs_manifest ?s)"
    by (simp add: append_edge_touched touched_def graph_with_path_def manifest_new_def manifest_mark_edge_type_def
        word_less_nat_alt word_le_nat_alt)
  with g p path_exists_reachable [OF g, of 1 3 "[SUPPORTS]" 2] show ?thesis by (simp add: not_le)
qed

end
