(* ===== verification/Graph_Compaction.thy ===== *)
theory Graph_Compaction
  imports Graph_Paths
begin

text \<open>
  Compressed rows and compaction (\<open>src/graph/store.rs\<close>): what reading a row of a layer that
  \<open>CsrLayer::from_edge_list\<close> built returns, which entries compaction keeps, and what a store answers after
  a compaction.
\<close>

section \<open>Rows of a layer\<close>

definition row :: "EdgeListEntry list \<Rightarrow> nat \<Rightarrow> EdgeListEntry list" where
  "row es i = filter (\<lambda>e. unat (ee_src_node e) = i) es"

definition before_row :: "EdgeListEntry list \<Rightarrow> nat \<Rightarrow> EdgeListEntry list" where
  "before_row es i = filter (\<lambda>e. unat (ee_src_node e) < i) es"

definition entry_attr :: "EdgeListEntry \<Rightarrow> EdgeAttr" where
  "entry_attr e = edge_attr_with_flags (ee_confidence_q e) (ee_valid_from_bucket e) (ee_valid_to_bucket e) (ee_flags e)"

text \<open>The lists a layer is built from: sorted by source, with sources in range, and small enough for
  the byte offsets to fit.\<close>

definition row_list :: "EdgeListEntry list \<Rightarrow> u64 \<Rightarrow> bool" where
  "row_list es n \<longleftrightarrow> sorted (map ee_src_node es) \<and> (\<forall>e\<in>set es. ee_src_node e < n) \<and>
     length es < 2 ^ 60 \<and> unat n < 2 ^ 60"

lemma before_row_Suc: "length (before_row es (Suc i)) = length (before_row es i) + length (row es i)"
  by (induction es) (auto simp: before_row_def row_def less_Suc_eq)

lemma before_row_le: "length (before_row es i) \<le> length es"
  by (simp add: before_row_def)

lemma sorted_rows:
  "sorted (map ee_src_node es) \<Longrightarrow> es = before_row es i @ filter (\<lambda>e. i \<le> unat (ee_src_node e)) es"
proof (induction es)
  case (Cons e es)
  show ?case
  proof (cases "unat (ee_src_node e) < i")
    case True
    with Cons show ?thesis by (simp add: before_row_def)
  next
    case False
    with Cons.prems have "\<forall>x\<in>set (e # es). i \<le> unat (ee_src_node x)"
      by (auto simp: word_le_nat_alt)
    then have "filter (\<lambda>e. i \<le> unat (ee_src_node e)) (e # es) = e # es" "before_row (e # es) i = []"
      by (auto simp: before_row_def filter_empty_conv not_less simp del: filter.simps)
    then show ?thesis by simp
  qed
qed (simp add: before_row_def)

lemma rows_concat:
  assumes "sorted (map ee_src_node es)"
  shows "before_row es i = concat (map (row es) [0..<i])"
proof (induction i)
  case 0
  show ?case by (simp add: before_row_def)
next
  case (Suc i)
  have "before_row es (Suc i) = before_row (before_row es i @ filter (\<lambda>e. i \<le> unat (ee_src_node e)) es) (Suc i)"
    using sorted_rows [OF assms, of i] by simp
  also have "\<dots> = before_row es i @ row es i"
    by (simp add: before_row_def row_def conj_commute cong: filter_cong)
       (auto intro!: arg_cong2 [where f = append] filter_cong)
  finally show ?case using Suc by simp
qed

lemma all_rows: "row_list es n \<Longrightarrow> es = concat (map (row es) [0..<unat n])"
  using sorted_rows [of es "unat n"] rows_concat [of es "unat n"]
  by (auto simp: row_list_def word_less_nat_alt before_row_def intro!: filter_True [symmetric])

subsection \<open>Offsets\<close>

lemma count_edges_spec:
  "length (count_edges n es) = unat n \<and>
   (\<forall>i<unat n. count_edges n es ! i = length (row es i))"
proof -
  have "length (fold (\<lambda>e counts. if ee_src_node e < n
      then counts[unat (ee_src_node e) := counts ! unat (ee_src_node e) + 1] else counts) es cs) = unat n \<and>
    (\<forall>i<unat n. fold (\<lambda>e counts. if ee_src_node e < n
      then counts[unat (ee_src_node e) := counts ! unat (ee_src_node e) + 1] else counts) es cs ! i =
        cs ! i + length (row es i))" if "length cs = unat n" for cs :: "nat list"
    using that
  proof (induction es arbitrary: cs)
    case (Cons e es)
    let ?cs = "if ee_src_node e < n then cs[unat (ee_src_node e) := cs ! unat (ee_src_node e) + 1] else cs"
    have "length ?cs = unat n" using Cons.prems by simp
    from Cons.IH [OF this] Cons.prems show ?case
      by (auto simp: row_def nth_list_update word_less_nat_alt)
  qed (simp add: row_def)
  from this [of "replicate (unat n) 0"] show ?thesis by (simp add: count_edges_def)
qed

lemma prefix_offsets_spec:
  "length (prefix_offsets o' cs) = length cs + 1 \<and>
   (\<forall>i\<le>length cs. prefix_offsets o' cs ! i = o' + of_nat (sum_list (take i cs)))"
proof (induction cs arbitrary: o')
  case (Cons c cs)
  show ?case
  proof (intro conjI allI impI)
    fix i assume "i \<le> length (c # cs)"
    then show "prefix_offsets o' (c # cs) ! i = o' + of_nat (sum_list (take i (c # cs)))"
      using Cons [of "o' + of_nat c"] by (cases i) (auto simp: algebra_simps)
  qed (use Cons in simp)
qed simp

lemma offsets_spec:
  assumes "row_list es n"
  shows "length (prefix_offsets 0 (count_edges n es)) = unat n + 1"
    and "i \<le> unat n \<Longrightarrow> prefix_offsets 0 (count_edges n es) ! i = of_nat (length (before_row es i))"
proof -
  note c = count_edges_spec [of n es]
  show "length (prefix_offsets 0 (count_edges n es)) = unat n + 1"
    using c prefix_offsets_spec [of 0 "count_edges n es"] by simp
  assume i: "i \<le> unat n"
  have "sum_list (take i (count_edges n es)) = length (before_row es i)"
    using i
  proof (induction i)
    case 0
    then show ?case by (simp add: before_row_def)
  next
    case (Suc i)
    then show ?case using c by (simp add: take_Suc_conv_app_nth before_row_Suc)
  qed
  then show "prefix_offsets 0 (count_edges n es) ! i = of_nat (length (before_row es i))"
    using i c prefix_offsets_spec [of 0 "count_edges n es"] by simp
qed

subsection \<open>Targets\<close>

text \<open>The differences of the targets of one row, given the previous target, if any.\<close>

fun row_deltas :: "u64 option \<Rightarrow> u64 list \<Rightarrow> u64 list" where
  "row_deltas prev [] = []"
| "row_deltas prev (d # ds) = (case prev of None \<Rightarrow> d | Some p \<Rightarrow> d - p) # row_deltas (Some d) ds"

lemma length_row_deltas [simp]: "length (row_deltas p ds) = length ds"
  by (induction p ds rule: row_deltas.induct) auto

lemma u64_at_Cons: "u64_at 0 (u64_le w @ bs) = w"
  by simp

lemma neighbor_iter_row:
  "neighbor_iter (concat (map u64_le (row_deltas p ds))) as (case p of None \<Rightarrow> 0 | Some q \<Rightarrow> q) = zip ds as"
proof (induction p ds arbitrary: as rule: row_deltas.induct)
  case (1 p)
  show ?case by (subst neighbor_iter.simps) simp
next
  case (2 p d ds)
  have "(case p of None \<Rightarrow> 0 | Some q \<Rightarrow> q) + (case p of None \<Rightarrow> d | Some p \<Rightarrow> d - p) = d"
    by (cases p) auto
  with 2 [of "tl as"] show ?case
    by (subst neighbor_iter.simps) (auto split: list.splits)
qed

text \<open>What the filling loop appends; the sources of the list are in range.\<close>

lemma fill_row:
  assumes "unat i < length (cf_current_pos s)" "length (cf_current_pos s) = length (cf_prev_dst s)"
    "\<forall>e\<in>set r. ee_src_node e = i" "i < n"
  shows "\<exists>p c. fold (csr_fill_step n offsets) r s =
     \<lparr>cf_targets = cf_targets s @ concat (map u64_le (row_deltas
        (if cf_current_pos s ! unat i = 0 then None else Some (cf_prev_dst s ! unat i)) (map ee_dst_node r))),
      cf_attrs = cf_attrs s @ map entry_attr r,
      cf_current_pos = (cf_current_pos s)[unat i := p], cf_prev_dst = (cf_prev_dst s)[unat i := c]\<rparr>"
  using assms
proof (induction r arbitrary: s)
  case Nil
  then show ?case by (intro exI [of _ "cf_current_pos s ! unat i"] exI [of _ "cf_prev_dst s ! unat i"]) simp
next
  case (Cons e r)
  let ?s = "csr_fill_step n offsets e s"
  have e: "ee_src_node e = i" using Cons.prems by simp
  have s: "?s = \<lparr>cf_targets = cf_targets s @ u64_le (if cf_current_pos s ! unat i = 0 then ee_dst_node e
        else ee_dst_node e - cf_prev_dst s ! unat i), cf_attrs = cf_attrs s @ [entry_attr e],
      cf_current_pos = (cf_current_pos s)[unat i := cf_current_pos s ! unat i + 1],
      cf_prev_dst = (cf_prev_dst s)[unat i := ee_dst_node e]\<rparr>"
    using Cons.prems(4) by (simp add: csr_fill_step_def e Let_def entry_attr_def)
  have "unat i < length (cf_current_pos ?s)" "length (cf_current_pos ?s) = length (cf_prev_dst ?s)"
    "\<forall>e\<in>set r. ee_src_node e = i"
    using Cons.prems by (simp_all add: s)
  from Cons.IH [OF this Cons.prems(4)] obtain p c where
    "fold (csr_fill_step n offsets) r ?s =
     \<lparr>cf_targets = cf_targets ?s @ concat (map u64_le (row_deltas
        (if cf_current_pos ?s ! unat i = 0 then None else Some (cf_prev_dst ?s ! unat i)) (map ee_dst_node r))),
      cf_attrs = cf_attrs ?s @ map entry_attr r,
      cf_current_pos = (cf_current_pos ?s)[unat i := p], cf_prev_dst = (cf_prev_dst ?s)[unat i := c]\<rparr>" by blast
  then show ?case using Cons.prems(1,2) by (intro exI [of _ p] exI [of _ c]) (simp add: s)
qed

definition row_bytes :: "EdgeListEntry list \<Rightarrow> bytes" where
  "row_bytes r = concat (map u64_le (row_deltas None (map ee_dst_node r)))"

lemma length_row_bytes [simp]: "length (row_bytes r) = 8 * length r"
  by (simp add: row_bytes_def length_concat_u64)

lemma fill_rows:
  assumes "k \<le> unat n"
  shows "\<exists>pos prev. fold (csr_fill_step n offsets) (concat (map (row es) [0..<k]))
      \<lparr>cf_targets = [], cf_attrs = [], cf_current_pos = replicate (unat n) 0, cf_prev_dst = replicate (unat n) 0\<rparr> =
    \<lparr>cf_targets = concat (map (\<lambda>i. row_bytes (row es i)) [0..<k]),
     cf_attrs = map entry_attr (concat (map (row es) [0..<k])), cf_current_pos = pos, cf_prev_dst = prev\<rparr> \<and>
    length pos = unat n \<and> length prev = unat n \<and> (\<forall>i<unat n. k \<le> i \<longrightarrow> pos ! i = 0)"
  using assms
proof (induction k)
  case 0
  then show ?case by auto
next
  case (Suc k)
  then obtain pos prev where f: "fold (csr_fill_step n offsets) (concat (map (row es) [0..<k]))
      \<lparr>cf_targets = [], cf_attrs = [], cf_current_pos = replicate (unat n) 0, cf_prev_dst = replicate (unat n) 0\<rparr> =
    \<lparr>cf_targets = concat (map (\<lambda>i. row_bytes (row es i)) [0..<k]),
     cf_attrs = map entry_attr (concat (map (row es) [0..<k])), cf_current_pos = pos, cf_prev_dst = prev\<rparr>"
    and l: "length pos = unat n" "length prev = unat n" "\<forall>i<unat n. k \<le> i \<longrightarrow> pos ! i = 0" by auto
  let ?s = "\<lparr>cf_targets = concat (map (\<lambda>i. row_bytes (row es i)) [0..<k]),
     cf_attrs = map entry_attr (concat (map (row es) [0..<k])), cf_current_pos = pos, cf_prev_dst = prev\<rparr>"
  have u: "unat (of_nat k :: u64) = k" "(of_nat k :: u64) < n"
    using Suc.prems unsigned_less [of n, where 'a = nat] by (simp_all add: unat_of_nat word_less_nat_alt)
  have "\<forall>e\<in>set (row es k). ee_src_node e = of_nat k" by (auto simp: row_def)
  from fill_row [OF _ _ this u(2), of ?s offsets] u l Suc.prems obtain p c where
    "fold (csr_fill_step n offsets) (row es k) ?s =
      \<lparr>cf_targets = cf_targets ?s @ row_bytes (row es k), cf_attrs = cf_attrs ?s @ map entry_attr (row es k),
       cf_current_pos = pos[k := p], cf_prev_dst = prev[k := c]\<rparr>"
    by (auto simp: row_bytes_def)
  with f l Suc.prems show ?case by (auto simp: nth_list_update)
qed

lemma csr_from_rows:
  assumes "row_list es n"
  shows "csr_from_edge_list es n =
    \<lparr>cl_offsets = prefix_offsets 0 (count_edges n es),
     cl_targets = concat (map (\<lambda>i. row_bytes (row es i)) [0..<unat n]),
     cl_attrs = map entry_attr es, cl_node_count = n, cl_edge_count = of_nat (length es)\<rparr>"
proof -
  obtain pos prev where "fold (csr_fill_step n (prefix_offsets 0 (count_edges n es))) (concat (map (row es) [0..<unat n]))
      \<lparr>cf_targets = [], cf_attrs = [], cf_current_pos = replicate (unat n) 0, cf_prev_dst = replicate (unat n) 0\<rparr> =
    \<lparr>cf_targets = concat (map (\<lambda>i. row_bytes (row es i)) [0..<unat n]),
     cf_attrs = map entry_attr (concat (map (row es) [0..<unat n])), cf_current_pos = pos, cf_prev_dst = prev\<rparr>"
    using fill_rows [of "unat n" n "prefix_offsets 0 (count_edges n es)" es] by auto
  then show ?thesis
    unfolding all_rows [OF assms, symmetric] by (simp add: csr_from_edge_list_def Let_def)
qed

subsection \<open>Reading\<close>

lemma clipped_slice_before:
  assumes "start \<le> end"
  shows "clipped_slice start end xs = Ok (take (end - start) (drop start xs))"
  using assms by (auto simp: clipped_slice_def Let_def min_def)

lemma concat_slice:
  assumes "i < n"
  shows "take (length (f i)) (drop (length (concat (map f [0..<i]))) (concat (map f [0..<n]))) = f i"
proof -
  have "[0..<n] = [0..<i] @ i # [Suc i..<n]"
    using assms upt_add_eq_append [of 0 i "n - i"] by (simp add: upt_conv_Cons)
  then show ?thesis by simp
qed

lemma csr_view_row_list:
  assumes "row_list es n"
  shows "csr_view (csr_from_edge_list es n) = Some \<lparr>cv_node_count = n,
    cv_offsets = prefix_offsets 0 (count_edges n es),
    cv_targets_data = concat (map (\<lambda>i. row_bytes (row es i)) [0..<unat n]), cv_attrs = map entry_attr es\<rparr>"
proof -
  have "unat (n + 1) = unat n + 1" using assms by (simp add: row_list_def unat_word_ariths)
  then show ?thesis
    using offsets_spec(1) [OF assms] by (simp add: csr_from_rows [OF assms] csr_view_def csr_view_new_unchecked_def)
qed

theorem csr_row_read:
  assumes "row_list es n" "i < n"
  shows "\<exists>v targets attrs. csr_view (csr_from_edge_list es n) = Some v \<and>
     neighbor_range_data v i = Ok (Some (targets, attrs)) \<and>
     neighbor_iter targets attrs 0 = zip (map ee_dst_node (row es (unat i)))
       (drop (8 * length (before_row es (unat i))) (map entry_attr es))"
proof -
  let ?i = "unat i"
  let ?b = "length (before_row es ?i)" and ?l = "length (row es ?i)"
  let ?t = "concat (map (\<lambda>i. row_bytes (row es i)) [0..<unat n])"
  let ?a = "take (8 * ?l) (drop (8 * ?b) (map entry_attr es))"
  let ?v = "\<lparr>cv_node_count = n, cv_offsets = prefix_offsets 0 (count_edges n es), cv_targets_data = ?t,
    cv_attrs = map entry_attr es\<rparr>"
  have i: "?i < unat n" using assms(2) by (simp add: word_less_nat_alt)
  have bound: "length es < 2 ^ 60" "unat n < 2 ^ 60" using assms(1) by (simp_all add: row_list_def)
  have i1: "unat (i + 1) = ?i + 1" using i bound by (simp add: unat_word_ariths)
  have o: "unat (of_nat (length (before_row es j)) * 8 :: u64) = 8 * length (before_row es j)" for j
  proof -
    have "length (before_row es j) < 2 ^ 60" using before_row_le [of es j] bound(1) by linarith
    then have "length (before_row es j) * 8 < 2 ^ 64" by simp
    then show ?thesis by (simp add: unat_word_ariths unat_of_nat)
  qed
  have "neighbor_range ?v i = Ok (Some (8 * ?b, 8 * length (before_row es (?i + 1))))"
    using offsets_spec [OF assms(1)] i i1 assms(2) o by (simp add: neighbor_range_def not_le)
  then have r: "neighbor_range ?v i = Ok (Some (8 * ?b, 8 * ?b + 8 * ?l))"
    by (simp add: before_row_Suc algebra_simps)
  have "sorted (map ee_src_node es)" using assms(1) by (simp add: row_list_def)
  then have "length (concat (map (\<lambda>i. row_bytes (row es i)) [0..<?i])) = 8 * ?b"
    by (simp add: rows_concat length_concat comp_def sum_list_const_mult)
  then have "take (8 * ?l) (drop (8 * ?b) ?t) = row_bytes (row es ?i)"
    using concat_slice [of ?i "unat n" "\<lambda>i. row_bytes (row es i)"] i by simp
  then have d: "neighbor_range_data ?v i = Ok (Some (row_bytes (row es ?i), ?a))"
    by (simp add: neighbor_range_data_def r clipped_slice_before)
  have "neighbor_iter (row_bytes (row es ?i)) ?a 0 = zip (map ee_dst_node (row es ?i)) ?a"
    using neighbor_iter_row [of None "map ee_dst_node (row es ?i)" ?a] by (simp add: row_bytes_def)
  also have "\<dots> = zip (map ee_dst_node (row es ?i)) (drop (8 * ?b) (map entry_attr es))"
    by (rule nth_equalityI) auto
  finally show ?thesis using d csr_view_row_list [OF assms(1)] by blast
qed

section \<open>Compaction\<close>

subsection \<open>The latest entry of every edge\<close>

definition entry_ends :: "EdgeListEntry \<Rightarrow> NodeNum \<times> NodeNum" where
  "entry_ends e = (ee_src_node e, ee_dst_node e)"

lemma latest_fold:
  "\<exists>v. snd (fold latest_step xs (seen, u)) = u @ v \<and> distinct (map entry_ends v) \<and>
     entry_ends ` set v \<inter> fst ` set seen = {} \<and>
     (\<forall>e. e \<in> set v \<longleftrightarrow> entry_ends e \<notin> fst ` set seen \<and> \<not> edge_entry_is_deleted e \<and>
        List.find (\<lambda>x. entry_ends x = entry_ends e) xs = Some e)"
proof (induction xs arbitrary: seen u)
  case (Cons x xs)
  let ?seen = "AList.update (entry_ends x) (edge_entry_is_deleted x) seen"
  let ?u = "if entry_ends x \<notin> fst ` set seen \<and> \<not> edge_entry_is_deleted x then u @ [x] else u"
  have "map_of seen (entry_ends x) = None \<longleftrightarrow> entry_ends x \<notin> fst ` set seen"
    by (simp add: map_of_eq_None_iff)
  then have step: "latest_step x (seen, u) = (?seen, ?u)"
    by (simp add: latest_step_def Let_def entry_ends_def)
  have dom: "fst ` set ?seen = insert (entry_ends x) (fst ` set seen)" by (simp add: dom_update)
  from Cons.IH [of ?seen ?u] obtain v where v: "snd (fold latest_step (x # xs) (seen, u)) = ?u @ v"
      "distinct (map entry_ends v)" "entry_ends ` set v \<inter> insert (entry_ends x) (fst ` set seen) = {}"
      "\<forall>e. e \<in> set v \<longleftrightarrow> entry_ends e \<notin> insert (entry_ends x) (fst ` set seen) \<and> \<not> edge_entry_is_deleted e \<and>
        List.find (\<lambda>x. entry_ends x = entry_ends e) xs = Some e"
    unfolding dom by (auto simp: step)
  show ?case
  proof (cases "entry_ends x \<notin> fst ` set seen \<and> \<not> edge_entry_is_deleted x")
    case True
    have "snd (fold latest_step (x # xs) (seen, u)) = u @ (x # v)" using v(1) True by simp
    moreover have "distinct (map entry_ends (x # v))" using v(2,3) by auto
    moreover have "entry_ends ` set (x # v) \<inter> fst ` set seen = {}" using v(3) True by auto
    moreover have "\<forall>e. e \<in> set (x # v) \<longleftrightarrow> entry_ends e \<notin> fst ` set seen \<and> \<not> edge_entry_is_deleted e \<and>
        List.find (\<lambda>y. entry_ends y = entry_ends e) (x # xs) = Some e"
      using v(4) True by auto
    ultimately show ?thesis by blast
  next
    case False
    have "snd (fold latest_step (x # xs) (seen, u)) = u @ v" using v(1) False by simp
    moreover have "entry_ends ` set v \<inter> fst ` set seen = {}" using v(3) by auto
    moreover have "\<forall>e. e \<in> set v \<longleftrightarrow> entry_ends e \<notin> fst ` set seen \<and> \<not> edge_entry_is_deleted e \<and>
        List.find (\<lambda>y. entry_ends y = entry_ends e) (x # xs) = Some e"
      using v(4) False by auto
    ultimately show ?thesis using v(2) by blast
  qed
qed simp

lemma latest_edges_spec:
  "distinct (map entry_ends (latest_edges es))"
  "e \<in> set (latest_edges es) \<longleftrightarrow> \<not> edge_entry_is_deleted e \<and>
     List.find (\<lambda>x. entry_ends x = entry_ends e) (rev es) = Some e"
  "sorted (map edge_entry_key (latest_edges es))"
proof -
  let ?u = "snd (fold latest_step (rev es) ([], []))"
  have u: "distinct (map entry_ends ?u)"
    "\<forall>e. e \<in> set ?u \<longleftrightarrow> \<not> edge_entry_is_deleted e \<and> List.find (\<lambda>x. entry_ends x = entry_ends e) (rev es) = Some e"
    using latest_fold [of "rev es" "[]" "[]"] by simp_all
  show "distinct (map entry_ends (latest_edges es))"
    using u(1) by (simp add: latest_edges_def sort_entries_def distinct_map)
  show "e \<in> set (latest_edges es) \<longleftrightarrow> \<not> edge_entry_is_deleted e \<and>
     List.find (\<lambda>x. entry_ends x = entry_ends e) (rev es) = Some e"
    using u(2) by (simp add: latest_edges_def sort_entries_def)
  show "sorted (map edge_entry_key (latest_edges es))"
    by (simp add: latest_edges_def sort_entries_def)
qed

subsection \<open>Groups\<close>

lemma group_by_type_spec:
  "hm_ok (group_by_type es)"
  "map_of (group_by_type es) u = (let g = filter (\<lambda>e. ee_edge_type e = u) es in if g = [] then None else Some g)"
proof -
  have "hm_ok (fold (\<lambda>e. entry_upd [] (\<lambda>xs. xs @ [e]) (ee_edge_type e)) es m) \<and>
    map_of (fold (\<lambda>e. entry_upd [] (\<lambda>xs. xs @ [e]) (ee_edge_type e)) es m) u =
      (let g = filter (\<lambda>e. ee_edge_type e = u) es in
       if g = [] then map_of m u else Some (get_or [] m u @ g))" if "hm_ok m" for m :: "(u32, EdgeListEntry list) hmap"
    using that
  proof (induction es arbitrary: m)
    case (Cons e es)
    then have "hm_ok (entry_upd [] (\<lambda>xs. xs @ [e]) (ee_edge_type e) m)" by simp
    from Cons.IH [OF this] show ?case by (auto simp: Let_def)
  qed simp
  from this [of "[]"] show "hm_ok (group_by_type es)"
    "map_of (group_by_type es) u = (let g = filter (\<lambda>e. ee_edge_type e = u) es in if g = [] then None else Some g)"
    by (simp_all add: group_by_type_def Let_def)
qed

definition layer_of :: "u64 \<Rightarrow> EdgeListEntry list \<Rightarrow> CsrLayer option" where
  "layer_of n es = (if es = [] then None else Some (csr_from_edge_list es n))"

lemma compact_groups:
  "hm_ok gs \<Longrightarrow> map_of (fold (compact_group n) gs layers) t =
     (case Option.bind (map_of gs (edge_type_to_u32 t)) (\<lambda>g. layer_of n (latest_edges g)) of
        None \<Rightarrow> map_of layers t | Some l \<Rightarrow> Some l)"
proof (induction gs arbitrary: layers)
  case (Cons g gs)
  obtain u es where g: "g = (u, es)" by (cases g)
  have u: "edge_type_from_u32 u = Some t' \<longleftrightarrow> u = edge_type_to_u32 t'" for t'
    by (auto dest: edge_type_code_only)
  have step: "map_of (compact_group n g layers) t =
      (case if u = edge_type_to_u32 t then layer_of n (latest_edges es) else None of
         None \<Rightarrow> map_of layers t | Some l \<Rightarrow> Some l)"
  proof (cases "edge_type_from_u32 u")
    case None
    then have "u \<noteq> edge_type_to_u32 t" using u by auto
    with None show ?thesis by (simp add: compact_group_def g)
  next
    case (Some t')
    then have "u = edge_type_to_u32 t'" using u by blast
    then have "u = edge_type_to_u32 t \<longleftrightarrow> t = t'" by (metis edge_type_code_roundtrip option.inject)
    with Some show ?thesis by (simp add: compact_group_def g layer_of_def Let_def)
  qed
  have "hm_ok gs" "u \<notin> fst ` set gs" using Cons.prems g by simp_all
  then have "map_of gs u = None" by (simp add: map_of_eq_None_iff)
  with Cons.IH [OF \<open>hm_ok gs\<close>, of "compact_group n g layers", unfolded step] show ?case
    by (cases "u = edge_type_to_u32 t") (auto simp: g split: option.splits)
qed simp

lemma compacted_layers_spec:
  "map_of (compacted_layers n es) t =
     layer_of n (latest_edges (filter (\<lambda>e. ee_edge_type e = edge_type_to_u32 t) (sort_entries es)))"
proof -
  have "layer_of n (latest_edges []) = None" by (simp add: latest_edges_def sort_entries_def layer_of_def)
  then show ?thesis
    unfolding compacted_layers_def compact_groups [OF group_by_type_spec(1)] group_by_type_spec(2)
    by (simp add: Let_def split: option.splits)
qed

text \<open>The live edges of a type: those whose newest entry is not a tombstone, sorted.\<close>

definition live_edges :: "EdgeType \<Rightarrow> GraphStore \<Rightarrow> EdgeListEntry list" where
  "live_edges t s = latest_edges (filter (\<lambda>e. ee_edge_type e = edge_type_to_u32 t)
     (sort_entries (concat (map dl_edges (gs_delta_layers s)))))"

lemma find_filter_hd: "List.find P xs = (case filter P xs of [] \<Rightarrow> None | x # _ \<Rightarrow> Some x)"
  by (induction xs) auto

lemma edge_entry_type_iff: "edge_entry_type e = Some t \<longleftrightarrow> ee_edge_type e = edge_type_to_u32 t"
  by (auto simp: edge_entry_type_def dest: edge_type_code_only)

lemma live_edges_find:
  "List.find (\<lambda>x. entry_ends x = (a, b)) (rev (filter (\<lambda>e. ee_edge_type e = edge_type_to_u32 t)
     (sort_entries (concat (map dl_edges (gs_delta_layers s)))))) = List.find (is_edge a b t) (newest_first s)"
proof -
  let ?es = "concat (map dl_edges (gs_delta_layers s))"
  let ?k = "(edge_type_to_u32 t, a, b)"
  have n: "newest_first s = rev ?es" by (simp add: newest_first_def rev_concat rev_map comp_def)
  have p: "is_edge a b t = (\<lambda>e. edge_entry_key e = ?k)"
    by (rule ext) (auto simp: is_edge_def edge_entry_type_iff edge_entry_key_def)
  have "filter (\<lambda>x. entry_ends x = (a, b)) (rev (filter (\<lambda>e. ee_edge_type e = edge_type_to_u32 t) (sort_entries ?es))) =
      rev (filter (\<lambda>e. edge_entry_key e = ?k) (sort_entries ?es))"
    by (auto simp: rev_filter entry_ends_def edge_entry_key_def intro!: filter_cong)
  also have "\<dots> = rev (filter (\<lambda>e. edge_entry_key e = ?k) ?es)"
    unfolding sort_entries_def by (simp add: sort_key_stable)
  finally show ?thesis by (simp add: find_filter_hd n p rev_filter)
qed

lemma live_edges_spec:
  "distinct (map entry_ends (live_edges t s))"
  "e \<in> set (live_edges t s) \<longleftrightarrow> \<not> edge_entry_is_deleted e \<and>
     List.find (is_edge (ee_src_node e) (ee_dst_node e) t) (newest_first s) = Some e"
  "sorted (map edge_entry_key (live_edges t s))"
  using latest_edges_spec(1,3) latest_edges_spec(2) [of e] live_edges_find [of "ee_src_node e" "ee_dst_node e" t s]
  by (simp_all add: live_edges_def entry_ends_def [of e])

lemma live_edges_type: "e \<in> set (live_edges t s) \<Longrightarrow> is_edge (ee_src_node e) (ee_dst_node e) t e \<and> e \<in> set (newest_first s)"
  using live_edges_spec(2) [of e t s] by (auto simp: find_Some_iff in_set_conv_nth)

lemma has_edge_live:
  assumes "gs_base_layers s = []"
  shows "has_edge a b t s = Ok ((a, b) \<in> entry_ends ` set (live_edges t s))"
proof -
  have "(a, b) \<in> entry_ends ` set (live_edges t s) \<longleftrightarrow>
      (\<exists>e. List.find (is_edge a b t) (newest_first s) = Some e \<and> \<not> edge_entry_is_deleted e)"
  proof
    assume "(a, b) \<in> entry_ends ` set (live_edges t s)"
    then obtain e where "e \<in> set (live_edges t s)" "ee_src_node e = a" "ee_dst_node e = b"
      by (auto simp: entry_ends_def)
    with live_edges_spec(2) [of e t s]
    show "\<exists>e. List.find (is_edge a b t) (newest_first s) = Some e \<and> \<not> edge_entry_is_deleted e" by blast
  next
    assume "\<exists>e. List.find (is_edge a b t) (newest_first s) = Some e \<and> \<not> edge_entry_is_deleted e"
    then obtain e where e: "List.find (is_edge a b t) (newest_first s) = Some e" "\<not> edge_entry_is_deleted e" by blast
    then have "is_edge a b t e" by (auto simp: find_Some_iff)
    then have "ee_src_node e = a" "ee_dst_node e = b" by (simp_all add: is_edge_def)
    with e live_edges_spec(2) [of e t s] show "(a, b) \<in> entry_ends ` set (live_edges t s)"
      by (auto simp: entry_ends_def image_iff)
  qed
  then show ?thesis using assms by (auto simp: has_edge_newest base_has_edge_def split: option.splits)
qed

text \<open>Stores small enough for the byte offsets of their layers to fit in 64 bits.\<close>

definition small :: "GraphStore \<Rightarrow> bool" where
  "small s \<longleftrightarrow> unat (gm_node_count (gs_manifest s)) < 2 ^ 60 \<and> length (newest_first s) < 2 ^ 60"

lemma live_edges_rows:
  assumes "in_range s" "small s"
  shows "row_list (live_edges t s) (gm_node_count (gs_manifest s))"
proof -
  let ?es = "live_edges t s"
  have "sorted (map ee_src_node ?es)"
    using live_edges_spec(3) [of t s] unfolding sorted_map
    by (rule sorted_wrt_mono_rel [rotated])
      (use live_edges_type [of _ t s] in \<open>auto simp: edge_entry_key_def is_edge_def edge_entry_type_iff\<close>)
  moreover have "\<forall>e\<in>set ?es. ee_src_node e < gm_node_count (gs_manifest s)"
    using live_edges_type [of _ t s] live_edges_spec(2) [of _ t s] assms(1) by (auto simp: in_range_def)
  moreover have "length ?es < 2 ^ 60"
  proof -
    have "distinct ?es" using live_edges_spec(1) [of t s] by (simp add: distinct_map)
    then have "length ?es = card (set ?es)" by (simp add: distinct_card)
    also have "\<dots> \<le> card (set (newest_first s))" using live_edges_type [of _ t s] by (intro card_mono) auto
    also have "\<dots> \<le> length (newest_first s)" by (rule card_length)
    finally show ?thesis using assms(2) by (simp add: small_def)
  qed
  ultimately show ?thesis using assms(2) by (simp add: row_list_def small_def)
qed

subsection \<open>What a compacted store answers\<close>

lemma list_ex_zip_drop:
  "list_ex P (zip xs (drop m ys)) \<longleftrightarrow> (\<exists>k<length xs. m + k < length ys \<and> P (xs ! k, ys ! (m + k)))"
  by (auto simp: list_ex_iff set_zip) (metis less_diff_conv add.commute)+

lemma card_entry_ends:
  "distinct (map entry_ends es) \<Longrightarrow> card (entry_ends ` set (filter P es)) = length (filter P es)"
  by (metis distinct_card distinct_map_filter length_map set_map)

lemma card_below:
  "sorted_wrt (<) ds \<Longrightarrow> k < length ds \<Longrightarrow> card {y \<in> set ds. y < ds ! k} = (k :: nat)"
  for ds :: "'a :: linorder list"
proof -
  assume s: "sorted_wrt (<) ds" and k: "k < length ds"
  have "{y \<in> set ds. y < ds ! k} = set (take k ds)"
  proof (intro set_eqI iffI)
    fix y assume "y \<in> {y \<in> set ds. y < ds ! k}"
    then obtain i where i: "i < length ds" "y = ds ! i" "ds ! i < ds ! k" by (auto simp: in_set_conv_nth)
    have "i < k" using i s k by (metis not_less_iff_gr_or_eq sorted_wrt_nth_less)
    with i show "y \<in> set (take k ds)" by (auto simp: in_set_conv_nth)
  next
    fix y assume "y \<in> set (take k ds)"
    then obtain i where "i < k" "y = ds ! i" by (auto simp: in_set_conv_nth)
    then show "y \<in> {y \<in> set ds. y < ds ! k}"
      using s k by (simp add: sorted_wrt_nth_less)
  qed
  moreover have "distinct ds" using s by (simp add: strict_sorted_iff)
  ultimately show ?thesis using k by (simp add: distinct_card)
qed

definition live :: "EdgeType \<Rightarrow> GraphStore \<Rightarrow> (NodeNum \<times> NodeNum) set" where
  "live t s = {(x, y). has_edge x y t s = Ok True}"

lemma live_conv: "gs_base_layers s = [] \<Longrightarrow> live t s = entry_ends ` set (live_edges t s)"
  by (auto simp: live_def has_edge_live)

lemma live_counts:
  assumes "gs_base_layers s = []"
  shows "card (live t s) = length (live_edges t s)"
    and "card {(x, y) \<in> live t s. x < a} = length (before_row (live_edges t s) (unat a))"
    and "k < length (row (live_edges t s) (unat a)) \<Longrightarrow>
      card {(x, y) \<in> live t s. x = a \<and> y < ee_dst_node (row (live_edges t s) (unat a) ! k)} = k"
proof -
  let ?es = "live_edges t s"
  note d = live_edges_spec(1) [of t s]
  show "card (live t s) = length ?es"
    using card_entry_ends [OF d, of "\<lambda>_. True"] by (simp add: live_conv [OF assms])
  have "{(x, y) \<in> live t s. x < a} = entry_ends ` set (filter (\<lambda>e. unat (ee_src_node e) < unat a) ?es)"
    by (auto simp: live_conv [OF assms] entry_ends_def word_less_nat_alt)
  then show "card {(x, y) \<in> live t s. x < a} = length (before_row ?es (unat a))"
    by (simp only: card_entry_ends [OF d] before_row_def)
  assume k: "k < length (row ?es (unat a))"
  let ?ds = "map ee_dst_node (row ?es (unat a))"
  have r: "e \<in> set (row ?es (unat a)) \<longleftrightarrow> e \<in> set ?es \<and> ee_src_node e = a" for e a
    by (auto simp: row_def word_unat_eq_iff)
  have "sorted (map edge_entry_key (row ?es (unat a)))"
    using live_edges_spec(3) [of t s] by (simp add: row_def sorted_map sorted_wrt_filter)
  then have "sorted ?ds"
    unfolding sorted_map by (rule sorted_wrt_mono_rel [rotated])
      (use live_edges_type [of _ t s] in \<open>auto simp: r edge_entry_key_def is_edge_def edge_entry_type_iff\<close>)
  moreover have "distinct ?ds"
  proof -
    have "distinct (map entry_ends (row ?es (unat a)))" using d by (simp add: row_def distinct_map_filter)
    then show ?thesis by (auto simp: distinct_map inj_on_def entry_ends_def r)
  qed
  ultimately have "card {y \<in> set ?ds. y < ?ds ! k} = k" using k by (intro card_below) (simp_all add: strict_sorted_iff)
  moreover have "{(x, y) \<in> live t s. x = a \<and> y < ee_dst_node (row ?es (unat a) ! k)} = Pair a ` {y \<in> set ?ds. y < ?ds ! k}"
    using k by (auto simp: live_conv [OF assms] entry_ends_def r)
  ultimately show "card {(x, y) \<in> live t s. x = a \<and> y < ee_dst_node (row ?es (unat a) ! k)} = k"
    by (simp add: card_image inj_on_def)
qed

lemma base_has_edge_row_list:
  assumes "row_list es n" "\<forall>e\<in>set es. \<not> edge_entry_is_deleted e" "map_of (gs_base_layers s) t = layer_of n es"
  shows "base_has_edge a b t s = Ok (\<exists>k<length (row es (unat a)).
     8 * length (before_row es (unat a)) + k < length es \<and> ee_dst_node (row es (unat a) ! k) = b)"
proof (cases "es = []")
  case True
  then show ?thesis using assms(3) by (simp add: base_has_edge_def layer_of_def)
next
  case False
  have deleted: "\<not> edge_attr_is_deleted (entry_attr (es ! i))" if "i < length es" for i
    using assms(2) that
    by (auto simp: edge_attr_is_deleted_def entry_attr_def edge_attr_with_flags_def edge_entry_is_deleted_def)
  note view = csr_view_row_list [OF assms(1)]
  show ?thesis
  proof (cases "a < n")
    case True
    from csr_row_read [OF assms(1) True] obtain v targets attrs where v: "csr_view (csr_from_edge_list es n) = Some v"
      "neighbor_range_data v a = Ok (Some (targets, attrs))"
      "neighbor_iter targets attrs 0 = zip (map ee_dst_node (row es (unat a)))
       (drop (8 * length (before_row es (unat a))) (map entry_attr es))" by blast
    have "(\<exists>k<length (row es (unat a)). 8 * length (before_row es (unat a)) + k < length es \<and>
        ee_dst_node (row es (unat a) ! k) = b \<and>
        \<not> edge_attr_is_deleted (map entry_attr es ! (8 * length (before_row es (unat a)) + k))) \<longleftrightarrow>
      (\<exists>k<length (row es (unat a)). 8 * length (before_row es (unat a)) + k < length es \<and>
        ee_dst_node (row es (unat a) ! k) = b)"
      using deleted by auto
    with False v assms(3) show ?thesis
      by (simp add: base_has_edge_def layer_of_def list_ex_zip_drop conj_assoc cong: conj_cong)
  next
    case False
    then have "row es (unat a) = []"
      using assms(1) by (auto simp: row_def row_list_def filter_empty_conv word_unat_eq_iff [symmetric])
    moreover have "n \<le> a" using False by simp
    ultimately show ?thesis
      using \<open>es \<noteq> []\<close> assms(3) view
      by (simp add: base_has_edge_def layer_of_def neighbor_range_data_def neighbor_range_def)
  qed
qed

subsection \<open>Rebuilding the reverse index\<close>

lemma fold_run_Ok: "(\<And>x s. x \<in> set xs \<Longrightarrow> \<exists>s'. f x s = Ok s') \<Longrightarrow> \<exists>s'. fold_run f xs s = Ok s'"
proof (induction xs arbitrary: s)
  case (Cons x xs)
  then obtain s1 where "f x s = Ok s1" by (meson list.set_intros(1))
  moreover obtain s2 where "fold_run f xs s1 = Ok s2" using Cons.IH [of s1] Cons.prems by auto
  ultimately show ?case by simp
qed simp

lemma layer_edges_Ok:
  assumes "row_list es n"
  shows "\<exists>edges. layer_edges n (csr_from_edge_list es n) = Ok edges"
proof -
  let ?v = "\<lparr>cv_node_count = n, cv_offsets = prefix_offsets 0 (count_edges n es),
    cv_targets_data = concat (map (\<lambda>i. row_bytes (row es i)) [0..<unat n]), cv_attrs = map entry_attr es\<rparr>"
  have "\<exists>r. neighbor_range_data ?v i = Ok r" if "i \<in> set (node_range n)" for i
  proof -
    have "i < n" using that unsigned_less [of n, where 'a = nat]
      by (auto simp: node_range_def word_less_nat_alt unat_of_nat)
    from csr_row_read [OF assms this] csr_view_row_list [OF assms] show ?thesis by auto
  qed
  then show ?thesis
    unfolding layer_edges_def csr_view_row_list [OF assms] option.case
    by (intro fold_run_Ok) force
qed

lemma fold_apply_reverse_simps [simp]:
  "gs_base_layers (fold apply_reverse_entry es s) = gs_base_layers s"
  "gs_delta_layers (fold apply_reverse_entry es s) = gs_delta_layers s"
  "gs_manifest (fold apply_reverse_entry es s) = gs_manifest s"
  "gs_base_path (fold apply_reverse_entry es s) = gs_base_path s"
  by (induction es arbitrary: s) simp_all

lemma rebuild_reverse_index_Ok:
  assumes "\<And>t l. (t, l) \<in> set (gs_base_layers s) \<Longrightarrow> \<exists>edges. layer_edges (gm_node_count (gs_manifest s)) l = Ok edges"
  shows "\<exists>s'. rebuild_reverse_index s = Ok s' \<and> gs_base_layers s' = gs_base_layers s \<and>
     gs_delta_layers s' = gs_delta_layers s \<and> gs_manifest s' = gs_manifest s \<and> gs_base_path s' = gs_base_path s"
proof -
  have "\<exists>i. fold_run (\<lambda>(edge_type, layer) index.
        bind_res (layer_edges (gm_node_count (gs_manifest s)) layer) (\<lambda>edges.
          Ok (fold (push_reverse edge_type) edges index))) (gs_base_layers s) [] = Ok i"
    using assms by (intro fold_run_Ok) force
  then show ?thesis by (auto simp: rebuild_reverse_index_def)
qed

lemma hm_ok_compact_group: "hm_ok layers \<Longrightarrow> hm_ok (fold (compact_group n) gs layers)"
proof (induction gs arbitrary: layers)
  case (Cons g gs)
  have "hm_ok (compact_group n g layers)"
    using Cons.prems by (auto simp: compact_group_def Let_def split: prod.splits option.splits)
  with Cons.IH show ?case by simp
qed simp

lemma graph_compact_spec:
  assumes "in_range s" "small s"
  shows "\<exists>s' fs' r. graph_compact s fs = Ok (s', fs', r) \<and>
     (gs_delta_layers s \<noteq> [] \<longrightarrow> gs_delta_layers s' = [] \<and>
        (\<forall>t. map_of (gs_base_layers s') t = layer_of (gm_node_count (gs_manifest s)) (live_edges t s))) \<and>
     (gs_delta_layers s = [] \<longrightarrow> s' = s)"
proof (cases "gs_delta_layers s = []")
  case True
  then show ?thesis by (simp add: graph_compact_def)
next
  case False
  let ?n = "gm_node_count (gs_manifest s)"
  define layers where "layers = compacted_layers ?n (concat (map dl_edges (gs_delta_layers s)))"
  have m: "map_of layers t = layer_of ?n (live_edges t s)" for t
    by (simp add: layers_def compacted_layers_spec live_edges_def)
  have ok: "hm_ok layers" unfolding layers_def compacted_layers_def by (rule hm_ok_compact_group) simp
  let ?s = "s\<lparr>gs_base_layers := layers, gs_delta_layers := []\<rparr>"
  have "\<exists>edges. layer_edges ?n l = Ok edges" if "(t, l) \<in> set layers" for t l
  proof -
    have "layer_of ?n (live_edges t s) = Some l" using map_of_is_SomeI [OF ok that] m [of t] by simp
    with layer_edges_Ok [OF live_edges_rows [OF assms]] show ?thesis
      by (auto simp: layer_of_def split: if_splits)
  qed
  then obtain s1 where s1: "rebuild_reverse_index ?s = Ok s1" "gs_base_layers s1 = layers" "gs_delta_layers s1 = []"
    using rebuild_reverse_index_Ok [of ?s] by auto
  have "base_entries s = Ok []" using assms(1) by (simp add: base_entries_def in_range_def)
  then show ?thesis
    using False s1 m unfolding graph_compact_def layers_def
    by (auto simp: Let_def save_manifest_def validate_inline_delta_capacity_def split: res.splits if_splits)
qed

lemma ex_unique_index:
  "A \<longleftrightarrow> (\<exists>k<n. f k = b) \<Longrightarrow> (\<And>k. k < n \<Longrightarrow> f k = b \<Longrightarrow> c = k) \<Longrightarrow>
   (\<exists>k<n. P k \<and> f k = b) \<longleftrightarrow> A \<and> P (c :: nat)"
  by auto

text \<open>
  C21: what \<open>has_edge\<close> answers in a store that was only grown (no base layers, row offsets below \<open>2 ^ 60\<close>) once it has
  been compacted: exactly those live edges \<open>(a, b)\<close> of a type are still found for
  which eight times the number of live edges from smaller sources, plus the number from \<open>a\<close> to smaller targets,
  is below the number of live edges. The attributes of a row are cut out at the byte offset of its targets.
\<close>

theorem compaction_answers:
  assumes "grown s" "small s"
  shows "\<exists>s' fs' r. graph_compact s fs = Ok (s', fs', r) \<and>
     (\<forall>a b t. has_edge a b t s' = Ok ((a, b) \<in> live t s \<and>
        8 * card {(x, y) \<in> live t s. x < a} + card {(x, y) \<in> live t s. x = a \<and> y < b} < card (live t s)))"
proof -
  let ?n = "gm_node_count (gs_manifest s)"
  have base: "gs_base_layers s = []" and range: "in_range s"
    using grown_in_range [OF assms(1)] by (simp_all add: in_range_def)
  obtain s' fs' r where s': "graph_compact s fs = Ok (s', fs', r)"
      "gs_delta_layers s \<noteq> [] \<longrightarrow> gs_delta_layers s' = [] \<and>
        (\<forall>t. map_of (gs_base_layers s') t = layer_of ?n (live_edges t s))"
      "gs_delta_layers s = [] \<longrightarrow> s' = s"
    using graph_compact_spec [OF range assms(2)] by blast
  have "has_edge a b t s' = Ok ((a, b) \<in> live t s \<and>
        8 * card {(x, y) \<in> live t s. x < a} + card {(x, y) \<in> live t s. x = a \<and> y < b} < card (live t s))" for a b t
  proof (cases "gs_delta_layers s = []")
    case True
    then have "live t s = {}" "s' = s"
      using base s'(3) by (simp_all add: live_def has_edge_newest newest_first_def base_has_edge_def)
    then show ?thesis using True base by (simp add: has_edge_newest newest_first_def base_has_edge_def)
  next
    case False
    let ?es = "live_edges t s"
    let ?r = "row ?es (unat a)"
    note c = live_counts [OF base]
    have "has_edge a b t s' = base_has_edge a b t s'"
      using False s'(2) by (simp add: has_edge_newest newest_first_def)
    also have "\<dots> = Ok (\<exists>k<length ?r. 8 * length (before_row ?es (unat a)) + k < length ?es \<and> ee_dst_node (?r ! k) = b)"
      using live_edges_rows [OF range assms(2)] live_edges_spec(2) False s'(2)
      by (intro base_has_edge_row_list) auto
    also have "\<dots> = Ok ((a, b) \<in> live t s \<and>
        8 * card {(x, y) \<in> live t s. x < a} + card {(x, y) \<in> live t s. x = a \<and> y < b} < card (live t s))"
    proof -
      have "(a, b) \<in> live t s \<longleftrightarrow> (\<exists>k<length ?r. ee_dst_node (?r ! k) = b)"
      proof -
        have "(a, b) \<in> live t s \<longleftrightarrow> (\<exists>e\<in>set ?r. ee_dst_node e = b)"
          by (auto simp: live_conv [OF base] entry_ends_def row_def word_unat_eq_iff [symmetric])
        also have "\<dots> \<longleftrightarrow> (\<exists>k<length ?r. ee_dst_node (?r ! k) = b)"
          by (metis in_set_conv_nth)
        finally show ?thesis .
      qed
      moreover have "card {(x, y) \<in> live t s. x = a \<and> y < b} = k" if "k < length ?r" "ee_dst_node (?r ! k) = b" for k
        using c(3) [OF that(1)] that(2) by simp
      ultimately show ?thesis unfolding c(1) c(2) by (subst ex_unique_index) simp_all
    qed
    finally show ?thesis .
  qed
  with s'(1) show ?thesis by blast
qed

lemma compaction_answers_witness:
  "\<exists>s s' fs' r. has_edge 2 3 SUPPORTS s = Ok True \<and> graph_compact s [] = Ok (s', fs', r) \<and>
     has_edge 1 2 SUPPORTS s' = Ok True \<and> has_edge 2 3 SUPPORTS s' = Ok False"
proof -
  let ?s = "append_edge 2 3 SUPPORTS 7 (append_edge 1 2 SUPPORTS 9 (graph_with_path [] 4))"
  have g: "grown ?s"
    by (intro grown_example) (simp_all add: grown_example_simps)
  have n: "newest_first ?s = [edge_entry_new 2 3 SUPPORTS 7 0 0, edge_entry_new 1 2 SUPPORTS 9 0 0]"
    by simp
  have "gm_node_count (gs_manifest ?s) = 4"
    by (simp add: append_edge_touched touched_def graph_with_path_def manifest_new_def manifest_mark_edge_type_def
        word_less_nat_alt word_le_nat_alt)
  then have "small ?s" by (simp add: small_def n)
  note c = compaction_answers [OF g this, of "[]"]
  have "has_edge a b SUPPORTS ?s = Ok ((a, b) \<in> {(2, 3), (1, 2)})" for a b
    by (auto simp: has_edge_newest n base_has_edge_def)
  then have l: "live SUPPORTS ?s = {(2, 3), (1, 2)}" by (auto simp: live_def)
  have s: "{(x, y). (x, y) \<in> live SUPPORTS ?s \<and> x < 2} = {(1, 2)}"
    "{(x, y). (x, y) \<in> live SUPPORTS ?s \<and> x < 1} = {}"
    "{(x, y). (x, y) \<in> live SUPPORTS ?s \<and> x = 1 \<and> y < 2} = {}"
    by (auto simp: l)
  from c obtain s' fs' r where "graph_compact ?s [] = Ok (s', fs', r)"
    and h: "\<And>a b t. has_edge a b t s' = Ok ((a, b) \<in> live t ?s \<and>
        8 * card {(x, y) \<in> live t ?s. x < a} + card {(x, y) \<in> live t ?s. x = a \<and> y < b} < card (live t ?s))" by blast
  moreover have "has_edge 1 2 SUPPORTS s' = Ok True" "has_edge 2 3 SUPPORTS s' = Ok False"
    unfolding h s by (simp_all add: l)
  moreover have "has_edge 2 3 SUPPORTS ?s = Ok True" using l by (auto simp: live_def)
  ultimately show ?thesis by blast
qed

end
