(* ===== verification/Graph_Files.thy ===== *)
theory Graph_Files
  imports Graph_Compaction
begin

text \<open>
  Saving and loading of graph stores (\<open>src/graph/store.rs\<close>): names, entries, headers, the manifest and
  layers are read back as written, and a store that was only grown answers the same after a save and a
  load.
\<close>

section \<open>File names\<close>

lemma delta_file_inject [simp]: "delta_file i = delta_file j \<longleftrightarrow> i = j"
proof -
  have "dec m = dec n \<longleftrightarrow> m = n" for m n by (metis dec_value_dec)
  then show ?thesis by (simp add: delta_file_def word_unat_eq_iff)
qed

lemma delta_file_not_manifest [simp]: "delta_file i \<noteq> MANIFEST_FILE" "MANIFEST_FILE \<noteq> delta_file i"
  by (simp_all add: delta_file_def MANIFEST_FILE_def)

section \<open>Entries and headers\<close>

lemma edge_entry_memory_length [simp]: "length (edge_entry_memory e) = EDGE_ENTRY_SIZE"
  by (simp add: edge_entry_memory_def EDGE_ENTRY_SIZE_def)

lemma edge_entry_read_memory [simp]: "edge_entry_read (edge_entry_memory e @ rest) = e"
  by (simp add: edge_entry_read_def edge_entry_memory_def)

lemma edge_entry_written [simp]:
  "snd (edge_entry_write_to_bytes e (replicate EDGE_ENTRY_SIZE 0)) = edge_entry_memory e"
  by (simp add: edge_entry_write_to_bytes_def)

lemma edge_entry_from_memory [simp]: "edge_entry_from_bytes (edge_entry_memory e) = Some e"
  using edge_entry_read_memory [of e "[]"] by (simp add: edge_entry_from_bytes_def)

lemma read_edge_entries_written:
  "read_edge_entries (length es) (concat (map edge_entry_memory es)) = Ok es"
  by (induction es) simp_all

lemma delta_header_memory_length [simp]: "length (delta_header_memory h) = DELTA_HEADER_SIZE"
  by (simp add: delta_header_memory_def DELTA_HEADER_SIZE_def)

lemma delta_header_read_memory [simp]: "delta_header_read (delta_header_memory h) = h"
  by (simp add: delta_header_read_def delta_header_memory_def)

definition sealed_header :: "DeltaHeader \<Rightarrow> DeltaHeader" where
  "sealed_header h = h\<lparr>dh_crc32 := delta_header_compute_crc h\<rparr>"

lemma sealed_header_from_bytes:
  assumes "dh_magic h = DELTA_MAGIC" "dh_ver h = GRAPH_VERSION"
  shows "delta_header_from_bytes (delta_header_memory (sealed_header h)) = Some (sealed_header h)"
proof -
  have "delta_header_compute_crc (sealed_header h) = delta_header_compute_crc h"
    by (simp add: delta_header_compute_crc_def sealed_header_def delta_header_memory_def)
  then have "delta_header_validate_crc (sealed_header h)"
    by (simp add: delta_header_validate_crc_def) (simp add: sealed_header_def)
  then show ?thesis
    using assms by (simp add: delta_header_from_bytes_def delta_header_validate_magic_def) (simp add: sealed_header_def)
qed

section \<open>Delta files\<close>

definition delta_bytes :: "DeltaLayer \<Rightarrow> bytes" where
  "delta_bytes d = delta_header_memory (sealed_header
     (delta_header_new (dl_id d) (dl_base_gen d) (of_nat (length (dl_edges d))))) @
   concat (map edge_entry_memory (dl_edges d))"

lemma delta_write_bytes: "delta_write_to_file dir f d fs = fs_write dir f (delta_bytes d) fs"
  by (simp add: delta_write_to_file_def delta_header_write_to_bytes_def delta_bytes_def sealed_header_def Let_def)

lemma delta_load_bytes:
  assumes "map_of fs (dir, f) = Some (delta_bytes d)" "length (dl_edges d) < 2 ^ 32"
  shows "delta_load_from_file dir f fs = Ok (d\<lparr>dl_sorted := False\<rparr>)"
proof -
  let ?h = "sealed_header (delta_header_new (dl_id d) (dl_base_gen d) (of_nat (length (dl_edges d))))"
  have h: "dh_delta_id ?h = dl_id d" "dh_base_gen ?h = dl_base_gen d" "unat (dh_edge_count ?h) = length (dl_edges d)"
    using assms(2) by (simp_all add: sealed_header_def delta_header_new_def unat_of_nat)
  have "delta_header_from_bytes (delta_header_memory ?h) = Some ?h"
    by (rule sealed_header_from_bytes) (simp_all add: delta_header_new_def)
  then show ?thesis
    using assms(1) read_edge_entries_written [of "dl_edges d"] h
    by (simp add: delta_load_from_file_def delta_bytes_def)
qed

lemma save_deltas_content:
  assumes "distinct (map dl_id ds)"
  shows "map_of (fold (\<lambda>d. delta_write_to_file dir (delta_file (dl_id d)) d) ds fs) (dir', f) =
    (case List.find (\<lambda>d. dir' = dir \<and> f = delta_file (dl_id d)) ds of
       None \<Rightarrow> map_of fs (dir', f) | Some d \<Rightarrow> Some (delta_bytes d))"
  using assms
proof (induction ds arbitrary: fs)
  case (Cons d ds)
  have n: "List.find (\<lambda>x. dir' = dir \<and> f = delta_file (dl_id x)) ds = None" if "f = delta_file (dl_id d)"
    using Cons.prems that by (auto simp: find_None_iff)
  show ?case
    using Cons.IH [of "delta_write_to_file dir (delta_file (dl_id d)) d fs"] Cons.prems n
    by (auto simp: delta_write_bytes split: option.splits)
qed simp

section \<open>The manifest file\<close>

lemma u32s_at:
  "length (concat (map u32_le ws)) = 4 * length ws"
  "i < length ws \<Longrightarrow> u32_at (i * 4) (concat (map u32_le ws)) = ws ! i"
proof -
  show "length (concat (map u32_le ws)) = 4 * length ws" by (induction ws) auto
  show "i < length ws \<Longrightarrow> u32_at (i * 4) (concat (map u32_le ws)) = ws ! i"
  proof (induction ws arbitrary: i)
    case (Cons w ws)
    then show ?case by (cases i) (auto simp: algebra_simps)
  qed simp
qed

definition manifest_ok :: "GraphManifest \<Rightarrow> bool" where
  "manifest_ok m \<longleftrightarrow> gm_magic m = GRAPH_MAGIC \<and> gm_ver m = GRAPH_VERSION \<and>
     length (gm_delta_ids m) = MAX_INLINE_DELTAS \<and> unat (gm_delta_count m) \<le> MAX_INLINE_DELTAS"

lemma manifest_memory_length: "manifest_ok m \<Longrightarrow> length (manifest_memory m) = MANIFEST_SIZE"
  by (simp add: manifest_memory_def manifest_ok_def MANIFEST_SIZE_def MAX_INLINE_DELTAS_def u32s_at)

lemma manifest_from_memory: "manifest_ok m \<Longrightarrow> manifest_from_bytes (manifest_memory m) = Some m"
proof -
  assume ok: "manifest_ok m"
  have ids: "map (\<lambda>i. u32_at (40 + i * 4) (manifest_memory m)) [0..<MAX_INLINE_DELTAS] = gm_delta_ids m"
  proof (rule nth_equalityI)
    have "drop 40 (manifest_memory m) = concat (map u32_le (gm_delta_ids m))" by (simp add: manifest_memory_def)
    then have d: "drop (40 + j) (manifest_memory m) = drop j (concat (map u32_le (gm_delta_ids m)))" for j
      by (metis add.commute drop_drop)
    fix i assume "i < length (map (\<lambda>i. u32_at (40 + i * 4) (manifest_memory m)) [0..<MAX_INLINE_DELTAS])"
    then show "map (\<lambda>i. u32_at (40 + i * 4) (manifest_memory m)) [0..<MAX_INLINE_DELTAS] ! i = gm_delta_ids m ! i"
      using ok u32s_at(2) [of i "gm_delta_ids m"] by (simp add: d manifest_ok_def)
  qed (use ok in \<open>simp add: manifest_ok_def\<close>)
  have f: "u32_at 0 (manifest_memory m) = gm_magic m" "u16_at 4 (manifest_memory m) = gm_ver m"
    "u16_at 6 (manifest_memory m) = gm_flags m" "u32_at 8 (manifest_memory m) = gm_base_gen m"
    "u64_at 16 (manifest_memory m) = gm_node_count m" "u64_at 24 (manifest_memory m) = gm_edge_type_mask m"
    "u32_at 32 (manifest_memory m) = gm_delta_count m" "u32_at 36 (manifest_memory m) = gm_reserved1 m"
    by (simp_all add: manifest_memory_def)
  show ?thesis
    using ok unfolding manifest_from_bytes_def manifest_memory_length [OF ok] ids f
    by (simp add: manifest_validate_magic_def manifest_ok_def)
qed

lemma manifest_read_written:
  "manifest_ok m \<Longrightarrow> manifest_read_from_file dir f (manifest_write_to_file dir f m fs) = Ok m"
  by (simp add: manifest_read_from_file_def manifest_write_to_file_def manifest_write_to_bytes_def
      manifest_memory_length manifest_from_memory)

section \<open>Saving and loading a store\<close>

text \<open>The layers of a store that was only grown have the identifiers \<open>1, 2, \<dots>\<close>.\<close>

definition numbered :: "GraphStore \<Rightarrow> bool" where
  "numbered s \<longleftrightarrow> map dl_id (gs_delta_layers s) = map of_nat [1..<length (gs_delta_layers s) + 1] \<and>
     gs_next_delta_id s = of_nat (length (gs_delta_layers s) + 1) \<and> length (gs_delta_layers s) \<le> MAX_DELTA_LAYERS \<and>
     manifest_ok (gs_manifest s)"

lemma apply_reverse_entry_next [simp]: "gs_next_delta_id (apply_reverse_entry e s) = gs_next_delta_id s"
  by (simp add: apply_reverse_entry_def split: option.splits)

lemma last_layer_ids:
  "gs_delta_layers s \<noteq> [] \<Longrightarrow> map dl_id (gs_delta_layers (add_to_last_delta e s)) = map dl_id (gs_delta_layers s)"
  by (cases "gs_delta_layers s" rule: rev_cases) (simp_all add: add_to_last_delta_def delta_add_def)

lemma numbered_add:
  assumes "numbered s"
  shows "gs_delta_layers s \<noteq> [] \<Longrightarrow> numbered (add_to_last_delta e s)"
    and "length (gs_delta_layers s) < MAX_DELTA_LAYERS \<Longrightarrow> numbered (add_to_new_delta e s)"
proof -
  assume "gs_delta_layers s \<noteq> []"
  with last_layer_ids [OF this, of e] assms show "numbered (add_to_last_delta e s)"
    by (simp add: numbered_def) (simp add: add_to_last_delta_def)
next
  assume "length (gs_delta_layers s) < MAX_DELTA_LAYERS"
  with assms show "numbered (add_to_new_delta e s)"
    by (simp add: numbered_def add_to_new_delta_def delta_add_def delta_new_def)
qed

lemma numbered_cong:
  "gs_delta_layers s' = gs_delta_layers s \<Longrightarrow> gs_next_delta_id s' = gs_next_delta_id s \<Longrightarrow>
   manifest_ok (gs_manifest s') \<longleftrightarrow> manifest_ok (gs_manifest s) \<Longrightarrow> numbered s' = numbered s"
  by (simp add: numbered_def)

lemma manifest_ok_updates [simp]:
  "manifest_ok (m\<lparr>gm_node_count := n\<rparr>) = manifest_ok m" "manifest_ok (m\<lparr>gm_flags := f\<rparr>) = manifest_ok m"
  "manifest_ok (manifest_mark_edge_type t m) = manifest_ok m"
  by (simp_all add: manifest_ok_def manifest_mark_edge_type_def Let_def)

lemma grown_numbered: "grown s \<Longrightarrow> numbered s"
proof (induction rule: grown.induct)
  case (created path n)
  show ?case by (simp add: numbered_def graph_with_path_def manifest_new_def manifest_ok_def)
next
  case (edge_added s a b t c fs s' fs')
  then have s': "s' = append_edge a b t c s"
    using append_edge_simps(3) [of a b t c s] by (simp add: add_edge_def Let_def)
  have n: "numbered (touched a b t s)"
    using edge_added.IH by (subst numbered_cong [of _ s]) (simp_all add: touched_def Let_def)
  have "numbered (apply_reverse_entry e s) = numbered s" for e s by (intro numbered_cong) simp_all
  then show ?case
    using numbered_add [OF n] edge_added.hyps(3) unfolding s' append_edge_touched by simp
next
  case (edge_deleted s a b t s')
  let ?e = "edge_entry_tombstone a b t"
  have s': "s' = apply_reverse_entry ?e
      (if gs_delta_layers s = [] then add_to_new_delta ?e s else add_to_last_delta ?e s)"
    using edge_deleted.hyps by (auto simp: delete_edge_def Let_def split: if_splits)
  have "numbered (apply_reverse_entry e s) = numbered s" for e s by (intro numbered_cong) simp_all
  then show ?case using numbered_add [OF edge_deleted.IH] by (simp add: s' MAX_DELTA_LAYERS_def)
next
  case (node_added s n)
  then show ?case by (subst numbered_cong [of _ s]) (simp_all add: add_node_def)
next
  case (readonly_set s r)
  then show ?case
    by (subst numbered_cong [of _ s]) (simp_all add: set_readonly_def manifest_mark_readonly_def)
qed

lemma synced_manifest_ids:
  assumes "manifest_ok m" "length ds \<le> MAX_INLINE_DELTAS"
  shows "fold (\<lambda>d m. m\<lparr>gm_delta_ids := (gm_delta_ids m)[unat (gm_delta_count m) := dl_id d],
       gm_delta_count := gm_delta_count m + 1\<rparr>) ds (m\<lparr>gm_delta_count := 0, gm_delta_ids := replicate MAX_INLINE_DELTAS 0\<rparr>) =
     m\<lparr>gm_delta_count := of_nat (length ds),
       gm_delta_ids := map dl_id ds @ replicate (MAX_INLINE_DELTAS - length ds) 0\<rparr>"
  using assms(2)
proof (induction ds rule: rev_induct)
  case (snoc d ds)
  have u: "unat (of_nat (length ds) :: u32) = length ds"
    using snoc.prems by (simp add: unat_of_nat MAX_INLINE_DELTAS_def)
  have "replicate (MAX_INLINE_DELTAS - length ds) (0 :: u32) = 0 # replicate (MAX_INLINE_DELTAS - length (ds @ [d])) 0"
    using snoc.prems by (simp add: Suc_diff_Suc flip: replicate_Suc)
  with snoc u show ?case by (simp add: list_update_append)
qed simp

lemma synced_manifest_spec:
  assumes "manifest_ok (gs_manifest s)" "length (gs_delta_layers s) \<le> MAX_INLINE_DELTAS"
  shows "manifest_ok (synced_manifest s)"
    "gm_delta_count (synced_manifest s) = of_nat (length (gs_delta_layers s))"
    "i < length (gs_delta_layers s) \<Longrightarrow> gm_delta_ids (synced_manifest s) ! i = dl_id (gs_delta_layers s ! i)"
    "gm_node_count (synced_manifest s) = gm_node_count (gs_manifest s)"
proof -
  have l: "unat (of_nat (length (gs_delta_layers s)) :: u32) = length (gs_delta_layers s)"
    using assms(2) by (simp add: MAX_INLINE_DELTAS_def unat_of_nat)
  note s = synced_manifest_def Let_def synced_manifest_ids [OF assms]
  show "manifest_ok (synced_manifest s)"
    using assms l unfolding s by (simp add: manifest_ok_def)
  show "gm_delta_count (synced_manifest s) = of_nat (length (gs_delta_layers s))"
    "gm_node_count (synced_manifest s) = gm_node_count (gs_manifest s)"
    unfolding s by simp_all
  show "i < length (gs_delta_layers s) \<Longrightarrow> gm_delta_ids (synced_manifest s) ! i = dl_id (gs_delta_layers s ! i)"
    unfolding s by (auto simp: nth_append)
qed

lemma find_inj: "inj_on f (set xs) \<Longrightarrow> d \<in> set xs \<Longrightarrow> List.find (\<lambda>x. f d = f x) xs = Some d"
  by (induction xs) (auto simp: inj_on_def)

lemma graph_save_files:
  assumes "gs_base_path s \<noteq> []" "gs_base_layers s = []" "numbered s"
  shows "\<exists>fs'. graph_save s fs = Ok fs' \<and>
     manifest_read_from_file (gs_base_path s) MANIFEST_FILE fs' = Ok (synced_manifest s) \<and>
     (\<forall>d\<in>set (gs_delta_layers s). map_of fs' (gs_base_path s, delta_file (dl_id d)) = Some (delta_bytes d)) \<and>
     (\<forall>t suffix. map_of fs' (gs_base_path s, edges_file t suffix) = map_of fs (gs_base_path s, edges_file t suffix))"
proof -
  let ?dir = "gs_base_path s" and ?ds = "gs_delta_layers s"
  let ?fs = "fold (\<lambda>d. delta_write_to_file ?dir (delta_file (dl_id d)) d) ?ds fs"
  let ?fs' = "manifest_write_to_file ?dir MANIFEST_FILE (synced_manifest s) ?fs"
  have l: "length ?ds \<le> MAX_INLINE_DELTAS"
    using assms(3) by (simp add: numbered_def MAX_DELTA_LAYERS_def MAX_INLINE_DELTAS_def)
  have "distinct (map (of_nat :: nat \<Rightarrow> u32) [1..<length ?ds + 1])"
    using l by (auto simp: distinct_map inj_on_def MAX_INLINE_DELTAS_def word_unat_eq_iff unat_of_nat)
  then have "distinct (map dl_id ?ds)" using assms(3) by (simp add: numbered_def)
  then have inj: "inj_on dl_id (set ?ds)" and c: "map_of ?fs (?dir, f) =
    (case List.find (\<lambda>d. f = delta_file (dl_id d)) ?ds of
       None \<Rightarrow> map_of fs (?dir, f) | Some d \<Rightarrow> Some (delta_bytes d))" for f
    using save_deltas_content [of ?ds ?dir fs ?dir f] by (simp_all add: distinct_map)
  have d: "map_of ?fs' (?dir, delta_file (dl_id d)) = Some (delta_bytes d)" if "d \<in> set ?ds" for d
  proof -
    have "List.find (\<lambda>x. delta_file (dl_id d) = delta_file (dl_id x)) ?ds = Some d"
      using find_inj [OF inj that] by simp
    then show ?thesis by (simp add: manifest_write_to_file_def c)
  qed
  have e: "map_of ?fs' (?dir, edges_file t suffix) = map_of fs (?dir, edges_file t suffix)" for t suffix
  proof -
    have "List.find (\<lambda>d. edges_file t suffix = delta_file (dl_id d)) ?ds = None"
      by (simp add: find_None_iff edges_file_def delta_file_def)
    moreover have "edges_file t suffix \<noteq> MANIFEST_FILE" by (simp add: edges_file_def MANIFEST_FILE_def)
    ultimately show ?thesis by (simp add: manifest_write_to_file_def c)
  qed
  have "graph_save s fs = Ok ?fs'"
    using assms(1,2) l
    by (simp add: graph_save_def validate_inline_delta_capacity_def save_base_layers_def save_delta_layers_def
        save_manifest_def)
  moreover have "manifest_read_from_file ?dir MANIFEST_FILE ?fs' = Ok (synced_manifest s)"
    using assms(3) l by (intro manifest_read_written synced_manifest_spec(1)) (simp_all add: numbered_def)
  ultimately show ?thesis using d e by blast
qed

lemma load_no_base:
  assumes "\<And>t n. csr_load_from_files (gs_base_path s) t n fs = None"
  shows "fold (load_base_layer fs) ks s = s"
  by (induction ks) (simp_all add: load_base_layer_def assms split: option.splits)

lemma fold_run_snoc: "fold_run f (xs @ [y]) s = bind_res (fold_run f xs s) (f y)"
proof (induction xs arbitrary: s)
  case Nil
  show ?case by (cases "f y s") simp_all
next
  case (Cons x xs)
  then show ?case by (cases "f x s") simp_all
qed

lemma load_deltas:
  assumes "k \<le> length ds" "length ds \<le> MAX_DELTA_LAYERS"
    and "map dl_id ds = map of_nat [1..<length ds + 1]"
    and "\<forall>i<length ds. gm_delta_ids (gs_manifest s) ! i = dl_id (ds ! i)"
    and "\<forall>d\<in>set ds. map_of fs (gs_base_path s, delta_file (dl_id d)) = Some (delta_bytes d) \<and> length (dl_edges d) < 2 ^ 32"
  shows "\<exists>next. fold_run (load_delta_layer fs) [0..<k] s =
    Ok (s\<lparr>gs_delta_layers := gs_delta_layers s @ map (\<lambda>d. d\<lparr>dl_sorted := False\<rparr>) (take k ds), gs_next_delta_id := next\<rparr>)"
  using assms(1)
proof (induction k)
  case 0
  show ?case by (intro exI [of _ "gs_next_delta_id s"]) simp
next
  case (Suc k)
  obtain nx where ih: "fold_run (load_delta_layer fs) [0..<k] s =
    Ok (s\<lparr>gs_delta_layers := gs_delta_layers s @ map (\<lambda>d. d\<lparr>dl_sorted := False\<rparr>) (take k ds), gs_next_delta_id := nx\<rparr>)"
    using Suc by auto
  have k: "k < length ds" using Suc.prems by simp
  then have i: "gm_delta_ids (gs_manifest s) ! k = dl_id (ds ! k)" using assms(4) by simp
  have "dl_id (ds ! k) = map dl_id ds ! k" using k by simp
  also have "\<dots> = of_nat (k + 1)" using k unfolding assms(3) by (simp del: upt_Suc)
  finally have "dl_id (ds ! k) = of_nat (k + 1)" .
  moreover have "unat (of_nat (k + 1) :: u32) = k + 1"
    using k assms(2) by (intro unat_of_nat_u32) (simp add: MAX_DELTA_LAYERS_def)
  ultimately have nz: "dl_id (ds ! k) \<noteq> 0" by (metis add_is_0 unsigned_0 zero_neq_one)
  have f: "map_of fs (gs_base_path s, delta_file (dl_id (ds ! k))) = Some (delta_bytes (ds ! k))"
    "length (dl_edges (ds ! k)) < 2 ^ 32" using assms(5) k by simp_all
  let ?x = "s\<lparr>gs_delta_layers := gs_delta_layers s @ map (\<lambda>d. d\<lparr>dl_sorted := False\<rparr>) (take k ds), gs_next_delta_id := nx\<rparr>"
  have "\<exists>nx'. load_delta_layer fs k ?x = Ok (s\<lparr>gs_delta_layers := gs_delta_layers s @
      map (\<lambda>d. d\<lparr>dl_sorted := False\<rparr>) (take (Suc k) ds), gs_next_delta_id := nx'\<rparr>)"
    using k i nz f(1) delta_load_bytes [OF f]
    by (intro exI [of _ "if nx \<le> dl_id (ds ! k) then dl_id (ds ! k) + 1 else nx"])
      (simp add: load_delta_layer_def Let_def take_Suc_conv_app_nth)
  then show ?case by (simp add: fold_run_snoc ih)
qed

lemma newest_first_unsorted [simp]:
  "concat (map (\<lambda>delta. rev (dl_edges delta)) (rev (map (\<lambda>d. d\<lparr>dl_sorted := b\<rparr>) ds))) =
   concat (map (\<lambda>delta. rev (dl_edges delta)) (rev ds))"
  by (induction ds) simp_all

lemma reverse_ok_fold:
  assumes "gs_base_layers s = []" "gs_reverse_index s = []"
  shows "\<exists>i. fold apply_reverse_entry es s = s\<lparr>gs_reverse_index := i\<rparr> \<and>
    reverse_ok (s\<lparr>gs_delta_layers := [\<lparr>dl_id = 1, dl_base_gen = 0, dl_edges = es, dl_sorted = False\<rparr>], gs_reverse_index := i\<rparr>)"
proof (induction es rule: rev_induct)
  case Nil
  show ?case using assms
    by (intro exI [of _ "gs_reverse_index s"])
      (simp add: reverse_ok_def in_neighbors_def newest_confidence_def newest_first_def incoming_ok_def)
next
  case (snoc e es)
  let ?d = "\<lambda>es. [\<lparr>dl_id = 1, dl_base_gen = 0, dl_edges = es, dl_sorted = False\<rparr>]"
  obtain i where i: "fold apply_reverse_entry es s = s\<lparr>gs_reverse_index := i\<rparr>"
    "reverse_ok (s\<lparr>gs_delta_layers := ?d es, gs_reverse_index := i\<rparr>)" using snoc by blast
  obtain j where j: "\<And>x. gs_reverse_index x = i \<Longrightarrow> apply_reverse_entry e x = x\<lparr>gs_reverse_index := j\<rparr>"
  proof (cases "edge_entry_type e")
    case None
    show thesis by (rule that [of i]) (simp add: apply_reverse_entry_def None)
  next
    case (Some t)
    show thesis by (rule that [of "entry_upd [] (reverse_entry e) t i"]) (simp add: apply_reverse_entry_def Some)
  qed
  have "reverse_ok (apply_reverse_entry e (s\<lparr>gs_delta_layers := ?d (es @ [e]), gs_reverse_index := i\<rparr>))"
    by (rule reverse_ok_prepend [OF i(2)]) (simp_all add: newest_first_def)
  then show ?case using i(1) j by (intro exI [of _ j]) simp
qed

lemma incoming_unique: "incoming_ok xs \<Longrightarrow> incoming_ok ys \<Longrightarrow> map_of xs = map_of ys \<Longrightarrow> xs = ys"
proof -
  assume ok: "incoming_ok xs" "incoming_ok ys" and m: "map_of xs = map_of ys"
  then have d: "distinct (map fst xs)" "distinct (map fst ys)" "sorted (map fst xs)" "sorted (map fst ys)"
    by (simp_all add: incoming_ok_def strict_sorted_iff)
  then have s: "set xs = set ys" using m by (simp add: map_of_inject_set)
  have "inj_on fst (set xs)" using d(1) by (simp add: distinct_map)
  with d s show "xs = ys" by (intro map_sorted_distinct_set_unique [of fst]) simp_all
qed

text \<open>
  C23: a store that was only grown, saved into a directory without layer files and loaded again, answers every
  query as before and has the same node count.
\<close>

theorem save_then_load:
  assumes "grown s" "gs_base_path s \<noteq> []" "length (newest_first s) < 2 ^ 32"
    and "\<And>t n. csr_load_from_files (gs_base_path s) t n fs = None"
  shows "\<exists>fs' s'. graph_save s fs = Ok fs' \<and> graph_load (gs_base_path s) fs' = Ok s' \<and>
     gm_node_count (gs_manifest s') = gm_node_count (gs_manifest s) \<and>
     (\<forall>a b t. has_edge a b t s' = has_edge a b t s) \<and> (\<forall>a t. neighbors a t s' = neighbors a t s) \<and>
     (\<forall>b t. in_neighbors b t s' = in_neighbors b t s)"
proof -
  let ?dir = "gs_base_path s" and ?ds = "gs_delta_layers s"
  have n: "numbered s" and rev_ok: "reverse_ok s" and base: "gs_base_layers s = []"
    using grown_numbered grown_reverse_ok grown_in_range assms(1) by (auto simp: in_range_def)
  have ids: "map dl_id ?ds = map of_nat [1..<length ?ds + 1]" "length ?ds \<le> MAX_DELTA_LAYERS" "manifest_ok (gs_manifest s)"
    using n by (simp_all add: numbered_def)
  then have inline: "length ?ds \<le> MAX_INLINE_DELTAS" by (simp add: MAX_DELTA_LAYERS_def MAX_INLINE_DELTAS_def)
  note m = synced_manifest_spec [OF ids(3) inline]
  obtain fs' where save: "graph_save s fs = Ok fs'" "manifest_read_from_file ?dir MANIFEST_FILE fs' = Ok (synced_manifest s)"
      "\<forall>d\<in>set ?ds. map_of fs' (?dir, delta_file (dl_id d)) = Some (delta_bytes d)"
      "\<forall>t suffix. map_of fs' (?dir, edges_file t suffix) = map_of fs (?dir, edges_file t suffix)"
    using graph_save_files [OF assms(2) base n, of fs] by blast
  have len: "\<forall>d\<in>set ?ds. length (dl_edges d) < 2 ^ 32"
  proof
    fix d assume "d \<in> set ?ds"
    then have "length (dl_edges d) \<le> sum_list (map (length \<circ> dl_edges) ?ds)" by (intro member_le_sum_list) auto
    also have "\<dots> = length (newest_first s)" by (simp add: newest_first_def length_concat comp_def rev_map [symmetric] sum_list_rev)
    finally show "length (dl_edges d) < 2 ^ 32" using assms(3) by linarith
  qed
  let ?s0 = "(graph_with_path ?dir 0)\<lparr>gs_manifest := synced_manifest s\<rparr>"
  have "csr_load_from_files ?dir t k fs' = None" for t k
    using assms(4) [of t k] save(4) by (simp add: csr_load_from_files_def)
  then have nobase: "fold (load_base_layer fs') [1..<65] ?s0 = ?s0"
    by (intro load_no_base) (simp add: graph_with_path_def)
  have d0: "gs_delta_layers ?s0 = []" "gs_base_path ?s0 = ?dir" "gs_manifest ?s0 = synced_manifest s"
    by (simp_all add: graph_with_path_def)
  obtain nx where deltas: "fold_run (load_delta_layer fs') [0..<length ?ds] ?s0 =
      Ok (?s0\<lparr>gs_delta_layers := map (\<lambda>d. d\<lparr>dl_sorted := False\<rparr>) ?ds, gs_next_delta_id := nx\<rparr>)"
    using load_deltas [OF order.refl ids(2,1), of ?s0 fs'] m(3) save(3) len by (auto simp: d0)
  let ?s1 = "?s0\<lparr>gs_delta_layers := map (\<lambda>d. d\<lparr>dl_sorted := False\<rparr>) ?ds, gs_next_delta_id := nx\<rparr>"
  let ?es = "concat (map dl_edges ?ds)"
  obtain i where i: "fold apply_reverse_entry ?es ?s1 = ?s1\<lparr>gs_reverse_index := i\<rparr>"
    "reverse_ok (?s1\<lparr>gs_delta_layers := [\<lparr>dl_id = 1, dl_base_gen = 0, dl_edges = ?es, dl_sorted = False\<rparr>], gs_reverse_index := i\<rparr>)"
    using reverse_ok_fold [of ?s1 ?es] by (auto simp: graph_with_path_def)
  let ?s' = "?s1\<lparr>gs_reverse_index := i\<rparr>"
  have s1: "gs_base_layers ?s1 = []" "?s1\<lparr>gs_reverse_index := []\<rparr> = ?s1"
    "concat (map dl_edges (gs_delta_layers ?s1)) = ?es"
    by (simp_all add: graph_with_path_def comp_def)
  then have "rebuild_reverse_index ?s1 = Ok ?s'"
    using i(1) by (simp only: rebuild_reverse_index_def s1 fold_run.simps bind_res.simps Let_def list.map)
  moreover have "unat (gm_delta_count (synced_manifest s)) = length ?ds"
    using m(2) inline by (simp add: unat_of_nat MAX_INLINE_DELTAS_def)
  ultimately have load: "graph_load ?dir fs' = Ok ?s'"
    using save(2) nobase deltas by (simp add: graph_load_def Let_def)
  have nf: "newest_first ?s' = newest_first s" by (simp add: newest_first_def)
  have base': "gs_base_layers ?s' = []" by (simp add: graph_with_path_def)
  have h: "has_edge a b t ?s' = has_edge a b t s" for a b t
    unfolding has_edge_newest nf by (simp only: base_has_edge_cong [of ?s' s] base base')
  have "dl_edges \<circ> dl_sorted_update (\<lambda>_. False) = (dl_edges :: DeltaLayer \<Rightarrow> _)" by (rule ext) simp
  then have nb: "neighbors a t ?s' = neighbors a t s" for a t
    by (simp add: neighbors_lossy base_iter_def base base')
  let ?s2 = "?s1\<lparr>gs_delta_layers := [\<lparr>dl_id = 1, dl_base_gen = 0, dl_edges = ?es, dl_sorted = False\<rparr>], gs_reverse_index := i\<rparr>"
  have nf2: "newest_first ?s2 = newest_first s" by (simp add: newest_first_def rev_concat rev_map comp_def)
  have "in_neighbors b t ?s2 = in_neighbors b t s" for b t
    using i(2) rev_ok nf2 by (intro incoming_unique) (simp_all only: reverse_ok_def newest_confidence_def)
  then have "in_neighbors b t ?s' = in_neighbors b t s" for b t by (simp add: in_neighbors_def)
  with save(1) load h nb m(4) d0(3) show ?thesis by auto
qed

lemma save_then_load_witness:
  "\<exists>s fs' s'. graph_save s [] = Ok fs' \<and> graph_load ''d'' fs' = Ok s' \<and> has_edge 1 2 SUPPORTS s' = Ok True \<and>
     has_edge 2 3 SUPPORTS s' = Ok False"
proof -
  let ?s = "append_edge 1 2 SUPPORTS 9 (graph_with_path ''d'' 4)"
  have g: "grown ?s"
    by (intro grown_example) (simp_all add: grown_example_simps)
  have p: "gs_base_path ?s = ''d''"
    by (simp add: append_edge_touched touched_def Let_def graph_with_path_def add_to_new_delta_def)
  have h: "has_edge a b SUPPORTS ?s = Ok ((a, b) = (1, 2))" for a b
    by (auto simp: has_edge_newest base_has_edge_def)
  have "csr_load_from_files (gs_base_path ?s) t n [] = None" for t n by (simp add: csr_load_from_files_def)
  moreover have "gs_base_path ?s \<noteq> []" "length (newest_first ?s) < 2 ^ 32" by (simp_all add: p)
  ultimately obtain fs' s' where "graph_save ?s [] = Ok fs'" "graph_load (gs_base_path ?s) fs' = Ok s'"
    "\<forall>a b t. has_edge a b t s' = has_edge a b t ?s"
    using save_then_load [OF g, of "[]"] by metis
  then show ?thesis using h [of 1 2] h [of 2 3] unfolding p by (intro exI [of _ ?s] exI [of _ fs'] exI [of _ s']) simp
qed

section \<open>Layer files\<close>

lemma edge_attr_memory_length [simp]: "length (edge_attr_memory a) = EDGE_ATTR_SIZE"
  by (simp add: edge_attr_memory_def EDGE_ATTR_SIZE_def)

lemma edge_attr_read_memory [simp]: "edge_attr_read (edge_attr_memory a) = a"
  by (simp add: edge_attr_read_def edge_attr_memory_def)

lemma read_chunks:
  assumes "\<And>x. length (f x) = n" "0 < n" "\<And>x. g (f x) = x"
  shows "map (\<lambda>i. g (take n (drop (i * n) (concat (map f xs))))) [0..<length (concat (map f xs)) div n] = xs"
proof -
  have l: "length (concat (map f xs)) = length xs * n" using assms(1) by (induction xs) simp_all
  have "take n (drop (i * n) (concat (map f xs))) = f (xs ! i)" if "i < length xs" for i
    using that
  proof (induction xs arbitrary: i)
    case (Cons x xs)
    then show ?case using assms(1) by (cases i) simp_all
  qed simp
  then show ?thesis using assms(2,3) by (intro nth_equalityI) (simp_all add: l)
qed

lemma edges_file_suffix [simp]: "edges_file t x = edges_file t y \<longleftrightarrow> x = y"
  by (simp add: edges_file_def)

text \<open>
  A layer that is written and read back is the same layer with the node count the reader has in its
  manifest; when that count has changed since the layer was built the layer has no view, so that none of
  its edges can be found.
\<close>

theorem csr_files_roundtrip:
  "csr_load_from_files dir t n (csr_write_to_files dir t l fs) =
     Some (l\<lparr>cl_node_count := n, cl_edge_count := of_nat (length (cl_attrs l))\<rparr>) \<and>
   (csr_view (the (csr_load_from_files dir t n (csr_write_to_files dir t l fs))) = None \<longleftrightarrow>
     length (cl_offsets l) \<noteq> unat (n + 1))"
proof -
  have w: "snd (edge_attr_write_to_bytes a (replicate EDGE_ATTR_SIZE 0)) = edge_attr_memory a" for a
    by (simp add: edge_attr_write_to_bytes_def)
  have attrs: "map (\<lambda>i. edge_attr_read (take EDGE_ATTR_SIZE (drop (i * EDGE_ATTR_SIZE) (concat (map edge_attr_memory as)))))
      [0..<length (concat (map edge_attr_memory as)) div EDGE_ATTR_SIZE] = as" for as
    by (rule read_chunks) (simp_all add: EDGE_ATTR_SIZE_def [symmetric], simp add: EDGE_ATTR_SIZE_def)
  have offsets: "map (\<lambda>i. u64_at (i * 8) (concat (map u64_le os))) [0..<length (concat (map u64_le os)) div 8] = os" for os
    using read_chunks [of u64_le 8 le_u64 os] by simp
  have "csr_load_from_files dir t n (csr_write_to_files dir t l fs) =
     Some (l\<lparr>cl_node_count := n, cl_edge_count := of_nat (length (cl_attrs l))\<rparr>)"
    by (simp add: csr_load_from_files_def csr_write_to_files_def Let_def w attrs offsets)
  then show ?thesis by (simp add: csr_view_def csr_view_new_unchecked_def)
qed

end
