(* ===== verification/Cas_Files.thy ===== *)
theory Cas_Files
  imports Atom_Body
begin

text \<open>
  The files of the content-addressed store (\<open>src/cas/io.rs\<close>): the Bloom filter, segment files
  with their records, and index files. All files of a store are in one directory, which is a map
  from file names to bytes; the only I/O errors are missing files and early ends. A segment keeps
  a file handle whose position moves with every read and write, as that of an operating system
  file does; a file is not removed while a segment has it open. Sizes and offsets that the code
  computes from stored values are 64-bit words that wrap.
\<close>

section \<open>Errors and constants\<close>

datatype IoKind = KindNotFound | KindUnexpectedEof | KindNotConnected | KindOther string

datatype CasIoError =
    CioIo IoKind
  | CioCrcMismatch u32 u32
  | CioInvalidMagic u32 u32
  | CioRecordNotFound u32 u64
  | CioIndexEntryNotFound AtomId
  | CioSegmentFull u32 u64 u64
  | CioMmapError string
  | CioInvalidBounds u64 u64 u64
  | CioCorruptedRecord u64 string
  | CioCompactionError string
  | CioIndexStale u32
  | CioBufferTooSmall nat nat
  | CioAlignmentError nat nat
  | CioCas CasError

type_synonym 'a io = "(CasIoError, 'a) res"
type_synonym cas_files = "(string, bytes) hmap"

definition DEFAULT_SEGMENT_SIZE_LIMIT :: u64 where "DEFAULT_SEGMENT_SIZE_LIMIT = 64 * 1024 * 1024"
definition RECORD_ALIGNMENT :: nat where "RECORD_ALIGNMENT = 16"
definition INDEX_MAGIC :: u32 where "INDEX_MAGIC = 0x49445831"
definition INDEX_VERSION :: u16 where "INDEX_VERSION = 0x0101"
definition INDEX_ENTRY_SIZE :: nat where "INDEX_ENTRY_SIZE = 24"
definition INDEX_HEADER_SIZE :: nat where "INDEX_HEADER_SIZE = 12"
definition BLOOM_BITS_PER_ENTRY :: nat where "BLOOM_BITS_PER_ENTRY = 10"
definition BLOOM_HASH_FUNCTIONS :: nat where "BLOOM_HASH_FUNCTIONS = 7"
definition MIN_SEGMENT_SIZE_FOR_COMPACTION :: u64 where "MIN_SEGMENT_SIZE_FOR_COMPACTION = 1024 * 1024"
definition SEGMENT_PREFIX :: string where "SEGMENT_PREFIX = ''seg_''"
definition SEGMENT_EXTENSION :: string where "SEGMENT_EXTENSION = ''dat''"
definition INDEX_EXTENSION :: string where "INDEX_EXTENSION = ''idx''"

text \<open>\<open>seg_{:05}.dat\<close> and \<open>seg_{:05}.idx\<close>.\<close>

definition dec5 :: "nat \<Rightarrow> string" where
  "dec5 n = replicate (5 - length (dec n)) CHR ''0'' @ dec n"

definition seg_file :: "u32 \<Rightarrow> string" where
  "seg_file seg_id = SEGMENT_PREFIX @ dec5 (unat seg_id) @ ''.'' @ SEGMENT_EXTENSION"

definition idx_file :: "u32 \<Rightarrow> string" where
  "idx_file seg_id = SEGMENT_PREFIX @ dec5 (unat seg_id) @ ''.'' @ INDEX_EXTENSION"

section \<open>Bloom filter\<close>

record BloomFilter =
  bf_bits :: "u64 list"
  bf_num_bits :: nat

definition bloom_new :: "nat \<Rightarrow> BloomFilter" where
  "bloom_new expected_elements =
     (let num_bits = expected_elements * BLOOM_BITS_PER_ENTRY
      in \<lparr>bf_bits = replicate ((num_bits + 63) div 64) 0, bf_num_bits = num_bits\<rparr>)"

definition bloom_from_bits :: "u64 list \<Rightarrow> nat \<Rightarrow> BloomFilter" where
  "bloom_from_bits bits num_bits = \<lparr>bf_bits = bits, bf_num_bits = num_bits\<rparr>"

definition bloom_hash :: "AtomId \<Rightarrow> nat \<Rightarrow> nat" where
  "bloom_hash atom_id i =
     unat (le_u32 (map (\<lambda>j. atom_id ! (((if i < 4 then i * 8 else i * 7) + j) mod 32)) [0..<4]))"

text \<open>Without bits the remainder is a division by zero.\<close>

definition hash_positions :: "BloomFilter \<Rightarrow> AtomId \<Rightarrow> ('e, nat list) res" where
  "hash_positions f atom_id =
     (if bf_num_bits f = 0 then Panic
      else Ok (map (\<lambda>i. bloom_hash atom_id i mod bf_num_bits f) [0..<BLOOM_HASH_FUNCTIONS]))"

definition bloom_set :: "nat \<Rightarrow> u64 list \<Rightarrow> u64 list" where
  "bloom_set pos bits =
     (if pos div 64 < length bits then bits[pos div 64 := bits ! (pos div 64) OR push_bit (pos mod 64) 1] else bits)"

definition bloom_insert :: "AtomId \<Rightarrow> BloomFilter \<Rightarrow> ('e, BloomFilter) res" where
  "bloom_insert atom_id f =
     bind_res (hash_positions f atom_id) (\<lambda>positions.
       Ok (f\<lparr>bf_bits := fold bloom_set positions (bf_bits f)\<rparr>))"

definition bloom_might_contain :: "BloomFilter \<Rightarrow> AtomId \<Rightarrow> ('e, bool) res" where
  "bloom_might_contain f atom_id =
     bind_res (hash_positions f atom_id) (\<lambda>positions.
       Ok (list_all (\<lambda>pos. pos div 64 < length (bf_bits f) \<and>
              bf_bits f ! (pos div 64) AND push_bit (pos mod 64) 1 \<noteq> 0) positions))"

definition bloom_serialized_size :: "BloomFilter \<Rightarrow> nat" where
  "bloom_serialized_size f = length (bf_bits f) * 8"

definition bloom_to_bytes :: "BloomFilter \<Rightarrow> bytes" where
  "bloom_to_bytes f = concat (map u64_le (bf_bits f))"

definition bloom_from_bytes :: "bytes \<Rightarrow> nat \<Rightarrow> BloomFilter" where
  "bloom_from_bytes bs num_bits =
     (let num_words = (num_bits + 63) div 64;
          bits = map (\<lambda>i. u64_at (i * 8) bs) [0..<length bs div 8];
          remaining = length bs mod 8
      in \<lparr>bf_bits = (if remaining > 0 \<and> length bits < num_words
                     then bits @ [le_u64 (drop (length bs - remaining) bs)] else bits),
          bf_num_bits = num_bits\<rparr>)"

section \<open>Index entries\<close>

text \<open>The fingerprint is a floating-point number in the code, compared by its total order, which
  is that of the integers with the bits below the sign flipped for negative numbers.\<close>

record CasIndexEntry =
  ci_fp64 :: u64
  ci_seg_offset :: u64
  ci_body_len :: u32
  ci_flags :: u32

definition total_cmp_key :: "u64 \<Rightarrow> int" where
  "total_cmp_key bits = sint (if bit bits 63 then bits XOR 0x7FFFFFFFFFFFFFFF else bits)"

definition fp64_of :: "AtomId \<Rightarrow> u64" where
  "fp64_of atom_id = le_u64 (take 8 atom_id)"

definition index_entry_new :: "AtomId \<Rightarrow> u64 \<Rightarrow> u64 \<Rightarrow> u16 \<Rightarrow> CasIndexEntry" where
  "index_entry_new atom_id seg_offset body_len flags =
     \<lparr>ci_fp64 = fp64_of atom_id, ci_seg_offset = seg_offset, ci_body_len = ucast body_len,
      ci_flags = ucast flags\<rparr>"

definition index_entry_memory :: "CasIndexEntry \<Rightarrow> bytes" where
  "index_entry_memory e = u64_le (ci_fp64 e) @ u64_le (ci_seg_offset e) @ u32_le (ci_body_len e) @
     u32_le (ci_flags e)"

definition index_entry_read :: "bytes \<Rightarrow> CasIndexEntry" where
  "index_entry_read bs =
     \<lparr>ci_fp64 = u64_at 0 bs, ci_seg_offset = u64_at 8 bs, ci_body_len = u32_at 16 bs,
      ci_flags = u32_at 20 bs\<rparr>"

definition index_entry_from_bytes :: "bytes \<Rightarrow> CasIndexEntry io" where
  "index_entry_from_bytes bs =
     (if length bs < INDEX_ENTRY_SIZE then Err (CioBufferTooSmall INDEX_ENTRY_SIZE (length bs))
      else Ok (index_entry_read bs))"

definition index_entry_write_to_bytes :: "CasIndexEntry \<Rightarrow> bytes \<Rightarrow> bytes io" where
  "index_entry_write_to_bytes e bs =
     (if length bs < INDEX_ENTRY_SIZE then Err (CioBufferTooSmall INDEX_ENTRY_SIZE (length bs))
      else Ok (index_entry_memory e @ drop INDEX_ENTRY_SIZE bs))"

definition sort_index_entries :: "CasIndexEntry list \<Rightarrow> CasIndexEntry list" where
  "sort_index_entries es = sort_key (\<lambda>e. total_cmp_key (ci_fp64 e)) es"

section \<open>Index header\<close>

record IndexFileHeader =
  ih_magic :: u32
  ih_version :: u16
  ih_entry_count :: u16
  ih_reserved :: u32

definition index_header_new :: "u16 \<Rightarrow> IndexFileHeader" where
  "index_header_new entry_count =
     \<lparr>ih_magic = INDEX_MAGIC, ih_version = INDEX_VERSION, ih_entry_count = entry_count, ih_reserved = 0\<rparr>"

definition index_header_memory :: "IndexFileHeader \<Rightarrow> bytes" where
  "index_header_memory h = u32_le (ih_magic h) @ u16_le (ih_version h) @ u16_le (ih_entry_count h) @
     u32_le (ih_reserved h)"

definition index_header_from_bytes :: "bytes \<Rightarrow> IndexFileHeader io" where
  "index_header_from_bytes bs =
     (if length bs < INDEX_HEADER_SIZE then Err (CioBufferTooSmall INDEX_HEADER_SIZE (length bs))
      else Ok \<lparr>ih_magic = u32_at 0 bs, ih_version = u16_at 4 bs, ih_entry_count = u16_at 6 bs,
               ih_reserved = u32_at 8 bs\<rparr>)"

definition index_header_is_valid :: "IndexFileHeader \<Rightarrow> bool" where
  "index_header_is_valid h \<longleftrightarrow> ih_magic h = INDEX_MAGIC \<and> ih_version h = INDEX_VERSION"

section \<open>Segment files\<close>

record SegmentFile =
  sg_seg_id :: u32
  sg_pos :: nat
  sg_current_size :: u64
  sg_size_limit :: u64
  sg_record_count :: u32

definition seg_create :: "u32 \<Rightarrow> u64 option \<Rightarrow> cas_files \<Rightarrow> SegmentFile \<times> cas_files" where
  "seg_create seg_id size_limit fs =
     (let fs = (if map_of fs (seg_file seg_id) = None then AList.update (seg_file seg_id) [] fs else fs);
          size = length (get_or [] fs (seg_file seg_id))
      in (\<lparr>sg_seg_id = seg_id, sg_pos = size, sg_current_size = of_nat size,
           sg_size_limit = (case size_limit of None \<Rightarrow> DEFAULT_SEGMENT_SIZE_LIMIT | Some l \<Rightarrow> l),
           sg_record_count = 0\<rparr>, fs))"

definition seg_open :: "u32 \<Rightarrow> cas_files \<Rightarrow> SegmentFile io" where
  "seg_open seg_id fs =
     (case map_of fs (seg_file seg_id) of
        None \<Rightarrow> Err (CioIo KindNotFound)
      | Some bs \<Rightarrow> Ok \<lparr>sg_seg_id = seg_id, sg_pos = length bs, sg_current_size = of_nat (length bs),
                      sg_size_limit = DEFAULT_SEGMENT_SIZE_LIMIT, sg_record_count = 0\<rparr>)"

definition can_accept :: "u64 \<Rightarrow> SegmentFile \<Rightarrow> bool" where
  "can_accept record_size s \<longleftrightarrow> sg_current_size s + record_size \<le> sg_size_limit s"

definition padded_size :: "u64 \<Rightarrow> u64" where
  "padded_size base_size = (base_size + 15) AND NOT 15"

definition cas_record_size :: "u64 \<Rightarrow> u64" where
  "cas_record_size body_len = 64 + padded_size body_len + padded_size 4"

text \<open>Writing at a position of a file.\<close>

definition write_at :: "nat \<Rightarrow> bytes \<Rightarrow> bytes \<Rightarrow> bytes" where
  "write_at pos bs content =
     take pos content @ replicate (pos - length content) 0 @ bs @ drop (pos + length bs) content"

text \<open>What one record adds: the header, the padded body, and the padded checksum of the body.\<close>

definition record_bytes :: "u32 \<Rightarrow> AtomId \<Rightarrow> bytes \<Rightarrow> u16 \<Rightarrow> bytes" where
  "record_bytes seg_id atom_id body flags =
     (let body_len = of_nat (length body) :: u64
      in cas_header_memory (cas_header_new atom_id body_len seg_id flags) @ body @
         replicate (unat (padded_size body_len) - length body) 0 @
         u32_le (crc32 body) @ replicate (unat (padded_size 4) - 4) 0)"

definition append_record :: "AtomId \<Rightarrow> bytes \<Rightarrow> u16 \<Rightarrow> SegmentFile \<Rightarrow> cas_files \<Rightarrow>
    (SegmentFile \<times> cas_files \<times> u64 \<times> u64) io" where
  "append_record atom_id body flags s fs =
     (let body_len = of_nat (length body) :: u64;
          record_size = cas_record_size body_len;
          current = sg_current_size s
      in if current + record_size > sg_size_limit s
         then Err (CioSegmentFull (sg_seg_id s) current (sg_size_limit s))
         else
           (let bs = record_bytes (sg_seg_id s) atom_id body flags;
                f = seg_file (sg_seg_id s)
            in Ok (s\<lparr>sg_pos := sg_pos s + length bs, sg_current_size := current + record_size,
                     sg_record_count := sg_record_count s + 1\<rparr>,
                   AList.update f (write_at (sg_pos s) bs (get_or [] fs f)) fs, current, body_len)))"

text \<open>\<open>seek\<close> and \<open>read_exact\<close>: the position afterwards and the bytes, if they are there.\<close>

definition read_at :: "nat \<Rightarrow> nat \<Rightarrow> bytes \<Rightarrow> nat \<times> bytes io" where
  "read_at pos n content =
     (if pos + n \<le> length content then (pos + n, Ok (take n (drop pos content)))
      else (max pos (length content), Err (CioIo KindUnexpectedEof)))"

text \<open>Reading a record: the position of the handle afterwards, and the result. A length above
  \<open>2 ^ 63\<close> is refused by the allocator's interface with a panic. The checks of the header after
  it has been parsed are the code's, though the parser has made them already.\<close>

definition read_body :: "u64 \<Rightarrow> CasRecordHeader \<Rightarrow> SegmentFile \<Rightarrow> bytes \<Rightarrow> nat \<times> (CasRecordHeader \<times> bytes) io" where
  "read_body offset header s content =
     (let body_len = ch_body_len header;
          body_offset = offset + 64;
          pos = unat offset + 64
      in if body_offset + body_len > sg_current_size s
         then (pos, Err (CioInvalidBounds body_offset body_len (sg_current_size s)))
         else if unat body_len \<ge> 2 ^ 63 then (pos, Panic)
         else
           (case read_at (unat body_offset) (unat body_len) content of
              (pos, Panic) \<Rightarrow> (pos, Panic)
            | (pos, Err e) \<Rightarrow> (pos, Err e)
            | (pos, Ok body) \<Rightarrow>
                (let crc_offset = body_offset + padded_size body_len in
                 if crc_offset + 4 > sg_current_size s
                 then (pos, Err (CioInvalidBounds crc_offset 4 (sg_current_size s)))
                 else
                   (case read_at (unat crc_offset) 4 content of
                      (pos, Panic) \<Rightarrow> (pos, Panic)
                    | (pos, Err e) \<Rightarrow> (pos, Err e)
                    | (pos, Ok crc_bytes) \<Rightarrow>
                        (pos, if le_u32 crc_bytes \<noteq> crc32 body
                              then Err (CioCrcMismatch (le_u32 crc_bytes) (crc32 body))
                              else Ok (header, body))))))"

definition read_record :: "u64 \<Rightarrow> SegmentFile \<Rightarrow> cas_files \<Rightarrow> nat \<times> (CasRecordHeader \<times> bytes) io" where
  "read_record offset s fs =
     (let content = get_or [] fs (seg_file (sg_seg_id s)) in
      if offset + 64 > sg_current_size s
      then (sg_pos s, Err (CioInvalidBounds offset 64 (sg_current_size s)))
      else
        (case read_at (unat offset) CAS_HEADER_SIZE content of
           (pos, Panic) \<Rightarrow> (pos, Panic)
         | (pos, Err e) \<Rightarrow> (pos, Err e)
         | (pos, Ok header_bytes) \<Rightarrow>
             (case cas_header_from_bytes header_bytes of
                Inl e \<Rightarrow> (pos, Err (CioCas e))
              | Inr header \<Rightarrow>
                  if \<not> cas_validate_crc header then (pos, Err (CioCorruptedRecord offset ''Header CRC mismatch''))
                  else if \<not> cas_validate_magic header then (pos, Err (CioInvalidMagic RECORD_MAGIC (ch_magic header)))
                  else read_body offset header s content)))"

text \<open>The segment after a read, and the result.\<close>

definition seg_read :: "u64 \<Rightarrow> SegmentFile \<Rightarrow> cas_files \<Rightarrow> SegmentFile \<times> (CasRecordHeader \<times> bytes) io" where
  "seg_read offset s fs = (case read_record offset s fs of (pos, r) \<Rightarrow> (s\<lparr>sg_pos := pos\<rparr>, r))"

section \<open>Index files\<close>

record IndexFile =
  xf_seg_id :: u32
  xf_entries :: "CasIndexEntry list"
  xf_bloom :: BloomFilter
  xf_entry_count :: u32
  xf_is_dirty :: bool

definition index_create :: "u32 \<Rightarrow> IndexFile" where
  "index_create seg_id =
     \<lparr>xf_seg_id = seg_id, xf_entries = [], xf_bloom = bloom_new 1024, xf_entry_count = 0, xf_is_dirty = False\<rparr>"

primrec read_index_entries :: "nat \<Rightarrow> bytes \<Rightarrow> (CasIndexEntry list \<times> bytes) io" where
  "read_index_entries 0 bs = Ok ([], bs)"
| "read_index_entries (Suc n) bs =
     (if length bs < INDEX_ENTRY_SIZE then Err (CioIo KindUnexpectedEof)
      else bind_res (read_index_entries n (drop INDEX_ENTRY_SIZE bs)) (\<lambda>(es, rest).
             Ok (index_entry_read (take INDEX_ENTRY_SIZE bs) # es, rest)))"

definition index_load :: "bytes \<Rightarrow> IndexFile \<Rightarrow> IndexFile io" where
  "index_load bs x =
     (if length bs < INDEX_HEADER_SIZE then Err (CioIo KindUnexpectedEof)
      else
        bind_res (index_header_from_bytes (take INDEX_HEADER_SIZE bs)) (\<lambda>header.
          if \<not> index_header_is_valid header then Err (CioInvalidMagic INDEX_MAGIC (ih_magic header))
          else
            bind_res (read_index_entries (unat (ih_entry_count header)) (drop INDEX_HEADER_SIZE bs)) (\<lambda>(entries, rest).
              if length rest < 4 then Err (CioIo KindUnexpectedEof)
              else
                (let bloom_size = unat (le_u32 (take 4 rest));
                     rest = drop 4 rest
                 in if length rest < bloom_size then Err (CioIo KindUnexpectedEof)
                    else Ok (x\<lparr>xf_entries := sort_index_entries entries,
                               xf_bloom := bloom_from_bytes (take bloom_size rest) (bloom_size * 8),
                               xf_entry_count := ucast (ih_entry_count header)\<rparr>)))))"

definition index_open :: "u32 \<Rightarrow> cas_files \<Rightarrow> IndexFile io" where
  "index_open seg_id fs =
     (case map_of fs (idx_file seg_id) of
        None \<Rightarrow> Ok (index_create seg_id)
      | Some bs \<Rightarrow> index_load bs (index_create seg_id))"

definition index_insert :: "AtomId \<Rightarrow> u64 \<Rightarrow> u64 \<Rightarrow> u16 \<Rightarrow> IndexFile \<Rightarrow> IndexFile io" where
  "index_insert atom_id seg_offset body_len flags x =
     bind_res (bloom_insert atom_id (xf_bloom x)) (\<lambda>bloom.
       Ok (x\<lparr>xf_entries := xf_entries x @ [index_entry_new atom_id seg_offset body_len flags],
             xf_bloom := bloom, xf_entry_count := xf_entry_count x + 1, xf_is_dirty := True\<rparr>))"

primrec index_batch_fill :: "(AtomId \<times> u64 \<times> u64 \<times> u16) list \<Rightarrow> CasIndexEntry list \<times> BloomFilter \<Rightarrow>
    (CasIndexEntry list \<times> BloomFilter) io" where
  "index_batch_fill [] st = Ok st"
| "index_batch_fill (d # ds) st =
     (case d of (atom_id, seg_offset, body_len, flags) \<Rightarrow>
        bind_res (bloom_insert atom_id (snd st)) (\<lambda>bloom.
          index_batch_fill ds (fst st @ [index_entry_new atom_id seg_offset body_len flags], bloom)))"

definition index_batch_insert :: "(AtomId \<times> u64 \<times> u64 \<times> u16) list \<Rightarrow> IndexFile \<Rightarrow> IndexFile io" where
  "index_batch_insert entries_data x =
     bind_res (index_batch_fill entries_data (xf_entries x, xf_bloom x)) (\<lambda>(entries, bloom).
       Ok (x\<lparr>xf_entries := entries, xf_bloom := bloom,
             xf_entry_count := xf_entry_count x + of_nat (length entries_data), xf_is_dirty := True\<rparr>))"

definition index_sort_entries :: "IndexFile \<Rightarrow> IndexFile" where
  "index_sort_entries x = x\<lparr>xf_entries := sort_index_entries (xf_entries x)\<rparr>"

text \<open>The binary search between \<open>left\<close> and \<open>right\<close>.\<close>

function index_search :: "CasIndexEntry list \<Rightarrow> int \<Rightarrow> nat \<Rightarrow> nat \<Rightarrow> CasIndexEntry option" where
  "index_search es target left right =
     (if left < right then
        (let mid = left + (right - left) div 2;
             key = total_cmp_key (ci_fp64 (es ! mid))
         in if key < target then index_search es target (mid + 1) right
            else if key > target then index_search es target left mid
            else Some (es ! mid))
      else None)"
  by pat_completeness auto
termination by (relation "measure (\<lambda>(_, _, left, right). right - left)") auto

declare index_search.simps [simp del]

definition index_find :: "AtomId \<Rightarrow> IndexFile \<Rightarrow> CasIndexEntry option io" where
  "index_find atom_id x =
     bind_res (bloom_might_contain (xf_bloom x) atom_id) (\<lambda>maybe.
       Ok (if \<not> maybe then None
           else index_search (xf_entries x) (total_cmp_key (fp64_of atom_id)) 0 (length (xf_entries x))))"

definition index_bytes :: "IndexFile \<Rightarrow> bytes" where
  "index_bytes x =
     index_header_memory (index_header_new (of_nat (length (xf_entries x)))) @
     concat (map index_entry_memory (xf_entries x)) @
     u32_le (of_nat (length (bloom_to_bytes (xf_bloom x)))) @ bloom_to_bytes (xf_bloom x)"

definition index_flush :: "IndexFile \<Rightarrow> cas_files \<Rightarrow> IndexFile \<times> cas_files" where
  "index_flush x fs =
     (if \<not> xf_is_dirty x then (x, fs)
      else (x\<lparr>xf_is_dirty := False\<rparr>, AList.update (idx_file (xf_seg_id x)) (index_bytes x) fs))"

end
