(* ===== verification/Cas_Store.thy ===== *)
theory Cas_Store
  imports Cas_Files "HOL-Library.Monad_Syntax"
begin

text \<open>
  The content-addressed store on its files (\<open>src/cas/io.rs\<close>): the names of segments, the writer
  with its rotation from segment to segment, the reader that opens every segment of the directory,
  the iterators over the records of segments, the compactor, and the store with its write-through
  cache. An operation returns the files (and its own state) beside its result, because a failed
  operation may have changed them. The handles of a reader or of a source of a compaction are
  never written through, and every read seeks first, so their positions are not kept. Mapping a
  file into memory has no effect the code uses.
\<close>

section \<open>Segment names\<close>

text \<open>\<open>parse::<u32>()\<close>: an optional plus sign, then at least one decimal digit, no overflow.\<close>

definition parse_u32 :: "string \<Rightarrow> u32 option" where
  "parse_u32 s =
     (let digits = (if s \<noteq> [] \<and> hd s = CHR ''+'' then tl s else s)
      in if digits = [] \<or> \<not> list_all is_dec_digit digits \<or> dec_value digits \<ge> 2 ^ 32 then None
         else Some (of_nat (dec_value digits)))"

definition starts_with :: "string \<Rightarrow> string \<Rightarrow> bool" where
  "starts_with s p \<longleftrightarrow> take (length p) s = p"

definition ends_with :: "string \<Rightarrow> string \<Rightarrow> bool" where
  "ends_with s p \<longleftrightarrow> length p \<le> length s \<and> drop (length s - length p) s = p"

definition strip_suffix :: "string \<Rightarrow> string \<Rightarrow> string option" where
  "strip_suffix s p = (if ends_with s p then Some (take (length s - length p) s) else None)"

definition seg_id_of_name :: "string \<Rightarrow> u32 option" where
  "seg_id_of_name name =
     (if starts_with name SEGMENT_PREFIX \<and> ends_with name SEGMENT_EXTENSION
      then Option.bind (strip_suffix (drop (length SEGMENT_PREFIX) name) (''.'' @ SEGMENT_EXTENSION)) parse_u32
      else None)"

section \<open>Writer\<close>

record CasWriter =
  cw_segment :: SegmentFile
  cw_index :: IndexFile
  cw_size_limit :: u64
  cw_next_seg_id :: u32

definition latest_step :: "string \<times> bytes \<Rightarrow> u32 \<times> u64 \<Rightarrow> u32 \<times> u64" where
  "latest_step entry best =
     (case seg_id_of_name (fst entry) of
        None \<Rightarrow> best
      | Some seg_id \<Rightarrow>
          (let size = of_nat (length (snd entry)) in
           if seg_id \<ge> fst best \<and> (seg_id > fst best \<or> (seg_id = fst best \<and> size > snd best))
           then (seg_id, size) else best))"

definition find_latest_segment :: "cas_files \<Rightarrow> u32 \<times> u64" where
  "find_latest_segment fs = fold latest_step fs (0, 0)"

definition writer_new :: "u64 option \<Rightarrow> cas_files \<Rightarrow> cas_files \<times> CasWriter io" where
  "writer_new size_limit fs =
     (let limit = (case size_limit of None \<Rightarrow> DEFAULT_SEGMENT_SIZE_LIMIT | Some l \<Rightarrow> l);
          seg_id = fst (find_latest_segment fs);
          (segment, fs) = seg_create seg_id (Some limit) fs
      in (fs, bind_res (index_open seg_id fs) (\<lambda>index.
            Ok \<lparr>cw_segment = segment, cw_index = index, cw_size_limit = limit,
                cw_next_seg_id = seg_id + 1\<rparr>)))"

definition rotate_segment :: "CasWriter \<Rightarrow> cas_files \<Rightarrow> CasWriter \<times> cas_files" where
  "rotate_segment w fs =
     (let (_, fs) = index_flush (cw_index w) fs;
          new_seg_id = cw_next_seg_id w;
          (segment, fs) = seg_create new_seg_id (Some (cw_size_limit w)) fs
      in (w\<lparr>cw_next_seg_id := new_seg_id + 1, cw_segment := segment, cw_index := index_create new_seg_id\<rparr>, fs))"

definition write_record_with_flags :: "AtomId \<Rightarrow> bytes \<Rightarrow> u16 \<Rightarrow> CasWriter \<Rightarrow> cas_files \<Rightarrow>
    (CasWriter \<times> cas_files) \<times> (u32 \<times> u64 \<times> u64) io" where
  "write_record_with_flags atom_id body flags w fs =
     (let record_size = cas_record_size (of_nat (length body));
          (w, fs) = (if \<not> can_accept record_size (cw_segment w) then rotate_segment w fs else (w, fs));
          seg_id = sg_seg_id (cw_segment w)
      in (case append_record atom_id body flags (cw_segment w) fs of
            Panic \<Rightarrow> ((w, fs), Panic)
          | Err e \<Rightarrow> ((w, fs), Err e)
          | Ok (segment, fs, offset, body_len) \<Rightarrow>
              (let w = w\<lparr>cw_segment := segment\<rparr> in
               case index_insert atom_id offset body_len flags (cw_index w) of
                 Panic \<Rightarrow> ((w, fs), Panic)
               | Err e \<Rightarrow> ((w, fs), Err e)
               | Ok index \<Rightarrow> ((w\<lparr>cw_index := index\<rparr>, fs), Ok (seg_id, offset, body_len)))))"

definition write_record :: "AtomId \<Rightarrow> bytes \<Rightarrow> CasWriter \<Rightarrow> cas_files \<Rightarrow>
    (CasWriter \<times> cas_files) \<times> (u32 \<times> u64 \<times> u64) io" where
  "write_record atom_id body w fs = write_record_with_flags atom_id body 0 w fs"

text \<open>\<open>flush\<close> and \<open>sync_all\<close>: the records are on disk already, the index is written.\<close>

definition writer_flush :: "CasWriter \<Rightarrow> cas_files \<Rightarrow> CasWriter \<times> cas_files" where
  "writer_flush w fs =
     (let (index, fs) = index_flush (cw_index w) fs in (w\<lparr>cw_index := index\<rparr>, fs))"

section \<open>Reader\<close>

record CasReader =
  cr_segments :: "(u32, SegmentFile) bmap"
  cr_indexes :: "(u32, IndexFile) bmap"

primrec discover_segments :: "string list \<Rightarrow> cas_files \<Rightarrow> CasReader \<Rightarrow> CasReader io" where
  "discover_segments [] fs r = Ok r"
| "discover_segments (name # names) fs r =
     (case seg_id_of_name name of
        None \<Rightarrow> discover_segments names fs r
      | Some seg_id \<Rightarrow>
          bind_res (seg_open seg_id fs) (\<lambda>segment.
          bind_res (index_open seg_id fs) (\<lambda>index.
            discover_segments names fs
              (r\<lparr>cr_segments := bm_insert seg_id segment (cr_segments r),
                 cr_indexes := bm_insert seg_id index (cr_indexes r)\<rparr>))))"

definition reader_new :: "cas_files \<Rightarrow> CasReader io" where
  "reader_new fs = discover_segments (map fst fs) fs \<lparr>cr_segments = [], cr_indexes = []\<rparr>"

primrec find_in_indexes :: "AtomId \<Rightarrow> (u32, IndexFile) bmap \<Rightarrow> CasReader \<Rightarrow> cas_files \<Rightarrow>
    (u32 \<times> u64 \<times> bytes) option io" where
  "find_in_indexes atom_id [] r fs = Ok None"
| "find_in_indexes atom_id (x # xs) r fs =
     bind_res (index_find atom_id (snd x)) (\<lambda>found.
       case found of
         None \<Rightarrow> find_in_indexes atom_id xs r fs
       | Some entry \<Rightarrow>
           (case map_of (cr_segments r) (fst x) of
              None \<Rightarrow> find_in_indexes atom_id xs r fs
            | Some segment \<Rightarrow>
                bind_res (snd (read_record (ci_seg_offset entry) segment fs)) (\<lambda>(header, body).
                  if ch_atom_id header = atom_id then Ok (Some (fst x, ci_seg_offset entry, body))
                  else find_in_indexes atom_id xs r fs)))"

definition find_record :: "AtomId \<Rightarrow> CasReader \<Rightarrow> cas_files \<Rightarrow> (u32 \<times> u64 \<times> bytes) option io" where
  "find_record atom_id r fs = find_in_indexes atom_id (cr_indexes r) r fs"

definition reader_read_record :: "u32 \<Rightarrow> u64 \<Rightarrow> CasReader \<Rightarrow> cas_files \<Rightarrow> (CasRecordHeader \<times> bytes) io" where
  "reader_read_record seg_id offset r fs =
     bind_res (ok_or (map_of (cr_segments r) seg_id) (CioIo KindNotFound)) (\<lambda>segment.
       snd (read_record offset segment fs))"

definition get_record_view :: "u32 \<Rightarrow> u64 \<Rightarrow> CasReader \<Rightarrow> cas_files \<Rightarrow> RecordView io" where
  "get_record_view seg_id offset r fs =
     bind_res (reader_read_record seg_id offset r fs) (\<lambda>_.
       Err (CioIo (KindOther ''RecordView with proper lifetime requires mmap support'')))"

primrec might_contain_in :: "AtomId \<Rightarrow> (u32, IndexFile) bmap \<Rightarrow> bool io" where
  "might_contain_in atom_id [] = Ok False"
| "might_contain_in atom_id (x # xs) =
     bind_res (index_find atom_id (snd x)) (\<lambda>found.
       if found \<noteq> None then Ok True else might_contain_in atom_id xs)"

definition might_contain :: "AtomId \<Rightarrow> CasReader \<Rightarrow> bool io" where
  "might_contain atom_id r = might_contain_in atom_id (cr_indexes r)"

primrec entries_atoms :: "CasIndexEntry list \<Rightarrow> SegmentFile \<Rightarrow> cas_files \<Rightarrow> AtomId list io" where
  "entries_atoms [] segment fs = Ok []"
| "entries_atoms (e # es) segment fs =
     bind_res (snd (read_record (ci_seg_offset e) segment fs)) (\<lambda>(header, _).
     bind_res (entries_atoms es segment fs) (\<lambda>atoms. Ok (ch_atom_id header # atoms)))"

primrec segments_atoms :: "(u32, SegmentFile) bmap \<Rightarrow> CasReader \<Rightarrow> cas_files \<Rightarrow> AtomId list io" where
  "segments_atoms [] r fs = Ok []"
| "segments_atoms (x # xs) r fs =
     bind_res (case map_of (cr_indexes r) (fst x) of
                 None \<Rightarrow> Ok []
               | Some index \<Rightarrow> entries_atoms (xf_entries index) (snd x) fs) (\<lambda>atoms.
     bind_res (segments_atoms xs r fs) (\<lambda>rest. Ok (atoms @ rest)))"

definition list_all_atoms :: "CasReader \<Rightarrow> cas_files \<Rightarrow> AtomId list io" where
  "list_all_atoms r fs = segments_atoms (cr_segments r) r fs"

definition segment_count :: "CasReader \<Rightarrow> nat" where
  "segment_count r = length (cr_segments r)"

section \<open>Iterators\<close>

record CasIterator =
  it_segment :: SegmentFile
  it_current_offset :: u64
  it_end_offset :: u64

definition iter_new :: "SegmentFile \<Rightarrow> CasIterator" where
  "iter_new segment = \<lparr>it_segment = segment, it_current_offset = 0, it_end_offset = sg_current_size segment\<rparr>"

definition iter_from_offset :: "SegmentFile \<Rightarrow> u64 \<Rightarrow> CasIterator" where
  "iter_from_offset segment start_offset =
     \<lparr>it_segment = segment, it_current_offset = start_offset, it_end_offset = sg_current_size segment\<rparr>"

fun skipped_error :: "CasIoError \<Rightarrow> bool" where
  "skipped_error (CioCorruptedRecord _ _) = True"
| "skipped_error (CioCrcMismatch _ _) = True"
| "skipped_error (CioInvalidMagic _ _) = True"
| "skipped_error _ = False"

type_synonym iter_item = "(CasRecordHeader \<times> bytes) io"

text \<open>The search for the next record may skip records without end only if offsets wrap; not
  returning is \<open>None\<close>, the end of the iteration is \<open>Some (it, None)\<close>.\<close>

partial_function (option) iter_next :: "cas_files \<Rightarrow> CasIterator \<Rightarrow> (CasIterator \<times> iter_item option) option" where
  "iter_next fs it =
     (if it_current_offset it \<ge> it_end_offset it then Some (it, None)
      else
        (case snd (read_record (it_current_offset it) (it_segment it) fs) of
           Panic \<Rightarrow> Some (it, Some Panic)
         | Ok hb \<Rightarrow>
             Some (it\<lparr>it_current_offset := it_current_offset it + cas_record_size (ch_body_len (fst hb))\<rparr>,
                   Some (Ok hb))
         | Err e \<Rightarrow>
             (let it = it\<lparr>it_current_offset := it_current_offset it + 64\<rparr> in
              if skipped_error e then iter_next fs it else Some (it, Some (Err e)))))"

record GlobalCasIterator =
  gi_segments :: "(u32, SegmentFile) bmap"
  gi_current_iterator :: "CasIterator option"

definition advance_to_next_segment :: "GlobalCasIterator \<Rightarrow> GlobalCasIterator" where
  "advance_to_next_segment g =
     (case gi_segments g of
        [] \<Rightarrow> g\<lparr>gi_current_iterator := None\<rparr>
      | x # xs \<Rightarrow> g\<lparr>gi_segments := xs, gi_current_iterator := Some (iter_new (snd x))\<rparr>)"

definition global_iter_new :: "(u32, SegmentFile) bmap \<Rightarrow> GlobalCasIterator" where
  "global_iter_new segments = advance_to_next_segment \<lparr>gi_segments = segments, gi_current_iterator = None\<rparr>"

definition global_step :: "cas_files \<Rightarrow> GlobalCasIterator \<Rightarrow> (GlobalCasIterator \<times> iter_item option) option" where
  "global_step fs g =
     (case gi_current_iterator g of
        None \<Rightarrow> Some (g, None)
      | Some it \<Rightarrow>
          do { (it, item) \<leftarrow> iter_next fs it; Some (g\<lparr>gi_current_iterator := Some it\<rparr>, item) })"

definition global_next :: "cas_files \<Rightarrow> GlobalCasIterator \<Rightarrow> (GlobalCasIterator \<times> iter_item option) option" where
  "global_next fs g =
     do { (g, item) \<leftarrow> global_step fs g;
          if item \<noteq> None then Some (g, item) else global_step fs (advance_to_next_segment g) }"

section \<open>Compaction\<close>

record Compactor =
  cp_size_limit :: u64

definition compactor_new :: "u64 option \<Rightarrow> Compactor" where
  "compactor_new size_limit =
     \<lparr>cp_size_limit = (case size_limit of None \<Rightarrow> DEFAULT_SEGMENT_SIZE_LIMIT | Some l \<Rightarrow> l)\<rparr>"

definition compaction_target_limit :: "Compactor \<Rightarrow> u64" where
  "compaction_target_limit c = max (cp_size_limit c) MIN_SEGMENT_SIZE_FOR_COMPACTION"

definition seg_unused :: "cas_files \<Rightarrow> u32 \<Rightarrow> bool" where
  "seg_unused fs seg_id \<longleftrightarrow> map_of fs (seg_file seg_id) = None \<and> map_of fs (idx_file seg_id) = None"

partial_function (option) next_unused_target_seg_id :: "cas_files \<Rightarrow> u32 \<Rightarrow> u32 option" where
  "next_unused_target_seg_id fs seg_id =
     (if seg_unused fs seg_id then Some seg_id else next_unused_target_seg_id fs (seg_id + 1))"

text \<open>The target of a compaction, with the files.\<close>

record CompactTarget =
  ct_seg_id :: u32
  ct_segment :: SegmentFile
  ct_index :: IndexFile
  ct_files :: cas_files

definition create_compaction_target :: "Compactor \<Rightarrow> u32 \<Rightarrow> cas_files \<Rightarrow> CompactTarget option" where
  "create_compaction_target c seg_id fs =
     do { actual_seg_id \<leftarrow> next_unused_target_seg_id fs seg_id;
          let (segment, fs) = seg_create actual_seg_id (Some (compaction_target_limit c)) fs;
          Some \<lparr>ct_seg_id = actual_seg_id, ct_segment = segment, ct_index = index_create actual_seg_id,
                ct_files = fs\<rparr> }"

definition flush_compaction_target :: "CompactTarget \<Rightarrow> CompactTarget" where
  "flush_compaction_target t =
     (let (index, fs) = index_flush (ct_index t) (ct_files t) in t\<lparr>ct_index := index, ct_files := fs\<rparr>)"

text \<open>The loop that writes one record: into the target, or, when that is full, into a new one.
  Not returning is \<open>None\<close>.\<close>

partial_function (option) compact_append :: "Compactor \<Rightarrow> AtomId \<Rightarrow> bytes \<Rightarrow> u16 \<Rightarrow> CompactTarget \<Rightarrow>
    (CompactTarget \<times> unit io) option" where
  "compact_append c atom_id body flags t =
     (case append_record atom_id body flags (ct_segment t) (ct_files t) of
        Panic \<Rightarrow> Some (t, Panic)
      | Ok (segment, fs, offset, body_len) \<Rightarrow>
          (let t = t\<lparr>ct_segment := segment, ct_files := fs\<rparr> in
           case index_insert atom_id offset body_len flags (ct_index t) of
             Panic \<Rightarrow> Some (t, Panic)
           | Err e \<Rightarrow> Some (t, Err e)
           | Ok index \<Rightarrow> Some (t\<lparr>ct_index := index\<rparr>, Ok ()))
      | Err e \<Rightarrow>
          (case e of
             CioSegmentFull _ _ _ \<Rightarrow>
               (let t = flush_compaction_target t in
                create_compaction_target c (ct_seg_id t + 1) (ct_files t) \<bind> compact_append c atom_id body flags)
           | _ \<Rightarrow> Some (t, Err e)))"

primrec compact_write :: "Compactor \<Rightarrow> (AtomId \<times> bytes \<times> u16) list \<Rightarrow> CompactTarget \<Rightarrow> u32 \<Rightarrow>
    (CompactTarget \<times> u32 io) option" where
  "compact_write c [] t written_count = Some (flush_compaction_target t, Ok written_count)"
| "compact_write c (d # ds) t written_count =
     (case d of (atom_id, body, flags) \<Rightarrow>
        do { (t, r) \<leftarrow> compact_append c atom_id body flags t;
             (case r of
                Panic \<Rightarrow> Some (t, Panic)
              | Err e \<Rightarrow> Some (t, Err e)
              | Ok _ \<Rightarrow> compact_write c ds t (written_count + 1)) })"

primrec open_sources :: "u32 list \<Rightarrow> cas_files \<Rightarrow> (SegmentFile \<times> IndexFile) list io" where
  "open_sources [] fs = Ok []"
| "open_sources (seg_id # ids) fs =
     bind_res (seg_open seg_id fs) (\<lambda>segment.
     bind_res (index_open seg_id fs) (\<lambda>index.
     bind_res (open_sources ids fs) (\<lambda>rest. Ok ((segment, index) # rest))))"

text \<open>The latest record of each atom: the index of its source, its offset, its body and flags.\<close>

type_synonym atom_records = "(AtomId, u32 \<times> u64 \<times> bytes \<times> u16) hmap"

primrec collect_entries :: "nat \<Rightarrow> SegmentFile \<Rightarrow> cas_files \<Rightarrow> CasIndexEntry list \<Rightarrow> atom_records \<Rightarrow>
    atom_records io" where
  "collect_entries seg_idx segment fs [] records = Ok records"
| "collect_entries seg_idx segment fs (e # es) records =
     (case snd (read_record (ci_seg_offset e) segment fs) of
        Panic \<Rightarrow> Panic
      | Err _ \<Rightarrow> collect_entries seg_idx segment fs es records
      | Ok (header, body) \<Rightarrow>
          (let atom_id = ch_atom_id header;
               should_replace =
                 (case map_of records atom_id of
                    None \<Rightarrow> True
                  | Some (existing_seg_id, existing_offset, _, _) \<Rightarrow>
                      seg_idx > unat existing_seg_id \<or>
                      (seg_idx = unat existing_seg_id \<and> ci_seg_offset e > existing_offset))
           in collect_entries seg_idx segment fs es
                (if should_replace
                 then AList.update atom_id (of_nat seg_idx, ci_seg_offset e, body, ch_flags header) records
                 else records)))"

primrec collect_records :: "nat \<Rightarrow> cas_files \<Rightarrow> (SegmentFile \<times> IndexFile) list \<Rightarrow> atom_records \<Rightarrow>
    atom_records io" where
  "collect_records seg_idx fs [] records = Ok records"
| "collect_records seg_idx fs (s # ss) records =
     bind_res (collect_entries seg_idx (fst s) fs (xf_entries (snd s)) records)
       (collect_records (seg_idx + 1) fs ss)"

definition sorted_records :: "atom_records \<Rightarrow> (AtomId \<times> bytes \<times> u16) list" where
  "sorted_records records =
     map (\<lambda>(atom_id, _, _, body, flags). (atom_id, body, flags))
       (sort_key (\<lambda>(_, source_seg, source_offset, _, _). [unat source_seg, unat source_offset]) records)"

text \<open>The files after the call, and its result; \<open>None\<close> if it does not return.\<close>

definition compact_segments :: "Compactor \<Rightarrow> u32 list \<Rightarrow> u32 \<Rightarrow> cas_files \<Rightarrow> (cas_files \<times> u32 io) option" where
  "compact_segments c source_seg_ids target_seg_id fs =
     (if source_seg_ids = [] then Some (fs, Err (CioCompactionError ''No source segments provided''))
      else
        (case open_sources source_seg_ids fs of
           Panic \<Rightarrow> Some (fs, Panic)
         | Err e \<Rightarrow> Some (fs, Err e)
         | Ok sources \<Rightarrow>
             do { t \<leftarrow> create_compaction_target c target_seg_id fs;
                  (case collect_records 0 (ct_files t) sources [] of
                     Panic \<Rightarrow> Some (ct_files t, Panic)
                   | Err e \<Rightarrow> Some (ct_files t, Err e)
                   | Ok records \<Rightarrow>
                       do { (t, r) \<leftarrow> compact_write c (sorted_records records) t 0; Some (ct_files t, r) }) }))"

text \<open>Compaction with links to superseded atoms.\<close>

type_synonym live_records = "(AtomId, u64 \<times> bytes \<times> u16) hmap"

primrec collect_live_entries :: "AtomId list \<Rightarrow> SegmentFile \<Rightarrow> cas_files \<Rightarrow> CasIndexEntry list \<Rightarrow> live_records \<Rightarrow>
    live_records io" where
  "collect_live_entries superseded segment fs [] records = Ok records"
| "collect_live_entries superseded segment fs (e # es) records =
     (case snd (read_record (ci_seg_offset e) segment fs) of
        Panic \<Rightarrow> Panic
      | Err _ \<Rightarrow> collect_live_entries superseded segment fs es records
      | Ok (header, body) \<Rightarrow>
          (let atom_id = ch_atom_id header in
           collect_live_entries superseded segment fs es
             (if atom_id \<in> set superseded \<or> cas_is_deleted header then records
              else AList.update atom_id (ci_seg_offset e, body, ucast (ci_flags e)) records)))"

primrec collect_live_records :: "AtomId list \<Rightarrow> cas_files \<Rightarrow> (SegmentFile \<times> IndexFile) list \<Rightarrow> live_records \<Rightarrow>
    live_records io" where
  "collect_live_records superseded fs [] records = Ok records"
| "collect_live_records superseded fs (s # ss) records =
     bind_res (collect_live_entries superseded (fst s) fs (xf_entries (snd s)) records)
       (collect_live_records superseded fs ss)"

definition sorted_live_records :: "live_records \<Rightarrow> (AtomId \<times> bytes \<times> u16) list" where
  "sorted_live_records records =
     map (\<lambda>(atom_id, _, body, flags). (atom_id, body, flags))
       (sort_key (\<lambda>(_, offset, _, _). offset) records)"

definition compact_with_supersedes :: "Compactor \<Rightarrow> u32 list \<Rightarrow> u32 \<Rightarrow> (AtomId, AtomId list) hmap \<Rightarrow> cas_files \<Rightarrow>
    (cas_files \<times> u32 io) option" where
  "compact_with_supersedes c source_seg_ids target_seg_id supersedes_map fs =
     (case open_sources source_seg_ids fs of
        Panic \<Rightarrow> Some (fs, Panic)
      | Err e \<Rightarrow> Some (fs, Err e)
      | Ok sources \<Rightarrow>
          (let superseded = hs_extend (concat (map snd supersedes_map)) [] in
           do { t \<leftarrow> create_compaction_target c target_seg_id fs;
                (case collect_live_records superseded (ct_files t) sources [] of
                   Panic \<Rightarrow> Some (ct_files t, Panic)
                 | Err e \<Rightarrow> Some (ct_files t, Err e)
                 | Ok records \<Rightarrow>
                     do { (t, r) \<leftarrow> compact_write c (sorted_live_records records) t 0; Some (ct_files t, r) }) }))"

definition delete_segments :: "u32 list \<Rightarrow> cas_files \<Rightarrow> cas_files" where
  "delete_segments seg_ids fs =
     fold (\<lambda>seg_id fs. AList.delete (idx_file seg_id) (AList.delete (seg_file seg_id) fs)) seg_ids fs"

section \<open>The store\<close>

record CasStore =
  cst_writer :: "CasWriter option"
  cst_reader :: "CasReader option"
  cst_size_limit :: u64
  cst_write_cache :: "(AtomId, bytes) hmap"

definition cas_open :: "u64 option \<Rightarrow> CasStore" where
  "cas_open size_limit =
     \<lparr>cst_writer = None, cst_reader = None,
      cst_size_limit = (case size_limit of None \<Rightarrow> DEFAULT_SEGMENT_SIZE_LIMIT | Some l \<Rightarrow> l),
      cst_write_cache = []\<rparr>"

definition cas_init_writer :: "CasStore \<Rightarrow> cas_files \<Rightarrow> (CasStore \<times> cas_files) \<times> unit io" where
  "cas_init_writer s fs =
     (let (fs, r) = writer_new (Some (cst_size_limit s)) fs in
      case r of
        Panic \<Rightarrow> ((s, fs), Panic)
      | Err e \<Rightarrow> ((s, fs), Err e)
      | Ok w \<Rightarrow> ((s\<lparr>cst_writer := Some w\<rparr>, fs), Ok ()))"

definition cas_init_reader :: "CasStore \<Rightarrow> cas_files \<Rightarrow> CasStore \<times> unit io" where
  "cas_init_reader s fs =
     (case reader_new fs of
        Panic \<Rightarrow> (s, Panic)
      | Err e \<Rightarrow> (s, Err e)
      | Ok r \<Rightarrow> (s\<lparr>cst_reader := Some r\<rparr>, Ok ()))"

definition cas_write :: "AtomId \<Rightarrow> bytes \<Rightarrow> CasStore \<Rightarrow> cas_files \<Rightarrow>
    (CasStore \<times> cas_files) \<times> (u32 \<times> u64 \<times> u64) io" where
  "cas_write atom_id body s fs =
     (let s = s\<lparr>cst_write_cache := AList.update atom_id body (cst_write_cache s)\<rparr> in
      case cst_writer s of
        None \<Rightarrow> ((s, fs), Err (CioIo KindNotConnected))
      | Some w \<Rightarrow>
          (let ((w, fs), r) = write_record atom_id body w fs in ((s\<lparr>cst_writer := Some w\<rparr>, fs), r)))"

definition cas_read :: "AtomId \<Rightarrow> CasStore \<Rightarrow> cas_files \<Rightarrow> bytes option io" where
  "cas_read atom_id s fs =
     (case map_of (cst_write_cache s) atom_id of
        Some body \<Rightarrow> Ok (Some body)
      | None \<Rightarrow>
          bind_res (ok_or (cst_reader s) (CioIo KindNotConnected)) (\<lambda>reader.
          bind_res (find_record atom_id reader fs) (\<lambda>found.
            Ok (map_option (\<lambda>(_, _, body). body) found))))"

definition cas_flush :: "CasStore \<Rightarrow> cas_files \<Rightarrow> CasStore \<times> cas_files" where
  "cas_flush s fs =
     (case cst_writer s of
        None \<Rightarrow> (s, fs)
      | Some w \<Rightarrow> (let (w, fs) = writer_flush w fs in (s\<lparr>cst_writer := Some w\<rparr>, fs)))"

definition cas_compact :: "u32 list \<Rightarrow> u32 \<Rightarrow> CasStore \<Rightarrow> cas_files \<Rightarrow> (cas_files \<times> u32 io) option" where
  "cas_compact source_ids target_id s fs =
     compact_segments (compactor_new (Some (cst_size_limit s))) source_ids target_id fs"

end
