(* ===== verification/Cas_Segments.thy ===== *)
theory Cas_Segments
  imports Cas_Store "HOL-Library.Multiset"
begin

text \<open>
  What segment and index files hold (\<open>src/cas/io.rs\<close>): sizes of records, reading what was appended, the
  Bloom filter as a set without false negatives, the binary search over sorted fingerprints, index files
  read back as written, and file names. A segment is described by the list of its records (\<open>cas_rec\<close>:
  atom, body and flags), which \<open>placed\<close> gives their offsets.
\<close>

section \<open>Sizes of records\<close>

definition pad16 :: "nat \<Rightarrow> nat" where "pad16 n = (n + 15) div 16 * 16"
definition rec_len :: "nat \<Rightarrow> nat" where "rec_len n = 80 + pad16 n"

lemma pad16_bounds: "n \<le> pad16 n" "pad16 n < n + 16"
  by (simp_all add: pad16_def)

lemma unat_padded_size:
  assumes "n < 2 ^ 63"
  shows "unat (padded_size (of_nat n)) = pad16 n"
proof -
  have m: "(x :: u64) AND NOT 15 = push_bit 4 (drop_bit 4 x)" for x
  proof -
    have "NOT 15 = NOT (mask 4 :: u64)" by (simp add: mask_eq_exp_minus_1)
    then show ?thesis by (simp add: bit_eq_iff bit_simps) auto
  qed
  have u: "unat (of_nat n + 15 :: u64) = n + 15"
    using assms unat_of_nat_u64 [of "n + 15"] by simp
  have d: "unat (push_bit 4 (drop_bit 4 x)) = unat x div 16 * 16" for x :: u64
  proof -
    have "unat x div 16 * 16 < 2 ^ 64" using unat_bounds(4) [of x] by simp
    then show ?thesis
      by (simp add: push_bit_eq_mult drop_bit_eq_div unat_word_ariths unat_div)
  qed
  show ?thesis by (simp only: padded_size_def m pad16_def d u)
qed

lemma unat_cas_record_size:
  assumes "n < 2 ^ 63" shows "unat (cas_record_size (of_nat n)) = rec_len n"
proof -
  have "unat (padded_size 4) = 16" using unat_padded_size [of 4] by (simp add: pad16_def)
  with unat_padded_size [OF assms] pad16_bounds [of n] assms show ?thesis
    by (simp add: cas_record_size_def rec_len_def unat_word_ariths)
qed

lemma length_record_bytes:
  assumes "length atom_id = 32" "length body < 2 ^ 63"
  shows "length (record_bytes seg_id atom_id body flags) = rec_len (length body)"
proof -
  have "unat (padded_size 4) = 16" using unat_padded_size [of 4] by (simp add: pad16_def)
  with unat_padded_size [OF assms(2)] pad16_bounds [of "length body"] assms(1) show ?thesis
    by (simp add: record_bytes_def Let_def rec_len_def cas_header_new_def)
qed

section \<open>Appending and reading records\<close>

text \<open>The handle of a segment at the end of its file.\<close>

definition seg_at_end :: "SegmentFile \<Rightarrow> bytes \<Rightarrow> bool" where
  "seg_at_end s content \<longleftrightarrow> sg_pos s = length content \<and> sg_current_size s = of_nat (length content) \<and>
     length content < 2 ^ 62"

lemma write_at_end: "write_at (length content) bs content = content @ bs"
  by (simp add: write_at_def)

lemma append_record_eq:
  assumes s: "seg_at_end s content" and fl: "map_of fs (seg_file (sg_seg_id s)) = Some content"
    and a: "length atom_id = 32" and b: "length body < 2 ^ 62"
  shows "append_record atom_id body flags s fs =
    (if length content + rec_len (length body) > unat (sg_size_limit s)
     then Err (CioSegmentFull (sg_seg_id s) (of_nat (length content)) (sg_size_limit s))
     else Ok (s\<lparr>sg_pos := length content + rec_len (length body),
                sg_current_size := of_nat (length content + rec_len (length body)),
                sg_record_count := sg_record_count s + 1\<rparr>,
              AList.update (seg_file (sg_seg_id s)) (content @ record_bytes (sg_seg_id s) atom_id body flags) fs,
              of_nat (length content), of_nat (length body)))"
proof -
  from b have b': "length body < 2 ^ 63" by simp
  let ?r = "cas_record_size (of_nat (length body))"
  have r: "unat ?r = rec_len (length body)" by (rule unat_cas_record_size [OF b'])
  then have r': "?r = of_nat (rec_len (length body))" by (metis of_nat_unat ucast_id)
  have l: "rec_len (length body) < 2 ^ 62 + 100"
    using b pad16_bounds(2) [of "length body"] by (simp add: rec_len_def)
  have c: "unat (of_nat (length content) + ?r) = length content + rec_len (length body)"
    using s l unat_of_nat_u64 [of "length content + rec_len (length body)"]
    by (simp add: seg_at_end_def r')
  have g: "get_or [] fs (seg_file (sg_seg_id s)) = content" using fl by (simp add: get_or_def)
  show ?thesis
    using s c by (simp add: append_record_def Let_def seg_at_end_def word_less_nat_alt g
        length_record_bytes [OF a b'] write_at_end) (simp add: r')
qed

lemma read_at_mid: "read_at (length pre) n (pre @ bs @ post) =
    (if n \<le> length bs + length post then (length pre + n, Ok (take n (bs @ post)))
     else (max (length pre) (length pre + length bs + length post), Err (CioIo KindUnexpectedEof)))"
  by (simp add: read_at_def)

lemma read_record_eq:
  assumes fl: "map_of fs (seg_file (sg_seg_id s)) = Some (pre @ record_bytes seg_id atom_id body flags @ post)"
    and size: "unat (sg_current_size s) = length pre + rec_len (length body) + length post"
    and small: "length pre + rec_len (length body) + length post < 2 ^ 63"
    and a: "length atom_id = 32"
  shows "snd (read_record (of_nat (length pre)) s fs) =
    Ok (cas_header_new atom_id (of_nat (length body)) seg_id flags, body)"
proof -
  let ?n = "length body" and ?p = "length pre"
  let ?h = "cas_header_new atom_id (of_nat ?n) seg_id flags"
  let ?pad = "replicate (pad16 ?n - ?n) 0" and ?tail = "replicate 12 (0 :: u8)"
  have n: "?n < 2 ^ 63" using small pad16_bounds(1) [of ?n] by (simp add: rec_len_def)
  have u4: "unat (padded_size 4) = 16" using unat_padded_size [of 4] by (simp add: pad16_def)
  have hb: "ch_atom_id ?h = atom_id" "ch_body_len ?h = of_nat ?n" by (simp_all add: cas_header_new_def)
  have lh: "length (cas_header_memory ?h) = 64" using a hb by simp
  have bytes: "record_bytes seg_id atom_id body flags =
      cas_header_memory ?h @ body @ ?pad @ u32_le (crc32 body) @ ?tail"
    using n by (simp add: record_bytes_def Let_def unat_padded_size u4)
  let ?c = "pre @ record_bytes seg_id atom_id body flags @ post"
  have g: "get_or [] fs (seg_file (sg_seg_id s)) = ?c" using fl by (simp add: get_or_def)
  have c2: "?c = (pre @ cas_header_memory ?h) @ body @ (?pad @ u32_le (crc32 body) @ ?tail @ post)"
    and c3: "?c = (pre @ cas_header_memory ?h @ body @ ?pad) @ u32_le (crc32 body) @ (?tail @ post)"
    by (simp_all add: bytes)
  have l1: "length (pre @ cas_header_memory ?h) = ?p + 64" using lh by (simp del: length_memory)
  have l2: "length (pre @ cas_header_memory ?h @ body @ ?pad) = ?p + 64 + pad16 ?n"
    using lh pad16_bounds(1) [of ?n] by (simp only: length_append length_replicate)
  have small': "?p + 80 + pad16 ?n + length post < 2 ^ 63" using small by (simp add: rec_len_def)
  have up: "unat (of_nat ?p :: u64) = ?p" using small' by (intro unat_of_nat_u64) simp
  have upn: "unat (of_nat ?p + 64 + of_nat ?n :: u64) = ?p + 64 + ?n"
    using small' pad16_bounds(1) [of ?n] unat_of_nat_u64 [of "?p + 64 + ?n"] by simp
  have up64: "unat (of_nat ?p + 64 :: u64) = ?p + 64" using small' unat_of_nat_u64 [of "?p + 64"] by simp
  have un: "unat (of_nat ?n :: u64) = ?n" using n by (intro unat_of_nat_u64) simp
  have pw: "padded_size (of_nat ?n) = of_nat (pad16 ?n)" using unat_padded_size [OF n] by (metis of_nat_unat ucast_id)
  have upc: "unat (of_nat ?p + 64 + of_nat (pad16 ?n) :: u64) = ?p + 64 + pad16 ?n"
    using small' unat_of_nat_u64 [of "?p + 64 + pad16 ?n"] by simp
  have upc4: "unat (68 + (of_nat ?p + of_nat (pad16 ?n)) :: u64) = ?p + 68 + pad16 ?n"
    using small' unat_of_nat_u64 [of "?p + 68 + pad16 ?n"] by (simp add: add_ac)
  have r1: "read_at ?p CAS_HEADER_SIZE ?c = (?p + 64, Ok (cas_header_memory ?h))"
    using lh by (simp add: read_at_mid bytes CAS_HEADER_SIZE_def read_at_def)
  have r2: "read_at (?p + 64) ?n ?c = (?p + 64 + ?n, Ok body)"
    using l1 by (simp only: c2 read_at_mid flip: l1) simp
  have r3: "read_at (?p + 64 + pad16 ?n) 4 ?c = (?p + 68 + pad16 ?n, Ok (u32_le (crc32 body)))"
    unfolding c3 l2 [symmetric] by (subst read_at_mid) (simp add: a hb pad16_bounds(1))
  have v: "cas_header_is_valid ?h" by (rule cas_header_new_valid [OF a])
  have rd: "cas_header_read (cas_header_memory ?h) = ?h"
    using cas_header_read_memory [of ?h "[]"] a hb by simp
  have h: "cas_header_from_bytes (cas_header_memory ?h) = Inr ?h"
    using v lh by (simp add: cas_header_from_bytes_iff rd)
  have b: "read_body (of_nat ?p) ?h s ?c = (?p + 68 + pad16 ?n, Ok (?h, body))"
    using size small' n pad16_bounds(1) [of ?n]
    by (simp add: read_body_def Let_def hb word_less_nat_alt upn up64 un r2 pw upc upc4 r3 rec_len_def)
  from v have v': "cas_validate_crc ?h" "cas_validate_magic ?h" by (simp_all add: cas_header_is_valid_def)
  show ?thesis
    using size by (simp add: read_record_def Let_def g word_less_nat_alt up64 up r1 h v' b rec_len_def)
qed

section \<open>The Bloom filter has no false negatives\<close>

text \<open>The interface the index relies on: a set that may only err on the side of containing more.\<close>

primrec insert_all :: "('k \<Rightarrow> 'f \<Rightarrow> ('e, 'f) res) \<Rightarrow> 'k list \<Rightarrow> 'f \<Rightarrow> ('e, 'f) res" where
  "insert_all ins [] f = Ok f"
| "insert_all ins (k # ks) f = bind_res (ins k f) (insert_all ins ks)"

locale approximate_set =
  fixes valid :: "'f \<Rightarrow> bool"
    and ins :: "'k \<Rightarrow> 'f \<Rightarrow> ('e, 'f) res"
    and mem :: "'f \<Rightarrow> 'k \<Rightarrow> ('e, bool) res"
  assumes ins_ok: "valid f \<Longrightarrow> \<exists>g. ins k f = Ok g \<and> valid g \<and> mem g k = Ok True"
    and ins_mono: "valid f \<Longrightarrow> ins k f = Ok g \<Longrightarrow> mem f k' = Ok True \<Longrightarrow> mem g k' = Ok True"
begin

lemma insert_all_ok:
  "valid f \<Longrightarrow> \<exists>g. insert_all ins ks f = Ok g \<and> valid g \<and> (\<forall>k\<in>set ks. mem g k = Ok True) \<and>
     (\<forall>k. mem f k = Ok True \<longrightarrow> mem g k = Ok True)"
proof (induction ks arbitrary: f)
  case (Cons k ks)
  from ins_ok [OF Cons.prems, of k] obtain g where g: "ins k f = Ok g" "valid g" "mem g k = Ok True" by blast
  from Cons.IH [OF g(2)] obtain h where h: "insert_all ins ks g = Ok h" "valid h"
    "\<forall>k\<in>set ks. mem h k = Ok True" "\<forall>k. mem g k = Ok True \<longrightarrow> mem h k = Ok True" by blast
  from g h ins_mono [OF Cons.prems g(1)] show ?case by auto
qed simp

end

definition bloom_valid :: "BloomFilter \<Rightarrow> bool" where
  "bloom_valid f \<longleftrightarrow> 0 < bf_num_bits f \<and> bf_num_bits f \<le> 64 * length (bf_bits f)"

definition bit_at :: "u64 list \<Rightarrow> nat \<Rightarrow> bool" where
  "bit_at bits pos \<longleftrightarrow> pos div 64 < length bits \<and> bit (bits ! (pos div 64)) (pos mod 64)"

lemma bit_at_set: "bit_at (bloom_set p bits) q \<longleftrightarrow> bit_at bits q \<or> q = p \<and> p div 64 < length bits"
proof (cases "q div 64 = p div 64")
  case True
  then have "q = p \<longleftrightarrow> q mod 64 = p mod 64" by (metis div_mult_mod_eq)
  with True show ?thesis by (auto simp: bit_at_def bloom_set_def bit_simps)
qed (auto simp: bit_at_def bloom_set_def)

lemma length_bloom_set [simp]: "length (bloom_set p bits) = length bits"
  by (simp add: bloom_set_def)

lemma length_fold_bloom_set [simp]: "length (fold bloom_set ps bits) = length bits"
  by (induction ps arbitrary: bits) simp_all

lemma bit_at_fold: "bit_at (fold bloom_set ps bits) q \<longleftrightarrow>
    bit_at bits q \<or> q \<in> set ps \<and> q div 64 < length bits"
  by (induction ps arbitrary: bits) (auto simp: bit_at_set)

lemma bloom_might_contain_iff:
  "bf_num_bits f \<noteq> 0 \<Longrightarrow> bloom_might_contain f atom_id = Ok True \<longleftrightarrow>
     (\<forall>i<7. bit_at (bf_bits f) (bloom_hash atom_id i mod bf_num_bits f))"
  by (auto simp: bloom_might_contain_def hash_positions_def BLOOM_HASH_FUNCTIONS_def list_all_iff bit_at_def
      push_bit_eq_mult and_exp_eq_0_iff_not_bit)

lemma bloom_insert_eq:
  "bf_num_bits f \<noteq> 0 \<Longrightarrow> bloom_insert atom_id f = Ok (f\<lparr>bf_bits :=
     fold bloom_set (map (\<lambda>i. bloom_hash atom_id i mod bf_num_bits f) [0..<7]) (bf_bits f)\<rparr>)"
  by (simp add: bloom_insert_def hash_positions_def BLOOM_HASH_FUNCTIONS_def)

interpretation bloom: approximate_set bloom_valid bloom_insert bloom_might_contain
proof unfold_locales
  fix f atom_id assume v: "bloom_valid f"
  then have n: "bf_num_bits f \<noteq> 0" by (simp add: bloom_valid_def)
  let ?ps = "map (\<lambda>i. bloom_hash atom_id i mod bf_num_bits f) [0..<7]"
  let ?g = "f\<lparr>bf_bits := fold bloom_set ?ps (bf_bits f)\<rparr>"
  have "bloom_valid ?g" using v by (simp add: bloom_valid_def)
  moreover have "bloom_might_contain ?g atom_id = Ok True"
  proof -
    have "p div 64 < length (bf_bits f)" if "p < bf_num_bits f" for p
      using that v by (simp add: bloom_valid_def less_mult_imp_div_less mult.commute)
    moreover have "bloom_hash atom_id i mod bf_num_bits f < bf_num_bits f" for i using n by simp
    ultimately show ?thesis using n by (auto simp: bloom_might_contain_iff bit_at_fold)
  qed
  ultimately show "\<exists>g. bloom_insert atom_id f = Ok g \<and> bloom_valid g \<and> bloom_might_contain g atom_id = Ok True"
    using bloom_insert_eq [OF n, of atom_id] by blast
next
  fix f atom_id g k assume v: "bloom_valid f" and i: "bloom_insert atom_id f = Ok g"
    and m: "bloom_might_contain f k = Ok True"
  from v have n: "bf_num_bits f \<noteq> 0" by (simp add: bloom_valid_def)
  from i have g: "g = f\<lparr>bf_bits := fold bloom_set
      (map (\<lambda>i. bloom_hash atom_id i mod bf_num_bits f) [0..<7]) (bf_bits f)\<rparr>"
    by (simp add: bloom_insert_eq [OF n])
  from m show "bloom_might_contain g k = Ok True"
    using n by (simp add: g bloom_might_contain_iff bit_at_fold)
qed

lemma bloom_insert_shape:
  "bloom_insert atom_id f = Ok g \<Longrightarrow> bf_num_bits g = bf_num_bits f \<and> length (bf_bits g) = length (bf_bits f)"
  by (auto simp: bloom_insert_def)

lemma bloom_insert_Ok: "bloom_valid f \<Longrightarrow> \<exists>g. bloom_insert atom_id f = Ok g \<and> bloom_valid g"
  using bloom.ins_ok by blast

lemma bloom_valid_new: "0 < n \<Longrightarrow> bloom_valid (bloom_new n)"
  by (simp add: bloom_valid_def bloom_new_def Let_def BLOOM_BITS_PER_ENTRY_def)

lemma words_of_bytes: "map (\<lambda>i. u64_at (i * 8) (concat (map u64_le ws))) [0..<length ws] = ws"
proof (induction ws)
  case (Cons w ws)
  have "map (\<lambda>i. u64_at (i * 8) (concat (map u64_le (w # ws)))) [0..<length (w # ws)] =
      w # map (\<lambda>i. u64_at (i * 8) (concat (map u64_le ws))) [0..<length ws]"
    by (simp add: map_upt_Suc del: upt_Suc)
  with Cons show ?case by simp
qed simp

lemma bloom_bytes_roundtrip:
  "bf_num_bits f = 64 * length (bf_bits f) \<Longrightarrow> bloom_from_bytes (bloom_to_bytes f) (bf_num_bits f) = f"
  by (simp add: bloom_from_bytes_def bloom_to_bytes_def length_concat_u64 words_of_bytes)

section \<open>The total order of fingerprints, and binary search\<close>

lemma total_cmp_key_inj [simp]: "total_cmp_key a = total_cmp_key b \<longleftrightarrow> a = b"
proof
  let ?c = "0x7FFFFFFFFFFFFFFF :: u64"
  have c: "\<not> bit ?c 63" by (simp add: bit_numeral_rec)
  assume "total_cmp_key a = total_cmp_key b"
  then have eq: "(if bit a 63 then a XOR ?c else a) = (if bit b 63 then b XOR ?c else b)"
    unfolding total_cmp_key_def by (rule signed_word_eqI)
  then have "bit (if bit a 63 then a XOR ?c else a) 63 = bit (if bit b 63 then b XOR ?c else b) 63" by (rule arg_cong)
  with c have "bit a 63 = bit b 63" by (simp add: bit_xor_iff split: if_splits)
  with eq show "a = b"
    by (metis (no_types, opaque_lifting) xor_cancel(1) xor_cancel(2) xor.commute)
qed simp

abbreviation "entry_key e \<equiv> total_cmp_key (ci_fp64 e)"

lemma index_search_spec:
  assumes "sorted (map entry_key es)" "right \<le> length es"
    and "\<And>i. i < left \<Longrightarrow> i < length es \<Longrightarrow> entry_key (es ! i) < t"
    and "\<And>i. right \<le> i \<Longrightarrow> i < length es \<Longrightarrow> t < entry_key (es ! i)"
  shows "case index_search es t left right of
           None \<Rightarrow> \<forall>e\<in>set es. entry_key e \<noteq> t
         | Some e \<Rightarrow> e \<in> set es \<and> entry_key e = t"
  using assms
proof (induction es t left right rule: index_search.induct)
  case (1 es t left right)
  note sorted = "1.prems"(1) and le = "1.prems"(2) and lo = "1.prems"(3) and hi = "1.prems"(4)
  show ?case
  proof (cases "left < right")
    case False
    then have "entry_key e \<noteq> t" if "e \<in> set es" for e
      using that lo hi by (metis in_set_conv_nth not_less order.strict_implies_not_eq order.trans less_le_not_le linorder_not_le)
    with False show ?thesis by (simp add: index_search.simps [of es t left right])
  next
    case True
    let ?mid = "left + (right - left) div 2"
    have mid: "?mid < right" "?mid < length es" using True le by linarith+
    have mono: "entry_key (es ! i) \<le> entry_key (es ! j)" if "i \<le> j" "j < length es" for i j
      using sorted_nth_mono [OF sorted, of i j] that by simp
    consider "entry_key (es ! ?mid) < t" | "entry_key (es ! ?mid) > t" | "entry_key (es ! ?mid) = t" by linarith
    then show ?thesis
    proof cases
      case 1
      have "entry_key (es ! i) < t" if "i < ?mid + 1" "i < length es" for i
        using mono [of i ?mid] mid that 1 by simp
      from "1.IH"(1) [OF True refl refl 1 sorted le this hi] 1 True show ?thesis
        by (simp add: index_search.simps [of es t left right] Let_def)
    next
      case 2
      have hi': "t < entry_key (es ! i)" if "?mid \<le> i" "i < length es" for i
        using mono [of ?mid i] mid that 2 by simp
      from 2 have n: "\<not> entry_key (es ! ?mid) < t" by simp
      from mid have le': "?mid \<le> length es" by simp
      from "1.IH"(2) [OF True refl refl n 2 sorted le' lo hi'] 2 True show ?thesis
        by (simp add: index_search.simps [of es t left right] Let_def)
    next
      case 3
      with mid True show ?thesis by (simp add: index_search.simps [of es t left right] Let_def)
    qed
  qed
qed

lemma index_search_all:
  assumes "sorted (map entry_key es)"
  shows "case index_search es t 0 (length es) of
           None \<Rightarrow> \<forall>e\<in>set es. entry_key e \<noteq> t
         | Some e \<Rightarrow> e \<in> set es \<and> entry_key e = t"
  using assms by (intro index_search_spec) auto

lemma sorted_sort_index_entries: "sorted (map entry_key (sort_index_entries es))"
  by (simp add: sort_index_entries_def)

lemma set_sort_index_entries [simp]: "set (sort_index_entries es) = set es"
  by (simp add: sort_index_entries_def)

section \<open>Index files\<close>

lemma length_index_entry_memory [simp, enc_length]: "length (index_entry_memory e) = 24"
  by (simp add: index_entry_memory_def)

lemma index_entry_read_memory [codec_simps]: "index_entry_read (index_entry_memory e @ rest) = e"
  by (simp add: index_entry_read_def index_entry_memory_def)

lemma read_index_entries_memory:
  "read_index_entries (length es) (concat (map index_entry_memory es) @ rest) = Ok (es, rest)"
proof (induction es)
  case (Cons e es)
  have "index_entry_read (index_entry_memory e) = e"
    using index_entry_read_memory [of e "[]"] by simp
  with Cons show ?case by (simp add: INDEX_ENTRY_SIZE_def)
qed simp

lemma length_read_index_entries: "read_index_entries n bs = Ok (es, rest) \<Longrightarrow> length es = n"
  by (induction n arbitrary: bs es rest) (auto split: if_splits)

lemma index_header_of_memory:
  "index_header_from_bytes (index_header_memory h) = Ok h" "length (index_header_memory h) = 12"
  by (simp_all add: index_header_from_bytes_def index_header_memory_def INDEX_HEADER_SIZE_def)

lemma index_header_valid: "index_header_is_valid (index_header_new n)" "ih_entry_count (index_header_new n) = n"
  by (simp_all add: index_header_is_valid_def index_header_new_def)

definition index_storable :: "IndexFile \<Rightarrow> bool" where
  "index_storable x \<longleftrightarrow> length (xf_entries x) < 65536 \<and> bf_num_bits (xf_bloom x) = 64 * length (bf_bits (xf_bloom x)) \<and>
     length (bf_bits (xf_bloom x)) < 2 ^ 29"

lemma index_load_bytes:
  assumes "index_storable x"
  shows "index_load (index_bytes x) y =
    Ok (y\<lparr>xf_entries := sort_index_entries (xf_entries x), xf_bloom := xf_bloom x,
          xf_entry_count := of_nat (length (xf_entries x))\<rparr>)"
proof -
  let ?n = "length (xf_entries x)" and ?b = "bloom_to_bytes (xf_bloom x)"
  have n: "unat (of_nat ?n :: u16) = ?n" using assms by (simp add: index_storable_def unat_of_nat)
  then have n32: "(ucast (of_nat ?n :: u16) :: u32) = of_nat ?n" by (metis of_nat_unat)
  have lb: "length ?b = 8 * length (bf_bits (xf_bloom x))" by (simp add: bloom_to_bytes_def length_concat_u64)
  have b: "unat (of_nat (length ?b) :: u32) = length ?b"
    using assms lb by (intro unat_of_nat_u32) (simp add: index_storable_def)
  have r: "bloom_from_bytes ?b (length ?b * 8) = xf_bloom x"
    using bloom_bytes_roundtrip [of "xf_bloom x"] assms lb by (simp add: index_storable_def mult.assoc mult.commute)
  show ?thesis
    by (simp add: index_load_def index_bytes_def index_header_of_memory index_header_valid INDEX_HEADER_SIZE_def
        n n32 b r read_index_entries_memory Let_def)
qed

text \<open>The header counts the entries in 16 bits: of 65536 entries none is read back.\<close>

lemma index_reload_count:
  assumes "index_load (index_bytes x) y = Ok z"
  shows "length (xf_entries z) = length (xf_entries x) mod 65536"
proof -
  have "unat (of_nat (length (xf_entries x)) :: u16) = length (xf_entries x) mod 65536" by (simp add: unat_of_nat)
  with assms show ?thesis
    by (auto simp: index_load_def index_bytes_def index_header_of_memory index_header_valid INDEX_HEADER_SIZE_def Let_def
        sort_index_entries_def dest!: length_read_index_entries split: if_splits)
qed

section \<open>File names\<close>

lemma dec5_facts: "dec_value (dec5 n) = n" "list_all is_dec_digit (dec5 n)" "dec5 n \<noteq> []"
  using dec_digits [of n]
  by (auto simp: dec5_def dec_value_zeros dec_value_dec dec_not_Nil is_dec_digit_def list_all_iff)

lemma dec5_no_plus: "hd (dec5 n) \<noteq> CHR ''+''"
proof
  assume "hd (dec5 n) = CHR ''+''"
  with dec5_facts(2,3) [of n] have "is_dec_digit (CHR ''+'')" by (cases "dec5 n") simp_all
  then show False by (simp add: is_dec_digit_def)
qed

lemma parse_dec5: "parse_u32 (dec5 (unat i)) = Some i"
  using unat_bounds(3) [of i] dec5_no_plus [of "unat i"] dec5_facts [of "unat i"]
  by (simp add: parse_u32_def)

lemma ends_with_append: "ends_with (s @ p) p" "strip_suffix (s @ p) p = Some s"
  by (simp_all add: ends_with_def strip_suffix_def)

lemma starts_with_append: "starts_with (p @ s) p"
  by (simp add: starts_with_def)

lemma seg_id_of_seg_file [simp]: "seg_id_of_name (seg_file i) = Some i"
proof -
  have "ends_with (seg_file i) SEGMENT_EXTENSION"
    unfolding seg_file_def append_assoc [symmetric] by (rule ends_with_append)
  then show ?thesis
    by (simp add: seg_id_of_name_def seg_file_def starts_with_append ends_with_append parse_dec5)
qed

lemma seg_id_of_idx_file [simp]: "seg_id_of_name (idx_file i) = None"
proof -
  have "\<not> ends_with (s @ INDEX_EXTENSION) SEGMENT_EXTENSION" for s
    by (simp add: ends_with_def INDEX_EXTENSION_def SEGMENT_EXTENSION_def)
  then have "\<not> ends_with (idx_file i) SEGMENT_EXTENSION"
    unfolding idx_file_def append_assoc [symmetric] by blast
  then show ?thesis by (simp add: seg_id_of_name_def)
qed

lemma seg_file_inj [simp]: "seg_file i = seg_file j \<longleftrightarrow> i = j"
  by (metis seg_id_of_seg_file option.inject)

lemma seg_file_neq_idx_file [simp]: "seg_file i \<noteq> idx_file j" "idx_file j \<noteq> seg_file i"
  by (metis seg_id_of_seg_file seg_id_of_idx_file option.distinct(1))+

lemma idx_file_inj [simp]: "idx_file i = idx_file j \<longleftrightarrow> i = j"
  by (auto simp: idx_file_def) (metis dec5_facts(1) word_unat_eq_iff)

section \<open>What a segment and its index hold\<close>

type_synonym cas_rec = "AtomId \<times> bytes \<times> u16"

definition rec_ok :: "cas_rec \<Rightarrow> bool" where
  "rec_ok r \<longleftrightarrow> length (fst r) = 32 \<and> length (fst (snd r)) < 2 ^ 62"

abbreviation rec_size :: "cas_rec \<Rightarrow> nat" where "rec_size r \<equiv> rec_len (length (fst (snd r)))"

abbreviation rec_image :: "u32 \<Rightarrow> cas_rec \<Rightarrow> bytes" where
  "rec_image seg_id r \<equiv> record_bytes seg_id (fst r) (fst (snd r)) (snd (snd r))"

definition seg_image :: "u32 \<Rightarrow> cas_rec list \<Rightarrow> bytes" where
  "seg_image seg_id rs = concat (map (rec_image seg_id) rs)"

definition recs_size :: "cas_rec list \<Rightarrow> nat" where "recs_size rs = sum_list (map rec_size rs)"

text \<open>The records with their offsets, and the index entries of them.\<close>

primrec placed :: "nat \<Rightarrow> cas_rec list \<Rightarrow> (nat \<times> cas_rec) list" where
  "placed off [] = []"
| "placed off (r # rs) = (off, r) # placed (off + rec_size r) rs"

abbreviation entry_of :: "nat \<times> cas_rec \<Rightarrow> CasIndexEntry" where
  "entry_of p \<equiv> index_entry_new (fst (snd p)) (of_nat (fst p)) (of_nat (length (fst (snd (snd p))))) (snd (snd (snd p)))"

lemma entry_of_fields [simp]:
  "ci_fp64 (index_entry_new a off n f) = fp64_of a" "ci_seg_offset (index_entry_new a off n f) = off"
  by (simp_all add: index_entry_new_def)

lemma rec_size_length: "rec_ok r \<Longrightarrow> length (rec_image seg_id r) = rec_size r"
  by (simp add: rec_ok_def length_record_bytes)

lemma length_seg_image: "list_all rec_ok rs \<Longrightarrow> length (seg_image seg_id rs) = recs_size rs"
  by (induction rs) (simp_all add: seg_image_def recs_size_def rec_size_length)

lemma seg_image_simps [simp]:
  "seg_image seg_id [] = []" "seg_image seg_id (r # rs) = rec_image seg_id r @ seg_image seg_id rs"
  "seg_image seg_id (rs @ ss) = seg_image seg_id rs @ seg_image seg_id ss"
  by (simp_all add: seg_image_def)

lemma recs_size_simps [simp]:
  "recs_size [] = 0" "recs_size (r # rs) = rec_size r + recs_size rs"
  "recs_size (rs @ ss) = recs_size rs + recs_size ss"
  by (simp_all add: recs_size_def)

lemma placed_append: "placed off (rs @ ss) = placed off rs @ placed (off + recs_size rs) ss"
  by (induction rs arbitrary: off) (simp_all add: add.assoc)

lemma placed_records: "map snd (placed off rs) = rs"
  by (induction rs arbitrary: off) simp_all

lemma length_placed [simp]: "length (placed off rs) = length rs"
  by (metis length_map placed_records)

text \<open>A placed record splits the image of its segment.\<close>

lemma placed_split:
  "p \<in> set (placed off rs) \<Longrightarrow> \<exists>as bs. rs = as @ snd p # bs \<and> fst p = off + recs_size as"
proof (induction rs arbitrary: off)
  case (Cons r rs)
  show ?case
  proof (cases "p = (off, r)")
    case True
    then have "r # rs = [] @ snd p # rs" "fst p = off + recs_size []" by simp_all
    then show ?thesis by blast
  next
    case False
    with Cons.prems have "p \<in> set (placed (off + rec_size r) rs)" by simp
    from Cons.IH [OF this] obtain as bs where "rs = as @ snd p # bs" "fst p = off + rec_size r + recs_size as"
      by blast
    then have "r # rs = (r # as) @ snd p # bs" "fst p = off + recs_size (r # as)" by simp_all
    then show ?thesis by blast
  qed
qed simp

definition seg_file_holds :: "cas_files \<Rightarrow> u32 \<Rightarrow> cas_rec list \<Rightarrow> bool" where
  "seg_file_holds fs seg_id rs \<longleftrightarrow> map_of fs (seg_file seg_id) = Some (seg_image seg_id rs) \<and>
     list_all rec_ok rs \<and> recs_size rs < 2 ^ 62"

text \<open>A segment whose records can be read.\<close>

definition seg_readable :: "SegmentFile \<Rightarrow> u32 \<Rightarrow> cas_rec list \<Rightarrow> bool" where
  "seg_readable s seg_id rs \<longleftrightarrow> sg_seg_id s = seg_id \<and> unat (sg_current_size s) = recs_size rs"

lemma read_placed:
  assumes p: "p \<in> set (placed 0 rs)" and "seg_file_holds fs seg_id rs" "seg_readable s seg_id rs"
  shows "snd (read_record (of_nat (fst p)) s fs) =
    Ok (cas_header_new (fst (snd p)) (of_nat (length (fst (snd (snd p))))) seg_id (snd (snd (snd p))), fst (snd (snd p)))"
proof -
  from placed_split [OF p] obtain as bs where rs: "rs = as @ snd p # bs" and off: "fst p = recs_size as" by auto
  from assms(2) rs have ok: "list_all rec_ok as" "rec_ok (snd p)" "list_all rec_ok bs"
    by (simp_all add: seg_file_holds_def)
  have "map_of fs (seg_file (sg_seg_id s)) = Some (seg_image seg_id as @ rec_image seg_id (snd p) @ seg_image seg_id bs)"
    using assms(2,3) rs by (simp add: seg_file_holds_def seg_readable_def)
  from read_record_eq [OF this] show ?thesis
    using assms(2,3) ok by (simp add: length_seg_image seg_file_holds_def seg_readable_def rs off rec_ok_def)
qed

definition bloom_holds :: "BloomFilter \<Rightarrow> cas_rec list \<Rightarrow> bool" where
  "bloom_holds f rs \<longleftrightarrow> bloom_valid f \<and> bf_num_bits f = 64 * length (bf_bits f) \<and> length (bf_bits f) < 2 ^ 29 \<and>
     (\<forall>r\<in>set rs. bloom_might_contain f (fst r) = (Ok True :: bool io))"

definition index_holds :: "IndexFile \<Rightarrow> cas_rec list \<Rightarrow> bool" where
  "index_holds x rs \<longleftrightarrow> mset (xf_entries x) = mset (map entry_of (placed 0 rs)) \<and> bloom_holds (xf_bloom x) rs"

lemma index_holds_create: "index_holds (index_create seg_id) []"
  by (simp add: index_holds_def index_create_def bloom_holds_def bloom_valid_new)
    (simp add: bloom_new_def BLOOM_BITS_PER_ENTRY_def)

lemma index_holds_insert:
  assumes "index_holds x rs"
  shows "\<exists>y. index_insert (fst r) (of_nat (recs_size rs)) (of_nat (length (fst (snd r)))) (snd (snd r)) x = Ok y \<and>
    index_holds y (rs @ [r]) \<and> xf_seg_id y = xf_seg_id x \<and> xf_is_dirty y"
proof -
  from assms have v: "bloom_valid (xf_bloom x)" by (simp add: index_holds_def bloom_holds_def)
  from bloom.ins_ok [OF this, of "fst r"] obtain f where
    f: "bloom_insert (fst r) (xf_bloom x) = (Ok f :: BloomFilter io)" "bloom_valid f"
      "bloom_might_contain f (fst r) = (Ok True :: bool io)" by blast
  have m: "bloom_might_contain f k = (Ok True :: bool io)"
    if "bloom_might_contain (xf_bloom x) k = (Ok True :: bool io)" for k
    using bloom.ins_mono [OF v f(1) that] .
  have "bf_num_bits (xf_bloom x) = 64 * length (bf_bits (xf_bloom x))" "length (bf_bits (xf_bloom x)) < 2 ^ 29"
    "\<forall>r\<in>set rs. bloom_might_contain (xf_bloom x) (fst r) = (Ok True :: bool io)"
    using assms unfolding index_holds_def bloom_holds_def by blast+
  with f(2,3) m have h: "bloom_holds f (rs @ [r])"
    using bloom_insert_shape [OF f(1)] unfolding bloom_holds_def by auto
  have "mset (xf_entries x) = mset (map entry_of (placed 0 rs))" using assms by (simp only: index_holds_def)
  then have "mset (xf_entries x @ [entry_of (recs_size rs, r)]) = mset (map entry_of (placed 0 (rs @ [r])))"
    by (simp add: placed_append)
  with h f(1) show ?thesis by (simp add: index_insert_def index_holds_def del: mset_append)
qed

lemma index_holds_length: "index_holds x rs \<Longrightarrow> length (xf_entries x) = length rs"
  unfolding index_holds_def by (drule conjunct1, drule mset_eq_length) simp

lemma index_holds_set: "index_holds x rs \<Longrightarrow> set (xf_entries x) = entry_of ` set (placed 0 rs)"
  unfolding index_holds_def by (drule conjunct1, drule mset_eq_setD) simp

lemma index_holds_storable: "index_holds x rs \<Longrightarrow> length rs < 65536 \<Longrightarrow> index_storable x"
  by (simp add: index_storable_def index_holds_length) (simp add: index_holds_def bloom_holds_def)

text \<open>An index that was loaded is sorted; looking up an atom gives an entry of the same prefix.\<close>

definition index_loaded :: "IndexFile \<Rightarrow> cas_rec list \<Rightarrow> bool" where
  "index_loaded x rs \<longleftrightarrow> index_holds x rs \<and> sorted (map entry_key (xf_entries x))"

lemma index_find_cases:
  assumes "index_loaded x rs"
  shows "(\<exists>p\<in>set (placed 0 rs). index_find atom_id x = Ok (Some (entry_of p)) \<and> fp64_of (fst (snd p)) = fp64_of atom_id)
    \<or> index_find atom_id x = Ok None \<and> atom_id \<notin> fst ` set rs"
proof -
  from assms have h: "bloom_holds (xf_bloom x) rs" and e: "set (xf_entries x) = entry_of ` set (placed 0 rs)"
    and s: "sorted (map entry_key (xf_entries x))"
    using index_holds_set [of x rs] by (simp_all add: index_loaded_def index_holds_def)
  from h have n: "bf_num_bits (xf_bloom x) \<noteq> 0" unfolding bloom_holds_def bloom_valid_def by linarith
  then obtain m where m: "bloom_might_contain (xf_bloom x) atom_id = (Ok m :: bool io)"
    by (simp add: bloom_might_contain_def hash_positions_def)
  show ?thesis
  proof (cases m)
    case False
    with h m have "atom_id \<notin> fst ` set rs" by (auto simp: bloom_holds_def)
    with m False show ?thesis by (simp add: index_find_def)
  next
    case True
    from index_search_all [OF s, of "total_cmp_key (fp64_of atom_id)"] show ?thesis
    proof (cases "index_search (xf_entries x) (total_cmp_key (fp64_of atom_id)) 0 (length (xf_entries x))")
      case None
      with index_search_all [OF s, of "total_cmp_key (fp64_of atom_id)"] e
      have "\<forall>p\<in>set (placed 0 rs). fst (snd p) \<noteq> atom_id" by auto
      then have "\<forall>r\<in>set (map snd (placed 0 rs)). fst r \<noteq> atom_id" by simp
      then have "atom_id \<notin> fst ` set rs" unfolding placed_records by auto
      with None m True show ?thesis by (simp add: index_find_def)
    next
      case (Some e')
      with index_search_all [OF s, of "total_cmp_key (fp64_of atom_id)"] e
      obtain p where "p \<in> set (placed 0 rs)" "e' = entry_of p" "fp64_of (fst (snd p)) = fp64_of atom_id"
        by auto
      with Some m True show ?thesis by (auto simp: index_find_def)
    qed
  qed
qed

end
