(* ===== verification/Cas_Reopen.thy ===== *)
theory Cas_Reopen
  imports Cas_Segments
begin

text \<open>
  The writer and the reader of the content-addressed store (\<open>src/cas/io.rs\<close>) over several runs of the
  program. \<open>dir_ok\<close> describes a directory by the records of its segments, \<open>writer_ok\<close> a writer at work
  on it, \<open>reader_ok\<close> a reader; every operation of the writer keeps its description. Iterators, and the
  cases in which a stored record is not found, are at the end.
\<close>

section \<open>What a directory holds\<close>

definition indexed :: "cas_files \<Rightarrow> u32 \<Rightarrow> cas_rec list \<Rightarrow> bool" where
  "indexed fs seg_id rs \<longleftrightarrow>
     (case map_of fs (idx_file seg_id) of
        None \<Rightarrow> rs = []
      | Some bs \<Rightarrow> \<exists>x. bs = index_bytes x \<and> index_holds x rs \<and> length rs < 65536)"

text \<open>A directory with segments \<open>0, 1, \<dots>\<close> that hold the given records, and nothing else.\<close>

definition dir_ok :: "cas_files \<Rightarrow> cas_rec list list \<Rightarrow> bool" where
  "dir_ok fs segs \<longleftrightarrow> length segs < 2 ^ 31 \<and>
     (\<forall>i<length segs. seg_file_holds fs (of_nat i) (segs ! i)) \<and>
     (\<forall>name\<in>fst ` set fs. \<forall>i. seg_id_of_name name = Some i \<longrightarrow> unat i < length segs) \<and>
     (\<forall>i. map_of fs (idx_file i) \<noteq> None \<longrightarrow> unat i < length segs)"

definition all_indexed :: "cas_files \<Rightarrow> cas_rec list list \<Rightarrow> bool" where
  "all_indexed fs segs \<longleftrightarrow> (\<forall>i<length segs. indexed fs (of_nat i) (segs ! i))"

definition writer_ok :: "CasWriter \<Rightarrow> cas_files \<Rightarrow> cas_rec list list \<Rightarrow> cas_rec list \<Rightarrow> bool" where
  "writer_ok w fs closed active \<longleftrightarrow>
     dir_ok fs (closed @ [active]) \<and> all_indexed fs closed \<and>
     sg_seg_id (cw_segment w) = of_nat (length closed) \<and>
     seg_at_end (cw_segment w) (seg_image (of_nat (length closed)) active) \<and>
     sg_size_limit (cw_segment w) = cw_size_limit w \<and> unat (cw_size_limit w) < 2 ^ 62 \<and>
     cw_next_seg_id w = of_nat (length closed + 1) \<and>
     index_holds (cw_index w) active \<and> xf_seg_id (cw_index w) = of_nat (length closed) \<and>
     (\<not> xf_is_dirty (cw_index w) \<longrightarrow> indexed fs (of_nat (length closed)) active)"

lemma of_nat_u32_eq: "i < 2 ^ 31 \<Longrightarrow> j < 2 ^ 31 \<Longrightarrow> (of_nat i :: u32) = of_nat j \<longleftrightarrow> i = j"
proof -
  assume "i < 2 ^ 31" "j < 2 ^ 31"
  then have "unat (of_nat i :: u32) = i" "unat (of_nat j :: u32) = j" by (simp_all add: unat_of_nat_u32)
  then show "(of_nat i :: u32) = of_nat j \<longleftrightarrow> i = j" by metis
qed

lemma seg_file_holds_update_idx [simp]:
  "seg_file_holds (AList.update (idx_file j) bs fs) i rs = seg_file_holds fs i rs"
  by (simp add: seg_file_holds_def)

lemma seg_file_holds_update_other [simp]:
  "i \<noteq> j \<Longrightarrow> seg_file_holds (AList.update (seg_file j) bs fs) i rs = seg_file_holds fs i rs"
  by (simp add: seg_file_holds_def)

lemma indexed_update_seg [simp]: "indexed (AList.update (seg_file j) bs fs) i rs = indexed fs i rs"
  by (simp add: indexed_def)

lemma indexed_update_other [simp]:
  "i \<noteq> j \<Longrightarrow> indexed (AList.update (idx_file j) bs fs) i rs = indexed fs i rs"
  by (simp add: indexed_def)

lemma dir_ok_seg: "dir_ok fs segs \<Longrightarrow> i < length segs \<Longrightarrow> seg_file_holds fs (of_nat i) (segs ! i)"
  by (simp add: dir_ok_def)

lemma dir_ok_update_seg:
  assumes "dir_ok fs (closed @ [active])" "seg_image (of_nat (length closed)) active' = bs"
    and "list_all rec_ok active'" "recs_size active' < 2 ^ 62"
  shows "dir_ok (AList.update (seg_file (of_nat (length closed))) bs fs) (closed @ [active'])"
proof -
  from assms(1) have l: "length closed < 2 ^ 31" by (simp add: dir_ok_def)
  have "seg_file_holds (AList.update (seg_file (of_nat (length closed))) bs fs) (of_nat i) ((closed @ [active']) ! i)"
    if i: "i < length closed + 1" for i
  proof (cases "i = length closed")
    case True
    with assms show ?thesis by (simp add: seg_file_holds_def)
  next
    case False
    with i have i': "i < length closed" by simp
    with l have "(of_nat i :: u32) \<noteq> of_nat (length closed)" by (simp add: of_nat_u32_eq)
    with i' dir_ok_seg [OF assms(1), of i] show ?thesis by (simp add: nth_append)
  qed
  moreover have "unat (of_nat (length closed) :: u32) = length closed" using l by (intro unat_of_nat_u32) simp
  ultimately show ?thesis using assms(1) by (auto simp: dir_ok_def dom_update)
qed

lemma dir_ok_update_idx:
  assumes "dir_ok fs segs" "i < length segs"
  shows "dir_ok (AList.update (idx_file (of_nat i)) bs fs) segs"
proof -
  have "unat (of_nat i :: u32) = i" using assms by (intro unat_of_nat_u32) (simp add: dir_ok_def)
  with assms show ?thesis by (auto simp: dir_ok_def dom_update)
qed

lemma dir_ok_new_segment:
  assumes d: "dir_ok fs segs" and l: "length segs + 1 < 2 ^ 31"
  shows "map_of fs (seg_file (of_nat (length segs))) = None"
    and "dir_ok (AList.update (seg_file (of_nat (length segs))) [] fs) (segs @ [[]])"
proof -
  have u: "unat (of_nat (length segs) :: u32) = length segs" using l by (intro unat_of_nat_u32) simp
  have n: "seg_file (of_nat (length segs)) \<notin> fst ` set fs"
  proof
    assume "seg_file (of_nat (length segs)) \<in> fst ` set fs"
    with d have "unat (of_nat (length segs) :: u32) < length segs"
      unfolding dir_ok_def using seg_id_of_seg_file by blast
    with u show False by simp
  qed
  then show "map_of fs (seg_file (of_nat (length segs))) = None" by (simp add: map_of_eq_None_iff)
  have "seg_file_holds (AList.update (seg_file (of_nat (length segs))) [] fs) (of_nat i) ((segs @ [[]]) ! i)"
    if i: "i < length segs + 1" for i
  proof (cases "i = length segs")
    case False
    with i have i': "i < length segs" by simp
    with l have "(of_nat i :: u32) \<noteq> of_nat (length segs)" by (simp add: of_nat_u32_eq)
    with i' dir_ok_seg [OF d, of i] show ?thesis by (simp add: nth_append)
  qed (simp add: seg_file_holds_def)
  with d l u show "dir_ok (AList.update (seg_file (of_nat (length segs))) [] fs) (segs @ [[]])"
    by (auto simp: dir_ok_def dom_update less_Suc_eq)
qed

section \<open>The writer\<close>

lemma index_flush_ok:
  assumes w: "writer_ok w fs closed active" and l: "length active < 65536"
    and f: "index_flush (cw_index w) fs = (x, fs')"
  shows "writer_ok (w\<lparr>cw_index := x\<rparr>) fs' closed active" "all_indexed fs' (closed @ [active])"
proof -
  let ?n = "length closed" and ?x = "cw_index w"
  from w have n: "?n < 2 ^ 31" and d: "dir_ok fs (closed @ [active])" by (auto simp: writer_ok_def dir_ok_def)
  have ne: "(of_nat i :: u32) \<noteq> of_nat ?n" if "i < ?n" for i using that n by (simp add: of_nat_u32_eq)
  have "writer_ok (w\<lparr>cw_index := x\<rparr>) fs' closed active \<and> all_indexed fs' (closed @ [active])"
  proof (cases "xf_is_dirty ?x")
    case False
    with f have xf: "x = ?x" "fs' = fs" by (auto simp: index_flush_def)
    with w have "writer_ok (w\<lparr>cw_index := x\<rparr>) fs' closed active" by simp
    moreover from w False have "all_indexed fs' (closed @ [active])"
      by (auto simp: xf writer_ok_def all_indexed_def nth_append less_Suc_eq)
    ultimately show ?thesis by simp
  next
    case True
    let ?fs = "AList.update (idx_file (of_nat ?n)) (index_bytes ?x) fs"
    from True f w have xf: "x = ?x\<lparr>xf_is_dirty := False\<rparr>" "fs' = ?fs" by (auto simp: index_flush_def writer_ok_def)
    have h: "index_holds ?x active" using w by (simp add: writer_ok_def)
    have i: "indexed ?fs (of_nat ?n) active"
      unfolding indexed_def using h l by auto
    have c: "all_indexed ?fs closed"
      using w ne by (simp add: writer_ok_def all_indexed_def)
    with i have "all_indexed fs' (closed @ [active])"
      by (auto simp: xf all_indexed_def nth_append less_Suc_eq)
    moreover have "dir_ok ?fs (closed @ [active])" by (rule dir_ok_update_idx [OF d]) simp
    with w i c have "writer_ok (w\<lparr>cw_index := x\<rparr>) fs' closed active"
      by (simp add: xf writer_ok_def index_holds_def)
    ultimately show ?thesis by simp
  qed
  then show "writer_ok (w\<lparr>cw_index := x\<rparr>) fs' closed active" "all_indexed fs' (closed @ [active])" by simp_all
qed

lemma seg_at_end_empty: "seg_at_end s [] \<longleftrightarrow> sg_pos s = 0 \<and> sg_current_size s = 0"
  by (simp add: seg_at_end_def)

lemma rotate_segment_ok:
  assumes w: "writer_ok w fs closed active" and l: "length active < 65536" "length closed + 2 < 2 ^ 31"
  obtains w' fs' where "rotate_segment w fs = (w', fs')" "writer_ok w' fs' (closed @ [active]) []"
    "cw_size_limit w' = cw_size_limit w"
proof -
  obtain x fs1 where f: "index_flush (cw_index w) fs = (x, fs1)" by force
  from index_flush_ok [OF w l(1) f] have w1: "writer_ok (w\<lparr>cw_index := x\<rparr>) fs1 closed active"
    and i1: "all_indexed fs1 (closed @ [active])" .
  let ?n = "length closed + 1"
  from w1 have d1: "dir_ok fs1 (closed @ [active])" by (simp add: writer_ok_def)
  have l': "length (closed @ [active]) + 1 < 2 ^ 31" using l by simp
  have none: "map_of fs1 (seg_file (of_nat ?n)) = None" using dir_ok_new_segment(1) [OF d1 l'] by simp
  have d2: "dir_ok (AList.update (seg_file (of_nat ?n)) [] fs1) ((closed @ [active]) @ [[]])"
    using dir_ok_new_segment(2) [OF d1 l'] by simp
  have u: "unat (of_nat ?n :: u32) = ?n" using l by (intro unat_of_nat_u32) simp
  have "map_of fs1 (idx_file (of_nat ?n)) = None"
    using d1 u unfolding dir_ok_def by (metis length_append_singleton Suc_eq_plus1 less_irrefl)
  then have ix: "indexed (AList.update (seg_file (of_nat ?n)) [] fs1) (of_nat ?n) []" by (simp add: indexed_def)
  have "cw_next_seg_id w = of_nat ?n" using w by (simp add: writer_ok_def)
  then have r: "rotate_segment w fs =
      (w\<lparr>cw_next_seg_id := of_nat ?n + 1, cw_segment :=
           \<lparr>sg_seg_id = of_nat ?n, sg_pos = 0, sg_current_size = 0, sg_size_limit = cw_size_limit w, sg_record_count = 0\<rparr>,
         cw_index := index_create (of_nat ?n)\<rparr>, AList.update (seg_file (of_nat ?n)) [] fs1)"
    using none by (simp add: rotate_segment_def f seg_create_def Let_def)
  have "all_indexed (AList.update (seg_file (of_nat ?n)) [] fs1) (closed @ [active])"
    using i1 by (simp add: all_indexed_def)
  with d2 ix w have "writer_ok (w\<lparr>cw_next_seg_id := of_nat ?n + 1, cw_segment :=
           \<lparr>sg_seg_id = of_nat ?n, sg_pos = 0, sg_current_size = 0, sg_size_limit = cw_size_limit w, sg_record_count = 0\<rparr>,
         cw_index := index_create (of_nat ?n)\<rparr>) (AList.update (seg_file (of_nat ?n)) [] fs1) (closed @ [active]) []"
    by (simp add: writer_ok_def seg_at_end_empty index_holds_create) (simp add: index_create_def)
  with r that show thesis by simp
qed

text \<open>A record that fits into the active segment.\<close>

lemma append_fits_ok:
  assumes w: "writer_ok w fs closed active" and r: "rec_ok r"
    and fits: "recs_size active + rec_size r \<le> unat (cw_size_limit w)"
  obtains s fs' x where
    "append_record (fst r) (fst (snd r)) (snd (snd r)) (cw_segment w) fs =
       Ok (s, fs', of_nat (recs_size active), of_nat (length (fst (snd r))))"
    "index_insert (fst r) (of_nat (recs_size active)) (of_nat (length (fst (snd r)))) (snd (snd r)) (cw_index w) = Ok x"
    "writer_ok (w\<lparr>cw_segment := s, cw_index := x\<rparr>) fs' closed (active @ [r])"
proof -
  let ?n = "of_nat (length closed) :: u32" and ?s = "cw_segment w"
  let ?c = "seg_image ?n active" and ?b = "fst (snd r)"
  from w have d: "dir_ok fs (closed @ [active])" and e: "seg_at_end ?s ?c" and id: "sg_seg_id ?s = ?n"
    and lim: "sg_size_limit ?s = cw_size_limit w" "unat (cw_size_limit w) < 2 ^ 62"
    and ih: "index_holds (cw_index w) active" by (simp_all add: writer_ok_def)
  from dir_ok_seg [OF d, of "length closed"] have "seg_file_holds fs ?n active" by simp
  then have m: "map_of fs (seg_file ?n) = Some ?c" and ok: "list_all rec_ok active" by (simp_all add: seg_file_holds_def)
  have lc: "length ?c = recs_size active" by (rule length_seg_image [OF ok])
  let ?s' = "?s\<lparr>sg_pos := recs_size active + rec_size r,
    sg_current_size := of_nat (recs_size active + rec_size r), sg_record_count := sg_record_count ?s + 1\<rparr>"
  let ?fs' = "AList.update (seg_file ?n) (?c @ rec_image ?n r) fs"
  have a: "append_record (fst r) ?b (snd (snd r)) ?s fs =
      Ok (?s', ?fs', of_nat (recs_size active), of_nat (length ?b))"
    using append_record_eq [OF e, of fs "fst r" ?b "snd (snd r)"] m id lim fits r by (simp add: lc rec_ok_def)
  from index_holds_insert [OF ih, of r] obtain x where
    x: "index_insert (fst r) (of_nat (recs_size active)) (of_nat (length ?b)) (snd (snd r)) (cw_index w) = Ok x"
      "index_holds x (active @ [r])" "xf_seg_id x = xf_seg_id (cw_index w)" "xf_is_dirty x" by blast
  have d': "dir_ok ?fs' (closed @ [active @ [r]])"
    using ok r fits lim by (intro dir_ok_update_seg [OF d]) simp_all
  have "seg_at_end ?s' (?c @ rec_image ?n r)"
    using lc rec_size_length [OF r] fits lim by (simp add: seg_at_end_def)
  with w x d' have "writer_ok (w\<lparr>cw_segment := ?s', cw_index := x\<rparr>) ?fs' closed (active @ [r])"
    by (simp add: writer_ok_def all_indexed_def)
  with a x(1) that show thesis by blast
qed

lemma can_accept_iff:
  assumes w: "writer_ok w fs closed active" and r: "rec_ok r"
  shows "can_accept (cas_record_size (of_nat (length (fst (snd r))))) (cw_segment w) \<longleftrightarrow>
    recs_size active + rec_size r \<le> unat (cw_size_limit w)"
proof -
  let ?b = "fst (snd r)"
  have b: "length ?b < 2 ^ 62" using r by (simp add: rec_ok_def)
  then have "unat (cas_record_size (of_nat (length ?b))) = rec_size r" by (intro unat_cas_record_size) simp
  then have c: "cas_record_size (of_nat (length ?b)) = of_nat (rec_size r)" by (metis of_nat_unat ucast_id)
  from w dir_ok_seg [of fs "closed @ [active]" "length closed"]
  have "seg_file_holds fs (of_nat (length closed)) active" by (simp add: writer_ok_def)
  then have s: "length (seg_image (of_nat (length closed)) active) = recs_size active" "recs_size active < 2 ^ 62"
    by (simp_all add: seg_file_holds_def length_seg_image)
  have "rec_size r < 2 ^ 62 + 100" using pad16_bounds(2) [of "length ?b"] b by (simp add: rec_len_def)
  with s have "unat (of_nat (recs_size active) + of_nat (rec_size r) :: u64) = recs_size active + rec_size r"
    using unat_of_nat_u64 [of "recs_size active + rec_size r"] by simp
  with w s c show ?thesis by (simp add: can_accept_def word_le_nat_alt writer_ok_def seg_at_end_def)
qed

text \<open>A write appends to the active segment or to a new one.\<close>

lemma write_ok:
  assumes w: "writer_ok w fs closed active" and r: "rec_ok r" and small: "rec_size r \<le> unat (cw_size_limit w)"
    and l: "length active < 65536" "length closed + 2 < 2 ^ 31"
  obtains w' fs' closed' active' seg_id off where
    "write_record_with_flags (fst r) (fst (snd r)) (snd (snd r)) w fs =
       ((w', fs'), Ok (seg_id, off, of_nat (length (fst (snd r)))))"
    "writer_ok w' fs' closed' active'" "cw_size_limit w' = cw_size_limit w"
    "closed' @ [active'] = closed @ [active @ [r]] \<or> closed' @ [active'] = closed @ [active] @ [[r]]"
proof (cases "recs_size active + rec_size r \<le> unat (cw_size_limit w)")
  case True
  from append_fits_ok [OF w r True] obtain s fs' x where a:
    "append_record (fst r) (fst (snd r)) (snd (snd r)) (cw_segment w) fs =
       Ok (s, fs', of_nat (recs_size active), of_nat (length (fst (snd r))))"
    "index_insert (fst r) (of_nat (recs_size active)) (of_nat (length (fst (snd r)))) (snd (snd r)) (cw_index w) = Ok x"
    "writer_ok (w\<lparr>cw_segment := s, cw_index := x\<rparr>) fs' closed (active @ [r])" .
  from True can_accept_iff [OF w r] have "can_accept (cas_record_size (of_nat (length (fst (snd r))))) (cw_segment w)"
    by simp
  with a(1,2) have "write_record_with_flags (fst r) (fst (snd r)) (snd (snd r)) w fs =
      ((w\<lparr>cw_segment := s, cw_index := x\<rparr>, fs'),
       Ok (sg_seg_id (cw_segment w), of_nat (recs_size active), of_nat (length (fst (snd r)))))"
    by (simp add: write_record_with_flags_def Let_def)
  from that [OF this a(3)] show thesis by simp
next
  case False
  from rotate_segment_ok [OF w l] obtain w1 fs1 where
    rot: "rotate_segment w fs = (w1, fs1)" "writer_ok w1 fs1 (closed @ [active]) []" "cw_size_limit w1 = cw_size_limit w" .
  from small rot(3) have "recs_size [] + rec_size r \<le> unat (cw_size_limit w1)" by simp
  from append_fits_ok [OF rot(2) r this] obtain s fs' x where a:
    "append_record (fst r) (fst (snd r)) (snd (snd r)) (cw_segment w1) fs1 =
       Ok (s, fs', of_nat (recs_size []), of_nat (length (fst (snd r))))"
    "index_insert (fst r) (of_nat (recs_size [])) (of_nat (length (fst (snd r)))) (snd (snd r)) (cw_index w1) = Ok x"
    "writer_ok (w1\<lparr>cw_segment := s, cw_index := x\<rparr>) fs' (closed @ [active]) ([] @ [r])" .
  from False can_accept_iff [OF w r] have "\<not> can_accept (cas_record_size (of_nat (length (fst (snd r))))) (cw_segment w)"
    by simp
  with a(1,2) rot(1) have "write_record_with_flags (fst r) (fst (snd r)) (snd (snd r)) w fs =
      ((w1\<lparr>cw_segment := s, cw_index := x\<rparr>, fs'),
       Ok (sg_seg_id (cw_segment w1), of_nat (recs_size []), of_nat (length (fst (snd r)))))"
    by (simp add: write_record_with_flags_def Let_def)
  from that [OF this a(3)] rot(3) show thesis by simp
qed

lemma writer_flush_ok:
  assumes w: "writer_ok w fs closed active" and l: "length active < 65536"
  obtains w' fs' where "writer_flush w fs = (w', fs')" "writer_ok w' fs' closed active"
    "all_indexed fs' (closed @ [active])" "cw_size_limit w' = cw_size_limit w"
proof -
  obtain x fs1 where f: "index_flush (cw_index w) fs = (x, fs1)" by force
  with index_flush_ok [OF w l f] that [of "w\<lparr>cw_index := x\<rparr>" fs1] show thesis by (simp add: writer_flush_def)
qed

section \<open>Opening a writer\<close>

lemma latest_step_fst:
  "fst (latest_step e b) = (case seg_id_of_name (fst e) of None \<Rightarrow> fst b | Some i \<Rightarrow> max i (fst b))"
  by (auto simp: latest_step_def Let_def max_def split: option.splits)

lemma find_latest_bounds:
  "fst b \<le> fst (fold latest_step es b) \<and>
   (\<forall>e\<in>set es. \<forall>i. seg_id_of_name (fst e) = Some i \<longrightarrow> i \<le> fst (fold latest_step es b)) \<and>
   (fst (fold latest_step es b) = fst b \<or> (\<exists>e\<in>set es. seg_id_of_name (fst e) = Some (fst (fold latest_step es b))))"
proof (induction es arbitrary: b)
  case (Cons e es)
  show ?case
  proof (cases "seg_id_of_name (fst e)")
    case None
    with Cons.IH [of "latest_step e b"] show ?thesis by (auto simp: latest_step_fst)
  next
    case (Some i)
    with Cons.IH [of "latest_step e b"] show ?thesis by (auto simp: latest_step_fst max_def split: if_splits)
  qed
qed simp

lemma find_latest_of_dir:
  assumes d: "dir_ok fs segs"
  shows "fst (find_latest_segment fs) = of_nat (length segs - 1)"
proof -
  let ?m = "fst (find_latest_segment fs)"
  note b = find_latest_bounds [where es = fs and b = "(0, 0)", folded find_latest_segment_def, simplified]
  show ?thesis
  proof (cases segs rule: rev_cases)
    case Nil
    with d have "\<forall>name\<in>fst ` set fs. seg_id_of_name name = None" by (auto simp: dir_ok_def)
    with b Nil show ?thesis by auto
  next
    case (snoc closed active)
    let ?n = "length closed"
    have u: "unat (of_nat ?n :: u32) = ?n" using d snoc by (intro unat_of_nat_u32) (simp add: dir_ok_def)
    from dir_ok_seg [OF d, of ?n] snoc have "map_of fs (seg_file (of_nat ?n)) \<noteq> None" by (simp add: seg_file_holds_def)
    then obtain e where e: "e \<in> set fs" "seg_id_of_name (fst e) = Some (of_nat ?n)"
      by (metis map_of_SomeD option.exhaust fst_conv seg_id_of_seg_file)
    with b have le: "of_nat ?n \<le> ?m" by blast
    from b d snoc have "unat ?m \<le> ?n" by (auto simp: dir_ok_def image_iff)
    with le u have "?m = of_nat ?n" by (simp add: word_unat_eq_iff word_le_nat_alt)
    with snoc show ?thesis by simp
  qed
qed

lemma index_open_indexed:
  assumes "indexed fs seg_id rs"
  obtains x where "index_open seg_id fs = Ok x" "index_loaded x rs" "xf_seg_id x = seg_id" "\<not> xf_is_dirty x"
proof (cases "map_of fs (idx_file seg_id)")
  case None
  with assms have "rs = []" by (simp add: indexed_def)
  with None that [of "index_create seg_id"] index_holds_create [of seg_id] show thesis
    by (simp add: index_open_def index_loaded_def) (simp add: index_create_def)
next
  case (Some bs)
  with assms obtain x where x: "bs = index_bytes x" "index_holds x rs" "length rs < 65536" by (auto simp: indexed_def)
  let ?y = "(index_create seg_id)\<lparr>xf_entries := sort_index_entries (xf_entries x), xf_bloom := xf_bloom x,
          xf_entry_count := of_nat (length (xf_entries x))\<rparr>"
  from index_load_bytes [OF index_holds_storable [OF x(2,3)], of "index_create seg_id"]
  have "index_open seg_id fs = Ok ?y" by (simp add: index_open_def Some x(1))
  moreover have "index_holds ?y rs" using x(2) by (simp add: index_holds_def sort_index_entries_def)
  then have "index_loaded ?y rs" using sorted_sort_index_entries [of "xf_entries x"] by (simp add: index_loaded_def)
  moreover have "xf_seg_id ?y = seg_id" "\<not> xf_is_dirty ?y" by (simp_all add: index_create_def)
  ultimately show thesis using that by blast
qed

lemma writer_new_ok:
  assumes d: "dir_ok fs segs" and i: "all_indexed fs segs" and lim: "unat limit < 2 ^ 62"
  obtains w fs' closed active where "writer_new (Some limit) fs = (fs', Ok w)" "writer_ok w fs' closed active"
    "cw_size_limit w = limit" "closed @ [active] = (if segs = [] then [[]] else segs)"
proof (cases segs rule: rev_cases)
  case Nil
  from d Nil have n: "map_of fs (seg_file 0) = None"
    using dir_ok_new_segment(1) [of fs "[]"] by simp
  let ?fs = "AList.update (seg_file 0) [] fs"
  let ?s = "\<lparr>sg_seg_id = 0, sg_pos = 0, sg_current_size = 0, sg_size_limit = limit, sg_record_count = 0\<rparr>"
  have x: "map_of fs (idx_file 0) = None" using d Nil unfolding dir_ok_def by fastforce
  have l: "fst (find_latest_segment fs) = 0" using find_latest_of_dir [OF d] Nil by simp
  have w: "writer_new (Some limit) fs = (?fs, Ok \<lparr>cw_segment = ?s, cw_index = index_create 0, cw_size_limit = limit, cw_next_seg_id = 1\<rparr>)"
    by (simp add: writer_new_def l seg_create_def n index_open_def x Let_def)
  have "dir_ok ?fs [[]]" using dir_ok_new_segment(2) [of fs "[]"] d Nil by simp
  then have "writer_ok \<lparr>cw_segment = ?s, cw_index = index_create 0, cw_size_limit = limit, cw_next_seg_id = 1\<rparr> ?fs [] []"
    using lim x by (simp add: writer_ok_def all_indexed_def seg_at_end_empty index_holds_create indexed_def)
      (simp add: index_create_def)
  with that [OF w] Nil show thesis by simp
next
  case (snoc closed active)
  let ?n = "of_nat (length closed) :: u32"
  from dir_ok_seg [OF d, of "length closed"] snoc have h: "seg_file_holds fs ?n active" by simp
  then have m: "map_of fs (seg_file ?n) = Some (seg_image ?n active)"
    and sz: "length (seg_image ?n active) < 2 ^ 62" by (simp_all add: seg_file_holds_def length_seg_image)
  from i snoc have "indexed fs ?n active" by (fastforce simp: all_indexed_def)
  from index_open_indexed [OF this] obtain x where
    x: "index_open ?n fs = Ok x" "index_loaded x active" "xf_seg_id x = ?n" "\<not> xf_is_dirty x" .
  have l: "fst (find_latest_segment fs) = ?n" using find_latest_of_dir [OF d] snoc by simp
  let ?s = "\<lparr>sg_seg_id = ?n, sg_pos = length (seg_image ?n active),
     sg_current_size = of_nat (length (seg_image ?n active)), sg_size_limit = limit, sg_record_count = 0\<rparr>"
  let ?w = "\<lparr>cw_segment = ?s, cw_index = x, cw_size_limit = limit, cw_next_seg_id = ?n + 1\<rparr>"
  have w: "writer_new (Some limit) fs = (fs, Ok ?w)"
    by (simp add: writer_new_def l seg_create_def m get_or_def x(1) Let_def)
  have c: "all_indexed fs closed"
    unfolding all_indexed_def
  proof (intro allI impI)
    fix k assume "k < length closed"
    with i snoc show "indexed fs (of_nat k) (closed ! k)" by (auto simp: all_indexed_def nth_append dest: spec [of _ k])
  qed
  have "writer_ok ?w fs closed active"
    using d snoc c sz lim x \<open>indexed fs ?n active\<close> by (simp add: writer_ok_def seg_at_end_def index_loaded_def)
  with that [OF w] snoc show thesis by simp
qed

section \<open>Opening a reader, and looking up\<close>

definition reader_ok :: "CasReader \<Rightarrow> cas_rec list list \<Rightarrow> bool" where
  "reader_ok r segs \<longleftrightarrow> (\<forall>ix\<in>set (cr_indexes r). unat (fst ix) < length segs \<and>
     index_loaded (snd ix) (segs ! unat (fst ix)) \<and>
     (\<exists>s. map_of (cr_segments r) (fst ix) = Some s \<and> seg_readable s (fst ix) (segs ! unat (fst ix))))"

lemma discover_ok:
  assumes d: "dir_ok fs segs" and i: "all_indexed fs segs"
    and names: "\<forall>name\<in>set names. \<forall>i. seg_id_of_name name = Some i \<longrightarrow> unat i < length segs"
    and r: "reader_ok r segs"
  shows "\<exists>r'. discover_segments names fs r = Ok r' \<and> reader_ok r' segs \<and>
    fst ` set (cr_indexes r') = fst ` set (cr_indexes r) \<union> {i. \<exists>name\<in>set names. seg_id_of_name name = Some i}"
  using names r
proof (induction names arbitrary: r)
  case (Cons name names)
  show ?case
  proof (cases "seg_id_of_name name")
    case None
    with Cons.IH [of r] Cons.prems show ?thesis by auto
  next
    case (Some k)
    with Cons.prems have k: "unat k < length segs" by simp
    have ofk: "of_nat (unat k) = k" by simp
    from dir_ok_seg [OF d k] ofk have h: "seg_file_holds fs k (segs ! unat k)" by simp
    then have m: "map_of fs (seg_file k) = Some (seg_image k (segs ! unat k))"
      and sz: "length (seg_image k (segs ! unat k)) = recs_size (segs ! unat k)" "recs_size (segs ! unat k) < 2 ^ 62"
      by (simp_all add: seg_file_holds_def length_seg_image)
    from i k ofk have "indexed fs k (segs ! unat k)" unfolding all_indexed_def by metis
    from index_open_indexed [OF this] obtain x where
      x: "index_open k fs = Ok x" "index_loaded x (segs ! unat k)" .
    let ?s = "\<lparr>sg_seg_id = k, sg_pos = length (seg_image k (segs ! unat k)),
      sg_current_size = of_nat (length (seg_image k (segs ! unat k))), sg_size_limit = DEFAULT_SEGMENT_SIZE_LIMIT, sg_record_count = 0\<rparr>"
    have s: "seg_open k fs = Ok ?s" by (simp add: seg_open_def m)
    have "unat (of_nat (recs_size (segs ! unat k)) :: u64) = recs_size (segs ! unat k)"
      using sz(2) by (intro unat_of_nat_u64) simp
    then have rd: "seg_readable ?s k (segs ! unat k)" by (simp add: seg_readable_def sz(1))
    let ?r = "r\<lparr>cr_segments := bm_insert k ?s (cr_segments r), cr_indexes := bm_insert k x (cr_indexes r)\<rparr>"
    have "reader_ok ?r segs"
      unfolding reader_ok_def
    proof
      fix ix assume "ix \<in> set (cr_indexes ?r)"
      then consider "ix = (k, x)" | "ix \<in> set (cr_indexes r)" using set_bm_insert by fastforce
      then show "unat (fst ix) < length segs \<and> index_loaded (snd ix) (segs ! unat (fst ix)) \<and>
        (\<exists>s. map_of (cr_segments ?r) (fst ix) = Some s \<and> seg_readable s (fst ix) (segs ! unat (fst ix)))"
        using k x(2) rd Cons.prems(2) by cases (auto simp: reader_ok_def)
    qed
    with Cons.IH [of ?r] Cons.prems(1) obtain r' where r': "discover_segments names fs ?r = Ok r'" "reader_ok r' segs"
      "fst ` set (cr_indexes r') = fst ` set (cr_indexes ?r) \<union> {i. \<exists>name\<in>set names. seg_id_of_name name = Some i}"
      by auto
    moreover from r'(1) Some x(1) s have "discover_segments (name # names) fs r = Ok r'" by simp
    ultimately show ?thesis using Some by auto
  qed
qed simp

lemma reader_new_ok:
  assumes d: "dir_ok fs segs" and i: "all_indexed fs segs"
  obtains r where "reader_new fs = Ok r" "reader_ok r segs" "\<forall>k<length segs. of_nat k \<in> fst ` set (cr_indexes r)"
proof -
  have "\<forall>name\<in>set (map fst fs). \<forall>i. seg_id_of_name name = Some i \<longrightarrow> unat i < length segs"
    using d by (simp add: dir_ok_def)
  from discover_ok [OF d i this, of "\<lparr>cr_segments = [], cr_indexes = []\<rparr>"] obtain r where
    r: "reader_new fs = Ok r" "reader_ok r segs"
      "fst ` set (cr_indexes r) = {i. \<exists>name\<in>set (map fst fs). seg_id_of_name name = Some i}"
    by (auto simp: reader_ok_def reader_new_def)
  have "\<exists>name\<in>set (map fst fs). seg_id_of_name name = Some (of_nat k)" if "k < length segs" for k
  proof -
    from dir_ok_seg [OF d that] have "map_of fs (seg_file (of_nat k)) \<noteq> None" by (simp add: seg_file_holds_def)
    then have "seg_file (of_nat k) \<in> set (map fst fs)" by (metis domIff dom_map_of_conv_image_fst list.set_map)
    then show ?thesis by (intro bexI [of _ "seg_file (of_nat k)"]) simp_all
  qed
  with r that show thesis by blast
qed

lemma find_in_indexes_ok:
  assumes d: "dir_ok fs segs" and r: "reader_ok r segs"
    and fp: "\<forall>x\<in>set (concat segs). fp64_of (fst x) = fp64_of atom_id \<longrightarrow> fst x = atom_id"
    and xs: "set xs \<subseteq> set (cr_indexes r)"
  shows "(\<exists>i off body flags. find_in_indexes atom_id xs r fs = Ok (Some (i, off, body)) \<and>
            (atom_id, body, flags) \<in> set (concat segs))
    \<or> find_in_indexes atom_id xs r fs = Ok None \<and> (\<forall>ix\<in>set xs. atom_id \<notin> fst ` set (segs ! unat (fst ix)))"
  using xs
proof (induction xs)
  case (Cons ix xs)
  let ?k = "fst ix" and ?rs = "segs ! unat (fst ix)"
  from Cons.prems r obtain s where k: "unat ?k < length segs" and l: "index_loaded (snd ix) ?rs"
    and s: "map_of (cr_segments r) ?k = Some s" "seg_readable s ?k ?rs" by (auto simp: reader_ok_def)
  from dir_ok_seg [OF d k] have h: "seg_file_holds fs ?k ?rs" by simp
  from index_find_cases [OF l, of atom_id] show ?case
  proof
    assume "\<exists>p\<in>set (placed 0 ?rs). index_find atom_id (snd ix) = Ok (Some (entry_of p)) \<and>
      fp64_of (fst (snd p)) = fp64_of atom_id"
    then obtain p where p: "p \<in> set (placed 0 ?rs)" "index_find atom_id (snd ix) = Ok (Some (entry_of p))"
      "fp64_of (fst (snd p)) = fp64_of atom_id" by blast
    from p(1) have "snd p \<in> set (map snd (placed 0 ?rs))" by simp
    then have "snd p \<in> set ?rs" unfolding placed_records .
    with k have mem: "snd p \<in> set (concat segs)" by (auto intro: nth_mem)
    with fp p(3) have a: "fst (snd p) = atom_id" by blast
    have "find_in_indexes atom_id (ix # xs) r fs = Ok (Some (?k, of_nat (fst p), fst (snd (snd p))))"
      using p(2) s(1) a read_placed [OF p(1) h s(2)] by (simp add: cas_header_new_def Let_def)
    moreover from mem a have "(atom_id, fst (snd (snd p)), snd (snd (snd p))) \<in> set (concat segs)"
      by (metis prod.collapse)
    ultimately show ?thesis by blast
  next
    assume "index_find atom_id (snd ix) = Ok None \<and> atom_id \<notin> fst ` set ?rs"
    with Cons.IH Cons.prems show ?thesis by auto
  qed
qed simp

lemma find_record_ok:
  assumes d: "dir_ok fs segs" and i: "all_indexed fs segs"
    and fp: "\<forall>x\<in>set (concat segs). fp64_of (fst x) = fp64_of atom_id \<longrightarrow> fst x = atom_id"
    and new: "reader_new fs = Ok r"
  shows "if atom_id \<in> fst ` set (concat segs)
         then \<exists>i off body flags. find_record atom_id r fs = Ok (Some (i, off, body)) \<and> (atom_id, body, flags) \<in> set (concat segs)
         else find_record atom_id r fs = Ok None"
proof -
  from reader_new_ok [OF d i] new have r: "reader_ok r segs" "\<forall>k<length segs. of_nat k \<in> fst ` set (cr_indexes r)"
    by (metis res.inject(2))+
  have l: "length segs < 2 ^ 31" using d by (simp add: dir_ok_def)
  consider (found) "\<exists>i off body flags. find_record atom_id r fs = Ok (Some (i, off, body)) \<and>
      (atom_id, body, flags) \<in> set (concat segs)"
    | (none) "find_record atom_id r fs = Ok None" "\<forall>ix\<in>set (cr_indexes r). atom_id \<notin> fst ` set (segs ! unat (fst ix))"
    using find_in_indexes_ok [OF d r(1) fp subset_refl] unfolding find_record_def by blast
  then show ?thesis
  proof cases
    case found
    then have "atom_id \<in> fst ` set (concat segs)" by force
    with found show ?thesis by simp
  next
    case none
    have "atom_id \<notin> fst ` set (segs ! k)" if "k < length segs" for k
    proof -
      from r(2) that obtain ix where "ix \<in> set (cr_indexes r)" "fst ix = of_nat k" by fastforce
      moreover have "unat (of_nat k :: u32) = k" using that l by (intro unat_of_nat_u32) simp
      ultimately show ?thesis using none(2) by metis
    qed
    then have "atom_id \<notin> fst ` set (concat segs)" by (auto simp: in_set_conv_nth)  (metis fst_conv image_eqI nth_mem)
    with none(1) show ?thesis by simp
  qed
qed

section \<open>Sessions of writes\<close>

primrec write_all :: "cas_rec list \<Rightarrow> CasWriter \<Rightarrow> cas_files \<Rightarrow> (CasWriter \<times> cas_files) io" where
  "write_all [] w fs = Ok (w, fs)"
| "write_all (r # rs) w fs =
     (case write_record_with_flags (fst r) (fst (snd r)) (snd (snd r)) w fs of
        ((w, fs), res) \<Rightarrow> bind_res res (\<lambda>_. write_all rs w fs))"

text \<open>A run of the program: open a writer, write records, flush.\<close>

definition cas_session :: "u64 \<Rightarrow> cas_rec list \<Rightarrow> cas_files \<Rightarrow> cas_files io" where
  "cas_session limit rs fs =
     (case writer_new (Some limit) fs of
        (fs, r) \<Rightarrow> bind_res r (\<lambda>w. bind_res (write_all rs w fs) (\<lambda>(w, fs). Ok (snd (writer_flush w fs)))))"

primrec cas_sessions :: "u64 \<Rightarrow> cas_rec list list \<Rightarrow> cas_files \<Rightarrow> cas_files io" where
  "cas_sessions limit [] fs = Ok fs"
| "cas_sessions limit (rs # rss) fs = bind_res (cas_session limit rs fs) (cas_sessions limit rss)"

lemma write_all_ok:
  assumes "writer_ok w fs closed active" "list_all rec_ok rs" "list_all (\<lambda>r. rec_size r \<le> unat (cw_size_limit w)) rs"
    and "length (concat (closed @ [active])) + length rs < 65536" "length closed \<le> length (concat (closed @ [active]))"
  shows "\<exists>w' fs' closed' active'. write_all rs w fs = Ok (w', fs') \<and> writer_ok w' fs' closed' active' \<and>
    concat (closed' @ [active']) = concat (closed @ [active]) @ rs \<and> length closed' \<le> length (concat (closed' @ [active']))"
  using assms
proof (induction rs arbitrary: w fs closed active)
  case (Cons r rs)
  note w = Cons.prems(1) and l = Cons.prems(4,5)
  from Cons.prems(2,3) have r: "rec_ok r" "rec_size r \<le> unat (cw_size_limit w)" by simp_all
  have "length active < 65536" "length closed + 2 < 2 ^ 31" using l by simp_all
  from write_ok [OF w r this] obtain w1 fs1 closed1 active1 seg_id off where
    s: "write_record_with_flags (fst r) (fst (snd r)) (snd (snd r)) w fs =
       ((w1, fs1), Ok (seg_id, off, of_nat (length (fst (snd r)))))"
      "writer_ok w1 fs1 closed1 active1" "cw_size_limit w1 = cw_size_limit w"
    and c: "closed1 @ [active1] = closed @ [active @ [r]] \<or> closed1 @ [active1] = closed @ [active] @ [[r]]" .
  from c have cc: "concat (closed1 @ [active1]) = concat (closed @ [active]) @ [r]"
    and "length closed1 \<le> length closed + 1"
    by (force, metis add_diff_cancel_right' le_add1 length_append_singleton nat_le_linear append_assoc Suc_eq_plus1 diff_Suc_1 order.refl)
  then have l1: "length (concat (closed1 @ [active1])) + length rs < 65536"
    "length closed1 \<le> length (concat (closed1 @ [active1]))" using l by (simp_all add: cc del: concat_append)
  from Cons.prems(2,3) s(3) have "list_all rec_ok rs" "list_all (\<lambda>r. rec_size r \<le> unat (cw_size_limit w1)) rs" by simp_all
  from Cons.IH [OF s(2) this l1] obtain w' fs' closed' active' where
    "write_all rs w1 fs1 = Ok (w', fs')" "writer_ok w' fs' closed' active'"
    "concat (closed' @ [active']) = concat (closed1 @ [active1]) @ rs" "length closed' \<le> length (concat (closed' @ [active']))" by blast
  moreover from this(1) s(1) have "write_all (r # rs) w fs = Ok (w', fs')" by simp
  moreover have "concat (closed1 @ [active1]) @ rs = concat (closed @ [active]) @ (r # rs)" unfolding cc by simp
  ultimately show ?case by metis
qed auto

lemma cas_session_ok:
  assumes d: "dir_ok fs segs" and i: "all_indexed fs segs" and lim: "unat limit < 2 ^ 62"
    and rs: "list_all rec_ok rs" "list_all (\<lambda>r. rec_size r \<le> unat limit) rs"
    and l: "length (concat segs) + length rs < 65536" "length segs \<le> length (concat segs) + 1"
  shows "\<exists>fs' segs'. cas_session limit rs fs = Ok fs' \<and> dir_ok fs' segs' \<and> all_indexed fs' segs' \<and>
    concat segs' = concat segs @ rs \<and> length segs' \<le> length (concat segs') + 1"
proof -
  from writer_new_ok [OF d i lim] obtain w fs1 closed active where
    w: "writer_new (Some limit) fs = (fs1, Ok w)" "writer_ok w fs1 closed active" "cw_size_limit w = limit"
      "closed @ [active] = (if segs = [] then [[]] else segs)" .
  have c: "concat (closed @ [active]) = concat segs" using w(4) by (cases "segs = []") simp_all
  have "length (closed @ [active]) \<le> length (concat segs) + 1" using w(4) l(2) by (cases "segs = []") (simp_all only: if_True if_False, simp_all)
  then have l': "length (concat (closed @ [active])) + length rs < 65536" "length closed \<le> length (concat (closed @ [active]))"
    using l(1) by (simp_all add: c del: concat_append)
  from rs w(3) have "list_all (\<lambda>r. rec_size r \<le> unat (cw_size_limit w)) rs" by simp
  from write_all_ok [OF w(2) rs(1) this l'] obtain w2 fs2 closed2 active2 where
    a: "write_all rs w fs1 = Ok (w2, fs2)" "writer_ok w2 fs2 closed2 active2"
      "concat (closed2 @ [active2]) = concat segs @ rs" "length closed2 \<le> length (concat (closed2 @ [active2]))"
    unfolding c by blast
  have "length active2 \<le> length (concat (closed2 @ [active2]))" by simp
  then have "length active2 < 65536" using l(1) unfolding a(3) by simp
  from writer_flush_ok [OF a(2) this] obtain w3 fs3 where
    f: "writer_flush w2 fs2 = (w3, fs3)" "writer_ok w3 fs3 closed2 active2" "all_indexed fs3 (closed2 @ [active2])" .
  have "cas_session limit rs fs = Ok fs3" by (simp add: cas_session_def w(1) a(1) f(1))
  moreover have "dir_ok fs3 (closed2 @ [active2])" using f(2) by (simp add: writer_ok_def)
  ultimately show ?thesis using f(3) a(3,4) by (intro exI [of _ fs3] exI [of _ "closed2 @ [active2]"]) (simp del: concat_append)
qed

lemma cas_sessions_ok:
  assumes "dir_ok fs segs" "all_indexed fs segs" "unat limit < 2 ^ 62"
    and "list_all rec_ok (concat rss)" "list_all (\<lambda>r. rec_size r \<le> unat limit) (concat rss)"
    and "length (concat segs) + length (concat rss) < 65536" "length segs \<le> length (concat segs) + 1"
  shows "\<exists>fs' segs'. cas_sessions limit rss fs = Ok fs' \<and> dir_ok fs' segs' \<and> all_indexed fs' segs' \<and>
    concat segs' = concat segs @ concat rss"
  using assms
proof (induction rss arbitrary: fs segs)
  case (Cons rs rss)
  from Cons.prems(4-6) have "list_all rec_ok rs" "list_all (\<lambda>r. rec_size r \<le> unat limit) rs"
    "length (concat segs) + length rs < 65536" by simp_all
  from cas_session_ok [OF Cons.prems(1-3) this Cons.prems(7)] obtain fs1 segs1 where
    s: "cas_session limit rs fs = Ok fs1" "dir_ok fs1 segs1" "all_indexed fs1 segs1" "concat segs1 = concat segs @ rs"
      "length segs1 \<le> length (concat segs1) + 1" by blast
  from Cons.prems(4-6) s(4) have "list_all rec_ok (concat rss)" "list_all (\<lambda>r. rec_size r \<le> unat limit) (concat rss)"
    "length (concat segs1) + length (concat rss) < 65536" by simp_all
  from Cons.IH [OF s(2,3) Cons.prems(3) this s(5)] s(1,4) show ?case by auto
qed auto

lemma fp64_of_eq:
  assumes "8 \<le> length a" "8 \<le> length b"
  shows "fp64_of a = fp64_of b \<longleftrightarrow> take 8 a = take 8 b"
proof -
  have "u64_le (fp64_of a) = take 8 a" "u64_le (fp64_of b) = take 8 b"
    using assms by (simp_all add: fp64_of_def u_le_le_u)
  then show ?thesis by (metis fp64_of_def)
qed

text \<open>
  C2: Over any number of runs of the program, each opening a writer, writing records and flushing, whatever the
  rotation to new segments: afterwards a reader opens, an atom that was written is found with a body it was written
  with, and an atom that was not is not found. The records fit a segment, are fewer than 65536, and no two stored
  atoms share their first eight bytes with the one looked up.
\<close>

theorem cas_sessions_found:
  assumes "unat limit < 2 ^ 62" "list_all rec_ok (concat rss)" "list_all (\<lambda>r. rec_size r \<le> unat limit) (concat rss)"
    and "length (concat rss) < 65536"
    and "\<forall>x\<in>set (concat rss). fp64_of (fst x) = fp64_of atom_id \<longrightarrow> fst x = atom_id"
  shows "\<exists>fs r. cas_sessions limit rss [] = Ok fs \<and> reader_new fs = Ok r \<and>
    (if atom_id \<in> fst ` set (concat rss)
     then \<exists>i off body flags. find_record atom_id r fs = Ok (Some (i, off, body)) \<and> (atom_id, body, flags) \<in> set (concat rss)
     else find_record atom_id r fs = Ok None)"
proof -
  have "dir_ok [] []" "all_indexed [] []" by (simp_all add: dir_ok_def all_indexed_def)
  from cas_sessions_ok [OF this assms(1-3)] assms(4) obtain fs segs where
    s: "cas_sessions limit rss [] = Ok fs" "dir_ok fs segs" "all_indexed fs segs" "concat segs = concat rss" by auto
  from reader_new_ok [OF s(2,3)] obtain r where r: "reader_new fs = Ok r" .
  from assms(5) have "\<forall>x\<in>set (concat segs). fp64_of (fst x) = fp64_of atom_id \<longrightarrow> fst x = atom_id"
    unfolding s(4) .
  note find_record_ok [OF s(2,3) this r, unfolded s(4)]
  with s(1) r show ?thesis by blast
qed

theorem cas_sessions_found_witness:
  "\<exists>fs r i off. cas_sessions 1000 [[(replicate 32 1, [1, 2, 3], 0)], [(replicate 32 2, [], 7)]] [] = Ok fs \<and>
     reader_new fs = Ok r \<and> find_record (replicate 32 1) r fs = Ok (Some (i, off, [1, 2, 3]))"
proof -
  have "fp64_of (replicate 32 2) \<noteq> fp64_of (replicate 32 1)" by (simp add: fp64_of_eq replicate_eq_replicate)
  then show ?thesis
    using cas_sessions_found [of 1000 "[[(replicate 32 1, [1, 2, 3], 0)], [(replicate 32 2, [], 7)]]" "replicate 32 1"]
    by (simp add: rec_ok_def rec_len_def pad16_def)
qed

section \<open>A session that stays in one segment\<close>

lemma write_all_fits:
  assumes "writer_ok w fs closed active" "list_all rec_ok rs"
    and "recs_size active + recs_size rs \<le> unat (cw_size_limit w)"
  shows "\<exists>w' fs'. write_all rs w fs = Ok (w', fs') \<and> writer_ok w' fs' closed (active @ rs) \<and>
    (\<forall>i. map_of fs' (idx_file i) = map_of fs (idx_file i))"
  using assms
proof (induction rs arbitrary: w fs active)
  case (Cons r rs)
  from Cons.prems have r: "rec_ok r" "recs_size active + rec_size r \<le> unat (cw_size_limit w)" by simp_all
  from append_fits_ok [OF Cons.prems(1) this] obtain s fs1 x where a:
    "append_record (fst r) (fst (snd r)) (snd (snd r)) (cw_segment w) fs =
       Ok (s, fs1, of_nat (recs_size active), of_nat (length (fst (snd r))))"
    "index_insert (fst r) (of_nat (recs_size active)) (of_nat (length (fst (snd r)))) (snd (snd r)) (cw_index w) = Ok x"
    "writer_ok (w\<lparr>cw_segment := s, cw_index := x\<rparr>) fs1 closed (active @ [r])" .
  let ?w = "w\<lparr>cw_segment := s, cw_index := x\<rparr>"
  have c: "can_accept (cas_record_size (of_nat (length (fst (snd r))))) (cw_segment w)"
    using can_accept_iff [OF Cons.prems(1) r(1)] r(2) by simp
  from a(1) have fs1: "map_of fs1 (idx_file i) = map_of fs (idx_file i)" for i
    by (auto simp: append_record_def Let_def split: if_splits)
  have "list_all rec_ok rs" "recs_size (active @ [r]) + recs_size rs \<le> unat (cw_size_limit ?w)"
    using Cons.prems(2,3) by simp_all
  from Cons.IH [OF a(3) this] obtain w' fs' where
    "write_all rs ?w fs1 = Ok (w', fs')" "writer_ok w' fs' closed ((active @ [r]) @ rs)"
    "\<forall>i. map_of fs' (idx_file i) = map_of fs1 (idx_file i)" by blast
  moreover have "write_all (r # rs) w fs = write_all rs ?w fs1"
    using a(1,2) c by (simp add: write_record_with_flags_def Let_def)
  ultimately show ?case using fs1 by auto
qed auto

lemma first_writer:
  assumes "unat limit < 2 ^ 62"
  obtains w fs where "writer_new (Some limit) [] = (fs, Ok w)" "writer_ok w fs [] []" "cw_size_limit w = limit"
    "\<forall>i. map_of fs (idx_file i) = None"
proof -
  have "dir_ok [] []" "all_indexed [] []" by (simp_all add: dir_ok_def all_indexed_def)
  from writer_new_ok [OF this assms] obtain w fs closed active where
    w: "writer_new (Some limit) [] = (fs, Ok w)" "writer_ok w fs closed active" "cw_size_limit w = limit"
      "closed @ [active] = [[]]" by (metis (full_types))
  from w(1) have "map_of fs (idx_file i) = None" for i
    by (auto simp: writer_new_def Let_def seg_create_def split: prod.splits)
  moreover from w(4) have "closed = []" "active = []" by (cases closed; simp)+
  ultimately show thesis using w that by blast
qed

lemma session_one_segment:
  assumes lim: "unat limit < 2 ^ 62" and rs: "list_all rec_ok rs" "recs_size rs \<le> unat limit" "length rs < 65536"
  obtains fs where "cas_session limit rs [] = Ok fs" "dir_ok fs [rs]" "all_indexed fs [rs]"
proof -
  from first_writer [OF lim] obtain w fs where w: "writer_new (Some limit) [] = (fs, Ok w)" "writer_ok w fs [] []"
    "cw_size_limit w = limit" .
  from write_all_fits [OF w(2) rs(1)] rs(2) w(3) obtain w1 fs1 where
    a: "write_all rs w fs = Ok (w1, fs1)" "writer_ok w1 fs1 [] rs" by auto
  from writer_flush_ok [OF a(2) rs(3)] obtain w2 fs2 where
    f: "writer_flush w1 fs1 = (w2, fs2)" "writer_ok w2 fs2 [] rs" "all_indexed fs2 ([] @ [rs])" .
  have "cas_session limit rs [] = Ok fs2" by (simp add: cas_session_def w(1) a(1) f(1))
  moreover from f(2) have "dir_ok fs2 [rs]" by (simp add: writer_ok_def)
  ultimately show thesis using f(3) that by simp
qed

section \<open>Atoms with the same first eight bytes\<close>

lemma discover_bm_ok:
  "discover_segments names fs r = Ok r' \<Longrightarrow> bm_ok (cr_indexes r) \<Longrightarrow> bm_ok (cr_indexes r')"
  by (induction names arbitrary: r) (auto split: option.splits)

lemma singleton_map:
  assumes "distinct (map fst m)" "(k, v) \<in> set m" "\<And>x. x \<in> set m \<Longrightarrow> fst x = k"
  shows "m = [(k, v)]"
proof (cases m)
  case (Cons y ys)
  have "ys = []"
  proof (cases ys)
    case (Cons z zs)
    with \<open>m = y # ys\<close> assms(1) assms(3) [of y] assms(3) [of z] show ?thesis by simp
  qed
  with Cons assms(2) show ?thesis by simp
qed (use assms in simp)

lemma reader_one_segment:
  assumes d: "dir_ok fs [rs]" and i: "all_indexed fs [rs]"
  obtains r x s where "reader_new fs = Ok r" "cr_indexes r = [(0, x)]" "map_of (cr_segments r) 0 = Some s"
    "index_loaded x rs" "seg_readable s 0 rs" "seg_file_holds fs 0 rs"
proof -
  from reader_new_ok [OF d i] obtain r where r: "reader_new fs = Ok r" "reader_ok r [rs]"
    "\<forall>k<length [rs]. of_nat k \<in> fst ` set (cr_indexes r)" .
  from r(3) have "0 \<in> fst ` set (cr_indexes r)" by simp
  then obtain x where x: "(0, x) \<in> set (cr_indexes r)" by force
  have all: "fst ix = 0" if "ix \<in> set (cr_indexes r)" for ix
    using that r(2) by (auto simp: reader_ok_def unat_eq_zero)
  have "bm_ok (cr_indexes r)" using r(1) discover_bm_ok by (fastforce simp: reader_new_def)
  then have "distinct (map fst (cr_indexes r))" by (rule bm_ok_distinct)
  from singleton_map [OF this x all] have "cr_indexes r = [(0, x)]" .
  moreover from x r(2) obtain s where "map_of (cr_segments r) 0 = Some s" "index_loaded x rs" "seg_readable s 0 rs"
    by (force simp: reader_ok_def)
  moreover have "seg_file_holds fs 0 rs" using dir_ok_seg [OF d, of 0] by simp
  ultimately show thesis using r(1) that by blast
qed

text \<open>
  C30: After one run that filled one segment, of two atoms that share their first eight bytes at most one is found: the binary search
  returns one entry, and the record of another atom ends the search in that segment.
\<close>

theorem same_prefix_hidden:
  assumes "unat limit < 2 ^ 62" "list_all rec_ok rs" "recs_size rs \<le> unat limit" "length rs < 65536"
    and "a \<in> fst ` set rs" "b \<in> fst ` set rs" "a \<noteq> b" "fp64_of a = fp64_of b"
  shows "\<exists>fs r. cas_session limit rs [] = Ok fs \<and> reader_new fs = Ok r \<and>
    (find_record a r fs = Ok None \<or> find_record b r fs = Ok None)"
proof -
  from session_one_segment [OF assms(1-4)] obtain fs where
    s: "cas_session limit rs [] = Ok fs" "dir_ok fs [rs]" "all_indexed fs [rs]" .
  from reader_one_segment [OF s(2,3)] obtain r x sg where r: "reader_new fs = Ok r" "cr_indexes r = [(0, x)]"
    "map_of (cr_segments r) 0 = Some sg" and l: "index_loaded x rs" and sg: "seg_readable sg 0 rs" "seg_file_holds fs 0 rs" .
  let ?e = "index_search (xf_entries x) (total_cmp_key (fp64_of a)) 0 (length (xf_entries x))"
  from l have "bloom_holds (xf_bloom x) rs" by (simp add: index_loaded_def index_holds_def)
  with assms(5,6) have "bloom_might_contain (xf_bloom x) a = (Ok True :: bool io)"
    "bloom_might_contain (xf_bloom x) b = (Ok True :: bool io)" by (auto simp: bloom_holds_def)
  then have f: "index_find a x = Ok ?e" "index_find b x = Ok ?e" using assms(8) by (simp_all add: index_find_def)
  from index_find_cases [OF l, of a] f(1) assms(5) obtain p where p: "p \<in> set (placed 0 rs)" "?e = Some (entry_of p)" by auto
  have "find_record c r fs = (if fst (snd p) = c then Ok (Some (0, of_nat (fst p), fst (snd (snd p)))) else Ok None)"
    if "index_find c x = Ok ?e" for c
    using that p(2) r(2,3) read_placed [OF p(1) sg(2,1)] by (simp add: find_record_def cas_header_new_def Let_def)
  with f have "find_record a r fs = Ok None \<or> find_record b r fs = Ok None" using assms(7) by auto
  with s(1) r(1) show ?thesis by blast
qed

theorem same_prefix_hidden_witness:
  "\<exists>fs r. cas_session 1000 [(replicate 32 1, [1], 0), (replicate 8 1 @ replicate 24 2, [2], 0)] [] = Ok fs \<and>
     reader_new fs = Ok r \<and>
     (find_record (replicate 32 1) r fs = Ok None \<or> find_record (replicate 8 1 @ replicate 24 2) r fs = Ok None)"
proof -
  have "(replicate 32 1 :: bytes) ! 8 \<noteq> (replicate 8 1 @ replicate 24 2) ! 8" by (simp add: nth_append)
  then have ne: "(replicate 32 1 :: bytes) \<noteq> replicate 8 1 @ replicate 24 2" by metis
  have "fp64_of (replicate 32 1) = fp64_of (replicate 8 1 @ replicate 24 2)" by (simp add: fp64_of_def)
  with ne show ?thesis
    using same_prefix_hidden [of 1000 "[(replicate 32 1, [1], 0), (replicate 8 1 @ replicate 24 2, [2], 0)]"
      "replicate 32 1" "replicate 8 1 @ replicate 24 2"]
    by (simp add: rec_ok_def rec_len_def pad16_def)
qed

section \<open>Index entries that were not flushed\<close>

definition index_empty :: "IndexFile \<Rightarrow> bool" where
  "index_empty x \<longleftrightarrow> xf_entries x = [] \<and> bf_num_bits (xf_bloom x) \<noteq> 0"

lemma index_find_empty: "index_empty x \<Longrightarrow> index_find atom_id x = Ok None"
  by (simp add: index_find_def index_empty_def bloom_might_contain_def hash_positions_def index_search.simps)

lemma discover_empty:
  assumes "\<forall>i. map_of fs (idx_file i) = None"
    and "\<forall>name\<in>set names. \<forall>i. seg_id_of_name name = Some i \<longrightarrow> map_of fs (seg_file i) \<noteq> None"
    and "\<forall>ix\<in>set (cr_indexes r). index_empty (snd ix)"
  shows "\<exists>r'. discover_segments names fs r = Ok r' \<and> (\<forall>ix\<in>set (cr_indexes r'). index_empty (snd ix))"
  using assms(2,3)
proof (induction names arbitrary: r)
  case (Cons name names)
  show ?case
  proof (cases "seg_id_of_name name")
    case None
    with Cons show ?thesis by simp
  next
    case (Some k)
    with Cons.prems obtain s where s: "seg_open k fs = Ok s" by (auto simp: seg_open_def)
    have x: "index_open k fs = Ok (index_create k)" using assms(1) by (simp add: index_open_def)
    have e: "index_empty (index_create k)"
      by (simp add: index_empty_def index_create_def bloom_new_def Let_def BLOOM_BITS_PER_ENTRY_def)
    let ?r = "r\<lparr>cr_segments := bm_insert k s (cr_segments r), cr_indexes := bm_insert k (index_create k) (cr_indexes r)\<rparr>"
    have "\<forall>ix\<in>set (cr_indexes ?r). index_empty (snd ix)"
      using Cons.prems(2) e set_bm_insert by fastforce
    with Cons.IH [of ?r] Cons.prems(1) Some s x show ?thesis by simp
  qed
qed simp

lemma find_in_empty: "\<forall>ix\<in>set xs. index_empty (snd ix) \<Longrightarrow> find_in_indexes atom_id xs r fs = Ok None"
  by (induction xs) (simp_all add: index_find_empty)

text \<open>
  Records that one run wrote to its first segment but did not flush are all in the segment file, yet a reader (after a crash, say)
  finds none of them: their index entries were only in memory.
\<close>

theorem unflushed_not_found:
  assumes lim: "unat limit < 2 ^ 62" and rs: "list_all rec_ok rs" "recs_size rs \<le> unat limit"
  shows "\<exists>w fs w' fs' r. writer_new (Some limit) [] = (fs, Ok w) \<and> write_all rs w fs = Ok (w', fs') \<and>
    map_of fs' (seg_file 0) = Some (seg_image 0 rs) \<and>
    reader_new fs' = Ok r \<and> (\<forall>atom_id. find_record atom_id r fs' = Ok None)"
proof -
  from first_writer [OF lim] obtain w fs where w: "writer_new (Some limit) [] = (fs, Ok w)" "writer_ok w fs [] []"
    "cw_size_limit w = limit" "\<forall>i. map_of fs (idx_file i) = None" .
  from write_all_fits [OF w(2) rs(1)] rs(2) w(3,4) obtain w1 fs1 where
    a: "write_all rs w fs = Ok (w1, fs1)" "writer_ok w1 fs1 [] rs" "\<forall>i. map_of fs1 (idx_file i) = None" by auto
  from a(2) have d: "dir_ok fs1 [rs]" by (simp add: writer_ok_def)
  have m: "map_of fs1 (seg_file 0) = Some (seg_image 0 rs)" using dir_ok_seg [OF d, of 0] by (simp add: seg_file_holds_def)
  have "\<forall>name\<in>set (map fst fs1). \<forall>i. seg_id_of_name name = Some i \<longrightarrow> map_of fs1 (seg_file i) \<noteq> None"
    using d m by (auto simp: dir_ok_def unat_eq_zero)
  from discover_empty [OF a(3) this, of "\<lparr>cr_segments = [], cr_indexes = []\<rparr>"] obtain r where
    "reader_new fs1 = Ok r" "\<forall>ix\<in>set (cr_indexes r). index_empty (snd ix)" by (auto simp: reader_new_def)
  with w(1) a(1) m show ?thesis by (auto simp: find_record_def find_in_empty)
qed

theorem unflushed_not_found_witness:
  "\<exists>w fs w' fs' r. writer_new (Some 1000) [] = (fs, Ok w) \<and>
     write_all [(replicate 32 1, [1, 2, 3], 0)] w fs = Ok (w', fs') \<and>
     map_of fs' (seg_file 0) = Some (seg_image 0 [(replicate 32 1, [1, 2, 3], 0)]) \<and>
     reader_new fs' = Ok r \<and> (\<forall>atom_id. find_record atom_id r fs' = Ok None)"
  by (rule unflushed_not_found) (simp_all add: rec_ok_def rec_len_def pad16_def)

section \<open>Iterating over a segment\<close>

primrec iter_run :: "nat \<Rightarrow> cas_files \<Rightarrow> CasIterator \<Rightarrow> iter_item list option" where
  "iter_run 0 fs it = Some []"
| "iter_run (Suc n) fs it =
     Option.bind (iter_next fs it) (\<lambda>(it, item).
       case item of None \<Rightarrow> Some [] | Some x \<Rightarrow> map_option ((#) x) (iter_run n fs it))"

abbreviation rec_item :: "u32 \<Rightarrow> cas_rec \<Rightarrow> iter_item" where
  "rec_item seg_id r \<equiv> Ok (cas_header_new (fst r) (of_nat (length (fst (snd r)))) seg_id (snd (snd r)), fst (snd r))"

lemma iter_next_at:
  assumes h: "seg_file_holds fs seg_id (rs @ r # ss)" "seg_readable s seg_id (rs @ r # ss)"
  shows "iter_next fs \<lparr>it_segment = s, it_current_offset = of_nat (recs_size rs), it_end_offset = sg_current_size s\<rparr> =
    Some (\<lparr>it_segment = s, it_current_offset = of_nat (recs_size (rs @ [r])), it_end_offset = sg_current_size s\<rparr>,
          Some (rec_item seg_id r))"
proof -
  have p: "(recs_size rs, r) \<in> set (placed 0 (rs @ r # ss))" by (simp add: placed_append)
  have sz: "recs_size rs + rec_size r + recs_size ss < 2 ^ 62" "rec_ok r" using h(1) by (simp_all add: seg_file_holds_def)
  have "0 < rec_size r" by (simp add: rec_len_def)
  moreover have "unat (of_nat (recs_size rs) :: u64) = recs_size rs" using sz by (intro unat_of_nat_u64) simp
  ultimately have lt: "\<not> of_nat (recs_size rs) \<ge> sg_current_size s"
    using h(2) by (simp add: seg_readable_def word_le_nat_alt)
  have b: "length (fst (snd r)) < 2 ^ 63" using sz(2) by (simp add: rec_ok_def)
  have "cas_record_size (of_nat (length (fst (snd r)))) = of_nat (rec_size r)"
    using unat_cas_record_size [OF b] by (metis of_nat_unat ucast_id)
  with read_placed [OF p h] lt show ?thesis by (simp add: iter_next.simps cas_header_new_def Let_def)
qed

lemma iter_run_from:
  assumes "seg_file_holds fs seg_id (rs @ ss)" "seg_readable s seg_id (rs @ ss)" "length ss \<le> n"
  shows "iter_run n fs \<lparr>it_segment = s, it_current_offset = of_nat (recs_size rs), it_end_offset = sg_current_size s\<rparr> =
    Some (map (rec_item seg_id) ss)"
  using assms
proof (induction ss arbitrary: rs n)
  case Nil
  from Nil.prems(2) have e: "sg_current_size s = of_nat (recs_size rs)"
    by (simp add: seg_readable_def) (metis of_nat_unat ucast_id)
  show ?case by (cases n) (simp_all add: iter_next.simps e)
next
  case (Cons r ss)
  then obtain m where m: "n = Suc m" "length ss \<le> m" by (cases n) auto
  from Cons.IH [of "rs @ [r]" m] Cons.prems m have
    "iter_run m fs \<lparr>it_segment = s, it_current_offset = of_nat (recs_size (rs @ [r])), it_end_offset = sg_current_size s\<rparr> =
      Some (map (rec_item seg_id) ss)" by simp
  with m(1) iter_next_at [OF Cons.prems(1,2)] show ?case by simp
qed

text \<open>
  C14: After one run that filled one segment, the iterator over it yields the records that were appended, in order, and then ends.
\<close>

theorem iterator_yields_records:
  assumes "unat limit < 2 ^ 62" "list_all rec_ok rs" "recs_size rs \<le> unat limit" "length rs < 65536"
    and "length rs \<le> n"
  shows "\<exists>fs s. cas_session limit rs [] = Ok fs \<and> seg_open 0 fs = Ok s \<and>
    iter_run n fs (iter_new s) =
      Some (map (\<lambda>r. Ok (cas_header_new (fst r) (of_nat (length (fst (snd r)))) 0 (snd (snd r)), fst (snd r))) rs)"
proof -
  from session_one_segment [OF assms(1-4)] obtain fs where
    s: "cas_session limit rs [] = Ok fs" "dir_ok fs [rs]" "all_indexed fs [rs]" .
  have h: "seg_file_holds fs 0 rs" using dir_ok_seg [OF s(2), of 0] by simp
  then obtain sg where sg: "seg_open 0 fs = Ok sg" "seg_readable sg 0 rs"
    by (auto simp: seg_open_def seg_file_holds_def seg_readable_def length_seg_image unat_of_nat_u64)
  from iter_run_from [of fs 0 "[]" rs sg n] h sg(2) assms(5) s(1) sg(1) show ?thesis by (auto simp: iter_new_def)
qed

theorem iterator_yields_records_witness:
  "\<exists>fs s. cas_session 1000 [(replicate 32 1, [1, 2, 3], 0)] [] = Ok fs \<and> seg_open 0 fs = Ok s \<and>
     iter_run 2 fs (iter_new s) = Some [Ok (cas_header_new (replicate 32 1) 3 0 0, [1, 2, 3])]"
  using iterator_yields_records [of 1000 "[(replicate 32 1, [1, 2, 3], 0)]" 2]
  by (simp add: rec_ok_def rec_len_def pad16_def)

text \<open>The errors of a read. A damaged header is reported by the parser, never by the checks that
  follow it, and is therefore not among the errors the iterator skips.\<close>

lemma cas_header_from_bytes_checked:
  "cas_header_from_bytes bs = Inr h \<Longrightarrow> cas_validate_crc h \<and> cas_validate_magic h"
  by (auto simp: cas_header_from_bytes_iff cas_header_is_valid_def)

lemma read_at_errors: "snd (read_at pos n content) = Err e \<Longrightarrow> e = CioIo KindUnexpectedEof"
  by (simp add: read_at_def split: if_splits)

lemma read_body_errors:
  "snd (read_body offset h s content) = Err e \<Longrightarrow>
    (\<exists>o' n m. e = CioInvalidBounds o' n m) \<or> e = CioIo KindUnexpectedEof \<or>
    (\<exists>c d. e = CioCrcMismatch c d \<and> c \<noteq> d)"
  by (auto simp: read_body_def Let_def read_at_def split: if_splits prod.splits res.splits)

text \<open>
  The errors of a read. A damaged header is reported by the parser, never by the two checks that follow
  it, so that the iterator, which skips the errors of those checks, does not skip a damaged header.
\<close>

theorem read_record_errors:
  assumes "snd (read_record offset s fs) = Err e"
  shows "(\<exists>o' n m. e = CioInvalidBounds o' n m) \<or> e = CioIo KindUnexpectedEof \<or> (\<exists>c. e = CioCas c) \<or>
    (\<exists>c d. e = CioCrcMismatch c d \<and> c \<noteq> d)"
proof -
  let ?c = "get_or [] fs (seg_file (sg_seg_id s))"
  obtain pos hb where r: "read_at (unat offset) CAS_HEADER_SIZE ?c = (pos, hb)" by force
  show ?thesis
  proof (cases "offset + 64 > sg_current_size s")
    case True
    with assms show ?thesis by (auto simp: read_record_def)
  next
    case False
    show ?thesis
    proof (cases hb)
      case Panic
      with assms False r show ?thesis by (simp add: read_record_def)
    next
      case (Err e')
      with assms False r read_at_errors [of "unat offset" CAS_HEADER_SIZE ?c e'] show ?thesis by (simp add: read_record_def)
    next
      case (Ok bs)
      show ?thesis
      proof (cases "cas_header_from_bytes bs")
        case (Inl c)
        with assms False r Ok have "e = CioCas c" by (simp add: read_record_def)
        then show ?thesis by blast
      next
        case (Inr h)
        with assms False r Ok cas_header_from_bytes_checked [OF Inr] have "snd (read_body offset h s ?c) = Err e"
          by (simp add: read_record_def)
        from read_body_errors [OF this] show ?thesis by blast
      qed
    qed
  qed
qed

theorem read_record_errors_witness:
  "snd (read_record 0 \<lparr>sg_seg_id = 0, sg_pos = 0, sg_current_size = 0, sg_size_limit = 0, sg_record_count = 0\<rparr> []) =
     Err (CioInvalidBounds 0 64 0) \<and>
   ((\<exists>o' n m. CioInvalidBounds 0 64 0 = CioInvalidBounds o' n m) \<or> CioInvalidBounds 0 64 0 = CioIo KindUnexpectedEof \<or>
    (\<exists>c. CioInvalidBounds 0 64 0 = CioCas c) \<or> (\<exists>c d. CioInvalidBounds 0 64 0 = CioCrcMismatch c d \<and> c \<noteq> d))"
proof -
  have "snd (read_record 0 \<lparr>sg_seg_id = 0, sg_pos = 0, sg_current_size = 0, sg_size_limit = 0, sg_record_count = 0\<rparr> []) =
     Err (CioInvalidBounds 0 64 0)" by (simp add: read_record_def)
  with read_record_errors [OF this] show ?thesis by blast
qed

text \<open>
  The iteration over all segments ends at two empty segments in a row, whatever the segments after them
  hold.
\<close>

theorem global_iteration_stops:
  assumes "sg_current_size s = 0" "sg_current_size t = 0"
  shows "map_option snd (global_next fs (global_iter_new ((i, s) # (j, t) # segments))) = Some None"
  using assms by (simp add: global_next_def global_iter_new_def advance_to_next_segment_def global_step_def iter_new_def
      iter_next.simps)

theorem global_iteration_stops_witness:
  "map_option snd (global_next [] (global_iter_new
     [(0, \<lparr>sg_seg_id = 0, sg_pos = 0, sg_current_size = 0, sg_size_limit = 0, sg_record_count = 0\<rparr>),
      (1, \<lparr>sg_seg_id = 1, sg_pos = 0, sg_current_size = 0, sg_size_limit = 0, sg_record_count = 0\<rparr>)])) = Some None"
  by (rule global_iteration_stops) simp_all

end
