(* ===== verification/Cas_Compaction.thy ===== *)
theory Cas_Compaction
  imports Cas_Reopen
begin

text \<open>
  Compaction of segments (\<open>src/cas/io.rs\<close>): the search for unused segment ids ends, the targets hold
  exactly the latest record of each atom of the sources, and a record that no target can take is
  retried for ever. \<open>compacting\<close> is the invariant of the writing loop.
\<close>

section \<open>Unused segment ids\<close>

lemma next_unused_from:
  "seg_unused fs (seg_id + of_nat k) \<Longrightarrow> \<exists>j. next_unused_target_seg_id fs seg_id = Some j \<and> seg_unused fs j"
proof (induction k arbitrary: seg_id)
  case 0
  then show ?case by (simp add: next_unused_target_seg_id.simps)
next
  case (Suc k)
  show ?case
  proof (cases "seg_unused fs seg_id")
    case True
    then show ?thesis by (simp add: next_unused_target_seg_id.simps)
  next
    case False
    from Suc.prems have "seg_unused fs (seg_id + 1 + of_nat k)" by (simp add: add_ac)
    from Suc.IH [OF this] False show ?thesis by (simp add: next_unused_target_seg_id.simps [of fs seg_id])
  qed
qed

lemma next_unused_ok:
  assumes "length fs < 2 ^ 32 - 1"
  shows "\<exists>j. next_unused_target_seg_id fs seg_id = Some j \<and> seg_unused fs j"
proof -
  have "\<exists>k\<le>length fs. seg_unused fs (seg_id + of_nat k)"
  proof (rule ccontr)
    assume n: "\<not> ?thesis"
    let ?f = "\<lambda>k. let i = seg_id + of_nat k in if map_of fs (seg_file i) = None then idx_file i else seg_file i"
    have "?f k \<in> fst ` set fs" if "k \<le> length fs" for k
      using n that by (auto simp: seg_unused_def Let_def map_of_eq_None_iff)
    then have sub: "?f ` {..length fs} \<subseteq> fst ` set fs" by auto
    have "inj_on ?f {..length fs}"
    proof (rule inj_onI)
      fix j k assume jk: "j \<in> {..length fs}" "k \<in> {..length fs}" "?f j = ?f k"
      then have "(of_nat j :: u32) = of_nat k" by (simp add: Let_def split: if_splits)
      moreover have "unat (of_nat j :: u32) = j" "unat (of_nat k :: u32) = k"
        using jk(1,2) assms by (auto intro!: unat_of_nat_u32)
      ultimately show "j = k" by metis
    qed
    then have "card (?f ` {..length fs}) = length fs + 1" by (simp add: card_image)
    moreover have "card (?f ` {..length fs}) \<le> card (fst ` set fs)" by (rule card_mono [OF _ sub]) simp
    moreover have "card (fst ` set fs) \<le> length fs"
      by (metis card_length length_map list.set_map)
    ultimately show False by simp
  qed
  with next_unused_from show ?thesis by blast
qed

section \<open>The targets of a compaction\<close>

definition target_ok :: "Compactor \<Rightarrow> CompactTarget \<Rightarrow> cas_rec list \<Rightarrow> bool" where
  "target_ok c t rs \<longleftrightarrow>
     sg_seg_id (ct_segment t) = ct_seg_id t \<and> sg_size_limit (ct_segment t) = compaction_target_limit c \<and>
     seg_at_end (ct_segment t) (seg_image (ct_seg_id t) rs) \<and> seg_file_holds (ct_files t) (ct_seg_id t) rs \<and>
     index_holds (ct_index t) rs \<and> xf_seg_id (ct_index t) = ct_seg_id t \<and>
     (\<not> xf_is_dirty (ct_index t) \<longrightarrow> indexed (ct_files t) (ct_seg_id t) rs)"

text \<open>The finished targets, and what has become of the other files.\<close>

definition targets_ok :: "cas_files \<Rightarrow> cas_files \<Rightarrow> (u32 \<times> cas_rec list) list \<Rightarrow> bool" where
  "targets_ok fs0 fs targets \<longleftrightarrow> distinct (map fst targets) \<and>
     (\<forall>x\<in>set targets. seg_unused fs0 (fst x) \<and> seg_file_holds fs (fst x) (snd x) \<and> indexed fs (fst x) (snd x))"

definition others_kept :: "cas_files \<Rightarrow> cas_files \<Rightarrow> u32 set \<Rightarrow> bool" where
  "others_kept fs0 fs ids \<longleftrightarrow>
     (\<forall>name. name \<notin> seg_file ` ids \<union> idx_file ` ids \<longrightarrow> map_of fs name = map_of fs0 name)"

definition compacting :: "Compactor \<Rightarrow> cas_files \<Rightarrow> CompactTarget \<Rightarrow> (u32 \<times> cas_rec list) list \<Rightarrow> cas_rec list \<Rightarrow> bool" where
  "compacting c fs0 t finished rs \<longleftrightarrow> target_ok c t rs \<and> targets_ok fs0 (ct_files t) finished \<and>
     seg_unused fs0 (ct_seg_id t) \<and> ct_seg_id t \<notin> fst ` set finished \<and>
     others_kept fs0 (ct_files t) (insert (ct_seg_id t) (fst ` set finished)) \<and>
     length (ct_files t) \<le> length fs0 + 2 * length finished + 1"

lemma length_update_le: "length (AList.update k v m) \<le> length m + 1"
  by (induction m) auto

lemma length_update_present: "map_of m k \<noteq> None \<Longrightarrow> length (AList.update k v m) = length m"
  by (induction m) (auto split: if_splits)

lemma fresh_target:
  assumes "seg_unused fs i"
  shows "target_ok c \<lparr>ct_seg_id = i, ct_segment = \<lparr>sg_seg_id = i, sg_pos = 0, sg_current_size = 0,
      sg_size_limit = compaction_target_limit c, sg_record_count = 0\<rparr>, ct_index = index_create i,
      ct_files = AList.update (seg_file i) [] fs\<rparr> []"
  using assms
  by (simp add: target_ok_def seg_at_end_empty seg_file_holds_def index_holds_create indexed_def seg_unused_def)
    (simp add: index_create_def)

lemma create_target_eq:
  assumes "length fs < 2 ^ 32 - 1"
  obtains i where "seg_unused fs i"
    "create_compaction_target c seg_id fs = Some \<lparr>ct_seg_id = i, ct_segment = \<lparr>sg_seg_id = i, sg_pos = 0, sg_current_size = 0,
      sg_size_limit = compaction_target_limit c, sg_record_count = 0\<rparr>, ct_index = index_create i,
      ct_files = AList.update (seg_file i) [] fs\<rparr>"
proof -
  from next_unused_ok [OF assms] obtain i where "next_unused_target_seg_id fs seg_id = Some i" "seg_unused fs i" by blast
  with that show thesis by (simp add: create_compaction_target_def seg_create_def Let_def seg_unused_def)
qed

lemma compacting_start:
  assumes "length fs < 2 ^ 32 - 1"
  obtains t where "create_compaction_target c seg_id fs = Some t" "compacting c fs t [] []"
proof -
  from create_target_eq [OF assms] obtain i where i: "seg_unused fs i"
    "create_compaction_target c seg_id fs = Some \<lparr>ct_seg_id = i, ct_segment = \<lparr>sg_seg_id = i, sg_pos = 0, sg_current_size = 0,
      sg_size_limit = compaction_target_limit c, sg_record_count = 0\<rparr>, ct_index = index_create i,
      ct_files = AList.update (seg_file i) [] fs\<rparr>" .
  have "\<not> xf_is_dirty (index_create i)" by (simp add: index_create_def)
  with fresh_target [OF i(1)] i(1) length_update_le [of "seg_file i" "[]" fs] that [OF i(2)] show thesis
    by (simp add: compacting_def targets_ok_def others_kept_def)
qed

text \<open>A finished target is flushed.\<close>

lemma flush_target:
  assumes t: "compacting c fs0 t finished rs" and l: "length rs < 65536"
  shows "targets_ok fs0 (ct_files (flush_compaction_target t)) (finished @ [(ct_seg_id t, rs)])"
    "others_kept fs0 (ct_files (flush_compaction_target t)) (fst ` set (finished @ [(ct_seg_id t, rs)]))"
    "length (ct_files (flush_compaction_target t)) \<le> length fs0 + 2 * length finished + 2"
    "ct_seg_id (flush_compaction_target t) = ct_seg_id t"
proof -
  let ?i = "ct_seg_id t" and ?x = "ct_index t"
  from t have ok: "target_ok c t rs" and fin: "targets_ok fs0 (ct_files t) finished" and new: "?i \<notin> fst ` set finished"
    and un: "seg_unused fs0 ?i" and kept: "others_kept fs0 (ct_files t) (insert ?i (fst ` set finished))"
    and len: "length (ct_files t) \<le> length fs0 + 2 * length finished + 1"
    by (simp_all add: compacting_def)
  have "targets_ok fs0 (ct_files (flush_compaction_target t)) (finished @ [(?i, rs)]) \<and>
    others_kept fs0 (ct_files (flush_compaction_target t)) (fst ` set (finished @ [(?i, rs)])) \<and>
    length (ct_files (flush_compaction_target t)) \<le> length fs0 + 2 * length finished + 2"
  proof (cases "xf_is_dirty ?x")
    case False
    then have "ct_files (flush_compaction_target t) = ct_files t" by (simp add: flush_compaction_target_def index_flush_def)
    with False ok fin new un kept len show ?thesis by (simp add: targets_ok_def target_ok_def)
  next
    case True
    let ?fs = "AList.update (idx_file ?i) (index_bytes ?x) (ct_files t)"
    have fs: "ct_files (flush_compaction_target t) = ?fs"
      using True ok by (simp add: flush_compaction_target_def index_flush_def target_ok_def Let_def)
    have "indexed ?fs ?i rs" unfolding indexed_def using ok l by (auto simp: target_ok_def)
    moreover have "fst x \<noteq> ?i" if "x \<in> set finished" for x using new that by force
    ultimately have "targets_ok fs0 ?fs (finished @ [(?i, rs)])"
      using ok fin new un by (auto simp: targets_ok_def target_ok_def)
    moreover have "others_kept fs0 ?fs (fst ` set (finished @ [(?i, rs)]))"
      using kept by (simp add: others_kept_def)
    ultimately show ?thesis using fs len True length_update_le [of "idx_file ?i" "index_bytes ?x" "ct_files t"] by simp
  qed
  then show "targets_ok fs0 (ct_files (flush_compaction_target t)) (finished @ [(?i, rs)])"
    "others_kept fs0 (ct_files (flush_compaction_target t)) (fst ` set (finished @ [(?i, rs)]))"
    "length (ct_files (flush_compaction_target t)) \<le> length fs0 + 2 * length finished + 2" by simp_all
  show "ct_seg_id (flush_compaction_target t) = ?i" by (simp add: flush_compaction_target_def split: prod.splits)
qed

lemma next_target:
  assumes t: "compacting c fs0 t finished rs" and l: "length rs < 65536"
    and small: "length fs0 + 2 * length finished + 2 < 2 ^ 32 - 1"
  obtains t' where
    "create_compaction_target c (ct_seg_id t + 1) (ct_files (flush_compaction_target t)) = Some t'"
    "compacting c fs0 t' (finished @ [(ct_seg_id t, rs)]) []"
proof -
  let ?fs = "ct_files (flush_compaction_target t)" and ?fin = "finished @ [(ct_seg_id t, rs)]"
  note f = flush_target [OF t l]
  have "length ?fs < 2 ^ 32 - 1" using f(3) small by simp
  from create_target_eq [OF this] obtain i where i: "seg_unused ?fs i"
    "create_compaction_target c (ct_seg_id t + 1) ?fs = Some \<lparr>ct_seg_id = i, ct_segment = \<lparr>sg_seg_id = i, sg_pos = 0, sg_current_size = 0,
      sg_size_limit = compaction_target_limit c, sg_record_count = 0\<rparr>, ct_index = index_create i,
      ct_files = AList.update (seg_file i) [] ?fs\<rparr>" .
  have new: "i \<notin> fst ` set ?fin"
  proof
    assume "i \<in> fst ` set ?fin"
    with f(1) have "map_of ?fs (seg_file i) \<noteq> None" by (force simp: targets_ok_def seg_file_holds_def)
    with i(1) show False by (simp add: seg_unused_def)
  qed
  have "seg_unused fs0 i"
  proof -
    have "seg_file i \<notin> seg_file ` F \<union> idx_file ` F \<and> idx_file i \<notin> seg_file ` F \<union> idx_file ` F"
      if "i \<notin> F" for F using that by auto
    from this [OF new] f(2) i(1) show ?thesis unfolding others_kept_def seg_unused_def by metis
  qed
  moreover have "targets_ok fs0 (AList.update (seg_file i) [] ?fs) ?fin"
  proof -
    have "fst x \<noteq> i" if "x \<in> set ?fin" for x using new that by blast
    with f(1) show ?thesis unfolding targets_ok_def by simp
  qed
  moreover have "others_kept fs0 (AList.update (seg_file i) [] ?fs) (insert i (fst ` set ?fin))"
    using f(2) by (simp add: others_kept_def)
  moreover have "length (AList.update (seg_file i) [] ?fs) \<le> length fs0 + 2 * length ?fin + 1"
    using f(3) length_update_le [of "seg_file i" "[]" ?fs] by simp
  moreover have "\<not> xf_is_dirty (index_create i)" by (simp add: index_create_def)
  ultimately have "compacting c fs0 \<lparr>ct_seg_id = i, ct_segment = \<lparr>sg_seg_id = i, sg_pos = 0, sg_current_size = 0,
      sg_size_limit = compaction_target_limit c, sg_record_count = 0\<rparr>, ct_index = index_create i,
      ct_files = AList.update (seg_file i) [] ?fs\<rparr> ?fin []"
    using fresh_target [OF i(1), of c] new by (simp add: compacting_def)
  with that [OF i(2)] show thesis by simp
qed

section \<open>Writing the records of a compaction\<close>

lemma append_record_target:
  assumes t: "target_ok c t rs" and r: "rec_ok r" and lim: "unat (compaction_target_limit c) < 2 ^ 62"
  shows "append_record (fst r) (fst (snd r)) (snd (snd r)) (ct_segment t) (ct_files t) =
    (if recs_size rs + rec_size r > unat (compaction_target_limit c)
     then Err (CioSegmentFull (ct_seg_id t) (of_nat (recs_size rs)) (compaction_target_limit c))
     else Ok ((ct_segment t)\<lparr>sg_pos := recs_size rs + rec_size r,
                sg_current_size := of_nat (recs_size rs + rec_size r),
                sg_record_count := sg_record_count (ct_segment t) + 1\<rparr>,
              AList.update (seg_file (ct_seg_id t)) (seg_image (ct_seg_id t) (rs @ [r])) (ct_files t),
              of_nat (recs_size rs), of_nat (length (fst (snd r)))))"
proof -
  from t have e: "seg_at_end (ct_segment t) (seg_image (ct_seg_id t) rs)" and id: "sg_seg_id (ct_segment t) = ct_seg_id t"
    and h: "seg_file_holds (ct_files t) (ct_seg_id t) rs" and l: "sg_size_limit (ct_segment t) = compaction_target_limit c"
    by (simp_all add: target_ok_def)
  from h have m: "map_of (ct_files t) (seg_file (ct_seg_id t)) = Some (seg_image (ct_seg_id t) rs)"
    and sz: "length (seg_image (ct_seg_id t) rs) = recs_size rs" by (simp_all add: seg_file_holds_def length_seg_image)
  from append_record_eq [OF e, of "ct_files t" "fst r" "fst (snd r)" "snd (snd r)"] r show ?thesis
    by (simp add: id m l sz rec_ok_def)
qed

lemma compact_append_fits:
  assumes t: "compacting c fs0 t finished rs" and r: "rec_ok r" and lim: "unat (compaction_target_limit c) < 2 ^ 62"
    and fits: "recs_size rs + rec_size r \<le> unat (compaction_target_limit c)"
  obtains t' where "compact_append c (fst r) (fst (snd r)) (snd (snd r)) t = Some (t', Ok ())"
    "compacting c fs0 t' finished (rs @ [r])"
proof -
  let ?i = "ct_seg_id t" and ?b = "fst (snd r)"
  from t have ok: "target_ok c t rs" by (simp add: compacting_def)
  let ?s = "(ct_segment t)\<lparr>sg_pos := recs_size rs + rec_size r, sg_current_size := of_nat (recs_size rs + rec_size r),
     sg_record_count := sg_record_count (ct_segment t) + 1\<rparr>"
  let ?fs = "AList.update (seg_file ?i) (seg_image ?i (rs @ [r])) (ct_files t)"
  from ok have ih: "index_holds (ct_index t) rs" and h: "seg_file_holds (ct_files t) ?i rs" by (simp_all add: target_ok_def)
  from index_holds_insert [OF ih, of r] obtain x where
    x: "index_insert (fst r) (of_nat (recs_size rs)) (of_nat (length ?b)) (snd (snd r)) (ct_index t) = Ok x"
      "index_holds x (rs @ [r])" "xf_seg_id x = xf_seg_id (ct_index t)" "xf_is_dirty x" by blast
  let ?t = "t\<lparr>ct_segment := ?s, ct_files := ?fs, ct_index := x\<rparr>"
  have a: "append_record (fst r) ?b (snd (snd r)) (ct_segment t) (ct_files t) =
      Ok (?s, ?fs, of_nat (recs_size rs), of_nat (length ?b))"
    using append_record_target [OF ok r lim] fits by simp
  have c: "compact_append c (fst r) ?b (snd (snd r)) t = Some (?t, Ok ())"
    by (subst compact_append.simps) (simp add: a x(1) del: seg_image_simps recs_size_simps)
  have okr: "list_all rec_ok (rs @ [r])" using h r by (simp add: seg_file_holds_def)
  have sz: "recs_size (rs @ [r]) < 2 ^ 62" using fits lim by simp
  have "length (seg_image ?i (rs @ [r])) = recs_size (rs @ [r])" by (rule length_seg_image [OF okr])
  then have e: "seg_at_end ?s (seg_image ?i (rs @ [r]))" using sz by (simp add: seg_at_end_def)
  have h': "seg_file_holds ?fs ?i (rs @ [r])" using okr sz by (simp add: seg_file_holds_def)
  from ok x e h' have "target_ok c ?t (rs @ [r])" by (simp add: target_ok_def)
  moreover have "targets_ok fs0 ?fs finished"
  proof -
    have "fst y \<noteq> ?i" if "y \<in> set finished" for y using t that by (force simp: compacting_def)
    with t show ?thesis by (simp add: compacting_def targets_ok_def)
  qed
  moreover have "others_kept fs0 ?fs (insert ?i (fst ` set finished))" using t by (simp add: compacting_def others_kept_def)
  moreover have "length ?fs = length (ct_files t)" using h by (intro length_update_present) (simp add: seg_file_holds_def)
  ultimately have "compacting c fs0 ?t finished (rs @ [r])"
    using t x(4) by (simp add: compacting_def split: if_splits)
  with c that show thesis by blast
qed

lemma compact_append_full:
  assumes t: "target_ok c t rs" and r: "rec_ok r" and lim: "unat (compaction_target_limit c) < 2 ^ 62"
    and full: "\<not> recs_size rs + rec_size r \<le> unat (compaction_target_limit c)"
  shows "compact_append c (fst r) (fst (snd r)) (snd (snd r)) t =
    Option.bind (create_compaction_target c (ct_seg_id t + 1) (ct_files (flush_compaction_target t)))
      (compact_append c (fst r) (fst (snd r)) (snd (snd r)))"
proof -
  have "ct_seg_id (flush_compaction_target t) = ct_seg_id t" by (simp add: flush_compaction_target_def split: prod.splits)
  with append_record_target [OF t r lim] full show ?thesis
    by (subst compact_append.simps) (simp add: Let_def)
qed

lemma compact_append_ok:
  assumes t: "compacting c fs0 t finished rs" and r: "rec_ok r" and lim: "unat (compaction_target_limit c) < 2 ^ 62"
    and small: "rec_size r \<le> unat (compaction_target_limit c)" and l: "length rs < 65536"
    and n: "length fs0 + 2 * length finished + 2 < 2 ^ 32 - 1"
  obtains t' finished' rs' where
    "compact_append c (fst r) (fst (snd r)) (snd (snd r)) t = Some (t', Ok ())" "compacting c fs0 t' finished' rs'"
    "concat (map snd finished') @ rs' = concat (map snd finished) @ rs @ [r]" "length finished' \<le> length finished + 1"
    "length rs' \<le> length rs + 1"
proof (cases "recs_size rs + rec_size r \<le> unat (compaction_target_limit c)")
  case True
  from compact_append_fits [OF t r lim this] obtain t' where
    "compact_append c (fst r) (fst (snd r)) (snd (snd r)) t = Some (t', Ok ())" "compacting c fs0 t' finished (rs @ [r])" .
  then show thesis by (rule that) simp_all
next
  case False
  from next_target [OF t l n] obtain t1 where
    t1: "create_compaction_target c (ct_seg_id t + 1) (ct_files (flush_compaction_target t)) = Some t1"
      "compacting c fs0 t1 (finished @ [(ct_seg_id t, rs)]) []" .
  have "recs_size [] + rec_size r \<le> unat (compaction_target_limit c)" using small by simp
  from compact_append_fits [OF t1(2) r lim this] obtain t2 where
    t2: "compact_append c (fst r) (fst (snd r)) (snd (snd r)) t1 = Some (t2, Ok ())"
      "compacting c fs0 t2 (finished @ [(ct_seg_id t, rs)]) ([] @ [r])" .
  from t have "target_ok c t rs" by (simp add: compacting_def)
  from compact_append_full [OF this r lim False] t1(1) t2(1)
  have "compact_append c (fst r) (fst (snd r)) (snd (snd r)) t = Some (t2, Ok ())" by simp
  from that [OF this t2(2)] show thesis by simp
qed

text \<open>The record list of a compaction, as the loop takes it.\<close>

lemma compact_write_ok:
  assumes "compacting c fs0 t finished rs" "list_all rec_ok ds" "unat (compaction_target_limit c) < 2 ^ 62"
    and "list_all (\<lambda>r. rec_size r \<le> unat (compaction_target_limit c)) ds"
    and "length rs + length ds < 65536" "length fs0 + 2 * (length finished + length ds) + 2 < 2 ^ 32 - 1"
  shows "\<exists>t' targets. compact_write c ds t n = Some (t', Ok (n + of_nat (length ds))) \<and>
    targets_ok fs0 (ct_files t') targets \<and> others_kept fs0 (ct_files t') (fst ` set targets) \<and>
    concat (map snd targets) = concat (map snd finished) @ rs @ ds"
  using assms
proof (induction ds arbitrary: t finished rs n)
  case Nil
  from flush_target [OF Nil.prems(1)] Nil.prems(5)
  show ?case by (intro exI [of _ "flush_compaction_target t"] exI [of _ "finished @ [(ct_seg_id t, rs)]"]) simp
next
  case (Cons r ds)
  from Cons.prems have r: "rec_ok r" "rec_size r \<le> unat (compaction_target_limit c)" by simp_all
  have "length rs < 65536" "length fs0 + 2 * length finished + 2 < 2 ^ 32 - 1" using Cons.prems(5,6) by simp_all
  from compact_append_ok [OF Cons.prems(1) r(1) Cons.prems(3) r(2) this] obtain t1 finished1 rs1 where
    a: "compact_append c (fst r) (fst (snd r)) (snd (snd r)) t = Some (t1, Ok ())" "compacting c fs0 t1 finished1 rs1"
      "concat (map snd finished1) @ rs1 = concat (map snd finished) @ rs @ [r]" "length finished1 \<le> length finished + 1"
      "length rs1 \<le> length rs + 1" .
  have "list_all rec_ok ds" "list_all (\<lambda>r. rec_size r \<le> unat (compaction_target_limit c)) ds"
    "length rs1 + length ds < 65536" "length fs0 + 2 * (length finished1 + length ds) + 2 < 2 ^ 32 - 1"
    using Cons.prems(2,4-6) a(4,5) by simp_all
  from Cons.IH [OF a(2) this(1) Cons.prems(3) this(2-4), of "n + 1"] obtain t' targets where
    w: "compact_write c ds t1 (n + 1) = Some (t', Ok (n + 1 + of_nat (length ds)))"
      "targets_ok fs0 (ct_files t') targets" "others_kept fs0 (ct_files t') (fst ` set targets)"
      "concat (map snd targets) = concat (map snd finished1) @ rs1 @ ds" by blast
  from w(1) a(1) have "compact_write c (r # ds) t n = Some (t', Ok (n + of_nat (length (r # ds))))"
    by (simp add: case_prod_beta add_ac)
  moreover have "concat (map snd targets) = concat (map snd finished) @ rs @ (r # ds)"
    using w(4) a(3) by (metis append_Cons append_Nil append_assoc)
  ultimately show ?case using w(2,3) by blast
qed

text \<open>A record larger than the limit of the targets is retried for ever.\<close>

lemma next_unused_unused:
  assumes "next_unused_target_seg_id fs seg_id = Some j"
  shows "seg_unused fs j"
proof (rule next_unused_target_seg_id.raw_induct [OF _ assms])
  fix f fs seg_id j
  assume "\<And>fs seg_id j. f fs seg_id = Some j \<Longrightarrow> seg_unused fs j"
    and "(if seg_unused fs seg_id then Some seg_id else f fs (seg_id + 1)) = Some j"
  then show "seg_unused fs j" by (auto split: if_splits)
qed

lemma create_target_fresh:
  assumes "create_compaction_target c seg_id fs = Some t"
  shows "target_ok c t []"
proof -
  from assms obtain i where i: "next_unused_target_seg_id fs seg_id = Some i"
    by (auto simp: create_compaction_target_def bind_eq_Some_conv)
  from next_unused_unused [OF this] have u: "seg_unused fs i" .
  with assms i have "t = \<lparr>ct_seg_id = i, ct_segment = \<lparr>sg_seg_id = i, sg_pos = 0, sg_current_size = 0,
      sg_size_limit = compaction_target_limit c, sg_record_count = 0\<rparr>, ct_index = index_create i,
      ct_files = AList.update (seg_file i) [] fs\<rparr>"
    by (simp add: create_compaction_target_def seg_create_def Let_def seg_unused_def)
  with fresh_target [OF u, of c] show ?thesis by simp
qed

lemma compact_append_never:
  assumes "compact_append c a b f t = Some y" "unat (compaction_target_limit c) < 2 ^ 62"
  shows "\<forall>rs. target_ok c t rs \<longrightarrow> rec_ok (a, b, f) \<longrightarrow> rec_len (length b) \<le> unat (compaction_target_limit c)"
proof -
  let ?P = "\<lambda>c a b f t (y :: CompactTarget \<times> unit io). unat (compaction_target_limit c) < 2 ^ 62 \<longrightarrow>
    (\<forall>rs. target_ok c t rs \<longrightarrow> rec_ok (a, b, f) \<longrightarrow> rec_len (length b) \<le> unat (compaction_target_limit c))"
  have "?P c a b f t y"
  proof (rule compact_append.raw_induct [where P = ?P, OF _ assms(1)], intro impI allI, rule ccontr)
    fix g c a b f t y rs
    assume IH: "\<And>c a b f t y. g c a b f t = Some y \<Longrightarrow> ?P c a b f t y"
      and body: "(case append_record a b f (ct_segment t) (ct_files t) of Panic \<Rightarrow> Some (t, Panic)
        | Err e \<Rightarrow> (case e of CioSegmentFull _ _ _ \<Rightarrow> let t = flush_compaction_target t
                      in create_compaction_target c (ct_seg_id t + 1) (ct_files t) \<bind> g c a b f
                    | _ \<Rightarrow> Some (t, Err e))
        | Ok (segment, fs, offset, body_len) \<Rightarrow> let t = t\<lparr>ct_segment := segment, ct_files := fs\<rparr>
            in case index_insert a offset body_len f (ct_index t) of Panic \<Rightarrow> Some (t, Panic)
               | Err e \<Rightarrow> Some (t, Err e) | Ok index \<Rightarrow> Some (t\<lparr>ct_index := index\<rparr>, Ok ())) = Some y"
      and lim: "unat (compaction_target_limit c) < 2 ^ 62" and t: "target_ok c t rs" and r: "rec_ok (a, b, f)"
      and big: "\<not> rec_len (length b) \<le> unat (compaction_target_limit c)"
    from append_record_target [OF t r lim] big
    have "append_record a b f (ct_segment t) (ct_files t) =
      Err (CioSegmentFull (ct_seg_id t) (of_nat (recs_size rs)) (compaction_target_limit c))" by simp
    with body obtain t1 where
      t1: "create_compaction_target c (ct_seg_id (flush_compaction_target t) + 1) (ct_files (flush_compaction_target t)) = Some t1"
        "g c a b f t1 = Some y" by (auto simp: Let_def bind_eq_Some_conv)
    from IH [OF t1(2)] create_target_fresh [OF t1(1)] lim r big show False by blast
  qed
  with assms(2) show ?thesis by simp
qed

lemma compact_append_diverges:
  assumes "target_ok c t rs" "rec_ok r" "unat (compaction_target_limit c) < 2 ^ 62"
    and "rec_size r > unat (compaction_target_limit c)"
  shows "compact_append c (fst r) (fst (snd r)) (snd (snd r)) t = None"
proof (cases "compact_append c (fst r) (fst (snd r)) (snd (snd r)) t")
  case (Some y)
  from compact_append_never [OF Some assms(3)] assms(1,2,4) show ?thesis by fastforce
qed

lemma compact_write_diverges:
  assumes "compacting c fs0 t finished rs" "list_all rec_ok ds" "unat (compaction_target_limit c) < 2 ^ 62"
    and "\<exists>r\<in>set ds. rec_size r > unat (compaction_target_limit c)"
    and "length rs + length ds < 65536" "length fs0 + 2 * (length finished + length ds) + 2 < 2 ^ 32 - 1"
  shows "compact_write c ds t n = None"
  using assms
proof (induction ds arbitrary: t finished rs n)
  case (Cons r ds)
  from Cons.prems(1) have ok: "target_ok c t rs" by (simp add: compacting_def)
  from Cons.prems(2) have r: "rec_ok r" by simp
  show ?case
  proof (cases "rec_size r > unat (compaction_target_limit c)")
    case True
    from compact_append_diverges [OF ok r Cons.prems(3) True] show ?thesis by (simp add: case_prod_beta)
  next
    case False
    then have small: "rec_size r \<le> unat (compaction_target_limit c)" by simp
    have "length rs < 65536" "length fs0 + 2 * length finished + 2 < 2 ^ 32 - 1" using Cons.prems(5,6) by simp_all
    from compact_append_ok [OF Cons.prems(1) r Cons.prems(3) small this] obtain t1 finished1 rs1 where
      a: "compact_append c (fst r) (fst (snd r)) (snd (snd r)) t = Some (t1, Ok ())" "compacting c fs0 t1 finished1 rs1"
        "length finished1 \<le> length finished + 1" "length rs1 \<le> length rs + 1" .
    have "list_all rec_ok ds" "\<exists>r\<in>set ds. rec_size r > unat (compaction_target_limit c)"
      "length rs1 + length ds < 65536" "length fs0 + 2 * (length finished1 + length ds) + 2 < 2 ^ 32 - 1"
      using Cons.prems(2,4-6) a(3,4) False by simp_all
    from Cons.IH [OF a(2) this(1) Cons.prems(3) this(2-4), of "n + 1"] a(1) show ?thesis by (simp add: case_prod_beta)
  qed
qed simp

section \<open>Collecting the latest records\<close>

definition before :: "nat \<times> nat \<Rightarrow> nat \<times> nat \<Rightarrow> bool" where
  "before p q \<longleftrightarrow> fst p < fst q \<or> fst p = fst q \<and> snd p < snd q"

text \<open>All records of the sources with their source and offset.\<close>

primrec positions :: "nat \<Rightarrow> cas_rec list list \<Rightarrow> ((nat \<times> nat) \<times> cas_rec) list" where
  "positions k [] = []"
| "positions k (rs # rss) = map (\<lambda>p. ((k, fst p), snd p)) (placed 0 rs) @ positions (k + 1) rss"

lemma positions_records: "map snd (positions k rss) = concat rss"
  by (induction rss arbitrary: k) (simp_all add: comp_def placed_records)

lemma placed_offset_le: "p \<in> set (placed off rs) \<Longrightarrow> off \<le> fst p \<and> fst p < off + recs_size rs"
proof (induction rs arbitrary: off)
  case (Cons r rs)
  have "0 < rec_size r" by (simp add: rec_len_def)
  with Cons show ?case by force
qed simp

lemma placed_increasing: "sorted_wrt (\<lambda>p q. fst p < fst q) (placed off rs)"
proof (induction rs arbitrary: off)
  case (Cons r rs)
  have "0 < rec_size r" by (simp add: rec_len_def)
  with Cons placed_offset_le show ?case by force
qed simp

lemma positions_source: "x \<in> set (positions k rss) \<Longrightarrow> k \<le> fst (fst x) \<and> fst (fst x) < k + length rss"
  by (induction rss arbitrary: k) fastforce+

lemma positions_increasing: "sorted_wrt (\<lambda>x y. before (fst x) (fst y)) (positions k rss)"
proof (induction rss arbitrary: k)
  case (Cons rs rss)
  have "sorted_wrt (\<lambda>x y. before (fst x) (fst y)) (map (\<lambda>p. ((k, fst p), snd p)) (placed 0 rs))"
    using placed_increasing [of 0 rs] by (simp add: sorted_wrt_map before_def)
  moreover have "before (fst x) (fst y)"
    if "x \<in> set (map (\<lambda>p. ((k, fst p), snd p)) (placed 0 rs))" "y \<in> set (positions (k + 1) rss)" for x y
    using that positions_source [OF that(2)] by (auto simp: before_def)
  ultimately show ?case using Cons.IH [of "k + 1"] by (simp add: sorted_wrt_append)
qed simp

lemma last_of_increasing:
  assumes "sorted_wrt (\<lambda>x y. before (fst x) (fst y)) xs" "x \<in> set xs"
    and "\<And>y. y \<in> set xs \<Longrightarrow> fst (snd y) = fst (snd x) \<Longrightarrow> \<not> before (fst x) (fst y)"
  shows "map_of (rev (map snd xs)) (fst (snd x)) = Some (snd (snd x))"
  using assms
proof (induction xs rule: rev_induct)
  case (snoc y xs)
  show ?case
  proof (cases "x = y")
    case True
    obtain a b where "snd y = (a, b)" by force
    with True show ?thesis by simp
  next
    case False
    with snoc.prems(2) have x: "x \<in> set xs" by simp
    with snoc.prems(1) have "before (fst x) (fst y)" by (simp add: sorted_wrt_append)
    with snoc.prems(3) [of y] have ne: "fst (snd y) \<noteq> fst (snd x)" by auto
    from snoc.IH [OF _ x] snoc.prems(1,3) have "map_of (rev (map snd xs)) (fst (snd x)) = Some (snd (snd x))"
      by (simp add: sorted_wrt_append)
    moreover obtain a b where "snd y = (a, b)" by force
    ultimately show ?thesis using ne by auto
  qed
qed simp

text \<open>For each atom seen so far the map holds its latest record.\<close>

definition holds_latest :: "((nat \<times> nat) \<times> cas_rec) set \<Rightarrow> atom_records \<Rightarrow> bool" where
  "holds_latest seen records \<longleftrightarrow> distinct (map fst records) \<and>
     (\<forall>x\<in>seen. map_of records (fst (snd x)) \<noteq> None) \<and>
     (\<forall>a v. map_of records a = Some v \<longrightarrow>
        (\<exists>x\<in>seen. v = (of_nat (fst (fst x)), of_nat (snd (fst x)), snd (snd x)) \<and> fst (snd x) = a \<and>
           (\<forall>y\<in>seen. fst (snd y) = a \<longrightarrow> \<not> before (fst x) (fst y))))"

lemma holds_latestD:
  assumes "holds_latest seen records"
  shows "distinct (map fst records)" "x \<in> seen \<Longrightarrow> map_of records (fst (snd x)) \<noteq> None"
    "map_of records a = Some v \<Longrightarrow>
       \<exists>x\<in>seen. v = (of_nat (fst (fst x)), of_nat (snd (fst x)), snd (snd x)) \<and> fst (snd x) = a \<and>
         (\<forall>y\<in>seen. fst (snd y) = a \<longrightarrow> \<not> before (fst x) (fst y))"
  using assms unfolding holds_latest_def by blast+

definition small_positions :: "((nat \<times> nat) \<times> cas_rec) set \<Rightarrow> bool" where
  "small_positions seen \<longleftrightarrow> (\<forall>x\<in>seen. fst (fst x) < 2 ^ 32 \<and> snd (fst x) < 2 ^ 62)"

lemma before_trans: "before p q \<Longrightarrow> \<not> before q' q \<Longrightarrow> \<not> before q' p"
  by (auto simp: before_def)

lemma holds_latest_step:
  assumes h: "holds_latest seen records" and small: "small_positions (insert ((k, off), r) seen)"
  defines "replace \<equiv> (case map_of records (fst r) of None \<Rightarrow> True
      | Some (existing_seg_id, existing_offset, _, _) \<Rightarrow>
          k > unat existing_seg_id \<or> (k = unat existing_seg_id \<and> (of_nat off :: u64) > existing_offset))"
  shows "holds_latest (insert ((k, off), r) seen)
    (if replace then AList.update (fst r) (of_nat k, of_nat off, snd r) records else records)"
proof (cases "map_of records (fst r)")
  case None
  then have rep: "replace" by (simp add: replace_def)
  from h None have new: "\<forall>x\<in>seen. fst (snd x) \<noteq> fst r" by (auto simp: holds_latest_def)
  show ?thesis
    unfolding holds_latest_def
  proof (intro conjI ballI allI impI)
    fix a v assume "map_of (if replace then AList.update (fst r) (of_nat k, of_nat off, snd r) records else records) a = Some v"
    then consider "a = fst r" "v = (of_nat k, of_nat off, snd r)" | "a \<noteq> fst r" "map_of records a = Some v"
      using rep by (auto split: if_splits)
    then show "\<exists>x\<in>insert ((k, off), r) seen. v = (of_nat (fst (fst x)), of_nat (snd (fst x)), snd (snd x)) \<and> fst (snd x) = a \<and>
           (\<forall>y\<in>insert ((k, off), r) seen. fst (snd y) = a \<longrightarrow> \<not> before (fst x) (fst y))"
    proof cases
      case 1
      then show ?thesis using new by (intro bexI [of _ "((k, off), r)"]) (auto simp: before_def)
    next
      case 2
      with h obtain x where "x \<in> seen" "v = (of_nat (fst (fst x)), of_nat (snd (fst x)), snd (snd x))" "fst (snd x) = a"
        "\<forall>y\<in>seen. fst (snd y) = a \<longrightarrow> \<not> before (fst x) (fst y)" unfolding holds_latest_def by blast
      with 2(1) show ?thesis by (intro bexI [of _ x]) auto
    qed
  next
    show "distinct (map fst (if replace then AList.update (fst r) (of_nat k, of_nat off, snd r) records else records))"
      using h by (simp add: holds_latest_def distinct_update)
  next
    fix x assume "x \<in> insert ((k, off), r) seen"
    with h have "map_of records (fst (snd x)) \<noteq> None \<or> x = ((k, off), r)" unfolding holds_latest_def by blast
    with rep show "map_of (if replace then AList.update (fst r) (of_nat k, of_nat off, snd r) records else records)
      (fst (snd x)) \<noteq> None" by (simp split: if_splits) auto
  qed
next
  case (Some v)
  with h obtain x where x: "x \<in> seen" "v = (of_nat (fst (fst x)), of_nat (snd (fst x)), snd (snd x))" "fst (snd x) = fst r"
    and mx: "\<forall>y\<in>seen. fst (snd y) = fst r \<longrightarrow> \<not> before (fst x) (fst y)" unfolding holds_latest_def by blast
  from small x(1) have u: "unat (of_nat (fst (fst x)) :: u32) = fst (fst x)" "unat (of_nat (snd (fst x)) :: u64) = snd (fst x)"
    "unat (of_nat off :: u64) = off"
    by (auto simp: small_positions_def intro!: unat_of_nat_u32 unat_of_nat_u64 intro: order.strict_trans)
  have rep: "replace \<longleftrightarrow> before (fst x) (k, off)"
    unfolding replace_def Some x(2) using u by (auto simp: before_def word_less_nat_alt)
  show ?thesis
  proof (cases "replace")
    case False
    have "\<forall>y\<in>insert ((k, off), r) seen. fst (snd y) = fst r \<longrightarrow> \<not> before (fst x) (fst y)" using mx False rep by simp
    then have "\<exists>x\<in>insert ((k, off), r) seen. v' = (of_nat (fst (fst x)), of_nat (snd (fst x)), snd (snd x)) \<and> fst (snd x) = a \<and>
        (\<forall>y\<in>insert ((k, off), r) seen. fst (snd y) = a \<longrightarrow> \<not> before (fst x) (fst y))"
      if "map_of records a = Some v'" for a v'
    proof (cases "a = fst r")
      case True
      with that Some have "v' = v" by simp
      with True x \<open>\<forall>y\<in>insert ((k, off), r) seen. _ y\<close> show ?thesis by (intro bexI [of _ x]) simp_all
    next
      case False
      from that h obtain z where "z \<in> seen" "v' = (of_nat (fst (fst z)), of_nat (snd (fst z)), snd (snd z))" "fst (snd z) = a"
        "\<forall>y\<in>seen. fst (snd y) = a \<longrightarrow> \<not> before (fst z) (fst y)" unfolding holds_latest_def by blast
      with False show ?thesis by (intro bexI [of _ z]) auto
    qed
    moreover have "map_of records (fst (snd y)) \<noteq> None" if "y \<in> insert ((k, off), r) seen" for y
      using that holds_latestD(2) [OF h, of y] Some by (cases "y \<in> seen") simp_all
    ultimately show ?thesis unfolding holds_latest_def if_not_P [OF False] using holds_latestD(1) [OF h] by blast
  next
    case True
    with rep have bf: "before (fst x) (k, off)" by simp
    have mx': "\<not> before (k, off) (fst y)" if "y \<in> insert ((k, off), r) seen" "fst (snd y) = fst r" for y
    proof (cases "y = ((k, off), r)")
      case False
      with that mx have "\<not> before (fst x) (fst y)" by blast
      with bf show ?thesis by (auto simp: before_def)
    qed (simp add: before_def)
    have "\<exists>x\<in>insert ((k, off), r) seen. v' = (of_nat (fst (fst x)), of_nat (snd (fst x)), snd (snd x)) \<and> fst (snd x) = a \<and>
        (\<forall>y\<in>insert ((k, off), r) seen. fst (snd y) = a \<longrightarrow> \<not> before (fst x) (fst y))"
      if "map_of (AList.update (fst r) (of_nat k, of_nat off, snd r) records) a = Some v'" for a v'
    proof (cases "a = fst r")
      case True
      with that mx' show ?thesis by (intro bexI [of _ "((k, off), r)"]) auto
    next
      case False
      with that have "map_of records a = Some v'" by simp
      with h obtain z where "z \<in> seen" "v' = (of_nat (fst (fst z)), of_nat (snd (fst z)), snd (snd z))" "fst (snd z) = a"
        "\<forall>y\<in>seen. fst (snd y) = a \<longrightarrow> \<not> before (fst z) (fst y)" unfolding holds_latest_def by blast
      with False show ?thesis by (intro bexI [of _ z]) auto
    qed
    moreover have "map_of (AList.update (fst r) (of_nat k, of_nat off, snd r) records) (fst (snd y)) \<noteq> None"
      if "y \<in> insert ((k, off), r) seen" for y
      using that holds_latestD(2) [OF h, of y] by (cases "y \<in> seen") simp_all
    moreover have "distinct (map fst (AList.update (fst r) (of_nat k, of_nat off, snd r) records))"
      using holds_latestD(1) [OF h] by (rule distinct_update)
    ultimately show ?thesis unfolding holds_latest_def if_P [OF True] by blast
  qed
qed

lemma mset_map_permutation: "mset es = mset (map f xs) \<Longrightarrow> \<exists>ys. mset ys = mset xs \<and> es = map f ys"
proof (induction es arbitrary: xs)
  case (Cons e es)
  then have "e \<in> set (map f xs)" by (metis list.set_intros(1) mset_eq_setD)
  then obtain x as bs where x: "e = f x" "xs = as @ x # bs" by (auto dest: split_list)
  with Cons.prems have "mset es = mset (map f (as @ bs))" by simp
  from Cons.IH [OF this] obtain ys where "mset ys = mset (as @ bs)" "es = map f ys" by blast
  with x show ?case by (intro exI [of _ "x # ys"]) simp
qed simp

lemma collect_entries_ok:
  assumes "set ps \<subseteq> set (placed 0 rs)" "seg_file_holds fs seg_id rs" "seg_readable s seg_id rs"
    and "holds_latest seen records" "small_positions seen" "k < 2 ^ 32"
  shows "\<exists>records'. collect_entries k s fs (map entry_of ps) records = Ok records' \<and>
    holds_latest (seen \<union> (\<lambda>p. ((k, fst p), snd p)) ` set ps) records' \<and>
    small_positions (seen \<union> (\<lambda>p. ((k, fst p), snd p)) ` set ps)"
  using assms
proof (induction ps arbitrary: seen records)
  case (Cons p ps)
  from Cons.prems(1) have p: "p \<in> set (placed 0 rs)" by simp
  have "fst p < 2 ^ 62" using placed_offset_le [OF p] Cons.prems(2) by (simp add: seg_file_holds_def)
  with Cons.prems(5,6) have small: "small_positions (insert ((k, fst p), snd p) seen)" by (simp add: small_positions_def)
  define replace where "replace \<longleftrightarrow> (case map_of records (fst (snd p)) of None \<Rightarrow> True
      | Some (existing_seg_id, existing_offset, _, _) \<Rightarrow>
          k > unat existing_seg_id \<or> (k = unat existing_seg_id \<and> (of_nat (fst p) :: u64) > existing_offset))"
  let ?records = "if replace then AList.update (fst (snd p)) (of_nat k, of_nat (fst p), snd (snd p)) records else records"
  from holds_latest_step [OF Cons.prems(4) small] have h: "holds_latest (insert ((k, fst p), snd p) seen) ?records"
    by (simp add: replace_def)
  from Cons.prems(1) have "set ps \<subseteq> set (placed 0 rs)" by simp
  from Cons.IH [OF this Cons.prems(2,3) h small Cons.prems(6)] obtain records' where
    r: "collect_entries k s fs (map entry_of ps) ?records = Ok records'"
      "holds_latest (insert ((k, fst p), snd p) seen \<union> (\<lambda>p. ((k, fst p), snd p)) ` set ps) records'"
      "small_positions (insert ((k, fst p), snd p) seen \<union> (\<lambda>p. ((k, fst p), snd p)) ` set ps)" by blast
  have "collect_entries k s fs (map entry_of (p # ps)) records = collect_entries k s fs (map entry_of ps) ?records"
    using read_placed [OF p Cons.prems(2,3)]
    by (simp add: replace_def Let_def cas_header_new_def split: option.splits)
  with r show ?case by simp
qed (use assms in simp)

lemma collect_records_ok:
  assumes "list_all2 (\<lambda>x ir. seg_readable (fst x) (fst ir) (snd ir) \<and> index_holds (snd x) (snd ir) \<and>
      seg_file_holds fs (fst ir) (snd ir)) sources irs"
    and "holds_latest seen records" "small_positions seen" "k + length irs < 2 ^ 32"
  shows "\<exists>records'. collect_records k fs sources records = Ok records' \<and>
    holds_latest (seen \<union> set (positions k (map snd irs))) records'"
  using assms
proof (induction sources irs arbitrary: k seen records rule: list_all2_induct)
  case (Cons x sources ir irs)
  from Cons.hyps(1) have s: "seg_readable (fst x) (fst ir) (snd ir)" "index_holds (snd x) (snd ir)"
    "seg_file_holds fs (fst ir) (snd ir)" by simp_all
  from s(2) obtain ps where ps: "mset ps = mset (placed 0 (snd ir))" "xf_entries (snd x) = map entry_of ps"
    using mset_map_permutation unfolding index_holds_def by blast
  from ps(1) have set_ps: "set ps = set (placed 0 (snd ir))" by (rule mset_eq_setD)
  have "k < 2 ^ 32" using Cons.prems(3) by simp
  from collect_entries_ok [OF _ s(3,1) Cons.prems(1,2) this, of ps] set_ps obtain records1 where
    r1: "collect_entries k (fst x) fs (map entry_of ps) records = Ok records1"
      "holds_latest (seen \<union> (\<lambda>p. ((k, fst p), snd p)) ` set ps) records1"
      "small_positions (seen \<union> (\<lambda>p. ((k, fst p), snd p)) ` set ps)" by blast
  have "k + 1 + length irs < 2 ^ 32" using Cons.prems(3) by simp
  from Cons.IH [OF r1(2,3) this] obtain records' where
    "collect_records (k + 1) fs sources records1 = Ok records'"
    "holds_latest (seen \<union> (\<lambda>p. ((k, fst p), snd p)) ` set ps \<union> set (positions (k + 1) (map snd irs))) records'" by blast
  with r1(1) ps(2) set_ps show ?case by (simp add: Un_assoc)
qed simp

lemma latest_is_last:
  assumes h: "holds_latest (set (positions 0 rss)) records"
  shows "map_option (\<lambda>(_, _, v). v) (map_of records a) = map_of (rev (concat rss)) a"
proof (cases "map_of records a")
  case None
  with holds_latestD(2) [OF h] have "\<forall>x\<in>set (positions 0 rss). fst (snd x) \<noteq> a" by blast
  then have "\<forall>r\<in>set (map snd (positions 0 rss)). fst r \<noteq> a" by simp
  then have "map_of (rev (concat rss)) a = None"
    unfolding positions_records by (auto simp: map_of_eq_None_iff)
  with None show ?thesis by simp
next
  case (Some v)
  from holds_latestD(3) [OF h Some] obtain x where x: "x \<in> set (positions 0 rss)"
    "v = (of_nat (fst (fst x)), of_nat (snd (fst x)), snd (snd x))" "fst (snd x) = a"
    "\<forall>y\<in>set (positions 0 rss). fst (snd y) = a \<longrightarrow> \<not> before (fst x) (fst y)" by blast
  from last_of_increasing [OF positions_increasing x(1)] x(3,4)
  have "map_of (rev (map snd (positions 0 rss))) a = Some (snd (snd x))" by simp
  with Some x(2) show ?thesis unfolding positions_records by simp
qed

lemma sorted_records_map:
  assumes d: "distinct (map fst records)"
  shows "distinct (map fst (sorted_records records))"
    "map_of (sorted_records records) a = map_option (\<lambda>(_, _, v). v) (map_of records a)"
proof -
  let ?f = "\<lambda>(a, _ :: u32, _ :: u64, body :: bytes, flags :: u16). (a, body, flags)"
  let ?s = "sort_key (\<lambda>(_, source_seg, source_offset, _, _). [unat source_seg, unat source_offset]) records"
  have s: "sorted_records records = map ?f ?s" by (simp add: sorted_records_def)
  have f: "map fst (map ?f xs) = map fst xs" for xs by (induction xs) auto
  have m: "mset ?s = mset records" by simp
  have "mset (map fst ?s) = mset (map fst records)" by (simp del: mset_map add: mset_map m)
  then have ds: "distinct (map fst ?s)" using d mset_eq_imp_distinct_iff by blast
  then show "distinct (map fst (sorted_records records))" unfolding s f .
  have "map_of ?s a = Some v \<longleftrightarrow> map_of records a = Some v" for v
    using ds d by (simp add: map_of_eq_Some_iff)
  then have "map_of ?s a = map_of records a" by (cases "map_of records a"; cases "map_of ?s a") auto
  moreover have "map_of (map ?f xs) a = map_option (\<lambda>(_, _, v). v) (map_of xs a)" for xs
    by (induction xs) auto
  ultimately show "map_of (sorted_records records) a = map_option (\<lambda>(_, _, v). v) (map_of records a)"
    by (simp add: s)
qed

lemma open_sources_ok:
  assumes "list_all2 (\<lambda>i rs. seg_file_holds fs i rs \<and> indexed fs i rs) ids rss"
  shows "\<exists>sources. open_sources ids fs = Ok sources \<and>
    list_all2 (\<lambda>x ir. seg_readable (fst x) (fst ir) (snd ir) \<and> index_holds (snd x) (snd ir)) sources (zip ids rss)"
  using assms
proof (induction ids rss rule: list_all2_induct)
  case (Cons i ids rs rss)
  from Cons.hyps(1) have h: "seg_file_holds fs i rs" and "indexed fs i rs" by simp_all
  from index_open_indexed [OF this(2)] obtain x where x: "index_open i fs = Ok x" "index_loaded x rs" .
  let ?s = "\<lparr>sg_seg_id = i, sg_pos = length (seg_image i rs), sg_current_size = of_nat (length (seg_image i rs)),
    sg_size_limit = DEFAULT_SEGMENT_SIZE_LIMIT, sg_record_count = 0\<rparr>"
  have s: "seg_open i fs = Ok ?s" using h by (simp add: seg_open_def seg_file_holds_def)
  have "seg_readable ?s i rs" using h by (simp add: seg_readable_def seg_file_holds_def length_seg_image unat_of_nat_u64)
  with Cons.IH x s show ?case by (auto simp: index_loaded_def)
qed simp

lemma sources_after_start:
  assumes "list_all2 (\<lambda>i rs. seg_file_holds fs i rs \<and> indexed fs i rs) ids rss" "others_kept fs fs' {j}" "seg_unused fs j"
    and "list_all2 (\<lambda>x ir. seg_readable (fst x) (fst ir) (snd ir) \<and> index_holds (snd x) (snd ir)) sources (zip ids rss)"
  shows "list_all2 (\<lambda>x ir. seg_readable (fst x) (fst ir) (snd ir) \<and> index_holds (snd x) (snd ir) \<and>
      seg_file_holds fs' (fst ir) (snd ir)) sources (zip ids rss)"
proof -
  have "seg_file_holds fs' i rs" if h: "seg_file_holds fs i rs" for i rs
  proof -
    from h assms(3) have "i \<noteq> j" by (auto simp: seg_file_holds_def seg_unused_def)
    then have "seg_file i \<notin> seg_file ` {j} \<union> idx_file ` {j}" by simp
    with assms(2) have "map_of fs' (seg_file i) = map_of fs (seg_file i)" unfolding others_kept_def by blast
    with h show ?thesis by (simp add: seg_file_holds_def)
  qed
  moreover from assms(1) have "\<forall>ir\<in>set (zip ids rss). seg_file_holds fs (fst ir) (snd ir)"
    by (auto simp: list_all2_iff)
  ultimately have "seg_file_holds fs' (fst ir) (snd ir)" if "ir \<in> set (zip ids rss)" for ir using that by blast
  moreover note len = list_all2_lengthD [OF assms(4)]
  ultimately show ?thesis
    using list_all2_nthD [OF assms(4)] by (intro list_all2_all_nthI len) (simp only: nth_mem len)
qed

lemma one_segment_dir:
  assumes "list_all rec_ok rs" "recs_size rs < 2 ^ 62" "length rs < 65536"
  shows "\<exists>fs. length fs = 2 \<and> seg_file_holds fs 0 rs \<and> indexed fs 0 rs"
proof -
  have "\<exists>x. index_holds x rs"
  proof (induction rs rule: rev_induct)
    case Nil
    show ?case using index_holds_create by blast
  next
    case (snoc r rs)
    then obtain x where "index_holds x rs" by blast
    from index_holds_insert [OF this] show ?case by blast
  qed
  then obtain x where x: "index_holds x rs" by blast
  let ?fs = "[(seg_file 0, seg_image 0 rs), (idx_file 0, index_bytes x)]"
  have "seg_file_holds ?fs 0 rs" using assms(1,2) by (simp add: seg_file_holds_def)
  moreover have "indexed ?fs 0 rs" using x assms(3) by (auto simp: indexed_def)
  ultimately show ?thesis by (intro exI [of _ ?fs]) simp
qed

section \<open>What a compaction does\<close>

text \<open>The sources of a compaction: segments with their indexes, within the bounds of the counters.\<close>

definition compaction_input :: "Compactor \<Rightarrow> u32 list \<Rightarrow> cas_rec list list \<Rightarrow> cas_files \<Rightarrow> bool" where
  "compaction_input c ids rss fs \<longleftrightarrow> ids \<noteq> [] \<and>
     list_all2 (\<lambda>i rs. seg_file_holds fs i rs \<and> indexed fs i rs) ids rss \<and>
     length (concat rss) < 65536 \<and> length ids < 2 ^ 32 \<and> length fs < 2 ^ 31 \<and>
     unat (compaction_target_limit c) < 2 ^ 62"

lemma compaction_collects:
  assumes i: "compaction_input c ids rss fs"
  obtains sources t records where "open_sources ids fs = Ok sources" "create_compaction_target c target fs = Some t"
    "collect_records 0 (ct_files t) sources [] = Ok records" "compacting c fs t [] []"
    "distinct (map fst (sorted_records records))" "map_of (sorted_records records) = map_of (rev (concat rss))"
    "list_all rec_ok (sorted_records records)" "length (sorted_records records) < 65536"
proof -
  from i have l2: "list_all2 (\<lambda>i rs. seg_file_holds fs i rs \<and> indexed fs i rs) ids rss"
    and n: "length ids < 2 ^ 32" "length fs < 2 ^ 31" by (simp_all add: compaction_input_def)
  from open_sources_ok [OF l2] obtain sources where s: "open_sources ids fs = Ok sources"
    "list_all2 (\<lambda>x ir. seg_readable (fst x) (fst ir) (snd ir) \<and> index_holds (snd x) (snd ir)) sources (zip ids rss)" by blast
  have "length fs < 2 ^ 32 - 1" using n by simp
  from compacting_start [OF this, of c target] obtain t where
    t: "create_compaction_target c target fs = Some t" "compacting c fs t [] []" .
  from t(2) have "others_kept fs (ct_files t) {ct_seg_id t}" "seg_unused fs (ct_seg_id t)" by (simp_all add: compacting_def)
  from sources_after_start [OF l2 this s(2)] have
    l2': "list_all2 (\<lambda>x ir. seg_readable (fst x) (fst ir) (snd ir) \<and> index_holds (snd x) (snd ir) \<and>
      seg_file_holds (ct_files t) (fst ir) (snd ir)) sources (zip ids rss)" .
  have len: "length ids = length rss" using l2 by (rule list_all2_lengthD)
  have "holds_latest {} []" "small_positions {}" by (simp_all add: holds_latest_def small_positions_def)
  from collect_records_ok [OF l2' this, of 0] n len obtain records where
    r: "collect_records 0 (ct_files t) sources [] = Ok records" "holds_latest (set (positions 0 rss)) records" by auto
  note d = holds_latestD(1) [OF r(2)]
  have m: "map_of (sorted_records records) = map_of (rev (concat rss))"
    using sorted_records_map(2) [OF d] latest_is_last [OF r(2)] by (intro ext) simp
  have sub: "set (sorted_records records) \<subseteq> set (concat rss)"
  proof
    fix x assume "x \<in> set (sorted_records records)"
    then have "map_of (sorted_records records) (fst x) = Some (snd x)"
      using sorted_records_map(1) [OF d] by (metis map_of_eq_Some_iff prod.collapse)
    then have "x \<in> set (rev (concat rss))" unfolding m by (metis map_of_SomeD prod.collapse)
    then show "x \<in> set (concat rss)" by simp
  qed
  have "list_all rec_ok rs" if "rs \<in> set rss" for rs
  proof -
    from that obtain n where n: "n < length rss" "rs = rss ! n" by (auto simp: in_set_conv_nth)
    from list_all2_nthD2 [OF l2 n(1)] n(2) show ?thesis by (simp add: seg_file_holds_def)
  qed
  then have "list_all rec_ok (concat rss)" by (simp add: list_all_iff)
  with sub have "list_all rec_ok (sorted_records records)" by (auto simp: list_all_iff)
  moreover have "length (sorted_records records) < 65536"
  proof -
    have "length (sorted_records records) = card (set (sorted_records records))"
      using sorted_records_map(1) [OF d] by (metis distinct_card distinct_map)
    also have "\<dots> \<le> card (set (concat rss))" using sub by (intro card_mono) simp_all
    also have "\<dots> \<le> length (concat rss)" by (rule card_length)
    finally show ?thesis using i by (simp add: compaction_input_def)
  qed
  ultimately show thesis using that s(1) t r(1) sorted_records_map(1) [OF d] m by blast
qed

text \<open>
  C13: When every record fits a target segment and the sources hold fewer than 65536 records, a compaction returns the number of records it wrote; its new segments and their indexes hold, for each
  atom of the sources, exactly the latest record, and no file that existed is changed.
\<close>

theorem compaction_keeps_latest:
  assumes i: "compaction_input c ids rss fs"
    and small: "list_all (\<lambda>r. rec_size r \<le> unat (compaction_target_limit c)) (concat rss)"
  shows "\<exists>fs' targets. compact_segments c ids target fs = Some (fs', Ok (of_nat (length (concat (map snd targets))))) \<and>
    (\<forall>x\<in>set targets. seg_unused fs (fst x) \<and> seg_file_holds fs' (fst x) (snd x) \<and> indexed fs' (fst x) (snd x)) \<and>
    distinct (map fst targets) \<and> distinct (map fst (concat (map snd targets))) \<and>
    map_of (concat (map snd targets)) = map_of (rev (concat rss)) \<and>
    (\<forall>name. map_of fs name \<noteq> None \<longrightarrow> map_of fs' name = map_of fs name)"
proof -
  from compaction_collects [OF i, of target] obtain sources t records where
    r: "open_sources ids fs = Ok sources" "create_compaction_target c target fs = Some t"
    "collect_records 0 (ct_files t) sources [] = Ok records" "compacting c fs t [] []"
    "distinct (map fst (sorted_records records))" "map_of (sorted_records records) = map_of (rev (concat rss))"
    "list_all rec_ok (sorted_records records)" "length (sorted_records records) < 65536" .
  have "list_all (\<lambda>r. rec_size r \<le> unat (compaction_target_limit c)) (sorted_records records)"
    unfolding list_all_iff
  proof
    fix x assume "x \<in> set (sorted_records records)"
    with r(5,6) have "map_of (rev (concat rss)) (fst x) = Some (snd x)" by (metis map_of_eq_Some_iff prod.collapse)
    then have "x \<in> set (concat rss)" by (metis map_of_SomeD prod.collapse set_rev)
    with small show "rec_size x \<le> unat (compaction_target_limit c)" unfolding list_all_iff by blast
  qed
  moreover have "length fs + 2 * (length [] + length (sorted_records records)) + 2 < 2 ^ 32 - 1"
    using i r(8) by (simp add: compaction_input_def)
  ultimately obtain t' targets where
    w: "compact_write c (sorted_records records) t 0 = Some (t', Ok (0 + of_nat (length (sorted_records records))))"
      "targets_ok fs (ct_files t') targets" "others_kept fs (ct_files t') (fst ` set targets)"
      "concat (map snd targets) = concat (map snd []) @ [] @ sorted_records records"
    using compact_write_ok [OF r(4,7), of 0] i r(8) unfolding compaction_input_def by auto
  have out: "concat (map snd targets) = sorted_records records" using w(4) by simp
  have "ids \<noteq> []" using i by (simp add: compaction_input_def)
  with r(1-3) w(1) have "compact_segments c ids target fs = Some (ct_files t', Ok (of_nat (length (sorted_records records))))"
    by (simp add: compact_segments_def)
  moreover have "map_of (ct_files t') name = map_of fs name" if "map_of fs name \<noteq> None" for name
  proof -
    have "name \<notin> seg_file ` (fst ` set targets) \<union> idx_file ` (fst ` set targets)"
      using that w(2) by (auto simp: targets_ok_def seg_unused_def)
    with w(3) show ?thesis unfolding others_kept_def by blast
  qed
  ultimately show ?thesis using w(2) r(5,6) unfolding out [symmetric] targets_ok_def by blast
qed

theorem compaction_keeps_latest_witness:
  "\<exists>fs fs' (targets :: (u32 \<times> cas_rec list) list). compact_segments \<lparr>cp_size_limit = 1000\<rparr> [0] 1 fs = Some (fs', Ok (of_nat (length (concat (map snd targets))))) \<and>
     map_of (concat (map snd targets)) = [replicate 32 1 \<mapsto> ([2], 5)]"
proof -
  let ?rs = "[(replicate 32 1, [1], 0), (replicate 32 1, [2], 5)] :: cas_rec list"
  obtain fs where fs: "length fs = 2" "seg_file_holds fs 0 ?rs" "indexed fs 0 ?rs"
    using one_segment_dir [of ?rs] by (auto simp: rec_ok_def rec_len_def pad16_def)
  have lim: "unat (compaction_target_limit \<lparr>cp_size_limit = 1000\<rparr>) = 1048576"
    by (simp add: compaction_target_limit_def MIN_SEGMENT_SIZE_FOR_COMPACTION_def max_def)
  with fs have i: "compaction_input \<lparr>cp_size_limit = 1000\<rparr> [0] [?rs] fs" by (simp add: compaction_input_def)
  have "list_all (\<lambda>r. rec_size r \<le> unat (compaction_target_limit \<lparr>cp_size_limit = 1000\<rparr>)) (concat [?rs])"
    by (simp add: lim rec_len_def pad16_def)
  from compaction_keeps_latest [OF i this, of 1] obtain fs' and targets :: "(u32 \<times> cas_rec list) list" where
    "compact_segments \<lparr>cp_size_limit = 1000\<rparr> [0] 1 fs = Some (fs', Ok (of_nat (length (concat (map snd targets)))))"
    "map_of (concat (map snd targets)) = map_of (rev (concat [?rs]))" by blast
  moreover have "map_of (rev (concat [?rs])) = [replicate 32 1 \<mapsto> ([2], 5)]" by simp
  ultimately show ?thesis by auto
qed

text \<open>
  C15: When the latest record of an atom is larger than the limit of the target segments, the compaction never
  returns: it opens one new segment after another.
\<close>

theorem compaction_oversize_diverges:
  assumes i: "compaction_input c ids rss fs"
    and big: "map_of (rev (concat rss)) atom_id = Some (body, flags)" "rec_len (length body) > unat (compaction_target_limit c)"
  shows "compact_segments c ids target fs = None"
proof -
  from compaction_collects [OF i, of target] obtain sources t records where
    r: "open_sources ids fs = Ok sources" "create_compaction_target c target fs = Some t"
    "collect_records 0 (ct_files t) sources [] = Ok records" "compacting c fs t [] []"
    "distinct (map fst (sorted_records records))" "map_of (sorted_records records) = map_of (rev (concat rss))"
    "list_all rec_ok (sorted_records records)" "length (sorted_records records) < 65536" .
  from big(1) r(6) have "(atom_id, body, flags) \<in> set (sorted_records records)" by (metis map_of_SomeD)
  with big(2) have "\<exists>r\<in>set (sorted_records records). rec_size r > unat (compaction_target_limit c)" by force
  moreover have "length fs + 2 * (length [] + length (sorted_records records)) + 2 < 2 ^ 32 - 1"
    "length [] + length (sorted_records records) < 65536" "unat (compaction_target_limit c) < 2 ^ 62"
    using i r(8) by (simp_all add: compaction_input_def)
  ultimately have "compact_write c (sorted_records records) t 0 = None"
    using compact_write_diverges [OF r(4,7)] by blast
  moreover have "ids \<noteq> []" using i by (simp add: compaction_input_def)
  ultimately show ?thesis using r(1-3) by (simp add: compact_segments_def)
qed

theorem compaction_oversize_diverges_witness:
  "\<exists>fs. compact_segments \<lparr>cp_size_limit = 1000\<rparr> [0] 1 fs = None"
proof -
  let ?b = "replicate 2000000 1 :: bytes"
  let ?rs = "[(replicate 32 1, ?b, 0)] :: cas_rec list"
  obtain fs where fs: "length fs = 2" "seg_file_holds fs 0 ?rs" "indexed fs 0 ?rs"
    using one_segment_dir [of ?rs] by (auto simp: rec_ok_def rec_len_def pad16_def)
  have lim: "unat (compaction_target_limit \<lparr>cp_size_limit = 1000\<rparr>) = 1048576"
    by (simp add: compaction_target_limit_def MIN_SEGMENT_SIZE_FOR_COMPACTION_def max_def)
  with fs have i: "compaction_input \<lparr>cp_size_limit = 1000\<rparr> [0] [?rs] fs" by (simp add: compaction_input_def)
  have "map_of (rev (concat [?rs])) (replicate 32 1) = Some (?b, 0)" by simp
  from compaction_oversize_diverges [OF i this, of 1] show ?thesis by (auto simp: lim rec_len_def pad16_def)
qed

end
