(* ===== verification/Cas_Batch.thy ===== *)
theory Cas_Batch
  imports Cas_Compaction
begin

text \<open>
  The second interface to segments in \<open>src/cas/io.rs\<close>: an index file with node numbers
  (\<open>SegmentIndex\<close>), batched reading of records (\<open>CoalescedReader\<close>) and merging and cleaning of
  segments (\<open>SegmentCompactor\<close>). A path is the name of a file in the directory of the store.
\<close>

section \<open>Index with node numbers\<close>

record SegmentIndexEntry =
  se_fp64 :: u64
  se_offset :: u64
  se_len :: u32
  se_padding :: u32
  se_node_num :: u64

definition SEGMENT_INDEX_ENTRY_SIZE :: nat where "SEGMENT_INDEX_ENTRY_SIZE = 32"
definition SKFI_MAGIC :: u32 where "SKFI_MAGIC = 0x534B4649"
definition SKFI_VERSION :: u16 where "SKFI_VERSION = 0x0001"

definition segment_entry_new :: "AtomId \<Rightarrow> u64 \<Rightarrow> u32 \<Rightarrow> u64 \<Rightarrow> SegmentIndexEntry" where
  "segment_entry_new atom_id offset len node_num =
     \<lparr>se_fp64 = le_u64 (take 8 atom_id), se_offset = offset, se_len = len, se_padding = 0, se_node_num = node_num\<rparr>"

definition segment_entry_memory :: "SegmentIndexEntry \<Rightarrow> bytes" where
  "segment_entry_memory e = u64_le (se_fp64 e) @ u64_le (se_offset e) @ u32_le (se_len e) @
     u32_le (se_padding e) @ u64_le (se_node_num e)"

definition segment_entry_write_to_bytes :: "SegmentIndexEntry \<Rightarrow> bytes \<Rightarrow> bytes io" where
  "segment_entry_write_to_bytes e bs =
     (if length bs < SEGMENT_INDEX_ENTRY_SIZE then Err (CioBufferTooSmall SEGMENT_INDEX_ENTRY_SIZE (length bs))
      else Ok (segment_entry_memory e @ drop SEGMENT_INDEX_ENTRY_SIZE bs))"

definition segment_entry_from_bytes :: "bytes \<Rightarrow> SegmentIndexEntry io" where
  "segment_entry_from_bytes bs =
     (if length bs < SEGMENT_INDEX_ENTRY_SIZE then Err (CioBufferTooSmall SEGMENT_INDEX_ENTRY_SIZE (length bs))
      else Ok \<lparr>se_fp64 = u64_at 0 bs, se_offset = u64_at 8 bs, se_len = u32_at 16 bs, se_padding = u32_at 20 bs,
               se_node_num = u64_at 24 bs\<rparr>)"

record SegmentIndex =
  si_entries :: "SegmentIndexEntry list"
  si_bloom_filter :: "BloomFilter option"

definition segment_index_new :: SegmentIndex where
  "segment_index_new = \<lparr>si_entries = [], si_bloom_filter = None\<rparr>"

definition segment_index_with_capacity :: "nat \<Rightarrow> SegmentIndex" where
  "segment_index_with_capacity capacity = \<lparr>si_entries = [], si_bloom_filter = None\<rparr>"

definition segment_index_add :: "SegmentIndexEntry \<Rightarrow> SegmentIndex \<Rightarrow> SegmentIndex" where
  "segment_index_add e x = x\<lparr>si_entries := si_entries x @ [e]\<rparr>"

definition segment_index_find :: "u64 \<Rightarrow> SegmentIndex \<Rightarrow> SegmentIndexEntry option" where
  "segment_index_find fp x = List.find (\<lambda>e. se_fp64 e = fp) (si_entries x)"

definition segment_index_find_by_atom_id :: "AtomId \<Rightarrow> SegmentIndex \<Rightarrow> SegmentIndexEntry option" where
  "segment_index_find_by_atom_id atom_id x = segment_index_find (le_u64 (take 8 atom_id)) x"

definition segment_index_sort :: "SegmentIndex \<Rightarrow> SegmentIndex" where
  "segment_index_sort x = x\<lparr>si_entries := sort_key se_fp64 (si_entries x)\<rparr>"

text \<open>The binary search of the standard library on the keys of a list: the base it narrows down to.\<close>

function std_search_base :: "'k::linorder list \<Rightarrow> 'k \<Rightarrow> nat \<Rightarrow> nat \<Rightarrow> nat" where
  "std_search_base ks k base n =
     (if n \<le> 1 then base
      else let half = n div 2; mid = base + half
           in std_search_base ks k (if ks ! mid > k then base else mid) (n - half))"
  by pat_completeness auto
termination by (relation "measure (\<lambda>(_, _, _, n). n)") auto

declare std_search_base.simps [simp del]

definition std_binary_search :: "'k::linorder list \<Rightarrow> 'k \<Rightarrow> nat option" where
  "std_binary_search ks k =
     (if ks = [] then None
      else let i = std_search_base ks k 0 (length ks) in if ks ! i = k then Some i else None)"

definition segment_index_find_sorted :: "u64 \<Rightarrow> SegmentIndex \<Rightarrow> SegmentIndexEntry option" where
  "segment_index_find_sorted fp x =
     map_option (\<lambda>i. si_entries x ! i) (std_binary_search (map se_fp64 (si_entries x)) fp)"

definition segment_index_write_to_file :: "SegmentIndex \<Rightarrow> string \<Rightarrow> cas_files \<Rightarrow> cas_files" where
  "segment_index_write_to_file x path fs =
     AList.update path
       (u32_le SKFI_MAGIC @ u16_le SKFI_VERSION @ u16_le 0 @ len_le (length (si_entries x)) @
        concat (map segment_entry_memory (si_entries x)) @
        (case si_bloom_filter x of
           Some bloom \<Rightarrow> len_le (length (bloom_to_bytes bloom)) @ bloom_to_bytes bloom
         | None \<Rightarrow> u32_le 0)) fs"

text \<open>\<open>read_exact\<close> on the rest of a file.\<close>

definition read_exact :: "nat \<Rightarrow> bytes \<Rightarrow> (bytes \<times> bytes) io" where
  "read_exact n bs = (if length bs < n then Err (CioIo KindUnexpectedEof) else Ok (take n bs, drop n bs))"

primrec read_segment_entries :: "nat \<Rightarrow> bytes \<Rightarrow> (SegmentIndexEntry list \<times> bytes) io" where
  "read_segment_entries 0 bs = Ok ([], bs)"
| "read_segment_entries (Suc n) bs =
     bind_res (read_exact SEGMENT_INDEX_ENTRY_SIZE bs) (\<lambda>(entry_bytes, bs).
     bind_res (segment_entry_from_bytes entry_bytes) (\<lambda>e.
     bind_res (read_segment_entries n bs) (\<lambda>(es, bs). Ok (e # es, bs))))"

definition segment_index_read_from_file :: "string \<Rightarrow> cas_files \<Rightarrow> SegmentIndex io" where
  "segment_index_read_from_file path fs =
     (case map_of fs path of
        None \<Rightarrow> Err (CioIo KindNotFound)
      | Some bs \<Rightarrow>
          bind_res (read_exact 4 bs) (\<lambda>(magic, bs).
          if le_u32 magic \<noteq> SKFI_MAGIC then Err (CioInvalidMagic SKFI_MAGIC (le_u32 magic))
          else bind_res (read_exact 2 bs) (\<lambda>(version, bs).
          if le_u16 version \<noteq> SKFI_VERSION then Err (CioIo (KindOther ''Unsupported index version''))
          else bind_res (read_exact 2 bs) (\<lambda>(flags, bs).
          bind_res (read_exact 4 bs) (\<lambda>(count, bs).
          bind_res (read_segment_entries (unat (le_u32 count)) bs) (\<lambda>(entries, bs).
          bind_res (read_exact 4 bs) (\<lambda>(bloom_size, bs).
          bind_res (if le_u32 bloom_size > 0 then read_exact (unat (le_u32 bloom_size)) bs else Ok ([], bs)) (\<lambda>_.
            Ok \<lparr>si_entries = entries, si_bloom_filter = None\<rparr>))))))))"

definition segment_index_might_contain :: "AtomId \<Rightarrow> SegmentIndex \<Rightarrow> bool io" where
  "segment_index_might_contain atom_id x =
     (case si_bloom_filter x of Some bloom \<Rightarrow> bloom_might_contain bloom atom_id | None \<Rightarrow> Ok True)"

section \<open>Batched reads\<close>

record ReadRange =
  rr_start :: u64
  rr_end :: u64
  rr_original_offsets :: "u64 list"

record CoalescedReader =
  co_segments :: "SegmentFile list"
  co_coalesce_gap :: nat

text \<open>The loop over the sorted offsets: the ranges so far, and the current one.\<close>

definition close_range :: "u64 \<Rightarrow> u64 \<Rightarrow> u64 list \<Rightarrow> ReadRange" where
  "close_range start last_offset offsets =
     \<lparr>rr_start = start, rr_end = last_offset + 64 + 1024, rr_original_offsets = offsets\<rparr>"

primrec merge_sorted :: "nat \<Rightarrow> u64 list \<Rightarrow> u64 \<Rightarrow> u64 \<Rightarrow> u64 list \<Rightarrow> ReadRange list" where
  "merge_sorted gap [] current_start current_end current_offsets =
     [close_range current_start current_end current_offsets]"
| "merge_sorted gap (offset # offsets) current_start current_end current_offsets =
     (if unat (offset - current_end) \<le> gap
      then merge_sorted gap offsets current_start offset (current_offsets @ [offset])
      else close_range current_start current_end current_offsets # merge_sorted gap offsets offset offset [offset])"

definition merge_offsets :: "CoalescedReader \<Rightarrow> u64 list \<Rightarrow> ReadRange list" where
  "merge_offsets c offsets =
     (case sort offsets of
        [] \<Rightarrow> []
      | offset # rest \<Rightarrow> merge_sorted (co_coalesce_gap c) rest offset offset [offset])"

text \<open>A read that goes past the end of the file fails; a length above \<open>2 ^ 63\<close> is refused.\<close>

definition read_range :: "SegmentFile \<Rightarrow> u64 \<Rightarrow> u64 \<Rightarrow> cas_files \<Rightarrow> bytes option io" where
  "read_range s start end_offset fs =
     (if start \<ge> sg_current_size s then Ok None
      else
        (let actual_end = min end_offset (sg_current_size s);
             len = unat (actual_end - start)
         in case map_of fs (seg_file (sg_seg_id s)) of
              None \<Rightarrow> Err (CioIo KindNotFound)
            | Some content \<Rightarrow>
                if len \<ge> 2 ^ 63 then Panic
                else bind_res (snd (read_at (unat start) len content)) (\<lambda>data. Ok (Some data))))"

definition extract_record_at_offset :: "bytes \<Rightarrow> u64 \<Rightarrow> u64 \<Rightarrow> bytes io" where
  "extract_record_at_offset range_data range_start record_offset =
     (let relative_offset = record_offset - range_start;
          header_end = relative_offset + 64
      in if unat header_end > length range_data then Err (CioBufferTooSmall (unat header_end) (length range_data))
         else if unat header_end < unat relative_offset then Panic
         else
           (case cas_header_from_bytes (take 64 (drop (unat relative_offset) range_data)) of
              Inl e \<Rightarrow> Err (CioCas e)
            | Inr header \<Rightarrow>
                (let body_start = relative_offset + 64;
                     body_end = body_start + ch_body_len header
                 in if unat body_end > length range_data then Err (CioBufferTooSmall (unat body_end) (length range_data))
                    else if unat body_end < unat body_start then Panic
                    else Ok (take (unat body_end - unat body_start) (drop (unat body_start) range_data)))))"

primrec extract_all :: "bytes \<Rightarrow> u64 \<Rightarrow> u64 list \<Rightarrow> (u64 \<times> bytes) list io" where
  "extract_all data start [] = Ok []"
| "extract_all data start (offset # offsets) =
     bind_res (extract_record_at_offset data start offset) (\<lambda>record_data.
     bind_res (extract_all data start offsets) (\<lambda>rest. Ok ((offset, record_data) # rest)))"

primrec read_ranges :: "SegmentFile list \<Rightarrow> ReadRange list \<Rightarrow> cas_files \<Rightarrow> (u64 \<times> bytes) list io" where
  "read_ranges segments [] fs = Ok []"
| "read_ranges segments (r # rs) fs =
     bind_res (case List.find (\<lambda>s. rr_start r < sg_current_size s) segments of
                 None \<Rightarrow> Ok None
               | Some s \<Rightarrow> read_range s (rr_start r) (rr_end r) fs) (\<lambda>range_data.
     bind_res (case range_data of
                 None \<Rightarrow> Ok []
               | Some data \<Rightarrow> extract_all data (rr_start r) (rr_original_offsets r)) (\<lambda>records.
     bind_res (read_ranges segments rs fs) (\<lambda>rest. Ok (records @ rest))))"

text \<open>The position of the first occurrence, past the end if there is none.\<close>

primrec first_position :: "'a \<Rightarrow> 'a list \<Rightarrow> nat" where
  "first_position x [] = 0"
| "first_position x (y # ys) = (if x = y then 0 else first_position x ys + 1)"

definition read_batch :: "CoalescedReader \<Rightarrow> u64 list \<Rightarrow> cas_files \<Rightarrow> bytes list io" where
  "read_batch c offsets fs =
     (if offsets = [] then Ok []
      else bind_res (read_ranges (co_segments c) (merge_offsets c offsets) fs) (\<lambda>results.
             Ok (map snd (sort_key (\<lambda>x. first_position (fst x) offsets) results))))"

section \<open>Merging and cleaning segments\<close>

text \<open>\<open>file_stem\<close> of a file name.\<close>

definition file_stem :: "string \<Rightarrow> string option" where
  "file_stem name =
     (if name = [] \<or> name = ''.'' \<or> name = ''..'' then None
      else let rest = drop 1 (dropWhile (\<lambda>c. c \<noteq> CHR ''.'') (rev name))
           in Some (if rest = [] then name else rev rest))"

definition stem_id :: "string \<Rightarrow> string option" where
  "stem_id stem = (if starts_with stem ''seg_'' then Some (drop 4 stem) else None)"

primrec open_paths :: "string list \<Rightarrow> cas_files \<Rightarrow> (u32 \<times> SegmentFile) list io" where
  "open_paths [] fs = Ok []"
| "open_paths (path # paths) fs =
     bind_res (ok_or (file_stem path) (CioIo (KindOther ''Invalid segment path''))) (\<lambda>file_name.
       case stem_id file_name of
         None \<Rightarrow> open_paths paths fs
       | Some id_str \<Rightarrow>
           bind_res (ok_or (parse_u32 id_str) (CioIo (KindOther ''Invalid segment ID in path''))) (\<lambda>seg_id.
           bind_res (seg_open seg_id fs) (\<lambda>segment.
           bind_res (open_paths paths fs) (\<lambda>rest. Ok ((seg_id, segment) # rest)))))"

text \<open>The state of the merge: the files, the output segment, the new entries, the counter and the
  atoms seen.\<close>

record MergeState =
  ms_files :: cas_files
  ms_output :: SegmentFile
  ms_new_entries :: "SegmentIndexEntry list"
  ms_node_counter :: u64
  ms_seen_atoms :: "AtomId list"

text \<open>The loop over the records of one segment; a full output ends it, and only it.\<close>

partial_function (option) merge_segment :: "CasIterator \<Rightarrow> MergeState \<Rightarrow> MergeState io option" where
  "merge_segment it m =
     Option.bind (iter_next (ms_files m) it) (\<lambda>(it, item).
       case item of
         None \<Rightarrow> Some (Ok m)
       | Some Panic \<Rightarrow> Some Panic
       | Some (Err _) \<Rightarrow> merge_segment it m
       | Some (Ok (header, body)) \<Rightarrow>
           (let atom_id = ch_atom_id header in
            if atom_id \<in> set (ms_seen_atoms m) then merge_segment it m
            else if cas_is_deleted header \<or> cas_is_tombstone header then merge_segment it m
            else
              (let m = m\<lparr>ms_seen_atoms := hs_insert atom_id (ms_seen_atoms m)\<rparr> in
               case append_record atom_id body (ch_flags header) (ms_output m) (ms_files m) of
                 Panic \<Rightarrow> Some Panic
               | Ok (segment, fs, offset, _) \<Rightarrow>
                   merge_segment it
                     (m\<lparr>ms_output := segment, ms_files := fs,
                        ms_new_entries := ms_new_entries m @
                          [segment_entry_new atom_id offset (of_nat (length body)) (ms_node_counter m)],
                        ms_node_counter := ms_node_counter m + 1\<rparr>)
               | Err e \<Rightarrow> (case e of CioSegmentFull _ _ _ \<Rightarrow> Some (Ok m) | _ \<Rightarrow> Some (Err e)))))"

primrec merge_segments :: "(u32 \<times> SegmentFile) list \<Rightarrow> MergeState \<Rightarrow> MergeState io option" where
  "merge_segments [] m = Some (Ok m)"
| "merge_segments (s # ss) m =
     Option.bind (merge_segment (iter_new (snd s)) m) (\<lambda>r.
       case r of Panic \<Rightarrow> Some Panic | Err e \<Rightarrow> Some (Err e) | Ok m \<Rightarrow> merge_segments ss m)"

text \<open>The files and the new index entries; the files after an error are not kept.\<close>

definition segment_compact :: "string list \<Rightarrow> string \<Rightarrow> u64 \<Rightarrow> cas_files \<Rightarrow>
    (cas_files \<times> SegmentIndexEntry list) io option" where
  "segment_compact input_segments output_path size_target fs =
     (if input_segments = [] then Some (Ok (fs, []))
      else
        (case open_paths input_segments fs of
           Panic \<Rightarrow> Some Panic
         | Err e \<Rightarrow> Some (Err e)
         | Ok source_segments \<Rightarrow>
             (case file_stem output_path of
                None \<Rightarrow> Some (Err (CioIo (KindOther ''Invalid output path'')))
              | Some output_file_name \<Rightarrow>
                  (let output_seg_id =
                         (case Option.bind (stem_id output_file_name) parse_u32 of Some i \<Rightarrow> i | None \<Rightarrow> 99999);
                       (output, fs) = seg_create output_seg_id (Some size_target) fs
                   in map_option
                        (\<lambda>r. bind_res r (\<lambda>m. Ok (ms_files m, rev (ms_new_entries m))))
                        (merge_segments (rev source_segments)
                          \<lparr>ms_files = fs, ms_output = output, ms_new_entries = [], ms_node_counter = 1,
                           ms_seen_atoms = []\<rparr>)))))"

partial_function (option) collect_garbage :: "CasIterator \<Rightarrow> AtomId list \<Rightarrow> cas_files \<Rightarrow> bytes \<Rightarrow> bytes io option" where
  "collect_garbage it live_ids fs result =
     Option.bind (iter_next fs it) (\<lambda>(it, item).
       case item of
         None \<Rightarrow> Some (Ok result)
       | Some Panic \<Rightarrow> Some Panic
       | Some (Err _) \<Rightarrow> collect_garbage it live_ids fs result
       | Some (Ok (header, body)) \<Rightarrow>
           collect_garbage it live_ids fs
             (if ch_atom_id header \<in> set live_ids \<and> \<not> cas_is_deleted header \<and> \<not> cas_is_tombstone header
              then result @ cas_header_memory header @ body @
                replicate (unat (padded_size (of_nat (length body))) - length body) 0 @
                u32_le (crc32 body) @ replicate (unat (padded_size 4) - 4) 0
              else result))"

definition garbage_collect :: "SegmentFile \<Rightarrow> AtomId list \<Rightarrow> cas_files \<Rightarrow> bytes io option" where
  "garbage_collect segment live_ids fs = collect_garbage (iter_new segment) live_ids fs []"

definition create_or_open_segment :: "u32 \<Rightarrow> cas_files \<Rightarrow> SegmentFile io \<times> cas_files" where
  "create_or_open_segment seg_id fs =
     (if map_of fs (seg_file seg_id) \<noteq> None then (seg_open seg_id fs, fs)
      else (let (s, fs) = seg_create seg_id None fs in (Ok s, fs)))"

section \<open>The index file is read back as written\<close>

lemma segment_entry_memory_facts [simp]:
  "length (segment_entry_memory e) = 32" "segment_entry_from_bytes (segment_entry_memory e) = Ok e"
  by (simp_all add: segment_entry_memory_def segment_entry_from_bytes_def SEGMENT_INDEX_ENTRY_SIZE_def)

lemma read_exact_prefix: "length a = n \<Longrightarrow> read_exact n (a @ bs) = Ok (a, bs)"
  by (simp add: read_exact_def)

lemma read_segment_entries_memory:
  "read_segment_entries (length es) (concat (map segment_entry_memory es) @ rest) = Ok (es, rest)"
  by (induction es) (simp_all add: read_exact_prefix SEGMENT_INDEX_ENTRY_SIZE_def)

theorem segment_index_roundtrip:
  assumes "length (si_entries x) < 2 ^ 32"
    and "\<forall>bloom. si_bloom_filter x = Some bloom \<longrightarrow> length (bloom_to_bytes bloom) < 2 ^ 32"
  shows "segment_index_read_from_file path (segment_index_write_to_file x path fs) =
    Ok \<lparr>si_entries = si_entries x, si_bloom_filter = None\<rparr>"
proof (cases "si_bloom_filter x")
  case None
  have z: "read_exact 4 (u32_le 0) = Ok (u32_le 0, [])" by (simp add: read_exact_def)
  from None assms(1) show ?thesis
    by (simp add: segment_index_read_from_file_def segment_index_write_to_file_def read_exact_prefix len_le_def
        unat_of_nat_u32 read_segment_entries_memory z)
next
  case (Some bloom)
  with assms(2) have b: "unat (of_nat (length (bloom_to_bytes bloom)) :: u32) = length (bloom_to_bytes bloom)"
    by (intro unat_of_nat_u32) simp
  have r: "read_exact (length bs) bs = Ok (bs, [])" for bs by (simp add: read_exact_def)
  from Some assms(1) b show ?thesis
    by (simp add: segment_index_read_from_file_def segment_index_write_to_file_def read_exact_prefix len_le_def
        unat_of_nat_u32 read_segment_entries_memory r)
qed

section \<open>Ranges\<close>

lemma merge_sorted_offsets:
  "concat (map rr_original_offsets (merge_sorted gap offsets start last_offset current)) = current @ offsets"
  by (induction offsets arbitrary: start last_offset current) (simp_all add: close_range_def)

lemma merge_offsets_offsets: "concat (map rr_original_offsets (merge_offsets c offsets)) = sort offsets"
  by (simp add: merge_offsets_def merge_sorted_offsets split: list.split)

text \<open>
  C31: With a reader over one segment, a batch of one record returns its body if that has at most 1024 bytes; every larger record makes the batch
  fail, because the range that is read ends 1024 bytes after the header.
\<close>

theorem read_batch_one:
  assumes p: "p \<in> set (placed 0 rs)" and h: "seg_file_holds fs seg_id rs" and s: "seg_readable s seg_id rs"
  shows "read_batch \<lparr>co_segments = [s], co_coalesce_gap = gap\<rparr> [of_nat (fst p)] fs =
    (let body = fst (snd (snd p)) in
     if length body \<le> 1024 then Ok [body]
     else Err (CioBufferTooSmall (64 + length body) (min 1088 (recs_size rs - fst p))))"
proof -
  let ?off = "fst p" and ?r = "snd p"
  let ?body = "fst (snd ?r)" and ?n = "length (fst (snd ?r))"
  from placed_split [OF p] obtain as bs where rs: "rs = as @ ?r # bs" and off: "?off = recs_size as" by auto
  from h rs have ok: "list_all rec_ok as" "rec_ok ?r" and m: "map_of fs (seg_file seg_id) = Some (seg_image seg_id rs)"
    and small: "recs_size rs < 2 ^ 62" by (simp_all add: seg_file_holds_def)
  have lr: "length (seg_image seg_id rs) = recs_size rs" using h by (simp add: seg_file_holds_def length_seg_image)
  have la: "length (seg_image seg_id as) = ?off" using ok(1) off by (simp add: length_seg_image)
  have n: "64 + ?n \<le> rec_size ?r" "rec_size ?r \<le> recs_size rs - ?off" "?off + rec_size ?r \<le> recs_size rs" "?n < 2 ^ 62"
    using pad16_bounds(1) [of ?n] ok(2) by (simp_all add: rs off rec_len_def rec_ok_def)
  have id: "sg_seg_id s = seg_id" and sz: "unat (sg_current_size s) = recs_size rs" using s by (simp_all add: seg_readable_def)
  have u: "unat (of_nat ?off :: u64) = ?off" using n(3) small by (intro unat_of_nat_u64) simp
  have ue: "unat (1088 + of_nat ?off :: u64) = ?off + 1088"
    using n(3) small unat_of_nat_u64 [of "?off + 1088"] by (simp add: add.commute)
  let ?len = "min 1088 (recs_size rs - ?off)"
  have e: "unat (min (of_nat ?off + 64 + 1024) (sg_current_size s) - of_nat ?off) = ?len"
    (is "unat (?e - _) = _")
  proof -
    have "unat ?e = min (?off + 1088) (recs_size rs)" by (simp add: min_def word_le_nat_alt ue sz)
    moreover then have "of_nat ?off \<le> ?e" using n(3) by (simp add: word_le_nat_alt u)
    moreover have "min (?off + 1088) (recs_size rs) - ?off = ?len" using n(3) by linarith
    ultimately show ?thesis using u by (simp add: unat_sub)
  qed
  let ?h = "cas_header_new (fst ?r) (of_nat ?n) seg_id (snd (snd ?r))"
  let ?data = "take ?len (drop ?off (seg_image seg_id rs))"
  have "drop ?off (seg_image seg_id rs) = rec_image seg_id ?r @ seg_image seg_id bs" by (simp add: rs la)
  moreover have "length (cas_header_memory ?h) = 64" using ok(2) by (simp add: rec_ok_def cas_header_new_def)
  moreover obtain rest where rest: "rec_image seg_id ?r = cas_header_memory ?h @ ?body @ rest"
    by (simp add: record_bytes_def Let_def)
  ultimately have d: "drop ?off (seg_image seg_id rs) = cas_header_memory ?h @ ?body @ rest @ seg_image seg_id bs"
    and lh: "length (cas_header_memory ?h) = 64" by (simp_all del: length_memory)
  have ld: "length ?data = ?len" using lr by simp
  have lt: "of_nat ?off < sg_current_size s" using n sz u by (simp add: word_less_nat_alt)
  have rr: "read_range s (of_nat ?off) (of_nat ?off + 64 + 1024) fs = Ok (Some ?data)"
    using lt n(3) small e by (simp add: read_range_def Let_def id m u read_at_def lr add.commute flip: not_less)
  have ex: "extract_record_at_offset ?data (of_nat ?off) (of_nat ?off) =
      (if ?n \<le> 1024 then Ok ?body else Err (CioBufferTooSmall (64 + ?n) ?len))"
  proof -
    have "take 64 ?data = cas_header_memory ?h" using n lh by (simp add: d min_def del: length_memory)
    moreover have "cas_header_from_bytes (cas_header_memory ?h) = Inr ?h"
    proof -
      have rd: "cas_header_read (cas_header_memory ?h) = ?h"
        using cas_header_read_memory [of ?h "[]"] ok(2) by (simp add: rec_ok_def cas_header_new_def)
      show ?thesis using lh cas_header_new_valid [of "fst ?r"] ok(2) by (simp add: cas_header_from_bytes_iff rd rec_ok_def)
    qed
    moreover have "ch_body_len ?h = of_nat ?n" by (simp add: cas_header_new_def)
    moreover have "unat (64 + of_nat ?n :: u64) = 64 + ?n" using n(4) unat_of_nat_u64 [of "64 + ?n"] by simp
    moreover have "?len < 64 + ?n \<longleftrightarrow> \<not> ?n \<le> 1024" using n(1,2) by auto
    moreover have "take ?n (drop 64 ?data) = ?body" if "?n \<le> 1024"
    proof -
      have "drop 64 ?data = take (?len - 64) (?body @ rest @ seg_image seg_id bs)"
        unfolding drop_take d using lh by (simp del: length_memory take_append)
      moreover have "?n \<le> ?len - 64" using that n(1,2) by linarith
      ultimately show ?thesis by simp
    qed
    moreover have "\<not> ?len < 64" using n(1,2) by auto
    ultimately show ?thesis
      unfolding extract_record_at_offset_def Let_def ld by (cases "?n \<le> 1024") (simp_all del: length_take min_less_iff_disj)
  qed
  show ?thesis
    using lt rr ex by (simp add: read_batch_def merge_offsets_def close_range_def Let_def)
qed

theorem read_batch_one_witness:
  "read_batch \<lparr>co_segments = [\<lparr>sg_seg_id = 0, sg_pos = 0, sg_current_size = 96, sg_size_limit = 0, sg_record_count = 0\<rparr>],
       co_coalesce_gap = 0\<rparr> [0] [(seg_file 0, seg_image 0 [(replicate 32 1, [7], 0)])] = Ok [[7]]"
  using read_batch_one [of "(0, (replicate 32 1, [7], 0))" "[(replicate 32 1, [7], 0)]"
      "[(seg_file 0, seg_image 0 [(replicate 32 1, [7], 0)])]" 0
      "\<lparr>sg_seg_id = 0, sg_pos = 0, sg_current_size = 96, sg_size_limit = 0, sg_record_count = 0\<rparr>" 0]
  by (simp add: seg_file_holds_def seg_readable_def rec_ok_def rec_len_def pad16_def del: seg_image_simps)

section \<open>Cleaning a segment\<close>

definition rec_live :: "cas_rec \<Rightarrow> bool" where
  "rec_live r \<longleftrightarrow> snd (snd r) AND 1 = 0 \<and> snd (snd r) AND 2 = 0"

lemma new_header_fields [simp]:
  "ch_atom_id (cas_header_new a n i f) = a" "ch_flags (cas_header_new a n i f) = f"
  by (simp_all add: cas_header_new_def)

lemma new_header_live: "\<not> cas_is_deleted (cas_header_new a n i f) \<and> \<not> cas_is_tombstone (cas_header_new a n i f) \<longleftrightarrow>
    f AND 1 = 0 \<and> f AND 2 = 0"
  by (simp add: cas_is_deleted_def cas_is_tombstone_def)

abbreviation iter_at :: "SegmentFile \<Rightarrow> nat \<Rightarrow> CasIterator" where
  "iter_at s n \<equiv> \<lparr>it_segment = s, it_current_offset = of_nat n, it_end_offset = sg_current_size s\<rparr>"

lemma iter_next_end:
  assumes "seg_readable s seg_id rs"
  shows "iter_next fs (iter_at s (recs_size rs)) = Some (iter_at s (recs_size rs), None)"
proof -
  have "sg_current_size s = of_nat (recs_size rs)"
    using assms by (simp add: seg_readable_def) (metis of_nat_unat ucast_id)
  then show ?thesis by (simp add: iter_next.simps)
qed

lemma collect_garbage_from:
  assumes "seg_file_holds fs seg_id (rs @ ss)" "seg_readable s seg_id (rs @ ss)"
  shows "collect_garbage (iter_at s (recs_size rs)) live fs result =
    Some (Ok (result @ seg_image seg_id (filter (\<lambda>r. fst r \<in> set live \<and> rec_live r) ss)))"
  using assms
proof (induction ss arbitrary: rs result)
  case Nil
  then show ?case using iter_next_end [of s seg_id rs fs] by (subst collect_garbage.simps) simp
next
  case (Cons r ss)
  have "seg_file_holds fs seg_id ((rs @ [r]) @ ss)" "seg_readable s seg_id ((rs @ [r]) @ ss)" using Cons.prems by simp_all
  note IH = Cons.IH [OF this]
  show ?case
    using new_header_live [of "fst r" "of_nat (length (fst (snd r)))" seg_id "snd (snd r)"]
    by (subst collect_garbage.simps)
      (simp add: iter_next_at [OF Cons.prems] IH rec_live_def record_bytes_def Let_def del: recs_size_simps)
qed

theorem garbage_collect_keeps_live:
  assumes "seg_file_holds fs seg_id rs" "seg_readable s seg_id rs"
  shows "garbage_collect s live fs = Some (Ok (seg_image seg_id (filter (\<lambda>r. fst r \<in> set live \<and> rec_live r) rs)))"
  using collect_garbage_from [of fs seg_id "[]" rs s live "[]"] assms by (simp add: garbage_collect_def iter_new_def)

section \<open>Merging segments\<close>

text \<open>What the merge writes from a segment: of each atom not seen yet the first live record.\<close>

fun first_live :: "AtomId list \<Rightarrow> cas_rec list \<Rightarrow> cas_rec list" where
  "first_live seen [] = []"
| "first_live seen (r # rs) =
     (if fst r \<in> set seen \<or> \<not> rec_live r then first_live seen rs
      else r # first_live (hs_insert (fst r) seen) rs)"

definition output_holds :: "MergeState \<Rightarrow> u32 \<Rightarrow> cas_rec list \<Rightarrow> bool" where
  "output_holds m out_id outs \<longleftrightarrow> sg_seg_id (ms_output m) = out_id \<and>
     seg_at_end (ms_output m) (seg_image out_id outs) \<and> seg_file_holds (ms_files m) out_id outs"

lemma merge_segment_from:
  assumes "seg_file_holds (ms_files m) seg_id (rs @ ss)" "seg_readable s seg_id (rs @ ss)" "seg_id \<noteq> out_id"
    and "output_holds m out_id outs" "recs_size outs + recs_size ss \<le> unat (sg_size_limit (ms_output m))"
    and "unat (sg_size_limit (ms_output m)) < 2 ^ 62"
  shows "\<exists>m'. merge_segment (iter_at s (recs_size rs)) m = Some (Ok m') \<and>
    output_holds m' out_id (outs @ first_live (ms_seen_atoms m) ss)"
  using assms
proof (induction ss arbitrary: rs m outs)
  case Nil
  then show ?case using iter_next_end [of s seg_id rs "ms_files m"] by (subst merge_segment.simps) simp
next
  case (Cons r ss)
  let ?h = "cas_header_new (fst r) (of_nat (length (fst (snd r)))) seg_id (snd (snd r))"
  note next_rec = iter_next_at [OF Cons.prems(1,2)]
  have ext: "seg_file_holds (ms_files m) seg_id ((rs @ [r]) @ ss)" "seg_readable s seg_id ((rs @ [r]) @ ss)"
    using Cons.prems(1,2) by simp_all
  have fits: "recs_size outs + recs_size ss \<le> unat (sg_size_limit (ms_output m))" using Cons.prems(5) by simp
  show ?case
  proof (cases "fst r \<in> set (ms_seen_atoms m) \<or> \<not> rec_live r")
    case True
    have "merge_segment (iter_at s (recs_size rs)) m = merge_segment (iter_at s (recs_size (rs @ [r]))) m"
      using True new_header_live [of "fst r" "of_nat (length (fst (snd r)))" seg_id "snd (snd r)"]
      by (subst merge_segment.simps) (auto simp: next_rec rec_live_def Let_def simp del: recs_size_simps)
    with Cons.IH [OF ext Cons.prems(3,4) fits Cons.prems(6)] True show ?thesis by auto
  next
    case False
    let ?m = "m\<lparr>ms_seen_atoms := hs_insert (fst r) (ms_seen_atoms m)\<rparr>"
    from Cons.prems(1) have r: "rec_ok r" by (simp add: seg_file_holds_def)
    then have rr: "length (fst r) = 32" "length (fst (snd r)) < 2 ^ 62" by (simp_all add: rec_ok_def)
    from Cons.prems(4) have e: "seg_at_end (ms_output m) (seg_image out_id outs)" and id: "sg_seg_id (ms_output m) = out_id"
      and h: "seg_file_holds (ms_files m) out_id outs" by (simp_all add: output_holds_def)
    from h have mo: "map_of (ms_files m) (seg_file (sg_seg_id (ms_output m))) = Some (seg_image out_id outs)"
      and lo: "length (seg_image out_id outs) = recs_size outs" and oko: "list_all rec_ok outs"
      by (simp_all add: seg_file_holds_def length_seg_image id)
    let ?s = "(ms_output m)\<lparr>sg_pos := recs_size outs + rec_size r, sg_current_size := of_nat (recs_size outs + rec_size r),
        sg_record_count := sg_record_count (ms_output m) + 1\<rparr>"
    let ?fs = "AList.update (seg_file out_id) (seg_image out_id outs @ rec_image out_id r) (ms_files m)"
    have a: "append_record (fst r) (fst (snd r)) (snd (snd r)) (ms_output m) (ms_files m) =
        Ok (?s, ?fs, of_nat (recs_size outs), of_nat (length (fst (snd r))))"
      using append_record_eq [OF e mo rr, of "snd (snd r)"] Cons.prems(5) by (simp add: lo id)
    let ?m' = "?m\<lparr>ms_output := ?s, ms_files := ?fs, ms_new_entries := ms_new_entries m @
        [segment_entry_new (fst r) (of_nat (recs_size outs)) (of_nat (length (fst (snd r)))) (ms_node_counter m)],
        ms_node_counter := ms_node_counter m + 1\<rparr>"
    have step: "merge_segment (iter_at s (recs_size rs)) m = merge_segment (iter_at s (recs_size (rs @ [r]))) ?m'"
      using False new_header_live [of "fst r" "of_nat (length (fst (snd r)))" seg_id "snd (snd r)"]
      by (subst merge_segment.simps) (simp add: next_rec rec_live_def Let_def a del: recs_size_simps)
    have sz: "recs_size (outs @ [r]) < 2 ^ 62" using Cons.prems(5,6) by simp
    have "output_holds ?m' out_id (outs @ [r])"
      using id oko r sz lo rec_size_length [OF r, of out_id]
      by (simp add: output_holds_def seg_at_end_def seg_file_holds_def)
    moreover have "recs_size (outs @ [r]) + recs_size ss \<le> unat (sg_size_limit (ms_output ?m'))"
      "unat (sg_size_limit (ms_output ?m')) < 2 ^ 62" using Cons.prems(5,6) by simp_all
    moreover have "seg_file_holds (ms_files ?m') seg_id ((rs @ [r]) @ ss)" using ext(1) Cons.prems(3) by simp
    ultimately obtain m2 where "merge_segment (iter_at s (recs_size (rs @ [r]))) ?m' = Some (Ok m2)"
      "output_holds m2 out_id ((outs @ [r]) @ first_live (ms_seen_atoms ?m') ss)"
      using Cons.IH [of ?m' "rs @ [r]" "outs @ [r]"] ext(2) Cons.prems(3) by blast
    with step False show ?thesis by simp
  qed
qed

lemma seg_file_stem: "file_stem (seg_file i) = Some (SEGMENT_PREFIX @ dec5 (unat i))"
  by (simp add: file_stem_def seg_file_def SEGMENT_PREFIX_def SEGMENT_EXTENSION_def)

lemma seg_stem_id: "stem_id (SEGMENT_PREFIX @ dec5 (unat i)) = Some (dec5 (unat i))"
  by (simp add: stem_id_def starts_with_def SEGMENT_PREFIX_def)

text \<open>
  C29: Merging one segment into a new one of another number, large enough for all its records, writes, for each atom,
  the oldest of its live records, not the latest, and a record that deletes an atom does not remove the older ones.
\<close>

theorem segment_compact_keeps_oldest:
  assumes h: "seg_file_holds fs i rs" and unused: "map_of fs (seg_file j) = None" and ne: "i \<noteq> j"
    and fits: "recs_size rs \<le> unat limit" "unat limit < 2 ^ 62"
  shows "\<exists>fs' entries. segment_compact [seg_file i] (seg_file j) limit fs = Some (Ok (fs', entries)) \<and>
    map_of fs' (seg_file j) = Some (seg_image j (first_live [] rs))"
proof -
  let ?s = "\<lparr>sg_seg_id = i, sg_pos = recs_size rs, sg_current_size = of_nat (recs_size rs),
     sg_size_limit = DEFAULT_SEGMENT_SIZE_LIMIT, sg_record_count = 0\<rparr>"
  have o: "seg_open i fs = Ok ?s" using h by (simp add: seg_open_def seg_file_holds_def length_seg_image)
  have rd: "seg_readable ?s i rs" using h by (simp add: seg_readable_def seg_file_holds_def unat_of_nat_u64)
  let ?out = "\<lparr>sg_seg_id = j, sg_pos = 0, sg_current_size = 0, sg_size_limit = limit, sg_record_count = 0\<rparr>"
  let ?m = "\<lparr>ms_files = AList.update (seg_file j) [] fs, ms_output = ?out, ms_new_entries = [], ms_node_counter = 1,
     ms_seen_atoms = []\<rparr>"
  have c: "seg_create j (Some limit) fs = (?out, AList.update (seg_file j) [] fs)" by (simp add: seg_create_def unused Let_def)
  have "output_holds ?m j []" by (simp add: output_holds_def seg_at_end_empty seg_file_holds_def)
  moreover have "seg_file_holds (ms_files ?m) i ([] @ rs)" using h ne by simp
  ultimately obtain m where "merge_segment (iter_at ?s (recs_size [])) ?m = Some (Ok m)" "output_holds m j (first_live [] rs)"
    using merge_segment_from [of ?m i "[]" rs ?s j "[]"] rd fits ne by auto
  then have "segment_compact [seg_file i] (seg_file j) limit fs = Some (Ok (ms_files m, rev (ms_new_entries m)))"
    "map_of (ms_files m) (seg_file j) = Some (seg_image j (first_live [] rs))"
    by (simp_all add: segment_compact_def seg_file_stem seg_stem_id parse_dec5 o c iter_new_def output_holds_def seg_file_holds_def)
  then show ?thesis by blast
qed

theorem segment_compact_keeps_oldest_witness:
  "\<exists>fs' entries. segment_compact [seg_file 0] (seg_file 1) 1000
       [(seg_file 0, seg_image 0 [(replicate 32 1, [1], 0), (replicate 32 1, [2], 0)])] = Some (Ok (fs', entries)) \<and>
     map_of fs' (seg_file 1) = Some (seg_image 1 [(replicate 32 1, [1], 0)])"
  using segment_compact_keeps_oldest [of "[(seg_file 0, seg_image 0 [(replicate 32 1, [1], 0), (replicate 32 1, [2], 0)])]" 0
      "[(replicate 32 1, [1], 0), (replicate 32 1, [2], 0)]" 1 1000]
  by (simp add: seg_file_holds_def rec_ok_def rec_len_def pad16_def rec_live_def hs_insert_def del: seg_image_simps)

end
