(* ===== verification/Id_Loc.thy ===== *)
theory Id_Loc
  imports Cas_Batch
begin

text \<open>
  The location index of \<open>src/index/mod.rs\<close>: entries, header, shard descriptors, the opened index
  and its builder, and the older view of the same file. A file is its list of bytes and a directory a
  map from paths to bytes. The entry, the header and the descriptor are \<open>repr(C)\<close> structures without
  padding that the code copies from and to memory, which is little-endian. A read through a pointer
  that leaves the mapped file is \<open>Panic\<close>.
\<close>

section \<open>Errors and constants\<close>

datatype IndexError =
    IxIo IoKind
  | IxInvalidMagic u32 u32
  | IxInvalidVersion u16 u16
  | IxCorruptData string
  | IxNotFound
  | IxBloomFilterMismatch
  | IxInvalidShardConfig string
  | IxFileTooSmall nat nat

type_synonym 'a ix = "(IndexError, 'a) res"

definition IDLOC_MAGIC :: u32 where "IDLOC_MAGIC = 0x49444C31"
definition IDLOC_VERSION :: u16 where "IDLOC_VERSION = 0x0001"
definition FP_BITS :: u8 where "FP_BITS = 64"
definition IDLOC_ENTRY_SIZE :: nat where "IDLOC_ENTRY_SIZE = 40"
definition IDLOC_HEADER_SIZE :: nat where "IDLOC_HEADER_SIZE = 64"
definition IDLOC_CRC_OFFSET :: nat where "IDLOC_CRC_OFFSET = 40"
definition SHARD_DESC_SIZE :: nat where "SHARD_DESC_SIZE = 16"
definition LOC_FLAG_DELETED :: u32 where "LOC_FLAG_DELETED = 0x0001"
definition LOC_FLAG_TOMBSTONE :: u32 where "LOC_FLAG_TOMBSTONE = 0x0002"
definition LOC_FLAG_VALIDATED :: u32 where "LOC_FLAG_VALIDATED = 0x0004"
definition LOC_FLAG_FEDERATED :: u32 where "LOC_FLAG_FEDERATED = 0x0008"

lemmas idloc_constants = IDLOC_MAGIC_def IDLOC_VERSION_def IDLOC_ENTRY_SIZE_def IDLOC_HEADER_SIZE_def
  IDLOC_CRC_OFFSET_def SHARD_DESC_SIZE_def

section \<open>Locations and entries\<close>

record Location =
  loc_seg_id :: u32
  loc_offset :: u64
  loc_len :: u32
  loc_node_num :: u64
  loc_domain_mask :: u64
  loc_deleted :: bool

definition location_new :: "u32 \<Rightarrow> u64 \<Rightarrow> u32 \<Rightarrow> u64 \<Rightarrow> u64 \<Rightarrow> Location" where
  "location_new seg_id offset len node_num domain_mask =
     \<lparr>loc_seg_id = seg_id, loc_offset = offset, loc_len = len, loc_node_num = node_num,
      loc_domain_mask = domain_mask, loc_deleted = False\<rparr>"

definition with_deleted :: "bool \<Rightarrow> Location \<Rightarrow> Location" where
  "with_deleted deleted l = l\<lparr>loc_deleted := deleted\<rparr>"

record IdLocEntry =
  le_fp64 :: u64
  le_seg_id :: u32
  le_len32 :: u32
  le_offset64 :: u64
  le_node_num :: u64
  le_generation :: u32
  le_flags :: u32

text \<open>The first eight bytes of an atom, most significant first.\<close>

definition fp64_be :: "AtomId \<Rightarrow> u64" where
  "fp64_be atom_id = le_u64 (rev (take 8 atom_id))"

definition idloc_entry_new :: "AtomId \<Rightarrow> u32 \<Rightarrow> u32 \<Rightarrow> u64 \<Rightarrow> u64 \<Rightarrow> IdLocEntry" where
  "idloc_entry_new atom_id seg_id len offset node_num =
     \<lparr>le_fp64 = fp64_be atom_id, le_seg_id = seg_id, le_len32 = len, le_offset64 = offset,
      le_node_num = node_num, le_generation = 0, le_flags = 0\<rparr>"

definition entry_is_deleted :: "IdLocEntry \<Rightarrow> bool" where
  "entry_is_deleted e \<longleftrightarrow> le_flags e AND LOC_FLAG_DELETED \<noteq> 0"

definition entry_is_tombstone :: "IdLocEntry \<Rightarrow> bool" where
  "entry_is_tombstone e \<longleftrightarrow> le_flags e AND LOC_FLAG_TOMBSTONE \<noteq> 0"

definition entry_is_validated :: "IdLocEntry \<Rightarrow> bool" where
  "entry_is_validated e \<longleftrightarrow> le_flags e AND LOC_FLAG_VALIDATED \<noteq> 0"

definition mark_deleted :: "IdLocEntry \<Rightarrow> IdLocEntry" where
  "mark_deleted e = e\<lparr>le_flags := le_flags e OR LOC_FLAG_DELETED\<rparr>"

definition mark_validated :: "IdLocEntry \<Rightarrow> IdLocEntry" where
  "mark_validated e = e\<lparr>le_flags := le_flags e OR LOC_FLAG_VALIDATED\<rparr>"

definition to_location :: "IdLocEntry \<Rightarrow> Location" where
  "to_location e =
     \<lparr>loc_seg_id = le_seg_id e, loc_offset = le_offset64 e, loc_len = le_len32 e, loc_node_num = le_node_num e,
      loc_domain_mask = 0xFFFF, loc_deleted = entry_is_deleted e\<rparr>"

definition idloc_entry_memory :: "IdLocEntry \<Rightarrow> bytes" where
  "idloc_entry_memory e = u64_le (le_fp64 e) @ u32_le (le_seg_id e) @ u32_le (le_len32 e) @
     u64_le (le_offset64 e) @ u64_le (le_node_num e) @ u32_le (le_generation e) @ u32_le (le_flags e)"

definition idloc_entry_read :: "bytes \<Rightarrow> IdLocEntry" where
  "idloc_entry_read bs =
     \<lparr>le_fp64 = u64_at 0 bs, le_seg_id = u32_at 8 bs, le_len32 = u32_at 12 bs, le_offset64 = u64_at 16 bs,
      le_node_num = u64_at 24 bs, le_generation = u32_at 32 bs, le_flags = u32_at 36 bs\<rparr>"

definition idloc_entry_from_bytes :: "bytes \<Rightarrow> IdLocEntry option" where
  "idloc_entry_from_bytes bs = (if length bs < IDLOC_ENTRY_SIZE then None else Some (idloc_entry_read bs))"

text \<open>The writers give their result and the buffer.\<close>

definition idloc_entry_write_to_bytes :: "IdLocEntry \<Rightarrow> bytes \<Rightarrow> bool \<times> bytes" where
  "idloc_entry_write_to_bytes e bs =
     (if length bs < IDLOC_ENTRY_SIZE then (False, bs) else (True, idloc_entry_memory e @ drop IDLOC_ENTRY_SIZE bs))"

section \<open>Header\<close>

record IdLocHeader =
  lh_magic :: u32
  lh_ver :: u16
  lh_flags :: u16
  lh_shard_bits :: u8
  lh_fp_bits :: u8
  lh_reserved :: u16
  lh_shard_count :: u32
  lh_off_shard_table :: u64
  lh_off_xorf_table :: u64
  lh_off_entries :: u64
  lh_file_crc32 :: u32
  lh_reserved2 :: u32
  lh_reserved3 :: u64
  lh_reserved4 :: u64

text \<open>A shift of a 32-bit number takes its distance modulo 32.\<close>

definition idloc_header_new :: "u8 \<Rightarrow> IdLocHeader" where
  "idloc_header_new shard_bits =
     \<lparr>lh_magic = IDLOC_MAGIC, lh_ver = IDLOC_VERSION, lh_flags = 0, lh_shard_bits = shard_bits,
      lh_fp_bits = FP_BITS, lh_reserved = 0, lh_shard_count = push_bit (unat shard_bits mod 32) 1,
      lh_off_shard_table = of_nat IDLOC_HEADER_SIZE, lh_off_xorf_table = 0, lh_off_entries = 0,
      lh_file_crc32 = 0, lh_reserved2 = 0, lh_reserved3 = 0, lh_reserved4 = 0\<rparr>"

definition idloc_header_memory :: "IdLocHeader \<Rightarrow> bytes" where
  "idloc_header_memory h = u32_le (lh_magic h) @ u16_le (lh_ver h) @ u16_le (lh_flags h) @
     [lh_shard_bits h, lh_fp_bits h] @ u16_le (lh_reserved h) @ u32_le (lh_shard_count h) @
     u64_le (lh_off_shard_table h) @ u64_le (lh_off_xorf_table h) @ u64_le (lh_off_entries h) @
     u32_le (lh_file_crc32 h) @ u32_le (lh_reserved2 h) @ u64_le (lh_reserved3 h) @ u64_le (lh_reserved4 h)"

definition idloc_header_read :: "bytes \<Rightarrow> IdLocHeader" where
  "idloc_header_read bs =
     \<lparr>lh_magic = u32_at 0 bs, lh_ver = u16_at 4 bs, lh_flags = u16_at 6 bs, lh_shard_bits = bs ! 8,
      lh_fp_bits = bs ! 9, lh_reserved = u16_at 10 bs, lh_shard_count = u32_at 12 bs,
      lh_off_shard_table = u64_at 16 bs, lh_off_xorf_table = u64_at 24 bs, lh_off_entries = u64_at 32 bs,
      lh_file_crc32 = u32_at 40 bs, lh_reserved2 = u32_at 44 bs, lh_reserved3 = u64_at 48 bs,
      lh_reserved4 = u64_at 56 bs\<rparr>"

definition idloc_calculate_crc :: "IdLocHeader \<Rightarrow> u32" where
  "idloc_calculate_crc h = crc32 (take IDLOC_CRC_OFFSET (idloc_header_memory h))"

definition idloc_validate_crc :: "IdLocHeader \<Rightarrow> bool" where
  "idloc_validate_crc h \<longleftrightarrow> lh_file_crc32 h = idloc_calculate_crc h"

definition idloc_validate_magic :: "IdLocHeader \<Rightarrow> bool" where
  "idloc_validate_magic h \<longleftrightarrow> lh_magic h = IDLOC_MAGIC \<and> lh_ver h = IDLOC_VERSION"

definition idloc_is_valid :: "IdLocHeader \<Rightarrow> bool" where
  "idloc_is_valid h \<longleftrightarrow> idloc_validate_magic h \<and> idloc_validate_crc h"

definition idloc_header_from_bytes :: "bytes \<Rightarrow> IdLocHeader ix" where
  "idloc_header_from_bytes bs =
     (if length bs < IDLOC_HEADER_SIZE then Err (IxFileTooSmall IDLOC_HEADER_SIZE (length bs))
      else let header = idloc_header_read bs in
        if lh_magic header \<noteq> IDLOC_MAGIC then Err (IxInvalidMagic IDLOC_MAGIC (lh_magic header))
        else if lh_ver header \<noteq> IDLOC_VERSION then Err (IxInvalidVersion IDLOC_VERSION (lh_ver header))
        else Ok header)"

definition idloc_header_write_to_bytes :: "IdLocHeader \<Rightarrow> bytes \<Rightarrow> bool \<times> bytes" where
  "idloc_header_write_to_bytes h bs =
     (if length bs < IDLOC_HEADER_SIZE then (False, bs)
      else (True, idloc_header_memory h @ drop IDLOC_HEADER_SIZE bs))"

text \<open>What is written to the file: the header with its checksum.\<close>

definition idloc_header_write_to_file :: "IdLocHeader \<Rightarrow> bytes" where
  "idloc_header_write_to_file h =
     snd (idloc_header_write_to_bytes (h\<lparr>lh_file_crc32 := idloc_calculate_crc h\<rparr>) (replicate IDLOC_HEADER_SIZE 0))"

section \<open>Shard descriptors\<close>

record ShardDesc =
  sd_entry_off :: u64
  sd_entry_count :: u32
  sd_reserved :: u32

definition shard_desc_new :: "u64 \<Rightarrow> u32 \<Rightarrow> ShardDesc" where
  "shard_desc_new entry_off entry_count = \<lparr>sd_entry_off = entry_off, sd_entry_count = entry_count, sd_reserved = 0\<rparr>"

definition shard_desc_memory :: "ShardDesc \<Rightarrow> bytes" where
  "shard_desc_memory d = u64_le (sd_entry_off d) @ u32_le (sd_entry_count d) @ u32_le (sd_reserved d)"

definition shard_desc_from_bytes :: "bytes \<Rightarrow> ShardDesc option" where
  "shard_desc_from_bytes bs =
     (if length bs < SHARD_DESC_SIZE then None
      else Some \<lparr>sd_entry_off = u64_at 0 bs, sd_entry_count = u32_at 8 bs, sd_reserved = u32_at 12 bs\<rparr>)"

definition shard_desc_write_to_bytes :: "ShardDesc \<Rightarrow> bytes \<Rightarrow> bool \<times> bytes" where
  "shard_desc_write_to_bytes d bs =
     (if length bs < SHARD_DESC_SIZE then (False, bs) else (True, shard_desc_memory d @ drop SHARD_DESC_SIZE bs))"

section \<open>The opened index\<close>

record IdLocIndex =
  ix_mmap :: bytes
  ix_header :: IdLocHeader
  ix_shards :: "ShardDesc list"
  ix_filters :: "BloomFilter option list"
  ix_entries_offset :: u64
  ix_path :: string

text \<open>The descriptors from the \<open>i\<close>-th on; \<open>mmap[offset..]\<close> is out of range only for an offset so
  large that adding to it wraps.\<close>

primrec read_shard_descs :: "u64 \<Rightarrow> nat \<Rightarrow> nat \<Rightarrow> bytes \<Rightarrow> ShardDesc list ix" where
  "read_shard_descs start i 0 mmap = Ok []"
| "read_shard_descs start i (Suc n) mmap =
     (let offset = start + of_nat i * of_nat SHARD_DESC_SIZE in
      if unat (offset + of_nat SHARD_DESC_SIZE) > length mmap
      then Err (IxCorruptData (''Shard descriptor '' @ dec i @ '' extends past file end''))
      else if unat offset > length mmap then Panic
      else
        bind_res (ok_or (shard_desc_from_bytes (drop (unat offset) mmap))
                    (IxCorruptData (''Failed to read shard descriptor '' @ dec i))) (\<lambda>shard.
        bind_res (read_shard_descs start (i + 1) n mmap) (\<lambda>shards. Ok (shard # shards))))"

primrec read_shard_filters :: "u64 \<Rightarrow> nat \<Rightarrow> nat \<Rightarrow> bytes \<Rightarrow> BloomFilter option list ix" where
  "read_shard_filters cursor i 0 mmap = Ok []"
| "read_shard_filters cursor i (Suc n) mmap =
     (if unat (cursor + 4) > length mmap
      then Err (IxCorruptData (''Filter header '' @ dec i @ '' extends past file end''))
      else if unat cursor + 4 > length mmap then Panic
      else
        (let num_bits = unat (u32_at (unat cursor) mmap);
             cursor = cursor + 4
         in if num_bits = 0
            then bind_res (read_shard_filters cursor (i + 1) n mmap) (\<lambda>filters. Ok (None # filters))
            else
              (let data_size = (num_bits + 63) div 64 * 8 in
               if unat (cursor + of_nat data_size) > length mmap
               then Err (IxCorruptData (''Filter data '' @ dec i @ '' extends past file end''))
               else
                 (let flt = bloom_from_bytes (take data_size (drop (unat cursor) mmap)) num_bits
                  in bind_res (read_shard_filters (cursor + of_nat data_size) (i + 1) n mmap) (\<lambda>filters.
                       Ok (Some flt # filters))))))"

definition idloc_open :: "string \<Rightarrow> cas_files \<Rightarrow> IdLocIndex ix" where
  "idloc_open path fs =
     (case map_of fs path of
        None \<Rightarrow> Err (IxIo KindNotFound)
      | Some mmap \<Rightarrow>
          if length mmap < IDLOC_HEADER_SIZE then Err (IxFileTooSmall IDLOC_HEADER_SIZE (length mmap))
          else
            bind_res (idloc_header_from_bytes mmap) (\<lambda>header.
            if \<not> idloc_validate_crc header then Err (IxCorruptData ''Header CRC mismatch'')
            else
              (let shard_count = unat (lh_shard_count header) in
               bind_res (read_shard_descs (lh_off_shard_table header) 0 shard_count mmap) (\<lambda>shards.
               bind_res (read_shard_filters (lh_off_xorf_table header) 0 shard_count mmap) (\<lambda>filters.
                 Ok \<lparr>ix_mmap = mmap, ix_header = header, ix_shards = shards, ix_filters = filters,
                      ix_entries_offset = lh_off_entries header, ix_path = path\<rparr>)))))"

text \<open>The result and the files. The file has its full length before its parts are written.\<close>

definition idloc_create :: "string \<Rightarrow> u8 \<Rightarrow> cas_files \<Rightarrow> IdLocIndex ix \<times> cas_files" where
  "idloc_create path shard_bits fs =
     (if shard_bits > 20 then (Err (IxInvalidShardConfig ''shard_bits must be <= 20''), fs)
      else
        (let header = idloc_header_new shard_bits;
             shard_count = unat (lh_shard_count header);
             filter_table_size = shard_count * 4;
             shard_table_size = shard_count * SHARD_DESC_SIZE;
             xorf_table_off = IDLOC_HEADER_SIZE + shard_table_size;
             entries_off = xorf_table_off + filter_table_size;
             header = header\<lparr>lh_off_xorf_table := of_nat xorf_table_off, lh_off_entries := of_nat entries_off\<rparr>;
             header = header\<lparr>lh_file_crc32 := idloc_calculate_crc header\<rparr>;
             written = idloc_header_write_to_file header @
               concat (replicate shard_count
                 (snd (shard_desc_write_to_bytes (shard_desc_new 0 0) (replicate SHARD_DESC_SIZE 0)))) @
               concat (replicate shard_count (u32_le 0));
             fs = AList.update path (write_at 0 written (replicate entries_off 0)) fs
         in (idloc_open path fs, fs)))"

text \<open>Shifts of 64-bit numbers take their distance modulo 64.\<close>

definition get_shard :: "u64 \<Rightarrow> u8 \<Rightarrow> nat" where
  "get_shard fp64 shard_bits =
     unat (drop_bit (unat (64 - shard_bits) mod 64) fp64 AND (push_bit (unat shard_bits mod 64) 1 - 1))"

definition shard_for_atom :: "AtomId \<Rightarrow> IdLocIndex \<Rightarrow> nat" where
  "shard_for_atom atom_id ix = get_shard (fp64_be atom_id) (lh_shard_bits (ix_header ix))"

text \<open>The fingerprint and the entry at an offset that has been checked against the length.\<close>

definition mapped_entry :: "bytes \<Rightarrow> u64 \<Rightarrow> IdLocEntry ix" where
  "mapped_entry mmap offset =
     (if unat offset + IDLOC_ENTRY_SIZE > length mmap then Panic
      else Ok (idloc_entry_read (drop (unat offset) mmap)))"

function search_shard :: "bytes \<Rightarrow> u64 \<Rightarrow> u64 \<Rightarrow> nat \<Rightarrow> nat \<Rightarrow> nat option ix" where
  "search_shard mmap entries_start target_fp64 left right =
     (if left < right
      then
        (let mid = left + (right - left) div 2;
             entry_offset = entries_start + of_nat mid * of_nat IDLOC_ENTRY_SIZE
         in if unat (entry_offset + of_nat IDLOC_ENTRY_SIZE) > length mmap then Ok None
            else
              (case mapped_entry mmap entry_offset of
                 Panic \<Rightarrow> Panic
               | Err e \<Rightarrow> Err e
               | Ok entry \<Rightarrow>
                   if le_fp64 entry = target_fp64 then Ok (Some mid)
                   else if le_fp64 entry < target_fp64 then search_shard mmap entries_start target_fp64 (mid + 1) right
                   else search_shard mmap entries_start target_fp64 left mid))
      else Ok None)"
  by pat_completeness auto
termination by (relation "measure (\<lambda>(_, _, _, left, right). right - left)") auto

declare search_shard.simps [simp del]

definition shard_start :: "u64 \<Rightarrow> ShardDesc \<Rightarrow> u64" where
  "shard_start entries_offset shard = entries_offset + sd_entry_off shard * of_nat IDLOC_ENTRY_SIZE"

definition binary_search_shard :: "IdLocIndex \<Rightarrow> nat \<Rightarrow> u64 \<Rightarrow> nat option ix" where
  "binary_search_shard ix shard_idx target_fp64 =
     (if shard_idx \<ge> length (ix_shards ix) then Panic
      else
        (let shard = ix_shards ix ! shard_idx in
         if sd_entry_count shard = 0 then Ok None
         else search_shard (ix_mmap ix) (shard_start (ix_entries_offset ix) shard) target_fp64 0
                (unat (sd_entry_count shard))))"

definition locate :: "AtomId \<Rightarrow> IdLocIndex \<Rightarrow> Location option ix" where
  "locate atom_id ix =
     (let fp64 = fp64_be atom_id;
          shard_idx = get_shard fp64 (lh_shard_bits (ix_header ix))
      in if shard_idx \<ge> length (ix_shards ix) then Ok None
         else
           bind_res (case ix_filters ix ! shard_idx of
                       None \<Rightarrow> Ok True
                     | Some flt \<Rightarrow> bloom_might_contain flt atom_id) (\<lambda>maybe.
           if \<not> maybe then Ok None
           else
             bind_res (binary_search_shard ix shard_idx fp64) (\<lambda>found.
             case found of
               None \<Rightarrow> Ok None
             | Some entry_idx \<Rightarrow>
                 (let entry_offset = shard_start (ix_entries_offset ix) (ix_shards ix ! shard_idx) +
                        of_nat entry_idx * of_nat IDLOC_ENTRY_SIZE
                  in if unat (entry_offset + of_nat IDLOC_ENTRY_SIZE) > length (ix_mmap ix) then Ok None
                     else bind_res (mapped_entry (ix_mmap ix) entry_offset) (\<lambda>entry.
                            Ok (if entry_is_deleted entry then None else Some (to_location entry)))))))"

definition ix_get_node_num :: "AtomId \<Rightarrow> IdLocIndex \<Rightarrow> u64 option ix" where
  "ix_get_node_num atom_id ix = bind_res (locate atom_id ix) (\<lambda>l. Ok (map_option loc_node_num l))"

definition ix_len :: "IdLocIndex \<Rightarrow> nat" where
  "ix_len ix = sum_list (map (\<lambda>s. unat (sd_entry_count s)) (ix_shards ix))"

definition ix_is_empty :: "IdLocIndex \<Rightarrow> bool" where
  "ix_is_empty ix \<longleftrightarrow> ix_len ix = 0"

definition ix_shard_count :: "IdLocIndex \<Rightarrow> nat" where
  "ix_shard_count ix = length (ix_shards ix)"

section \<open>The builder\<close>

record IdLocBuilder =
  ib_header :: IdLocHeader
  ib_entries :: "(AtomId \<times> IdLocEntry) list"

definition idloc_builder_new :: "u8 \<Rightarrow> IdLocBuilder" where
  "idloc_builder_new shard_bits = \<lparr>ib_header = idloc_header_new shard_bits, ib_entries = []\<rparr>"

definition idloc_builder_add :: "AtomId \<Rightarrow> u32 \<Rightarrow> u32 \<Rightarrow> u64 \<Rightarrow> u64 \<Rightarrow> IdLocBuilder \<Rightarrow> IdLocBuilder" where
  "idloc_builder_add atom_id seg_id len offset node_num b =
     b\<lparr>ib_entries := ib_entries b @ [(atom_id, idloc_entry_new atom_id seg_id len offset node_num)]\<rparr>"

definition idloc_builder_len :: "IdLocBuilder \<Rightarrow> nat" where
  "idloc_builder_len b = length (ib_entries b)"

definition idloc_builder_is_empty :: "IdLocBuilder \<Rightarrow> bool" where
  "idloc_builder_is_empty b \<longleftrightarrow> ib_entries b = []"

text \<open>The loop that pushes every entry to its shard.\<close>

primrec distribute :: "u8 \<Rightarrow> (AtomId \<times> IdLocEntry) list \<Rightarrow> (AtomId \<times> IdLocEntry) list list \<Rightarrow>
    (AtomId \<times> IdLocEntry) list list ix" where
  "distribute shard_bits [] shards = Ok shards"
| "distribute shard_bits (p # ps) shards =
     (let shard_idx = get_shard (le_fp64 (snd p)) shard_bits in
      if shard_idx \<ge> length shards then Panic
      else distribute shard_bits ps (shards[shard_idx := shards ! shard_idx @ [p]]))"

primrec insert_atoms :: "(AtomId \<times> IdLocEntry) list \<Rightarrow> BloomFilter \<Rightarrow> BloomFilter ix" where
  "insert_atoms [] flt = Ok flt"
| "insert_atoms (p # ps) flt = bind_res (bloom_insert (fst p) flt) (insert_atoms ps)"

primrec shard_filters :: "(AtomId \<times> IdLocEntry) list list \<Rightarrow> BloomFilter option list ix" where
  "shard_filters [] = Ok []"
| "shard_filters (shard_vec # shards) =
     (if shard_vec = [] then bind_res (shard_filters shards) (\<lambda>filters. Ok (None # filters))
      else bind_res (insert_atoms shard_vec (bloom_new (length shard_vec))) (\<lambda>flt.
           bind_res (shard_filters shards) (\<lambda>filters. Ok (Some flt # filters))))"

text \<open>The descriptors of the shards, given the number of entries before them.\<close>

primrec shard_descs :: "nat \<Rightarrow> (AtomId \<times> IdLocEntry) list list \<Rightarrow> ShardDesc list" where
  "shard_descs entry_off [] = []"
| "shard_descs entry_off (shard_vec # shards) =
     shard_desc_new (of_nat entry_off) (of_nat (length shard_vec)) #
     shard_descs (entry_off + length shard_vec) shards"

definition filter_size :: "BloomFilter option \<Rightarrow> nat" where
  "filter_size flt = 4 + (case flt of None \<Rightarrow> 0 | Some f \<Rightarrow> bloom_serialized_size f)"

definition filter_bytes :: "BloomFilter option \<Rightarrow> bytes" where
  "filter_bytes flt =
     (case flt of None \<Rightarrow> u32_le 0 | Some f \<Rightarrow> len_le (bf_num_bits f) @ bloom_to_bytes f)"

text \<open>What both ways of building compute: header, descriptors, filters, entries and offsets.\<close>

record IdLocLayout =
  ly_header :: IdLocHeader
  ly_shards :: "ShardDesc list"
  ly_filters :: "BloomFilter option list"
  ly_entries :: "IdLocEntry list"
  ly_xorf_table_off :: nat
  ly_entries_off :: nat
  ly_file_size :: nat

definition idloc_layout :: "IdLocBuilder \<Rightarrow> IdLocLayout ix" where
  "idloc_layout b =
     (let shard_count = unat (lh_shard_count (ib_header b));
          entries = sort_key (\<lambda>p. le_fp64 (snd p)) (ib_entries b)
      in bind_res (distribute (lh_shard_bits (ib_header b)) entries (replicate shard_count [])) (\<lambda>shard_entries.
         bind_res (shard_filters shard_entries) (\<lambda>filters.
           let all_entries = map snd (concat shard_entries);
               filter_table_size = sum_list (map filter_size filters);
               xorf_table_off = IDLOC_HEADER_SIZE + shard_count * SHARD_DESC_SIZE;
               entries_off = xorf_table_off + filter_table_size
           in Ok \<lparr>ly_header = (ib_header b)\<lparr>lh_off_xorf_table := of_nat xorf_table_off,
                                            lh_off_entries := of_nat entries_off\<rparr>,
                  ly_shards = shard_descs 0 shard_entries, ly_filters = filters, ly_entries = all_entries,
                  ly_xorf_table_off = xorf_table_off, ly_entries_off = entries_off,
                  ly_file_size = entries_off + length all_entries * IDLOC_ENTRY_SIZE\<rparr>)))"

definition build_to_file :: "IdLocBuilder \<Rightarrow> string \<Rightarrow> cas_files \<Rightarrow> (IdLocIndex ix \<times> cas_files)" where
  "build_to_file b path fs =
     (case idloc_layout b of
        Panic \<Rightarrow> (Panic, fs)
      | Err e \<Rightarrow> (Err e, fs)
      | Ok ly \<Rightarrow>
          (let written = idloc_header_write_to_file (ly_header ly) @
                 concat (map (\<lambda>s. snd (shard_desc_write_to_bytes s (replicate SHARD_DESC_SIZE 0))) (ly_shards ly)) @
                 concat (map filter_bytes (ly_filters ly));
               entry_bytes =
                 concat (map (\<lambda>e. snd (idloc_entry_write_to_bytes e (replicate IDLOC_ENTRY_SIZE 0))) (ly_entries ly));
               fs = AList.update path
                 (write_at (ly_entries_off ly) entry_bytes (write_at 0 written (replicate (ly_file_size ly) 0))) fs
           in (idloc_open path fs, fs)))"

text \<open>The loops that fill the buffer of \<open>build_to_vec\<close>; a range outside the buffer panics.\<close>

definition put_slice :: "nat \<Rightarrow> bytes \<Rightarrow> bytes \<Rightarrow> bytes ix" where
  "put_slice offset bs buf = (if offset + length bs > length buf then Panic else Ok (write_at offset bs buf))"

primrec put_shards :: "nat \<Rightarrow> ShardDesc list \<Rightarrow> bytes \<Rightarrow> bytes ix" where
  "put_shards i [] buf = Ok buf"
| "put_shards i (s # ss) buf =
     bind_res (put_slice (IDLOC_HEADER_SIZE + i * SHARD_DESC_SIZE) (shard_desc_memory s) buf) (put_shards (i + 1) ss)"

primrec put_filters :: "nat \<Rightarrow> BloomFilter option list \<Rightarrow> bytes \<Rightarrow> bytes ix" where
  "put_filters filter_offset [] buf = Ok buf"
| "put_filters filter_offset (flt # filters) buf =
     (case flt of
        None \<Rightarrow> bind_res (put_slice filter_offset (u32_le 0) buf) (put_filters (filter_offset + 4) filters)
      | Some f \<Rightarrow>
          bind_res (put_slice filter_offset (len_le (bf_num_bits f)) buf) (\<lambda>buf.
          bind_res (put_slice (filter_offset + 4) (bloom_to_bytes f) buf)
            (put_filters (filter_offset + 4 + length (bloom_to_bytes f)) filters)))"

primrec put_entries :: "nat \<Rightarrow> nat \<Rightarrow> IdLocEntry list \<Rightarrow> bytes \<Rightarrow> bytes ix" where
  "put_entries entries_off i [] buf = Ok buf"
| "put_entries entries_off i (e # es) buf =
     bind_res (put_slice (entries_off + i * IDLOC_ENTRY_SIZE) (idloc_entry_memory e) buf)
       (put_entries entries_off (i + 1) es)"

definition build_to_vec :: "IdLocBuilder \<Rightarrow> bytes ix" where
  "build_to_vec b =
     bind_res (idloc_layout b) (\<lambda>ly.
       let buf = replicate (ly_file_size ly) 0;
           header = (ly_header ly)\<lparr>lh_file_crc32 := idloc_calculate_crc (ly_header ly)\<rparr>
       in bind_res (put_slice 0 (idloc_header_memory header) buf) (\<lambda>buf.
          bind_res (put_shards 0 (ly_shards ly) buf) (\<lambda>buf.
          bind_res (put_filters (ly_xorf_table_off ly) (ly_filters ly) buf)
            (put_entries (ly_entries_off ly) 0 (ly_entries ly)))))"

definition idloc_build :: "IdLocBuilder \<Rightarrow> bytes ix" where
  "idloc_build b = build_to_vec b"

section \<open>The older view\<close>

text \<open>The loop of the older search keeps the last index instead of the end, in machine arithmetic:
  below the first entry \<open>mid - 1\<close> wraps. It is a partial function.\<close>

record IdLocView =
  vw_header :: IdLocHeader
  vw_data :: bytes
  vw_shard_table :: "ShardDesc list"

definition view_new :: "bytes \<Rightarrow> IdLocView option ix" where
  "view_new data =
     (if length data < IDLOC_HEADER_SIZE then Ok None
      else
        (let header = idloc_header_read data in
         if \<not> idloc_validate_magic header then Ok None
         else
           (let start = lh_off_shard_table header;
                table_end = start + of_nat (unat (lh_shard_count header) * SHARD_DESC_SIZE)
            in if unat table_end > length data then Ok None
               else if unat start > unat table_end then Panic
               else Ok (Some \<lparr>vw_header = header, vw_data = data,
                 vw_shard_table = map (\<lambda>i. \<lparr>sd_entry_off = u64_at (unat start + i * 16) data,
                     sd_entry_count = u32_at (unat start + i * 16 + 8) data,
                     sd_reserved = u32_at (unat start + i * 16 + 12) data\<rparr>) [0..<unat (lh_shard_count header)]\<rparr>))))"

definition view_shard_index :: "u64 \<Rightarrow> IdLocView \<Rightarrow> nat" where
  "view_shard_index fp64 v =
     unat (drop_bit (unat (64 - lh_shard_bits (vw_header v)) mod 64) fp64 AND
           (ucast (lh_shard_count (vw_header v)) - 1))"

partial_function (option) view_search :: "bytes \<Rightarrow> u64 \<Rightarrow> u64 \<Rightarrow> u64 \<Rightarrow> u64 \<Rightarrow> u64 option ix option" where
  "view_search data entries_start target_fp64 left right =
     (if left \<le> right
      then
        (let mid = left + (right - left) div 2;
             entry_offset = entries_start + mid * of_nat IDLOC_ENTRY_SIZE
         in if unat (entry_offset + of_nat IDLOC_ENTRY_SIZE) > length data then Some (Ok None)
            else
              (case mapped_entry data entry_offset of
                 Panic \<Rightarrow> Some Panic
               | Err e \<Rightarrow> Some (Err e)
               | Ok entry \<Rightarrow>
                   if le_fp64 entry = target_fp64 then Some (Ok (Some mid))
                   else if le_fp64 entry < target_fp64 then view_search data entries_start target_fp64 (mid + 1) right
                   else view_search data entries_start target_fp64 left (mid - 1)))
      else Some (Ok None))"

definition view_binary_search_shard :: "IdLocView \<Rightarrow> ShardDesc \<Rightarrow> u64 \<Rightarrow> u64 option ix option" where
  "view_binary_search_shard v shard target_fp64 =
     (if sd_entry_count shard = 0 then Some (Ok None)
      else view_search (vw_data v) (shard_start (lh_off_entries (vw_header v)) shard) target_fp64 0
             (ucast (sd_entry_count shard) - 1))"

primrec view_locate_in :: "IdLocView \<Rightarrow> u64 \<Rightarrow> ShardDesc list \<Rightarrow> Location option ix option" where
  "view_locate_in v fp64 [] = Some (Ok None)"
| "view_locate_in v fp64 (shard # shards) =
     (if sd_entry_count shard = 0 then view_locate_in v fp64 shards
      else
        Option.bind (view_binary_search_shard v shard fp64) (\<lambda>found.
        case found of
          Panic \<Rightarrow> Some Panic
        | Err e \<Rightarrow> Some (Err e)
        | Ok None \<Rightarrow> view_locate_in v fp64 shards
        | Ok (Some entry_idx) \<Rightarrow>
            (let entry_offset = shard_start (lh_off_entries (vw_header v)) shard + entry_idx * of_nat IDLOC_ENTRY_SIZE
             in if unat (entry_offset + of_nat IDLOC_ENTRY_SIZE) > length (vw_data v) then Some (Ok None)
                else Some (bind_res (mapped_entry (vw_data v) entry_offset) (\<lambda>entry.
                       Ok (if entry_is_deleted entry then None
                           else Some (location_new (le_seg_id entry) (le_offset64 entry) (le_len32 entry)
                                        (le_node_num entry) 0xFFFF)))))))"

definition view_locate :: "AtomId \<Rightarrow> IdLocView \<Rightarrow> Location option ix option" where
  "view_locate atom_id v = view_locate_in v (fp64_be atom_id) (vw_shard_table v)"

definition view_get_node_num :: "AtomId \<Rightarrow> IdLocView \<Rightarrow> u64 option ix option" where
  "view_get_node_num atom_id v =
     map_option (\<lambda>r. bind_res r (\<lambda>l. Ok (map_option loc_node_num l))) (view_locate atom_id v)"

definition view_shard_entries :: "nat \<Rightarrow> IdLocView \<Rightarrow> IdLocEntry list option ix" where
  "view_shard_entries shard_idx v =
     (if shard_idx \<ge> length (vw_shard_table v) then Ok None
      else
        (let shard = vw_shard_table v ! shard_idx in
         if sd_entry_count shard = 0 then Ok (Some [])
         else
           (let entries_start = shard_start (lh_off_entries (vw_header v)) shard;
                entries_bytes = unat (sd_entry_count shard) * IDLOC_ENTRY_SIZE
            in if unat (entries_start + of_nat entries_bytes) > length (vw_data v) then Ok None
               else if unat entries_start > length (vw_data v) then Panic
               else Ok (Some (map (\<lambda>i. idloc_entry_read (drop (unat entries_start + i * IDLOC_ENTRY_SIZE) (vw_data v)))
                      [0..<unat (sd_entry_count shard)])))))"

section \<open>Hashes of atoms\<close>

definition FNV_OFFSET :: u64 where "FNV_OFFSET = 14695981039346656037"
definition FNV_PRIME :: u64 where "FNV_PRIME = 1099511628211"

definition fnv1a_hash :: "AtomId \<Rightarrow> u64" where
  "fnv1a_hash atom_id = fold (\<lambda>byte hash. (hash XOR ucast byte) * FNV_PRIME) atom_id FNV_OFFSET"

definition assign_node_num :: "AtomId \<Rightarrow> u64 \<Rightarrow> u64" where
  "assign_node_num atom_id base = base + fnv1a_hash atom_id"

end
