(* ===== verification/Id_Loc_Lookup.thy ===== *)
theory Id_Loc_Lookup
  imports Id_Loc
begin

text \<open>
  What the location index of \<open>src/index/mod.rs\<close> answers: the file that is built is read back as
  written, both ways of building give the same bytes, every shard is searched as a sorted list, and a
  lookup finds what was added, unless two atoms agree in their first eight bytes.
\<close>

section \<open>Records are read back from memory\<close>

lemma length_idloc_memory [simp]:
  "length (idloc_entry_memory e) = 40" "length (idloc_header_memory h) = 64" "length (shard_desc_memory d) = 16"
  by (simp_all add: idloc_entry_memory_def idloc_header_memory_def shard_desc_memory_def)

lemma idloc_write_facts [simp]:
  "snd (shard_desc_write_to_bytes d (replicate SHARD_DESC_SIZE 0)) = shard_desc_memory d"
  "snd (idloc_entry_write_to_bytes e (replicate IDLOC_ENTRY_SIZE 0)) = idloc_entry_memory e"
  "idloc_header_write_to_file h = idloc_header_memory (h\<lparr>lh_file_crc32 := idloc_calculate_crc h\<rparr>)"
  by (simp_all add: shard_desc_write_to_bytes_def idloc_entry_write_to_bytes_def idloc_header_write_to_file_def
      idloc_header_write_to_bytes_def idloc_constants)

lemma idloc_entry_read_memory [simp]: "idloc_entry_read (idloc_entry_memory e @ rest) = e"
  by (simp add: idloc_entry_read_def idloc_entry_memory_def)

lemma idloc_header_read_memory [simp]: "idloc_header_read (idloc_header_memory h @ rest) = h"
  by (simp add: idloc_header_read_def idloc_header_memory_def nth_append)

lemma shard_desc_read_memory [simp]: "shard_desc_from_bytes (shard_desc_memory d @ rest) = Some d"
  by (simp add: shard_desc_from_bytes_def shard_desc_memory_def SHARD_DESC_SIZE_def)

lemma idloc_crc_stable: "idloc_calculate_crc (h\<lparr>lh_file_crc32 := c\<rparr>) = idloc_calculate_crc h"
  by (simp add: idloc_calculate_crc_def idloc_header_memory_def IDLOC_CRC_OFFSET_def)

section \<open>The two ways of building write the same bytes\<close>

definition layout_bytes :: "IdLocLayout \<Rightarrow> bytes" where
  "layout_bytes ly = idloc_header_memory ((ly_header ly)\<lparr>lh_file_crc32 := idloc_calculate_crc (ly_header ly)\<rparr>) @
     concat (map shard_desc_memory (ly_shards ly)) @ concat (map filter_bytes (ly_filters ly)) @
     concat (map idloc_entry_memory (ly_entries ly))"

lemma length_filter_bytes [simp]: "length (filter_bytes flt) = filter_size flt"
  by (cases flt) (simp_all add: filter_bytes_def filter_size_def bloom_to_bytes_def bloom_serialized_size_def length_concat_u64)

lemma length_concat_const: "(\<And>x. length (f x) = n) \<Longrightarrow> length (concat (map f xs)) = n * length xs"
  by (induction xs) simp_all

lemma length_concat_filters: "length (concat (map filter_bytes fs)) = sum_list (map filter_size fs)"
  by (induction fs) simp_all

lemma length_distribute: "distribute sb ps ss = Ok ss' \<Longrightarrow> length ss' = length ss"
  by (induction ps arbitrary: ss) (auto simp: Let_def split: if_splits)

lemma length_shard_descs [simp]: "length (shard_descs k ss) = length ss"
  by (induction ss arbitrary: k) simp_all

definition layout_ok :: "IdLocLayout \<Rightarrow> bool" where
  "layout_ok ly \<longleftrightarrow>
     ly_xorf_table_off ly = 64 + 16 * length (ly_shards ly) \<and>
     ly_entries_off ly = ly_xorf_table_off ly + sum_list (map filter_size (ly_filters ly)) \<and>
     ly_file_size ly = ly_entries_off ly + 40 * length (ly_entries ly)"

lemma idloc_layout_ok: "idloc_layout b = Ok ly \<Longrightarrow> layout_ok ly"
  by (auto simp: idloc_layout_def layout_ok_def Let_def idloc_constants dest!: length_distribute)

lemma write_at_0: "length bs + n = m \<Longrightarrow> write_at 0 bs (replicate m 0) = bs @ replicate n 0"
  by (auto simp: write_at_def)

lemma write_at_zeros: "write_at (length pre) bs (pre @ replicate (length bs + n) 0) = pre @ bs @ replicate n 0"
  by (simp add: write_at_def)

lemma build_to_file_eq:
  assumes "idloc_layout b = Ok ly"
  shows "build_to_file b path fs =
    (let fs = AList.update path (layout_bytes ly) fs in (idloc_open path fs, fs))"
proof -
  let ?w = "idloc_header_memory ((ly_header ly)\<lparr>lh_file_crc32 := idloc_calculate_crc (ly_header ly)\<rparr>) @
     concat (map shard_desc_memory (ly_shards ly)) @ concat (map filter_bytes (ly_filters ly))"
  let ?e = "concat (map idloc_entry_memory (ly_entries ly))"
  have le: "length ?e = 40 * length (ly_entries ly)" by (intro length_concat_const) simp
  have lw: "length ?w = ly_entries_off ly" and sz: "ly_file_size ly = length ?w + length ?e"
    using idloc_layout_ok [OF assms] length_concat_const [of shard_desc_memory 16 "ly_shards ly"] le
    by (simp_all add: layout_ok_def length_concat_filters)
  have "write_at (ly_entries_off ly) ?e (write_at 0 ?w (replicate (ly_file_size ly) 0)) = ?w @ ?e"
    using write_at_0 [of ?w "length ?e"] write_at_zeros [of ?w ?e 0] by (simp only: sz lw) simp
  then show ?thesis using assms by (simp add: build_to_file_def layout_bytes_def Let_def)
qed

text \<open>Filling a buffer of zeros from the left.\<close>

lemma put_slice_zeros:
  "put_slice (length pre) bs (pre @ replicate (length bs + n) 0) = Ok ((pre @ bs) @ replicate n 0)"
  by (simp add: put_slice_def write_at_zeros)

lemma put_shards_zeros:
  "length pre = 64 + 16 * i \<Longrightarrow> put_shards i ds (pre @ replicate (16 * length ds + n) 0) =
     Ok ((pre @ concat (map shard_desc_memory ds)) @ replicate n 0)"
proof (induction ds arbitrary: i pre)
  case (Cons d ds)
  have "put_slice (IDLOC_HEADER_SIZE + i * SHARD_DESC_SIZE) (shard_desc_memory d)
      (pre @ replicate (16 * length (d # ds) + n) 0) = Ok ((pre @ shard_desc_memory d) @ replicate (16 * length ds + n) 0)"
    using put_slice_zeros [of pre "shard_desc_memory d" "16 * length ds + n"] Cons.prems
    by (simp add: idloc_constants add_ac mult.commute)
  with Cons.IH [of "pre @ shard_desc_memory d" "i + 1"] Cons.prems show ?case by simp
qed simp

lemma put_filters_zeros:
  "put_filters (length pre) fs (pre @ replicate (sum_list (map filter_size fs) + n) 0) =
     Ok ((pre @ concat (map filter_bytes fs)) @ replicate n 0)"
proof (induction fs arbitrary: pre)
  case (Cons flt fs)
  let ?m = "sum_list (map filter_size fs) + n"
  show ?case
  proof (cases flt)
    case None
    have 1: "put_slice (length pre) (u32_le 0) (pre @ replicate (4 + ?m) 0) = Ok ((pre @ u32_le 0) @ replicate ?m 0)"
      using put_slice_zeros [of pre "u32_le 0" ?m] by simp
    have 2: "sum_list (map filter_size (flt # fs)) + n = 4 + ?m" "filter_bytes flt = u32_le 0"
      using None by (simp_all add: filter_size_def filter_bytes_def)
    have 3: "length pre + 4 = length (pre @ u32_le 0)" by simp
    show ?thesis
      unfolding 2(1) using Cons.IH [of "pre @ u32_le 0"] 2(2)
      by (simp only: None put_filters.simps option.case 1 bind_res.simps 3) simp
  next
    case (Some f)
    let ?l = "len_le (bf_num_bits f)" and ?b = "bloom_to_bytes f"
    have b: "length ?b = bloom_serialized_size f"
      by (simp add: bloom_to_bytes_def bloom_serialized_size_def length_concat_u64)
    have 1: "put_slice (length pre) ?l (pre @ replicate (4 + (length ?b + ?m)) 0) =
        Ok ((pre @ ?l) @ replicate (length ?b + ?m) 0)"
      using put_slice_zeros [of pre ?l "length ?b + ?m"] by simp
    have 2: "put_slice (length pre + 4) ?b ((pre @ ?l) @ replicate (length ?b + ?m) 0) =
        Ok (((pre @ ?l) @ ?b) @ replicate ?m 0)"
      using put_slice_zeros [of "pre @ ?l" ?b ?m] by simp
    have 3: "sum_list (map filter_size (flt # fs)) + n = 4 + (length ?b + ?m)"
      using Some b by (simp add: filter_size_def)
    show ?thesis
      unfolding 3 using Cons.IH [of "(pre @ ?l) @ ?b"]
      by (simp only: Some put_filters.simps option.case 1 2 bind_res.simps) (simp add: filter_bytes_def add.assoc)
  qed
qed simp

lemma put_entries_zeros:
  "length pre = off + 40 * i \<Longrightarrow> put_entries off i es (pre @ replicate (40 * length es) 0) =
     Ok (pre @ concat (map idloc_entry_memory es))"
proof (induction es arbitrary: i pre)
  case (Cons e es)
  have "put_slice (off + i * IDLOC_ENTRY_SIZE) (idloc_entry_memory e) (pre @ replicate (40 * length (e # es)) 0) =
      Ok ((pre @ idloc_entry_memory e) @ replicate (40 * length es) 0)"
    using put_slice_zeros [of pre "idloc_entry_memory e" "40 * length es"] Cons.prems
    by (simp add: idloc_constants add_ac mult.commute)
  with Cons.IH [of "pre @ idloc_entry_memory e" "i + 1"] Cons.prems show ?case by simp
qed simp

lemma build_to_vec_eq:
  assumes "idloc_layout b = Ok ly" shows "build_to_vec b = Ok (layout_bytes ly)"
proof -
  let ?h = "idloc_header_memory ((ly_header ly)\<lparr>lh_file_crc32 := idloc_calculate_crc (ly_header ly)\<rparr>)"
  let ?s = "concat (map shard_desc_memory (ly_shards ly))" and ?f = "concat (map filter_bytes (ly_filters ly))"
  let ?nf = "sum_list (map filter_size (ly_filters ly))" and ?ne = "40 * length (ly_entries ly)"
  let ?ns = "16 * length (ly_shards ly)"
  from idloc_layout_ok [OF assms] have sz: "ly_file_size ly = 64 + (?ns + (?nf + ?ne))"
    and xo: "ly_xorf_table_off ly = length (?h @ ?s)" and eo: "ly_entries_off ly = length ((?h @ ?s) @ ?f)"
    using length_concat_const [of shard_desc_memory 16 "ly_shards ly"]
    by (simp_all add: layout_ok_def length_concat_filters)
  have 1: "put_slice 0 ?h (replicate (ly_file_size ly) 0) = Ok (?h @ replicate (?ns + (?nf + ?ne)) 0)"
    using put_slice_zeros [of "[]" ?h "?ns + (?nf + ?ne)"] by (simp add: sz)
  have 2: "put_shards 0 (ly_shards ly) (?h @ replicate (?ns + (?nf + ?ne)) 0) = Ok ((?h @ ?s) @ replicate (?nf + ?ne) 0)"
    using put_shards_zeros [of ?h 0 "ly_shards ly" "?nf + ?ne"] by simp
  have 3: "put_filters (ly_xorf_table_off ly) (ly_filters ly) ((?h @ ?s) @ replicate (?nf + ?ne) 0) =
      Ok (((?h @ ?s) @ ?f) @ replicate ?ne 0)"
    using put_filters_zeros [of "?h @ ?s" "ly_filters ly" ?ne] by (simp only: xo)
  have 4: "put_entries (ly_entries_off ly) 0 (ly_entries ly) (((?h @ ?s) @ ?f) @ replicate ?ne 0) = Ok (layout_bytes ly)"
    using put_entries_zeros [of "(?h @ ?s) @ ?f" _ 0 "ly_entries ly"] eo by (simp add: layout_bytes_def)
  show ?thesis using assms 1 2 3 4 by (simp add: build_to_vec_def Let_def)
qed

text \<open>
  Building to a file and building to a vector agree: when the one gives bytes, the other leaves a
  file with exactly these bytes and opens it; when the one panics, so does the other, and no file is touched.\<close>

theorem idloc_builds_agree:
  "case build_to_vec b of
     Ok bs \<Rightarrow> build_to_file b path fs =
       (idloc_open path (AList.update path bs fs), AList.update path bs fs)
   | _ \<Rightarrow> build_to_file b path fs = (Panic, fs)"
proof -
  have d: "distribute sb ps ss \<noteq> Err e" for sb ps ss e
    by (induction ps arbitrary: ss) (auto simp: Let_def)
  have i: "insert_atoms ps f \<noteq> Err e" for ps f e
    by (induction ps arbitrary: f) (auto simp: bind_res_eq_Err bloom_insert_def hash_positions_def split: if_splits)
  have f: "shard_filters ss \<noteq> Err e" for ss e
    using i by (induction ss) (auto simp: bind_res_eq_Err split: if_splits)
  have n: "idloc_layout b \<noteq> Err e" for e
    using d f by (auto simp: idloc_layout_def Let_def bind_res_eq_Err)
  show ?thesis
  proof (cases "idloc_layout b")
    case Panic
    then show ?thesis by (simp add: build_to_vec_def build_to_file_def)
  next
    case (Err e)
    with n show ?thesis by blast
  next
    case (Ok ly)
    then show ?thesis by (simp add: build_to_vec_eq build_to_file_eq Let_def)
  qed
qed

section \<open>Shards\<close>

lemma get_shard_less:
  assumes "0 < sb" "sb \<le> 20" shows "get_shard fp sb < 2 ^ unat sb"
proof -
  have n: "unat sb \<le> 20" using assms(2) by (simp add: word_le_nat_alt)
  then have "push_bit (unat sb mod 64) 1 - 1 = (mask (unat sb) :: u64)" by (simp add: mask_eq_exp_minus_1 push_bit_eq_mult)
  then show ?thesis by (simp add: get_shard_def flip: take_bit_eq_mask) (simp add: unsigned_take_bit_eq)
qed

lemma shard_count_new: "sb \<le> 20 \<Longrightarrow> unat (lh_shard_count (idloc_header_new sb)) = 2 ^ unat sb"
proof -
  assume "sb \<le> 20"
  then have n: "unat sb \<le> 20" by (simp add: word_le_nat_alt)
  then have "(2::nat) ^ unat sb \<le> 2 ^ 20" by (intro power_increasing) simp_all
  then have "unat (of_nat (2 ^ unat sb) :: u32) = 2 ^ unat sb" by (intro unat_of_nat_u32) simp
  with n show ?thesis by (simp add: idloc_header_new_def push_bit_eq_mult)
qed

abbreviation entry_shard :: "u8 \<Rightarrow> AtomId \<times> IdLocEntry \<Rightarrow> nat" where
  "entry_shard sb p \<equiv> get_shard (le_fp64 (snd p)) sb"

lemma distribute_eq:
  assumes "\<And>p. p \<in> set ps \<Longrightarrow> entry_shard sb p < length ss"
  shows "distribute sb ps ss = Ok (map (\<lambda>i. ss ! i @ filter (\<lambda>p. entry_shard sb p = i) ps) [0..<length ss])"
  using assms
proof (induction ps arbitrary: ss)
  case (Cons p ps)
  let ?i = "entry_shard sb p"
  have i: "?i < length ss" using Cons.prems by simp
  let ?ss = "ss[?i := ss ! ?i @ [p]]"
  have "distribute sb ps ?ss = Ok (map (\<lambda>i. ?ss ! i @ filter (\<lambda>p. entry_shard sb p = i) ps) [0..<length ?ss])"
    using Cons.prems by (intro Cons.IH) simp
  also have "map (\<lambda>i. ?ss ! i @ filter (\<lambda>p. entry_shard sb p = i) ps) [0..<length ?ss] =
      map (\<lambda>i. ss ! i @ filter (\<lambda>p. entry_shard sb p = i) (p # ps)) [0..<length ss]"
    by (auto simp: nth_list_update)
  finally show ?case using i by (simp add: Let_def)
qed (simp add: map_nth)

lemma insert_atoms_eq: "insert_atoms ps f = insert_all bloom_insert (map fst ps) f"
proof (induction ps arbitrary: f)
  case (Cons p ps)
  then have "insert_atoms ps = insert_all bloom_insert (map fst ps)" by (simp add: fun_eq_iff)
  then show ?case by simp
qed simp

definition filter_ok :: "(AtomId \<times> IdLocEntry) list \<Rightarrow> BloomFilter option \<Rightarrow> bool" where
  "filter_ok ps flt \<longleftrightarrow>
     (case flt of None \<Rightarrow> ps = []
      | Some f \<Rightarrow> bloom_valid f \<and> bf_num_bits f = 10 * length ps \<and> length (bf_bits f) = (10 * length ps + 63) div 64 \<and>
          (\<forall>p\<in>set ps. bloom_might_contain f (fst p) = (Ok True :: bool ix)))"

lemma insert_all_shape:
  "insert_all bloom_insert ks f = Ok g \<Longrightarrow> bf_num_bits g = bf_num_bits f \<and> length (bf_bits g) = length (bf_bits f)"
  by (induction ks arbitrary: f) (auto dest!: bloom_insert_shape)

lemma shard_filters_ok: "\<exists>fs. shard_filters ss = Ok fs \<and> list_all2 filter_ok ss fs"
proof (induction ss)
  case (Cons ps ss)
  from Cons.IH obtain fs where fs: "shard_filters ss = Ok fs" "list_all2 filter_ok ss fs" by blast
  show ?case
  proof (cases "ps = []")
    case True
    moreover have "filter_ok [] None" by (simp add: filter_ok_def)
    ultimately show ?thesis using fs by auto
  next
    case False
    then have v: "bloom_valid (bloom_new (length ps))" by (intro bloom_valid_new) simp
    from bloom.insert_all_ok [OF this, of "map fst ps"] obtain f where
      f: "insert_all bloom_insert (map fst ps) (bloom_new (length ps)) = (Ok f :: BloomFilter ix)" "bloom_valid f"
        "\<forall>k\<in>set (map fst ps). bloom_might_contain f k = (Ok True :: bool ix)"
      by blast
    then have "filter_ok ps (Some f)"
      using insert_all_shape [OF f(1)]
      by (simp add: filter_ok_def bloom_new_def Let_def BLOOM_BITS_PER_ENTRY_def mult.commute)
    with fs f False show ?thesis by (auto simp: insert_atoms_eq)
  qed
qed simp

section \<open>The file is opened as it was built\<close>

lemma unat_of_nat_le_u64: "n \<le> m \<Longrightarrow> m < 2 ^ 64 \<Longrightarrow> unat (of_nat n :: u64) = n"
  by (rule unat_of_nat_u64) simp

lemma read_shard_descs_mid:
  assumes "length pre = s + 16 * i" "length (pre @ concat (map shard_desc_memory ds) @ post) < 2 ^ 63"
  shows "read_shard_descs (of_nat s) i (length ds) (pre @ concat (map shard_desc_memory ds) @ post) = Ok ds"
  using assms
proof (induction ds arbitrary: i pre)
  case (Cons d ds)
  let ?m = "pre @ concat (map shard_desc_memory (d # ds)) @ post"
  have o: "of_nat s + of_nat i * of_nat SHARD_DESC_SIZE = (of_nat (length pre) :: u64)"
    using Cons.prems(1) by (simp add: SHARD_DESC_SIZE_def mult.commute)
  have u: "unat (of_nat (length pre) :: u64) = length pre"
    "unat (of_nat (length pre) + of_nat SHARD_DESC_SIZE :: u64) = length pre + 16"
    using Cons.prems(2) unat_of_nat_u64 [of "length pre"] unat_of_nat_u64 [of "length pre + 16"]
    by (simp_all add: SHARD_DESC_SIZE_def)
  have "read_shard_descs (of_nat s) (i + 1) (length ds) ?m = Ok ds"
    using Cons.IH [of "pre @ shard_desc_memory d" "i + 1"] Cons.prems by simp
  then show ?case by (simp add: o u)
qed simp

lemma bloom_from_to_bytes [simp]: "bloom_from_bytes (bloom_to_bytes f) (bf_num_bits f) = f"
  by (simp add: bloom_from_bytes_def bloom_to_bytes_def length_concat_u64 words_of_bytes)

definition filter_storable :: "BloomFilter option \<Rightarrow> bool" where
  "filter_storable flt \<longleftrightarrow>
     (case flt of None \<Rightarrow> True
      | Some f \<Rightarrow> 0 < bf_num_bits f \<and> bf_num_bits f < 2 ^ 32 \<and> length (bf_bits f) = (bf_num_bits f + 63) div 64)"

lemma read_shard_filters_mid:
  assumes "mmap = pre @ concat (map filter_bytes fs) @ post" "\<forall>flt\<in>set fs. filter_storable flt" "length mmap < 2 ^ 63"
  shows "read_shard_filters (of_nat (length pre)) i (length fs) mmap = Ok fs"
  using assms
proof (induction fs arbitrary: i pre)
  case (Cons flt fs)
  note m = Cons.prems(1) and small = Cons.prems(3)
  have l: "length pre + 4 \<le> length mmap" by (simp add: m filter_size_def)
  have u: "unat (of_nat (length pre) :: u64) = length pre"
    "unat (of_nat (length pre) + 4 :: u64) = length pre + 4"
    using small l unat_of_nat_u64 [of "length pre"] unat_of_nat_u64 [of "length pre + 4"] by simp_all
  have IH: "read_shard_filters (of_nat (length pre + filter_size flt)) (i + 1) (length fs) mmap = Ok fs"
    using Cons.IH [of "pre @ filter_bytes flt" "i + 1"] Cons.prems(2,3) m by simp
  show ?case
  proof (cases flt)
    case None
    have z: "u32_at (length pre) mmap = 0" by (simp add: m None filter_bytes_def)
    from IH None have "read_shard_filters (of_nat (length pre) + 4) (i + 1) (length fs) mmap = Ok fs"
      by (simp add: filter_size_def add.commute)
    then show ?thesis using l by (simp add: u z None)
  next
    case (Some f)
    let ?n = "bf_num_bits f" and ?b = "bloom_to_bytes f"
    from Cons.prems(2) Some have f: "0 < ?n" "?n < 2 ^ 32" "length (bf_bits f) = (?n + 63) div 64"
      by (simp_all add: filter_storable_def)
    have b: "(?n + 63) div 64 * 8 = length ?b" by (simp add: bloom_to_bytes_def length_concat_u64 f(3))
    have "filter_bytes flt = len_le ?n @ ?b" by (simp add: Some filter_bytes_def)
    with m have m': "mmap = pre @ len_le ?n @ ?b @ concat (map filter_bytes fs) @ post" by simp
    have z: "unat (u32_at (length pre) mmap) = ?n" using f(2) by (simp add: m' len_le_def unat_of_nat_u32)
    have sz: "filter_size flt = 4 + length ?b"
      by (simp add: Some filter_size_def bloom_serialized_size_def bloom_to_bytes_def length_concat_u64)
    have l2: "length pre + 4 + length ?b \<le> length mmap" by (simp add: m')
    have u2: "unat (of_nat (length pre) + 4 + of_nat (length ?b) :: u64) = length pre + 4 + length ?b"
      using small l2 unat_of_nat_u64 [of "length pre + 4 + length ?b"] by simp
    have t: "take (length ?b) (drop (length pre + 4) mmap) = ?b" by (simp add: m')
    from IH have r: "read_shard_filters (of_nat (length pre) + 4 + of_nat (length ?b)) (i + 1) (length fs) mmap = Ok fs"
      by (simp add: sz add.assoc)
    have "\<not> length mmap < unat (of_nat (length pre) + 4 + of_nat (length ?b) :: u64)" "\<not> length mmap < length pre + 4"
      using l l2 u2 by simp_all
    then show ?thesis
      using f(1) r by (simp only: length_Cons read_shard_filters.simps u z Let_def b) (simp add: t Some)
  qed
qed simp

lemma open_layout:
  assumes "layout_ok ly" "length (layout_bytes ly) < 2 ^ 63" "\<forall>flt\<in>set (ly_filters ly). filter_storable flt"
    and "lh_magic (ly_header ly) = IDLOC_MAGIC" "lh_ver (ly_header ly) = IDLOC_VERSION"
    and "unat (lh_shard_count (ly_header ly)) = length (ly_shards ly)" "length (ly_filters ly) = length (ly_shards ly)"
    and "lh_off_shard_table (ly_header ly) = 64" "lh_off_xorf_table (ly_header ly) = of_nat (ly_xorf_table_off ly)"
  shows "idloc_open path (AList.update path (layout_bytes ly) fs) =
    Ok \<lparr>ix_mmap = layout_bytes ly, ix_header = (ly_header ly)\<lparr>lh_file_crc32 := idloc_calculate_crc (ly_header ly)\<rparr>,
        ix_shards = ly_shards ly, ix_filters = ly_filters ly, ix_entries_offset = lh_off_entries (ly_header ly),
        ix_path = path\<rparr>"
proof -
  let ?hd = "(ly_header ly)\<lparr>lh_file_crc32 := idloc_calculate_crc (ly_header ly)\<rparr>"
  let ?h = "idloc_header_memory ?hd" and ?s = "concat (map shard_desc_memory (ly_shards ly))"
  let ?f = "concat (map filter_bytes (ly_filters ly))" and ?e = "concat (map idloc_entry_memory (ly_entries ly))"
  have x: "ly_xorf_table_off ly = length (?h @ ?s)"
    using assms(1) length_concat_const [of shard_desc_memory 16 "ly_shards ly"] by (simp add: layout_ok_def)
  have 1: "read_shard_descs (of_nat 64) 0 (length (ly_shards ly)) (layout_bytes ly) = Ok (ly_shards ly)"
    using read_shard_descs_mid [of ?h 64 0 "ly_shards ly" "?f @ ?e"] assms(2) by (simp add: layout_bytes_def)
  have 2: "read_shard_filters (of_nat (ly_xorf_table_off ly)) 0 (length (ly_filters ly)) (layout_bytes ly) = Ok (ly_filters ly)"
    using read_shard_filters_mid [of "layout_bytes ly" "?h @ ?s" "ly_filters ly" ?e 0] assms(2,3)
    by (simp add: x layout_bytes_def)
  have 3: "idloc_header_from_bytes (layout_bytes ly) = Ok ?hd"
    using assms(4,5) by (simp add: idloc_header_from_bytes_def layout_bytes_def idloc_constants Let_def)
  have 4: "IDLOC_HEADER_SIZE \<le> length (layout_bytes ly)" by (simp add: layout_bytes_def IDLOC_HEADER_SIZE_def)
  have 5: "idloc_validate_crc ?hd" by (simp add: idloc_validate_crc_def idloc_crc_stable)
  from 1 2 3 4 5 assms(6-9) show ?thesis by (simp add: idloc_open_def)
qed

section \<open>Searching a shard is searching a sorted list\<close>

function key_search :: "('a \<Rightarrow> 'k::linorder) \<Rightarrow> 'a list \<Rightarrow> 'k \<Rightarrow> nat \<Rightarrow> nat \<Rightarrow> nat option" where
  "key_search key xs k left right =
     (if left < right
      then let mid = left + (right - left) div 2 in
        if key (xs ! mid) = k then Some mid
        else if key (xs ! mid) < k then key_search key xs k (mid + 1) right else key_search key xs k left mid
      else None)"
  by pat_completeness auto
termination by (relation "measure (\<lambda>(_, _, _, left, right). right - left)") auto

declare key_search.simps [simp del]

lemma key_search_spec:
  assumes "sorted (map key xs)" "right \<le> length xs"
    and "\<And>i. i < left \<Longrightarrow> i < length xs \<Longrightarrow> key (xs ! i) < k"
    and "\<And>i. right \<le> i \<Longrightarrow> i < length xs \<Longrightarrow> k < key (xs ! i)"
  shows "case key_search key xs k left right of
           None \<Rightarrow> \<forall>x\<in>set xs. key x \<noteq> k
         | Some i \<Rightarrow> i < length xs \<and> key (xs ! i) = k"
  using assms
proof (induction key xs k left right rule: key_search.induct)
  case (1 key xs k left right)
  note sorted = "1.prems"(1) and le = "1.prems"(2) and lo = "1.prems"(3) and hi = "1.prems"(4)
  let ?mid = "left + (right - left) div 2"
  have mono: "i \<le> j \<Longrightarrow> j < length xs \<Longrightarrow> key (xs ! i) \<le> key (xs ! j)" for i j
    using sorted_nth_mono [OF sorted, of i j] by simp
  show ?case
  proof (cases "left < right")
    case False
    have "key x \<noteq> k" if x: "x \<in> set xs" for x
    proof -
      from x obtain i where i: "i < length xs" "x = xs ! i" by (auto simp: in_set_conv_nth)
      show ?thesis using lo [OF _ i(1)] hi [OF _ i(1)] False i(2) by (cases "i < left") auto
    qed
    with False show ?thesis by (subst key_search.simps) auto
  next
    case True
    then have mid: "?mid < right" "left \<le> ?mid" by simp_all
    consider "key (xs ! ?mid) = k" | "key (xs ! ?mid) < k" | "k < key (xs ! ?mid)" by fastforce
    then show ?thesis
    proof cases
      case 1
      with True mid le show ?thesis by (simp add: key_search.simps [of key xs k left right] Let_def)
    next
      case 2
      have lo': "key (xs ! i) < k" if "i < ?mid + 1" "i < length xs" for i
        using mono [of i ?mid] mid le that 2 by simp
      from 2 have n: "key (xs ! ?mid) \<noteq> k" by simp
      from "1.IH"(1) [OF True refl n 2 sorted le lo' hi] 2 n True show ?thesis
        by (simp add: key_search.simps [of key xs k left right] Let_def)
    next
      case 3
      have hi': "k < key (xs ! i)" if "?mid \<le> i" "i < length xs" for i
        using mono [of ?mid i] that 3 by simp
      from 3 have n: "key (xs ! ?mid) \<noteq> k" "\<not> key (xs ! ?mid) < k" by simp_all
      from mid le have le': "?mid \<le> length xs" by simp
      from "1.IH"(2) [OF True refl n sorted le' lo hi'] n True show ?thesis
        by (simp add: key_search.simps [of key xs k left right] Let_def)
    qed
  qed
qed

lemma search_shard_eq:
  assumes "\<And>j. j < length es \<Longrightarrow> unat (start + of_nat j * of_nat IDLOC_ENTRY_SIZE + of_nat IDLOC_ENTRY_SIZE) \<le> length mmap \<and>
      mapped_entry mmap (start + of_nat j * of_nat IDLOC_ENTRY_SIZE) = Ok (es ! j)"
    and "right \<le> length es"
  shows "search_shard mmap start t left right = Ok (key_search le_fp64 es t left right)"
  using assms(2)
proof (induction "right - left" arbitrary: left right rule: less_induct)
  case less
  let ?mid = "left + (right - left) div 2"
  show ?case
  proof (cases "left < right")
    case True
    then have mid: "?mid < right" by simp
    have m: "unat (start + of_nat ?mid * of_nat IDLOC_ENTRY_SIZE + of_nat IDLOC_ENTRY_SIZE) \<le> length mmap"
      "mapped_entry mmap (start + of_nat ?mid * of_nat IDLOC_ENTRY_SIZE) = Ok (es ! ?mid)"
      using assms(1) [of ?mid] mid less.prems by auto
    have "search_shard mmap start t (?mid + 1) right = Ok (key_search le_fp64 es t (?mid + 1) right)"
      "search_shard mmap start t left ?mid = Ok (key_search le_fp64 es t left ?mid)"
      using True mid less.prems by (auto intro!: less.hyps)
    then show ?thesis using True m
      by (subst search_shard.simps, subst key_search.simps) (simp add: Let_def)
  next
    case False
    then show ?thesis by (subst search_shard.simps, subst key_search.simps) simp
  qed
qed

section \<open>Lookups in a built index\<close>

definition shard_lists :: "u8 \<Rightarrow> (AtomId \<times> IdLocEntry) list \<Rightarrow> (AtomId \<times> IdLocEntry) list list" where
  "shard_lists sb es =
     map (\<lambda>i. filter (\<lambda>p. entry_shard sb p = i) (sort_key (\<lambda>p. le_fp64 (snd p)) es)) [0..<2 ^ unat sb]"

lemma length_shard_lists [simp]: "length (shard_lists sb es) = 2 ^ unat sb"
  by (simp add: shard_lists_def)

lemma shard_lists_nth:
  "i < 2 ^ unat sb \<Longrightarrow>
   shard_lists sb es ! i = filter (\<lambda>p. entry_shard sb p = i) (sort_key (\<lambda>p. le_fp64 (snd p)) es)"
  by (simp add: shard_lists_def)

lemma sorted_shard: "i < 2 ^ unat sb \<Longrightarrow> sorted (map le_fp64 (map snd (shard_lists sb es ! i)))"
  by (simp add: shard_lists_nth sorted_filter o_def)

lemma length_shard_le: "ps \<in> set (shard_lists sb es) \<Longrightarrow> length ps \<le> length es"
  using length_filter_le [of _ "sort_key (\<lambda>p. le_fp64 (snd p)) es"] by (auto simp: shard_lists_def)

lemma shard_descs_nth:
  "i < length ss \<Longrightarrow> shard_descs k ss ! i =
     shard_desc_new (of_nat (k + length (concat (take i ss)))) (of_nat (length (ss ! i)))"
proof (induction ss arbitrary: k i)
  case (Cons s ss)
  then show ?case by (cases i) (simp_all add: add.assoc)
qed simp

lemma built_layout:
  assumes "0 < sb" "sb \<le> 20" and b: "ib_header b = idloc_header_new sb"
  defines "S \<equiv> shard_lists sb (ib_entries b)"
  obtains ly where "idloc_layout b = Ok ly" "ly_shards ly = shard_descs 0 S" "list_all2 filter_ok S (ly_filters ly)"
    "ly_entries ly = map snd (concat S)"
    "ly_header ly = (idloc_header_new sb)\<lparr>lh_off_xorf_table := of_nat (ly_xorf_table_off ly),
       lh_off_entries := of_nat (ly_entries_off ly)\<rparr>"
proof -
  let ?E = "sort_key (\<lambda>p. le_fp64 (snd p)) (ib_entries b)"
  let ?c = "(2::nat) ^ unat sb"
  have c: "unat (lh_shard_count (ib_header b)) = ?c" using shard_count_new [OF assms(2)] b by simp
  have "distribute sb ?E (replicate ?c []) = Ok S"
    using distribute_eq [of ?E sb "replicate ?c []"] get_shard_less [OF assms(1,2)]
    by (simp add: S_def shard_lists_def cong: map_cong)
  then have d: "distribute (lh_shard_bits (ib_header b)) ?E (replicate ?c []) = Ok S"
    by (simp add: b idloc_header_new_def)
  from shard_filters_ok [of S] obtain fs where fs: "shard_filters S = Ok fs" "list_all2 filter_ok S fs" by blast
  have "\<exists>ly. idloc_layout b = Ok ly \<and> ly_shards ly = shard_descs 0 S \<and> ly_filters ly = fs \<and>
      ly_entries ly = map snd (concat S) \<and>
      ly_header ly = (ib_header b)\<lparr>lh_off_xorf_table := of_nat (ly_xorf_table_off ly),
        lh_off_entries := of_nat (ly_entries_off ly)\<rparr>"
    by (simp add: idloc_layout_def Let_def c d fs(1))
  with fs(2) b that show thesis by metis
qed

text \<open>Sizes: \<open>2 ^ 28\<close> entries keep every offset and every count inside its field.\<close>

lemma filter_ok_storable:
  assumes "filter_ok ps flt" "length ps \<le> 2 ^ 28" shows "filter_storable flt"
  using assms by (auto simp: filter_ok_def filter_storable_def bloom_valid_def split: option.splits)

lemma filter_ok_size: "filter_ok ps flt \<Longrightarrow> filter_size flt \<le> 12 + 80 * length ps"
  by (auto simp: filter_ok_def filter_size_def bloom_serialized_size_def split: option.splits)

lemma layout_small:
  assumes "length (ly_shards ly) \<le> 2 ^ 20" "length ss = length (ly_shards ly)" "list_all2 filter_ok ss (ly_filters ly)"
    and "ly_entries ly = map snd (concat ss)" "\<And>ps. ps \<in> set ss \<Longrightarrow> length ps \<le> 2 ^ 28"
  shows "length (layout_bytes ly) < 2 ^ 63"
proof -
  have n: "length (ly_filters ly) = length ss" using assms(3) by (simp add: list_all2_lengthD)
  have "filter_size flt \<le> 12 + 80 * 2 ^ 28" if "flt \<in> set (ly_filters ly)" for flt
  proof -
    from that assms(3) obtain ps where "ps \<in> set ss" "filter_ok ps flt"
      by (metis in_set_conv_nth list_all2_conv_all_nth)
    with assms(5) [of ps] filter_ok_size [of ps flt] show ?thesis by simp
  qed
  then have f: "sum_list (map filter_size (ly_filters ly)) \<le> length ss * (12 + 80 * 2 ^ 28)"
    using sum_list_bound [of "ly_filters ly" filter_size] n by simp
  have e: "length (ly_entries ly) \<le> length ss * 2 ^ 28"
    using sum_list_bound [of ss length, OF assms(5)] by (simp add: assms(4) length_concat)
  have "length (layout_bytes ly) = 64 + 16 * length ss + sum_list (map filter_size (ly_filters ly)) +
      40 * length (ly_entries ly)"
    using assms(2) length_concat_const [of shard_desc_memory 16 "ly_shards ly"]
      length_concat_const [of idloc_entry_memory 40 "ly_entries ly"]
    by (simp add: layout_bytes_def length_concat_filters)
  also have "\<dots> \<le> 64 + 2 ^ 20 * (16 + (12 + 80 * 2 ^ 28) + 40 * 2 ^ 28)"
    using f e assms(1,2) by (simp add: algebra_simps)
  also have "\<dots> < 2 ^ 63" by simp
  finally show ?thesis .
qed

lemma mapped_entry_nth:
  assumes "mmap = pre @ concat (map idloc_entry_memory es)" "length mmap < 2 ^ 63" "i < length es"
  shows "mapped_entry mmap (of_nat (length pre + 40 * i)) = Ok (es ! i)"
    and "unat (of_nat (length pre + 40 * i) + of_nat IDLOC_ENTRY_SIZE :: u64) \<le> length mmap"
proof -
  let ?a = "concat (map idloc_entry_memory (take i es))" and ?z = "concat (map idloc_entry_memory (drop (Suc i) es))"
  have "es = take i es @ es ! i # drop (Suc i) es" using assms(3) by (simp add: id_take_nth_drop)
  then have "map idloc_entry_memory es = map idloc_entry_memory (take i es) @
      idloc_entry_memory (es ! i) # map idloc_entry_memory (drop (Suc i) es)"
    by (metis list.simps(9) map_append)
  then have m: "mmap = (pre @ ?a) @ idloc_entry_memory (es ! i) @ ?z" using assms(1) by simp
  have la: "length ?a = 40 * i" using assms(3) length_concat_const [of idloc_entry_memory 40 "take i es"] by simp
  then have l: "length (pre @ ?a) = length pre + 40 * i" by simp
  have b: "length pre + 40 * i + 40 \<le> length mmap" by (subst m) (simp add: la)
  with assms(2) have u: "unat (of_nat (length pre + 40 * i) :: u64) = length pre + 40 * i"
    "unat (of_nat (length pre + 40 * i) + of_nat IDLOC_ENTRY_SIZE :: u64) = length pre + 40 * i + 40"
    using unat_of_nat_u64 [of "length pre + 40 * i"] unat_of_nat_u64 [of "length pre + 40 * i + 40"]
    by (simp_all add: IDLOC_ENTRY_SIZE_def)
  have "drop (length pre + 40 * i) mmap = idloc_entry_memory (es ! i) @ ?z"
    by (subst m) (simp only: flip: l, simp)
  with b show "mapped_entry mmap (of_nat (length pre + 40 * i)) = Ok (es ! i)"
    by (simp only: mapped_entry_def u) (simp add: IDLOC_ENTRY_SIZE_def)
  show "unat (of_nat (length pre + 40 * i) + of_nat IDLOC_ENTRY_SIZE :: u64) \<le> length mmap" using b u by simp
qed

lemma bloom_might_contain_total:
  "bf_num_bits f \<noteq> 0 \<Longrightarrow> \<exists>m. bloom_might_contain f atom_id = Ok m"
  by (simp add: bloom_might_contain_def hash_positions_def)

lemma filter_ok_answer:
  assumes "filter_ok ps flt"
  obtains maybe where "(case flt of None \<Rightarrow> Ok True | Some f \<Rightarrow> bloom_might_contain f a) = (Ok maybe :: bool ix)"
    "a \<in> fst ` set ps \<longrightarrow> maybe"
proof (cases flt)
  case None
  then show thesis using that [of True] by simp
next
  case (Some f)
  with assms have f: "bf_num_bits f \<noteq> 0" "\<forall>p\<in>set ps. bloom_might_contain f (fst p) = (Ok True :: bool ix)"
    by (auto simp: filter_ok_def bloom_valid_def)
  obtain m where m: "bloom_might_contain f a = (Ok m :: bool ix)" using bloom_might_contain_total [OF f(1)] by blast
  with f(2) have "a \<in> fst ` set ps \<longrightarrow> m" by auto
  with Some m that show thesis by simp
qed

text \<open>One lookup, given what the descriptor and the mapped entries of the shard are.\<close>

lemma locate_eq:
  assumes i: "i = get_shard (fp64_be a) (lh_shard_bits (ix_header ix))" "i < length (ix_shards ix)"
    and m: "(case ix_filters ix ! i of None \<Rightarrow> Ok True | Some f \<Rightarrow> bloom_might_contain f a) = (Ok maybe :: bool ix)"
    and cnt: "unat (sd_entry_count (ix_shards ix ! i)) = length es"
    and acc: "\<And>j. j < length es \<Longrightarrow>
      unat (shard_start (ix_entries_offset ix) (ix_shards ix ! i) + of_nat j * of_nat IDLOC_ENTRY_SIZE +
            of_nat IDLOC_ENTRY_SIZE) \<le> length (ix_mmap ix) \<and>
      mapped_entry (ix_mmap ix) (shard_start (ix_entries_offset ix) (ix_shards ix ! i) +
            of_nat j * of_nat IDLOC_ENTRY_SIZE) = Ok (es ! j)"
    and sorted: "sorted (map le_fp64 es)"
  shows "locate a ix = Ok (if \<not> maybe then None
              else case key_search le_fp64 es (fp64_be a) 0 (length es) of
                     None \<Rightarrow> None
                   | Some j \<Rightarrow> if entry_is_deleted (es ! j) then None else Some (to_location (es ! j)))"
proof -
  let ?start = "shard_start (ix_entries_offset ix) (ix_shards ix ! i)"
  have search: "binary_search_shard ix i (fp64_be a) = Ok (key_search le_fp64 es (fp64_be a) 0 (length es))"
  proof (cases "es = []")
    case True
    with cnt i show ?thesis by (simp add: binary_search_shard_def key_search.simps unsigned_eq_0_iff)
  next
    case False
    with cnt have "sd_entry_count (ix_shards ix ! i) \<noteq> 0" by auto
    then show ?thesis
      using search_shard_eq [of es ?start "ix_mmap ix" "length es" "fp64_be a" 0] acc cnt i
      by (simp add: binary_search_shard_def)
  qed
  show ?thesis
  proof (cases "key_search le_fp64 es (fp64_be a) 0 (length es)")
    case None
    with search i m show ?thesis by (simp add: locate_def Let_def)
  next
    case (Some j)
    with key_search_spec [of le_fp64 es "length es" 0 "fp64_be a"] sorted have "j < length es" by simp
    from acc [OF this] have "\<not> length (ix_mmap ix) < unat (?start + of_nat j * of_nat IDLOC_ENTRY_SIZE + of_nat IDLOC_ENTRY_SIZE)"
      "mapped_entry (ix_mmap ix) (?start + of_nat j * of_nat IDLOC_ENTRY_SIZE) = Ok (es ! j)" by simp_all
    with search i m Some show ?thesis by (simp add: locate_def Let_def)
  qed
qed

text \<open>A lookup in a built index: the shard is searched unless the filter excludes the atom.\<close>

lemma locate_built:
  fixes fs :: cas_files
  assumes sb: "0 < sb" "sb \<le> 20" and b: "ib_header b = idloc_header_new sb" and n: "length (ib_entries b) \<le> 2 ^ 28"
  obtains ix fs' where "build_to_file b path fs = (Ok ix, fs')" and
    "\<And>a. \<exists>maybe. (a \<in> fst ` set (shard_lists sb (ib_entries b) ! get_shard (fp64_be a) sb) \<longrightarrow> maybe) \<and>
       locate a ix =
         (let es = map snd (shard_lists sb (ib_entries b) ! get_shard (fp64_be a) sb) in
          Ok (if \<not> maybe then None
              else case key_search le_fp64 es (fp64_be a) 0 (length es) of
                     None \<Rightarrow> None
                   | Some j \<Rightarrow> if entry_is_deleted (es ! j) then None else Some (to_location (es ! j))))"
proof -
  let ?S = "shard_lists sb (ib_entries b)"
  obtain ly where ly: "idloc_layout b = Ok ly" "ly_shards ly = shard_descs 0 ?S" "list_all2 filter_ok ?S (ly_filters ly)"
    "ly_entries ly = map snd (concat ?S)"
    and hd: "ly_header ly = (idloc_header_new sb)\<lparr>lh_off_xorf_table := of_nat (ly_xorf_table_off ly),
       lh_off_entries := of_nat (ly_entries_off ly)\<rparr>"
    using built_layout [OF sb b] by metis
  have c: "unat (lh_shard_count (idloc_header_new sb)) = 2 ^ unat sb" by (rule shard_count_new [OF sb(2)])
  have sb20: "(2::nat) ^ unat sb \<le> 2 ^ 20" using sb(2) by (intro power_increasing) (simp_all add: word_le_nat_alt)
  have len: "length ps \<le> 2 ^ 28" if "ps \<in> set ?S" for ps using length_shard_le [OF that] n by simp
  note ok = idloc_layout_ok [OF ly(1)]
  have small: "length (layout_bytes ly) < 2 ^ 63"
    by (rule layout_small [OF _ _ ly(3,4) len]) (use sb20 in \<open>simp_all add: ly(2)\<close>)
  have storable: "\<forall>flt\<in>set (ly_filters ly). filter_storable flt"
  proof
    fix flt assume "flt \<in> set (ly_filters ly)"
    with ly(3) obtain ps where "ps \<in> set ?S" "filter_ok ps flt" by (metis in_set_conv_nth list_all2_conv_all_nth)
    then show "filter_storable flt" using filter_ok_storable len by blast
  qed
  have nf: "length (ly_filters ly) = 2 ^ unat sb" using list_all2_lengthD [OF ly(3)] by simp
  let ?ix = "\<lparr>ix_mmap = layout_bytes ly, ix_header = (ly_header ly)\<lparr>lh_file_crc32 := idloc_calculate_crc (ly_header ly)\<rparr>,
        ix_shards = ly_shards ly, ix_filters = ly_filters ly, ix_entries_offset = lh_off_entries (ly_header ly),
        ix_path = path\<rparr>"
  have "idloc_open path (AList.update path (layout_bytes ly) fs) = Ok ?ix"
    by (rule open_layout [OF ok small storable])
      (simp_all add: hd c ly(2) nf, simp_all add: idloc_header_new_def IDLOC_HEADER_SIZE_def)
  then have built: "build_to_file b path fs = (Ok ?ix, AList.update path (layout_bytes ly) fs)"
    by (simp add: build_to_file_eq [OF ly(1)])
  show thesis
  proof (rule that [OF built])
    fix a
    let ?i = "get_shard (fp64_be a) sb"
    let ?es = "map snd (?S ! ?i)" and ?k = "length (concat (take ?i ?S))"
    have i: "?i < 2 ^ unat sb" by (rule get_shard_less [OF sb])
    then have iS: "?i < length ?S" by simp
    have desc: "ly_shards ly ! ?i = shard_desc_new (of_nat ?k) (of_nat (length ?es))"
      using i by (simp add: ly(2) shard_descs_nth)
    have cnt: "unat (of_nat (length ?es) :: u32) = length ?es"
      using len [of "?S ! ?i"] iS by (intro unat_of_nat_u32) (simp add: nth_mem)
    have flt: "filter_ok (?S ! ?i) (ly_filters ly ! ?i)" using ly(3) iS by (simp add: list_all2_conv_all_nth)
    have entries: "ly_entries ly = map snd (concat (take ?i ?S)) @ ?es @ map snd (concat (drop (Suc ?i) ?S))"
      using arg_cong [OF id_take_nth_drop [OF iS], of "\<lambda>ss. map snd (concat ss)"] by (simp add: ly(4))
    define pre where "pre = idloc_header_memory (ix_header ?ix) @ concat (map shard_desc_memory (ly_shards ly)) @
      concat (map filter_bytes (ly_filters ly))"
    have mm: "layout_bytes ly = pre @ concat (map idloc_entry_memory (ly_entries ly))"
      by (simp add: pre_def layout_bytes_def)
    have lp: "ly_entries_off ly = length pre"
      using ok length_concat_const [of shard_desc_memory 16 "ly_shards ly"]
      by (simp add: layout_ok_def pre_def length_concat_filters)
    let ?start = "shard_start (ix_entries_offset ?ix) (ly_shards ly ! ?i)"
    have st: "?start + of_nat j * of_nat IDLOC_ENTRY_SIZE = of_nat (length pre + 40 * (?k + j))" for j
      by (simp add: shard_start_def desc shard_desc_new_def hd lp IDLOC_ENTRY_SIZE_def algebra_simps)
    have acc: "unat (?start + of_nat j * of_nat IDLOC_ENTRY_SIZE + of_nat IDLOC_ENTRY_SIZE) \<le> length (layout_bytes ly) \<and>
        mapped_entry (layout_bytes ly) (?start + of_nat j * of_nat IDLOC_ENTRY_SIZE) = Ok (?es ! j)"
      if "j < length ?es" for j
    proof -
      have "?k + j < length (ly_entries ly)" "ly_entries ly ! (?k + j) = ?es ! j"
        using that by (simp_all add: entries nth_append)
      then show ?thesis using mapped_entry_nth [OF mm small, of "?k + j"] unfolding st by simp
    qed
    have lsh: "length (ly_shards ly) = 2 ^ unat sb" by (simp add: ly(2))
    have sbh: "lh_shard_bits (ly_header ly) = sb" by (simp add: hd idloc_header_new_def)
    obtain maybe where m: "(case ly_filters ly ! ?i of None \<Rightarrow> Ok True | Some f \<Rightarrow> bloom_might_contain f a) = (Ok maybe :: bool ix)"
      and mi: "a \<in> fst ` set (?S ! ?i) \<longrightarrow> maybe" using filter_ok_answer [OF flt] by blast
    have "locate a ?ix = Ok (if \<not> maybe then None
              else case key_search le_fp64 ?es (fp64_be a) 0 (length ?es) of
                     None \<Rightarrow> None
                   | Some j \<Rightarrow> if entry_is_deleted (?es ! j) then None else Some (to_location (?es ! j)))"
      by (rule locate_eq [of ?i]) (use i m acc cnt sorted_shard [OF i] in \<open>simp_all add: sbh desc shard_desc_new_def lsh\<close>)
    with mi show "\<exists>maybe. (a \<in> fst ` set (?S ! ?i) \<longrightarrow> maybe) \<and> locate a ?ix =
         (let es = ?es in
          Ok (if \<not> maybe then None
              else case key_search le_fp64 es (fp64_be a) 0 (length es) of
                     None \<Rightarrow> None
                   | Some j \<Rightarrow> if entry_is_deleted (es ! j) then None else Some (to_location (es ! j))))"
      by (auto simp: Let_def)
  qed
qed

section \<open>What a built index answers\<close>

text \<open>A builder after a number of additions: atom, segment, length, offset and node of each.\<close>

definition build_items :: "u8 \<Rightarrow> (AtomId \<times> u32 \<times> u32 \<times> u64 \<times> u64) list \<Rightarrow> IdLocBuilder" where
  "build_items sb items =
     fold (\<lambda>(a, seg_id, len, offset, node_num). idloc_builder_add a seg_id len offset node_num) items (idloc_builder_new sb)"

lemma build_items_eq:
  "build_items sb items = \<lparr>ib_header = idloc_header_new sb,
     ib_entries = map (\<lambda>(a, seg_id, len, offset, node_num). (a, idloc_entry_new a seg_id len offset node_num)) items\<rparr>"
proof -
  have "fold (\<lambda>(a, seg_id, len, offset, node_num). idloc_builder_add a seg_id len offset node_num) items b =
      b\<lparr>ib_entries := ib_entries b @
        map (\<lambda>(a, seg_id, len, offset, node_num). (a, idloc_entry_new a seg_id len offset node_num)) items\<rparr>" for b
    by (induction items arbitrary: b) (auto simp: idloc_builder_add_def)
  then show ?thesis by (simp add: build_items_def idloc_builder_new_def)
qed

lemma idloc_entry_new_facts [simp]:
  "le_fp64 (idloc_entry_new a seg_id len offset node_num) = fp64_be a"
  "\<not> entry_is_deleted (idloc_entry_new a seg_id len offset node_num)"
  "to_location (idloc_entry_new a seg_id len offset node_num) = location_new seg_id offset len node_num 0xFFFF"
  by (simp_all add: idloc_entry_new_def to_location_def entry_is_deleted_def location_new_def)

text \<open>
  C16: an index of 1 to 20 shard bits, built of at most 2^28 atoms whose first eight bytes are all different, finds
  each of them where it was added, and finds no atom whose first eight bytes are those of none of them.\<close>

theorem idloc_built_locates:
  fixes fs :: cas_files
  assumes "0 < sb" "sb \<le> 20" "length items \<le> 2 ^ 28" "distinct (map (\<lambda>item. fp64_be (fst item)) items)"
  shows "\<exists>ix fs'. build_to_file (build_items sb items) path fs = (Ok ix, fs') \<and>
    (\<forall>(a, seg_id, len, offset, node_num)\<in>set items.
       locate a ix = Ok (Some (location_new seg_id offset len node_num 0xFFFF))) \<and>
    (\<forall>a. fp64_be a \<notin> fp64_be ` fst ` set items \<longrightarrow> locate a ix = Ok None)"
proof -
  let ?b = "build_items sb items"
  let ?shard = "\<lambda>a. shard_lists sb (ib_entries ?b) ! get_shard (fp64_be a) sb"
  obtain ix fs' where ix: "build_to_file ?b path fs = (Ok ix, fs')" and
    loc: "\<And>a. \<exists>maybe. (a \<in> fst ` set (?shard a) \<longrightarrow> maybe) \<and> locate a ix =
         (let es = map snd (?shard a) in
          Ok (if \<not> maybe then None
              else case key_search le_fp64 es (fp64_be a) 0 (length es) of
                     None \<Rightarrow> None
                   | Some j \<Rightarrow> if entry_is_deleted (es ! j) then None else Some (to_location (es ! j))))"
    using locate_built [OF assms(1,2), of ?b path fs] assms(3) by (auto simp: build_items_eq)
  have spec: "case key_search le_fp64 (map snd (?shard a)) (fp64_be a) 0 (length (?shard a)) of
      None \<Rightarrow> \<forall>e\<in>set (map snd (?shard a)). le_fp64 e \<noteq> fp64_be a
    | Some j \<Rightarrow> j < length (map snd (?shard a)) \<and> le_fp64 (map snd (?shard a) ! j) = fp64_be a" for a
    by (rule key_search_spec)
      (use sorted_shard [of "get_shard (fp64_be a) sb" sb "ib_entries ?b", OF get_shard_less [OF assms(1,2)]] in auto)
  have member: "p \<in> set (?shard a) \<longleftrightarrow> p \<in> set (ib_entries ?b) \<and> entry_shard sb p = get_shard (fp64_be a) sb" for p a
    using get_shard_less [OF assms(1,2), of "fp64_be a"] by (auto simp: shard_lists_nth)
  have found: "locate a ix = Ok (Some (location_new seg_id offset len node_num 0xFFFF))"
    if it: "(a, seg_id, len, offset, node_num) \<in> set items" for a seg_id len offset node_num
  proof -
    have p: "(a, idloc_entry_new a seg_id len offset node_num) \<in> set (?shard a)"
      unfolding member using it by (force simp: build_items_eq)
    then obtain j where j: "key_search le_fp64 (map snd (?shard a)) (fp64_be a) 0 (length (?shard a)) = Some j"
      using spec [of a] by (cases "key_search le_fp64 (map snd (?shard a)) (fp64_be a) 0 (length (?shard a))") force+
    with spec [of a] have jl: "j < length (?shard a)" "le_fp64 (snd (?shard a ! j)) = fp64_be a" by auto
    then have "?shard a ! j \<in> set (ib_entries ?b)" using member nth_mem by blast
    then obtain b s l f n where q: "(b, s, l, f, n) \<in> set items" "?shard a ! j = (b, idloc_entry_new b s l f n)"
      by (auto simp: build_items_eq)
    with jl(2) it assms(4) have "(b, s, l, f, n) = (a, seg_id, len, offset, node_num)"
      by (simp add: distinct_map inj_on_def) fastforce
    with loc [of a] p j jl(1) q(2) show ?thesis by (force simp: Let_def)
  qed
  have "locate a ix = Ok None" if "fp64_be a \<notin> fp64_be ` fst ` set items" for a
  proof -
    have "le_fp64 e \<noteq> fp64_be a" if "e \<in> set (map snd (?shard a))" for e
    proof -
      from that obtain p where "p \<in> set (ib_entries ?b)" "e = snd p" using member by auto
      then obtain b s l f n where b: "(b, s, l, f, n) \<in> set items" "e = idloc_entry_new b s l f n"
        by (auto simp: build_items_eq)
      then have "fp64_be b \<in> fp64_be ` fst ` set items" by (metis fst_conv image_eqI)
      with \<open>fp64_be a \<notin> _\<close> b(2) show ?thesis by (metis idloc_entry_new_facts(1))
    qed
    then have "key_search le_fp64 (map snd (?shard a)) (fp64_be a) 0 (length (?shard a)) = None"
      using spec [of a] by (auto split: option.splits simp: nth_mem)
    with loc [of a] show ?thesis by (auto simp: Let_def)
  qed
  with ix found show ?thesis by blast
qed

text \<open>
  An atom is lost in the index when another one with the same first eight bytes is added after it:
  a lookup of either gives the location of the other one.\<close>

theorem idloc_prefix_collision:
  fixes fs :: cas_files
  assumes "0 < sb" "sb \<le> 20" "fp64_be a = fp64_be b"
  shows "\<exists>ix fs'. build_to_file (build_items sb [(a, s, l, f, n), (b, s', l', f', n')]) path fs = (Ok ix, fs') \<and>
    locate a ix = Ok (Some (location_new s' f' l' n' 0xFFFF)) \<and>
    locate b ix = Ok (Some (location_new s' f' l' n' 0xFFFF))"
proof -
  let ?b = "build_items sb [(a, s, l, f, n), (b, s', l', f', n')]"
  let ?e = "[(a, idloc_entry_new a s l f n), (b, idloc_entry_new b s' l' f' n')]"
  have e: "ib_entries ?b = ?e" by (simp add: build_items_eq)
  have shard: "shard_lists sb ?e ! get_shard (fp64_be b) sb = ?e"
    using get_shard_less [OF assms(1,2)] assms(3) by (simp add: shard_lists_nth)
  have search: "key_search le_fp64 (map snd ?e) (fp64_be b) 0 2 = Some 1"
    by (subst key_search.simps) (simp add: Let_def)
  obtain ix fs' where ix: "build_to_file ?b path fs = (Ok ix, fs')" and
    loc: "\<And>c. \<exists>maybe. (c \<in> fst ` set (shard_lists sb ?e ! get_shard (fp64_be c) sb) \<longrightarrow> maybe) \<and> locate c ix =
         (let es = map snd (shard_lists sb ?e ! get_shard (fp64_be c) sb) in
          Ok (if \<not> maybe then None
              else case key_search le_fp64 es (fp64_be c) 0 (length es) of
                     None \<Rightarrow> None
                   | Some j \<Rightarrow> if entry_is_deleted (es ! j) then None else Some (to_location (es ! j))))"
    using locate_built [OF assms(1,2), of ?b path fs] by (auto simp: build_items_eq)
  from loc [of a] loc [of b] have "locate a ix = Ok (Some (location_new s' f' l' n' 0xFFFF))"
    "locate b ix = Ok (Some (location_new s' f' l' n' 0xFFFF))"
    using search by (auto simp: assms(3) shard Let_def numeral_2_eq_2)
  with ix show ?thesis by blast
qed

theorem idloc_built_locates_witness:
  "\<exists>ix fs'. build_to_file (build_items 8 [(replicate 32 1, 1, 100, 1000, 10), (replicate 32 2, 2, 200, 2000, 20)]) ''idloc'' [] = (Ok ix, fs') \<and>
     locate (replicate 32 1) ix = Ok (Some (location_new 1 1000 100 10 0xFFFF)) \<and>
     locate (replicate 32 2) ix = Ok (Some (location_new 2 2000 200 20 0xFFFF)) \<and>
     locate (replicate 32 0xFF) ix = Ok None"
proof -
  have f: "fp64_be (replicate 32 1) = 0x0101010101010101" "fp64_be (replicate 32 2) = 0x0202020202020202"
    "fp64_be (replicate 32 0xFF) = 0xFFFFFFFFFFFFFFFF"
  proof -
    have r: "replicate 8 x = [x, x, x, x, x, x, x, x]" for x :: u8 by (simp add: eval_nat_numeral)
    show "fp64_be (replicate 32 1) = 0x0101010101010101" "fp64_be (replicate 32 2) = 0x0202020202020202"
      "fp64_be (replicate 32 0xFF) = 0xFFFFFFFFFFFFFFFF"
      by (simp_all add: fp64_be_def le_u64_def take_replicate r)
  qed
  show ?thesis
    using idloc_built_locates [of 8 "[(replicate 32 1, 1, 100, 1000, 10), (replicate 32 2, 2, 200, 2000, 20)]" "''idloc''" "[]"]
    by (auto simp: f)
qed

theorem idloc_prefix_collision_witness:
  "\<exists>ix fs'. build_to_file (build_items 8 [(replicate 32 1, 1, 100, 1000, 10), (replicate 31 1 @ [2], 2, 200, 2000, 20)]) ''idloc'' [] = (Ok ix, fs') \<and>
     locate (replicate 32 1) ix = Ok (Some (location_new 2 2000 200 20 0xFFFF))"
proof -
  have "fp64_be (replicate 32 1) = fp64_be (replicate 31 1 @ [2])" by (simp add: fp64_be_def)
  from idloc_prefix_collision [OF _ _ this, of 8 1 100 1000 10 2 200 2000 20 "''idloc''" "[]"] show ?thesis by auto
qed

end
