(* ===== verification/Lexicon.thy ===== *)
theory Lexicon
  imports Id_Loc
begin

text \<open>
  The lexicon of \<open>src/index/mod.rs\<close>: the terms of the inverted index with their numbers, and the file
  of terms, which is sorted, cut into blocks, and stores every term of a block as the length of the prefix
  it shares with the first one and the rest. A term is a \<open>String\<close>, its UTF-8 bytes; strings are ordered
  byte by byte. The header is a \<open>repr(C)\<close> structure; its padding is written as zeros and not read.
\<close>

section \<open>Strings\<close>

text \<open>\<open>String::from_utf8_lossy\<close>: every malformed part becomes the replacement character; a
  part is the longest beginning of a character, and at least one byte.\<close>

abbreviation replacement :: bytes where "replacement \<equiv> [0xEF, 0xBF, 0xBD]"

fun utf8_lossy :: "bytes \<Rightarrow> bytes" where
  "utf8_lossy [] = []"
| "utf8_lossy (b # bs) =
     (if b < 0x80 then b # utf8_lossy bs
      else if 0xC2 \<le> b \<and> b \<le> 0xDF then
        (case bs of
           [] \<Rightarrow> replacement
         | c # r \<Rightarrow> if utf8_cont c then b # c # utf8_lossy r else replacement @ utf8_lossy (c # r))
      else if 0xE0 \<le> b \<and> b \<le> 0xEF then
        (case bs of
           [] \<Rightarrow> replacement
         | c # r \<Rightarrow>
             if utf8_second b c then
               (case r of
                  [] \<Rightarrow> replacement
                | d # q \<Rightarrow> if utf8_cont d then b # c # d # utf8_lossy q else replacement @ utf8_lossy (d # q))
             else replacement @ utf8_lossy (c # r))
      else if 0xF0 \<le> b \<and> b \<le> 0xF4 then
        (case bs of
           [] \<Rightarrow> replacement
         | c # r \<Rightarrow>
             if utf8_second b c then
               (case r of
                  [] \<Rightarrow> replacement
                | d # q \<Rightarrow>
                    if utf8_cont d then
                      (case q of
                         [] \<Rightarrow> replacement
                       | e # s \<Rightarrow> if utf8_cont e then b # c # d # e # utf8_lossy s else replacement @ utf8_lossy (e # s))
                    else replacement @ utf8_lossy (d # q))
             else replacement @ utf8_lossy (c # r))
      else replacement @ utf8_lossy bs)"

declare utf8_lossy.simps(2) [simp del] utf8_valid.simps(2) [simp del]

lemma four_cases: "(if p then a else if q then b else if r then c else if s then d else False) \<Longrightarrow>
    p \<or> \<not> p \<and> q \<or> \<not> p \<and> \<not> q \<and> r \<or> \<not> p \<and> \<not> q \<and> \<not> r \<and> s"
  by (auto split: if_splits)

lemma case_3_chars: "(case bs of c # d # r \<Rightarrow> P c d r | _ \<Rightarrow> False) \<Longrightarrow> \<exists>c d r. bs = c # d # r \<and> P c d r"
  by (auto split: list.splits)

lemma case_4_chars: "(case bs of c # d # e # r \<Rightarrow> P c d e r | _ \<Rightarrow> False) \<Longrightarrow> \<exists>c d e r. bs = c # d # e # r \<and> P c d e r"
  by (auto split: list.splits)

lemma utf8_lossy_valid: "utf8_valid s \<Longrightarrow> utf8_lossy s = s"
proof (induction "length s" arbitrary: s rule: less_induct)
  case less
  have IH: "utf8_lossy r = r" if "length r < length s" "utf8_valid r" for r using less.hyps that by blast
  show ?case
  proof (cases s)
    case (Cons b bs)
    note v = less.prems [unfolded Cons utf8_valid.simps(2) [of b bs]]
    consider "b < 0x80" | "\<not> b < 0x80" "0xC2 \<le> b \<and> b \<le> 0xDF"
      | "\<not> b < 0x80" "\<not> (0xC2 \<le> b \<and> b \<le> 0xDF)" "0xE0 \<le> b \<and> b \<le> 0xEF"
      | "\<not> b < 0x80" "\<not> (0xC2 \<le> b \<and> b \<le> 0xDF)" "\<not> (0xE0 \<le> b \<and> b \<le> 0xEF)" "0xF0 \<le> b \<and> b \<le> 0xF4"
      using four_cases [OF v] by blast
    then show ?thesis
    proof cases
      case 1
      with v IH [of bs] Cons show ?thesis by (simp only: utf8_lossy.simps(2) [of b] if_True) simp
    next
      case 2
      from v obtain c r where "bs = c # r" "utf8_cont c" "utf8_valid r"
        by (simp only: 2 if_False if_True) (cases bs, simp_all)
      with IH [of r] Cons show ?thesis by (simp only: utf8_lossy.simps(2) [of b] 2 if_False if_True) simp
    next
      case 3
      from v have "case bs of c # d # r \<Rightarrow> utf8_second b c \<and> utf8_cont d \<and> utf8_valid r | _ \<Rightarrow> False"
        by (simp only: 3 if_False if_True simp_thms)
      from case_3_chars [OF this] obtain c d r
        where "bs = c # d # r" "utf8_second b c" "utf8_cont d" "utf8_valid r" by blast
      with IH [of r] Cons show ?thesis by (simp only: utf8_lossy.simps(2) [of b] 3 if_False if_True simp_thms) simp
    next
      case 4
      from v have "case bs of c # d # e # r \<Rightarrow> utf8_second b c \<and> utf8_cont d \<and> utf8_cont e \<and> utf8_valid r | _ \<Rightarrow> False"
        by (simp only: 4 if_False if_True simp_thms)
      from case_4_chars [OF this] obtain c d e r
        where "bs = c # d # e # r" "utf8_second b c" "utf8_cont d" "utf8_cont e" "utf8_valid r" by blast
      with IH [of r] Cons show ?thesis by (simp only: utf8_lossy.simps(2) [of b] 4 if_False if_True simp_thms) simp
    qed
  qed simp
qed

definition is_char_boundary :: "bytes \<Rightarrow> nat \<Rightarrow> bool" where
  "is_char_boundary s i \<longleftrightarrow> i = 0 \<or> i = length s \<or> i < length s \<and> \<not> utf8_cont (s ! i)"

section \<open>The code\<close>

definition LEX_MAGIC :: u32 where "LEX_MAGIC = 0x4C455831"
definition LEX_VERSION :: u16 where "LEX_VERSION = 0x0001"
definition LEX_HEADER_SIZE :: nat where "LEX_HEADER_SIZE = 48"
definition BLOCK_ENTRY_SIZE :: nat where "BLOCK_ENTRY_SIZE = 16"
definition DEFAULT_BLOCK_SIZE :: nat where "DEFAULT_BLOCK_SIZE = 128"

record BlockTableEntry =
  bt_block_off :: u64
  bt_first_term_id :: u32
  bt_entry_count :: u32

definition block_entry_memory :: "BlockTableEntry \<Rightarrow> bytes" where
  "block_entry_memory e = u64_le (bt_block_off e) @ u32_le (bt_first_term_id e) @ u32_le (bt_entry_count e)"

definition block_entry_from_bytes :: "bytes \<Rightarrow> BlockTableEntry option" where
  "block_entry_from_bytes bs =
     (if length bs < BLOCK_ENTRY_SIZE then None
      else Some \<lparr>bt_block_off = u64_at 0 bs, bt_first_term_id = u32_at 8 bs, bt_entry_count = u32_at 12 bs\<rparr>)"

definition block_entry_write_to_bytes :: "BlockTableEntry \<Rightarrow> bytes \<Rightarrow> bool \<times> bytes" where
  "block_entry_write_to_bytes e bs =
     (if length bs < BLOCK_ENTRY_SIZE then (False, bs) else (True, block_entry_memory e @ drop BLOCK_ENTRY_SIZE bs))"

record LexHeader =
  xh_magic :: u32
  xh_ver :: u16
  xh_flags :: u16
  xh_block_size :: u32
  xh_term_count :: u64
  xh_block_count :: u32
  xh_off_block_table :: u64
  xh_off_blocks :: u64

definition lex_header_new :: "u32 \<Rightarrow> LexHeader" where
  "lex_header_new block_size =
     \<lparr>xh_magic = LEX_MAGIC, xh_ver = LEX_VERSION, xh_flags = 0, xh_block_size = block_size, xh_term_count = 0,
      xh_block_count = 0, xh_off_block_table = of_nat LEX_HEADER_SIZE, xh_off_blocks = 0\<rparr>"

definition lex_validate_magic :: "LexHeader \<Rightarrow> bool" where
  "lex_validate_magic h \<longleftrightarrow> xh_magic h = LEX_MAGIC \<and> xh_ver h = LEX_VERSION"

definition lex_header_memory :: "LexHeader \<Rightarrow> bytes" where
  "lex_header_memory h = u32_le (xh_magic h) @ u16_le (xh_ver h) @ u16_le (xh_flags h) @ u32_le (xh_block_size h) @
     u32_le 0 @ u64_le (xh_term_count h) @ u32_le (xh_block_count h) @ u32_le 0 @ u64_le (xh_off_block_table h) @
     u64_le (xh_off_blocks h)"

definition lex_header_from_bytes :: "bytes \<Rightarrow> LexHeader ix" where
  "lex_header_from_bytes bs =
     (if length bs < LEX_HEADER_SIZE then Err (IxFileTooSmall LEX_HEADER_SIZE (length bs))
      else
        (let header = \<lparr>xh_magic = u32_at 0 bs, xh_ver = u16_at 4 bs, xh_flags = u16_at 6 bs, xh_block_size = u32_at 8 bs,
               xh_term_count = u64_at 16 bs, xh_block_count = u32_at 24 bs, xh_off_block_table = u64_at 32 bs,
               xh_off_blocks = u64_at 40 bs\<rparr>
         in if xh_magic header \<noteq> LEX_MAGIC then Err (IxInvalidMagic LEX_MAGIC (xh_magic header))
            else if xh_ver header \<noteq> LEX_VERSION then Err (IxInvalidVersion LEX_VERSION (xh_ver header))
            else Ok header))"

definition lex_header_write_to_bytes :: "LexHeader \<Rightarrow> bytes \<Rightarrow> bool \<times> bytes" where
  "lex_header_write_to_bytes h bs =
     (if length bs < LEX_HEADER_SIZE then (False, bs) else (True, lex_header_memory h @ drop LEX_HEADER_SIZE bs))"

record Lexicon =
  lx_terms :: "bytes list"
  lx_block_size :: nat
  lx_term_to_id :: "(bytes, u32) hmap"

definition lex_with_block_size :: "nat \<Rightarrow> Lexicon" where
  "lex_with_block_size block_size = \<lparr>lx_terms = [], lx_block_size = block_size, lx_term_to_id = []\<rparr>"

definition lex_new :: Lexicon where "lex_new = lex_with_block_size DEFAULT_BLOCK_SIZE"

definition lex_add :: "bytes \<Rightarrow> Lexicon \<Rightarrow> u32 \<times> Lexicon" where
  "lex_add t lx =
     (case map_of (lx_term_to_id lx) t of
        Some i \<Rightarrow> (i, lx)
      | None \<Rightarrow>
          (let i = of_nat (length (lx_terms lx))
           in (i, lx\<lparr>lx_term_to_id := AList.update t i (lx_term_to_id lx), lx_terms := lx_terms lx @ [t]\<rparr>)))"

definition lex_get :: "u32 \<Rightarrow> Lexicon \<Rightarrow> bytes option" where
  "lex_get term_id lx =
     (if unat term_id < length (lx_terms lx) then Some (lx_terms lx ! unat term_id) else None)"

definition lex_find :: "bytes \<Rightarrow> Lexicon \<Rightarrow> u32 option" where
  "lex_find t lx = map_of (lx_term_to_id lx) t"

definition lex_lookup :: "bytes \<Rightarrow> Lexicon \<Rightarrow> u32 option" where
  "lex_lookup t lx = map_of (lx_term_to_id lx) t"

definition lex_len :: "Lexicon \<Rightarrow> nat" where "lex_len lx = length (lx_terms lx)"
definition lex_is_empty :: "Lexicon \<Rightarrow> bool" where "lex_is_empty lx \<longleftrightarrow> lx_terms lx = []"

text \<open>Numbering terms in the order of a list.\<close>

definition number_terms :: "bytes list \<Rightarrow> (bytes, u32) hmap" where
  "number_terms ts = fold (\<lambda>(i, t) m. AList.update t (of_nat i) m) (enumerate 0 ts) []"

definition lex_sort_terms :: "Lexicon \<Rightarrow> Lexicon" where
  "lex_sort_terms lx =
     (let sorted = sort (lx_terms lx) in lx\<lparr>lx_terms := sorted, lx_term_to_id := number_terms sorted\<rparr>)"

text \<open>Lengths are cut to 16 bits before the suffix is taken.\<close>

definition common_prefix :: "bytes \<Rightarrow> bytes \<Rightarrow> nat" where
  "common_prefix a t = length (takeWhile (\<lambda>(x, y). x = y) (zip a t))"

definition front_coded :: "bytes \<Rightarrow> bytes \<Rightarrow> bytes" where
  "front_coded anchor t =
     (let prefix_len = of_nat (common_prefix anchor t) :: u16;
          suffix = drop (unat prefix_len) t
      in u16_le prefix_len @ u16_le (of_nat (length suffix)) @ suffix)"

definition block_bytes :: "bytes list \<Rightarrow> bytes" where
  "block_bytes block =
     len_le (length (hd block)) @ hd block @ u16_le (of_nat (length block)) @
     concat (map (front_coded (hd block)) (tl block))"

definition lex_blocks :: "nat \<Rightarrow> bytes list \<Rightarrow> bytes list list" where
  "lex_blocks block_size terms =
     map (\<lambda>i. take block_size (drop (i * block_size) terms)) [0..<(length terms + block_size - 1) div block_size]"

text \<open>The block table: the offsets in the block data and the numbers of the first terms.\<close>

primrec block_table :: "nat \<Rightarrow> nat \<Rightarrow> bytes list list \<Rightarrow> BlockTableEntry list" where
  "block_table block_off first_term_id [] = []"
| "block_table block_off first_term_id (block # blocks) =
     \<lparr>bt_block_off = of_nat block_off, bt_first_term_id = of_nat first_term_id, bt_entry_count = of_nat (length block)\<rparr> #
     block_table (block_off + length (block_bytes block)) (first_term_id + length block) blocks"

text \<open>The result and the files. The file is emptied first; a block size of 0 is a division by zero.\<close>

definition lex_write_to_file :: "Lexicon \<Rightarrow> string \<Rightarrow> cas_files \<Rightarrow> unit ix \<times> cas_files" where
  "lex_write_to_file lx path fs =
     (if lx_block_size lx = 0 then (Panic, AList.update path [] fs)
      else
        (let sorted_terms = sort (lx_terms lx);
             blocks = lex_blocks (lx_block_size lx) sorted_terms;
             block_count = length blocks;
             header = (lex_header_new (of_nat (lx_block_size lx)))\<lparr>
               xh_term_count := of_nat (length sorted_terms), xh_block_count := of_nat block_count,
               xh_off_block_table := of_nat LEX_HEADER_SIZE,
               xh_off_blocks := of_nat (LEX_HEADER_SIZE + block_count * BLOCK_ENTRY_SIZE)\<rparr>
         in (Ok (), AList.update path
               (snd (lex_header_write_to_bytes header (replicate LEX_HEADER_SIZE 0)) @
                concat (map (\<lambda>e. snd (block_entry_write_to_bytes e (replicate BLOCK_ENTRY_SIZE 0))) (block_table 0 0 blocks)) @
                concat (map block_bytes blocks)) fs)))"

text \<open>The entries of a block, from what is left of the data. A prefix that ends inside a character panics.\<close>

primrec read_entries :: "nat \<Rightarrow> bytes \<Rightarrow> bytes \<Rightarrow> Lexicon \<Rightarrow> Lexicon ix" where
  "read_entries 0 anchor rest lx = Ok lx"
| "read_entries (Suc n) anchor rest lx =
     (if length rest < 4 then Err (IxCorruptData ''Truncated entry header'')
      else
        (let prefix_len = unat (u16_at 0 rest);
             suffix_len = unat (u16_at 2 rest);
             rest = drop 4 rest
         in if length rest < suffix_len then Err (IxCorruptData ''Truncated suffix'')
            else
              (let suffix = utf8_lossy (take suffix_len rest) in
               bind_res (if prefix_len \<le> length anchor
                         then if is_char_boundary anchor prefix_len then Ok (take prefix_len anchor) else Panic
                         else Ok anchor) (\<lambda>prefix.
                 read_entries n anchor (drop suffix_len rest) (snd (lex_add (prefix @ suffix) lx))))))"

definition read_block :: "bytes \<Rightarrow> BlockTableEntry \<Rightarrow> Lexicon \<Rightarrow> Lexicon ix" where
  "read_block blocks_data e lx =
     (let offset = bt_block_off e in
      if unat (offset + 4) > length blocks_data then Err (IxCorruptData ''Truncated anchor length'')
      else if unat offset + 4 > length blocks_data then Panic
      else
        (let rest = drop (unat offset) blocks_data;
             anchor_len = unat (u32_at 0 rest);
             rest = drop 4 rest
         in if length rest < anchor_len then Err (IxCorruptData ''Truncated anchor data'')
            else
              (let anchor = utf8_lossy (take anchor_len rest);
                   rest = drop anchor_len rest;
                   lx = snd (lex_add anchor lx)
               in if length rest < 2 then Err (IxCorruptData ''Truncated entry count'')
                  else read_entries (unat (u16_at 0 rest) - 1) anchor (drop 2 rest) lx)))"

primrec read_blocks :: "bytes \<Rightarrow> BlockTableEntry list \<Rightarrow> Lexicon \<Rightarrow> Lexicon ix" where
  "read_blocks blocks_data [] lx = Ok lx"
| "read_blocks blocks_data (e # es) lx = bind_res (read_block blocks_data e lx) (read_blocks blocks_data es)"

primrec read_block_table :: "nat \<Rightarrow> bytes \<Rightarrow> BlockTableEntry list ix" where
  "read_block_table 0 rest = Ok []"
| "read_block_table (Suc n) rest =
     (if length rest < BLOCK_ENTRY_SIZE then Err (IxIo KindUnexpectedEof)
      else
        bind_res (ok_or (block_entry_from_bytes (take BLOCK_ENTRY_SIZE rest))
                    (IxCorruptData ''Invalid block table entry'')) (\<lambda>e.
        bind_res (read_block_table n (drop BLOCK_ENTRY_SIZE rest)) (\<lambda>es. Ok (e # es))))"

text \<open>A position of \<open>2 ^ 63\<close> or more is refused by the file system, a length as large by the allocator.\<close>

definition lex_read_from_file :: "string \<Rightarrow> cas_files \<Rightarrow> Lexicon ix" where
  "lex_read_from_file path fs =
     (case map_of fs path of
        None \<Rightarrow> Err (IxIo KindNotFound)
      | Some file \<Rightarrow>
          if length file < LEX_HEADER_SIZE then Err (IxFileTooSmall LEX_HEADER_SIZE (length file))
          else
            bind_res (lex_header_from_bytes (take LEX_HEADER_SIZE file)) (\<lambda>header.
            bind_res (if xh_block_count header = 0 then Ok []
                      else if unat (xh_off_block_table header) \<ge> 2 ^ 63 then Err (IxIo (KindOther ''Invalid argument''))
                      else read_block_table (unat (xh_block_count header))
                             (drop (unat (xh_off_block_table header)) file)) (\<lambda>table.
            if unat (of_nat (length file) - xh_off_blocks header) \<ge> 2 ^ 63 then Panic
            else if unat (xh_off_blocks header) \<ge> 2 ^ 63 then Err (IxIo (KindOther ''Invalid argument''))
            else
              bind_res (read_blocks (drop (unat (xh_off_blocks header)) file) table
                          (lex_with_block_size (unat (xh_block_size header)))) (\<lambda>lx.
                Ok (lx\<lparr>lx_term_to_id := number_terms (lx_terms lx)\<rparr>)))))"

section \<open>Terms and their numbers\<close>

definition lex_ok :: "Lexicon \<Rightarrow> bool" where
  "lex_ok lx \<longleftrightarrow> distinct (lx_terms lx) \<and> length (lx_terms lx) < 2 ^ 32 \<and>
     (\<forall>t i. map_of (lx_term_to_id lx) t = Some i \<longleftrightarrow> unat i < length (lx_terms lx) \<and> lx_terms lx ! unat i = t)"

lemma lex_ok_new [simp]: "lex_ok (lex_with_block_size n)"
  by (simp add: lex_ok_def lex_with_block_size_def)

lemma lex_find_None: "lex_ok lx \<Longrightarrow> map_of (lx_term_to_id lx) t = None \<longleftrightarrow> t \<notin> set (lx_terms lx)"
proof -
  assume ok: "lex_ok lx"
  have "(\<exists>i. map_of (lx_term_to_id lx) t = Some i) \<longleftrightarrow> t \<in> set (lx_terms lx)"
  proof
    assume "t \<in> set (lx_terms lx)"
    then obtain k where k: "k < length (lx_terms lx)" "lx_terms lx ! k = t" by (auto simp: in_set_conv_nth)
    with ok have "unat (of_nat k :: u32) = k" by (intro unat_of_nat_u32) (simp add: lex_ok_def)
    with ok k show "\<exists>i. map_of (lx_term_to_id lx) t = Some i"
      by (intro exI [of _ "of_nat k"]) (simp add: lex_ok_def)
  qed (use ok in \<open>auto simp: lex_ok_def\<close>)
  then show ?thesis by auto
qed

lemma lex_add_known:
  "lex_ok lx \<Longrightarrow> t \<in> set (lx_terms lx) \<Longrightarrow>
   lex_add t lx = (the (map_of (lx_term_to_id lx) t), lx) \<and> map_of (lx_term_to_id lx) t \<noteq> None"
  using lex_find_None [of lx t] by (auto simp: lex_add_def split: option.splits)

lemma lex_add_fresh:
  "lex_ok lx \<Longrightarrow> t \<notin> set (lx_terms lx) \<Longrightarrow>
   lex_add t lx = (of_nat (length (lx_terms lx)),
     lx\<lparr>lx_term_to_id := AList.update t (of_nat (length (lx_terms lx))) (lx_term_to_id lx), lx_terms := lx_terms lx @ [t]\<rparr>)"
  using lex_find_None [of lx t] by (auto simp: lex_add_def Let_def)

lemma lex_add_ok:
  assumes ok: "lex_ok lx" and n: "Suc (length (lx_terms lx)) < 2 ^ 32"
  shows "lex_ok (snd (lex_add t lx))"
proof (cases "t \<in> set (lx_terms lx)")
  case True
  with lex_add_known [OF ok] ok show ?thesis by simp
next
  case False
  let ?n = "length (lx_terms lx)"
  have u: "unat (of_nat ?n :: u32) = ?n" using n by (intro unat_of_nat_u32) simp
  have i: "i = of_nat ?n \<longleftrightarrow> unat i = ?n" for i :: u32 using u by (metis of_nat_unat ucast_id)
  then have i': "of_nat ?n = i \<longleftrightarrow> unat i = ?n" for i :: u32 by metis
  have "map_of (AList.update t (of_nat ?n) (lx_term_to_id lx)) t' = Some i \<longleftrightarrow>
      unat i < Suc ?n \<and> (lx_terms lx @ [t]) ! unat i = t'" for t' i
    using ok False by (auto simp: lex_ok_def i i' nth_append less_Suc_eq)
  with False ok n show ?thesis by (auto simp: lex_add_fresh [OF ok False] lex_ok_def simp del: map_of_update_alist)
qed

text \<open>Adding new terms one after the other.\<close>

lemma fold_lex_add:
  assumes "lex_ok lx" "distinct (lx_terms lx @ ts)" "length (lx_terms lx) + length ts < 2 ^ 32"
  shows "lx_terms (fold (\<lambda>t lx. snd (lex_add t lx)) ts lx) = lx_terms lx @ ts \<and>
    lx_block_size (fold (\<lambda>t lx. snd (lex_add t lx)) ts lx) = lx_block_size lx \<and>
    lex_ok (fold (\<lambda>t lx. snd (lex_add t lx)) ts lx)"
  using assms
proof (induction ts arbitrary: lx)
  case (Cons t ts)
  have "t \<notin> set (lx_terms lx)" using Cons.prems(2) by auto
  note a = lex_add_fresh [OF Cons.prems(1) this]
  have "lex_ok (snd (lex_add t lx))" using Cons.prems by (intro lex_add_ok) simp_all
  with Cons.IH [of "snd (lex_add t lx)"] Cons.prems show ?case by (simp add: a)
qed simp

lemma fst_numbered [simp]: "map fst (map (\<lambda>(i, t). (t, f i)) (enumerate 0 ts)) = ts"
  using map_snd_enumerate [of 0 ts] by (simp add: o_def split_def)

lemma number_terms_eq: "distinct ts \<Longrightarrow> number_terms ts = map (\<lambda>(i, t). (t, of_nat i)) (enumerate 0 ts)"
proof -
  assume d: "distinct ts"
  let ?es = "map (\<lambda>(i, t). (t, of_nat i :: u32)) (enumerate 0 ts)"
  from d have "fold (\<lambda>(k, v) m. AList.update k v m) ?es [] = ?es" by (intro fold_update_id) (simp only: fst_numbered)
  then show ?thesis by (simp add: number_terms_def fold_map o_def split_def)
qed

lemma number_terms_nth:
  "distinct ts \<Longrightarrow> length (number_terms ts) = length ts"
  "distinct ts \<Longrightarrow> k < length ts \<Longrightarrow> number_terms ts ! k = (ts ! k, of_nat k)"
  by (simp_all add: number_terms_eq nth_enumerate_eq)

lemma map_of_number_terms:
  assumes "distinct ts" "length ts < 2 ^ 32"
  shows "map_of (number_terms ts) t = Some i \<longleftrightarrow> unat i < length ts \<and> ts ! unat i = t"
proof -
  have "map_of (number_terms ts) t = Some i \<longleftrightarrow> (t, i) \<in> set (number_terms ts)"
    using assms by (intro map_of_eq_Some_iff) (simp only: number_terms_eq fst_numbered)
  also have "\<dots> \<longleftrightarrow> (\<exists>k < length ts. ts ! k = t \<and> i = of_nat k)"
    using assms(1) by (auto simp: in_set_conv_nth number_terms_nth)
  also have "\<dots> \<longleftrightarrow> unat i < length ts \<and> ts ! unat i = t"
  proof
    assume "\<exists>k < length ts. ts ! k = t \<and> i = of_nat k"
    then obtain k where k: "k < length ts" "ts ! k = t" "i = of_nat k" by blast
    with assms(2) have "unat i = k" using unat_of_nat_u32 [of k] by simp
    with k show "unat i < length ts \<and> ts ! unat i = t" by simp
  next
    assume "unat i < length ts \<and> ts ! unat i = t"
    then show "\<exists>k < length ts. ts ! k = t \<and> i = of_nat k" by (intro exI [of _ "unat i"]) simp
  qed
  finally show ?thesis .
qed

lemma lex_sort_terms_ok: "lex_ok lx \<Longrightarrow> lex_ok (lex_sort_terms lx)"
  by (simp add: lex_ok_def lex_sort_terms_def Let_def map_of_number_terms)

section \<open>Characters\<close>

text \<open>The first byte of a character tells its length.\<close>

definition char_len :: "u8 \<Rightarrow> nat" where
  "char_len b = (if b < 0x80 then 1 else if 0xC2 \<le> b \<and> b \<le> 0xDF then 2 else if 0xE0 \<le> b \<and> b \<le> 0xEF then 3 else 4)"

fun char_ok :: "bytes \<Rightarrow> bool" where
  "char_ok [b] \<longleftrightarrow> b < 0x80"
| "char_ok [b, c] \<longleftrightarrow> 0xC2 \<le> b \<and> b \<le> 0xDF \<and> utf8_cont c"
| "char_ok [b, c, d] \<longleftrightarrow> 0xE0 \<le> b \<and> b \<le> 0xEF \<and> utf8_second b c \<and> utf8_cont d"
| "char_ok [b, c, d, e] \<longleftrightarrow> 0xF0 \<le> b \<and> b \<le> 0xF4 \<and> utf8_second b c \<and> utf8_cont d \<and> utf8_cont e"
| "char_ok s \<longleftrightarrow> False"

lemma word_order_u8: "x \<le> y \<longleftrightarrow> unat x \<le> unat y" "x < y \<longleftrightarrow> unat x < unat y" for x y :: u8
  by (simp_all add: word_le_nat_alt word_less_nat_alt)

lemma utf8_valid_Cons:
  "utf8_valid (b # bs) \<longleftrightarrow>
     char_ok (take (char_len b) (b # bs)) \<and> utf8_valid (drop (char_len b) (b # bs))"
proof -
  have d: "\<not> (0xC2 \<le> b \<and> b \<le> 0xDF)" if "b < 0x80" using that by (simp add: word_order_u8)
  have e: "\<not> b < 0x80" "\<not> (0xC2 \<le> b \<and> b \<le> 0xDF)" if "0xE0 \<le> b \<and> b \<le> 0xEF" using that by (simp_all add: word_order_u8)
  have f: "\<not> b < 0x80" "\<not> (0xC2 \<le> b \<and> b \<le> 0xDF)" "\<not> (0xE0 \<le> b \<and> b \<le> 0xEF)" if "0xF0 \<le> b \<and> b \<le> 0xF4"
    using that by (simp_all add: word_order_u8)
  consider "b < 0x80" | "\<not> b < 0x80" "0xC2 \<le> b \<and> b \<le> 0xDF"
    | "\<not> b < 0x80" "\<not> (0xC2 \<le> b \<and> b \<le> 0xDF)" "0xE0 \<le> b \<and> b \<le> 0xEF"
    | "\<not> b < 0x80" "\<not> (0xC2 \<le> b \<and> b \<le> 0xDF)" "\<not> (0xE0 \<le> b \<and> b \<le> 0xEF)" by blast
  then show ?thesis
  proof cases
    case 1
    then show ?thesis by (simp add: utf8_valid.simps(2) char_len_def)
  next
    case 2
    then show ?thesis by (cases bs) (simp_all add: utf8_valid.simps(2) char_len_def numeral_eq_Suc)
  next
    case 3
    then show ?thesis
      by (cases bs; cases "tl bs") (simp_all only: utf8_valid.simps(2) [of b] char_len_def if_True if_False list.case,
        auto simp: numeral_eq_Suc)
  next
    case 4
    then show ?thesis
      by (cases bs; cases "tl bs"; cases "tl (tl bs)")
        (simp_all only: utf8_valid.simps(2) [of b] char_len_def if_True if_False list.case, auto simp: numeral_eq_Suc)
  qed
qed

lemma second_cont: "utf8_second b c \<Longrightarrow> utf8_cont c"
  by (auto simp: utf8_second_def utf8_cont_def word_order_u8 split: if_splits)

lemma char_len_pos: "0 < char_len b"
  by (simp add: char_len_def)

lemma char_ok_cont: "char_ok c \<Longrightarrow> 0 < j \<Longrightarrow> j < length c \<Longrightarrow> utf8_cont (c ! j)"
  by (cases c rule: char_ok.cases) (auto simp: less_Suc_eq nth_Cons' dest: second_cont)

lemma char_ok_length: "char_ok c \<Longrightarrow> length c = char_len (hd c)"
  by (cases c rule: char_ok.cases) (auto simp: char_len_def word_order_u8)

lemma char_ok_take: "char_ok (take (char_len b) (b # bs)) \<Longrightarrow> char_len b \<le> length (b # bs)"
  using char_ok_length [of "take (char_len b) (b # bs)"] char_len_pos [of b] by (simp add: hd_take)

lemma utf8_valid_suffix: "utf8_valid (p @ q) \<Longrightarrow> utf8_valid p \<Longrightarrow> utf8_valid q"
proof (induction "length p" arbitrary: p rule: less_induct)
  case less
  show ?case
  proof (cases p)
    case Nil
    with less.prems show ?thesis by simp
  next
    case (Cons b bs)
    let ?n = "char_len b"
    from less.prems(2) Cons have p: "char_ok (take ?n p)" "utf8_valid (drop ?n p)" by (simp_all add: utf8_valid_Cons)
    with Cons have n: "?n \<le> length p" using char_ok_take [of b bs] by simp
    from less.prems(1) Cons have "utf8_valid (drop ?n (p @ q))" by (simp add: utf8_valid_Cons del: drop_append)
    with n have "utf8_valid (drop ?n p @ q)" by simp
    with less.hyps [of "drop ?n p"] p(2) Cons char_len_pos [of b] show ?thesis by simp
  qed
qed

lemma utf8_valid_prefix: "utf8_valid s \<Longrightarrow> is_char_boundary s k \<Longrightarrow> utf8_valid (take k s)"
proof (induction "length s" arbitrary: s k rule: less_induct)
  case less
  show ?case
  proof (cases s)
    case (Cons b bs)
    let ?n = "char_len b"
    from less.prems(1) Cons have s: "char_ok (take ?n s)" "utf8_valid (drop ?n s)" by (simp_all add: utf8_valid_Cons)
    with Cons have n: "?n \<le> length s" using char_ok_take [of b bs] by simp
    show ?thesis
    proof (cases "k < ?n")
      case True
      have "k = 0"
        using less.prems(2) char_ok_cont [OF s(1), of k] True n by (auto simp: is_char_boundary_def)
      then show ?thesis by simp
    next
      case False
      then have k: "take k s = take ?n s @ take (k - ?n) (drop ?n s)" using take_add [of ?n "k - ?n" s] by simp
      have "is_char_boundary (drop ?n s) (k - ?n)" using less.prems(2) False n by (auto simp: is_char_boundary_def)
      then have v: "utf8_valid (take (k - ?n) (drop ?n s))"
        using less.hyps [of "drop ?n s"] s(2) Cons char_len_pos [of b] by simp
      from False char_len_pos [of b] Cons have c: "take k s = b # tl (take k s)" by (cases k) simp_all
      have "take ?n (take k s) = take ?n s" "drop ?n (take k s) = take (k - ?n) (drop ?n s)"
        using False by (simp_all add: min_def drop_take)
      with s(1) v c show ?thesis by (metis utf8_valid_Cons)
    qed
  qed simp
qed

section \<open>The file\<close>

lemma length_block_memory [simp]: "length (block_entry_memory e) = 16" "length (lex_header_memory h) = 48"
  by (simp_all add: block_entry_memory_def lex_header_memory_def)

lemma block_write_facts [simp]:
  "snd (block_entry_write_to_bytes e (replicate BLOCK_ENTRY_SIZE 0)) = block_entry_memory e"
  "snd (lex_header_write_to_bytes h (replicate LEX_HEADER_SIZE 0)) = lex_header_memory h"
  by (simp_all add: block_entry_write_to_bytes_def lex_header_write_to_bytes_def BLOCK_ENTRY_SIZE_def LEX_HEADER_SIZE_def)

lemma common_prefix_Nil [simp]: "common_prefix [] t = 0" "common_prefix a [] = 0"
  by (simp_all add: common_prefix_def)

lemma common_prefix_Cons [simp]: "common_prefix (x # a) (y # t) = (if x = y then Suc (common_prefix a t) else 0)"
  by (simp add: common_prefix_def)

lemma common_prefix_take: "take (common_prefix a t) a = take (common_prefix a t) t"
proof (induction a arbitrary: t)
  case (Cons x a)
  then show ?case by (cases t) auto
qed simp

lemma common_prefix_le: "common_prefix a t \<le> length a" "common_prefix a t \<le> length t"
proof -
  have "common_prefix a t \<le> length (zip a t)" unfolding common_prefix_def by (rule length_takeWhile_le)
  then show "common_prefix a t \<le> length a" "common_prefix a t \<le> length t" by simp_all
qed

text \<open>A term that can be stored, and a block whose shared prefixes end between characters.\<close>

definition term_ok :: "bytes \<Rightarrow> bool" where
  "term_ok t \<longleftrightarrow> utf8_valid t \<and> length t < 2 ^ 16"

definition block_safe :: "bytes list \<Rightarrow> bool" where
  "block_safe block \<longleftrightarrow> (\<forall>t\<in>set (tl block). is_char_boundary (hd block) (common_prefix (hd block) t))"

lemma unat_of_nat_u16: "n < 2 ^ 16 \<Longrightarrow> unat (of_nat n :: u16) = n"
  by (simp add: unat_of_nat)

lemma front_coded_eq:
  assumes "term_ok t"
  shows "front_coded a t = u16_le (of_nat (common_prefix a t)) @ u16_le (of_nat (length (drop (common_prefix a t) t))) @
    drop (common_prefix a t) t"
proof -
  have "common_prefix a t < 2 ^ 16" using common_prefix_le(2) [of a t] assms by (simp add: term_ok_def)
  then show ?thesis by (simp add: front_coded_def Let_def unat_of_nat_u16)
qed

lemma read_entries_eq:
  assumes "term_ok a" "\<forall>t\<in>set ts. term_ok t"
  shows "read_entries (length ts) a (concat (map (front_coded a) ts) @ rest) lx =
    (if \<forall>t\<in>set ts. is_char_boundary a (common_prefix a t) then Ok (fold (\<lambda>t lx. snd (lex_add t lx)) ts lx) else Panic)"
  using assms(2)
proof (induction ts arbitrary: lx)
  case (Cons t ts)
  let ?k = "common_prefix a t"
  have t: "term_ok t" using Cons.prems by simp
  define sf where "sf = drop ?k t"
  have k: "unat (of_nat ?k :: u16) = ?k" "unat (of_nat (length sf) :: u16) = length sf"
  proof -
    have "length sf < 2 ^ 16" "?k < 2 ^ 16" using common_prefix_le(2) [of a t] t
      by (simp_all add: term_ok_def sf_def less_imp_diff_less)
    then show "unat (of_nat ?k :: u16) = ?k" "unat (of_nat (length sf) :: u16) = length sf"
      by (simp_all only: unat_of_nat_u16)
  qed
  have suffix: "utf8_lossy (drop ?k t) = drop ?k t" if "is_char_boundary a ?k"
  proof -
    have "utf8_valid (take ?k t)" using utf8_valid_prefix [OF _ that] assms(1) common_prefix_take [of a t] by (simp add: term_ok_def)
    then have "utf8_valid (drop ?k t)" using utf8_valid_suffix [of "take ?k t" "drop ?k t"] t by (simp add: term_ok_def)
    then show ?thesis by (rule utf8_lossy_valid)
  qed
  have whole: "take ?k a @ sf = t" unfolding sf_def by (metis common_prefix_take append_take_drop_id)
  have "read_entries (length ts) a (concat (map (front_coded a) ts) @ rest) (snd (lex_add t lx)) =
    (if \<forall>t\<in>set ts. is_char_boundary a (common_prefix a t)
     then Ok (fold (\<lambda>t lx. snd (lex_add t lx)) ts (snd (lex_add t lx))) else Panic)"
    using Cons.prems by (intro Cons.IH) simp
  then show ?case
    using common_prefix_le(1) [of a t] suffix [folded sf_def] whole
    by (cases "is_char_boundary a ?k") (simp_all add: front_coded_eq [OF t, of a, folded sf_def] k Let_def)
qed simp

lemma read_block_eq:
  assumes "data = pre @ block_bytes block @ post" "length data < 2 ^ 63" "block \<noteq> []" "length block < 2 ^ 16"
    and "\<forall>t\<in>set block. term_ok t" "bt_block_off e = of_nat (length pre)"
  shows "read_block data e lx = (if block_safe block then Ok (fold (\<lambda>t lx. snd (lex_add t lx)) block lx) else Panic)"
proof -
  obtain a ts where b: "block = a # ts" using assms(3) by (cases block) auto
  define r where "r = concat (map (front_coded a) ts) @ post"
  have d: "drop (length pre) data = len_le (length a) @ a @ u16_le (of_nat (Suc (length ts))) @ r"
    by (simp add: assms(1) b block_bytes_def r_def)
  have l: "length pre + 4 \<le> length data" using arg_cong [OF assms(1), of length] by (simp add: b block_bytes_def)
  have u: "unat (of_nat (length pre) :: u64) = length pre" "unat (of_nat (length pre) + 4 :: u64) = length pre + 4"
    using assms(2) l unat_of_nat_u64 [of "length pre"] unat_of_nat_u64 [of "length pre + 4"] by simp_all
  have a: "utf8_lossy a = a" "unat (of_nat (length a) :: u32) = length a"
    using assms(5) by (simp_all add: b term_ok_def utf8_lossy_valid unat_of_nat_u32)
  have n: "unat (of_nat (Suc (length ts)) :: u16) - Suc 0 = length ts"
    using assms(4) unat_of_nat_u16 [of "Suc (length ts)"] b by simp
  have "read_entries (length ts) a r lx' =
      (if \<forall>t\<in>set ts. is_char_boundary a (common_prefix a t) then Ok (fold (\<lambda>t lx. snd (lex_add t lx)) ts lx') else Panic)" for lx'
    unfolding r_def by (rule read_entries_eq) (use assms(5) b in auto)
  with l show ?thesis
    by (simp add: read_block_def Let_def assms(6) u d len_le_def a n block_safe_def b del: of_nat_Suc)
qed

lemma read_blocks_eq:
  assumes "length (pre @ concat (map block_bytes blocks)) < 2 ^ 63"
    and "\<forall>block\<in>set blocks. block \<noteq> [] \<and> length block < 2 ^ 16 \<and> (\<forall>t\<in>set block. term_ok t)"
  shows "read_blocks (pre @ concat (map block_bytes blocks)) (block_table (length pre) n blocks) lx =
    (if \<forall>block\<in>set blocks. block_safe block then Ok (fold (\<lambda>t lx. snd (lex_add t lx)) (concat blocks) lx) else Panic)"
  using assms
proof (induction blocks arbitrary: pre n lx)
  case (Cons block blocks)
  let ?data = "pre @ concat (map block_bytes (block # blocks))"
  have 1: "read_block ?data (hd (block_table (length pre) n (block # blocks))) lx =
      (if block_safe block then Ok (fold (\<lambda>t lx. snd (lex_add t lx)) block lx) else Panic)"
    using Cons.prems by (intro read_block_eq [of _ pre _ "concat (map block_bytes blocks)"]) auto
  have "read_blocks ((pre @ block_bytes block) @ concat (map block_bytes blocks))
      (block_table (length (pre @ block_bytes block)) (n + length block) blocks) lx' =
      (if \<forall>block\<in>set blocks. block_safe block then Ok (fold (\<lambda>t lx. snd (lex_add t lx)) (concat blocks) lx') else Panic)" for lx'
    using Cons.prems by (intro Cons.IH) auto
  with 1 show ?case by simp
qed simp

lemma read_block_table_eq: "read_block_table (length es) (concat (map block_entry_memory es) @ rest) = Ok es"
proof (induction es)
  case (Cons e es)
  have "block_entry_from_bytes (block_entry_memory e) = Some e"
    by (simp add: block_entry_from_bytes_def block_entry_memory_def BLOCK_ENTRY_SIZE_def)
  with Cons show ?case by (simp add: BLOCK_ENTRY_SIZE_def)
qed simp

lemma concat_lex_blocks:
  assumes "0 < k" shows "concat (lex_blocks k xs) = xs"
proof -
  have "concat (map (\<lambda>i. take k (drop (i * k) xs)) [0..<n]) = take (n * k) xs" for n
  proof (induction n)
    case (Suc n)
    have "Suc n * k = n * k + k" by simp
    with Suc show ?case by (simp only: take_add) simp
  qed simp
  moreover have "length xs \<le> (length xs + k - 1) div k * k"
  proof -
    have "(length xs + k - 1) div k * k = length xs + k - 1 - (length xs + k - 1) mod k" by (simp add: minus_mod_eq_div_mult)
    moreover have "(length xs + k - 1) mod k \<le> k - 1" using assms mod_less_divisor [of k "length xs + k - 1"] by linarith
    ultimately show ?thesis using assms by linarith
  qed
  ultimately show ?thesis by (simp add: lex_blocks_def)
qed

lemma lex_blocks_facts:
  assumes "block \<in> set (lex_blocks k xs)" "0 < k"
  shows "block \<noteq> []" "length block \<le> k" "set block \<subseteq> set xs"
proof -
  from assms(1) obtain i where i: "i < (length xs + k - 1) div k" "block = take k (drop (i * k) xs)"
    by (auto simp: lex_blocks_def)
  then have "Suc i * k \<le> length xs + k - 1" using less_eq_div_iff_mult_less_eq [OF assms(2), of "Suc i" "length xs + k - 1"] by simp
  then have "i * k < length xs" using assms(2) by simp
  with i(2) assms(2) show "block \<noteq> []" by simp
  show "length block \<le> k" "set block \<subseteq> set xs" by (auto simp: i(2) dest: in_set_takeD in_set_dropD)
qed

lemma length_block_bytes:
  assumes "block \<noteq> []" "\<forall>t\<in>set block. term_ok t" shows "length (block_bytes block) \<le> length block * (2 ^ 16 + 8)"
proof -
  obtain a ts where b: "block = a # ts" using assms(1) by (cases block) auto
  have "length (front_coded a t) \<le> 2 ^ 16 + 8" if "t \<in> set ts" for t
    using that assms(2) by (auto simp: b term_ok_def front_coded_def Let_def)
  then have "sum_list (map (\<lambda>t. length (front_coded a t)) ts) \<le> length ts * (2 ^ 16 + 8)" by (rule sum_list_bound)
  moreover have "length a < 2 ^ 16" using assms(2) by (simp add: b term_ok_def)
  ultimately show ?thesis by (simp add: block_bytes_def b length_concat o_def)
qed

lemma length_lex_blocks: "0 < k \<Longrightarrow> length (lex_blocks k xs) \<le> length xs"
proof -
  assume k: "0 < k"
  have "sum_list (map (\<lambda>b. 1) (lex_blocks k xs)) \<le> sum_list (map length (lex_blocks k xs))"
    using lex_blocks_facts(1) [OF _ k] by (intro sum_list_mono) (simp add: Suc_le_eq)
  also have "\<dots> = length xs" using concat_lex_blocks [OF k, of xs] by (metis length_concat)
  finally show ?thesis by (simp add: sum_list_triv)
qed

lemma lex_data_small:
  assumes k: "0 < k" and n: "length xs < 2 ^ 32" and ok: "\<forall>t\<in>set xs. term_ok t"
  shows "length (concat (map block_bytes (lex_blocks k xs))) < 2 ^ 60"
proof -
  have "length (block_bytes b) \<le> length b * (2 ^ 16 + 8)" if "b \<in> set (lex_blocks k xs)" for b
    using lex_blocks_facts [OF that k] ok by (intro length_block_bytes) auto
  then have "sum_list (map (\<lambda>b. length (block_bytes b)) (lex_blocks k xs)) \<le>
      sum_list (map (\<lambda>b. length b * (2 ^ 16 + 8)) (lex_blocks k xs))" by (rule sum_list_mono)
  also have "\<dots> = length (concat (lex_blocks k xs)) * (2 ^ 16 + 8)" by (simp add: length_concat sum_list_mult_const)
  also have "\<dots> < 2 ^ 60" using n by (simp add: concat_lex_blocks [OF k])
  finally show ?thesis by (simp add: length_concat o_def)
qed

lemma length_block_table [simp]: "length (block_table off n blocks) = length blocks"
  by (induction blocks arbitrary: off n) simp_all

text \<open>
  Reading the file of a lexicon gives the terms in sorted order, numbered by their place, provided that in
  no block the prefix that a term shares with the first term ends inside a character; otherwise it panics.\<close>

theorem lex_file_reload:
  assumes ok: "lex_ok lx" and terms: "\<forall>t\<in>set (lx_terms lx). term_ok t" and k: "0 < lx_block_size lx" "lx_block_size lx < 2 ^ 16"
  shows "\<exists>fs'. lex_write_to_file lx path fs = (Ok (), fs') \<and>
    lex_read_from_file path fs' =
      (if \<forall>block\<in>set (lex_blocks (lx_block_size lx) (sort (lx_terms lx))). block_safe block
       then Ok (lex_sort_terms lx) else Panic)"
proof -
  let ?ts = "sort (lx_terms lx)"
  let ?blocks = "lex_blocks (lx_block_size lx) ?ts"
  let ?table = "block_table 0 0 ?blocks" and ?data = "concat (map block_bytes ?blocks)"
  define new where "new = lex_with_block_size (lx_block_size lx)"
  define boff :: u64 where "boff = of_nat (LEX_HEADER_SIZE + length ?blocks * BLOCK_ENTRY_SIZE)"
  define cnt :: u32 where "cnt = of_nat (length ?blocks)"
  let ?h = "(lex_header_new (of_nat (lx_block_size lx)))\<lparr>xh_term_count := of_nat (length ?ts),
     xh_block_count := cnt, xh_off_block_table := of_nat LEX_HEADER_SIZE, xh_off_blocks := boff\<rparr>"
  define tb where "tb = concat (map block_entry_memory ?table)"
  have n: "length ?ts < 2 ^ 32" using ok by (simp add: lex_ok_def)
  have nb: "length ?blocks < 2 ^ 32" using length_lex_blocks [OF k(1), of ?ts] n by simp
  have ub: "unat cnt = length ?blocks" unfolding cnt_def by (rule unat_of_nat_u32 [OF nb])
  have small: "length ?data < 2 ^ 60" using terms by (intro lex_data_small [OF k(1) n]) simp
  have ltb: "length tb = length ?blocks * 16" by (simp add: tb_def length_concat o_def sum_list_triv)
  have blocks: "read_blocks ?data ?table new =
      (if \<forall>block\<in>set ?blocks. block_safe block then Ok (fold (\<lambda>t lx. snd (lex_add t lx)) ?ts new) else Panic)"
  proof -
    have "\<forall>block\<in>set ?blocks. block \<noteq> [] \<and> length block < 2 ^ 16 \<and> (\<forall>t\<in>set block. term_ok t)"
    proof
      fix block assume b: "block \<in> set ?blocks"
      from lex_blocks_facts [OF b k(1)] terms k(2)
      show "block \<noteq> [] \<and> length block < 2 ^ 16 \<and> (\<forall>t\<in>set block. term_ok t)" by auto
    qed
    with read_blocks_eq [of "[]" ?blocks 0 new] small show ?thesis by (simp add: concat_lex_blocks [OF k(1)])
  qed
  have added: "lx_terms (fold (\<lambda>t lx. snd (lex_add t lx)) ?ts new) = ?ts"
    "lx_block_size (fold (\<lambda>t lx. snd (lex_add t lx)) ?ts new) = lx_block_size lx"
    using fold_lex_add [of new ?ts] ok n by (simp_all add: new_def lex_with_block_size_def lex_ok_def)
  define img where "img = lex_header_memory ?h @ tb @ ?data"
  have wr: "lex_write_to_file lx path fs = (Ok (), AList.update path img fs)"
    using k(1) by (simp add: lex_write_to_file_def Let_def tb_def img_def boff_def cnt_def)
  have header: "lex_header_from_bytes (take LEX_HEADER_SIZE img) = Ok ?h"
    by (simp add: img_def lex_header_from_bytes_def lex_header_memory_def lex_header_new_def LEX_HEADER_SIZE_def)
  have fields: "xh_block_count ?h = cnt" "xh_off_blocks ?h = boff" "unat (xh_off_block_table ?h) = 48"
    "xh_block_size ?h = of_nat (lx_block_size lx)" by (simp_all add: lex_header_new_def LEX_HEADER_SIZE_def)
  have bs: "unat (of_nat (lx_block_size lx) :: u32) = lx_block_size lx" using k(2) by (simp add: unat_of_nat_u32)
  have lf: "length img = 48 + length ?blocks * 16 + length ?data" by (simp add: img_def ltb)
  have boff: "unat boff = 48 + length ?blocks * 16" "unat (of_nat (length img) - boff) = length ?data"
  proof -
    show "unat boff = 48 + length ?blocks * 16" unfolding boff_def
      using nb by (subst unat_of_nat_u64) (simp_all add: LEX_HEADER_SIZE_def BLOCK_ENTRY_SIZE_def)
    have "of_nat (length img) - boff = of_nat (length ?data)"
      unfolding lf boff_def by (simp add: LEX_HEADER_SIZE_def BLOCK_ENTRY_SIZE_def)
    with small show "unat (of_nat (length img) - boff) = length ?data" by (simp add: unat_of_nat_u64)
  qed
  have table: "(if cnt = 0 then Ok [] else if (48::nat) \<ge> 2 ^ 63 then Err (IxIo (KindOther ''Invalid argument''))
      else read_block_table (unat cnt) (drop 48 img)) = Ok ?table"
  proof (cases "cnt = 0")
    case True
    with ub have "length ?blocks = 0" by simp
    with True show ?thesis by simp
  next
    case False
    have "drop 48 img = tb @ ?data" by (simp add: img_def)
    with False read_block_table_eq [of ?table ?data] show ?thesis by (simp add: ub tb_def)
  qed
  have data: "drop (48 + length ?blocks * 16) img = ?data" by (simp add: img_def ltb)
  have found: "map_of (AList.update path img fs) path = Some img" "\<not> length img < LEX_HEADER_SIZE"
    by (simp_all add: lf LEX_HEADER_SIZE_def)
  have room: "\<not> 2 ^ 63 \<le> length ?data" "\<not> 2 ^ 63 \<le> 48 + length ?blocks * 16" using small nb by simp_all
  have "lex_read_from_file path (AList.update path img fs) =
      (if \<forall>block\<in>set ?blocks. block_safe block then Ok (lex_sort_terms lx) else Panic)"
    by (simp only: lex_read_from_file_def found option.case if_False header bind_res.simps fields table boff room data bs
        blocks [unfolded new_def]) (simp add: added [unfolded new_def] lex_sort_terms_def Let_def)
  with wr show ?thesis by blast
qed

lemma two_terms:
  "a \<noteq> b \<Longrightarrow> lx_terms (snd (lex_add b (snd (lex_add a lex_new)))) = [a, b]"
  "lx_block_size (snd (lex_add b (snd (lex_add a lex_new)))) = 128"
  "lex_ok (snd (lex_add b (snd (lex_add a lex_new))))"
proof -
  have ok: "lex_ok lex_new" by (simp add: lex_new_def)
  have l: "lx_terms lex_new = []" "length (lx_terms (snd (lex_add a lex_new))) = 1"
    by (simp_all add: lex_add_def lex_new_def lex_with_block_size_def)
  from lex_add_ok [OF ok, of a] l have "lex_ok (snd (lex_add a lex_new))" by simp
  then show "lex_ok (snd (lex_add b (snd (lex_add a lex_new))))" by (rule lex_add_ok) (simp add: l)
  show "a \<noteq> b \<Longrightarrow> lx_terms (snd (lex_add b (snd (lex_add a lex_new)))) = [a, b]"
    "lx_block_size (snd (lex_add b (snd (lex_add a lex_new)))) = 128"
    by (simp_all add: lex_add_def lex_new_def lex_with_block_size_def DEFAULT_BLOCK_SIZE_def Let_def)
qed

lemma one_block: "lex_blocks 128 [a, b] = [[a, b]]"
  by (simp add: lex_blocks_def)

theorem lex_file_reload_witness:
  "\<exists>fs' lx. lex_write_to_file (snd (lex_add [0x61] (snd (lex_add [0x62] lex_new)))) ''terms.lex'' [] = (Ok (), fs') \<and>
     lex_read_from_file ''terms.lex'' fs' = Ok lx \<and> lx_terms lx = [[0x61], [0x62]] \<and> lex_find [0x62] lx = Some 1"
proof -
  let ?lx = "snd (lex_add [0x61] (snd (lex_add [0x62] lex_new)))"
  have ab: "[0x62] \<noteq> [0x61 :: u8]" by simp
  have sorted: "sort [[0x62], [0x61 :: u8]] = [[0x61], [0x62]]" by (simp add: insort_key.simps)
  have n: "number_terms [[0x61], [0x62]] = [([0x61], 0), ([0x62], 1)]" by (simp add: number_terms_def)
  have t: "term_ok [0x61]" "term_ok [0x62]" by (simp_all add: term_ok_def utf8_valid.simps(2))
  from lex_file_reload [of ?lx "''terms.lex''" "[]"] show ?thesis
    by (auto simp: two_terms(1) [OF ab] two_terms(2,3) t sorted one_block block_safe_def is_char_boundary_def
        lex_sort_terms_def Let_def lex_find_def n)
qed

end
