(* ===== verification/Postings.thy ===== *)
theory Postings
  imports Id_Loc Varint
begin

text \<open>
  The posting lists of \<open>src/index/mod.rs\<close>: for every term the sorted numbers of the nodes that have it,
  their encoding as differences of variable length, the file of all lists, and the older reader of one list.
  The lists are sets: a list stays sorted without repetition, and the file gives back what was written.
\<close>

section \<open>The code\<close>

definition POST_MAGIC :: u32 where "POST_MAGIC = 0x50535431"
definition POST_VERSION :: u16 where "POST_VERSION = 0x0001"
definition POST_HEADER_SIZE :: nat where "POST_HEADER_SIZE = 32"

record PostHeader =
  ph_magic :: u32
  ph_ver :: u16
  ph_flags :: u16
  ph_posting_count :: u64
  ph_total_docs :: u64
  ph_reserved :: u64

definition post_header_new :: PostHeader where
  "post_header_new = \<lparr>ph_magic = POST_MAGIC, ph_ver = POST_VERSION, ph_flags = 0, ph_posting_count = 0,
     ph_total_docs = 0, ph_reserved = 0\<rparr>"

definition post_validate_magic :: "PostHeader \<Rightarrow> bool" where
  "post_validate_magic h \<longleftrightarrow> ph_magic h = POST_MAGIC \<and> ph_ver h = POST_VERSION"

definition post_header_memory :: "PostHeader \<Rightarrow> bytes" where
  "post_header_memory h = u32_le (ph_magic h) @ u16_le (ph_ver h) @ u16_le (ph_flags h) @
     u64_le (ph_posting_count h) @ u64_le (ph_total_docs h) @ u64_le (ph_reserved h)"

definition post_header_from_bytes :: "bytes \<Rightarrow> PostHeader ix" where
  "post_header_from_bytes bs =
     (if length bs < POST_HEADER_SIZE then Err (IxFileTooSmall POST_HEADER_SIZE (length bs))
      else
        (let header = \<lparr>ph_magic = u32_at 0 bs, ph_ver = u16_at 4 bs, ph_flags = u16_at 6 bs,
               ph_posting_count = u64_at 8 bs, ph_total_docs = u64_at 16 bs, ph_reserved = u64_at 24 bs\<rparr>
         in if ph_magic header \<noteq> POST_MAGIC then Err (IxInvalidMagic POST_MAGIC (ph_magic header))
            else if ph_ver header \<noteq> POST_VERSION then Err (IxInvalidVersion POST_VERSION (ph_ver header))
            else Ok header))"

definition post_header_write_to_bytes :: "PostHeader \<Rightarrow> bytes \<Rightarrow> bool \<times> bytes" where
  "post_header_write_to_bytes h bs =
     (if length bs < POST_HEADER_SIZE then (False, bs) else (True, post_header_memory h @ drop POST_HEADER_SIZE bs))"

record Postings =
  ps_postings :: "(u32, u64 list) hmap"
  ps_total_docs :: u64

definition postings_new :: Postings where
  "postings_new = \<lparr>ps_postings = [], ps_total_docs = 0\<rparr>"

text \<open>The binary search of the standard library: where the key is, or where it belongs.\<close>

definition std_search :: "'k::linorder list \<Rightarrow> 'k \<Rightarrow> nat + nat" where
  "std_search ks k =
     (if ks = [] then Inr 0
      else let i = std_search_base ks k 0 (length ks)
           in if ks ! i = k then Inl i else Inr (if ks ! i < k then i + 1 else i))"

definition posting_insert :: "u64 \<Rightarrow> u64 list \<Rightarrow> u64 list" where
  "posting_insert node_num entry =
     (case std_search entry node_num of
        Inl _ \<Rightarrow> entry
      | Inr pos \<Rightarrow> take pos entry @ node_num # drop pos entry)"

definition postings_add :: "u32 \<Rightarrow> u64 \<Rightarrow> Postings \<Rightarrow> Postings" where
  "postings_add term_id node_num p =
     \<lparr>ps_postings = entry_upd [] (posting_insert node_num) term_id (ps_postings p),
      ps_total_docs = max (ps_total_docs p) (node_num + 1)\<rparr>"

definition postings_get :: "u32 \<Rightarrow> Postings \<Rightarrow> u64 list option" where
  "postings_get term_id p = map_of (ps_postings p) term_id"

definition postings_len :: "Postings \<Rightarrow> nat" where
  "postings_len p = length (ps_postings p)"

definition postings_is_empty :: "Postings \<Rightarrow> bool" where
  "postings_is_empty p \<longleftrightarrow> ps_postings p = []"

text \<open>The loops over the numbers; the buffer of the encoder is reused. The rest of the data after
  each difference is in range, as the decoder never takes more than there is.\<close>

primrec encode_delta_loop :: "u64 \<Rightarrow> bytes \<Rightarrow> u64 list \<Rightarrow> (unit, bytes) res" where
  "encode_delta_loop prev buf [] = Ok []"
| "encode_delta_loop prev buf (num # nums) =
     bind_res (encode_varint (num - prev) buf) (\<lambda>(buf, len).
     bind_res (encode_delta_loop num buf nums) (\<lambda>result. Ok (take len buf @ result)))"

definition encode_deltas :: "u64 list \<Rightarrow> (unit, bytes) res" where
  "encode_deltas node_nums =
     (if node_nums = [] then Ok (replicate 4 0)
      else bind_res (encode_delta_loop 0 (replicate 10 0) node_nums) (\<lambda>result.
             Ok (len_le (length node_nums) @ result)))"

primrec decode_delta_loop :: "nat \<Rightarrow> u64 \<Rightarrow> bytes \<Rightarrow> u64 list option" where
  "decode_delta_loop 0 prev data = Some []"
| "decode_delta_loop (Suc n) prev data =
     Option.bind (decode_varint data) (\<lambda>(delta, consumed).
     Option.bind (decode_delta_loop n (prev + delta) (drop consumed data)) (\<lambda>result. Some ((prev + delta) # result)))"

definition decode_deltas :: "bytes \<Rightarrow> u64 list option" where
  "decode_deltas data =
     (if length data < 4 then None
      else decode_delta_loop (unat (le_u32 (take 4 data))) 0 (drop 4 data))"

primrec posting_records :: "(u32 \<times> u64 list) list \<Rightarrow> (unit, bytes) res" where
  "posting_records [] = Ok []"
| "posting_records (e # es) =
     bind_res (encode_deltas (snd e)) (\<lambda>encoded.
     bind_res (posting_records es) (\<lambda>rest.
       Ok (u32_le (fst e) @ len_le (length encoded) @ encoded @ rest)))"

text \<open>The result and the files: the file is there, and empty, when an encoding panics.\<close>

definition postings_write_to_file :: "Postings \<Rightarrow> string \<Rightarrow> cas_files \<Rightarrow> unit ix \<times> cas_files" where
  "postings_write_to_file p path fs =
     (let sorted_postings = sort_key fst (ps_postings p);
          header = post_header_new\<lparr>ph_posting_count := of_nat (length sorted_postings),
                                   ph_total_docs := ps_total_docs p\<rparr>;
          header_buf = snd (post_header_write_to_bytes header (replicate POST_HEADER_SIZE 0))
      in case posting_records sorted_postings of
           Ok records \<Rightarrow> (Ok (), AList.update path (header_buf @ records) fs)
         | _ \<Rightarrow> (Panic, AList.update path header_buf fs))"

primrec read_postings :: "nat \<Rightarrow> bytes \<Rightarrow> Postings \<Rightarrow> Postings ix" where
  "read_postings 0 buf p = Ok p"
| "read_postings (Suc n) buf p =
     (if length buf < 8 then Err (IxCorruptData ''Truncated posting header'')
      else
        (let term_id = u32_at 0 buf;
             data_len = unat (u32_at 4 buf);
             buf = drop 8 buf
         in if length buf < data_len then Err (IxCorruptData ''Truncated posting data'')
            else
              bind_res (ok_or (decode_deltas (take data_len buf)) (IxCorruptData ''Invalid delta encoding'')) (\<lambda>node_nums.
                read_postings n (drop data_len buf) (fold (postings_add term_id) node_nums p))))"

definition postings_read_from_file :: "string \<Rightarrow> cas_files \<Rightarrow> Postings ix" where
  "postings_read_from_file path fs =
     (case map_of fs path of
        None \<Rightarrow> Err (IxIo KindNotFound)
      | Some file \<Rightarrow>
          if length file < POST_HEADER_SIZE then Err (IxFileTooSmall POST_HEADER_SIZE (length file))
          else
            bind_res (post_header_from_bytes (take POST_HEADER_SIZE file)) (\<lambda>header.
              read_postings (unat (ph_posting_count header)) (drop POST_HEADER_SIZE file)
                (postings_new\<lparr>ps_total_docs := ph_total_docs header\<rparr>)))"

text \<open>The older reader of one list: what is left of the data, the last number and how many remain.\<close>

record PostingIter =
  pi_data :: bytes
  pi_prev :: u64
  pi_remaining :: u32

definition posting_list_new :: "bytes \<Rightarrow> (bytes \<times> u32) option" where
  "posting_list_new data = (if length data < 4 then None else Some (data, le_u32 (take 4 data)))"

definition posting_list_iter :: "bytes \<times> u32 \<Rightarrow> PostingIter" where
  "posting_list_iter l = \<lparr>pi_data = drop 4 (fst l), pi_prev = 0, pi_remaining = snd l\<rparr>"

definition posting_iter_next :: "PostingIter \<Rightarrow> (PostingIter \<times> u64) option" where
  "posting_iter_next it =
     (if pi_remaining it = 0 \<or> pi_data it = [] then None
      else
        map_option (\<lambda>(delta, consumed).
          (let current = pi_prev it + delta in
           (it\<lparr>pi_data := drop consumed (pi_data it), pi_remaining := pi_remaining it - 1, pi_prev := current\<rparr>, current)))
          (decode_varint (pi_data it)))"

function posting_iter_collect :: "PostingIter \<Rightarrow> u64 list" where
  "posting_iter_collect it =
     (case posting_iter_next it of None \<Rightarrow> [] | Some (it, x) \<Rightarrow> x # posting_iter_collect it)"
  by pat_completeness auto
termination
proof (relation "measure (\<lambda>it. unat (pi_remaining it))")
  fix it :: PostingIter and p x y assume "posting_iter_next it = Some p" "(x, y) = p"
  then show "(x, it) \<in> measure (\<lambda>it. unat (pi_remaining it))"
    by (auto simp: posting_iter_next_def unat_minus_one Let_def word_neq_0_conv unat_gt_0 split: if_splits)
qed simp

declare posting_iter_collect.simps [simp del]

section \<open>The search of the standard library\<close>

lemma std_search_base_spec:
  assumes "sorted ks" "1 \<le> n" "base + n \<le> length ks" "base = 0 \<or> ks ! base \<le> k"
    and "\<And>j. base + n \<le> j \<Longrightarrow> j < length ks \<Longrightarrow> k < ks ! j"
  shows "let i = std_search_base ks k base n in
    i < length ks \<and> (i = 0 \<or> ks ! i \<le> k) \<and> (\<forall>j. i < j \<longrightarrow> j < length ks \<longrightarrow> k < ks ! j)"
  using assms
proof (induction ks k base n rule: std_search_base.induct)
  case (1 ks k base n)
  note prems = "1.prems"
  show ?case
  proof (cases "n \<le> 1")
    case True
    then have "std_search_base ks k base n = base" by (simp add: std_search_base.simps [of ks k base n])
    with True prems show ?thesis by (simp add: Let_def)
  next
    case False
    let ?half = "n div 2" and ?mid = "base + n div 2"
    let ?b = "if ks ! ?mid > k then base else ?mid"
    have n: "1 \<le> n - ?half" "?b + (n - ?half) \<le> length ks" using False prems(3) by auto
    have hi: "k < ks ! j" if "?b + (n - ?half) \<le> j" "j < length ks" for j
    proof (cases "ks ! ?mid > k")
      case True
      have "?mid \<le> j" using that(1) True by (simp add: le_trans)
      with True that(2) sorted_nth_mono [OF prems(1), of ?mid j] show ?thesis by simp
    next
      case F: False
      with that prems(5) [of j] show ?thesis by simp
    qed
    have lo: "?b = 0 \<or> ks ! ?b \<le> k" using prems(4) by auto
    have "std_search_base ks k base n = std_search_base ks k ?b (n - ?half)"
      using False by (subst std_search_base.simps) (simp only: if_False Let_def)
    with "1.IH" [OF False refl refl prems(1) n lo hi] show ?thesis by (simp only:)
  qed
qed

lemma std_search_spec:
  assumes "sorted ks"
  shows "case std_search ks k of
           Inl i \<Rightarrow> i < length ks \<and> ks ! i = k
         | Inr i \<Rightarrow> i \<le> length ks \<and> (\<forall>x\<in>set (take i ks). x < k) \<and> (\<forall>x\<in>set (drop i ks). k < x)"
proof (cases "ks = []")
  case True
  then show ?thesis by (simp add: std_search_def)
next
  case False
  let ?i = "std_search_base ks k 0 (length ks)"
  from std_search_base_spec [OF assms, of "length ks" 0 k] False
  have i: "?i < length ks" "?i = 0 \<or> ks ! ?i \<le> k" "\<And>j. ?i < j \<Longrightarrow> j < length ks \<Longrightarrow> k < ks ! j"
    by (auto simp: Let_def Suc_le_eq)
  have mono: "a \<le> b \<Longrightarrow> b < length ks \<Longrightarrow> ks ! a \<le> ks ! b" for a b using sorted_nth_mono [OF assms] .
  consider "ks ! ?i = k" | "ks ! ?i < k" | "k < ks ! ?i" by fastforce
  then show ?thesis
  proof cases
    case 1
    with False i show ?thesis by (simp add: std_search_def Let_def)
  next
    case 2
    have "x < k" if x: "x \<in> set (take (?i + 1) ks)" for x
    proof -
      from x obtain a where "a < ?i + 1" "a < length ks" "x = ks ! a" by (auto simp: in_set_conv_nth)
      with 2 mono [of a ?i] i(1) show ?thesis by simp
    qed
    moreover have "k < x" if x: "x \<in> set (drop (?i + 1) ks)" for x
    proof -
      from x obtain a where "a < length (drop (?i + 1) ks)" "x = drop (?i + 1) ks ! a" by (metis in_set_conv_nth)
      then have "?i + 1 + a < length ks" "x = ks ! (?i + 1 + a)" by simp_all
      with i(3) [of "?i + 1 + a"] show ?thesis by simp
    qed
    ultimately show ?thesis using 2 False i(1) by (simp add: std_search_def Let_def)
  next
    case 3
    with i(2) have z: "?i = 0" by auto
    have "k < x" if x: "x \<in> set ks" for x
    proof -
      from x obtain a where "a < length ks" "x = ks ! a" by (auto simp: in_set_conv_nth)
      with 3 mono [of 0 a] z show ?thesis by simp
    qed
    moreover from 3 have "ks ! ?i \<noteq> k" "\<not> ks ! ?i < k" by auto
    ultimately show ?thesis using z False by (simp add: std_search_def Let_def)
  qed
qed

section \<open>A posting list is a sorted set\<close>

abbreviation strict :: "'a::linorder list \<Rightarrow> bool" where
  "strict xs \<equiv> sorted xs \<and> distinct xs"

lemma posting_insert_eq:
  assumes "strict xs" shows "posting_insert n xs = sorted_list_of_set (insert n (set xs))"
proof (cases "std_search xs n")
  case (Inl i)
  with std_search_spec [of xs n] assms have "n \<in> set xs" by (auto simp: in_set_conv_nth)
  with Inl assms show ?thesis
    by (simp add: posting_insert_def insert_absorb sorted_list_of_set.idem_if_sorted_distinct)
next
  case (Inr i)
  with std_search_spec [of xs n] assms
  have i: "\<forall>x\<in>set (take i xs). x < n" "\<forall>x\<in>set (drop i xs). n < x" by auto
  let ?l = "take i xs @ n # drop i xs"
  have "sorted (take i xs @ drop i xs)" "distinct (take i xs @ drop i xs)" using assms by simp_all
  then have "strict ?l" using i by (auto simp only: sorted_append distinct_append) (auto simp: less_imp_le)
  moreover have "set ?l = insert n (set xs)"
  proof -
    have "set xs = set (take i xs) \<union> set (drop i xs)" by (metis append_take_drop_id set_append)
    then show ?thesis by simp
  qed
  ultimately have "sorted_list_of_set (insert n (set xs)) = ?l"
    using sorted_list_of_set.idem_if_sorted_distinct [of ?l] by simp
  with Inr show ?thesis by (simp only: posting_insert_def sum.case)
qed

lemma posting_insert_facts:
  assumes "strict xs"
  shows "strict (posting_insert n xs)" "set (posting_insert n xs) = insert n (set xs)"
  unfolding posting_insert_eq [OF assms] by (simp_all del: sorted_list_of_set_insert_remove)

section \<open>Differences are read back\<close>

primrec difference_bytes :: "u64 \<Rightarrow> u64 list \<Rightarrow> bytes" where
  "difference_bytes prev [] = []"
| "difference_bytes prev (n # ns) = varint_bytes (n - prev) @ difference_bytes n ns"

lemma encode_delta_loop_eq: "10 \<le> length buf \<Longrightarrow> encode_delta_loop prev buf nums = Ok (difference_bytes prev nums)"
proof (induction nums arbitrary: prev buf)
  case (Cons n nums)
  let ?v = "varint_bytes (n - prev)"
  have "10 \<le> length (?v @ drop (length ?v) buf)" using Cons.prems by simp
  from Cons.IH [OF this, of n] show ?case by (simp add: encode_varint_bytes [OF Cons.prems])
qed simp

lemma decode_delta_bytes: "decode_delta_loop (length nums) prev (difference_bytes prev nums @ rest) = Some nums"
  by (induction nums arbitrary: prev) (simp_all add: decode_bytes)

lemma length_delta_bytes: "length (difference_bytes prev nums) \<le> 10 * length nums"
proof (induction nums arbitrary: prev)
  case (Cons n nums)
  have "length (difference_bytes n nums) \<le> 10 * length nums" by (rule Cons.IH)
  with length_varint_bytes_10 [of "n - prev"] show ?case by simp
qed simp

lemma encode_deltas_eq: "encode_deltas nums = Ok (len_le (length nums) @ difference_bytes 0 nums)"
proof (cases "nums = []")
  case True
  have "nat_le k 0 = replicate k 0" for k by (induction k) simp_all
  then have "u32_le 0 = replicate 4 0" by (simp add: u32_le_def)
  with True show ?thesis by (simp add: encode_deltas_def len_le_def)
next
  case False
  then show ?thesis by (simp add: encode_deltas_def encode_delta_loop_eq del: encode_delta_loop.simps)
qed

lemma decode_encoded: "length nums < 2 ^ 32 \<Longrightarrow> decode_deltas (len_le (length nums) @ difference_bytes 0 nums @ rest) = Some nums"
  by (simp add: decode_deltas_def len_le_def unat_of_nat_u32 decode_delta_bytes)

text \<open>
  Encoding a list of node numbers as differences succeeds for every list, and decoding gives the list back,
  whatever follows; the list need not even be sorted, as differences wrap.\<close>

theorem deltas_roundtrip:
  assumes "length nums < 2 ^ 32"
  shows "\<exists>bs. encode_deltas nums = Ok bs \<and> length bs \<le> 4 + 10 * length nums \<and> decode_deltas (bs @ rest) = Some nums"
  using decode_encoded [OF assms] length_delta_bytes [of 0 nums] by (simp add: encode_deltas_eq)

theorem deltas_roundtrip_witness:
  "\<exists>bs. encode_deltas [10, 20, 5] = Ok bs \<and> length bs \<le> 4 + 10 * 3 \<and> decode_deltas (bs @ [1]) = Some [10, 20, 5]"
  using deltas_roundtrip [of "[10, 20, 5]" "[1]"] by simp

lemma posting_iter_decode:
  "decode_delta_loop n prev data = Some xs \<Longrightarrow> n < 2 ^ 32 \<Longrightarrow>
   posting_iter_collect \<lparr>pi_data = data, pi_prev = prev, pi_remaining = of_nat n\<rparr> = xs"
proof (induction n arbitrary: prev data xs)
  case 0
  then show ?case by (subst posting_iter_collect.simps) (simp add: posting_iter_next_def)
next
  case (Suc n)
  from Suc.prems(1) obtain delta consumed ys where d: "decode_varint data = Some (delta, consumed)"
    "decode_delta_loop n (prev + delta) (drop consumed data) = Some ys" "xs = (prev + delta) # ys"
    by (auto simp: bind_eq_Some_conv)
  have ne: "data \<noteq> []" using d(1) by (auto simp: decode_varint_def)
  have "unat (of_nat (Suc n) :: u32) = Suc n" by (rule unat_of_nat_u32 [OF Suc.prems(2)])
  then have nz: "(1 + of_nat n :: u32) \<noteq> 0" by auto
  have "posting_iter_collect \<lparr>pi_data = drop consumed data, pi_prev = prev + delta, pi_remaining = of_nat n\<rparr> = ys"
    using Suc.IH [OF d(2)] Suc.prems(2) by simp
  with d(1,3) ne nz show ?case
    by (subst posting_iter_collect.simps) (simp add: posting_iter_next_def Let_def)
qed

text \<open>
  The older iterator agrees with the decoder: whenever the decoder accepts the data, the iterator yields
  the same numbers in the same order, and then ends.\<close>

theorem posting_iter_agrees:
  assumes "decode_deltas data = Some xs"
  shows "\<exists>l. posting_list_new data = Some l \<and> posting_iter_collect (posting_list_iter l) = xs"
proof -
  from assms have l: "4 \<le> length data"
    and d: "decode_delta_loop (unat (le_u32 (take 4 data))) 0 (drop 4 data) = Some xs"
    by (auto simp: decode_deltas_def split: if_splits)
  from posting_iter_decode [OF d] l unat_bounds(3) [of "le_u32 (take 4 data)"] show ?thesis
    by (simp add: posting_list_new_def posting_list_iter_def)
qed

theorem posting_iter_agrees_witness:
  "\<exists>l. posting_list_new [2, 0, 0, 0, 5, 3] = Some l \<and> posting_iter_collect (posting_list_iter l) = [5, 8]"
proof (rule posting_iter_agrees)
  have n: "unat (le_u32 [2, 0, 0, 0]) = Suc (Suc 0)" by (simp add: le_u32_def)
  show "decode_deltas [2, 0, 0, 0, 5, 3] = Some [5, 8]"
    by (simp add: decode_deltas_def n decode_varint_def VARINT_MAX_BYTES_def)
qed

section \<open>Invariant, and what is stored\<close>

definition postings_ok :: "Postings \<Rightarrow> bool" where
  "postings_ok p \<longleftrightarrow> hm_ok (ps_postings p) \<and>
     (\<forall>(t, l)\<in>set (ps_postings p). strict l \<and> l \<noteq> [] \<and> (\<forall>n\<in>set l. n + 1 \<le> ps_total_docs p))"

definition posting_set :: "u32 \<Rightarrow> Postings \<Rightarrow> u64 set" where
  "posting_set t p = set (get_or [] (ps_postings p) t)"

lemma postings_ok_new [simp]: "postings_ok postings_new" "posting_set t postings_new = {}"
  by (simp_all add: postings_ok_def postings_new_def posting_set_def)

lemma strict_get_or: "postings_ok p \<Longrightarrow> strict (get_or [] (ps_postings p) t)"
  by (auto simp: get_or_def postings_ok_def split: option.splits dest: map_of_SomeD)

lemma set_update_eq: "hm_ok m \<Longrightarrow> set (AList.update k v m) = insert (k, v) {e \<in> set m. fst e \<noteq> k}"
proof (induction m)
  case (Cons e m)
  then show ?case by (cases e) (force simp: image_iff)
qed simp

lemma postings_add_ok:
  assumes "postings_ok p"
  shows "postings_ok (postings_add t n p)"
    and "posting_set t' (postings_add t n p) = (if t' = t then insert n (posting_set t p) else posting_set t' p)"
proof -
  note facts = posting_insert_facts [OF strict_get_or [OF assms, of t], of n]
  from assms show "postings_ok (postings_add t n p)"
  proof -
    have "set (get_or [] (ps_postings p) t) = {} \<or> (t, get_or [] (ps_postings p) t) \<in> set (ps_postings p)"
      by (auto simp: get_or_def split: option.splits dest: map_of_SomeD)
    with assms facts show ?thesis
      by (fastforce simp: postings_ok_def postings_add_def entry_upd_def set_update_eq distinct_update le_max_iff_disj)
  qed
  show "posting_set t' (postings_add t n p) = (if t' = t then insert n (posting_set t p) else posting_set t' p)"
    using facts by (simp add: posting_set_def postings_add_def)
qed

lemma postings_get_set:
  assumes "postings_ok p"
  shows "postings_get t p = (if posting_set t p = {} then None else Some (sorted_list_of_set (posting_set t p)))"
proof (cases "map_of (ps_postings p) t")
  case None
  then show ?thesis by (simp add: postings_get_def posting_set_def get_or_def)
next
  case (Some l)
  with assms have "strict l" "l \<noteq> []" by (auto simp: postings_ok_def dest: map_of_SomeD)
  with Some show ?thesis
    by (simp add: postings_get_def posting_set_def get_or_def sorted_list_of_set.idem_if_sorted_distinct)
qed

section \<open>The file of all lists\<close>

lemma update_twice: "AList.update k v (AList.update k w m) = AList.update k v m"
  by (induction m) auto

lemma fold_postings_add:
  "nums \<noteq> [] \<Longrightarrow> fold (postings_add t) nums p =
     \<lparr>ps_postings = AList.update t (fold posting_insert nums (get_or [] (ps_postings p) t)) (ps_postings p),
      ps_total_docs = fold (\<lambda>n m. max m (n + 1)) nums (ps_total_docs p)\<rparr>"
proof (induction nums arbitrary: p)
  case (Cons n nums)
  then show ?case
    by (cases "nums = []") (simp_all add: postings_add_def entry_upd_def update_twice)
qed simp

lemma fold_posting_insert: "strict xs \<Longrightarrow> strict (fold posting_insert nums xs) \<and> set (fold posting_insert nums xs) = set nums \<union> set xs"
  by (induction nums arbitrary: xs) (simp_all add: posting_insert_facts)

lemma fold_posting_insert_id: "strict nums \<Longrightarrow> fold posting_insert nums [] = nums"
  using fold_posting_insert [of "[]" nums] sorted_distinct_set_unique [of "fold posting_insert nums []" nums] by simp

lemma fold_max_id: "(\<forall>n\<in>set nums. n + 1 \<le> (m :: u64)) \<Longrightarrow> fold (\<lambda>n m. max m (n + 1)) nums m = m"
  by (induction nums) (simp_all add: max_absorb1)

definition record_of :: "u32 \<times> u64 list \<Rightarrow> bytes" where
  "record_of e = (let d = len_le (length (snd e)) @ difference_bytes 0 (snd e) in u32_le (fst e) @ len_le (length d) @ d)"

lemma posting_records_eq: "posting_records es = Ok (concat (map record_of es))"
  by (induction es) (simp_all add: encode_deltas_eq record_of_def Let_def)

lemma read_postings_eq:
  assumes "\<forall>e\<in>set es. length (snd e) < 2 ^ 28 \<and> strict (snd e) \<and> snd e \<noteq> [] \<and> (\<forall>n\<in>set (snd e). n + 1 \<le> ps_total_docs p)"
    and "distinct (map fst (ps_postings p @ es))"
  shows "read_postings (length es) (concat (map record_of es)) p = Ok (p\<lparr>ps_postings := ps_postings p @ es\<rparr>)"
  using assms
proof (induction es arbitrary: p)
  case (Cons e es)
  define d where "d = len_le (length (snd e)) @ difference_bytes 0 (snd e)"
  have e: "length (snd e) < 2 ^ 28" "strict (snd e)" "snd e \<noteq> []" "\<forall>n\<in>set (snd e). n + 1 \<le> ps_total_docs p"
    and new: "fst e \<notin> fst ` set (ps_postings p)" using Cons.prems by auto
  have u: "unat (of_nat (length d) :: u32) = length d"
    using length_delta_bytes [of 0 "snd e"] e(1) by (intro unat_of_nat_u32) (simp add: d_def)
  have r: "record_of e = u32_le (fst e) @ u32_le (of_nat (length d)) @ d"
    by (simp add: record_of_def d_def Let_def len_le_def)
  have "fold (postings_add (fst e)) (snd e) p = p\<lparr>ps_postings := ps_postings p @ [e]\<rparr>"
    using e new by (simp add: fold_postings_add fold_posting_insert_id fold_max_id get_or_notin update_new)
  moreover have "read_postings (length es) (concat (map record_of es)) (p\<lparr>ps_postings := ps_postings p @ [e]\<rparr>) =
      Ok (p\<lparr>ps_postings := ps_postings p @ e # es\<rparr>)"
    using Cons.IH [of "p\<lparr>ps_postings := ps_postings p @ [e]\<rparr>"] Cons.prems by simp
  moreover have "decode_deltas d = Some (snd e)" using decode_encoded [of "snd e" "[]"] e(1) by (simp add: d_def)
  ultimately show ?case by (simp add: r u)
qed simp

text \<open>
  The posting lists that are written to a file are read back: the same list for every term, and the same
  number of documents.\<close>

theorem postings_file_roundtrip:
  assumes ok: "postings_ok p" and len: "\<forall>(t, l)\<in>set (ps_postings p). length l < 2 ^ 28"
  shows "\<exists>fs' p'. postings_write_to_file p path fs = (Ok (), fs') \<and> postings_read_from_file path fs' = Ok p' \<and>
    (\<forall>t. postings_get t p' = postings_get t p) \<and> ps_total_docs p' = ps_total_docs p"
proof -
  let ?es = "sort_key fst (ps_postings p)"
  let ?h = "post_header_new\<lparr>ph_posting_count := of_nat (length ?es), ph_total_docs := ps_total_docs p\<rparr>"
  have d: "distinct (map fst ?es)" using ok by (simp add: postings_ok_def distinct_map inj_on_def)
  then have "length ?es = card (set (map fst ?es))" using distinct_card [OF d] by simp
  also have "\<dots> \<le> card (UNIV :: u32 set)" by (rule card_mono) auto
  finally have n: "unat (of_nat (length ?es) :: u64) = length ?es" by (intro unat_of_nat_u64) (simp add: card_word)
  have "read_postings (length ?es) (concat (map record_of ?es)) (postings_new\<lparr>ps_total_docs := ps_total_docs p\<rparr>) =
      Ok \<lparr>ps_postings = ?es, ps_total_docs = ps_total_docs p\<rparr>"
    using read_postings_eq [of ?es "postings_new\<lparr>ps_total_docs := ps_total_docs p\<rparr>"] ok len d
    by (fastforce simp: postings_new_def postings_ok_def)
  moreover have "map_of ?es = map_of (ps_postings p)"
    using ok d map_of_inject_set [of ?es "ps_postings p"] by (simp add: postings_ok_def)
  ultimately show ?thesis
    using n by (simp add: postings_write_to_file_def postings_read_from_file_def posting_records_eq Let_def
        post_header_from_bytes_def post_header_write_to_bytes_def post_header_memory_def post_header_new_def
        POST_HEADER_SIZE_def postings_get_def)
qed

lemma posting_insert_Nil [simp]: "posting_insert n [] = [n]"
  by (simp add: posting_insert_def std_search_def)

theorem postings_file_roundtrip_witness:
  "\<exists>fs' p'. postings_write_to_file (postings_add 0 10 postings_new) ''terms.post'' [] = (Ok (), fs') \<and>
     postings_read_from_file ''terms.post'' fs' = Ok p' \<and> postings_get 0 p' = Some [10]"
proof -
  have "ps_postings (postings_add 0 10 postings_new) = [(0, [10])]"
    by (simp add: postings_add_def postings_new_def entry_upd_def)
  with postings_file_roundtrip [of "postings_add 0 10 postings_new" "''terms.post''" "[]"]
  show ?thesis by (auto simp: postings_add_ok(1) postings_get_def)
qed

end
