(* ===== verification/Inverted_Index.thy ===== *)
theory Inverted_Index
  imports Lexicon Postings
begin

text \<open>
  The inverted index of \<open>src/index/mod.rs\<close>: the terms of an atom are its words in lower case, the lexicon
  numbers them and the posting lists hold the nodes of each number. The case conversion of the standard
  library (\<open>to_lowercase\<close>, a table of Unicode) is a parameter. The abstract state is the set of nodes of
  every term. An index is saved as two files, and the file of terms renumbers them.
\<close>

section \<open>The code\<close>

text \<open>\<open>split_whitespace\<close>: the characters with the Unicode property White_Space separate words.\<close>

definition whitespace :: "bytes list" where
  "whitespace =
     [[0x09], [0x0A], [0x0B], [0x0C], [0x0D], [0x20], [0xC2, 0x85], [0xC2, 0xA0], [0xE1, 0x9A, 0x80]] @
     map (\<lambda>i. [0xE2, 0x80, 0x80 + of_nat i]) [0..<11] @
     [[0xE2, 0x80, 0xA8], [0xE2, 0x80, 0xA9], [0xE2, 0x80, 0xAF], [0xE2, 0x81, 0x9F], [0xE3, 0x80, 0x80]]"

function utf8_chars :: "bytes \<Rightarrow> bytes list" where
  "utf8_chars s =
     (case s of [] \<Rightarrow> [] | b # bs \<Rightarrow> take (char_len b) s # utf8_chars (drop (char_len b) s))"
  by pat_completeness auto
termination by (relation "measure length") (auto simp: char_len_pos)

declare utf8_chars.simps [simp del]

primrec split_words :: "bytes list \<Rightarrow> bytes \<Rightarrow> bytes list" where
  "split_words [] word = (if word = [] then [] else [word])"
| "split_words (c # cs) word =
     (if c \<in> set whitespace then (if word = [] then split_words cs [] else word # split_words cs [])
      else split_words cs (word @ c))"

definition split_whitespace :: "bytes \<Rightarrow> bytes list" where
  "split_whitespace s = split_words (utf8_chars s) []"

record InvertedIndex =
  iv_lexicon :: Lexicon
  iv_postings :: Postings
  iv_path :: string

definition inverted_new :: "string \<Rightarrow> InvertedIndex" where
  "inverted_new path = \<lparr>iv_lexicon = lex_new, iv_postings = postings_new, iv_path = path\<rparr>"

definition index_term :: "u64 \<Rightarrow> bytes \<Rightarrow> InvertedIndex \<Rightarrow> InvertedIndex" where
  "index_term node_num t ix =
     (let (term_id, lexicon) = lex_add t (iv_lexicon ix)
      in ix\<lparr>iv_lexicon := lexicon, iv_postings := postings_add term_id node_num (iv_postings ix)\<rparr>)"

definition index_atom :: "(bytes \<Rightarrow> bytes) \<Rightarrow> u64 \<Rightarrow> bytes \<Rightarrow> InvertedIndex \<Rightarrow> InvertedIndex" where
  "index_atom lowercase node_num content ix =
     fold (\<lambda>word. index_term node_num (lowercase word)) (split_whitespace (utf8_lossy content)) ix"

definition inverted_search :: "bytes \<Rightarrow> InvertedIndex \<Rightarrow> u64 list option" where
  "inverted_search t ix =
     Option.bind (lex_find t (iv_lexicon ix)) (\<lambda>term_id. postings_get term_id (iv_postings ix))"

definition lex_path :: "InvertedIndex \<Rightarrow> string" where "lex_path ix = iv_path ix @ ''/terms.lex''"
definition post_path :: "InvertedIndex \<Rightarrow> string" where "post_path ix = iv_path ix @ ''/terms.post''"

definition inverted_save :: "InvertedIndex \<Rightarrow> cas_files \<Rightarrow> unit ix \<times> cas_files" where
  "inverted_save ix fs =
     (case lex_write_to_file (iv_lexicon ix) (lex_path ix) fs of
        (Ok _, fs) \<Rightarrow> postings_write_to_file (iv_postings ix) (post_path ix) fs
      | (r, fs) \<Rightarrow> (r, fs))"

text \<open>The result, and the index after the call: a part that cannot be read leaves the other one as it is.\<close>

definition inverted_load :: "InvertedIndex \<Rightarrow> cas_files \<Rightarrow> unit ix \<times> InvertedIndex" where
  "inverted_load ix fs =
     (let lex = (if map_of fs (lex_path ix) = None then Ok (iv_lexicon ix) else lex_read_from_file (lex_path ix) fs)
      in case lex of
           Panic \<Rightarrow> (Panic, ix)
         | Err e \<Rightarrow> (Err e, ix)
         | Ok lexicon \<Rightarrow>
             (let ix = ix\<lparr>iv_lexicon := lexicon\<rparr>;
                  post = (if map_of fs (post_path ix) = None then Ok (iv_postings ix)
                          else postings_read_from_file (post_path ix) fs)
              in case post of
                   Panic \<Rightarrow> (Panic, ix)
                 | Err e \<Rightarrow> (Err e, ix)
                 | Ok postings \<Rightarrow> (Ok (), ix\<lparr>iv_postings := postings\<rparr>)))"

section \<open>The set of nodes of every term\<close>

definition nodes_of :: "InvertedIndex \<Rightarrow> bytes \<Rightarrow> u64 set" where
  "nodes_of ix t =
     (case lex_find t (iv_lexicon ix) of None \<Rightarrow> {} | Some i \<Rightarrow> posting_set i (iv_postings ix))"

text \<open>Numbers that are not given to a term have no nodes, and terms have some.\<close>

definition inverted_ok :: "InvertedIndex \<Rightarrow> bool" where
  "inverted_ok ix \<longleftrightarrow> lex_ok (iv_lexicon ix) \<and> postings_ok (iv_postings ix) \<and>
     (\<forall>i. posting_set i (iv_postings ix) = {} \<longleftrightarrow> length (lx_terms (iv_lexicon ix)) \<le> unat i)"

lemma inverted_ok_new [simp]: "inverted_ok (inverted_new path)" "nodes_of (inverted_new path) t = {}"
  by (simp_all add: inverted_ok_def inverted_new_def lex_new_def nodes_of_def lex_find_def) (simp_all add: lex_with_block_size_def)

lemma lex_find_bound: "lex_ok lx \<Longrightarrow> lex_find t lx = Some i \<Longrightarrow> unat i < length (lx_terms lx) \<and> lx_terms lx ! unat i = t"
  by (simp add: lex_ok_def lex_find_def)

lemma lex_find_nth:
  assumes "lex_ok lx" "k < length (lx_terms lx)" shows "lex_find (lx_terms lx ! k) lx = Some (of_nat k)"
proof -
  have "unat (of_nat k :: u32) = k" using assms by (intro unat_of_nat_u32) (simp add: lex_ok_def)
  with assms show ?thesis by (simp add: lex_ok_def lex_find_def)
qed

lemma index_term_refines:
  assumes ok: "inverted_ok ix" and n: "Suc (length (lx_terms (iv_lexicon ix))) < 2 ^ 32"
  shows "inverted_ok (index_term node_num t ix)"
    and "nodes_of (index_term node_num t ix) t' = (if t' = t then insert node_num (nodes_of ix t) else nodes_of ix t')"
    and "set (lx_terms (iv_lexicon (index_term node_num t ix))) = insert t (set (lx_terms (iv_lexicon ix)))"
    and "length (lx_terms (iv_lexicon (index_term node_num t ix))) \<le> Suc (length (lx_terms (iv_lexicon ix)))"
proof -
  let ?lx = "iv_lexicon ix" and ?ps = "iv_postings ix"
  have lx: "lex_ok ?lx" and ps: "postings_ok ?ps"
    and fresh: "\<And>i. posting_set i ?ps = {} \<longleftrightarrow> length (lx_terms ?lx) \<le> unat i"
    using ok by (simp_all add: inverted_ok_def)
  obtain i lx' where a: "lex_add t ?lx = (i, lx')" by (cases "lex_add t ?lx")
  have lx': "lex_ok lx'" using lex_add_ok [OF lx n, of t] a by simp
  have terms: "set (lx_terms lx') = insert t (set (lx_terms ?lx))"
    and len: "length (lx_terms ?lx) \<le> length (lx_terms lx')" "length (lx_terms lx') \<le> Suc (length (lx_terms ?lx))"
    and it: "lex_find t lx' = Some i"
    and other: "\<And>t'. t' \<noteq> t \<Longrightarrow> lex_find t' lx' = lex_find t' ?lx"
    and old: "lex_find t ?lx = (if t \<in> set (lx_terms ?lx) then Some i else None)"
    and new: "t \<notin> set (lx_terms ?lx) \<Longrightarrow> unat i = length (lx_terms ?lx) \<and> length (lx_terms lx') = Suc (length (lx_terms ?lx))"
    and known: "t \<in> set (lx_terms ?lx) \<Longrightarrow> lx' = ?lx"
    using a lex_add_known [OF lx, of t] lex_add_fresh [OF lx, of t] lex_find_None [OF lx, of t] n
    by (cases "t \<in> set (lx_terms ?lx)"; force simp: lex_find_def unat_of_nat_u32)+
  let ?ix = "index_term node_num t ix"
  have ix: "iv_lexicon ?ix = lx'" "iv_postings ?ix = postings_add i node_num ?ps"
    by (simp_all add: index_term_def a)
  note add = postings_add_ok [OF ps]
  show "set (lx_terms (iv_lexicon ?ix)) = insert t (set (lx_terms ?lx))"
    "length (lx_terms (iv_lexicon ?ix)) \<le> Suc (length (lx_terms ?lx))" using terms len ix by simp_all
  have bound: "unat i < length (lx_terms lx')" using lex_find_bound [OF lx' it] by simp
  show "inverted_ok ?ix"
    unfolding inverted_ok_def ix using lx' add fresh new known bound
    by (cases "t \<in> set (lx_terms ?lx)") (auto simp: word_unat_eq_iff Suc_le_eq)
  have "nodes_of ?ix t' = nodes_of ix t'" if "t' \<noteq> t" for t'
  proof -
    have "j \<noteq> i" if "lex_find t' ?lx = Some j" for j
      using lex_find_bound [OF lx', of t' j] lex_find_bound [OF lx' it] other [OF \<open>t' \<noteq> t\<close>] that \<open>t' \<noteq> t\<close> by auto
    then show ?thesis using other [OF that] by (auto simp: nodes_of_def ix add split: option.splits)
  qed
  moreover have "nodes_of ?ix t = insert node_num (nodes_of ix t)"
    using old fresh [of i] new by (auto simp: nodes_of_def ix add it)
  ultimately show "nodes_of ?ix t' = (if t' = t then insert node_num (nodes_of ix t) else nodes_of ix t')" by simp
qed

section \<open>Searching what was indexed\<close>

definition terms_of :: "(bytes \<Rightarrow> bytes) \<Rightarrow> bytes \<Rightarrow> bytes list" where
  "terms_of lowercase content = map lowercase (split_whitespace (utf8_lossy content))"

lemma index_atom_terms: "index_atom lowercase n content ix = fold (index_term n) (terms_of lowercase content) ix"
  by (simp add: index_atom_def terms_of_def fold_map o_def)

lemma fold_index_term:
  assumes "inverted_ok ix" "length (lx_terms (iv_lexicon ix)) + length ts < 2 ^ 32"
  shows "inverted_ok (fold (index_term n) ts ix) \<and>
    length (lx_terms (iv_lexicon (fold (index_term n) ts ix))) \<le> length (lx_terms (iv_lexicon ix)) + length ts \<and>
    (\<forall>t. nodes_of (fold (index_term n) ts ix) t = (if t \<in> set ts then insert n (nodes_of ix t) else nodes_of ix t))"
  using assms
proof (induction ts arbitrary: ix)
  case (Cons t ts)
  have "Suc (length (lx_terms (iv_lexicon ix))) < 2 ^ 32" using Cons.prems(2) by simp
  note step = index_term_refines [OF Cons.prems(1) this, of n t]
  have "length (lx_terms (iv_lexicon (index_term n t ix))) + length ts < 2 ^ 32" using step(4) Cons.prems(2) by simp
  from Cons.IH [OF step(1) this] step(2,4) show ?case by auto
qed simp

lemma fold_index_atom:
  assumes "inverted_ok ix"
    and "length (lx_terms (iv_lexicon ix)) + length (concat (map (\<lambda>d. terms_of lowercase (snd d)) docs)) < 2 ^ 32"
  defines "ix' \<equiv> fold (\<lambda>(n, content). index_atom lowercase n content) docs ix"
  shows "inverted_ok ix' \<and>
    (\<forall>t. nodes_of ix' t = nodes_of ix t \<union> {n. \<exists>content. (n, content) \<in> set docs \<and> t \<in> set (terms_of lowercase content)})"
  using assms(1,2) unfolding ix'_def
proof (induction docs arbitrary: ix)
  case (Cons d docs)
  obtain n content where d: "d = (n, content)" by force
  let ?ix = "index_atom lowercase n content ix"
  have len: "length (lx_terms (iv_lexicon ix)) + length (terms_of lowercase content) < 2 ^ 32" using Cons.prems(2) d by simp
  note step = fold_index_term [OF Cons.prems(1) len, of n, folded index_atom_terms]
  have "length (lx_terms (iv_lexicon ?ix)) + length (concat (map (\<lambda>d. terms_of lowercase (snd d)) docs)) < 2 ^ 32"
    using step Cons.prems(2) d by simp
  from Cons.IH [OF _ this] step show ?case by (auto simp: d)
qed simp

lemma inverted_search_nodes:
  assumes "inverted_ok ix"
  shows "inverted_search t ix = (if nodes_of ix t = {} then None else Some (sorted_list_of_set (nodes_of ix t)))"
  using assms by (auto simp: inverted_search_def nodes_of_def inverted_ok_def postings_get_set split: option.splits)

text \<open>
  C17: in an index of fewer than 2^32 words in total, searching a term gives, in increasing order, the numbers of
  exactly the atoms that were indexed with a word whose lower case is the term, and nothing when there are none.\<close>

theorem search_indexed:
  fixes lowercase :: "bytes \<Rightarrow> bytes"
  assumes "length (concat (map (\<lambda>d. terms_of lowercase (snd d)) docs)) < 2 ^ 32"
  shows "inverted_search t (fold (\<lambda>(n, content). index_atom lowercase n content) docs (inverted_new path)) =
    (let nodes = {n. \<exists>content. (n, content) \<in> set docs \<and> t \<in> set (terms_of lowercase content)}
     in if nodes = {} then None else Some (sorted_list_of_set nodes))"
proof -
  have e: "lx_terms (iv_lexicon (inverted_new path)) = []"
    by (simp add: inverted_new_def lex_new_def lex_with_block_size_def)
  have "inverted_ok (inverted_new path)" by simp
  from fold_index_atom [OF this, of lowercase docs] assms have
    "inverted_ok (fold (\<lambda>(n, content). index_atom lowercase n content) docs (inverted_new path))"
    "nodes_of (fold (\<lambda>(n, content). index_atom lowercase n content) docs (inverted_new path)) t =
       {n. \<exists>content. (n, content) \<in> set docs \<and> t \<in> set (terms_of lowercase content)}"
    using e by simp_all
  then show ?thesis by (simp only: inverted_search_nodes Let_def)
qed

section \<open>Searching after saving and loading\<close>

definition prefixes_safe :: "Lexicon \<Rightarrow> bool" where
  "prefixes_safe lx \<longleftrightarrow> (\<forall>block\<in>set (lex_blocks (lx_block_size lx) (sort (lx_terms lx))). block_safe block)"

definition inverted_storable :: "InvertedIndex \<Rightarrow> bool" where
  "inverted_storable ix \<longleftrightarrow> inverted_ok ix \<and> (\<forall>t\<in>set (lx_terms (iv_lexicon ix)). term_ok t) \<and>
     0 < lx_block_size (iv_lexicon ix) \<and> lx_block_size (iv_lexicon ix) < 2 ^ 16 \<and>
     (\<forall>(i, l)\<in>set (ps_postings (iv_postings ix)). length l < 2 ^ 28)"

lemma paths_differ [simp]: "lex_path ix \<noteq> post_path ix"
  by (simp add: lex_path_def post_path_def)

lemma saved_files:
  assumes "inverted_storable ix"
  obtains fs1 fs2 p where "inverted_save ix fs = (Ok (), fs2)"
    "lex_read_from_file (lex_path ix) fs2 =
       (if prefixes_safe (iv_lexicon ix) then Ok (lex_sort_terms (iv_lexicon ix)) else Panic)"
    "map_of fs2 (lex_path ix) \<noteq> None" "map_of fs2 (post_path ix) \<noteq> None"
    "postings_read_from_file (post_path ix) fs2 = Ok p" "\<And>t. postings_get t p = postings_get t (iv_postings ix)"
proof -
  from assms have lx: "lex_ok (iv_lexicon ix)" "\<forall>t\<in>set (lx_terms (iv_lexicon ix)). term_ok t"
    "0 < lx_block_size (iv_lexicon ix)" "lx_block_size (iv_lexicon ix) < 2 ^ 16"
    and ps: "postings_ok (iv_postings ix)" "\<forall>(i, l)\<in>set (ps_postings (iv_postings ix)). length l < 2 ^ 28"
    by (simp_all add: inverted_storable_def inverted_ok_def)
  from lex_file_reload [OF lx, of "lex_path ix" fs] obtain fs1
    where fs1: "lex_write_to_file (iv_lexicon ix) (lex_path ix) fs = (Ok (), fs1)"
      "lex_read_from_file (lex_path ix) fs1 =
         (if prefixes_safe (iv_lexicon ix) then Ok (lex_sort_terms (iv_lexicon ix)) else Panic)"
    by (auto simp: prefixes_safe_def)
  from postings_file_roundtrip [OF ps, of "post_path ix" fs1] obtain fs2 p
    where fs2: "postings_write_to_file (iv_postings ix) (post_path ix) fs1 = (Ok (), fs2)"
      "postings_read_from_file (post_path ix) fs2 = Ok p" "\<And>t. postings_get t p = postings_get t (iv_postings ix)" by blast
  from fs1(1) obtain bs where bs: "fs1 = AList.update (lex_path ix) bs fs"
    by (auto simp: lex_write_to_file_def Let_def split: if_splits)
  from fs2(1) obtain cs where cs: "fs2 = AList.update (post_path ix) cs fs1"
    by (auto simp: postings_write_to_file_def Let_def split: res.splits)
  have "map_of fs2 (lex_path ix) = map_of fs1 (lex_path ix)" by (simp add: cs)
  then have "lex_read_from_file (lex_path ix) fs2 = lex_read_from_file (lex_path ix) fs1"
    by (simp add: lex_read_from_file_def)
  with fs1 fs2 that show thesis by (simp add: inverted_save_def bs cs)
qed

text \<open>
  Saving an index and loading it renumbers the terms but not the posting lists: afterwards a search for
  the \<open>k\<close>-th term in sorted order gives the nodes of the \<open>k\<close>-th term that was added.\<close>

theorem reload_permutes:
  assumes ok: "inverted_storable ix" and safe: "prefixes_safe (iv_lexicon ix)" and k: "k < length (lx_terms (iv_lexicon ix))"
  shows "\<exists>fs' ix'. inverted_save ix fs = (Ok (), fs') \<and>
    inverted_load (inverted_new (iv_path ix)) fs' = (Ok (), ix') \<and>
    inverted_search (sort (lx_terms (iv_lexicon ix)) ! k) ix' = inverted_search (lx_terms (iv_lexicon ix) ! k) ix"
proof -
  let ?lx = "iv_lexicon ix"
  obtain fs2 p where fs2: "inverted_save ix fs = (Ok (), fs2)"
    "lex_read_from_file (lex_path ix) fs2 = Ok (lex_sort_terms ?lx)"
    "map_of fs2 (lex_path ix) \<noteq> None" "map_of fs2 (post_path ix) \<noteq> None"
    "postings_read_from_file (post_path ix) fs2 = Ok p" "\<And>t. postings_get t p = postings_get t (iv_postings ix)"
    using saved_files [OF ok, of fs] safe by metis
  let ?new = "inverted_new (iv_path ix)"
  have paths: "lex_path ?new = lex_path ix" "post_path ?new = post_path ix"
    "post_path (?new\<lparr>iv_lexicon := l\<rparr>) = post_path ix" for l
    by (simp_all add: lex_path_def post_path_def inverted_new_def)
  let ?ix = "?new\<lparr>iv_lexicon := lex_sort_terms ?lx, iv_postings := p\<rparr>"
  have load: "inverted_load ?new fs2 = (Ok (), ?ix)"
    by (simp add: inverted_load_def paths Let_def fs2(2-5))
  have lx: "lex_ok ?lx" using ok by (simp add: inverted_storable_def inverted_ok_def)
  have "lex_find (sort (lx_terms ?lx) ! k) (lex_sort_terms ?lx) = Some (of_nat k)"
    using lex_find_nth [OF lex_sort_terms_ok [OF lx], of k] k by (simp add: lex_sort_terms_def Let_def)
  moreover have "lex_find (lx_terms ?lx ! k) ?lx = Some (of_nat k)" by (rule lex_find_nth [OF lx k])
  ultimately have "inverted_search (sort (lx_terms ?lx) ! k) ?ix = inverted_search (lx_terms ?lx ! k) ix"
    by (simp add: inverted_search_def fs2(6))
  with fs2(1) load show ?thesis by blast
qed

text \<open>
  An index with two terms in one block of the lexicon, such that a prefix shared with the first term of the
  block ends inside a character, is saved without an error, and loading it panics.\<close>

theorem reload_panics:
  assumes ok: "inverted_storable ix" and unsafe: "\<not> prefixes_safe (iv_lexicon ix)"
  shows "\<exists>fs'. inverted_save ix fs = (Ok (), fs') \<and> fst (inverted_load (inverted_new (iv_path ix)) fs') = Panic"
proof -
  obtain fs2 where fs2: "inverted_save ix fs = (Ok (), fs2)" "lex_read_from_file (lex_path ix) fs2 = Panic"
    "map_of fs2 (lex_path ix) \<noteq> None"
    using saved_files [OF ok, of fs] unsafe by metis
  have "lex_path (inverted_new (iv_path ix)) = lex_path ix" by (simp add: lex_path_def inverted_new_def)
  then have "fst (inverted_load (inverted_new (iv_path ix)) fs2) = Panic" by (simp add: inverted_load_def Let_def fs2(2,3))
  with fs2(1) show ?thesis by blast
qed

section \<open>Examples\<close>

text \<open>Two terms with one atom each.\<close>

definition example_index :: "bytes \<Rightarrow> bytes \<Rightarrow> InvertedIndex" where
  "example_index a b = index_term 20 b (index_term 10 a (inverted_new ''index''))"

lemma example_index_facts:
  assumes "a \<noteq> b" "term_ok a" "term_ok b"
  shows "lx_terms (iv_lexicon (example_index a b)) = [a, b]" "inverted_storable (example_index a b)"
    "inverted_search a (example_index a b) = Some [10]" "inverted_search b (example_index a b) = Some [20]"
    "iv_path (example_index a b) = ''index''" "lx_block_size (iv_lexicon (example_index a b)) = 128"
proof -
  have lx: "iv_lexicon (example_index a b) = snd (lex_add b (snd (lex_add a lex_new)))"
    by (simp add: example_index_def index_term_def inverted_new_def split_def Let_def)
  show t: "lx_terms (iv_lexicon (example_index a b)) = [a, b]"
    and bs: "lx_block_size (iv_lexicon (example_index a b)) = 128" by (simp_all add: lx two_terms(1) [OF assms(1)] two_terms(2))
  have n: "lx_terms (iv_lexicon (inverted_new ''index'')) = []"
    by (simp add: inverted_new_def lex_new_def lex_with_block_size_def)
  have 1: "inverted_ok (index_term 10 a (inverted_new ''index''))"
    "length (lx_terms (iv_lexicon (index_term 10 a (inverted_new ''index'')))) \<le> 1"
    "nodes_of (index_term 10 a (inverted_new ''index'')) t = (if t = a then {10} else {})" for t
    using index_term_refines [where ix = "inverted_new ''index''" and node_num = 10 and t = a] n by simp_all
  have ok: "inverted_ok (example_index a b)" and
    nodes: "nodes_of (example_index a b) t = (if t = b then {20} else if t = a then {10} else {})" for t
    using index_term_refines [OF 1(1), where node_num = 20 and t = b] 1(2,3) assms(1) by (auto simp: example_index_def)
  show "inverted_search a (example_index a b) = Some [10]" "inverted_search b (example_index a b) = Some [20]"
    using assms(1) by (simp_all add: inverted_search_nodes [OF ok] nodes)
  show "iv_path (example_index a b) = ''index''"
    by (simp add: example_index_def index_term_def inverted_new_def split_def Let_def)
  have "ps_postings (iv_postings (example_index a b)) = [(0, [10]), (1, [20])]"
    using assms(1) by (simp add: example_index_def index_term_def inverted_new_def Let_def lex_add_def lex_new_def
        lex_with_block_size_def postings_add_def postings_new_def entry_upd_def get_or_def)
  then show "inverted_storable (example_index a b)"
    using ok assms t bs by (simp add: inverted_storable_def)
qed

theorem reload_permutes_witness:
  "inverted_search [0x61] (example_index [0x62] [0x61]) = Some [20] \<and>
   (\<exists>fs' ix'. inverted_save (example_index [0x62] [0x61]) [] = (Ok (), fs') \<and>
     inverted_load (inverted_new ''index'') fs' = (Ok (), ix') \<and> inverted_search [0x61] ix' = Some [10])"
proof -
  let ?ix = "example_index [0x62] [0x61]"
  have ab: "[0x62] \<noteq> [0x61 :: u8]" by simp
  have t: "term_ok [0x62]" "term_ok [0x61]" by (simp_all add: term_ok_def utf8_valid.simps(2))
  note facts = example_index_facts [OF ab t]
  have sorted: "sort [[0x62], [0x61 :: u8]] = [[0x61], [0x62]]" by simp
  have "prefixes_safe (iv_lexicon ?ix)"
    by (simp add: prefixes_safe_def facts sorted one_block block_safe_def is_char_boundary_def)
  from reload_permutes [OF facts(2) this, of 0 "[]"] show ?thesis
    by (auto simp: facts sorted)
qed

theorem reload_panics_witness:
  "\<exists>fs'. inverted_save (example_index [0xC3, 0xA8] [0xC3, 0xA9]) [] = (Ok (), fs') \<and>
     fst (inverted_load (inverted_new ''index'') fs') = Panic"
proof -
  let ?ix = "example_index [0xC3, 0xA8] [0xC3, 0xA9]"
  have ab: "[0xC3, 0xA8] \<noteq> [0xC3, 0xA9 :: u8]" by simp
  have t: "term_ok [0xC3, 0xA8]" "term_ok [0xC3, 0xA9]" by (simp_all add: term_ok_def utf8_valid.simps(2) utf8_cont_def)
  note facts = example_index_facts [OF ab t]
  have sorted: "sort [[0xC3, 0xA8], [0xC3, 0xA9 :: u8]] = [[0xC3, 0xA8], [0xC3, 0xA9]]" by simp
  have "\<not> prefixes_safe (iv_lexicon ?ix)"
    by (simp add: prefixes_safe_def facts sorted one_block block_safe_def is_char_boundary_def utf8_cont_def)
  from reload_panics [OF facts(2) this, of "[]"] show ?thesis by (simp add: facts)
qed

theorem search_indexed_witness:
  "inverted_search [0x61] (fold (\<lambda>(n, content). index_atom (\<lambda>w. w) n content)
     [(20, [0x62, 0x20, 0x61]), (10, [0x61])] (inverted_new ''index'')) = Some [10, 20]"
proof -
  have w: "split_whitespace (utf8_lossy [0x62, 0x20, 0x61]) = [[0x62], [0x61]]" "split_whitespace (utf8_lossy [0x61]) = [[0x61]]"
    by (simp_all add: split_whitespace_def utf8_lossy.simps utf8_chars.simps char_len_def whitespace_def image_iff)
  have n: "{n. \<exists>content. (n, content) \<in> set [(20, [0x62, 0x20, 0x61]), (10, [0x61])] \<and>
      [0x61] \<in> set (terms_of (\<lambda>w. w) content)} = {10, 20 :: u64}"
    by (auto simp: terms_of_def w)
  have "length (concat (map (\<lambda>d. terms_of (\<lambda>w. w) (snd d)) [(20, [0x62, 0x20, 0x61]), (10 :: u64, [0x61])])) < 2 ^ 32"
    by (simp add: terms_of_def w)
  from search_indexed [OF this, of "[0x61]" "''index''"] show ?thesis by (simp only: n Let_def) simp
qed

end
