(* ===== verification/Floats.thy ===== *)
theory Floats
  imports Prelude Complex_Main
begin

text \<open>
  The floating-point numbers of the language (\<open>f64\<close> and \<open>f32\<close>, IEEE 754 binary64 and binary32): a number is a
  sign, a natural mantissa and a power of two, or an infinity, or not a number. Results are rounded to the
  nearest representable number, ties to the even mantissa. All operations compute; the rational value of a
  finite number states what they mean.
\<close>

section \<open>Numbers and rounding\<close>

datatype fnum = Fnan | Finf bool | Ffin bool nat int

record fformat =
  ff_prec :: nat
  ff_emin :: int
  ff_emax :: int

definition binary64 :: fformat where
  "binary64 = \<lparr>ff_prec = 53, ff_emin = - 1074, ff_emax = 971\<rparr>"

definition binary32 :: fformat where
  "binary32 = \<lparr>ff_prec = 24, ff_emin = - 149, ff_emax = 104\<rparr>"

lemma formats [simp]:
  "ff_prec binary64 = 53" "ff_emin binary64 = - 1074" "ff_emax binary64 = 971"
  "ff_prec binary32 = 24" "ff_emin binary32 = - 149" "ff_emax binary32 = 104"
  by (simp_all add: binary64_def binary32_def)

fun bit_length :: "nat \<Rightarrow> nat" where
  "bit_length n = (if n = 0 then 0 else Suc (bit_length (n div 2)))"

declare bit_length.simps [simp del]

text \<open>A quotient rounded to a natural number, and \<open>num / den * 2 ^ e\<close> as a quotient.\<close>

definition round_half_even :: "nat \<Rightarrow> nat \<Rightarrow> nat" where
  "round_half_even num den =
     (let q = num div den; r = num mod den
      in if 2 * r < den \<or> 2 * r = den \<and> even q then q else q + 1)"

definition scale2 :: "nat \<Rightarrow> nat \<Rightarrow> int \<Rightarrow> nat \<times> nat" where
  "scale2 num den e = (if e \<ge> 0 then (num * 2 ^ nat e, den) else (num, den * 2 ^ nat (- e)))"

text \<open>The exponent of the last place of \<open>num / den * 2 ^ e\<close>, and the number rounded there.\<close>

definition last_place :: "fformat \<Rightarrow> nat \<Rightarrow> nat \<Rightarrow> int \<Rightarrow> int" where
  "last_place f num den e =
     (let x = max (int (bit_length num) - int (bit_length den) + e - int (ff_prec f)) (ff_emin f);
          (n, d) = scale2 num den (e - x)
      in if n div d \<ge> 2 ^ ff_prec f then x + 1 else x)"

definition fround :: "fformat \<Rightarrow> bool \<Rightarrow> nat \<Rightarrow> nat \<Rightarrow> int \<Rightarrow> fnum" where
  "fround f s num den e =
     (if num = 0 then Ffin s 0 0
      else
        let x = last_place f num den e;
            (n, d) = scale2 num den (e - x);
            m = round_half_even n d
        in if x > ff_emax f \<or> x = ff_emax f \<and> m \<ge> 2 ^ ff_prec f then Finf s else Ffin s m x)"

text \<open>A cast of an integer, and a decimal literal.\<close>

definition f_of_nat :: "fformat \<Rightarrow> nat \<Rightarrow> fnum" where
  "f_of_nat f n = fround f False n 1 0"

definition f_lit :: "fformat \<Rightarrow> nat \<Rightarrow> nat \<Rightarrow> fnum" where
  "f_lit f num den = fround f False num den 0"

section \<open>Arithmetic\<close>

definition signed :: "bool \<Rightarrow> nat \<Rightarrow> int" where
  "signed s m = (if s then - int m else int m)"

fun f_neg :: "fnum \<Rightarrow> fnum" where
  "f_neg Fnan = Fnan"
| "f_neg (Finf s) = Finf (\<not> s)"
| "f_neg (Ffin s m e) = Ffin (\<not> s) m e"

fun f_add :: "fformat \<Rightarrow> fnum \<Rightarrow> fnum \<Rightarrow> fnum" where
  "f_add f (Ffin s m e) (Ffin s' m' e') =
     (let x = min e e'; v = signed s m * 2 ^ nat (e - x) + signed s' m' * 2 ^ nat (e' - x)
      in if v = 0 then Ffin (s \<and> s') 0 0 else fround f (v < 0) (nat \<bar>v\<bar>) 1 x)"
| "f_add f Fnan b = Fnan"
| "f_add f a Fnan = Fnan"
| "f_add f (Finf s) (Finf s') = (if s = s' then Finf s else Fnan)"
| "f_add f (Finf s) b = Finf s"
| "f_add f a (Finf s) = Finf s"

definition f_sub :: "fformat \<Rightarrow> fnum \<Rightarrow> fnum \<Rightarrow> fnum" where
  "f_sub f a b = f_add f a (f_neg b)"

fun f_mul :: "fformat \<Rightarrow> fnum \<Rightarrow> fnum \<Rightarrow> fnum" where
  "f_mul f (Ffin s m e) (Ffin s' m' e') = fround f (s \<noteq> s') (m * m') 1 (e + e')"
| "f_mul f Fnan b = Fnan"
| "f_mul f a Fnan = Fnan"
| "f_mul f (Finf s) (Finf s') = Finf (s \<noteq> s')"
| "f_mul f (Finf s) (Ffin s' m' e') = (if m' = 0 then Fnan else Finf (s \<noteq> s'))"
| "f_mul f (Ffin s m e) (Finf s') = (if m = 0 then Fnan else Finf (s \<noteq> s'))"

fun f_div :: "fformat \<Rightarrow> fnum \<Rightarrow> fnum \<Rightarrow> fnum" where
  "f_div f (Ffin s m e) (Ffin s' m' e') =
     (if m' = 0 then (if m = 0 then Fnan else Finf (s \<noteq> s')) else fround f (s \<noteq> s') m m' (e - e'))"
| "f_div f Fnan b = Fnan"
| "f_div f a Fnan = Fnan"
| "f_div f (Finf s) (Finf s') = Fnan"
| "f_div f (Finf s) (Ffin s' m' e') = Finf (s \<noteq> s')"
| "f_div f (Ffin s m e) (Finf s') = Ffin (s \<noteq> s') 0 0"

section \<open>Comparison and conversion\<close>

fun f_lt :: "fnum \<Rightarrow> fnum \<Rightarrow> bool" where
  "f_lt (Ffin s m e) (Ffin s' m' e') \<longleftrightarrow>
     (let x = min e e' in signed s m * 2 ^ nat (e - x) < signed s' m' * 2 ^ nat (e' - x))"
| "f_lt Fnan b \<longleftrightarrow> False"
| "f_lt a Fnan \<longleftrightarrow> False"
| "f_lt (Finf s) (Finf s') \<longleftrightarrow> s \<and> \<not> s'"
| "f_lt (Finf s) b \<longleftrightarrow> s"
| "f_lt a (Finf s') \<longleftrightarrow> \<not> s'"

fun f_eq :: "fnum \<Rightarrow> fnum \<Rightarrow> bool" where
  "f_eq (Ffin s m e) (Ffin s' m' e') \<longleftrightarrow>
     (let x = min e e' in signed s m * 2 ^ nat (e - x) = signed s' m' * 2 ^ nat (e' - x))"
| "f_eq (Finf s) (Finf s') \<longleftrightarrow> s = s'"
| "f_eq a b \<longleftrightarrow> False"

definition f_le :: "fnum \<Rightarrow> fnum \<Rightarrow> bool" where
  "f_le a b \<longleftrightarrow> f_lt a b \<or> f_eq a b"

abbreviation fzero :: fnum where "fzero \<equiv> Ffin False 0 0"

definition f_min :: "fnum \<Rightarrow> fnum \<Rightarrow> fnum" where
  "f_min a b = (if a = Fnan then b else if b = Fnan then a else if f_lt b a then b else a)"

text \<open>\<open>clamp\<close> keeps a NaN; the cast to an unsigned integer cuts the fraction off and saturates.\<close>

definition f_clamp :: "fnum \<Rightarrow> fnum \<Rightarrow> fnum \<Rightarrow> fnum" where
  "f_clamp a lo hi = (if f_lt a lo then lo else if f_lt hi a then hi else a)"

fun f_to_nat :: "nat \<Rightarrow> fnum \<Rightarrow> nat" where
  "f_to_nat limit Fnan = 0"
| "f_to_nat limit (Finf s) = (if s then 0 else limit)"
| "f_to_nat limit (Ffin s m e) =
     (if s then 0 else min limit (let (n, d) = scale2 m 1 e in n div d))"

section \<open>Values\<close>

fun f_val :: "fnum \<Rightarrow> rat" where
  "f_val (Ffin s m e) = (if s then - 1 else 1) * of_nat m * 2 powi e"
| "f_val _ = 0"

fun f_finite :: "fnum \<Rightarrow> bool" where
  "f_finite (Ffin s m e) = True"
| "f_finite _ = False"

lemma powi_split: "x \<le> e \<Longrightarrow> (2 :: rat) powi e = 2 ^ nat (e - x) * 2 powi x"
proof -
  assume "x \<le> e"
  then have "e = int (nat (e - x)) + x" by simp
  then show ?thesis by (metis power_int_add power_int_of_nat zero_neq_numeral)
qed

lemma of_int_signed: "(of_int (signed s m) :: rat) = (if s then - 1 else 1) * of_nat m"
  by (simp add: signed_def)

lemma f_val_signed: "x \<le> e \<Longrightarrow> f_val (Ffin s m e) = of_int (signed s m * 2 ^ nat (e - x)) * 2 powi x"
  by (simp add: powi_split [of x e] signed_def)

lemma powi_pos [simp]: "(0 :: rat) < 2 powi x" "\<not> 2 powi x < (0 :: rat)"
  by (simp_all add: not_less)

text \<open>On finite numbers the comparisons compare the values.\<close>

lemma f_vals_common:
  fixes e e' :: int
  defines "x \<equiv> min e e'"
  shows "f_val (Ffin s m e) = of_int (signed s m * 2 ^ nat (e - x)) * 2 powi x"
    "f_val (Ffin s' m' e') = of_int (signed s' m' * 2 ^ nat (e' - x)) * 2 powi x"
  unfolding x_def by (rule f_val_signed, simp)+

lemma f_lt_val: "f_lt (Ffin s m e) (Ffin s' m' e') \<longleftrightarrow> f_val (Ffin s m e) < f_val (Ffin s' m' e')"
  unfolding f_vals_common(1) [where e' = e' and e = e] f_vals_common(2) [where e' = e' and e = e] f_lt.simps Let_def
    mult_less_cancel_right_pos [OF powi_pos(1)] of_int_less_iff by simp

lemma f_eq_val: "f_eq (Ffin s m e) (Ffin s' m' e') \<longleftrightarrow> f_val (Ffin s m e) = f_val (Ffin s' m' e')"
  unfolding f_vals_common(1) [where e' = e' and e = e] f_vals_common(2) [where e' = e' and e = e] f_eq.simps Let_def
    mult_cancel_right of_int_eq_iff by simp

lemma f_lt_irrefl [simp]: "\<not> f_lt a a"
  by (cases a) (auto simp: Let_def)

lemma f_lt_not_le: "f_lt a b \<Longrightarrow> \<not> f_le b a"
proof (cases a; cases b)
  fix s m e s' m' e'
  assume "f_lt a b" and ab: "a = Ffin s m e" "b = Ffin s' m' e'"
  then have "f_val a < f_val b" by (simp only: f_lt_val)
  then show "\<not> f_le b a" unfolding f_le_def ab f_lt_val f_eq_val by simp
qed (auto simp: f_le_def)


section \<open>Rounding is correct\<close>

lemma bit_length_bounds: "n < 2 ^ bit_length n" "0 < n \<Longrightarrow> 2 ^ bit_length n \<le> 2 * n"
proof (induction n rule: bit_length.induct)
  case (1 n)
  {
    case 1
    then show ?case using "1.IH"(1) by (subst bit_length.simps) (auto, linarith?)
  next
    case 2
    then show ?case using "1.IH"(2) by (subst bit_length.simps) (cases "n = 1"; auto simp: bit_length.simps; linarith?)
  }
qed

lemma scale2_val:
  assumes "scale2 num den e = (n, d)" "0 < den"
  shows "0 < d" "(of_nat n / of_nat d :: rat) = of_nat num / of_nat den * 2 powi e"
proof -
  show "0 < d" using assms by (auto simp: scale2_def split: if_splits)
  show "(of_nat n / of_nat d :: rat) = of_nat num / of_nat den * 2 powi e"
    using assms by (auto simp: scale2_def power_int_def field_simps split: if_splits)
qed

lemma div_le_rat: "0 < d \<Longrightarrow> k \<le> n div d \<longleftrightarrow> (of_nat k :: rat) \<le> of_nat n / of_nat d"
proof -
  assume "0 < d"
  then have "k \<le> n div d \<longleftrightarrow> k * d \<le> n" by (simp add: less_eq_div_iff_mult_less_eq)
  also have "\<dots> \<longleftrightarrow> (of_nat (k * d) :: rat) \<le> of_nat n" by (simp only: of_nat_le_iff)
  finally show ?thesis using \<open>0 < d\<close> by (simp add: pos_le_divide_eq)
qed

lemma round_half_even_exact: "0 < d \<Longrightarrow> of_nat n / of_nat d = (of_nat k :: rat) \<Longrightarrow> round_half_even n d = k"
proof -
  assume "0 < d" "of_nat n / of_nat d = (of_nat k :: rat)"
  then have "(of_nat n :: rat) = of_nat (k * d)" by (simp add: field_simps)
  then have "n = k * d" by (simp only: of_nat_eq_iff)
  with \<open>0 < d\<close> show ?thesis by (simp add: round_half_even_def)
qed


text \<open>The last place is the smallest one at which the number has at most \<open>ff_prec\<close> digits.\<close>

lemma quotient_bounds:
  assumes "0 < num" "0 < den"
  shows "(of_nat num / of_nat den :: rat) < 2 powi (int (bit_length num) - int (bit_length den) + 1)"
    "2 powi (int (bit_length num) - int (bit_length den) - 1) < (of_nat num / of_nat den :: rat)"
proof -
  have *: "(of_nat a :: rat) < 2 ^ bit_length a \<and> 2 ^ bit_length a \<le> (2 :: rat) * of_nat a" if "0 < a" for a
    using bit_length_bounds [of a] that
    by (metis of_nat_less_iff of_nat_le_iff of_nat_power of_nat_numeral of_nat_mult)
  have n: "(of_nat num :: rat) < 2 ^ bit_length num" "2 ^ bit_length num \<le> (2 :: rat) * of_nat num"
    and d: "(of_nat den :: rat) < 2 ^ bit_length den" "2 ^ bit_length den \<le> (2 :: rat) * of_nat den"
    using * assms by auto
  have p: "(2 :: rat) powi (int (bit_length num) - int (bit_length den) + c) = 2 ^ bit_length num / 2 ^ bit_length den * 2 powi c" for c
    by (simp add: power_int_add power_int_diff)
  have "(of_nat num :: rat) * 2 ^ bit_length den < 2 ^ bit_length num * (2 * of_nat den)"
    by (rule mult_less_le_imp_less) (use n d assms in auto)
  then show "(of_nat num / of_nat den :: rat) < 2 powi (int (bit_length num) - int (bit_length den) + 1)"
    using assms by (simp only: p) (simp add: field_simps)
  have e: "(2 :: rat) powi (int (bit_length num) - int (bit_length den) - 1) = 2 ^ bit_length num / (2 * 2 ^ bit_length den)"
    using p [of "- 1"] by (simp add: power_int_minus)
  have "(2 :: rat) ^ bit_length num * of_nat den < (2 * of_nat num) * 2 ^ bit_length den"
    by (rule mult_le_less_imp_less) (use n d assms in auto)
  then show "2 powi (int (bit_length num) - int (bit_length den) - 1) < (of_nat num / of_nat den :: rat)"
    unfolding e using assms by (simp add: field_simps)
qed

lemma last_place_bounds:
  fixes q :: rat
  assumes "0 < num" "0 < den" "0 < ff_prec f" and q: "q = of_nat num / of_nat den * 2 powi e"
  defines "x \<equiv> last_place f num den e"
  shows "ff_emin f \<le> x" "q < 2 powi (int (ff_prec f) + x)"
    "x = ff_emin f \<or> 2 powi (int (ff_prec f) - 1 + x) \<le> q"
proof -
  let ?p = "int (ff_prec f)"
  let ?k = "int (bit_length num) - int (bit_length den) + e"
  let ?x = "max (?k - ?p) (ff_emin f)"
  obtain n d where nd: "scale2 num den (e - ?x) = (n, d)" by force
  from scale2_val [OF nd \<open>0 < den\<close>] have d: "0 < d" and r: "(of_nat n / of_nat d :: rat) = q / 2 powi ?x"
    by (simp_all add: q power_int_diff)
  have big: "2 ^ ff_prec f \<le> n div d \<longleftrightarrow> 2 powi (?p + ?x) \<le> q"
    unfolding div_le_rat [OF d] r by (simp add: power_int_add field_simps)
  have "q < 2 powi (?k + 1)" "2 powi (?k - 1) < q"
    using mult_strict_right_mono [OF quotient_bounds(1) [OF assms(1,2)], of "2 powi e"]
      mult_strict_right_mono [OF quotient_bounds(2) [OF assms(1,2)], of "2 powi e"]
    by (simp_all add: q power_int_add [symmetric] algebra_simps)
  have x: "x = (if 2 powi (?p + ?x) \<le> q then ?x + 1 else ?x)"
    by (simp add: x_def last_place_def Let_def nd big)
  show "ff_emin f \<le> x" unfolding x by (auto simp: max_def)
  have "(2 :: rat) powi (?k + 1) \<le> 2 powi (?p + (?x + 1))" by (simp add: power_int_increasing)
  with \<open>q < 2 powi (?k + 1)\<close> show "q < 2 powi (?p + x)" by (auto simp: x not_le)
  show "x = ff_emin f \<or> 2 powi (?p - 1 + x) \<le> q"
  proof (cases "2 powi (?p + ?x) \<le> q")
    case True
    then show ?thesis by (simp add: x algebra_simps)
  next
    case False
    show ?thesis
    proof (cases "?x = ff_emin f")
      case xf: False
      then have "?x = ?k - ?p" by auto
      with \<open>2 powi (?k - 1) < q\<close> False show ?thesis by (simp add: x algebra_simps)
    qed (use False in \<open>simp add: x\<close>)
  qed
qed

text \<open>A representable number is not changed, whatever form it is given in.\<close>

lemma fround_exact:
  fixes q :: rat
  assumes "0 < den" "0 < ff_prec f" and q: "q = of_nat num / of_nat den * 2 powi e"
    and m: "q = of_nat m * 2 powi y" "m < 2 ^ ff_prec f" "ff_emin f \<le> y" "y \<le> ff_emax f"
  shows "\<exists>k x. fround f s num den e = Ffin s k x \<and> of_nat k * 2 powi x = q"
proof (cases "num = 0")
  case True
  then show ?thesis using q by (auto simp: fround_def)
next
  case False
  let ?x = "last_place f num den e"
  note lp = last_place_bounds [OF _ assms(1,2) q]
  have y: "?x \<le> y"
  proof (cases "?x = ff_emin f")
    case xf: False
    with lp False have "2 powi (int (ff_prec f) - 1 + ?x) \<le> q" by blast
    also have "(of_nat m :: rat) < 2 ^ ff_prec f" using m(2) by (metis of_nat_less_iff of_nat_numeral of_nat_power)
    then have "q < 2 powi (int (ff_prec f) + y)" by (simp add: m(1) power_int_add)
    finally have "int (ff_prec f) - 1 + ?x < int (ff_prec f) + y" by (meson not_less one_le_numeral power_int_increasing)
    then show ?thesis by simp
  qed (use m in simp)
  obtain n d where nd: "scale2 num den (e - ?x) = (n, d)" by force
  from scale2_val [OF nd \<open>0 < den\<close>] have d: "0 < d" and r: "(of_nat n / of_nat d :: rat) = q / 2 powi ?x"
    by (simp_all add: q power_int_diff)
  let ?k = "m * 2 ^ nat (y - ?x)"
  have k: "of_nat ?k * 2 powi ?x = q" using powi_split [OF y] by (simp add: m(1))
  then have "of_nat n / of_nat d = (of_nat ?k :: rat)" by (simp add: r field_simps)
  then have "round_half_even n d = ?k" by (rule round_half_even_exact [OF d])
  with False nd y m(2,4) k show ?thesis by (auto simp: fround_def Let_def)
qed


section \<open>Natural numbers as floating-point numbers\<close>

definition f_is :: "fnum \<Rightarrow> nat \<Rightarrow> bool" where
  "f_is a n \<longleftrightarrow> (\<exists>k x. a = Ffin False k x \<and> of_nat k * 2 powi x = (of_nat n :: rat))"

definition holds_integers :: "fformat \<Rightarrow> bool" where
  "holds_integers f \<longleftrightarrow> 0 < ff_prec f \<and> ff_emin f \<le> 0 \<and> 0 \<le> ff_emax f"

lemma holds_integers [simp]: "holds_integers binary64" "holds_integers binary32"
  by (simp_all add: holds_integers_def)

lemma f_is_of_nat: "holds_integers f \<Longrightarrow> n < 2 ^ ff_prec f \<Longrightarrow> f_is (f_of_nat f n) n"
  using fround_exact [of 1 f "of_nat n" n 0 n 0 False] by (auto simp: f_is_def f_of_nat_def holds_integers_def)

lemma f_is_add:
  assumes a: "f_is a m" and b: "f_is b n" and f: "holds_integers f" "m + n < 2 ^ ff_prec f"
  shows "f_is (f_add f a b) (m + n)"
proof -
  obtain k x k' x' where ab: "a = Ffin False k x" "b = Ffin False k' x'"
    and v: "of_nat k * 2 powi x = (of_nat m :: rat)" "of_nat k' * 2 powi x' = (of_nat n :: rat)"
    using a b by (auto simp: f_is_def)
  define y where "y = min x x'"
  define n' where "n' = k * 2 ^ nat (x - y) + k' * 2 ^ nat (x' - y)"
  have s: "of_nat n' * 2 powi y = (of_nat (m + n) :: rat)"
    using v powi_split [of y x] powi_split [of y x'] by (simp add: y_def n'_def algebra_simps)
  have sum: "signed False k * 2 ^ nat (x - y) + signed False k' * 2 ^ nat (x' - y) = int n'"
    by (simp add: signed_def n'_def)
  have add: "f_add f a b = (if n' = 0 then fzero else fround f False n' 1 y)"
    unfolding ab f_add.simps y_def [symmetric] Let_def sum by simp
  show ?thesis
  proof (cases "n' = 0")
    case True
    with add s show ?thesis by (simp add: f_is_def)
  next
    case False
    with add show ?thesis
      using fround_exact [of 1 f "of_nat (m + n)" n' y "m + n" 0 False] s f
      by (auto simp: f_is_def holds_integers_def)
  qed
qed

lemma f_is_zero [simp]: "f_is fzero 0"
  by (simp add: f_is_def)

lemma f_is_pos: "f_is a n \<Longrightarrow> f_lt fzero a \<longleftrightarrow> 0 < n"
  by (auto simp: f_is_def f_lt_val simp del: f_lt.simps)

lemma f_is_lt: "f_is a m \<Longrightarrow> f_is b n \<Longrightarrow> f_lt a b \<longleftrightarrow> m < n"
  by (auto simp: f_is_def f_lt_val simp del: f_lt.simps)

lemma f_is_eq: "f_is a m \<Longrightarrow> f_is b n \<Longrightarrow> f_eq a b \<longleftrightarrow> m = n"
  by (auto simp: f_is_def f_eq_val simp del: f_eq.simps)

text \<open>A quotient of a number that is not negative by a positive one is a number above minus infinity.\<close>

lemma fround_positive [simp]: "f_lt (Finf True) (fround f False num den e)"
  by (simp add: fround_def Let_def split: prod.split)

lemma f_div_above:
  assumes "f_is a n" "f_lt fzero c" shows "f_lt (Finf True) (f_div f a c)"
proof (cases c)
  case (Ffin s m e)
  from assms(2) have "0 < f_val c" unfolding Ffin f_lt_val by simp
  then have "\<not> s \<and> 0 < m" by (auto simp: Ffin zero_less_mult_iff split: if_splits)
  with assms(1) Ffin show ?thesis by (auto simp: f_is_def)
qed (use assms in \<open>auto simp: f_is_def\<close>)

text \<open>From \<open>2 ^ 60\<close> on, a double counts in steps of 256; today's time in nanoseconds is in this range.\<close>

lemma bit_length_eq: "2 ^ k \<le> n \<Longrightarrow> n < 2 ^ Suc k \<Longrightarrow> bit_length n = Suc k"
proof (induction k arbitrary: n)
  case 0
  then have "n = 1" by simp
  then show ?case by (simp add: bit_length.simps)
next
  case (Suc k)
  then have "2 ^ k \<le> n div 2" "n div 2 < 2 ^ Suc k" by (simp_all add: less_mult_imp_div_less)
  with Suc show ?case by (subst bit_length.simps) simp
qed

lemma bit_length_1 [simp]: "bit_length (Suc 0) = 1"
  by (simp add: bit_length.simps)

lemma f64_of_time:
  assumes "2 ^ 60 \<le> t" "t < 2 ^ 61"
  shows "f_of_nat binary64 t = Ffin False (round_half_even t 256) 8"
proof -
  have b: "bit_length t = 61" using bit_length_eq [of 60 t] assms by simp
  have "2 ^ 53 \<le> t div 128" using assms(1) by simp
  then have x: "last_place binary64 t 1 0 = 8"
    by (simp add: last_place_def b scale2_def Let_def)
  from assms have "0 < t" by simp
  then show ?thesis by (simp add: f_of_nat_def fround_def x [simplified] Let_def scale2_def)
qed

lemma f64_of_time_Suc:
  assumes "2 ^ 60 \<le> t" "t + 1 < 2 ^ 61" "t mod 256 \<noteq> 127" "t mod 256 \<noteq> 128"
  shows "f_of_nat binary64 (t + 1) = f_of_nat binary64 t"
proof -
  have "round_half_even (t + 1) 256 = round_half_even t 256"
  proof (cases "t mod 256 = 255")
    case True
    then have "Suc t mod 256 = 0" "Suc t div 256 = Suc (t div 256)" by (simp_all add: mod_Suc div_Suc)
    with True show ?thesis by (simp add: round_half_even_def Let_def)
  next
    case False
    then have "Suc t mod 256 = Suc (t mod 256)" "Suc t div 256 = t div 256" by (simp_all add: mod_Suc div_Suc)
    with assms(3,4) show ?thesis by (simp add: round_half_even_def Let_def)
  qed
  with f64_of_time [of t] f64_of_time [of "t + 1"] assms show ?thesis by simp
qed

end
