(* ===== verification/Query_Types.thy ===== *)
theory Query_Types
  imports Store_Types Vm_Code Floats
begin

text \<open>
  The types a query is made of: claim patterns, hints and stop conditions of \<open>src/store/mod.rs\<close>, gaps, entity
  references and cost weights of \<open>src/store/api.rs\<close>, the goal and the configuration of \<open>src/query/solver.rs\<close>.
  Text is UTF-8 bytes; \<open>utf8\<close> gives the bytes of an ASCII literal.
\<close>

type_synonym GapId = u32
type_synonym CtxId = u32
type_synonym str = bytes

definition utf8 :: "string \<Rightarrow> str" where
  "utf8 s = map of_char s"

section \<open>Patterns, hints and conditions\<close>

datatype PatternRef = PAny | PSym SymId | PNode NodeNum | PRange i64 i64 | PSet "SymId list"

definition pattern_is_any :: "PatternRef \<Rightarrow> bool" where
  "pattern_is_any p \<longleftrightarrow> p = PAny"

definition pattern_as_node :: "PatternRef \<Rightarrow> NodeNum option" where
  "pattern_as_node p = (case p of PNode n \<Rightarrow> Some n | _ \<Rightarrow> None)"

definition pattern_as_sym :: "PatternRef \<Rightarrow> SymId option" where
  "pattern_as_sym p = (case p of PSym s \<Rightarrow> Some s | _ \<Rightarrow> None)"

record ClaimPattern =
  cp_subj :: PatternRef
  cp_pred :: PatternRef
  cp_obj_tag :: "ObjTag option"
  cp_obj :: PatternRef
  cp_qualifiers_mask :: u32

definition claim_pattern_default :: ClaimPattern where
  "claim_pattern_default =
     \<lparr>cp_subj = PAny, cp_pred = PAny, cp_obj_tag = None, cp_obj = PAny, cp_qualifiers_mask = 0\<rparr>"

record NavHint =
  nh_seed_nodes :: "NodeNum list"
  nh_edge_types :: "EdgeType list"
  nh_max_depth :: u8
  nh_fanout_limit :: u16

definition nav_hint_default :: NavHint where
  "nav_hint_default = \<lparr>nh_seed_nodes = [], nh_edge_types = [], nh_max_depth = 3, nh_fanout_limit = 128\<rparr>"

record StopCond =
  st_max_nodes :: u32
  st_max_io_bytes :: u64
  st_min_trust :: TrustLevel
  st_max_conflicts :: u32

definition stop_cond_default :: StopCond where
  "stop_cond_default = \<lparr>st_max_nodes = 0, st_max_io_bytes = 0, st_min_trust = 0, st_max_conflicts = 0\<rparr>"

section \<open>Gaps\<close>

record Gap =
  gap_id :: GapId
  gap_kind :: GapKind
  gap_priority :: u8
  gap_pattern :: ClaimPattern
  gap_nav :: NavHint
  gap_stop :: StopCond
  gap_generation :: u32
  gap_covered :: bool
  gap_covered_by :: "AtomId option"

definition gap_new :: "GapId \<Rightarrow> GapKind \<Rightarrow> ClaimPattern \<Rightarrow> Gap" where
  "gap_new i kind pattern =
     \<lparr>gap_id = i, gap_kind = kind, gap_priority = 128, gap_pattern = pattern, gap_nav = nav_hint_default,
      gap_stop = stop_cond_default, gap_generation = 0, gap_covered = False, gap_covered_by = None\<rparr>"

definition gap_high_priority :: "GapId \<Rightarrow> GapKind \<Rightarrow> ClaimPattern \<Rightarrow> Gap" where
  "gap_high_priority i kind pattern =
     \<lparr>gap_id = i, gap_kind = kind, gap_priority = 200, gap_pattern = pattern, gap_nav = nav_hint_default,
      gap_stop = stop_cond_default, gap_generation = 0, gap_covered = False, gap_covered_by = None\<rparr>"

definition with_priority :: "u8 \<Rightarrow> Gap \<Rightarrow> Gap" where "with_priority p g = g\<lparr>gap_priority := p\<rparr>"
definition with_nav :: "NavHint \<Rightarrow> Gap \<Rightarrow> Gap" where "with_nav n g = g\<lparr>gap_nav := n\<rparr>"
definition with_stop :: "StopCond \<Rightarrow> Gap \<Rightarrow> Gap" where "with_stop s g = g\<lparr>gap_stop := s\<rparr>"
definition with_generation :: "u32 \<Rightarrow> Gap \<Rightarrow> Gap" where "with_generation n g = g\<lparr>gap_generation := n\<rparr>"

definition mark_covered :: "AtomId \<Rightarrow> Gap \<Rightarrow> Gap" where
  "mark_covered atom_id g = g\<lparr>gap_covered := True, gap_covered_by := Some atom_id\<rparr>"

definition gap_needs_graph_walk :: "Gap \<Rightarrow> bool" where
  "gap_needs_graph_walk g \<longleftrightarrow> gap_kind_needs_graph_walk (gap_kind g) \<or> nh_edge_types (gap_nav g) \<noteq> []"

definition gap_needs_definition :: "Gap \<Rightarrow> bool" where
  "gap_needs_definition g \<longleftrightarrow> gap_kind_needs_definition (gap_kind g)"

definition gap_needs_evidence :: "Gap \<Rightarrow> bool" where
  "gap_needs_evidence g \<longleftrightarrow> gap_kind g = NEED_EVIDENCE"

definition gap_needs_causal_chain :: "Gap \<Rightarrow> bool" where
  "gap_needs_causal_chain g \<longleftrightarrow> gap_kind g = NEED_CAUSAL_CHAIN"

section \<open>Entities and weights\<close>

datatype EntityRef = ESym SymId | ETerm u32 | ENode NodeNum | EAtom AtomId

definition entity_is_node :: "EntityRef \<Rightarrow> bool" where
  "entity_is_node e = (case e of ENode _ \<Rightarrow> True | _ \<Rightarrow> False)"

definition entity_as_node :: "EntityRef \<Rightarrow> NodeNum option" where
  "entity_as_node e = (case e of ENode n \<Rightarrow> Some n | _ \<Rightarrow> None)"

record CostWeights =
  w_N :: fnum
  w_E :: fnum
  w_IO :: fnum
  w_C :: fnum
  w_S :: fnum
  w_T :: fnum
  w_A :: fnum
  w_D :: fnum

definition cost_weights_new ::
  "fnum \<Rightarrow> fnum \<Rightarrow> fnum \<Rightarrow> fnum \<Rightarrow> fnum \<Rightarrow> fnum \<Rightarrow> fnum \<Rightarrow> fnum \<Rightarrow> CostWeights" where
  "cost_weights_new wN wE wIO wC wS wT wA wD =
     \<lparr>w_N = wN, w_E = wE, w_IO = wIO, w_C = wC, w_S = wS, w_T = wT, w_A = wA, w_D = wD\<rparr>"

definition cost_weights_default :: CostWeights where
  "cost_weights_default =
     \<lparr>w_N = f_lit binary64 1 1, w_E = f_lit binary64 2 10, w_IO = f_lit binary64 2 1, w_C = f_lit binary64 1000000 1,
      w_S = f_lit binary64 1000 1, w_T = f_lit binary64 10 1, w_A = f_lit binary64 1 1, w_D = f_lit binary64 5 1\<rparr>"

definition f64_of :: "'a::len word \<Rightarrow> fnum" where
  "f64_of x = f_of_nat binary64 (unat x)"

definition weights_calculate_cost ::
  "nat \<Rightarrow> nat \<Rightarrow> u64 \<Rightarrow> u32 \<Rightarrow> u32 \<Rightarrow> fnum \<Rightarrow> fnum \<Rightarrow> fnum \<Rightarrow> CostWeights \<Rightarrow> fnum" where
  "weights_calculate_cost node_count edge_count io_bytes hard_conflicts soft_conflicts avg_trust_inverse age_penalty
     domain_penalty w =
     foldl (f_add binary64) (f_mul binary64 (w_N w) (f_of_nat binary64 node_count))
       [f_mul binary64 (w_E w) (f_of_nat binary64 edge_count),
        f_mul binary64 (w_IO w) (f64_of io_bytes),
        f_mul binary64 (w_C w) (f64_of hard_conflicts),
        f_mul binary64 (w_S w) (f64_of soft_conflicts),
        f_mul binary64 (w_T w) avg_trust_inverse,
        f_mul binary64 (w_A w) age_penalty,
        f_mul binary64 (w_D w) domain_penalty]"

definition gap_benefit :: "u8 \<Rightarrow> fnum" where
  "gap_benefit priority = f64_of priority"

lemma f_is_f64_of: "LENGTH('a::len) \<le> 53 \<Longrightarrow> f_is (f64_of (x :: 'a word)) (unat x)"
proof -
  assume "LENGTH('a) \<le> 53"
  then have "(2 :: nat) ^ LENGTH('a) \<le> 2 ^ 53" by (rule power_increasing) simp
  moreover have "unat x < 2 ^ LENGTH('a)" by (rule unsigned_less)
  ultimately have "unat x < 2 ^ 53" by linarith
  then show ?thesis unfolding f64_of_def by (intro f_is_of_nat) simp_all
qed

end
