(* ===== verification/Set_Cover.thy ===== *)
theory Set_Cover
  imports Query_Types
begin

text \<open>
  The greedy weighted set cover of \<open>src/query/set_cover.rs\<close>: candidates with their cost and benefit, the choice of
  the best one, and the two loops. Costs are floating-point numbers. The set of covered gaps is a list
  without repetition, so that its size is its length.
\<close>

section \<open>Candidates\<close>

record AtomCandidate =
  ac_atom_id :: AtomId
  ac_atom_type :: AtomType
  ac_trust :: TrustLevel
  ac_edge_count :: u32
  ac_io_bytes :: u32
  ac_covers_gaps :: "GapId list"

definition ac_new :: "AtomId \<Rightarrow> AtomType \<Rightarrow> AtomCandidate" where
  "ac_new a t =
     \<lparr>ac_atom_id = a, ac_atom_type = t, ac_trust = 5000, ac_edge_count = 0, ac_io_bytes = 256, ac_covers_gaps = []\<rparr>"

definition ac_with_trust :: "TrustLevel \<Rightarrow> AtomCandidate \<Rightarrow> AtomCandidate" where "ac_with_trust t c = c\<lparr>ac_trust := t\<rparr>"
definition ac_with_edges :: "u32 \<Rightarrow> AtomCandidate \<Rightarrow> AtomCandidate" where "ac_with_edges n c = c\<lparr>ac_edge_count := n\<rparr>"
definition ac_with_io_bytes :: "u32 \<Rightarrow> AtomCandidate \<Rightarrow> AtomCandidate" where "ac_with_io_bytes n c = c\<lparr>ac_io_bytes := n\<rparr>"
definition ac_with_covers_gaps :: "GapId list \<Rightarrow> AtomCandidate \<Rightarrow> AtomCandidate" where
  "ac_with_covers_gaps gs c = c\<lparr>ac_covers_gaps := gs\<rparr>"
definition ac_add_gap :: "GapId \<Rightarrow> AtomCandidate \<Rightarrow> AtomCandidate" where
  "ac_add_gap g c = c\<lparr>ac_covers_gaps := ac_covers_gaps c @ [g]\<rparr>"

definition ac_calculate_cost :: "CostWeights \<Rightarrow> AtomCandidate \<Rightarrow> fnum" where
  "ac_calculate_cost w c =
     (let trust_normalized = f_div binary64 (f64_of (ac_trust c)) (f_lit binary64 100 1);
          trust_penalty = f_sub binary64 (f_lit binary64 100 1) trust_normalized
      in foldl (f_add binary64) (f_mul binary64 (w_N w) (f_lit binary64 1 1))
           [f_mul binary64 (w_E w) (f64_of (ac_edge_count c)), f_mul binary64 (w_IO w) (f64_of (ac_io_bytes c)),
            f_mul binary64 (w_T w) trust_penalty])"

text \<open>\<open>sum\<close> of floating-point numbers adds from the left, from zero.\<close>

definition f_sum :: "fnum list \<Rightarrow> fnum" where
  "f_sum xs = foldl (f_add binary64) fzero xs"

definition find_gap :: "Gap list \<Rightarrow> GapId \<Rightarrow> Gap option" where
  "find_gap gaps i = find (\<lambda>g. gap_id g = i) gaps"

definition ac_calculate_benefit :: "Gap list \<Rightarrow> GapId list \<Rightarrow> AtomCandidate \<Rightarrow> fnum" where
  "ac_calculate_benefit gaps covered c =
     f_sum (map (\<lambda>g. f64_of (gap_priority g))
       (List.map_filter (find_gap gaps) (filter (\<lambda>i. i \<notin> set covered) (ac_covers_gaps c))))"

definition cost_benefit_ratio :: "Gap list \<Rightarrow> GapId list \<Rightarrow> CostWeights \<Rightarrow> AtomCandidate \<Rightarrow> fnum \<times> fnum \<times> fnum" where
  "cost_benefit_ratio gaps covered w c =
     (let benefit = ac_calculate_benefit gaps covered c; cost = ac_calculate_cost w c;
          ratio = (if f_lt fzero cost then f_div binary64 benefit cost else Finf False)
      in (ratio, benefit, cost))"

section \<open>The result\<close>

record SetCoverResult =
  sr_selected_atoms :: "AtomId list"
  sr_total_cost :: fnum
  sr_coverage_ratio :: fnum
  sr_gaps_covered :: nat
  sr_total_gaps :: nat
  sr_selected_indices :: "nat list"

definition result_empty :: "nat \<Rightarrow> SetCoverResult" where
  "result_empty total_gaps =
     \<lparr>sr_selected_atoms = [], sr_total_cost = fzero, sr_coverage_ratio = fzero, sr_gaps_covered = 0,
      sr_total_gaps = total_gaps, sr_selected_indices = []\<rparr>"

definition result_is_complete :: "SetCoverResult \<Rightarrow> bool" where
  "result_is_complete r \<longleftrightarrow> sr_gaps_covered r \<ge> sr_total_gaps r"

definition result_atom_count :: "SetCoverResult \<Rightarrow> nat" where
  "result_atom_count r = length (sr_selected_atoms r)"

section \<open>The greedy loops\<close>

text \<open>The best candidate so far: its index, ratio and cost.\<close>

type_synonym best = "nat option \<times> fnum \<times> fnum"

definition weigh :: "AtomCandidate list \<Rightarrow> nat \<Rightarrow> fnum \<times> fnum \<times> fnum \<Rightarrow> best \<Rightarrow> best" where
  "weigh candidates idx = (\<lambda>(ratio, benefit, cost) (best_idx, best_ratio, best_cost).
     let wins_tie = (case best_idx of None \<Rightarrow> False
           | Some best \<Rightarrow> ac_atom_id (candidates ! idx) < ac_atom_id (candidates ! best))
     in if f_lt fzero benefit \<and> (f_lt best_ratio ratio \<or> f_eq ratio best_ratio \<and> wins_tie)
        then (Some idx, ratio, cost) else (best_idx, best_ratio, best_cost))"

definition best_candidate :: "Gap list \<Rightarrow> AtomCandidate list \<Rightarrow> CostWeights \<Rightarrow> GapId list \<Rightarrow> nat list \<Rightarrow> best" where
  "best_candidate gaps candidates w covered available =
     fold (\<lambda>idx. weigh candidates idx (cost_benefit_ratio gaps covered w (candidates ! idx))) available
       (None, Finf True, fzero)"

record Cover =
  cv_covered :: "GapId list"
  cv_selected :: "nat list"
  cv_total_cost :: fnum
  cv_available :: "nat list"

definition cover_start :: "AtomCandidate list \<Rightarrow> Cover" where
  "cover_start candidates =
     \<lparr>cv_covered = [], cv_selected = [], cv_total_cost = fzero, cv_available = [0..<length candidates]\<rparr>"

definition cover_add :: "AtomCandidate list \<Rightarrow> nat \<Rightarrow> fnum \<Rightarrow> Cover \<Rightarrow> Cover" where
  "cover_add candidates idx cost s =
     s\<lparr>cv_selected := cv_selected s @ [idx],
       cv_total_cost := f_add binary64 (cv_total_cost s) cost,
       cv_covered := fold List.insert (ac_covers_gaps (candidates ! idx)) (cv_covered s),
       cv_available := filter (\<lambda>i. i \<noteq> idx) (cv_available s)\<rparr>"

lemma weigh_index: "fst (weigh candidates idx t b) \<in> {Some idx, fst b}"
  by (cases t; cases b) (simp add: weigh_def Let_def)

lemma fold_index:
  assumes "\<And>idx b. fst (f idx b) \<in> {Some idx, fst b}" "fst (fold f xs b) = Some i"
  shows "i \<in> set xs \<or> fst b = Some i"
  using assms(2)
proof (induction xs arbitrary: b)
  case (Cons x xs)
  then have "i \<in> set xs \<or> fst (f x b) = Some i" by (intro Cons.IH) simp
  with assms(1) [of x b] show ?case by auto
qed simp

lemma best_available:
  assumes "(Some idx, y) = best_candidate gaps candidates w covered available" shows "idx \<in> set available"
proof -
  have "fst (best_candidate gaps candidates w covered available) = Some idx" by (simp add: assms [symmetric])
  then show ?thesis unfolding best_candidate_def by (rule fold_index [OF weigh_index, THEN disjE]) simp_all
qed

function cover_loop :: "Gap list \<Rightarrow> AtomCandidate list \<Rightarrow> CostWeights \<Rightarrow> Cover \<Rightarrow> Cover" where
  "cover_loop gaps candidates w s =
     (if length (cv_covered s) < length gaps \<and> cv_available s \<noteq> [] then
        (case best_candidate gaps candidates w (cv_covered s) (cv_available s) of
           (None, _, _) \<Rightarrow> s
         | (Some idx, _, cost) \<Rightarrow> cover_loop gaps candidates w (cover_add candidates idx cost s))
      else s)"
  by pat_completeness auto

lemma cover_add_available:
  "idx \<in> set (cv_available s) \<Longrightarrow> length (cv_available (cover_add candidates idx cost s)) < length (cv_available s)"
  by (simp add: cover_add_def length_filter_less)

termination cover_loop
  by (relation "measure (\<lambda>(gaps, candidates, w, s). length (cv_available s))")
    (auto intro: cover_add_available best_available)

declare cover_loop.simps [simp del]

definition coverage_ratio :: "nat \<Rightarrow> nat \<Rightarrow> fnum" where
  "coverage_ratio covered total_gaps =
     (if total_gaps > 0 then f_div binary64 (f_of_nat binary64 covered) (f_of_nat binary64 total_gaps) else f_lit binary64 1 1)"

definition cover_result :: "Gap list \<Rightarrow> AtomCandidate list \<Rightarrow> Cover \<Rightarrow> SetCoverResult" where
  "cover_result gaps candidates s =
     \<lparr>sr_selected_atoms = map (\<lambda>idx. ac_atom_id (candidates ! idx)) (cv_selected s),
      sr_total_cost = cv_total_cost s,
      sr_coverage_ratio = coverage_ratio (length (cv_covered s)) (length gaps),
      sr_gaps_covered = length (cv_covered s), sr_total_gaps = length gaps,
      sr_selected_indices = cv_selected s\<rparr>"

definition cover_solve :: "Gap list \<Rightarrow> AtomCandidate list \<Rightarrow> CostWeights \<Rightarrow> SetCoverResult" where
  "cover_solve gaps candidates w =
     (if gaps = [] then result_empty 0
      else if candidates = [] then result_empty (length gaps)
      else cover_result gaps candidates (cover_loop gaps candidates w (cover_start candidates)))"

text \<open>With a budget, a candidate with some benefit that would exceed it is passed over.\<close>

definition best_within :: "Gap list \<Rightarrow> AtomCandidate list \<Rightarrow> CostWeights \<Rightarrow> fnum \<Rightarrow> fnum \<Rightarrow> GapId list \<Rightarrow> nat list \<Rightarrow> best" where
  "best_within gaps candidates w max_cost total_cost covered available =
     fold (\<lambda>idx b.
         let (ratio, benefit, cost) = cost_benefit_ratio gaps covered w (candidates ! idx)
         in if f_lt max_cost (f_add binary64 total_cost cost) \<and> f_lt fzero benefit then b
            else weigh candidates idx (ratio, benefit, cost) b) available
       (None, Finf True, fzero)"

lemma best_within_available:
  assumes "(Some idx, y) = best_within gaps candidates w max_cost total_cost covered available"
  shows "idx \<in> set available"
proof -
  have "fst (best_within gaps candidates w max_cost total_cost covered available) = Some idx" by (simp add: assms [symmetric])
  then show ?thesis
    unfolding best_within_def
    by (rule fold_index [rotated, THEN disjE]) (use weigh_index in \<open>auto simp: Let_def split: prod.splits\<close>)
qed

function budget_loop :: "Gap list \<Rightarrow> AtomCandidate list \<Rightarrow> CostWeights \<Rightarrow> fnum \<Rightarrow> Cover \<Rightarrow> Cover" where
  "budget_loop gaps candidates w max_cost s =
     (if length (cv_covered s) < length gaps \<and> cv_available s \<noteq> [] then
        (if f_le max_cost (cv_total_cost s) then s
         else
           case best_within gaps candidates w max_cost (cv_total_cost s) (cv_covered s) (cv_available s) of
             (None, _, _) \<Rightarrow> s
           | (Some idx, _, cost) \<Rightarrow> budget_loop gaps candidates w max_cost (cover_add candidates idx cost s))
      else s)"
  by pat_completeness auto

termination budget_loop
  by (relation "measure (\<lambda>(gaps, candidates, w, max_cost, s). length (cv_available s))")
    (auto intro: cover_add_available best_within_available)

declare budget_loop.simps [simp del]

definition cover_solve_with_budget :: "Gap list \<Rightarrow> AtomCandidate list \<Rightarrow> CostWeights \<Rightarrow> fnum \<Rightarrow> SetCoverResult" where
  "cover_solve_with_budget gaps candidates w max_cost =
     (if gaps = [] then result_empty 0
      else if candidates = [] then result_empty (length gaps)
      else cover_result gaps candidates (budget_loop gaps candidates w max_cost (cover_start candidates)))"

definition nth_opt :: "'a list \<Rightarrow> nat \<Rightarrow> 'a option" where
  "nth_opt xs i = (if i < length xs then Some (xs ! i) else None)"

definition get_covered_gaps :: "AtomCandidate list \<Rightarrow> nat list \<Rightarrow> GapId list" where
  "get_covered_gaps candidates selected =
     fold (\<lambda>c. fold List.insert (ac_covers_gaps c)) (List.map_filter (nth_opt candidates) selected) []"

definition calculate_solution_cost :: "AtomCandidate list \<Rightarrow> nat list \<Rightarrow> CostWeights \<Rightarrow> fnum" where
  "calculate_solution_cost candidates selected w =
     f_sum (map (ac_calculate_cost w) (List.map_filter (nth_opt candidates) selected))"


section \<open>Benefits are exact\<close>

lemma f_is_foldl:
  assumes "list_all2 f_is xs ns" "f_is a m" "m + sum_list ns < 2 ^ 53"
  shows "f_is (foldl (f_add binary64) a xs) (m + sum_list ns)"
  using assms
proof (induction xs ns arbitrary: a m rule: list_all2_induct)
  case (Cons x xs n ns)
  then have "f_is (f_add binary64 a x) (m + n)" by (intro f_is_add) simp_all
  with Cons.IH [of "f_add binary64 a x" "m + n"] Cons.prems show ?case by (simp add: add.assoc)
qed simp

definition useful_gaps :: "Gap list \<Rightarrow> GapId list \<Rightarrow> AtomCandidate \<Rightarrow> Gap list" where
  "useful_gaps gaps covered c = List.map_filter (find_gap gaps) (filter (\<lambda>i. i \<notin> set covered) (ac_covers_gaps c))"

lemma length_map_filter_le: "length (List.map_filter f xs) \<le> length xs"
  by (induction xs) (auto simp: List.map_filter_simps split: option.split)

lemma benefit_is:
  assumes "length (ac_covers_gaps c) < 2 ^ 44"
  shows "f_is (ac_calculate_benefit gaps covered c)
    (sum_list (map (\<lambda>g. unat (gap_priority g)) (useful_gaps gaps covered c)))"
proof -
  let ?ps = "map (\<lambda>g. unat (gap_priority g)) (useful_gaps gaps covered c)"
  have "length (useful_gaps gaps covered c) \<le> length (ac_covers_gaps c)"
    unfolding useful_gaps_def by (rule order_trans [OF length_map_filter_le length_filter_le])
  moreover have "sum_list ?ps \<le> length (useful_gaps gaps covered c) * 256"
    by (rule sum_list_bound) (use unat_bounds(1) in \<open>auto intro: less_imp_le\<close>)
  ultimately have "0 + sum_list ?ps < 2 ^ 53" using assms by simp
  moreover have "list_all2 f_is (map (\<lambda>g. f64_of (gap_priority g)) (useful_gaps gaps covered c)) ?ps"
    by (auto simp: list_all2_conv_all_nth intro: f_is_f64_of)
  ultimately show ?thesis
    unfolding ac_calculate_benefit_def f_sum_def useful_gaps_def [symmetric]
    using f_is_foldl [of _ _ fzero 0] by simp
qed

text \<open>A candidate is useful when it covers a gap of positive priority that is not covered yet.\<close>

definition useful :: "Gap list \<Rightarrow> GapId list \<Rightarrow> AtomCandidate \<Rightarrow> bool" where
  "useful gaps covered c \<longleftrightarrow>
     (\<exists>i\<in>set (ac_covers_gaps c). i \<notin> set covered \<and> (case find_gap gaps i of None \<Rightarrow> False | Some g \<Rightarrow> 0 < gap_priority g))"

lemma set_map_filter_iff: "y \<in> set (List.map_filter f xs) \<longleftrightarrow> (\<exists>x\<in>set xs. f x = Some y)"
  by (induction xs) (auto simp: List.map_filter_simps split: option.split)

lemma benefit_positive:
  assumes "length (ac_covers_gaps c) < 2 ^ 44"
  shows "f_lt fzero (ac_calculate_benefit gaps covered c) \<longleftrightarrow> useful gaps covered c"
proof -
  have "useful gaps covered c \<longleftrightarrow> (\<exists>g\<in>set (useful_gaps gaps covered c). 0 < gap_priority g)"
    unfolding useful_def useful_gaps_def Bex_def set_map_filter_iff by (fastforce split: option.splits)
  also have "\<dots> \<longleftrightarrow> 0 < sum_list (map (\<lambda>g. unat (gap_priority g)) (useful_gaps gaps covered c))"
    by (auto simp: sum_list_eq_0_iff zero_less_iff_neq_zero unat_eq_0 word_gt_0 simp flip: neq0_conv)
  finally show ?thesis using f_is_pos [OF benefit_is [OF assms]] by simp
qed

text \<open>The best candidate is some candidate, unless none is useful, whatever the weights are.\<close>

lemma ratio_above:
  assumes "length (ac_covers_gaps c) < 2 ^ 44" "cost_benefit_ratio gaps covered w c = (ratio, benefit, cost)"
  shows "f_lt (Finf True) ratio" "f_lt fzero benefit \<longleftrightarrow> useful gaps covered c"
  using assms benefit_positive [OF assms(1)] f_div_above [OF benefit_is [OF assms(1)]]
  by (auto simp: cost_benefit_ratio_def Let_def)

lemma fold_weigh_Some: "fst b \<noteq> None \<Longrightarrow> fst (fold (\<lambda>idx. weigh candidates idx (f idx)) xs b) \<noteq> None"
proof (induction xs arbitrary: b)
  case (Cons x xs)
  then have "fst (weigh candidates x (f x) b) \<noteq> None" using weigh_index [of candidates x "f x" b] by auto
  from Cons.IH [OF this] show ?case by simp
qed simp

lemma fold_weigh_None:
  assumes "\<And>idx. idx \<in> set xs \<Longrightarrow> f_lt (Finf True) (fst (f idx))"
  shows "fst (fold (\<lambda>idx. weigh candidates idx (f idx)) xs (None, Finf True, k)) = None \<longleftrightarrow>
    (\<forall>idx\<in>set xs. \<not> f_lt fzero (fst (snd (f idx))))"
  using assms
proof (induction xs)
  case (Cons x xs)
  obtain ratio benefit cost where t: "f x = (ratio, benefit, cost)" by (metis prod_cases3)
  have r: "f_lt (Finf True) ratio" using Cons.prems [of x] by (simp add: t)
  show ?case
  proof (cases "f_lt fzero benefit")
    case True
    with r have "weigh candidates x (f x) (None, Finf True, k) = (Some x, ratio, cost)" by (simp add: weigh_def t)
    then show ?thesis using True fold_weigh_Some [of "(Some x, ratio, cost)" candidates f xs] by (simp add: t)
  next
    case False
    then have "weigh candidates x (f x) (None, Finf True, k) = (None, Finf True, k)" by (simp add: weigh_def t)
    with False Cons show ?thesis by (simp add: t)
  qed
qed simp

lemma best_candidate_None:
  assumes "\<forall>idx\<in>set available. length (ac_covers_gaps (candidates ! idx)) < 2 ^ 44"
  shows "fst (best_candidate gaps candidates w covered available) = None \<longleftrightarrow>
    (\<forall>idx\<in>set available. \<not> useful gaps covered (candidates ! idx))"
proof -
  let ?f = "\<lambda>idx. cost_benefit_ratio gaps covered w (candidates ! idx)"
  have "f_lt (Finf True) (fst (?f idx))" "f_lt fzero (fst (snd (?f idx))) \<longleftrightarrow> useful gaps covered (candidates ! idx)"
    if "idx \<in> set available" for idx
    using ratio_above [of "candidates ! idx" gaps covered w] assms that by (metis prod.collapse)+
  then show ?thesis unfolding best_candidate_def using fold_weigh_None [of available ?f candidates fzero] by blast
qed


section \<open>What the loop leaves\<close>

definition cover_inv :: "AtomCandidate list \<Rightarrow> Cover \<Rightarrow> bool" where
  "cover_inv candidates s \<longleftrightarrow>
     distinct (cv_selected s) \<and> distinct (cv_available s) \<and> set (cv_selected s) \<inter> set (cv_available s) = {} \<and>
     set (cv_selected s) \<union> set (cv_available s) = {..<length candidates} \<and>
     cv_covered s = get_covered_gaps candidates (cv_selected s)"

lemma map_filter_nth_opt: "set is \<subseteq> {..<length xs} \<Longrightarrow> List.map_filter (nth_opt xs) is = map (\<lambda>i. xs ! i) is"
  by (induction "is") (auto simp: List.map_filter_simps nth_opt_def)

lemma set_fold_insert [simp]: "set (fold List.insert xs ys) = set xs \<union> set ys"
  by (induction xs arbitrary: ys) auto

lemma distinct_fold_insert: "distinct ys \<Longrightarrow> distinct (fold List.insert xs ys)"
  by (induction xs arbitrary: ys) auto

lemma covered_gaps_set:
  assumes "set is \<subseteq> {..<length candidates}"
  shows "set (get_covered_gaps candidates is) = (\<Union>i\<in>set is. set (ac_covers_gaps (candidates ! i)))"
proof -
  have "set (fold (\<lambda>c. fold List.insert (ac_covers_gaps c)) cs ys) = (\<Union>c\<in>set cs. set (ac_covers_gaps c)) \<union> set ys" for cs :: "AtomCandidate list" and ys
    by (induction cs arbitrary: ys) auto
  then show ?thesis by (simp add: get_covered_gaps_def map_filter_nth_opt [OF assms])
qed

lemma covered_gaps_distinct: "distinct (get_covered_gaps candidates is)"
proof -
  have "distinct ys \<Longrightarrow> distinct (fold (\<lambda>c. fold List.insert (ac_covers_gaps c)) cs ys)" for cs :: "AtomCandidate list" and ys
    by (induction cs arbitrary: ys) (auto simp: distinct_fold_insert)
  then show ?thesis by (simp add: get_covered_gaps_def)
qed

lemma cover_inv_start [simp]: "cover_inv candidates (cover_start candidates)"
  by (auto simp: cover_inv_def cover_start_def get_covered_gaps_def List.map_filter_simps)

lemma cover_inv_add:
  assumes "cover_inv candidates s" "idx \<in> set (cv_available s)"
  shows "cover_inv candidates (cover_add candidates idx cost s)"
proof -
  have sub: "set (cv_selected s) \<subseteq> {..<length candidates}" "idx < length candidates"
    using assms by (auto simp: cover_inv_def)
  then have "List.map_filter (nth_opt candidates) (cv_selected s @ [idx]) =
      List.map_filter (nth_opt candidates) (cv_selected s) @ [candidates ! idx]"
    by (subst (1 2) map_filter_nth_opt) auto
  then show ?thesis using assms sub by (auto simp: cover_inv_def cover_add_def get_covered_gaps_def)
qed

text \<open>Both loops keep the invariant; when the unbounded one ends, it has covered as many ids as there are gaps, or
  no candidate that is left is useful.\<close>

lemma cover_loop_inv: "cover_inv candidates s \<Longrightarrow> cover_inv candidates (cover_loop gaps candidates w s)"
proof (induction gaps candidates w s rule: cover_loop.induct)
  case (1 gaps candidates w s)
  obtain i r k where b: "best_candidate gaps candidates w (cv_covered s) (cv_available s) = (i, r, k)"
    by (metis prod_cases3)
  show ?case
  proof (cases "(length (cv_covered s) < length gaps \<and> cv_available s \<noteq> []) \<and> i \<noteq> None")
    case True
    then obtain idx where i: "i = Some idx" by blast
    have "idx \<in> set (cv_available s)" by (rule best_available [OF b [symmetric, unfolded i]])
    with "1.prems" have "cover_inv candidates (cover_add candidates idx k s)" by (rule cover_inv_add)
    from "1.IH" [OF _ b [symmetric] i refl this] True show ?thesis by (subst cover_loop.simps) (simp add: b i)
  qed (use "1.prems" in \<open>subst cover_loop.simps, auto simp: b\<close>)
qed

lemma budget_loop_inv: "cover_inv candidates s \<Longrightarrow> cover_inv candidates (budget_loop gaps candidates w m s)"
proof (induction gaps candidates w m s rule: budget_loop.induct)
  case (1 gaps candidates w m s)
  obtain i r k where b: "best_within gaps candidates w m (cv_total_cost s) (cv_covered s) (cv_available s) = (i, r, k)"
    by (metis prod_cases3)
  show ?case
  proof (cases "(length (cv_covered s) < length gaps \<and> cv_available s \<noteq> []) \<and> \<not> f_le m (cv_total_cost s) \<and> i \<noteq> None")
    case True
    then obtain idx where i: "i = Some idx" by blast
    have "idx \<in> set (cv_available s)" by (rule best_within_available [OF b [symmetric, unfolded i]])
    with "1.prems" have "cover_inv candidates (cover_add candidates idx k s)" by (rule cover_inv_add)
    from "1.IH" [OF _ _ b [symmetric] i refl this] True show ?thesis by (subst budget_loop.simps) (simp add: b i)
  qed (use "1.prems" in \<open>subst budget_loop.simps, auto simp: b\<close>)
qed

lemma cover_loop_stop: "\<not> (length (cv_covered s) < length gaps \<and> cv_available s \<noteq> []) \<Longrightarrow> cover_loop gaps candidates w s = s"
  by (subst cover_loop.simps) auto

lemma cover_loop_None:
  "best_candidate gaps candidates w (cv_covered s) (cv_available s) = (None, r, k) \<Longrightarrow> cover_loop gaps candidates w s = s"
  by (subst cover_loop.simps) auto

lemma cover_loop_step:
  "length (cv_covered s) < length gaps \<and> cv_available s \<noteq> [] \<Longrightarrow>
    best_candidate gaps candidates w (cv_covered s) (cv_available s) = (Some idx, r, k) \<Longrightarrow>
    cover_loop gaps candidates w s = cover_loop gaps candidates w (cover_add candidates idx k s)"
  by (subst cover_loop.simps) auto

lemma cover_loop_exit:
  fixes gaps :: "Gap list" and w :: CostWeights
  assumes "\<forall>c\<in>set candidates. length (ac_covers_gaps c) < 2 ^ 44" "cover_inv candidates s"
  defines "s' \<equiv> cover_loop gaps candidates w s"
  shows "length gaps \<le> length (cv_covered s') \<or>
    (\<forall>idx\<in>set (cv_available s'). \<not> useful gaps (cv_covered s') (candidates ! idx))"
  using assms(1,2) unfolding s'_def
proof (induction gaps candidates w s rule: cover_loop.induct)
  case (1 gaps candidates w s)
  obtain i r k where b: "best_candidate gaps candidates w (cv_covered s) (cv_available s) = (i, r, k)"
    by (metis prod_cases3)
  have "\<forall>idx\<in>set (cv_available s). length (ac_covers_gaps (candidates ! idx)) < 2 ^ 44"
    using "1.prems" by (auto simp: cover_inv_def)
  note none = best_candidate_None [OF this, of gaps w "cv_covered s", unfolded b]
  show ?case
  proof (cases "length (cv_covered s) < length gaps \<and> cv_available s \<noteq> []")
    case True
    show ?thesis
    proof (cases i)
      case None
      show ?thesis unfolding cover_loop_None [OF b [unfolded None]] using none None by simp
    next
      case (Some idx)
      have "idx \<in> set (cv_available s)" by (rule best_available [OF b [symmetric, unfolded Some]])
      with "1.prems" have "cover_inv candidates (cover_add candidates idx k s)" by (blast intro: cover_inv_add)
      from "1.IH" [OF True b [symmetric] Some refl "1.prems"(1) this] show ?thesis
        by (simp add: cover_loop_step [OF True b [unfolded Some]])
    qed
  next
    case False
    then have "length gaps \<le> length (cv_covered s) \<or> cv_available s = []" by (simp add: not_less)
    then show ?thesis unfolding cover_loop_stop [OF False] by (elim disjE) simp_all
  qed
qed


lemma cover_exit_all:
  assumes "cover_inv candidates s" "\<forall>idx\<in>set (cv_available s). \<not> useful gaps (cv_covered s) (candidates ! idx)"
    and "c \<in> set candidates" "i \<in> set (ac_covers_gaps c)" "find_gap gaps i = Some g" "0 < gap_priority g"
  shows "i \<in> set (cv_covered s)"
proof -
  from assms(3) obtain idx where idx: "idx < length candidates" "candidates ! idx = c" by (metis in_set_conv_nth)
  show ?thesis
  proof (cases "idx \<in> set (cv_selected s)")
    case True
    from assms(1) have cov: "cv_covered s = get_covered_gaps candidates (cv_selected s)"
      and sel: "set (cv_selected s) \<subseteq> {..<length candidates}" by (auto simp: cover_inv_def)
    have "i \<in> set (ac_covers_gaps (candidates ! idx))" using assms(4) idx by simp
    with True show ?thesis unfolding cov covered_gaps_set [OF sel] by blast
  next
    case False
    with assms(1) idx have "idx \<in> set (cv_available s)" by (auto simp: cover_inv_def)
    with assms(2) idx(2) have "\<not> useful gaps (cv_covered s) c" by blast
    with assms(4,5,6) show ?thesis unfolding useful_def by fastforce
  qed
qed

lemma cover_covers:
  fixes w :: CostWeights
  assumes "distinct (map gap_id gaps)" "\<forall>g\<in>set gaps. 0 < gap_priority g"
    and known: "\<forall>c\<in>set candidates. set (ac_covers_gaps c) \<subseteq> gap_id ` set gaps"
    and "\<forall>c\<in>set candidates. length (ac_covers_gaps c) < 2 ^ 44"
  defines "r \<equiv> cover_solve gaps candidates w"
  shows "set (get_covered_gaps candidates (sr_selected_indices r)) = (\<Union>c\<in>set candidates. set (ac_covers_gaps c)) \<and>
    (result_is_complete r \<longleftrightarrow> (\<Union>c\<in>set candidates. set (ac_covers_gaps c)) = gap_id ` set gaps)"
proof (cases "gaps = [] \<or> candidates = []")
  case True
  with known show ?thesis
    by (auto simp: r_def cover_solve_def result_empty_def result_is_complete_def get_covered_gaps_def List.map_filter_simps)
next
  case False
  let ?s = "cover_loop gaps candidates w (cover_start candidates)"
  have inv: "cover_inv candidates ?s" by (rule cover_loop_inv) simp
  then have cov: "cv_covered ?s = get_covered_gaps candidates (cv_selected ?s)"
    and sel: "set (cv_selected ?s) \<subseteq> {..<length candidates}" by (auto simp: cover_inv_def)
  let ?ids = "gap_id ` set gaps" and ?all = "\<Union>c\<in>set candidates. set (ac_covers_gaps c)"
  have sub: "set (cv_covered ?s) \<subseteq> ?all" unfolding cov covered_gaps_set [OF sel] using sel by force
  with known have ids: "set (cv_covered ?s) \<subseteq> ?ids" by blast
  have card: "card ?ids = length gaps" using assms(1) by (simp add: distinct_card flip: set_map)
  have len: "length (cv_covered ?s) = card (set (cv_covered ?s))"
    unfolding cov by (simp add: distinct_card covered_gaps_distinct)
  have full: "length gaps \<le> length (cv_covered ?s) \<longleftrightarrow> set (cv_covered ?s) = ?ids"
  proof
    assume "length gaps \<le> length (cv_covered ?s)"
    with card len have "card ?ids \<le> card (set (cv_covered ?s))" by simp
    with ids show "set (cv_covered ?s) = ?ids" by (intro card_seteq) simp_all
  qed (use card len in simp)
  have found: "\<exists>g. find_gap gaps i = Some g \<and> 0 < gap_priority g" if "i \<in> ?ids" for i
  proof (cases "find_gap gaps i")
    case None
    with that show ?thesis by (auto simp: find_gap_def find_None_iff)
  next
    case (Some g)
    then have "g \<in> set gaps" by (auto simp: find_gap_def find_Some_iff)
    with Some assms(2) show ?thesis by blast
  qed
  have "?all \<subseteq> set (cv_covered ?s)"
  proof (cases "length gaps \<le> length (cv_covered ?s)")
    case True
    with full known show ?thesis by blast
  next
    case False
    with cover_loop_exit [OF assms(4) cover_inv_start, of gaps w]
    have left: "\<forall>idx\<in>set (cv_available ?s). \<not> useful gaps (cv_covered ?s) (candidates ! idx)" by blast
    show ?thesis
    proof
      fix i assume "i \<in> ?all"
      then obtain c where c: "c \<in> set candidates" "i \<in> set (ac_covers_gaps c)" by blast
      with known have "i \<in> ?ids" by blast
      with found obtain g where "find_gap gaps i = Some g" "0 < gap_priority g" by blast
      with cover_exit_all [OF inv left c] show "i \<in> set (cv_covered ?s)" by blast
    qed
  qed
  with sub have all: "set (cv_covered ?s) = ?all" by blast
  have r: "r = cover_result gaps candidates ?s" using False by (simp add: r_def cover_solve_def)
  show ?thesis using full all cov by (simp add: r cover_result_def result_is_complete_def)
qed

text \<open>
  A greedy cover covers everything the candidates can cover, whatever the weights are, when the gaps have different
  ids and positive priorities and the candidates name only these gaps; and it is reported as complete exactly
  when every gap is covered.
\<close>

theorem set_cover_covers:
  fixes w :: CostWeights
  assumes "distinct (map gap_id gaps)" "\<forall>g\<in>set gaps. 0 < gap_priority g"
    and "\<forall>c\<in>set candidates. set (ac_covers_gaps c) \<subseteq> gap_id ` set gaps"
    and "\<forall>c\<in>set candidates. length (ac_covers_gaps c) < 2 ^ 44"
  defines "r \<equiv> cover_solve gaps candidates w"
  shows "set (get_covered_gaps candidates (sr_selected_indices r)) = (\<Union>c\<in>set candidates. set (ac_covers_gaps c)) \<and>
    (result_is_complete r \<longleftrightarrow> (\<Union>c\<in>set candidates. set (ac_covers_gaps c)) = gap_id ` set gaps)"
  using cover_covers [OF assms(1-4)] unfolding r_def .

definition sample_gaps :: "Gap list" where
  "sample_gaps = [gap_new 1 NEED_EVIDENCE claim_pattern_default, gap_new 2 NEED_EVIDENCE claim_pattern_default]"

theorem set_cover_covers_witness:
  "let candidates = [ac_with_covers_gaps [1] (ac_new [10] FACT), ac_with_covers_gaps [1, 2] (ac_new [11] FACT)];
       r = cover_solve sample_gaps candidates cost_weights_default
   in set (get_covered_gaps candidates (sr_selected_indices r)) = {1, 2} \<and> result_is_complete r"
  using set_cover_covers [of sample_gaps "[ac_with_covers_gaps [1] (ac_new [10] FACT), ac_with_covers_gaps [1, 2] (ac_new [11] FACT)]"
      cost_weights_default]
  by (simp add: sample_gaps_def gap_new_def ac_with_covers_gaps_def ac_new_def Let_def insert_commute)

text \<open>
  A cover is reported as complete although a gap is uncovered, when a candidate names ids that no gap has:
  the loop counts them.
\<close>

theorem set_cover_false_complete:
  fixes w :: CostWeights
  assumes "useful gaps [] c" "length gaps \<le> card (set (ac_covers_gaps c))" "length (ac_covers_gaps c) < 2 ^ 44"
    and "g \<in> set gaps" "gap_id g \<notin> set (ac_covers_gaps c)"
  shows "result_is_complete (cover_solve gaps [c] w) \<and>
    gap_id g \<notin> set (get_covered_gaps [c] (sr_selected_indices (cover_solve gaps [c] w)))"
proof -
  let ?s = "cover_start [c]"
  have "fst (best_candidate gaps [c] w [] [0]) \<noteq> None"
    using best_candidate_None [of "[0]" "[c]" gaps w "[]"] assms(1,3) by simp
  then obtain i r k where b: "best_candidate gaps [c] w [] [0] = (Some i, r, k)"
    by (cases "best_candidate gaps [c] w [] [0]") auto
  from best_available [OF this [symmetric]] have i: "i = 0" by simp
  have "fold List.insert (ac_covers_gaps c) [] = get_covered_gaps [c] [0]"
    by (simp add: get_covered_gaps_def List.map_filter_simps nth_opt_def)
  then have "length (fold List.insert (ac_covers_gaps c) []) = card (set (ac_covers_gaps c))"
    using covered_gaps_distinct [of "[c]" "[0]"] by (metis distinct_card set_fold_insert empty_set sup_bot.right_neutral)
  then have "cover_loop gaps [c] w ?s = cover_add [c] 0 k ?s"
    using assms(2,4) b i by (subst cover_loop.simps, subst cover_loop.simps) (auto simp: cover_start_def cover_add_def)
  then show ?thesis
    using assms(2,4,5) \<open>length (fold List.insert (ac_covers_gaps c) []) = _\<close>
    by (auto simp: cover_solve_def cover_result_def result_is_complete_def cover_add_def cover_start_def
        get_covered_gaps_def List.map_filter_simps nth_opt_def)
qed


theorem set_cover_false_complete_witness:
  "let c = ac_with_covers_gaps [1, 7] (ac_new [10] FACT); r = cover_solve sample_gaps [c] cost_weights_default
   in result_is_complete r \<and> 2 \<notin> set (get_covered_gaps [c] (sr_selected_indices r))"
  using set_cover_false_complete [of sample_gaps "ac_with_covers_gaps [1, 7] (ac_new [10] FACT)"
      "gap_new 2 NEED_EVIDENCE claim_pattern_default" cost_weights_default]
  by (simp add: sample_gaps_def gap_new_def ac_with_covers_gaps_def ac_new_def Let_def useful_def find_gap_def)

section \<open>The budget\<close>

lemma ratio_cost: "cost_benefit_ratio gaps covered w c = (ratio, benefit, cost) \<Longrightarrow> cost = ac_calculate_cost w c"
  by (simp add: cost_benefit_ratio_def Let_def)

lemma best_within_fits:
  assumes "best_within gaps candidates w max_cost total_cost covered available = (Some idx, r, cost)"
  shows "cost = ac_calculate_cost w (candidates ! idx) \<and> \<not> f_lt max_cost (f_add binary64 total_cost cost)"
proof -
  let ?step = "\<lambda>idx b.
    let (ratio, benefit, cost) = cost_benefit_ratio gaps covered w (candidates ! idx)
    in if f_lt max_cost (f_add binary64 total_cost cost) \<and> f_lt fzero benefit then b
       else weigh candidates idx (ratio, benefit, cost) b"
  let ?ok = "\<lambda>b :: best. case b of (None, _, _) \<Rightarrow> True
    | (Some idx, r, cost) \<Rightarrow> cost = ac_calculate_cost w (candidates ! idx) \<and> \<not> f_lt max_cost (f_add binary64 total_cost cost)"
  have step: "?ok b \<Longrightarrow> ?ok (?step idx b)" for idx b
  proof -
    assume b: "?ok b"
    obtain ratio benefit cost where c: "cost_benefit_ratio gaps covered w (candidates ! idx) = (ratio, benefit, cost)"
      by (metis prod_cases3)
    show ?thesis using b ratio_cost [OF c] by (cases b) (auto simp: c weigh_def Let_def)
  qed
  have "?ok (fold ?step available (None, Finf True, fzero))"
    by (rule fold_invariant [where Q = "\<lambda>_. True" and P = ?ok]) (simp, simp, rule step)
  with assms show ?thesis unfolding best_within_def by auto
qed

definition spends :: "AtomCandidate list \<Rightarrow> CostWeights \<Rightarrow> fnum \<Rightarrow> Cover \<Rightarrow> bool" where
  "spends candidates w max_cost s \<longleftrightarrow>
     cv_total_cost s = f_sum (map (\<lambda>i. ac_calculate_cost w (candidates ! i)) (cv_selected s)) \<and>
     \<not> f_lt max_cost (cv_total_cost s)"

lemma budget_loop_spends: "spends candidates w m s \<Longrightarrow> spends candidates w m (budget_loop gaps candidates w m s)"
proof (induction gaps candidates w m s rule: budget_loop.induct)
  case (1 gaps candidates w m s)
  obtain i r k where b: "best_within gaps candidates w m (cv_total_cost s) (cv_covered s) (cv_available s) = (i, r, k)"
    by (metis prod_cases3)
  show ?case
  proof (cases "(length (cv_covered s) < length gaps \<and> cv_available s \<noteq> []) \<and> \<not> f_le m (cv_total_cost s) \<and> i \<noteq> None")
    case True
    then obtain idx where i: "i = Some idx" by blast
    have "spends candidates w m (cover_add candidates idx k s)"
      using "1.prems" best_within_fits [OF b [unfolded i]] by (auto simp: spends_def cover_add_def f_sum_def)
    from "1.IH" [OF _ _ b [symmetric] i refl this] True show ?thesis by (subst budget_loop.simps) (simp add: b i)
  qed (use "1.prems" in \<open>subst budget_loop.simps, auto simp: b\<close>)
qed

text \<open>
  A cover within a budget never costs more than the budget, and the cost it reports is the cost of what it selected,
  which it selects once; so the solution is a prefix of greedy choices that the caller can afford.
\<close>

theorem budget_respected:
  fixes gaps :: "Gap list" and candidates :: "AtomCandidate list" and w :: CostWeights
  assumes "\<not> f_lt max_cost fzero"
  defines "r \<equiv> cover_solve_with_budget gaps candidates w max_cost"
  shows "\<not> f_lt max_cost (sr_total_cost r) \<and> distinct (sr_selected_indices r) \<and>
    sr_total_cost r = calculate_solution_cost candidates (sr_selected_indices r) w"
proof (cases "gaps = [] \<or> candidates = []")
  case True
  with assms(1) show ?thesis
    by (auto simp: r_def cover_solve_with_budget_def result_empty_def calculate_solution_cost_def List.map_filter_simps f_sum_def)
next
  case False
  let ?s = "budget_loop gaps candidates w max_cost (cover_start candidates)"
  have "spends candidates w max_cost ?s"
    by (rule budget_loop_spends) (simp add: spends_def cover_start_def f_sum_def assms(1))
  moreover have inv: "cover_inv candidates ?s" by (rule budget_loop_inv) simp
  then have "set (cv_selected ?s) \<subseteq> {..<length candidates}" "distinct (cv_selected ?s)" by (auto simp: cover_inv_def)
  moreover have r: "r = cover_result gaps candidates ?s" using False by (simp add: r_def cover_solve_with_budget_def)
  ultimately show ?thesis
    by (auto simp: r cover_result_def spends_def calculate_solution_cost_def map_filter_nth_opt comp_def)
qed

theorem budget_respected_witness:
  "\<not> f_lt (f_of_nat binary64 600) (sr_total_cost (cover_solve_with_budget sample_gaps
     [ac_with_covers_gaps [1] (ac_new [10] FACT)] cost_weights_default (f_of_nat binary64 600)))"
  by (rule budget_respected [THEN conjunct1]) (simp add: f_is_lt [OF f_is_of_nat f_is_zero])

end
