(* ===== verification/Query_Contract.thy ===== *)
theory Query_Contract
  imports Query_Types Atom_Body
begin

text \<open>
  The query contract of \<open>src/query/contract.rs\<close>: what a caller may ask, the check of a contract, and the goal of
  the solver (\<open>src/query/solver.rs\<close>) it is lowered to. Reading and writing of contracts as JSON is left to
  serde and not modelled.
\<close>

section \<open>Constraints\<close>

type_synonym ConstraintId = str

record TimeRangeSpec =
  ts_from_unix_ns :: "u64 option"
  ts_to_unix_ns :: "u64 option"

datatype ConstraintStrength = Must | MustNot | Should fnum

datatype ConstraintTarget =
    TgEntity | TgEntityType | TgPredicate | TgRelation | TgSource | TgEvidence | TgTime | TgContext | TgDomain
  | TgNumericMetric | TgText | TgCustom str

datatype ConstraintOperator =
  OpEq | OpNe | OpContains | OpExists | OpMatches | OpBefore | OpAfter | OpDuring | OpWithin | OpGte | OpLte

datatype ConstraintValue =
    VNone | VBool bool | VText str | VNumber fnum | VTimeRange TimeRangeSpec | VRef str | VList "ConstraintValue list"

record Constraint =
  cn_id :: ConstraintId
  cn_strength :: ConstraintStrength
  cn_target :: ConstraintTarget
  cn_operator :: ConstraintOperator
  cn_value :: ConstraintValue
  cn_description :: "str option"

definition constraint_must :: "str \<Rightarrow> ConstraintTarget \<Rightarrow> ConstraintOperator \<Rightarrow> ConstraintValue \<Rightarrow> Constraint" where
  "constraint_must i t oper v =
     \<lparr>cn_id = i, cn_strength = Must, cn_target = t, cn_operator = oper, cn_value = v, cn_description = None\<rparr>"

definition constraint_must_not :: "str \<Rightarrow> ConstraintTarget \<Rightarrow> ConstraintOperator \<Rightarrow> ConstraintValue \<Rightarrow> Constraint" where
  "constraint_must_not i t oper v =
     \<lparr>cn_id = i, cn_strength = MustNot, cn_target = t, cn_operator = oper, cn_value = v, cn_description = None\<rparr>"

definition constraint_should ::
  "str \<Rightarrow> ConstraintTarget \<Rightarrow> ConstraintOperator \<Rightarrow> ConstraintValue \<Rightarrow> fnum \<Rightarrow> Constraint" where
  "constraint_should i t oper v weight =
     \<lparr>cn_id = i, cn_strength = Should weight, cn_target = t, cn_operator = oper, cn_value = v, cn_description = None\<rparr>"

text \<open>The derived equality of strengths and values compares weights and numbers as floating-point numbers.\<close>

fun strength_eq :: "ConstraintStrength \<Rightarrow> ConstraintStrength \<Rightarrow> bool" where
  "strength_eq Must Must = True"
| "strength_eq MustNot MustNot = True"
| "strength_eq (Should v) (Should w) = f_eq v w"
| "strength_eq _ _ = False"

definition is_should :: "ConstraintStrength \<Rightarrow> bool" where
  "is_should s = (case s of Should _ \<Rightarrow> True | _ \<Rightarrow> False)"

fun value_eq :: "ConstraintValue \<Rightarrow> ConstraintValue \<Rightarrow> bool" where
  "value_eq VNone VNone = True"
| "value_eq (VBool a) (VBool b) = (a = b)"
| "value_eq (VText a) (VText b) = (a = b)"
| "value_eq (VNumber a) (VNumber b) = f_eq a b"
| "value_eq (VTimeRange a) (VTimeRange b) = (a = b)"
| "value_eq (VRef a) (VRef b) = (a = b)"
| "value_eq (VList as) (VList bs) = list_all2 value_eq as bs"
| "value_eq _ _ = False"

datatype ConstraintStatus = Satisfied | Violated | Unknown | NotApplicable | BlockedByPolicy

record ConstraintResult =
  cr_constraint_id :: ConstraintId
  cr_status :: ConstraintStatus
  cr_reason :: "str option"
  cr_candidate_ref :: "str option"
  cr_evidence_refs :: "str list"

definition result_new :: "ConstraintId \<Rightarrow> ConstraintStatus \<Rightarrow> ConstraintResult" where
  "result_new i status =
     \<lparr>cr_constraint_id = i, cr_status = status, cr_reason = None, cr_candidate_ref = None, cr_evidence_refs = []\<rparr>"

definition result_with_reason :: "str \<Rightarrow> ConstraintResult \<Rightarrow> ConstraintResult" where
  "result_with_reason reason r = r\<lparr>cr_reason := Some reason\<rparr>"

definition result_satisfied :: "ConstraintId \<Rightarrow> ConstraintResult" where
  "result_satisfied i = result_new i Satisfied"
definition result_violated :: "ConstraintId \<Rightarrow> str \<Rightarrow> ConstraintResult" where
  "result_violated i reason = result_with_reason reason (result_new i Violated)"
definition result_unknown :: "ConstraintId \<Rightarrow> ConstraintResult" where
  "result_unknown i = result_new i Unknown"
definition result_not_applicable :: "ConstraintId \<Rightarrow> str \<Rightarrow> ConstraintResult" where
  "result_not_applicable i reason = result_with_reason reason (result_new i NotApplicable)"
definition result_blocked_by_policy :: "ConstraintId \<Rightarrow> str \<Rightarrow> ConstraintResult" where
  "result_blocked_by_policy i reason = result_with_reason reason (result_new i BlockedByPolicy)"
definition result_with_candidate_ref :: "str \<Rightarrow> ConstraintResult \<Rightarrow> ConstraintResult" where
  "result_with_candidate_ref c r = r\<lparr>cr_candidate_ref := Some c\<rparr>"
definition result_with_evidence_ref :: "str \<Rightarrow> ConstraintResult \<Rightarrow> ConstraintResult" where
  "result_with_evidence_ref e r = r\<lparr>cr_evidence_refs := cr_evidence_refs r @ [e]\<rparr>"

section \<open>The parts of a contract\<close>

datatype ContractIntent = CLookup | CDefine | CExplain | CCompare | CDerive | CVerify | CPlan

primrec intent_of :: "ContractIntent \<Rightarrow> Intent" where
  "intent_of CLookup = LOOKUP"
| "intent_of CDefine = DEFINE"
| "intent_of CExplain = EXPLAIN"
| "intent_of CCompare = COMPARE"
| "intent_of CDerive = DERIVE"
| "intent_of CVerify = VERIFY"
| "intent_of CPlan = PLAN"

record EntityPattern =
  ep_id :: "str option"
  ep_entity_id :: "u64 option"
  ep_atom_id :: "str option"
  ep_node_id :: "u64 option"
  ep_term_id :: "u32 option"
  ep_symbol_id :: "u32 option"
  ep_stable_key :: "str option"
  ep_label :: "str option"
  ep_entity_type :: "str option"
  ep_aliases :: "str list"
  ep_domain_mask :: "DomainMask option"

definition entity_pattern_default :: EntityPattern where
  "entity_pattern_default =
     \<lparr>ep_id = None, ep_entity_id = None, ep_atom_id = None, ep_node_id = None, ep_term_id = None,
      ep_symbol_id = None, ep_stable_key = None, ep_label = None, ep_entity_type = None, ep_aliases = [],
      ep_domain_mask = None\<rparr>"

definition entity_pattern_label :: "str \<Rightarrow> EntityPattern" where
  "entity_pattern_label label = entity_pattern_default\<lparr>ep_label := Some label\<rparr>"

record RelationRequirement =
  rr_subject :: str
  rr_predicate :: str
  rr_object :: str
  rr_strength :: ConstraintStrength

datatype Quantifier = QAll | QAny | QAtLeast u32 | QExactly u32

record QuantifiedCondition =
  qn_quantifier :: Quantifier
  qn_constraint_ids :: "ConstraintId list"

record TemporalScope =
  tp_time_range :: "TimeRangeSpec option"
  tp_before_unix_ns :: "u64 option"
  tp_after_unix_ns :: "u64 option"
  tp_valid_at_unix_ns :: "u64 option"
  tp_observed_at_unix_ns :: "u64 option"
  tp_latest_count :: "u32 option"
  tp_require_current :: bool

definition temporal_scope_default :: TemporalScope where
  "temporal_scope_default =
     \<lparr>tp_time_range = None, tp_before_unix_ns = None, tp_after_unix_ns = None, tp_valid_at_unix_ns = None,
      tp_observed_at_unix_ns = None, tp_latest_count = None, tp_require_current = True\<rparr>"

datatype ContextSelector = CtxActive | CtxNamed str | CtxBranch str | CtxProject str | CtxUserGlobal | CtxAssumptionSet str

record ContextScope =
  cs_policy_id :: "u32 option"
  cs_selectors :: "ContextSelector list"
  cs_branch_ids :: "str list"
  cs_include_conflicting_branches :: bool

definition context_scope_default :: ContextScope where
  "context_scope_default =
     \<lparr>cs_policy_id = None, cs_selectors = [CtxActive], cs_branch_ids = [], cs_include_conflicting_branches = True\<rparr>"

record SourcePolicy =
  sp_allowed_sources :: "str list"
  sp_forbidden_sources :: "str list"
  sp_require_provenance :: bool
  sp_allow_federated_sources :: bool

definition source_policy_default :: SourcePolicy where
  "source_policy_default =
     \<lparr>sp_allowed_sources = [], sp_forbidden_sources = [], sp_require_provenance = True, sp_allow_federated_sources = True\<rparr>"

record EvidencePolicy =
  ev_min_evidence_items :: u32
  ev_require_direct_evidence :: bool
  ev_allow_inferred_claims :: bool
  ev_include_rejected_candidates :: bool

definition evidence_policy_default :: EvidencePolicy where
  "evidence_policy_default =
     \<lparr>ev_min_evidence_items = 1, ev_require_direct_evidence = False, ev_allow_inferred_claims = True,
      ev_include_rejected_candidates = True\<rparr>"

datatype StaleBehavior = StaleAllow | MarkStale | StaleReject

record FreshnessPolicy =
  fp_max_age_unix_ns :: "u64 option"
  fp_stale_behavior :: StaleBehavior

definition freshness_policy_default :: FreshnessPolicy where
  "freshness_policy_default = \<lparr>fp_max_age_unix_ns = None, fp_stale_behavior = MarkStale\<rparr>"

record AmbiguityPolicy =
  am_allow_ambiguous_targets :: bool
  am_require_disambiguation_notes :: bool

definition ambiguity_policy_default :: AmbiguityPolicy where
  "ambiguity_policy_default = \<lparr>am_allow_ambiguous_targets = True, am_require_disambiguation_notes = True\<rparr>"

datatype ConflictPolicyMode = CpFail | CpBranch | CpIncludeAlternatives | CpPreferTrusted | CpPreferRecent

record ConflictPolicy =
  cf_mode :: ConflictPolicyMode
  cf_include_conflicts :: bool
  cf_fail_on_hard_conflict :: bool
  cf_prefer_latest_branch :: bool

definition conflict_policy_default :: ConflictPolicy where
  "conflict_policy_default =
     \<lparr>cf_mode = CpBranch, cf_include_conflicts = True, cf_fail_on_hard_conflict = False, cf_prefer_latest_branch = False\<rparr>"

record CompletenessPolicy =
  cm_require_minimal_proof_subgraph :: bool
  cm_expose_unknowns :: bool
  cm_expose_unsatisfied_constraints :: bool

definition completeness_policy_default :: CompletenessPolicy where
  "completeness_policy_default =
     \<lparr>cm_require_minimal_proof_subgraph = True, cm_expose_unknowns = True, cm_expose_unsatisfied_constraints = True\<rparr>"

datatype OutputFormat = StructuredJson | TextSummary | EvidenceTable | MinimalGraph

record OutputContract =
  oc_format :: OutputFormat
  oc_include_answer_graph :: bool
  oc_include_confidence :: bool
  oc_include_provenance :: bool
  oc_include_execution_trace :: bool
  oc_max_items :: u32
  oc_max_bytes :: u32

definition output_contract_default :: OutputContract where
  "output_contract_default =
     \<lparr>oc_format = StructuredJson, oc_include_answer_graph = True, oc_include_confidence = True,
      oc_include_provenance = True, oc_include_execution_trace = False, oc_max_items = 64, oc_max_bytes = 1024 * 1024\<rparr>"

record QueryBudgets =
  qb_max_iterations :: u32
  qb_max_atoms :: u32
  qb_max_edges :: u32
  qb_max_io_bytes :: u64
  qb_max_time_ms :: u64
  qb_max_federated_calls :: u32
  qb_max_context_branches :: u32

definition query_budgets_default :: QueryBudgets where
  "query_budgets_default =
     \<lparr>qb_max_iterations = 100, qb_max_atoms = 4096, qb_max_edges = 8192, qb_max_io_bytes = 64 * 1024 * 1024,
      qb_max_time_ms = 30000, qb_max_federated_calls = 16, qb_max_context_branches = 128\<rparr>"


section \<open>The goal of the solver\<close>

datatype TimeMode = TmExact | TmOverlap | TmContained | TmLatest

record QTimeRange =
  qt_from_ns :: u64
  qt_to_ns :: u64
  qt_mode :: TimeMode

definition qtime_unbounded :: QTimeRange where
  "qtime_unbounded = \<lparr>qt_from_ns = 0, qt_to_ns = - 1, qt_mode = TmOverlap\<rparr>"

definition qtime_contains :: "u64 \<Rightarrow> QTimeRange \<Rightarrow> bool" where
  "qtime_contains t r \<longleftrightarrow> t \<ge> qt_from_ns r \<and> t < qt_to_ns r"

datatype OutputSchema = ScFlat | ScTree | ScGraph | ScExplanation | ScComparison

primrec schema_of :: "OutputFormat \<Rightarrow> OutputSchema" where
  "schema_of StructuredJson = ScGraph"
| "schema_of TextSummary = ScExplanation"
| "schema_of EvidenceTable = ScComparison"
| "schema_of MinimalGraph = ScGraph"

record GoalSpec =
  gl_intent :: Intent
  gl_time_q :: QTimeRange
  gl_trust_min :: TrustLevel
  gl_domain_mask :: DomainMask
  gl_entities :: "EntityRef list"
  gl_lexical_resolution_required :: bool
  gl_semantic_vectors :: "fnum list list"
  gl_constraints :: "Constraint list"
  gl_context_scope :: ContextScope
  gl_conflict_policy :: ConflictPolicy
  gl_axes :: "SymId list"
  gl_want :: u64
  gl_output_schema :: OutputSchema
  gl_ctx_policy :: u32

definition goal_new :: "Intent \<Rightarrow> GoalSpec" where
  "goal_new intent =
     \<lparr>gl_intent = intent, gl_time_q = qtime_unbounded, gl_trust_min = 0, gl_domain_mask = 0, gl_entities = [],
      gl_lexical_resolution_required = False, gl_semantic_vectors = [], gl_constraints = [],
      gl_context_scope = context_scope_default, gl_conflict_policy = conflict_policy_default, gl_axes = [],
      gl_want = 0xFFFF, gl_output_schema = ScFlat, gl_ctx_policy = 0\<rparr>"

definition goal_node_seeds :: "GoalSpec \<Rightarrow> NodeNum list" where
  "goal_node_seeds g = List.map_filter entity_as_node (gl_entities g)"

section \<open>The contract\<close>

record QueryContract =
  qc_intent :: ContractIntent
  qc_targets :: "EntityPattern list"
  qc_semantic_vectors :: "fnum list list"
  qc_relations :: "RelationRequirement list"
  qc_constraints :: "Constraint list"
  qc_quantifiers :: "QuantifiedCondition list"
  qc_temporal_scope :: TemporalScope
  qc_context_scope :: ContextScope
  qc_source_policy :: SourcePolicy
  qc_evidence_policy :: EvidencePolicy
  qc_freshness_policy :: FreshnessPolicy
  qc_ambiguity_policy :: AmbiguityPolicy
  qc_conflict_policy :: ConflictPolicy
  qc_completeness_policy :: CompletenessPolicy
  qc_output_contract :: OutputContract
  qc_budgets :: QueryBudgets

definition contract_new :: "ContractIntent \<Rightarrow> QueryContract" where
  "contract_new intent =
     \<lparr>qc_intent = intent, qc_targets = [], qc_semantic_vectors = [], qc_relations = [], qc_constraints = [],
      qc_quantifiers = [], qc_temporal_scope = temporal_scope_default, qc_context_scope = context_scope_default,
      qc_source_policy = source_policy_default, qc_evidence_policy = evidence_policy_default,
      qc_freshness_policy = freshness_policy_default, qc_ambiguity_policy = ambiguity_policy_default,
      qc_conflict_policy = conflict_policy_default, qc_completeness_policy = completeness_policy_default,
      qc_output_contract = output_contract_default, qc_budgets = query_budgets_default\<rparr>"

definition with_target :: "EntityPattern \<Rightarrow> QueryContract \<Rightarrow> QueryContract" where
  "with_target t c = c\<lparr>qc_targets := qc_targets c @ [t]\<rparr>"
definition with_semantic_vector :: "fnum list \<Rightarrow> QueryContract \<Rightarrow> QueryContract" where
  "with_semantic_vector v c = c\<lparr>qc_semantic_vectors := qc_semantic_vectors c @ [v]\<rparr>"
definition with_constraint :: "Constraint \<Rightarrow> QueryContract \<Rightarrow> QueryContract" where
  "with_constraint x c = c\<lparr>qc_constraints := qc_constraints c @ [x]\<rparr>"
definition with_relation :: "RelationRequirement \<Rightarrow> QueryContract \<Rightarrow> QueryContract" where
  "with_relation r c = c\<lparr>qc_relations := qc_relations c @ [r]\<rparr>"

definition required_constraints :: "QueryContract \<Rightarrow> Constraint list" where
  "required_constraints c = filter (\<lambda>x. strength_eq (cn_strength x) Must) (qc_constraints c)"
definition forbidden_constraints :: "QueryContract \<Rightarrow> Constraint list" where
  "forbidden_constraints c = filter (\<lambda>x. strength_eq (cn_strength x) MustNot) (qc_constraints c)"
definition should_constraints :: "QueryContract \<Rightarrow> Constraint list" where
  "should_constraints c = filter (\<lambda>x. is_should (cn_strength x)) (qc_constraints c)"
definition constraint_result_skeletons :: "QueryContract \<Rightarrow> ConstraintResult list" where
  "constraint_result_skeletons c = map (\<lambda>x. result_unknown (cn_id x)) (qc_constraints c)"

definition contract_domain_mask :: "QueryContract \<Rightarrow> DomainMask" where
  "contract_domain_mask c = fold (\<lambda>m acc. acc OR m) (List.map_filter ep_domain_mask (qc_targets c)) 0"

section \<open>Checking a contract\<close>

datatype QueryContractError =
    EmptyContract | DuplicateConstraintId ConstraintId | UnknownConstraintReference ConstraintId
  | InvalidShouldWeight ConstraintId fnum | InvalidBudget string | InvalidSemanticVector
  | InvalidEntityReference str

type_synonym 'a qc = "(QueryContractError, 'a) res"

definition fail_if :: "bool \<Rightarrow> QueryContractError \<Rightarrow> unit qc" where
  "fail_if b e = (if b then Err e else Ok ())"

primrec for_each :: "('a \<Rightarrow> unit qc) \<Rightarrow> 'a list \<Rightarrow> unit qc" where
  "for_each f [] = Ok ()"
| "for_each f (x # xs) = bind_res (f x) (\<lambda>_. for_each f xs)"

definition weight_in_range :: "fnum \<Rightarrow> bool" where
  "weight_in_range w \<longleftrightarrow> f_le (f_lit binary32 0 1) w \<and> f_le w (f_lit binary32 1 1)"

text \<open>The loop over the constraints collects their ids.\<close>

primrec check_constraints :: "ConstraintId list \<Rightarrow> Constraint list \<Rightarrow> ConstraintId list qc" where
  "check_constraints ids [] = Ok ids"
| "check_constraints ids (x # xs) =
     (if cn_id x \<in> set ids then Err (DuplicateConstraintId (cn_id x))
      else
        case cn_strength x of
          Should w \<Rightarrow>
            if weight_in_range w then check_constraints (cn_id x # ids) xs
            else Err (InvalidShouldWeight (cn_id x) w)
        | _ \<Rightarrow> check_constraints (cn_id x # ids) xs)"

definition selector_count :: "EntityPattern \<Rightarrow> nat" where
  "selector_count t =
     of_bool (ep_id t \<noteq> None) + of_bool (ep_entity_id t \<noteq> None) + of_bool (ep_atom_id t \<noteq> None) +
     of_bool (ep_node_id t \<noteq> None) + of_bool (ep_term_id t \<noteq> None) + of_bool (ep_symbol_id t \<noteq> None) +
     of_bool (ep_stable_key t \<noteq> None)"

definition check_target :: "EntityPattern \<Rightarrow> unit qc" where
  "check_target t =
     bind_res (fail_if (selector_count t > 1)
       (InvalidEntityReference (utf8 ''a target may contain only one exact selector''))) (\<lambda>_.
     fail_if (case ep_stable_key t of None \<Rightarrow> False | Some v \<Rightarrow> str_trim v = [])
       (InvalidEntityReference (utf8 ''stable_key must not be empty'')))"

definition budget_checks :: "QueryContract \<Rightarrow> (bool \<times> string) list" where
  "budget_checks c =
     (let b = qc_budgets c; out = qc_output_contract c in
      [(qb_max_atoms b = 0 \<or> qb_max_atoms b > 65536, ''max_atoms''),
       (qb_max_iterations b = 0 \<or> qb_max_iterations b > 1000, ''max_iterations''),
       (qb_max_edges b > 262144, ''max_edges''),
       (qb_max_io_bytes b > 1024 * 1024 * 1024, ''max_io_bytes''),
       (qb_max_time_ms b > 300000, ''max_time_ms''),
       (qb_max_federated_calls b > 128, ''max_federated_calls''),
       (qb_max_context_branches b > 65536, ''max_context_branches''),
       (oc_max_items out = 0 \<or> oc_max_items out > 4096, ''output_contract.max_items''),
       (oc_max_bytes out < 2048 \<or> oc_max_bytes out > 8 * 1024 * 1024, ''output_contract.max_bytes'')])"

definition contract_validate :: "QueryContract \<Rightarrow> unit qc" where
  "contract_validate c =
     bind_res (fail_if (qc_targets c = [] \<and> qc_semantic_vectors c = [] \<and> qc_relations c = [] \<and> qc_constraints c = [])
       EmptyContract) (\<lambda>_.
     bind_res (fail_if ([] \<in> set (qc_semantic_vectors c)) InvalidSemanticVector) (\<lambda>_.
     bind_res (check_constraints [] (qc_constraints c)) (\<lambda>ids.
     bind_res (for_each (\<lambda>q. for_each (\<lambda>i. fail_if (i \<notin> set ids) (UnknownConstraintReference i)) (qn_constraint_ids q))
       (qc_quantifiers c)) (\<lambda>_.
     bind_res (fail_if (length (qc_targets c) > 256 \<or> length (qc_constraints c) > 1024)
       (InvalidBudget ''contract collection size'')) (\<lambda>_.
     bind_res (for_each check_target (qc_targets c)) (\<lambda>_.
     for_each (\<lambda>(b, field). fail_if b (InvalidBudget field)) (budget_checks c)))))))"

section \<open>Lowering a contract to a goal\<close>

text \<open>\<open>str::parse\<close> of an unsigned integer: an optional plus sign, then at least one decimal digit, no overflow.\<close>

definition digit_value :: "u8 \<Rightarrow> nat option" where
  "digit_value c = (if 48 \<le> c \<and> c \<le> 57 then Some (unat c - 48) else None)"

primrec digits_value :: "nat \<Rightarrow> nat \<Rightarrow> str \<Rightarrow> nat option" where
  "digits_value limit acc [] = Some acc"
| "digits_value limit acc (c # cs) =
     (case digit_value c of
        None \<Rightarrow> None
      | Some d \<Rightarrow> if acc * 10 + d > limit then None else digits_value limit (acc * 10 + d) cs)"

definition parse_uint :: "nat \<Rightarrow> str \<Rightarrow> nat option" where
  "parse_uint limit s =
     (case s of
        [] \<Rightarrow> None
      | c # cs \<Rightarrow> if c = 43 \<and> cs \<noteq> [] then digits_value limit 0 cs else digits_value limit 0 s)"

definition parse_u32 :: "str \<Rightarrow> u32 option" where
  "parse_u32 s = map_option of_nat (parse_uint (2 ^ 32 - 1) s)"
definition parse_u64 :: "str \<Rightarrow> u64 option" where
  "parse_u64 s = map_option of_nat (parse_uint (2 ^ 64 - 1) s)"

definition colon :: u8 where "colon = 58"

definition split_once :: "u8 \<Rightarrow> str \<Rightarrow> (str \<times> str) option" where
  "split_once c s =
     (case dropWhile (\<lambda>b. b \<noteq> c) s of [] \<Rightarrow> None | _ # rest \<Rightarrow> Some (takeWhile (\<lambda>b. b \<noteq> c) s, rest))"

definition parse_entity_ref :: "str \<Rightarrow> EntityRef qc" where
  "parse_entity_ref s =
     (case split_once colon s of
        None \<Rightarrow> Err (InvalidEntityReference s)
      | Some (prefix, raw) \<Rightarrow>
          if prefix = utf8 ''term'' then ok_or (map_option ETerm (parse_u32 raw)) (InvalidEntityReference s)
          else if prefix = utf8 ''sym'' then ok_or (map_option ESym (parse_u32 raw)) (InvalidEntityReference s)
          else if prefix = utf8 ''node'' then ok_or (map_option ENode (parse_u64 raw)) (InvalidEntityReference s)
          else if prefix = utf8 ''atom'' then
            (case hex_decode raw of Inl _ \<Rightarrow> Err (InvalidEntityReference s) | Inr a \<Rightarrow> Ok (EAtom a))
          else Err (InvalidEntityReference s))"

definition explicit_entity_ref :: "EntityPattern \<Rightarrow> EntityRef qc option" where
  "explicit_entity_ref t =
     (case ep_atom_id t of
        Some a \<Rightarrow>
          Some (case hex_decode a of Inl _ \<Rightarrow> Err (InvalidEntityReference a) | Inr x \<Rightarrow> Ok (EAtom x))
      | None \<Rightarrow>
     (case ep_node_id t of Some n \<Rightarrow> Some (Ok (ENode n)) | None \<Rightarrow>
     (case ep_term_id t of Some n \<Rightarrow> Some (Ok (ETerm n)) | None \<Rightarrow>
     (case ep_symbol_id t of Some n \<Rightarrow> Some (Ok (ESym n)) | None \<Rightarrow>
     (case ep_id t of
        Some i \<Rightarrow> Some (parse_entity_ref i)
      | None \<Rightarrow>
          (case ep_label t of
             None \<Rightarrow> None
           | Some l \<Rightarrow> if colon \<in> set l then Some (parse_entity_ref l) else None))))))"

primrec collect_res :: "'a qc list \<Rightarrow> 'a list qc" where
  "collect_res [] = Ok []"
| "collect_res (r # rs) = bind_res r (\<lambda>x. bind_res (collect_res rs) (\<lambda>xs. Ok (x # xs)))"

definition saturating_add1 :: "u64 \<Rightarrow> u64" where
  "saturating_add1 x = (if x = - 1 then x else x + 1)"

definition or_else :: "'a option \<Rightarrow> 'a option \<Rightarrow> 'a option" where
  "or_else a b = (case a of None \<Rightarrow> b | Some x \<Rightarrow> Some x)"

definition spec_to_time_range :: "TimeRangeSpec \<Rightarrow> QTimeRange" where
  "spec_to_time_range r =
     \<lparr>qt_from_ns = (case ts_from_unix_ns r of None \<Rightarrow> 0 | Some t \<Rightarrow> t),
      qt_to_ns = (case ts_to_unix_ns r of None \<Rightarrow> - 1 | Some t \<Rightarrow> t), qt_mode = TmOverlap\<rparr>"

definition temporal_to_time_range :: "TemporalScope \<Rightarrow> QTimeRange" where
  "temporal_to_time_range s =
     (case tp_latest_count s of
        Some count \<Rightarrow> \<lparr>qt_from_ns = ucast count, qt_to_ns = - 1, qt_mode = TmLatest\<rparr>
      | None \<Rightarrow>
     (case or_else (tp_valid_at_unix_ns s) (tp_observed_at_unix_ns s) of
        Some t \<Rightarrow> \<lparr>qt_from_ns = t, qt_to_ns = saturating_add1 t, qt_mode = TmExact\<rparr>
      | None \<Rightarrow>
     (case tp_before_unix_ns s of
        Some t \<Rightarrow> \<lparr>qt_from_ns = 0, qt_to_ns = t, qt_mode = TmContained\<rparr>
      | None \<Rightarrow>
     (case tp_after_unix_ns s of
        Some t \<Rightarrow> \<lparr>qt_from_ns = t, qt_to_ns = - 1, qt_mode = TmContained\<rparr>
      | None \<Rightarrow>
          (case tp_time_range s of Some r \<Rightarrow> spec_to_time_range r | None \<Rightarrow> qtime_unbounded)))))"

definition temporal_to_constraints :: "TemporalScope \<Rightarrow> Constraint list" where
  "temporal_to_constraints s =
     (case tp_before_unix_ns s of
        None \<Rightarrow> []
      | Some t \<Rightarrow> [constraint_must (utf8 ''__temporal_before'') TgTime OpBefore (VNumber (f64_of t))]) @
     (case tp_after_unix_ns s of
        None \<Rightarrow> []
      | Some t \<Rightarrow> [constraint_must (utf8 ''__temporal_after'') TgTime OpAfter (VNumber (f64_of t))]) @
     (case tp_time_range s of
        None \<Rightarrow> []
      | Some r \<Rightarrow> [constraint_must (utf8 ''__temporal_during'') TgTime OpDuring (VTimeRange r)]) @
     (case or_else (tp_valid_at_unix_ns s) (tp_observed_at_unix_ns s) of
        None \<Rightarrow> []
      | Some t \<Rightarrow>
          [constraint_must (utf8 ''__temporal_valid_at'') TgTime OpWithin
             (VTimeRange \<lparr>ts_from_unix_ns = Some t, ts_to_unix_ns = Some (saturating_add1 t)\<rparr>)])"

definition to_goal_spec :: "QueryContract \<Rightarrow> GoalSpec qc" where
  "to_goal_spec c =
     bind_res (contract_validate c) (\<lambda>_.
     let constraints = qc_constraints c @ temporal_to_constraints (qc_temporal_scope c);
         goal = (goal_new (intent_of (qc_intent c)))
           \<lparr>gl_time_q := temporal_to_time_range (qc_temporal_scope c),
            gl_domain_mask := contract_domain_mask c,
            gl_output_schema := schema_of (oc_format (qc_output_contract c))\<rparr>;
         goal = (case cs_policy_id (qc_context_scope c) of None \<Rightarrow> goal | Some p \<Rightarrow> goal\<lparr>gl_ctx_policy := p\<rparr>)
     in bind_res (collect_res (List.map_filter explicit_entity_ref (qc_targets c))) (\<lambda>entities.
        let goal = (if entities \<noteq> [] then goal\<lparr>gl_entities := entities\<rparr> else goal);
            goal = (if qc_semantic_vectors c \<noteq> [] then goal\<lparr>gl_semantic_vectors := qc_semantic_vectors c\<rparr> else goal)
        in Ok (goal\<lparr>gl_constraints := constraints, gl_context_scope := qc_context_scope c,
                    gl_conflict_policy := qc_conflict_policy c\<rparr>)))"


section \<open>What the check accepts\<close>

lemma fail_if_eq [simp]: "fail_if b e = Ok () \<longleftrightarrow> \<not> b" "fail_if b e \<noteq> Panic"
  by (simp_all add: fail_if_def)

lemma for_each_Ok [simp]: "for_each f xs = Ok () \<longleftrightarrow> (\<forall>x\<in>set xs. f x = Ok ())"
  by (induction xs) auto

lemma check_constraints_Ok:
  "check_constraints ids xs = Ok ids' \<longleftrightarrow>
     ids' = rev (map cn_id xs) @ ids \<and> distinct (map cn_id xs) \<and> set ids \<inter> cn_id ` set xs = {} \<and>
     (\<forall>x\<in>set xs. case cn_strength x of Should w \<Rightarrow> weight_in_range w | _ \<Rightarrow> True)"
  by (induction xs arbitrary: ids) (auto split: ConstraintStrength.split)

text \<open>The contracts that pass the check, stated without the order in which things are checked.\<close>

definition target_ok :: "EntityPattern \<Rightarrow> bool" where
  "target_ok t \<longleftrightarrow> selector_count t \<le> 1 \<and> (\<forall>v. ep_stable_key t = Some v \<longrightarrow> str_trim v \<noteq> [])"

definition budgets_ok :: "QueryContract \<Rightarrow> bool" where
  "budgets_ok c \<longleftrightarrow>
     qb_max_atoms (qc_budgets c) \<in> {1..65536} \<and> qb_max_iterations (qc_budgets c) \<in> {1..1000} \<and>
     qb_max_edges (qc_budgets c) \<le> 262144 \<and> qb_max_io_bytes (qc_budgets c) \<le> 1073741824 \<and>
     qb_max_time_ms (qc_budgets c) \<le> 300000 \<and> qb_max_federated_calls (qc_budgets c) \<le> 128 \<and>
     qb_max_context_branches (qc_budgets c) \<le> 65536 \<and>
     oc_max_items (qc_output_contract c) \<in> {1..4096} \<and> oc_max_bytes (qc_output_contract c) \<in> {2048..8388608}"

definition contract_ok :: "QueryContract \<Rightarrow> bool" where
  "contract_ok c \<longleftrightarrow>
     (qc_targets c \<noteq> [] \<or> qc_semantic_vectors c \<noteq> [] \<or> qc_relations c \<noteq> [] \<or> qc_constraints c \<noteq> []) \<and>
     [] \<notin> set (qc_semantic_vectors c) \<and>
     distinct (map cn_id (qc_constraints c)) \<and>
     (\<forall>x\<in>set (qc_constraints c). \<forall>w. cn_strength x = Should w \<longrightarrow> weight_in_range w) \<and>
     (\<forall>q\<in>set (qc_quantifiers c). set (qn_constraint_ids q) \<subseteq> cn_id ` set (qc_constraints c)) \<and>
     length (qc_targets c) \<le> 256 \<and> length (qc_constraints c) \<le> 1024 \<and>
     (\<forall>t\<in>set (qc_targets c). target_ok t) \<and> budgets_ok c"

lemma check_target_Ok: "check_target t = Ok () \<longleftrightarrow> target_ok t"
  by (auto simp: check_target_def target_ok_def split: option.splits)

lemma word_ge_1: "1 \<le> x \<longleftrightarrow> x \<noteq> (0 :: 'a::len word)"
  by (metis linorder_not_less word_less_1)

lemma budget_checks_Ok:
  "(\<forall>(b, field)\<in>set (budget_checks c). fail_if b (InvalidBudget field) = Ok ()) \<longleftrightarrow> budgets_ok c"
  by (simp add: budget_checks_def budgets_ok_def Let_def word_ge_1 not_less)

lemma contract_validate_iff: "contract_validate c = Ok () \<longleftrightarrow> contract_ok c"
  unfolding contract_validate_def contract_ok_def
  by (auto simp: check_constraints_Ok check_target_Ok budget_checks_Ok [symmetric] split: ConstraintStrength.splits)

end
