(* ===== verification/Query_Constraints.thy ===== *)
theory Query_Constraints
  imports Query_Contract
begin

text \<open>
  The evaluation of constraints of \<open>src/query/constraints.rs\<close>. The trait \<open>ConstraintSubject\<close> is a record of its
  three functions. The lower case of Unicode text and the text of a reason (a debug format) are parameters.
\<close>

record Texts =
  tx_lowercase :: "str \<Rightarrow> str"
  tx_reason :: "ConstraintOperator \<Rightarrow> ConstraintValue \<Rightarrow> ConstraintValue \<Rightarrow> str"

record ConstraintSubject =
  sj_value_for :: "ConstraintTarget \<Rightarrow> ConstraintValue option"
  sj_evidence_refs_for :: "Constraint \<Rightarrow> str list"
  sj_candidate_ref :: "str option"

section \<open>Facts\<close>

record ConstraintFacts =
  fc_values :: "(ConstraintTarget, ConstraintValue) hmap"
  fc_evidence_refs :: "(ConstraintId, str list) hmap"
  fc_candidate_ref :: "str option"

definition facts_new :: ConstraintFacts where
  "facts_new = \<lparr>fc_values = [], fc_evidence_refs = [], fc_candidate_ref = None\<rparr>"
definition facts_with_value :: "ConstraintTarget \<Rightarrow> ConstraintValue \<Rightarrow> ConstraintFacts \<Rightarrow> ConstraintFacts" where
  "facts_with_value t v f = f\<lparr>fc_values := AList.update t v (fc_values f)\<rparr>"
definition facts_with_candidate_ref :: "str \<Rightarrow> ConstraintFacts \<Rightarrow> ConstraintFacts" where
  "facts_with_candidate_ref r f = f\<lparr>fc_candidate_ref := Some r\<rparr>"
definition facts_with_evidence_ref :: "ConstraintId \<Rightarrow> str \<Rightarrow> ConstraintFacts \<Rightarrow> ConstraintFacts" where
  "facts_with_evidence_ref i e f = f\<lparr>fc_evidence_refs := entry_upd [] (\<lambda>es. es @ [e]) i (fc_evidence_refs f)\<rparr>"

definition facts_subject :: "ConstraintFacts \<Rightarrow> ConstraintSubject" where
  "facts_subject f =
     \<lparr>sj_value_for = map_of (fc_values f),
      sj_evidence_refs_for = (\<lambda>c. get_or [] (fc_evidence_refs f) (cn_id c)),
      sj_candidate_ref = fc_candidate_ref f\<rparr>"

section \<open>Comparing values\<close>

definition ascii_lower :: "u8 \<Rightarrow> u8" where
  "ascii_lower c = (if 65 \<le> c \<and> c \<le> 90 then c + 32 else c)"

definition eq_ignore_ascii_case :: "str \<Rightarrow> str \<Rightarrow> bool" where
  "eq_ignore_ascii_case a b \<longleftrightarrow> map ascii_lower a = map ascii_lower b"

fun str_contains :: "str \<Rightarrow> str \<Rightarrow> bool" where
  "str_contains [] needle \<longleftrightarrow> needle = []"
| "str_contains (c # cs) needle \<longleftrightarrow> take (length needle) (c # cs) = needle \<or> str_contains cs needle"

definition values_equal :: "ConstraintValue \<Rightarrow> ConstraintValue \<Rightarrow> bool" where
  "values_equal l r = (case (l, r) of (VText a, VText b) \<Rightarrow> eq_ignore_ascii_case a b | _ \<Rightarrow> value_eq l r)"

definition value_text :: "ConstraintValue \<Rightarrow> str option" where
  "value_text v = (case v of VText t \<Rightarrow> Some t | _ \<Rightarrow> None)"

definition text_set :: "(str \<Rightarrow> str) \<Rightarrow> ConstraintValue list \<Rightarrow> str set" where
  "text_set lower vs = lower ` set (List.map_filter value_text vs)"

definition contains_value :: "(str \<Rightarrow> str) \<Rightarrow> ConstraintValue \<Rightarrow> ConstraintValue \<Rightarrow> bool" where
  "contains_value lower actual expected =
     (case (actual, expected) of
        (VText a, VText e) \<Rightarrow> str_contains (lower a) (lower e)
      | (VList items, VList expected_items) \<Rightarrow>
          list_all (\<lambda>item. lower item \<in> text_set lower items) (List.map_filter value_text expected_items)
      | (VList items, e) \<Rightarrow> list_ex (\<lambda>item. values_equal item e) items
      | _ \<Rightarrow> values_equal actual expected)"

definition numeric_pair :: "ConstraintValue \<Rightarrow> ConstraintValue \<Rightarrow> (fnum \<times> fnum) option" where
  "numeric_pair actual expected = (case (actual, expected) of (VNumber a, VNumber b) \<Rightarrow> Some (a, b) | _ \<Rightarrow> None)"

definition temporal_before :: "ConstraintValue \<Rightarrow> ConstraintValue \<Rightarrow> bool" where
  "temporal_before actual expected =
     (case numeric_pair actual expected of None \<Rightarrow> False | Some (t, boundary) \<Rightarrow> f_lt t boundary)"

definition temporal_after :: "ConstraintValue \<Rightarrow> ConstraintValue \<Rightarrow> bool" where
  "temporal_after actual expected =
     (case numeric_pair actual expected of None \<Rightarrow> False | Some (t, boundary) \<Rightarrow> f_le boundary t)"

definition temporal_within :: "ConstraintValue \<Rightarrow> ConstraintValue \<Rightarrow> bool" where
  "temporal_within actual expected =
     (case (actual, expected) of
        (VNumber t, VTimeRange r) \<Rightarrow>
          let from = f64_of (case ts_from_unix_ns r of None \<Rightarrow> 0 | Some x \<Rightarrow> x);
              to = f64_of (case ts_to_unix_ns r of None \<Rightarrow> - 1 | Some x \<Rightarrow> x)
          in f_le from t \<and> f_lt t to
      | _ \<Rightarrow> False)"

definition compare_values :: "(str \<Rightarrow> str) \<Rightarrow> ConstraintValue \<Rightarrow> ConstraintOperator \<Rightarrow> ConstraintValue \<Rightarrow> bool" where
  "compare_values lower actual oper expected =
     (case oper of
        OpExists \<Rightarrow> actual \<noteq> VNone
      | OpEq \<Rightarrow> values_equal actual expected
      | OpNe \<Rightarrow> \<not> values_equal actual expected
      | OpContains \<Rightarrow> contains_value lower actual expected
      | OpMatches \<Rightarrow> contains_value lower actual expected
      | OpGte \<Rightarrow> (case numeric_pair actual expected of None \<Rightarrow> False | Some (a, b) \<Rightarrow> f_le b a)
      | OpLte \<Rightarrow> (case numeric_pair actual expected of None \<Rightarrow> False | Some (a, b) \<Rightarrow> f_le a b)
      | OpBefore \<Rightarrow> temporal_before actual expected
      | OpAfter \<Rightarrow> temporal_after actual expected
      | OpDuring \<Rightarrow> temporal_within actual expected
      | OpWithin \<Rightarrow> temporal_within actual expected)"

section \<open>The evaluator\<close>

definition attach_subject_refs :: "ConstraintResult \<Rightarrow> ConstraintSubject \<Rightarrow> ConstraintResult" where
  "attach_subject_refs r subject =
     (case sj_candidate_ref subject of None \<Rightarrow> r | Some c \<Rightarrow> r\<lparr>cr_candidate_ref := Some c\<rparr>)"

definition constraint_holds :: "Texts \<Rightarrow> Constraint \<Rightarrow> ConstraintValue \<Rightarrow> bool" where
  "constraint_holds tx c actual =
     (let matched = compare_values (tx_lowercase tx) actual (cn_operator c) (cn_value c)
      in case cn_strength c of MustNot \<Rightarrow> \<not> matched | _ \<Rightarrow> matched)"

definition evaluate_constraint :: "Texts \<Rightarrow> Constraint \<Rightarrow> ConstraintSubject \<Rightarrow> ConstraintResult" where
  "evaluate_constraint tx c subject =
     (case sj_value_for subject (cn_target c) of
        None \<Rightarrow> attach_subject_refs (result_unknown (cn_id c)) subject
      | Some actual \<Rightarrow>
          let satisfied = constraint_holds tx c actual;
              result = \<lparr>cr_constraint_id = cn_id c,
                        cr_status = (if satisfied then Satisfied else Violated),
                        cr_reason = (if \<not> satisfied then Some (tx_reason tx (cn_operator c) (cn_value c) actual) else None),
                        cr_candidate_ref = None,
                        cr_evidence_refs = sj_evidence_refs_for subject c\<rparr>
          in attach_subject_refs result subject)"

definition evaluate_contract :: "Texts \<Rightarrow> QueryContract \<Rightarrow> ConstraintSubject \<Rightarrow> ConstraintResult list" where
  "evaluate_contract tx c subject = map (\<lambda>x. evaluate_constraint tx x subject) (qc_constraints c)"

definition hard_constraints_satisfied :: "ConstraintResult list \<Rightarrow> bool" where
  "hard_constraints_satisfied results =
     list_all (\<lambda>r. cr_status r \<noteq> Violated \<and> cr_status r \<noteq> BlockedByPolicy) results"

section \<open>Status of a constraint\<close>

lemma attach_status [simp]: "cr_status (attach_subject_refs r s) = cr_status r"
  by (simp add: attach_subject_refs_def split: option.split)

lemma evaluate_status:
  "cr_status (evaluate_constraint tx c subject) =
     (case sj_value_for subject (cn_target c) of None \<Rightarrow> Unknown
      | Some v \<Rightarrow> if constraint_holds tx c v then Satisfied else Violated)"
  by (simp add: evaluate_constraint_def result_unknown_def result_new_def Let_def split: option.split)

text \<open>The range of one nanosecond that stands for a point in time is empty once both ends are doubles.\<close>

lemma f64_of_next_ns:
  assumes "2 ^ 60 \<le> unat t" "unat t < 2 ^ 61 - 1" "unat t mod 256 \<noteq> 127" "unat t mod 256 \<noteq> 128"
  shows "f64_of (saturating_add1 t) = f64_of t"
proof -
  have "unat (- 1 :: u64) = 2 ^ 64 - 1" by (simp add: unsigned_minus_1_eq_mask mask_eq_exp_minus_1)
  with assms(2) have "t \<noteq> - 1" by auto
  moreover have "unat (t + 1) = unat t + 1" using assms(2) by (subst unat_add_lem [THEN iffD1]) simp_all
  ultimately show ?thesis
    using f64_of_time_Suc [of "unat t"] assms by (simp add: f64_of_def saturating_add1_def)
qed

lemma valid_at_never_holds:
  assumes "2 ^ 60 \<le> unat t" "unat t < 2 ^ 61 - 1" "unat t mod 256 \<noteq> 127" "unat t mod 256 \<noteq> 128"
  shows "\<not> temporal_within v (VTimeRange \<lparr>ts_from_unix_ns = Some t, ts_to_unix_ns = Some (saturating_add1 t)\<rparr>)"
  using f64_of_next_ns [OF assms] f_lt_not_le
  by (auto simp: temporal_within_def Let_def split: ConstraintValue.split)

end
