(* ===== verification/Query_Router.thy ===== *)
theory Query_Router
  imports Query_Constraints Inverted_Index Graph_Store Vm_Views
begin

text \<open>
  The routing of gaps to candidate atoms of \<open>src/query/router.rs\<close>: the four backends, their merged answer, and
  the view of a candidate as the subject of constraints; the uniform candidate of \<open>src/query/retrieval.rs\<close>. The
  search of the embedding index is a parameter of the ANN backend. A candidate list is a value of the run
  monad of the graph store, since reading damaged graph rows panics.
\<close>

section \<open>Candidates\<close>

record EvidenceRef =
  er_atom_id :: AtomId
  er_section_kind :: SectionKind
  er_offset :: u64
  er_length :: u64
  er_trust :: TrustLevel

datatype SourcePriority = PrCasExact | PrInverted | PrGraphWalk | PrAnn

primrec source_priority_as_u8 :: "SourcePriority \<Rightarrow> u8" where
  "source_priority_as_u8 PrCasExact = 0"
| "source_priority_as_u8 PrInverted = 1"
| "source_priority_as_u8 PrGraphWalk = 2"
| "source_priority_as_u8 PrAnn = 3"

datatype BackendKind = BkCas | BkInverted | BkGraph | BkAnn

primrec backend_as_str :: "BackendKind \<Rightarrow> str" where
  "backend_as_str BkCas = utf8 ''CAS''"
| "backend_as_str BkInverted = utf8 ''inverted''"
| "backend_as_str BkGraph = utf8 ''graph''"
| "backend_as_str BkAnn = utf8 ''ANN''"

record Candidate =
  ca_atom_id :: AtomId
  ca_node_num :: NodeNum
  ca_seg_id :: u32
  ca_offset :: u64
  ca_atom_type :: AtomType
  ca_trust :: TrustLevel
  ca_estimated_io_bytes :: u32
  ca_source_backend :: BackendKind
  ca_requires_invariant_check :: bool
  ca_covers_gaps :: "GapId list"
  ca_source_priority :: SourcePriority
  ca_hard_conflicts :: u32
  ca_soft_conflicts :: u32
  ca_age_ns :: u64
  ca_domain_mask :: DomainMask
  ca_evidence_refs :: "EvidenceRef list"
  ca_derived_claims :: "ClaimData list"
  ca_ann_requires_filtering :: bool
  ca_branch_ctx_id :: "CtxId option"

section \<open>The cache of metadata\<close>

record AtomMetadataCache =
  mc_trust_by_node :: "(NodeNum, TrustLevel) hmap"
  mc_domain_by_node :: "(NodeNum, DomainMask) hmap"
  mc_source_by_node :: "(NodeNum, u32) hmap"
  mc_evidence_by_node :: "(NodeNum, EvidenceRef list) hmap"

definition cache_new :: AtomMetadataCache where
  "cache_new = \<lparr>mc_trust_by_node = [], mc_domain_by_node = [], mc_source_by_node = [], mc_evidence_by_node = []\<rparr>"

definition cache_register :: "NodeNum \<Rightarrow> TrustLevel \<Rightarrow> DomainMask \<Rightarrow> u32 \<Rightarrow> AtomMetadataCache \<Rightarrow> AtomMetadataCache" where
  "cache_register n trust domain source c =
     c\<lparr>mc_trust_by_node := AList.update n trust (mc_trust_by_node c),
       mc_domain_by_node := AList.update n domain (mc_domain_by_node c),
       mc_source_by_node := AList.update n source (mc_source_by_node c)\<rparr>"

definition cache_register_evidence :: "NodeNum \<Rightarrow> EvidenceRef list \<Rightarrow> AtomMetadataCache \<Rightarrow> AtomMetadataCache" where
  "cache_register_evidence n es c = c\<lparr>mc_evidence_by_node := AList.update n es (mc_evidence_by_node c)\<rparr>"

definition cache_get_trust :: "NodeNum \<Rightarrow> AtomMetadataCache \<Rightarrow> TrustLevel" where
  "cache_get_trust n c = get_or 5000 (mc_trust_by_node c) n"
definition cache_get_domain :: "NodeNum \<Rightarrow> AtomMetadataCache \<Rightarrow> DomainMask" where
  "cache_get_domain n c = get_or 0xFFFF (mc_domain_by_node c) n"
definition cache_get_evidence :: "NodeNum \<Rightarrow> AtomMetadataCache \<Rightarrow> EvidenceRef list" where
  "cache_get_evidence n c = get_or [] (mc_evidence_by_node c) n"
definition cache_get_source :: "NodeNum \<Rightarrow> AtomMetadataCache \<Rightarrow> u32" where
  "cache_get_source n c = get_or 0 (mc_source_by_node c) n"

definition matches_domain :: "Location \<Rightarrow> DomainMask \<Rightarrow> bool" where
  "matches_domain loc domain_mask \<longleftrightarrow> domain_mask = 0 \<or> loc_domain_mask loc AND domain_mask \<noteq> 0"

section \<open>The CAS backend\<close>

record CasBackend =
  cb_locations :: "(AtomId, Location) hmap"

definition cas_backend_new :: CasBackend where "cas_backend_new = \<lparr>cb_locations = []\<rparr>"
definition cas_register :: "AtomId \<Rightarrow> Location \<Rightarrow> CasBackend \<Rightarrow> CasBackend" where
  "cas_register a l b = b\<lparr>cb_locations := AList.update a l (cb_locations b)\<rparr>"
definition cas_unregister :: "AtomId \<Rightarrow> CasBackend \<Rightarrow> CasBackend" where
  "cas_unregister a b = b\<lparr>cb_locations := AList.delete a (cb_locations b)\<rparr>"
definition cas_locate :: "AtomId \<Rightarrow> CasBackend \<Rightarrow> Location option" where
  "cas_locate a b = map_of (cb_locations b) a"

definition cas_make_candidate :: "AtomId \<Rightarrow> Location \<Rightarrow> Gap \<Rightarrow> Candidate" where
  "cas_make_candidate a loc gap =
     \<lparr>ca_atom_id = a, ca_node_num = loc_node_num loc, ca_seg_id = loc_seg_id loc, ca_offset = loc_offset loc,
      ca_atom_type = FACT, ca_trust = 5000, ca_estimated_io_bytes = loc_len loc, ca_source_backend = BkCas,
      ca_requires_invariant_check = True, ca_covers_gaps = [gap_id gap], ca_source_priority = PrCasExact,
      ca_hard_conflicts = 0, ca_soft_conflicts = 0, ca_age_ns = 0, ca_domain_mask = 0xFFFF, ca_evidence_refs = [],
      ca_derived_claims = [], ca_ann_requires_filtering = False, ca_branch_ctx_id = None\<rparr>"

definition cas_route :: "Gap \<Rightarrow> EntityRef list \<Rightarrow> DomainMask \<Rightarrow> bool \<Rightarrow> CasBackend \<Rightarrow> Candidate list" where
  "cas_route gap goal_entities domain_mask lexical_required b =
     (let exact = List.map_filter (\<lambda>e. case e of
            EAtom a \<Rightarrow> map_option (\<lambda>loc. cas_make_candidate a loc gap) (cas_locate a b)
          | _ \<Rightarrow> None) goal_entities;
          by_node = (case cp_subj (gap_pattern gap) of
            PNode n \<Rightarrow>
              (case find (\<lambda>(a, loc). loc_node_num loc = n) (cb_locations b) of
                 None \<Rightarrow> [] | Some (a, loc) \<Rightarrow> [cas_make_candidate a loc gap])
          | _ \<Rightarrow> []);
          candidates = exact @ by_node
      in if candidates = [] \<and> gap_kind gap = NEED_DEFINITION \<and> pattern_is_any (cp_subj (gap_pattern gap))
            \<and> \<not> lexical_required
         then take 256 (sort_key ca_atom_id
                (map (\<lambda>(a, loc). cas_make_candidate a loc gap)
                   (filter (\<lambda>(a, loc). matches_domain loc domain_mask) (cb_locations b))))
         else candidates)"

section \<open>The lexical backend\<close>

record InvertedBackend =
  ib_inverted_index :: "InvertedIndex option"
  ib_node_to_atom :: "(NodeNum, AtomId) hmap"
  ib_node_to_location :: "(NodeNum, Location) hmap"
  ib_local_terms :: "(str, NodeNum list) hmap"
  ib_metadata_cache :: AtomMetadataCache

definition inverted_backend_new :: InvertedBackend where
  "inverted_backend_new =
     \<lparr>ib_inverted_index = None, ib_node_to_atom = [], ib_node_to_location = [], ib_local_terms = [],
      ib_metadata_cache = cache_new\<rparr>"

definition inverted_with_index :: "InvertedIndex \<Rightarrow> InvertedBackend \<Rightarrow> InvertedBackend" where
  "inverted_with_index ix b = b\<lparr>ib_inverted_index := Some ix\<rparr>"
definition inverted_register :: "NodeNum \<Rightarrow> AtomId \<Rightarrow> Location \<Rightarrow> InvertedBackend \<Rightarrow> InvertedBackend" where
  "inverted_register n a l b =
     b\<lparr>ib_node_to_atom := AList.update n a (ib_node_to_atom b),
       ib_node_to_location := AList.update n l (ib_node_to_location b)\<rparr>"
definition inverted_index_term :: "(str \<Rightarrow> str) \<Rightarrow> str \<Rightarrow> NodeNum \<Rightarrow> InvertedBackend \<Rightarrow> InvertedBackend" where
  "inverted_index_term lowercase t n b =
     b\<lparr>ib_local_terms := entry_upd [] (\<lambda>ns. ns @ [n]) (lowercase t) (ib_local_terms b)\<rparr>"
definition inverted_register_metadata ::
  "NodeNum \<Rightarrow> TrustLevel \<Rightarrow> DomainMask \<Rightarrow> u32 \<Rightarrow> InvertedBackend \<Rightarrow> InvertedBackend" where
  "inverted_register_metadata n t d s b = b\<lparr>ib_metadata_cache := cache_register n t d s (ib_metadata_cache b)\<rparr>"
definition inverted_register_evidence :: "NodeNum \<Rightarrow> EvidenceRef list \<Rightarrow> InvertedBackend \<Rightarrow> InvertedBackend" where
  "inverted_register_evidence n es b = b\<lparr>ib_metadata_cache := cache_register_evidence n es (ib_metadata_cache b)\<rparr>"

definition resolve_term_id :: "u32 \<Rightarrow> InvertedBackend \<Rightarrow> str option" where
  "resolve_term_id i b = Option.bind (ib_inverted_index b) (\<lambda>ix. lex_get i (iv_lexicon ix))"

definition lookup_term :: "str \<Rightarrow> InvertedBackend \<Rightarrow> NodeNum list" where
  "lookup_term t b =
     (let results = get_or [] (ib_local_terms b) t
      in case Option.bind (ib_inverted_index b) (inverted_search t) of
           None \<Rightarrow> results
         | Some pl \<Rightarrow> foldl (\<lambda>rs n. if n \<in> set rs then rs else rs @ [n]) results pl)"

text \<open>What the patterns and the entities of the goal are looked up under.\<close>

definition numbered :: "string \<Rightarrow> u32 \<Rightarrow> str" where
  "numbered prefix n = utf8 (prefix @ dec (unat n))"

definition pattern_terms :: "string \<Rightarrow> PatternRef \<Rightarrow> str list" where
  "pattern_terms prefix p = (case p of PSym s \<Rightarrow> [numbered prefix s, utf8 (prefix @ ''*'')] | _ \<Rightarrow> [])"

definition pattern_nodes :: "ClaimPattern \<Rightarrow> InvertedBackend \<Rightarrow> NodeNum list" where
  "pattern_nodes p b =
     concat (map (\<lambda>t. lookup_term t b)
       (pattern_terms ''sym:'' (cp_subj p) @ pattern_terms ''pred:'' (cp_pred p) @ pattern_terms ''sym:'' (cp_obj p)))"

definition entity_nodes :: "EntityRef list \<Rightarrow> InvertedBackend \<Rightarrow> NodeNum list" where
  "entity_nodes es b = concat (map (\<lambda>e. case e of ESym s \<Rightarrow> lookup_term (numbered ''sym:'' s) b | _ \<Rightarrow> []) es)"

definition lexical_sets :: "EntityRef list \<Rightarrow> InvertedBackend \<Rightarrow> NodeNum list list" where
  "lexical_sets es b =
     List.map_filter (\<lambda>e. case e of
         ETerm i \<Rightarrow> map_option (\<lambda>t. lookup_term t b) (resolve_term_id i b)
       | _ \<Rightarrow> None) es"

definition sort_dedup :: "NodeNum list \<Rightarrow> NodeNum list" where
  "sort_dedup ns = remdups_adj (sort ns)"

definition lexical_nodes :: "bool \<Rightarrow> NodeNum list list \<Rightarrow> NodeNum list" where
  "lexical_nodes lexical_required sets =
     (if lexical_required \<and> sets \<noteq> [] then
        foldl (\<lambda>nodes set. filter (\<lambda>n. case std_search set n of Inl _ \<Rightarrow> True | Inr _ \<Rightarrow> False) nodes)
          (sort_dedup (hd sets)) (map sort_dedup (tl sets))
      else concat sets)"

definition located :: "NodeNum \<Rightarrow> (NodeNum, Location) hmap \<Rightarrow> Location" where
  "located n m = get_or (location_new 0 0 0 n 0xFFFF) m n"

text \<open>The candidate for a node; the loop also keeps the set of the nodes it has seen, which never skips one, since
  the sorted list has no repetition.\<close>

definition inverted_candidate :: "Gap \<Rightarrow> DomainMask \<Rightarrow> InvertedBackend \<Rightarrow> NodeNum \<Rightarrow> Candidate option" where
  "inverted_candidate gap domain_mask b n =
     (case map_of (ib_node_to_atom b) n of
        None \<Rightarrow> None
      | Some a \<Rightarrow>
          let loc = located n (ib_node_to_location b)
          in if \<not> matches_domain loc domain_mask then None
             else Some
               \<lparr>ca_atom_id = a, ca_node_num = n, ca_seg_id = loc_seg_id loc, ca_offset = loc_offset loc,
                ca_atom_type = FACT, ca_trust = cache_get_trust n (ib_metadata_cache b),
                ca_estimated_io_bytes = max (loc_len loc) 64, ca_source_backend = BkInverted,
                ca_requires_invariant_check = True, ca_covers_gaps = [gap_id gap], ca_source_priority = PrInverted,
                ca_hard_conflicts = 0, ca_soft_conflicts = 0, ca_age_ns = 0, ca_domain_mask = loc_domain_mask loc,
                ca_evidence_refs = cache_get_evidence n (ib_metadata_cache b), ca_derived_claims = [],
                ca_ann_requires_filtering = False, ca_branch_ctx_id = None\<rparr>)"

definition inverted_nodes :: "Gap \<Rightarrow> EntityRef list \<Rightarrow> bool \<Rightarrow> InvertedBackend \<Rightarrow> NodeNum list" where
  "inverted_nodes gap goal_entities lexical_required b =
     (let found = pattern_nodes (gap_pattern gap) b @ entity_nodes goal_entities b
                  @ lexical_nodes lexical_required (lexical_sets goal_entities b);
          nodes = (if cp_subj (gap_pattern gap) = PAny \<and> found = [] \<and> ib_node_to_atom b \<noteq> [] \<and> \<not> lexical_required
                   then hm_keys (ib_node_to_atom b) else found)
      in sort_dedup nodes)"

definition inverted_route :: "Gap \<Rightarrow> EntityRef list \<Rightarrow> DomainMask \<Rightarrow> bool \<Rightarrow> InvertedBackend \<Rightarrow> Candidate list" where
  "inverted_route gap goal_entities domain_mask lexical_required b =
     List.map_filter (inverted_candidate gap domain_mask b) (inverted_nodes gap goal_entities lexical_required b)"


section \<open>The graph backend\<close>

record GraphBackend =
  gb_graph_store :: "GraphStore option"
  gb_node_to_atom :: "(NodeNum, AtomId) hmap"
  gb_node_to_location :: "(NodeNum, Location) hmap"
  gb_max_fanout :: u16
  gb_metadata_cache :: AtomMetadataCache

definition graph_backend_new :: GraphBackend where
  "graph_backend_new =
     \<lparr>gb_graph_store = None, gb_node_to_atom = [], gb_node_to_location = [], gb_max_fanout = 128,
      gb_metadata_cache = cache_new\<rparr>"

definition graph_with_store :: "GraphStore \<Rightarrow> GraphBackend \<Rightarrow> GraphBackend" where
  "graph_with_store g b = b\<lparr>gb_graph_store := Some g\<rparr>"
definition graph_with_max_fanout :: "u16 \<Rightarrow> GraphBackend \<Rightarrow> GraphBackend" where
  "graph_with_max_fanout limit b = b\<lparr>gb_max_fanout := limit\<rparr>"
definition graph_register :: "NodeNum \<Rightarrow> AtomId \<Rightarrow> Location \<Rightarrow> GraphBackend \<Rightarrow> GraphBackend" where
  "graph_register n a l b =
     b\<lparr>gb_node_to_atom := AList.update n a (gb_node_to_atom b),
       gb_node_to_location := AList.update n l (gb_node_to_location b)\<rparr>"
definition graph_register_metadata ::
  "NodeNum \<Rightarrow> TrustLevel \<Rightarrow> DomainMask \<Rightarrow> u32 \<Rightarrow> GraphBackend \<Rightarrow> GraphBackend" where
  "graph_register_metadata n t d s b = b\<lparr>gb_metadata_cache := cache_register n t d s (gb_metadata_cache b)\<rparr>"
definition graph_register_evidence :: "NodeNum \<Rightarrow> EvidenceRef list \<Rightarrow> GraphBackend \<Rightarrow> GraphBackend" where
  "graph_register_evidence n es b = b\<lparr>gb_metadata_cache := cache_register_evidence n es (gb_metadata_cache b)\<rparr>"
definition graph_has_store :: "GraphBackend \<Rightarrow> bool" where
  "graph_has_store b \<longleftrightarrow> gb_graph_store b \<noteq> None"

definition get_neighbors :: "GraphBackend \<Rightarrow> NodeNum \<Rightarrow> EdgeType \<Rightarrow> (NodeNum \<times> TrustLevel) list run" where
  "get_neighbors b n t = (case gb_graph_store b of None \<Rightarrow> Ok [] | Some g \<Rightarrow> neighbors n t g)"

definition graph_candidate :: "Gap \<Rightarrow> GraphBackend \<Rightarrow> AtomId \<Rightarrow> NodeNum \<Rightarrow> Location \<Rightarrow> Candidate" where
  "graph_candidate gap b a n loc =
     \<lparr>ca_atom_id = a, ca_node_num = n, ca_seg_id = loc_seg_id loc, ca_offset = loc_offset loc,
      ca_atom_type = FACT, ca_trust = cache_get_trust n (gb_metadata_cache b),
      ca_estimated_io_bytes = max (loc_len loc) 64, ca_source_backend = BkGraph,
      ca_requires_invariant_check = True, ca_covers_gaps = [gap_id gap], ca_source_priority = PrGraphWalk,
      ca_hard_conflicts = 0, ca_soft_conflicts = 0, ca_age_ns = 0, ca_domain_mask = loc_domain_mask loc,
      ca_evidence_refs = cache_get_evidence n (gb_metadata_cache b), ca_derived_claims = [],
      ca_ann_requires_filtering = False, ca_branch_ctx_id = None\<rparr>"

text \<open>The walk: visited nodes, the queue with depths, and the candidates so far. A node whose atom is outside the
  domain is visited but not walked on.\<close>

record Walk =
  wk_visited :: "NodeNum list"
  wk_queue :: "(NodeNum \<times> u8) list"
  wk_candidates :: "Candidate list"

definition walk_neighbor :: "Gap \<Rightarrow> DomainMask \<Rightarrow> GraphBackend \<Rightarrow> u8 \<Rightarrow> NodeNum \<Rightarrow> Walk \<Rightarrow> Walk" where
  "walk_neighbor gap domain_mask b depth n w =
     (if n \<in> set (wk_visited w) then w
      else
        let w = w\<lparr>wk_visited := n # wk_visited w\<rparr>;
            expand = (\<lambda>w. w\<lparr>wk_queue := wk_queue w @ [(n, depth + 1)]\<rparr>)
        in case map_of (gb_node_to_atom b) n of
             None \<Rightarrow> expand w
           | Some a \<Rightarrow>
               let loc = located n (gb_node_to_location b)
               in if \<not> matches_domain loc domain_mask then w
                  else expand (w\<lparr>wk_candidates := wk_candidates w @ [graph_candidate gap b a n loc]\<rparr>))"

primrec walk_edge_types ::
  "Gap \<Rightarrow> DomainMask \<Rightarrow> GraphBackend \<Rightarrow> NodeNum \<Rightarrow> u8 \<Rightarrow> EdgeType list \<Rightarrow> Walk \<Rightarrow> Walk run" where
  "walk_edge_types gap domain_mask b n depth [] w = Ok w"
| "walk_edge_types gap domain_mask b n depth (t # ts) w =
     bind_res (get_neighbors b n t) (\<lambda>ns.
       walk_edge_types gap domain_mask b n depth ts
         (fold (walk_neighbor gap domain_mask b depth) (map fst (take (unat (gb_max_fanout b)) ns)) w))"

text \<open>Every step takes one node from the queue, and every node enters it at most once.\<close>

definition walk_measure :: "Walk \<Rightarrow> nat" where
  "walk_measure w = card (- set (wk_visited w)) + length (wk_queue w)"

lemma walk_neighbor_measure: "walk_measure (walk_neighbor gap dm b depth n w) \<le> walk_measure w"
proof (cases "n \<in> set (wk_visited w)")
  case False
  then have "Suc (card (- set (wk_visited w) - {n})) = card (- set (wk_visited w))"
    by (intro card_Suc_Diff1) auto
  then have "card (- set (wk_visited w)) = Suc (card (- insert n (set (wk_visited w))))"
    by (simp only: Compl_insert)
  with False show ?thesis by (auto simp: walk_neighbor_def walk_measure_def Let_def split: option.split)
qed (simp add: walk_neighbor_def)

lemma walk_neighbors_measure: "walk_measure (fold (walk_neighbor gap dm b depth) ns w) \<le> walk_measure w"
  by (induction ns arbitrary: w) (auto intro: order_trans walk_neighbor_measure)

lemma walk_edge_types_measure: "walk_edge_types gap dm b n depth ts w = Ok w' \<Longrightarrow> walk_measure w' \<le> walk_measure w"
  by (induction ts arbitrary: w) (auto intro: order_trans walk_neighbors_measure)

function walk_loop :: "Gap \<Rightarrow> DomainMask \<Rightarrow> GraphBackend \<Rightarrow> EdgeType list \<Rightarrow> u8 \<Rightarrow> Walk \<Rightarrow> Candidate list run" where
  "walk_loop gap domain_mask b edge_types max_depth w =
     (case wk_queue w of
        [] \<Rightarrow> Ok (wk_candidates w)
      | (n, depth) # queue \<Rightarrow>
          if depth \<ge> max_depth then walk_loop gap domain_mask b edge_types max_depth (w\<lparr>wk_queue := queue\<rparr>)
          else
            case walk_edge_types gap domain_mask b n depth edge_types (w\<lparr>wk_queue := queue\<rparr>) of
              Panic \<Rightarrow> Panic
            | Err e \<Rightarrow> Err e
            | Ok w' \<Rightarrow> walk_loop gap domain_mask b edge_types max_depth w')"
  by pat_completeness auto

termination walk_loop
  by (relation "measure (\<lambda>(gap, dm, b, ts, d, w). walk_measure w)")
    (auto simp: walk_measure_def dest!: walk_edge_types_measure)

declare walk_loop.simps [simp del]

definition graph_walk ::
  "NodeNum list \<Rightarrow> EdgeType list \<Rightarrow> u8 \<Rightarrow> Gap \<Rightarrow> DomainMask \<Rightarrow> GraphBackend \<Rightarrow> Candidate list run" where
  "graph_walk seeds edge_types max_depth gap domain_mask b =
     walk_loop gap domain_mask b edge_types max_depth
       \<lparr>wk_visited = seeds, wk_queue = map (\<lambda>n. (n, 0)) seeds, wk_candidates = []\<rparr>"

definition graph_route :: "Gap \<Rightarrow> DomainMask \<Rightarrow> GraphBackend \<Rightarrow> Candidate list run" where
  "graph_route gap domain_mask b =
     (if nh_seed_nodes (gap_nav gap) = [] \<or> nh_edge_types (gap_nav gap) = [] then Ok []
      else graph_walk (nh_seed_nodes (gap_nav gap)) (nh_edge_types (gap_nav gap)) (nh_max_depth (gap_nav gap))
             gap domain_mask b)"

section \<open>The ANN backend\<close>

type_synonym ann_index = "fnum list \<Rightarrow> nat \<Rightarrow> (NodeNum \<times> fnum) list"

record AnnBackend =
  ab_node_to_atom :: "(NodeNum, AtomId) hmap"
  ab_node_to_location :: "(NodeNum, Location) hmap"
  ab_embedding_index :: "ann_index option"
  ab_metadata_cache :: AtomMetadataCache

definition ann_backend_new :: AnnBackend where
  "ann_backend_new =
     \<lparr>ab_node_to_atom = [], ab_node_to_location = [], ab_embedding_index = None, ab_metadata_cache = cache_new\<rparr>"

definition ann_with_embedding_index :: "ann_index \<Rightarrow> AnnBackend \<Rightarrow> AnnBackend" where
  "ann_with_embedding_index ix b = b\<lparr>ab_embedding_index := Some ix\<rparr>"
definition ann_register :: "NodeNum \<Rightarrow> AtomId \<Rightarrow> Location \<Rightarrow> AnnBackend \<Rightarrow> AnnBackend" where
  "ann_register n a l b =
     b\<lparr>ab_node_to_atom := AList.update n a (ab_node_to_atom b),
       ab_node_to_location := AList.update n l (ab_node_to_location b)\<rparr>"
definition ann_register_metadata :: "NodeNum \<Rightarrow> TrustLevel \<Rightarrow> DomainMask \<Rightarrow> u32 \<Rightarrow> AnnBackend \<Rightarrow> AnnBackend" where
  "ann_register_metadata n t d s b = b\<lparr>ab_metadata_cache := cache_register n t d s (ab_metadata_cache b)\<rparr>"
definition ann_register_evidence :: "NodeNum \<Rightarrow> EvidenceRef list \<Rightarrow> AnnBackend \<Rightarrow> AnnBackend" where
  "ann_register_evidence n es b = b\<lparr>ab_metadata_cache := cache_register_evidence n es (ab_metadata_cache b)\<rparr>"

definition semantic_trust :: "fnum \<Rightarrow> TrustLevel" where
  "semantic_trust similarity =
     of_nat (f_to_nat 65535 (f_mul binary32 (f_clamp similarity (f_lit binary32 0 1) (f_lit binary32 1 1)) (f_lit binary32 10000 1)))"

definition ann_candidate :: "Gap \<Rightarrow> AnnBackend \<Rightarrow> AtomId \<Rightarrow> NodeNum \<Rightarrow> Location \<Rightarrow> TrustLevel \<Rightarrow> DomainMask \<Rightarrow> Candidate" where
  "ann_candidate gap b a n loc trust domain =
     \<lparr>ca_atom_id = a, ca_node_num = n, ca_seg_id = loc_seg_id loc, ca_offset = loc_offset loc,
      ca_atom_type = FACT, ca_trust = trust, ca_estimated_io_bytes = max (loc_len loc) 64, ca_source_backend = BkAnn,
      ca_requires_invariant_check = True, ca_covers_gaps = [gap_id gap], ca_source_priority = PrAnn,
      ca_hard_conflicts = 0, ca_soft_conflicts = 0, ca_age_ns = 0, ca_domain_mask = domain,
      ca_evidence_refs = cache_get_evidence n (ab_metadata_cache b), ca_derived_claims = [],
      ca_ann_requires_filtering = True, ca_branch_ctx_id = None\<rparr>"

definition ann_semantic :: "Gap \<Rightarrow> DomainMask \<Rightarrow> TrustLevel \<Rightarrow> AnnBackend \<Rightarrow> NodeNum \<times> fnum \<Rightarrow> Candidate option" where
  "ann_semantic gap domain_mask trust_min b = (\<lambda>(n, similarity).
     (case map_of (ab_node_to_atom b) n of
        None \<Rightarrow> None
      | Some a \<Rightarrow>
          let loc = located n (ab_node_to_location b); atom_trust = cache_get_trust n (ab_metadata_cache b)
          in if \<not> matches_domain loc domain_mask \<or> atom_trust < trust_min then None
             else Some (ann_candidate gap b a n loc (min (semantic_trust similarity) atom_trust)
                    (cache_get_domain n (ab_metadata_cache b)))))"

definition ann_entity :: "Gap \<Rightarrow> DomainMask \<Rightarrow> AnnBackend \<Rightarrow> EntityRef \<Rightarrow> Candidate option" where
  "ann_entity gap domain_mask b e =
     (case e of
        ENode n \<Rightarrow>
          (case map_of (ab_node_to_atom b) n of
             None \<Rightarrow> None
           | Some a \<Rightarrow>
               let loc = located n (ab_node_to_location b)
               in if \<not> matches_domain loc domain_mask then None
                  else Some (ann_candidate gap b a n loc (cache_get_trust n (ab_metadata_cache b)) (loc_domain_mask loc)))
      | _ \<Rightarrow> None)"

definition ann_route :: "Gap \<Rightarrow> EntityRef list \<Rightarrow> DomainMask \<Rightarrow> GoalSpec \<Rightarrow> AnnBackend \<Rightarrow> Candidate list" where
  "ann_route gap goal_entities domain_mask goal b =
     (case ab_embedding_index b of
        None \<Rightarrow> []
      | Some nearest \<Rightarrow>
          List.map_filter (ann_semantic gap domain_mask (gl_trust_min goal) b)
            (concat (map (\<lambda>v. nearest v 10) (gl_semantic_vectors goal))))
     @ List.map_filter (ann_entity gap domain_mask b) goal_entities"


section \<open>The router\<close>

record QueryRouter =
  qr_cas :: CasBackend
  qr_inverted :: InvertedBackend
  qr_graph :: GraphBackend
  qr_ann :: AnnBackend

definition router_new :: QueryRouter where
  "router_new = \<lparr>qr_cas = cas_backend_new, qr_inverted = inverted_backend_new, qr_graph = graph_backend_new,
     qr_ann = ann_backend_new\<rparr>"

definition register_atom :: "AtomId \<Rightarrow> NodeNum \<Rightarrow> u32 \<Rightarrow> u64 \<Rightarrow> u32 \<Rightarrow> QueryRouter \<Rightarrow> QueryRouter" where
  "register_atom a n seg_id offset len r =
     (let loc = location_new seg_id offset len n 0xFFFF
      in r\<lparr>qr_cas := cas_register a loc (qr_cas r), qr_inverted := inverted_register n a loc (qr_inverted r),
           qr_graph := graph_register n a loc (qr_graph r), qr_ann := ann_register n a loc (qr_ann r)\<rparr>)"

definition register_atom_metadata :: "NodeNum \<Rightarrow> TrustLevel \<Rightarrow> DomainMask \<Rightarrow> u32 \<Rightarrow> QueryRouter \<Rightarrow> QueryRouter" where
  "register_atom_metadata n t d s r =
     r\<lparr>qr_inverted := inverted_register_metadata n t d s (qr_inverted r),
       qr_graph := graph_register_metadata n t d s (qr_graph r),
       qr_ann := ann_register_metadata n t d s (qr_ann r)\<rparr>"

definition register_atom_evidence :: "NodeNum \<Rightarrow> EvidenceRef list \<Rightarrow> QueryRouter \<Rightarrow> QueryRouter" where
  "register_atom_evidence n es r =
     r\<lparr>qr_inverted := inverted_register_evidence n es (qr_inverted r),
       qr_graph := graph_register_evidence n es (qr_graph r),
       qr_ann := ann_register_evidence n es (qr_ann r)\<rparr>"

definition router_index_term :: "(str \<Rightarrow> str) \<Rightarrow> str \<Rightarrow> NodeNum \<Rightarrow> QueryRouter \<Rightarrow> QueryRouter" where
  "router_index_term lowercase t n r = r\<lparr>qr_inverted := inverted_index_term lowercase t n (qr_inverted r)\<rparr>"

definition with_inverted_index :: "InvertedIndex \<Rightarrow> QueryRouter \<Rightarrow> QueryRouter" where
  "with_inverted_index ix r = r\<lparr>qr_inverted := inverted_with_index ix (qr_inverted r)\<rparr>"

definition cas_of :: "Gap \<Rightarrow> GoalSpec \<Rightarrow> QueryRouter \<Rightarrow> Candidate list" where
  "cas_of gap goal r =
     cas_route gap (gl_entities goal) (gl_domain_mask goal) (gl_lexical_resolution_required goal) (qr_cas r)"

definition inverted_of :: "Gap \<Rightarrow> GoalSpec \<Rightarrow> QueryRouter \<Rightarrow> Candidate list" where
  "inverted_of gap goal r =
     inverted_route gap (gl_entities goal) (gl_domain_mask goal) (gl_lexical_resolution_required goal) (qr_inverted r)"

definition add_gap :: "GapId \<Rightarrow> Candidate \<Rightarrow> Candidate" where
  "add_gap i c = (if i \<in> set (ca_covers_gaps c) then c else c\<lparr>ca_covers_gaps := ca_covers_gaps c @ [i]\<rparr>)"

definition route_one_gap :: "Gap \<Rightarrow> GoalSpec \<Rightarrow> QueryRouter \<Rightarrow> Candidate list run" where
  "route_one_gap gap goal r =
     bind_res
       (case gap_kind gap of
          NEED_DEFINITION \<Rightarrow> Ok (cas_of gap goal r @ inverted_of gap goal r)
        | NEED_FACT \<Rightarrow> Ok (inverted_of gap goal r)
        | NEED_CAUSAL_CHAIN \<Rightarrow> graph_route gap (gl_domain_mask goal) (qr_graph r)
        | NEED_EVIDENCE \<Rightarrow> Ok (cas_of gap goal r)
        | NEED_COUNTEREXAMPLE \<Rightarrow> graph_route gap (gl_domain_mask goal) (qr_graph r)
        | NEED_CONSTRAINTS \<Rightarrow> Ok (cas_of gap goal r)
        | NEED_COMPARISON_AXIS \<Rightarrow> Ok (inverted_of gap goal r)
        | NEED_PROCEDURE \<Rightarrow> Ok (inverted_of gap goal r @ cas_of gap goal r))
       (\<lambda>cs. Ok (map (add_gap (gap_id gap)) cs))"

text \<open>The candidates by atom: \<open>insert\<close> replaces, \<open>entry(..).or_insert\<close> keeps what is there.\<close>

type_synonym candidate_map = "(AtomId, Candidate) hmap"

definition cm_insert :: "Candidate \<Rightarrow> candidate_map \<Rightarrow> candidate_map" where
  "cm_insert c m = AList.update (ca_atom_id c) c m"

definition cm_or_insert :: "Candidate \<Rightarrow> candidate_map \<Rightarrow> candidate_map" where
  "cm_or_insert c m = (if map_of m (ca_atom_id c) = None then AList.update (ca_atom_id c) c m else m)"

definition cm_candidates :: "candidate_map \<Rightarrow> Candidate list" where
  "cm_candidates m = sort_key ca_atom_id (map snd m)"

definition route :: "Gap \<Rightarrow> GoalSpec \<Rightarrow> QueryRouter \<Rightarrow> Candidate list run" where
  "route gap goal r =
     (let m = fold cm_insert (cas_of gap goal r) [];
          m = fold cm_or_insert (inverted_of gap goal r) m
      in bind_res
           (if gap_needs_graph_walk gap \<or> nh_seed_nodes (gap_nav gap) \<noteq> []
            then graph_route gap (gl_domain_mask goal) (qr_graph r) else Ok [])
           (\<lambda>walked.
              let m = fold cm_or_insert walked m;
                  add = (if gl_semantic_vectors goal = [] then cm_or_insert else cm_insert);
                  m = fold add (ann_route gap (gl_entities goal) (gl_domain_mask goal) goal (qr_ann r)) m
              in Ok (cm_candidates m)))"

text \<open>\<open>dedup_candidates\<close> keeps, of the candidates for one atom, the one from the source of highest priority.\<close>

definition dedup_step :: "Candidate \<Rightarrow> candidate_map \<Rightarrow> candidate_map" where
  "dedup_step c m =
     (case map_of m (ca_atom_id c) of
        None \<Rightarrow> AList.update (ca_atom_id c) c m
      | Some existing \<Rightarrow>
          if source_priority_as_u8 (ca_source_priority c) < source_priority_as_u8 (ca_source_priority existing)
          then AList.update (ca_atom_id c) c m else m)"

definition dedup_candidates :: "Candidate list \<Rightarrow> Candidate list" where
  "dedup_candidates cs = cm_candidates (fold dedup_step cs [])"

section \<open>A candidate as the subject of constraints\<close>

primrec atom_type_debug :: "AtomType \<Rightarrow> string" where
  "atom_type_debug DEFINITION = ''DEFINITION''"
| "atom_type_debug FACT = ''FACT''"
| "atom_type_debug RULE = ''RULE''"
| "atom_type_debug PROCEDURE = ''PROCEDURE''"
| "atom_type_debug OBSERVATION = ''OBSERVATION''"
| "atom_type_debug HYPOTHESIS = ''HYPOTHESIS''"
| "atom_type_debug EXAMPLE = ''EXAMPLE''"
| "atom_type_debug COUNTEREXAMPLE = ''COUNTEREXAMPLE''"
| "atom_type_debug DATASET = ''DATASET''"
| "atom_type_debug MEASUREMENT = ''MEASUREMENT''"
| "atom_type_debug DECISION = ''DECISION''"
| "atom_type_debug CONFLICT = ''CONFLICT''"
| "atom_type_debug MAP = ''MAP''"

definition trust_fraction :: "TrustLevel \<Rightarrow> fnum" where
  "trust_fraction t = f_div binary64 (f64_of t) (f_lit binary64 10000 1)"

definition evidence_text :: "EvidenceRef \<Rightarrow> str" where
  "evidence_text e =
     hex_encode (er_atom_id e) @ utf8 '':'' @ utf8 (dec (unat (er_offset e))) @ utf8 '':'' @ utf8 (dec (unat (er_length e)))"

definition custom_value :: "Candidate \<Rightarrow> str \<Rightarrow> ConstraintValue option" where
  "custom_value c name =
     (if name = utf8 ''atom_id'' then Some (VText (hex_encode (ca_atom_id c)))
      else if name = utf8 ''node_num'' then Some (VNumber (f64_of (ca_node_num c)))
      else if name = utf8 ''atom_type'' then Some (VText (utf8 (atom_type_debug (ca_atom_type c))))
      else if name = utf8 ''backend'' \<or> name = utf8 ''source_backend''
        then Some (VText (backend_as_str (ca_source_backend c)))
      else if name = utf8 ''trust'' then Some (VNumber (trust_fraction (ca_trust c)))
      else if name = utf8 ''domain'' \<or> name = utf8 ''domain_mask'' then Some (VNumber (f64_of (ca_domain_mask c)))
      else if name = utf8 ''requires_invariant_check'' then Some (VBool (ca_requires_invariant_check c))
      else if name = utf8 ''ann_candidate_requires_filtering'' then Some (VBool (ca_ann_requires_filtering c))
      else None)"

definition candidate_value :: "Candidate \<Rightarrow> ConstraintTarget \<Rightarrow> ConstraintValue option" where
  "candidate_value c t =
     (case t of
        TgEntity \<Rightarrow> Some (VText (utf8 (dec (unat (ca_node_num c)))))
      | TgDomain \<Rightarrow> Some (VNumber (f64_of (ca_domain_mask c)))
      | TgNumericMetric \<Rightarrow> Some (VNumber (trust_fraction (ca_trust c)))
      | TgSource \<Rightarrow> Some (VText (backend_as_str (ca_source_backend c)))
      | TgTime \<Rightarrow> if ca_age_ns c > 0 then Some (VNumber (f64_of (ca_age_ns c))) else None
      | TgEvidence \<Rightarrow> Some (VList (map (\<lambda>e. VText (evidence_text e)) (ca_evidence_refs c)))
      | TgCustom name \<Rightarrow> custom_value c name
      | TgEntityType \<Rightarrow> None | TgPredicate \<Rightarrow> None | TgRelation \<Rightarrow> None | TgContext \<Rightarrow> None | TgText \<Rightarrow> None)"

definition candidate_subject :: "Candidate \<Rightarrow> ConstraintSubject" where
  "candidate_subject c =
     \<lparr>sj_value_for = candidate_value c,
      sj_evidence_refs_for = (\<lambda>_. map (\<lambda>e. hex_encode (er_atom_id e)) (ca_evidence_refs c)),
      sj_candidate_ref = Some (hex_encode (ca_atom_id c))\<rparr>"

section \<open>The uniform candidate\<close>

datatype KnowledgeObjectRef = KoAtom AtomId | KoNode NodeNum

datatype RetrievalReason = ExactAtom | Lexical | RrGraphWalk | Semantic | Mixed

primrec reason_from_backend :: "BackendKind \<Rightarrow> RetrievalReason" where
  "reason_from_backend BkCas = ExactAtom"
| "reason_from_backend BkInverted = Lexical"
| "reason_from_backend BkGraph = RrGraphWalk"
| "reason_from_backend BkAnn = Semantic"

record CandidateV2 =
  c2_object :: KnowledgeObjectRef
  c2_matched_constraints :: "ConstraintId list"
  c2_retrieval_reason :: RetrievalReason
  c2_estimated_gain :: fnum
  c2_estimated_cost :: fnum
  c2_source_backend :: str
  c2_requires_validation :: bool
  c2_legacy_atom_id :: "AtomId option"

definition candidate_v2 :: "Texts \<Rightarrow> Candidate \<Rightarrow> GoalSpec \<Rightarrow> CandidateV2" where
  "candidate_v2 tx c goal =
     \<lparr>c2_object = KoAtom (ca_atom_id c),
      c2_matched_constraints =
        map cn_id (filter (\<lambda>x. cr_status (evaluate_constraint tx x (candidate_subject c)) = Satisfied) (gl_constraints goal)),
      c2_retrieval_reason = reason_from_backend (ca_source_backend c),
      c2_estimated_gain = f_of_nat binary32 (length (ca_covers_gaps c)),
      c2_estimated_cost = f_of_nat binary32 (unat (max (ca_estimated_io_bytes c) 1)),
      c2_source_backend = backend_as_str (ca_source_backend c),
      c2_requires_validation = (ca_requires_invariant_check c \<or> ca_ann_requires_filtering c),
      c2_legacy_atom_id = Some (ca_atom_id c)\<rparr>"

definition route_v2 :: "Texts \<Rightarrow> Gap \<Rightarrow> GoalSpec \<Rightarrow> QueryRouter \<Rightarrow> CandidateV2 list run" where
  "route_v2 tx gap goal r = bind_res (route gap goal r) (\<lambda>cs. Ok (map (\<lambda>c. candidate_v2 tx c goal) cs))"

section \<open>What every routed candidate is\<close>

text \<open>Nothing a backend offers is final: it is to be checked against the invariants, it is offered for the gap that
  was asked, it has no age, and it is to be filtered again exactly when it was guessed by embeddings. The lexical
  backend and the walk stay in the domain of the goal.\<close>

definition routed :: "Gap \<Rightarrow> Candidate \<Rightarrow> bool" where
  "routed gap c \<longleftrightarrow>
     ca_requires_invariant_check c \<and> ca_covers_gaps c = [gap_id gap] \<and> ca_age_ns c = 0 \<and>
     ca_ann_requires_filtering c = (ca_source_backend c = BkAnn)"

definition in_domain :: "DomainMask \<Rightarrow> Candidate \<Rightarrow> bool" where
  "in_domain domain_mask c \<longleftrightarrow> domain_mask = 0 \<or> ca_domain_mask c AND domain_mask \<noteq> 0"

lemma made_routed [simp]:
  "routed gap (cas_make_candidate a loc gap)" "routed gap (graph_candidate gap b a n loc)"
  "routed gap (ann_candidate gap b' a n loc trust domain)"
  by (simp_all add: routed_def cas_make_candidate_def graph_candidate_def ann_candidate_def)

lemma set_map_filter_eq: "set (List.map_filter f xs) = {y. \<exists>x\<in>set xs. f x = Some y}"
  by (induction xs) (auto simp: List.map_filter_simps split: option.split)

lemma cas_exact_routed:
  "(case e of EAtom a \<Rightarrow> map_option (\<lambda>loc. cas_make_candidate a loc gap) (cas_locate a b) | _ \<Rightarrow> None) = Some c \<Longrightarrow> routed gap c"
  by (cases e) auto

lemma cas_by_node_routed:
  "c \<in> set (case p of PNode n \<Rightarrow>
        (case find (\<lambda>(a, loc). loc_node_num loc = n) ls of None \<Rightarrow> [] | Some (a, loc) \<Rightarrow> [cas_make_candidate a loc gap])
      | _ \<Rightarrow> []) \<Longrightarrow> routed gap c"
  by (cases p) (auto split: option.splits)

lemma routed_all:
  "\<forall>c\<in>set cs. routed gap c \<Longrightarrow> \<forall>c\<in>set ds. routed gap c \<Longrightarrow> c \<in> set (if P then take n (sort_key k ds) else cs) \<Longrightarrow>
    routed gap c"
  by (auto split: if_splits dest!: in_set_takeD)

lemma cas_route_routed: "c \<in> set (cas_route gap es dm lx b) \<Longrightarrow> routed gap c"
  unfolding cas_route_def Let_def
proof (erule routed_all [rotated 2])
  show "\<forall>c\<in>set (List.map_filter (\<lambda>e. case e of
        EAtom a \<Rightarrow> map_option (\<lambda>loc. cas_make_candidate a loc gap) (cas_locate a b) | _ \<Rightarrow> None) es @
      (case cp_subj (gap_pattern gap) of PNode n \<Rightarrow>
        (case find (\<lambda>(a, loc). loc_node_num loc = n) (cb_locations b) of
          None \<Rightarrow> [] | Some (a, loc) \<Rightarrow> [cas_make_candidate a loc gap]) | _ \<Rightarrow> [])). routed gap c"
    unfolding set_append set_map_filter_eq using cas_exact_routed cas_by_node_routed by blast
qed auto

lemma inverted_route_routed: "c \<in> set (inverted_route gap es dm lx b) \<Longrightarrow> routed gap c \<and> in_domain dm c"
  by (auto simp: inverted_route_def set_map_filter_eq inverted_candidate_def routed_def in_domain_def matches_domain_def
      Let_def split: if_splits option.splits)

lemma ann_semantic_routed: "ann_semantic gap dm trust b x = Some c \<Longrightarrow> routed gap c"
  by (cases x) (auto simp: ann_semantic_def Let_def split: option.splits if_splits)

lemma ann_entity_routed: "ann_entity gap dm b e = Some c \<Longrightarrow> routed gap c"
  by (cases e) (auto simp: ann_entity_def Let_def split: option.splits if_splits)

lemma ann_route_routed: "c \<in> set (ann_route gap es dm goal b) \<Longrightarrow> routed gap c"
  by (auto simp: ann_route_def set_map_filter_eq split: option.splits intro: ann_semantic_routed ann_entity_routed)

definition walk_ok :: "Gap \<Rightarrow> DomainMask \<Rightarrow> Candidate \<Rightarrow> bool" where
  "walk_ok gap dm c \<longleftrightarrow> routed gap c \<and> in_domain dm c"

lemma walk_neighbor_ok:
  "list_all (walk_ok gap dm) (wk_candidates w) \<Longrightarrow> list_all (walk_ok gap dm) (wk_candidates (walk_neighbor gap dm b d n w))"
  by (auto simp: walk_neighbor_def Let_def walk_ok_def in_domain_def matches_domain_def graph_candidate_def routed_def
      split: option.split)

lemma walk_neighbors_ok:
  "list_all (walk_ok gap dm) (wk_candidates w) \<Longrightarrow>
    list_all (walk_ok gap dm) (wk_candidates (fold (walk_neighbor gap dm b d) ns w))"
  by (induction ns arbitrary: w) (auto intro: walk_neighbor_ok)

lemma walk_edge_types_ok:
  "walk_edge_types gap dm b n d ts w = Ok w' \<Longrightarrow> list_all (walk_ok gap dm) (wk_candidates w) \<Longrightarrow>
    list_all (walk_ok gap dm) (wk_candidates w')"
  by (induction ts arbitrary: w) (auto intro: walk_neighbors_ok)

lemma walk_loop_ok:
  "walk_loop gap dm b ts d w = Ok cs \<Longrightarrow> list_all (walk_ok gap dm) (wk_candidates w) \<Longrightarrow> list_all (walk_ok gap dm) cs"
proof (induction gap dm b ts d w rule: walk_loop.induct)
  case (1 gap dm b ts d w)
  show ?case
  proof (cases "wk_queue w")
    case Nil
    with "1.prems" show ?thesis by (simp add: walk_loop.simps [of gap dm b ts d w])
  next
    case (Cons p queue)
    obtain n depth where p: "p = (n, depth)" by (cases p)
    show ?thesis
    proof (cases "depth \<ge> d")
      case True
      with "1.prems"(1) Cons p have "walk_loop gap dm b ts d (w\<lparr>wk_queue := queue\<rparr>) = Ok cs"
        by (simp add: walk_loop.simps [of gap dm b ts d w])
      from "1.IH"(1) [OF Cons p [symmetric] True this] "1.prems"(2) show ?thesis by simp
    next
      case False
      with "1.prems"(1) Cons p obtain w' where w': "walk_edge_types gap dm b n depth ts (w\<lparr>wk_queue := queue\<rparr>) = Ok w'"
        "walk_loop gap dm b ts d w' = Ok cs"
        by (auto simp: walk_loop.simps [of gap dm b ts d w] split: res.splits)
      have "list_all (walk_ok gap dm) (wk_candidates w')" by (rule walk_edge_types_ok [OF w'(1)]) (use "1.prems"(2) in simp)
      from "1.IH"(2) [OF Cons p [symmetric] False w'(1) w'(2) this] show ?thesis .
    qed
  qed
qed

lemma graph_route_routed: "graph_route gap dm b = Ok cs \<Longrightarrow> c \<in> set cs \<Longrightarrow> walk_ok gap dm c"
  unfolding graph_route_def graph_walk_def
  by (auto split: if_splits dest!: walk_loop_ok simp: list_all_iff)

text \<open>The map of candidates keys each by its atom, so that the answer has each atom once, in order.\<close>

definition cm_ok :: "(Candidate \<Rightarrow> bool) \<Rightarrow> candidate_map \<Rightarrow> bool" where
  "cm_ok P m \<longleftrightarrow> hm_ok m \<and> (\<forall>(a, c)\<in>set m. ca_atom_id c = a \<and> P c)"

lemma set_alist_update: "set (AList.update k v m) \<subseteq> insert (k, v) (set m)"
  by (induction m) auto

lemma cm_ok_update:
  "cm_ok P m \<Longrightarrow> P c \<Longrightarrow> cm_ok P (AList.update (ca_atom_id c) c m)"
  by (auto simp: cm_ok_def distinct_update dest!: subsetD [OF set_alist_update])

lemma cm_ok_folds:
  assumes "cm_ok P m" "\<forall>c\<in>set cs. P c"
  shows "cm_ok P (fold cm_insert cs m)" "cm_ok P (fold cm_or_insert cs m)" "cm_ok P (fold dedup_step cs m)"
  using assms
  by (induction cs arbitrary: m) (auto simp: cm_insert_def cm_or_insert_def dedup_step_def intro!: cm_ok_update split: option.split)

lemma cm_ok_empty [simp]: "cm_ok P []"
  by (simp add: cm_ok_def)

lemma cm_ok_weaken: "cm_ok P m \<Longrightarrow> (\<And>c. P c \<Longrightarrow> Q c) \<Longrightarrow> cm_ok Q m"
  by (auto simp: cm_ok_def)

lemma cm_candidates_ok:
  assumes "cm_ok P m"
  shows "sorted_wrt (<) (map ca_atom_id (cm_candidates m))" "\<forall>c\<in>set (cm_candidates m). P c"
    "set (cm_candidates m) = snd ` set m"
proof -
  have "map ca_atom_id (map snd m) = map fst m" using assms by (auto simp: cm_ok_def)
  moreover have "distinct (map fst m)" using assms by (simp add: cm_ok_def)
  ultimately have "distinct (map ca_atom_id (map snd m))" by (simp only:)
  then have "distinct (map ca_atom_id (cm_candidates m))"
    unfolding cm_candidates_def by (metis distinct_map distinct_sort set_sort)
  moreover have "sorted (map ca_atom_id (cm_candidates m))" by (simp add: cm_candidates_def)
  ultimately show "sorted_wrt (<) (map ca_atom_id (cm_candidates m))" by (simp add: strict_sorted_iff)
  show "\<forall>c\<in>set (cm_candidates m). P c" "set (cm_candidates m) = snd ` set m"
    using assms by (auto simp: cm_ok_def cm_candidates_def)
qed

lemma route_offers:
  assumes "route gap goal r = Ok cs"
  shows "sorted_wrt (<) (map ca_atom_id cs) \<and> (\<forall>c\<in>set cs. routed gap c)"
proof -
  from assms obtain walked m where walked: "(if gap_needs_graph_walk gap \<or> nh_seed_nodes (gap_nav gap) \<noteq> []
        then graph_route gap (gl_domain_mask goal) (qr_graph r) else Ok []) = Ok walked"
    and m: "m = fold cm_or_insert walked (fold cm_or_insert (inverted_of gap goal r) (fold cm_insert (cas_of gap goal r) []))"
    and cs: "cs = cm_candidates (fold (if gl_semantic_vectors goal = [] then cm_or_insert else cm_insert)
      (ann_route gap (gl_entities goal) (gl_domain_mask goal) goal (qr_ann r)) m)"
    by (auto simp: route_def Let_def)
  have w: "\<forall>c\<in>set walked. routed gap c"
    using walked graph_route_routed by (auto simp: walk_ok_def split: if_splits)
  have "cm_ok (routed gap) m"
    unfolding m cas_of_def inverted_of_def
    by (intro cm_ok_folds cm_ok_empty w) (auto dest: cas_route_routed inverted_route_routed)
  moreover have "\<forall>c\<in>set (ann_route gap (gl_entities goal) (gl_domain_mask goal) goal (qr_ann r)). routed gap c"
    using ann_route_routed by blast
  ultimately have "cm_ok (routed gap) (fold (if gl_semantic_vectors goal = [] then cm_or_insert else cm_insert)
      (ann_route gap (gl_entities goal) (gl_domain_mask goal) goal (qr_ann r)) m)"
    by (cases "gl_semantic_vectors goal = []") (simp_all add: cm_ok_folds(1,2))
  from cm_candidates_ok [OF this] show ?thesis unfolding cs by blast
qed

text \<open>
  Whatever the gap, the goal and the state of the router, routing offers each atom at most once, in the order of
  the atoms, and every candidate it offers is still to be checked against the invariants, names the gap that was
  asked, carries no age, and is to be filtered again exactly when it was found by embeddings.
\<close>

theorem route_safe:
  assumes "route gap goal r = Ok cs"
  shows "sorted_wrt (<) (map ca_atom_id cs) \<and> (\<forall>c\<in>set cs. routed gap c)"
  using assms by (rule route_offers)

definition sample_gap :: Gap where
  "sample_gap = gap_new 1 NEED_FACT claim_pattern_default"
definition sample_goal :: GoalSpec where
  "sample_goal = (goal_new LOOKUP)\<lparr>gl_entities := [EAtom [7]]\<rparr>"
definition sample_router :: QueryRouter where
  "sample_router = register_atom [9] 4 1 64 64 (register_atom [7] 3 1 0 64 router_new)"

lemma sample_route:
  "map_res id (map (\<lambda>c. (ca_atom_id c, ca_source_backend c))) (route sample_gap sample_goal sample_router) =
     Ok [([7], BkCas), ([9], BkInverted)]"
  by code_simp

theorem route_safe_witness:
  "\<exists>cs. route sample_gap sample_goal sample_router = Ok cs \<and> map ca_atom_id cs = [[7], [9]] \<and>
     (\<forall>c\<in>set cs. routed sample_gap c)"
  using sample_route route_safe [of sample_gap sample_goal sample_router]
  by (cases "route sample_gap sample_goal sample_router") (auto simp: map_eq_Cons_conv)

definition best_source :: "Candidate list \<Rightarrow> Candidate \<Rightarrow> bool" where
  "best_source cs c \<longleftrightarrow> c \<in> set cs \<and> (\<forall>c'\<in>set cs. ca_atom_id c' = ca_atom_id c \<longrightarrow>
     source_priority_as_u8 (ca_source_priority c) \<le> source_priority_as_u8 (ca_source_priority c'))"

abbreviation prio :: "Candidate \<Rightarrow> u8" where
  "prio c \<equiv> source_priority_as_u8 (ca_source_priority c)"

lemma dedup_step_spec:
  "\<exists>d. map_of (dedup_step x m) (ca_atom_id x) = Some d \<and> (d = x \<or> map_of m (ca_atom_id x) = Some d) \<and> prio d \<le> prio x \<and>
     (\<forall>c'. map_of m (ca_atom_id x) = Some c' \<longrightarrow> prio d \<le> prio c')"
  "a \<noteq> ca_atom_id x \<Longrightarrow> map_of (dedup_step x m) a = map_of m a"
  by (auto simp: dedup_step_def split: option.split)

lemma dedup_step_keys: "dom (map_of (dedup_step x m)) = insert (ca_atom_id x) (dom (map_of m))"
  by (auto simp: dedup_step_def split: option.splits if_splits)

lemma dedup_fold_keys: "dom (map_of (fold dedup_step cs m)) = ca_atom_id ` set cs \<union> dom (map_of m)"
  by (induction cs arbitrary: m) (auto simp: dedup_step_keys)

lemma dedup_fold:
  "map_of (fold dedup_step cs m) a = Some c \<Longrightarrow> (c \<in> set cs \<and> ca_atom_id c = a \<or> map_of m a = Some c) \<and>
     (\<forall>c'\<in>set cs. ca_atom_id c' = a \<longrightarrow> prio c \<le> prio c') \<and> (\<forall>c'. map_of m a = Some c' \<longrightarrow> prio c \<le> prio c')"
proof (induction cs arbitrary: m)
  case (Cons x cs)
  then have IH: "(c \<in> set cs \<and> ca_atom_id c = a \<or> map_of (dedup_step x m) a = Some c) \<and>
      (\<forall>c'\<in>set cs. ca_atom_id c' = a \<longrightarrow> prio c \<le> prio c') \<and> (\<forall>c'. map_of (dedup_step x m) a = Some c' \<longrightarrow> prio c \<le> prio c')"
    by simp
  show ?case
  proof (cases "a = ca_atom_id x")
    case True
    with dedup_step_spec(1) [of x m] obtain d where "map_of (dedup_step x m) a = Some d"
      "d = x \<or> map_of m a = Some d" "prio d \<le> prio x" "\<forall>c'. map_of m a = Some c' \<longrightarrow> prio d \<le> prio c'" by auto
    with IH True show ?thesis by (auto intro: order_trans)
  qed (use IH in \<open>auto simp: dedup_step_spec(2)\<close>)
qed simp

text \<open>
  Of the candidates for one atom, deduplication keeps one whose source has the highest priority; it loses no atom,
  and its answer is in the order of the atoms.
\<close>

theorem dedup_keeps_best:
  "sorted_wrt (<) (map ca_atom_id (dedup_candidates cs)) \<and>
   ca_atom_id ` set (dedup_candidates cs) = ca_atom_id ` set cs \<and> list_all (best_source cs) (dedup_candidates cs)"
proof -
  let ?m = "fold dedup_step cs []"
  have ok: "cm_ok (\<lambda>_. True) ?m" by (rule cm_ok_folds) simp_all
  note props = cm_candidates_ok [OF ok]
  have "list_all (best_source cs) (dedup_candidates cs)"
    unfolding list_all_iff dedup_candidates_def props(3)
  proof
    fix c assume "c \<in> snd ` set ?m"
    then obtain a where "(a, c) \<in> set ?m" by auto
    with ok have "map_of ?m a = Some c" "ca_atom_id c = a" by (auto simp: cm_ok_def)
    with dedup_fold [of cs "[]" a c] show "best_source cs c" by (auto simp: best_source_def)
  qed
  moreover have "ca_atom_id ` snd ` set ?m = fst ` set ?m" using ok by (force simp: cm_ok_def)
  then have "ca_atom_id ` snd ` set ?m = ca_atom_id ` set cs" using dedup_fold_keys [of cs "[]"] by (simp add: dom_map_of_conv_image_fst)
  ultimately show ?thesis using props(1,3) by (simp add: dedup_candidates_def)
qed

section \<open>The lexical requirement\<close>

lemma sort_dedup_sorted [simp]: "sorted (sort_dedup ns)" "set (sort_dedup ns) = set ns"
  by (simp_all add: sort_dedup_def)

lemma std_search_found: "sorted ks \<Longrightarrow> (\<exists>i. std_search ks k = Inl i) \<longleftrightarrow> k \<in> set ks"
proof -
  assume "sorted ks"
  from std_search_spec [OF this, of k] show ?thesis
  proof (cases "std_search ks k")
    case (Inr i)
    with std_search_spec [OF \<open>sorted ks\<close>, of k] have "k \<notin> set (take i ks)" "k \<notin> set (drop i ks)" by auto
    then have "k \<notin> set (take i ks @ drop i ks)" unfolding set_append by blast
    with Inr show ?thesis by simp
  qed auto
qed

lemma lexical_filter: "sorted ks \<Longrightarrow> (case std_search ks n of Inl _ \<Rightarrow> True | Inr _ \<Rightarrow> False) \<longleftrightarrow> n \<in> set ks"
  by (subst std_search_found [symmetric]) (auto split: sum.split)

lemma lexical_fold:
  "set (foldl (\<lambda>nodes set. filter (\<lambda>n. case std_search set n of Inl _ \<Rightarrow> True | Inr _ \<Rightarrow> False) nodes) ns (map sort_dedup xs)) =
     set ns \<inter> (\<Inter>x\<in>set xs. set x)"
  by (induction xs arbitrary: ns) (auto simp: lexical_filter)

text \<open>
  When every term of the question has to be met, the nodes the terms give are exactly those that all of them give.
\<close>

theorem lexical_intersection:
  "set (lexical_nodes True (s # sets)) = (\<Inter>x\<in>set (s # sets). set x)"
  unfolding lexical_nodes_def by (simp add: lexical_fold)

end
