(* ===== verification/Query_Gaps.thy ===== *)
theory Query_Gaps
  imports Set_Cover Query_Router
begin

text \<open>
  Where the gaps of a query come from: the templates of \<open>src/query/gap_generator.rs\<close> and the backward wave of
  \<open>src/query/solver.rs\<close>. Both number the gaps with a counter of 32 bits.
\<close>

section \<open>Templates\<close>

datatype PatternRefTemplate = TAny | TSymbol SymId | TNode NodeNum | TEntity | TConst ConstValue

record ClaimPatternTemplate =
  ct_subj :: PatternRefTemplate
  ct_pred :: PatternRefTemplate
  ct_obj_tag :: "ObjTag option"
  ct_obj :: PatternRefTemplate
  ct_qualifiers_mask :: u32

record NavHintTemplate =
  nt_seed_nodes :: "NodeNum list"
  nt_edge_types :: "EdgeType list"
  nt_max_depth :: u8
  nt_fanout_limit :: u16

record StopCondTemplate =
  sct_max_nodes :: u32
  sct_max_io_bytes :: u64
  sct_min_trust :: TrustLevel
  sct_max_conflicts :: u32

record GapTemplate =
  tp_kind :: GapKind
  tp_priority :: u8
  tp_pattern :: ClaimPatternTemplate
  tp_nav :: NavHintTemplate
  tp_stop :: StopCondTemplate

definition pattern_instantiate :: "NodeNum option \<Rightarrow> PatternRefTemplate \<Rightarrow> PatternRef" where
  "pattern_instantiate entity t =
     (case t of
        TAny \<Rightarrow> PAny
      | TSymbol s \<Rightarrow> PSym s
      | TNode n \<Rightarrow> PNode n
      | TEntity \<Rightarrow> (case entity of None \<Rightarrow> PAny | Some n \<Rightarrow> PNode n)
      | TConst v \<Rightarrow> (case v of Const_I64 i \<Rightarrow> PRange i i | _ \<Rightarrow> PAny))"

definition claim_instantiate :: "NodeNum option \<Rightarrow> ClaimPatternTemplate \<Rightarrow> ClaimPattern" where
  "claim_instantiate entity t =
     \<lparr>cp_subj = pattern_instantiate entity (ct_subj t), cp_pred = pattern_instantiate entity (ct_pred t),
      cp_obj_tag = ct_obj_tag t, cp_obj = pattern_instantiate entity (ct_obj t),
      cp_qualifiers_mask = ct_qualifiers_mask t\<rparr>"

definition nav_instantiate :: "NodeNum option \<Rightarrow> NavHintTemplate \<Rightarrow> NavHint" where
  "nav_instantiate entity t =
     \<lparr>nh_seed_nodes = (if nt_seed_nodes t = [] then (case entity of None \<Rightarrow> [] | Some n \<Rightarrow> [n]) else nt_seed_nodes t),
      nh_edge_types = nt_edge_types t, nh_max_depth = nt_max_depth t, nh_fanout_limit = nt_fanout_limit t\<rparr>"

definition stop_instantiate :: "StopCondTemplate \<Rightarrow> StopCond" where
  "stop_instantiate t =
     \<lparr>st_max_nodes = sct_max_nodes t, st_max_io_bytes = sct_max_io_bytes t, st_min_trust = sct_min_trust t,
      st_max_conflicts = sct_max_conflicts t\<rparr>"

abbreviation pattern_t :: "PatternRefTemplate \<Rightarrow> PatternRefTemplate \<Rightarrow> ObjTag option \<Rightarrow> PatternRefTemplate \<Rightarrow> u32 \<Rightarrow> ClaimPatternTemplate" where
  "pattern_t s p tag v m \<equiv>
     \<lparr>ct_subj = s, ct_pred = p, ct_obj_tag = tag, ct_obj = v, ct_qualifiers_mask = m\<rparr>"
abbreviation nav_t :: "EdgeType list \<Rightarrow> u8 \<Rightarrow> u16 \<Rightarrow> NavHintTemplate" where
  "nav_t es depth fanout \<equiv> \<lparr>nt_seed_nodes = [], nt_edge_types = es, nt_max_depth = depth, nt_fanout_limit = fanout\<rparr>"
abbreviation stop_t :: "u32 \<Rightarrow> u64 \<Rightarrow> TrustLevel \<Rightarrow> u32 \<Rightarrow> StopCondTemplate" where
  "stop_t nodes bytes trust conflicts \<equiv>
     \<lparr>sct_max_nodes = nodes, sct_max_io_bytes = bytes, sct_min_trust = trust, sct_max_conflicts = conflicts\<rparr>"
abbreviation gap_template :: "GapKind \<Rightarrow> u8 \<Rightarrow> ClaimPatternTemplate \<Rightarrow> NavHintTemplate \<Rightarrow> StopCondTemplate \<Rightarrow> GapTemplate" where
  "gap_template kind priority pattern nav stop \<equiv>
     \<lparr>tp_kind = kind, tp_priority = priority, tp_pattern = pattern, tp_nav = nav, tp_stop = stop\<rparr>"

definition lookup_templates :: "GapTemplate list" where
  "lookup_templates =
    [gap_template NEED_FACT 200 (pattern_t TEntity TAny None TAny 0)
       (nav_t [DEFINES, IMPLIES, SUPPORTS] 2 128) (stop_t 100 (1024 * 1024) 50 10),
     gap_template NEED_EVIDENCE 150 (pattern_t TEntity TAny None TAny 0)
       (nav_t [DERIVED_FROM, SUPPORTS] 3 128) (stop_t 50 (512 * 1024) 70 5)]"

definition define_templates :: "GapTemplate list" where
  "define_templates =
    [gap_template NEED_DEFINITION 255 (pattern_t TEntity (TSymbol 1) (Some SYM) TAny 0)
       (nav_t [DEFINES, REFINES, SAME_AS] 2 64) (stop_t 10 (256 * 1024) 80 2),
     gap_template NEED_CONSTRAINTS 180 (pattern_t TEntity TAny None TAny 0xFF)
       (nav_t [DEPENDS_ON, PREVENTS] 2 64) (stop_t 20 (256 * 1024) 60 5)]"

definition explain_templates :: "GapTemplate list" where
  "explain_templates =
    [gap_template NEED_CAUSAL_CHAIN 255 (pattern_t TAny (TSymbol 3) (Some REF) TEntity 0)
       (nav_t [CAUSES, ENABLES, IMPLIES] 3 128) (stop_t 50 (1024 * 1024) 60 10),
     gap_template NEED_CONSTRAINTS 180 (pattern_t TEntity (TSymbol 4) None TAny 0xFF)
       (nav_t [DEPENDS_ON, PREVENTS] 2 64) (stop_t 20 (256 * 1024) 60 5)]"

definition compare_templates :: "GapTemplate list" where
  "compare_templates =
    [gap_template NEED_DEFINITION 220 (pattern_t TEntity (TSymbol 1) (Some SYM) TAny 0)
       (nav_t [DEFINES, REFINES] 1 64) (stop_t 10 (256 * 1024) 70 2),
     gap_template NEED_FACT 200 (pattern_t TEntity TAny None TAny 0)
       (nav_t [IMPLIES, SUPPORTS] 2 128) (stop_t 50 (512 * 1024) 60 10),
     gap_template NEED_COMPARISON_AXIS 180 (pattern_t TAny (TSymbol 5) (Some SYM) TAny 0)
       (nav_t [SAME_AS, GENERALIZES] 2 64) (stop_t 20 (256 * 1024) 50 5)]"

definition derive_templates :: "GapTemplate list" where
  "derive_templates =
    [gap_template NEED_CAUSAL_CHAIN 255 (pattern_t TAny (TSymbol 6) None TEntity 0)
       (nav_t [IMPLIES, DERIVED_FROM] 3 128) (stop_t 50 (1024 * 1024) 75 10),
     gap_template NEED_FACT 220 (pattern_t TAny TAny None TAny 0)
       (nav_t [SUPPORTS, CAUSES] 2 128) (stop_t 100 (1024 * 1024) 60 15)]"

definition verify_templates :: "GapTemplate list" where
  "verify_templates =
    [gap_template NEED_EVIDENCE 255 (pattern_t TEntity TAny None TAny 0)
       (nav_t [SUPPORTS, DERIVED_FROM] 2 128) (stop_t 100 (1024 * 1024) 80 5),
     gap_template NEED_COUNTEREXAMPLE 220 (pattern_t TAny (TSymbol 8) None TEntity 0)
       (nav_t [CONTRADICTS] 2 64) (stop_t 50 (512 * 1024) 70 5)]"

definition plan_templates :: "GapTemplate list" where
  "plan_templates =
    [gap_template NEED_PROCEDURE 255 (pattern_t TAny (TSymbol 9) None TEntity 0)
       (nav_t [STEP_OF, INPUT_OF, OUTPUT_OF] 3 128) (stop_t 50 (1024 * 1024) 70 10),
     gap_template NEED_CONSTRAINTS 180 (pattern_t TAny (TSymbol 4) None TAny 0xFF)
       (nav_t [PREVENTS, DEPENDS_ON] 2 64) (stop_t 20 (256 * 1024) 60 5)]"

definition get_templates :: "Intent \<Rightarrow> GapTemplate list" where
  "get_templates intent =
     (case intent of
        LOOKUP \<Rightarrow> lookup_templates | DEFINE \<Rightarrow> define_templates | EXPLAIN \<Rightarrow> explain_templates
      | COMPARE \<Rightarrow> compare_templates | DERIVE \<Rightarrow> derive_templates | VERIFY \<Rightarrow> verify_templates | PLAN \<Rightarrow> plan_templates)"

section \<open>Numbering\<close>

text \<open>A gap that is pushed takes the counter as its id, and the counter goes up by one.\<close>

definition emit :: "(GapId \<Rightarrow> Gap) \<Rightarrow> Gap list \<times> GapId \<Rightarrow> Gap list \<times> GapId" where
  "emit mk = (\<lambda>(gaps, gap_id). (gaps @ [mk gap_id], gap_id + 1))"

definition numbered_gaps :: "(GapId \<Rightarrow> Gap) list \<Rightarrow> Gap list" where
  "numbered_gaps mks = fst (fold emit mks ([], 0))"

definition template_gap :: "GapTemplate \<Rightarrow> NodeNum option \<Rightarrow> GapId \<Rightarrow> Gap" where
  "template_gap t entity i =
     with_stop (stop_instantiate (tp_stop t)) (with_nav (nav_instantiate entity (tp_nav t))
       (with_priority (tp_priority t) (gap_new i (tp_kind t) (claim_instantiate entity (tp_pattern t)))))"

definition generate_gaps :: "Intent \<Rightarrow> NodeNum list \<Rightarrow> Gap list" where
  "generate_gaps intent entities =
     numbered_gaps (concat (map (\<lambda>t.
       map (\<lambda>e. template_gap t (Some e)) entities @ (if entities = [] then [template_gap t None] else []))
       (get_templates intent)))"

section \<open>The backward wave\<close>

definition entity_pattern :: "EntityRef \<Rightarrow> ClaimPattern" where
  "entity_pattern e =
     \<lparr>cp_subj = (case entity_as_node e of None \<Rightarrow> PAny | Some n \<Rightarrow> PNode n), cp_pred = PAny, cp_obj_tag = None,
      cp_obj = PAny, cp_qualifiers_mask = 0\<rparr>"

definition any_pattern :: ClaimPattern where
  "any_pattern = \<lparr>cp_subj = PAny, cp_pred = PAny, cp_obj_tag = None, cp_obj = PAny, cp_qualifiers_mask = 0\<rparr>"

definition with_edges :: "EdgeType list \<Rightarrow> Gap \<Rightarrow> Gap" where
  "with_edges ts g = g\<lparr>gap_nav := (gap_nav g)\<lparr>nh_edge_types := ts\<rparr>\<rparr>"
definition with_depth :: "u8 \<Rightarrow> Gap \<Rightarrow> Gap" where
  "with_depth d g = g\<lparr>gap_nav := (gap_nav g)\<lparr>nh_max_depth := d\<rparr>\<rparr>"
definition with_seed :: "NodeNum option \<Rightarrow> Gap \<Rightarrow> Gap" where
  "with_seed n g = (case n of None \<Rightarrow> g | Some n \<Rightarrow> g\<lparr>gap_nav := (gap_nav g)\<lparr>nh_seed_nodes := nh_seed_nodes (gap_nav g) @ [n]\<rparr>\<rparr>)"

definition lookup_gaps :: "GoalSpec \<Rightarrow> (GapId \<Rightarrow> Gap) list" where
  "lookup_gaps gs = concat (map (\<lambda>e.
     [\<lambda>i. with_priority 180 (with_seed (entity_as_node e) (gap_new i NEED_FACT (entity_pattern e))),
      \<lambda>i. with_priority 150 (gap_new i NEED_EVIDENCE (entity_pattern e))]) (gl_entities gs))"

definition define_gaps :: "GoalSpec \<Rightarrow> (GapId \<Rightarrow> Gap) list" where
  "define_gaps gs = concat (map (\<lambda>e.
     [\<lambda>i. with_depth 2 (with_edges [DEFINES]
           (gap_high_priority i NEED_DEFINITION ((entity_pattern e)\<lparr>cp_obj_tag := Some SYM\<rparr>))),
      \<lambda>i. with_priority 160 (gap_new i NEED_CONSTRAINTS (entity_pattern e)),
      \<lambda>i. with_edges [CONTRADICTS] (with_priority 80 (gap_new i NEED_COUNTEREXAMPLE (entity_pattern e)))])
     (gl_entities gs))"

definition explain_gaps :: "GoalSpec \<Rightarrow> (GapId \<Rightarrow> Gap) list" where
  "explain_gaps gs = concat (map (\<lambda>e.
     [\<lambda>i. with_priority 200 (gap_high_priority i NEED_DEFINITION (entity_pattern e)),
      \<lambda>i. with_priority 190 (with_depth 5 (with_edges [CAUSES, ENABLES, PREVENTS, SUPPORTS]
           (gap_high_priority i NEED_CAUSAL_CHAIN (entity_pattern e)))),
      \<lambda>i. with_priority 140 (gap_new i NEED_CONSTRAINTS (entity_pattern e))]) (gl_entities gs))"

definition constraints_gap :: "u8 \<Rightarrow> GapId \<Rightarrow> Gap" where
  "constraints_gap priority i = with_priority priority (gap_new i NEED_CONSTRAINTS claim_pattern_default)"

definition compare_gaps :: "GoalSpec \<Rightarrow> (GapId \<Rightarrow> Gap) list" where
  "compare_gaps gs =
     map (\<lambda>e i. with_priority 200 (gap_high_priority i NEED_DEFINITION (entity_pattern e))) (gl_entities gs)
     @ map (\<lambda>axis i. with_priority 170 (gap_new i NEED_COMPARISON_AXIS (any_pattern\<lparr>cp_subj := PSym axis\<rparr>))) (gl_axes gs)
     @ concat (map (\<lambda>e. map (\<lambda>axis i. with_priority 160
           (gap_new i NEED_FACT ((entity_pattern e)\<lparr>cp_pred := PSym axis\<rparr>))) (gl_axes gs)) (gl_entities gs))
     @ [constraints_gap 120]"

definition derive_gaps :: "GoalSpec \<Rightarrow> (GapId \<Rightarrow> Gap) list" where
  "derive_gaps gs =
     [\<lambda>i. with_priority 200 (with_edges [IMPLIES] (gap_high_priority i NEED_PROCEDURE any_pattern))]
     @ map (\<lambda>e i. with_priority 170 (gap_new i NEED_FACT (entity_pattern e))) (gl_entities gs)
     @ [constraints_gap 140]"

definition verify_gaps :: "GoalSpec \<Rightarrow> (GapId \<Rightarrow> Gap) list" where
  "verify_gaps gs =
     concat (map (\<lambda>e.
       [\<lambda>i. with_priority 200 (gap_high_priority i NEED_EVIDENCE (entity_pattern e)),
        \<lambda>i. with_priority 180 (with_depth 3 (with_edges [CONTRADICTS]
             (gap_high_priority i NEED_COUNTEREXAMPLE (entity_pattern e))))]) (gl_entities gs))
     @ [constraints_gap 150]"

definition plan_gaps :: "GoalSpec \<Rightarrow> (GapId \<Rightarrow> Gap) list" where
  "plan_gaps gs =
     [\<lambda>i. with_priority 200 (with_depth 10 (with_edges [STEP_OF] (gap_high_priority i NEED_PROCEDURE any_pattern))),
      constraints_gap 160]
     @ map (\<lambda>e i. with_priority 150 (gap_new i NEED_FACT (entity_pattern e))) (gl_entities gs)
     @ [\<lambda>i. with_priority 130 (gap_new i NEED_COUNTEREXAMPLE claim_pattern_default)]"

definition wave_makes :: "GoalSpec \<Rightarrow> (GapId \<Rightarrow> Gap) list" where
  "wave_makes gs =
     (case gl_intent gs of
        LOOKUP \<Rightarrow> lookup_gaps gs | DEFINE \<Rightarrow> define_gaps gs | EXPLAIN \<Rightarrow> explain_gaps gs | COMPARE \<Rightarrow> compare_gaps gs
      | DERIVE \<Rightarrow> derive_gaps gs | VERIFY \<Rightarrow> verify_gaps gs | PLAN \<Rightarrow> plan_gaps gs)"

definition backward_wave :: "GoalSpec \<Rightarrow> Gap list" where
  "backward_wave gs = numbered_gaps (wave_makes gs)"

section \<open>What the wave mks\<close>

lemma emit_fold:
  "fold emit mks (gs, n) = (gs @ map (\<lambda>(i, f). f (n + of_nat i)) (List.enumerate 0 mks), n + of_nat (length mks))"
proof (induction mks arbitrary: gs n rule: rev_induct)
  case (snoc f mks)
  then show ?case by (simp add: emit_def enumerate_append_eq)
qed simp

lemma numbered_gaps_eq: "numbered_gaps mks = map (\<lambda>(i, f). f (of_nat i)) (List.enumerate 0 mks)"
  by (simp add: numbered_gaps_def emit_fold)

text \<open>A maker keeps the number it is given, has a positive priority, and leaves the gap open.\<close>

definition maker :: "(GapId \<Rightarrow> Gap) \<Rightarrow> bool" where
  "maker f \<longleftrightarrow> (\<forall>i. gap_id (f i) = i \<and> 0 < gap_priority (f i) \<and> \<not> gap_covered (f i))"

lemma with_keeps [simp]:
  "gap_id (with_priority p g) = gap_id g" "gap_id (with_nav nav g) = gap_id g" "gap_id (with_stop st g) = gap_id g"
  "gap_id (with_edges ts g) = gap_id g" "gap_id (with_depth d g) = gap_id g" "gap_id (with_seed n g) = gap_id g"
  "gap_covered (with_priority p g) = gap_covered g" "gap_covered (with_nav nav g) = gap_covered g"
  "gap_covered (with_stop st g) = gap_covered g" "gap_covered (with_edges ts g) = gap_covered g"
  "gap_covered (with_depth d g) = gap_covered g" "gap_covered (with_seed n g) = gap_covered g"
  "gap_priority (with_priority p g) = p" "gap_priority (with_nav nav g) = gap_priority g"
  "gap_priority (with_stop st g) = gap_priority g" "gap_priority (with_edges ts g) = gap_priority g"
  "gap_priority (with_depth d g) = gap_priority g" "gap_priority (with_seed n g) = gap_priority g"
  by (simp_all add: with_priority_def with_nav_def with_stop_def with_edges_def with_depth_def with_seed_def split: option.split)

lemma new_gaps [simp]:
  "gap_id (gap_new i k p) = i" "gap_id (gap_high_priority i k p) = i" "\<not> gap_covered (gap_new i k p)"
  "\<not> gap_covered (gap_high_priority i k p)" "gap_priority (gap_new i k p) = 128" "gap_priority (gap_high_priority i k p) = 200"
  by (simp_all add: gap_new_def gap_high_priority_def)

lemma wave_makers: "f \<in> set (wave_makes gs) \<Longrightarrow> maker f"
  by (cases "gl_intent gs")
    (auto simp: wave_makes_def lookup_gaps_def define_gaps_def explain_gaps_def compare_gaps_def derive_gaps_def
      verify_gaps_def plan_gaps_def maker_def constraints_gap_def)

lemma numbered_gaps_ids:
  assumes "\<forall>f\<in>set mks. maker f" "length mks \<le> 2 ^ 32"
  shows "map gap_id (numbered_gaps mks) = map of_nat [0..<length mks]" "distinct (map gap_id (numbered_gaps mks))"
proof -
  show ids: "map gap_id (numbered_gaps mks) = map of_nat [0..<length mks]"
    using assms(1) by (intro nth_equalityI) (auto simp: numbered_gaps_eq nth_enumerate_eq maker_def)
  have "inj_on (of_nat :: nat \<Rightarrow> u32) {0..<length mks}"
    using assms(2) by (intro inj_onI) (auto simp: of_nat_inverse dest!: arg_cong [where f = unat])
  then show "distinct (map gap_id (numbered_gaps mks))" unfolding ids by (simp add: distinct_map)
qed

lemma numbered_gaps_all: "\<forall>f\<in>set mks. maker f \<Longrightarrow> g \<in> set (numbered_gaps mks) \<Longrightarrow> 0 < gap_priority g \<and> \<not> gap_covered g"
  by (auto simp: numbered_gaps_eq maker_def in_set_enumerate_eq)

lemma numbered_gaps_length [simp]: "length (numbered_gaps mks) = length mks"
  by (simp add: numbered_gaps_eq)

lemma wave_gaps_all: "g \<in> set (backward_wave gs) \<Longrightarrow> 0 < gap_priority g \<and> \<not> gap_covered g"
  unfolding backward_wave_def using wave_makers by (intro numbered_gaps_all) auto

lemma wave_ids:
  assumes "length (backward_wave gs) \<le> 2 ^ 32"
  shows "map gap_id (backward_wave gs) = map of_nat [0..<length (backward_wave gs)]" "distinct (map gap_id (backward_wave gs))"
  using numbered_gaps_ids [of "wave_makes gs"] wave_makers assms by (auto simp: backward_wave_def)

definition sample_lookup :: GoalSpec where
  "sample_lookup = (goal_new LOOKUP)\<lparr>gl_entities := [ENode 7]\<rparr>"

text \<open>
  The gaps of a goal are numbered by their positions, so that an id is an index, as the solver uses it; every gap is
  open and has a positive priority.
\<close>

theorem wave_numbered:
  assumes "length (backward_wave gs) \<le> 2 ^ 32"
  shows "map gap_id (backward_wave gs) = map of_nat [0..<length (backward_wave gs)] \<and>
    (\<forall>g\<in>set (backward_wave gs). 0 < gap_priority g \<and> \<not> gap_covered g)"
  using wave_ids(1) [OF assms] wave_gaps_all by blast

theorem wave_numbered_witness: "map gap_id (backward_wave sample_lookup) = [0, 1]"
proof -
  have "length (backward_wave sample_lookup) = 2"
    by (simp add: backward_wave_def wave_makes_def lookup_gaps_def sample_lookup_def goal_new_def)
  with wave_numbered [of sample_lookup] show ?thesis by (simp add: upt_rec)
qed

text \<open>
  A goal has no gap at all exactly when it names no entity and asks to look up, to define or to explain; such a goal
  counts as covered before anything is retrieved, even when it carries semantic vectors to search by.
\<close>

theorem wave_empty:
  "backward_wave gs = [] \<longleftrightarrow> gl_entities gs = [] \<and> gl_intent gs \<in> {LOOKUP, DEFINE, EXPLAIN}"
proof -
  have "backward_wave gs = [] \<longleftrightarrow> wave_makes gs = []" by (simp add: backward_wave_def flip: length_0_conv)
  then show ?thesis
    by (cases "gl_intent gs"; cases "gl_entities gs")
      (simp_all add: wave_makes_def lookup_gaps_def define_gaps_def explain_gaps_def compare_gaps_def derive_gaps_def
        verify_gaps_def plan_gaps_def)
qed

text \<open>
  C18: for the gaps of a goal (at most 2^32), and candidates that name only these (fewer than 2^44 names each), the
  greedy cover is complete exactly when every gap is offered by some candidate, whatever the cost weights are.
\<close>

theorem wave_cover:
  assumes "length (backward_wave gs) \<le> 2 ^ 32"
    and "\<forall>c\<in>set candidates. set (ac_covers_gaps c) \<subseteq> gap_id ` set (backward_wave gs)"
    and "\<forall>c\<in>set candidates. length (ac_covers_gaps c) < 2 ^ 44"
  shows "result_is_complete (cover_solve (backward_wave gs) candidates w) \<longleftrightarrow>
    (\<forall>g\<in>set (backward_wave gs). \<exists>c\<in>set candidates. gap_id g \<in> set (ac_covers_gaps c))"
proof -
  have "\<forall>g\<in>set (backward_wave gs). 0 < gap_priority g" using wave_gaps_all by blast
  from cover_covers [OF wave_ids(2) [OF assms(1)] this assms(2,3), of w]
  have "result_is_complete (cover_solve (backward_wave gs) candidates w) \<longleftrightarrow>
      (\<Union>c\<in>set candidates. set (ac_covers_gaps c)) = gap_id ` set (backward_wave gs)" by (rule conjunct2)
  also have "\<dots> \<longleftrightarrow> gap_id ` set (backward_wave gs) \<subseteq> (\<Union>c\<in>set candidates. set (ac_covers_gaps c))"
    using assms(2) by (simp add: set_eq_subset UN_subset_iff)
  finally show ?thesis by (simp add: image_subset_iff)
qed

theorem wave_cover_witness:
  "result_is_complete (cover_solve (backward_wave sample_lookup) [ac_with_covers_gaps [0, 1] (ac_new [10] FACT)] cost_weights_default)"
proof -
  have w: "backward_wave sample_lookup =
      [with_priority 180 (with_seed (Some 7) (gap_new 0 NEED_FACT (entity_pattern (ENode 7)))),
       with_priority 150 (gap_new 1 NEED_EVIDENCE (entity_pattern (ENode 7)))]"
    by (simp add: backward_wave_def wave_makes_def lookup_gaps_def sample_lookup_def goal_new_def entity_as_node_def
        numbered_gaps_def emit_def)
  show ?thesis
    by (subst wave_cover) (simp_all add: w ac_with_covers_gaps_def ac_new_def)
qed

section \<open>The gaps of the templates\<close>

definition template_makes :: "Intent \<Rightarrow> NodeNum list \<Rightarrow> (GapId \<Rightarrow> Gap) list" where
  "template_makes intent entities =
     concat (map (\<lambda>t. map (\<lambda>e. template_gap t (Some e)) entities @ (if entities = [] then [template_gap t None] else []))
       (get_templates intent))"

lemma generate_makes: "generate_gaps intent entities = numbered_gaps (template_makes intent entities)"
  by (simp add: generate_gaps_def template_makes_def)

lemma templates_positive: "t \<in> set (get_templates intent) \<Longrightarrow> 0 < tp_priority t"
proof -
  assume t: "t \<in> set (get_templates intent)"
  have "list_all (\<lambda>t. 0 < tp_priority t) (get_templates intent)" by (cases intent; hypsubst; code_simp)
  with t show ?thesis by (simp add: list_all_iff)
qed

lemma template_makers: "f \<in> set (template_makes intent entities) \<Longrightarrow> maker f"
  by (auto simp: template_makes_def maker_def template_gap_def templates_positive split: if_splits)

lemma template_count: "length (generate_gaps intent entities) = length (get_templates intent) * max 1 (length entities)"
  by (cases "entities = []") (auto simp: generate_makes template_makes_def length_concat comp_def sum_list_triv Suc_le_eq)

text \<open>
  The templates give at least two gaps for every intent, one per template and entity, or one per template when there
  is no entity; they are numbered by position and have positive priorities.
\<close>

theorem templates_never_empty:
  assumes "length (generate_gaps intent entities) \<le> 2 ^ 32"
  shows "length (generate_gaps intent entities) = length (get_templates intent) * max 1 (length entities) \<and>
    2 \<le> length (get_templates intent) \<and> distinct (map gap_id (generate_gaps intent entities)) \<and>
    (\<forall>g\<in>set (generate_gaps intent entities). 0 < gap_priority g)"
proof -
  have "2 \<le> length (get_templates intent)"
    by (cases intent; hypsubst; code_simp)
  moreover have "distinct (map gap_id (generate_gaps intent entities))"
    using numbered_gaps_ids(2) [of "template_makes intent entities"] template_makers assms by (auto simp: generate_makes)
  moreover have "\<forall>g\<in>set (generate_gaps intent entities). 0 < gap_priority g"
    using numbered_gaps_all [of "template_makes intent entities"] template_makers by (auto simp: generate_makes)
  ultimately show ?thesis using template_count by blast
qed

theorem templates_never_empty_witness: "distinct (map gap_id (generate_gaps COMPARE [3, 4]))"
proof -
  have "length (generate_gaps COMPARE [3, 4]) \<le> 2 ^ 32"
    by (simp add: template_count get_templates_def compare_templates_def)
  from templates_never_empty [OF this] show ?thesis by blast
qed

end
