(* ===== verification/Query_Planner.thy ===== *)
theory Query_Planner
  imports Query_Gaps
begin

text \<open>
  The order of retrieval work of \<open>src/query/planner.rs\<close>: every open gap is scored with single-precision numbers, the
  actions are sorted by falling utility and then by gap, and a prefix-like choice is made within two budgets. The
  sort is by a comparator, so it is written out as the stable insertion it amounts to.
\<close>

section \<open>Numbers\<close>

definition f_max :: "fnum \<Rightarrow> fnum \<Rightarrow> fnum" where
  "f_max a b = (if a = Fnan then b else if b = Fnan then a else if f_lt a b then b else a)"

text \<open>\<open>ceil\<close> followed by the cast to an unsigned integer of 32 bits, which saturates.\<close>

fun f_ceil_u32 :: "fnum \<Rightarrow> u32" where
  "f_ceil_u32 Fnan = 0"
| "f_ceil_u32 (Finf s) = (if s then 0 else - 1)"
| "f_ceil_u32 (Ffin s m e) =
     (let n = (if e \<ge> 0 then m * 2 ^ nat e else (m + 2 ^ nat (- e) - 1) div 2 ^ nat (- e))
      in if s then 0 else if n \<ge> 2 ^ 32 then - 1 else of_nat n)"

definition saturating_add32 :: "u32 \<Rightarrow> u32 \<Rightarrow> u32" where
  "saturating_add32 a b = (if unat a + unat b \<ge> 2 ^ 32 then - 1 else a + b)"

fun insort_by :: "('a \<Rightarrow> 'a \<Rightarrow> bool) \<Rightarrow> 'a \<Rightarrow> 'a list \<Rightarrow> 'a list" where
  "insort_by lt x [] = [x]"
| "insort_by lt x (y # ys) = (if lt y x then y # insort_by lt x ys else x # y # ys)"

definition sort_by :: "('a \<Rightarrow> 'a \<Rightarrow> bool) \<Rightarrow> 'a list \<Rightarrow> 'a list" where
  "sort_by lt xs = foldr (insort_by lt) xs []"

section \<open>Actions\<close>

record RetrievalAction =
  ra_gap_id :: u32
  ra_utility :: fnum
  ra_expected_gap_coverage :: fnum
  ra_evidence_quality :: fnum
  ra_constraint_selectivity :: fnum
  ra_execution_cost :: fnum
  ra_reason :: str

record RetrievalActionTrace =
  rt_gap_id :: GapId
  rt_utility :: fnum
  rt_selected :: bool
  rt_reason :: str

definition action_to_trace :: "RetrievalAction \<Rightarrow> bool \<Rightarrow> RetrievalActionTrace" where
  "action_to_trace a selected =
     \<lparr>rt_gap_id = ra_gap_id a, rt_utility = ra_utility a, rt_selected = selected, rt_reason = ra_reason a\<rparr>"

record PlannerBudgets =
  pb_max_actions :: u64
  pb_max_io_bytes :: u32

definition planner_budgets_default :: PlannerBudgets where
  "planner_budgets_default = \<lparr>pb_max_actions = - 1, pb_max_io_bytes = - 1\<rparr>"

abbreviation f32 :: "nat \<Rightarrow> nat \<Rightarrow> fnum" where "f32 \<equiv> f_lit binary32"

primrec evidence_quality :: "GapKind \<Rightarrow> fnum" where
  "evidence_quality NEED_EVIDENCE = f32 1 1"
| "evidence_quality NEED_COUNTEREXAMPLE = f32 95 100"
| "evidence_quality NEED_FACT = f32 9 10"
| "evidence_quality NEED_DEFINITION = f32 8 10"
| "evidence_quality NEED_CAUSAL_CHAIN = f32 75 100"
| "evidence_quality NEED_CONSTRAINTS = f32 85 100"
| "evidence_quality NEED_COMPARISON_AXIS = f32 7 10"
| "evidence_quality NEED_PROCEDURE = f32 65 100"

definition base_cost :: "GapKind \<Rightarrow> fnum" where
  "base_cost kind =
     (case kind of
        NEED_FACT \<Rightarrow> f32 1 1 | NEED_DEFINITION \<Rightarrow> f32 1 1
      | NEED_EVIDENCE \<Rightarrow> f32 12 10 | NEED_CONSTRAINTS \<Rightarrow> f32 12 10
      | NEED_COUNTEREXAMPLE \<Rightarrow> f32 15 10 | NEED_COMPARISON_AXIS \<Rightarrow> f32 15 10
      | NEED_CAUSAL_CHAIN \<Rightarrow> f32 2 1 | NEED_PROCEDURE \<Rightarrow> f32 2 1)"

definition trust_share :: "TrustLevel \<Rightarrow> fnum" where
  "trust_share t = f_div binary32 (f_of_nat binary32 (unat t)) (f32 10000 1)"

definition execution_cost :: "GapKind \<Rightarrow> TrustLevel \<Rightarrow> fnum" where
  "execution_cost kind trust_min = f_add binary32 (base_cost kind) (trust_share trust_min)"

primrec gap_kind_debug :: "GapKind \<Rightarrow> string" where
  "gap_kind_debug NEED_DEFINITION = ''NEED_DEFINITION''"
| "gap_kind_debug NEED_FACT = ''NEED_FACT''"
| "gap_kind_debug NEED_CAUSAL_CHAIN = ''NEED_CAUSAL_CHAIN''"
| "gap_kind_debug NEED_EVIDENCE = ''NEED_EVIDENCE''"
| "gap_kind_debug NEED_COUNTEREXAMPLE = ''NEED_COUNTEREXAMPLE''"
| "gap_kind_debug NEED_CONSTRAINTS = ''NEED_CONSTRAINTS''"
| "gap_kind_debug NEED_COMPARISON_AXIS = ''NEED_COMPARISON_AXIS''"
| "gap_kind_debug NEED_PROCEDURE = ''NEED_PROCEDURE''"

definition score_gap :: "Gap \<Rightarrow> GoalSpec \<Rightarrow> RetrievalAction" where
  "score_gap gap goal =
     (let coverage = f_div binary32 (f_max (f_of_nat binary32 (unat (gap_priority gap))) (f32 1 1)) (f32 255 1);
          quality = evidence_quality (gap_kind gap);
          selectivity = f_add binary32 (f32 1 1)
            (f_min (f_mul binary32 (f_of_nat binary32 (length (gl_constraints goal))) (f32 5 100)) (f32 1 1));
          cost = execution_cost (gap_kind gap) (gl_trust_min goal);
          utility = f_div binary32 (f_mul binary32 (f_mul binary32 coverage quality) selectivity) cost
      in \<lparr>ra_gap_id = gap_id gap, ra_utility = utility, ra_expected_gap_coverage = coverage,
          ra_evidence_quality = quality, ra_constraint_selectivity = selectivity, ra_execution_cost = cost,
          ra_reason = utf8 (gap_kind_debug (gap_kind gap))\<rparr>)"

text \<open>The comparator: higher utility first, then the smaller id.\<close>

definition action_before :: "RetrievalAction \<Rightarrow> RetrievalAction \<Rightarrow> bool" where
  "action_before l r \<longleftrightarrow>
     f_lt (ra_utility r) (ra_utility l) \<or> \<not> f_lt (ra_utility l) (ra_utility r) \<and> ra_gap_id l < ra_gap_id r"

text \<open>The loop over the sorted actions: it stops at the number of actions, and passes over one that is too costly.\<close>

fun choose_within :: "('a \<Rightarrow> u32) \<Rightarrow> PlannerBudgets \<Rightarrow> 'a list \<Rightarrow> 'a list \<Rightarrow> u32 \<Rightarrow> 'a list" where
  "choose_within cost budgets selected [] io_used = selected"
| "choose_within cost budgets selected (a # actions) io_used =
     (if length selected \<ge> unat (pb_max_actions budgets) then selected
      else if saturating_add32 io_used (cost a) > pb_max_io_bytes budgets
      then choose_within cost budgets selected actions io_used
      else choose_within cost budgets (selected @ [a]) actions (saturating_add32 io_used (cost a)))"

definition action_cost :: "RetrievalAction \<Rightarrow> u32" where
  "action_cost a = f_ceil_u32 (ra_execution_cost a)"

definition retrieval_plan :: "Gap list \<Rightarrow> GoalSpec \<Rightarrow> PlannerBudgets \<Rightarrow> RetrievalAction list" where
  "retrieval_plan gaps goal budgets =
     choose_within action_cost budgets []
       (sort_by action_before (map (\<lambda>g. score_gap g goal) (filter (\<lambda>g. \<not> gap_covered g) gaps))) 0"

section \<open>Shards\<close>

record FederatedPayloadContract =
  fp_returns_claims :: bool
  fp_returns_provenance :: bool
  fp_returns_metadata :: bool
  fp_returns_ready_text :: bool

definition memoryx_claim_payload :: FederatedPayloadContract where
  "memoryx_claim_payload = \<lparr>fp_returns_claims = True, fp_returns_provenance = True, fp_returns_metadata = True,
     fp_returns_ready_text = False\<rparr>"

definition is_memoryx_source_payload :: "FederatedPayloadContract \<Rightarrow> bool" where
  "is_memoryx_source_payload p \<longleftrightarrow>
     fp_returns_claims p \<and> fp_returns_provenance p \<and> fp_returns_metadata p \<and> \<not> fp_returns_ready_text p"

record ShardDescriptor =
  sd_shard_id :: bytes
  sd_endpoint :: str
  sd_trust_level :: TrustLevel
  sd_domain_mask :: u64
  sd_supported_gap_kinds :: "u8 list"
  sd_payload_contract :: FederatedPayloadContract

definition shard_new :: "bytes \<Rightarrow> str \<Rightarrow> TrustLevel \<Rightarrow> ShardDescriptor" where
  "shard_new shard endpoint trust =
     \<lparr>sd_shard_id = shard, sd_endpoint = endpoint, sd_trust_level = trust, sd_domain_mask = - 1,
      sd_supported_gap_kinds = [], sd_payload_contract = memoryx_claim_payload\<rparr>"
definition shard_with_domain_mask :: "u64 \<Rightarrow> ShardDescriptor \<Rightarrow> ShardDescriptor" where
  "shard_with_domain_mask d s = s\<lparr>sd_domain_mask := d\<rparr>"
definition shard_with_gap_kinds :: "GapKind list \<Rightarrow> ShardDescriptor \<Rightarrow> ShardDescriptor" where
  "shard_with_gap_kinds ks s = s\<lparr>sd_supported_gap_kinds := map gap_kind_to_u8 ks\<rparr>"
definition shard_with_payload_contract :: "FederatedPayloadContract \<Rightarrow> ShardDescriptor \<Rightarrow> ShardDescriptor" where
  "shard_with_payload_contract p s = s\<lparr>sd_payload_contract := p\<rparr>"

definition supports_gap :: "ShardDescriptor \<Rightarrow> Gap \<Rightarrow> GoalSpec \<Rightarrow> bool" where
  "supports_gap s gap goal \<longleftrightarrow>
     sd_trust_level s \<ge> gl_trust_min goal
     \<and> (gl_domain_mask goal = 0 \<or> sd_domain_mask s AND gl_domain_mask goal \<noteq> 0)
     \<and> (sd_supported_gap_kinds s = [] \<or> gap_kind_to_u8 (gap_kind gap) \<in> set (sd_supported_gap_kinds s))
     \<and> is_memoryx_source_payload (sd_payload_contract s)"

record ShardRetrievalAction =
  sa_action :: RetrievalAction
  sa_shard_id :: bytes
  sa_endpoint :: str
  sa_shard_trust :: TrustLevel
  sa_federated_utility :: fnum
  sa_payload_contract :: FederatedPayloadContract

definition shard_action :: "GoalSpec \<Rightarrow> RetrievalAction \<Rightarrow> ShardDescriptor \<Rightarrow> ShardRetrievalAction" where
  "shard_action goal a s =
     (let trust_factor = f_clamp (trust_share (sd_trust_level s)) (f32 0 1) (f32 1 1);
          domain_factor = (if gl_domain_mask goal \<noteq> 0 \<and> sd_domain_mask s AND gl_domain_mask goal = gl_domain_mask goal
            then f32 105 100 else f32 1 1)
      in \<lparr>sa_action = a, sa_shard_id = sd_shard_id s, sa_endpoint = sd_endpoint s, sa_shard_trust = sd_trust_level s,
          sa_federated_utility = f_mul binary32 (f_mul binary32 (ra_utility a) (f_add binary32 (f32 5 10) trust_factor))
            domain_factor,
          sa_payload_contract = sd_payload_contract s\<rparr>)"

definition shard_before :: "ShardRetrievalAction \<Rightarrow> ShardRetrievalAction \<Rightarrow> bool" where
  "shard_before l r \<longleftrightarrow>
     f_lt (sa_federated_utility r) (sa_federated_utility l)
     \<or> \<not> f_lt (sa_federated_utility l) (sa_federated_utility r)
       \<and> (ra_gap_id (sa_action l) < ra_gap_id (sa_action r)
          \<or> ra_gap_id (sa_action l) = ra_gap_id (sa_action r) \<and> sa_shard_id l < sa_shard_id r)"

definition shard_actions :: "Gap list \<Rightarrow> GoalSpec \<Rightarrow> ShardDescriptor list \<Rightarrow> RetrievalAction \<Rightarrow> ShardRetrievalAction list" where
  "shard_actions gaps goal shards a =
     (case find_gap gaps (ra_gap_id a) of
        None \<Rightarrow> []
      | Some gap \<Rightarrow> map (shard_action goal a) (filter (\<lambda>s. supports_gap s gap goal) shards))"

definition plan_federated ::
  "Gap list \<Rightarrow> GoalSpec \<Rightarrow> PlannerBudgets \<Rightarrow> ShardDescriptor list \<Rightarrow> ShardRetrievalAction list" where
  "plan_federated gaps goal budgets shards =
     (let local_actions = retrieval_plan gaps goal planner_budgets_default;
          planned = concat (map (shard_actions gaps goal shards) local_actions)
      in choose_within (\<lambda>a. action_cost (sa_action a)) budgets [] (sort_by shard_before planned) 0)"

section \<open>Budgets\<close>

lemma sort_by_mset [simp]: "mset (sort_by lt xs) = mset xs"
proof -
  have "mset (insort_by lt x ys) = add_mset x (mset ys)" for x ys by (induction ys) auto
  then show ?thesis by (induction xs) (simp_all add: sort_by_def)
qed

lemma saturating_add32_mono:
  "saturating_add32 a b \<le> m \<Longrightarrow> m \<noteq> - 1 \<Longrightarrow> unat (saturating_add32 a b) = unat a + unat b"
proof -
  assume *: "saturating_add32 a b \<le> m" "m \<noteq> - 1"
  have "\<not> unat a + unat b \<ge> 2 ^ 32"
  proof
    assume "unat a + unat b \<ge> 2 ^ 32"
    with * show False by (simp add: saturating_add32_def word_order.extremum_unique)
  qed
  then show ?thesis by (simp add: saturating_add32_def unat_word_ariths)
qed

lemma choose_within_fits:
  assumes "pb_max_io_bytes b \<noteq> - 1" "unat io = sum_list (map (unat \<circ> cost) sel)" "io \<le> pb_max_io_bytes b"
    and "length sel \<le> unat (pb_max_actions b)"
  shows "sum_list (map (unat \<circ> cost) (choose_within cost b sel xs io)) \<le> unat (pb_max_io_bytes b) \<and>
    length (choose_within cost b sel xs io) \<le> unat (pb_max_actions b)"
  using assms
proof (induction cost b sel xs io rule: choose_within.induct)
  case (1 cost b sel io)
  then show ?case by (simp add: word_le_nat_alt)
next
  case (2 cost b sel a actions io)
  show ?case
  proof (cases "length sel \<ge> unat (pb_max_actions b)")
    case True
    with "2.prems" show ?thesis by (simp add: word_le_nat_alt)
  next
    case False
    show ?thesis
    proof (cases "saturating_add32 io (cost a) > pb_max_io_bytes b")
      case True
      with False "2.IH"(1) "2.prems" show ?thesis by simp
    next
      case fits: False
      then have le: "saturating_add32 io (cost a) \<le> pb_max_io_bytes b" by simp
      then have "unat (saturating_add32 io (cost a)) = unat io + unat (cost a)"
        by (rule saturating_add32_mono [OF _ "2.prems"(1)])
      with False fits le "2.IH"(2) "2.prems" show ?thesis by simp
    qed
  qed
qed

lemma choose_within_subset: "mset (choose_within cost b sel xs io) \<subseteq># mset sel + mset xs"
proof (induction cost b sel xs io rule: choose_within.induct)
  case (2 cost b sel a actions io)
  then show ?case by (auto intro: subset_mset.order_trans)
qed simp

text \<open>With the largest budgets, nothing is passed over.\<close>

lemma choose_within_all:
  assumes "pb_max_io_bytes b = - 1" "length sel + length xs \<le> unat (pb_max_actions b)"
  shows "choose_within cost b sel xs io = sel @ xs"
  using assms
proof (induction cost b sel xs io rule: choose_within.induct)
  case (2 cost b sel a actions io)
  have "\<not> saturating_add32 io (cost a) > pb_max_io_bytes b" using "2.prems"(1) by (simp add: word_order.extremum_strict not_less)
  with 2 show ?case by simp
qed simp

definition open_gaps :: "Gap list \<Rightarrow> Gap list" where
  "open_gaps gaps = filter (\<lambda>g. \<not> gap_covered g) gaps"

lemma plan_subset: "mset (retrieval_plan gaps goal b) \<subseteq># mset (map (\<lambda>g. score_gap g goal) (open_gaps gaps))"
  unfolding retrieval_plan_def open_gaps_def
  by (rule subset_mset.order_trans [OF choose_within_subset]) simp

lemma score_gap_id [simp]: "ra_gap_id (score_gap g goal) = gap_id g"
  by (simp add: score_gap_def Let_def)

text \<open>
  A plan keeps both budgets: it has no more actions than allowed, and their whole costs, rounded up, sum to no more
  than the allowed amount (unless that is the largest number, which the saturating sum never exceeds); it plans
  open gaps only, and each as often as it is listed.
\<close>

theorem plan_within_budgets:
  assumes "pb_max_io_bytes b \<noteq> - 1"
  shows "length (retrieval_plan gaps goal b) \<le> unat (pb_max_actions b) \<and>
    sum_list (map (unat \<circ> action_cost) (retrieval_plan gaps goal b)) \<le> unat (pb_max_io_bytes b) \<and>
    image_mset ra_gap_id (mset (retrieval_plan gaps goal b)) \<subseteq># mset (map gap_id (open_gaps gaps))"
proof -
  have "image_mset ra_gap_id (mset (retrieval_plan gaps goal b)) \<subseteq>#
      image_mset ra_gap_id (mset (map (\<lambda>g. score_gap g goal) (open_gaps gaps)))"
    using plan_subset by (rule image_mset_subseteq_mono)
  then show ?thesis
    using choose_within_fits [of b 0 action_cost "[]"] assms by (simp add: retrieval_plan_def multiset.map_comp comp_def)
qed

theorem plan_within_budgets_witness:
  "length (retrieval_plan (backward_wave sample_lookup) sample_lookup \<lparr>pb_max_actions = 1, pb_max_io_bytes = 9\<rparr>) \<le> 1"
  using plan_within_budgets [of "\<lparr>pb_max_actions = 1, pb_max_io_bytes = 9\<rparr>"] by (simp del: One_nat_def)

lemma default_plan:
  assumes "length gaps < 2 ^ 64"
  shows "mset (map ra_gap_id (retrieval_plan gaps goal planner_budgets_default)) = mset (map gap_id (open_gaps gaps))"
proof -
  have "unat (- 1 :: u64) = 2 ^ 64 - 1" by (simp add: unsigned_minus_1_eq_mask mask_eq_exp_minus_1)
  moreover have "length (filter (\<lambda>g. \<not> gap_covered g) gaps) \<le> 2 ^ 64 - 1"
    using assms length_filter_le [of "\<lambda>g. \<not> gap_covered g" gaps] by linarith
  moreover have "length (sort_by action_before xs) = length xs" for xs by (metis sort_by_mset size_mset)
  ultimately have "retrieval_plan gaps goal planner_budgets_default =
      sort_by action_before (map (\<lambda>g. score_gap g goal) (filter (\<lambda>g. \<not> gap_covered g) gaps))"
    unfolding retrieval_plan_def
    by (subst choose_within_all) (simp_all add: planner_budgets_default_def)
  then show ?thesis by (simp add: open_gaps_def multiset.map_comp comp_def)
qed

text \<open>
  With the budgets of the default, no open gap is left out of a plan: the plan is a rearrangement of the open gaps.
\<close>

theorem plan_complete:
  assumes "length gaps < 2 ^ 64"
  shows "mset (map ra_gap_id (retrieval_plan gaps goal planner_budgets_default)) = mset (map gap_id (open_gaps gaps))"
  by (rule default_plan [OF assms])

theorem plan_complete_witness:
  "mset (map ra_gap_id (retrieval_plan (backward_wave sample_lookup) sample_lookup planner_budgets_default)) = {#0, 1#}"
proof -
  have "open_gaps (backward_wave sample_lookup) = backward_wave sample_lookup"
    using wave_gaps_all by (simp add: open_gaps_def)
  moreover have "map gap_id (backward_wave sample_lookup) = [0, 1]" "length (backward_wave sample_lookup) < 2 ^ 64"
    by (simp_all add: backward_wave_def wave_makes_def lookup_gaps_def sample_lookup_def goal_new_def entity_as_node_def
        numbered_gaps_def emit_def)
  ultimately show ?thesis using plan_complete [of "backward_wave sample_lookup" sample_lookup] by simp
qed

lemma shard_actions_ok:
  assumes "x \<in> set (shard_actions gaps goal shards a)"
  shows "\<exists>s\<in>set shards. \<exists>g\<in>set gaps. sa_shard_id x = sd_shard_id s \<and> gap_id g = ra_gap_id (sa_action x) \<and> supports_gap s g goal"
proof -
  from assms obtain g where g: "find_gap gaps (ra_gap_id a) = Some g"
    by (cases "find_gap gaps (ra_gap_id a)") (auto simp: shard_actions_def)
  with assms obtain s where s: "s \<in> set shards" "supports_gap s g goal" "x = shard_action goal a s"
    by (auto simp: shard_actions_def)
  from g have "g \<in> set gaps" "gap_id g = ra_gap_id a" by (auto simp: find_gap_def find_Some_iff)
  with s show ?thesis by (auto simp: shard_action_def Let_def)
qed

text \<open>
  A federated plan sends a gap only to a shard that is trusted enough for the goal, serves a domain of it, and returns
  claims with their provenance and not ready text.
\<close>

theorem federated_plan_safe:
  assumes "x \<in> set (plan_federated gaps goal b shards)"
  shows "\<exists>s\<in>set shards. \<exists>g\<in>set gaps. sa_shard_id x = sd_shard_id s \<and> gap_id g = ra_gap_id (sa_action x) \<and>
    sd_trust_level s \<ge> gl_trust_min goal \<and> (gl_domain_mask goal = 0 \<or> sd_domain_mask s AND gl_domain_mask goal \<noteq> 0) \<and>
    is_memoryx_source_payload (sd_payload_contract s)"
proof -
  let ?planned = "concat (map (shard_actions gaps goal shards) (retrieval_plan gaps goal planner_budgets_default))"
  have "mset (plan_federated gaps goal b shards) \<subseteq># mset ?planned"
    using choose_within_subset [of _ b "[]" "sort_by shard_before ?planned"] by (simp add: plan_federated_def Let_def)
  with assms have "x \<in> set ?planned" by (auto dest: mset_subset_eqD)
  then obtain a where "x \<in> set (shard_actions gaps goal shards a)" by auto
  from shard_actions_ok [OF this] show ?thesis by (fastforce simp: supports_gap_def)
qed

theorem federated_plan_safe_witness:
  "\<exists>x. x \<in> set (plan_federated [sample_gap] sample_goal planner_budgets_default [shard_new [1] [] 5000]) \<and>
     sa_shard_id x = [1]"
proof -
  let ?shards = "[shard_new [1] [] 5000]" and ?x = "shard_action sample_goal (score_gap sample_gap sample_goal) (shard_new [1] [] 5000)"
  have plan: "retrieval_plan [sample_gap] sample_goal planner_budgets_default = [score_gap sample_gap sample_goal]"
    by (simp add: retrieval_plan_def sort_by_def sample_gap_def planner_budgets_default_def word_order.extremum_strict unat_gt_0)
  have "shard_actions [sample_gap] sample_goal ?shards (score_gap sample_gap sample_goal) = [?x]"
    by (simp add: shard_actions_def find_gap_def supports_gap_def shard_new_def sample_goal_def goal_new_def
        is_memoryx_source_payload_def memoryx_claim_payload_def)
  then have "?x \<in> set (plan_federated [sample_gap] sample_goal planner_budgets_default ?shards)"
    unfolding plan_federated_def plan Let_def
    by (simp add: sort_by_def planner_budgets_default_def word_order.extremum_strict unat_gt_0)
  from federated_plan_safe [OF this] this show ?thesis by (auto simp: shard_new_def)
qed

end
