(* ===== verification/Query_Solver.thy ===== *)
theory Query_Solver
  imports Query_Planner
begin

text \<open>
  What the solver of \<open>src/query/solver.rs\<close> does to candidates and gaps, apart from its loop over the wall clock: the
  checks of its configuration, the merging of repeated candidates, the filters by constraints and by context, the
  greedy selection with its closure, the pruning, the matching of claims and the reading of edges. What these
  operations read of the state, the goal and the number of the context, is an argument.
\<close>

section \<open>Configuration\<close>

datatype IoMode = IoSync | IoBatchAsync | IoMmap | IoPrefetch

record SolverConfig =
  sf_max_iterations :: u32
  sf_fetch_budget :: u32
  sf_io_budget :: u32
  sf_max_edges :: u32
  sf_max_time_ms :: u64
  sf_max_federated_calls :: u32
  sf_max_context_branches :: u32
  sf_max_coalesce_gap :: u64
  sf_io_mode :: IoMode

definition solver_config_new :: "u32 \<Rightarrow> u32 \<Rightarrow> u32 \<Rightarrow> SolverConfig" where
  "solver_config_new iterations fetch io =
     \<lparr>sf_max_iterations = iterations, sf_fetch_budget = fetch, sf_io_budget = io, sf_max_edges = 8192,
      sf_max_time_ms = 30000, sf_max_federated_calls = 16, sf_max_context_branches = 128,
      sf_max_coalesce_gap = 64 * 1024, sf_io_mode = IoMmap\<rparr>"

definition solver_config_default :: SolverConfig where
  "solver_config_default =
     \<lparr>sf_max_iterations = 10, sf_fetch_budget = 128, sf_io_budget = 256 * 1024, sf_max_edges = 8192,
      sf_max_time_ms = 30000, sf_max_federated_calls = 16, sf_max_context_branches = 128,
      sf_max_coalesce_gap = 64 * 1024, sf_io_mode = IoMmap\<rparr>"

definition config_with_io_mode :: "IoMode \<Rightarrow> SolverConfig \<Rightarrow> SolverConfig" where
  "config_with_io_mode m c = c\<lparr>sf_io_mode := m\<rparr>"
definition config_with_coalesce_gap :: "u64 \<Rightarrow> SolverConfig \<Rightarrow> SolverConfig" where
  "config_with_coalesce_gap n c = c\<lparr>sf_max_coalesce_gap := n\<rparr>"

datatype SolverError =
    InvalidConfig string | BudgetExceeded | MaxIterationsReached | CasFailure str | GraphFailure str | VmFailure str
  | ContextFailure str

definition config_validate :: "SolverConfig \<Rightarrow> SolverError + unit" where
  "config_validate c =
     (if sf_max_iterations c = 0 then Inl (InvalidConfig ''max_iterations must be > 0'')
      else if sf_fetch_budget c > 65536 then Inl (InvalidConfig ''fetch_budget must be <= 65536'')
      else if sf_max_edges c > 262144 then Inl (InvalidConfig ''max_edges must be <= 262144'')
      else if sf_max_time_ms c > 300000 then Inl (InvalidConfig ''max_time_ms must be <= 300000'')
      else if sf_max_federated_calls c > 128 then Inl (InvalidConfig ''max_federated_calls must be <= 128'')
      else if sf_max_context_branches c > 65536 then Inl (InvalidConfig ''max_context_branches must be <= 65536'')
      else Inr ())"

section \<open>Gaps\<close>

definition uncovered_gap_ids :: "Gap list \<Rightarrow> GapId list" where
  "uncovered_gap_ids gaps = map gap_id (filter (\<lambda>g. \<not> gap_covered g) gaps)"

definition all_gaps_covered :: "Gap list \<Rightarrow> bool" where
  "all_gaps_covered gaps = list_all gap_covered gaps"

definition covered_count :: "Gap list \<Rightarrow> nat" where
  "covered_count gaps = length (filter gap_covered gaps)"

section \<open>Ratios\<close>

text \<open>The solver looks a gap up by its number as an index.\<close>

definition indexed_gaps :: "Gap list \<Rightarrow> GapId list \<Rightarrow> Gap list" where
  "indexed_gaps gaps ids = List.map_filter (\<lambda>i. nth_opt gaps (unat i)) ids"

definition trust_inverse :: "TrustLevel \<Rightarrow> fnum" where
  "trust_inverse t =
     (if t > 0 then f_div binary64 (f_lit binary64 1 1) (f_div binary64 (f64_of t) (f_lit binary64 10000 1))
      else f_lit binary64 10 1)"

definition candidate_cost :: "CostWeights \<Rightarrow> Candidate \<Rightarrow> fnum" where
  "candidate_cost w c =
     foldl (f_add binary64) (f_mul binary64 (f64_of (ca_estimated_io_bytes c)) (w_IO w))
       [f_mul binary64 (w_T w) (trust_inverse (ca_trust c)), f_mul binary64 (w_C w) (f64_of (ca_hard_conflicts c)),
        f_mul binary64 (w_S w) (f64_of (ca_soft_conflicts c)), f_lit binary64 1 1]"

definition candidate_ratio :: "Gap list \<Rightarrow> CostWeights \<Rightarrow> Candidate \<Rightarrow> fnum" where
  "candidate_ratio gaps w c =
     (let benefit = f_sum (map (\<lambda>g. gap_benefit (gap_priority g)) (indexed_gaps gaps (ca_covers_gaps c)));
          cost = candidate_cost w c
      in if f_lt fzero cost then f_div binary64 benefit cost else Finf False)"

record LegacyCandidate =
  lc_atom_id :: AtomId
  lc_node_num :: NodeNum
  lc_atom_type :: AtomType
  lc_trust :: TrustLevel
  lc_estimated_io_bytes :: u32
  lc_source_priority :: u8
  lc_covers_gaps :: "GapId list"

definition legacy_ratio :: "Gap list \<Rightarrow> LegacyCandidate \<Rightarrow> fnum" where
  "legacy_ratio gaps c =
     (let benefit = f_sum (map (\<lambda>g. f64_of (gap_priority g)) (indexed_gaps gaps (lc_covers_gaps c)));
          cost = f_add binary64 (f64_of (lc_estimated_io_bytes c))
            (f_mul binary64 (f_div binary64 (f_lit binary64 1 1) (f64_of (max (lc_trust c) 1))) (f_lit binary64 100 1))
      in if f_lt fzero cost then f_div binary64 benefit cost else Finf False)"

definition legacy_candidate :: "Candidate \<Rightarrow> LegacyCandidate" where
  "legacy_candidate c =
     \<lparr>lc_atom_id = ca_atom_id c, lc_node_num = ca_node_num c, lc_atom_type = ca_atom_type c, lc_trust = ca_trust c,
      lc_estimated_io_bytes = ca_estimated_io_bytes c, lc_source_priority = source_priority_as_u8 (ca_source_priority c),
      lc_covers_gaps = ca_covers_gaps c\<rparr>"

definition legacy_route :: "Gap \<Rightarrow> GoalSpec \<Rightarrow> LegacyCandidate list run" where
  "legacy_route gap goal = bind_res (route gap goal router_new) (\<lambda>cs. Ok (map legacy_candidate cs))"

section \<open>Merging repeated candidates\<close>

text \<open>The first candidate of an atom and branch keeps its place; later ones add their gaps and evidence to it, and make it
  stricter.\<close>

definition same_evidence :: "EvidenceRef \<Rightarrow> EvidenceRef \<Rightarrow> bool" where
  "same_evidence a b \<longleftrightarrow>
     er_atom_id a = er_atom_id b \<and> er_offset a = er_offset b \<and> er_section_kind a = er_section_kind b"

definition add_evidence :: "EvidenceRef \<Rightarrow> EvidenceRef list \<Rightarrow> EvidenceRef list" where
  "add_evidence e es = (if list_ex (\<lambda>x. same_evidence x e) es then es else es @ [e])"

definition sort_dedup_gaps :: "GapId list \<Rightarrow> GapId list" where
  "sort_dedup_gaps gs = remdups_adj (sort gs)"

definition absorb :: "Candidate \<Rightarrow> Candidate \<Rightarrow> Candidate" where
  "absorb existing c =
     existing\<lparr>ca_covers_gaps := sort_dedup_gaps (ca_covers_gaps existing @ ca_covers_gaps c),
       ca_requires_invariant_check := (ca_requires_invariant_check existing \<or> ca_requires_invariant_check c),
       ca_ann_requires_filtering := (ca_ann_requires_filtering existing \<or> ca_ann_requires_filtering c),
       ca_trust := min (ca_trust existing) (ca_trust c),
       ca_estimated_io_bytes := max (ca_estimated_io_bytes existing) (ca_estimated_io_bytes c),
       ca_hard_conflicts := max (ca_hard_conflicts existing) (ca_hard_conflicts c),
       ca_soft_conflicts := max (ca_soft_conflicts existing) (ca_soft_conflicts c),
       ca_evidence_refs := fold add_evidence (ca_evidence_refs c) (ca_evidence_refs existing)\<rparr>"

type_synonym candidate_key = "AtomId \<times> CtxId option"

definition candidate_key :: "Candidate \<Rightarrow> candidate_key" where
  "candidate_key c = (ca_atom_id c, ca_branch_ctx_id c)"

definition merge_step :: "Candidate \<Rightarrow> Candidate list \<times> (candidate_key, nat) hmap \<Rightarrow>
    Candidate list \<times> (candidate_key, nat) hmap" where
  "merge_step c = (\<lambda>(merged, positions).
     let c = c\<lparr>ca_covers_gaps := sort_dedup_gaps (ca_covers_gaps c)\<rparr>
     in case map_of positions (candidate_key c) of
          Some i \<Rightarrow> (merged[i := absorb (merged ! i) c], positions)
        | None \<Rightarrow> (merged @ [c], AList.update (candidate_key c) (length merged) positions))"

definition merge_duplicate_candidates :: "Candidate list \<Rightarrow> Candidate list" where
  "merge_duplicate_candidates cs = fst (fold merge_step cs ([], []))"

section \<open>Filters\<close>

record RejectedCandidateSummary =
  rj_candidate_ref :: "str option"
  rj_atom_id :: "AtomId option"
  rj_node_num :: "NodeNum option"
  rj_source_backend :: str
  rj_reason :: str
  rj_constraint_results :: "ConstraintResult list"

definition strip_prefix :: "str \<Rightarrow> str \<Rightarrow> str option" where
  "strip_prefix p s = (if take (length p) s = p then Some (drop (length p) s) else None)"

definition names_branch :: "CtxId \<Rightarrow> str \<Rightarrow> bool" where
  "names_branch branch_ctx_id branch \<longleftrightarrow>
     Option.bind (strip_prefix (utf8 ''ctx:'') branch) Query_Contract.parse_u32 = Some branch_ctx_id"

definition context_scope_rejection :: "GoalSpec \<Rightarrow> CtxId \<Rightarrow> Candidate \<Rightarrow> RejectedCandidateSummary option" where
  "context_scope_rejection goal ctx_id c =
     (let scope = gl_context_scope goal
      in if cs_include_conflicting_branches scope then None
         else case ca_branch_ctx_id c of
             None \<Rightarrow> None
           | Some branch_ctx_id \<Rightarrow>
               if list_ex (names_branch branch_ctx_id) (cs_branch_ids scope)
                  \<or> CtxActive \<in> set (cs_selectors scope) \<and> branch_ctx_id = ctx_id
               then None
               else Some
                 \<lparr>rj_candidate_ref = Some (hex_encode (ca_atom_id c)), rj_atom_id = Some (ca_atom_id c),
                  rj_node_num = Some (ca_node_num c), rj_source_backend = backend_as_str (ca_source_backend c),
                  rj_reason = utf8 (''context branch ctx:'' @ dec (unat branch_ctx_id) @ '' is blocked by context scope''),
                  rj_constraint_results =
                    [\<lparr>cr_constraint_id = utf8 ''__context_branch_policy'', cr_status = BlockedByPolicy,
                      cr_reason = Some (utf8 ''conflicting branches are disabled for this query''),
                      cr_candidate_ref = Some (hex_encode (ca_atom_id c)), cr_evidence_refs = []\<rparr>]\<rparr>)"

text \<open>A loop that puts every candidate into one of two lists.\<close>

definition judge_all :: "(Candidate \<Rightarrow> RejectedCandidateSummary option) \<Rightarrow> Candidate list \<Rightarrow>
    Candidate list \<times> RejectedCandidateSummary list" where
  "judge_all judge cs =
     fold (\<lambda>c (admitted, rejected).
       case judge c of None \<Rightarrow> (admitted @ [c], rejected) | Some r \<Rightarrow> (admitted, rejected @ [r])) cs ([], [])"

definition filter_by_context_scope :: "GoalSpec \<Rightarrow> CtxId \<Rightarrow> Candidate list \<Rightarrow>
    Candidate list \<times> RejectedCandidateSummary list" where
  "filter_by_context_scope goal ctx_id cs = judge_all (context_scope_rejection goal ctx_id) cs"

definition blocking_results :: "Texts \<Rightarrow> Constraint list \<Rightarrow> Candidate \<Rightarrow> ConstraintResult list" where
  "blocking_results tx constraints c =
     (let results = map (\<lambda>x. evaluate_constraint tx x (candidate_subject c)) constraints
      in map snd (filter (\<lambda>(x, r). \<not> is_should (cn_strength x) \<and> cr_status r \<noteq> Satisfied) (zip constraints results)))"

definition contract_rejection :: "Texts \<Rightarrow> GoalSpec \<Rightarrow> CtxId \<Rightarrow> Candidate \<Rightarrow> RejectedCandidateSummary option" where
  "contract_rejection tx goal ctx_id c =
     (case context_scope_rejection goal ctx_id c of
        Some r \<Rightarrow> Some r
      | None \<Rightarrow>
          let blocking = blocking_results tx (gl_constraints goal) c
          in if blocking = [] then None
             else Some
               \<lparr>rj_candidate_ref = Some (hex_encode (ca_atom_id c)), rj_atom_id = Some (ca_atom_id c),
                rj_node_num = Some (ca_node_num c), rj_source_backend = backend_as_str (ca_source_backend c),
                rj_reason = utf8 ''query contract hard constraint was not satisfied'', rj_constraint_results = blocking\<rparr>)"

definition filter_by_contract_constraints :: "Texts \<Rightarrow> GoalSpec \<Rightarrow> CtxId \<Rightarrow> Candidate list \<Rightarrow>
    Candidate list \<times> RejectedCandidateSummary list" where
  "filter_by_contract_constraints tx goal ctx_id cs =
     (if gl_constraints goal = [] then filter_by_context_scope goal ctx_id cs
      else judge_all (contract_rejection tx goal ctx_id) cs)"

text \<open>The candidates of the last iteration.\<close>

primrec route_gaps :: "Gap list \<Rightarrow> GoalSpec \<Rightarrow> QueryRouter \<Rightarrow> Candidate list run" where
  "route_gaps [] goal r = Ok []"
| "route_gaps (gap # gaps) goal r =
     bind_res (route gap goal r) (\<lambda>routed.
     bind_res (route_gaps gaps goal r) (\<lambda>rest.
     Ok (map (\<lambda>c. c\<lparr>ca_covers_gaps := ca_covers_gaps c @ [gap_id gap]\<rparr>) routed @ rest)))"

definition collect_final_candidates :: "Texts \<Rightarrow> Gap list \<Rightarrow> GoalSpec \<Rightarrow> CtxId \<Rightarrow> QueryRouter \<Rightarrow> Candidate list run" where
  "collect_final_candidates tx gaps goal ctx_id r =
     bind_res (route_gaps gaps goal r) (\<lambda>cs.
       Ok (fst (filter_by_contract_constraints tx goal ctx_id (merge_duplicate_candidates cs))))"

section \<open>Claims against gaps\<close>

definition pattern_ref_matches :: "PatternRef \<Rightarrow> u64 \<Rightarrow> bool" where
  "pattern_ref_matches p v =
     (case p of
        PAny \<Rightarrow> True
      | PSym s \<Rightarrow> ucast s = v
      | PNode n \<Rightarrow> n = v
      | PRange lo hi \<Rightarrow> unat v < 2 ^ 63 \<and> sint lo \<le> int (unat v) \<and> int (unat v) \<le> sint hi
      | PSet vs \<Rightarrow> list_ex (\<lambda>s. ucast s = v) vs)"

definition claim_matches_gap_pattern :: "ClaimData \<Rightarrow> ClaimPattern \<Rightarrow> bool" where
  "claim_matches_gap_pattern c p =
     (if (case cp_obj_tag p of None \<Rightarrow> False | Some t \<Rightarrow> cd_obj_tag c \<noteq> obj_tag_to_u8 t) then False
      else if cp_qualifiers_mask p \<noteq> 0 \<and> cd_qualifiers_mask c AND cp_qualifiers_mask p \<noteq> cp_qualifiers_mask p then False
      else pattern_ref_matches (cp_subj p) (cd_subj c) \<and> pattern_ref_matches (cp_pred p) (cd_pred c)
        \<and> pattern_ref_matches (cp_obj p) (cd_obj_val c))"

section \<open>The filters\<close>

text \<open>A candidate is admitted when it lies in a context the goal can see and every constraint that is not a mere wish
  has a value that holds.\<close>

definition branch_visible :: "GoalSpec \<Rightarrow> CtxId \<Rightarrow> Candidate \<Rightarrow> bool" where
  "branch_visible goal ctx_id c \<longleftrightarrow>
     cs_include_conflicting_branches (gl_context_scope goal) \<or>
     (\<forall>b. ca_branch_ctx_id c = Some b \<longrightarrow>
        (\<exists>name\<in>set (cs_branch_ids (gl_context_scope goal)). names_branch b name) \<or>
        CtxActive \<in> set (cs_selectors (gl_context_scope goal)) \<and> b = ctx_id)"

definition admissible :: "Texts \<Rightarrow> GoalSpec \<Rightarrow> CtxId \<Rightarrow> Candidate \<Rightarrow> bool" where
  "admissible tx goal ctx_id c \<longleftrightarrow>
     branch_visible goal ctx_id c \<and>
     (\<forall>x\<in>set (gl_constraints goal). is_should (cn_strength x) \<or>
        (\<exists>v. candidate_value c (cn_target x) = Some v \<and> constraint_holds tx x v))"

lemma judge_all_eq: "judge_all judge cs = (filter (\<lambda>c. judge c = None) cs, List.map_filter judge cs)"
proof -
  have "fold (\<lambda>c (admitted, rejected). case judge c of None \<Rightarrow> (admitted @ [c], rejected) | Some r \<Rightarrow> (admitted, rejected @ [r])) cs (as, rs)
      = (as @ filter (\<lambda>c. judge c = None) cs, rs @ List.map_filter judge cs)" for as rs
    by (induction cs arbitrary: as rs) (auto simp: List.map_filter_simps split: option.split)
  then show ?thesis by (simp add: judge_all_def)
qed

lemma context_rejection_iff: "context_scope_rejection goal ctx_id c = None \<longleftrightarrow> branch_visible goal ctx_id c"
  by (auto simp: context_scope_rejection_def branch_visible_def Let_def list_ex_iff split: option.split)

lemma blocking_results_Nil:
  "blocking_results tx xs c = [] \<longleftrightarrow>
     (\<forall>x\<in>set xs. is_should (cn_strength x) \<or> (\<exists>v. candidate_value c (cn_target x) = Some v \<and> constraint_holds tx x v))"
  by (auto simp: blocking_results_def Let_def filter_empty_conv zip_map2 zip_same_conv_map evaluate_status
      candidate_subject_def split: option.splits if_splits)

lemma contract_rejection_iff: "contract_rejection tx goal ctx_id c = None \<longleftrightarrow> admissible tx goal ctx_id c"
  using context_rejection_iff [of goal ctx_id c] blocking_results_Nil [of tx "gl_constraints goal" c]
  by (auto simp: contract_rejection_def admissible_def Let_def split: option.split)

lemma no_constraints_admissible: "gl_constraints goal = [] \<Longrightarrow> admissible tx goal ctx_id c \<longleftrightarrow> branch_visible goal ctx_id c"
  by (simp add: admissible_def)

lemma contract_filter_eq:
  "filter_by_contract_constraints tx goal ctx_id cs =
     (filter (admissible tx goal ctx_id) cs, List.map_filter (contract_rejection tx goal ctx_id) cs)"
proof (cases "gl_constraints goal = []")
  case True
  then have "contract_rejection tx goal ctx_id = context_scope_rejection goal ctx_id"
    by (auto simp: contract_rejection_def blocking_results_def Let_def fun_eq_iff split: option.split)
  moreover have "admissible tx goal ctx_id = branch_visible goal ctx_id"
    using no_constraints_admissible [OF True] by (simp add: fun_eq_iff)
  ultimately show ?thesis
    using True by (simp add: filter_by_contract_constraints_def filter_by_context_scope_def judge_all_eq context_rejection_iff)
qed (simp add: filter_by_contract_constraints_def judge_all_eq contract_rejection_iff)

text \<open>Every candidate that is not admitted is reported.\<close>

lemma rejection_atom: "contract_rejection tx goal ctx_id c = Some r \<Longrightarrow> rj_atom_id r = Some (ca_atom_id c)"
  by (auto simp: contract_rejection_def context_scope_rejection_def Let_def split: option.splits if_splits)

lemma rejections_report:
  "map rj_atom_id (List.map_filter (contract_rejection tx goal ctx_id) cs) =
     map (\<lambda>c. Some (ca_atom_id c)) (filter (\<lambda>c. \<not> admissible tx goal ctx_id c) cs)"
  by (induction cs) (auto simp: List.map_filter_simps contract_rejection_iff rejection_atom
      simp flip: contract_rejection_iff split: option.split)

section \<open>The merge\<close>

lemma remdups_adj_strict: "sorted xs \<Longrightarrow> sorted_wrt (<) (remdups_adj (xs :: GapId list))"
  by (induction xs rule: remdups_adj.induct) (auto simp: le_less)

lemma sort_dedup_gaps_spec [simp]: "sorted_wrt (<) (sort_dedup_gaps gs)" "set (sort_dedup_gaps gs) = set gs"
  by (simp_all add: sort_dedup_gaps_def remdups_adj_strict)

lemma absorb_fields [simp]:
  "candidate_key (absorb m c) = candidate_key m" "ca_age_ns (absorb m c) = ca_age_ns m"
  "ca_covers_gaps (absorb m c) = sort_dedup_gaps (ca_covers_gaps m @ ca_covers_gaps c)"
  "ca_requires_invariant_check (absorb m c) = (ca_requires_invariant_check m \<or> ca_requires_invariant_check c)"
  "ca_ann_requires_filtering (absorb m c) = (ca_ann_requires_filtering m \<or> ca_ann_requires_filtering c)"
  "ca_trust (absorb m c) = min (ca_trust m) (ca_trust c)"
  "ca_estimated_io_bytes (absorb m c) = max (ca_estimated_io_bytes m) (ca_estimated_io_bytes c)"
  "ca_hard_conflicts (absorb m c) = max (ca_hard_conflicts m) (ca_hard_conflicts c)"
  "ca_soft_conflicts (absorb m c) = max (ca_soft_conflicts m) (ca_soft_conflicts c)"
  "ca_evidence_refs (absorb m c) = fold add_evidence (ca_evidence_refs c) (ca_evidence_refs m)"
  by (simp_all add: absorb_def candidate_key_def)

lemma same_evidence_refl [simp]: "same_evidence e e"
  by (simp add: same_evidence_def)

lemma add_evidence_keeps: "set es \<subseteq> set (add_evidence e es)" "\<exists>x\<in>set (add_evidence e es). same_evidence x e"
  by (auto simp: add_evidence_def list_ex_iff)

lemma add_all_evidence_keeps: "set es \<subseteq> set (fold add_evidence xs es)"
  by (induction xs arbitrary: es) (use add_evidence_keeps(1) in \<open>force simp: subset_iff\<close>)+

lemma add_all_evidence: "e \<in> set xs \<Longrightarrow> \<exists>x\<in>set (fold add_evidence xs es). same_evidence x e"
proof (induction xs arbitrary: es)
  case (Cons y xs)
  obtain x where x: "x \<in> set (add_evidence y es)" "same_evidence x y" using add_evidence_keeps(2) by blast
  then have "x \<in> set (fold add_evidence (y # xs) es)" using add_all_evidence_keeps [of "add_evidence y es" xs] by auto
  with x(2) Cons show ?case by (cases "e = y") auto
qed simp

definition covers_evidence :: "Candidate \<Rightarrow> Candidate \<Rightarrow> bool" where
  "covers_evidence m c \<longleftrightarrow> (\<forall>e\<in>set (ca_evidence_refs c). \<exists>e'\<in>set (ca_evidence_refs m). same_evidence e' e)"

lemma covers_evidence_absorb [simp]:
  "covers_evidence m d \<Longrightarrow> covers_evidence (absorb m c) d" "covers_evidence (absorb m c) c" "covers_evidence m m"
proof -
  show "covers_evidence m d \<Longrightarrow> covers_evidence (absorb m c) d"
    using add_all_evidence_keeps [of "ca_evidence_refs m" "ca_evidence_refs c"] by (fastforce simp: covers_evidence_def)
qed (auto simp: covers_evidence_def add_all_evidence intro: same_evidence_refl)

definition strictest :: "Candidate \<Rightarrow> Candidate \<Rightarrow> bool" where
  "strictest m c \<longleftrightarrow>
     ca_trust m \<le> ca_trust c \<and> ca_estimated_io_bytes c \<le> ca_estimated_io_bytes m \<and>
     ca_hard_conflicts c \<le> ca_hard_conflicts m \<and> ca_soft_conflicts c \<le> ca_soft_conflicts m"

lemma strictest_absorb [simp]:
  "strictest m d \<Longrightarrow> strictest (absorb m c) d" "strictest (absorb m c) c" "strictest m m"
  by (auto simp: strictest_def intro: min.coboundedI1 max.coboundedI1)

text \<open>What one merged candidate says of the candidates with its atom and branch.\<close>

definition summarises :: "Candidate set \<Rightarrow> Candidate \<Rightarrow> bool" where
  "summarises cs m \<longleftrightarrow>
     sorted_wrt (<) (ca_covers_gaps m) \<and> set (ca_covers_gaps m) = (\<Union>c\<in>cs. set (ca_covers_gaps c)) \<and>
     ca_requires_invariant_check m = (\<exists>c\<in>cs. ca_requires_invariant_check c) \<and>
     ca_ann_requires_filtering m = (\<exists>c\<in>cs. ca_ann_requires_filtering c) \<and>
     ca_trust m \<in> ca_trust ` cs \<and> ca_age_ns m \<in> ca_age_ns ` cs \<and>
     (\<forall>c\<in>cs. strictest m c \<and> covers_evidence m c)"

definition tidy :: "Candidate \<Rightarrow> Candidate" where
  "tidy c = c\<lparr>ca_covers_gaps := sort_dedup_gaps (ca_covers_gaps c)\<rparr>"

lemma tidy_fields [simp]:
  "candidate_key (tidy c) = candidate_key c" "ca_age_ns (tidy c) = ca_age_ns c"
  "ca_covers_gaps (tidy c) = sort_dedup_gaps (ca_covers_gaps c)"
  "ca_requires_invariant_check (tidy c) = ca_requires_invariant_check c"
  "ca_ann_requires_filtering (tidy c) = ca_ann_requires_filtering c" "ca_trust (tidy c) = ca_trust c"
  "strictest m (tidy c) = strictest m c" "covers_evidence m (tidy c) = covers_evidence m c"
  "strictest (tidy c) c" "covers_evidence (tidy c) c"
  by (auto simp: tidy_def candidate_key_def strictest_def covers_evidence_def intro: same_evidence_refl)

lemma absorb_summarises:
  assumes "summarises cs m"
  shows "summarises (insert c cs) (absorb m (tidy c))"
proof -
  have own: "strictest (absorb m (tidy c)) c" "covers_evidence (absorb m (tidy c)) c"
    using strictest_absorb(2) [of m "tidy c"] covers_evidence_absorb(2) [of m "tidy c"] by simp_all
  have "ca_trust m \<in> ca_trust ` cs" using assms by (simp add: summarises_def)
  then have "min (ca_trust m) (ca_trust c) \<in> ca_trust ` insert c cs" by (auto simp: min_def)
  with assms own show ?thesis by (auto simp: summarises_def)
qed

lemma single_summarises: "summarises {c} (tidy c)"
  by (simp add: summarises_def)

definition merge_inv :: "Candidate list \<Rightarrow> Candidate list \<times> (candidate_key, nat) hmap \<Rightarrow> bool" where
  "merge_inv seen = (\<lambda>(merged, positions).
     (\<forall>k i. map_of positions k = Some i \<longleftrightarrow> i < length merged \<and> candidate_key (merged ! i) = k) \<and>
     (\<forall>m\<in>set merged. summarises {c\<in>set seen. candidate_key c = candidate_key m} m) \<and>
     candidate_key ` set merged = candidate_key ` set seen)"

lemma merge_step_inv:
  assumes "merge_inv seen s" shows "merge_inv (seen @ [c]) (merge_step c s)"
proof (cases s)
  case (Pair merged positions)
  from assms have pos: "\<And>k i. map_of positions k = Some i \<longleftrightarrow> i < length merged \<and> candidate_key (merged ! i) = k"
    and sum: "\<And>m. m \<in> set merged \<Longrightarrow> summarises {c\<in>set seen. candidate_key c = candidate_key m} m"
    and keys: "candidate_key ` set merged = candidate_key ` set seen" by (auto simp: merge_inv_def Pair)
  have others: "{d\<in>set (seen @ [c]). candidate_key d = k} = {d\<in>set seen. candidate_key d = k}" if "k \<noteq> candidate_key c" for k
    using that by auto
  have own: "{d\<in>set (seen @ [c]). candidate_key d = candidate_key c} = insert c {d\<in>set seen. candidate_key d = candidate_key c}"
    by auto
  show ?thesis
  proof (cases "map_of positions (candidate_key c)")
    case None
    then have new: "candidate_key c \<notin> candidate_key ` set merged" using pos by (metis imageE in_set_conv_nth option.distinct(1))
    then have none: "{d\<in>set seen. candidate_key d = candidate_key c} = {}"
      unfolding keys by (metis (mono_tags, lifting) Collect_empty_eq imageI)
    then have "summarises {d\<in>set (seen @ [c]). candidate_key d = candidate_key (tidy c)} (tidy c)"
      unfolding tidy_fields own none by (simp add: single_summarises)
    moreover have "summarises {d\<in>set (seen @ [c]). candidate_key d = candidate_key m} m" if "m \<in> set merged" for m
    proof -
      have "candidate_key m \<noteq> candidate_key c" using that new by (metis imageI)
      from others [OF this] sum [OF that] show ?thesis by simp
    qed
    moreover have "map_of (AList.update (candidate_key c) (length merged) positions) k = Some i \<longleftrightarrow>
        i < length (merged @ [tidy c]) \<and> candidate_key ((merged @ [tidy c]) ! i) = k" for k i
      using pos [of k i] None pos [of "candidate_key c" i] by (auto simp: nth_append less_Suc_eq)
    moreover have step: "merge_step c s = (merged @ [tidy c], AList.update (candidate_key c) (length merged) positions)"
      using None by (simp add: merge_step_def Pair Let_def flip: tidy_def)
    ultimately show ?thesis using keys unfolding merge_inv_def step prod.case by simp
  next
    case (Some i)
    then have i: "i < length merged" "candidate_key (merged ! i) = candidate_key c" using pos by blast+
    let ?m = "absorb (merged ! i) (tidy c)"
    have unique: "j = i" if "j < length merged" "candidate_key (merged ! j) = candidate_key c" for j
      using pos [of "candidate_key c" j] that Some by simp
    have new: "summarises {d\<in>set (seen @ [c]). candidate_key d = candidate_key ?m} ?m"
      unfolding absorb_fields i(2) own using absorb_summarises [OF sum [OF nth_mem [OF i(1)]], of c] i(2) by simp
    have old: "summarises {d\<in>set (seen @ [c]). candidate_key d = candidate_key m} m"
      if "m \<in> set (merged[i := ?m])" "m \<noteq> ?m" for m
    proof -
      from that(1) obtain j where j: "j < length merged" "m = merged[i := ?m] ! j" by (metis in_set_conv_nth length_list_update)
      with that(2) i(1) have ne: "j \<noteq> i" by auto
      with j(2) have m: "m = merged ! j" by simp
      with unique [OF j(1)] ne have "candidate_key m \<noteq> candidate_key c" by blast
      from others [OF this] sum [of m] j(1) m show ?thesis by simp
    qed
    have "map candidate_key (merged[i := ?m]) = map candidate_key merged"
      using i(1) by (simp add: map_update list_update_same_conv)
    then have image: "candidate_key ` set (merged[i := ?m]) = candidate_key ` set merged" by (metis list.set_map)
    have known: "candidate_key c \<in> candidate_key ` set seen" using keys i by (metis image_eqI nth_mem)
    have same: "candidate_key (merged[i := ?m] ! j) = candidate_key (merged ! j)" if "j < length merged" for j
      using that i(1) by (simp add: nth_list_update)
    have step: "merge_step c s = (merged[i := ?m], positions)"
      using Some by (simp add: merge_step_def Pair Let_def flip: tidy_def)
    show ?thesis
      unfolding merge_inv_def step prod.case
    proof (intro conjI allI ballI)
      fix k j
      show "map_of positions k = Some j \<longleftrightarrow> j < length (merged[i := ?m]) \<and> candidate_key (merged[i := ?m] ! j) = k"
        using pos [of k j] same [of j] by auto
    next
      fix m assume m: "m \<in> set (merged[i := ?m])"
      show "summarises {d\<in>set (seen @ [c]). candidate_key d = candidate_key m} m"
      proof (cases "m = ?m")
        case True
        with new show ?thesis by metis
      qed (rule old [OF m])
    next
      show "candidate_key ` set (merged[i := ?m]) = candidate_key ` set (seen @ [c])" using image keys known by auto
    qed
  qed
qed

lemma merge_fold_inv: "merge_inv seen s \<Longrightarrow> merge_inv (seen @ cs) (fold merge_step cs s)"
proof (induction cs arbitrary: seen s)
  case (Cons c cs)
  from Cons.IH [OF merge_step_inv [OF Cons.prems, of c]] show ?case by simp
qed simp

lemma merge_spec:
  "distinct (map candidate_key (merge_duplicate_candidates cs))"
  "candidate_key ` set (merge_duplicate_candidates cs) = candidate_key ` set cs"
  "m \<in> set (merge_duplicate_candidates cs) \<Longrightarrow> summarises {c\<in>set cs. candidate_key c = candidate_key m} m"
proof -
  obtain merged positions where s: "fold merge_step cs ([], []) = (merged, positions)" by fastforce
  have "merge_inv [] ([], [])" by (simp add: merge_inv_def)
  from merge_fold_inv [OF this, of cs] have inv: "merge_inv cs (merged, positions)" by (simp add: s)
  then have pos: "map_of positions (candidate_key (merged ! i)) = Some i" if "i < length merged" for i
    using that unfolding merge_inv_def prod.case by blast
  have "candidate_key (merged ! i) \<noteq> candidate_key (merged ! j)" if "i < length merged" "j < length merged" "i \<noteq> j" for i j
    using pos [OF that(1)] pos [OF that(2)] that(3) by auto
  then have "distinct (map candidate_key merged)" by (simp add: distinct_conv_nth)
  then show "distinct (map candidate_key (merge_duplicate_candidates cs))" by (simp add: merge_duplicate_candidates_def s)
  show "candidate_key ` set (merge_duplicate_candidates cs) = candidate_key ` set cs"
    using inv by (simp add: merge_duplicate_candidates_def s merge_inv_def)
  show "m \<in> set (merge_duplicate_candidates cs) \<Longrightarrow> summarises {c\<in>set cs. candidate_key c = candidate_key m} m"
    using inv by (simp add: merge_duplicate_candidates_def s merge_inv_def)
qed

section \<open>The candidates of the last iteration\<close>

text \<open>
  The candidates of the last iteration are what merging the routed ones gives, less those that are not admissible:
  each atom and branch occurs once; a merged candidate names exactly the gaps its copies were routed for, is checked and
  filtered again as soon as one of them is, is trusted as the least trusted one, costs and conflicts as the worst one,
  and carries the evidence of all.
\<close>

theorem final_candidates:
  assumes "route_gaps gaps goal r = Ok cs"
  shows "\<exists>ms. collect_final_candidates tx gaps goal ctx_id r = Ok (filter (admissible tx goal ctx_id) ms) \<and>
    distinct (map candidate_key ms) \<and> candidate_key ` set ms = candidate_key ` set cs \<and>
    (\<forall>m\<in>set ms. summarises {c\<in>set cs. candidate_key c = candidate_key m} m)"
  using assms merge_spec(1,2) [of cs] merge_spec(3) [of _ cs] by (auto simp: collect_final_candidates_def contract_filter_eq)

lemma sample_route_gaps:
  "map_res id (map (\<lambda>c. (ca_atom_id c, ca_covers_gaps c))) (route_gaps [sample_gap, sample_gap] sample_goal sample_router) =
     Ok [([7], [1, 1]), ([9], [1, 1]), ([7], [1, 1]), ([9], [1, 1])]"
  by code_simp

theorem final_candidates_witness:
  "\<forall>tx. \<exists>cs ms. route_gaps [sample_gap, sample_gap] sample_goal sample_router = Ok cs \<and> length cs = 4 \<and>
     collect_final_candidates tx [sample_gap, sample_gap] sample_goal 0 sample_router =
       Ok (filter (admissible tx sample_goal 0) ms) \<and>
     distinct (map candidate_key ms) \<and> (\<forall>m\<in>set ms. summarises {c\<in>set cs. candidate_key c = candidate_key m} m)"
proof -
  obtain cs where cs: "route_gaps [sample_gap, sample_gap] sample_goal sample_router = Ok cs"
    "map (\<lambda>c. (ca_atom_id c, ca_covers_gaps c)) cs = [([7], [1, 1]), ([9], [1, 1]), ([7], [1, 1]), ([9], [1, 1])]"
    using sample_route_gaps by (cases "route_gaps [sample_gap, sample_gap] sample_goal sample_router") auto
  from cs(2) have "length cs = 4" by (auto simp: map_eq_Cons_conv)
  with final_candidates [OF cs(1)] cs(1) show ?thesis by blast
qed

text \<open>No candidate has an age, so nothing is known of its time.\<close>

lemma route_gaps_no_age: "route_gaps gaps goal r = Ok cs \<Longrightarrow> c \<in> set cs \<Longrightarrow> ca_age_ns c = 0"
  by (induction gaps arbitrary: cs) (auto dest!: route_offers simp: routed_def)

lemma merged_no_age:
  assumes "\<forall>c\<in>set cs. ca_age_ns c = 0" "m \<in> set (merge_duplicate_candidates cs)" shows "ca_age_ns m = 0"
  using merge_spec(3) [OF assms(2)] assms(1) by (auto simp: summarises_def)

lemma timed_constraint_blocks:
  assumes "x \<in> set (gl_constraints goal)" "cn_target x = TgTime" "cn_strength x = Must" "ca_age_ns c = 0"
  shows "\<not> admissible tx goal ctx_id c"
  using assms by (auto simp: admissible_def candidate_value_def is_should_def intro!: bexI [of _ x])

lemma temporal_constraints_timed: "x \<in> set (temporal_to_constraints s) \<Longrightarrow> cn_target x = TgTime \<and> cn_strength x = Must"
  by (auto simp: temporal_to_constraints_def constraint_must_def split: option.splits)

lemma to_goal_constraints:
  "to_goal_spec c = Ok goal \<Longrightarrow> gl_constraints goal = qc_constraints c @ temporal_to_constraints (qc_temporal_scope c)"
  by (auto simp: to_goal_spec_def Let_def)

text \<open>
  C19: for a goal lowered from a contract that is bound to a time (a range, a point, a before or an after), the final
  candidates of an iteration are none whenever the routing of its gaps returns: whatever the router offers is rejected,
  since the bound becomes a hard constraint on the age of a candidate and no candidate has one.
\<close>

theorem temporal_scope_rejects_all:
  assumes "to_goal_spec c = Ok goal" "temporal_to_constraints (qc_temporal_scope c) \<noteq> []"
    and "route_gaps gaps goal r = Ok cs"
  shows "collect_final_candidates tx gaps goal ctx_id r = Ok []"
proof -
  from assms(2) obtain x where x: "x \<in> set (temporal_to_constraints (qc_temporal_scope c))" by (meson list.set_sel(1))
  with to_goal_constraints [OF assms(1)] have "x \<in> set (gl_constraints goal)" by simp
  then have "\<not> admissible tx goal ctx_id m" if "m \<in> set (merge_duplicate_candidates cs)" for m
    using timed_constraint_blocks temporal_constraints_timed [OF x] merged_no_age [OF _ that] route_gaps_no_age [OF assms(3)] by blast
  then show ?thesis using assms(3) by (simp add: collect_final_candidates_def contract_filter_eq)
qed

definition sample_timed :: QueryContract where
  "sample_timed =
     (with_target (entity_pattern_default\<lparr>ep_atom_id := Some (hex_encode (replicate 32 7))\<rparr>) (contract_new CLookup))
       \<lparr>qc_temporal_scope := temporal_scope_default\<lparr>tp_time_range := Some \<lparr>ts_from_unix_ns = Some 1, ts_to_unix_ns = None\<rparr>\<rparr>\<rparr>"

definition sample_timed_router :: QueryRouter where
  "sample_timed_router = register_atom (replicate 32 7) 3 1 0 64 router_new"

lemma sample_timed_routed:
  "case to_goal_spec sample_timed of
     Ok goal \<Rightarrow> map_res id (map ca_atom_id) (route_gaps [sample_gap] goal sample_timed_router) = Ok [replicate 32 7]
   | _ \<Rightarrow> False"
  by code_simp

theorem temporal_scope_rejects_all_witness:
  "\<forall>tx. \<exists>goal cs. to_goal_spec sample_timed = Ok goal \<and> route_gaps [sample_gap] goal sample_timed_router = Ok cs \<and> cs \<noteq> [] \<and>
     collect_final_candidates tx [sample_gap] goal 0 sample_timed_router = Ok []"
proof -
  obtain goal where goal: "to_goal_spec sample_timed = Ok goal"
    and "map_res id (map ca_atom_id) (route_gaps [sample_gap] goal sample_timed_router) = Ok [replicate 32 7]"
    using sample_timed_routed by (cases "to_goal_spec sample_timed") simp_all
  then obtain cs where cs: "route_gaps [sample_gap] goal sample_timed_router = Ok cs" "map ca_atom_id cs = [replicate 32 7]"
    by (cases "route_gaps [sample_gap] goal sample_timed_router") auto
  have "temporal_to_constraints (qc_temporal_scope sample_timed) \<noteq> []"
    by (simp add: sample_timed_def temporal_scope_default_def temporal_to_constraints_def)
  from temporal_scope_rejects_all [OF goal this cs(1)] goal cs show ?thesis by auto
qed

end
