(* ===== verification/Query_Select.thy ===== *)
theory Query_Select
  imports Query_Solver
begin

text \<open>
  The selection of candidates of \<open>SetCoverSolver\<close> in \<open>src/query/solver.rs\<close>: the greedy loop, the closure that connects the
  selection with a union-find structure, and the pruning. The loops of the union-find structure end only because
  its links have no cycle, so they are partial functions; that they return is proved below. The elements of a
  hash set are taken in the order of a list.
\<close>

section \<open>The greedy loop\<close>

record Selection =
  sl_selected :: "nat list"
  sl_covered :: "GapId list"
  sl_available :: "nat list"

definition marginal_gaps :: "GapId list \<Rightarrow> Candidate \<Rightarrow> GapId list" where
  "marginal_gaps covered c = filter (\<lambda>g. g \<notin> set covered) (ca_covers_gaps c)"

definition marginal_ratio :: "Gap list \<Rightarrow> CostWeights \<Rightarrow> GapId list \<Rightarrow> Candidate \<Rightarrow> fnum" where
  "marginal_ratio gaps w covered c =
     f_div binary64 (f_sum (map (\<lambda>g. gap_benefit (gap_priority g)) (indexed_gaps gaps (marginal_gaps covered c))))
       (candidate_cost w c)"

definition greedy_weigh ::
  "Candidate list \<Rightarrow> Gap list \<Rightarrow> CostWeights \<Rightarrow> GapId list \<Rightarrow> nat \<Rightarrow> nat option \<times> fnum \<Rightarrow> nat option \<times> fnum" where
  "greedy_weigh candidates gaps w covered idx = (\<lambda>(best_idx, best_ratio).
     let c = candidates ! idx
     in if marginal_gaps covered c = [] then (best_idx, best_ratio)
        else
          let ratio = marginal_ratio gaps w covered c;
              wins_tie = (case best_idx of None \<Rightarrow> False | Some best \<Rightarrow> ca_atom_id c < ca_atom_id (candidates ! best))
          in if f_lt best_ratio ratio \<or> f_eq ratio best_ratio \<and> wins_tie then (Some idx, ratio) else (best_idx, best_ratio))"

definition greedy_best :: "Candidate list \<Rightarrow> Gap list \<Rightarrow> CostWeights \<Rightarrow> GapId list \<Rightarrow> nat list \<Rightarrow> nat option" where
  "greedy_best candidates gaps w covered available =
     fst (fold (greedy_weigh candidates gaps w covered) available (None, Finf True))"

definition take_candidate :: "Candidate list \<Rightarrow> nat \<Rightarrow> Selection \<Rightarrow> Selection" where
  "take_candidate candidates idx s =
     s\<lparr>sl_selected := sl_selected s @ [idx],
       sl_covered := fold List.insert (ca_covers_gaps (candidates ! idx)) (sl_covered s),
       sl_available := filter (\<lambda>i. i \<noteq> idx) (sl_available s)\<rparr>"

lemma greedy_weigh_index: "fst (greedy_weigh candidates gaps w covered idx b) \<in> {Some idx, fst b}"
  by (cases b) (simp add: greedy_weigh_def Let_def)

lemma greedy_best_available: "greedy_best candidates gaps w covered available = Some idx \<Longrightarrow> idx \<in> set available"
  unfolding greedy_best_def
  by (drule fold_index [rotated]) (use greedy_weigh_index in auto)

function greedy_loop :: "Candidate list \<Rightarrow> Gap list \<Rightarrow> CostWeights \<Rightarrow> Selection \<Rightarrow> Selection" where
  "greedy_loop candidates gaps w s =
     (if length (sl_covered s) < length gaps \<and> sl_available s \<noteq> [] then
        (case greedy_best candidates gaps w (sl_covered s) (sl_available s) of
           None \<Rightarrow> s
         | Some idx \<Rightarrow> greedy_loop candidates gaps w (take_candidate candidates idx s))
      else s)"
  by pat_completeness auto

lemma take_candidate_available:
  "idx \<in> set (sl_available s) \<Longrightarrow> length (sl_available (take_candidate candidates idx s)) < length (sl_available s)"
  by (simp add: take_candidate_def length_filter_less)

termination greedy_loop
  by (relation "measure (\<lambda>(candidates, gaps, w, s). length (sl_available s))")
    (auto intro: take_candidate_available greedy_best_available)

declare greedy_loop.simps [simp del]

definition selection_start :: "Candidate list \<Rightarrow> Selection" where
  "selection_start candidates = \<lparr>sl_selected = [], sl_covered = [], sl_available = [0..<length candidates]\<rparr>"

section \<open>Keys that connect candidates\<close>

definition atom_id_hash :: "AtomId \<Rightarrow> u64" where
  "atom_id_hash a = fold (\<lambda>(i, b) h. h OR push_bit (i * 8) (ucast b)) (List.enumerate 0 (take 8 a)) 0"

definition bridge_keys :: "Candidate \<Rightarrow> u64 list" where
  "bridge_keys c =
     map (\<lambda>e. atom_id_hash (er_atom_id e)) (ca_evidence_refs c)
     @ concat (map (\<lambda>x. [cd_subj x, push_bit 16 (cd_pred x), push_bit 32 (cd_obj_val x)]) (ca_derived_claims c))
     @ map (\<lambda>g. 0x1000000000000000 OR ucast g) (ca_covers_gaps c)
     @ [0x2000000000000000 OR ca_node_num c]"

definition share_key :: "u64 list \<Rightarrow> u64 list \<Rightarrow> bool" where
  "share_key xs ys \<longleftrightarrow> list_ex (\<lambda>x. x \<in> set ys) xs"

section \<open>Union-find\<close>

type_synonym parents = "(nat, nat) hmap"

partial_function (option) find_root :: "parents \<Rightarrow> nat \<Rightarrow> nat option" where
  "find_root parent x =
     (case map_of parent x of
        None \<Rightarrow> Some x
      | Some p \<Rightarrow> if p \<noteq> x then find_root parent p else Some x)"

partial_function (option) compress :: "parents \<Rightarrow> nat \<Rightarrow> nat \<Rightarrow> parents option" where
  "compress parent cur apex =
     (if cur = apex then Some parent
      else compress (AList.update cur apex parent) (get_or cur parent cur) apex)"

definition uf_find :: "parents \<Rightarrow> nat \<Rightarrow> (nat \<times> parents) option" where
  "uf_find parent x =
     Option.bind (find_root parent x) (\<lambda>apex. map_option (\<lambda>parent. (apex, parent)) (compress parent x apex))"

definition uf_union :: "parents \<Rightarrow> nat \<Rightarrow> nat \<Rightarrow> parents option" where
  "uf_union parent a b =
     Option.bind (uf_find parent a) (\<lambda>(ra, parent).
     Option.bind (uf_find parent b) (\<lambda>(rb, parent).
     Some (if ra \<noteq> rb then AList.update ra rb parent else parent)))"

primrec all_pairs :: "'a list \<Rightarrow> ('a \<times> 'a) list" where
  "all_pairs [] = []"
| "all_pairs (x # xs) = map (Pair x) xs @ all_pairs xs"

primrec unite_pairs :: "(nat \<Rightarrow> u64 list) \<Rightarrow> (nat \<times> nat) list \<Rightarrow> parents \<Rightarrow> parents option" where
  "unite_pairs keys [] parent = Some parent"
| "unite_pairs keys (p # ps) parent =
     Option.bind (if share_key (keys (fst p)) (keys (snd p)) then uf_union parent (fst p) (snd p) else Some parent)
       (unite_pairs keys ps)"

primrec find_all :: "nat list \<Rightarrow> parents \<Rightarrow> (nat list \<times> parents) option" where
  "find_all [] parent = Some ([], parent)"
| "find_all (x # xs) parent =
     Option.bind (uf_find parent x) (\<lambda>(apex, parent).
     Option.bind (find_all xs parent) (\<lambda>(roots, parent). Some (apex # roots, parent)))"

section \<open>The closure\<close>

definition unselected :: "Candidate list \<Rightarrow> nat list \<Rightarrow> nat list" where
  "unselected candidates result = filter (\<lambda>i. i \<notin> set result) [0..<length candidates]"

definition component_bridges :: "Candidate list \<Rightarrow> nat list \<Rightarrow> nat list list \<Rightarrow> nat list" where
  "component_bridges candidates result components =
     List.map_filter (\<lambda>(comp_a, comp_b).
         let keys = (\<lambda>comp. concat (map (\<lambda>i. bridge_keys (candidates ! i)) comp))
         in find (\<lambda>i. share_key (bridge_keys (candidates ! i)) (keys comp_a)
                      \<and> share_key (bridge_keys (candidates ! i)) (keys comp_b)) (unselected candidates result))
       (all_pairs components)"

definition referenced_bridges :: "Candidate list \<Rightarrow> nat list \<Rightarrow> nat list" where
  "referenced_bridges candidates result =
     concat (map (\<lambda>idx.
       List.map_filter (\<lambda>e. find (\<lambda>i. atom_id_hash (ca_atom_id (candidates ! i)) = atom_id_hash (er_atom_id e))
           (unselected candidates result)) (ca_evidence_refs (candidates ! idx))
       @ List.map_filter (\<lambda>x. find (\<lambda>i. ca_node_num (candidates ! i) = cd_subj x) (unselected candidates result))
           (ca_derived_claims (candidates ! idx))) result)"

definition same_gap_bridges :: "Candidate list \<Rightarrow> nat list \<Rightarrow> nat list" where
  "same_gap_bridges candidates result =
     filter (\<lambda>i. list_ex (\<lambda>g. list_ex (\<lambda>idx. g \<in> set (ca_covers_gaps (candidates ! idx))) result) (ca_covers_gaps (candidates ! i)))
       (unselected candidates result)"

text \<open>One round: nothing when the selection is connected, else the candidates that are added to it.\<close>

definition bridges :: "Candidate list \<Rightarrow> nat list \<Rightarrow> nat list option" where
  "bridges candidates result =
     Option.bind (unite_pairs (\<lambda>i. bridge_keys (candidates ! i)) (all_pairs result) (map (\<lambda>i. (i, i)) result)) (\<lambda>parent.
     Option.bind (find_all result parent) (\<lambda>(roots, parent).
     if length (remdups roots) \<le> 1 then Some []
     else
       Option.bind (find_all result parent) (\<lambda>(roots, _).
         let components = map (\<lambda>apex. map fst (filter (\<lambda>(i, r). r = apex) (zip result roots))) (remdups roots);
             found = component_bridges candidates result components;
             found = (if found = [] then referenced_bridges candidates result else found);
             found = (if found = [] then same_gap_bridges candidates result else found)
         in Some found)))"

primrec closure_loop :: "nat \<Rightarrow> Candidate list \<Rightarrow> nat list \<Rightarrow> nat list option" where
  "closure_loop 0 candidates result = Some result"
| "closure_loop (Suc n) candidates result =
     Option.bind (bridges candidates result) (\<lambda>found.
       if found = [] then Some result else closure_loop n candidates (fold List.insert found result))"

definition add_connectivity_closure :: "Candidate list \<Rightarrow> nat list \<Rightarrow> nat list option" where
  "add_connectivity_closure candidates selected =
     (if length selected \<le> 1 then Some selected
      else map_option sort (closure_loop 10 candidates (remdups selected)))"

definition greedy_select :: "Candidate list \<Rightarrow> Gap list \<Rightarrow> CostWeights \<Rightarrow> OutputSchema \<Rightarrow> nat list option" where
  "greedy_select candidates gaps w schema =
     (let selected = sl_selected (greedy_loop candidates gaps w (selection_start candidates))
      in if schema \<in> {ScTree, ScGraph, ScExplanation} then add_connectivity_closure candidates selected
         else Some selected)"

section \<open>Pruning\<close>

definition uniquely_covered :: "Candidate list \<Rightarrow> nat list \<Rightarrow> nat \<Rightarrow> bool" where
  "uniquely_covered candidates result idx \<longleftrightarrow>
     list_ex (\<lambda>g. list_ex (\<lambda>other. g \<in> set (ca_covers_gaps (candidates ! other))) (filter (\<lambda>other. other \<noteq> idx) result))
       (ca_covers_gaps (candidates ! idx))"

definition prune :: "Candidate list \<Rightarrow> nat list \<Rightarrow> nat list" where
  "prune candidates selected =
     (let to_remove = filter (\<lambda>idx. \<not> uniquely_covered candidates selected idx) selected
      in filter (\<lambda>idx. idx \<notin> set to_remove) selected)"

section \<open>The links have no cycle\<close>

text \<open>The links of a forest lead every element to one top; compressing a path and joining two tops keep it a forest.\<close>

definition links :: "parents \<Rightarrow> (nat \<times> nat) set" where
  "links parent = {(x, p). map_of parent x = Some p \<and> p \<noteq> x}"

definition is_top :: "parents \<Rightarrow> nat \<Rightarrow> bool" where
  "is_top parent r \<longleftrightarrow> r \<notin> Domain (links parent)"

lemma links_finite [simp]: "finite (links parent)"
proof -
  have "links parent \<subseteq> dom (map_of parent) \<times> ran (map_of parent)" by (auto simp: links_def ran_def)
  then show ?thesis by (rule finite_subset) (simp add: finite_dom_map_of finite_ran)
qed

lemma links_unique: "(x, p) \<in> links parent \<Longrightarrow> (x, q) \<in> links parent \<Longrightarrow> p = q"
  by (simp add: links_def)

lemma find_root_step: "(x, p) \<in> links parent \<Longrightarrow> find_root parent x = find_root parent p"
  by (subst find_root.simps) (simp add: links_def)

lemma find_root_top: "is_top parent x \<Longrightarrow> find_root parent x = Some x"
  by (subst find_root.simps) (auto simp: is_top_def links_def Domain_unfold split: option.split)

lemma find_root_reached: "(x, r) \<in> (links parent)\<^sup>* \<Longrightarrow> is_top parent r \<Longrightarrow> find_root parent x = Some r"
  by (induction rule: converse_rtrancl_induct) (simp_all add: find_root_step find_root_top)

lemma find_root_returns:
  assumes "acyclic (links parent)"
  shows "\<exists>r. find_root parent x = Some r \<and> (x, r) \<in> (links parent)\<^sup>* \<and> is_top parent r"
proof -
  have "wf ((links parent)\<inverse>)" using assms by (intro finite_acyclic_wf_converse) simp_all
  then show ?thesis
  proof (induction x rule: wf_induct_rule)
    case (less x)
    show ?case
    proof (cases "is_top parent x")
      case False
      then obtain p where p: "(x, p) \<in> links parent" by (auto simp: is_top_def)
      with less obtain r where "find_root parent p = Some r" "(p, r) \<in> (links parent)\<^sup>*" "is_top parent r" by blast
      with p show ?thesis by (auto simp: find_root_step intro: converse_rtrancl_into_rtrancl)
    qed (simp add: find_root_top)
  qed
qed

definition rep :: "parents \<Rightarrow> nat \<Rightarrow> nat" where
  "rep parent x = the (find_root parent x)"

lemma rep_spec:
  assumes "acyclic (links parent)"
  shows "find_root parent x = Some (rep parent x)" "(x, rep parent x) \<in> (links parent)\<^sup>*" "is_top parent (rep parent x)"
  using find_root_returns [OF assms, of x] by (auto simp: rep_def)

lemma rep_reached: "(x, r) \<in> (links parent)\<^sup>* \<Longrightarrow> is_top parent r \<Longrightarrow> rep parent x = r"
  by (simp add: rep_def find_root_reached)

lemma links_update: "links (AList.update x r parent) \<subseteq> insert (x, r) (links parent)"
  by (auto simp: links_def update_conv split: if_splits)

lemma domain_update: "r \<noteq> x \<Longrightarrow> Domain (links (AList.update x r parent)) = insert x (Domain (links parent))"
  by (auto simp: links_def update_conv Domain_unfold split: if_splits)

text \<open>Links that only shorten paths and leave the tops alone represent the same classes.\<close>

definition shortens :: "parents \<Rightarrow> parents \<Rightarrow> bool" where
  "shortens parent parent' \<longleftrightarrow> links parent' \<subseteq> (links parent)\<^sup>+ \<and> Domain (links parent') = Domain (links parent)"

lemma shortens_acyclic: "shortens parent parent' \<Longrightarrow> acyclic (links parent) \<Longrightarrow> acyclic (links parent')"
  using trancl_mono [of _ "links parent'" "(links parent)\<^sup>+"] trancl_id [OF trans_trancl [of "links parent"]]
  by (auto simp: shortens_def acyclic_def)

lemma shortens_rep:
  assumes "shortens parent parent'" "acyclic (links parent)"
  shows "rep parent' x = rep parent x"
proof -
  have "(links parent')\<^sup>* \<subseteq> (links parent)\<^sup>*"
    using assms(1) unfolding shortens_def by (metis rtrancl_mono rtrancl_trancl_absorb trancl_rtrancl_absorb rtrancl_idemp reflcl_trancl rtrancl_reflcl)
  moreover note rep_spec(2,3) [OF shortens_acyclic [OF assms], of x]
  ultimately show ?thesis using assms(1) by (intro rep_reached [symmetric]) (auto simp: is_top_def shortens_def)
qed

lemma compress_returns:
  assumes acyclic: "acyclic (links parent0)" and top: "is_top parent0 r"
  shows "(cur, r) \<in> (links parent0)\<^sup>* \<Longrightarrow> shortens parent0 parent \<Longrightarrow>
    (\<And>y. (cur, y) \<in> (links parent0)\<^sup>* \<Longrightarrow> map_of parent y = map_of parent0 y) \<Longrightarrow>
    \<exists>parent'. compress parent cur r = Some parent' \<and> shortens parent0 parent'"
proof -
  have "wf ((links parent0)\<inverse>)" using acyclic by (intro finite_acyclic_wf_converse) simp_all
  then show "(cur, r) \<in> (links parent0)\<^sup>* \<Longrightarrow> shortens parent0 parent \<Longrightarrow>
    (\<And>y. (cur, y) \<in> (links parent0)\<^sup>* \<Longrightarrow> map_of parent y = map_of parent0 y) \<Longrightarrow> ?thesis"
  proof (induction cur arbitrary: parent rule: wf_induct_rule)
    case (less cur)
    show ?case
    proof (cases "cur = r")
      case True
      with less.prems(2) show ?thesis by (subst compress.simps) simp
    next
      case False
      with less.prems(1) obtain p where p: "(cur, p) \<in> links parent0" "(p, r) \<in> (links parent0)\<^sup>*"
        by (meson converse_rtranclE)
      then have next_p: "get_or cur parent cur = p" using less.prems(3) [of cur] by (auto simp: links_def get_or_def)
      let ?parent = "AList.update cur r parent"
      have "(cur, r) \<in> (links parent0)\<^sup>+" using p by (rule rtrancl_into_trancl2)
      with less.prems(2) have "links ?parent \<subseteq> (links parent0)\<^sup>+"
        unfolding shortens_def using links_update [of cur r parent] by (meson insert_subset subset_trans)
      moreover have "cur \<in> Domain (links parent0)" using p(1) by blast
      then have "Domain (links ?parent) = Domain (links parent0)"
        using less.prems(2) domain_update [OF False [symmetric], of parent] by (simp add: shortens_def insert_absorb)
      ultimately have sub: "shortens parent0 ?parent" by (simp add: shortens_def)
      have rest: "map_of ?parent y = map_of parent0 y" if "(p, y) \<in> (links parent0)\<^sup>*" for y
      proof -
        have "(cur, y) \<in> (links parent0)\<^sup>+" using p(1) that by (rule rtrancl_into_trancl2)
        with acyclic have "y \<noteq> cur" by (auto simp: acyclic_def)
        moreover have "(cur, y) \<in> (links parent0)\<^sup>*" using p(1) that by (rule converse_rtrancl_into_rtrancl)
        ultimately show ?thesis using less.prems(3) by (simp add: update_conv)
      qed
      have "(p, cur) \<in> (links parent0)\<inverse>" using p(1) by simp
      from less.IH [OF this p(2) sub rest] False next_p show ?thesis by (subst compress.simps) simp
    qed
  qed
qed

lemma uf_find_returns:
  assumes "acyclic (links parent)"
  obtains parent' where "uf_find parent x = Some (rep parent x, parent')" "acyclic (links parent')"
    "\<And>y. rep parent' y = rep parent y"
proof -
  have "shortens parent parent" by (auto simp: shortens_def)
  from compress_returns [OF assms rep_spec(3) [OF assms] rep_spec(2) [OF assms] this]
  obtain parent' where p: "compress parent x (rep parent x) = Some parent'" "shortens parent parent'" by blast
  show thesis
  proof (rule that)
    show "uf_find parent x = Some (rep parent x, parent')" using p(1) rep_spec(1) [OF assms, of x] by (simp add: uf_find_def)
    show "acyclic (links parent')" by (rule shortens_acyclic [OF p(2) assms])
    show "rep parent' y = rep parent y" for y by (rule shortens_rep [OF p(2) assms])
  qed
qed

lemma uf_union_returns:
  assumes "acyclic (links parent)"
  obtains parent' where "uf_union parent a b = Some parent'" "acyclic (links parent')"
    "\<And>x. rep parent' x = (if rep parent x = rep parent a then rep parent b else rep parent x)"
proof -
  obtain p1 where p1: "uf_find parent a = Some (rep parent a, p1)" "acyclic (links p1)" "\<And>y. rep p1 y = rep parent y"
    using uf_find_returns [OF assms] by metis
  obtain p2 where p2: "uf_find p1 b = Some (rep p1 b, p2)" "acyclic (links p2)" "\<And>y. rep p2 y = rep p1 y"
    using uf_find_returns [OF p1(2)] by metis
  have reps: "rep p2 y = rep parent y" for y by (simp add: p1(3) p2(3))
  show thesis
  proof (cases "rep parent a = rep parent b")
    case True
    show thesis
    proof (rule that)
      show "uf_union parent a b = Some p2" using True by (simp add: uf_union_def p1 p2)
    qed (use p2(2) reps True in auto)
  next
    case False
    let ?ra = "rep parent a" and ?rb = "rep parent b"
    let ?p = "AList.update ?ra ?rb p2"
    have tops: "is_top p2 ?ra" "is_top p2 ?rb" using rep_spec(3) [OF p2(2)] reps by metis+
    then have l: "links ?p = insert (?ra, ?rb) (links p2)"
      using False by (auto simp: links_def update_conv is_top_def Domain_unfold split: if_splits)
    have "(?rb, ?ra) \<notin> (links p2)\<^sup>*" using tops(2) False by (auto simp: is_top_def elim: converse_rtranclE)
    then have acyc: "acyclic (links ?p)" unfolding l using p2(2) by (simp add: acyclic_insert)
    have top_b: "is_top ?p ?rb" using tops(2) False by (auto simp: is_top_def l)
    have "rep ?p x = (if rep parent x = ?ra then ?rb else rep parent x)" for x
    proof (rule rep_reached)
      have "(x, rep parent x) \<in> (links p2)\<^sup>*" using rep_spec(2) [OF p2(2), of x] reps by simp
      then have "(x, rep parent x) \<in> (links ?p)\<^sup>*" unfolding l by (rule rtrancl_mono [THEN subsetD, rotated]) blast
      then show "(x, if rep parent x = ?ra then ?rb else rep parent x) \<in> (links ?p)\<^sup>*"
        by (auto simp: l intro: rtrancl_into_rtrancl)
      have "is_top p2 (rep parent x)" using rep_spec(3) [OF p2(2), of x] reps by simp
      then show "is_top ?p (if rep parent x = ?ra then ?rb else rep parent x)" using top_b by (auto simp: is_top_def l)
    qed
    moreover have "uf_union parent a b = Some ?p" using False by (simp add: uf_union_def p1 p2)
    ultimately show thesis using acyc by (intro that)
  qed
qed

section \<open>The greedy loop covers what can be covered\<close>

lemma f_is_mul:
  assumes "f_is a m" "f_is b n" "holds_integers f" "m * n < 2 ^ ff_prec f" shows "f_is (f_mul f a b) (m * n)"
proof -
  obtain k x k' x' where ab: "a = Ffin False k x" "b = Ffin False k' x'"
    and v: "of_nat k * 2 powi x = (of_nat m :: rat)" "of_nat k' * 2 powi x' = (of_nat n :: rat)"
    using assms(1,2) by (auto simp: f_is_def)
  have "(of_nat (m * n) :: rat) = of_nat (k * k') * 2 powi (x + x')"
    by (simp add: power_int_add flip: v)
  then show ?thesis
    using fround_exact [of 1 f "of_nat (m * n)" "k * k'" "x + x'" "m * n" 0 False] assms(3,4)
    by (auto simp: ab f_is_def holds_integers_def)
qed

lemma f_is_lit: "holds_integers f \<Longrightarrow> n < 2 ^ ff_prec f \<Longrightarrow> f_is (f_lit f n 1) n"
  using f_is_of_nat by (simp add: f_of_nat_def f_lit_def)

definition costs_ok :: "CostWeights \<Rightarrow> Candidate \<Rightarrow> bool" where
  "costs_ok w c \<longleftrightarrow> f_lt fzero (candidate_cost w c) \<and> length (ca_covers_gaps c) < 2 ^ 44"

lemma marginal_ratio_above:
  assumes "costs_ok w c" shows "f_lt (Finf True) (marginal_ratio gaps w covered c)"
proof -
  let ?gs = "indexed_gaps gaps (marginal_gaps covered c)"
  let ?ps = "map (\<lambda>g. unat (gap_priority g)) ?gs"
  have "length ?gs \<le> length (ca_covers_gaps c)"
    unfolding indexed_gaps_def marginal_gaps_def by (rule order_trans [OF length_map_filter_le length_filter_le])
  moreover have "sum_list ?ps \<le> length ?gs * 256"
    by (rule sum_list_bound) (use unat_bounds(1) in \<open>auto intro: less_imp_le\<close>)
  ultimately have "0 + sum_list ?ps < 2 ^ 53" using assms by (simp add: costs_ok_def)
  moreover have "list_all2 f_is (map (\<lambda>g. gap_benefit (gap_priority g)) ?gs) ?ps"
    by (auto simp: list_all2_conv_all_nth gap_benefit_def intro: f_is_f64_of)
  ultimately have "f_is (f_sum (map (\<lambda>g. gap_benefit (gap_priority g)) ?gs)) (sum_list ?ps)"
    unfolding f_sum_def using f_is_foldl [of _ _ fzero 0] by simp
  then show ?thesis using assms by (simp add: marginal_ratio_def costs_ok_def f_div_above)
qed

lemma fold_greedy_Some: "fst b \<noteq> None \<Longrightarrow> fst (fold (greedy_weigh candidates gaps w covered) xs b) \<noteq> None"
proof (induction xs arbitrary: b)
  case (Cons x xs)
  then have "fst (greedy_weigh candidates gaps w covered x b) \<noteq> None"
    using greedy_weigh_index [of candidates gaps w covered x b] by auto
  from Cons.IH [OF this] show ?case by simp
qed simp

lemma greedy_best_None:
  assumes "\<forall>idx\<in>set available. costs_ok w (candidates ! idx)"
  shows "greedy_best candidates gaps w covered available = None \<longleftrightarrow>
    (\<forall>idx\<in>set available. marginal_gaps covered (candidates ! idx) = [])"
  using assms unfolding greedy_best_def
proof (induction available)
  case (Cons x xs)
  show ?case
  proof (cases "marginal_gaps covered (candidates ! x) = []")
    case True
    then have "greedy_weigh candidates gaps w covered x (None, Finf True) = (None, Finf True)" by (simp add: greedy_weigh_def)
    with True Cons show ?thesis by simp
  next
    case False
    have "f_lt (Finf True) (marginal_ratio gaps w covered (candidates ! x))"
      by (rule marginal_ratio_above) (use Cons.prems in simp)
    with False have "fst (greedy_weigh candidates gaps w covered x (None, Finf True)) \<noteq> None"
      by (simp add: greedy_weigh_def Let_def)
    from fold_greedy_Some [OF this] False show ?thesis by simp
  qed
qed simp

definition greedy_inv :: "Candidate list \<Rightarrow> Selection \<Rightarrow> bool" where
  "greedy_inv candidates s \<longleftrightarrow>
     distinct (sl_selected s) \<and> set (sl_selected s) \<inter> set (sl_available s) = {} \<and>
     set (sl_selected s) \<union> set (sl_available s) = {..<length candidates} \<and> distinct (sl_covered s) \<and>
     set (sl_covered s) = (\<Union>i\<in>set (sl_selected s). set (ca_covers_gaps (candidates ! i)))"

lemma greedy_inv_start: "greedy_inv candidates (selection_start candidates)"
  by (auto simp: greedy_inv_def selection_start_def)

lemma greedy_inv_take:
  "greedy_inv candidates s \<Longrightarrow> idx \<in> set (sl_available s) \<Longrightarrow> greedy_inv candidates (take_candidate candidates idx s)"
  by (auto simp: greedy_inv_def take_candidate_def distinct_fold_insert)

lemma greedy_loop_inv:
  "greedy_inv candidates s \<Longrightarrow> greedy_inv candidates (greedy_loop candidates gaps w s) \<and>
     set (sl_selected s) \<subseteq> set (sl_selected (greedy_loop candidates gaps w s))"
proof (induction candidates gaps w s rule: greedy_loop.induct)
  case (1 candidates gaps w s)
  show ?case
  proof (cases "(length (sl_covered s) < length gaps \<and> sl_available s \<noteq> []) \<and>
      greedy_best candidates gaps w (sl_covered s) (sl_available s) \<noteq> None")
    case True
    then obtain idx where idx: "greedy_best candidates gaps w (sl_covered s) (sl_available s) = Some idx" by blast
    have "greedy_inv candidates (take_candidate candidates idx s)"
      by (rule greedy_inv_take [OF "1.prems" greedy_best_available [OF idx]])
    from "1.IH" [OF _ idx this] True show ?thesis
      by (subst (1 2) greedy_loop.simps) (auto simp: idx take_candidate_def)
  qed (use "1.prems" in \<open>subst (1 2) greedy_loop.simps, auto\<close>)
qed

lemma greedy_loop_exit:
  "greedy_inv candidates s \<Longrightarrow> \<forall>c\<in>set candidates. costs_ok w c \<Longrightarrow>
     (let s' = greedy_loop candidates gaps w s
      in length gaps \<le> length (sl_covered s') \<or>
         (\<forall>idx\<in>set (sl_available s'). marginal_gaps (sl_covered s') (candidates ! idx) = []))"
proof (induction candidates gaps w s rule: greedy_loop.induct)
  case (1 candidates gaps w s)
  have ok: "\<forall>idx\<in>set (sl_available s). costs_ok w (candidates ! idx)" using "1.prems" by (auto simp: greedy_inv_def)
  show ?case
  proof (cases "length (sl_covered s) < length gaps \<and> sl_available s \<noteq> []")
    case True
    show ?thesis
    proof (cases "greedy_best candidates gaps w (sl_covered s) (sl_available s)")
      case None
      with greedy_best_None [OF ok, of gaps "sl_covered s"] True show ?thesis
        by (subst greedy_loop.simps) simp
    next
      case (Some idx)
      have "greedy_inv candidates (take_candidate candidates idx s)"
        by (rule greedy_inv_take [OF "1.prems"(1) greedy_best_available [OF Some]])
      from "1.IH" [OF True Some this "1.prems"(2)] True show ?thesis by (subst greedy_loop.simps) (simp add: Some)
    qed
  next
    case False
    then have "greedy_loop candidates gaps w s = s" by (subst greedy_loop.simps) auto
    with False show ?thesis by (auto simp: not_less)
  qed
qed

lemma greedy_covers:
  assumes ok: "\<forall>c\<in>set candidates. costs_ok w c"
    and known: "\<forall>c\<in>set candidates. set (ca_covers_gaps c) \<subseteq> {i. unat i < length gaps}"
  shows "(\<Union>i\<in>set (sl_selected (greedy_loop candidates gaps w (selection_start candidates))). set (ca_covers_gaps (candidates ! i)))
    = (\<Union>c\<in>set candidates. set (ca_covers_gaps c))" (is "?got = ?all")
proof -
  define s where "s = greedy_loop candidates gaps w (selection_start candidates)"
  have inv: "greedy_inv candidates s" unfolding s_def using greedy_loop_inv [OF greedy_inv_start] by blast
  then have got: "?got = set (sl_covered s)" "set (sl_selected s) \<subseteq> {..<length candidates}"
    by (auto simp: greedy_inv_def s_def)
  have all: "?all \<subseteq> {i. unat i < length gaps}" using known by blast
  have "candidates ! i \<in> set candidates" if "i \<in> set (sl_selected s)" for i using got(2) that by auto
  with got(1) have sub: "set (sl_covered s) \<subseteq> ?all" by (auto simp flip: s_def)
  consider "length gaps \<le> length (sl_covered s)"
    | "\<forall>idx\<in>set (sl_available s). marginal_gaps (sl_covered s) (candidates ! idx) = []"
    using greedy_loop_exit [OF greedy_inv_start ok, of gaps] by (auto simp: s_def Let_def)
  then show ?thesis
  proof cases
    case 1
    have inj: "inj_on unat ({i. unat i < length gaps} :: GapId set)" by (auto simp: inj_on_def intro: unsigned_word_eqI)
    then have "finite ({i. unat i < length gaps} :: GapId set)" "card ({i. unat i < length gaps} :: GapId set) \<le> length gaps"
      using card_inj_on_le [OF inj, of "{..<length gaps}"] by (auto intro: inj_on_finite)
    moreover have "card (set (sl_covered s)) = length (sl_covered s)" using inv unfolding greedy_inv_def by (blast intro: distinct_card)
    ultimately have "set (sl_covered s) = {i. unat i < length gaps}"
      using 1 order_trans [OF sub all] by (intro card_seteq) simp_all
    with sub all got(1) show ?thesis by auto
  next
    case 2
    have "set (ca_covers_gaps (candidates ! i)) \<subseteq> set (sl_covered s)" if "i < length candidates" for i
    proof (cases "i \<in> set (sl_selected s)")
      case False
      with inv that have "i \<in> set (sl_available s)" by (auto simp: greedy_inv_def)
      with 2 show ?thesis by (auto simp: marginal_gaps_def filter_empty_conv)
    qed (use inv in \<open>auto simp: greedy_inv_def\<close>)
    then have "set (ca_covers_gaps c) \<subseteq> set (sl_covered s)" if "c \<in> set candidates" for c
      using that by (metis in_set_conv_nth)
    with sub got(1) show ?thesis by blast
  qed
qed


section \<open>The classes are the connected components\<close>

definition classes :: "(nat \<times> nat) set \<Rightarrow> (nat \<times> nat) set" where
  "classes E = (E \<union> E\<inverse>)\<^sup>*"

definition represents :: "parents \<Rightarrow> (nat \<times> nat) set \<Rightarrow> bool" where
  "represents parent E \<longleftrightarrow> acyclic (links parent) \<and> (\<forall>x y. rep parent x = rep parent y \<longleftrightarrow> (x, y) \<in> classes E)"

lemma classes_equiv: "(x, x) \<in> classes E" "(x, y) \<in> classes E \<Longrightarrow> (y, x) \<in> classes E"
  "(x, y) \<in> classes E \<Longrightarrow> (y, z) \<in> classes E \<Longrightarrow> (x, z) \<in> classes E"
  unfolding classes_def by (simp, metis symD sym_Un_converse sym_rtrancl, rule rtrancl_trans)

lemma classes_mono: "E \<subseteq> F \<Longrightarrow> classes E \<subseteq> classes F"
  unfolding classes_def by (intro rtrancl_mono) auto

lemma classes_join:
  fixes f f' :: "nat \<Rightarrow> nat"
  assumes f: "\<And>x y. f x = f y \<longleftrightarrow> (x, y) \<in> classes E" and f': "\<And>x. f' x = (if f x = f a then f b else f x)"
  shows "f' x = f' y \<longleftrightarrow> (x, y) \<in> classes (insert (a, b) E)"
proof
  have old: "f x = f y \<Longrightarrow> (x, y) \<in> classes (insert (a, b) E)" for x y
    using f [of x y] classes_mono [of E "insert (a, b) E"] by blast
  have new: "(a, b) \<in> classes (insert (a, b) E)" unfolding classes_def by blast
  assume "f' x = f' y"
  then consider "f x = f y" | "f x = f a" "f b = f y" | "f b = f x" "f y = f a"
    using f' [of x] f' [of y] by (auto split: if_splits)
  then show "(x, y) \<in> classes (insert (a, b) E)" using old new classes_equiv by metis
next
  assume "(x, y) \<in> classes (insert (a, b) E)"
  then show "f' x = f' y"
    unfolding classes_def
  proof (induction rule: rtrancl_induct)
    case (step y z)
    have "f u = f v" if "(u, v) \<in> E" for u v using f [of u v] that unfolding classes_def by blast
    with step.hyps(2) have "f' y = f' z" using f' by auto
    with step.IH show ?case by simp
  qed simp
qed

lemma uf_union_represents:
  assumes "represents parent E"
  shows "\<exists>parent'. uf_union parent a b = Some parent' \<and> represents parent' (insert (a, b) E)"
proof -
  have acyc: "acyclic (links parent)" and f: "\<And>x y. rep parent x = rep parent y \<longleftrightarrow> (x, y) \<in> classes E"
    using assms by (auto simp: represents_def)
  from uf_union_returns [OF acyc, of a b] obtain parent' where p: "uf_union parent a b = Some parent'"
    "acyclic (links parent')" "\<And>x. rep parent' x = (if rep parent x = rep parent a then rep parent b else rep parent x)" by metis
  from classes_join [OF f p(3)] p(1,2) show ?thesis unfolding represents_def by blast
qed

definition shared :: "(nat \<Rightarrow> u64 list) \<Rightarrow> (nat \<times> nat) list \<Rightarrow> (nat \<times> nat) set" where
  "shared keys ps = {p\<in>set ps. share_key (keys (fst p)) (keys (snd p))}"

lemma unite_pairs_represents:
  "represents parent E \<Longrightarrow> \<exists>parent'. unite_pairs keys ps parent = Some parent' \<and> represents parent' (shared keys ps \<union> E)"
proof (induction ps arbitrary: parent E)
  case (Cons p ps)
  show ?case
  proof (cases "share_key (keys (fst p)) (keys (snd p))")
    case True
    from uf_union_represents [OF Cons.prems, of "fst p" "snd p"]
    obtain q where q: "uf_union parent (fst p) (snd p) = Some q" "represents q (insert p E)" by auto
    have "shared keys (p # ps) \<union> E = shared keys ps \<union> insert p E" using True by (auto simp: shared_def)
    with Cons.IH [OF q(2)] q(1) True show ?thesis by simp
  next
    case False
    then have "shared keys (p # ps) = shared keys ps" by (auto simp: shared_def)
    with Cons.IH [OF Cons.prems] False show ?thesis by simp
  qed
qed (simp add: shared_def)

lemma represents_start: "represents (map (\<lambda>i. (i, i)) xs) {}"
proof -
  have "map_of (map (\<lambda>i. (i, i)) xs) x = Some p \<Longrightarrow> p = x" for x p :: nat by (auto dest: map_of_SomeD)
  then have l: "links (map (\<lambda>i. (i, i)) xs) = {}" by (auto simp: links_def)
  then have "rep (map (\<lambda>i. (i, i)) xs) x = x" for x by (simp add: rep_def find_root_top is_top_def)
  with l show ?thesis by (simp add: represents_def classes_def acyclic_def)
qed

lemma find_all_returns:
  "represents parent E \<Longrightarrow> \<exists>parent'. find_all xs parent = Some (map (rep parent) xs, parent') \<and>
     represents parent' E \<and> (\<forall>y. rep parent' y = rep parent y)"
proof (induction xs arbitrary: parent)
  case (Cons x xs)
  have acyc: "acyclic (links parent)" using Cons.prems by (simp add: represents_def)
  from uf_find_returns [OF acyc, of x] obtain q where q: "uf_find parent x = Some (rep parent x, q)" "acyclic (links q)"
    "\<And>y. rep q y = rep parent y" by metis
  have "represents q E" using Cons.prems q(2,3) by (simp add: represents_def)
  from Cons.IH [OF this] q show ?case by auto
qed simp


section \<open>What one round looks for\<close>

text \<open>Two selected candidates are linked when they share a key.\<close>

definition linked :: "Candidate list \<Rightarrow> nat \<Rightarrow> nat \<Rightarrow> bool" where
  "linked candidates a b \<longleftrightarrow> share_key (bridge_keys (candidates ! a)) (bridge_keys (candidates ! b))"

definition joined :: "Candidate list \<Rightarrow> nat set \<Rightarrow> (nat \<times> nat) set" where
  "joined candidates R = {(a, b). a \<in> R \<and> b \<in> R \<and> linked candidates a b}\<^sup>*"

definition connected_selection :: "Candidate list \<Rightarrow> nat set \<Rightarrow> bool" where
  "connected_selection candidates R \<longleftrightarrow> (\<forall>a\<in>R. \<forall>b\<in>R. (a, b) \<in> joined candidates R)"

text \<open>A candidate that is left is of no help when it links no two components, is named by no evidence and no claim of
  the selection, and covers no gap the selection covers.\<close>

definition helps :: "Candidate list \<Rightarrow> nat set \<Rightarrow> nat \<Rightarrow> bool" where
  "helps candidates R i \<longleftrightarrow>
     (\<exists>a\<in>R. \<exists>b\<in>R. (a, b) \<notin> joined candidates R \<and> linked candidates i a \<and> linked candidates i b) \<or>
     (\<exists>a\<in>R. \<exists>e\<in>set (ca_evidence_refs (candidates ! a)). atom_id_hash (ca_atom_id (candidates ! i)) = atom_id_hash (er_atom_id e)) \<or>
     (\<exists>a\<in>R. \<exists>x\<in>set (ca_derived_claims (candidates ! a)). ca_node_num (candidates ! i) = cd_subj x) \<or>
     (\<exists>a\<in>R. set (ca_covers_gaps (candidates ! i)) \<inter> set (ca_covers_gaps (candidates ! a)) \<noteq> {})"

lemma share_key_sym: "share_key xs ys \<longleftrightarrow> share_key ys xs"
  by (auto simp: share_key_def list_ex_iff)

lemma linked_sym: "linked candidates a b \<longleftrightarrow> linked candidates b a"
  unfolding linked_def by (rule share_key_sym)

lemma all_pairs_in: "p \<in> set (all_pairs xs) \<Longrightarrow> fst p \<in> set xs \<and> snd p \<in> set xs"
  by (induction xs) auto

lemma all_pairs_either: "a \<in> set xs \<Longrightarrow> b \<in> set xs \<Longrightarrow> a \<noteq> b \<Longrightarrow> (a, b) \<in> set (all_pairs xs) \<or> (b, a) \<in> set (all_pairs xs)"
  by (induction xs) auto

lemma all_pairs_map: "all_pairs (map f xs) = map (\<lambda>(a, b). (f a, f b)) (all_pairs xs)"
  by (induction xs) auto

lemma classes_shared:
  "classes (shared (\<lambda>i. bridge_keys (candidates ! i)) (all_pairs result)) = joined candidates (set result)"
proof -
  let ?E = "shared (\<lambda>i. bridge_keys (candidates ! i)) (all_pairs result)"
  let ?L = "{(a, b). a \<in> set result \<and> b \<in> set result \<and> linked candidates a b}"
  have "?E \<union> ?E\<inverse> \<subseteq> ?L" using all_pairs_in linked_sym by (fastforce simp: shared_def linked_def)
  moreover have "?L \<subseteq> (?E \<union> ?E\<inverse>)\<^sup>="
  proof
    fix p assume "p \<in> ?L"
    then obtain a b where p: "p = (a, b)" "a \<in> set result" "b \<in> set result" "linked candidates a b" by blast
    show "p \<in> (?E \<union> ?E\<inverse>)\<^sup>="
    proof (cases "a = b")
      case False
      have "linked candidates b a" using p(4) linked_sym by blast
      with all_pairs_either [OF p(2,3) False] p(4) have "(a, b) \<in> ?E \<or> (b, a) \<in> ?E" by (simp add: shared_def linked_def)
      with p(1) show ?thesis by blast
    qed (use p(1) in simp)
  qed
  then have "?L\<^sup>* \<subseteq> (?E \<union> ?E\<inverse>)\<^sup>*" using rtrancl_mono [of ?L "(?E \<union> ?E\<inverse>)\<^sup>="] by simp
  ultimately show ?thesis
    unfolding classes_def joined_def using rtrancl_mono [of "?E \<union> ?E\<inverse>" ?L] by (intro antisym) simp_all
qed

definition members :: "(nat \<Rightarrow> nat) \<Rightarrow> nat list \<Rightarrow> nat \<Rightarrow> nat list" where
  "members f result r = filter (\<lambda>i. f i = r) result"

lemma members_eq: "map fst (filter (\<lambda>(i, r). r = r') (zip result (map f result))) = members f result r'"
  by (induction result) (auto simp: members_def)

lemma unselected_set [simp]: "set (unselected candidates result) = {i. i < length candidates \<and> i \<notin> set result}"
  by (auto simp: unselected_def)

lemma map_filter_Nil: "List.map_filter f xs = [] \<longleftrightarrow> (\<forall>x\<in>set xs. f x = None)"
  by (induction xs) (auto simp: List.map_filter_simps split: option.split)

lemma share_concat: "share_key ks (concat (map f xs)) \<longleftrightarrow> (\<exists>x\<in>set xs. share_key ks (f x))"
  by (auto simp: share_key_def list_ex_iff)

lemma referenced_Nil:
  "referenced_bridges candidates result = [] \<longleftrightarrow>
     (\<forall>i<length candidates. i \<notin> set result \<longrightarrow>
       \<not> (\<exists>a\<in>set result. \<exists>e\<in>set (ca_evidence_refs (candidates ! a)). atom_id_hash (ca_atom_id (candidates ! i)) = atom_id_hash (er_atom_id e)) \<and>
       \<not> (\<exists>a\<in>set result. \<exists>x\<in>set (ca_derived_claims (candidates ! a)). ca_node_num (candidates ! i) = cd_subj x))"
  unfolding referenced_bridges_def by (simp add: map_filter_Nil find_None_iff) blast

lemma same_gap_Nil:
  "same_gap_bridges candidates result = [] \<longleftrightarrow>
     (\<forall>i<length candidates. i \<notin> set result \<longrightarrow>
       \<not> (\<exists>a\<in>set result. set (ca_covers_gaps (candidates ! i)) \<inter> set (ca_covers_gaps (candidates ! a)) \<noteq> {}))"
  by (auto simp: same_gap_bridges_def filter_empty_conv list_ex_iff disjoint_iff)

lemma component_none:
  assumes "component_bridges candidates result (map g rs) = []" "(r, r') \<in> set (all_pairs rs)"
    and "i < length candidates" "i \<notin> set result"
  shows "\<not> ((\<exists>a\<in>set (g r). linked candidates i a) \<and> (\<exists>b\<in>set (g r'). linked candidates i b))"
proof -
  let ?keys = "\<lambda>comp. concat (map (\<lambda>i. bridge_keys (candidates ! i)) comp)"
  have "(g r, g r') \<in> set (all_pairs (map g rs))" using assms(2) by (force simp: all_pairs_map)
  with assms(1) have "find (\<lambda>i. share_key (bridge_keys (candidates ! i)) (?keys (g r))
      \<and> share_key (bridge_keys (candidates ! i)) (?keys (g r'))) (unselected candidates result) = None"
    unfolding component_bridges_def map_filter_Nil Let_def by fastforce
  with assms(3,4) show ?thesis by (simp add: find_None_iff share_concat linked_def) blast
qed

lemma component_Nil:
  assumes f: "\<And>a b. f a = f b \<longleftrightarrow> (a, b) \<in> joined candidates (set result)"
    and c: "component_bridges candidates result (map (members f result) (remdups (map f result))) = []"
    and i: "i < length candidates" "i \<notin> set result" "a \<in> set result" "b \<in> set result"
      "linked candidates i a" "linked candidates i b"
  shows "(a, b) \<in> joined candidates (set result)"
proof (rule ccontr)
  assume "(a, b) \<notin> joined candidates (set result)"
  then have "f a \<noteq> f b" by (simp add: f)
  with i have pair: "(f a, f b) \<in> set (all_pairs (remdups (map f result))) \<or> (f b, f a) \<in> set (all_pairs (remdups (map f result)))"
    by (intro all_pairs_either) auto
  have "a \<in> set (members f result (f a))" "b \<in> set (members f result (f b))" using i by (simp_all add: members_def)
  with pair component_none [OF c _ i(1,2)] i(5,6) show False by blast
qed

lemma all_pairs_differ: "distinct xs \<Longrightarrow> (a, b) \<in> set (all_pairs xs) \<Longrightarrow> a \<noteq> b"
  by (induction xs) auto

lemma find_found: "find P xs = Some x \<Longrightarrow> x \<in> set xs \<and> P x"
  by (induction xs) (auto split: if_splits)

lemma component_some:
  assumes f: "\<And>a b. f a = f b \<longleftrightarrow> (a, b) \<in> joined candidates (set result)"
    and x: "x \<in> set (component_bridges candidates result (map (members f result) (remdups (map f result))))"
  shows "x < length candidates \<and> x \<notin> set result \<and> helps candidates (set result) x"
proof -
  let ?keys = "\<lambda>comp. concat (map (\<lambda>i. bridge_keys (candidates ! i)) comp)"
  from x obtain r r' where pair: "(r, r') \<in> set (all_pairs (remdups (map f result)))"
    and found: "find (\<lambda>i. share_key (bridge_keys (candidates ! i)) (?keys (members f result r))
      \<and> share_key (bridge_keys (candidates ! i)) (?keys (members f result r'))) (unselected candidates result) = Some x"
    unfolding component_bridges_def all_pairs_map set_map_filter_iff by (auto simp: Let_def)
  from find_found [OF found] have "x \<in> set (unselected candidates result)" and "share_key (bridge_keys (candidates ! x)) (?keys (members f result r))"
    "share_key (bridge_keys (candidates ! x)) (?keys (members f result r'))" by blast+
  then obtain a b where ab: "a \<in> set result" "f a = r" "linked candidates x a" "b \<in> set result" "f b = r'" "linked candidates x b"
    unfolding share_concat by (auto simp: members_def linked_def)
  have "r \<noteq> r'" using all_pairs_differ [OF distinct_remdups pair] .
  with f ab(2,5) have "(a, b) \<notin> joined candidates (set result)" by blast
  with ab \<open>x \<in> set (unselected candidates result)\<close> show ?thesis unfolding helps_def by auto
qed

lemma referenced_same_unselected:
  "set (referenced_bridges candidates result) \<subseteq> set (unselected candidates result)"
  "set (same_gap_bridges candidates result) \<subseteq> set (unselected candidates result)"
proof -
  show "set (referenced_bridges candidates result) \<subseteq> set (unselected candidates result)"
    unfolding referenced_bridges_def using find_found by (fastforce simp: set_map_filter_iff simp del: unselected_set)
qed (auto simp: same_gap_bridges_def)

lemma connected_roots:
  assumes f: "\<And>a b. f a = f b \<longleftrightarrow> (a, b) \<in> joined candidates (set result)"
  shows "length (remdups (map f result)) \<le> 1 \<longleftrightarrow> connected_selection candidates (set result)"
proof -
  have "length (remdups (map f result)) = card (f ` set result)" by (simp add: length_remdups_card_conv)
  also have "\<dots> \<le> 1 \<longleftrightarrow> (\<forall>a\<in>set result. \<forall>b\<in>set result. f a = f b)"
    using card_le_Suc0_iff_eq [of "f ` set result"] by auto
  finally show ?thesis by (simp add: f connected_selection_def)
qed

text \<open>A round adds nothing exactly when the selection is connected or no candidate that is left helps; what it adds
  helps.\<close>

lemma bridges_spec:
  "\<exists>found. bridges candidates result = Some found \<and> set found \<subseteq> {i. i < length candidates \<and> i \<notin> set result} \<and>
     (found = [] \<longleftrightarrow> connected_selection candidates (set result) \<or>
        (\<forall>i<length candidates. i \<notin> set result \<longrightarrow> \<not> helps candidates (set result) i))"
proof -
  let ?keys = "\<lambda>i. bridge_keys (candidates ! i)"
  obtain p where p: "unite_pairs ?keys (all_pairs result) (map (\<lambda>i. (i, i)) result) = Some p"
    "represents p (shared ?keys (all_pairs result))"
    using unite_pairs_represents [OF represents_start, of ?keys "all_pairs result" result] by auto
  have f: "rep p a = rep p b \<longleftrightarrow> (a, b) \<in> joined candidates (set result)" for a b
    using p(2) by (simp add: represents_def classes_shared)
  obtain p1 where p1: "find_all result p = Some (map (rep p) result, p1)" "represents p1 (shared ?keys (all_pairs result))"
    "\<forall>y. rep p1 y = rep p y" using find_all_returns [OF p(2)] by metis
  have "rep p1 = rep p" using p1(3) by auto
  with find_all_returns [OF p1(2), of result] obtain p2 where p2: "find_all result p1 = Some (map (rep p) result, p2)" by auto
  show ?thesis
  proof (cases "connected_selection candidates (set result)")
    case True
    with connected_roots [OF f] show ?thesis by (simp add: bridges_def p(1) p1(1))
  next
    case False
    let ?c = "component_bridges candidates result (map (members (rep p) result) (remdups (map (rep p) result)))"
    let ?found = "if ?c = [] then if referenced_bridges candidates result = [] then same_gap_bridges candidates result
      else referenced_bridges candidates result else ?c"
    have "bridges candidates result = Some ?found"
      using False connected_roots [OF f] by (simp add: bridges_def p(1) p1(1) p2 members_eq [abs_def] Let_def)
    moreover have "set ?found \<subseteq> {i. i < length candidates \<and> i \<notin> set result}"
      using component_some [OF f] referenced_same_unselected [of candidates result] by (auto split: if_splits)
    moreover have "?found = [] \<longleftrightarrow> (\<forall>i<length candidates. i \<notin> set result \<longrightarrow> \<not> helps candidates (set result) i)"
    proof
      assume "?found = []"
      then have none: "?c = []" "referenced_bridges candidates result = []" "same_gap_bridges candidates result = []"
        by (auto split: if_splits)
      show "\<forall>i<length candidates. i \<notin> set result \<longrightarrow> \<not> helps candidates (set result) i"
      proof (intro allI impI)
        fix i assume i: "i < length candidates" "i \<notin> set result"
        from component_Nil [OF f none(1) i] none(2,3) i show "\<not> helps candidates (set result) i"
          unfolding helps_def referenced_Nil same_gap_Nil by blast
      qed
    next
      assume none: "\<forall>i<length candidates. i \<notin> set result \<longrightarrow> \<not> helps candidates (set result) i"
      then have "?c = []" using component_some [OF f] by (metis list.set_intros(1) neq_Nil_conv)
      moreover have "referenced_bridges candidates result = []" "same_gap_bridges candidates result = []"
        using none unfolding helps_def referenced_Nil same_gap_Nil by blast+
      ultimately show "?found = []" by simp
    qed
    ultimately show ?thesis using False by blast
  qed
qed


text \<open>The closure ends because the selection is connected, because nothing that is left helps, or because its ten rounds
  are used up, each of which added a candidate.\<close>

definition closed_selection :: "Candidate list \<Rightarrow> nat set \<Rightarrow> bool" where
  "closed_selection candidates R \<longleftrightarrow>
     connected_selection candidates R \<or> (\<forall>i<length candidates. i \<notin> R \<longrightarrow> \<not> helps candidates R i)"

lemma closure_loop_spec:
  "distinct result \<Longrightarrow> set result \<subseteq> {..<length candidates} \<Longrightarrow>
     \<exists>r. closure_loop n candidates result = Some r \<and> distinct r \<and> set result \<subseteq> set r \<and> set r \<subseteq> {..<length candidates} \<and>
       (closed_selection candidates (set r) \<or> length result + n \<le> length r)"
proof (induction n arbitrary: result)
  case (Suc n)
  obtain found where b: "bridges candidates result = Some found" "set found \<subseteq> {i. i < length candidates \<and> i \<notin> set result}"
    "found = [] \<longleftrightarrow> closed_selection candidates (set result)"
    using bridges_spec [of candidates result] unfolding closed_selection_def by blast
  show ?case
  proof (cases "found = []")
    case True
    with Suc.prems b show ?thesis by auto
  next
    case False
    let ?result = "fold List.insert found result"
    have "distinct ?result" "set ?result \<subseteq> {..<length candidates}" using Suc.prems b(2) by (auto simp: distinct_fold_insert)
    from Suc.IH [OF this] obtain r where r: "closure_loop n candidates ?result = Some r" "distinct r" "set ?result \<subseteq> set r"
      "set r \<subseteq> {..<length candidates}" "closed_selection candidates (set r) \<or> length ?result + n \<le> length r" by blast
    have "set result \<subset> set ?result" using False b(2) by (cases found) auto
    then have "card (set result) < card (set ?result)" by (intro psubset_card_mono) simp_all
    then have "length result < length ?result"
      using Suc.prems(1) \<open>distinct ?result\<close> by (simp only: distinct_card)
    with r b(1) False show ?thesis by auto
  qed
qed simp

lemma greedy_select_spec:
  "\<exists>r. greedy_select candidates gaps w schema = Some r \<and> distinct r \<and> set r \<subseteq> {..<length candidates} \<and>
     (let taken = sl_selected (greedy_loop candidates gaps w (selection_start candidates))
      in set taken \<subseteq> set r \<and>
         (if schema \<in> {ScTree, ScGraph, ScExplanation} \<and> 1 < length taken
          then sorted r \<and> (closed_selection candidates (set r) \<or> length taken + 10 \<le> length r)
          else r = taken))"
proof -
  let ?taken = "sl_selected (greedy_loop candidates gaps w (selection_start candidates))"
  have "greedy_inv candidates (greedy_loop candidates gaps w (selection_start candidates))"
    using greedy_loop_inv [OF greedy_inv_start] by blast
  then have taken: "distinct ?taken" "set ?taken \<subseteq> {..<length candidates}" by (auto simp: greedy_inv_def)
  show ?thesis
  proof (cases "schema \<in> {ScTree, ScGraph, ScExplanation} \<and> 1 < length ?taken")
    case True
    from closure_loop_spec [OF taken, of 10] obtain r where r: "closure_loop 10 candidates ?taken = Some r" "distinct r"
      "set ?taken \<subseteq> set r" "set r \<subseteq> {..<length candidates}"
      "closed_selection candidates (set r) \<or> length ?taken + 10 \<le> length r" by blast
    from True r(1) have "greedy_select candidates gaps w schema = Some (sort r)"
      using taken(1) by (auto simp: greedy_select_def add_connectivity_closure_def distinct_remdups_id Let_def)
    with True r show ?thesis by (simp add: Let_def)
  next
    case False
    then have "greedy_select candidates gaps w schema = Some ?taken"
      by (auto simp: greedy_select_def add_connectivity_closure_def Let_def)
    with taken False show ?thesis by (auto simp: Let_def)
  qed
qed

text \<open>
  C20: the greedy selection returns, whatever the candidates: the union-find structure it connects them with never has a
  cycle. It selects candidates by valid indices, none twice, and keeps all the greedy loop took. For an answer that is a
  chain (a tree, a graph or an explanation) with two candidates or more, the selection is in order and either connected,
  or no candidate that is left helps to connect it, or ten rounds have added ten candidates.
\<close>

theorem greedy_select_connects:
  "\<exists>r. greedy_select candidates gaps w schema = Some r \<and> distinct r \<and> set r \<subseteq> {..<length candidates} \<and>
     (let taken = sl_selected (greedy_loop candidates gaps w (selection_start candidates))
      in set taken \<subseteq> set r \<and>
         (if schema \<in> {ScTree, ScGraph, ScExplanation} \<and> 1 < length taken
          then sorted r \<and> (closed_selection candidates (set r) \<or> length taken + 10 \<le> length r)
          else r = taken))"
  by (rule greedy_select_spec)

text \<open>
  When the candidates have positive costs and name only gaps by their index, the selection covers every gap that some
  candidate covers.
\<close>

theorem greedy_select_covers:
  assumes "\<forall>c\<in>set candidates. f_lt fzero (candidate_cost w c) \<and> length (ca_covers_gaps c) < 2 ^ 44"
    and "\<forall>c\<in>set candidates. \<forall>i\<in>set (ca_covers_gaps c). unat i < length gaps"
    and "greedy_select candidates gaps w schema = Some r"
  shows "(\<Union>i\<in>set r. set (ca_covers_gaps (candidates ! i))) = (\<Union>c\<in>set candidates. set (ca_covers_gaps c))"
proof -
  let ?taken = "sl_selected (greedy_loop candidates gaps w (selection_start candidates))"
  have "set ?taken \<subseteq> set r" "set r \<subseteq> {..<length candidates}"
    using greedy_select_spec [of candidates gaps w schema] assms(3) by (auto simp: Let_def)
  moreover have "(\<Union>i\<in>set ?taken. set (ca_covers_gaps (candidates ! i))) = (\<Union>c\<in>set candidates. set (ca_covers_gaps c))"
    using assms(1,2) by (intro greedy_covers) (auto simp: costs_ok_def)
  ultimately show ?thesis by (fastforce simp: subset_iff)
qed

definition sample_candidate :: "AtomId \<Rightarrow> GapId list \<Rightarrow> Candidate" where
  "sample_candidate a gaps =
     \<lparr>ca_atom_id = a, ca_node_num = 3, ca_seg_id = 0, ca_offset = 0, ca_atom_type = FACT, ca_trust = 0,
      ca_estimated_io_bytes = 64, ca_source_backend = BkCas, ca_requires_invariant_check = True, ca_covers_gaps = gaps,
      ca_source_priority = PrCasExact, ca_hard_conflicts = 0, ca_soft_conflicts = 0, ca_age_ns = 0, ca_domain_mask = 0xFFFF,
      ca_evidence_refs = [], ca_derived_claims = [], ca_ann_requires_filtering = False, ca_branch_ctx_id = None\<rparr>"

definition unit_weights :: CostWeights where
  "unit_weights = (let one = f_lit binary64 1 1 in cost_weights_new one one one one one one one one)"

lemma sample_candidate_gaps [simp]: "ca_covers_gaps (sample_candidate a gs) = gs"
  by (simp add: sample_candidate_def)

lemma sample_candidate_cost: "f_lt fzero (candidate_cost unit_weights (sample_candidate a gs))"
proof -
  let ?one = "f_lit binary64 1 1"
  have one: "f_is ?one 1" by (rule f_is_lit) simp_all
  have "f_is (f64_of (64 :: u32)) (unat (64 :: u32))" "f_is (f64_of (0 :: u32)) (unat (0 :: u32))" by (rule f_is_f64_of; simp)+
  then have word: "f_is (f64_of (64 :: u32)) 64" "f_is (f64_of (0 :: u32)) 0" by simp_all
  have ten: "f_is (f_lit binary64 10 1) 10" by (rule f_is_lit) simp_all
  have "f_is (f_mul binary64 (f64_of (64 :: u32)) ?one) (64 * 1)" by (rule f_is_mul [OF word(1) one]) simp_all
  moreover have "f_is (f_mul binary64 ?one (f_lit binary64 10 1)) (1 * 10)" by (rule f_is_mul [OF one ten]) simp_all
  moreover have "f_is (f_mul binary64 ?one (f64_of (0 :: u32))) (1 * 0)" by (rule f_is_mul [OF one word(2)]) simp_all
  ultimately have "f_is (candidate_cost unit_weights (sample_candidate a gs)) ((((64 * 1 + 1 * 10) + 1 * 0) + 1 * 0) + 1)"
    unfolding candidate_cost_def sample_candidate_def unit_weights_def cost_weights_new_def trust_inverse_def Let_def
    by (simp only: Candidate.simps CostWeights.simps foldl_Cons foldl_Nil less_irrefl if_False)
      (intro f_is_add one; simp)
  then show ?thesis by (simp add: f_is_pos)
qed

theorem greedy_select_covers_witness:
  "\<exists>r. greedy_select [sample_candidate [7] [0], sample_candidate [9] [0, 1]] [sample_gap, sample_gap] unit_weights ScGraph = Some r \<and>
     (\<Union>i\<in>set r. set (ca_covers_gaps ([sample_candidate [7] [0], sample_candidate [9] [0, 1]] ! i))) = {0, 1}"
proof -
  let ?cs = "[sample_candidate [7] [0], sample_candidate [9] [0, 1]]"
  obtain r where r: "greedy_select ?cs [sample_gap, sample_gap] unit_weights ScGraph = Some r"
    using greedy_select_spec by blast
  have "\<forall>c\<in>set ?cs. f_lt fzero (candidate_cost unit_weights c) \<and> length (ca_covers_gaps c) < 2 ^ 44"
    "\<forall>c\<in>set ?cs. \<forall>i\<in>set (ca_covers_gaps c). unat i < length [sample_gap, sample_gap]"
    using sample_candidate_cost by simp_all
  from greedy_select_covers [OF this r] have "(\<Union>i\<in>set r. set (ca_covers_gaps (?cs ! i))) = {0, 1}" by auto
  with r show ?thesis by blast
qed

text \<open>
  Pruning keeps exactly the selected candidates that share a gap with another selected one; it drops those whose
  gaps nobody else covers, the reverse of what its name and its comment promise.
\<close>

theorem prune_keeps_redundant:
  "prune candidates selected =
     filter (\<lambda>idx. \<exists>other\<in>set selected. other \<noteq> idx \<and>
       set (ca_covers_gaps (candidates ! idx)) \<inter> set (ca_covers_gaps (candidates ! other)) \<noteq> {}) selected"
proof -
  have "uniquely_covered candidates selected idx \<longleftrightarrow> (\<exists>other\<in>set selected. other \<noteq> idx \<and>
       set (ca_covers_gaps (candidates ! idx)) \<inter> set (ca_covers_gaps (candidates ! other)) \<noteq> {})" for idx
    unfolding uniquely_covered_def list_ex_iff by auto
  then show ?thesis unfolding prune_def Let_def by (intro filter_cong) auto
qed

end
