(* ===== verification/Spec2Isabelle.thy ===== *)
theory Spec2Isabelle
  imports Crc32 Hlc Varint Bitpack Meta_Store Snapshot Vm_Abi Graph_Files Cas_Batch
    Id_Loc_Lookup Inverted_Index Query_Select
begin

text \<open>
  \<^bold>\<open>MemoryX: the replicated metadata layer, the atom store, the invariant machine, the graph and the queries.\<close>

  MemoryX is a knowledge store written in Rust. Its units are atoms: immutable records, addressed
  by their content, made of a header, a table of sections and the sections (claims, metadata,
  invariants, and others). An atom can carry its invariants as a program, which a small register
  machine runs before the atom is used. Nodes and atoms also carry metadata fields that several
  replicas change independently; the fields are conflict-free replicated data types (CRDTs), made
  durable by a write-ahead log and by snapshots. Typed edges between nodes are kept in a graph store.
  This library models \<open>utils/mod.rs\<close>, \<open>crdt/mod.rs\<close>, \<open>crdt/wal.rs\<close> and \<open>crdt/snapshot.rs\<close> (the
  replicated layer), \<open>cas/mod.rs\<close>, \<open>cas/io.rs\<close>, \<open>cas/invariants.rs\<close>, \<open>cas/claims.rs\<close>, \<open>index/mod.rs\<close>, \<open>vm/interpreter.rs\<close> and
  \<open>vm/abi.rs\<close> (atoms and their programs), \<open>graph/store.rs\<close> (the graph), and the types of
  \<open>store/mod.rs\<close> and \<open>prelude.rs\<close> they use (all under \<open>src/src/\<close>).

  \<^bold>\<open>How the parts work together.\<close> A write is stamped by the hybrid logical clock, changes a
  field of the \<open>MetaStore\<close>, and is appended as a record to a log file. After a crash the log is
  scanned up to its last complete record. Compaction sorts the records of a log by timestamp
  and joins them into a store; a snapshot is the indexed file of a store. Replicas exchange
  fields as bytes: export serialises them, import parses and joins them. Before an atom is used
  its INVARIANTS section is looked up in the body, its constants and code are decoded, views of
  the atom, of the query and of the context are built from the other sections, and the program
  is validated and run. Edges between nodes go to the newest delta layer of the graph store and into
  its reverse index; a compaction folds the delta layers into compressed rows, one layer per edge
  type; saving writes layers, deltas and a manifest.

  Atoms are appended as checksummed records to segment files; each segment has an index file with the
  first eight bytes of every atom and a Bloom filter, which a flush writes. A reader opens all segments and
  looks an atom up index by index. Compaction copies the latest record of each atom to new segments.

  The location index is a file that gives the segment, offset and node number of every atom: atoms are
  sorted into shards by the leading bits of their id, each shard has a Bloom filter and its entries in
  order. The inverted index maps words to the numbers of the atoms that contain them: a lexicon numbers the
  words, a posting list per word holds the node numbers in increasing order; both are saved in files.

  A query is a contract: targets, constraints, budgets and policies. It is checked and lowered to a goal. A
  goal is turned into gaps, pieces of knowledge that are missing, each with a pattern, hints and a priority.
  The planner orders the open gaps; the router asks four backends (the atom store, the inverted index, a walk
  over the graph, embeddings) for candidate atoms; constraints are evaluated on candidates; and a
  greedy set cover chooses the candidates whose benefit is highest for their cost.

  \<^bold>\<open>Theories.\<close>
  \<^item> \<open>Prelude\<close>: machine integers; the result type of a Rust function (a value, an error, or a
    panic, which the release profile turns into an abort); hash maps and hash sets as association
    lists and lists without repetition, in the order of their first insertion; ordered maps as
    sorted association lists; formatting of numbers.
  \<^item> \<open>Bytes\<close>: little-endian integers and readers that return the rest of their input. The
    locale \<open>codec\<close> states what a reader owes its writer; every format of the code is an
    interpretation of it, and loops over counted lists are proved once inside it.
  \<^item> \<open>Crc32\<close>: the table-driven checksum, and its bitwise reference.
  \<^item> \<open>Hlc\<close>: \<open>HLC\<close> and \<open>HLCGenerator\<close>; the system time is an argument.
  \<^item> \<open>Varint\<close>, \<open>Bitpack\<close>: the compressed integer encodings.
  \<^item> \<open>Join_Spec\<close>: what a CRDT promises. The locale \<open>replicated\<close> takes a merge, an invariant and
    a view in a semilattice, and proves that replicas that merged the same states, in any order,
    grouping and repetition, have the same view. Counters, registers, flag sets, sets and
    multi-value registers interpret it.
  \<^item> \<open>Counters\<close> (\<open>ActorId\<close>, \<open>GCounter\<close>, \<open>PNCounter\<close>), \<open>Registers\<close> (\<open>CrdtError\<close>, \<open>LWWReg\<close>,
    \<open>FlagSet\<close>), \<open>Or_Set\<close> (\<open>ORSet\<close>), \<open>Or_Map\<close> (\<open>ORMap\<close>), \<open>Mv_Reg\<close> (\<open>MVReg\<close>): the data types of
    \<open>crdt/mod.rs\<close>, each with its updates, its merge and its byte format.
  \<^item> \<open>Crdt_State\<close>: \<open>CrdtKind\<close>, the nested \<open>CrdtState\<close>, \<open>join\<close>, \<open>to_bytes\<close> and
    \<open>deserialize_payload\<close>.
  \<^item> \<open>Wal\<close>: record header, keys, records, \<open>WalWriter\<close>, \<open>WalIterator\<close>, \<open>WalReader\<close>, and the
    utilities \<open>validate_wal\<close>, \<open>compact_wal\<close>, \<open>recover_wal_tail\<close>. A file is its list of bytes.
  \<^item> \<open>Meta_Store\<close>: \<open>MetaStore\<close> and \<open>CompactionScheduler\<close>.
  \<^item> \<open>Snapshot\<close>: the snapshot file, its builder and its reader.
  \<^item> \<open>Store_Types\<close>: the enumerations of \<open>store/mod.rs\<close> with their codes, and the time range and
    query constraints of \<open>prelude.rs\<close>.
  \<^item> \<open>Atom_Body\<close>: record header, body header, section descriptors and record views of
    \<open>cas/mod.rs\<close>. \<open>Invariants\<close> and \<open>Claims\<close>: the two sections the machine reads
    (\<open>cas/invariants.rs\<close>, \<open>cas/claims.rs\<close>).
  \<^item> \<open>Vm_Code\<close>: opcodes, instructions, constants, the builder and the built-in programs;
    \<open>Vm_Views\<close>: what a program can look at, and the context index; \<open>Vm\<close>: the validator, the
    instructions and the run loop. The loop is a partial function in the option monad, so that a
    run that does not end is \<open>None\<close>.
  \<^item> \<open>Vm_Run\<close> (frames, the rule of the loop, termination), \<open>Vm_Forward\<close> (what the validator
    guarantees), \<open>Vm_Programs\<close> (runs evaluated): the properties of the machine.
  \<^item> \<open>Vm_Abi\<close>: the entry point \<open>eval_invariants\<close> from the bytes of an atom body.
  \<^item> \<open>Graph_Format\<close>: records, rows and layers of \<open>graph/store.rs\<close> and their files; \<open>Graph_Store\<close>: the
    store, its builder, updates, queries, compaction, saving and loading. \<open>Graph_Queries\<close>,
    \<open>Graph_Paths\<close>, \<open>Graph_Compaction\<close>, \<open>Graph_Files\<close>: what queries answer, the search, what a
    compaction keeps, and what survives a save and a load. The stores that arise without a
    compaction are the inductive predicate \<open>grown\<close>.
  \<^item> \<open>Cas_Files\<close>: Bloom filter, segment files and index files of \<open>cas/io.rs\<close>; \<open>Cas_Store\<close>: writer, reader,
    iterators, compactor and \<open>CasStore\<close>. A directory is a map from file names to bytes; a handle has a
    position. \<open>Cas_Segments\<close>: what segments and indexes hold, with the locale \<open>approximate_set\<close> that states
    what the index expects of the filter; \<open>Cas_Reopen\<close>: the invariant of the writer and what a
    reader finds, over several runs; \<open>Cas_Compaction\<close>: what a compaction keeps, and when it does not end;
    \<open>Cas_Batch\<close>: \<open>SegmentIndex\<close>, \<open>CoalescedReader\<close> and \<open>SegmentCompactor\<close>.

  \<^item> \<open>Id_Loc\<close>: the location index of \<open>index/mod.rs\<close>: \<open>IdLocIndex\<close>, \<open>IdLocBuilder\<close>, \<open>IdLocView\<close>; \<open>Id_Loc_Lookup\<close>:
    what a built file holds and what a lookup in it finds. \<open>Postings\<close>, \<open>Lexicon\<close>, \<open>Inverted_Index\<close>: posting
    lists with their difference coding, the lexicon with its blocks of shared prefixes, and both together.

  \<^item> \<open>Floats\<close>: floating-point numbers as finite numbers of a format, infinities and a NaN, with rounding to
    nearest and ties to even; integers below \<open>2 ^ 53\<close> are exact. \<open>Query_Types\<close>: patterns, gaps and weights of \<open>store/api.rs\<close>
    and \<open>store/mod.rs\<close>. \<open>Query_Contract\<close>: \<open>query/contract.rs\<close> with the goal of \<open>query/solver.rs\<close>; \<open>Query_Constraints\<close>:
    \<open>query/constraints.rs\<close>; \<open>Query_Router\<close>: \<open>query/router.rs\<close> and \<open>query/retrieval.rs\<close>; \<open>Set_Cover\<close>: \<open>query/set_cover.rs\<close>;
    \<open>Query_Gaps\<close>: \<open>query/gap_generator.rs\<close> and the \<open>BackwardWaveGenerator\<close> of \<open>query/solver.rs\<close>; \<open>Query_Planner\<close>:
    \<open>query/planner.rs\<close>; \<open>Query_Solver\<close>: what \<open>query/solver.rs\<close> does to its candidates (its configuration, ratios, the merge of
    repeated candidates, the filters, the matching of claims); \<open>Query_Select\<close>: its greedy selection with the
    connectivity closure and the pruning.

  \<^bold>\<open>What the lemmas show.\<close> Properties have a number; other theorems are named.
  \<^item> Durability: what is appended is read back (C1), a torn append loses nothing before
    it (C5), local corruption is detected (C6, C8, C39), and a snapshot
    answers like the map it was built from (C7).
  \<^item> Atoms: what was written and flushed is found, over restarts (C2), iteration yields it
    (C14), compaction keeps the latest records (C13); and where atoms are lost or a call does
    not return (C15, C29, C30, C31, \<open>unflushed_not_found\<close>).
  \<^item> Indexes: an atom is found where it was added (C16, \<open>idloc_builds_agree\<close>) unless ids share a prefix
    (\<open>idloc_prefix_collision\<close>), a word gives the atoms that contain it (C17), and a save and a load
    mix up words or fail (\<open>reload_permutes\<close>, \<open>reload_panics\<close>).
  \<^item> Formats: states, fields, blocks, claims, sections and records are read back as written
    (C9, C38, C40), within known sizes (\<open>wal_record_layout\<close>).
  \<^item> Replication: exchange, merge and compaction compute joins (C10, C11, C12); the data types converge
    (C32, C34) and mean what they say (C33).
  \<^item> Time: stamps of one thread increase within a period of the 48 bits (\<open>hlc_generator_increasing\<close>), not beyond (\<open>hlc_generator_wraps\<close>).
  \<^item> The machine: its state stays well-formed (C35), runs end (C25, C27), what the validator
    guarantees and what it misses (C3, \<open>validator_misses\<close>), what the
    built-in programs decide, alone and from the bytes of an atom (C24, C26), conflicts
    (C37), and how the entry point fails open (C36).
  \<^item> The graph: the newest entry decides (C28), the reverse index agrees with it (C22),
    path search decides bounded reachability (C4), what is saved is loaded (C23),
    and where edges are lost (C21, \<open>neighbors_drops_edges\<close>).
  \<^item> Queries: what the router offers is never final (\<open>route_safe\<close>) and deduplicated by priority
    (\<open>dedup_keeps_best\<close>, \<open>lexical_intersection\<close>); the cover is complete when it can be (C18, \<open>set_cover_covers\<close>), keeps
    its budget (\<open>budget_respected\<close>), and may claim too much (\<open>set_cover_false_complete\<close>); which goals have gaps (\<open>wave_empty\<close>,
    \<open>wave_numbered\<close>, \<open>templates_never_empty\<close>); the last candidates are the admissible ones (\<open>final_candidates\<close>), none for a
    contract bound to a time (C19); the selection covers what can be covered and connects it
    (C20, \<open>greedy_select_covers\<close>, and the pruning nobody calls \<open>prune_keeps_redundant\<close>); plans keep budgets and
    trust (\<open>plan_within_budgets\<close>, \<open>federated_plan_safe\<close>, \<open>plan_complete\<close>).

  \<^bold>\<open>Conventions and bounds.\<close> Arithmetic is that of a release build: it wraps, casts
  truncate. Indexing and slicing out of range is \<open>Panic\<close> wherever the code does not exclude it.
  Lengths and offsets of buffers (\<open>usize\<close>, 64 bits) are natural numbers; they are words where the
  code stores them or computes them from stored values. Allocation succeeds, except where the size
  is refused by the allocator's interface. No definition uses fuel: loops recurse on their input,
  on a counter, or on what is left of the file (each complete record takes at least 50 bytes),
  with the measures given where they are defined; loops that may not end (the run loop of the machine, the
  search for a record, the retries of a compaction, the walks along the links of a union-find structure) are partial functions, and where they end is a
  theorem. Storable-ness predicates bound lengths by
  \<open>2 ^ 32\<close>, the range of the length fields; the bound \<open>2 ^ 62\<close> on a snapshot keeps its offsets
  from wrapping; the bound \<open>2 ^ 60\<close> on graphs (\<open>small\<close>) does so for byte offsets of rows. JSON (\<open>serde_json\<close>) is a parameter, a pair of a serialiser and a parser; so are the lower-casing of Unicode text, the debug text of a
  reason and the search of the embedding index. The machine handles floating-point constants as their 64 bits; the
  query layer computes with the numbers of \<open>Floats\<close>. A hash map is iterated in the order of insertion, one of the orders
  the code may take.

  \<^bold>\<open>Not modelled.\<close> I/O errors other than the end of a file; \<open>sync\<close>; message texts; the
  interleaving of threads inside the clock generator; the float conversion of a constant; the
  other sections of an atom (edges, evidence, references, symbols), memory maps of segments and the
  canonical form; the bit-packed block of the graph module; the fixed-point loop of the solver, which is driven
  by the wall clock, and the natural-language compiler; the federation protocol and the
  operation transactions, which drive files, locks and the operating system.
\<close>

end
